(* ===== verification/Q2W_Prelude.thy ===== *)
theory Q2W_Prelude
  imports Main "HOL-Library.Word"
begin

unbundle bit_operations_syntax

text \<open>
  Shared vocabulary of the development: the machine types of \<open>quake2world.h\<close> as
  words, C strings as HOL strings without their terminator, the ways an operation of
  the engine can fail to return (\<open>q2w_error\<close>), sequencing of operations that can fail,
  and the generic lemmas on lists and words that the component theories share.
\<close>

section \<open>Machine types\<close>

type_synonym byte = "8 word"
type_synonym uint8 = "8 word"
type_synonym uint16 = "16 word"
type_synonym int16 = "16 word"
type_synonym uint32 = "32 word"

text \<open>Constants of \<open>quake2world.h\<close>, \<open>common.h\<close> and \<open>net.h\<close>.\<close>

definition MAX_STRING_CHARS :: nat where "MAX_STRING_CHARS = 1024"
definition MAX_STRING_TOKENS :: nat where "MAX_STRING_TOKENS = 128"
definition MAX_TOKEN_CHARS :: nat where "MAX_TOKEN_CHARS = 256"
definition MAX_EDICTS :: nat where "MAX_EDICTS = 1024"
definition MAX_MSG_SIZE :: nat where "MAX_MSG_SIZE = 1400"

named_theorems limits \<open>the engine's compile-time limits\<close>
declare MAX_STRING_CHARS_def [limits] MAX_STRING_TOKENS_def [limits]
  MAX_TOKEN_CHARS_def [limits] MAX_EDICTS_def [limits] MAX_MSG_SIZE_def [limits]

section \<open>Failure\<close>

text \<open>
  \<open>Sig_Abort\<close> is \<open>raise(SIGABRT)\<close>; \<open>Err_Fatal\<close> and \<open>Err_Drop\<close> are the two
  non-returning forms of \<open>Com_Error\<close>; \<open>Bad_Access\<close> is a read or a write outside an
  object, which C leaves undefined and the model reports.
\<close>

datatype q2w_error = Sig_Abort | Err_Fatal string | Err_Drop string | Bad_Access

type_synonym 'a result = "q2w_error + 'a"

definition bindE :: "'e + 'a \<Rightarrow> ('a \<Rightarrow> 'e + 'b) \<Rightarrow> 'e + 'b" where
  "bindE r f = (case r of Inl e \<Rightarrow> Inl e | Inr x \<Rightarrow> f x)"

lemma bindE_simps [simp]:
  "bindE (Inl e) f = Inl e"
  "bindE (Inr x) f = f x"
  by (simp_all add: bindE_def)

lemma bindE_eq_Inr: "bindE r f = Inr y \<longleftrightarrow> (\<exists>x. r = Inr x \<and> f x = Inr y)"
  by (cases r) auto

lemma bindE_assoc: "bindE (bindE r f) g = bindE r (\<lambda>x. bindE (f x) g)"
  by (cases r) simp_all

lemma bindE_cong [fundef_cong]:
  "r = r' \<Longrightarrow> (\<And>x. r' = Inr x \<Longrightarrow> f x = g x) \<Longrightarrow> bindE r f = bindE r' g"
  by (cases r') simp_all

text \<open>
  The same for code with a loop that may not end (\<open>None\<close>); the recursive calls of a
  \<open>partial_function\<close> may stand in both arguments.
\<close>

type_synonym 'a run = "'a result option"

definition bindO :: "'a run \<Rightarrow> ('a \<Rightarrow> 'b run) \<Rightarrow> 'b run" where
  "bindO r f = Option.bind r (\<lambda>x. case x of Inl e \<Rightarrow> Some (Inl e) | Inr y \<Rightarrow> f y)"

lemma bindO_simps [simp]:
  "bindO None f = None" "bindO (Some (Inl e)) f = Some (Inl e)" "bindO (Some (Inr x)) f = f x"
  by (simp_all add: bindO_def)

lemma bindO_eq_Inr: "bindO r f = Some (Inr y) \<longleftrightarrow> (\<exists>x. r = Some (Inr x) \<and> f x = Some (Inr y))"
  by (cases r) (auto simp: bindO_def split: sum.splits)

lemma bindO_mono [partial_function_mono]:
  assumes "mono_option B" and "\<And>y. mono_option (\<lambda>f. C y f)"
  shows "mono_option (\<lambda>f. bindO (B f) (\<lambda>y. C y f))"
  unfolding bindO_def
proof (rule Partial_Function.bind_mono [OF assms(1)])
  show "mono_option (\<lambda>f. case y of Inl e \<Rightarrow> Some (Inl e) | Inr y \<Rightarrow> C y f)" for y
    using assms(2) by (cases y) (simp_all add: partial_function_mono)
qed

text \<open>A sequence of statements on one object, stopping at the first that does not return.\<close>

primrec run_seq :: "('s \<Rightarrow> 'e + 's) list \<Rightarrow> 's \<Rightarrow> 'e + 's" where
  "run_seq [] s = Inr s"
| "run_seq (f # fs) s = bindE (f s) (run_seq fs)"

lemma run_seq_append: "run_seq (fs @ gs) s = bindE (run_seq fs s) (run_seq gs)"
  by (induction fs arbitrary: s) (simp_all add: bindE_def split: sum.splits)

text \<open>An \<open>if\<close> statement without \<open>else\<close>.\<close>

definition when_do :: "bool \<Rightarrow> ('s \<Rightarrow> 'e + 's) \<Rightarrow> 's \<Rightarrow> 'e + 's" where
  "when_do c f s = (if c then f s else Inr s)"

lemma when_do_simps [simp]:
  "when_do True f = f"
  "when_do False f = Inr"
  by (simp_all add: when_do_def fun_eq_iff)

section \<open>Arrays written in place\<close>

text \<open>Reading an array at an index.\<close>

definition at_index :: "'a list \<Rightarrow> int \<Rightarrow> 'a result" where
  "at_index xs i = (if 0 \<le> i \<and> nat i < length xs then Inr (xs ! nat i) else Inl Bad_Access)"

lemma at_index_eq_Inr: "at_index xs i = Inr x \<longleftrightarrow> 0 \<le> i \<and> nat i < length xs \<and> x = xs ! nat i"
  by (auto simp: at_index_def)

lemma length_filter_update:
  "i < length xs \<Longrightarrow> P (xs ! i) \<Longrightarrow> \<not> P x \<Longrightarrow>
   length (filter P (xs[i := x])) < length (filter P xs)"
proof (induction xs arbitrary: i)
  case (Cons a xs)
  then show ?case by (cases i) auto
qed simp

text \<open>\<open>store_bytes p bs xs\<close> writes \<open>bs\<close> to the array \<open>xs\<close> from index \<open>p\<close> on.\<close>

primrec store_bytes :: "nat \<Rightarrow> 'a list \<Rightarrow> 'a list \<Rightarrow> 'a list" where
  "store_bytes p [] xs = xs"
| "store_bytes p (b # bs) xs = store_bytes (Suc p) bs (xs[p := b])"

lemma length_store_bytes [simp]: "length (store_bytes p bs xs) = length xs"
  by (induction bs arbitrary: p xs) simp_all

lemma take_store_bytes_before: "n \<le> p \<Longrightarrow> take n (store_bytes p bs xs) = take n xs"
  by (induction bs arbitrary: p xs) (simp_all add: take_update_cancel)

lemma take_store_bytes:
  "p + length bs \<le> length xs \<Longrightarrow> take (p + length bs) (store_bytes p bs xs) = take p xs @ bs"
proof (induction bs arbitrary: p xs)
  case Nil
  then show ?case by simp
next
  case (Cons b bs)
  have "take (Suc p + length bs) (store_bytes (Suc p) bs (xs[p := b]))
      = take (Suc p) (xs[p := b]) @ bs"
    using Cons.prems by (intro Cons.IH) simp
  moreover have "take (Suc p) (xs[p := b]) = take p xs @ [b]"
    using Cons.prems by (simp add: take_Suc_conv_app_nth take_update_cancel)
  ultimately show ?case by simp
qed

lemma drop_store_bytes:
  "p + length bs \<le> n \<Longrightarrow> drop n (store_bytes p bs xs) = drop n xs"
  by (induction bs arbitrary: p xs) (simp_all add: drop_update_cancel)

lemma store_bytes_append:
  "store_bytes p (as @ bs) xs = store_bytes (p + length as) bs (store_bytes p as xs)"
  by (induction as arbitrary: p xs) simp_all

section \<open>C characters and strings\<close>

text \<open>
  The development reads \<open>char\<close> as signed, as the compilers the project targets do: a
  byte from 128 up is a negative number in a comparison.
\<close>

definition schar :: "char \<Rightarrow> int" where
  "schar c = (let n = of_char c in if n < 128 then n else n - 256)"

definition byte_of_char :: "char \<Rightarrow> byte" where
  "byte_of_char c = word_of_nat (of_char c)"

definition char_of_byte :: "byte \<Rightarrow> char" where
  "char_of_byte b = char_of (unat b)"

lemma char_of_byte_of_char [simp]: "char_of_byte (byte_of_char c) = c"
proof -
  have "of_char c < (256 :: nat)" by simp
  then show ?thesis
    by (simp add: char_of_byte_def byte_of_char_def unat_of_nat take_bit_eq_mod)
qed

lemma byte_of_char_of_byte [simp]: "byte_of_char (char_of_byte b) = b"
proof -
  have "unat b < 256" using unsigned_less [of b, where 'a = nat] by simp
  then show ?thesis
    by (simp add: char_of_byte_def byte_of_char_def)
qed

lemma byte_of_char_eq_iff [simp]: "byte_of_char c = byte_of_char d \<longleftrightarrow> c = d"
  by (metis char_of_byte_of_char)

end
