(* ===== verification/Mem_Buffer.thy ===== *)
theory Mem_Buffer
  imports Q2W_Prelude
begin

text \<open>
  \<open>src/mem_buf.c\<close>: the fixed-size buffer in which net messages and command text
  accumulate. \<open>mem_buf\<close> is \<open>mem_buf_t\<close>; \<open>buf_data\<close> is the array its \<open>data\<close> field
  points to, \<open>buf_size\<close> its \<open>size\<close> and \<open>read_pos\<close> its \<open>read\<close>. The locale
  \<open>byte_sink\<close> states what a writer of bytes relies on, and is interpreted on
  \<open>Mem_WriteBuffer\<close>.
\<close>

record mem_buf =
  allow_overflow :: bool
  overflowed :: bool
  buf_data :: "byte list"
  max_size :: nat
  buf_size :: nat
  read_pos :: nat

definition Mem_InitBuffer :: "byte list \<Rightarrow> nat \<Rightarrow> mem_buf" where
  "Mem_InitBuffer bytes len =
     \<lparr>allow_overflow = False, overflowed = False, buf_data = bytes, max_size = len,
      buf_size = 0, read_pos = 0\<rparr>"

definition Mem_ClearBuffer :: "mem_buf \<Rightarrow> mem_buf" where
  "Mem_ClearBuffer buf = buf\<lparr>buf_size := 0, overflowed := False\<rparr>"

text \<open>The result is the offset of the returned pointer into \<open>data\<close>, and the buffer.\<close>

definition Mem_AllocBuffer :: "mem_buf \<Rightarrow> nat \<Rightarrow> (nat \<times> mem_buf) result" where
  "Mem_AllocBuffer buf len =
     (if buf_size buf + len > max_size buf
      then (if \<not> allow_overflow buf then Inl Sig_Abort
            else if len > max_size buf then Inl Sig_Abort
            else let buf = (Mem_ClearBuffer buf)\<lparr>overflowed := True\<rparr>
                 in Inr (buf_size buf, buf\<lparr>buf_size := buf_size buf + len\<rparr>))
      else Inr (buf_size buf, buf\<lparr>buf_size := buf_size buf + len\<rparr>))"

text \<open>\<open>store_at p bs\<close> is the \<open>memcpy\<close> (or the assignments) through the pointer.\<close>

definition store_at :: "nat \<Rightarrow> byte list \<Rightarrow> mem_buf \<Rightarrow> mem_buf" where
  "store_at p bs buf = buf\<lparr>buf_data := store_bytes p bs (buf_data buf)\<rparr>"

definition Mem_WriteBuffer :: "byte list \<Rightarrow> mem_buf \<Rightarrow> mem_buf result" where
  "Mem_WriteBuffer bytes buf =
     bindE (Mem_AllocBuffer buf (length bytes)) (\<lambda>(p, buf). Inr (store_at p bytes buf))"

subsection \<open>What a buffer holds\<close>

definition contents :: "mem_buf \<Rightarrow> byte list" where
  "contents buf = take (buf_size buf) (buf_data buf)"

definition wf_buf :: "mem_buf \<Rightarrow> bool" where
  "wf_buf buf \<longleftrightarrow> buf_size buf \<le> max_size buf \<and> length (buf_data buf) = max_size buf"

definition room :: "mem_buf \<Rightarrow> nat" where
  "room buf = max_size buf - buf_size buf"

lemma wf_InitBuffer [simp]: "wf_buf (Mem_InitBuffer bytes (length bytes))"
  by (simp add: wf_buf_def Mem_InitBuffer_def)

lemma contents_InitBuffer [simp]: "contents (Mem_InitBuffer bytes len) = []"
  by (simp add: contents_def Mem_InitBuffer_def)

lemma room_InitBuffer [simp]: "room (Mem_InitBuffer bytes len) = len"
  by (simp add: room_def Mem_InitBuffer_def)

lemma length_contents: "wf_buf buf \<Longrightarrow> length (contents buf) = buf_size buf"
  by (simp add: contents_def wf_buf_def)

lemma contents_ClearBuffer [simp]: "contents (Mem_ClearBuffer buf) = []"
  by (simp add: contents_def Mem_ClearBuffer_def)

lemma wf_ClearBuffer [simp]: "wf_buf buf \<Longrightarrow> wf_buf (Mem_ClearBuffer buf)"
  by (simp add: wf_buf_def Mem_ClearBuffer_def)

text \<open>The three outcomes of a write, for a well-formed buffer.\<close>

definition appended :: "byte list \<Rightarrow> mem_buf \<Rightarrow> mem_buf" where
  "appended bs buf =
     store_at (buf_size buf) bs (buf\<lparr>buf_size := buf_size buf + length bs\<rparr>)"

lemma Mem_WriteBuffer_fits:
  "buf_size buf + length bs \<le> max_size buf \<Longrightarrow> Mem_WriteBuffer bs buf = Inr (appended bs buf)"
  by (simp add: Mem_WriteBuffer_def Mem_AllocBuffer_def appended_def)

lemma Mem_WriteBuffer_overflow:
  "max_size buf < buf_size buf + length bs \<Longrightarrow> allow_overflow buf \<Longrightarrow> length bs \<le> max_size buf \<Longrightarrow>
   Mem_WriteBuffer bs buf = Inr (appended bs ((Mem_ClearBuffer buf)\<lparr>overflowed := True\<rparr>))"
  by (simp add: Mem_WriteBuffer_def Mem_AllocBuffer_def appended_def Let_def Mem_ClearBuffer_def)

lemma Mem_WriteBuffer_abort:
  "max_size buf < buf_size buf + length bs \<Longrightarrow> \<not> allow_overflow buf \<or> max_size buf < length bs \<Longrightarrow>
   Mem_WriteBuffer bs buf = Inl Sig_Abort"
  by (auto simp: Mem_WriteBuffer_def Mem_AllocBuffer_def)

lemma appended_simps [simp]:
  "allow_overflow (appended bs buf) = allow_overflow buf"
  "overflowed (appended bs buf) = overflowed buf"
  "max_size (appended bs buf) = max_size buf"
  "buf_size (appended bs buf) = buf_size buf + length bs"
  "read_pos (appended bs buf) = read_pos buf"
  "length (buf_data (appended bs buf)) = length (buf_data buf)"
  by (simp_all add: appended_def store_at_def)

lemma appended_appended: "appended cs (appended bs buf) = appended (bs @ cs) buf"
  by (simp add: appended_def store_at_def store_bytes_append)

lemma appended_Nil [simp]: "appended [] buf = buf"
  by (simp add: appended_def store_at_def)

lemma wf_appended:
  "wf_buf buf \<Longrightarrow> buf_size buf + length bs \<le> max_size buf \<Longrightarrow> wf_buf (appended bs buf)"
  by (simp add: wf_buf_def)

lemma contents_appended:
  "wf_buf buf \<Longrightarrow> buf_size buf + length bs \<le> max_size buf \<Longrightarrow>
   contents (appended bs buf) = contents buf @ bs"
  by (simp add: contents_def appended_def store_at_def wf_buf_def take_store_bytes)

subsection \<open>The interface a message writer relies on\<close>

text \<open>
  A sink takes the bytes it is given as long as it has room for them, keeps its invariant
  and adds nothing else. \<open>emits w bs\<close>: the writer \<open>w\<close> puts exactly the bytes \<open>bs\<close>
  into every sink with room for them.
\<close>

locale byte_sink =
  fixes put :: "byte list \<Rightarrow> 's \<Rightarrow> 's result"
    and held :: "'s \<Rightarrow> byte list"
    and free :: "'s \<Rightarrow> nat"
    and ok :: "'s \<Rightarrow> bool"
  assumes put_ok:
    "ok s \<Longrightarrow> length bs \<le> free s \<Longrightarrow>
     \<exists>s'. put bs s = Inr s' \<and> held s' = held s @ bs \<and> free s' = free s - length bs \<and> ok s'"
begin

definition emits :: "('s \<Rightarrow> 's result) \<Rightarrow> byte list \<Rightarrow> bool" where
  "emits w bs \<longleftrightarrow> (\<forall>s. ok s \<longrightarrow> length bs \<le> free s \<longrightarrow>
     (\<exists>s'. w s = Inr s' \<and> held s' = held s @ bs \<and> free s' = free s - length bs \<and> ok s'))"

lemma emits_put [intro]: "emits (put bs) bs"
  unfolding emits_def using put_ok by blast

lemma emits_skip [intro]: "emits Inr []"
  by (simp add: emits_def)

lemma emits_bind:
  assumes "emits v as" and "emits w bs"
  shows "emits (\<lambda>s. bindE (v s) w) (as @ bs)"
  unfolding emits_def
proof (intro allI impI)
  fix s assume s: "ok s" "length (as @ bs) \<le> free s"
  then obtain s1 where s1: "v s = Inr s1" "held s1 = held s @ as"
      "free s1 = free s - length as" "ok s1"
    using assms(1) unfolding emits_def by (metis add_leE length_append)
  moreover from s s1 obtain s2 where "w s1 = Inr s2" "held s2 = held s1 @ bs"
      "free s2 = free s1 - length bs" "ok s2"
    using assms(2) unfolding emits_def by fastforce
  ultimately show "\<exists>s'. bindE (v s) w = Inr s' \<and> held s' = held s @ as @ bs \<and>
      free s' = free s - length (as @ bs) \<and> ok s'"
    by auto
qed

lemma emits_guarded [intro]: "emits w bs \<Longrightarrow> emits (when_do c w) (if c then bs else [])"
  by (cases c) (simp_all add: emits_def)

lemma emits_run_seq:
  "list_all2 emits ws bss \<Longrightarrow> emits (run_seq ws) (concat bss)"
proof (induction ws bss rule: list_all2_induct)
  case Nil
  then show ?case by (simp add: emits_def)
next
  case (Cons w ws bs bss)
  then have "emits (\<lambda>s. bindE (w s) (run_seq ws)) (bs @ concat bss)"
    by (intro emits_bind)
  then show ?case by (simp add: emits_def)
qed

lemma emitsD:
  "emits w bs \<Longrightarrow> ok s \<Longrightarrow> length bs \<le> free s \<Longrightarrow>
   \<exists>s'. w s = Inr s' \<and> held s' = held s @ bs \<and> free s' = free s - length bs \<and> ok s'"
  by (simp add: emits_def)

end

interpretation msg: byte_sink Mem_WriteBuffer contents room wf_buf
proof
  fix s :: mem_buf and bs :: "byte list"
  assume ok: "wf_buf s" and len: "length bs \<le> room s"
  then have fits: "buf_size s + length bs \<le> max_size s"
    by (auto simp: room_def wf_buf_def)
  then show "\<exists>s'. Mem_WriteBuffer bs s = Inr s' \<and> contents s' = contents s @ bs \<and>
      room s' = room s - length bs \<and> wf_buf s'"
    using ok by (auto simp: Mem_WriteBuffer_fits contents_appended wf_appended room_def)
qed

end
