(* ===== verification/Float_Model.thy ===== *)
theory Float_Model
  imports Complex_Main Q2W_Prelude
begin

text \<open>
  \<open>vec_t\<close> is \<open>float\<close>. A finite float is a rational number, so \<open>vec_t\<close> is modelled
  as \<open>rat\<close>; an operation whose exact result may not be representable is written with
  the rounding the hardware does (\<open>flt\<close> to 24 significant bits, \<open>dbl\<close> to 53, nearest
  even). Infinities, NaNs and the subnormal range do not occur in the code modelled on
  top of this theory. \<open>trunc\<close> is the conversion to an integer type, which drops the
  fraction.
\<close>

type_synonym vec_t = rat

datatype 'a vec3 = Vec3 (vx: 'a) (vy: 'a) (vz: 'a)

type_synonym vec3_t = "vec_t vec3"

definition trunc :: "rat \<Rightarrow> int" where
  "trunc x = (if x < 0 then - \<lfloor>- x\<rfloor> else \<lfloor>x\<rfloor>)"

definition round_half_even :: "rat \<Rightarrow> int" where
  "round_half_even y =
     (let f = \<lfloor>y\<rfloor>; r = y - of_int f
      in if r < 1 / 2 then f else if r > 1 / 2 then f + 1 else if even f then f else f + 1)"

definition pow2 :: "int \<Rightarrow> rat" where
  "pow2 e = (if e \<ge> 0 then 2 ^ nat e else 1 / 2 ^ nat (- e))"

function nbits :: "int \<Rightarrow> int" where
  "nbits n = (if n \<le> 0 then 0 else 1 + nbits (n div 2))"
  by pat_completeness auto
termination
  by (relation "measure nat") auto

declare nbits.simps [simp del]

text \<open>The exponent \<open>e\<close> with \<open>2 ^ e \<le> x < 2 ^ (e + 1)\<close>, for a positive \<open>x\<close>.\<close>

definition exponent :: "rat \<Rightarrow> int" where
  "exponent x =
     (let (n, d) = quotient_of x; e = nbits n - nbits d
      in if x < pow2 e then e - 1 else e)"

definition round_to :: "nat \<Rightarrow> rat \<Rightarrow> rat" where
  "round_to p x =
     (if x = 0 then 0
      else let u = pow2 (exponent \<bar>x\<bar> - (int p - 1)) in of_int (round_half_even (x / u)) * u)"

definition flt :: "rat \<Rightarrow> rat" where "flt = round_to 24"
definition dbl :: "rat \<Rightarrow> rat" where "dbl = round_to 53"

lemma trunc_of_int [simp]: "trunc (of_int k) = k"
  by (simp add: trunc_def flip: of_int_minus)

lemma trunc_bounds: "\<bar>of_int (trunc x) - x\<bar> < 1"
  by (cases "x < 0") (simp_all add: trunc_def abs_if, linarith+)

lemma trunc_mono_range:
  "of_int a \<le> x \<Longrightarrow> x \<le> of_int b \<Longrightarrow> a \<le> trunc x \<and> trunc x \<le> b"
  by (auto simp: trunc_def floor_le_iff le_floor_iff) linarith+

end
