(* ===== verification/Net_Message.thy ===== *)
theory Net_Message
  imports Mem_Buffer Float_Model
begin

text \<open>
  \<open>src/net_message.c\<close>: serialization of integers, strings, vectors, user commands and
  entity states. Writers take the buffer and give the buffer back, or the abort of an
  overflow; readers give the value and the buffer with its read position moved. An
  \<open>int32_t\<close> argument or result is an \<open>int\<close>; a narrower field is a word of its width.
\<close>

section \<open>Writing\<close>

subsection \<open>Integers and strings\<close>

definition Net_WriteData :: "byte list \<Rightarrow> mem_buf \<Rightarrow> mem_buf result" where
  "Net_WriteData bytes buf = Mem_WriteBuffer bytes buf"

definition Net_WriteChar :: "int \<Rightarrow> mem_buf \<Rightarrow> mem_buf result" where
  "Net_WriteChar c sb =
     bindE (Mem_AllocBuffer sb 1) (\<lambda>(p, sb). Inr (store_at p [word_of_int c] sb))"

definition Net_WriteByte :: "int \<Rightarrow> mem_buf \<Rightarrow> mem_buf result" where
  "Net_WriteByte c sb =
     bindE (Mem_AllocBuffer sb 1) (\<lambda>(p, sb). Inr (store_at p [word_of_int c] sb))"

definition short_bytes :: "int \<Rightarrow> byte list" where
  "short_bytes c = [word_of_int (c AND 0xff), word_of_int (drop_bit 8 c)]"

definition Net_WriteShort :: "int \<Rightarrow> mem_buf \<Rightarrow> mem_buf result" where
  "Net_WriteShort c sb =
     bindE (Mem_AllocBuffer sb 2) (\<lambda>(p, sb). Inr (store_at p (short_bytes c) sb))"

definition long_bytes :: "int \<Rightarrow> byte list" where
  "long_bytes c =
     [word_of_int (c AND 0xff), word_of_int (drop_bit 8 c AND 0xff),
      word_of_int (drop_bit 16 c AND 0xff), word_of_int (drop_bit 24 c)]"

definition Net_WriteLong :: "int \<Rightarrow> mem_buf \<Rightarrow> mem_buf result" where
  "Net_WriteLong c sb =
     bindE (Mem_AllocBuffer sb 4) (\<lambda>(p, sb). Inr (store_at p (long_bytes c) sb))"

text \<open>A string argument is \<open>None\<close> for the null pointer.\<close>

definition string_bytes :: "string option \<Rightarrow> byte list" where
  "string_bytes s = (case s of None \<Rightarrow> [0] | Some s \<Rightarrow> map byte_of_char s @ [0])"

definition Net_WriteString :: "string option \<Rightarrow> mem_buf \<Rightarrow> mem_buf result" where
  "Net_WriteString s sb =
     (case s of None \<Rightarrow> Mem_WriteBuffer [0] sb
      | Some s \<Rightarrow> Mem_WriteBuffer (map byte_of_char s @ [0]) sb)"

subsection \<open>Vectors and angles\<close>

text \<open>
  The quantization of a coordinate: \<open>v * 8.0\<close> is exact in double precision. The one of
  an angle: \<open>v * 255.0\<close> is exact, and the rounding of the quotient by \<open>360.0\<close> cannot
  reach the next integer, since \<open>v * 17 / 24\<close> with a 24-bit \<open>v\<close> is either an integer or
  further than \<open>2 ^ - 30\<close> of itself away from one; so the truncated exact quotient is
  the truncated double. A value whose quantization does not fit \<open>int32_t\<close> is outside
  the model, as it is outside C.
\<close>

definition quantize_coord :: "vec_t \<Rightarrow> int" where
  "quantize_coord v = trunc (v * 8)"

definition quantize_angle :: "vec_t \<Rightarrow> int" where
  "quantize_angle v = trunc (v * 255 / 360) AND 255"

definition Net_WriteVector :: "vec_t \<Rightarrow> mem_buf \<Rightarrow> mem_buf result" where
  "Net_WriteVector v sb = Net_WriteShort (quantize_coord v) sb"

definition Net_WritePosition :: "vec3_t \<Rightarrow> mem_buf \<Rightarrow> mem_buf result" where
  "Net_WritePosition pos sb =
     run_seq [Net_WriteShort (quantize_coord (vx pos)), Net_WriteShort (quantize_coord (vy pos)),
              Net_WriteShort (quantize_coord (vz pos))] sb"

definition Net_WriteAngle :: "vec_t \<Rightarrow> mem_buf \<Rightarrow> mem_buf result" where
  "Net_WriteAngle v sb = Net_WriteByte (quantize_angle v) sb"

definition Net_WriteAngles :: "vec3_t \<Rightarrow> mem_buf \<Rightarrow> mem_buf result" where
  "Net_WriteAngles angles sb =
     run_seq [Net_WriteAngle (vx angles), Net_WriteAngle (vy angles), Net_WriteAngle (vz angles)] sb"

subsection \<open>User commands\<close>

text \<open>A flag test \<open>bits & MASK\<close>, and a flag set under a condition.\<close>

definition has_flag :: "('a::len) word \<Rightarrow> 'a word \<Rightarrow> bool" where
  "has_flag bits m \<longleftrightarrow> bits AND m \<noteq> 0"

definition flag_if :: "bool \<Rightarrow> ('a::len) word \<Rightarrow> 'a word" where
  "flag_if c m = (if c then m else 0)"

definition CMD_ANGLE1 :: uint8 where "CMD_ANGLE1 = 0x1"
definition CMD_ANGLE2 :: uint8 where "CMD_ANGLE2 = 0x2"
definition CMD_ANGLE3 :: uint8 where "CMD_ANGLE3 = 0x4"
definition CMD_FORWARD :: uint8 where "CMD_FORWARD = 0x8"
definition CMD_RIGHT :: uint8 where "CMD_RIGHT = 0x10"
definition CMD_UP :: uint8 where "CMD_UP = 0x20"
definition CMD_BUTTONS :: uint8 where "CMD_BUTTONS = 0x40"

record user_cmd =
  msec :: uint8
  buttons :: uint8
  cmd_angles :: "int16 vec3"
  forward :: int16
  right :: int16
  up :: int16

definition user_cmd_bits :: "user_cmd \<Rightarrow> user_cmd \<Rightarrow> uint8" where
  "user_cmd_bits from to =
     flag_if (vx (cmd_angles to) \<noteq> vx (cmd_angles from)) CMD_ANGLE1 OR
     flag_if (vy (cmd_angles to) \<noteq> vy (cmd_angles from)) CMD_ANGLE2 OR
     flag_if (vz (cmd_angles to) \<noteq> vz (cmd_angles from)) CMD_ANGLE3 OR
     flag_if (forward to \<noteq> forward from) CMD_FORWARD OR
     flag_if (right to \<noteq> right from) CMD_RIGHT OR
     flag_if (up to \<noteq> up from) CMD_UP OR
     flag_if (buttons to \<noteq> buttons from) CMD_BUTTONS"

definition Net_WriteDeltaUserCmd :: "user_cmd \<Rightarrow> user_cmd \<Rightarrow> mem_buf \<Rightarrow> mem_buf result" where
  "Net_WriteDeltaUserCmd from to buf =
     (let bits = user_cmd_bits from to in
      run_seq
        [Net_WriteByte (uint bits),
         when_do (has_flag bits CMD_ANGLE1) (Net_WriteShort (sint (vx (cmd_angles to)))),
         when_do (has_flag bits CMD_ANGLE2) (Net_WriteShort (sint (vy (cmd_angles to)))),
         when_do (has_flag bits CMD_ANGLE3) (Net_WriteShort (sint (vz (cmd_angles to)))),
         when_do (has_flag bits CMD_FORWARD) (Net_WriteShort (sint (forward to))),
         when_do (has_flag bits CMD_RIGHT) (Net_WriteShort (sint (right to))),
         when_do (has_flag bits CMD_UP) (Net_WriteShort (sint (up to))),
         when_do (has_flag bits CMD_BUTTONS) (Net_WriteByte (uint (buttons to))),
         Net_WriteByte (uint (msec to))] buf)"

subsection \<open>Entity states\<close>

definition U_ORIGIN :: uint16 where "U_ORIGIN = 0x1"
definition U_OLD_ORIGIN :: uint16 where "U_OLD_ORIGIN = 0x2"
definition U_ANGLES :: uint16 where "U_ANGLES = 0x4"
definition U_ANIMATIONS :: uint16 where "U_ANIMATIONS = 0x8"
definition U_EVENT :: uint16 where "U_EVENT = 0x10"
definition U_EFFECTS :: uint16 where "U_EFFECTS = 0x20"
definition U_MODELS :: uint16 where "U_MODELS = 0x40"
definition U_CLIENT :: uint16 where "U_CLIENT = 0x80"
definition U_SOUND :: uint16 where "U_SOUND = 0x100"
definition U_SOLID :: uint16 where "U_SOLID = 0x200"
definition U_REMOVE :: uint16 where "U_REMOVE = 0x400"

record entity_state =
  number :: uint16
  origin :: vec3_t
  old_origin :: vec3_t
  angles :: vec3_t
  animation1 :: uint8
  animation2 :: uint8
  event :: uint8
  effects :: uint16
  model1 :: uint8
  model2 :: uint8
  model3 :: uint8
  model4 :: uint8
  client :: uint8
  sound :: uint8
  solid :: uint16

definition VectorCompare :: "'a vec3 \<Rightarrow> 'a vec3 \<Rightarrow> bool" where
  "VectorCompare v1 v2 \<longleftrightarrow> \<not> (vx v1 \<noteq> vx v2 \<or> vy v1 \<noteq> vy v2 \<or> vz v1 \<noteq> vz v2)"

definition entity_bits :: "entity_state \<Rightarrow> entity_state \<Rightarrow> bool \<Rightarrow> uint16" where
  "entity_bits from to is_new =
     flag_if (\<not> VectorCompare (origin to) (origin from)) U_ORIGIN OR
     flag_if (is_new \<or> \<not> VectorCompare (old_origin from) (old_origin to)) U_OLD_ORIGIN OR
     flag_if (\<not> VectorCompare (angles to) (angles from)) U_ANGLES OR
     flag_if (animation1 to \<noteq> animation1 from \<or> animation2 to \<noteq> animation2 from) U_ANIMATIONS OR
     flag_if (event to \<noteq> 0) U_EVENT OR
     flag_if (effects to \<noteq> effects from) U_EFFECTS OR
     flag_if (model1 to \<noteq> model1 from \<or> model2 to \<noteq> model2 from \<or>
              model3 to \<noteq> model3 from \<or> model4 to \<noteq> model4 from) U_MODELS OR
     flag_if (client to \<noteq> client from) U_CLIENT OR
     flag_if (sound to \<noteq> sound from) U_SOUND OR
     flag_if (solid to \<noteq> solid from) U_SOLID"

definition Net_WriteDeltaEntity ::
  "entity_state \<Rightarrow> entity_state \<Rightarrow> bool \<Rightarrow> bool \<Rightarrow> mem_buf \<Rightarrow> mem_buf result" where
  "Net_WriteDeltaEntity from to force is_new buf =
     (if number to \<le> 0 then Inl (Err_Fatal ''Unset entity number'')
      else if unat (number to) \<ge> MAX_EDICTS then Inl (Err_Fatal ''Entity number >= MAX_EDICTS'')
      else let bits = entity_bits from to is_new in
        if bits = 0 \<and> \<not> force then Inr buf
        else run_seq
          [Net_WriteShort (uint (number to)),
           Net_WriteShort (uint bits),
           when_do (has_flag bits U_ORIGIN) (Net_WritePosition (origin to)),
           when_do (has_flag bits U_OLD_ORIGIN) (Net_WritePosition (old_origin to)),
           when_do (has_flag bits U_ANGLES) (Net_WriteAngles (angles to)),
           when_do (has_flag bits U_ANIMATIONS)
             (run_seq [Net_WriteByte (uint (animation1 to)), Net_WriteByte (uint (animation2 to))]),
           when_do (has_flag bits U_EVENT) (Net_WriteByte (uint (event to))),
           when_do (has_flag bits U_EFFECTS) (Net_WriteShort (uint (effects to))),
           when_do (has_flag bits U_MODELS)
             (run_seq [Net_WriteByte (uint (model1 to)), Net_WriteByte (uint (model2 to)),
                       Net_WriteByte (uint (model3 to)), Net_WriteByte (uint (model4 to))]),
           when_do (has_flag bits U_CLIENT) (Net_WriteByte (uint (client to))),
           when_do (has_flag bits U_SOUND) (Net_WriteByte (uint (sound to))),
           when_do (has_flag bits U_SOLID) (Net_WriteShort (uint (solid to)))] buf)"

section \<open>Reading\<close>

definition Net_BeginReading :: "mem_buf \<Rightarrow> mem_buf" where
  "Net_BeginReading msg = msg\<lparr>read_pos := 0\<rparr>"

definition skip_read :: "nat \<Rightarrow> mem_buf \<Rightarrow> mem_buf" where
  "skip_read n sb = sb\<lparr>read_pos := read_pos sb + n\<rparr>"

definition Net_ReadChar :: "mem_buf \<Rightarrow> int \<times> mem_buf" where
  "Net_ReadChar sb =
     (if read_pos sb + 1 > buf_size sb then -1 else sint (buf_data sb ! read_pos sb),
      skip_read 1 sb)"

definition Net_ReadByte :: "mem_buf \<Rightarrow> int \<times> mem_buf" where
  "Net_ReadByte sb =
     (if read_pos sb + 1 > buf_size sb then -1 else uint (buf_data sb ! read_pos sb),
      skip_read 1 sb)"

definition Net_ReadShort :: "mem_buf \<Rightarrow> int \<times> mem_buf" where
  "Net_ReadShort sb =
     (if read_pos sb + 2 > buf_size sb then -1
      else sint (word_of_int (uint (buf_data sb ! read_pos sb) +
                   push_bit 8 (uint (buf_data sb ! (read_pos sb + 1)))) :: int16),
      skip_read 2 sb)"

definition Net_ReadLong :: "mem_buf \<Rightarrow> int \<times> mem_buf" where
  "Net_ReadLong sb =
     (if read_pos sb + 4 > buf_size sb then -1
      else sint (word_of_int (uint (buf_data sb ! read_pos sb) +
                   push_bit 8 (uint (buf_data sb ! (read_pos sb + 1))) +
                   push_bit 16 (uint (buf_data sb ! (read_pos sb + 2))) +
                   push_bit 24 (uint (buf_data sb ! (read_pos sb + 3)))) :: uint32),
      skip_read 4 sb)"

text \<open>\<open>((byte *) data)[i] = Net_ReadByte(sb)\<close>, so the end of the message reads as 255.\<close>

fun Net_ReadData :: "nat \<Rightarrow> mem_buf \<Rightarrow> byte list \<times> mem_buf" where
  "Net_ReadData 0 sb = ([], sb)"
| "Net_ReadData (Suc len) sb =
     (let (c, sb) = Net_ReadByte sb; (cs, sb) = Net_ReadData len sb in (word_of_int c # cs, sb))"

text \<open>
  The loop of \<open>Net_ReadString\<close> and \<open>Net_ReadStringLine\<close>; \<open>n\<close> is what is left of
  \<open>sizeof(string) - 1\<close> and \<open>stop\<close> the line variant's extra terminator.
\<close>

fun read_string_loop :: "int set \<Rightarrow> nat \<Rightarrow> mem_buf \<Rightarrow> string \<times> mem_buf" where
  "read_string_loop stop 0 sb = ([], sb)"
| "read_string_loop stop (Suc n) sb =
     (let (c, sb) = Net_ReadChar sb in
      if c = -1 \<or> c = 0 \<or> c \<in> stop then ([], sb)
      else let (cs, sb) = read_string_loop stop n sb
           in (char_of_byte (word_of_int c) # cs, sb))"

definition Net_ReadString :: "mem_buf \<Rightarrow> string \<times> mem_buf" where
  "Net_ReadString sb = read_string_loop {} (MAX_STRING_CHARS - 1) sb"

definition Net_ReadStringLine :: "mem_buf \<Rightarrow> string \<times> mem_buf" where
  "Net_ReadStringLine sb = read_string_loop {10} (MAX_STRING_CHARS - 1) sb"

text \<open>\<open>short * (1.0 / 8.0)\<close> is exact; an angle goes through two roundings.\<close>

definition coord_of_short :: "int \<Rightarrow> vec_t" where
  "coord_of_short c = of_int c * (1 / 8)"

definition angle_of_char :: "int \<Rightarrow> vec_t" where
  "angle_of_char c = flt (dbl (of_int c * dbl (360 / 255)))"

definition Net_ReadVector :: "mem_buf \<Rightarrow> vec_t \<times> mem_buf" where
  "Net_ReadVector sb = (let (c, sb) = Net_ReadShort sb in (coord_of_short c, sb))"

definition Net_ReadAngle :: "mem_buf \<Rightarrow> vec_t \<times> mem_buf" where
  "Net_ReadAngle sb = (let (c, sb) = Net_ReadChar sb in (angle_of_char c, sb))"

definition read3 :: "(mem_buf \<Rightarrow> 'a \<times> mem_buf) \<Rightarrow> mem_buf \<Rightarrow> 'a vec3 \<times> mem_buf" where
  "read3 rd sb =
     (let (x, sb) = rd sb; (y, sb) = rd sb; (z, sb) = rd sb in (Vec3 x y z, sb))"

definition Net_ReadPosition :: "mem_buf \<Rightarrow> vec3_t \<times> mem_buf" where
  "Net_ReadPosition sb = read3 Net_ReadVector sb"

definition Net_ReadAngles :: "mem_buf \<Rightarrow> vec3_t \<times> mem_buf" where
  "Net_ReadAngles sb = read3 Net_ReadAngle sb"

subsection \<open>Delta decoding\<close>

text \<open>
  A decoder is a list of statements on the object being filled and the buffer;
  \<open>rd_field c rd upd\<close> is \<open>if (c) to->field = rd(buf);\<close>.
\<close>

definition rd_field ::
  "bool \<Rightarrow> (mem_buf \<Rightarrow> 'v \<times> mem_buf) \<Rightarrow> ('v \<Rightarrow> 's \<Rightarrow> 's) \<Rightarrow> 's \<times> mem_buf \<Rightarrow> 's \<times> mem_buf" where
  "rd_field c rd upd = (\<lambda>(to, sb). if c then let (v, sb) = rd sb in (upd v to, sb) else (to, sb))"

definition set_field :: "('s \<Rightarrow> 's) \<Rightarrow> 's \<times> mem_buf \<Rightarrow> 's \<times> mem_buf" where
  "set_field f = (\<lambda>(to, sb). (f to, sb))"

primrec run_reads :: "('t \<Rightarrow> 't) list \<Rightarrow> 't \<Rightarrow> 't" where
  "run_reads [] t = t"
| "run_reads (f # fs) t = run_reads fs (f t)"

definition Net_ReadDeltaUserCmd :: "user_cmd \<Rightarrow> mem_buf \<Rightarrow> user_cmd \<times> mem_buf" where
  "Net_ReadDeltaUserCmd from sb =
     (let (b, sb) = Net_ReadByte sb; bits = word_of_int b :: uint32 in
      run_reads
        [rd_field (has_flag bits (ucast CMD_ANGLE1)) Net_ReadShort
           (\<lambda>c to. to\<lparr>cmd_angles := Vec3 (word_of_int c) (vy (cmd_angles to)) (vz (cmd_angles to))\<rparr>),
         rd_field (has_flag bits (ucast CMD_ANGLE2)) Net_ReadShort
           (\<lambda>c to. to\<lparr>cmd_angles := Vec3 (vx (cmd_angles to)) (word_of_int c) (vz (cmd_angles to))\<rparr>),
         rd_field (has_flag bits (ucast CMD_ANGLE3)) Net_ReadShort
           (\<lambda>c to. to\<lparr>cmd_angles := Vec3 (vx (cmd_angles to)) (vy (cmd_angles to)) (word_of_int c)\<rparr>),
         rd_field (has_flag bits (ucast CMD_FORWARD)) Net_ReadShort
           (\<lambda>c to. to\<lparr>forward := word_of_int c\<rparr>),
         rd_field (has_flag bits (ucast CMD_RIGHT)) Net_ReadShort
           (\<lambda>c to. to\<lparr>right := word_of_int c\<rparr>),
         rd_field (has_flag bits (ucast CMD_UP)) Net_ReadShort
           (\<lambda>c to. to\<lparr>up := word_of_int c\<rparr>),
         rd_field (has_flag bits (ucast CMD_BUTTONS)) Net_ReadByte
           (\<lambda>c to. to\<lparr>buttons := word_of_int c\<rparr>),
         rd_field True Net_ReadByte (\<lambda>c to. to\<lparr>msec := word_of_int c\<rparr>)]
        (from, sb))"

definition Net_ReadDeltaEntity ::
  "entity_state \<Rightarrow> uint16 \<Rightarrow> uint16 \<Rightarrow> mem_buf \<Rightarrow> entity_state \<times> mem_buf" where
  "Net_ReadDeltaEntity from num bits buf =
     run_reads
       [set_field (\<lambda>to. to\<lparr>number := num\<rparr>),
        rd_field (has_flag bits U_ORIGIN) Net_ReadPosition (\<lambda>v to. to\<lparr>origin := v\<rparr>),
        rd_field (has_flag bits U_OLD_ORIGIN) Net_ReadPosition (\<lambda>v to. to\<lparr>old_origin := v\<rparr>),
        rd_field (has_flag bits U_ANGLES) Net_ReadAngles (\<lambda>v to. to\<lparr>angles := v\<rparr>),
        rd_field (has_flag bits U_ANIMATIONS) Net_ReadByte (\<lambda>c to. to\<lparr>animation1 := word_of_int c\<rparr>),
        rd_field (has_flag bits U_ANIMATIONS) Net_ReadByte (\<lambda>c to. to\<lparr>animation2 := word_of_int c\<rparr>),
        (if has_flag bits U_EVENT
         then rd_field True Net_ReadByte (\<lambda>c to. to\<lparr>event := word_of_int c\<rparr>)
         else set_field (\<lambda>to. to\<lparr>event := 0\<rparr>)),
        rd_field (has_flag bits U_EFFECTS) Net_ReadShort (\<lambda>c to. to\<lparr>effects := word_of_int c\<rparr>),
        rd_field (has_flag bits U_MODELS) Net_ReadByte (\<lambda>c to. to\<lparr>model1 := word_of_int c\<rparr>),
        rd_field (has_flag bits U_MODELS) Net_ReadByte (\<lambda>c to. to\<lparr>model2 := word_of_int c\<rparr>),
        rd_field (has_flag bits U_MODELS) Net_ReadByte (\<lambda>c to. to\<lparr>model3 := word_of_int c\<rparr>),
        rd_field (has_flag bits U_MODELS) Net_ReadByte (\<lambda>c to. to\<lparr>model4 := word_of_int c\<rparr>),
        rd_field (has_flag bits U_CLIENT) Net_ReadByte (\<lambda>c to. to\<lparr>client := word_of_int c\<rparr>),
        rd_field (has_flag bits U_SOUND) Net_ReadByte (\<lambda>c to. to\<lparr>sound := word_of_int c\<rparr>),
        rd_field (has_flag bits U_SOLID) Net_ReadShort (\<lambda>c to. to\<lparr>solid := word_of_int c\<rparr>)]
       (from, buf)"

end
