(* ===== verification/Wire_Codec.thy ===== *)
theory Wire_Codec
  imports Net_Message
begin

text \<open>
  What the writers of \<open>Net_Message\<close> put into a buffer and what its readers take out:
  one \<open>emits\<close> fact per writer, one \<open>consumes\<close> fact per reader, and the locale
  \<open>wire_codec\<close> that pairs an encoding with its reader, interpreted on every scalar and
  vector of the protocol. The delta encodings of user commands and entity states are
  inverted at the end.
\<close>

named_theorems emit_intros \<open>which bytes a writer puts\<close>
named_theorems read_intros \<open>what a reader makes of the bytes in front of it\<close>

section \<open>Writers\<close>

lemma store_at_alloc:
  "bindE (Mem_AllocBuffer sb (length bs)) (\<lambda>(p, sb). Inr (store_at p bs sb)) = Mem_WriteBuffer bs sb"
  by (simp add: Mem_WriteBuffer_def)

lemma length_short_bytes [simp]: "length (short_bytes c) = 2"
  by (simp add: short_bytes_def)

lemma length_long_bytes [simp]: "length (long_bytes c) = 4"
  by (simp add: long_bytes_def)

lemma write_as_buffer:
  "Net_WriteChar c = Mem_WriteBuffer [word_of_int c]"
  "Net_WriteByte c = Mem_WriteBuffer [word_of_int c]"
  "Net_WriteShort c = Mem_WriteBuffer (short_bytes c)"
  "Net_WriteLong c = Mem_WriteBuffer (long_bytes c)"
  "Net_WriteString s = Mem_WriteBuffer (string_bytes s)"
  "Net_WriteData bs = Mem_WriteBuffer bs"
  by (auto simp: fun_eq_iff Net_WriteChar_def Net_WriteByte_def Net_WriteShort_def
      Net_WriteLong_def Net_WriteString_def Net_WriteData_def string_bytes_def
      Mem_WriteBuffer_def split: option.splits)

lemma emits_Char [emit_intros]: "msg.emits (Net_WriteChar c) [word_of_int c]"
  and emits_Byte [emit_intros]: "msg.emits (Net_WriteByte c) [word_of_int c]"
  and emits_Short [emit_intros]: "msg.emits (Net_WriteShort c) (short_bytes c)"
  and emits_Long [emit_intros]: "msg.emits (Net_WriteLong c) (long_bytes c)"
  and emits_String [emit_intros]: "msg.emits (Net_WriteString s) (string_bytes s)"
  and emits_Data [emit_intros]: "msg.emits (Net_WriteData bs) bs"
  unfolding write_as_buffer by (rule msg.emits_put)+

lemma emits_run_seq_Nil [emit_intros]: "msg.emits (run_seq []) (concat [])"
  by (rule msg.emits_run_seq) simp

lemma emits_run_seq_Cons [emit_intros]:
  assumes "msg.emits w bs" and "msg.emits (run_seq ws) (concat bss)"
  shows "msg.emits (run_seq (w # ws)) (concat (bs # bss))"
proof -
  have "run_seq (w # ws) = (\<lambda>s. bindE (w s) (run_seq ws))" by (simp add: fun_eq_iff)
  then show ?thesis using msg.emits_bind [OF assms] by simp
qed

lemma emits_when [emit_intros]:
  "msg.emits w bs \<Longrightarrow> msg.emits (when_do c w) (if c then bs else [])"
  by (rule msg.emits_guarded)

lemma emits_Skip [emit_intros]: "msg.emits Inr []"
  by (rule msg.emits_skip)

definition coord_bytes :: "vec_t \<Rightarrow> byte list" where
  "coord_bytes v = short_bytes (quantize_coord v)"

definition position_bytes :: "vec3_t \<Rightarrow> byte list" where
  "position_bytes v = concat [coord_bytes (vx v), coord_bytes (vy v), coord_bytes (vz v)]"

definition angle_bytes :: "vec_t \<Rightarrow> byte list" where
  "angle_bytes v = [word_of_int (quantize_angle v)]"

definition angles_bytes :: "vec3_t \<Rightarrow> byte list" where
  "angles_bytes v = concat [angle_bytes (vx v), angle_bytes (vy v), angle_bytes (vz v)]"

lemma emits_Vector [emit_intros]: "msg.emits (Net_WriteVector v) (coord_bytes v)"
  unfolding Net_WriteVector_def coord_bytes_def by (rule emits_Short)

lemma emits_Position [emit_intros]: "msg.emits (Net_WritePosition v) (position_bytes v)"
  unfolding Net_WritePosition_def position_bytes_def coord_bytes_def by (intro emit_intros)

lemma emits_Angle [emit_intros]: "msg.emits (Net_WriteAngle v) (angle_bytes v)"
  unfolding Net_WriteAngle_def angle_bytes_def by (rule emits_Byte)

lemma emits_Angles [emit_intros]: "msg.emits (Net_WriteAngles v) (angles_bytes v)"
  unfolding Net_WriteAngles_def angles_bytes_def by (intro emit_intros)

section \<open>Readers\<close>

definition unread :: "mem_buf \<Rightarrow> byte list" where
  "unread sb = drop (read_pos sb) (contents sb)"

lemma skip_read_simps [simp]:
  "skip_read 0 sb = sb"
  "skip_read m (skip_read n sb) = skip_read (n + m) sb"
  "contents (skip_read n sb) = contents sb"
  "read_pos (skip_read n sb) = read_pos sb + n"
  "buf_size (skip_read n sb) = buf_size sb"
  "buf_data (skip_read n sb) = buf_data sb"
  by (simp_all add: skip_read_def contents_def add.assoc)

lemma unread_skip [simp]: "unread (skip_read n sb) = drop n (unread sb)"
  by (simp add: unread_def add.commute)

lemma unread_nth:
  assumes "unread sb = bs @ rest" and "k < length bs"
  shows "buf_data sb ! (read_pos sb + k) = bs ! k"
    and "read_pos sb + k < buf_size sb"
proof -
  have len: "length bs \<le> length (unread sb)" using assms(1) by simp
  then have k: "read_pos sb + k < min (length (buf_data sb)) (buf_size sb)"
    using assms(2) by (simp add: unread_def contents_def min_def split: if_splits)
  then show "read_pos sb + k < buf_size sb" by simp
  have "bs ! k = unread sb ! k" using assms by (simp add: nth_append)
  also have "\<dots> = buf_data sb ! (read_pos sb + k)"
    using k by (simp add: unread_def contents_def)
  finally show "buf_data sb ! (read_pos sb + k) = bs ! k" ..
qed

text \<open>
  \<open>consumes f bs g\<close>: with the bytes \<open>bs\<close> next in the buffer, the statement \<open>f\<close> takes
  exactly these and changes the object by \<open>g\<close>.
\<close>

definition consumes ::
  "('s \<times> mem_buf \<Rightarrow> 's \<times> mem_buf) \<Rightarrow> byte list \<Rightarrow> ('s \<Rightarrow> 's) \<Rightarrow> bool" where
  "consumes f bs g \<longleftrightarrow> (\<forall>s sb rest. unread sb = bs @ rest \<longrightarrow>
     f (s, sb) = (g s, skip_read (length bs) sb))"

lemma consumesD:
  "consumes f bs g \<Longrightarrow> unread sb = bs @ rest \<Longrightarrow> f (s, sb) = (g s, skip_read (length bs) sb)"
  by (simp add: consumes_def)

lemma consumes_set [read_intros]: "consumes (set_field g) [] g"
  by (simp add: consumes_def set_field_def)

lemma consumes_Nil [read_intros]: "consumes (run_reads []) (concat []) (\<lambda>s. s)"
  by (simp add: consumes_def)

lemma consumes_Cons [read_intros]:
  "consumes f bs g \<Longrightarrow> consumes (run_reads fs) (concat bss) h \<Longrightarrow>
   consumes (run_reads (f # fs)) (concat (bs # bss)) (\<lambda>s. h (g s))"
  by (simp add: consumes_def)

text \<open>A field that is filled in under a condition.\<close>

definition upd_if :: "bool \<Rightarrow> ('s \<Rightarrow> 's) \<Rightarrow> 's \<Rightarrow> 's" where
  "upd_if c f s = (if c then f s else s)"

lemma upd_if_other: "(\<And>s. sel (f s) = sel s) \<Longrightarrow> sel (upd_if c f s) = sel s"
  by (simp add: upd_if_def)

lemma upd_if_own: "(\<And>s. sel (f s) = v) \<Longrightarrow> sel (upd_if c f s) = (if c then v else sel s)"
  by (simp add: upd_if_def)

locale wire_codec =
  fixes enc :: "'a \<Rightarrow> byte list"
    and rd :: "mem_buf \<Rightarrow> 'v \<times> mem_buf"
    and val :: "'a \<Rightarrow> 'v"
  assumes rd_enc: "unread sb = enc x @ rest \<Longrightarrow> rd sb = (val x, skip_read (length (enc x)) sb)"
begin

lemma consumes_field:
  "consumes (rd_field c rd upd) (if c then enc x else []) (upd_if c (upd (val x)))"
  by (auto simp: consumes_def rd_field_def rd_enc upd_if_def)

lemma consumes_always: "consumes (rd_field True rd upd) (enc x) (upd (val x))"
  by (auto simp: consumes_def rd_field_def rd_enc)

lemma read3_enc:
  assumes "unread sb = enc x @ enc y @ enc z @ rest"
  shows "read3 rd sb = (Vec3 (val x) (val y) (val z), skip_read (length (enc x @ enc y @ enc z)) sb)"
proof -
  let ?s1 = "skip_read (length (enc x)) sb" and ?s2 = "skip_read (length (enc x) + length (enc y)) sb"
  have "rd sb = (val x, ?s1)" using assms by (rule rd_enc)
  moreover have "rd ?s1 = (val y, ?s2)"
    using rd_enc [of ?s1 y "enc z @ rest"] assms by simp
  moreover have "rd ?s2 = (val z, skip_read (length (enc x @ enc y @ enc z)) sb)"
    using rd_enc [of ?s2 z rest] assms by (simp add: add.assoc)
  ultimately show ?thesis by (simp add: read3_def)
qed

end

subsection \<open>Integers\<close>

lemma word8_of_and_ff: "(word_of_int (c AND 255) :: byte) = word_of_int c"
proof -
  have "c AND 255 = take_bit 8 c"
    using take_bit_eq_mask [of 8 c] by (simp add: mask_eq_exp_minus_1)
  then show ?thesis
    by (intro bit_word_eqI) (simp add: bit_take_bit_iff bit_word_of_int_iff)
qed

lemma short_bytes_eq: "short_bytes c = [word_of_int c, word_of_int (drop_bit 8 c)]"
  by (simp add: short_bytes_def word8_of_and_ff)

lemma long_bytes_eq:
  "long_bytes c = [word_of_int c, word_of_int (drop_bit 8 c), word_of_int (drop_bit 16 c),
     word_of_int (drop_bit 24 c)]"
  by (simp add: long_bytes_def word8_of_and_ff)

lemma uint_byte_of: "uint (word_of_int c :: byte) = take_bit 8 c"
  by (simp add: uint_word_of_int take_bit_eq_mod)

lemma join2: "take_bit 8 c + push_bit 8 (take_bit 8 (drop_bit 8 c)) = take_bit 16 (c :: int)"
proof -
  have "c mod 65536 = c mod 256 + 256 * ((c div 256) mod 256)"
    using mod_mult2_eq' [of c 256 256] by simp
  then show ?thesis by (simp add: take_bit_eq_mod drop_bit_eq_div push_bit_eq_mult)
qed

lemma join4:
  "take_bit 8 c + push_bit 8 (take_bit 8 (drop_bit 8 c)) + push_bit 16 (take_bit 8 (drop_bit 16 c)) +
   push_bit 24 (take_bit 8 (drop_bit 24 c)) = take_bit 32 (c :: int)"
proof -
  have "take_bit 8 (drop_bit 16 c) + push_bit 8 (take_bit 8 (drop_bit 8 (drop_bit 16 c)))
      = take_bit 16 (drop_bit 16 c)"
    by (rule join2)
  moreover have "take_bit 16 c + push_bit 16 (take_bit 16 (drop_bit 16 c)) = take_bit 32 c"
  proof -
    have "c mod (65536 * 65536) = c mod 65536 + 65536 * ((c div 65536) mod 65536)"
      using mod_mult2_eq' [of c 65536 65536] by simp
    then show ?thesis by (simp add: take_bit_eq_mod drop_bit_eq_div push_bit_eq_mult)
  qed
  moreover note join2 [of c]
  ultimately show ?thesis by (simp add: push_bit_eq_mult)
qed

lemma reads:
  "unread sb = bs @ rest \<Longrightarrow> bs \<noteq> [] \<Longrightarrow> read_pos sb + length bs \<le> buf_size sb"
  using unread_nth(2) [of sb bs rest "length bs - 1"] by (cases bs) auto

interpretation char_codec: wire_codec "\<lambda>c. [word_of_int c]" Net_ReadChar
  "\<lambda>c. sint (word_of_int c :: byte)"
proof
  fix sb c rest
  assume u: "unread sb = [word_of_int c :: byte] @ rest"
  show "Net_ReadChar sb = (sint (word_of_int c :: byte), skip_read (length [word_of_int c :: byte]) sb)"
    using unread_nth [OF u, of 0] by (simp add: Net_ReadChar_def)
qed

interpretation byte_codec: wire_codec "\<lambda>c. [word_of_int c]" Net_ReadByte "\<lambda>c. take_bit 8 c"
proof
  fix sb c rest
  assume u: "unread sb = [word_of_int c :: byte] @ rest"
  show "Net_ReadByte sb = (take_bit 8 c, skip_read (length [word_of_int c :: byte]) sb)"
    using unread_nth [OF u, of 0] by (simp add: Net_ReadByte_def uint_byte_of)
qed

lemma word_take_bit: "(word_of_int (take_bit LENGTH('a) c) :: ('a::len) word) = word_of_int c"
  by (intro bit_word_eqI) (simp add: bit_take_bit_iff bit_word_of_int_iff)

interpretation short_codec: wire_codec short_bytes Net_ReadShort "\<lambda>c. sint (word_of_int c :: int16)"
proof
  fix sb c rest
  assume u: "unread sb = short_bytes c @ rest"
  show "Net_ReadShort sb = (sint (word_of_int c :: int16), skip_read (length (short_bytes c)) sb)"
    unfolding length_short_bytes
    using unread_nth [OF u, of 0] unread_nth [OF u, of 1] word_take_bit [of c, where 'a = 16]
    by (simp add: Net_ReadShort_def short_bytes_eq uint_byte_of join2)
qed

interpretation long_codec: wire_codec long_bytes Net_ReadLong "\<lambda>c. sint (word_of_int c :: uint32)"
proof
  fix sb c rest
  assume u: "unread sb = long_bytes c @ rest"
  show "Net_ReadLong sb = (sint (word_of_int c :: uint32), skip_read (length (long_bytes c)) sb)"
    unfolding length_long_bytes
    using unread_nth [OF u, of 0] unread_nth [OF u, of 1] unread_nth [OF u, of 2]
      unread_nth [OF u, of 3] word_take_bit [of c, where 'a = 32]
    by (simp add: Net_ReadLong_def long_bytes_eq uint_byte_of join4)
qed

subsection \<open>Vectors\<close>

definition wire_coord :: "vec_t \<Rightarrow> vec_t" where
  "wire_coord v = coord_of_short (sint (word_of_int (quantize_coord v) :: int16))"

definition wire_angle :: "vec_t \<Rightarrow> vec_t" where
  "wire_angle v = angle_of_char (sint (word_of_int (quantize_angle v) :: byte))"

definition map3 :: "('a \<Rightarrow> 'b) \<Rightarrow> 'a vec3 \<Rightarrow> 'b vec3" where
  "map3 f v = Vec3 (f (vx v)) (f (vy v)) (f (vz v))"

interpretation coord_codec: wire_codec coord_bytes Net_ReadVector wire_coord
  by unfold_locales
    (simp add: Net_ReadVector_def coord_bytes_def short_codec.rd_enc wire_coord_def)

interpretation angle_codec: wire_codec angle_bytes Net_ReadAngle wire_angle
  by unfold_locales
    (simp add: Net_ReadAngle_def angle_bytes_def char_codec.rd_enc wire_angle_def)

interpretation position_codec: wire_codec position_bytes Net_ReadPosition "map3 wire_coord"
  by unfold_locales
    (simp add: Net_ReadPosition_def position_bytes_def map3_def coord_codec.read3_enc)

interpretation angles_codec: wire_codec angles_bytes Net_ReadAngles "map3 wire_angle"
  by unfold_locales
    (simp add: Net_ReadAngles_def angles_bytes_def map3_def angle_codec.read3_enc)

end
