(* ===== verification/Delta_Codec.thy ===== *)
theory Delta_Codec
  imports Wire_Codec
begin

text \<open>
  The delta encodings of \<open>net_message.c\<close>: the flag words, the bytes that
  \<open>Net_WriteDeltaUserCmd\<close> and \<open>Net_WriteDeltaEntity\<close> put, and that the reader,
  started from the same reference object, recovers what was written. The locale
  \<open>delta_codec\<close> is the contract of such a pair.
\<close>

section \<open>Flag words\<close>

named_theorems flag_simps \<open>which flags a delta word carries\<close>

lemma bit_flag_if [flag_simps]: "bit (flag_if c m) n \<longleftrightarrow> c \<and> bit m n"
  by (simp add: flag_if_def)

lemma has_flag_exp: "n < LENGTH('a) \<Longrightarrow> has_flag b (2 ^ n) \<longleftrightarrow> bit (b :: ('a::len) word) n"
  using and_exp_eq_0_iff_not_bit [of b n] by (simp add: has_flag_def)

lemmas cmd_flag_defs = CMD_ANGLE1_def CMD_ANGLE2_def CMD_ANGLE3_def CMD_FORWARD_def
  CMD_RIGHT_def CMD_UP_def CMD_BUTTONS_def

lemmas u_flag_defs = U_ORIGIN_def U_OLD_ORIGIN_def U_ANGLES_def U_ANIMATIONS_def U_EVENT_def
  U_EFFECTS_def U_MODELS_def U_CLIENT_def U_SOUND_def U_SOLID_def U_REMOVE_def

lemma has_u_flag [flag_simps]:
  "has_flag b U_ORIGIN \<longleftrightarrow> bit b 0" "has_flag b U_OLD_ORIGIN \<longleftrightarrow> bit b (Suc 0)"
  "has_flag b U_ANGLES \<longleftrightarrow> bit b 2" "has_flag b U_ANIMATIONS \<longleftrightarrow> bit b 3"
  "has_flag b U_EVENT \<longleftrightarrow> bit b 4" "has_flag b U_EFFECTS \<longleftrightarrow> bit b 5"
  "has_flag b U_MODELS \<longleftrightarrow> bit b 6" "has_flag b U_CLIENT \<longleftrightarrow> bit b 7"
  "has_flag b U_SOUND \<longleftrightarrow> bit b 8" "has_flag b U_SOLID \<longleftrightarrow> bit b 9"
  "has_flag b U_REMOVE \<longleftrightarrow> bit b 10"
  using has_flag_exp [of 0 b] has_flag_exp [of 1 b] has_flag_exp [of 2 b] has_flag_exp [of 3 b]
    has_flag_exp [of 4 b] has_flag_exp [of 5 b] has_flag_exp [of 6 b] has_flag_exp [of 7 b]
    has_flag_exp [of 8 b] has_flag_exp [of 9 b] has_flag_exp [of 10 b]
  by (simp_all add: u_flag_defs)

lemma has_cmd_flag [flag_simps]:
  "has_flag b CMD_ANGLE1 \<longleftrightarrow> bit b 0" "has_flag b CMD_ANGLE2 \<longleftrightarrow> bit b (Suc 0)"
  "has_flag b CMD_ANGLE3 \<longleftrightarrow> bit b 2" "has_flag b CMD_FORWARD \<longleftrightarrow> bit b 3"
  "has_flag b CMD_RIGHT \<longleftrightarrow> bit b 4" "has_flag b CMD_UP \<longleftrightarrow> bit b 5"
  "has_flag b CMD_BUTTONS \<longleftrightarrow> bit b 6"
  using has_flag_exp [of 0 b] has_flag_exp [of 1 b] has_flag_exp [of 2 b] has_flag_exp [of 3 b]
    has_flag_exp [of 4 b] has_flag_exp [of 5 b] has_flag_exp [of 6 b]
  by (simp_all add: cmd_flag_defs)

lemma has_flag_widen [flag_simps]:
  "has_flag (word_of_int (take_bit 8 (uint b)) :: uint32) (ucast m) \<longleftrightarrow> has_flag (b :: byte) m"
proof -
  have "(word_of_int (take_bit 8 (uint b)) :: uint32) AND ucast m = ucast (b AND m)"
    by (intro bit_word_eqI)
      (auto simp: bit_simps bit_take_bit_iff bit_uint_iff dest: bit_imp_le_length)
  moreover have "(ucast (b AND m) :: uint32) = 0 \<longleftrightarrow> b AND m = 0"
  proof
    assume "(ucast (b AND m) :: uint32) = 0"
    then have "\<not> bit (ucast (b AND m) :: uint32) n" for n by simp
    then show "b AND m = 0"
      by (intro bit_word_eqI) (simp add: bit_simps)
  qed simp
  ultimately show ?thesis by (simp add: has_flag_def)
qed

text \<open>Each flag of \<open>entity_bits\<close> is set under its own condition.\<close>

lemma entity_bits_flags [flag_simps]:
  "bit (entity_bits from to is_new) 0 \<longleftrightarrow> \<not> VectorCompare (origin to) (origin from)"
  "bit (entity_bits from to is_new) (Suc 0) \<longleftrightarrow>
     is_new \<or> \<not> VectorCompare (old_origin from) (old_origin to)"
  "bit (entity_bits from to is_new) 2 \<longleftrightarrow> \<not> VectorCompare (angles to) (angles from)"
  "bit (entity_bits from to is_new) 3 \<longleftrightarrow>
     animation1 to \<noteq> animation1 from \<or> animation2 to \<noteq> animation2 from"
  "bit (entity_bits from to is_new) 4 \<longleftrightarrow> event to \<noteq> 0"
  "bit (entity_bits from to is_new) 5 \<longleftrightarrow> effects to \<noteq> effects from"
  "bit (entity_bits from to is_new) 6 \<longleftrightarrow>
     model1 to \<noteq> model1 from \<or> model2 to \<noteq> model2 from \<or>
     model3 to \<noteq> model3 from \<or> model4 to \<noteq> model4 from"
  "bit (entity_bits from to is_new) 7 \<longleftrightarrow> client to \<noteq> client from"
  "bit (entity_bits from to is_new) 8 \<longleftrightarrow> sound to \<noteq> sound from"
  "bit (entity_bits from to is_new) 9 \<longleftrightarrow> solid to \<noteq> solid from"
  "\<not> bit (entity_bits from to is_new) 10"
  by (simp_all add: entity_bits_def bit_or_iff bit_flag_if u_flag_defs)

lemma user_cmd_bits_flags [flag_simps]:
  "bit (user_cmd_bits from to) 0 \<longleftrightarrow> vx (cmd_angles to) \<noteq> vx (cmd_angles from)"
  "bit (user_cmd_bits from to) (Suc 0) \<longleftrightarrow> vy (cmd_angles to) \<noteq> vy (cmd_angles from)"
  "bit (user_cmd_bits from to) 2 \<longleftrightarrow> vz (cmd_angles to) \<noteq> vz (cmd_angles from)"
  "bit (user_cmd_bits from to) 3 \<longleftrightarrow> forward to \<noteq> forward from"
  "bit (user_cmd_bits from to) 4 \<longleftrightarrow> right to \<noteq> right from"
  "bit (user_cmd_bits from to) 5 \<longleftrightarrow> up to \<noteq> up from"
  "bit (user_cmd_bits from to) 6 \<longleftrightarrow> buttons to \<noteq> buttons from"
  by (simp_all add: user_cmd_bits_def bit_or_iff bit_flag_if cmd_flag_defs)

lemma VectorCompare_iff [simp]: "VectorCompare v w \<longleftrightarrow> v = w"
  by (cases v; cases w) (auto simp: VectorCompare_def)

section \<open>The contract of a delta encoding\<close>

locale delta_codec =
  fixes wr :: "'s \<Rightarrow> 's \<Rightarrow> mem_buf \<Rightarrow> mem_buf result"
    and bytes :: "'s \<Rightarrow> 's \<Rightarrow> byte list"
    and rd :: "'s \<Rightarrow> mem_buf \<Rightarrow> 's \<times> mem_buf"
    and norm :: "'s \<Rightarrow> 's"
    and ok :: "'s \<Rightarrow> bool"
  assumes emits: "ok from \<Longrightarrow> ok to \<Longrightarrow> msg.emits (wr from to) (bytes from to)"
    and rd_bytes: "ok from \<Longrightarrow> ok to \<Longrightarrow> unread sb = bytes from to @ rest \<Longrightarrow>
      rd (norm from) sb = (norm to, skip_read (length (bytes from to)) sb)"
begin

text \<open>Written at the end of a buffer with room, and read from where it was written.\<close>

lemma written_then_read:
  assumes ok: "ok from" "ok to" and "wf_buf buf" and "length (bytes from to) \<le> room buf"
  shows "\<exists>buf'. wr from to buf = Inr buf' \<and> wf_buf buf' \<and>
    rd (norm from) (buf'\<lparr>read_pos := buf_size buf\<rparr>) = (norm to, buf'\<lparr>read_pos := buf_size buf'\<rparr>)"
proof -
  obtain buf' where buf': "wr from to buf = Inr buf'" "contents buf' = contents buf @ bytes from to"
      "wf_buf buf'"
    using msg.emitsD [OF emits [OF ok] assms(3,4)] by blast
  let ?sb = "buf'\<lparr>read_pos := buf_size buf\<rparr>"
  have "contents ?sb = contents buf'" by (simp add: contents_def)
  then have "unread ?sb = bytes from to @ []"
    using buf' assms(3) by (simp add: unread_def length_contents)
  then have "rd (norm from) ?sb = (norm to, skip_read (length (bytes from to)) ?sb)"
    by (rule rd_bytes [OF ok])
  moreover have "buf_size buf' = buf_size buf + length (bytes from to)"
    using buf' assms(3) by (metis length_append length_contents)
  ultimately show ?thesis using buf' by (simp add: skip_read_def)
qed

end

section \<open>User commands\<close>

definition user_cmd_bytes :: "user_cmd \<Rightarrow> user_cmd \<Rightarrow> byte list" where
  "user_cmd_bytes from to =
     (let bits = user_cmd_bits from to in
      concat
        [[word_of_int (uint bits)],
         if has_flag bits CMD_ANGLE1 then short_bytes (sint (vx (cmd_angles to))) else [],
         if has_flag bits CMD_ANGLE2 then short_bytes (sint (vy (cmd_angles to))) else [],
         if has_flag bits CMD_ANGLE3 then short_bytes (sint (vz (cmd_angles to))) else [],
         if has_flag bits CMD_FORWARD then short_bytes (sint (forward to)) else [],
         if has_flag bits CMD_RIGHT then short_bytes (sint (right to)) else [],
         if has_flag bits CMD_UP then short_bytes (sint (up to)) else [],
         if has_flag bits CMD_BUTTONS then [word_of_int (uint (buttons to))] else [],
         [word_of_int (uint (msec to))]])"

lemma emits_DeltaUserCmd: "msg.emits (Net_WriteDeltaUserCmd from to) (user_cmd_bytes from to)"
  unfolding Net_WriteDeltaUserCmd_def user_cmd_bytes_def Let_def by (intro emit_intros)

lemma word_of_take_bit_8 [simp]: "(word_of_int (take_bit 8 (uint w)) :: byte) = w"
  by (simp add: word_take_bit [where 'a = 8, simplified])

lemmas user_cmd_other =
  upd_if_other [of cmd_angles] upd_if_other [of forward] upd_if_other [of right]
  upd_if_other [of up] upd_if_other [of buttons] upd_if_other [of msec]

lemma user_cmd_own:
  "cmd_angles (upd_if c (\<lambda>s. s\<lparr>cmd_angles := Vec3 v (vy (cmd_angles s)) (vz (cmd_angles s))\<rparr>) s) =
     Vec3 (if c then v else vx (cmd_angles s)) (vy (cmd_angles s)) (vz (cmd_angles s))"
  "cmd_angles (upd_if c (\<lambda>s. s\<lparr>cmd_angles := Vec3 (vx (cmd_angles s)) v (vz (cmd_angles s))\<rparr>) s) =
     Vec3 (vx (cmd_angles s)) (if c then v else vy (cmd_angles s)) (vz (cmd_angles s))"
  "cmd_angles (upd_if c (\<lambda>s. s\<lparr>cmd_angles := Vec3 (vx (cmd_angles s)) (vy (cmd_angles s)) v\<rparr>) s) =
     Vec3 (vx (cmd_angles s)) (vy (cmd_angles s)) (if c then v else vz (cmd_angles s))"
  "forward (upd_if c (forward_update (\<lambda>_. w)) s) = (if c then w else forward s)"
  "right (upd_if c (right_update (\<lambda>_. w)) s) = (if c then w else right s)"
  "up (upd_if c (up_update (\<lambda>_. w)) s) = (if c then w else up s)"
  "buttons (upd_if c (buttons_update (\<lambda>_. b)) s) = (if c then b else buttons s)"
  by (simp_all add: upd_if_def)

lemma read_user_cmd:
  assumes u: "unread sb = user_cmd_bytes from to @ rest"
  shows "Net_ReadDeltaUserCmd from sb = (to, skip_read (length (user_cmd_bytes from to)) sb)"
proof -
  let ?bits = "user_cmd_bits from to" and ?w = "word_of_int (take_bit 8 (uint (user_cmd_bits from to))) :: uint32"
  let ?tail = "concat (tl [[word_of_int (uint ?bits)],
         if has_flag ?bits CMD_ANGLE1 then short_bytes (sint (vx (cmd_angles to))) else [],
         if has_flag ?bits CMD_ANGLE2 then short_bytes (sint (vy (cmd_angles to))) else [],
         if has_flag ?bits CMD_ANGLE3 then short_bytes (sint (vz (cmd_angles to))) else [],
         if has_flag ?bits CMD_FORWARD then short_bytes (sint (forward to)) else [],
         if has_flag ?bits CMD_RIGHT then short_bytes (sint (right to)) else [],
         if has_flag ?bits CMD_UP then short_bytes (sint (up to)) else [],
         if has_flag ?bits CMD_BUTTONS then [word_of_int (uint (buttons to))] else [],
         [word_of_int (uint (msec to)) :: byte]])"
  have bytes: "user_cmd_bytes from to = [word_of_int (uint ?bits)] @ ?tail"
    by (simp add: user_cmd_bytes_def Let_def)
  have first: "Net_ReadByte sb = (take_bit 8 (uint ?bits), skip_read 1 sb)"
    using byte_codec.rd_enc [of sb "uint ?bits" "?tail @ rest"] u bytes by simp
  have rest: "unread (skip_read 1 sb) = ?tail @ rest" using u bytes by simp
  have "Net_ReadDeltaUserCmd from sb = (to, skip_read (length ?tail) (skip_read 1 sb))"
    unfolding Net_ReadDeltaUserCmd_def first Let_def prod.case has_flag_widen list.sel
    by (rule trans, rule consumesD [OF _ rest [unfolded list.sel]],
        (rule read_intros short_codec.consumes_field byte_codec.consumes_field
          byte_codec.consumes_always)+,
        intro prod_eqI user_cmd.equality,
        simp_all add: user_cmd_own user_cmd_other flag_simps cong: if_cong split del: if_split)
      (auto intro!: vec3.expand)
  then show ?thesis by (simp add: bytes)
qed

interpretation user_cmd_codec: delta_codec Net_WriteDeltaUserCmd user_cmd_bytes
  Net_ReadDeltaUserCmd "\<lambda>c. c" "\<lambda>_. True"
  by unfold_locales (auto intro: emits_DeltaUserCmd read_user_cmd)

section \<open>Entity states\<close>

text \<open>What a state becomes on its way through the protocol: its vectors are quantized.\<close>

definition wire_entity :: "entity_state \<Rightarrow> entity_state" where
  "wire_entity e = e\<lparr>origin := map3 wire_coord (origin e),
     old_origin := map3 wire_coord (old_origin e), angles := map3 wire_angle (angles e)\<rparr>"

lemma wire_entity_simps [simp]:
  "number (wire_entity e) = number e" "event (wire_entity e) = event e"
  "origin (wire_entity e) = map3 wire_coord (origin e)"
  "old_origin (wire_entity e) = map3 wire_coord (old_origin e)"
  "angles (wire_entity e) = map3 wire_angle (angles e)"
  "animation1 (wire_entity e) = animation1 e" "animation2 (wire_entity e) = animation2 e"
  "effects (wire_entity e) = effects e" "model1 (wire_entity e) = model1 e"
  "model2 (wire_entity e) = model2 e" "model3 (wire_entity e) = model3 e"
  "model4 (wire_entity e) = model4 e" "client (wire_entity e) = client e"
  "sound (wire_entity e) = sound e" "solid (wire_entity e) = solid e"
  by (simp_all add: wire_entity_def)

text \<open>The bytes after the entity's number and flags.\<close>

definition entity_body_bytes :: "entity_state \<Rightarrow> entity_state \<Rightarrow> bool \<Rightarrow> byte list" where
  "entity_body_bytes from to is_new =
     (let bits = entity_bits from to is_new in
      concat
        [[],
         if has_flag bits U_ORIGIN then position_bytes (origin to) else [],
         if has_flag bits U_OLD_ORIGIN then position_bytes (old_origin to) else [],
         if has_flag bits U_ANGLES then angles_bytes (angles to) else [],
         if has_flag bits U_ANIMATIONS then [word_of_int (uint (animation1 to))] else [],
         if has_flag bits U_ANIMATIONS then [word_of_int (uint (animation2 to))] else [],
         if has_flag bits U_EVENT then [word_of_int (uint (event to))] else [],
         if has_flag bits U_EFFECTS then short_bytes (uint (effects to)) else [],
         if has_flag bits U_MODELS then [word_of_int (uint (model1 to))] else [],
         if has_flag bits U_MODELS then [word_of_int (uint (model2 to))] else [],
         if has_flag bits U_MODELS then [word_of_int (uint (model3 to))] else [],
         if has_flag bits U_MODELS then [word_of_int (uint (model4 to))] else [],
         if has_flag bits U_CLIENT then [word_of_int (uint (client to))] else [],
         if has_flag bits U_SOUND then [word_of_int (uint (sound to))] else [],
         if has_flag bits U_SOLID then short_bytes (uint (solid to)) else []])"

definition valid_number :: "entity_state \<Rightarrow> bool" where
  "valid_number e \<longleftrightarrow> number e \<noteq> 0 \<and> unat (number e) < MAX_EDICTS"

definition entity_sent :: "entity_state \<Rightarrow> entity_state \<Rightarrow> bool \<Rightarrow> bool \<Rightarrow> bool" where
  "entity_sent from to force is_new \<longleftrightarrow> entity_bits from to is_new \<noteq> 0 \<or> force"

definition entity_bytes :: "entity_state \<Rightarrow> entity_state \<Rightarrow> bool \<Rightarrow> bool \<Rightarrow> byte list" where
  "entity_bytes from to force is_new =
     (if entity_sent from to force is_new
      then short_bytes (uint (number to)) @ short_bytes (uint (entity_bits from to is_new)) @
           entity_body_bytes from to is_new
      else [])"

lemma emits_DeltaEntity:
  assumes "valid_number to"
  shows "msg.emits (Net_WriteDeltaEntity from to force is_new) (entity_bytes from to force is_new)"
proof (cases "entity_sent from to force is_new")
  case False
  then have "Net_WriteDeltaEntity from to force is_new = Inr"
    using assms by (auto simp: fun_eq_iff Net_WriteDeltaEntity_def entity_sent_def valid_number_def)
  then show ?thesis using False by (simp add: entity_bytes_def emits_Skip)
next
  case True
  let ?bits = "entity_bits from to is_new"
  let ?writes = "[Net_WriteShort (uint (number to)), Net_WriteShort (uint ?bits),
           when_do (has_flag ?bits U_ORIGIN) (Net_WritePosition (origin to)),
           when_do (has_flag ?bits U_OLD_ORIGIN) (Net_WritePosition (old_origin to)),
           when_do (has_flag ?bits U_ANGLES) (Net_WriteAngles (angles to)),
           when_do (has_flag ?bits U_ANIMATIONS)
             (run_seq [Net_WriteByte (uint (animation1 to)), Net_WriteByte (uint (animation2 to))]),
           when_do (has_flag ?bits U_EVENT) (Net_WriteByte (uint (event to))),
           when_do (has_flag ?bits U_EFFECTS) (Net_WriteShort (uint (effects to))),
           when_do (has_flag ?bits U_MODELS)
             (run_seq [Net_WriteByte (uint (model1 to)), Net_WriteByte (uint (model2 to)),
                       Net_WriteByte (uint (model3 to)), Net_WriteByte (uint (model4 to))]),
           when_do (has_flag ?bits U_CLIENT) (Net_WriteByte (uint (client to))),
           when_do (has_flag ?bits U_SOUND) (Net_WriteByte (uint (sound to))),
           when_do (has_flag ?bits U_SOLID) (Net_WriteShort (uint (solid to)))]"
  let ?emitted = "concat [short_bytes (uint (number to)), short_bytes (uint ?bits),
         if has_flag ?bits U_ORIGIN then position_bytes (origin to) else [],
         if has_flag ?bits U_OLD_ORIGIN then position_bytes (old_origin to) else [],
         if has_flag ?bits U_ANGLES then angles_bytes (angles to) else [],
         if has_flag ?bits U_ANIMATIONS
           then concat [[word_of_int (uint (animation1 to))], [word_of_int (uint (animation2 to))]] else [],
         if has_flag ?bits U_EVENT then [word_of_int (uint (event to))] else [],
         if has_flag ?bits U_EFFECTS then short_bytes (uint (effects to)) else [],
         if has_flag ?bits U_MODELS
           then concat [[word_of_int (uint (model1 to))], [word_of_int (uint (model2 to))],
                        [word_of_int (uint (model3 to))], [word_of_int (uint (model4 to))]] else [],
         if has_flag ?bits U_CLIENT then [word_of_int (uint (client to))] else [],
         if has_flag ?bits U_SOUND then [word_of_int (uint (sound to))] else [],
         if has_flag ?bits U_SOLID then short_bytes (uint (solid to)) else []]"
  have "msg.emits (run_seq ?writes) ?emitted" by (intro emit_intros)
  moreover have "Net_WriteDeltaEntity from to force is_new = run_seq ?writes"
    using assms True by (auto simp: fun_eq_iff Net_WriteDeltaEntity_def entity_sent_def
        valid_number_def Let_def)
  moreover have "?emitted = entity_bytes from to force is_new"
    using True by (simp add: entity_bytes_def entity_body_bytes_def Let_def)
  ultimately show ?thesis by simp
qed

lemmas entity_other =
  upd_if_other [of number] upd_if_other [of origin] upd_if_other [of old_origin]
  upd_if_other [of angles] upd_if_other [of animation1] upd_if_other [of animation2]
  upd_if_other [of event] upd_if_other [of effects] upd_if_other [of model1]
  upd_if_other [of model2] upd_if_other [of model3] upd_if_other [of model4]
  upd_if_other [of client] upd_if_other [of sound] upd_if_other [of solid]

lemma entity_own:
  "origin (upd_if c (origin_update (\<lambda>_. v)) s) = (if c then v else origin s)"
  "old_origin (upd_if c (old_origin_update (\<lambda>_. v)) s) = (if c then v else old_origin s)"
  "angles (upd_if c (angles_update (\<lambda>_. v)) s) = (if c then v else angles s)"
  "animation1 (upd_if c (animation1_update (\<lambda>_. b)) s) = (if c then b else animation1 s)"
  "animation2 (upd_if c (animation2_update (\<lambda>_. b)) s) = (if c then b else animation2 s)"
  "effects (upd_if c (effects_update (\<lambda>_. w)) s) = (if c then w else effects s)"
  "model1 (upd_if c (model1_update (\<lambda>_. b)) s) = (if c then b else model1 s)"
  "model2 (upd_if c (model2_update (\<lambda>_. b)) s) = (if c then b else model2 s)"
  "model3 (upd_if c (model3_update (\<lambda>_. b)) s) = (if c then b else model3 s)"
  "model4 (upd_if c (model4_update (\<lambda>_. b)) s) = (if c then b else model4 s)"
  "client (upd_if c (client_update (\<lambda>_. b)) s) = (if c then b else client s)"
  "sound (upd_if c (sound_update (\<lambda>_. b)) s) = (if c then b else sound s)"
  "solid (upd_if c (solid_update (\<lambda>_. w)) s) = (if c then w else solid s)"
  by (rule upd_if_own, simp)+

lemma word_of_uint16 [simp]: "(word_of_int (sint (word_of_int (uint w) :: int16)) :: uint16) = w"
  by simp

lemma consumes_event:
  "consumes (if c then rd_field True Net_ReadByte (\<lambda>v to. to\<lparr>event := word_of_int v\<rparr>)
             else set_field (\<lambda>to. to\<lparr>event := 0\<rparr>))
     (if c then [word_of_int (uint e)] else []) (\<lambda>to. to\<lparr>event := if c then e else 0\<rparr>)"
proof (cases c)
  case True
  then show ?thesis
    using byte_codec.consumes_always [of "\<lambda>v to. to\<lparr>event := word_of_int v\<rparr>" "uint e"] by simp
next
  case False
  then show ?thesis using consumes_set [of "\<lambda>to. to\<lparr>event := 0\<rparr>"] by simp
qed

lemma read_entity:
  assumes u: "unread sb = entity_body_bytes from to is_new @ rest"
  shows "Net_ReadDeltaEntity (wire_entity from) (number to) (entity_bits from to is_new) sb =
    (wire_entity to, skip_read (length (entity_body_bytes from to is_new)) sb)"
  unfolding Net_ReadDeltaEntity_def
  by (rule trans, rule consumesD [OF _ u [unfolded entity_body_bytes_def Let_def]],
      (rule consumes_event read_intros position_codec.consumes_field angles_codec.consumes_field
        short_codec.consumes_field byte_codec.consumes_field)+,
      intro prod_eqI entity_state.equality,
      simp_all add: entity_own entity_other flag_simps entity_body_bytes_def Let_def
        cong: if_cong split del: if_split)
    auto

end
