(* ===== verification/Sv_Entity.thy ===== *)
theory Sv_Entity
  imports Delta_Codec
begin

text \<open>
  \<open>src/server/sv_entity.c\<close>: how the server writes a frame for a client. The player state
  and the visible entities are written as a delta from the last frame the client has
  acknowledged. The states of both frames lie in the ring \<open>svs.entity_states\<close>.
\<close>

section \<open>Types\<close>

definition PACKET_BACKUP :: nat where "PACKET_BACKUP = 32"
definition MAX_PACKET_ENTITIES :: nat where "MAX_PACKET_ENTITIES = 64"
definition MAX_STATS :: nat where "MAX_STATS = 32"
definition AREA_BYTES :: nat where "AREA_BYTES = 32" \<comment> \<open>\<open>MAX_BSP_AREAS >> 3\<close>\<close>

declare PACKET_BACKUP_def [limits] MAX_PACKET_ENTITIES_def [limits] MAX_STATS_def [limits]
  AREA_BYTES_def [limits]

text \<open>The enumeration \<open>pm_type_t\<close> is a 32 bit integer.\<close>

record pm_state =
  pm_type :: uint32
  pm_origin :: "int16 vec3"
  pm_velocity :: "int16 vec3"
  pm_flags :: uint16
  pm_time :: uint16
  pm_gravity :: int16
  pm_view_offset :: "int16 vec3"
  pm_view_angles :: "int16 vec3"
  pm_kick_angles :: "int16 vec3"
  pm_delta_angles :: "int16 vec3"

record player_state =
  player_pm :: pm_state
  stats :: "int16 list"

definition null_pm_state :: pm_state where
  "null_pm_state = \<lparr>pm_type = 0, pm_origin = Vec3 0 0 0, pm_velocity = Vec3 0 0 0, pm_flags = 0,
     pm_time = 0, pm_gravity = 0, pm_view_offset = Vec3 0 0 0, pm_view_angles = Vec3 0 0 0,
     pm_kick_angles = Vec3 0 0 0, pm_delta_angles = Vec3 0 0 0\<rparr>"

text \<open>\<open>memset(ps, 0, sizeof(*ps))\<close>\<close>

definition null_player_state :: player_state where
  "null_player_state = \<lparr>player_pm = null_pm_state, stats = replicate MAX_STATS 0\<rparr>"

record sv_frame =
  area_bytes :: nat
  area_bits :: "byte list"
  frame_ps :: player_state
  num_entities :: nat
  first_entity :: uint32
  sent_time :: uint32

record sv_client =
  last_frame :: int
  surpress_count :: uint32
  client_frames :: "sv_frame list"

text \<open>What of \<open>sv\<close>, \<open>svs\<close> and the cvar \<open>sv_max_clients\<close> the frame depends on.\<close>

record server =
  sv_frame_num :: int
  baselines :: "entity_state list"
  sv_entity_states :: "entity_state list"
  sv_max_clients :: nat

text \<open>The ring is indexed without wrapping: \<open>svs.entity_states[i % svs.num_entity_states]\<close>.\<close>

definition ring_at :: "'a list \<Rightarrow> uint32 \<Rightarrow> 'a" where
  "ring_at ring i = ring ! (unat i mod length ring)"

lemma le_ffff: "(w :: uint16) \<le> 0xffff"
  using unsigned_less [of w, where 'a = nat] by (simp add: word_le_nat_alt)

lemma less_ffff_iff: "(w :: uint16) < 0xffff \<longleftrightarrow> w \<noteq> 0xffff"
  using le_ffff [of w] by (auto simp: order.strict_iff_order)

lemma not_above_ffff [simp]: "\<not> (0xffff :: uint16) < w"
  using le_ffff [of w] by (simp add: not_less)

section \<open>Entities\<close>

definition SV_CMD_FRAME :: int where "SV_CMD_FRAME = 6"

text \<open>
  The loop over both frames; \<open>new\<close> and \<open>old\<close> look a state up by its index in its
  frame. Reading a state when its frame is exhausted, which both numbers being \<open>0xffff\<close>
  would mean, and a baseline outside the array are bad accesses.
\<close>

function emit_entities ::
  "entity_state list \<Rightarrow> nat \<Rightarrow> nat \<Rightarrow> (nat \<Rightarrow> entity_state) \<Rightarrow> nat \<Rightarrow> (nat \<Rightarrow> entity_state) \<Rightarrow>
    nat \<Rightarrow> nat \<Rightarrow> mem_buf \<Rightarrow> mem_buf result" where
  "emit_entities bases max_clients to_num new from_num old new_index old_index msg =
     (if new_index < to_num \<or> old_index < from_num then
        let new_num = (if new_index \<ge> to_num then 0xffff else number (new new_index));
            old_num = (if old_index \<ge> from_num then 0xffff else number (old old_index))
        in if new_num = old_num then
             (if new_index \<ge> to_num \<or> old_index \<ge> from_num then Inl Bad_Access
              else bindE (Net_WriteDeltaEntity (old old_index) (new new_index) False
                       (unat (number (new new_index)) \<le> max_clients) msg)
                (emit_entities bases max_clients to_num new from_num old
                   (new_index + 1) (old_index + 1)))
           else if new_num < old_num then
             (if unat new_num \<ge> length bases then Inl Bad_Access
              else bindE (Net_WriteDeltaEntity (bases ! unat new_num) (new new_index) True True msg)
                (emit_entities bases max_clients to_num new from_num old (new_index + 1) old_index))
           else
             bindE (run_seq [Net_WriteShort (uint old_num), Net_WriteShort (uint U_REMOVE)] msg)
               (emit_entities bases max_clients to_num new from_num old new_index (old_index + 1))
      else Inr msg)"
  by pat_completeness auto

termination
  by (relation "measure (\<lambda>(_, _, to_num, _, from_num, _, new_index, old_index, _).
        (to_num - new_index) + (from_num - old_index))") (auto simp: less_ffff_iff split: if_splits)

declare emit_entities.simps [simp del]

definition Sv_EmitEntities ::
  "server \<Rightarrow> sv_frame option \<Rightarrow> sv_frame \<Rightarrow> mem_buf \<Rightarrow> mem_buf result" where
  "Sv_EmitEntities sv from to msg =
     (let from_num_entities = (case from of None \<Rightarrow> 0 | Some f \<Rightarrow> num_entities f);
          old = (case from of None \<Rightarrow> (\<lambda>_. ring_at (sv_entity_states sv) 0)
                 | Some f \<Rightarrow> (\<lambda>i. ring_at (sv_entity_states sv) (first_entity f + word_of_nat i)))
      in bindE (emit_entities (baselines sv) (sv_max_clients sv)
           (num_entities to) (\<lambda>i. ring_at (sv_entity_states sv) (first_entity to + word_of_nat i))
           from_num_entities old 0 0 msg) (Net_WriteShort 0))"

section \<open>The player state\<close>

definition PS_PM_TYPE :: uint16 where "PS_PM_TYPE = 0x1"
definition PS_PM_ORIGIN :: uint16 where "PS_PM_ORIGIN = 0x2"
definition PS_PM_VELOCITY :: uint16 where "PS_PM_VELOCITY = 0x4"
definition PS_PM_FLAGS :: uint16 where "PS_PM_FLAGS = 0x8"
definition PS_PM_TIME :: uint16 where "PS_PM_TIME = 0x10"
definition PS_PM_GRAVITY :: uint16 where "PS_PM_GRAVITY = 0x20"
definition PS_PM_VIEW_OFFSET :: uint16 where "PS_PM_VIEW_OFFSET = 0x40"
definition PS_PM_VIEW_ANGLES :: uint16 where "PS_PM_VIEW_ANGLES = 0x80"
definition PS_PM_KICK_ANGLES :: uint16 where "PS_PM_KICK_ANGLES = 0x100"
definition PS_PM_DELTA_ANGLES :: uint16 where "PS_PM_DELTA_ANGLES = 0x200"

definition vec_differs :: "'a vec3 \<Rightarrow> 'a vec3 \<Rightarrow> bool" where
  "vec_differs v w \<longleftrightarrow> vx v \<noteq> vx w \<or> vy v \<noteq> vy w \<or> vz v \<noteq> vz w"

definition pm_state_bits :: "pm_state \<Rightarrow> pm_state \<Rightarrow> uint16" where
  "pm_state_bits ops ps =
     flag_if (pm_type ps \<noteq> pm_type ops) PS_PM_TYPE OR
     flag_if (vec_differs (pm_origin ps) (pm_origin ops)) PS_PM_ORIGIN OR
     flag_if (vec_differs (pm_velocity ps) (pm_velocity ops)) PS_PM_VELOCITY OR
     flag_if (pm_flags ps \<noteq> pm_flags ops) PS_PM_FLAGS OR
     flag_if (pm_time ps \<noteq> pm_time ops) PS_PM_TIME OR
     flag_if (pm_gravity ps \<noteq> pm_gravity ops) PS_PM_GRAVITY OR
     flag_if (vec_differs (pm_view_offset ps) (pm_view_offset ops)) PS_PM_VIEW_OFFSET OR
     flag_if (vec_differs (pm_view_angles ps) (pm_view_angles ops)) PS_PM_VIEW_ANGLES OR
     flag_if (vec_differs (pm_kick_angles ps) (pm_kick_angles ops)) PS_PM_KICK_ANGLES OR
     flag_if (vec_differs (pm_delta_angles ps) (pm_delta_angles ops)) PS_PM_DELTA_ANGLES"

definition Net_WriteShorts :: "int16 vec3 \<Rightarrow> mem_buf \<Rightarrow> mem_buf result" where
  "Net_WriteShorts v = run_seq [Net_WriteShort (sint (vx v)), Net_WriteShort (sint (vy v)),
     Net_WriteShort (sint (vz v))]"

text \<open>\<open>stat_bits |= 1 << i\<close> for every status that differs\<close>

definition stat_bits :: "int16 list \<Rightarrow> int16 list \<Rightarrow> uint32" where
  "stat_bits ops ps =
     fold (\<lambda>i bits. if ps ! i \<noteq> ops ! i then bits OR push_bit i 1 else bits) [0 ..< MAX_STATS] 0"

definition write_player_state :: "player_state \<Rightarrow> player_state \<Rightarrow> mem_buf \<Rightarrow> mem_buf result" where
  "write_player_state ops ps msg =
     (let pm = player_pm ps;
          bits = pm_state_bits (player_pm ops) pm;
          sbits = stat_bits (stats ops) (stats ps)
      in run_seq
        ([Net_WriteShort (uint bits),
          when_do (has_flag bits PS_PM_TYPE) (Net_WriteByte (uint (pm_type pm))),
          when_do (has_flag bits PS_PM_ORIGIN) (Net_WriteShorts (pm_origin pm)),
          when_do (has_flag bits PS_PM_VELOCITY) (Net_WriteShorts (pm_velocity pm)),
          when_do (has_flag bits PS_PM_FLAGS) (Net_WriteShort (uint (pm_flags pm))),
          when_do (has_flag bits PS_PM_TIME) (Net_WriteShort (uint (pm_time pm))),
          when_do (has_flag bits PS_PM_GRAVITY) (Net_WriteShort (sint (pm_gravity pm))),
          when_do (has_flag bits PS_PM_VIEW_OFFSET) (Net_WriteShorts (pm_view_offset pm)),
          when_do (has_flag bits PS_PM_VIEW_ANGLES) (Net_WriteShorts (pm_view_angles pm)),
          when_do (has_flag bits PS_PM_KICK_ANGLES) (Net_WriteShorts (pm_kick_angles pm)),
          when_do (has_flag bits PS_PM_DELTA_ANGLES) (Net_WriteShorts (pm_delta_angles pm)),
          Net_WriteLong (uint sbits)] @
         map (\<lambda>i. when_do (bit sbits i) (Net_WriteShort (sint (stats ps ! i)))) [0 ..< MAX_STATS])
        msg)"

definition Sv_WritePlayerstate :: "sv_frame option \<Rightarrow> sv_frame \<Rightarrow> mem_buf \<Rightarrow> mem_buf result" where
  "Sv_WritePlayerstate from to msg =
     write_player_state (case from of None \<Rightarrow> null_player_state | Some f \<Rightarrow> frame_ps f) (frame_ps to) msg"

section \<open>The frame\<close>

text \<open>\<open>frames[n & PACKET_MASK]\<close>\<close>

definition frame_slot :: "int \<Rightarrow> nat" where
  "frame_slot n = nat (n AND (int PACKET_BACKUP - 1))"

text \<open>The reference frame, if the client has one that is recent enough.\<close>

definition delta_frame_num :: "server \<Rightarrow> sv_client \<Rightarrow> int" where
  "delta_frame_num sv cl =
     (if last_frame cl < 0 then -1
      else if sv_frame_num sv - last_frame cl \<ge> int PACKET_BACKUP - 3 then -1
      else last_frame cl)"

definition Sv_WriteFrame :: "server \<Rightarrow> sv_client \<Rightarrow> mem_buf \<Rightarrow> (sv_client \<times> mem_buf) result" where
  "Sv_WriteFrame sv cl msg =
     (let frame = client_frames cl ! frame_slot (sv_frame_num sv);
          num = delta_frame_num sv cl;
          delta_frame = (if num = -1 then None else Some (client_frames cl ! frame_slot num))
      in bindE (run_seq
           [Net_WriteByte SV_CMD_FRAME,
            Net_WriteLong (sv_frame_num sv),
            Net_WriteLong num,
            Net_WriteByte (uint (surpress_count cl)),
            Net_WriteByte (int (area_bytes frame)),
            Net_WriteData (take (area_bytes frame) (area_bits frame)),
            Sv_WritePlayerstate delta_frame frame,
            Sv_EmitEntities sv delta_frame frame] msg)
         (\<lambda>msg. Inr (cl\<lparr>surpress_count := 0\<rparr>, msg)))"

end
