(* ===== verification/Cl_Entity.thy ===== *)
theory Cl_Entity
  imports Sv_Entity
begin

text \<open>
  \<open>src/client/cl_entity.c\<close> and \<open>Cl_ParseBaseline\<close> of \<open>cl_parse.c\<close>: how the client
  reads a frame. \<open>cl_client\<close> holds what of \<open>cl\<close> and \<open>cls\<close> these functions touch. Entity
  states are accumulated in the ring \<open>cl.entity_states\<close>, into which the frames point.
  \<open>Cl_CheckPredictionError\<close>, which only sets \<open>cl.predicted_state.error\<close>, is left out.
\<close>

section \<open>Types\<close>

record cl_frame =
  cf_time :: uint32
  cf_frame_num :: int
  cf_delta_frame_num :: int
  cf_area_bits :: "byte list"
  cf_ps :: player_state
  cf_num_entities :: nat
  cf_entity_state :: uint32
  cf_valid :: bool

record cl_entity =
  baseline :: entity_state
  current :: entity_state
  prev :: entity_state
  ent_frame_num :: int
  animation1_time :: uint32
  animation2_time :: uint32

record cl_client =
  frame :: cl_frame
  frames :: "cl_frame list"
  entities :: "cl_entity list"
  entity_states :: "entity_state list"
  entity_state_index :: uint32
  cl_surpress_count :: uint32
  server_hz :: uint16
  demo_server :: bool
  cl_active :: bool
  predicted_origin :: vec3_t
  predicted_view_offset :: vec3_t
  predicted_view_angles :: vec3_t

definition ENTITY_STATE_BACKUP :: nat where
  "ENTITY_STATE_BACKUP = PACKET_BACKUP * MAX_PACKET_ENTITIES"

text \<open>\<open>i & ENTITY_STATE_MASK\<close>\<close>

definition state_slot :: "uint32 \<Rightarrow> nat" where
  "state_slot i = unat (i AND (word_of_nat ENTITY_STATE_BACKUP - 1))"

definition ring_state :: "cl_client \<Rightarrow> uint32 \<Rightarrow> entity_state" where
  "ring_state cl i = entity_states cl ! state_slot i"

definition PM_FREEZE :: uint32 where "PM_FREEZE = 3"

section \<open>Entities\<close>

text \<open>What the pointer \<open>from\<close> points to: a slot of the ring, or an entity's baseline.\<close>

datatype entity_ref = Ring_Slot uint32 | Baseline_Of uint16

fun deref :: "cl_client \<Rightarrow> entity_ref \<Rightarrow> entity_state" where
  "deref cl (Ring_Slot i) = ring_state cl i"
| "deref cl (Baseline_Of n) = baseline (entities cl ! unat n)"

definition interpolation_broken :: "entity_state \<Rightarrow> entity_state \<Rightarrow> bool" where
  "interpolation_broken from to \<longleftrightarrow>
     model1 from \<noteq> model1 to \<or> model2 from \<noteq> model2 to \<or>
     model3 from \<noteq> model3 to \<or> model4 from \<noteq> model4 to \<or>
     \<bar>vx (origin from) - vx (origin to)\<bar> > 256 \<or> \<bar>vy (origin from) - vy (origin to)\<bar> > 256 \<or>
     \<bar>vz (origin from) - vz (origin to)\<bar> > 256"

definition update_entity :: "int \<Rightarrow> entity_state \<Rightarrow> entity_state \<Rightarrow> cl_entity \<Rightarrow> cl_entity" where
  "update_entity frame_num from to ent =
     (let ent = (if interpolation_broken from to then ent\<lparr>ent_frame_num := -1\<rparr> else ent);
          ent = (if ent_frame_num ent \<noteq> frame_num - 1
                 then ent\<lparr>prev := to\<lparr>origin := old_origin to\<rparr>, animation1_time := 0, animation2_time := 0\<rparr>
                 else ent\<lparr>prev := current ent\<rparr>)
      in ent\<lparr>ent_frame_num := frame_num, current := to\<rparr>)"

definition Cl_ParseDeltaEntity ::
  "cl_client \<Rightarrow> entity_ref \<Rightarrow> uint16 \<Rightarrow> uint16 \<Rightarrow> mem_buf \<Rightarrow> (cl_client \<times> mem_buf) result" where
  "Cl_ParseDeltaEntity cl from num bits msg =
     (if unat num \<ge> length (entities cl) then Inl Bad_Access
      else
        let to = entity_state_index cl;
            cl = cl\<lparr>entity_state_index := to + 1,
                    frame := (frame cl)\<lparr>cf_num_entities := cf_num_entities (frame cl) + 1\<rparr>\<rparr>;
            (st, msg) = Net_ReadDeltaEntity (deref cl from) num bits msg;
            cl = cl\<lparr>entity_states := (entity_states cl)[state_slot to := st]\<rparr>;
            ent = update_entity (cf_frame_num (frame cl)) (deref cl from) st (entities cl ! unat num)
        in Inr (cl\<lparr>entities := (entities cl)[unat num := ent]\<rparr>, msg))"

text \<open>
  The number of the next state of the reference frame; reading through a null
  \<open>delta_frame\<close> is a bad access.
\<close>

definition old_ref :: "cl_frame \<Rightarrow> nat \<Rightarrow> entity_ref" where
  "old_ref f old_index = Ring_Slot (cf_entity_state f + word_of_nat old_index)"

definition old_number_at :: "cl_client \<Rightarrow> cl_frame \<Rightarrow> nat \<Rightarrow> uint16" where
  "old_number_at cl f old_index =
     (if old_index \<ge> cf_num_entities f then 0xffff else number (deref cl (old_ref f old_index)))"

definition next_old :: "cl_client \<Rightarrow> cl_frame option \<Rightarrow> nat \<Rightarrow> uint16 result" where
  "next_old cl delta_frame old_index =
     (case delta_frame of None \<Rightarrow> Inl Bad_Access | Some f \<Rightarrow> Inr (old_number_at cl f old_index))"

text \<open>
  \<open>while (old_number < number)\<close>: the reference states before the next one in the message
  are unchanged. The last loop of \<open>Cl_ParseEntities\<close> is this one for \<open>0xffff\<close>.
\<close>

function copy_unchanged ::
  "cl_frame option \<Rightarrow> uint16 \<Rightarrow> cl_client \<Rightarrow> nat \<Rightarrow> uint16 \<Rightarrow> mem_buf
    \<Rightarrow> (cl_client \<times> nat \<times> uint16 \<times> mem_buf) result" where
  "copy_unchanged delta_frame num cl old_index old_number msg =
     (if old_number < num then
        (case delta_frame of
           None \<Rightarrow> Inl Bad_Access
         | Some f \<Rightarrow>
             bindE (Cl_ParseDeltaEntity cl (old_ref f old_index) old_number 0 msg) (\<lambda>(cl, msg).
               copy_unchanged delta_frame num cl (old_index + 1)
                 (old_number_at cl f (old_index + 1)) msg))
      else Inr (cl, old_index, old_number, msg))"
  by pat_completeness auto

termination
  by (relation "measure (\<lambda>(delta_frame, num, _, old_index, old_number, _).
        (case delta_frame of None \<Rightarrow> 0 | Some f \<Rightarrow> cf_num_entities f - old_index) +
        (if old_number < num then 1 else 0))")
     (auto simp: old_number_at_def)

declare copy_unchanged.simps [simp del]

subsection \<open>The reader only moves forward\<close>

definition advances :: "('s \<times> mem_buf \<Rightarrow> 's \<times> mem_buf) \<Rightarrow> bool" where
  "advances f \<longleftrightarrow> (\<forall>s sb. \<exists>n. snd (f (s, sb)) = skip_read n sb)"

named_theorems advance_intros \<open>readers that move forward in the buffer\<close>

lemma advances_run_Nil [advance_intros]: "advances (run_reads [])"
  by (auto simp: advances_def intro: exI [of _ 0])

lemma advances_run_Cons [advance_intros]:
  "advances f \<Longrightarrow> advances (run_reads fs) \<Longrightarrow> advances (run_reads (f # fs))"
  unfolding advances_def by (metis prod.collapse run_reads.simps(2) skip_read_simps(2))

lemma advances_set [advance_intros]: "advances (set_field g)"
  by (auto simp: advances_def set_field_def intro: exI [of _ 0])

definition fwd :: "(mem_buf \<Rightarrow> 'v \<times> mem_buf) \<Rightarrow> bool" where
  "fwd rd \<longleftrightarrow> (\<forall>sb. \<exists>n. snd (rd sb) = skip_read n sb)"

lemma fwd_basic [advance_intros]: "fwd Net_ReadChar" "fwd Net_ReadByte" "fwd Net_ReadShort" "fwd Net_ReadLong"
  by (auto simp: fwd_def Net_ReadChar_def Net_ReadByte_def Net_ReadShort_def Net_ReadLong_def)

lemma fwd_read3 [advance_intros]: "fwd rd \<Longrightarrow> fwd (read3 rd)"
  unfolding fwd_def read3_def Let_def case_prod_beta
  by simp (metis skip_read_simps(2))

lemma fwd_vectors [advance_intros]: "fwd Net_ReadPosition" "fwd Net_ReadAngles"
proof -
  have v: "fwd Net_ReadVector" "fwd Net_ReadAngle"
    using fwd_basic by (auto simp: fwd_def Net_ReadVector_def Net_ReadAngle_def case_prod_beta)
  have "Net_ReadPosition = read3 Net_ReadVector" "Net_ReadAngles = read3 Net_ReadAngle"
    by (simp_all add: fun_eq_iff Net_ReadPosition_def Net_ReadAngles_def)
  then show "fwd Net_ReadPosition" "fwd Net_ReadAngles"
    using fwd_read3 [OF v(1)] fwd_read3 [OF v(2)] by simp_all
qed

lemma advances_rd [advance_intros]: "fwd rd \<Longrightarrow> advances (rd_field c rd upd)"
  by (auto simp: fwd_def advances_def rd_field_def case_prod_beta intro: exI [of _ 0])

lemma advances_if [advance_intros]: "advances f \<Longrightarrow> advances g \<Longrightarrow> advances (if c then f else g)"
  by simp

lemma Net_ReadDeltaEntity_forward: "\<exists>n. snd (Net_ReadDeltaEntity from num bits sb) = skip_read n sb"
proof -
  have "\<exists>fs. (\<forall>s sb. Net_ReadDeltaEntity s num bits sb = run_reads fs (s, sb)) \<and> advances (run_reads fs)"
    unfolding Net_ReadDeltaEntity_def
    by (rule exI, rule conjI, (rule allI)+, rule refl, intro advance_intros)
  then show ?thesis by (auto simp: advances_def)
qed

lemma Cl_ParseDeltaEntity_forward:
  assumes "Cl_ParseDeltaEntity cl from num bits msg = Inr (cl', msg')"
  shows "\<exists>n. msg' = skip_read n msg"
proof -
  have "msg' = snd (Net_ReadDeltaEntity (deref (cl\<lparr>entity_state_index := entity_state_index cl + 1,
      frame := (frame cl)\<lparr>cf_num_entities := cf_num_entities (frame cl) + 1\<rparr>\<rparr>) from) num bits msg)"
    using assms unfolding Cl_ParseDeltaEntity_def Let_def
    by (simp only: case_prod_beta split: if_splits) (auto simp only: prod.inject sum.inject sum.distinct)
  then show ?thesis using Net_ReadDeltaEntity_forward by blast
qed

lemma copy_unchanged_forward:
  "copy_unchanged d num cl i k msg = Inr (cl', i', k', msg') \<Longrightarrow> \<exists>n. msg' = skip_read n msg"
proof (induction d num cl i k msg rule: copy_unchanged.induct)
  case (1 d num cl i k msg)
  show ?case
  proof (cases "k < num")
    case True
    then obtain f where f: "d = Some f" using "1.prems" by (subst (asm) copy_unchanged.simps) (auto split: option.splits)
    obtain c m where c: "Cl_ParseDeltaEntity cl (old_ref f i) k 0 msg = Inr (c, m)"
      and r: "copy_unchanged d num c (i + 1) (old_number_at c f (i + 1)) m = Inr (cl', i', k', msg')"
      using "1.prems" True f by (subst (asm) copy_unchanged.simps) (auto simp: bindE_eq_Inr)
    then show ?thesis
      using "1.IH" [OF True f c refl] Cl_ParseDeltaEntity_forward [OF c] f by fastforce
  next
    case False
    then show ?thesis using "1.prems" by (subst (asm) copy_unchanged.simps) (auto intro: exI [of _ 0])
  qed
qed

subsection \<open>The rest of the data stream\<close>

lemma after_short: "snd (Net_ReadShort msg) = skip_read 2 msg"
  by (simp add: Net_ReadShort_def)

function parse_entities ::
  "cl_frame option \<Rightarrow> cl_client \<Rightarrow> nat \<Rightarrow> uint16 \<Rightarrow> mem_buf
    \<Rightarrow> (cl_client \<times> nat \<times> uint16 \<times> mem_buf) result" where
  "parse_entities delta_frame cl old_index old_number msg =
     (let num = word_of_int (fst (Net_ReadShort msg)); msg = snd (Net_ReadShort msg)
      in if unat num \<ge> MAX_EDICTS then Inl (Err_Drop ''Bad number'')
         else if read_pos msg > buf_size msg then Inl (Err_Drop ''End of message'')
         else if num = 0 then Inr (cl, old_index, old_number, msg)
         else
           let bits = word_of_int (fst (Net_ReadShort msg)); msg = snd (Net_ReadShort msg)
           in bindE (copy_unchanged delta_frame num cl old_index old_number msg)
             (\<lambda>(cl, old_index, old_number, msg).
               if has_flag bits U_REMOVE then
                 bindE (next_old cl delta_frame (old_index + 1)) (\<lambda>old_number.
                   parse_entities delta_frame cl (old_index + 1) old_number msg)
               else if old_number = num then
                 (case delta_frame of
                    None \<Rightarrow> Inl Bad_Access
                  | Some f \<Rightarrow>
                      bindE (Cl_ParseDeltaEntity cl (old_ref f old_index) num bits msg) (\<lambda>(cl, msg).
                        parse_entities delta_frame cl (old_index + 1)
                          (old_number_at cl f (old_index + 1)) msg))
               else if old_number > num then
                 bindE (Cl_ParseDeltaEntity cl (Baseline_Of num) num bits msg) (\<lambda>(cl, msg).
                   parse_entities delta_frame cl old_index old_number msg)
               else parse_entities delta_frame cl old_index old_number msg))"
  by pat_completeness auto

termination
  apply (relation "measure (\<lambda>(_, _, _, _, msg). buf_size msg - read_pos msg)")
  apply simp
  apply (auto simp: after_short bindE_eq_Inr dest!: copy_unchanged_forward Cl_ParseDeltaEntity_forward)
  done

declare parse_entities.simps [simp del]

definition Cl_ParseEntities ::
  "cl_frame option \<Rightarrow> cl_client \<Rightarrow> mem_buf \<Rightarrow> (cl_client \<times> mem_buf) result" where
  "Cl_ParseEntities delta_frame cl msg =
     (let cl = cl\<lparr>frame := (frame cl)\<lparr>cf_entity_state := entity_state_index cl, cf_num_entities := 0\<rparr>\<rparr>;
          old_number = (case delta_frame of None \<Rightarrow> 0xffff | Some f \<Rightarrow> old_number_at cl f 0)
      in bindE (parse_entities delta_frame cl 0 old_number msg) (\<lambda>(cl, old_index, old_number, msg).
           bindE (copy_unchanged delta_frame 0xffff cl old_index old_number msg) (\<lambda>(cl, _, _, msg).
             Inr (cl, msg))))"

text \<open>\<open>Cl_ParseBaseline\<close> does not check the number it reads.\<close>

definition null_state :: entity_state where
  "null_state = \<lparr>number = 0, origin = Vec3 0 0 0, old_origin = Vec3 0 0 0, angles = Vec3 0 0 0,
     animation1 = 0, animation2 = 0, event = 0, effects = 0, model1 = 0, model2 = 0, model3 = 0,
     model4 = 0, client = 0, sound = 0, solid = 0\<rparr>"

definition Cl_ParseBaseline :: "cl_client \<Rightarrow> mem_buf \<Rightarrow> (cl_client \<times> mem_buf) result" where
  "Cl_ParseBaseline cl msg =
     (let (n, msg) = Net_ReadShort msg; num = word_of_int n :: uint16;
          (b, msg) = Net_ReadShort msg; bits = word_of_int b
      in if unat num \<ge> length (entities cl) then Inl Bad_Access
         else
           let (st, msg) = Net_ReadDeltaEntity null_state num bits msg
           in Inr (cl\<lparr>entities := (entities cl)[unat num := (entities cl ! unat num)\<lparr>baseline := st\<rparr>]\<rparr>, msg))"

section \<open>The player state\<close>

definition shorts :: "int vec3 \<Rightarrow> int16 vec3" where
  "shorts v = map3 word_of_int v"

definition pm_readers :: "bool \<Rightarrow> uint16 \<Rightarrow> (pm_state \<times> mem_buf \<Rightarrow> pm_state \<times> mem_buf) list" where
  "pm_readers is_demo bits =
     [rd_field (has_flag bits PS_PM_TYPE) Net_ReadByte (\<lambda>c pm. pm\<lparr>pm_type := word_of_int c\<rparr>)] @
     (if is_demo then [set_field (\<lambda>pm. pm\<lparr>pm_type := PM_FREEZE\<rparr>)] else []) @
     [rd_field (has_flag bits PS_PM_ORIGIN) (read3 Net_ReadShort) (\<lambda>v pm. pm\<lparr>pm_origin := shorts v\<rparr>),
      rd_field (has_flag bits PS_PM_VELOCITY) (read3 Net_ReadShort) (\<lambda>v pm. pm\<lparr>pm_velocity := shorts v\<rparr>),
      rd_field (has_flag bits PS_PM_FLAGS) Net_ReadShort (\<lambda>c pm. pm\<lparr>pm_flags := word_of_int c\<rparr>),
      rd_field (has_flag bits PS_PM_TIME) Net_ReadShort (\<lambda>c pm. pm\<lparr>pm_time := word_of_int c\<rparr>),
      rd_field (has_flag bits PS_PM_GRAVITY) Net_ReadShort (\<lambda>c pm. pm\<lparr>pm_gravity := word_of_int c\<rparr>),
      rd_field (has_flag bits PS_PM_VIEW_OFFSET) (read3 Net_ReadShort)
        (\<lambda>v pm. pm\<lparr>pm_view_offset := shorts v\<rparr>),
      rd_field (has_flag bits PS_PM_VIEW_ANGLES) (read3 Net_ReadShort)
        (\<lambda>v pm. pm\<lparr>pm_view_angles := shorts v\<rparr>),
      rd_field (has_flag bits PS_PM_KICK_ANGLES) (read3 Net_ReadShort)
        (\<lambda>v pm. pm\<lparr>pm_kick_angles := shorts v\<rparr>),
      rd_field (has_flag bits PS_PM_DELTA_ANGLES) (read3 Net_ReadShort)
        (\<lambda>v pm. pm\<lparr>pm_delta_angles := shorts v\<rparr>)]"

definition Cl_ParsePlayerstate ::
  "bool \<Rightarrow> player_state \<Rightarrow> mem_buf \<Rightarrow> player_state \<times> mem_buf" where
  "Cl_ParsePlayerstate is_demo ps msg =
     (let (b, msg) = Net_ReadShort msg; bits = word_of_int b :: uint16;
          (pm, msg) = run_reads (pm_readers is_demo bits) (player_pm ps, msg);
          (s, msg) = Net_ReadLong msg; sbits = word_of_int s :: uint32;
          (st, msg) = run_reads
            (map (\<lambda>i. rd_field (bit sbits i) Net_ReadShort (\<lambda>c st. st[i := word_of_int c])) [0 ..< MAX_STATS])
            (stats ps, msg)
      in (\<lparr>player_pm = pm, stats = st\<rparr>, msg))"

section \<open>The frame\<close>

definition UnpackVector :: "int16 vec3 \<Rightarrow> vec3_t" where
  "UnpackVector v = map3 (\<lambda>c. of_int (sint c) * (1 / 8)) v"

text \<open>Exact in single precision: 16 bits times \<open>45 / 8192\<close>.\<close>

definition UnpackAngles :: "int16 vec3 \<Rightarrow> vec3_t" where
  "UnpackAngles v = map3 (\<lambda>c. of_int (sint c) * (360 / 65536)) v"

text \<open>C's division on integers, for a positive divisor, and a 32 bit product.\<close>

definition c_div :: "int \<Rightarrow> int \<Rightarrow> int" where
  "c_div a b = (if a < 0 then - ((- a) div b) else a div b)"

definition wrap32 :: "int \<Rightarrow> int" where
  "wrap32 a = sint (word_of_int a :: uint32)"

definition delta_reference :: "cl_client \<Rightarrow> cl_frame option result" where
  "delta_reference cl =
     (let n = cf_delta_frame_num (frame cl) in
      if n \<le> 0 then Inr None
      else
        let f = frames cl ! frame_slot n
        in if \<not> cf_valid f then Inl (Err_Drop ''Delta from invalid frame'')
           else if cf_frame_num f \<noteq> n then Inl (Err_Drop ''Delta frame too old'')
           else if entity_state_index cl - cf_entity_state f
                     > word_of_nat (ENTITY_STATE_BACKUP - PACKET_BACKUP)
           then Inl (Err_Drop ''Delta parse_entities too old'')
           else Inr (Some f))"

definition activate :: "cl_client \<Rightarrow> cl_client" where
  "activate cl =
     (let pm = player_pm (cf_ps (frame cl)) in
      if cl_active cl then cl
      else cl\<lparr>cl_active := True, predicted_origin := UnpackVector (pm_origin pm),
              predicted_view_offset := UnpackVector (pm_view_offset pm),
              predicted_view_angles := UnpackAngles (pm_view_angles pm)\<rparr>)"

text \<open>A length byte past the end of the message, or over the array, is a bad access.\<close>

definition read_area_bits :: "byte list \<Rightarrow> mem_buf \<Rightarrow> (byte list \<times> mem_buf) result" where
  "read_area_bits area msg =
     (let (len, msg) = Net_ReadByte msg in
      if len < 0 \<or> nat len > length area then Inl Bad_Access
      else let (bs, msg) = Net_ReadData (nat len) msg in Inr (store_bytes 0 bs area, msg))"

definition Cl_ParseFrame :: "cl_client \<Rightarrow> mem_buf \<Rightarrow> (cl_client \<times> mem_buf) result" where
  "Cl_ParseFrame cl msg =
     (let (n, msg) = Net_ReadLong msg;
          (d, msg) = Net_ReadLong msg;
          (s, msg) = Net_ReadByte msg;
          cl = cl\<lparr>frame := (frame cl)\<lparr>cf_frame_num := n, cf_delta_frame_num := d\<rparr>,
                  cl_surpress_count := word_of_int s\<rparr>
      in bindE (delta_reference cl) (\<lambda>delta_frame.
         let cl = cl\<lparr>frame := (frame cl)\<lparr>cf_valid := True\<rparr>\<rparr> in
         bindE (read_area_bits (cf_area_bits (frame cl)) msg) (\<lambda>(area, msg).
         let ps0 = (case delta_frame of None \<Rightarrow> null_player_state | Some f \<Rightarrow> cf_ps f);
             (ps, msg) = Cl_ParsePlayerstate (demo_server cl) ps0 msg;
             cl = cl\<lparr>frame := (frame cl)\<lparr>cf_area_bits := area, cf_ps := ps\<rparr>\<rparr>
         in bindE (Cl_ParseEntities delta_frame cl msg) (\<lambda>(cl, msg).
              if server_hz cl = 0 then Inl Bad_Access
              else
                let t = c_div (wrap32 (cf_frame_num (frame cl) * 1000)) (uint (server_hz cl));
                    cl = cl\<lparr>frame := (frame cl)\<lparr>cf_time := word_of_int t\<rparr>\<rparr>;
                    cl = cl\<lparr>frames := (frames cl)[frame_slot (cf_frame_num (frame cl)) := frame cl]\<rparr>
                in Inr (activate cl, msg)))))"

end
