(* ===== verification/Player_Codec.thy ===== *)
theory Player_Codec
  imports Cl_Entity
begin

text \<open>
  The player state of a frame: what \<open>Sv_WritePlayerstate\<close> writes,
  \<open>Cl_ParsePlayerstate\<close> reads back, shown by interpreting \<open>delta_codec\<close>.
\<close>

section \<open>Loops of writers and readers\<close>

lemma emits_seq_append:
  "msg.emits (run_seq fs) (concat as) \<Longrightarrow> msg.emits (run_seq gs) (concat bs) \<Longrightarrow>
   msg.emits (run_seq (fs @ gs)) (concat (as @ bs))"
  using msg.emits_bind [of "run_seq fs" "concat as" "run_seq gs" "concat bs"]
  by (simp add: run_seq_append [abs_def])

lemma emits_map:
  "(\<And>i. msg.emits (f i) (g i)) \<Longrightarrow> msg.emits (run_seq (map f xs)) (concat (map g xs))"
  by (rule msg.emits_run_seq) (simp add: list_all2_conv_all_nth)

lemma consumes_map:
  "(\<And>i. consumes (f i) (g i) (h i)) \<Longrightarrow> consumes (run_reads (map f xs)) (concat (map g xs)) (fold h xs)"
proof (induction xs)
  case Nil
  then show ?case by (simp add: consumes_def)
next
  case (Cons x xs)
  show ?case
    unfolding list.map fold.simps comp_def
    by (rule consumes_Cons [OF Cons.prems Cons.IH [OF Cons.prems]])
qed

lemma bit_stat_bits [flag_simps]:
  "bit (stat_bits ops ps) i \<longleftrightarrow> i < MAX_STATS \<and> ps ! i \<noteq> ops ! i"
proof -
  have "bit (fold (\<lambda>i bits. if ps ! i \<noteq> ops ! i then bits OR push_bit i 1 else bits) [0 ..< n] 0 :: uint32) i
      \<longleftrightarrow> i < n \<and> ps ! i \<noteq> ops ! i" if "n \<le> 32" for n
    using that by (induction n) (auto simp: bit_simps bit_1_iff less_Suc_eq)
  from this [of MAX_STATS] show ?thesis by (simp add: stat_bits_def limits)
qed

lemma stats_copied:
  "length a = length b \<Longrightarrow> n \<le> length a \<Longrightarrow>
   fold (\<lambda>i. upd_if (b ! i \<noteq> a ! i) (\<lambda>st. st[i := b ! i])) [0 ..< n] a = take n b @ drop n a"
proof (induction n)
  case 0
  then show ?case by simp
next
  case (Suc n)
  then have "n < length a" by simp
  then show ?case
    using Suc by (auto simp: upd_if_def take_Suc_conv_app_nth list_update_append Cons_nth_drop_Suc
        nth_append Suc_diff_Suc upd_conv_take_nth_drop) 
qed

section \<open>The codec\<close>

lemmas ps_flag_defs = PS_PM_TYPE_def PS_PM_ORIGIN_def PS_PM_VELOCITY_def PS_PM_FLAGS_def
  PS_PM_TIME_def PS_PM_GRAVITY_def PS_PM_VIEW_OFFSET_def PS_PM_VIEW_ANGLES_def
  PS_PM_KICK_ANGLES_def PS_PM_DELTA_ANGLES_def

lemma has_ps_flag [flag_simps]:
  "has_flag b PS_PM_TYPE \<longleftrightarrow> bit b 0" "has_flag b PS_PM_ORIGIN \<longleftrightarrow> bit b (Suc 0)"
  "has_flag b PS_PM_VELOCITY \<longleftrightarrow> bit b 2" "has_flag b PS_PM_FLAGS \<longleftrightarrow> bit b 3"
  "has_flag b PS_PM_TIME \<longleftrightarrow> bit b 4" "has_flag b PS_PM_GRAVITY \<longleftrightarrow> bit b 5"
  "has_flag b PS_PM_VIEW_OFFSET \<longleftrightarrow> bit b 6" "has_flag b PS_PM_VIEW_ANGLES \<longleftrightarrow> bit b 7"
  "has_flag b PS_PM_KICK_ANGLES \<longleftrightarrow> bit b 8" "has_flag b PS_PM_DELTA_ANGLES \<longleftrightarrow> bit b 9"
  using has_flag_exp [of 0 b] has_flag_exp [of 1 b] has_flag_exp [of 2 b] has_flag_exp [of 3 b]
    has_flag_exp [of 4 b] has_flag_exp [of 5 b] has_flag_exp [of 6 b] has_flag_exp [of 7 b]
    has_flag_exp [of 8 b] has_flag_exp [of 9 b]
  by (simp_all add: ps_flag_defs)

lemma vec_differs_iff [simp]: "vec_differs v w \<longleftrightarrow> v \<noteq> w"
  by (cases v; cases w) (auto simp: vec_differs_def)

lemma pm_state_bits_flags [flag_simps]:
  "bit (pm_state_bits ops ps) 0 \<longleftrightarrow> pm_type ps \<noteq> pm_type ops"
  "bit (pm_state_bits ops ps) (Suc 0) \<longleftrightarrow> pm_origin ps \<noteq> pm_origin ops"
  "bit (pm_state_bits ops ps) 2 \<longleftrightarrow> pm_velocity ps \<noteq> pm_velocity ops"
  "bit (pm_state_bits ops ps) 3 \<longleftrightarrow> pm_flags ps \<noteq> pm_flags ops"
  "bit (pm_state_bits ops ps) 4 \<longleftrightarrow> pm_time ps \<noteq> pm_time ops"
  "bit (pm_state_bits ops ps) 5 \<longleftrightarrow> pm_gravity ps \<noteq> pm_gravity ops"
  "bit (pm_state_bits ops ps) 6 \<longleftrightarrow> pm_view_offset ps \<noteq> pm_view_offset ops"
  "bit (pm_state_bits ops ps) 7 \<longleftrightarrow> pm_view_angles ps \<noteq> pm_view_angles ops"
  "bit (pm_state_bits ops ps) 8 \<longleftrightarrow> pm_kick_angles ps \<noteq> pm_kick_angles ops"
  "bit (pm_state_bits ops ps) 9 \<longleftrightarrow> pm_delta_angles ps \<noteq> pm_delta_angles ops"
  by (simp_all add: pm_state_bits_def bit_or_iff bit_flag_if ps_flag_defs)

definition shorts_bytes :: "int16 vec3 \<Rightarrow> byte list" where
  "shorts_bytes v = concat [short_bytes (sint (vx v)), short_bytes (sint (vy v)), short_bytes (sint (vz v))]"

lemma emits_Shorts [emit_intros]: "msg.emits (Net_WriteShorts v) (shorts_bytes v)"
  unfolding Net_WriteShorts_def shorts_bytes_def by (intro emit_intros)

interpretation shorts_codec: wire_codec shorts_bytes "read3 Net_ReadShort" "map3 sint"
  by unfold_locales
    (simp add: shorts_bytes_def map3_def short_codec.read3_enc)

lemma shorts_map3_sint [simp]: "shorts (map3 sint v) = v"
  by (cases v) (simp add: shorts_def map3_def)

definition pm_bytes :: "pm_state \<Rightarrow> pm_state \<Rightarrow> byte list list" where
  "pm_bytes ops pm =
     (let bits = pm_state_bits ops pm in
      [if has_flag bits PS_PM_TYPE then [word_of_int (uint (pm_type pm))] else [],
       if has_flag bits PS_PM_ORIGIN then shorts_bytes (pm_origin pm) else [],
       if has_flag bits PS_PM_VELOCITY then shorts_bytes (pm_velocity pm) else [],
       if has_flag bits PS_PM_FLAGS then short_bytes (uint (pm_flags pm)) else [],
       if has_flag bits PS_PM_TIME then short_bytes (uint (pm_time pm)) else [],
       if has_flag bits PS_PM_GRAVITY then short_bytes (sint (pm_gravity pm)) else [],
       if has_flag bits PS_PM_VIEW_OFFSET then shorts_bytes (pm_view_offset pm) else [],
       if has_flag bits PS_PM_VIEW_ANGLES then shorts_bytes (pm_view_angles pm) else [],
       if has_flag bits PS_PM_KICK_ANGLES then shorts_bytes (pm_kick_angles pm) else [],
       if has_flag bits PS_PM_DELTA_ANGLES then shorts_bytes (pm_delta_angles pm) else []])"

definition stat_bytes :: "player_state \<Rightarrow> player_state \<Rightarrow> nat \<Rightarrow> byte list" where
  "stat_bytes ops ps i =
     (if bit (stat_bits (stats ops) (stats ps)) i then short_bytes (sint (stats ps ! i)) else [])"

definition player_bytes :: "player_state \<Rightarrow> player_state \<Rightarrow> byte list" where
  "player_bytes ops ps =
     short_bytes (uint (pm_state_bits (player_pm ops) (player_pm ps))) @
     concat (pm_bytes (player_pm ops) (player_pm ps)) @
     long_bytes (uint (stat_bits (stats ops) (stats ps))) @
     concat (map (stat_bytes ops ps) [0 ..< MAX_STATS])"

definition valid_player :: "player_state \<Rightarrow> bool" where
  "valid_player ps \<longleftrightarrow> unat (pm_type (player_pm ps)) < 256 \<and> length (stats ps) = MAX_STATS"

lemma valid_null_player [simp]: "valid_player null_player_state"
  by (simp add: valid_player_def null_player_state_def null_pm_state_def)

lemma emits_player: "msg.emits (write_player_state ops ps) (player_bytes ops ps)"
proof -
  let ?bits = "pm_state_bits (player_pm ops) (player_pm ps)"
  let ?sbits = "stat_bits (stats ops) (stats ps)" and ?pm = "player_pm ps"
  let ?emitted = "[short_bytes (uint ?bits)] @ pm_bytes (player_pm ops) ?pm @ [long_bytes (uint ?sbits)]"
  have "msg.emits (run_seq
         [Net_WriteShort (uint ?bits),
          when_do (has_flag ?bits PS_PM_TYPE) (Net_WriteByte (uint (pm_type ?pm))),
          when_do (has_flag ?bits PS_PM_ORIGIN) (Net_WriteShorts (pm_origin ?pm)),
          when_do (has_flag ?bits PS_PM_VELOCITY) (Net_WriteShorts (pm_velocity ?pm)),
          when_do (has_flag ?bits PS_PM_FLAGS) (Net_WriteShort (uint (pm_flags ?pm))),
          when_do (has_flag ?bits PS_PM_TIME) (Net_WriteShort (uint (pm_time ?pm))),
          when_do (has_flag ?bits PS_PM_GRAVITY) (Net_WriteShort (sint (pm_gravity ?pm))),
          when_do (has_flag ?bits PS_PM_VIEW_OFFSET) (Net_WriteShorts (pm_view_offset ?pm)),
          when_do (has_flag ?bits PS_PM_VIEW_ANGLES) (Net_WriteShorts (pm_view_angles ?pm)),
          when_do (has_flag ?bits PS_PM_KICK_ANGLES) (Net_WriteShorts (pm_kick_angles ?pm)),
          when_do (has_flag ?bits PS_PM_DELTA_ANGLES) (Net_WriteShorts (pm_delta_angles ?pm)),
          Net_WriteLong (uint ?sbits)]) (concat ?emitted)" (is "msg.emits (run_seq ?fs) _")
    unfolding pm_bytes_def Let_def append.simps by (intro emit_intros)
  then have "msg.emits (run_seq (?fs @
         map (\<lambda>i. when_do (bit ?sbits i) (Net_WriteShort (sint (stats ps ! i)))) [0 ..< MAX_STATS]))
      (concat (?emitted @ map (stat_bytes ops ps) [0 ..< MAX_STATS]))"
    unfolding stat_bytes_def by (intro emits_seq_append emits_map emit_intros)
  then show ?thesis
    by (simp add: write_player_state_def [abs_def] player_bytes_def Let_def del: run_seq.simps)
qed

lemmas pm_other =
  upd_if_other [of pm_type] upd_if_other [of pm_origin] upd_if_other [of pm_velocity]
  upd_if_other [of pm_flags] upd_if_other [of pm_time] upd_if_other [of pm_gravity]
  upd_if_other [of pm_view_offset] upd_if_other [of pm_view_angles]
  upd_if_other [of pm_kick_angles] upd_if_other [of pm_delta_angles]

lemma pm_own:
  "pm_type (upd_if c (pm_type_update (\<lambda>_. a)) s) = (if c then a else pm_type s)"
  "pm_origin (upd_if c (pm_origin_update (\<lambda>_. v)) s) = (if c then v else pm_origin s)"
  "pm_velocity (upd_if c (pm_velocity_update (\<lambda>_. v)) s) = (if c then v else pm_velocity s)"
  "pm_flags (upd_if c (pm_flags_update (\<lambda>_. w)) s) = (if c then w else pm_flags s)"
  "pm_time (upd_if c (pm_time_update (\<lambda>_. w)) s) = (if c then w else pm_time s)"
  "pm_gravity (upd_if c (pm_gravity_update (\<lambda>_. w)) s) = (if c then w else pm_gravity s)"
  "pm_view_offset (upd_if c (pm_view_offset_update (\<lambda>_. v)) s) = (if c then v else pm_view_offset s)"
  "pm_view_angles (upd_if c (pm_view_angles_update (\<lambda>_. v)) s) = (if c then v else pm_view_angles s)"
  "pm_kick_angles (upd_if c (pm_kick_angles_update (\<lambda>_. v)) s) = (if c then v else pm_kick_angles s)"
  "pm_delta_angles (upd_if c (pm_delta_angles_update (\<lambda>_. v)) s) = (if c then v else pm_delta_angles s)"
  by (rule upd_if_own, simp)+

lemma word_of_byte_of [simp]: "unat w < 256 \<Longrightarrow> (word_of_int (take_bit 8 (uint w)) :: uint32) = w"
proof -
  assume "unat w < 256"
  then have "int (unat w) < 256" by linarith
  then have "uint w < 2 ^ 8" by simp
  then have "take_bit 8 (uint w) = uint w" by (simp add: take_bit_int_eq_self)
  then show ?thesis by simp
qed

lemma read_pm:
  assumes "unat (pm_type pm) < 256" and u: "unread sb = concat (pm_bytes ops pm) @ rest"
  shows "run_reads (pm_readers False (pm_state_bits ops pm)) (ops, sb) =
    (pm, skip_read (length (concat (pm_bytes ops pm))) sb)"
  unfolding pm_readers_def if_False append.simps
  by (rule trans, rule consumesD [OF _ u [unfolded pm_bytes_def Let_def]],
      (rule read_intros shorts_codec.consumes_field short_codec.consumes_field
        byte_codec.consumes_field)+,
      intro prod_eqI pm_state.equality,
      simp_all add: pm_own pm_other flag_simps pm_bytes_def Let_def assms(1)
        cong: if_cong split del: if_split)
    auto

lemma read_stats:
  assumes "length (stats ops) = MAX_STATS" and "length (stats ps) = MAX_STATS"
    and u: "unread sb = concat (map (stat_bytes ops ps) [0 ..< MAX_STATS]) @ rest"
  shows "run_reads
      (map (\<lambda>i. rd_field (bit (stat_bits (stats ops) (stats ps)) i) Net_ReadShort (\<lambda>c st. st[i := word_of_int c]))
        [0 ..< MAX_STATS]) (stats ops, sb) =
    (stats ps, skip_read (length (concat (map (stat_bytes ops ps) [0 ..< MAX_STATS]))) sb)"
proof -
  have "consumes (rd_field (bit (stat_bits (stats ops) (stats ps)) i) Net_ReadShort (\<lambda>c st. st[i := word_of_int c]))
      (stat_bytes ops ps i) (upd_if (bit (stat_bits (stats ops) (stats ps)) i)
        (\<lambda>st. st[i := word_of_int (sint (word_of_int (sint (stats ps ! i)) :: int16))]))" for i
    unfolding stat_bytes_def by (rule short_codec.consumes_field)
  note c = consumesD [OF consumes_map [OF this] u, of "stats ops"]
  have "fold (\<lambda>i. upd_if (bit (stat_bits (stats ops) (stats ps)) i)
        (\<lambda>st. st[i := word_of_int (sint (word_of_int (sint (stats ps ! i)) :: int16))])) [0 ..< MAX_STATS] (stats ops)
      = fold (\<lambda>i. upd_if (stats ps ! i \<noteq> stats ops ! i) (\<lambda>st. st[i := stats ps ! i])) [0 ..< MAX_STATS] (stats ops)"
    by (rule fold_cong) (simp_all add: bit_stat_bits)
  also have "\<dots> = stats ps"
    using stats_copied [of "stats ops" "stats ps" MAX_STATS] assms(1,2) by simp
  finally show ?thesis using c by simp
qed

lemma read_player:
  assumes "valid_player ops" and "valid_player ps" and u: "unread sb = player_bytes ops ps @ rest"
  shows "Cl_ParsePlayerstate False ops sb = (ps, skip_read (length (player_bytes ops ps)) sb)"
proof -
  let ?bits = "pm_state_bits (player_pm ops) (player_pm ps)"
  let ?sbits = "stat_bits (stats ops) (stats ps)"
  let ?pm = "concat (pm_bytes (player_pm ops) (player_pm ps))"
  let ?st = "concat (map (stat_bytes ops ps) [0 ..< MAX_STATS])"
  let ?s1 = "skip_read 2 sb" and ?s2 = "skip_read (2 + length ?pm) sb" and ?s3 = "skip_read (6 + length ?pm) sb"
  have u0: "unread sb = short_bytes (uint ?bits) @ ?pm @ long_bytes (uint ?sbits) @ ?st @ rest"
    using u by (simp add: player_bytes_def)
  have 1: "Net_ReadShort sb = (sint (word_of_int (uint ?bits) :: int16), ?s1)"
    using short_codec.rd_enc [OF u0] by simp
  have u1: "unread ?s1 = ?pm @ long_bytes (uint ?sbits) @ ?st @ rest"
    using u0 by simp
  have u2: "unread ?s2 = long_bytes (uint ?sbits) @ ?st @ rest"
  proof -
    have "?s2 = skip_read (length ?pm) ?s1" by simp
    then show ?thesis using u1 by (simp only: unread_skip [of "length ?pm" ?s1]) simp
  qed
  have 2: "Net_ReadLong ?s2 = (sint (word_of_int (uint ?sbits) :: uint32), ?s3)"
    using long_codec.rd_enc [OF u2] by (simp add: add.commute add.left_commute)
  have u3: "unread ?s3 = ?st @ rest"
  proof -
    have "?s3 = skip_read 4 ?s2" by simp
    then show ?thesis using u2 by (simp only: unread_skip [of 4 ?s2]) simp
  qed
  have t: "unat (pm_type (player_pm ps)) < 256" "length (stats ops) = MAX_STATS" "length (stats ps) = MAX_STATS"
    using assms(1,2) by (simp_all add: valid_player_def)
  have "skip_read (length ?pm) ?s1 = ?s2" by simp
  note 3 = read_pm [OF t(1) u1, unfolded this] and 4 = read_stats [OF t(2,3) u3]
  show ?thesis
    unfolding Cl_ParsePlayerstate_def 1 Let_def prod.case word_of_uint16 3 2
    by (simp add: 4 player_bytes_def add.assoc)
qed

interpretation player_codec: delta_codec write_player_state player_bytes
  "Cl_ParsePlayerstate False" "\<lambda>ps. ps" valid_player
  by unfold_locales (auto intro: emits_player read_player)

end
