(* ===== verification/Frame_Delta.thy ===== *)
theory Frame_Delta
  imports Player_Codec
begin

text \<open>
  What a client makes of the frame a server has written for it. The bytes of
  \<open>Sv_EmitEntities\<close> are the merge of two sorted lists of states; \<open>Cl_ParseEntities\<close>
  undoes the merge, taking the states the message does not mention from its own copy of
  the reference frame, as long as the ring does not overwrite them on the way.
\<close>

declare add_2_eq_Suc [simp del] add_2_eq_Suc' [simp del]

section \<open>The bytes of the server\<close>

definition remove_bytes :: "entity_state \<Rightarrow> byte list" where
  "remove_bytes e = short_bytes (uint (number e)) @ short_bytes (uint U_REMOVE)"

fun merge_bytes :: "entity_state list \<Rightarrow> nat \<Rightarrow> entity_state list \<Rightarrow> entity_state list \<Rightarrow> byte list" where
  "merge_bytes bases mc [] [] = []"
| "merge_bytes bases mc (e # es) [] = remove_bytes e @ merge_bytes bases mc es []"
| "merge_bytes bases mc [] (n # ns) =
     entity_bytes (bases ! unat (number n)) n True True @ merge_bytes bases mc [] ns"
| "merge_bytes bases mc (e # es) (n # ns) =
     (if number n = number e
      then entity_bytes e n False (unat (number n) \<le> mc) @ merge_bytes bases mc es ns
      else if number n < number e
      then entity_bytes (bases ! unat (number n)) n True True @ merge_bytes bases mc (e # es) ns
      else remove_bytes e @ merge_bytes bases mc es (n # ns))"

definition ordered :: "entity_state list \<Rightarrow> bool" where
  "ordered es \<longleftrightarrow> sorted_wrt (<) (map number es) \<and> (\<forall>e \<in> set es. valid_number e)"

lemma ordered_simps [simp]:
  "ordered []"
  "ordered (e # es) \<longleftrightarrow> (\<forall>x \<in> set es. number e < number x) \<and> valid_number e \<and> ordered es"
  by (auto simp: ordered_def)

lemma valid_number_bound: "valid_number e \<Longrightarrow> unat (number e) < 1024 \<and> number e \<noteq> 0 \<and> number e < 0xffff"
  by (auto simp: valid_number_def limits word_less_nat_alt)

definition removes :: "entity_state \<Rightarrow> mem_buf \<Rightarrow> mem_buf result" where
  "removes e = run_seq [Net_WriteShort (uint (number e)), Net_WriteShort (uint U_REMOVE)]"

lemma emits_removes: "msg.emits (removes e) (remove_bytes e)"
proof -
  have "msg.emits (removes e) (concat [short_bytes (uint (number e)), short_bytes (uint U_REMOVE)])"
    unfolding removes_def by (intro emit_intros)
  then show ?thesis by (simp add: remove_bytes_def)
qed

lemma emits_bind2:
  "msg.emits f as \<Longrightarrow> msg.emits g bs \<Longrightarrow> msg.emits (\<lambda>s. bindE (f s) g) (as @ bs)"
  by (rule msg.emits_bind)

lemma emits_merge:
  assumes "\<And>i. i < length olds \<Longrightarrow> old i = olds ! i" and "\<And>i. i < length news \<Longrightarrow> new i = news ! i"
    and "\<forall>e \<in> set olds. valid_number e" and "\<forall>e \<in> set news. valid_number e \<and> unat (number e) < length bases"
  shows "oi \<le> length olds \<Longrightarrow> ni \<le> length news \<Longrightarrow>
    msg.emits (emit_entities bases mc (length news) new (length olds) old ni oi)
      (merge_bytes bases mc (drop oi olds) (drop ni news))"
proof (induction "(length news - ni) + (length olds - oi)" arbitrary: ni oi rule: less_induct)
  case less
  let ?emit = "emit_entities bases mc (length news) new (length olds) old"
  consider "oi = length olds" "ni = length news" | "oi < length olds" "ni = length news"
    | "oi = length olds" "ni < length news" | "oi < length olds" "ni < length news"
    using less.prems by fastforce
  then show ?case
  proof cases
    case 1
    then have "?emit ni oi = Inr" by (simp add: fun_eq_iff emit_entities.simps)
    then show ?thesis using 1 by (simp add: emits_Skip)
  next
    case 2
    let ?e = "olds ! oi"
    have e: "valid_number ?e" using assms(3) 2 by simp
    have "?emit ni oi = (\<lambda>s. bindE (removes ?e s) (?emit ni (Suc oi)))"
      using 2 valid_number_bound [OF e] assms(1)
      by (intro ext, subst emit_entities.simps) (auto simp: Let_def removes_def)
    moreover have "msg.emits (?emit ni (Suc oi)) (merge_bytes bases mc (drop (Suc oi) olds) (drop ni news))"
      using 2 by (intro less.hyps) auto
    moreover have "drop oi olds = ?e # drop (Suc oi) olds" using 2 by (simp add: Cons_nth_drop_Suc)
    ultimately show ?thesis using 2 emits_bind2 [OF emits_removes] by simp
  next
    case 3
    let ?n = "news ! ni"
    have n: "valid_number ?n" "unat (number ?n) < length bases" using assms(4) 3 by simp_all
    have "?emit ni oi = (\<lambda>s. bindE (Net_WriteDeltaEntity (bases ! unat (number ?n)) ?n True True s) (?emit (Suc ni) oi))"
      using 3 n valid_number_bound [OF n(1)] assms(2)
      by (intro ext, subst emit_entities.simps) (auto simp: Let_def)
    moreover have "msg.emits (?emit (Suc ni) oi) (merge_bytes bases mc (drop oi olds) (drop (Suc ni) news))"
      using 3 by (intro less.hyps) auto
    moreover have "drop ni news = ?n # drop (Suc ni) news" using 3 by (simp add: Cons_nth_drop_Suc)
    ultimately show ?thesis using 3 emits_bind2 [OF emits_DeltaEntity [OF n(1)]] by simp
  next
    case 4
    let ?e = "olds ! oi" and ?n = "news ! ni"
    have e: "valid_number ?e" using assms(3) 4 by simp
    have n: "valid_number ?n" "unat (number ?n) < length bases" using assms(4) 4 by simp_all
    have d: "drop oi olds = ?e # drop (Suc oi) olds" "drop ni news = ?n # drop (Suc ni) news"
      using 4 by (simp_all add: Cons_nth_drop_Suc)
    have IH: "msg.emits (?emit (Suc ni) (Suc oi)) (merge_bytes bases mc (drop (Suc oi) olds) (drop (Suc ni) news))"
      "msg.emits (?emit (Suc ni) oi) (merge_bytes bases mc (drop oi olds) (drop (Suc ni) news))"
      "msg.emits (?emit ni (Suc oi)) (merge_bytes bases mc (drop (Suc oi) olds) (drop ni news))"
      using 4 by (intro less.hyps; simp)+
    have "?emit ni oi =
       (if number ?n = number ?e
        then (\<lambda>s. bindE (Net_WriteDeltaEntity ?e ?n False (unat (number ?n) \<le> mc) s) (?emit (Suc ni) (Suc oi)))
        else if number ?n < number ?e
        then (\<lambda>s. bindE (Net_WriteDeltaEntity (bases ! unat (number ?n)) ?n True True s) (?emit (Suc ni) oi))
        else (\<lambda>s. bindE (removes ?e s) (?emit ni (Suc oi))))"
      using 4 n assms(1,2)
      by (intro ext, subst emit_entities.simps) (auto simp: Let_def removes_def)
    then show ?thesis
      using IH emits_bind2 [OF emits_DeltaEntity [OF n(1)]] emits_bind2 [OF emits_removes]
      by (auto simp: d)
  qed
qed

section \<open>The ring of the client\<close>

lemma state_slot_mod: "state_slot w = unat w mod 2048"
proof -
  have "unat (take_bit 11 w) = take_bit 11 (unat w)" by (rule unsigned_take_bit_eq)
  then have "unat (w AND mask 11) = take_bit 11 (unat w)" by (simp only: take_bit_eq_mask)
  then show ?thesis
    by (simp add: state_slot_def ENTITY_STATE_BACKUP_def limits mask_eq_exp_minus_1 take_bit_eq_mod)
qed

lemma state_slot_add: "state_slot (w + word_of_nat n) = (unat w + n) mod 2048"
proof -
  have "unat (w + word_of_nat n) = (unat w + n) mod 2 ^ 32"
    by (simp add: unat_word_ariths unat_of_nat take_bit_eq_mod mod_add_right_eq)
  moreover have "(m mod 2 ^ 32) mod 2048 = m mod (2048 :: nat)" for m
    by (rule mod_mod_cancel) simp
  ultimately show ?thesis by (simp only: state_slot_mod)
qed

lemma state_slot_neq:
  "a < b \<Longrightarrow> b < a + 2048 \<Longrightarrow> state_slot (w + word_of_nat a) \<noteq> state_slot (w + word_of_nat b)"
proof
  assume "a < b" "b < a + 2048" "state_slot (w + word_of_nat a) = state_slot (w + word_of_nat b)"
  then have "(unat w + a) mod 2048 = (unat w + b) mod 2048" by (simp add: state_slot_add)
  then have "2048 dvd (unat w + b) - (unat w + a)" using mod_eq_dvd_iff_nat [of "unat w + a" "unat w + b" 2048] \<open>a < b\<close> by simp
  then show False using \<open>a < b\<close> \<open>b < a + 2048\<close> by (auto dest: dvd_imp_le)
qed

lemma state_slot_less: "state_slot w < 2048"
  by (simp add: state_slot_mod)

section \<open>States the client has written\<close>

definition wrote :: "cl_client \<Rightarrow> entity_state list \<Rightarrow> cl_client \<Rightarrow> bool" where
  "wrote cl es cl' \<longleftrightarrow>
     cl' = cl\<lparr>frame := (frame cl)\<lparr>cf_num_entities := cf_num_entities (frame cl) + length es\<rparr>,
       entity_state_index := entity_state_index cl + word_of_nat (length es),
       entity_states := entity_states cl', entities := entities cl'\<rparr> \<and>
     length (entity_states cl') = length (entity_states cl) \<and>
     length (entities cl') = length (entities cl) \<and>
     (\<forall>m. baseline (entities cl' ! m) = baseline (entities cl ! m)) \<and>
     (\<forall>s. (\<forall>j < length es. s \<noteq> state_slot (entity_state_index cl + word_of_nat j)) \<longrightarrow>
        entity_states cl' ! s = entity_states cl ! s) \<and>
     (\<forall>j < length es. ring_state cl' (entity_state_index cl + word_of_nat j) = es ! j) \<and>
     (\<forall>m. m \<notin> (unat \<circ> number) ` set es \<longrightarrow> entities cl' ! m = entities cl ! m) \<and>
     (\<forall>e \<in> set es. current (entities cl' ! unat (number e)) = e)"

definition client_ok :: "cl_client \<Rightarrow> bool" where
  "client_ok cl \<longleftrightarrow> length (entity_states cl) = 2048 \<and> length (entities cl) = MAX_EDICTS"

lemma wrote_Nil [simp]: "wrote cl [] cl' \<longleftrightarrow> cl' = cl"
proof
  assume "wrote cl [] cl'"
  then have w: "cl' = cl\<lparr>entity_states := entity_states cl', entities := entities cl'\<rparr>"
    "length (entity_states cl') = length (entity_states cl)" "length (entities cl') = length (entities cl)"
    "\<forall>s. entity_states cl' ! s = entity_states cl ! s" "\<forall>s. entities cl' ! s = entities cl ! s"
    by (simp_all add: wrote_def)
  have "entity_states cl' = entity_states cl" "entities cl' = entities cl"
    using w by (auto intro: nth_equalityI)
  then show "cl' = cl" using w(1) by simp
qed (simp add: wrote_def)

lemma wrote_simps:
  assumes "wrote cl es cl'"
  shows "entity_state_index cl' = entity_state_index cl + word_of_nat (length es)"
    and "frame cl' = (frame cl)\<lparr>cf_num_entities := cf_num_entities (frame cl) + length es\<rparr>"
    and "client_ok cl \<Longrightarrow> client_ok cl'"
    and "baseline (entities cl' ! m) = baseline (entities cl ! m)"
proof -
  have w: "cl' = cl\<lparr>frame := (frame cl)\<lparr>cf_num_entities := cf_num_entities (frame cl) + length es\<rparr>,
       entity_state_index := entity_state_index cl + word_of_nat (length es),
       entity_states := entity_states cl', entities := entities cl'\<rparr>"
    using assms unfolding wrote_def by blast
  show "entity_state_index cl' = entity_state_index cl + word_of_nat (length es)"
    using arg_cong [OF w, of entity_state_index] by simp
  show "frame cl' = (frame cl)\<lparr>cf_num_entities := cf_num_entities (frame cl) + length es\<rparr>"
    using arg_cong [OF w, of frame] by simp
  show "client_ok cl \<Longrightarrow> client_ok cl'" "baseline (entities cl' ! m) = baseline (entities cl ! m)"
    using assms by (simp_all add: wrote_def client_ok_def)
qed

lemma nth_list_update_if: "i < length xs \<Longrightarrow> xs[i := x] ! j = (if i = j then x else xs ! j)"
  by simp

lemma deref_counters [simp]:
  "deref (cl\<lparr>entity_state_index := k, frame := f\<rparr>) r = deref cl r"
  by (cases r) (simp_all add: ring_state_def)

lemma baseline_update_entity [simp]: "baseline (update_entity k from to ent) = baseline ent"
  and current_update_entity [simp]: "current (update_entity k from to ent) = to"
  by (simp_all add: update_entity_def Let_def)

definition with_state :: "cl_client \<Rightarrow> entity_ref \<Rightarrow> entity_state \<Rightarrow> cl_client" where
  "with_state cl r st =
     (let to = entity_state_index cl;
          cl = cl\<lparr>entity_state_index := to + 1,
                  frame := (frame cl)\<lparr>cf_num_entities := cf_num_entities (frame cl) + 1\<rparr>\<rparr>;
          cl = cl\<lparr>entity_states := (entity_states cl)[state_slot to := st]\<rparr>;
          ent = update_entity (cf_frame_num (frame cl)) (deref cl r) st (entities cl ! unat (number st))
      in cl\<lparr>entities := (entities cl)[unat (number st) := ent]\<rparr>)"

lemma Cl_ParseDeltaEntity_reads:
  assumes "client_ok cl" and "unat num < MAX_EDICTS"
    and "Net_ReadDeltaEntity (deref cl r) num bits msg = (st, msg')" and "number st = num"
  shows "Cl_ParseDeltaEntity cl r num bits msg = Inr (with_state cl r st, msg')"
  using assms by (simp add: Cl_ParseDeltaEntity_def with_state_def Let_def client_ok_def)

lemma wrote_with_state:
  assumes "client_ok cl" and "unat (number st) < MAX_EDICTS"
  shows "wrote cl [st] (with_state cl r st)"
proof -
  have "state_slot (entity_state_index cl) < length (entity_states cl)" "unat (number st) < length (entities cl)"
    using assms state_slot_less by (simp_all add: client_ok_def)
  then show ?thesis
    by (simp add: wrote_def nth_list_update_if ring_state_def with_state_def Let_def)
qed

lemma wrote_Cons:
  assumes 1: "wrote cl [e] c1" and 2: "wrote c1 es c2" and len: "length es < 2048"
    and new: "\<forall>x \<in> set es. number x \<noteq> number e"
  shows "wrote cl (e # es) c2"
proof -
  let ?i = "entity_state_index cl"
  have i1: "entity_state_index c1 = ?i + 1" using wrote_simps(1) [OF 1] by simp
  have add: "?i + 1 + word_of_nat j = ?i + word_of_nat (Suc j)" for j by simp
  have eq1: "c1 = cl\<lparr>frame := (frame cl)\<lparr>cf_num_entities := cf_num_entities (frame cl) + 1\<rparr>,
       entity_state_index := ?i + 1, entity_states := entity_states c1, entities := entities c1\<rparr>"
    using 1 unfolding wrote_def by simp
  have eq2: "c2 = c1\<lparr>frame := (frame c1)\<lparr>cf_num_entities := cf_num_entities (frame c1) + length es\<rparr>,
       entity_state_index := entity_state_index c1 + word_of_nat (length es),
       entity_states := entity_states c2, entities := entities c2\<rparr>"
    using 2 unfolding wrote_def by blast
  have first: "ring_state c2 ?i = e"
  proof -
    have "state_slot ?i \<noteq> state_slot (entity_state_index c1 + word_of_nat j)" if "j < length es" for j
      using state_slot_neq [of 0 "Suc j" ?i] that len by (simp add: i1 add)
    then have "entity_states c2 ! state_slot ?i = entity_states c1 ! state_slot ?i"
      using 2 unfolding wrote_def by blast
    then show ?thesis using 1 by (simp add: wrote_def ring_state_def)
  qed
  have later: "ring_state c2 (?i + word_of_nat (Suc j)) = es ! j" if "j < length es" for j
  proof -
    have "ring_state c2 (entity_state_index c1 + word_of_nat j) = es ! j"
      using 2 that unfolding wrote_def by blast
    then show ?thesis by (simp only: i1 add)
  qed
  have ring: "ring_state c2 (?i + word_of_nat j) = (e # es) ! j" if "j < length (e # es)" for j
    using that first later by (cases j) simp_all
  have kept: "entity_states c2 ! s = entity_states cl ! s"
    if "\<forall>j < length (e # es). s \<noteq> state_slot (?i + word_of_nat j)" for s
  proof -
    have "s \<noteq> state_slot (entity_state_index c1 + word_of_nat j)" if "j < length es" for j
      using \<open>\<forall>j < length (e # es). _ j\<close> [rule_format, of "Suc j"] that by (simp only: i1 add) simp
    moreover have "s \<noteq> state_slot (?i + word_of_nat j)" if "j < length [e]" for j
      using \<open>\<forall>j < length (e # es). _ j\<close> [rule_format, of j] that by simp
    ultimately show ?thesis using 1 2 unfolding wrote_def by metis
  qed
  have ents: "entities c2 ! m = entities cl ! m" if "m \<notin> (unat \<circ> number) ` set (e # es)" for m
    using 1 2 that by (simp add: wrote_def)
  have cur: "current (entities c2 ! unat (number x)) = x" if "x \<in> set (e # es)" for x
  proof (cases "x = e")
    case True
    have "unat (number e) \<notin> (unat \<circ> number) ` set es" using new by (fastforce simp: word_unat_eq_iff)
    then have "entities c2 ! unat (number e) = entities c1 ! unat (number e)"
      using 2 by (simp add: wrote_def)
    then show ?thesis using 1 True by (simp add: wrote_def)
  next
    case False
    then show ?thesis using 2 that by (simp add: wrote_def)
  qed
  have "c2 = cl\<lparr>frame := (frame cl)\<lparr>cf_num_entities := cf_num_entities (frame cl) + length (e # es)\<rparr>,
       entity_state_index := ?i + word_of_nat (length (e # es)),
       entity_states := entity_states c2, entities := entities c2\<rparr>"
    by (subst eq2, subst (1 2 3 4) eq1) (simp add: add.assoc)
  then show ?thesis
    unfolding wrote_def using ring kept ents cur 1 2 by (simp add: wrote_def)
qed

section \<open>The reference frame\<close>

fun first_number :: "entity_state list \<Rightarrow> uint16" where
  "first_number [] = 0xffff"
| "first_number (e # _) = number e"

text \<open>
  \<open>holds d cl i es m\<close>: from index \<open>i\<close> on, the ring still holds the states \<open>es\<close> of the
  reference frame, and will until \<open>m\<close> more states have been written.
\<close>

definition holds :: "cl_frame option \<Rightarrow> cl_client \<Rightarrow> nat \<Rightarrow> entity_state list \<Rightarrow> nat \<Rightarrow> bool" where
  "holds delta cl i es m \<longleftrightarrow>
     (case delta of
        None \<Rightarrow> es = []
      | Some f \<Rightarrow> cf_num_entities f = i + length es \<and>
          (\<forall>j < length es. ring_state cl (cf_entity_state f + word_of_nat (i + j)) = es ! j) \<and>
          (\<exists>d. entity_state_index cl = cf_entity_state f + word_of_nat d \<and>
             i + length es \<le> d \<and> d + m \<le> 2048 + i))"

lemma holds_head:
  assumes "holds delta cl i (e # es) m"
  obtains f where "delta = Some f" "deref cl (old_ref f i) = e" "cf_num_entities f > i"
  using assms by (auto simp: holds_def old_ref_def split: option.splits)

lemma holds_number:
  "holds (Some f) cl i es m \<Longrightarrow> old_number_at cl f i = first_number es"
  by (cases es) (auto simp: holds_def old_number_at_def old_ref_def)

lemma holds_tail: "holds delta cl i (e # es) m \<Longrightarrow> holds delta cl (Suc i) es m"
proof (cases delta)
  case None
  moreover assume "holds delta cl i (e # es) m"
  ultimately show ?thesis by (simp add: holds_def)
next
  case (Some f)
  assume h: "holds delta cl i (e # es) m"
  have "ring_state cl (cf_entity_state f + word_of_nat (Suc i + j)) = es ! j" if "j < length es" for j
    using h Some that by (auto simp: holds_def add.assoc add.commute add.left_commute dest!: spec [of _ "Suc j"])
  then show ?thesis using h Some by (auto simp: holds_def)
qed

lemma holds_write:
  assumes h: "holds delta cl i es (Suc m)" and w: "wrote cl [e] cl'"
  shows "holds delta cl' i es m"
proof (cases delta)
  case None
  then show ?thesis using h by (simp add: holds_def)
next
  case (Some f)
  let ?e = "cf_entity_state f"
  obtain d where d: "entity_state_index cl = ?e + word_of_nat d" "i + length es \<le> d" "d + Suc m \<le> 2048 + i"
    using h Some by (auto simp: holds_def)
  have "ring_state cl' (?e + word_of_nat (i + j)) = es ! j" if "j < length es" for j
  proof -
    have "state_slot (?e + word_of_nat (i + j)) \<noteq> state_slot (?e + word_of_nat d)"
      using that d by (intro state_slot_neq) simp_all
    then have "ring_state cl' (?e + word_of_nat (i + j)) = ring_state cl (?e + word_of_nat (i + j))"
      using w d(1) by (simp add: wrote_def ring_state_def)
    then show ?thesis using h Some that by (simp add: holds_def)
  qed
  moreover have "entity_state_index cl' = ?e + word_of_nat (Suc d)"
    using wrote_simps(1) [OF w] d(1) by (simp add: add.assoc add.commute)
  ultimately show ?thesis
    using h Some d by (auto simp: holds_def intro!: exI [of _ "Suc d"])
qed

section \<open>The loop of the client, step by step\<close>

definition finish ::
  "cl_frame option \<Rightarrow> cl_client \<Rightarrow> nat \<Rightarrow> uint16 \<Rightarrow> mem_buf \<Rightarrow> (cl_client \<times> mem_buf) result" where
  "finish delta cl i old msg =
     bindE (parse_entities delta cl i old msg) (\<lambda>(cl, i, old, msg).
       bindE (copy_unchanged delta 0xffff cl i old msg) (\<lambda>(cl, _, _, msg). Inr (cl, msg)))"

lemma short_bytes_neq [simp]: "short_bytes c \<noteq> []"
  by (simp add: short_bytes_def)

lemma read_header:
  assumes "unread msg = short_bytes (uint k) @ rest"
  shows "Net_ReadShort msg = (sint (word_of_int (uint k) :: int16), skip_read 2 msg)"
    and "read_pos msg + 2 \<le> buf_size msg"
  using short_codec.rd_enc [OF assms] reads [OF assms] by simp_all

lemma parse_zero:
  assumes "unread msg = short_bytes 0 @ rest"
  shows "parse_entities delta cl i old msg = Inr (cl, i, old, skip_read 2 msg)"
  using read_header [of msg 0 rest] assms
  by (subst parse_entities.simps) (simp add: limits)

lemma parse_number:
  assumes u: "unread msg = short_bytes (uint k) @ short_bytes (uint bits) @ rest"
    and k: "k \<noteq> 0" "unat k < 1024"
  shows "parse_entities delta cl i old msg =
    bindE (copy_unchanged delta k cl i old (skip_read 4 msg)) (\<lambda>(cl, i, old, msg).
      if has_flag bits U_REMOVE then
        bindE (next_old cl delta (i + 1)) (\<lambda>old. parse_entities delta cl (i + 1) old msg)
      else if old = k then
        (case delta of None \<Rightarrow> Inl Bad_Access
         | Some f \<Rightarrow> bindE (Cl_ParseDeltaEntity cl (old_ref f i) k bits msg) (\<lambda>(cl, msg).
             parse_entities delta cl (i + 1) (old_number_at cl f (i + 1)) msg))
      else if old > k then
        bindE (Cl_ParseDeltaEntity cl (Baseline_Of k) k bits msg) (\<lambda>(cl, msg).
          parse_entities delta cl i old msg)
      else parse_entities delta cl i old msg)"
proof -
  have "unread (skip_read 2 msg) = short_bytes (uint bits) @ rest" using u by simp
  note h = read_header [OF u] read_header [OF this]
  show ?thesis
    using h k by (subst parse_entities.simps) (simp add: limits)
qed

lemma copy_stops [simp]: "\<not> old < k \<Longrightarrow> copy_unchanged delta k cl i old msg = Inr (cl, i, old, msg)"
  by (simp add: copy_unchanged.simps)

lemma copy_step:
  assumes "old < k" and "Cl_ParseDeltaEntity cl (old_ref f i) old 0 msg = Inr (cl', msg)"
  shows "copy_unchanged (Some f) k cl i old msg =
    copy_unchanged (Some f) k cl' (i + 1) (old_number_at cl' f (i + 1)) msg"
  using assms by (subst copy_unchanged.simps) simp

definition next_header :: "uint16 \<Rightarrow> byte list \<Rightarrow> bool" where
  "next_header k bs \<longleftrightarrow> (\<exists>rest. bs = short_bytes 0 @ rest) \<or>
     (\<exists>n (bits :: uint16) rest. bs = short_bytes (uint n) @ short_bytes (uint bits) @ rest \<and>
        k < n \<and> unat n < 1024)"

lemma next_header_end [simp]: "next_header k (short_bytes 0 @ rest)"
  by (auto simp: next_header_def)

lemma next_header_remove:
  "valid_number e \<Longrightarrow> k < number e \<Longrightarrow> next_header k (remove_bytes e @ rest)"
  using valid_number_bound [of e] unfolding next_header_def remove_bytes_def append_assoc by blast

lemma next_header_entity:
  "valid_number n \<Longrightarrow> k < number n \<Longrightarrow> entity_sent e n force is_new \<Longrightarrow>
   next_header k (entity_bytes e n force is_new @ rest)"
  using valid_number_bound [of n] unfolding next_header_def entity_bytes_def append_assoc
  by (simp only: if_True append_assoc) blast

lemma finish_end:
  "unread msg = short_bytes 0 @ rest \<Longrightarrow> finish delta cl i 0xffff msg = Inr (cl, skip_read 2 msg)"
  by (simp add: finish_def parse_zero)

lemma finish_unchanged:
  assumes u: "next_header old (unread msg)"
    and old: "old < 0xffff"
    and p: "\<And>m. Cl_ParseDeltaEntity cl (old_ref f i) old 0 m = Inr (cl', m)"
  shows "finish (Some f) cl i old msg = finish (Some f) cl' (i + 1) (old_number_at cl' f (i + 1)) msg"
  using u [unfolded next_header_def]
proof
  assume "\<exists>rest. unread msg = short_bytes 0 @ rest"
  then obtain rest where "unread msg = short_bytes 0 @ rest" ..
  then show ?thesis by (simp add: finish_def parse_zero copy_step [OF old p])
next
  assume "\<exists>k (bits :: uint16) rest. unread msg = short_bytes (uint k) @ short_bytes (uint bits) @ rest \<and>
      old < k \<and> unat k < 1024"
  then obtain k and bits :: uint16 and rest where k: "unread msg = short_bytes (uint k) @ short_bytes (uint bits) @ rest"
    "old < k" "unat k < 1024" by blast
  then have "k \<noteq> 0" by auto
  show ?thesis
    unfolding finish_def parse_number [OF k(1) \<open>k \<noteq> 0\<close> k(3)] copy_step [OF k(2) p] ..
qed

lemma finish_delta:
  assumes u: "unread msg = short_bytes (uint k) @ short_bytes (uint bits) @ rest"
    and k: "k \<noteq> 0" "unat k < 1024" and "\<not> has_flag bits U_REMOVE"
    and p: "Cl_ParseDeltaEntity cl (old_ref f i) k bits (skip_read 4 msg) = Inr (cl', msg')"
  shows "finish (Some f) cl i k msg = finish (Some f) cl' (i + 1) (old_number_at cl' f (i + 1)) msg'"
  unfolding finish_def parse_number [OF u k] using assms by simp

lemma finish_new:
  assumes u: "unread msg = short_bytes (uint k) @ short_bytes (uint bits) @ rest"
    and k: "k \<noteq> 0" "unat k < 1024" and "\<not> has_flag bits U_REMOVE" and "k < old"
    and p: "Cl_ParseDeltaEntity cl (Baseline_Of k) k bits (skip_read 4 msg) = Inr (cl', msg')"
  shows "finish delta cl i old msg = finish delta cl' i old msg'"
proof -
  have "\<not> old < k" "old \<noteq> k" using assms(5) by auto
  then show ?thesis unfolding finish_def parse_number [OF u k] using assms by simp
qed

lemma finish_remove:
  assumes u: "unread msg = short_bytes (uint k) @ short_bytes (uint U_REMOVE) @ rest"
    and k: "k \<noteq> 0" "unat k < 1024"
  shows "finish (Some f) cl i k msg = finish (Some f) cl (i + 1) (old_number_at cl f (i + 1)) (skip_read 4 msg)"
proof -
  have "has_flag U_REMOVE U_REMOVE" by (simp add: has_flag_def u_flag_defs)
  then show ?thesis unfolding finish_def parse_number [OF u k] by (simp add: next_old_def)
qed

section \<open>The client undoes the merge\<close>

lemma merge_head:
  assumes "ordered olds" and "ordered news" and "\<forall>e \<in> set olds \<union> set news. k < number e"
  shows "next_header k (merge_bytes bases mc olds news @ short_bytes 0 @ tail)"
  using assms
proof (induction bases mc olds news rule: merge_bytes.induct)
  case (4 bases mc e es n ns)
  show ?case
  proof (cases "number n = number e \<and> \<not> entity_sent e n False (unat (number n) \<le> mc)")
    case True
    then have "number n = number e" "\<not> entity_sent e n False (unat (number e) \<le> mc)" by auto
    then show ?thesis using 4 by (simp add: entity_bytes_def)
  next
    case False
    then show ?thesis
      using "4.prems" by (auto simp: entity_sent_def intro!: next_header_remove next_header_entity)
  qed
qed (auto simp: entity_sent_def intro!: next_header_remove next_header_entity)

lemma entity_unsent:
  assumes "\<not> entity_sent from to force is_new"
  shows "entity_bits from to is_new = 0" and "entity_body_bytes from to is_new = []"
  using assms by (simp_all add: entity_sent_def entity_body_bytes_def has_flag_def)

lemma no_remove: "\<not> has_flag (entity_bits from to is_new) U_REMOVE"
  by (simp add: flag_simps)

lemma finish_entity:
  assumes ok: "client_ok cl" and v: "valid_number n" and base: "deref cl r = wire_entity from"
    and u: "unread msg = entity_body_bytes from n is_new @ rest"
  shows "Cl_ParseDeltaEntity cl r (number n) (entity_bits from n is_new) msg =
       Inr (with_state cl r (wire_entity n), skip_read (length (entity_body_bytes from n is_new)) msg)"
    and "wrote cl [wire_entity n] (with_state cl r (wire_entity n))"
proof -
  have num: "unat (number n) < MAX_EDICTS" using v by (simp add: valid_number_def)
  have "Net_ReadDeltaEntity (deref cl r) (number n) (entity_bits from n is_new) msg =
      (wire_entity n, skip_read (length (entity_body_bytes from n is_new)) msg)"
    using read_entity [OF u] base by simp
  then show "Cl_ParseDeltaEntity cl r (number n) (entity_bits from n is_new) msg =
       Inr (with_state cl r (wire_entity n), skip_read (length (entity_body_bytes from n is_new)) msg)"
    using Cl_ParseDeltaEntity_reads [OF ok num] by simp
  show "wrote cl [wire_entity n] (with_state cl r (wire_entity n))"
    using wrote_with_state [OF ok] num by simp
qed

lemma unread_skip_all: "unread sb = as @ bs \<Longrightarrow> unread (skip_read (length as) sb) = bs"
  by simp

text \<open>
  The client, \<open>i\<close> states into its reference frame, takes the bytes \<open>bs\<close> and the
  terminator, and has then written the states \<open>news\<close>.
\<close>

definition undoes ::
  "cl_frame option \<Rightarrow> cl_client \<Rightarrow> nat \<Rightarrow> entity_state list \<Rightarrow> entity_state list \<Rightarrow> byte list \<Rightarrow> mem_buf \<Rightarrow> bool"
where
  "undoes delta cl i olds news bs msg \<longleftrightarrow>
     (\<exists>cl'. finish delta cl i (first_number olds) msg = Inr (cl', skip_read (length bs + 2) msg) \<and>
       wrote cl (map wire_entity news) cl')"

lemma undoes_skip:
  assumes "finish delta cl i (first_number olds) msg = finish delta cl j (first_number olds') (skip_read (length as) msg)"
    and "undoes delta cl j olds' news bs (skip_read (length as) msg)"
  shows "undoes delta cl i olds news (as @ bs) msg"
  using assms by (auto simp: undoes_def add.assoc)

lemma undoes_write:
  assumes "finish delta cl i (first_number olds) msg = finish delta c1 j (first_number olds') (skip_read (length as) msg)"
    and w: "wrote cl [wire_entity n] c1"
    and "undoes delta c1 j olds' news bs (skip_read (length as) msg)"
    and "ordered (n # news)" and "length (n # news) \<le> 2048"
  shows "undoes delta cl i olds (n # news) (as @ bs) msg"
proof -
  obtain cl' where cl': "finish delta c1 j (first_number olds') (skip_read (length as) msg) =
      Inr (cl', skip_read (length bs + 2) (skip_read (length as) msg))"
    "wrote c1 (map wire_entity news) cl'"
    using assms(3) by (auto simp: undoes_def)
  moreover have "wrote cl (map wire_entity (n # news)) cl'"
  proof -
    have "\<forall>x \<in> set news. number x \<noteq> number n" using assms(4) by auto
    then show ?thesis using wrote_Cons [OF w cl'(2)] assms(5) by simp
  qed
  ultimately show ?thesis using assms(1) by (auto simp: undoes_def add.assoc)
qed

lemma next_number:
  "holds (Some f) c i (map wire_entity es) m \<Longrightarrow> old_number_at c f i = first_number es"
  using holds_number [of f c i "map wire_entity es" m] by (cases es) simp_all

lemma undoes_remove:
  assumes v: "valid_number e" and h: "holds delta cl i (map wire_entity (e # es)) m"
    and u: "unread msg = remove_bytes e @ bs"
    and tail: "undoes delta cl (Suc i) es news rest (skip_read (length (remove_bytes e)) msg)"
  shows "undoes delta cl i (e # es) news (remove_bytes e @ rest) msg"
proof (rule undoes_skip [OF _ tail])
  obtain f where f: "delta = Some f" using h by (auto elim: holds_head)
  have n: "old_number_at cl f (Suc i) = first_number es"
    using h f by (auto intro: next_number holds_tail)
  have "unread msg = short_bytes (uint (number e)) @ short_bytes (uint U_REMOVE) @ bs"
    using u by (simp add: remove_bytes_def)
  from finish_remove [OF this, of f cl i] valid_number_bound [OF v] n f
  show "finish delta cl i (first_number (e # es)) msg =
      finish delta cl (Suc i) (first_number es) (skip_read (length (remove_bytes e)) msg)"
    by (simp add: remove_bytes_def)
qed

lemma entity_bytes_sent:
  "entity_sent from n force is_new \<Longrightarrow> entity_bytes from n force is_new =
     short_bytes (uint (number n)) @ short_bytes (uint (entity_bits from n is_new)) @
     entity_body_bytes from n is_new"
  by (simp add: entity_bytes_def)

lemma undoes_new:
  fixes bases
  defines "c1 n cl \<equiv> with_state cl (Baseline_Of (number n)) (wire_entity n)"
  assumes ok: "client_ok cl" and ord: "ordered (n # news)" "length (n # news) \<le> 2048"
    and lt: "number n < first_number olds"
    and base: "baseline (entities cl ! unat (number n)) = wire_entity b"
    and u: "unread msg = entity_bytes b n True True @ bs"
    and tail: "undoes delta (c1 n cl) i olds news rest (skip_read (length (entity_bytes b n True True)) msg)"
  shows "undoes delta cl i olds (n # news) (entity_bytes b n True True @ rest) msg"
proof (rule undoes_write [OF _ _ tail ord])
  have v: "valid_number n" using ord by simp
  note bytes = entity_bytes_sent [of b n True True]
  have u: "unread msg = short_bytes (uint (number n)) @ short_bytes (uint (entity_bits b n True)) @
      entity_body_bytes b n True @ bs"
    using u bytes by (simp add: entity_sent_def)
  then have u4: "unread (skip_read 4 msg) = entity_body_bytes b n True @ bs" by simp
  have d: "deref cl (Baseline_Of (number n)) = wire_entity b" using base by simp
  note e = finish_entity [OF ok v d u4]
  show "wrote cl [wire_entity n] (c1 n cl)" using e(2) by (simp add: c1_def)
  show "finish delta cl i (first_number olds) msg =
      finish delta (c1 n cl) i (first_number olds) (skip_read (length (entity_bytes b n True True)) msg)"
    using finish_new [OF u _ _ no_remove lt e(1)] valid_number_bound [OF v] bytes
    by (simp add: c1_def entity_sent_def add.assoc)
qed

lemma undoes_sent:
  fixes is_new
  defines "c1 r n cl \<equiv> with_state cl r (wire_entity n)"
  assumes ok: "client_ok cl" and ord: "ordered (n # news)" "length (n # news) \<le> 2048"
    and same: "number n = number e" and sent: "entity_sent e n False is_new"
    and h: "holds (Some f) cl i (map wire_entity (e # es)) (Suc m)"
    and u: "unread msg = entity_bytes e n False is_new @ bs"
    and tail: "undoes (Some f) (c1 (old_ref f i) n cl) (Suc i) es news rest
      (skip_read (length (entity_bytes e n False is_new)) msg)"
  shows "undoes (Some f) cl i (e # es) (n # news) (entity_bytes e n False is_new @ rest) msg"
proof (rule undoes_write [OF _ _ tail ord])
  have v: "valid_number n" using ord by simp
  note bytes = entity_bytes_sent [OF sent]
  have u: "unread msg = short_bytes (uint (number n)) @ short_bytes (uint (entity_bits e n is_new)) @
      entity_body_bytes e n is_new @ bs"
    using u bytes by simp
  then have u4: "unread (skip_read 4 msg) = entity_body_bytes e n is_new @ bs" by simp
  have d: "deref cl (old_ref f i) = wire_entity e" using h by (auto elim: holds_head)
  note e = finish_entity [OF ok v d u4]
  show w: "wrote cl [wire_entity n] (c1 (old_ref f i) n cl)" using e(2) by (simp add: c1_def)
  have "old_number_at (c1 (old_ref f i) n cl) f (Suc i) = first_number es"
    using next_number holds_write [OF holds_tail w] h by fastforce
  then show "finish (Some f) cl i (first_number (e # es)) msg =
      finish (Some f) (c1 (old_ref f i) n cl) (Suc i) (first_number es)
        (skip_read (length (entity_bytes e n False is_new)) msg)"
    using finish_delta [OF u _ _ no_remove e(1)] valid_number_bound [OF v] bytes same
    by (simp add: c1_def add.assoc)
qed

lemma undoes_unchanged:
  fixes is_new
  defines "c1 r n cl \<equiv> with_state cl r (wire_entity n)"
  assumes ok: "client_ok cl" and ord: "ordered (n # news)" "length (n # news) \<le> 2048"
    and same: "number n = number e" and unsent: "\<not> entity_sent e n False is_new"
    and h: "holds (Some f) cl i (map wire_entity (e # es)) (Suc m)"
    and u: "next_header (number e) (unread msg)"
    and tail: "undoes (Some f) (c1 (old_ref f i) n cl) (Suc i) es news rest msg"
  shows "undoes (Some f) cl i (e # es) (n # news) rest msg"
proof -
  have v: "valid_number n" using ord by simp
  have d: "deref cl (old_ref f i) = wire_entity e" using h by (auto elim: holds_head)
  have p: "Cl_ParseDeltaEntity cl (old_ref f i) (number e) 0 m = Inr (c1 (old_ref f i) n cl, m)" for m
    using finish_entity(1) [OF ok v d, of m is_new "unread m"] entity_unsent [OF unsent] same
    by (simp add: c1_def)
  have w: "wrote cl [wire_entity n] (c1 (old_ref f i) n cl)"
    using wrote_with_state [OF ok] v by (simp add: c1_def valid_number_def)
  have "old_number_at (c1 (old_ref f i) n cl) f (Suc i) = first_number es"
    using next_number holds_write [OF holds_tail w] h by fastforce
  then have "finish (Some f) cl i (first_number (e # es)) msg =
      finish (Some f) (c1 (old_ref f i) n cl) (Suc i) (first_number es) (skip_read (length []) msg)"
    using finish_unchanged [OF u _ p] valid_number_bound [OF v] same by simp
  from undoes_write [OF this w _ ord] tail show ?thesis by simp
qed

definition same_baselines :: "cl_client \<Rightarrow> entity_state list \<Rightarrow> entity_state list \<Rightarrow> bool" where
  "same_baselines cl bases news \<longleftrightarrow>
     (\<forall>n \<in> set news. baseline (entities cl ! unat (number n)) = wire_entity (bases ! unat (number n)))"

lemma same_baselines_Cons:
  "same_baselines cl bases (n # news) \<longleftrightarrow> same_baselines cl bases news \<and>
     baseline (entities cl ! unat (number n)) = wire_entity (bases ! unat (number n))"
  by (auto simp: same_baselines_def)

lemma merge_undone:
  assumes "client_ok cl" and "ordered olds" and "ordered news" and "length news \<le> 2048"
    and "same_baselines cl bases news"
    and "holds delta cl i (map wire_entity olds) (length news)"
    and "unread msg = merge_bytes bases mc olds news @ short_bytes 0 @ rest"
  shows "undoes delta cl i olds news (merge_bytes bases mc olds news) msg"
  using assms
proof (induction bases mc olds news arbitrary: cl i msg rule: merge_bytes.induct)
  case (1 bases mc)
  then show ?case using finish_end [of msg rest delta cl i] by (simp add: undoes_def)
next
  case (2 bases mc e es)
  have h: "holds delta cl (Suc i) (map wire_entity es) (length [])"
    using "2.prems"(6) by (auto intro: holds_tail)
  have u: "unread msg = remove_bytes e @ merge_bytes bases mc es [] @ short_bytes 0 @ rest"
    using "2.prems"(7) by simp
  have "undoes delta cl (Suc i) es [] (merge_bytes bases mc es []) (skip_read (length (remove_bytes e)) msg)"
    using "2.prems"(1-5) h unread_skip_all [OF u] by (intro "2.IH") simp_all
  with "2.prems" u show ?case by (simp add: undoes_remove)
next
  case (3 bases mc n ns)
  let ?c1 = "with_state cl (Baseline_Of (number n)) (wire_entity n)"
  let ?b = "bases ! unat (number n)"
  have v: "valid_number n" using "3.prems"(3) by simp
  have w: "wrote cl [wire_entity n] ?c1"
    using wrote_with_state [OF "3.prems"(1)] v by (simp add: valid_number_def)
  have u: "unread msg = entity_bytes ?b n True True @ merge_bytes bases mc [] ns @ short_bytes 0 @ rest"
    using "3.prems"(7) by simp
  have "undoes delta ?c1 i [] ns (merge_bytes bases mc [] ns)
      (skip_read (length (entity_bytes ?b n True True)) msg)"
    using "3.prems"(1-6) unread_skip_all [OF u] holds_write [OF _ w] wrote_simps(3,4) [OF w]
    by (intro "3.IH") (simp_all add: same_baselines_def)
  with "3.prems" u valid_number_bound [OF v] show ?case
    by (simp add: undoes_new same_baselines_Cons)
next
  case (4 bases mc e es n ns)
  have vn: "valid_number n" using "4.prems"(3) by simp
  obtain f where f: "delta = Some f" using "4.prems"(6) by (auto elim: holds_head)
  have tl: "holds delta cl (Suc i) (map wire_entity es) (Suc (length ns))"
    using "4.prems"(6) by (auto intro: holds_tail)
  have w: "wrote cl [wire_entity n] (with_state cl r (wire_entity n))" for r
    using wrote_with_state [OF "4.prems"(1)] vn by (simp add: valid_number_def)
  note wrote_ok = holds_write [OF _ w] wrote_simps(3,4) [OF w]
  consider (same) "number n = number e" | (new) "number n < number e" "number n \<noteq> number e"
    | (gone) "\<not> number n < number e" "number n \<noteq> number e" by blast
  then show ?case
  proof cases
    case gone
    have u: "unread msg = remove_bytes e @ merge_bytes bases mc es (n # ns) @ short_bytes 0 @ rest"
      using "4.prems"(7) gone by simp
    have "undoes delta cl (Suc i) es (n # ns) (merge_bytes bases mc es (n # ns))
        (skip_read (length (remove_bytes e)) msg)"
      using "4.prems"(1-5) tl unread_skip_all [OF u] gone by (intro "4.IH"(3)) simp_all
    with "4.prems" u gone show ?thesis by (simp add: undoes_remove)
  next
    case new
    let ?c1 = "with_state cl (Baseline_Of (number n)) (wire_entity n)" and ?b = "bases ! unat (number n)"
    have u: "unread msg = entity_bytes ?b n True True @ merge_bytes bases mc (e # es) ns @ short_bytes 0 @ rest"
      using "4.prems"(7) new by simp
    have "undoes delta ?c1 i (e # es) ns (merge_bytes bases mc (e # es) ns)
        (skip_read (length (entity_bytes ?b n True True)) msg)"
      using "4.prems"(1-6) unread_skip_all [OF u] wrote_ok new
      by (intro "4.IH"(2)) (simp_all add: same_baselines_def)
    with "4.prems" u new show ?thesis by (simp add: undoes_new same_baselines_Cons)
  next
    case same
    let ?c1 = "with_state cl (old_ref f i) (wire_entity n)" and ?new = "unat (number n) \<le> mc"
    have u: "unread msg = entity_bytes e n False ?new @ merge_bytes bases mc es ns @ short_bytes 0 @ rest"
      using "4.prems"(7) same by simp
    have tail: "undoes delta ?c1 (Suc i) es ns (merge_bytes bases mc es ns)
        (skip_read (length (entity_bytes e n False ?new)) msg)"
      using "4.prems"(1-5) unread_skip_all [OF u] wrote_ok(1) [OF tl] wrote_ok(2,3) same
      by (intro "4.IH"(1)) (simp_all add: same_baselines_def)
    show ?thesis
    proof (cases "entity_sent e n False ?new")
      case True
      with tail "4.prems" u same f show ?thesis by (simp add: undoes_sent)
    next
      case False
      then have none: "entity_bytes e n False ?new = []" by (simp add: entity_bytes_def)
      have "next_header (number e) (unread msg)"
        using "4.prems"(2,3) same unfolding u none append_Nil by (intro merge_head) auto
      with tail "4.prems" none same f False show ?thesis by (simp add: undoes_unchanged)
    qed
  qed
qed

end
