(* ===== verification/Frame_Transfer.thy ===== *)
theory Frame_Transfer
  imports Frame_Delta
begin

text \<open>
  From the server's frame to the client's: \<open>Sv_EmitEntities\<close> followed by
  \<open>Cl_ParseEntities\<close>, and \<open>Sv_WriteFrame\<close> followed by \<open>Cl_ParseFrame\<close>.
\<close>

section \<open>Frames as lists of states\<close>

definition frame_states :: "server \<Rightarrow> sv_frame \<Rightarrow> entity_state list" where
  "frame_states sv f =
     map (\<lambda>i. ring_at (sv_entity_states sv) (first_entity f + word_of_nat i)) [0 ..< num_entities f]"

definition opt_states :: "server \<Rightarrow> sv_frame option \<Rightarrow> entity_state list" where
  "opt_states sv from = (case from of None \<Rightarrow> [] | Some f \<Rightarrow> frame_states sv f)"

definition client_states :: "cl_client \<Rightarrow> cl_frame \<Rightarrow> entity_state list" where
  "client_states cl f =
     map (\<lambda>i. ring_state cl (cf_entity_state f + word_of_nat i)) [0 ..< cf_num_entities f]"

lemma length_frame_states [simp]: "length (frame_states sv f) = num_entities f"
  by (simp add: frame_states_def)

lemma length_client_states [simp]: "length (client_states cl f) = cf_num_entities f"
  by (simp add: client_states_def)

lemma ordered_length: "ordered es \<Longrightarrow> length es \<le> 1024"
proof -
  assume o: "ordered es"
  have "distinct (map number es)"
    using o by (simp add: ordered_def strict_sorted_iff)
  then have "distinct (map (unat \<circ> number) es)"
    by (auto simp: distinct_map inj_on_def word_unat_eq_iff)
  then have "length es = card (set (map (unat \<circ> number) es))"
    using distinct_card [of "map (unat \<circ> number) es"] by (simp only: length_map)
  moreover have "set (map (unat \<circ> number) es) \<subseteq> {..< 1024}"
    using o valid_number_bound by (auto simp: ordered_def)
  ultimately show ?thesis
    using card_mono [of "{..< 1024 :: nat}" "set (map (unat \<circ> number) es)"] by simp
qed

section \<open>Entities\<close>

definition entities_bytes :: "server \<Rightarrow> sv_frame option \<Rightarrow> sv_frame \<Rightarrow> byte list" where
  "entities_bytes sv from to =
     merge_bytes (baselines sv) (sv_max_clients sv) (opt_states sv from) (frame_states sv to) @ short_bytes 0"

text \<open>The states of both frames have numbers in ascending order, and baselines.\<close>

definition sv_frames_ok :: "server \<Rightarrow> sv_frame option \<Rightarrow> sv_frame \<Rightarrow> bool" where
  "sv_frames_ok sv from to \<longleftrightarrow>
     ordered (opt_states sv from) \<and> ordered (frame_states sv to) \<and> length (baselines sv) = MAX_EDICTS"

lemma emits_EmitEntities:
  assumes "sv_frames_ok sv from to"
  shows "msg.emits (Sv_EmitEntities sv from to) (entities_bytes sv from to)"
proof -
  define n old where "n = length (opt_states sv from)"
    and "old = (case from of None \<Rightarrow> (\<lambda>_. ring_at (sv_entity_states sv) 0)
                 | Some f \<Rightarrow> (\<lambda>i. ring_at (sv_entity_states sv) (first_entity f + word_of_nat i)))"
  let ?new = "\<lambda>i. ring_at (sv_entity_states sv) (first_entity to + word_of_nat i)"
  let ?emit = "emit_entities (baselines sv) (sv_max_clients sv) (num_entities to) ?new n old 0 0"
  have old: "old i = opt_states sv from ! i" if "i < length (opt_states sv from)" for i
    using that by (simp add: old_def opt_states_def frame_states_def split: option.splits)
  have new: "?new i = frame_states sv to ! i" if "i < length (frame_states sv to)" for i
    using that by (simp add: frame_states_def)
  have "msg.emits ?emit (merge_bytes (baselines sv) (sv_max_clients sv) (opt_states sv from) (frame_states sv to))"
    using emits_merge [OF old new, where oi = 0 and ni = 0] assms
    by (simp add: n_def sv_frames_ok_def ordered_def valid_number_def)
  from emits_bind2 [OF this emits_Short [of 0]]
  have "msg.emits (\<lambda>s. bindE (?emit s) (Net_WriteShort 0)) (entities_bytes sv from to)"
    by (simp add: entities_bytes_def)
  moreover have "n = (case from of None \<Rightarrow> 0 | Some f \<Rightarrow> num_entities f)"
    by (simp add: n_def opt_states_def split: option.splits)
  ultimately show ?thesis
    by (simp add: Sv_EmitEntities_def [abs_def] Let_def old_def)
qed

text \<open>
  The client has the reference frame the server writes from, and its ring has room for
  the new states before it comes round to those of that frame.
\<close>

definition has_reference :: "server \<Rightarrow> sv_frame option \<Rightarrow> cl_client \<Rightarrow> cl_frame option \<Rightarrow> nat \<Rightarrow> bool" where
  "has_reference sv from cl delta m \<longleftrightarrow>
     (case (from, delta) of
        (None, None) \<Rightarrow> True
      | (Some sf, Some f) \<Rightarrow>
          client_states cl f = map wire_entity (frame_states sv sf) \<and>
          cf_num_entities f \<le> unat (entity_state_index cl - cf_entity_state f) \<and>
          unat (entity_state_index cl - cf_entity_state f) + m \<le> ENTITY_STATE_BACKUP
      | _ \<Rightarrow> False)"

lemma has_reference_holds:
  assumes "has_reference sv from cl delta m"
  shows "holds delta cl 0 (map wire_entity (opt_states sv from)) m"
proof (cases delta)
  case None
  then show ?thesis using assms by (simp add: has_reference_def holds_def opt_states_def split: option.splits)
next
  case (Some f)
  then obtain sf where sf: "from = Some sf" using assms by (cases "from") (simp_all add: has_reference_def)
  let ?d = "unat (entity_state_index cl - cf_entity_state f)"
  have cs: "client_states cl f = map wire_entity (frame_states sv sf)"
    using assms Some sf by (simp add: has_reference_def)
  then have n: "cf_num_entities f = num_entities sf"
    by (metis length_client_states length_frame_states length_map)
  have "ring_state cl (cf_entity_state f + word_of_nat j) = map wire_entity (frame_states sv sf) ! j"
    if "j < num_entities sf" for j
    using that n by (simp flip: cs) (simp add: client_states_def)
  moreover have "entity_state_index cl = cf_entity_state f + word_of_nat ?d" by simp
  ultimately show ?thesis
    using assms Some sf n
    by (auto simp: has_reference_def holds_def opt_states_def ENTITY_STATE_BACKUP_def limits intro!: exI [of _ ?d])
qed

lemma parse_entities_bytes:
  assumes ok: "client_ok cl" and sv: "sv_frames_ok sv from to"
    and base: "same_baselines cl (baselines sv) (frame_states sv to)"
    and ref: "has_reference sv from cl delta (num_entities to)"
    and u: "unread msg = entities_bytes sv from to @ rest"
  shows "\<exists>cl'. Cl_ParseEntities delta cl msg = Inr (cl', skip_read (length (entities_bytes sv from to)) msg) \<and>
    wrote (cl\<lparr>frame := (frame cl)\<lparr>cf_entity_state := entity_state_index cl, cf_num_entities := 0\<rparr>\<rparr>)
      (map wire_entity (frame_states sv to)) cl'"
proof -
  let ?cl = "cl\<lparr>frame := (frame cl)\<lparr>cf_entity_state := entity_state_index cl, cf_num_entities := 0\<rparr>\<rparr>"
  let ?olds = "opt_states sv from" and ?news = "frame_states sv to"
  have ok': "client_ok ?cl" and base': "same_baselines ?cl (baselines sv) ?news"
    using ok base by (simp_all add: client_ok_def same_baselines_def)
  have h: "holds delta ?cl 0 (map wire_entity ?olds) (length ?news)"
    using has_reference_holds [OF ref] by (simp add: holds_def ring_state_def split: option.splits)
  have ord: "ordered ?olds" "ordered ?news" "length ?news \<le> 2048"
    using sv ordered_length [of ?news] by (simp_all add: sv_frames_ok_def)
  have "undoes delta ?cl 0 ?olds ?news (merge_bytes (baselines sv) (sv_max_clients sv) ?olds ?news) msg"
    by (rule merge_undone [OF ok' ord base' h]) (use u in \<open>simp add: entities_bytes_def\<close>)
  moreover have "first_number ?olds =
      (case delta of None \<Rightarrow> 0xffff | Some f \<Rightarrow> old_number_at ?cl f 0)"
  proof (cases delta)
    case None
    then show ?thesis using h by (simp add: holds_def)
  next
    case (Some f)
    then show ?thesis using next_number [of f ?cl 0 ?olds] h by simp
  qed
  ultimately show ?thesis
    by (auto simp: undoes_def finish_def Cl_ParseEntities_def Let_def entities_bytes_def)
qed

lemma wrote_client_states:
  assumes "wrote (cl\<lparr>frame := f\<lparr>cf_entity_state := entity_state_index cl, cf_num_entities := 0\<rparr>\<rparr>) es cl'"
  shows "client_states cl' (frame cl') = es"
proof (rule nth_equalityI)
  note f = wrote_simps(2) [OF assms]
  show len: "length (client_states cl' (frame cl')) = length es" using f by simp
  fix i assume "i < length (client_states cl' (frame cl'))"
  then show "client_states cl' (frame cl') ! i = es ! i"
    using f len assms by (simp add: client_states_def wrote_def)
qed

section \<open>Frames\<close>

lemma Net_ReadData_bytes:
  "unread sb = bs @ rest \<Longrightarrow> Net_ReadData (length bs) sb = (bs, skip_read (length bs) sb)"
proof (induction bs arbitrary: sb)
  case Nil
  then show ?case by simp
next
  case (Cons b bs)
  have u: "unread sb = [word_of_int (uint b)] @ bs @ rest" using Cons.prems by simp
  have "uint b < 2 ^ 8" using unsigned_less [of b, where 'a = int] by simp
  then have "Net_ReadByte sb = (uint b, skip_read 1 sb)"
    using byte_codec.rd_enc [OF u] take_bit_int_eq_self [of "uint b" 8] by simp
  moreover have "unread (skip_read 1 sb) = bs @ rest" using Cons.prems by simp
  ultimately show ?case using Cons.IH [of "skip_read 1 sb"] by simp
qed

definition delta_frame :: "server \<Rightarrow> sv_client \<Rightarrow> sv_frame option" where
  "delta_frame sv cl =
     (if delta_frame_num sv cl = -1 then None
      else Some (client_frames cl ! frame_slot (delta_frame_num sv cl)))"

definition this_frame :: "server \<Rightarrow> sv_client \<Rightarrow> sv_frame" where
  "this_frame sv cl = client_frames cl ! frame_slot (sv_frame_num sv)"

definition frame_ps0 :: "sv_frame option \<Rightarrow> player_state" where
  "frame_ps0 from = (case from of None \<Rightarrow> null_player_state | Some f \<Rightarrow> frame_ps f)"

definition frame_bytes :: "server \<Rightarrow> sv_client \<Rightarrow> byte list" where
  "frame_bytes sv cl =
     (let to = this_frame sv cl; from = delta_frame sv cl in concat
       [[word_of_int SV_CMD_FRAME], long_bytes (sv_frame_num sv), long_bytes (delta_frame_num sv cl),
        [word_of_int (uint (surpress_count cl))], [word_of_int (int (area_bytes to))],
        take (area_bytes to) (area_bits to), player_bytes (frame_ps0 from) (frame_ps to),
        entities_bytes sv from to])"

lemma emits_Playerstate [emit_intros]:
  "msg.emits (Sv_WritePlayerstate from to) (player_bytes (frame_ps0 from) (frame_ps to))"
  using emits_player by (simp add: Sv_WritePlayerstate_def [abs_def] frame_ps0_def)

lemma Sv_WriteFrame_writes:
  assumes "sv_frames_ok sv (delta_frame sv cl) (this_frame sv cl)"
    and "wf_buf buf" and "length (frame_bytes sv cl) \<le> room buf"
  obtains buf' where "Sv_WriteFrame sv cl buf = Inr (cl\<lparr>surpress_count := 0\<rparr>, buf')"
    "contents buf' = contents buf @ frame_bytes sv cl" "wf_buf buf'"
proof -
  let ?to = "this_frame sv cl" and ?from = "delta_frame sv cl"
  let ?writes = "[Net_WriteByte SV_CMD_FRAME, Net_WriteLong (sv_frame_num sv),
            Net_WriteLong (delta_frame_num sv cl), Net_WriteByte (uint (surpress_count cl)),
            Net_WriteByte (int (area_bytes ?to)), Net_WriteData (take (area_bytes ?to) (area_bits ?to)),
            Sv_WritePlayerstate ?from ?to, Sv_EmitEntities sv ?from ?to]"
  have "msg.emits (run_seq ?writes) (frame_bytes sv cl)"
    unfolding frame_bytes_def Let_def by (intro emit_intros emits_EmitEntities assms(1))
  then obtain buf' where "run_seq ?writes buf = Inr buf'" "contents buf' = contents buf @ frame_bytes sv cl"
      "wf_buf buf'"
    using msg.emitsD assms(2,3) by blast
  then show thesis
    using that [of buf'] by (simp add: Sv_WriteFrame_def this_frame_def delta_frame_def Let_def del: run_seq.simps)
qed

text \<open>
  A client in step with the server: it holds the frame that the server will take as
  reference, with the same number, player state and entities, and the baselines.
\<close>

definition steady :: "cl_client \<Rightarrow> bool" where
  "steady cl \<longleftrightarrow> client_ok cl \<and> length (frames cl) = PACKET_BACKUP \<and>
     length (cf_area_bits (frame cl)) = AREA_BYTES \<and> server_hz cl \<noteq> 0 \<and> \<not> demo_server cl"

definition in_step :: "server \<Rightarrow> sv_client \<Rightarrow> cl_client \<Rightarrow> bool" where
  "in_step sv scl cl \<longleftrightarrow>
     steady cl \<and>
     same_baselines cl (baselines sv) (frame_states sv (this_frame sv scl)) \<and>
     (let n = delta_frame_num sv scl; f = frames cl ! frame_slot n in
      if n = -1 then True
      else n \<noteq> 0 \<and> cf_valid f \<and> cf_frame_num f = n \<and> cf_ps f = frame_ps0 (delta_frame sv scl) \<and>
        has_reference sv (delta_frame sv scl) cl (Some f) (num_entities (this_frame sv scl)) \<and>
        unat (entity_state_index cl - cf_entity_state f) \<le> ENTITY_STATE_BACKUP - PACKET_BACKUP)"

text \<open>The frames of the server are sound, and its numbers fit the fields of the message.\<close>

definition sv_sound :: "server \<Rightarrow> sv_client \<Rightarrow> bool" where
  "sv_sound sv scl \<longleftrightarrow>
     sv_frames_ok sv (delta_frame sv scl) (this_frame sv scl) \<and>
     valid_player (frame_ps0 (delta_frame sv scl)) \<and> valid_player (frame_ps (this_frame sv scl)) \<and>
     length (area_bits (this_frame sv scl)) = AREA_BYTES \<and> area_bytes (this_frame sv scl) \<le> AREA_BYTES \<and>
     0 \<le> sv_frame_num sv \<and> sv_frame_num sv < 2 ^ 31 \<and> last_frame scl < 2 ^ 31"

lemma signed_32: "- (2 ^ 31) \<le> k \<Longrightarrow> k < 2 ^ 31 \<Longrightarrow> sint (word_of_int k :: uint32) = k"
  using int_word_sint [of k, where 'a = 32] by (simp add: mod_pos_pos_trivial)

lemma delta_num_range: "sv_sound sv scl \<Longrightarrow> -1 \<le> delta_frame_num sv scl \<and> delta_frame_num sv scl < 2 ^ 31"
  by (auto simp: sv_sound_def delta_frame_num_def)

lemma byte_value: "k < 256 \<Longrightarrow> take_bit 8 (int k) = int k"
  by (simp add: take_bit_int_eq_self)

lemma read_area:
  assumes "unread sb = [word_of_int (int n)] @ take n bits @ rest" and "length bits = AREA_BYTES"
    and "n \<le> AREA_BYTES" and "length area = AREA_BYTES"
  shows "\<exists>area'. read_area_bits area sb = Inr (area', skip_read (1 + n) sb) \<and>
    length area' = AREA_BYTES \<and> take n area' = take n bits"
proof -
  have b: "Net_ReadByte sb = (int n, skip_read 1 sb)"
    using byte_codec.rd_enc [OF assms(1)] byte_value [of n] assms(3) by (simp add: limits)
  have "unread (skip_read 1 sb) = take n bits @ rest" using assms(1) by simp
  from Net_ReadData_bytes [OF this] have "Net_ReadData n (skip_read 1 sb) = (take n bits, skip_read (1 + n) sb)"
    using assms(2,3) by simp
  then have "read_area_bits area sb = Inr (store_bytes 0 (take n bits) area, skip_read (1 + n) sb)"
    using b assms(3,4) by (simp add: read_area_bits_def)
  moreover have "take n (store_bytes 0 (take n bits) area) = take n bits"
    using take_store_bytes [of 0 "take n bits" area] assms(2-4) by simp
  ultimately show ?thesis using assms(4) by simp
qed

text \<open>The frame number and its reference, as the client reads and finds them.\<close>

definition numbered :: "int \<Rightarrow> int \<Rightarrow> int \<Rightarrow> cl_client \<Rightarrow> cl_client" where
  "numbered n d s cl = cl\<lparr>frame := (frame cl)\<lparr>cf_frame_num := n, cf_delta_frame_num := d\<rparr>,
     cl_surpress_count := word_of_int s\<rparr>"

lemma finds_reference:
  assumes sync: "in_step sv scl cl" and sv: "sv_sound sv scl"
  obtains delta where "delta_reference (numbered n (delta_frame_num sv scl) s cl) = Inr delta"
    "has_reference sv (delta_frame sv scl) cl delta (num_entities (this_frame sv scl))"
    "(case delta of None \<Rightarrow> null_player_state | Some f \<Rightarrow> cf_ps f) = frame_ps0 (delta_frame sv scl)"
proof (cases "delta_frame_num sv scl = -1")
  case True
  show thesis
    by (rule that [of None]) (simp_all add: delta_reference_def numbered_def True has_reference_def
        delta_frame_def frame_ps0_def)
next
  case False
  let ?f = "frames cl ! frame_slot (delta_frame_num sv scl)"
  have f: "delta_frame_num sv scl > 0" "cf_valid ?f" "cf_frame_num ?f = delta_frame_num sv scl"
    "cf_ps ?f = frame_ps0 (delta_frame sv scl)"
    "has_reference sv (delta_frame sv scl) cl (Some ?f) (num_entities (this_frame sv scl))"
    "unat (entity_state_index cl - cf_entity_state ?f) \<le> ENTITY_STATE_BACKUP - PACKET_BACKUP"
    using sync False delta_num_range [OF sv] by (auto simp: in_step_def steady_def Let_def)
  then have "\<not> entity_state_index cl - cf_entity_state ?f > word_of_nat (ENTITY_STATE_BACKUP - PACKET_BACKUP)"
    by (simp add: word_less_nat_alt ENTITY_STATE_BACKUP_def limits)
  then show thesis
    using f by (intro that [of "Some ?f"]) (simp_all add: delta_reference_def numbered_def Let_def)
qed

lemma frame_slot_less: "frame_slot n < PACKET_BACKUP"
proof -
  have "n AND 31 = n mod 32"
    using take_bit_eq_mask [of 5 n] by (simp add: take_bit_eq_mod mask_eq_exp_minus_1)
  then show ?thesis by (simp add: frame_slot_def limits nat_less_iff)
qed

lemma activate_simps [simp]:
  "frame (activate cl) = frame cl" "frames (activate cl) = frames cl"
  "entity_states (activate cl) = entity_states cl" "entities (activate cl) = entities cl"
  "entity_state_index (activate cl) = entity_state_index cl" "server_hz (activate cl) = server_hz cl"
  "demo_server (activate cl) = demo_server cl"
  by (simp_all add: activate_def Let_def)

lemma client_states_cong:
  "entity_states c = entity_states c' \<Longrightarrow> cf_entity_state f = cf_entity_state f' \<Longrightarrow>
   cf_num_entities f = cf_num_entities f' \<Longrightarrow> client_states c f = client_states c' f'"
  by (simp add: client_states_def ring_state_def)

text \<open>What the client has made of the frame \<open>to\<close> of the server.\<close>

definition shows_frame :: "server \<Rightarrow> sv_frame \<Rightarrow> cl_client \<Rightarrow> bool" where
  "shows_frame sv to cl \<longleftrightarrow>
     cf_valid (frame cl) \<and> cf_frame_num (frame cl) = sv_frame_num sv \<and> cf_ps (frame cl) = frame_ps to \<and>
     take (area_bytes to) (cf_area_bits (frame cl)) = take (area_bytes to) (area_bits to) \<and>
     client_states cl (frame cl) = map wire_entity (frame_states sv to) \<and>
     (\<forall>e \<in> set (frame_states sv to). current (entities cl ! unat (number e)) = wire_entity e) \<and>
     frames cl ! frame_slot (sv_frame_num sv) = frame cl \<and>
     entity_state_index cl = cf_entity_state (frame cl) + word_of_nat (num_entities to) \<and> steady cl"

lemma wrote_server_hz: "wrote cl es cl' \<Longrightarrow> server_hz cl' = server_hz cl"
  and wrote_demo: "wrote cl es cl' \<Longrightarrow> demo_server cl' = demo_server cl"
  and wrote_frames: "wrote cl es cl' \<Longrightarrow> frames cl' = frames cl"
proof -
  assume "wrote cl es cl'"
  then have w: "cl' = cl\<lparr>frame := (frame cl)\<lparr>cf_num_entities := cf_num_entities (frame cl) + length es\<rparr>,
       entity_state_index := entity_state_index cl + word_of_nat (length es),
       entity_states := entity_states cl', entities := entities cl'\<rparr>"
    unfolding wrote_def by blast
  show "server_hz cl' = server_hz cl" using arg_cong [OF w, of server_hz] by simp
  show "demo_server cl' = demo_server cl" using arg_cong [OF w, of demo_server] by simp
  show "frames cl' = frames cl" using arg_cong [OF w, of frames] by simp
qed

lemma shows_wrote:
  assumes w: "wrote (cl\<lparr>frame := f\<lparr>cf_entity_state := entity_state_index cl, cf_num_entities := 0\<rparr>\<rparr>)
      (map wire_entity (frame_states sv to)) cl'"
    and f: "cf_valid f" "cf_frame_num f = sv_frame_num sv" "cf_ps f = frame_ps to"
      "take (area_bytes to) (cf_area_bits f) = take (area_bytes to) (area_bits to)"
      "steady (cl\<lparr>frame := f\<rparr>)"
  shows "shows_frame sv to (activate (cl'\<lparr>frame := (frame cl')\<lparr>cf_time := t\<rparr>,
    frames := (frames cl')[frame_slot (cf_frame_num (frame cl')) := (frame cl')\<lparr>cf_time := t\<rparr>]\<rparr>))"
proof -
  have fr: "frame cl' = f\<lparr>cf_entity_state := entity_state_index cl, cf_num_entities := num_entities to\<rparr>"
    using wrote_simps(2) [OF w] by simp
  have frs: "frames cl' = frames cl"
    using wrote_frames [OF w] by simp
  have "client_states cl' (frame cl') = map wire_entity (frame_states sv to)"
    by (rule wrote_client_states [OF w])
  then have "client_states (activate (cl'\<lparr>frame := (frame cl')\<lparr>cf_time := t\<rparr>, frames := g\<rparr>))
      ((frame cl')\<lparr>cf_time := t\<rparr>) = map wire_entity (frame_states sv to)" for g
    by (subst client_states_cong [where c' = cl' and f' = "frame cl'"]) simp_all
  moreover have "\<forall>e \<in> set (frame_states sv to). current (entities cl' ! unat (number e)) = wire_entity e"
    using w unfolding wrote_def by simp
  moreover have "client_ok cl'"
    using wrote_simps(3) [OF w] f(5) by (simp add: steady_def client_ok_def)
  ultimately show ?thesis
    using f frame_slot_less [of "sv_frame_num sv"] wrote_server_hz [OF w] wrote_demo [OF w]
      wrote_simps(1) [OF w]
    by (simp add: shows_frame_def steady_def client_ok_def fr frs)
qed

lemma Cl_ParseFrame_reads:
  assumes sync: "in_step sv scl cl" and sv: "sv_sound sv scl"
    and u: "unread msg = tl (frame_bytes sv scl) @ rest"
  shows "\<exists>cl'. Cl_ParseFrame cl msg = Inr (cl', skip_read (length (frame_bytes sv scl) - 1) msg) \<and>
    shows_frame sv (this_frame sv scl) cl' \<and>
    (\<forall>m. baseline (entities cl' ! m) = baseline (entities cl ! m))"
proof -
  let ?to = "this_frame sv scl" and ?from = "delta_frame sv scl"
  let ?n = "sv_frame_num sv" and ?d = "delta_frame_num sv scl" and ?s = "uint (surpress_count scl)"
  let ?a = "area_bytes ?to" and ?ps = "player_bytes (frame_ps0 ?from) (frame_ps ?to)"
  let ?es = "entities_bytes sv ?from ?to"
  let ?area = "take ?a (area_bits ?to)"
  have n: "sint (word_of_int ?n :: uint32) = ?n" "sint (word_of_int ?d :: uint32) = ?d"
    using sv delta_num_range [OF sv] by (auto simp: sv_sound_def intro!: signed_32)
  have u: "unread msg = long_bytes ?n @ long_bytes ?d @ [word_of_int ?s] @
      ([word_of_int (int ?a)] @ ?area @ ?ps @ ?es @ rest)"
    using u by (simp add: frame_bytes_def Let_def)
  let ?m1 = "skip_read 4 msg" and ?m2 = "skip_read 8 msg" and ?m3 = "skip_read 9 msg"
  let ?m4 = "skip_read (10 + ?a) msg" and ?m5 = "skip_read (10 + ?a + length ?ps) msg"
  have r1: "Net_ReadLong msg = (?n, ?m1)" using long_codec.rd_enc [OF u] n by simp
  have u1: "unread ?m1 = long_bytes ?d @ [word_of_int ?s] @ ([word_of_int (int ?a)] @ ?area @ ?ps @ ?es @ rest)"
    using u by simp
  have r2: "Net_ReadLong ?m1 = (?d, ?m2)" using long_codec.rd_enc [OF u1] n by simp
  have u2: "unread ?m2 = [word_of_int ?s] @ ([word_of_int (int ?a)] @ ?area @ ?ps @ ?es @ rest)"
    using u by simp
  have r3: "Net_ReadByte ?m2 = (take_bit 8 ?s, ?m3)" using byte_codec.rd_enc [OF u2] by simp
  have u3: "unread ?m3 = [word_of_int (int ?a)] @ ?area @ (?ps @ ?es @ rest)"
    using u by simp
  let ?c = "numbered ?n ?d (take_bit 8 ?s) cl"
  obtain delta where delta: "delta_reference ?c = Inr delta"
    "has_reference sv ?from cl delta (num_entities ?to)"
    "(case delta of None \<Rightarrow> null_player_state | Some f \<Rightarrow> cf_ps f) = frame_ps0 ?from"
    by (rule finds_reference [OF sync sv, where n = ?n and s = "take_bit 8 ?s"])
  obtain area' where area: "read_area_bits (cf_area_bits (frame cl)) ?m3 = Inr (area', ?m4)"
    "length area' = AREA_BYTES" "take ?a area' = ?area"
    using read_area [OF u3, of "cf_area_bits (frame cl)"] sync sv
    by (auto simp: in_step_def steady_def sv_sound_def)
  have len: "length ?area = ?a" using sv by (simp add: sv_sound_def)
  have u4: "unread ?m4 = ?ps @ ?es @ rest"
    using unread_skip_all [of ?m3 "[word_of_int (int ?a)] @ ?area" "?ps @ ?es @ rest"] u3 len
    by (simp add: numeral_eq_Suc)
  have r5: "Cl_ParsePlayerstate False (frame_ps0 ?from) ?m4 = (frame_ps ?to, ?m5)"
    using read_player [OF _ _ u4] sv by (simp add: sv_sound_def)
  have u5: "unread ?m5 = ?es @ rest"
    using unread_skip_all [OF u4] by (simp del: unread_skip)
  let ?c1 = "?c\<lparr>frame := (frame ?c)\<lparr>cf_valid := True\<rparr>\<rparr>"
  let ?f = "(frame ?c1)\<lparr>cf_area_bits := area', cf_ps := frame_ps ?to\<rparr>"
  let ?c2 = "?c1\<lparr>frame := ?f\<rparr>"
  have c2: "client_ok ?c2" "same_baselines ?c2 (baselines sv) (frame_states sv ?to)"
      "has_reference sv ?from ?c2 delta (num_entities ?to)" "sv_frames_ok sv ?from ?to"
    using sync sv delta(2)
    by (simp_all add: in_step_def steady_def sv_sound_def client_ok_def same_baselines_def has_reference_def
        numbered_def client_states_def ring_state_def split: option.splits)
  obtain cl' where cl': "Cl_ParseEntities delta ?c2 ?m5 = Inr (cl', skip_read (length ?es) ?m5)"
    "wrote (?c2\<lparr>frame := (frame ?c2)\<lparr>cf_entity_state := entity_state_index ?c2, cf_num_entities := 0\<rparr>\<rparr>)
      (map wire_entity (frame_states sv ?to)) cl'"
    using parse_entities_bytes [OF c2(1,4,2,3) u5] by blast
  let ?t = "word_of_int (c_div (wrap32 (cf_frame_num (frame cl') * 1000)) (uint (server_hz cl')))"
  let ?done = "activate (cl'\<lparr>frame := (frame cl')\<lparr>cf_time := ?t\<rparr>,
    frames := (frames cl')[frame_slot (cf_frame_num (frame cl')) := (frame cl')\<lparr>cf_time := ?t\<rparr>]\<rparr>)"
  have hz: "server_hz cl' = server_hz cl"
    using cl'(2) wrote_server_hz by (simp add: numbered_def)
  have end_pos: "length (frame_bytes sv scl) - 1 = 10 + ?a + length ?ps + length ?es"
    using len by (simp add: frame_bytes_def Let_def)
  have "Cl_ParseFrame cl msg = Inr (?done, skip_read (length (frame_bytes sv scl) - 1) msg)"
    unfolding Cl_ParseFrame_def r1 Let_def prod.case r2 r3 numbered_def [symmetric] delta(1) bindE_simps
    using area(1) r5 cl'(1) hz sync unfolding end_pos
    by (simp add: delta(3) numbered_def in_step_def steady_def Let_def)
  moreover have "shows_frame sv ?to ?done"
    using sync area(2,3)
    by (intro shows_wrote [OF cl'(2) [simplified]])
       (simp_all add: numbered_def in_step_def steady_def client_ok_def)
  moreover have "baseline (entities ?done ! m) = baseline (entities cl ! m)" for m
    using wrote_simps(4) [OF cl'(2)] by (simp add: numbered_def)
  ultimately show ?thesis by blast
qed

section \<open>How long a frame can be\<close>

lemma length_coords [simp]: "length (position_bytes v) = 6" "length (angles_bytes a) = 3"
  "length (shorts_bytes s) = 6"
  by (simp_all add: position_bytes_def coord_bytes_def angles_bytes_def angle_bytes_def shorts_bytes_def)

lemma length_concat_le: "list_all2 (\<lambda>xs n. length xs \<le> n) xss ns \<Longrightarrow> length (concat xss) \<le> sum_list ns"
  by (induction xss ns rule: list_all2_induct) simp_all

lemma length_body: "length (entity_body_bytes from to is_new) \<le> 28"
proof -
  have "length (entity_body_bytes from to is_new) \<le> sum_list [0, 6, 6, 3, 1, 1, 1, 2, 1, 1, 1, 1, 1, 1, 2]"
    unfolding entity_body_bytes_def Let_def by (rule length_concat_le) simp
  then show ?thesis by simp
qed

lemma length_entity: "length (entity_bytes from to force is_new) \<le> 32"
  using length_body [of "from" to is_new] by (simp add: entity_bytes_def)

lemma length_merge:
  "length (merge_bytes bases mc olds news) \<le> 32 * length news + 4 * length olds"
proof (induction bases mc olds news rule: merge_bytes.induct)
  case (2 bases mc e es)
  then show ?case by (simp add: remove_bytes_def)
next
  case (3 bases mc n ns)
  then show ?case using length_entity [of "bases ! unat (number n)" n True True] by simp
next
  case (4 bases mc e es n ns)
  then show ?case
    using length_entity [of "bases ! unat (number n)" n True True]
      length_entity [of e n False "unat (number n) \<le> mc"]
    by (auto simp: remove_bytes_def)
qed simp

lemma length_stats: "length (concat (map (stat_bytes ops ps) xs)) \<le> 2 * length xs"
  by (induction xs) (auto simp: stat_bytes_def)

lemma length_player: "length (player_bytes ops ps) \<le> 121"
proof -
  have "length (concat (pm_bytes (player_pm ops) (player_pm ps))) \<le> sum_list [1, 6, 6, 2, 2, 2, 6, 6, 6, 6]"
    unfolding pm_bytes_def Let_def by (rule length_concat_le) simp
  then show ?thesis using length_stats [of ops ps "[0 ..< MAX_STATS]"]
    by (simp add: player_bytes_def MAX_STATS_def)
qed

lemma length_frame:
  "length (frame_bytes sv scl) \<le> 11 + area_bytes (this_frame sv scl) + 123 +
     32 * num_entities (this_frame sv scl) + 4 * length (opt_states sv (delta_frame sv scl))"
  using length_player [of "frame_ps0 (delta_frame sv scl)" "frame_ps (this_frame sv scl)"]
    length_merge [of "baselines sv" "sv_max_clients sv" "opt_states sv (delta_frame sv scl)"
      "frame_states sv (this_frame sv scl)"]
  by (simp add: frame_bytes_def Let_def entities_bytes_def)

section \<open>A concrete server and client\<close>

definition sample_entity :: entity_state where
  "sample_entity = null_state\<lparr>number := 5, origin := Vec3 8 16 (1 / 2), model1 := 3\<rparr>"

definition sample_frame :: sv_frame where
  "sample_frame = \<lparr>area_bytes = 1, area_bits = replicate AREA_BYTES 255, frame_ps = null_player_state,
     num_entities = 1, first_entity = 0, sent_time = 0\<rparr>"

definition sample_server :: server where
  "sample_server = \<lparr>sv_frame_num = 1, baselines = replicate MAX_EDICTS null_state,
     sv_entity_states = [sample_entity], sv_max_clients = 1\<rparr>"

definition sample_sv_client :: sv_client where
  "sample_sv_client = \<lparr>last_frame = -1, surpress_count = 0, client_frames = replicate PACKET_BACKUP sample_frame\<rparr>"

definition blank_frame :: cl_frame where
  "blank_frame = \<lparr>cf_time = 0, cf_frame_num = 0, cf_delta_frame_num = 0, cf_area_bits = replicate AREA_BYTES 0,
     cf_ps = null_player_state, cf_num_entities = 0, cf_entity_state = 0, cf_valid = False\<rparr>"

definition sample_client :: cl_client where
  "sample_client = \<lparr>frame = blank_frame, frames = replicate PACKET_BACKUP blank_frame,
     entities = replicate MAX_EDICTS \<lparr>baseline = wire_entity null_state, current = null_state,
       prev = null_state, ent_frame_num = 0, animation1_time = 0, animation2_time = 0\<rparr>,
     entity_states = replicate ENTITY_STATE_BACKUP null_state, entity_state_index = 0,
     cl_surpress_count = 0, server_hz = 30, demo_server = False, cl_active = False,
     predicted_origin = Vec3 0 0 0, predicted_view_offset = Vec3 0 0 0, predicted_view_angles = Vec3 0 0 0\<rparr>"

lemma sample_numbers: "delta_frame_num sample_server sample_sv_client = -1"
  "delta_frame sample_server sample_sv_client = None"
  "this_frame sample_server sample_sv_client = sample_frame"
  using frame_slot_less [of 1]
  by (simp_all add: delta_frame_def this_frame_def delta_frame_num_def sample_sv_client_def sample_server_def)

lemma sample_states: "frame_states sample_server sample_frame = [sample_entity]"
  by (simp add: frame_states_def sample_frame_def ring_at_def sample_server_def)

lemma sample_ordered: "ordered [sample_entity]"
  by (simp add: valid_number_def sample_entity_def null_state_def limits)

lemma sample_sound: "sv_sound sample_server sample_sv_client"
  using sample_ordered
  by (simp add: sv_sound_def sv_frames_ok_def sample_numbers sample_states opt_states_def frame_ps0_def)
     (simp add: sample_frame_def sample_server_def sample_sv_client_def limits)

lemma sample_in_step: "in_step sample_server sample_sv_client sample_client"
proof -
  have n: "unat (number sample_entity) < MAX_EDICTS"
    by (simp add: sample_entity_def null_state_def limits)
  have b: "same_baselines sample_client (baselines sample_server) [sample_entity]"
    using n by (simp add: same_baselines_def sample_client_def sample_server_def)
  show ?thesis
    using b by (simp add: in_step_def sample_numbers sample_states)
      (simp add: steady_def client_ok_def sample_client_def ENTITY_STATE_BACKUP_def limits blank_frame_def)
qed

lemma sample_room:
  "length (frame_bytes sample_server sample_sv_client) \<le> 8192"
  using length_frame [of sample_server sample_sv_client]
  by (simp add: sample_numbers opt_states_def sample_frame_def)

section \<open>Properties\<close>

text \<open>
  C2: What the server writes for a client that is in step with it, the client reads back
  from exactly these bytes: the frame number, the player state, the area bits, and the
  entity states of the server's frame, each with its vectors quantized, whatever the
  delta between the two frames has left out. Ring overwrites are excluded by the bound in
  \<open>in_step\<close>.
\<close>

theorem frame_transmitted:
  assumes "sv_sound sv scl" and "in_step sv scl cl"
    and "wf_buf buf" and "length (frame_bytes sv scl) \<le> room buf"
  shows "\<exists>buf' cl'. Sv_WriteFrame sv scl buf = Inr (scl\<lparr>surpress_count := 0\<rparr>, buf') \<and>
    Cl_ParseFrame cl (buf'\<lparr>read_pos := buf_size buf + 1\<rparr>) = Inr (cl', buf'\<lparr>read_pos := buf_size buf'\<rparr>) \<and>
    shows_frame sv (this_frame sv scl) cl'"
proof -
  obtain buf' where buf': "Sv_WriteFrame sv scl buf = Inr (scl\<lparr>surpress_count := 0\<rparr>, buf')"
    "contents buf' = contents buf @ frame_bytes sv scl" "wf_buf buf'"
    using Sv_WriteFrame_writes assms(1,3,4) unfolding sv_sound_def by blast
  let ?sb = "buf'\<lparr>read_pos := buf_size buf + 1\<rparr>"
  have size: "length (contents buf) = buf_size buf" "length (contents buf') = buf_size buf'"
    using length_contents assms(3) buf'(3) by simp_all
  have c: "contents ?sb = contents buf'" by (simp add: contents_def)
  have "unread ?sb = tl (frame_bytes sv scl) @ []"
    unfolding unread_def c using size by (simp add: buf'(2) drop_Suc)
  from Cl_ParseFrame_reads [OF assms(2,1) this] obtain cl' where
    "Cl_ParseFrame cl ?sb = Inr (cl', skip_read (length (frame_bytes sv scl) - 1) ?sb)"
    "shows_frame sv (this_frame sv scl) cl'" by blast
  moreover have "skip_read (length (frame_bytes sv scl) - 1) ?sb = buf'\<lparr>read_pos := buf_size buf'\<rparr>"
  proof -
    have "0 < length (frame_bytes sv scl)" by (simp add: frame_bytes_def Let_def)
    moreover have "buf_size buf' = buf_size buf + length (frame_bytes sv scl)"
      using size arg_cong [OF buf'(2), of length] by (simp only: length_append)
    ultimately have "buf_size buf + 1 + (length (frame_bytes sv scl) - 1) = buf_size buf'" by arith
    then show ?thesis by (simp add: skip_read_def)
  qed
  ultimately show ?thesis using buf'(1) by auto
qed

theorem frame_transmitted_witness:
  "\<exists>buf' cl'. Cl_ParseFrame sample_client (buf'\<lparr>read_pos := 1\<rparr>) = Inr (cl', buf'\<lparr>read_pos := buf_size buf'\<rparr>) \<and>
     client_states cl' (frame cl') = [wire_entity sample_entity]"
proof -
  let ?buf = "Mem_InitBuffer (replicate 8192 0) 8192"
  have buf: "wf_buf ?buf" "length (frame_bytes sample_server sample_sv_client) \<le> room ?buf"
    using wf_InitBuffer [of "replicate 8192 0"] sample_room by (simp_all only: length_replicate room_InitBuffer)
  obtain buf' cl' where "Cl_ParseFrame sample_client (buf'\<lparr>read_pos := buf_size ?buf + 1\<rparr>) =
      Inr (cl', buf'\<lparr>read_pos := buf_size buf'\<rparr>)" "shows_frame sample_server sample_frame cl'"
    using frame_transmitted [OF sample_sound sample_in_step buf] sample_numbers(3) by auto
  moreover have "buf_size ?buf + 1 = 1" by (simp only: Mem_InitBuffer_def) simp
  moreover have "client_states cl' (frame cl') = [wire_entity sample_entity]"
    using calculation(2) by (simp add: shows_frame_def sample_states)
  ultimately show ?thesis by metis
qed

text \<open>
  C3: Once a client shows a frame and its acknowledgement has reached the server, it is in
  step for every later frame the server deltas from it, up to \<open>PACKET_BACKUP - 3\<close> frames
  on, provided the ring of the server still holds the states of the frame acknowledged.
  So a client that acknowledges what it is sent stays in step from frame to frame.
\<close>

theorem acknowledged_in_step:
  assumes "shows_frame sv to cl" and "last_frame scl' = sv_frame_num sv" and "0 < sv_frame_num sv"
    and "client_frames scl' ! frame_slot (sv_frame_num sv) = to"
    and "sv_frame_num sv' < sv_frame_num sv + 29"
    and "frame_states sv' to = frame_states sv to" and "ordered (frame_states sv to)"
    and "ordered (frame_states sv' (this_frame sv' scl'))"
    and "same_baselines cl (baselines sv') (frame_states sv' (this_frame sv' scl'))"
  shows "in_step sv' scl' cl"
proof -
  have n: "delta_frame_num sv' scl' = sv_frame_num sv"
    using assms(2,3,5) by (simp add: delta_frame_num_def limits)
  then have d: "delta_frame sv' scl' = Some to" using assms(3,4) by (simp add: delta_frame_def)
  let ?f = "frames cl ! frame_slot (sv_frame_num sv)"
  have f: "?f = frame cl" "cf_valid (frame cl)" "cf_frame_num (frame cl) = sv_frame_num sv"
    "cf_ps (frame cl) = frame_ps to" "client_states cl (frame cl) = map wire_entity (frame_states sv to)"
    "entity_state_index cl = cf_entity_state (frame cl) + word_of_nat (num_entities to)" "steady cl"
    using assms(1) by (simp_all add: shows_frame_def)
  have k: "num_entities to \<le> 1024" "num_entities (this_frame sv' scl') \<le> 1024"
    using ordered_length assms(7,8) by fastforce+
  have num: "cf_num_entities (frame cl) = num_entities to"
    using f(5) by (metis length_client_states length_frame_states length_map)
  have "unat (entity_state_index cl - cf_entity_state (frame cl)) = num_entities to"
    using k(1) by (simp add: f(6) unat_of_nat take_bit_nat_eq_self)
  then show ?thesis
    using assms(3,6,9) f k num n d
    by (simp add: in_step_def has_reference_def frame_ps0_def ENTITY_STATE_BACKUP_def limits)
qed

theorem acknowledged_in_step_witness:
  "\<exists>cl. shows_frame sample_server sample_frame cl \<and>
     in_step (sample_server\<lparr>sv_frame_num := 2\<rparr>) (sample_sv_client\<lparr>last_frame := 1\<rparr>) cl"
proof -
  let ?sv' = "sample_server\<lparr>sv_frame_num := 2\<rparr>" and ?scl' = "sample_sv_client\<lparr>last_frame := 1\<rparr>"
  let ?bs = "tl (frame_bytes sample_server sample_sv_client)"
  let ?msg = "(Mem_InitBuffer ?bs (length ?bs))\<lparr>buf_size := length ?bs\<rparr>"
  have "unread ?msg = ?bs @ []" by (simp add: unread_def contents_def Mem_InitBuffer_def)
  from Cl_ParseFrame_reads [OF sample_in_step sample_sound this] obtain cl where
    cl: "shows_frame sample_server sample_frame cl"
      "\<forall>m. baseline (entities cl ! m) = baseline (entities sample_client ! m)"
    using sample_numbers(3) by auto
  have slot: "client_frames ?scl' ! frame_slot n = sample_frame" for n
    using frame_slot_less [of n] by (simp add: sample_sv_client_def)
  have states: "frame_states ?sv' sample_frame = [sample_entity]"
    using sample_states by (simp add: frame_states_def)
  have "this_frame ?sv' ?scl' = sample_frame" using slot by (simp add: this_frame_def)
  moreover have "same_baselines cl (baselines ?sv') [sample_entity]"
    using sample_in_step cl(2) by (simp add: in_step_def sample_numbers sample_states same_baselines_def)
  ultimately have "in_step ?sv' ?scl' cl"
    using sample_ordered slot states sample_states
    by (intro acknowledged_in_step [OF cl(1)]) (simp_all add: sample_server_def)
  then show ?thesis using cl(1) by blast
qed

end
