(* ===== verification/Message_Laws.thy ===== *)
theory Message_Laws
  imports Frame_Transfer
begin

text \<open>
  The properties of buffers and messages: what a write does to a buffer, that strings,
  positions, user commands, entities and player states survive the way through a
  message, and where the encoding of angles loses more than its quantization.
\<close>

section \<open>Strings\<close>

definition plain_string :: "string \<Rightarrow> bool" where
  "plain_string s \<longleftrightarrow> (\<forall>c \<in> set s. byte_of_char c \<noteq> 0 \<and> byte_of_char c \<noteq> 255)"

lemma word_of_sint_byte [simp]: "(word_of_int (sint (b :: byte)) :: byte) = b"
  by simp

lemma sint_byte_neq: "b \<noteq> 0 \<Longrightarrow> b \<noteq> 255 \<Longrightarrow> sint (b :: byte) \<noteq> 0 \<and> sint b \<noteq> -1"
proof -
  have "sint b = 0 \<Longrightarrow> b = 0" using word_of_sint_byte [of b] by simp
  moreover have "sint b = -1 \<Longrightarrow> b = 255"
  proof -
    assume "sint b = -1"
    then have "b = word_of_int (-1)" by (metis word_of_sint_byte)
    then show "b = 255" by simp
  qed
  ultimately show "b \<noteq> 0 \<Longrightarrow> b \<noteq> 255 \<Longrightarrow> sint b \<noteq> 0 \<and> sint b \<noteq> -1" by blast
qed

lemma read_string:
  "plain_string s \<Longrightarrow> length s < n \<Longrightarrow> unread sb = string_bytes (Some s) @ rest \<Longrightarrow>
   read_string_loop {} n sb = (s, skip_read (length s + 1) sb)"
proof (induction s arbitrary: n sb)
  case Nil
  then obtain m where n: "n = Suc m" by (cases n) auto
  have "unread sb = [word_of_int 0] @ rest" using Nil by (simp add: string_bytes_def)
  from char_codec.rd_enc [OF this] show ?case using n by simp
next
  case (Cons c s)
  then obtain m where n: "n = Suc m" by (cases n) auto
  let ?b = "byte_of_char c"
  have u: "unread sb = [word_of_int (uint ?b)] @ string_bytes (Some s) @ rest"
    using Cons.prems by (simp add: string_bytes_def)
  have r: "Net_ReadChar sb = (sint ?b, skip_read 1 sb)"
    using char_codec.rd_enc [OF u] by simp
  have neq: "sint ?b \<noteq> 0 \<and> sint ?b \<noteq> -1"
    using Cons.prems(1) by (intro sint_byte_neq) (simp_all add: plain_string_def)
  have "read_string_loop {} m (skip_read 1 sb) = (s, skip_read (length s + 1) (skip_read 1 sb))"
    using Cons.prems n u by (intro Cons.IH) (simp_all add: plain_string_def)
  then show ?case using n r neq by simp
qed

section \<open>Coordinates\<close>

lemma coord_range:
  assumes "\<bar>v\<bar> < 4096"
  shows "sint (word_of_int (quantize_coord v) :: int16) = quantize_coord v"
proof -
  have "- 32768 \<le> quantize_coord v \<and> quantize_coord v \<le> 32767"
  proof (cases "v < 0")
    case True
    then have "0 \<le> \<lfloor>- (v * 8)\<rfloor>" "\<lfloor>- (v * 8)\<rfloor> \<le> 32768"
      using assms by (simp_all add: floor_le_iff)
    moreover have "quantize_coord v = - \<lfloor>- (v * 8)\<rfloor>" using True by (simp add: quantize_coord_def trunc_def)
    ultimately show ?thesis by linarith
  next
    case False
    then have "0 \<le> \<lfloor>v * 8\<rfloor>" "\<lfloor>v * 8\<rfloor> < 32768"
      using assms by (simp_all add: floor_less_iff)
    then show ?thesis using False by (simp add: quantize_coord_def trunc_def)
  qed
  then show ?thesis using int_word_sint [of "quantize_coord v", where 'a = 16] by (simp add: mod_pos_pos_trivial)
qed

lemma wire_coord_in_range: "\<bar>v\<bar> < 4096 \<Longrightarrow> wire_coord v = of_int (trunc (v * 8)) / 8"
  by (simp add: wire_coord_def coord_of_short_def coord_range) (simp add: quantize_coord_def)

section \<open>Angles\<close>

text \<open>
  An angle written, read back and written again: the byte 7 comes back as 6, so an angle
  that is forwarded drifts.
\<close>

lemma angle_drifts:
  "quantize_angle 10 = 7"
  "quantize_angle (angle_of_char 7) = 6"
  by code_simp+

section \<open>User commands, entities, players\<close>

lemma length_user_cmd: "length (user_cmd_bytes from to) \<le> 15"
proof -
  have "length (user_cmd_bytes from to) \<le> sum_list [1, 2, 2, 2, 2, 2, 2, 1, 1]"
    unfolding user_cmd_bytes_def Let_def by (rule length_concat_le) simp
  then show ?thesis by simp
qed

definition sample_buf :: mem_buf where
  "sample_buf = Mem_InitBuffer (replicate 128 0) 128"

lemma sample_buf: "wf_buf sample_buf" "room sample_buf = 128" "buf_size sample_buf = 0"
  using wf_InitBuffer [of "replicate 128 0"]
  by (simp_all only: sample_buf_def length_replicate room_InitBuffer) (simp only: Mem_InitBuffer_def mem_buf.simps)

section \<open>Properties\<close>

text \<open>
  C12: A write to a well-formed buffer appends its bytes when they fit. When they do not,
  a buffer that allows it starts over with them and is marked as overflowed, and otherwise
  the program aborts. Nothing is ever written past the end.
\<close>

theorem Mem_WriteBuffer_outcome:
  assumes "wf_buf buf"
  shows "case Mem_WriteBuffer bs buf of
      Inr buf' \<Rightarrow> wf_buf buf' \<and>
        (if length bs \<le> room buf then contents buf' = contents buf @ bs \<and> overflowed buf' = overflowed buf
         else allow_overflow buf \<and> contents buf' = bs \<and> overflowed buf')
    | Inl e \<Rightarrow> e = Sig_Abort \<and> room buf < length bs \<and> (\<not> allow_overflow buf \<or> max_size buf < length bs)"
proof -
  have fits: "length bs \<le> room buf \<longleftrightarrow> buf_size buf + length bs \<le> max_size buf"
    using assms by (auto simp: wf_buf_def room_def)
  let ?clear = "(Mem_ClearBuffer buf)\<lparr>overflowed := True\<rparr>"
  have clear: "wf_buf ?clear" "contents ?clear = []" "buf_size ?clear = 0" "max_size ?clear = max_size buf"
    using assms by (simp_all add: wf_buf_def Mem_ClearBuffer_def contents_def)
  consider "length bs \<le> room buf" | "room buf < length bs" "allow_overflow buf" "length bs \<le> max_size buf"
    | "room buf < length bs" "\<not> allow_overflow buf \<or> max_size buf < length bs" by linarith
  then show ?thesis
  proof cases
    case 1
    then show ?thesis
      using fits assms by (simp add: Mem_WriteBuffer_fits wf_appended contents_appended)
  next
    case 2
    then have "Mem_WriteBuffer bs buf = Inr (appended bs ?clear)"
      using fits by (intro Mem_WriteBuffer_overflow) simp_all
    then show ?thesis
      using 2 clear wf_appended [OF clear(1), of bs] contents_appended [OF clear(1), of bs] by simp
  next
    case 3
    then show ?thesis using fits by (simp add: Mem_WriteBuffer_abort)
  qed
qed

theorem Mem_WriteBuffer_outcome_witness:
  "case Mem_WriteBuffer [1, 2, 3] (Mem_InitBuffer [0, 0] 2) of
     Inr buf' \<Rightarrow> False | Inl e \<Rightarrow> e = Sig_Abort"
  using Mem_WriteBuffer_outcome [of "Mem_InitBuffer [0, 0] 2" "[1, 2, 3]"]
  by (simp add: wf_buf_def room_def Mem_InitBuffer_def split: sum.splits)

text \<open>
  C11: A string without a zero byte and without a byte 255, of fewer than
  \<open>MAX_STRING_CHARS - 1\<close> characters, is read back as it was written, and the reader stops
  behind its terminator.
\<close>

theorem string_roundtrip:
  assumes "plain_string s" and "length s < MAX_STRING_CHARS - 1"
    and "wf_buf buf" and "length s < room buf"
  shows "\<exists>buf'. Net_WriteString (Some s) buf = Inr buf' \<and>
    Net_ReadString (buf'\<lparr>read_pos := buf_size buf\<rparr>) = (s, buf'\<lparr>read_pos := buf_size buf'\<rparr>)"
proof -
  have len: "length (string_bytes (Some s)) = length s + 1" by (simp add: string_bytes_def)
  then obtain buf' where buf': "Net_WriteString (Some s) buf = Inr buf'"
    "contents buf' = contents buf @ string_bytes (Some s)" "wf_buf buf'"
    using msg.emitsD [OF emits_String assms(3), of "Some s"] assms(4) by auto
  let ?sb = "buf'\<lparr>read_pos := buf_size buf\<rparr>"
  have "contents ?sb = contents buf'" by (simp add: contents_def)
  then have "unread ?sb = string_bytes (Some s) @ []"
    using buf' assms(3) by (simp add: unread_def length_contents)
  then have "Net_ReadString ?sb = (s, skip_read (length s + 1) ?sb)"
    unfolding Net_ReadString_def by (rule read_string [OF assms(1,2)])
  moreover have "buf_size buf' = buf_size buf + (length s + 1)"
    using buf' assms(3) len by (metis length_append length_contents)
  ultimately show ?thesis using buf'(1) by (simp add: skip_read_def)
qed

theorem string_roundtrip_witness:
  "\<exists>buf'. Net_WriteString (Some ''say hi'') sample_buf = Inr buf' \<and>
     Net_ReadString (buf'\<lparr>read_pos := 0\<rparr>) = (''say hi'', buf'\<lparr>read_pos := buf_size buf'\<rparr>)"
proof -
  have "plain_string ''say hi''" by (simp add: plain_string_def byte_of_char_def)
  then show ?thesis
    using string_roundtrip [of "''say hi''" sample_buf] sample_buf by (simp add: limits)
qed

text \<open>
  C10: A position inside the world (\<open>-4096\<close> to \<open>4096\<close>) is read back within an eighth of
  a unit, and a position that has been through the protocol once comes back unchanged.
\<close>

theorem position_roundtrip:
  assumes "\<bar>vx p\<bar> < 4096" and "\<bar>vy p\<bar> < 4096" and "\<bar>vz p\<bar> < 4096"
    and "wf_buf buf" and "6 \<le> room buf"
  shows "\<exists>buf' p'. Net_WritePosition p buf = Inr buf' \<and>
    Net_ReadPosition (buf'\<lparr>read_pos := buf_size buf\<rparr>) = (p', buf'\<lparr>read_pos := buf_size buf'\<rparr>) \<and>
    \<bar>vx p' - vx p\<bar> < 1 / 8 \<and> \<bar>vy p' - vy p\<bar> < 1 / 8 \<and> \<bar>vz p' - vz p\<bar> < 1 / 8 \<and>
    map3 wire_coord p' = p'"
proof -
  obtain buf' where buf': "Net_WritePosition p buf = Inr buf'" "contents buf' = contents buf @ position_bytes p"
    "wf_buf buf'"
    using msg.emitsD [OF emits_Position assms(4), of p] assms(5) by auto
  let ?sb = "buf'\<lparr>read_pos := buf_size buf\<rparr>"
  have "contents ?sb = contents buf'" by (simp add: contents_def)
  then have "unread ?sb = position_bytes p @ []"
    using buf' assms(4) by (simp add: unread_def length_contents)
  from position_codec.rd_enc [OF this]
  have "Net_ReadPosition ?sb = (map3 wire_coord p, skip_read 6 ?sb)" by simp
  moreover have "buf_size buf' = buf_size buf + 6"
    using buf' assms(4) by (metis length_append length_contents length_coords(1))
  moreover have near: "\<bar>wire_coord v - v\<bar> < 1 / 8" and again: "wire_coord (wire_coord v) = wire_coord v"
    if "\<bar>v\<bar> < 4096" for v
  proof -
    have w: "wire_coord v = of_int (trunc (v * 8)) / 8" by (rule wire_coord_in_range [OF that])
    show "\<bar>wire_coord v - v\<bar> < 1 / 8" 
    proof -
      have "wire_coord v - v = (of_int (trunc (v * 8)) - v * 8) / 8" by (simp add: w field_simps)
      then have "\<bar>wire_coord v - v\<bar> = \<bar>of_int (trunc (v * 8)) - v * 8\<bar> / 8"
        by (simp only: abs_divide abs_numeral)
      then show ?thesis using trunc_bounds [of "v * 8"] by simp
    qed
    have "quantize_coord (wire_coord v) = quantize_coord v" by (simp add: quantize_coord_def w)
    then show "wire_coord (wire_coord v) = wire_coord v" by (simp add: wire_coord_def)
  qed
  ultimately show ?thesis
    using buf'(1) near assms(1-3) again by (simp add: skip_read_def map3_def)
qed

theorem position_roundtrip_witness:
  "\<exists>buf' p'. Net_WritePosition (Vec3 100 (-2) (1 / 3)) sample_buf = Inr buf' \<and>
     Net_ReadPosition (buf'\<lparr>read_pos := 0\<rparr>) = (p', buf'\<lparr>read_pos := buf_size buf'\<rparr>) \<and>
     \<bar>vz p' - 1 / 3\<bar> < 1 / 8"
  using position_roundtrip [of "Vec3 100 (-2) (1 / 3)" sample_buf] sample_buf by auto

text \<open>
  C8: A user command written as a delta from another is read back exactly, from the same
  reference command.
\<close>

theorem user_cmd_roundtrip:
  assumes "wf_buf buf" and "15 \<le> room buf"
  shows "\<exists>buf'. Net_WriteDeltaUserCmd from to buf = Inr buf' \<and> wf_buf buf' \<and>
    Net_ReadDeltaUserCmd from (buf'\<lparr>read_pos := buf_size buf\<rparr>) = (to, buf'\<lparr>read_pos := buf_size buf'\<rparr>)"
  using user_cmd_codec.written_then_read [OF TrueI TrueI assms(1), of "from" to]
    length_user_cmd [of "from" to] assms(2) by auto

theorem user_cmd_roundtrip_witness:
  "\<exists>buf'. Net_ReadDeltaUserCmd
       \<lparr>msec = 16, buttons = 1, cmd_angles = Vec3 1 2 3, forward = 4, right = 5, up = 6\<rparr>
       (buf'\<lparr>read_pos := 0\<rparr>) =
     (\<lparr>msec = 17, buttons = 1, cmd_angles = Vec3 1 (-2) 3, forward = 0, right = 5, up = 6\<rparr>,
      buf'\<lparr>read_pos := buf_size buf'\<rparr>)"
  using user_cmd_roundtrip [OF sample_buf(1), of
      "\<lparr>msec = 16, buttons = 1, cmd_angles = Vec3 1 2 3, forward = 4, right = 5, up = 6\<rparr>"
      "\<lparr>msec = 17, buttons = 1, cmd_angles = Vec3 1 (-2) 3, forward = 0, right = 5, up = 6\<rparr>"]
    sample_buf(2,3) by auto

text \<open>
  C7: An entity state written as a delta is read back, from the quantized reference state,
  as the quantized new state. When nothing but a past event differs and the delta is not
  forced, nothing is written, and reading no fields from the reference gives the new state.
\<close>

theorem entity_roundtrip:
  assumes "valid_number to" and "wf_buf buf" and "32 \<le> room buf"
  shows "\<exists>buf'. Net_WriteDeltaEntity from to force is_new buf = Inr buf' \<and>
    (let bits = entity_bits from to is_new in
     if bits = 0 \<and> \<not> force
     then buf' = buf \<and> Net_ReadDeltaEntity (wire_entity from) (number to) 0 buf = (wire_entity to, buf)
     else (let (n, m) = Net_ReadShort (buf'\<lparr>read_pos := buf_size buf\<rparr>); (b, m) = Net_ReadShort m in
       word_of_int n = number to \<and> word_of_int b = bits \<and>
       Net_ReadDeltaEntity (wire_entity from) (number to) bits m =
         (wire_entity to, buf'\<lparr>read_pos := buf_size buf'\<rparr>)))"
proof (cases "entity_sent from to force is_new")
  case False
  have "Net_WriteDeltaEntity from to force is_new buf = Inr buf"
    using assms(1) False by (auto simp: Net_WriteDeltaEntity_def entity_sent_def valid_number_def)
  moreover have "Net_ReadDeltaEntity (wire_entity from) (number to) 0 buf = (wire_entity to, buf)"
    using read_entity [of buf "from" to is_new "unread buf"] entity_unsent [OF False] by simp
  ultimately show ?thesis using False by (simp add: entity_sent_def)
next
  case True
  let ?bits = "entity_bits from to is_new" and ?body = "entity_body_bytes from to is_new"
  have bytes: "entity_bytes from to force is_new = short_bytes (uint (number to)) @ short_bytes (uint ?bits) @ ?body"
    using entity_bytes_sent [OF True] .
  obtain buf' where buf': "Net_WriteDeltaEntity from to force is_new buf = Inr buf'"
    "contents buf' = contents buf @ entity_bytes from to force is_new" "wf_buf buf'"
    using msg.emitsD [OF emits_DeltaEntity [OF assms(1)] assms(2)] length_entity [of "from" to force is_new]
      assms(3) le_trans by blast
  let ?sb = "buf'\<lparr>read_pos := buf_size buf\<rparr>"
  have "contents ?sb = contents buf'" by (simp add: contents_def)
  then have u: "unread ?sb = short_bytes (uint (number to)) @ short_bytes (uint ?bits) @ ?body @ []"
    using buf' assms(2) bytes by (simp add: unread_def length_contents)
  have u2: "unread (skip_read 2 ?sb) = short_bytes (uint ?bits) @ ?body @ []" using u by simp
  have u4: "unread (skip_read 4 ?sb) = ?body @ []" using u by simp
  have "buf_size buf' = buf_size buf + length (entity_bytes from to force is_new)"
    using buf' assms(2) by (metis length_append length_contents)
  then have "skip_read (length ?body) (skip_read 4 ?sb) = buf'\<lparr>read_pos := buf_size buf'\<rparr>"
    by (simp add: bytes skip_read_def)
  with read_entity [OF u4] read_header(1) [OF u] read_header(1) [OF u2] buf'(1) True show ?thesis
    by (auto simp: entity_sent_def Let_def)
qed

theorem entity_roundtrip_witness:
  "\<exists>buf'. Net_WriteDeltaEntity null_state sample_entity False True sample_buf = Inr buf' \<and>
     (let (n, m) = Net_ReadShort (buf'\<lparr>read_pos := 0\<rparr>); (b, m) = Net_ReadShort m in
      Net_ReadDeltaEntity (wire_entity null_state) 5 (word_of_int b) m =
        (wire_entity sample_entity, buf'\<lparr>read_pos := buf_size buf'\<rparr>))"
proof -
  have "entity_bits null_state sample_entity True \<noteq> 0"
    using entity_bits_flags(2) [of null_state sample_entity True] by (metis bit_0_eq bot_apply bot_bool_def)
  moreover have "number sample_entity = 5" by (simp add: sample_entity_def)
  moreover have "valid_number sample_entity" using sample_ordered by simp
  ultimately show ?thesis
    using entity_roundtrip [of sample_entity sample_buf null_state False True] sample_buf
    by (auto simp: Let_def case_prod_beta)
qed

text \<open>
  C9: The player state of a frame, written as a delta from the one of the reference frame
  (or from zero), is read back exactly. The message never takes more than 121 bytes.
\<close>

theorem player_roundtrip:
  assumes "valid_player ops" and "valid_player ps" and "wf_buf buf" and "121 \<le> room buf"
  shows "\<exists>buf'. write_player_state ops ps buf = Inr buf' \<and> wf_buf buf' \<and>
    Cl_ParsePlayerstate False ops (buf'\<lparr>read_pos := buf_size buf\<rparr>) =
      (ps, buf'\<lparr>read_pos := buf_size buf'\<rparr>)"
  using player_codec.written_then_read [OF assms(1-3)] length_player [of ops ps] assms(4) by auto

theorem player_roundtrip_witness:
  "\<exists>buf'. Cl_ParsePlayerstate False null_player_state (buf'\<lparr>read_pos := 0\<rparr>) =
     (null_player_state\<lparr>stats := replicate MAX_STATS 7\<rparr>, buf'\<lparr>read_pos := buf_size buf'\<rparr>)"
  using player_roundtrip [of null_player_state "null_player_state\<lparr>stats := replicate MAX_STATS 7\<rparr>" sample_buf]
    valid_null_player sample_buf by (auto simp: valid_player_def)

end
