(* ===== verification/Net_Channel.thy ===== *)
theory Net_Channel
  imports Wire_Codec
begin

text \<open>
  \<open>src/net.h\<close>, \<open>src/net.c\<close> (addresses) and \<open>src/net_chan.c\<close>: the channel that
  numbers packets, acknowledges them, and carries one reliable message at a time over
  unreliable datagrams. \<open>quake2world.time\<close> is the argument \<open>now\<close>; the datagram that
  \<open>Netchan_Transmit\<close> hands to \<open>Net_SendDatagram\<close> is part of its result. Console output
  is left out.
\<close>

section \<open>Addresses\<close>

datatype net_addr_type = NA_LOOP | NA_BROADCAST | NA_DATAGRAM | NA_STREAM

record net_addr =
  addr_type :: net_addr_type
  addr :: uint32
  port :: uint16

datatype net_src = NS_UDP_CLIENT | NS_UDP_SERVER

definition Net_CompareNetaddr :: "net_addr \<Rightarrow> net_addr \<Rightarrow> bool" where
  "Net_CompareNetaddr a b \<longleftrightarrow> addr a = addr b \<and> port a = port b"

definition Net_CompareClientNetaddr :: "net_addr \<Rightarrow> net_addr \<Rightarrow> bool" where
  "Net_CompareClientNetaddr a b \<longleftrightarrow> addr_type a = addr_type b \<and> addr a = addr b"

section \<open>The channel\<close>

record net_chan =
  fatal_error :: bool
  source :: net_src
  dropped :: uint32
  last_received :: uint32
  last_sent :: uint32
  remote_address :: net_addr
  qport :: uint8
  incoming_sequence :: uint32
  incoming_acknowledged :: uint32
  incoming_reliable_acknowledged :: uint32
  incoming_reliable_sequence :: uint32
  outgoing_sequence :: uint32
  reliable_sequence :: uint32
  last_reliable_sequence :: uint32
  message :: mem_buf
  reliable_size :: nat
  reliable_buffer :: "byte list"

definition CHAN_BUFFER :: nat where "CHAN_BUFFER = MAX_MSG_SIZE - 16"

definition Netchan_Setup :: "uint32 \<Rightarrow> net_src \<Rightarrow> net_addr \<Rightarrow> uint8 \<Rightarrow> net_chan" where
  "Netchan_Setup now src adr qp =
     \<lparr>fatal_error = False, source = src, dropped = 0, last_received = now, last_sent = 0,
      remote_address = adr, qport = qp, incoming_sequence = 0, incoming_acknowledged = 0,
      incoming_reliable_acknowledged = 0, incoming_reliable_sequence = 0,
      outgoing_sequence = 1, reliable_sequence = 0, last_reliable_sequence = 0,
      message = (Mem_InitBuffer (replicate CHAN_BUFFER 0) CHAN_BUFFER)\<lparr>allow_overflow := True\<rparr>,
      reliable_size = 0, reliable_buffer = replicate CHAN_BUFFER 0\<rparr>"

definition Netchan_CanReliable :: "net_chan \<Rightarrow> bool" where
  "Netchan_CanReliable chan = (if reliable_size chan \<noteq> 0 then False else True)"

definition Netchan_NeedReliable :: "net_chan \<Rightarrow> bool" where
  "Netchan_NeedReliable chan =
     (let send_reliable = False;
          send_reliable = (if incoming_acknowledged chan > last_reliable_sequence chan \<and>
            incoming_reliable_acknowledged chan \<noteq> reliable_sequence chan then True else send_reliable)
      in if reliable_size chan = 0 \<and> buf_size (message chan) \<noteq> 0 then True else send_reliable)"

definition Netchan_OutOfBand :: "byte list \<Rightarrow> byte list result" where
  "Netchan_OutOfBand bytes =
     bindE (run_seq [Net_WriteLong (-1), Mem_WriteBuffer bytes]
              (Mem_InitBuffer (replicate MAX_MSG_SIZE 0) MAX_MSG_SIZE))
       (\<lambda>send. Inr (contents send))"

text \<open>\<open>vsnprintf\<close> into \<open>char string[MAX_MSG_SIZE - 4]\<close>, then \<open>strlen\<close> of it.\<close>

definition Netchan_OutOfBandPrint :: "string \<Rightarrow> byte list result" where
  "Netchan_OutOfBandPrint formatted =
     Netchan_OutOfBand (map byte_of_char (take (MAX_MSG_SIZE - 4 - 1) formatted))"

definition stages :: "net_chan \<Rightarrow> bool" where
  "stages chan \<longleftrightarrow> reliable_size chan = 0 \<and> buf_size (message chan) \<noteq> 0"

definition stage :: "net_chan \<Rightarrow> net_chan" where
  "stage chan =
     (if stages chan
      then chan\<lparr>reliable_buffer := store_bytes 0 (contents (message chan)) (reliable_buffer chan),
                reliable_size := buf_size (message chan),
                message := (message chan)\<lparr>buf_size := 0\<rparr>,
                reliable_sequence := reliable_sequence chan XOR 1\<rparr>
      else chan)"

text \<open>\<open>1 << 31\<close>\<close>

definition bit31 :: uint32 where
  "bit31 = push_bit 31 1"

definition header_word :: "uint32 \<Rightarrow> uint32 \<Rightarrow> uint32" where
  "header_word s r = (s AND NOT bit31) OR push_bit 31 r"

definition Netchan_Transmit ::
  "uint32 \<Rightarrow> net_chan \<Rightarrow> byte list \<Rightarrow> (net_chan \<times> byte list option) result" where
  "Netchan_Transmit now chan bytes =
     (if overflowed (message chan) then Inr (chan\<lparr>fatal_error := True\<rparr>, None)
      else
        let send_reliable = Netchan_NeedReliable chan;
            chan = stage chan;
            send = Mem_InitBuffer (replicate MAX_MSG_SIZE 0) MAX_MSG_SIZE;
            w1 = header_word (outgoing_sequence chan) (of_bool send_reliable);
            w2 = header_word (incoming_sequence chan) (incoming_reliable_sequence chan);
            chan = chan\<lparr>outgoing_sequence := outgoing_sequence chan + 1, last_sent := now\<rparr>
        in bindE (run_seq
             [Net_WriteLong (sint w1), Net_WriteLong (sint w2),
              when_do (source chan = NS_UDP_CLIENT) (Net_WriteByte (uint (qport chan))),
              when_do send_reliable (Mem_WriteBuffer (take (reliable_size chan) (reliable_buffer chan)))]
             send) (\<lambda>send.
           let chan = (if send_reliable
                       then chan\<lparr>last_reliable_sequence := outgoing_sequence chan\<rparr> else chan)
           in bindE (if max_size send - buf_size send \<ge> length bytes
                     then Mem_WriteBuffer bytes send else Inr send) (\<lambda>send.
                Inr (chan, Some (contents send)))))"

definition Netchan_Process ::
  "uint32 \<Rightarrow> net_chan \<Rightarrow> mem_buf \<Rightarrow> bool \<times> net_chan \<times> mem_buf" where
  "Netchan_Process now chan msg =
     (let msg = Net_BeginReading msg;
          (w1, msg) = Net_ReadLong msg;
          (w2, msg) = Net_ReadLong msg;
          msg = (if source chan = NS_UDP_SERVER then snd (Net_ReadByte msg) else msg);
          sequence = word_of_int w1 :: uint32;
          sequence_ack = word_of_int w2 :: uint32;
          reliable_message = drop_bit 31 sequence;
          reliable_ack = drop_bit 31 sequence_ack;
          sequence = sequence AND NOT bit31;
          sequence_ack = sequence_ack AND NOT bit31
      in if sequence \<le> incoming_sequence chan then (False, chan, msg)
         else
           let chan = chan\<lparr>dropped := sequence - (incoming_sequence chan + 1)\<rparr>;
               chan = (if reliable_ack = reliable_sequence chan then chan\<lparr>reliable_size := 0\<rparr> else chan);
               chan = chan\<lparr>incoming_sequence := sequence, incoming_acknowledged := sequence_ack,
                           incoming_reliable_acknowledged := reliable_ack\<rparr>;
               chan = (if reliable_message \<noteq> 0
                       then chan\<lparr>incoming_reliable_sequence := incoming_reliable_sequence chan XOR 1\<rparr>
                       else chan);
               chan = chan\<lparr>last_received := now\<rparr>
           in (True, chan, msg))"

section \<open>Packets\<close>

text \<open>
  A datagram of the channel, taken apart: sequence and acknowledged sequence (below
  \<open>2 ^ 31\<close>), the two reliable bits, the qport byte a client adds, and what follows.
\<close>

record packet =
  pk_seq :: nat
  pk_rel :: bool
  pk_ack :: nat
  pk_rack :: bool
  pk_payload :: "byte list"

definition qport_bytes :: "net_src \<Rightarrow> uint8 \<Rightarrow> byte list" where
  "qport_bytes src q = (if src = NS_UDP_CLIENT then [q] else [])"

definition packet_bytes :: "net_src \<Rightarrow> uint8 \<Rightarrow> packet \<Rightarrow> byte list" where
  "packet_bytes src q p =
     long_bytes (sint (header_word (word_of_nat (pk_seq p)) (of_bool (pk_rel p)))) @
     long_bytes (sint (header_word (word_of_nat (pk_ack p)) (of_bool (pk_rack p)))) @
     qport_bytes src q @ pk_payload p"

definition seq_ok :: "nat \<Rightarrow> bool" where
  "seq_ok n \<longleftrightarrow> n < 2 ^ 31"

lemma bit_bit31: "bit bit31 n \<longleftrightarrow> n = 31"
  unfolding bit31_def bit_push_bit_iff by (auto simp: bit_1_iff)

lemma bit_header_word:
  "bit (header_word s r) n \<longleftrightarrow> (if n < 31 then bit s n else n = 31 \<and> bit r 0)"
proof (cases "n < 32")
  case True
  then show ?thesis
    by (cases "n = 31") (auto simp: header_word_def bit_simps bit_bit31)
next
  case False
  then show ?thesis
    using bit_imp_le_length [of "header_word s r" n] by auto
qed

lemma header_low:
  assumes "seq_ok n"
  shows "header_word (word_of_nat n) r AND NOT bit31 = word_of_nat n"
proof (rule bit_word_eqI)
  fix k assume k: "k < LENGTH(32)"
  have "\<not> bit (word_of_nat n :: uint32) 31"
    using assms by (simp add: seq_ok_def bit_of_nat_iff bit_iff_odd [of n])
  then show "bit (header_word (word_of_nat n) r AND NOT bit31) k
      = bit (word_of_nat n :: uint32) k"
    using k by (cases "k = 31") (auto simp: bit_simps bit_header_word bit_bit31)
qed

lemma header_high: "drop_bit 31 (header_word s (of_bool b)) = of_bool b"
  by (rule bit_word_eqI) (auto simp: bit_simps bit_header_word)

lemma unat_seq: "seq_ok n \<Longrightarrow> unat (word_of_nat n :: uint32) = n"
  by (simp add: seq_ok_def unat_of_nat take_bit_nat_eq_self)

end
