(* ===== verification/Net_Channel_Laws.thy ===== *)
theory Net_Channel_Laws
  imports Net_Channel
begin

text \<open>
  What \<open>Netchan_Transmit\<close> and \<open>Netchan_Process\<close> do to a well-formed channel, on the
  level of \<open>packet\<close>s: the datagram sent is the bytes of a packet built from the
  channel's state, and a received datagram acts through the packet it encodes.
\<close>

definition is_bit :: "uint32 \<Rightarrow> bool" where
  "is_bit w \<longleftrightarrow> w = 0 \<or> w = 1"

definition wf_chan :: "net_chan \<Rightarrow> bool" where
  "wf_chan c \<longleftrightarrow>
     wf_buf (message c) \<and> max_size (message c) = CHAN_BUFFER \<and> allow_overflow (message c) \<and>
     reliable_size c \<le> CHAN_BUFFER \<and> length (reliable_buffer c) = CHAN_BUFFER \<and>
     is_bit (reliable_sequence c) \<and> is_bit (incoming_reliable_sequence c) \<and>
     is_bit (incoming_reliable_acknowledged c)"

definition reliable_payload :: "net_chan \<Rightarrow> byte list" where
  "reliable_payload c = take (reliable_size c) (reliable_buffer c)"

lemma CHAN_BUFFER_eq: "CHAN_BUFFER = 1384"
  by (simp add: CHAN_BUFFER_def limits)

lemma is_bit_of_bool [simp]: "is_bit (of_bool b)"
  by (simp add: is_bit_def)

lemma is_bit_xor [simp]: "is_bit w \<Longrightarrow> is_bit (w XOR 1)"
  by (auto simp: is_bit_def)

lemma is_bit_eq: "is_bit w \<Longrightarrow> w = of_bool (w = 1)"
  by (auto simp: is_bit_def)

lemma wf_Setup: "wf_chan (Netchan_Setup now src adr qp)"
  by (simp add: wf_chan_def Netchan_Setup_def is_bit_def wf_buf_def Mem_InitBuffer_def)

section \<open>Staging\<close>

lemma stage_simps [simp]:
  "source (stage c) = source c" "qport (stage c) = qport c"
  "incoming_sequence (stage c) = incoming_sequence c"
  "incoming_acknowledged (stage c) = incoming_acknowledged c"
  "incoming_reliable_acknowledged (stage c) = incoming_reliable_acknowledged c"
  "incoming_reliable_sequence (stage c) = incoming_reliable_sequence c"
  "outgoing_sequence (stage c) = outgoing_sequence c"
  "last_reliable_sequence (stage c) = last_reliable_sequence c"
  "overflowed (message (stage c)) = overflowed (message c)"
  by (simp_all add: stage_def)

lemma wf_stage: "wf_chan c \<Longrightarrow> wf_chan (stage c)"
  by (auto simp: wf_chan_def stage_def wf_buf_def)

lemma reliable_payload_stage:
  assumes "wf_chan c"
  shows "reliable_payload (stage c) =
    (if stages c then contents (message c) else reliable_payload c)"
proof -
  have "length (contents (message c)) = buf_size (message c)"
    and "buf_size (message c) \<le> length (reliable_buffer c)"
    using assms by (auto simp: wf_chan_def wf_buf_def contents_def)
  then show ?thesis
    using take_store_bytes [of 0 "contents (message c)" "reliable_buffer c"]
    by (simp add: reliable_payload_def stage_def)
qed

lemma stage_unchanged: "\<not> stages c \<Longrightarrow> stage c = c"
  by (simp add: stage_def)

section \<open>Sending\<close>

definition sent_packet :: "net_chan \<Rightarrow> byte list \<Rightarrow> packet" where
  "sent_packet c bytes =
     (let rel = Netchan_NeedReliable c;
          head = (if rel then reliable_payload (stage c) else []);
          used = 8 + length (qport_bytes (source c) (qport c)) + length head
      in \<lparr>pk_seq = unat (outgoing_sequence c), pk_rel = rel, pk_ack = unat (incoming_sequence c),
          pk_rack = (incoming_reliable_sequence c = 1),
          pk_payload = head @ (if used + length bytes \<le> MAX_MSG_SIZE then bytes else [])\<rparr>)"

definition sent_chan :: "uint32 \<Rightarrow> net_chan \<Rightarrow> net_chan" where
  "sent_chan now c =
     (let rel = Netchan_NeedReliable c;
          c' = (stage c)\<lparr>outgoing_sequence := outgoing_sequence c + 1, last_sent := now\<rparr>
      in if rel then c'\<lparr>last_reliable_sequence := outgoing_sequence c'\<rparr> else c')"

lemma emits_qport:
  "msg.emits (when_do (src = NS_UDP_CLIENT) (Net_WriteByte (uint q))) (qport_bytes src q)"
  using emits_Byte [of "uint q"] emits_Skip by (simp add: qport_bytes_def)

lemma header_word_bit:
  "is_bit w \<Longrightarrow> header_word s w = header_word s (of_bool (w = 1))"
  using is_bit_eq by metis

lemma Transmit_sends:
  assumes wf: "wf_chan c" and ok: "\<not> overflowed (message c)"
  shows "Netchan_Transmit now c bytes =
    Inr (sent_chan now c, Some (packet_bytes (source c) (qport c) (sent_packet c bytes)))"
proof -
  let ?rel = "Netchan_NeedReliable c" and ?c = "stage c"
  let ?send = "Mem_InitBuffer (replicate MAX_MSG_SIZE 0) MAX_MSG_SIZE"
  let ?w1 = "header_word (outgoing_sequence c) (of_bool ?rel)"
  let ?w2 = "header_word (incoming_sequence c) (incoming_reliable_sequence c)"
  let ?head = "if ?rel then reliable_payload ?c else []"
  let ?bs = "concat [long_bytes (sint ?w1), long_bytes (sint ?w2),
      qport_bytes (source c) (qport c), ?head]"
  have head: "length ?head \<le> CHAN_BUFFER"
    using wf_stage [OF wf] by (simp add: reliable_payload_def wf_chan_def)
  have len: "length ?bs \<le> MAX_MSG_SIZE"
    using head by (auto simp: CHAN_BUFFER_eq limits qport_bytes_def)
  have wfs: "wf_buf ?send" "room ?send = MAX_MSG_SIZE" "contents ?send = []"
    using wf_InitBuffer [of "replicate MAX_MSG_SIZE 0"] by simp_all
  have "msg.emits (run_seq [Net_WriteLong (sint ?w1), Net_WriteLong (sint ?w2),
      when_do (source c = NS_UDP_CLIENT) (Net_WriteByte (uint (qport c))),
      when_do ?rel (Mem_WriteBuffer (reliable_payload ?c))]) ?bs"
    by (intro emits_qport msg.emits_put emit_intros)
  then obtain s1 where s1: "run_seq [Net_WriteLong (sint ?w1), Net_WriteLong (sint ?w2),
      when_do (source c = NS_UDP_CLIENT) (Net_WriteByte (uint (qport c))),
      when_do ?rel (Mem_WriteBuffer (reliable_payload ?c))] ?send = Inr s1"
    "contents s1 = ?bs" "room s1 = MAX_MSG_SIZE - length ?bs" "wf_buf s1"
    using msg.emitsD [of _ ?bs ?send] wfs len by (auto simp only: append_Nil)
  have free: "max_size s1 - buf_size s1 = MAX_MSG_SIZE - length ?bs"
    using s1(3) by (simp add: room_def)
  have s2: "(if max_size s1 - buf_size s1 \<ge> length bytes then Mem_WriteBuffer bytes s1 else Inr s1)
      = Inr s2 \<Longrightarrow> contents s2 = ?bs @
        (if length ?bs + length bytes \<le> MAX_MSG_SIZE then bytes else [])" for s2
    using msg.put_ok [OF s1(4), of bytes] s1(2,3) free len
    by (auto simp del: concat.simps split: if_splits)
  obtain s2 where "(if max_size s1 - buf_size s1 \<ge> length bytes then Mem_WriteBuffer bytes s1
      else Inr s1) = Inr s2"
    using msg.put_ok [OF s1(4), of bytes] s1(3) free by (cases "length bytes \<le> room s1") auto
  moreover have "packet_bytes (source c) (qport c) (sent_packet c bytes) =
      ?bs @ (if length ?bs + length bytes \<le> MAX_MSG_SIZE then bytes else [])"
    using wf header_word_bit [of "incoming_reliable_sequence c" "incoming_sequence c"]
    by (simp add: packet_bytes_def sent_packet_def Let_def wf_chan_def add.assoc)
  ultimately show ?thesis
    using ok s1(1) s2
    by (simp add: Netchan_Transmit_def Let_def sent_chan_def reliable_payload_def del: run_seq.simps)
qed

lemma wf_sent_chan: "wf_chan c \<Longrightarrow> wf_chan (sent_chan now c)"
  using wf_stage [of c] by (simp add: sent_chan_def Let_def wf_chan_def)

lemma sent_chan_simps [simp]:
  "source (sent_chan now c) = source c" "qport (sent_chan now c) = qport c"
  "incoming_sequence (sent_chan now c) = incoming_sequence c"
  "incoming_acknowledged (sent_chan now c) = incoming_acknowledged c"
  "incoming_reliable_acknowledged (sent_chan now c) = incoming_reliable_acknowledged c"
  "incoming_reliable_sequence (sent_chan now c) = incoming_reliable_sequence c"
  "outgoing_sequence (sent_chan now c) = outgoing_sequence c + 1"
  "reliable_sequence (sent_chan now c) = reliable_sequence (stage c)"
  "reliable_size (sent_chan now c) = reliable_size (stage c)"
  "reliable_payload (sent_chan now c) = reliable_payload (stage c)"
  "last_reliable_sequence (sent_chan now c) =
     (if Netchan_NeedReliable c then outgoing_sequence c + 1 else last_reliable_sequence c)"
  by (simp_all add: sent_chan_def Let_def reliable_payload_def)

lemma length_sent_packet:
  assumes "wf_chan c"
  shows "length (packet_bytes (source c) (qport c) (sent_packet c bytes)) \<le> MAX_MSG_SIZE"
proof -
  have "length (reliable_payload (stage c)) \<le> CHAN_BUFFER"
    using wf_stage [OF assms] by (simp add: reliable_payload_def wf_chan_def)
  then show ?thesis
    by (auto simp: packet_bytes_def sent_packet_def Let_def CHAN_BUFFER_eq limits qport_bytes_def)
qed

section \<open>Receiving\<close>

definition recv_chan :: "uint32 \<Rightarrow> net_chan \<Rightarrow> packet \<Rightarrow> net_chan" where
  "recv_chan now c p = c\<lparr>
     dropped := word_of_nat (pk_seq p) - (incoming_sequence c + 1),
     reliable_size := (if of_bool (pk_rack p) = reliable_sequence c then 0 else reliable_size c),
     incoming_sequence := word_of_nat (pk_seq p),
     incoming_acknowledged := word_of_nat (pk_ack p),
     incoming_reliable_acknowledged := of_bool (pk_rack p),
     incoming_reliable_sequence :=
       (if pk_rel p then incoming_reliable_sequence c XOR 1 else incoming_reliable_sequence c),
     last_received := now\<rparr>"

definition after_header :: "net_src \<Rightarrow> mem_buf \<Rightarrow> mem_buf" where
  "after_header src msg = skip_read (if src = NS_UDP_CLIENT then 9 else 8) (Net_BeginReading msg)"

lemma unread_BeginReading [simp]: "unread (Net_BeginReading msg) = contents msg"
  by (simp add: unread_def Net_BeginReading_def contents_def)

lemma Process_packet:
  assumes bytes: "contents msg = packet_bytes src q p" and other: "source c \<noteq> src"
    and "seq_ok (pk_seq p)" and "seq_ok (pk_ack p)"
  shows "Netchan_Process now c msg =
      (if pk_seq p \<le> unat (incoming_sequence c) then (False, c, after_header src msg)
       else (True, recv_chan now c p, after_header src msg))"
    and "unread (after_header src msg) = pk_payload p"
proof -
  let ?w1 = "header_word (word_of_nat (pk_seq p)) (of_bool (pk_rel p))"
  let ?w2 = "header_word (word_of_nat (pk_ack p)) (of_bool (pk_rack p))"
  let ?m = "Net_BeginReading msg"
  let ?tail = "qport_bytes src q @ pk_payload p"
  have u: "unread ?m = long_bytes (sint ?w1) @ long_bytes (sint ?w2) @ ?tail"
    using bytes by (simp add: packet_bytes_def)
  have r1: "Net_ReadLong ?m = (sint ?w1, skip_read 4 ?m)"
    using long_codec.rd_enc [OF u] by simp
  have r2: "Net_ReadLong (skip_read 4 ?m) = (sint ?w2, skip_read 8 ?m)"
    using long_codec.rd_enc [of "skip_read 4 ?m" "sint ?w2" ?tail] u by simp
  have r3: "snd (Net_ReadByte sb) = skip_read 1 sb" for sb
    by (simp add: Net_ReadByte_def)
  show "unread (after_header src msg) = pk_payload p"
    using u by (simp add: after_header_def qport_bytes_def)
  have "source c = NS_UDP_SERVER \<longleftrightarrow> src = NS_UDP_CLIENT"
    using other by (cases "source c"; cases src) auto
  then have hdr: "(if source c = NS_UDP_SERVER then snd (Net_ReadByte (skip_read 8 ?m))
      else skip_read 8 ?m) = after_header src msg"
    by (simp add: after_header_def r3)
  have le: "(word_of_nat (pk_seq p) \<le> incoming_sequence c) \<longleftrightarrow> pk_seq p \<le> unat (incoming_sequence c)"
    using assms(3) by (simp add: word_le_nat_alt unat_seq)
  show "Netchan_Process now c msg =
      (if pk_seq p \<le> unat (incoming_sequence c) then (False, c, after_header src msg)
       else (True, recv_chan now c p, after_header src msg))"
    unfolding Netchan_Process_def Let_def r1 r2 prod.case hdr
    by (simp add: header_low header_high assms(3,4) le recv_chan_def)
qed

lemma wf_recv_chan: "wf_chan c \<Longrightarrow> wf_chan (recv_chan now c p)"
  by (simp add: wf_chan_def recv_chan_def)

lemma recv_chan_simps [simp]:
  "source (recv_chan now c p) = source c" "qport (recv_chan now c p) = qport c"
  "incoming_sequence (recv_chan now c p) = word_of_nat (pk_seq p)"
  "incoming_acknowledged (recv_chan now c p) = word_of_nat (pk_ack p)"
  "incoming_reliable_acknowledged (recv_chan now c p) = of_bool (pk_rack p)"
  "incoming_reliable_sequence (recv_chan now c p) =
     (if pk_rel p then incoming_reliable_sequence c XOR 1 else incoming_reliable_sequence c)"
  "outgoing_sequence (recv_chan now c p) = outgoing_sequence c"
  "reliable_sequence (recv_chan now c p) = reliable_sequence c"
  "last_reliable_sequence (recv_chan now c p) = last_reliable_sequence c"
  "reliable_size (recv_chan now c p) =
     (if of_bool (pk_rack p) = reliable_sequence c then 0 else reliable_size c)"
  "reliable_buffer (recv_chan now c p) = reliable_buffer c"
  "message (recv_chan now c p) = message c"
  by (simp_all add: recv_chan_def)

end
