(* ===== verification/Reliable_Delivery.thy ===== *)
theory Reliable_Delivery
  imports Net_Channel_Laws
begin

text \<open>
  Two channels, a client's and a server's, over a network that loses, repeats and
  reorders datagrams: any datagram ever sent may be delivered, at any time and any
  number of times. The steps are the operations of \<open>net_chan.c\<close> on the bytes of the
  datagrams. \<open>staged\<close> logs the reliable messages a side has started to transmit and
  \<open>got\<close> what a side was given with a reliable packet, in order.
\<close>

section \<open>The system\<close>

fun peer :: "net_src \<Rightarrow> net_src" where
  "peer NS_UDP_CLIENT = NS_UDP_SERVER"
| "peer NS_UDP_SERVER = NS_UDP_CLIENT"

lemma peer_simps [simp]: "peer (peer s) = s" "peer s \<noteq> s" "s \<noteq> peer s"
  by (cases s; simp)+

record link =
  chan :: "net_src \<Rightarrow> net_chan"
  net :: "net_src \<Rightarrow> byte list list"
  staged :: "net_src \<Rightarrow> byte list list"
  got :: "net_src \<Rightarrow> byte list list"

text \<open>The receive buffer (\<open>net_message\<close>) after a datagram has been copied into it.\<close>

definition datagram_in :: "byte list \<Rightarrow> mem_buf" where
  "datagram_in bs =
     (Mem_InitBuffer (store_bytes 0 bs (replicate MAX_MSG_SIZE 0)) MAX_MSG_SIZE)
       \<lparr>buf_size := length bs\<rparr>"

definition queued :: "net_src \<Rightarrow> mem_buf \<Rightarrow> link \<Rightarrow> link" where
  "queued s m l = l\<lparr>chan := (chan l)(s := (chan l s)\<lparr>message := m\<rparr>)\<rparr>"

definition transmitted :: "net_src \<Rightarrow> net_chan \<Rightarrow> byte list option \<Rightarrow> link \<Rightarrow> link" where
  "transmitted s c d l = l\<lparr>chan := (chan l)(s := c),
     net := (net l)(s := (case d of None \<Rightarrow> net l s | Some bs \<Rightarrow> bs # net l s)),
     staged := (staged l)(s :=
       (if d \<noteq> None \<and> stages (chan l s) then staged l s @ [contents (message (chan l s))]
        else staged l s))\<rparr>"

definition received :: "net_src \<Rightarrow> bool \<Rightarrow> net_chan \<Rightarrow> mem_buf \<Rightarrow> link \<Rightarrow> link" where
  "received s ok c msg l = l\<lparr>chan := (chan l)(s := c),
     got := (got l)(s :=
       (if ok \<and> incoming_reliable_sequence c \<noteq> incoming_reliable_sequence (chan l s)
        then got l s @ [unread msg] else got l s))\<rparr>"

text \<open>
  A sequence number must stay below \<open>2 ^ 31\<close>, the bit that marks reliable packets: the
  code does not handle the wrap-around, and neither does this step relation.
\<close>

inductive link_step :: "link \<Rightarrow> link \<Rightarrow> bool" where
  queue: "Mem_WriteBuffer bs (message (chan l s)) = Inr m \<Longrightarrow> link_step l (queued s m l)"
| transmit:
    "unat (outgoing_sequence (chan l s)) < 2 ^ 31 - 1 \<Longrightarrow>
     Netchan_Transmit now (chan l s) bytes = Inr (c, d) \<Longrightarrow> link_step l (transmitted s c d l)"
| receive:
    "bs \<in> set (net l (peer s)) \<Longrightarrow>
     Netchan_Process now (chan l s) (datagram_in bs) = (ok, c, msg) \<Longrightarrow>
     link_step l (received s ok c msg l)"

definition link_init :: "(net_src \<Rightarrow> uint32) \<Rightarrow> (net_src \<Rightarrow> net_addr) \<Rightarrow> uint8 \<Rightarrow> link" where
  "link_init now adr qp =
     \<lparr>chan = (\<lambda>s. Netchan_Setup (now s) s (adr s) qp), net = (\<lambda>_. []), staged = (\<lambda>_. []),
      got = (\<lambda>_. [])\<rparr>"

inductive link_reachable :: "link \<Rightarrow> bool" where
  start: "link_reachable (link_init now adr qp)"
| step: "link_reachable l \<Longrightarrow> link_step l l' \<Longrightarrow> link_reachable l'"

section \<open>Taking datagrams apart\<close>

definition packet_of :: "net_src \<Rightarrow> byte list \<Rightarrow> packet" where
  "packet_of src bs =
     (let (w1, m) = Net_ReadLong (datagram_in bs);
          (w2, m) = Net_ReadLong m;
          a = word_of_int w1 :: uint32; b = word_of_int w2 :: uint32
      in \<lparr>pk_seq = unat (a AND NOT bit31), pk_rel = (drop_bit 31 a = 1),
          pk_ack = unat (b AND NOT bit31), pk_rack = (drop_bit 31 b = 1),
          pk_payload = drop (if src = NS_UDP_CLIENT then 9 else 8) bs\<rparr>)"

lemma contents_datagram_in:
  "length bs \<le> MAX_MSG_SIZE \<Longrightarrow> contents (datagram_in bs) = bs"
  using take_store_bytes [of 0 bs "replicate MAX_MSG_SIZE 0"]
  by (simp add: datagram_in_def contents_def Mem_InitBuffer_def)

lemma unread_datagram_in:
  "length bs \<le> MAX_MSG_SIZE \<Longrightarrow> unread (datagram_in bs) = bs"
  by (simp add: unread_def contents_datagram_in) (simp add: datagram_in_def Mem_InitBuffer_def)

lemma of_bool_eq_1 [simp]: "(of_bool b :: uint32) = 1 \<longleftrightarrow> b"
  by simp

lemma packet_of_bytes:
  assumes "length (packet_bytes src q p) \<le> MAX_MSG_SIZE" and "seq_ok (pk_seq p)" and "seq_ok (pk_ack p)"
  shows "packet_of src (packet_bytes src q p) = p"
proof -
  let ?w1 = "header_word (word_of_nat (pk_seq p)) (of_bool (pk_rel p))"
  let ?w2 = "header_word (word_of_nat (pk_ack p)) (of_bool (pk_rack p))"
  let ?m = "datagram_in (packet_bytes src q p)"
  let ?tail = "qport_bytes src q @ pk_payload p"
  have u: "unread ?m = long_bytes (sint ?w1) @ long_bytes (sint ?w2) @ ?tail"
    using unread_datagram_in [OF assms(1)] by (simp add: packet_bytes_def)
  have "Net_ReadLong ?m = (sint ?w1, skip_read 4 ?m)"
    using long_codec.rd_enc [OF u] by simp
  moreover have "Net_ReadLong (skip_read 4 ?m) = (sint ?w2, skip_read 8 ?m)"
    using long_codec.rd_enc [of "skip_read 4 ?m" "sint ?w2" ?tail] u by simp
  moreover have "drop (if src = NS_UDP_CLIENT then 9 else 8) (packet_bytes src q p) = pk_payload p"
    by (simp add: packet_bytes_def qport_bytes_def)
  ultimately show ?thesis
    using assms(2,3) by (simp add: packet_of_def header_low header_high unat_seq)
qed

text \<open>The datagrams on the network are those of the channel, and fit a packet.\<close>

definition genuine :: "net_src \<Rightarrow> uint8 \<Rightarrow> byte list \<Rightarrow> bool" where
  "genuine src q bs \<longleftrightarrow> bs = packet_bytes src q (packet_of src bs) \<and> length bs \<le> MAX_MSG_SIZE \<and>
     seq_ok (pk_seq (packet_of src bs)) \<and> seq_ok (pk_ack (packet_of src bs))"

lemma genuine_packet_bytes:
  assumes "length (packet_bytes src q p) \<le> MAX_MSG_SIZE" and "seq_ok (pk_seq p)" and "seq_ok (pk_ack p)"
  shows "genuine src q (packet_bytes src q p)"
  using assms packet_of_bytes [OF assms] by (simp add: genuine_def)

section \<open>One direction of a link\<close>

text \<open>
  \<open>X\<close> sends data to \<open>Y\<close>: \<open>P\<close> are \<open>X\<close>'s packets so far, \<open>Q\<close> the packets of \<open>Y\<close>, which
  carry the acknowledgements; \<open>S\<close> are the messages \<open>X\<close> has staged, \<open>G\<close> what \<open>Y\<close> was
  given. An acknowledgement \<open>(a, r)\<close> that \<open>X\<close> has or may still accept is \<open>sound\<close>: its
  bit says "arrived" only if the last message has arrived, and a later sequence number
  with the other bit means that the message is lost.
\<close>

definition sound :: "net_chan \<Rightarrow> net_chan \<Rightarrow> nat \<Rightarrow> nat \<Rightarrow> nat \<Rightarrow> bool \<Rightarrow> bool" where
  "sound X Y n m a r \<longleftrightarrow>
     a \<le> unat (incoming_sequence Y) \<and> (r = odd n \<longrightarrow> m = n) \<and>
     (r \<noteq> odd n \<longrightarrow> unat (last_reliable_sequence X) \<le> a \<longrightarrow> n = Suc m)"

text \<open>A packet that a channel would not discard as stale.\<close>

definition fresh :: "net_chan \<Rightarrow> packet \<Rightarrow> bool" where
  "fresh c p \<longleftrightarrow> unat (incoming_sequence c) < pk_seq p"

definition begins :: "byte list \<Rightarrow> byte list \<Rightarrow> bool" where
  "begins bs cs \<longleftrightarrow> (\<exists>u. cs = bs @ u)"

definition dir_bits :: "net_chan \<Rightarrow> net_chan \<Rightarrow> byte list list \<Rightarrow> byte list list \<Rightarrow> bool" where
  "dir_bits X Y S G \<longleftrightarrow>
     reliable_sequence X = of_bool (odd (length S)) \<and>
     incoming_reliable_sequence Y = of_bool (odd (length G)) \<and>
     length G \<le> length S \<and> length S \<le> Suc (length G) \<and>
     (reliable_size X = 0 \<longrightarrow> length G = length S \<and>
        incoming_reliable_acknowledged X = of_bool (odd (length S))) \<and>
     (reliable_size X \<noteq> 0 \<longrightarrow> S \<noteq> [] \<and> reliable_payload X = last S) \<and>
     is_bit (incoming_reliable_acknowledged X) \<and>
     unat (incoming_sequence Y) < unat (outgoing_sequence X) \<and>
     unat (last_reliable_sequence X) \<le> unat (outgoing_sequence X)"

definition dir_data ::
  "net_chan \<Rightarrow> net_chan \<Rightarrow> packet set \<Rightarrow> byte list list \<Rightarrow> byte list list \<Rightarrow> bool" where
  "dir_data X Y P S G \<longleftrightarrow>
     (\<forall>p \<in> P. pk_seq p < unat (outgoing_sequence X)) \<and>
     (\<forall>p \<in> P. pk_rel p \<longrightarrow> fresh Y p \<longrightarrow>
        Suc (pk_seq p) = unat (last_reliable_sequence X) \<and> length S = Suc (length G) \<and>
        begins (last S) (pk_payload p)) \<and>
     (\<forall>i < length G. begins (S ! i) (G ! i))"

definition dir_acks ::
  "net_chan \<Rightarrow> net_chan \<Rightarrow> packet set \<Rightarrow> byte list list \<Rightarrow> byte list list \<Rightarrow> bool" where
  "dir_acks X Y Q S G \<longleftrightarrow>
     sound X Y (length S) (length G) (unat (incoming_acknowledged X))
       (incoming_reliable_acknowledged X = 1) \<and>
     (\<forall>q \<in> Q. pk_seq q < unat (outgoing_sequence Y)) \<and>
     (\<forall>q \<in> Q. fresh X q \<longrightarrow> sound X Y (length S) (length G) (pk_ack q) (pk_rack q)) \<and>
     (reliable_size X = 0 \<longrightarrow> (\<forall>q \<in> Q. fresh X q \<longrightarrow> pk_rack q = odd (length S))) \<and>
     (\<forall>q \<in> Q. \<forall>q' \<in> Q. fresh X q' \<longrightarrow> pk_seq q' \<le> pk_seq q \<longrightarrow> pk_rack q' = odd (length S) \<longrightarrow>
        pk_rack q = odd (length S))"

definition dir_inv ::
  "net_chan \<Rightarrow> net_chan \<Rightarrow> packet set \<Rightarrow> packet set \<Rightarrow> byte list list \<Rightarrow> byte list list \<Rightarrow> bool" where
  "dir_inv X Y P Q S G \<longleftrightarrow> dir_bits X Y S G \<and> dir_data X Y P S G \<and> dir_acks X Y Q S G"

subsection \<open>The sender transmits\<close>

lemma begins_append [simp]: "begins bs (bs @ u)"
  by (auto simp: begins_def)

lemma unat_Suc_seq: "unat w < 2 ^ 31 - 1 \<Longrightarrow> unat (w + 1 :: uint32) = Suc (unat w)"
  by (simp add: unat_word_ariths)

lemma need_iff:
  "Netchan_NeedReliable c \<longleftrightarrow> stages c \<or>
     (unat (last_reliable_sequence c) < unat (incoming_acknowledged c) \<and>
      incoming_reliable_acknowledged c \<noteq> reliable_sequence c)"
  by (simp add: Netchan_NeedReliable_def stages_def word_less_nat_alt)

lemma xor_bit: "(of_bool b :: uint32) XOR 1 = of_bool (\<not> b)"
  by (cases b) simp_all

lemma pk_sent_simps [simp]:
  "pk_seq (sent_packet c bytes) = unat (outgoing_sequence c)"
  "pk_rel (sent_packet c bytes) = Netchan_NeedReliable c"
  "pk_ack (sent_packet c bytes) = unat (incoming_sequence c)"
  "pk_rack (sent_packet c bytes) = (incoming_reliable_sequence c = 1)"
  by (simp_all add: sent_packet_def Let_def)

lemma payload_sent:
  "Netchan_NeedReliable c \<Longrightarrow> begins (reliable_payload (stage c)) (pk_payload (sent_packet c bytes))"
  by (simp add: sent_packet_def Let_def)

lemma stage_reliable_sequence:
  "reliable_sequence X = of_bool (odd n) \<Longrightarrow>
   reliable_sequence (stage X) = of_bool (odd (if stages X then Suc n else n))"
  by (simp add: stage_def xor_bit)

lemma not_stages_size: "stages X \<Longrightarrow> reliable_size X = 0"
  by (simp add: stages_def)

lemma stage_size: "reliable_size (stage X) = (if stages X then buf_size (message X) else reliable_size X)"
  by (simp add: stage_def)

lemma of_bool_word_eq [simp]: "(of_bool a :: uint32) = of_bool b \<longleftrightarrow> a = b"
  by simp

text \<open>When a channel retransmits, the last message is indeed missing at the other side.\<close>

lemma retransmit_missing:
  assumes "dir_bits X Y S G" and "dir_acks X Y Q S G" and "Netchan_NeedReliable X" and "\<not> stages X"
  shows "length S = Suc (length G)" and "reliable_size X \<noteq> 0"
proof -
  from assms(3,4) have A: "unat (last_reliable_sequence X) < unat (incoming_acknowledged X)"
    and B: "incoming_reliable_acknowledged X \<noteq> reliable_sequence X"
    by (simp_all add: need_iff)
  have r: "(incoming_reliable_acknowledged X = 1) \<noteq> odd (length S)"
    using assms(1) B unfolding dir_bits_def is_bit_def by auto
  then show "length S = Suc (length G)"
    using assms(2) A unfolding dir_acks_def sound_def by simp
  show "reliable_size X \<noteq> 0"
    using assms(1) B unfolding dir_bits_def by auto
qed

lemma fresh_sent [simp]: "fresh (sent_chan now c) p = fresh c p"
  by (simp add: fresh_def)

lemma dir_acksI:
  assumes "sound X Y (length S) (length G) (unat (incoming_acknowledged X))
      (incoming_reliable_acknowledged X = 1)"
    and "\<And>q. q \<in> Q \<Longrightarrow> pk_seq q < unat (outgoing_sequence Y)"
    and "\<And>q. q \<in> Q \<Longrightarrow> fresh X q \<Longrightarrow> sound X Y (length S) (length G) (pk_ack q) (pk_rack q)"
    and "\<And>q. reliable_size X = 0 \<Longrightarrow> q \<in> Q \<Longrightarrow> fresh X q \<Longrightarrow> pk_rack q = odd (length S)"
    and "\<And>q q'. q \<in> Q \<Longrightarrow> q' \<in> Q \<Longrightarrow> fresh X q' \<Longrightarrow> pk_seq q' \<le> pk_seq q \<Longrightarrow>
      pk_rack q' = odd (length S) \<Longrightarrow> pk_rack q = odd (length S)"
  shows "dir_acks X Y Q S G"
  using assms unfolding dir_acks_def by blast

lemma dir_acksD:
  assumes "dir_acks X Y Q S G"
  shows "sound X Y (length S) (length G) (unat (incoming_acknowledged X))
      (incoming_reliable_acknowledged X = 1)"
    and "\<And>q. q \<in> Q \<Longrightarrow> pk_seq q < unat (outgoing_sequence Y)"
    and "\<And>q. q \<in> Q \<Longrightarrow> fresh X q \<Longrightarrow> sound X Y (length S) (length G) (pk_ack q) (pk_rack q)"
    and "\<And>q. reliable_size X = 0 \<Longrightarrow> q \<in> Q \<Longrightarrow> fresh X q \<Longrightarrow> pk_rack q = odd (length S)"
    and "\<And>q q'. q \<in> Q \<Longrightarrow> q' \<in> Q \<Longrightarrow> fresh X q' \<Longrightarrow> pk_seq q' \<le> pk_seq q \<Longrightarrow>
      pk_rack q' = odd (length S) \<Longrightarrow> pk_rack q = odd (length S)"
  using assms unfolding dir_acks_def by blast+

lemma dir_X_sends:
  assumes inv: "dir_inv X Y P Q S G" and wf: "wf_chan X"
    and lim: "unat (outgoing_sequence X) < 2 ^ 31 - 1"
  shows "dir_inv (sent_chan now X) Y (insert (sent_packet X bytes) P) Q
    (if stages X then S @ [contents (message X)] else S) G"
proof -
  let ?X = "sent_chan now X" and ?S = "if stages X then S @ [contents (message X)] else S"
  from inv have bits: "dir_bits X Y S G" and data: "dir_data X Y P S G" and acks: "dir_acks X Y Q S G"
    by (simp_all add: dir_inv_def)
  note [simp] = unat_Suc_seq [OF lim]
  have eqn: "length G = length S" if "stages X"
    using bits not_stages_size [OF that] by (simp add: dir_bits_def)
  have missing: "length ?S = Suc (length G)" if "Netchan_NeedReliable X"
    using retransmit_missing(1) [OF bits acks that] eqn by auto
  have size: "reliable_size ?X = 0 \<longleftrightarrow> reliable_size X = 0 \<and> \<not> stages X"
    by (auto simp: stage_size stages_def)
  have last: "reliable_payload (stage X) = last ?S" if "reliable_size ?X \<noteq> 0"
    using that bits size wf by (auto simp: reliable_payload_stage dir_bits_def)
  have "reliable_size ?X \<noteq> 0" if "Netchan_NeedReliable X"
    using retransmit_missing(2) [OF bits acks that] size by auto
  then have payload: "begins (last ?S) (pk_payload (sent_packet X bytes))" if "Netchan_NeedReliable X"
    using payload_sent [OF that] last that by auto
  have b: "dir_bits ?X Y ?S G"
    using bits eqn last size stage_reliable_sequence [of X "length S"]
    by (auto simp: dir_bits_def)
  have d: "dir_data ?X Y (insert (sent_packet X bytes) P) ?S G"
  proof -
    have stale: "\<not> fresh Y p" if "p \<in> P" "pk_rel p" "Netchan_NeedReliable X" for p
    proof
      assume "fresh Y p"
      then have m: "length S = Suc (length G)"
          and s: "Suc (pk_seq p) = unat (last_reliable_sequence X)"
        using data that by (auto simp: dir_data_def)
      then have "\<not> stages X" using eqn by auto
      then have "unat (last_reliable_sequence X) < unat (incoming_acknowledged X)"
        using that(3) by (simp add: need_iff)
      moreover have "unat (incoming_acknowledged X) \<le> unat (incoming_sequence Y)"
        using acks by (simp add: dir_acks_def sound_def)
      ultimately show False using s \<open>fresh Y p\<close> by (simp add: fresh_def)
    qed
    have old: "begins (?S ! i) (G ! i)" if "i < length G" for i
      using that data bits by (auto simp: dir_data_def dir_bits_def nth_append)
    have "Suc (pk_seq p) = unat (last_reliable_sequence ?X) \<and> length ?S = Suc (length G) \<and>
        begins (last ?S) (pk_payload p)"
      if "p \<in> insert (sent_packet X bytes) P" "pk_rel p" "fresh Y p" for p
    proof (cases "p = sent_packet X bytes")
      case True
      then show ?thesis using that missing payload by simp
    next
      case False
      then have "p \<in> P" "\<not> Netchan_NeedReliable X" using that stale by auto
      moreover from this have "\<not> stages X" by (simp add: need_iff)
      ultimately show ?thesis using data that by (simp add: dir_data_def)
    qed
    then show ?thesis using data old by (auto simp: dir_data_def less_Suc_eq)
  qed
  have low: "unat (incoming_sequence Y) < unat (outgoing_sequence X)"
    using bits by (simp add: dir_bits_def)
  have sound: "sound ?X Y (length ?S) (length G) x r"
    if "sound X Y (length S) (length G) x r" and "stages X \<longrightarrow> r = odd (length S)" for x r
    using that low by (auto simp: sound_def)
  have a: "dir_acks ?X Y Q ?S G"
  proof (rule dir_acksI)
    have "stages X \<longrightarrow> (incoming_reliable_acknowledged X = 1) = odd (length S)"
      using bits not_stages_size by (auto simp: dir_bits_def)
    then show "sound ?X Y (length ?S) (length G) (unat (incoming_acknowledged ?X))
        (incoming_reliable_acknowledged ?X = 1)"
      using sound dir_acksD(1) [OF acks] by simp
  next
    fix q assume "q \<in> Q"
    then show "pk_seq q < unat (outgoing_sequence Y)" by (rule dir_acksD(2) [OF acks])
  next
    fix q assume q: "q \<in> Q" "fresh ?X q"
    have "stages X \<longrightarrow> pk_rack q = odd (length S)"
      using q not_stages_size dir_acksD(4) [OF acks] by simp
    then show "sound ?X Y (length ?S) (length G) (pk_ack q) (pk_rack q)"
      using sound dir_acksD(3) [OF acks] q by simp
  next
    fix q assume "reliable_size ?X = 0" "q \<in> Q" "fresh ?X q"
    then show "pk_rack q = odd (length ?S)" using dir_acksD(4) [OF acks] size by simp
  next
    fix q q' assume q: "q \<in> Q" "q' \<in> Q" "fresh ?X q'" "pk_seq q' \<le> pk_seq q"
      "pk_rack q' = odd (length ?S)"
    then have "\<not> stages X" using dir_acksD(4) [OF acks, of q'] not_stages_size by auto
    then show "pk_rack q = odd (length ?S)" using q dir_acksD(5) [OF acks, of q q'] by simp
  qed
  from b d a show ?thesis by (simp add: dir_inv_def)
qed

subsection \<open>The receiver accepts\<close>

lemma dir_Y_receives:
  assumes inv: "dir_inv X Y P Q S G" and p: "p \<in> P" "fresh Y p" "seq_ok (pk_seq p)"
  shows "dir_inv X (recv_chan now Y p) P Q S (if pk_rel p then G @ [pk_payload p] else G)"
proof -
  let ?Y = "recv_chan now Y p" and ?G = "if pk_rel p then G @ [pk_payload p] else G"
  from inv have bits: "dir_bits X Y S G" and data: "dir_data X Y P S G" and acks: "dir_acks X Y Q S G"
    by (simp_all add: dir_inv_def)
  have iY: "unat (incoming_sequence ?Y) = pk_seq p" "unat (incoming_sequence Y) < pk_seq p"
    using p by (simp_all add: unat_seq fresh_def)
  have fresh: "fresh Y q" "pk_seq p < pk_seq q" if "fresh ?Y q" for q
    using that iY by (simp_all add: fresh_def)
  have rel: "Suc (pk_seq p) = unat (last_reliable_sequence X)" "length S = Suc (length G)"
      "begins (last S) (pk_payload p)" if "pk_rel p"
    using data p that by (auto simp: dir_data_def)
  have b: "dir_bits X ?Y S ?G"
  proof -
    have "pk_seq p < unat (outgoing_sequence X)" using data p(1) by (simp add: dir_data_def)
    then show ?thesis
      using bits rel(2) iY(1) by (cases "pk_rel p") (simp_all add: dir_bits_def xor_bit)
  qed
  have d: "dir_data X ?Y P S ?G"
  proof -
    have "begins (S ! i) (?G ! i)" if "i < length ?G" for i
    proof (cases "i < length G")
      case True
      then show ?thesis using data by (auto simp: dir_data_def nth_append)
    next
      case False
      then have "pk_rel p" "i = length G" using that by (auto split: if_splits)
      moreover from this have "S ! i = last S"
        using rel(2) by (metis diff_Suc_1 last_conv_nth length_0_conv nat.distinct(1))
      ultimately show ?thesis using rel by simp
    qed
    moreover have "Suc (pk_seq q) = unat (last_reliable_sequence X) \<and> length S = Suc (length ?G) \<and>
        begins (last S) (pk_payload q)" if q: "q \<in> P" "pk_rel q" "fresh ?Y q" for q
    proof -
      have *: "Suc (pk_seq q) = unat (last_reliable_sequence X)" "length S = Suc (length G)"
          "begins (last S) (pk_payload q)"
        using data q(1,2) fresh(1) [OF q(3)] by (auto simp: dir_data_def)
      moreover have "\<not> pk_rel p" using rel(1) * fresh(2) [OF q(3)] by auto
      ultimately show ?thesis by simp
    qed
    ultimately show ?thesis using data by (auto simp: dir_data_def)
  qed
  have sound: "sound X ?Y (length S) (length ?G) x r" if "sound X Y (length S) (length G) x r" for x r
  proof (cases "pk_rel p")
    case True
    then show ?thesis using that rel(1) [OF True] rel(2) [OF True] iY unfolding sound_def by auto
  next
    case False
    then show ?thesis using that iY unfolding sound_def by auto
  qed
  have a: "dir_acks X ?Y Q S ?G"
  proof (rule dir_acksI, goal_cases)
    case 1
    show ?case by (rule sound [OF dir_acksD(1) [OF acks]])
  next
    case (2 x)
    then show ?case using dir_acksD(2) [OF acks] by simp
  next
    case (3 x)
    then show ?case by (intro sound dir_acksD(3) [OF acks])
  next
    case (4 x)
    then show ?case by (intro dir_acksD(4) [OF acks])
  next
    case (5 x y)
    then show ?case by (rule dir_acksD(5) [OF acks])
  qed
  from b d a show ?thesis by (simp add: dir_inv_def)
qed

subsection \<open>The receiver transmits\<close>

lemma dir_Y_sends:
  assumes inv: "dir_inv X Y P Q S G" and lim: "unat (outgoing_sequence Y) < 2 ^ 31 - 1"
  shows "dir_inv X (sent_chan now Y) P (insert (sent_packet Y bytes) Q) S G"
proof -
  let ?Y = "sent_chan now Y" and ?q = "sent_packet Y bytes"
  from inv have bits: "dir_bits X Y S G" and data: "dir_data X Y P S G" and acks: "dir_acks X Y Q S G"
    by (simp_all add: dir_inv_def)
  note [simp] = unat_Suc_seq [OF lim]
  have len: "length S = length G \<or> length S = Suc (length G)"
    using bits by (auto simp: dir_bits_def)
  have rack: "pk_rack ?q = odd (length G)"
    using bits by (simp add: dir_bits_def)
  have same: "sound X ?Y n m x r = sound X Y n m x r" for n m x r
    by (simp add: sound_def)
  have new: "sound X Y (length S) (length G) (pk_ack ?q) (pk_rack ?q)"
    using rack len by (auto simp: sound_def)
  have "dir_acks X ?Y (insert ?q Q) S G"
  proof (rule dir_acksI, goal_cases)
    case 1
    then show ?case using dir_acksD(1) [OF acks] same by simp
  next
    case (2 q)
    then show ?case using dir_acksD(2) [OF acks, of q] by (cases "q = ?q") auto
  next
    case (3 q)
    then show ?case using dir_acksD(3) [OF acks, of q] new same by (cases "q = ?q") auto
  next
    case (4 q)
    then show ?case
      using dir_acksD(4) [OF acks, of q] rack bits by (cases "q = ?q") (auto simp: dir_bits_def)
  next
    case (5 q q')
    consider "q = ?q" "q' = ?q" | "q = ?q" "q' \<in> Q" "q' \<noteq> ?q" | "q \<noteq> ?q" "q' = ?q" | "q \<in> Q" "q' \<in> Q"
      using 5 by auto
    then show ?case
    proof cases
      case 2
      then have "sound X Y (length S) (length G) (pk_ack q') (pk_rack q')"
        using 5 dir_acksD(3) [OF acks, of q'] by simp
      then show ?thesis using 2 5 rack by (simp add: sound_def)
    next
      case 3
      then have "q \<in> Q" using 5 by simp
      then show ?thesis using 3 5 dir_acksD(2) [OF acks, of q] by simp
    next
      case 4
      then show ?thesis using 5 dir_acksD(5) [OF acks, of q q'] by auto
    qed (use 5 in simp)
  qed
  moreover have "dir_bits X ?Y S G" and "dir_data X ?Y P S G"
    using bits data by (simp_all add: dir_bits_def dir_data_def)
  ultimately show ?thesis by (simp add: dir_inv_def)
qed

subsection \<open>The sender accepts an acknowledgement\<close>

lemma dir_X_receives:
  assumes inv: "dir_inv X Y P Q S G" and q: "q \<in> Q" "fresh X q" "seq_ok (pk_seq q)" "seq_ok (pk_ack q)"
  shows "dir_inv (recv_chan now X q) Y P Q S G"
proof -
  let ?X = "recv_chan now X q"
  from inv have bits: "dir_bits X Y S G" and data: "dir_data X Y P S G" and acks: "dir_acks X Y Q S G"
    by (simp_all add: dir_inv_def)
  have fresh: "fresh X x" "pk_seq q < pk_seq x" if "fresh ?X x" for x
    using that q by (simp_all add: fresh_def unat_seq)
  have rseq: "reliable_sequence X = of_bool (odd (length S))"
    using bits by (simp add: dir_bits_def)
  have snd: "sound X Y (length S) (length G) (pk_ack q) (pk_rack q)"
    using dir_acksD(3) [OF acks] q by simp
  have acked: "pk_rack q = odd (length S)" if "reliable_size ?X = 0"
  proof (cases "reliable_size X = 0")
    case True
    then show ?thesis using dir_acksD(4) [OF acks] q by simp
  next
    case False
    then show ?thesis using that rseq by (simp split: if_splits)
  qed
  have same: "sound ?X Y n m x r = sound X Y n m x r" for n m x r
    by (simp add: sound_def)
  have b: "dir_bits ?X Y S G"
  proof (cases "reliable_size ?X = 0")
    case True
    have "pk_rack q = odd (length S)" by (rule acked [OF True])
    moreover from this have "length G = length S" using snd by (simp add: sound_def)
    ultimately show ?thesis using bits True by (simp add: dir_bits_def del: recv_chan_simps(10))
  next
    case False
    then have "reliable_size ?X = reliable_size X"
      by (auto simp only: recv_chan_simps split: if_splits)
    moreover from this False have "reliable_size X \<noteq> 0" by simp
    ultimately show ?thesis
      using bits by (simp add: dir_bits_def reliable_payload_def del: recv_chan_simps(10))
  qed
  have a: "dir_acks ?X Y Q S G"
  proof (rule dir_acksI, goal_cases)
    case 1
    then show ?case using snd same q by (simp add: unat_seq)
  next
    case (2 x)
    then show ?case using dir_acksD(2) [OF acks] by simp
  next
    case (3 x)
    then show ?case using dir_acksD(3) [OF acks] fresh same by simp
  next
    case (4 x)
    note f = fresh [OF 4(3)] and a = acked [OF 4(1)]
    show ?case by (rule dir_acksD(5) [OF acks 4(2) q(1,2) less_imp_le [OF f(2)] a])
  next
    case (5 x y)
    then show ?case using dir_acksD(5) [OF acks, of x y] fresh by simp
  qed
  from b a data show ?thesis by (simp add: dir_inv_def dir_data_def)
qed

subsection \<open>Message and error updates\<close>

lemma wf_chan_message:
  "wf_chan c \<Longrightarrow> Mem_WriteBuffer bs (message c) = Inr m \<Longrightarrow> wf_chan (c\<lparr>message := m\<rparr>)"
proof -
  assume wf: "wf_chan c" and m: "Mem_WriteBuffer bs (message c) = Inr m"
  let ?b = "message c"
  have b: "wf_buf ?b" "max_size ?b = CHAN_BUFFER" "allow_overflow ?b"
    using wf by (simp_all add: wf_chan_def)
  have "wf_buf m \<and> max_size m = CHAN_BUFFER \<and> allow_overflow m"
  proof (cases "buf_size ?b + length bs \<le> max_size ?b")
    case True
    then show ?thesis using m b wf_appended [of ?b bs] by (simp add: Mem_WriteBuffer_fits) auto
  next
    case False
    then have "length bs \<le> max_size ?b"
      using m Mem_WriteBuffer_abort [of ?b bs] by fastforce
    then show ?thesis
      using False m b by (auto simp: Mem_WriteBuffer_overflow wf_buf_def Mem_ClearBuffer_def)
  qed
  then show ?thesis using wf by (simp add: wf_chan_def)
qed

lemma wf_chan_fatal_error [simp]: "wf_chan (c\<lparr>fatal_error := b\<rparr>) = wf_chan c"
  by (simp add: wf_chan_def)

lemma dir_inv_message [simp]:
  "dir_inv (X\<lparr>message := m\<rparr>) Y P Q S G = dir_inv X Y P Q S G"
  "dir_inv X (Y\<lparr>message := m\<rparr>) P Q S G = dir_inv X Y P Q S G"
  by (simp_all add: dir_inv_def dir_bits_def dir_data_def dir_acks_def sound_def fresh_def
      reliable_payload_def)

lemma dir_inv_fatal_error [simp]:
  "dir_inv (X\<lparr>fatal_error := b\<rparr>) Y P Q S G = dir_inv X Y P Q S G"
  "dir_inv X (Y\<lparr>fatal_error := b\<rparr>) P Q S G = dir_inv X Y P Q S G"
  by (simp_all add: dir_inv_def dir_bits_def dir_data_def dir_acks_def sound_def fresh_def
      reliable_payload_def)

lemma dir_inv_Setup:
  "dir_inv (Netchan_Setup now s adr qp) (Netchan_Setup now' s' adr' qp') {} {} [] []"
  by (simp add: dir_inv_def dir_bits_def dir_data_def dir_acks_def sound_def Netchan_Setup_def is_bit_def)

section \<open>The invariant of a link\<close>

definition packets :: "link \<Rightarrow> net_src \<Rightarrow> packet set" where
  "packets l s = packet_of s ` set (net l s)"

definition end_inv :: "uint8 \<Rightarrow> link \<Rightarrow> net_src \<Rightarrow> bool" where
  "end_inv q l s \<longleftrightarrow> wf_chan (chan l s) \<and> source (chan l s) = s \<and> qport (chan l s) = q \<and>
     seq_ok (unat (outgoing_sequence (chan l s))) \<and> (\<forall>bs \<in> set (net l s). genuine s q bs)"

definition way_inv :: "link \<Rightarrow> net_src \<Rightarrow> bool" where
  "way_inv l s \<longleftrightarrow> dir_inv (chan l s) (chan l (peer s)) (packets l s) (packets l (peer s))
     (staged l s) (got l (peer s))"

definition link_inv :: "uint8 \<Rightarrow> link \<Rightarrow> bool" where
  "link_inv q l \<longleftrightarrow> (\<forall>s. end_inv q l s \<and> way_inv l s)"

lemma link_inv_start: "link_inv qp (link_init now adr qp)"
  using wf_Setup dir_inv_Setup
  by (auto simp: link_inv_def end_inv_def way_inv_def link_init_def packets_def seq_ok_def)
     (simp_all add: Netchan_Setup_def)

lemma all_peer: "(\<forall>t. P t) \<longleftrightarrow> P s \<and> P (peer s)"
  by (metis (full_types) net_src.exhaust peer.simps)

lemma link_inv_both:
  "link_inv q l \<longleftrightarrow> end_inv q l s \<and> end_inv q l (peer s) \<and> way_inv l s \<and> way_inv l (peer s)"
  unfolding link_inv_def by (subst all_peer [of _ s]) auto

lemma link_inv_queue:
  assumes inv: "link_inv q l" and m: "Mem_WriteBuffer bs (message (chan l s)) = Inr m"
  shows "link_inv q (queued s m l)"
  using inv m wf_chan_message [OF _ m]
  by (simp add: queued_def link_inv_both [of _ _ s] end_inv_def way_inv_def packets_def)

lemma seq_ok_le: "seq_ok n \<Longrightarrow> m \<le> n \<Longrightarrow> seq_ok m"
  by (simp add: seq_ok_def)

lemma Transmit_cases:
  assumes "wf_chan c" and "Netchan_Transmit now c bytes = Inr (c', d)"
  obtains (overflow) "overflowed (message c)" "c' = c\<lparr>fatal_error := True\<rparr>" "d = None"
  | (sent) "\<not> overflowed (message c)" "c' = sent_chan now c"
      "d = Some (packet_bytes (source c) (qport c) (sent_packet c bytes))"
proof (cases "overflowed (message c)")
  case True
  then show ?thesis using assms overflow by (simp add: Netchan_Transmit_def)
next
  case False
  then show ?thesis using assms sent Transmit_sends [OF assms(1) False] by simp
qed

lemma link_inv_transmit:
  assumes inv: "link_inv q l" and lim: "unat (outgoing_sequence (chan l s)) < 2 ^ 31 - 1"
    and T: "Netchan_Transmit now (chan l s) bytes = Inr (c, d)"
  shows "link_inv q (transmitted s c d l)"
proof -
  have e: "end_inv q l s" "end_inv q l (peer s)" and w: "way_inv l s" "way_inv l (peer s)"
    using inv by (simp_all add: link_inv_both [of _ _ s])
  have wf: "wf_chan (chan l s)" using e by (simp add: end_inv_def)
  from wf T show ?thesis
  proof (cases rule: Transmit_cases)
    case overflow
    then show ?thesis
      using e w by (simp add: transmitted_def link_inv_both [of _ _ s] end_inv_def way_inv_def packets_def)
  next
    case sent
    let ?c = "chan l s" and ?p = "sent_packet (chan l s) bytes"
    let ?bs = "packet_bytes s q ?p"
    have src: "source ?c = s" "qport ?c = q" using e by (simp_all add: end_inv_def)
    have "unat (incoming_sequence ?c) < unat (outgoing_sequence (chan l (peer s)))"
      using w by (simp add: way_inv_def dir_inv_def dir_bits_def)
    then have ok: "seq_ok (pk_seq ?p)" "seq_ok (pk_ack ?p)"
      using e by (auto simp: end_inv_def intro: seq_ok_le)
    have len: "length ?bs \<le> MAX_MSG_SIZE"
      using length_sent_packet [OF wf, of bytes] src by simp
    have p: "packet_of s ?bs = ?p" and g: "genuine s q ?bs"
      using packet_of_bytes [OF len ok] genuine_packet_bytes [OF len ok] by simp_all
    have "seq_ok (unat (outgoing_sequence ?c + 1))"
      using lim by (simp add: unat_Suc_seq seq_ok_def)
    then show ?thesis
      using sent src e w g p wf_sent_chan [OF wf] dir_X_sends [OF _ wf lim] dir_Y_sends [OF _ lim]
      by (simp add: transmitted_def link_inv_both [of _ _ s] end_inv_def way_inv_def packets_def)
  qed
qed

lemma Process_cases:
  assumes g: "genuine src q bs" and src: "source c \<noteq> src"
    and P: "Netchan_Process now c (datagram_in bs) = (ok, c', msg)"
  obtains (stale) "\<not> ok" "c' = c" "pk_seq (packet_of src bs) \<le> unat (incoming_sequence c)"
  | (accepted) "ok" "c' = recv_chan now c (packet_of src bs)" "fresh c (packet_of src bs)"
      "unread msg = pk_payload (packet_of src bs)"
proof -
  let ?p = "packet_of src bs"
  have g': "bs = packet_bytes src q ?p" "length bs \<le> MAX_MSG_SIZE" "seq_ok (pk_seq ?p)" "seq_ok (pk_ack ?p)"
    using g by (auto simp: genuine_def)
  have "contents (datagram_in bs) = packet_bytes src q ?p"
    using contents_datagram_in g' by metis
  note Pr = Process_packet [OF this src g'(3,4)]
  show ?thesis
  proof (cases "pk_seq ?p \<le> unat (incoming_sequence c)")
    case True
    then show ?thesis using stale P Pr(1) [of now] by simp
  next
    case False
    then show ?thesis using accepted P Pr(1) [of now] Pr(2) by (simp add: fresh_def)
  qed
qed

lemma xor_1_neq [simp]: "(w :: uint32) XOR 1 \<noteq> w"
proof
  assume "w XOR 1 = w"
  then have "w XOR (w XOR 1) = w XOR w" by simp
  then show False by (simp add: xor.assoc [symmetric])
qed

lemma link_inv_receive:
  assumes inv: "link_inv q l" and bs: "bs \<in> set (net l (peer s))"
    and P: "Netchan_Process now (chan l s) (datagram_in bs) = (ok, c, msg)"
  shows "link_inv q (received s ok c msg l)"
proof -
  have e: "end_inv q l s" "end_inv q l (peer s)" and w: "way_inv l s" "way_inv l (peer s)"
    using inv by (simp_all add: link_inv_both [of _ _ s])
  let ?c = "chan l s" and ?p = "packet_of (peer s) bs"
  have g: "genuine (peer s) q bs" and src: "source ?c \<noteq> peer s"
    using e bs by (simp_all add: end_inv_def)
  from g src P show ?thesis
  proof (cases rule: Process_cases)
    case stale
    then show ?thesis using e w by (simp add: received_def link_inv_both [of _ _ s] end_inv_def way_inv_def packets_def)
  next
    case accepted
    have ok: "seq_ok (pk_seq ?p)" "seq_ok (pk_ack ?p)" and p: "?p \<in> packets l (peer s)"
      using g bs by (simp_all add: genuine_def packets_def)
    have "incoming_reliable_sequence c \<noteq> incoming_reliable_sequence ?c \<longleftrightarrow> pk_rel ?p"
      using accepted by simp
    moreover have "way_inv (received s ok c msg l) (peer s)"
      using accepted calculation w(2) dir_Y_receives [OF _ p accepted(3) ok(1)]
      by (cases "pk_rel ?p") (force simp add: received_def way_inv_def packets_def)+
    moreover have "way_inv (received s ok c msg l) s"
      using accepted(2) w(1) dir_X_receives [OF _ p accepted(3) ok]
      by (simp add: received_def way_inv_def packets_def)
    ultimately show ?thesis
      using accepted e wf_recv_chan
      by (simp add: link_inv_both [of _ _ s]) (simp add: received_def end_inv_def)
  qed
qed

lemma link_inv_step: "link_step l l' \<Longrightarrow> link_inv q l \<Longrightarrow> link_inv q l'"
  by (induction rule: link_step.induct)
     (simp_all only: link_inv_queue link_inv_transmit link_inv_receive)

lemma link_reachable_inv: "link_reachable l \<Longrightarrow> \<exists>q. link_inv q l"
  by (induction rule: link_reachable.induct) (blast intro: link_inv_start link_inv_step)+

section \<open>What a reachable link guarantees\<close>

lemma link_delivered:
  assumes "link_reachable l"
  shows "length (got l (peer s)) \<le> length (staged l s)"
    and "length (staged l s) \<le> Suc (length (got l (peer s)))"
    and "i < length (got l (peer s)) \<Longrightarrow> begins (staged l s ! i) (got l (peer s) ! i)"
    and "reliable_size (chan l s) = 0 \<Longrightarrow> length (got l (peer s)) = length (staged l s)"
  using link_reachable_inv [OF assms]
  by (auto simp: link_inv_def way_inv_def dir_inv_def dir_bits_def dir_data_def)

lemma link_transmits:
  assumes "link_reachable l"
  shows "\<exists>c d. Netchan_Transmit now (chan l s) bytes = Inr (c, d)"
proof -
  have "wf_chan (chan l s)" using link_reachable_inv [OF assms] by (auto simp: link_inv_def end_inv_def)
  then show ?thesis
    using Transmit_sends [of "chan l s"] by (cases "overflowed (message (chan l s))")
      (auto simp: Netchan_Transmit_def)
qed

subsection \<open>A datagram that is not lost\<close>

text \<open>\<open>arrives s now now' bytes l\<close>: side \<open>s\<close> transmits, and its peer receives that datagram.\<close>

definition arrives :: "net_src \<Rightarrow> uint32 \<Rightarrow> uint32 \<Rightarrow> byte list \<Rightarrow> link \<Rightarrow> link result" where
  "arrives s now now' bytes l =
     bindE (Netchan_Transmit now (chan l s) bytes) (\<lambda>(c, d).
       let l = transmitted s c d l in
       case d of
         None \<Rightarrow> Inr l
       | Some bs \<Rightarrow> (case Netchan_Process now' (chan l (peer s)) (datagram_in bs) of
           (ok, c, msg) \<Rightarrow> Inr (received (peer s) ok c msg l)))"

lemma Transmit_Process:
  assumes "link_reachable l" and "unat (outgoing_sequence (chan l s)) < 2 ^ 31 - 1"
    and "\<not> overflowed (message (chan l s))"
  obtains bs msg where
    "Netchan_Transmit now (chan l s) bytes = Inr (sent_chan now (chan l s), Some bs)"
    "Netchan_Process now' (chan l (peer s)) (datagram_in bs) =
       (True, recv_chan now' (chan l (peer s)) (sent_packet (chan l s) bytes), msg)"
    "unread msg = pk_payload (sent_packet (chan l s) bytes)"
    "wf_chan (chan l s)"
proof -
  obtain q where inv: "link_inv q l" using link_reachable_inv [OF assms(1)] ..
  let ?c = "chan l s" and ?p = "sent_packet (chan l s) bytes"
  let ?bs = "packet_bytes s q ?p" and ?d = "chan l (peer s)"
  have e: "end_inv q l s" "end_inv q l (peer s)" and w: "way_inv l s" "way_inv l (peer s)"
    using inv by (simp_all add: link_inv_both [of _ _ s])
  have src: "source ?c = s" "qport ?c = q" "wf_chan ?c" "source ?d \<noteq> s"
    using e by (simp_all add: end_inv_def)
  have lt: "unat (incoming_sequence ?c) < unat (outgoing_sequence ?d)"
      "unat (incoming_sequence ?d) < unat (outgoing_sequence ?c)"
    using w by (simp_all add: way_inv_def dir_inv_def dir_bits_def)
  then have ok: "seq_ok (pk_seq ?p)" "seq_ok (pk_ack ?p)"
    using e by (auto simp: end_inv_def intro: seq_ok_le)
  have len: "length ?bs \<le> MAX_MSG_SIZE"
    using length_sent_packet [OF src(3), of bytes] src by simp
  have c: "contents (datagram_in ?bs) = packet_bytes s q ?p"
    by (rule contents_datagram_in [OF len])
  show thesis
  proof
    show "Netchan_Transmit now ?c bytes = Inr (sent_chan now ?c, Some ?bs)"
      using Transmit_sends [OF src(3) assms(3)] src by simp
    show "Netchan_Process now' ?d (datagram_in ?bs) =
        (True, recv_chan now' ?d ?p, after_header s (datagram_in ?bs))"
      using Process_packet(1) [OF c src(4) ok] lt by simp
    show "unread (after_header s (datagram_in ?bs)) = pk_payload ?p"
      using Process_packet(2) [OF c src(4) ok] .
  qed (rule src)
qed

lemma arrives_received:
  assumes "link_reachable l" and "unat (outgoing_sequence (chan l s)) < 2 ^ 31 - 1"
    and "\<not> overflowed (message (chan l s))"
  obtains l' where "arrives s now now' bytes l = Inr l'" "link_reachable l'"
    "chan l' = (chan l)(s := sent_chan now (chan l s),
       peer s := recv_chan now' (chan l (peer s)) (sent_packet (chan l s) bytes))"
    "got l' = (got l)(peer s := got l (peer s) @
       (if Netchan_NeedReliable (chan l s) then [pk_payload (sent_packet (chan l s) bytes)] else []))"
    "staged l' = (staged l)(s := staged l s @
       (if stages (chan l s) then [contents (message (chan l s))] else []))"
proof -
  let ?p = "sent_packet (chan l s) bytes" and ?c' = "sent_chan now (chan l s)"
  let ?d' = "recv_chan now' (chan l (peer s)) ?p"
  obtain bs msg where
    T: "Netchan_Transmit now (chan l s) bytes = Inr (?c', Some bs)" and
    P: "Netchan_Process now' (chan l (peer s)) (datagram_in bs) = (True, ?d', msg)" and
    m: "unread msg = pk_payload ?p"
    using assms by (rule Transmit_Process)
  let ?l1 = "transmitted s ?c' (Some bs) l"
  let ?l2 = "received (peer s) True ?d' msg ?l1"
  have c1: "chan ?l1 (peer s) = chan l (peer s)" and n1: "bs \<in> set (net ?l1 s)"
    by (simp_all add: transmitted_def)
  have "link_step l ?l1" by (rule link_step.transmit [OF assms(2) T])
  moreover have "link_step ?l1 ?l2"
    by (rule link_step.receive [where bs = bs]) (use P c1 n1 in simp_all)
  ultimately have r: "link_reachable ?l2"
    using assms(1) by (blast intro: link_reachable.step)
  have "arrives s now now' bytes l = Inr ?l2"
    using T P c1 by (simp add: arrives_def Let_def)
  then show thesis
    using r m c1 by (intro that [of ?l2]) (auto simp: received_def transmitted_def)
qed

lemma staged_message_arrives:
  assumes "link_reachable l" and "unat (outgoing_sequence (chan l s)) < 2 ^ 31 - 1"
    and "\<not> overflowed (message (chan l s))" and "stages (chan l s)"
  shows "\<exists>l' u. arrives s now now' bytes l = Inr l' \<and> link_reachable l' \<and>
    staged l' s = staged l s @ [contents (message (chan l s))] \<and>
    got l' (peer s) = got l (peer s) @ [contents (message (chan l s)) @ u]"
proof -
  have "wf_chan (chan l s)"
    using link_reachable_inv [OF assms(1)] by (auto simp: link_inv_def end_inv_def)
  then have rp: "reliable_payload (stage (chan l s)) = contents (message (chan l s))"
    using reliable_payload_stage assms(4) by simp
  moreover have need: "Netchan_NeedReliable (chan l s)" using assms(4) by (simp add: need_iff)
  ultimately obtain u where u: "pk_payload (sent_packet (chan l s) bytes) = contents (message (chan l s)) @ u"
    using payload_sent [OF need, of bytes] by (auto simp: begins_def)
  obtain l' where "arrives s now now' bytes l = Inr l'" "link_reachable l'"
    "got l' = (got l)(peer s := got l (peer s) @
       (if Netchan_NeedReliable (chan l s) then [pk_payload (sent_packet (chan l s) bytes)] else []))"
    "staged l' = (staged l)(s := staged l s @
       (if stages (chan l s) then [contents (message (chan l s))] else []))"
    using assms(1-3) by (rule arrives_received)
  then show ?thesis using u need assms(4) by auto
qed

lemma ack_arrives:
  assumes "link_reachable l" and "unat (outgoing_sequence (chan l (peer s))) < 2 ^ 31 - 1"
    and "\<not> overflowed (message (chan l (peer s)))"
    and "length (got l (peer s)) = length (staged l s)"
  shows "\<exists>l'. arrives (peer s) now now' bytes l = Inr l' \<and> link_reachable l' \<and>
    Netchan_CanReliable (chan l' s)"
proof -
  have "way_inv l s" using link_reachable_inv [OF assms(1)] by (auto simp: link_inv_def)
  then have "reliable_sequence (chan l s) = of_bool (odd (length (staged l s)))"
    "incoming_reliable_sequence (chan l (peer s)) = of_bool (odd (length (got l (peer s))))"
    by (simp_all add: way_inv_def dir_inv_def dir_bits_def)
  moreover obtain l' where "arrives (peer s) now now' bytes l = Inr l'" "link_reachable l'"
    "chan l' = (chan l)(peer s := sent_chan now (chan l (peer s)),
       peer (peer s) := recv_chan now' (chan l (peer (peer s))) (sent_packet (chan l (peer s)) bytes))"
    using assms(1-3) by (rule arrives_received)
  ultimately show ?thesis using assms(4) by (auto simp: Netchan_CanReliable_def)
qed

subsection \<open>A concrete link\<close>

definition idle_link :: link where
  "idle_link = link_init (\<lambda>_. 0) (\<lambda>_. \<lparr>addr_type = NA_LOOP, addr = 0, port = 0\<rparr>) 7"

lemma idle_reachable: "link_reachable idle_link"
  unfolding idle_link_def by (rule link_reachable.start)

text \<open>A link on which the client has queued a message of two bytes.\<close>

definition queued_link :: link where
  "queued_link = queued NS_UDP_CLIENT (appended [1, 2] (message (chan idle_link NS_UDP_CLIENT))) idle_link"

lemma queued_reachable: "link_reachable queued_link"
proof -
  have "Mem_WriteBuffer [1, 2] (message (chan idle_link NS_UDP_CLIENT)) =
      Inr (appended [1, 2] (message (chan idle_link NS_UDP_CLIENT)))"
    by (rule Mem_WriteBuffer_fits)
       (simp add: idle_link_def link_init_def Netchan_Setup_def Mem_InitBuffer_def CHAN_BUFFER_eq)
  then show ?thesis
    unfolding queued_link_def by (rule link_reachable.step [OF idle_reachable link_step.queue])
qed

lemma queued_link_simps:
  "contents (message (chan queued_link NS_UDP_CLIENT)) = [1, 2]"
  "\<not> overflowed (message (chan queued_link NS_UDP_CLIENT))"
  "\<not> overflowed (message (chan queued_link NS_UDP_SERVER))"
  "stages (chan queued_link NS_UDP_CLIENT)"
  "outgoing_sequence (chan queued_link s) = 1"
  "staged queued_link s = []" "got queued_link s = []"
proof -
  have r: "replicate CHAN_BUFFER (0 :: byte) = 0 # 0 # replicate 1382 0"
    using replicate_Suc [of 1383 "0 :: byte"] replicate_Suc [of 1382 "0 :: byte"] by (simp add: CHAN_BUFFER_eq)
  show "contents (message (chan queued_link NS_UDP_CLIENT)) = [1, 2]"
    by (simp add: queued_link_def queued_def idle_link_def link_init_def Netchan_Setup_def
        Mem_InitBuffer_def contents_def appended_def store_at_def r)
qed (simp_all add: queued_link_def queued_def idle_link_def link_init_def Netchan_Setup_def
        Mem_InitBuffer_def stages_def)

section \<open>Any datagram at all\<close>

lemma drop_bit_31: "drop_bit 31 (w :: uint32) = of_bool (bit w 31)"
proof (rule bit_word_eqI)
  fix n assume "n < LENGTH(32)"
  show "bit (drop_bit 31 w) n = bit (of_bool (bit w 31) :: uint32) n"
    using bit_imp_le_length [of w "31 + n"] by (cases n) (auto simp: bit_simps)
qed

lemma Process_outcome:
  "wf_chan c \<Longrightarrow> Netchan_Process now c msg = (ok, c', msg') \<Longrightarrow>
   wf_chan c' \<and> (if ok then incoming_sequence c < incoming_sequence c' else c' = c)"
  by (auto simp: Netchan_Process_def Let_def wf_chan_def is_bit_xor drop_bit_31
      split: prod.splits if_splits simp del: of_bool_eq_1)

section \<open>Properties\<close>

text \<open>
  C1: On a network that loses, repeats and reorders datagrams, the reliable messages a side
  has staged reach the other side in order and exactly once. What the receiver was given
  with its \<open>i\<close>th reliable packet begins with the \<open>i\<close>th message staged, at most the last
  one is outstanding, and none is when \<open>Netchan_CanReliable\<close> holds.
\<close>

theorem reliable_in_order:
  assumes "link_reachable l"
  shows "length (got l (peer s)) \<le> length (staged l s) \<and>
    length (staged l s) \<le> Suc (length (got l (peer s))) \<and>
    (Netchan_CanReliable (chan l s) \<longrightarrow> length (got l (peer s)) = length (staged l s)) \<and>
    (\<forall>i < length (got l (peer s)). begins (staged l s ! i) (got l (peer s) ! i))"
  using link_delivered [OF assms] by (simp add: Netchan_CanReliable_def)

theorem reliable_in_order_witness:
  "\<exists>l. link_reachable l \<and> staged l NS_UDP_CLIENT = [[1, 2]] \<and>
     length (got l NS_UDP_SERVER) = 1 \<and> begins [1, 2] (got l NS_UDP_SERVER ! 0)"
proof -
  obtain l u where l: "link_reachable l" "staged l NS_UDP_CLIENT = [[1, 2]]"
    "got l NS_UDP_SERVER = [[1, 2] @ u]"
    using staged_message_arrives [OF queued_reachable, of NS_UDP_CLIENT 5 6 "[9]"]
    by (auto simp: queued_link_simps)
  then show ?thesis using reliable_in_order [OF l(1), of NS_UDP_CLIENT] by auto
qed

text \<open>
  C5: A reliable message is delivered and acknowledged in one round trip. When both sides'
  next datagrams get through, the peer is given the message and whatever unreliable data
  fits behind it, and the sender can send the next reliable message.
\<close>

theorem reliable_round_trip:
  assumes "link_reachable l" and "stages (chan l s)"
    and "unat (outgoing_sequence (chan l s)) < 2 ^ 31 - 1"
    and "unat (outgoing_sequence (chan l (peer s))) < 2 ^ 31 - 1"
    and "\<not> overflowed (message (chan l s))" and "\<not> overflowed (message (chan l (peer s)))"
  shows "\<exists>l1 l2 u. arrives s t1 t2 bytes l = Inr l1 \<and> arrives (peer s) t3 t4 bytes' l1 = Inr l2 \<and>
    got l1 (peer s) = got l (peer s) @ [contents (message (chan l s)) @ u] \<and>
    Netchan_CanReliable (chan l2 s)"
proof -
  obtain l1 where l1: "arrives s t1 t2 bytes l = Inr l1" "link_reachable l1"
    "chan l1 = (chan l)(s := sent_chan t1 (chan l s),
       peer s := recv_chan t2 (chan l (peer s)) (sent_packet (chan l s) bytes))"
    using assms(1,3,5) by (rule arrives_received)
  obtain u where u: "staged l1 s = staged l s @ [contents (message (chan l s))]"
    "got l1 (peer s) = got l (peer s) @ [contents (message (chan l s)) @ u]"
    using staged_message_arrives [OF assms(1,3,5,2), of t1 t2 bytes] l1(1) by auto
  have "length (got l1 (peer s)) = length (staged l1 s)"
    using u link_delivered(4) [OF assms(1), of s] not_stages_size [OF assms(2)] by simp
  then have "\<exists>l2. arrives (peer s) t3 t4 bytes' l1 = Inr l2 \<and> link_reachable l2 \<and>
      Netchan_CanReliable (chan l2 s)"
    using l1 assms by (intro ack_arrives) simp_all
  then show ?thesis using l1 u by auto
qed

theorem reliable_round_trip_witness:
  "\<exists>l1 l2 u. arrives NS_UDP_CLIENT 1 2 [9] queued_link = Inr l1 \<and>
     arrives (peer NS_UDP_CLIENT) 3 4 [8] l1 = Inr l2 \<and>
     got l1 (peer NS_UDP_CLIENT) = [[1, 2] @ u] \<and> Netchan_CanReliable (chan l2 NS_UDP_CLIENT)"
  using reliable_round_trip [OF queued_reachable, of NS_UDP_CLIENT 1 2 "[9]" 3 4 "[8]"]
  by (simp add: queued_link_simps)

text \<open>
  C6: For a well-formed channel no call aborts, whatever datagram arrives: transmitting
  returns a datagram of at most \<open>MAX_MSG_SIZE\<close> bytes, or flags the channel when its message
  buffer has overflowed, and the channel stays well-formed. A datagram is accepted only with
  a higher sequence number than all before it, and leaves the channel alone otherwise.
\<close>

theorem channel_total:
  assumes "wf_chan c"
  shows "(\<exists>c' d. Netchan_Transmit now c bytes = Inr (c', d) \<and> wf_chan c' \<and>
      (case d of None \<Rightarrow> overflowed (message c) \<and> fatal_error c'
       | Some bs \<Rightarrow> \<not> overflowed (message c) \<and> length bs \<le> MAX_MSG_SIZE)) \<and>
    (\<exists>ok c' msg'. Netchan_Process now c msg = (ok, c', msg') \<and> wf_chan c' \<and>
      (if ok then incoming_sequence c < incoming_sequence c' else c' = c))"
proof
  show "\<exists>c' d. Netchan_Transmit now c bytes = Inr (c', d) \<and> wf_chan c' \<and>
      (case d of None \<Rightarrow> overflowed (message c) \<and> fatal_error c'
       | Some bs \<Rightarrow> \<not> overflowed (message c) \<and> length bs \<le> MAX_MSG_SIZE)"
    using assms Transmit_sends [OF assms] wf_sent_chan [OF assms] length_sent_packet [OF assms]
    by (cases "overflowed (message c)") (auto simp: Netchan_Transmit_def)
  show "\<exists>ok c' msg'. Netchan_Process now c msg = (ok, c', msg') \<and> wf_chan c' \<and>
      (if ok then incoming_sequence c < incoming_sequence c' else c' = c)"
    using Process_outcome [OF assms, of now msg] by (metis prod_cases3)
qed

theorem channel_total_witness:
  "\<exists>c' bs. Netchan_Transmit 9 (chan idle_link NS_UDP_SERVER) [1] = Inr (c', Some bs) \<and>
     wf_chan c' \<and> length bs \<le> MAX_MSG_SIZE"
proof -
  have "wf_chan (chan idle_link NS_UDP_SERVER)" "\<not> overflowed (message (chan idle_link NS_UDP_SERVER))"
    by (simp_all add: idle_link_def link_init_def wf_Setup)
       (simp add: Netchan_Setup_def Mem_InitBuffer_def)
  moreover from this obtain c' d where "Netchan_Transmit 9 (chan idle_link NS_UDP_SERVER) [1] = Inr (c', d)"
      "wf_chan c'" "case d of None \<Rightarrow> overflowed (message (chan idle_link NS_UDP_SERVER)) \<and> fatal_error c'
        | Some bs \<Rightarrow> \<not> overflowed (message (chan idle_link NS_UDP_SERVER)) \<and> length bs \<le> MAX_MSG_SIZE"
    using channel_total [of "chan idle_link NS_UDP_SERVER" 9 "[1]"] by blast
  ultimately show ?thesis by (cases d) simp_all
qed

end
