(* ===== verification/Net_Udp.thy ===== *)
theory Net_Udp
  imports Net_Channel
begin

text \<open>
  \<open>src/net_udp.c\<close>: datagrams between the client and the server of one process go
  through two rings of \<open>MAX_NET_UDP_LOOPS\<close> messages, others through a socket. The
  locale \<open>lossy_queue\<close> says what the loop promises, a queue that drops its oldest
  element when it is full, as long as its counters do not overflow, and is interpreted on the ring. The socket calls are
  parameters: \<open>recvfrom\<close> gives the bytes and the sender of a datagram, or nothing;
  \<open>sendto\<close> says whether the datagram was sent.
\<close>

definition MAX_NET_UDP_LOOPS :: nat where "MAX_NET_UDP_LOOPS = 4"

text \<open>
  A slot holds \<open>size\<close> bytes of its \<open>data\<close>. The counters are of type \<open>int32_t\<close>: words that are
  read as signed. Where \<open>send++\<close> overflows, which C leaves undefined, they wrap around.
\<close>

record net_udp_loop =
  messages :: "byte list list"
  loop_send :: uint32
  loop_recv :: uint32

record net_udp_state =
  loops :: "net_src \<Rightarrow> net_udp_loop"
  sockets :: "net_src \<Rightarrow> int"

definition slot :: "uint32 \<Rightarrow> nat" where
  "slot i = unat (i AND (word_of_nat MAX_NET_UDP_LOOPS - 1))"

text \<open>\<open>source ^ 1\<close>\<close>

fun other_source :: "net_src \<Rightarrow> net_src" where
  "other_source NS_UDP_CLIENT = NS_UDP_SERVER"
| "other_source NS_UDP_SERVER = NS_UDP_CLIENT"

definition loop_catch_up :: "net_udp_loop \<Rightarrow> net_udp_loop" where
  "loop_catch_up loop =
     (if sint (loop_send loop - loop_recv loop) > int MAX_NET_UDP_LOOPS
      then loop\<lparr>loop_recv := loop_send loop - word_of_nat MAX_NET_UDP_LOOPS\<rparr> else loop)"

definition loop_receive :: "net_udp_loop \<Rightarrow> byte list option \<times> net_udp_loop" where
  "loop_receive loop =
     (let loop = loop_catch_up loop
      in if sint (loop_recv loop) \<ge> sint (loop_send loop) then (None, loop)
         else (Some (messages loop ! slot (loop_recv loop)), loop\<lparr>loop_recv := loop_recv loop + 1\<rparr>))"

definition loop_post :: "byte list \<Rightarrow> net_udp_loop \<Rightarrow> net_udp_loop" where
  "loop_post data loop =
     loop\<lparr>messages := (messages loop)[slot (loop_send loop) := data],
          loop_send := loop_send loop + 1\<rparr>"

definition net_lo :: uint32 where "net_lo = 0x0100007f"

text \<open>\<open>memcpy\<close> of the message into the buffer's data, and its size\<close>

definition Net_ReceiveDatagram_Loop ::
  "net_src \<Rightarrow> net_addr \<Rightarrow> mem_buf \<Rightarrow> net_udp_state
    \<Rightarrow> (bool \<times> net_addr \<times> mem_buf \<times> net_udp_state) result" where
  "Net_ReceiveDatagram_Loop src from buf st =
     (let (d, loop) = loop_receive (loops st src);
          st = st\<lparr>loops := (loops st)(src := loop)\<rparr>
      in case d of
           None \<Rightarrow> Inr (False, from, buf, st)
         | Some bs \<Rightarrow>
             if length bs > length (buf_data buf) then Inl Bad_Access
             else Inr (True, from\<lparr>addr_type := NA_LOOP, addr := net_lo, port := 0\<rparr>,
                       (store_at 0 bs buf)\<lparr>buf_size := length bs\<rparr>, st))"

definition Net_ReceiveDatagram ::
  "(int \<Rightarrow> nat \<Rightarrow> (byte list \<times> uint32 \<times> uint16) option) \<Rightarrow> net_src \<Rightarrow> mem_buf \<Rightarrow> net_udp_state
    \<Rightarrow> (bool \<times> net_addr \<times> mem_buf \<times> net_udp_state) result" where
  "Net_ReceiveDatagram recvfrom src buf st =
     (let buf = buf\<lparr>read_pos := 0, buf_size := 0\<rparr>;
          from = \<lparr>addr_type = NA_DATAGRAM, addr = 0, port = 0\<rparr>
      in bindE (Net_ReceiveDatagram_Loop src from buf st) (\<lambda>(ok, from, buf, st).
           if ok then Inr (True, from, buf, st)
           else if sockets st src = 0 then Inr (False, from, buf, st)
           else case recvfrom (sockets st src) (max_size buf) of
             None \<Rightarrow> Inr (False, from, buf, st)
           | Some (bs, a, p) \<Rightarrow>
               let from = from\<lparr>addr := a, port := p\<rparr>; buf = store_at 0 bs buf
               in if length bs = max_size buf then Inr (False, from, buf, st)
                  else Inr (True, from, buf\<lparr>buf_size := length bs\<rparr>, st)))"

definition Net_SendDatagram_Loop ::
  "net_src \<Rightarrow> byte list \<Rightarrow> net_udp_state \<Rightarrow> (bool \<times> net_udp_state) result" where
  "Net_SendDatagram_Loop src data st =
     (if length data > MAX_MSG_SIZE then Inl Bad_Access
      else let to = other_source src
           in Inr (True, st\<lparr>loops := (loops st)(to := loop_post data (loops st to))\<rparr>))"

definition Net_SendDatagram ::
  "(int \<Rightarrow> net_addr \<Rightarrow> byte list \<Rightarrow> bool) \<Rightarrow> net_src \<Rightarrow> net_addr \<Rightarrow> byte list \<Rightarrow> net_udp_state
    \<Rightarrow> (bool \<times> net_udp_state) result" where
  "Net_SendDatagram sendto src to data st =
     (if addr_type to = NA_LOOP then Net_SendDatagram_Loop src data st
      else if addr_type to = NA_BROADCAST \<or> addr_type to = NA_DATAGRAM
      then (if sockets st src = 0 then Inr (False, st)
            else Inr (sendto (sockets st src) to data, st))
      else Inl (Err_Drop ''Bad address type''))"

text \<open>\<open>Net_Socket\<close> opens a datagram socket; \<open>Net_CloseSocket\<close> has no effect here.\<close>

definition Net_Config ::
  "(net_src \<Rightarrow> int) \<Rightarrow> net_src \<Rightarrow> bool \<Rightarrow> net_udp_state \<Rightarrow> net_udp_state" where
  "Net_Config open_socket src go_up st =
     (if go_up
      then (if sockets st src = 0
            then st\<lparr>sockets := (sockets st)(src := open_socket src)\<rparr> else st)
      else (if sockets st src \<noteq> 0
            then st\<lparr>sockets := (sockets st)(src := 0)\<rparr> else st))"

definition net_udp_start :: net_udp_state where
  "net_udp_start =
     \<lparr>loops = (\<lambda>_. \<lparr>messages = replicate MAX_NET_UDP_LOOPS [], loop_send = 0, loop_recv = 0\<rparr>),
      sockets = (\<lambda>_. 0)\<rparr>"

section \<open>A queue that drops its oldest element\<close>

definition latest :: "nat \<Rightarrow> 'a list \<Rightarrow> 'a list" where
  "latest n xs = drop (length xs - n) xs"

lemma latest_short [simp]: "length xs \<le> n \<Longrightarrow> latest n xs = xs"
  by (simp add: latest_def)

lemma latest_latest: "latest n (latest n xs @ ys) = latest n (xs @ ys)"
proof (cases "length xs \<le> n")
  case True
  then show ?thesis by simp
next
  case False
  then have "length xs + length ys - n = (length xs - n) + length ys" by simp
  with False show ?thesis by (simp add: latest_def not_le add.commute)
qed

locale lossy_queue =
  fixes post :: "'a \<Rightarrow> 'q \<Rightarrow> 'q"
    and take_first :: "'q \<Rightarrow> 'a option \<times> 'q"
    and pending :: "'q \<Rightarrow> 'a list"
    and sane :: "'q \<Rightarrow> bool"
    and capacity :: nat
    and posts_left :: "'q \<Rightarrow> nat"
  assumes post: "sane q \<Longrightarrow> 0 < posts_left q \<Longrightarrow> pending (post x q) = latest capacity (pending q @ [x]) \<and>
      sane (post x q) \<and> posts_left (post x q) = posts_left q - 1"
    and take_first: "sane q \<Longrightarrow> take_first q = (o', q') \<Longrightarrow> sane q' \<and> posts_left q' = posts_left q \<and>
      (case pending q of [] \<Rightarrow> o' = None \<and> pending q' = []
       | x # xs \<Rightarrow> o' = Some x \<and> pending q' = xs)"
    and bounded: "sane q \<Longrightarrow> length (pending q) \<le> capacity"
begin

primrec take_n :: "nat \<Rightarrow> 'q \<Rightarrow> 'a option list \<times> 'q" where
  "take_n 0 q = ([], q)"
| "take_n (Suc n) q = (let (x, q) = take_first q; (xs, q) = take_n n q in (x # xs, q))"

lemma post_all:
  "sane q \<Longrightarrow> length xs \<le> posts_left q \<Longrightarrow> pending (fold post xs q) = latest capacity (pending q @ xs) \<and>
     sane (fold post xs q) \<and> posts_left (fold post xs q) = posts_left q - length xs"
proof (induction xs rule: rev_induct)
  case Nil
  then show ?case using bounded by simp
next
  case (snoc x xs)
  then show ?case
    using post [of "fold post xs q" x] by (simp add: latest_latest flip: append_assoc)
qed

lemma take_all: "sane q \<Longrightarrow> fst (take_n (length (pending q)) q) = map Some (pending q)"
proof (induction "pending q" arbitrary: q)
  case Nil
  then show ?case by simp
next
  case (Cons x xs)
  obtain o' q' where t: "take_first q = (o', q')" by (cases "take_first q")
  then have "sane q'" "o' = Some x" "pending q' = xs"
    using take_first [OF Cons.prems t] Cons.hyps(2) by (simp_all split: list.splits)
  then show ?case
    using t Cons.hyps(1) [of q'] Cons.hyps(2) [symmetric] by (simp add: case_prod_beta Let_def)
qed

lemma take_nothing: "sane q \<Longrightarrow> pending q = [] \<Longrightarrow> fst (take_first q) = None"
  using take_first [of q "fst (take_first q)" "snd (take_first q)"] by simp

end

section \<open>The ring is such a queue\<close>

definition loop_first :: "net_udp_loop \<Rightarrow> int" where
  "loop_first l = max (sint (loop_recv l)) (sint (loop_send l) - int MAX_NET_UDP_LOOPS)"

definition loop_pending :: "net_udp_loop \<Rightarrow> byte list list" where
  "loop_pending l = map (\<lambda>i. messages l ! slot (word_of_int i)) [loop_first l .. sint (loop_send l) - 1]"

definition wf_loop :: "net_udp_loop \<Rightarrow> bool" where
  "wf_loop l \<longleftrightarrow> length (messages l) = MAX_NET_UDP_LOOPS \<and> 0 \<le> sint (loop_recv l) \<and> sint (loop_recv l) \<le> sint (loop_send l)"

text \<open>How many datagrams can be sent before the counter overflows.\<close>

definition loop_left :: "net_udp_loop \<Rightarrow> nat" where
  "loop_left l = nat (2 ^ 31 - 1 - sint (loop_send l))"

lemma sint_of: "- (2 ^ 31) \<le> k \<Longrightarrow> k < 2 ^ 31 \<Longrightarrow> sint (word_of_int k :: uint32) = k"
  using int_word_sint [of k, where 'a = 32] by (simp add: mod_pos_pos_trivial)

lemma sint_small: "- (2 ^ 31) \<le> sint (w :: uint32)" "sint (w :: uint32) < 2 ^ 31"
  using sint_range_size [of w] by (simp_all add: word_size)

lemma sint_inc: "sint (w :: uint32) < 2 ^ 31 - 1 \<Longrightarrow> sint (w + 1) = sint w + 1"
proof -
  assume w: "sint w < 2 ^ 31 - 1"
  have "w + 1 = word_of_int (sint w + 1)" by simp
  then show ?thesis using sint_of [of "sint w + 1"] sint_small(1) [of w] w by simp
qed

lemma sint_diff:
  assumes "0 \<le> sint (a :: uint32)" and "0 \<le> sint (b :: uint32)"
  shows "sint (a - b) = sint a - sint b"
proof -
  have "a - b = word_of_int (sint a - sint b)" by simp
  then show ?thesis using sint_of [of "sint a - sint b"] sint_small(2) [of a] sint_small(2) [of b] assms by simp
qed

lemma slot_mod: "slot (word_of_int i) = nat (i mod 4)"
proof -
  have "(word_of_int i :: uint32) AND 3 = take_bit 2 (word_of_int i)"
    using take_bit_eq_mask [of 2 "word_of_int i :: uint32"] by (simp add: mask_eq_exp_minus_1)
  also have "unat \<dots> = nat (take_bit 2 i)"
    by (simp add: unsigned_take_bit_eq unsigned_of_int take_bit_nat_eq nat_take_bit_eq min_def)
  finally show ?thesis by (simp add: slot_def MAX_NET_UDP_LOOPS_def take_bit_eq_mod)
qed

lemma slot_sint: "slot w = nat (sint w mod 4)"
  using slot_mod [of "sint w"] by simp

lemma slot_less: "slot i < MAX_NET_UDP_LOOPS"
  by (simp add: slot_sint MAX_NET_UDP_LOOPS_def nat_less_iff)

lemma slot_neq: "i < j \<Longrightarrow> j < i + int MAX_NET_UDP_LOOPS \<Longrightarrow> slot (word_of_int i) \<noteq> slot (word_of_int j)"
  unfolding slot_mod MAX_NET_UDP_LOOPS_def by (simp add: eq_nat_nat_iff) presburger

lemma upto_snoc: "i \<le> j \<Longrightarrow> [i .. j] = [i .. j - 1] @ [j]" for i j :: int
  by (rule upto_rec2)

lemma drop_upto: "drop n [i .. j] = [i + int n .. j]"
proof (induction n arbitrary: i)
  case (Suc n)
  then show ?case by (cases "i \<le> j") (simp_all add: upto_rec1 add.assoc)
qed simp

lemma loop_caught_up:
  assumes "wf_loop q"
  shows "sint (loop_recv (loop_catch_up q)) = loop_first q" "loop_send (loop_catch_up q) = loop_send q"
    "messages (loop_catch_up q) = messages q"
proof -
  have w: "0 \<le> sint (loop_recv q)" "sint (loop_recv q) \<le> sint (loop_send q)" using assms by (simp_all add: wf_loop_def)
  have d: "sint (loop_send q - loop_recv q) = sint (loop_send q) - sint (loop_recv q)" using w by (intro sint_diff) simp_all
  have four: "sint (4 :: uint32) = 4" by simp
  have "sint (loop_send q - 4) = sint (loop_send q) - 4" using sint_diff [of "loop_send q" 4] w unfolding four by simp
  then show "sint (loop_recv (loop_catch_up q)) = loop_first q" "loop_send (loop_catch_up q) = loop_send q"
    "messages (loop_catch_up q) = messages q"
    using w by (simp_all add: loop_catch_up_def loop_first_def d MAX_NET_UDP_LOOPS_def)
qed

interpretation loop: lossy_queue loop_post loop_receive loop_pending wf_loop MAX_NET_UDP_LOOPS loop_left
proof
  fix q :: net_udp_loop and x o' q'
  assume wf: "wf_loop q"
  let ?s = "sint (loop_send q)" and ?f = "loop_first q"
  have f: "?f \<le> ?s" "?s - int MAX_NET_UDP_LOOPS \<le> ?f" "0 \<le> ?f"
    using wf by (auto simp: wf_loop_def loop_first_def)
  have len: "length (loop_pending q) = nat (?s - ?f)" by (simp add: loop_pending_def)
  then show "length (loop_pending q) \<le> MAX_NET_UDP_LOOPS" using f by simp
  show "loop_pending (loop_post x q) = latest MAX_NET_UDP_LOOPS (loop_pending q @ [x]) \<and> wf_loop (loop_post x q) \<and>
      loop_left (loop_post x q) = loop_left q - 1" if left: "0 < loop_left q"
  proof (intro conjI)
    have s: "sint (loop_send (loop_post x q)) = ?s + 1"
      using left sint_inc [of "loop_send q"] by (simp add: loop_post_def loop_left_def)
    have first: "loop_first (loop_post x q) = (if ?f = ?s - int MAX_NET_UDP_LOOPS then ?f + 1 else ?f)"
      using wf s by (auto simp: loop_first_def wf_loop_def) (simp_all add: loop_post_def)
    let ?ms = "(messages q)[slot (loop_send q) := x]" and ?at = "\<lambda>i. slot (word_of_int i)"
    have old: "?ms ! ?at i = messages q ! ?at i" if "i \<in> set [loop_first (loop_post x q) .. ?s - 1]" for i
    proof -
      have "i < ?s" "?s < i + int MAX_NET_UDP_LOOPS" using that first f by (auto split: if_splits)
      then show ?thesis using slot_neq [of i ?s] by simp
    qed
    have "?ms ! ?at ?s = x" using wf slot_less by (simp add: wf_loop_def)
    moreover have "loop_first (loop_post x q) \<le> ?s" using first f by (simp add: MAX_NET_UDP_LOOPS_def)
    moreover have "loop_pending (loop_post x q) = map (\<lambda>i. ?ms ! ?at i) [loop_first (loop_post x q) .. ?s]"
      by (simp add: loop_pending_def s) (simp add: loop_post_def)
    ultimately have "loop_pending (loop_post x q) =
        map (\<lambda>i. ?ms ! ?at i) [loop_first (loop_post x q) .. ?s - 1] @ [x]"
      by (simp add: upto_snoc)
    also have "\<dots> = map (\<lambda>i. messages q ! ?at i) [loop_first (loop_post x q) .. ?s - 1] @ [x]"
      by (simp only: map_cong [OF refl old])
    also have "\<dots> = latest MAX_NET_UDP_LOOPS (loop_pending q @ [x])"
      using first f len by (auto simp: latest_def loop_pending_def drop_map drop_upto MAX_NET_UDP_LOOPS_def)
    finally show "loop_pending (loop_post x q) = latest MAX_NET_UDP_LOOPS (loop_pending q @ [x])" .
    show "wf_loop (loop_post x q)" using wf s by (simp add: wf_loop_def) (simp add: loop_post_def)
    show "loop_left (loop_post x q) = loop_left q - 1" using left by (simp add: loop_left_def s)
  qed
  assume t: "loop_receive q = (o', q')"
  note c = loop_caught_up [OF wf]
  have s: "loop_send q' = loop_send q" using t c by (auto simp: loop_receive_def Let_def split: if_splits)
  have "wf_loop q' \<and> (case loop_pending q of [] \<Rightarrow> o' = None \<and> loop_pending q' = []
       | x # xs \<Rightarrow> o' = Some x \<and> loop_pending q' = xs)"
  proof (cases "?s \<le> ?f")
    case True
    then show ?thesis
      using t c wf f by (auto simp: loop_receive_def Let_def loop_pending_def loop_first_def wf_loop_def)
  next
    case False
    have r: "loop_recv (loop_catch_up q) = word_of_int ?f" unfolding c(1) [symmetric] by simp
    have q': "q' = (loop_catch_up q)\<lparr>loop_recv := loop_recv (loop_catch_up q) + 1\<rparr>"
        "o' = Some (messages q ! slot (word_of_int ?f))"
      using t c False r by (auto simp: loop_receive_def Let_def)
    have "?f < 2 ^ 31 - 1" using False sint_small(2) [of "loop_send q"] by simp
    then have "sint (loop_recv (loop_catch_up q) + 1) = ?f + 1" using sint_inc [of "loop_recv (loop_catch_up q)"] c(1) by simp
    then have r': "sint (loop_recv q') = ?f + 1" using q'(1) by simp
    then have "loop_first q' = ?f + 1" using f False s by (simp add: loop_first_def [of q'])
    moreover have "loop_pending q = messages q ! slot (word_of_int ?f) # map (\<lambda>i. messages q ! slot (word_of_int i)) [?f + 1 .. ?s - 1]"
      using False by (simp add: loop_pending_def upto_rec1)
    moreover have "messages q' = messages q" using q'(1) c(3) by simp
    ultimately show ?thesis
      using q'(2) f False wf r' s by (auto simp: loop_pending_def wf_loop_def)
  qed
  then show "wf_loop q' \<and> loop_left q' = loop_left q \<and> (case loop_pending q of [] \<Rightarrow> o' = None \<and> loop_pending q' = []
       | x # xs \<Rightarrow> o' = Some x \<and> loop_pending q' = xs)"
    by (simp add: loop_left_def s)
qed

text \<open>
  Where the counter overflows, what has just been sent is not received: the counter of what has
  been received is not below the one of what has been sent any more.
\<close>

lemma lost_at_overflow:
  assumes "loop_send l = 0x7fffffff" and "loop_recv l = loop_send l"
  shows "fst (loop_receive (loop_post x l)) = None"
proof -
  have "loop_send (loop_post x l) = 0x80000000" "loop_recv (loop_post x l) = 0x7fffffff"
    using assms by (simp_all add: loop_post_def)
  then show ?thesis by (simp add: loop_receive_def loop_catch_up_def MAX_NET_UDP_LOOPS_def)
qed

section \<open>Datagrams over the loop\<close>

definition loop_ok :: "net_udp_state \<Rightarrow> net_src \<Rightarrow> bool" where
  "loop_ok st src \<longleftrightarrow> wf_loop (loops st src) \<and> (\<forall>d \<in> set (loop_pending (loops st src)). length d \<le> MAX_MSG_SIZE)"

text \<open>The datagrams that can still be sent to this side.\<close>

definition sends_left :: "net_udp_state \<Rightarrow> net_src \<Rightarrow> nat" where
  "sends_left st src = loop_left (loops st src)"

primrec send_all ::
  "(int \<Rightarrow> net_addr \<Rightarrow> byte list \<Rightarrow> bool) \<Rightarrow> net_src \<Rightarrow> net_addr \<Rightarrow> byte list list \<Rightarrow> net_udp_state
    \<Rightarrow> net_udp_state result" where
  "send_all sendto src to [] st = Inr st"
| "send_all sendto src to (d # ds) st =
     bindE (Net_SendDatagram sendto src to d st) (\<lambda>(_, st). send_all sendto src to ds st)"

primrec receive_all ::
  "(int \<Rightarrow> nat \<Rightarrow> (byte list \<times> uint32 \<times> uint16) option) \<Rightarrow> net_src \<Rightarrow> nat \<Rightarrow> mem_buf \<Rightarrow> net_udp_state
    \<Rightarrow> byte list list result" where
  "receive_all recvfrom src 0 buf st = Inr []"
| "receive_all recvfrom src (Suc n) buf st =
     bindE (Net_ReceiveDatagram recvfrom src buf st) (\<lambda>(ok, from, buf, st).
       bindE (receive_all recvfrom src n buf st) (\<lambda>ds. Inr (if ok then contents buf # ds else ds)))"

lemma set_latest: "set (latest n xs) \<subseteq> set xs"
  by (simp add: latest_def set_drop_subset)

lemma send_loop:
  assumes "addr_type to = NA_LOOP" and "length d \<le> MAX_MSG_SIZE" and ok: "loop_ok st (other_source src)" "0 < sends_left st (other_source src)"
  obtains st' where "Net_SendDatagram sendto src to d st = Inr (True, st')"
    "loop_ok st' (other_source src)"
    "loop_pending (loops st' (other_source src)) =
       latest MAX_NET_UDP_LOOPS (loop_pending (loops st (other_source src)) @ [d])"
    "sends_left st' (other_source src) = sends_left st (other_source src) - 1"
proof -
  let ?to = "other_source src"
  let ?st = "st\<lparr>loops := (loops st)(?to := loop_post d (loops st ?to))\<rparr>"
  have p: "loop_pending (loop_post d (loops st ?to)) =
      latest MAX_NET_UDP_LOOPS (loop_pending (loops st ?to) @ [d])" "wf_loop (loop_post d (loops st ?to))"
      "loop_left (loop_post d (loops st ?to)) = loop_left (loops st ?to) - 1"
    using loop.post [of "loops st ?to" d] ok by (simp_all add: loop_ok_def sends_left_def)
  show thesis
  proof
    show "Net_SendDatagram sendto src to d st = Inr (True, ?st)"
      using assms(1,2) by (simp add: Net_SendDatagram_def Net_SendDatagram_Loop_def Let_def)
    show "loop_ok ?st ?to"
      using p ok assms(2) set_latest by (fastforce simp: loop_ok_def)
  qed (use p in \<open>simp_all add: sends_left_def\<close>)
qed

lemma send_all_loop:
  assumes "addr_type to = NA_LOOP"
  shows "loop_ok st (other_source src) \<Longrightarrow> length ds \<le> sends_left st (other_source src) \<Longrightarrow> \<forall>d \<in> set ds. length d \<le> MAX_MSG_SIZE \<Longrightarrow>
    \<exists>st'. send_all sendto src to ds st = Inr st' \<and> loop_ok st' (other_source src) \<and>
      loop_pending (loops st' (other_source src)) =
        latest MAX_NET_UDP_LOOPS (loop_pending (loops st (other_source src)) @ ds)"
proof (induction ds arbitrary: st)
  case Nil
  then show ?case using loop.bounded by (simp add: loop_ok_def)
next
  case (Cons d ds)
  have "length d \<le> MAX_MSG_SIZE" using Cons.prems by simp
  with assms obtain st' where st': "Net_SendDatagram sendto src to d st = Inr (True, st')"
    "loop_ok st' (other_source src)"
    "loop_pending (loops st' (other_source src)) =
       latest MAX_NET_UDP_LOOPS (loop_pending (loops st (other_source src)) @ [d])"
    "sends_left st' (other_source src) = sends_left st (other_source src) - 1"
    using Cons.prems(1) by (rule send_loop) (use Cons.prems(2) in simp)
  show ?case using Cons.IH [OF st'(2)] Cons.prems st' by (simp add: latest_latest)
qed

definition datagram_buf :: "mem_buf \<Rightarrow> bool" where
  "datagram_buf buf \<longleftrightarrow> length (buf_data buf) = MAX_MSG_SIZE \<and> max_size buf = MAX_MSG_SIZE"

lemma receive_all_loop:
  "loop_ok st src \<Longrightarrow> datagram_buf buf \<Longrightarrow>
   receive_all recvfrom src (length (loop_pending (loops st src))) buf st = Inr (loop_pending (loops st src))"
proof (induction "loop_pending (loops st src)" arbitrary: st buf)
  case Nil
  then show ?case by simp
next
  case (Cons d ds)
  obtain o' q where t: "loop_receive (loops st src) = (o', q)" by (cases "loop_receive (loops st src)")
  have wf: "wf_loop (loops st src)" using Cons.prems by (simp add: loop_ok_def)
  have o: "o' = Some d" "loop_pending q = ds" "wf_loop q"
    using loop.take_first [OF wf t] Cons.hyps(2) by (simp_all split: list.splits)
  have d: "length d \<le> MAX_MSG_SIZE" "\<forall>d \<in> set ds. length d \<le> MAX_MSG_SIZE"
    using Cons.prems(1) Cons.hyps(2) by (metis list.set_intros(1) loop_ok_def,
      metis list.set_intros(2) loop_ok_def)
  let ?st = "st\<lparr>loops := (loops st)(src := q)\<rparr>"
  let ?buf = "(store_at 0 d (buf\<lparr>read_pos := 0, buf_size := 0\<rparr>))\<lparr>buf_size := length d\<rparr>"
  have "Net_ReceiveDatagram recvfrom src buf st =
      Inr (True, \<lparr>addr_type = NA_LOOP, addr = net_lo, port = 0\<rparr>, ?buf, ?st)"
    using t o d(1) Cons.prems(2)
    by (simp add: Net_ReceiveDatagram_def Net_ReceiveDatagram_Loop_def Let_def datagram_buf_def store_at_def)
  moreover have "contents ?buf = d"
    using take_store_bytes [of 0 d "buf_data buf"] d(1) Cons.prems(2)
    by (simp add: contents_def store_at_def datagram_buf_def)
  moreover have "receive_all recvfrom src (length ds) ?buf ?st = Inr ds"
    using Cons.hyps(1) [of ?st ?buf] o d Cons.prems(2) by (simp add: loop_ok_def datagram_buf_def store_at_def)
  ultimately show ?case using Cons.hyps(2) [symmetric] by simp
qed

lemma loop_ok_start: "loop_ok net_udp_start src"
  by (simp add: loop_ok_def net_udp_start_def wf_loop_def loop_pending_def loop_first_def)

section \<open>Properties\<close>

text \<open>
  C13: Datagrams sent to the loopback address arrive at the other side in the order they
  were sent, unchanged, and of those sent before the first is received only the last
  \<open>MAX_NET_UDP_LOOPS\<close> survive, the oldest being dropped. This holds as long as no more than
  \<open>2 ^ 31 - 1\<close> datagrams are sent to a side: the counters are of type \<open>int32_t\<close> and never start anew.
\<close>

theorem loopback_delivers:
  assumes "addr_type to = NA_LOOP" and "loop_ok st (other_source src)" and "length ds \<le> sends_left st (other_source src)"
    and "\<forall>d \<in> set ds. length d \<le> MAX_MSG_SIZE" and "datagram_buf buf"
  shows "\<exists>st'. send_all sendto src to ds st = Inr st' \<and>
    (let ds' = latest 4 (loop_pending (loops st (other_source src)) @ ds)
     in receive_all recvfrom (other_source src) (length ds') buf st' = Inr ds')"
proof -
  obtain st' where "send_all sendto src to ds st = Inr st'" "loop_ok st' (other_source src)"
    "loop_pending (loops st' (other_source src)) =
        latest 4 (loop_pending (loops st (other_source src)) @ ds)"
    using send_all_loop [OF assms(1-4)] by (auto simp: MAX_NET_UDP_LOOPS_def)
  then show ?thesis using receive_all_loop [OF _ assms(5)] by (metis (no_types, lifting))
qed

lemma start_left: "sends_left net_udp_start src = 2 ^ 31 - 1"
  by (simp add: sends_left_def loop_left_def net_udp_start_def)

lemma start_room: "5 \<le> sends_left net_udp_start src"
  unfolding start_left by simp

theorem loopback_delivers_witness:
  "\<exists>st'. send_all (\<lambda>_ _ _. False) NS_UDP_CLIENT \<lparr>addr_type = NA_LOOP, addr = 0, port = 0\<rparr>
       [[1], [2], [3], [4], [5]] net_udp_start = Inr st' \<and>
     receive_all (\<lambda>_ _. None) NS_UDP_SERVER 4
       (Mem_InitBuffer (replicate MAX_MSG_SIZE 0) MAX_MSG_SIZE) st' = Inr [[2], [3], [4], [5]]"
  using loopback_delivers [of "\<lparr>addr_type = NA_LOOP, addr = 0, port = 0\<rparr>" net_udp_start NS_UDP_CLIENT
      "[[1], [2], [3], [4], [5]]" "Mem_InitBuffer (replicate MAX_MSG_SIZE 0) MAX_MSG_SIZE"
      "\<lambda>_ _ _. False" "\<lambda>_ _. None"]
    loop_ok_start [of NS_UDP_SERVER] start_room [of NS_UDP_SERVER]
  by (simp add: datagram_buf_def Mem_InitBuffer_def latest_def limits)
     (simp add: net_udp_start_def loop_pending_def loop_first_def eval_nat_numeral)

end
