(* ===== verification/Cm_Areas.thy ===== *)
theory Cm_Areas
  imports Q2W_Prelude
begin

text \<open>
  The areas of a map, \<open>src/cmodel.c\<close>: areas are connected by portals, which doors open
  and close. After every change the engine floods the areas anew, so that connected areas
  carry the same \<open>flood_num\<close>; the server uses it to cull what a client cannot see.
  \<open>bsp_areas\<close> holds the part of \<open>c_bsp\<close> this concerns. The counters are unbounded here:
  \<open>flood_valid\<close> would wrap after \<open>2 ^ 31\<close> floods.
\<close>

section \<open>Types\<close>

definition MAX_BSP_AREAS :: nat where "MAX_BSP_AREAS = 256"

declare MAX_BSP_AREAS_def [limits]

record bsp_area_portal =
  portal_num :: int
  other_area :: int

record bsp_area =
  num_area_portals :: int
  first_area_portal :: int
  flood_num :: int
  flood_valid :: int

record bsp_areas =
  num_areas :: int
  areas :: "bsp_area list"
  total_area_portals :: int
  area_portals :: "bsp_area_portal list"
  areas_valid :: int
  portal_open :: "bool list"
  no_areas :: bool

section \<open>Flooding\<close>

definition unflooded :: "int \<Rightarrow> bsp_area list \<Rightarrow> nat" where
  "unflooded valid ars = length (filter (\<lambda>a. flood_valid a \<noteq> valid) ars)"

text \<open>
  \<open>flood_portals\<close> is the loop over the portals of an area: \<open>n\<close> of them from index \<open>p\<close>.
  The array of the areas is passed along; the rest of \<open>c_bsp\<close> does not change.
\<close>

function Cm_FloodArea :: "bsp_areas \<Rightarrow> int \<Rightarrow> int \<Rightarrow> bsp_area list \<Rightarrow> bsp_area list result"
  and flood_portals :: "bsp_areas \<Rightarrow> int \<Rightarrow> nat \<Rightarrow> int \<Rightarrow> bsp_area list \<Rightarrow> bsp_area list result" where
  "Cm_FloodArea bsp a num ars =
     bindE (at_index ars a) (\<lambda>area.
       if flood_valid area = areas_valid bsp then
         (if flood_num area = num then Inr ars else Inl (Err_Drop ''Reflooded''))
       else flood_portals bsp (first_area_portal area) (nat (num_area_portals area)) num
              (ars[nat a := area\<lparr>flood_num := num, flood_valid := areas_valid bsp\<rparr>]))"
| "flood_portals bsp p n num ars =
     (if n = 0 then Inr ars
      else bindE (at_index (area_portals bsp) p) (\<lambda>portal.
           bindE (at_index (portal_open bsp) (portal_num portal)) (\<lambda>is_open.
             if is_open
             then bindE (Cm_FloodArea bsp (other_area portal) num ars)
                    (flood_portals bsp (p + 1) (n - 1) num)
             else flood_portals bsp (p + 1) (n - 1) num ars)))"
  by pat_completeness auto

lemma unflooded_mark:
  "at_index ars a = Inr area \<Longrightarrow> flood_valid area \<noteq> v \<Longrightarrow>
   unflooded v (ars[nat a := area\<lparr>flood_num := num, flood_valid := v\<rparr>]) < unflooded v ars"
  by (simp add: unflooded_def at_index_eq_Inr length_filter_update)

lemma flood_shrinks:
  "Cm_FloodArea_flood_portals_dom (Inl (bsp, a, num, ars)) \<Longrightarrow>
     Cm_FloodArea bsp a num ars = Inr ars' \<Longrightarrow> unflooded (areas_valid bsp) ars' \<le> unflooded (areas_valid bsp) ars"
  "Cm_FloodArea_flood_portals_dom (Inr (bsp, p, n, num, ars)) \<Longrightarrow>
     flood_portals bsp p n num ars = Inr ars' \<Longrightarrow> unflooded (areas_valid bsp) ars' \<le> unflooded (areas_valid bsp) ars"
proof (induction arbitrary: ars' and ars' rule: Cm_FloodArea_flood_portals.pinduct)
  case (1 bsp a num ars)
  obtain area where a: "at_index ars a = Inr area"
    using "1.prems" "1.hyps" by (auto simp: Cm_FloodArea.psimps bindE_eq_Inr)
  then show ?case
    using "1.prems" "1.hyps" "1.IH" [OF a] unflooded_mark [OF a, of "areas_valid bsp" num]
    by (fastforce simp: Cm_FloodArea.psimps split: if_splits)
next
  case (2 bsp p n num ars)
  show ?case
  proof (cases "n = 0")
    case True
    then show ?thesis using "2.prems" "2.hyps" by (simp add: flood_portals.psimps)
  next
    case False
    then obtain portal is_open where p: "at_index (area_portals bsp) p = Inr portal"
        "at_index (portal_open bsp) (portal_num portal) = Inr is_open"
      using "2.prems" "2.hyps" by (auto simp: flood_portals.psimps bindE_eq_Inr)
    show ?thesis
    proof (cases is_open)
      case True
      obtain ars1 where f: "Cm_FloodArea bsp (other_area portal) num ars = Inr ars1"
          "flood_portals bsp (p + 1) (n - 1) num ars1 = Inr ars'"
        using "2.prems" "2.hyps" p True False by (auto simp: flood_portals.psimps bindE_eq_Inr)
      then show ?thesis
        using "2.IH"(1) [OF False p True] "2.IH"(2) [OF False p True f(1)] by (meson order_trans)
    next
      case closed: False
      then show ?thesis
        using "2.prems" "2.hyps" p False "2.IH"(3) [OF False p] by (simp add: flood_portals.psimps)
    qed
  qed
qed

termination Cm_FloodArea
proof (relation "measures [\<lambda>x. case x of Inl (bsp, _, _, ars) \<Rightarrow> unflooded (areas_valid bsp) ars
        | Inr (bsp, _, _, _, ars) \<Rightarrow> unflooded (areas_valid bsp) ars,
      \<lambda>x. case x of Inl _ \<Rightarrow> 0 | Inr (_, _, n, _) \<Rightarrow> n]")
qed (auto simp: unflooded_mark order.order_iff_strict dest!: flood_shrinks)

declare Cm_FloodArea.simps [simp del] flood_portals.simps [simp del]

text \<open>The loop over the areas that are not flooded yet: \<open>n\<close> of them from index \<open>i\<close>.\<close>

fun flood_each :: "bsp_areas \<Rightarrow> int \<Rightarrow> nat \<Rightarrow> int \<Rightarrow> bsp_area list \<Rightarrow> bsp_area list result" where
  "flood_each bsp i 0 num ars = Inr ars"
| "flood_each bsp i (Suc n) num ars =
     bindE (at_index ars i) (\<lambda>area.
       if flood_valid area = areas_valid bsp then flood_each bsp (i + 1) n num ars
       else bindE (Cm_FloodArea bsp i (num + 1) ars) (flood_each bsp (i + 1) n (num + 1)))"

definition Cm_FloodAreaConnections :: "bsp_areas \<Rightarrow> bsp_areas result" where
  "Cm_FloodAreaConnections bsp =
     (let bsp = bsp\<lparr>areas_valid := areas_valid bsp + 1\<rparr>
      in bindE (flood_each bsp 1 (nat (num_areas bsp - 1)) 0 (areas bsp)) (\<lambda>ars.
           Inr (bsp\<lparr>areas := ars\<rparr>)))"

definition Cm_SetAreaPortalState :: "bsp_areas \<Rightarrow> int \<Rightarrow> bool \<Rightarrow> bsp_areas result" where
  "Cm_SetAreaPortalState bsp num is_open =
     (if num > total_area_portals bsp then Inl (Err_Drop ''Portal > num_area_portals'')
      else if num < 0 \<or> nat num \<ge> length (portal_open bsp) then Inl Bad_Access
      else Cm_FloodAreaConnections (bsp\<lparr>portal_open := (portal_open bsp)[nat num := is_open]\<rparr>))"

definition Cm_AreasConnected :: "bsp_areas \<Rightarrow> int \<Rightarrow> int \<Rightarrow> bool result" where
  "Cm_AreasConnected bsp area1 area2 =
     (if no_areas bsp then Inr True
      else if area1 > num_areas bsp \<or> area2 > num_areas bsp then Inl (Err_Drop ''Area > num_areas'')
      else bindE (at_index (areas bsp) area1) (\<lambda>a1. bindE (at_index (areas bsp) area2) (\<lambda>a2.
             if flood_num a1 = flood_num a2 then Inr True else Inr False)))"

text \<open>The bit vector is written to \<open>buffer\<close>; the result is the number of its bytes.\<close>

fun mark_areas :: "(nat \<Rightarrow> bool) \<Rightarrow> nat list \<Rightarrow> byte list \<Rightarrow> byte list" where
  "mark_areas f [] buffer = buffer"
| "mark_areas f (i # is) buffer =
     mark_areas f is (if f i then buffer[i div 8 := buffer ! (i div 8) OR push_bit (i mod 8) 1] else buffer)"

definition Cm_WriteAreaBits :: "bsp_areas \<Rightarrow> byte list \<Rightarrow> int \<Rightarrow> (nat \<times> byte list) result" where
  "Cm_WriteAreaBits bsp buffer area =
     (let bytes = nat (num_areas bsp + 7) div 8 in
      if bytes > length buffer then Inl Bad_Access
      else if no_areas bsp then Inr (bytes, store_bytes 0 (replicate bytes 0xff) buffer)
      else bindE (at_index (areas bsp) area) (\<lambda>a.
        let buffer = store_bytes 0 (replicate bytes 0) buffer
        in if nat (num_areas bsp) > length (areas bsp) then Inl Bad_Access
           else Inr (bytes, mark_areas (\<lambda>i. flood_num (areas bsp ! i) = flood_num a \<or> area = 0)
                              [0 ..< nat (num_areas bsp)] buffer)))"

section \<open>What a flood does\<close>

text \<open>\<open>target bsp p n b\<close>: one of the \<open>n\<close> portals from index \<open>p\<close> is open and leads to \<open>b\<close>.\<close>

definition portal_at :: "bsp_areas \<Rightarrow> int \<Rightarrow> nat \<Rightarrow> bsp_area_portal" where
  "portal_at bsp p k = area_portals bsp ! nat (p + int k)"

definition leads_to :: "bsp_areas \<Rightarrow> bsp_area_portal \<Rightarrow> nat \<Rightarrow> bool" where
  "leads_to bsp portal b \<longleftrightarrow> portal_open bsp ! nat (portal_num portal) \<and> nat (other_area portal) = b"

definition target :: "bsp_areas \<Rightarrow> int \<Rightarrow> nat \<Rightarrow> nat \<Rightarrow> bool" where
  "target bsp p n b \<longleftrightarrow> (\<exists>k<n. leads_to bsp (portal_at bsp p k) b)"

definition area_links :: "bsp_areas \<Rightarrow> nat \<Rightarrow> nat \<Rightarrow> bool" where
  "area_links bsp a b \<longleftrightarrow> a < length (areas bsp) \<and>
     target bsp (first_area_portal (areas bsp ! a)) (nat (num_area_portals (areas bsp ! a))) b"

lemma target_step:
  assumes "n \<noteq> 0"
  shows "target bsp p n b \<longleftrightarrow> leads_to bsp (portal_at bsp p 0) b \<or> target bsp (p + 1) (n - 1) b"
proof -
  obtain m where n: "n = Suc m" using assms by (cases n) auto
  have "portal_at bsp p (Suc k) = portal_at bsp (p + 1) k" for k
    by (simp add: portal_at_def algebra_simps)
  then show ?thesis by (simp add: target_def n Ex_less_Suc2)
qed

definition in_range :: "bsp_areas \<Rightarrow> bool" where
  "in_range bsp \<longleftrightarrow>
     (\<forall>a \<in> set (areas bsp). 0 \<le> first_area_portal a \<and>
        nat (first_area_portal a) + nat (num_area_portals a) \<le> length (area_portals bsp)) \<and>
     (\<forall>p \<in> set (area_portals bsp). 0 \<le> portal_num p \<and> nat (portal_num p) < length (portal_open bsp) \<and>
        0 \<le> other_area p \<and> nat (other_area p) < length (areas bsp))"

definition same_layout :: "bsp_area list \<Rightarrow> bsp_area list \<Rightarrow> bool" where
  "same_layout ars ars' \<longleftrightarrow> length ars = length ars' \<and>
     (\<forall>i < length ars. num_area_portals (ars ! i) = num_area_portals (ars' ! i) \<and>
        first_area_portal (ars ! i) = first_area_portal (ars' ! i))"

definition flooded :: "bsp_areas \<Rightarrow> bsp_area list \<Rightarrow> nat \<Rightarrow> bool" where
  "flooded bsp ars i \<longleftrightarrow> i < length ars \<and> flood_valid (ars ! i) = areas_valid bsp"

definition painted :: "bsp_areas \<Rightarrow> bsp_area list \<Rightarrow> int \<Rightarrow> nat \<Rightarrow> bool" where
  "painted bsp ars num i \<longleftrightarrow> flooded bsp ars i \<and> flood_num (ars ! i) = num"

text \<open>The areas flooded with other numbers are complete: no link leads out of them or in.\<close>

definition others_closed :: "bsp_areas \<Rightarrow> int \<Rightarrow> bsp_area list \<Rightarrow> bool" where
  "others_closed bsp num ars \<longleftrightarrow>
     (\<forall>i j. flooded bsp ars i \<and> flood_num (ars ! i) \<noteq> num \<and> (area_links bsp i j \<or> area_links bsp j i) \<longrightarrow>
        flooded bsp ars j \<and> flood_num (ars ! j) \<noteq> num)"

definition grows :: "bsp_areas \<Rightarrow> int \<Rightarrow> bsp_area list \<Rightarrow> bsp_area list \<Rightarrow> bool" where
  "grows bsp num ars ars' \<longleftrightarrow> same_layout ars ars' \<and>
     (\<forall>i. flooded bsp ars i \<longrightarrow> ars' ! i = ars ! i) \<and>
     (\<forall>i. flooded bsp ars' i \<and> \<not> flooded bsp ars i \<longrightarrow> flood_num (ars' ! i) = num) \<and>
     (\<forall>i. \<not> flooded bsp ars' i \<longrightarrow> ars' ! i = ars ! i)"

definition new_in :: "bsp_areas \<Rightarrow> bsp_area list \<Rightarrow> bsp_area list \<Rightarrow> nat \<Rightarrow> bool" where
  "new_in bsp ars ars' i \<longleftrightarrow> flooded bsp ars' i \<and> \<not> flooded bsp ars i"

lemma same_layout_refl [simp]: "same_layout ars ars" by (simp add: same_layout_def)

lemma same_layout_trans: "same_layout a b \<Longrightarrow> same_layout b c \<Longrightarrow> same_layout a c"
  by (simp add: same_layout_def)

lemma grows_refl [simp]: "grows bsp num ars ars" by (simp add: grows_def)

lemma grows_flooded: "grows bsp num ars ars' \<Longrightarrow> flooded bsp ars i \<Longrightarrow> flooded bsp ars' i"
  unfolding grows_def flooded_def same_layout_def by (metis)

lemma grows_painted: "grows bsp num ars ars' \<Longrightarrow> painted bsp ars k i \<Longrightarrow> painted bsp ars' k i"
  using grows_flooded [of bsp num ars ars' i] by (simp add: grows_def painted_def)

lemma grows_trans:
  assumes "grows bsp num a b" and "grows bsp num b c"
  shows "grows bsp num a c"
proof -
  have "same_layout a c" using assms same_layout_trans by (auto simp: grows_def)
  moreover have "c ! i = a ! i" if "flooded bsp a i" for i
    using assms that grows_flooded [OF assms(1) that] by (simp add: grows_def)
  moreover have "flood_num (c ! i) = num" if "flooded bsp c i" "\<not> flooded bsp a i" for i
    using assms that by (cases "flooded bsp b i") (simp_all add: grows_def)
  moreover have "c ! i = a ! i" if "\<not> flooded bsp c i" for i
    using assms that grows_flooded [OF assms(2), of i] by (auto simp: grows_def)
  ultimately show ?thesis by (simp add: grows_def)
qed

lemma grows_old: "grows bsp num ars ars' \<Longrightarrow> flooded bsp ars i \<Longrightarrow> ars' ! i = ars ! i"
  by (simp add: grows_def)

lemma grows_others:
  assumes g: "grows bsp num ars ars'" and c: "others_closed bsp num ars"
  shows "others_closed bsp num ars'"
  unfolding others_closed_def
proof (intro allI impI)
  fix i j
  assume a: "flooded bsp ars' i \<and> flood_num (ars' ! i) \<noteq> num \<and> (area_links bsp i j \<or> area_links bsp j i)"
  then have i: "flooded bsp ars i" using g by (auto simp: grows_def)
  have "flood_num (ars ! i) \<noteq> num" using a grows_old [OF g i] by simp
  then have j: "flooded bsp ars j \<and> flood_num (ars ! j) \<noteq> num"
    using a c i unfolding others_closed_def by blast
  then show "flooded bsp ars' j \<and> flood_num (ars' ! j) \<noteq> num"
    using grows_flooded [OF g, of j] grows_old [OF g, of j] by simp
qed

lemma grows_free:
  "grows bsp num ars ars' \<Longrightarrow> (flooded bsp ars b \<longrightarrow> flood_num (ars ! b) = num) \<Longrightarrow>
   flooded bsp ars' b \<longrightarrow> flood_num (ars' ! b) = num"
  by (cases "flooded bsp ars b") (auto simp: grows_old, auto simp: grows_def)

text \<open>What a flood from an area, or through some of its portals, achieves.\<close>

definition spreads :: "bsp_areas \<Rightarrow> int \<Rightarrow> bsp_area list \<Rightarrow> bsp_area list \<Rightarrow> (nat \<Rightarrow> bool) \<Rightarrow> bool" where
  "spreads bsp num ars ars' starts \<longleftrightarrow> grows bsp num ars ars' \<and>
     (\<forall>b. starts b \<longrightarrow> painted bsp ars' num b) \<and>
     (\<forall>i. new_in bsp ars ars' i \<longrightarrow> (\<exists>b. starts b \<and> (area_links bsp)\<^sup>*\<^sup>* b i) \<and>
        (\<forall>j. area_links bsp i j \<longrightarrow> painted bsp ars' num j))"

lemma spreads_none: "spreads bsp num ars ars (\<lambda>_. False)"
  by (simp add: spreads_def new_in_def)

lemma spreads_then:
  assumes s: "spreads bsp num ars ars1 P" and r: "spreads bsp num ars1 ars2 Q"
  shows "spreads bsp num ars ars2 (\<lambda>b. P b \<or> Q b)"
proof -
  have g: "grows bsp num ars ars1" "grows bsp num ars1 ars2" using s r by (auto simp: spreads_def)
  have n: "new_in bsp ars ars2 i \<Longrightarrow> new_in bsp ars ars1 i \<or> new_in bsp ars1 ars2 i" for i
    by (auto simp: new_in_def)
  show ?thesis
    unfolding spreads_def
  proof (intro conjI allI impI)
    show "grows bsp num ars ars2" using grows_trans [OF g] .
    show "P b \<or> Q b \<Longrightarrow> painted bsp ars2 num b" for b
      using s r grows_painted [OF g(2)] by (auto simp: spreads_def)
    fix i assume i: "new_in bsp ars ars2 i"
    show "\<exists>b. (P b \<or> Q b) \<and> (area_links bsp)\<^sup>*\<^sup>* b i"
      using n [OF i] s r unfolding spreads_def by meson
    show "painted bsp ars2 num j" if "area_links bsp i j" for j
      using n [OF i] s r grows_painted [OF g(2)] that unfolding spreads_def by meson
  qed
qed

definition free_for :: "bsp_areas \<Rightarrow> bsp_area list \<Rightarrow> int \<Rightarrow> nat \<Rightarrow> bool" where
  "free_for bsp ars num b \<longleftrightarrow> (flooded bsp ars b \<longrightarrow> flood_num (ars ! b) = num)"

lemma grows_free_for: "grows bsp num ars ars' \<Longrightarrow> free_for bsp ars num b \<Longrightarrow> free_for bsp ars' num b"
  unfolding free_for_def by (rule grows_free)

text \<open>Marking an area that is not flooded.\<close>

lemma mark_area:
  fixes num :: int
  assumes "a < length ars" and "\<not> flooded bsp ars a"
  defines "ars1 \<equiv> ars[a := (ars ! a)\<lparr>flood_num := num, flood_valid := areas_valid bsp\<rparr>]"
  shows "grows bsp num ars ars1" and "painted bsp ars1 num a" and "new_in bsp ars ars1 i \<longleftrightarrow> i = a"
proof -
  show "grows bsp num ars ars1"
    using assms by (auto simp: grows_def same_layout_def flooded_def nth_list_update)
  show "painted bsp ars1 num a" using assms by (simp add: painted_def flooded_def)
  show "new_in bsp ars ars1 i \<longleftrightarrow> i = a"
    using assms by (cases "i = a") (auto simp: new_in_def flooded_def)
qed

lemma links_free:
  assumes "others_closed bsp num ars" and "free_for bsp ars num a" and "area_links bsp a b"
    and "\<not> flooded bsp ars a"
  shows "free_for bsp ars num b"
  using assms unfolding free_for_def others_closed_def by meson

lemma flood_area_spreads:
  assumes lay: "same_layout (areas bsp) ars" and a: "0 \<le> a" "nat a < length ars"
    and un: "\<not> flooded bsp ars (nat a)"
    and ports: "spreads bsp num (ars[nat a := (ars ! nat a)\<lparr>flood_num := num, flood_valid := areas_valid bsp\<rparr>]) ars'
      (target bsp (first_area_portal (ars ! nat a)) (nat (num_area_portals (ars ! nat a))))"
  shows "spreads bsp num ars ars' (\<lambda>b. b = nat a)"
proof -
  let ?ars1 = "ars[nat a := (ars ! nat a)\<lparr>flood_num := num, flood_valid := areas_valid bsp\<rparr>]"
  note m = mark_area [OF a(2) un, of num]
  have len: "length ars = length (areas bsp)" using lay by (simp add: same_layout_def)
  have t: "area_links bsp (nat a) b \<longleftrightarrow>
      target bsp (first_area_portal (ars ! nat a)) (nat (num_area_portals (ars ! nat a))) b" for b
    using lay a(2) len by (auto simp: area_links_def same_layout_def)
  have g: "grows bsp num ?ars1 ars'" using ports by (simp add: spreads_def)
  show ?thesis
    unfolding spreads_def
  proof (intro conjI allI impI)
    show "grows bsp num ars ars'" using grows_trans [OF m(1) g] .
    show "b = nat a \<Longrightarrow> painted bsp ars' num b" for b using grows_painted [OF g m(2)] by simp
    fix i assume i: "new_in bsp ars ars' i"
    then have c: "i = nat a \<or> new_in bsp ?ars1 ars' i" using m(3) [of i] by (auto simp: new_in_def)
    then show "\<exists>b. b = nat a \<and> (area_links bsp)\<^sup>*\<^sup>* b i"
      using ports t unfolding spreads_def by (metis converse_rtranclp_into_rtranclp rtranclp.rtrancl_refl)
    show "painted bsp ars' num j" if "area_links bsp i j" for j
      using c ports t that unfolding spreads_def by metis
  qed
qed

lemma flood_result:
  "in_range bsp \<Longrightarrow> same_layout (areas bsp) ars \<Longrightarrow> others_closed bsp num ars \<Longrightarrow>
   0 \<le> a \<Longrightarrow> nat a < length ars \<Longrightarrow> free_for bsp ars num (nat a) \<Longrightarrow>
   \<exists>ars'. Cm_FloodArea bsp a num ars = Inr ars' \<and> spreads bsp num ars ars' (\<lambda>b. b = nat a)"
  "in_range bsp \<Longrightarrow> same_layout (areas bsp) ars \<Longrightarrow> others_closed bsp num ars \<Longrightarrow>
   0 \<le> p \<Longrightarrow> nat p + n \<le> length (area_portals bsp) \<Longrightarrow> (\<And>b. target bsp p n b \<Longrightarrow> free_for bsp ars num b) \<Longrightarrow>
   \<exists>ars'. flood_portals bsp p n num ars = Inr ars' \<and> spreads bsp num ars ars' (target bsp p n)"
proof (induction bsp a num ars and bsp p n num ars rule: Cm_FloodArea_flood_portals.induct)
  case (1 bsp a num ars)
  let ?area = "ars ! nat a"
  have at: "at_index ars a = Inr ?area" using "1.prems" by (simp add: at_index_def)
  have len: "length ars = length (areas bsp)" using "1.prems" by (simp add: same_layout_def)
  show ?case
  proof (cases "flooded bsp ars (nat a)")
    case True
    then have "flood_num ?area = num" using "1.prems" by (simp add: free_for_def)
    then show ?thesis
      using True at by (auto simp: Cm_FloodArea.simps flooded_def spreads_def new_in_def painted_def)
  next
    case False
    let ?ars1 = "ars[nat a := ?area\<lparr>flood_num := num, flood_valid := areas_valid bsp\<rparr>]"
    have v: "flood_valid ?area \<noteq> areas_valid bsp" using False "1.prems"(5) by (simp add: flooded_def)
    note m = mark_area [OF "1.prems"(5) False, of num]
    have lay: "same_layout (areas bsp) ?ars1"
      using "1.prems"(2) m(1) same_layout_trans by (auto simp: grows_def)
    have r: "0 \<le> first_area_portal ?area"
        "nat (first_area_portal ?area) + nat (num_area_portals ?area) \<le> length (area_portals bsp)"
      using "1.prems"(1,2,5) nth_mem [of "nat a" "areas bsp"] len
      by (auto simp: in_range_def same_layout_def simp del: nth_mem)
    have f: "free_for bsp ?ars1 num b"
      if "target bsp (first_area_portal ?area) (nat (num_area_portals ?area)) b" for b
    proof (rule grows_free_for [OF m(1)], rule links_free [OF "1.prems"(3,6) _ False])
      show "area_links bsp (nat a) b"
        using that "1.prems"(2,5) len by (auto simp: area_links_def same_layout_def)
    qed
    obtain ars' where "flood_portals bsp (first_area_portal ?area) (nat (num_area_portals ?area)) num ?ars1 = Inr ars'"
        "spreads bsp num ?ars1 ars' (target bsp (first_area_portal ?area) (nat (num_area_portals ?area)))"
      using "1.IH" [OF at v "1.prems"(1) lay grows_others [OF m(1) "1.prems"(3)] r f] by auto
    then show ?thesis
      using flood_area_spreads [OF "1.prems"(2,4,5) False] v at by (auto simp: Cm_FloodArea.simps)
  qed
next
  case (2 bsp p n num ars)
  show ?case
  proof (cases "n = 0")
    case True
    then show ?thesis using spreads_none by (simp add: flood_portals.simps target_def)
  next
    case False
    let ?portal = "portal_at bsp p 0" and ?b = "nat (other_area (portal_at bsp p 0))"
    have mem: "?portal \<in> set (area_portals bsp)" using False "2.prems"(4,5) by (simp add: portal_at_def)
    have pt: "at_index (area_portals bsp) p = Inr ?portal"
      using False "2.prems"(4,5) by (simp add: at_index_def portal_at_def)
    have op: "at_index (portal_open bsp) (portal_num ?portal) = Inr (portal_open bsp ! nat (portal_num ?portal))"
      using mem "2.prems"(1) by (auto simp: in_range_def at_index_def)
    note st = target_step [OF False, of bsp p]
    have next_range: "0 \<le> p + 1" "nat (p + 1) + (n - 1) \<le> length (area_portals bsp)"
      using "2.prems"(4,5) False by auto
    show ?thesis
    proof (cases "portal_open bsp ! nat (portal_num ?portal)")
      case True
      have "0 \<le> other_area ?portal" "?b < length ars"
        using mem "2.prems"(1,2) by (auto simp: in_range_def same_layout_def)
      moreover have "free_for bsp ars num ?b" using "2.prems"(6) st True by (simp add: leads_to_def)
      ultimately obtain ars1 where 1: "Cm_FloodArea bsp (other_area ?portal) num ars = Inr ars1"
          "spreads bsp num ars ars1 (\<lambda>b. b = ?b)"
        using "2.IH"(1) [OF False pt op True "2.prems"(1-3)] by auto
      then have g: "grows bsp num ars ars1" by (simp add: spreads_def)
      then have "same_layout (areas bsp) ars1"
        using "2.prems"(2) same_layout_trans by (auto simp: grows_def)
      moreover have "target bsp (p + 1) (n - 1) b \<Longrightarrow> free_for bsp ars1 num b" for b
        using grows_free_for [OF g] "2.prems"(6) st by auto
      ultimately obtain ars2 where 2: "flood_portals bsp (p + 1) (n - 1) num ars1 = Inr ars2"
          "spreads bsp num ars1 ars2 (target bsp (p + 1) (n - 1))"
        using "2.IH"(2) [OF False pt op True 1(1) "2.prems"(1) _ grows_others [OF g "2.prems"(3)] next_range] by auto
      have "(\<lambda>b. b = ?b \<or> target bsp (p + 1) (n - 1) b) = target bsp p n"
        using st True by (auto simp: fun_eq_iff leads_to_def)
      then show ?thesis
        using spreads_then [OF 1(2) 2(2)] 1(1) 2(1) False pt op True by (simp add: flood_portals.simps)
    next
      case closed: False
      then have "target bsp p n = target bsp (p + 1) (n - 1)"
        using st by (auto simp: fun_eq_iff leads_to_def)
      then show ?thesis
        using "2.IH"(3) [OF False pt op closed "2.prems"(1-3) next_range] "2.prems"(6) False pt op closed
        by (auto simp: flood_portals.simps)
    qed
  qed
qed

section \<open>Connected areas\<close>

text \<open>
  Every portal of the map appears in the list of both areas it joins, under the same
  number. Then the links are symmetric whatever portals are open.
\<close>

definition joins :: "bsp_areas \<Rightarrow> int \<Rightarrow> nat \<Rightarrow> nat \<Rightarrow> bool" where
  "joins bsp num a b \<longleftrightarrow> a < length (areas bsp) \<and>
     (\<exists>k < nat (num_area_portals (areas bsp ! a)).
        portal_num (portal_at bsp (first_area_portal (areas bsp ! a)) k) = num \<and>
        nat (other_area (portal_at bsp (first_area_portal (areas bsp ! a)) k)) = b)"

definition wf_areas :: "bsp_areas \<Rightarrow> bool" where
  "wf_areas bsp \<longleftrightarrow> in_range bsp \<and> (\<forall>num a b. joins bsp num a b \<longrightarrow> joins bsp num b a) \<and>
     (\<forall>a \<in> set (areas bsp). flood_valid a \<le> areas_valid bsp) \<and>
     0 \<le> num_areas bsp \<and> nat (num_areas bsp) \<le> length (areas bsp)"

lemma area_links_joins: "area_links bsp a b \<longleftrightarrow> (\<exists>num. joins bsp num a b \<and> portal_open bsp ! nat num)"
  by (auto simp: area_links_def joins_def target_def leads_to_def)

definition flood_ok :: "bsp_areas \<Rightarrow> int \<Rightarrow> bsp_area list \<Rightarrow> bool" where
  "flood_ok bsp num ars \<longleftrightarrow>
     (\<forall>x. flooded bsp ars x \<longrightarrow> flood_num (ars ! x) \<le> num \<and>
        (\<forall>y. area_links bsp x y \<longrightarrow> painted bsp ars (flood_num (ars ! x)) y) \<and>
        (\<forall>y. painted bsp ars (flood_num (ars ! x)) y \<longrightarrow> (area_links bsp)\<^sup>*\<^sup>* x y))"

lemma flood_ok_others:
  assumes "flood_ok bsp num ars" and "symp (area_links bsp)"
  shows "others_closed bsp (num + 1) ars"
  unfolding others_closed_def
proof (intro allI impI)
  fix i j
  assume i: "flooded bsp ars i \<and> flood_num (ars ! i) \<noteq> num + 1 \<and> (area_links bsp i j \<or> area_links bsp j i)"
  then have "area_links bsp i j" using assms(2) by (auto dest: sympD)
  then show "flooded bsp ars j \<and> flood_num (ars ! j) \<noteq> num + 1"
    using i assms(1) by (auto simp: flood_ok_def painted_def)
qed

lemma flood_ok_spreads:
  assumes ok: "flood_ok bsp num ars" and sym: "symp (area_links bsp)"
    and s: "spreads bsp (num + 1) ars ars' (\<lambda>b. b = a)"
  shows "flood_ok bsp (num + 1) ars'"
  unfolding flood_ok_def
proof (intro allI impI conjI)
  have g: "grows bsp (num + 1) ars ars'" using s by (simp add: spreads_def)
  have new: "flood_num (ars' ! x) = num + 1 \<and> (area_links bsp)\<^sup>*\<^sup>* a x \<and>
      (\<forall>y. area_links bsp x y \<longrightarrow> painted bsp ars' (num + 1) y)"
    if "new_in bsp ars ars' x" for x
    using s g that by (auto simp: spreads_def grows_def new_in_def)
  have old: "ars' ! x = ars ! x" "flood_num (ars ! x) \<le> num" if "flooded bsp ars x" for x
    using that ok grows_old [OF g] by (auto simp: flood_ok_def)
  fix x assume x: "flooded bsp ars' x"
  have c: "flooded bsp ars x \<or> new_in bsp ars ars' x" using x by (auto simp: new_in_def)
  show "flood_num (ars' ! x) \<le> num + 1" using c new old [of x] by force
  show "painted bsp ars' (flood_num (ars' ! x)) y" if "area_links bsp x y" for y
  proof (cases "flooded bsp ars x")
    case True
    then have "painted bsp ars (flood_num (ars ! x)) y" using ok that by (auto simp: flood_ok_def)
    then show ?thesis using grows_painted [OF g] old(1) [OF True] by simp
  next
    case False
    then show ?thesis using c new that by auto
  qed
  fix y assume y: "painted bsp ars' (flood_num (ars' ! x)) y"
  then have cy: "flooded bsp ars y \<or> new_in bsp ars ars' y" by (auto simp: new_in_def painted_def)
  show "(area_links bsp)\<^sup>*\<^sup>* x y"
  proof (cases "flooded bsp ars x")
    case True
    then have "flooded bsp ars y" using y cy new [of y] old [of x] by (auto simp: painted_def)
    then show ?thesis using True y ok old by (auto simp: flood_ok_def painted_def)
  next
    case False
    then have "new_in bsp ars ars' y" using c cy y new [of x] old [of y] by (auto simp: painted_def)
    moreover have "(area_links bsp)\<^sup>*\<^sup>* x a"
      using False c new sym sympD [OF symp_rtranclp] by metis
    ultimately show ?thesis using new by (meson rtranclp_trans)
  qed
qed

lemma flood_each_result:
  assumes "in_range bsp" and "symp (area_links bsp)"
  shows "same_layout (areas bsp) ars \<Longrightarrow> flood_ok bsp num ars \<Longrightarrow> 0 \<le> i \<Longrightarrow> nat i + n \<le> length ars \<Longrightarrow>
    \<exists>ars' num'. flood_each bsp i n num ars = Inr ars' \<and> same_layout (areas bsp) ars' \<and>
      flood_ok bsp num' ars' \<and> (\<forall>x. flooded bsp ars x \<longrightarrow> flooded bsp ars' x) \<and>
      (\<forall>x. \<not> flooded bsp ars' x \<longrightarrow> ars' ! x = ars ! x) \<and>
      (\<forall>k. nat i \<le> k \<and> k < nat i + n \<longrightarrow> flooded bsp ars' k)"
proof (induction n arbitrary: ars num i)
  case 0
  then show ?case by auto
next
  case (Suc n)
  have at: "at_index ars i = Inr (ars ! nat i)" using Suc.prems by (simp add: at_index_def)
  have i: "0 \<le> i + 1" "nat (i + 1) = Suc (nat i)" using Suc.prems by auto
  have split: "(\<forall>k. nat i \<le> k \<and> k < nat i + Suc n \<longrightarrow> P k) \<longleftrightarrow>
      P (nat i) \<and> (\<forall>k. Suc (nat i) \<le> k \<and> k < Suc (nat i) + n \<longrightarrow> P k)" for P
  proof -
    have "nat i \<le> k \<and> k < nat i + Suc n \<longleftrightarrow> k = nat i \<or> (Suc (nat i) \<le> k \<and> k < Suc (nat i) + n)" for k
      by arith
    then have "(\<forall>k. nat i \<le> k \<and> k < nat i + Suc n \<longrightarrow> P k) \<longleftrightarrow>
        (\<forall>k. k = nat i \<or> (Suc (nat i) \<le> k \<and> k < Suc (nat i) + n) \<longrightarrow> P k)"
      by presburger
    then show ?thesis by blast
  qed
  show ?case
  proof (cases "flooded bsp ars (nat i)")
    case True
    then have "flood_valid (ars ! nat i) = areas_valid bsp" by (simp add: flooded_def)
    then have e: "flood_each bsp i (Suc n) num ars = flood_each bsp (i + 1) n num ars" using at by simp
    obtain ars2 num2 where "flood_each bsp (i + 1) n num ars = Inr ars2" "same_layout (areas bsp) ars2"
        "flood_ok bsp num2 ars2" "\<forall>x. flooded bsp ars x \<longrightarrow> flooded bsp ars2 x"
        "\<forall>x. \<not> flooded bsp ars2 x \<longrightarrow> ars2 ! x = ars ! x"
        "\<forall>k. Suc (nat i) \<le> k \<and> k < Suc (nat i) + n \<longrightarrow> flooded bsp ars2 k"
      using Suc.IH [OF Suc.prems(1,2) i(1)] Suc.prems(4) unfolding i(2) by auto
    then show ?thesis unfolding e split using True by blast
  next
    case False
    then have v: "flood_valid (ars ! nat i) \<noteq> areas_valid bsp" using Suc.prems(4) by (simp add: flooded_def)
    obtain ars1 where f: "Cm_FloodArea bsp i (num + 1) ars = Inr ars1"
        "spreads bsp (num + 1) ars ars1 (\<lambda>b. b = nat i)"
      using flood_result(1) [OF assms(1) Suc.prems(1) flood_ok_others [OF Suc.prems(2) assms(2)] Suc.prems(3)]
        Suc.prems(4) False by (auto simp: free_for_def)
    then have g: "grows bsp (num + 1) ars ars1" and p: "flooded bsp ars1 (nat i)"
      by (simp_all add: spreads_def painted_def)
    then have l: "same_layout (areas bsp) ars1" "length ars1 = length ars"
      using Suc.prems(1) same_layout_trans by (auto simp: grows_def same_layout_def)
    obtain ars2 num2 where r: "flood_each bsp (i + 1) n (num + 1) ars1 = Inr ars2" "same_layout (areas bsp) ars2"
        "flood_ok bsp num2 ars2" "\<And>x. flooded bsp ars1 x \<Longrightarrow> flooded bsp ars2 x"
        "\<forall>x. \<not> flooded bsp ars2 x \<longrightarrow> ars2 ! x = ars1 ! x"
        "\<forall>k. Suc (nat i) \<le> k \<and> k < Suc (nat i) + n \<longrightarrow> flooded bsp ars2 k"
      using Suc.IH [OF l(1) flood_ok_spreads [OF Suc.prems(2) assms(2) f(2)] i(1)] l(2) Suc.prems(4)
      unfolding i(2) by auto
    have "flood_each bsp i (Suc n) num ars = Inr ars2" using at v f(1) r(1) by simp
    moreover have "\<forall>k. nat i \<le> k \<and> k < nat i + Suc n \<longrightarrow> flooded bsp ars2 k"
      unfolding split using r(4) [OF p] r(6) by blast
    moreover have "\<forall>x. flooded bsp ars x \<longrightarrow> flooded bsp ars2 x" using grows_flooded [OF g] r(4) by blast
    moreover have "\<forall>x. \<not> flooded bsp ars2 x \<longrightarrow> ars2 ! x = ars ! x"
      using g r(4,5) unfolding grows_def by metis
    ultimately show ?thesis using r(2,3) by blast
  qed
qed

lemma symp_area_links: "wf_areas bsp \<Longrightarrow> symp (area_links bsp)"
  unfolding wf_areas_def area_links_joins by (intro sympI) blast

text \<open>The state after a flood of all areas.\<close>

definition all_flooded :: "bsp_areas \<Rightarrow> bool" where
  "all_flooded bsp \<longleftrightarrow> wf_areas bsp \<and> (\<exists>num. flood_ok bsp num (areas bsp)) \<and>
     (\<forall>k. 1 \<le> k \<and> int k < num_areas bsp \<longrightarrow> flooded bsp (areas bsp) k)"

lemma joins_cong:
  "same_layout (areas bsp) (areas bsp') \<Longrightarrow> area_portals bsp' = area_portals bsp \<Longrightarrow>
   joins bsp' num a b = joins bsp num a b"
  by (auto simp: joins_def same_layout_def portal_at_def)

lemma in_range_cong:
  "same_layout (areas bsp) (areas bsp') \<Longrightarrow> area_portals bsp' = area_portals bsp \<Longrightarrow>
   length (portal_open bsp') = length (portal_open bsp) \<Longrightarrow> in_range bsp' = in_range bsp"
  by (simp add: in_range_def same_layout_def all_set_conv_all_nth)

lemma area_links_cong:
  "same_layout (areas bsp) (areas bsp') \<Longrightarrow> area_portals bsp' = area_portals bsp \<Longrightarrow>
   portal_open bsp' = portal_open bsp \<Longrightarrow> area_links bsp' = area_links bsp"
  by (simp add: fun_eq_iff area_links_joins joins_cong)

lemma flood_connections:
  assumes wf: "wf_areas bsp"
  shows "\<exists>ars. Cm_FloodAreaConnections bsp = Inr (bsp\<lparr>areas_valid := areas_valid bsp + 1, areas := ars\<rparr>) \<and>
    all_flooded (bsp\<lparr>areas_valid := areas_valid bsp + 1, areas := ars\<rparr>) \<and>
    joins (bsp\<lparr>areas_valid := areas_valid bsp + 1, areas := ars\<rparr>) = joins bsp"
proof -
  let ?b = "bsp\<lparr>areas_valid := areas_valid bsp + 1\<rparr>"
  have none: "\<not> flooded ?b (areas bsp) x" for x
  proof
    assume x: "flooded ?b (areas bsp) x"
    then have "areas bsp ! x \<in> set (areas bsp)" by (simp add: flooded_def)
    then have "flood_valid (areas bsp ! x) \<le> areas_valid bsp" using wf by (simp add: wf_areas_def)
    then show False using x by (simp add: flooded_def)
  qed
  have links: "area_links ?b = area_links bsp" by (rule area_links_cong) simp_all
  have wf1: "in_range ?b" "symp (area_links ?b)"
    using wf symp_area_links [OF wf] links by (simp_all add: wf_areas_def in_range_def)
  have ok: "flood_ok ?b 0 (areas bsp)" using none by (simp add: flood_ok_def)
  have n: "nat 1 + nat (num_areas bsp - 1) \<le> length (areas bsp) \<or> num_areas bsp \<le> 1"
    using wf by (auto simp: wf_areas_def)
  have "\<exists>ars num. flood_each ?b 1 (nat (num_areas bsp - 1)) 0 (areas bsp) = Inr ars \<and>
      same_layout (areas bsp) ars \<and> flood_ok ?b num ars \<and>
      (\<forall>x. \<not> flooded ?b ars x \<longrightarrow> ars ! x = areas bsp ! x) \<and>
      (\<forall>k. 1 \<le> k \<and> int k < num_areas bsp \<longrightarrow> flooded ?b ars k)"
  proof (cases "num_areas bsp \<le> 1")
    case True
    then show ?thesis using ok by fastforce
  next
    case False
    then obtain ars num where "flood_each ?b 1 (nat (num_areas bsp - 1)) 0 (areas bsp) = Inr ars"
        "same_layout (areas bsp) ars" "flood_ok ?b num ars" "\<forall>x. \<not> flooded ?b ars x \<longrightarrow> ars ! x = areas bsp ! x"
        "\<forall>k. nat 1 \<le> k \<and> k < nat 1 + nat (num_areas bsp - 1) \<longrightarrow> flooded ?b ars k"
      using flood_each_result [OF wf1, of "areas bsp" 0 1 "nat (num_areas bsp - 1)"] ok n by auto
    moreover have "1 \<le> k \<and> int k < num_areas bsp \<longleftrightarrow> nat 1 \<le> k \<and> k < nat 1 + nat (num_areas bsp - 1)" for k
      using False by auto
    ultimately show ?thesis by metis
  qed
  then obtain ars num where r: "flood_each ?b 1 (nat (num_areas bsp - 1)) 0 (areas bsp) = Inr ars"
      "same_layout (areas bsp) ars" "flood_ok ?b num ars"
      "\<And>x. \<not> flooded ?b ars x \<Longrightarrow> ars ! x = areas bsp ! x"
      "\<And>k. 1 \<le> k \<and> int k < num_areas bsp \<Longrightarrow> flooded ?b ars k"
    by blast
  let ?b' = "bsp\<lparr>areas_valid := areas_valid bsp + 1, areas := ars\<rparr>"
  have l: "area_links ?b' = area_links ?b" "joins ?b' = joins bsp" "in_range ?b'"
    using area_links_cong [of ?b ?b'] joins_cong [of bsp ?b'] in_range_cong [of ?b ?b'] r(2) wf1(1)
    by (simp_all add: fun_eq_iff)
  have "flood_valid (ars ! x) \<le> areas_valid bsp + 1" if "x < length ars" for x
  proof (cases "flooded ?b ars x")
    case True
    then show ?thesis by (simp add: flooded_def)
  next
    case False
    have "areas bsp ! x \<in> set (areas bsp)" using that r(2) by (simp add: same_layout_def)
    then have "flood_valid (areas bsp ! x) \<le> areas_valid bsp" using wf by (simp add: wf_areas_def)
    then show ?thesis using r(4) [OF False] by simp
  qed
  then have "wf_areas ?b'"
    using wf l r(2) by (auto simp: wf_areas_def same_layout_def all_set_conv_all_nth)
  moreover have "flooded ?b' = flooded ?b" "painted ?b' = painted ?b"
    by (simp_all add: fun_eq_iff flooded_def painted_def)
  moreover from this have "flood_ok ?b' num ars" using r(3) l(1) by (simp add: flood_ok_def)
  ultimately have "all_flooded ?b'" using r(5) by (auto simp: all_flooded_def)
  then show ?thesis using r(1) l(2) by (auto simp: Cm_FloodAreaConnections_def Let_def)
qed

lemma flooded_connected:
  assumes "all_flooded bsp" and "1 \<le> a" and "int a < num_areas bsp" and "1 \<le> b" and "int b < num_areas bsp"
  shows "flood_num (areas bsp ! a) = flood_num (areas bsp ! b) \<longleftrightarrow> (area_links bsp)\<^sup>*\<^sup>* a b"
proof -
  obtain num where ok: "flood_ok bsp num (areas bsp)" and f: "flooded bsp (areas bsp) a" "flooded bsp (areas bsp) b"
    using assms by (auto simp: all_flooded_def)
  have "(area_links bsp)\<^sup>*\<^sup>* a b \<Longrightarrow> painted bsp (areas bsp) (flood_num (areas bsp ! a)) b"
  proof (induction rule: rtranclp_induct)
    case base
    then show ?case using f by (simp add: painted_def)
  next
    case (step x y)
    then show ?case using ok by (auto simp: flood_ok_def painted_def)
  qed
  then show ?thesis using ok f by (auto simp: flood_ok_def painted_def)
qed

lemma areas_connected:
  assumes "all_flooded bsp" and "\<not> no_areas bsp" and "1 \<le> a" and "a < num_areas bsp" and "1 \<le> b" and "b < num_areas bsp"
  shows "Cm_AreasConnected bsp a b = Inr ((area_links bsp)\<^sup>*\<^sup>* (nat a) (nat b))"
proof -
  have "nat a < length (areas bsp)" "nat b < length (areas bsp)"
    using assms by (auto simp: all_flooded_def wf_areas_def)
  then show ?thesis
    using assms flooded_connected [OF assms(1), of "nat a" "nat b"]
    by (simp add: Cm_AreasConnected_def at_index_def)
qed

lemma set_portal_floods:
  assumes wf: "wf_areas bsp" and "0 \<le> num" and "num \<le> total_area_portals bsp" and "nat num < length (portal_open bsp)"
  shows "\<exists>bsp'. Cm_SetAreaPortalState bsp num is_open = Inr bsp' \<and> all_flooded bsp' \<and>
    portal_open bsp' = (portal_open bsp)[nat num := is_open] \<and> num_areas bsp' = num_areas bsp \<and>
    no_areas bsp' = no_areas bsp \<and> joins bsp' = joins bsp"
proof -
  let ?b = "bsp\<lparr>portal_open := (portal_open bsp)[nat num := is_open]\<rparr>"
  have j: "joins ?b = joins bsp" by (simp add: fun_eq_iff joins_def portal_at_def)
  have "wf_areas ?b" using wf j by (simp add: wf_areas_def in_range_def)
  then obtain ars where "Cm_FloodAreaConnections ?b = Inr (?b\<lparr>areas_valid := areas_valid ?b + 1, areas := ars\<rparr>)"
      "all_flooded (?b\<lparr>areas_valid := areas_valid ?b + 1, areas := ars\<rparr>)"
      "joins (?b\<lparr>areas_valid := areas_valid ?b + 1, areas := ars\<rparr>) = joins ?b"
    using flood_connections by blast
  then show ?thesis using assms(2-) j by (simp add: Cm_SetAreaPortalState_def not_less)
qed

text \<open>The bit vector of an area.\<close>

definition area_bit :: "byte list \<Rightarrow> nat \<Rightarrow> bool" where
  "area_bit buffer i \<longleftrightarrow> bit (buffer ! (i div 8)) (i mod 8)"

lemma length_mark_areas [simp]: "length (mark_areas f is buffer) = length buffer"
  by (induction f "is" buffer rule: mark_areas.induct) simp_all

lemma area_bit_update:
  "i div 8 < length buffer \<Longrightarrow> j div 8 < length buffer \<Longrightarrow>
   area_bit (buffer[i div 8 := buffer ! (i div 8) OR 2 ^ (i mod 8)]) j \<longleftrightarrow> area_bit buffer j \<or> j = i"
proof (cases "i div 8 = j div 8")
  case True
  assume "i div 8 < length buffer"
  moreover have "j mod 8 = i mod 8 \<longleftrightarrow> j = i" using True by (metis div_mult_mod_eq)
  ultimately show ?thesis
    using True by (auto simp: area_bit_def bit_or_iff bit_exp_iff possible_bit_def)
qed (auto simp: area_bit_def)

lemma area_bit_mark:
  "\<forall>i \<in> set is. i div 8 < length buffer \<Longrightarrow> j div 8 < length buffer \<Longrightarrow>
   area_bit (mark_areas f is buffer) j \<longleftrightarrow> area_bit buffer j \<or> j \<in> set is \<and> f j"
  by (induction f "is" buffer rule: mark_areas.induct) (auto simp: area_bit_update)

lemma write_area_bits:
  assumes fl: "all_flooded bsp" and no: "\<not> no_areas bsp" and a: "0 \<le> area" "area < num_areas bsp"
    and room: "num_areas bsp \<le> 8 * int (length buffer)"
  shows "\<exists>buffer'. Cm_WriteAreaBits bsp buffer area = Inr (nat (num_areas bsp + 7) div 8, buffer') \<and>
    length buffer' = length buffer \<and>
    (\<forall>i. 1 \<le> i \<and> int i < num_areas bsp \<longrightarrow>
       area_bit buffer' i = (area = 0 \<or> (area_links bsp)\<^sup>*\<^sup>* (nat area) i))"
proof -
  let ?n = "nat (num_areas bsp)" and ?bytes = "nat (num_areas bsp + 7) div 8"
  let ?zero = "store_bytes 0 (replicate ?bytes 0) buffer :: byte list"
  let ?f = "\<lambda>i. flood_num (areas bsp ! i) = flood_num (areas bsp ! nat area) \<or> area = 0"
  have len: "?n \<le> length (areas bsp)" "?bytes \<le> length buffer" "nat area < length (areas bsp)"
    using fl room a by (auto simp: all_flooded_def wf_areas_def)
  have z: "\<not> area_bit ?zero i" if "i < ?n" for i
  proof -
    have i: "i div 8 < ?bytes" using that by linarith
    have "take ?bytes ?zero = replicate ?bytes 0" using take_store_bytes [of 0 "replicate ?bytes 0" buffer] len by simp
    then have "?zero ! (i div 8) = 0" by (metis i nth_replicate nth_take)
    then show ?thesis by (simp add: area_bit_def)
  qed
  have b: "area_bit (mark_areas ?f [0 ..< ?n] ?zero) i \<longleftrightarrow> ?f i" if "i < ?n" for i
    using that len z [OF that] by (subst area_bit_mark) (auto simp: less_mult_imp_div_less)
  have "Cm_WriteAreaBits bsp buffer area = Inr (?bytes, mark_areas ?f [0 ..< ?n] ?zero)"
    using len a no by (simp add: Cm_WriteAreaBits_def at_index_def Let_def)
  moreover have "area_bit (mark_areas ?f [0 ..< ?n] ?zero) i = (area = 0 \<or> (area_links bsp)\<^sup>*\<^sup>* (nat area) i)"
    if "1 \<le> i" "int i < num_areas bsp" for i
    using that b [of i] flooded_connected [OF fl, of "nat area" i] a by (cases "area = 0") auto
  ultimately show ?thesis by auto
qed

section \<open>Properties\<close>

text \<open>A map with two areas, joined by the portal 1.\<close>

definition sample_areas :: bsp_areas where
  "sample_areas =
     \<lparr>num_areas = 3,
      areas = [\<lparr>num_area_portals = 0, first_area_portal = 0, flood_num = 0, flood_valid = 0\<rparr>,
        \<lparr>num_area_portals = 1, first_area_portal = 1, flood_num = 0, flood_valid = 0\<rparr>,
        \<lparr>num_area_portals = 1, first_area_portal = 2, flood_num = 0, flood_valid = 0\<rparr>],
      total_area_portals = 3,
      area_portals = [\<lparr>portal_num = 0, other_area = 0\<rparr>,
        \<lparr>portal_num = 1, other_area = 2\<rparr>, \<lparr>portal_num = 1, other_area = 1\<rparr>],
      areas_valid = 0, portal_open = [False, False], no_areas = False\<rparr>"

lemma sample_joins:
  "joins sample_areas num a b \<longleftrightarrow> num = 1 \<and> (a = 1 \<and> b = 2 \<or> a = 2 \<and> b = 1)"
proof (cases "a < 3")
  case True
  then have "a = 0 \<or> a = 1 \<or> a = 2" by auto
  then show ?thesis by (elim disjE) (simp_all add: joins_def sample_areas_def portal_at_def, auto)
next
  case False
  then show ?thesis by (auto simp: joins_def sample_areas_def)
qed

lemma sample_wf: "wf_areas sample_areas"
  unfolding wf_areas_def sample_joins by (auto simp: sample_areas_def in_range_def)

text \<open>
  C17: When a portal opens or closes, the areas are flooded anew without an error, and two
  areas count as connected exactly if a chain of open portals leads from one to the other.
\<close>

theorem portals_connect_areas:
  assumes "wf_areas bsp" and "0 \<le> num" and "num \<le> total_area_portals bsp"
    and "nat num < length (portal_open bsp)"
  shows "\<exists>bsp'. Cm_SetAreaPortalState bsp num is_open = Inr bsp' \<and> wf_areas bsp' \<and>
    portal_open bsp' = (portal_open bsp)[nat num := is_open] \<and> joins bsp' = joins bsp \<and>
    (\<forall>a b. \<not> no_areas bsp \<and> 1 \<le> a \<and> a < num_areas bsp \<and> 1 \<le> b \<and> b < num_areas bsp \<longrightarrow>
       Cm_AreasConnected bsp' a b = Inr ((area_links bsp')\<^sup>*\<^sup>* (nat a) (nat b)))"
proof -
  obtain bsp' where b: "Cm_SetAreaPortalState bsp num is_open = Inr bsp'" "all_flooded bsp'"
      "portal_open bsp' = (portal_open bsp)[nat num := is_open]" "num_areas bsp' = num_areas bsp"
      "no_areas bsp' = no_areas bsp" "joins bsp' = joins bsp"
    using set_portal_floods [OF assms, of is_open] by auto
  moreover from this have "wf_areas bsp'" by (simp add: all_flooded_def)
  ultimately show ?thesis using areas_connected [OF b(2)] by (intro exI [of _ bsp']) simp
qed

theorem portals_connect_areas_witness:
  "\<exists>bsp' bsp''. Cm_SetAreaPortalState sample_areas 1 True = Inr bsp' \<and>
     Cm_AreasConnected bsp' 1 2 = Inr True \<and> Cm_SetAreaPortalState sample_areas 1 False = Inr bsp'' \<and>
     Cm_AreasConnected bsp'' 1 2 = Inr False"
proof -
  have s: "num_areas sample_areas = 3" "\<not> no_areas sample_areas" "total_area_portals sample_areas = 3"
      "portal_open sample_areas = [False, False]"
    by (simp_all add: sample_areas_def)
  have set: "\<exists>bsp'. Cm_SetAreaPortalState sample_areas 1 is_open = Inr bsp' \<and>
      Cm_AreasConnected bsp' 1 2 = Inr is_open" for is_open
  proof -
    obtain bsp' where b: "Cm_SetAreaPortalState sample_areas 1 is_open = Inr bsp'"
        "portal_open bsp' = [False, is_open]" "joins bsp' = joins sample_areas"
        "Cm_AreasConnected bsp' 1 2 = Inr ((area_links bsp')\<^sup>*\<^sup>* 1 2)"
      using portals_connect_areas [OF sample_wf, of 1 is_open] s by auto
    have l: "area_links bsp' a b \<longleftrightarrow> is_open \<and> (a = 1 \<and> b = 2 \<or> a = 2 \<and> b = 1)" for a b
      by (auto simp: area_links_joins b(2,3) sample_joins)
    have "(area_links bsp')\<^sup>*\<^sup>* 1 2 \<longleftrightarrow> is_open"
    proof (cases is_open)
      case True
      then have "area_links bsp' 1 2" by (simp add: l)
      then show ?thesis using True by blast
    next
      case False
      have "(area_links bsp')\<^sup>*\<^sup>* 1 x \<Longrightarrow> x = 1" for x
        by (induction rule: rtranclp_induct) (simp_all add: l False)
      then show ?thesis using False by fastforce
    qed
    then show ?thesis using b by auto
  qed
  then show ?thesis by blast
qed

text \<open>
  C18: The bit vector for the client marks exactly the areas that can be seen from the area
  of the client, or all of them outside the map, in as many bytes as there are areas for.
\<close>

theorem area_bits_connected:
  assumes "wf_areas bsp" and "0 \<le> num" and "num \<le> total_area_portals bsp"
    and "nat num < length (portal_open bsp)" and "\<not> no_areas bsp"
    and "0 \<le> area" and "area < num_areas bsp" and "num_areas bsp \<le> 8 * int (length buffer)"
  shows "\<exists>bsp' buffer'. Cm_SetAreaPortalState bsp num is_open = Inr bsp' \<and>
    Cm_WriteAreaBits bsp' buffer area = Inr (nat (num_areas bsp + 7) div 8, buffer') \<and>
    (\<forall>i. 1 \<le> i \<and> int i < num_areas bsp \<longrightarrow>
       area_bit buffer' i = (area = 0 \<or> (area_links bsp')\<^sup>*\<^sup>* (nat area) i))"
proof -
  obtain bsp' where b: "Cm_SetAreaPortalState bsp num is_open = Inr bsp'" "all_flooded bsp'"
      "num_areas bsp' = num_areas bsp" "no_areas bsp' = no_areas bsp"
    using set_portal_floods [OF assms(1-4), of is_open] by auto
  show ?thesis using write_area_bits [OF b(2), of area buffer] assms(5-) b by auto
qed

theorem area_bits_connected_witness:
  "\<exists>bsp' buffer'. Cm_SetAreaPortalState sample_areas 1 True = Inr bsp' \<and>
     Cm_WriteAreaBits bsp' [0, 0] 0 = Inr (1, buffer') \<and> area_bit buffer' 2"
proof -
  have s: "num_areas sample_areas = 3" "\<not> no_areas sample_areas" "total_area_portals sample_areas = 3"
      "length (portal_open sample_areas) = 2"
    by (simp_all add: sample_areas_def)
  obtain bsp' buffer' where b: "Cm_SetAreaPortalState sample_areas 1 True = Inr bsp'"
      "Cm_WriteAreaBits bsp' [0, 0] 0 = Inr (nat (num_areas sample_areas + 7) div 8, buffer')"
      "\<forall>i. 1 \<le> i \<and> int i < num_areas sample_areas \<longrightarrow>
         area_bit buffer' i = (0 = (0 :: int) \<or> (area_links bsp')\<^sup>*\<^sup>* (nat 0) i)"
    using area_bits_connected [OF sample_wf, of 1 0 "[0, 0]" True] s by force
  then have "area_bit buffer' 2" unfolding s by simp
  then show ?thesis using b(1,2) unfolding s by auto
qed

end
