(* ===== verification/Cm_Vis.thy ===== *)
theory Cm_Vis
  imports Q2W_Prelude
begin

text \<open>
  Visibility data. The map compiler computes, for every cluster, a bit vector of the
  clusters it may see (PVS) or hear (PHS) and compresses its runs of zero bytes
  (\<open>CompressVis\<close> in \<open>src/tools/q2wmap/bspfile.c\<close>); the engine decompresses a row on
  demand (\<open>src/cmodel.c\<close>). \<open>bsp_vis\<close> holds \<open>c_bsp.visibility\<close>, \<open>c_bsp.num_visibility\<close>
  and the header \<open>*c_vis\<close>.
\<close>

definition MAX_BSP_LEAFS :: nat where "MAX_BSP_LEAFS = 65536"

declare MAX_BSP_LEAFS_def [limits]

record bsp_vis =
  visibility :: "byte list"
  num_visibility :: int
  num_clusters :: int
  bit_offsets :: "(int \<times> int) list"

section \<open>Compression\<close>

text \<open>The inner loop: the length of the run, at most 255.\<close>

fun run_of_zeros :: "nat \<Rightarrow> byte list \<Rightarrow> nat" where
  "run_of_zeros rep [] = rep"
| "run_of_zeros rep (b # bs) = (if b \<noteq> 0 \<or> rep = 0xff then rep else run_of_zeros (rep + 1) bs)"

lemma run_of_zeros_ge: "rep \<le> run_of_zeros rep bs"
  by (induction rep bs rule: run_of_zeros.induct) auto

function CompressVis :: "byte list \<Rightarrow> byte list" where
  "CompressVis vis =
     (case vis of
        [] \<Rightarrow> []
      | b # bs \<Rightarrow>
          if b \<noteq> 0 then b # CompressVis bs
          else let rep = run_of_zeros 1 bs in 0 # word_of_nat rep # CompressVis (drop (rep - 1) bs))"
  by pat_completeness auto
termination
  by (relation "measure length") auto

declare CompressVis.simps [simp del]

section \<open>Decompression\<close>

text \<open>\<open>(num_clusters + 7) >> 3\<close>\<close>

definition vis_row :: "bsp_vis \<Rightarrow> nat" where
  "vis_row v = nat ((num_clusters v + 7) div 8)"

text \<open>
  The \<open>do\<close> loop: \<open>out\<close> is what has been written so far. A run that would go past the
  row is cut off.
\<close>

function decompress :: "nat \<Rightarrow> byte list \<Rightarrow> byte list \<Rightarrow> byte list result" where
  "decompress row inp out =
     (case inp of
        [] \<Rightarrow> Inl Bad_Access
      | b # inp1 \<Rightarrow>
          if b \<noteq> 0 then (if length out + 1 < row then decompress row inp1 (out @ [b]) else Inr (out @ [b]))
          else (case inp1 of
             [] \<Rightarrow> Inl Bad_Access
           | n # inp2 \<Rightarrow>
               let c = (if length out + unat n > row then row - length out else unat n)
               in if length out + c < row then decompress row inp2 (out @ replicate c 0)
                  else Inr (out @ replicate c 0)))"
  by pat_completeness auto
termination
  by (relation "measure (\<lambda>(_, inp, _). length inp)") auto

declare decompress.simps [simp del]

definition Cm_DecompressVis :: "bsp_vis \<Rightarrow> byte list option \<Rightarrow> byte list \<Rightarrow> byte list result" where
  "Cm_DecompressVis v inp out =
     (let row = vis_row v in
      bindE (if inp = None \<or> num_visibility v = 0 then Inr (replicate row 0xff)
             else decompress row (the inp) []) (\<lambda>bs.
        if length bs > length out then Inl Bad_Access else Inr (store_bytes 0 bs out)))"

text \<open>
  The static rows of \<open>Cm_ClusterPVS\<close> and \<open>Cm_ClusterPHS\<close> are passed in and returned.
\<close>

definition cluster_row :: "(int \<times> int \<Rightarrow> int) \<Rightarrow> bsp_vis \<Rightarrow> int \<Rightarrow> byte list \<Rightarrow> byte list result" where
  "cluster_row which v cluster buf =
     (if cluster = -1 then
        (if vis_row v > length buf then Inl Bad_Access
         else Inr (store_bytes 0 (replicate (vis_row v) 0) buf))
      else bindE (at_index (bit_offsets v) cluster) (\<lambda>offs.
        if which offs < 0 then Inl Bad_Access
        else Cm_DecompressVis v (Some (drop (nat (which offs)) (visibility v))) buf))"

definition Cm_ClusterPVS :: "bsp_vis \<Rightarrow> int \<Rightarrow> byte list \<Rightarrow> byte list result" where
  "Cm_ClusterPVS = cluster_row fst"

definition Cm_ClusterPHS :: "bsp_vis \<Rightarrow> int \<Rightarrow> byte list \<Rightarrow> byte list result" where
  "Cm_ClusterPHS = cluster_row snd"

text \<open>\<open>vis[cluster >> 3] & (1 << (cluster & 7))\<close>\<close>

definition sees :: "byte list \<Rightarrow> nat \<Rightarrow> bool" where
  "sees vis c \<longleftrightarrow> bit (vis ! (c div 8)) (c mod 8)"

section \<open>Decompression undoes compression\<close>

lemma run_of_zeros_bounds:
  "1 \<le> rep \<Longrightarrow> rep \<le> 255 \<Longrightarrow> run_of_zeros rep bs \<le> 255 \<and> run_of_zeros rep bs - rep \<le> length bs \<and>
   take (run_of_zeros rep bs - rep) bs = replicate (run_of_zeros rep bs - rep) 0"
proof (induction rep bs rule: run_of_zeros.induct)
  case (2 rep b bs)
  show ?case
  proof (cases "b \<noteq> 0 \<or> rep = 255")
    case False
    then have r: "run_of_zeros rep (b # bs) = run_of_zeros (rep + 1) bs" "rep + 1 \<le> run_of_zeros (rep + 1) bs"
      using run_of_zeros_ge by auto
    then obtain k where k: "run_of_zeros (rep + 1) bs = rep + 1 + k" using le_Suc_ex by blast
    then show ?thesis using 2 False r by simp
  qed (use 2 in auto)
qed simp

lemma run_split:
  "bs = replicate (run_of_zeros 1 bs - 1) 0 @ drop (run_of_zeros 1 bs - 1) bs"
  using run_of_zeros_bounds [of 1 bs] by (metis append_take_drop_id le_refl one_le_numeral)

lemma decompress_compress:
  "bs \<noteq> [] \<Longrightarrow> length out + length bs = row \<Longrightarrow>
   decompress row (CompressVis bs @ rest) out = Inr (out @ bs)"
proof (induction bs arbitrary: out rule: CompressVis.induct)
  case (1 bs)
  obtain b cs where bs: "bs = b # cs" using "1.prems" by (cases bs) auto
  show ?case
  proof (cases "b = 0")
    case False
    then have "decompress row (CompressVis bs @ rest) out =
        (if length (out @ [b]) < row then decompress row (CompressVis cs @ rest) (out @ [b]) else Inr (out @ [b]))"
      by (subst CompressVis.simps, subst decompress.simps) (simp add: bs)
    then show ?thesis using "1.IH"(1) [OF bs False, of "out @ [b]"] "1.prems" bs by (cases "cs = []") auto
  next
    case True
    define k where "k = run_of_zeros 1 cs - 1"
    have k: "run_of_zeros 1 cs = Suc k" "k < 255" "k \<le> length cs" "cs = replicate k 0 @ drop k cs"
      using run_of_zeros_ge [of 1 cs] run_of_zeros_bounds [of 1 cs] run_split [of cs] by (auto simp: k_def)
    define w :: byte where "w = word_of_nat (Suc k)"
    have u: "unat w = Suc k"
      using k(2) by (simp add: w_def unat_of_nat take_bit_nat_eq_self del: of_nat_Suc)
    have c: "CompressVis bs = 0 # w # CompressVis (drop k cs)"
      using k(1) True by (subst CompressVis.simps) (simp add: bs w_def)
    have b0: "b # cs = out' \<Longrightarrow> replicate (Suc k) 0 @ drop k cs = out'" for out' using k(4) True by auto
    have "decompress row (CompressVis bs @ rest) out =
        (if length out + Suc k < row then decompress row (CompressVis (drop k cs) @ rest) (out @ replicate (Suc k) 0)
         else Inr (out @ replicate (Suc k) 0))"
      using k(3) "1.prems" bs u unfolding c by (subst decompress.simps) simp
    moreover have "decompress row (CompressVis (drop k cs) @ rest) (out @ replicate (Suc k) 0) =
        Inr (out @ replicate (Suc k) 0 @ drop k cs)" if "drop k cs \<noteq> []"
      using "1.IH"(2) [OF bs, of "Suc k" "out @ replicate (Suc k) 0"] True k that "1.prems" bs by simp
    ultimately show ?thesis
      using "1.prems" bs b0 [OF refl] k(3) by (cases "drop k cs = []") auto
  qed
qed

text \<open>The size of a compressed row: an isolated zero byte takes two.\<close>

lemma length_CompressVis:
  "2 * length (CompressVis bs) \<le> 3 * length bs + (if bs \<noteq> [] \<and> hd bs = 0 then 1 else 0)"
proof (induction bs rule: CompressVis.induct)
  case (1 bs)
  show ?case
  proof (cases bs)
    case (Cons b cs)
    show ?thesis
    proof (cases "b = 0")
      case False
      then show ?thesis
        using "1.IH"(1) [OF Cons False] by (subst CompressVis.simps) (auto simp: Cons split: if_splits)
    next
      case True
      define k where "k = run_of_zeros 1 cs - 1"
      have k: "run_of_zeros 1 cs = Suc k" using run_of_zeros_ge [of 1 cs] by (simp add: k_def)
      have len: "k \<le> length cs" using run_of_zeros_bounds [of 1 cs] by (simp add: k_def)
      have head: "k = 0 \<longrightarrow> cs \<noteq> [] \<longrightarrow> hd cs \<noteq> 0"
        using k run_of_zeros_ge [of "Suc (Suc 0)" "tl cs"] by (cases cs) (auto split: if_splits)
      have e: "length (CompressVis bs) = 2 + length (CompressVis (drop k cs))"
        using k True by (subst CompressVis.simps) (simp add: Cons)
      have "2 * length (CompressVis (drop k cs)) \<le> 3 * (length cs - k) + (if k = 0 then 0 else 1)"
        using "1.IH"(2) [OF Cons, of "Suc k"] True k head by (auto split: if_splits)
      then show ?thesis using e len True by (auto simp: Cons split: if_splits)
    qed
  qed (simp add: CompressVis.simps)
qed

section \<open>Properties\<close>

lemma cluster_row_compressed:
  assumes "0 \<le> cluster" and "nat cluster < length (bit_offsets v)" and "num_visibility v \<noteq> 0"
    and "visibility v = pre @ CompressVis row @ rest"
    and "which (bit_offsets v ! nat cluster) = int (length pre)"
    and "length row = vis_row v" and "row \<noteq> []" and "vis_row v \<le> length buf"
  shows "cluster_row which v cluster buf = Inr (store_bytes 0 row buf)"
  using assms decompress_compress [OF assms(7), of "[]" "vis_row v" rest]
  by (simp add: cluster_row_def at_index_def Cm_DecompressVis_def)

text \<open>
  C19: The row of a cluster that the map compiler has compressed into the visibility data is
  what the engine decompresses, for the PVS and for the PHS, and it takes at most half as
  many bytes more than the row itself.
\<close>

theorem vis_roundtrip:
  assumes "0 \<le> cluster" and "nat cluster < length (bit_offsets v)" and "num_visibility v \<noteq> 0"
    and "visibility v = pre @ CompressVis row @ rest"
    and "length row = vis_row v" and "row \<noteq> []" and "vis_row v \<le> length buf"
  shows "(fst (bit_offsets v ! nat cluster) = int (length pre) \<longrightarrow>
       (\<exists>buf'. Cm_ClusterPVS v cluster buf = Inr buf' \<and> take (vis_row v) buf' = row)) \<and>
     (snd (bit_offsets v ! nat cluster) = int (length pre) \<longrightarrow>
       (\<exists>buf'. Cm_ClusterPHS v cluster buf = Inr buf' \<and> take (vis_row v) buf' = row)) \<and>
     2 * length (CompressVis row) \<le> 3 * length row + 1"
proof (intro conjI impI)
  have t: "take (vis_row v) (store_bytes 0 row buf) = row"
    using take_store_bytes [of 0 row buf] assms(5,7) by simp
  show "\<exists>buf'. Cm_ClusterPVS v cluster buf = Inr buf' \<and> take (vis_row v) buf' = row"
    if "fst (bit_offsets v ! nat cluster) = int (length pre)"
    using cluster_row_compressed [of cluster v pre row rest fst, OF assms(1-4) that assms(5-7)] t
    by (simp add: Cm_ClusterPVS_def)
  show "\<exists>buf'. Cm_ClusterPHS v cluster buf = Inr buf' \<and> take (vis_row v) buf' = row"
    if "snd (bit_offsets v ! nat cluster) = int (length pre)"
    using cluster_row_compressed [of cluster v pre row rest snd, OF assms(1-4) that assms(5-7)] t
    by (simp add: Cm_ClusterPHS_def)
  show "2 * length (CompressVis row) \<le> 3 * length row + 1"
    using length_CompressVis [of row] by (simp split: if_splits)
qed

definition sample_vis :: bsp_vis where
  "sample_vis = \<lparr>visibility = CompressVis [5, 0, 0, 9] @ [7], num_visibility = 6, num_clusters = 30,
     bit_offsets = [(0, 0)]\<rparr>"

theorem vis_roundtrip_witness:
  "\<exists>buf'. Cm_ClusterPVS sample_vis 0 (replicate 6 3) = Inr buf' \<and> take 4 buf' = [5, 0, 0, 9]"
proof -
  have "vis_row sample_vis = 4" by (simp add: sample_vis_def vis_row_def)
  then show ?thesis
    using vis_roundtrip [of 0 sample_vis "[]" "[5, 0, 0, 9]" "[7]" "replicate 6 3"]
    by (simp add: sample_vis_def)
qed

end
