(* ===== verification/Sv_Links.thy ===== *)
theory Sv_Links
  imports Q2W_Prelude
begin

text \<open>
  The links of \<open>src/server/sv_world.c\<close>: every division of the world has two circular doubly
  linked lists of edicts, threaded through the edicts themselves. The store of the links
  is explicit (\<open>link_heap\<close>); \<open>None\<close> is the null pointer. The locale \<open>bucket_store\<close> states
  what the world relies on, and is interpreted on the operations of the code.
\<close>

section \<open>Operations\<close>

datatype link_ref = Trigger_Edicts nat | Solid_Edicts nat | Edict_Area nat

record link_heap =
  link_prev :: "link_ref \<Rightarrow> link_ref option"
  link_next :: "link_ref \<Rightarrow> link_ref option"

definition set_prev :: "link_ref \<Rightarrow> link_ref option \<Rightarrow> link_heap \<Rightarrow> link_heap" where
  "set_prev l p h = h\<lparr>link_prev := (link_prev h)(l := p)\<rparr>"

definition set_next :: "link_ref \<Rightarrow> link_ref option \<Rightarrow> link_heap \<Rightarrow> link_heap" where
  "set_next l n h = h\<lparr>link_next := (link_next h)(l := n)\<rparr>"

text \<open>Going through a pointer, which must not be null.\<close>

definition through :: "'a option \<Rightarrow> ('a \<Rightarrow> 'b result) \<Rightarrow> 'b result" where
  "through p f = (case p of None \<Rightarrow> Inl Bad_Access | Some l \<Rightarrow> f l)"

lemma through_simps [simp]: "through None f = Inl Bad_Access" "through (Some l) f = f l"
  by (simp_all add: through_def)

definition Sv_ClearLink :: "link_ref \<Rightarrow> link_heap \<Rightarrow> link_heap" where
  "Sv_ClearLink l h = set_prev l (Some l) (set_next l (Some l) h)"

definition Sv_RemoveLink :: "link_ref \<Rightarrow> link_heap \<Rightarrow> link_heap result" where
  "Sv_RemoveLink l h =
     through (link_next h l) (\<lambda>n.
       let h = set_prev n (link_prev h l) h
       in through (link_prev h l) (\<lambda>p. Inr (set_next p (link_next h l) h)))"

definition Sv_InsertLink :: "link_ref \<Rightarrow> link_ref \<Rightarrow> link_heap \<Rightarrow> link_heap result" where
  "Sv_InsertLink l before h =
     (let h = set_next l (Some before) h;
          h = set_prev l (link_prev h before) h
      in through (link_prev h l) (\<lambda>p.
           let h = set_next p (Some l) h
           in through (link_next h l) (\<lambda>n. Inr (set_prev n (Some l) h))))"

definition Sv_UnlinkEdict :: "link_ref \<Rightarrow> link_heap \<Rightarrow> link_heap result" where
  "Sv_UnlinkEdict l h =
     (if link_prev h l = None then Inr h
      else bindE (Sv_RemoveLink l h) (\<lambda>h. Inr (set_prev l None (set_next l None h))))"

lemma set_simps [simp]:
  "link_prev (set_prev l p h) = (link_prev h)(l := p)" "link_next (set_prev l p h) = link_next h"
  "link_prev (set_next l p h) = link_prev h" "link_next (set_next l p h) = (link_next h)(l := p)"
  by (simp_all add: set_prev_def set_next_def)

section \<open>Rings\<close>

text \<open>\<open>linked h a xs b\<close>: from \<open>a\<close> the links lead through \<open>xs\<close> to \<open>b\<close>, and back.\<close>

fun linked :: "link_heap \<Rightarrow> link_ref \<Rightarrow> link_ref list \<Rightarrow> link_ref \<Rightarrow> bool" where
  "linked h a [] b \<longleftrightarrow> link_next h a = Some b \<and> link_prev h b = Some a"
| "linked h a (x # xs) b \<longleftrightarrow> link_next h a = Some x \<and> link_prev h x = Some a \<and> linked h x xs b"

definition ring :: "link_heap \<Rightarrow> link_ref \<Rightarrow> link_ref list \<Rightarrow> bool" where
  "ring h base xs \<longleftrightarrow> distinct (base # xs) \<and> linked h base xs base"

lemma linked_append: "linked h a (xs @ y # ys) b \<longleftrightarrow> linked h a xs y \<and> linked h y ys b"
  by (induction xs arbitrary: a) auto

lemma linked_cong:
  "(\<And>x. x \<in> set (a # xs) \<Longrightarrow> link_next h' x = link_next h x) \<Longrightarrow>
   (\<And>x. x \<in> set (xs @ [b]) \<Longrightarrow> link_prev h' x = link_prev h x) \<Longrightarrow> linked h' a xs b = linked h a xs b"
  by (induction xs arbitrary: a) auto

lemma ring_clear: "ring (Sv_ClearLink l h) l []"
  by (simp add: ring_def Sv_ClearLink_def)

lemma linked_snoc:
  "linked h a xs b \<Longrightarrow> link_prev h b = Some (last (a # xs)) \<and> link_next h (last (a # xs)) = Some b"
  by (induction xs arbitrary: a) auto

lemma linked_butlast:
  assumes "linked h a xs b" and "a \<notin> set xs" and "distinct xs" and "b \<notin> set xs"
    and "\<And>x. x \<in> set (butlast (a # xs)) \<Longrightarrow> link_next h' x = link_next h x"
    and "\<And>x. x \<in> set xs \<Longrightarrow> link_prev h' x = link_prev h x"
    and "link_next h' (last (a # xs)) = Some c" and "link_prev h' c = Some (last (a # xs))"
  shows "linked h' a xs c"
  using assms by (induction xs arbitrary: a) auto

lemma insert_ring:
  assumes r: "ring h base xs" and l: "l \<notin> set (base # xs)"
  shows "\<exists>h'. Sv_InsertLink l base h = Inr h' \<and> ring h' base (xs @ [l]) \<and>
    (\<forall>x. x \<notin> set (l # base # xs) \<longrightarrow> link_next h' x = link_next h x \<and> link_prev h' x = link_prev h x)"
proof -
  let ?t = "last (base # xs)"
  have k: "linked h base xs base" "distinct (base # xs)" using r by (simp_all add: ring_def)
  have t: "link_prev h base = Some ?t" using linked_snoc [OF k(1)] by simp
  have "?t \<in> set (base # xs)" by (rule last_in_set) simp
  then have tl: "?t \<noteq> l" using l by auto
  have hl: "base \<noteq> l" using l by auto
  let ?h = "set_prev base (Some l) (set_next ?t (Some l) (set_prev l (Some ?t) (set_next l (Some base) h)))"
  have "Sv_InsertLink l base h = Inr ?h"
    using t tl hl by (simp add: Sv_InsertLink_def Let_def)
  moreover have "linked ?h base xs l"
  proof (rule linked_butlast [OF k(1)])
    show "link_next ?h x = link_next h x" if "x \<in> set (butlast (base # xs))" for x
    proof -
      have "distinct (butlast (base # xs) @ [?t])" using k(2) by (metis append_butlast_last_id list.distinct(1))
      then have "x \<noteq> ?t" using that by auto
      moreover have "x \<noteq> l" using that l by (metis in_set_butlastD)
      ultimately show ?thesis by simp
    qed
    show "link_prev ?h x = link_prev h x" if "x \<in> set xs" for x using that k(2) l by auto
  qed (use k(2) tl hl in auto)
  moreover from this have "ring ?h base (xs @ [l])"
    using k(2) l tl hl by (simp add: ring_def linked_append)
  ultimately show ?thesis using hl \<open>?t \<in> set (base # xs)\<close> by auto
qed

lemma remove_ring:
  assumes r: "ring h base (xs @ l # ys)"
  shows "\<exists>h'. Sv_RemoveLink l h = Inr h' \<and> ring h' base (xs @ ys) \<and>
    (\<forall>x. x \<notin> set (base # xs @ ys) \<longrightarrow> link_next h' x = link_next h x \<and> link_prev h' x = link_prev h x)"
proof -
  have k: "linked h base xs l" "linked h l ys base" "distinct (base # xs @ l # ys)"
    using r by (simp_all add: ring_def linked_append)
  let ?p = "last (base # xs)" and ?n = "case ys of [] \<Rightarrow> base | y # _ \<Rightarrow> y"
  have p: "link_prev h l = Some ?p" using linked_snoc [OF k(1)] by simp
  have n: "link_next h l = Some ?n" using k(2) by (cases ys) auto
  have pm: "?p \<in> set (base # xs)" by (rule last_in_set) simp
  have nm: "?n \<in> set (base # ys)" by (cases ys) auto
  have ne: "?n \<noteq> l" "?p \<noteq> l" using nm pm k(3) by auto
  let ?h = "set_next ?p (Some ?n) (set_prev ?n (Some ?p) h)"
  have e: "Sv_RemoveLink l h = Inr ?h" using n p ne by (simp add: Sv_RemoveLink_def Let_def)
  have 1: "linked ?h base xs ?n"
  proof (rule linked_butlast [OF k(1)])
    show "link_next ?h x = link_next h x" if "x \<in> set (butlast (base # xs))" for x
    proof -
      have "distinct (base # xs)" using k(3) by auto
      then have "distinct (butlast (base # xs) @ [?p])" by (metis append_butlast_last_id list.distinct(1))
      then show ?thesis using that by auto
    qed
    show "link_prev ?h x = link_prev h x" if "x \<in> set xs" for x using that k(3) nm by auto
  qed (use k(3) in auto)
  have "linked ?h base (xs @ ys) base"
  proof (cases ys)
    case Nil
    then show ?thesis using 1 by simp
  next
    case (Cons y zs)
    have "linked ?h y zs base = linked h y zs base"
    proof (rule linked_cong)
      show "link_next ?h x = link_next h x" if "x \<in> set (y # zs)" for x
        using that pm k(3) Cons by auto
      show "link_prev ?h x = link_prev h x" if "x \<in> set (zs @ [base])" for x
        using that k(3) Cons by auto
    qed
    then show ?thesis using 1 k(2) Cons by (simp add: linked_append)
  qed
  then have "ring ?h base (xs @ ys)" using k(3) by (simp add: ring_def)
  then show ?thesis using e pm nm by auto
qed

section \<open>The interface\<close>

text \<open>
  \<open>holds H h L\<close>: in the store \<open>h\<close> the list of every head \<open>b\<close> in \<open>H\<close> is \<open>L b\<close>.
\<close>

definition elsewhere :: "'l set \<Rightarrow> ('l \<Rightarrow> 'l list) \<Rightarrow> 'l \<Rightarrow> bool" where
  "elsewhere H L l \<longleftrightarrow> l \<notin> H \<and> (\<forall>b \<in> H. l \<notin> set (L b))"

locale bucket_store =
  fixes insert_in :: "'l \<Rightarrow> 'l \<Rightarrow> 'h \<Rightarrow> 'h result"
    and unlink :: "'l \<Rightarrow> 'h \<Rightarrow> 'h result"
    and holds :: "'l set \<Rightarrow> 'h \<Rightarrow> ('l \<Rightarrow> 'l list) \<Rightarrow> bool"
  assumes buckets: "holds H h L \<Longrightarrow> b \<in> H \<Longrightarrow> distinct (L b) \<and> set (L b) \<inter> H = {} \<and>
      (\<forall>c \<in> H. c \<noteq> b \<longrightarrow> set (L b) \<inter> set (L c) = {})"
    and inserted: "holds H h L \<Longrightarrow> b \<in> H \<Longrightarrow> elsewhere H L l \<Longrightarrow>
      \<exists>h'. insert_in l b h = Inr h' \<and> holds H h' (L(b := L b @ [l]))"
    and unlinked: "holds H h L \<Longrightarrow> l \<notin> H \<Longrightarrow>
      \<exists>h'. unlink l h = Inr h' \<and> holds H h' (\<lambda>b. if b \<in> H then remove1 l (L b) else L b)"
begin

lemma elsewhere_unlinked:
  assumes "holds H h L" and "l \<notin> H"
  shows "elsewhere H (\<lambda>b. if b \<in> H then remove1 l (L b) else L b) l"
  using assms buckets [OF assms(1)] by (auto simp: elsewhere_def)

lemma relocated:
  assumes h: "holds H h L" and l: "l \<notin> H" and b: "b \<in> H"
  shows "\<exists>h1 h2 L'. unlink l h = Inr h1 \<and> insert_in l b h1 = Inr h2 \<and> holds H h2 L' \<and>
    (\<forall>c \<in> H. set (L' c) = set (L c) - {l} \<union> (if c = b then {l} else {}))"
proof -
  let ?L = "\<lambda>b. if b \<in> H then remove1 l (L b) else L b"
  obtain h1 where 1: "unlink l h = Inr h1" "holds H h1 ?L" using unlinked [OF h l] by blast
  obtain h2 where 2: "insert_in l b h1 = Inr h2" "holds H h2 (?L(b := ?L b @ [l]))"
    using inserted [OF 1(2) b elsewhere_unlinked [OF h l]] by blast
  have "set ((?L(b := ?L b @ [l])) c) = set (L c) - {l} \<union> (if c = b then {l} else {})" if "c \<in> H" for c
    using buckets [OF h that] that by auto
  then show ?thesis using 1(1) 2 by blast
qed

end

definition rings :: "link_ref set \<Rightarrow> link_heap \<Rightarrow> (link_ref \<Rightarrow> link_ref list) \<Rightarrow> bool" where
  "rings H h L \<longleftrightarrow> (\<forall>b \<in> H. ring h b (L b)) \<and> (\<forall>b \<in> H. set (L b) \<inter> H = {}) \<and>
     (\<forall>b \<in> H. \<forall>c \<in> H. c \<noteq> b \<longrightarrow> set (L b) \<inter> set (L c) = {}) \<and>
     (\<forall>l. l \<notin> H \<longrightarrow> (link_prev h l = None \<longleftrightarrow> elsewhere H L l))"

lemma ring_frame:
  "ring h b xs \<Longrightarrow> (\<And>x. x \<in> set (b # xs) \<Longrightarrow> link_next h' x = link_next h x \<and> link_prev h' x = link_prev h x) \<Longrightarrow>
   ring h' b xs"
  unfolding ring_def by (subst linked_cong [of b xs h' h]) auto

lemma ring_prev: "ring h b xs \<Longrightarrow> l \<in> set xs \<Longrightarrow> link_prev h l \<noteq> None"
proof -
  assume r: "ring h b xs" and "l \<in> set xs"
  then obtain ys zs where "xs = ys @ l # zs" by (auto dest: split_list)
  then have "linked h b ys l" using r by (simp add: ring_def linked_append)
  then show ?thesis using linked_snoc by fastforce
qed

lemma rings_apart:
  "rings H h L \<Longrightarrow> b \<in> H \<Longrightarrow> x \<in> set (L b) \<Longrightarrow> x \<notin> H"
  "rings H h L \<Longrightarrow> b \<in> H \<Longrightarrow> c \<in> H \<Longrightarrow> c \<noteq> b \<Longrightarrow> x \<in> set (L c) \<Longrightarrow> x \<notin> set (L b)"
  unfolding rings_def by blast+

lemma rings_insert:
  assumes h: "rings H h L" and b: "b \<in> H" and l: "elsewhere H L l"
  shows "\<exists>h'. Sv_InsertLink l b h = Inr h' \<and> rings H h' (L(b := L b @ [l]))"
proof -
  have "l \<notin> set (b # L b)" using b l by (auto simp: elsewhere_def)
  then obtain h' where i: "Sv_InsertLink l b h = Inr h'" "ring h' b (L b @ [l])"
      "\<And>x. x \<notin> set (l # b # L b) \<Longrightarrow> link_next h' x = link_next h x \<and> link_prev h' x = link_prev h x"
    using insert_ring [of h b "L b" l] h b unfolding rings_def by blast
  have "ring h' c (L c)" if "c \<in> H" "c \<noteq> b" for c
  proof (rule ring_frame)
    show "ring h c (L c)" using h that by (simp add: rings_def)
    show "link_next h' x = link_next h x \<and> link_prev h' x = link_prev h x" if "x \<in> set (c # L c)" for x
      using that \<open>c \<in> H\<close> \<open>c \<noteq> b\<close> b l rings_apart(1) [OF h \<open>c \<in> H\<close>] rings_apart(1) [OF h b]
        rings_apart(2) [OF h b \<open>c \<in> H\<close> \<open>c \<noteq> b\<close>]
      by (intro i(3)) (auto simp: elsewhere_def)
  qed
  moreover have "link_prev h' x = None \<longleftrightarrow> elsewhere H (L(b := L b @ [l])) x" if "x \<notin> H" for x
  proof (cases "x \<in> set (l # L b)")
    case True
    then show ?thesis using ring_prev [OF i(2), of x] b by (auto simp: elsewhere_def)
  next
    case False
    then have "link_prev h' x = link_prev h x" using i(3) [of x] that b by auto
    then show ?thesis using False h b that by (auto simp: rings_def elsewhere_def)
  qed
  ultimately have "rings H h' (L(b := L b @ [l]))"
    using i(2) h b l unfolding rings_def by (auto simp: elsewhere_def)
  then show ?thesis using i(1) by blast
qed

lemma rings_unlink:
  assumes h: "rings H h L" and l: "l \<notin> H"
  shows "\<exists>h'. Sv_UnlinkEdict l h = Inr h' \<and> rings H h' (\<lambda>b. if b \<in> H then remove1 l (L b) else L b)"
proof (cases "elsewhere H L l")
  case True
  then have "Sv_UnlinkEdict l h = Inr h" using h l by (simp add: Sv_UnlinkEdict_def rings_def)
  moreover have "(\<lambda>b. if b \<in> H then remove1 l (L b) else L b) = L"
    using True by (auto simp: elsewhere_def remove1_idem fun_eq_iff)
  ultimately show ?thesis using h by simp
next
  case False
  then obtain b where b: "b \<in> H" "l \<in> set (L b)" using l by (auto simp: elsewhere_def)
  then obtain xs ys where s: "L b = xs @ l # ys" by (auto dest: split_list)
  have r: "ring h b (xs @ l # ys)" using h b s by (auto simp: rings_def)
  then have d: "distinct (b # xs @ l # ys)" by (simp add: ring_def)
  obtain h1 where 1: "Sv_RemoveLink l h = Inr h1" "ring h1 b (xs @ ys)"
      "\<And>x. x \<notin> set (b # xs @ ys) \<Longrightarrow> link_next h1 x = link_next h x \<and> link_prev h1 x = link_prev h x"
    using remove_ring [OF r] by blast
  let ?h = "set_prev l None (set_next l None h1)"
  let ?L = "\<lambda>b. if b \<in> H then remove1 l (L b) else L b"
  have "link_prev h l \<noteq> None" using ring_prev [OF r] by simp
  then have e: "Sv_UnlinkEdict l h = Inr ?h" using 1(1) unfolding Sv_UnlinkEdict_def by (simp only: if_False bindE_simps)
  have Lb: "?L b = xs @ ys" using b(1) s d by (simp add: remove1_append)
  have other: "?L c = L c" if "c \<in> H" "c \<noteq> b" for c
  proof -
    have "l \<notin> set (L c)" using h b that unfolding rings_def by blast
    then show ?thesis by (simp add: remove1_idem)
  qed
  have mem: "set (L b) = set (xs @ ys) \<union> {l}" using s by auto
  have rb: "ring ?h b (?L b)" unfolding Lb using d by (intro ring_frame [OF 1(2)]) auto
  have rc: "ring ?h c (?L c)" if "c \<in> H" "c \<noteq> b" for c
    unfolding other [OF that]
  proof (rule ring_frame)
    show "ring h c (L c)" using h that by (simp add: rings_def)
    fix x assume x: "x \<in> set (c # L c)"
    have "x \<noteq> l" "x \<notin> set (b # L b)"
      using x that b l rings_apart(1) [OF h that(1)] rings_apart(1) [OF h b(1)] rings_apart(2) [OF h b(1) that] by auto
    then show "link_next ?h x = link_next h x \<and> link_prev ?h x = link_prev h x" using 1(3) [of x] mem by simp
  qed
  have null: "link_prev ?h x = None \<longleftrightarrow> elsewhere H ?L x" if x: "x \<notin> H" for x
  proof -
    have out: "elsewhere H ?L x \<longleftrightarrow> x \<notin> set (xs @ ys) \<and> (\<forall>c \<in> H. c \<noteq> b \<longrightarrow> x \<notin> set (L c))"
      using x b(1) Lb other by (auto simp: elsewhere_def)
    show ?thesis
    proof (cases "x \<in> set (b # L b)")
      case True
      then have "x = l \<or> x \<in> set (xs @ ys)" using x b(1) mem by auto
      moreover have "\<forall>c \<in> H. c \<noteq> b \<longrightarrow> l \<notin> set (L c)" using h b unfolding rings_def by blast
      moreover have "x \<in> set (xs @ ys) \<Longrightarrow> link_prev ?h x \<noteq> None"
        using ring_prev [OF rb, of x] Lb by simp
      ultimately show ?thesis unfolding out using d by auto
    next
      case False
      then have "link_prev ?h x = link_prev h x" "x \<notin> set (xs @ ys)" using 1(3) [of x] mem by auto
      then show ?thesis unfolding out using h x False b(1) by (auto simp: rings_def elsewhere_def)
    qed
  qed
  have sub: "set (?L c) \<subseteq> set (L c)" if "c \<in> H" for c using that by (simp add: set_remove1_subset)
  have "rings H ?h ?L"
    unfolding rings_def
  proof (intro conjI ballI allI impI)
    show "ring ?h c (?L c)" if "c \<in> H" for c using rb rc [OF that] by (cases "c = b") (simp only:, blast)
    show "set (?L c) \<inter> H = {}" if "c \<in> H" for c
      using sub [OF that] rings_apart(1) [OF h that] by blast
    show "set (?L c) \<inter> set (?L d) = {}" if "c \<in> H" "d \<in> H" "d \<noteq> c" for c d
      using sub [OF that(1)] sub [OF that(2)] rings_apart(2) [OF h that] by blast
  qed (rule null)
  then show ?thesis using e by blast
qed

interpretation links: bucket_store Sv_InsertLink Sv_UnlinkEdict rings
proof
  show "rings H h L \<Longrightarrow> b \<in> H \<Longrightarrow> distinct (L b) \<and> set (L b) \<inter> H = {} \<and>
      (\<forall>c \<in> H. c \<noteq> b \<longrightarrow> set (L b) \<inter> set (L c) = {})" for H h L b
    by (auto simp: rings_def ring_def)
qed (fact rings_insert rings_unlink)+

end
