(* ===== verification/Float_Order.thy ===== *)
theory Float_Order
  imports Float_Model
begin

text \<open>
  Rounding to a float keeps the order of numbers and the sign of a number that is not zero,
  so a comparison of results that were rounded in the same way is sound.
\<close>

lemma nbits_bounds: "0 < n \<Longrightarrow> 0 < nbits n \<and> 2 ^ nat (nbits n - 1) \<le> n \<and> n < 2 ^ nat (nbits n)"
proof (induction n rule: nbits.induct)
  case (1 n)
  show ?case
  proof (cases "n = 1")
    case True
    then show ?thesis by (simp add: nbits.simps [of 1] nbits.simps [of 0])
  next
    case False
    then have h: "0 < n div 2" using "1.prems" by simp
    define m where "m = nbits (n div 2)"
    have m: "0 < m" "2 ^ nat (m - 1) \<le> n div 2" "n div 2 < 2 ^ nat m"
      using "1.IH" h "1.prems" by (simp_all add: m_def)
    have e: "nbits n = 1 + m" using "1.prems" by (simp add: nbits.simps [of n] m_def)
    obtain k where k: "m = int k + 1" using m(1) zero_less_imp_eq_int [of m] by (metis Suc_pred' of_nat_Suc add.commute)
    have p: "(2::int) ^ nat (1 + m) = 2 * 2 ^ nat m" "(2::int) ^ nat m = 2 * 2 ^ nat (m - 1)"
      using k by (simp_all add: nat_add_distrib)
    have "2 ^ nat m \<le> n \<and> n < 2 ^ nat (1 + m)" using m(2,3) unfolding p by linarith
    then show ?thesis using e m(1) by simp
  qed
qed

lemma pow2_pos [simp]: "0 < pow2 e" by (simp add: pow2_def)

lemma pow2_Suc: "pow2 (e + 1) = 2 * pow2 e"
proof (cases "e \<ge> 0")
  case True
  then show ?thesis by (simp add: pow2_def nat_add_distrib)
next
  case False
  then have "nat (- e) = Suc (nat (- (e + 1)))" by simp
  then show ?thesis using False by (simp add: pow2_def)
qed

lemma pow2_add: "pow2 (a + int k) = pow2 a * 2 ^ k"
proof (induction k)
  case (Suc k)
  then show ?case using pow2_Suc [of "a + int k"] by (simp add: ac_simps)
qed simp

lemma pow2_mono: "a \<le> b \<Longrightarrow> pow2 a \<le> pow2 b"
  using pow2_add [of a "nat (b - a)"] pow2_pos [of a] by (simp add: order.strict_implies_order)

lemma pow2_plus: "pow2 (a + b) = pow2 a * pow2 b"
proof (cases "0 \<le> b")
  case True
  then show ?thesis using pow2_add [of a "nat b"] by (simp add: pow2_def)
next
  case False
  then have "pow2 a = pow2 (a + b) * 2 ^ nat (- b)" using pow2_add [of "a + b" "nat (- b)"] by simp
  moreover have "pow2 b = 1 / 2 ^ nat (- b)" using False by (simp add: pow2_def)
  ultimately show ?thesis by simp
qed

lemma pow2_quot: "pow2 a / pow2 b = pow2 (a - b)"
  using pow2_plus [of "a - b" b] by (simp add: less_imp_neq [OF pow2_pos, symmetric])

lemma pow2_nat: "0 \<le> a \<Longrightarrow> of_int (2 ^ nat a) = pow2 a" by (simp add: pow2_def)

lemma exponent_bounds:
  assumes "0 < x"
  shows "pow2 (exponent x) \<le> x \<and> x < pow2 (exponent x + 1)"
proof -
  obtain n d where q: "quotient_of x = (n, d)" by force
  have d: "0 < d" and x: "x = of_int n / of_int d"
    using quotient_of_denom_pos [OF q] quotient_of_div [OF q] by auto
  have n: "0 < n" using assms d x by (simp add: zero_less_divide_iff)
  note bn = nbits_bounds [OF n] and bd = nbits_bounds [OF d]
  have n2: "pow2 (nbits n - 1) \<le> of_int n" "of_int n < pow2 (nbits n)"
    using bn by (simp_all flip: pow2_nat)
  have d2: "pow2 (nbits d - 1) \<le> of_int d" "of_int d < pow2 (nbits d)"
    using bd by (simp_all flip: pow2_nat)
  have "x < pow2 (nbits n) / pow2 (nbits d - 1)"
    unfolding x using n2 d2 d n by (intro frac_less) simp_all
  moreover have "pow2 (nbits n - 1) / pow2 (nbits d) < x"
    unfolding x using n2 d2 d n by (intro frac_less2) simp_all
  ultimately have "x < pow2 (nbits n - nbits d + 1)" "pow2 (nbits n - nbits d - 1) < x"
    by (simp_all add: pow2_quot algebra_simps)
  then show ?thesis by (simp add: exponent_def q Let_def)
qed

lemma exponent_mono:
  assumes "0 < x" and "x \<le> y"
  shows "exponent x \<le> exponent y"
proof (rule ccontr)
  assume "\<not> exponent x \<le> exponent y"
  then have "pow2 (exponent y + 1) \<le> pow2 (exponent x)" by (intro pow2_mono) simp
  then show False using exponent_bounds [of x] exponent_bounds [of y] assms by linarith
qed

lemma round_half_even_of_int [simp]: "round_half_even (of_int k) = k"
  by (simp add: round_half_even_def)

lemma round_half_even_mono: "x \<le> y \<Longrightarrow> round_half_even x \<le> round_half_even y"
proof -
  assume xy: "x \<le> y"
  then have f: "\<lfloor>x\<rfloor> \<le> \<lfloor>y\<rfloor>" by (rule floor_mono)
  have r: "\<lfloor>z\<rfloor> \<le> round_half_even z" "round_half_even z \<le> \<lfloor>z\<rfloor> + 1" for z
    by (simp_all add: round_half_even_def Let_def)
  show ?thesis
  proof (cases "\<lfloor>x\<rfloor> = \<lfloor>y\<rfloor>")
    case True
    then show ?thesis using xy by (auto simp: round_half_even_def Let_def)
  next
    case False
    then show ?thesis using f r(2) [of x] r(1) [of y] by linarith
  qed
qed

definition ulp :: "nat \<Rightarrow> rat \<Rightarrow> rat" where
  "ulp p x = pow2 (exponent \<bar>x\<bar> - (int p - 1))"

lemma round_to_alt: "round_to p x = (if x = 0 then 0 else of_int (round_half_even (x / ulp p x)) * ulp p x)"
  by (simp add: round_to_def ulp_def Let_def)

lemma ulp_pos [simp]: "0 < ulp p x" by (simp add: ulp_def)

lemma rounds_within:
  assumes "of_int a * u \<le> x" and "x \<le> of_int b * u" and "0 < (u :: rat)"
  shows "of_int a * u \<le> of_int (round_half_even (x / u)) * u \<and>
    of_int (round_half_even (x / u)) * u \<le> of_int b * u"
proof -
  have "of_int a \<le> x / u" "x / u \<le> of_int b" using assms by (simp_all add: field_simps)
  then have "round_half_even (of_int a) \<le> round_half_even (x / u)"
      "round_half_even (x / u) \<le> round_half_even (of_int b)"
    by (blast intro: round_half_even_mono)+
  then show ?thesis using assms(3) by simp
qed

lemma ulp_scale:
  assumes "0 < p"
  shows "of_int (2 ^ (p - 1)) * ulp p x = pow2 (exponent \<bar>x\<bar>)" "of_int (2 ^ p) * ulp p x = pow2 (exponent \<bar>x\<bar> + 1)"
proof -
  have "pow2 (exponent \<bar>x\<bar>) = ulp p x * 2 ^ (p - 1)"
    using pow2_add [of "exponent \<bar>x\<bar> - (int p - 1)" "p - 1"] assms by (simp add: ulp_def of_nat_diff)
  moreover have "(2 :: rat) ^ p = 2 * 2 ^ (p - 1)" using assms by (cases p) auto
  ultimately show "of_int (2 ^ (p - 1)) * ulp p x = pow2 (exponent \<bar>x\<bar>)"
    "of_int (2 ^ p) * ulp p x = pow2 (exponent \<bar>x\<bar> + 1)"
    by (simp_all add: pow2_Suc)
qed

lemma round_to_pos:
  assumes "0 < p" and "0 < x"
  shows "pow2 (exponent x) \<le> round_to p x \<and> round_to p x \<le> pow2 (exponent x + 1)"
proof -
  have "\<bar>x\<bar> = x" "x \<noteq> 0" using assms(2) by simp_all
  then show ?thesis
    using rounds_within [of "2 ^ (p - 1)" "ulp p x" x "2 ^ p"] exponent_bounds [OF assms(2)]
    unfolding ulp_scale [OF assms(1), of x] round_to_alt by simp
qed

lemma round_to_neg:
  assumes "0 < p" and "x < 0"
  shows "- pow2 (exponent (- x) + 1) \<le> round_to p x \<and> round_to p x \<le> - pow2 (exponent (- x))"
proof -
  have x: "\<bar>x\<bar> = - x" "x \<noteq> 0" "0 < - x" using assms(2) by simp_all
  show ?thesis
    using rounds_within [of "- (2 ^ p)" "ulp p x" x "- (2 ^ (p - 1))"] exponent_bounds [OF x(3)] x(1,2)
    unfolding of_int_minus mult_minus_left ulp_scale [OF assms(1), of x] round_to_alt by simp
qed

lemma round_to_sign:
  assumes "0 < p"
  shows "round_to p x < 0 \<longleftrightarrow> x < 0"
proof (cases "x < 0")
  case True
  then show ?thesis using round_to_neg [OF assms True] pow2_pos [of "exponent (- x)"] by linarith
next
  case False
  then have "x = 0 \<or> 0 < x" by linarith
  then show ?thesis
    using round_to_pos [OF assms, of x] pow2_pos [of "exponent x"] False by (elim disjE) (simp add: round_to_alt, linarith)
qed

lemma round_to_mono:
  assumes p: "0 < p" and xy: "x \<le> y"
  shows "round_to p x \<le> round_to p y"
proof -
  have same: "round_to p x \<le> round_to p y" if "exponent \<bar>x\<bar> = exponent \<bar>y\<bar>" "x \<noteq> 0" "y \<noteq> 0"
  proof -
    have "ulp p x = ulp p y" using that by (simp add: ulp_def)
    moreover have "round_half_even (x / ulp p x) \<le> round_half_even (y / ulp p x)"
      using xy by (intro round_half_even_mono divide_right_mono) (simp_all add: less_imp_le)
    ultimately show ?thesis using that by (simp add: round_to_alt less_imp_le mult_right_mono)
  qed
  consider "0 < x" | "y < 0" | "x \<le> 0" "0 \<le> y" by linarith
  then show ?thesis
  proof cases
    case 1
    show ?thesis
    proof (cases "exponent x = exponent y")
      case True
      then show ?thesis using same 1 xy by simp
    next
      case False
      then have "pow2 (exponent x + 1) \<le> pow2 (exponent y)"
        using exponent_mono [OF 1 xy] by (intro pow2_mono) simp
      then show ?thesis using round_to_pos [OF p, of x] round_to_pos [OF p, of y] 1 xy by linarith
    qed
  next
    case 2
    show ?thesis
    proof (cases "exponent (- x) = exponent (- y)")
      case True
      then show ?thesis using same 2 xy by simp
    next
      case False
      then have "pow2 (exponent (- y) + 1) \<le> pow2 (exponent (- x))"
        using exponent_mono [of "- y" "- x"] 2 xy by (intro pow2_mono) simp
      then show ?thesis using round_to_neg [OF p, of x] round_to_neg [OF p, of y] 2 xy by linarith
    qed
  next
    case 3
    have "x = 0 \<or> x < 0" using 3 by linarith
    then have "round_to p x \<le> 0"
      using round_to_sign [OF p, of x] by (auto simp: round_to_alt)
    moreover have "0 \<le> round_to p y" using 3 round_to_sign [OF p, of y] by linarith
    ultimately show ?thesis by linarith
  qed
qed

lemma flt_mono: "x \<le> y \<Longrightarrow> flt x \<le> flt y" by (simp add: flt_def round_to_mono)

lemma flt_sign [simp]: "flt x < 0 \<longleftrightarrow> x < 0" by (simp add: flt_def round_to_sign)

lemma dbl_mono: "x \<le> y \<Longrightarrow> dbl x \<le> dbl y" by (simp add: dbl_def round_to_mono)

text \<open>Integers of few bits are represented exactly.\<close>

lemma round_to_of_int:
  assumes "\<bar>k\<bar> < 2 ^ p"
  shows "round_to p (of_int k) = of_int k"
proof (cases "k = 0")
  case False
  let ?e = "exponent (of_int \<bar>k\<bar>)"
  have "pow2 ?e \<le> of_int \<bar>k\<bar>" using exponent_bounds [of "of_int \<bar>k\<bar>"] False by simp
  also have "(of_int \<bar>k\<bar> :: rat) < of_int (2 ^ p)" using assms by (simp only: of_int_less_iff)
  also have "of_int (2 ^ p) = pow2 (int p)" by (simp add: pow2_def)
  finally have "?e < int p" using pow2_mono [of "int p" ?e] by linarith
  then obtain m where m: "?e - (int p - 1) = - int m" by (metis (no_types) diff_add_cancel diff_le_0_iff_le minus_diff_eq nonneg_int_cases zle_diff1_eq diff_ge_0_iff_ge)
  have u: "pow2 (- int m) = 1 / 2 ^ m" by (cases m) (simp_all add: pow2_def nat_add_distrib)
  have "of_int k / pow2 (- int m) = of_int (k * 2 ^ m)" unfolding u by simp
  then have "of_int (round_half_even (of_int k / pow2 (- int m))) * pow2 (- int m) = of_int (k * 2 ^ m) * pow2 (- int m)"
    by (simp only: round_half_even_of_int)
  then have "of_int (round_half_even (of_int k / pow2 (- int m))) * pow2 (- int m) = of_int k" unfolding u by simp
  then show ?thesis using False m by (simp add: round_to_def Let_def)
qed (simp add: round_to_def)

lemma dbl_of_int: "\<bar>k\<bar> < 2 ^ 53 \<Longrightarrow> dbl (of_int k) = of_int k" by (simp add: dbl_def round_to_of_int)

lemma flt_of_int: "\<bar>k\<bar> < 2 ^ 24 \<Longrightarrow> flt (of_int k) = of_int k" by (simp add: flt_def round_to_of_int)

end
