(* ===== verification/Cm_Bsp.thy ===== *)
theory Cm_Bsp
  imports Float_Order Cm_Vis
begin

text \<open>
  The BSP tree of \<open>src/cmodel.c\<close>: finding the leaf a point is in and the leafs a box
  touches, the contents of a point, the box hull, and \<open>BoxOnPlaneSide\<close> of
  \<open>src/shared.c\<close>. The arrays of \<open>c_bsp\<close> are functions on the indices below their
  capacity; pointers to planes are their indices. Floats are rounded after each
  operation (\<open>flt\<close>, and \<open>dbl\<close> where the code computes with doubles).
\<close>

section \<open>Planes\<close>

record bsp_plane =
  normal :: vec3_t
  plane_dist :: vec_t
  plane_type :: nat
  sign_bits :: int

definition PLANE_ANYX :: nat where "PLANE_ANYX = 3"

definition AXIAL :: "bsp_plane \<Rightarrow> bool" where
  "AXIAL p \<longleftrightarrow> plane_type p < PLANE_ANYX"

definition SIDE_FRONT :: int where "SIDE_FRONT = 1"
definition SIDE_BACK :: int where "SIDE_BACK = 2"
definition SIDE_BOTH :: int where "SIDE_BOTH = 3"
definition SIDE_EPSILON :: rat where "SIDE_EPSILON = dbl (1 / 1000)"

text \<open>\<open>v[i]\<close>\<close>

definition component :: "'a vec3 \<Rightarrow> nat \<Rightarrow> 'a" where
  "component v i = (if i = 0 then vx v else if i = 1 then vy v else vz v)"

definition dot3 :: "vec3_t \<Rightarrow> vec_t \<Rightarrow> vec_t \<Rightarrow> vec_t \<Rightarrow> vec_t" where
  "dot3 n x y z = flt (flt (flt (vx n * x) + flt (vy n * y)) + flt (vz n * z))"

definition DotProduct :: "vec3_t \<Rightarrow> vec3_t \<Rightarrow> vec_t" where
  "DotProduct n v = dot3 n (vx v) (vy v) (vz v)"

definition SignBitsForPlane :: "bsp_plane \<Rightarrow> int" where
  "SignBitsForPlane plane =
     fold (\<lambda>i bits. if component (normal plane) i < 0 then bits OR push_bit i 1 else bits) [0, 1, 2] 0"

definition BoxOnPlaneSide :: "vec3_t \<Rightarrow> vec3_t \<Rightarrow> bsp_plane \<Rightarrow> int" where
  "BoxOnPlaneSide emins emaxs p =
     (if AXIAL p then
        (if dbl (plane_dist p - SIDE_EPSILON) \<le> component emins (plane_type p) then SIDE_FRONT
         else if dbl (plane_dist p + SIDE_EPSILON) \<ge> component emaxs (plane_type p) then SIDE_BACK
         else SIDE_BOTH)
      else
        let n = normal p;
            (dist1, dist2) =
              (if sign_bits p = 0 then (DotProduct n emaxs, DotProduct n emins)
               else if sign_bits p = 1 then
                 (dot3 n (vx emins) (vy emaxs) (vz emaxs), dot3 n (vx emaxs) (vy emins) (vz emins))
               else if sign_bits p = 2 then
                 (dot3 n (vx emaxs) (vy emins) (vz emaxs), dot3 n (vx emins) (vy emaxs) (vz emins))
               else if sign_bits p = 3 then
                 (dot3 n (vx emins) (vy emins) (vz emaxs), dot3 n (vx emaxs) (vy emaxs) (vz emins))
               else if sign_bits p = 4 then
                 (dot3 n (vx emaxs) (vy emaxs) (vz emins), dot3 n (vx emins) (vy emins) (vz emaxs))
               else if sign_bits p = 5 then
                 (dot3 n (vx emins) (vy emaxs) (vz emins), dot3 n (vx emaxs) (vy emins) (vz emaxs))
               else if sign_bits p = 6 then
                 (dot3 n (vx emaxs) (vy emins) (vz emins), dot3 n (vx emins) (vy emaxs) (vz emaxs))
               else if sign_bits p = 7 then (DotProduct n emins, DotProduct n emaxs)
               else (0, 0));
            sides = (if dist1 \<ge> plane_dist p then SIDE_FRONT else 0)
        in if dist2 < plane_dist p then sides OR SIDE_BACK else sides)"

section \<open>The tree\<close>

definition MAX_BSP_PLANES :: int where "MAX_BSP_PLANES = 0x10000"
definition MAX_BSP_NODES :: int where "MAX_BSP_NODES = 0x10000"

definition MAX_BSP_BRUSHES :: int where "MAX_BSP_BRUSHES = 0x4000"
definition MAX_BSP_BRUSH_SIDES :: int where "MAX_BSP_BRUSH_SIDES = 0x10000"
definition MAX_BSP_LEAF_BRUSHES :: int where "MAX_BSP_LEAF_BRUSHES = 0x10000"

definition CONTENTS_MONSTER :: int where "CONTENTS_MONSTER = 0x2000000"

record bsp_node =
  node_plane :: int
  child0 :: int
  child1 :: int

record bsp_leaf =
  leaf_contents :: int
  leaf_cluster :: int
  leaf_area :: int
  first_leaf_brush :: int
  num_leaf_brushes :: int

record bsp_brush =
  brush_contents :: int
  num_sides :: int
  first_brush_side :: int

text \<open>\<open>None\<close> is \<open>c_bsp.null_surface\<close>.\<close>

record bsp_brush_side =
  side_plane :: int
  side_surface :: "int option"

record c_bsp =
  num_planes :: int
  planes :: "int \<Rightarrow> bsp_plane"
  num_nodes :: int
  nodes :: "int \<Rightarrow> bsp_node"
  num_leafs :: int
  leafs :: "int \<Rightarrow> bsp_leaf"
  empty_leaf :: int
  model_head_node :: int
  num_brushes :: int
  brushes :: "int \<Rightarrow> bsp_brush"
  num_brush_sides :: int
  brush_sides :: "int \<Rightarrow> bsp_brush_side"
  total_leaf_brushes :: int
  leaf_brushes :: "int \<Rightarrow> int"

definition in_array :: "int \<Rightarrow> int \<Rightarrow> bool" where
  "in_array cap i \<longleftrightarrow> 0 \<le> i \<and> i < cap"

definition Cm_LeafContents :: "c_bsp \<Rightarrow> int \<Rightarrow> int result" where
  "Cm_LeafContents bsp n =
     (if n < 0 \<or> n \<ge> num_leafs bsp then Inl (Err_Drop ''Bad number'') else Inr (leaf_contents (leafs bsp n)))"

definition Cm_LeafCluster :: "c_bsp \<Rightarrow> int \<Rightarrow> int result" where
  "Cm_LeafCluster bsp n =
     (if n < 0 \<or> n \<ge> num_leafs bsp then Inl (Err_Drop ''Bad number'') else Inr (leaf_cluster (leafs bsp n)))"

definition Cm_LeafArea :: "c_bsp \<Rightarrow> int \<Rightarrow> int result" where
  "Cm_LeafArea bsp n =
     (if n < 0 \<or> n \<ge> num_leafs bsp then Inl (Err_Drop ''Bad number'') else Inr (leaf_area (leafs bsp n)))"

text \<open>
  The descent to a leaf. The outer \<open>option\<close> is \<open>None\<close> if the loop does not end, which a
  tree with a cycle could cause.
\<close>

definition point_side :: "c_bsp \<Rightarrow> vec3_t \<Rightarrow> bsp_node \<Rightarrow> int" where
  "point_side bsp p node =
     (let plane = planes bsp (node_plane node);
          d = (if AXIAL plane then flt (component p (plane_type plane) - plane_dist plane)
               else flt (DotProduct (normal plane) p - plane_dist plane))
      in if d < 0 then child1 node else child0 node)"

partial_function (option) Cm_PointLeafnum_r :: "c_bsp \<Rightarrow> vec3_t \<Rightarrow> int \<Rightarrow> int result option" where
  "Cm_PointLeafnum_r bsp p num =
     (if num \<ge> 0 then
        (if \<not> in_array (MAX_BSP_NODES + 6) num then Some (Inl Bad_Access)
         else Cm_PointLeafnum_r bsp p (point_side bsp p (nodes bsp num)))
      else Some (Inr (-1 - num)))"

definition Cm_PointLeafnum :: "c_bsp \<Rightarrow> vec3_t \<Rightarrow> int result option" where
  "Cm_PointLeafnum bsp p = (if num_planes bsp = 0 then Some (Inr 0) else Cm_PointLeafnum_r bsp p 0)"

definition Cm_PointContents :: "c_bsp \<Rightarrow> vec3_t \<Rightarrow> int \<Rightarrow> int result option" where
  "Cm_PointContents bsp p head_node =
     (if num_nodes bsp = 0 then Some (Inr 0)
      else map_option (\<lambda>r. bindE r (\<lambda>l.
             if in_array (int MAX_BSP_LEAFS) l then Inr (leaf_contents (leafs bsp l)) else Inl Bad_Access))
           (Cm_PointLeafnum_r bsp p head_node))"

text \<open>\<open>c_bsp_leaf_data_t\<close>: the leafs found so far and the first node that was split.\<close>

record leaf_data =
  found :: "int list"
  max_len :: nat
  top_node :: int

partial_function (option) Cm_BoxLeafnums_r ::
  "c_bsp \<Rightarrow> vec3_t \<Rightarrow> vec3_t \<Rightarrow> int \<Rightarrow> leaf_data \<Rightarrow> leaf_data result option" where
  "Cm_BoxLeafnums_r bsp mins maxs num ld =
     (if num < 0 then
        Some (Inr (if length (found ld) \<ge> max_len ld then ld else ld\<lparr>found := found ld @ [-1 - num]\<rparr>))
      else if \<not> in_array (MAX_BSP_NODES + 6) num then Some (Inl Bad_Access)
      else
        let node = nodes bsp num; s = BoxOnPlaneSide mins maxs (planes bsp (node_plane node))
        in if s = 1 then Cm_BoxLeafnums_r bsp mins maxs (child0 node) ld
           else if s = 2 then Cm_BoxLeafnums_r bsp mins maxs (child1 node) ld
           else Option.bind
             (Cm_BoxLeafnums_r bsp mins maxs (child0 node)
                (if top_node ld = -1 then ld\<lparr>top_node := num\<rparr> else ld))
             (\<lambda>r. if isl r then Some r else Cm_BoxLeafnums_r bsp mins maxs (child1 node) (projr r)))"

definition Cm_BoxLeafnums :: "c_bsp \<Rightarrow> vec3_t \<Rightarrow> vec3_t \<Rightarrow> nat \<Rightarrow> leaf_data result option" where
  "Cm_BoxLeafnums bsp mins maxs len =
     Cm_BoxLeafnums_r bsp mins maxs (model_head_node bsp) \<lparr>found = [], max_len = len, top_node = -1\<rparr>"

partial_function (option) Cm_HeadnodeVisible :: "c_bsp \<Rightarrow> byte list \<Rightarrow> int \<Rightarrow> bool result option" where
  "Cm_HeadnodeVisible bsp vis num =
     (if num < 0 then
        (let cluster = leaf_cluster (leafs bsp (-1 - num)) in
         if \<not> in_array (int MAX_BSP_LEAFS) (-1 - num) then Some (Inl Bad_Access)
         else if cluster = -1 then Some (Inr False)
         else if cluster < 0 \<or> nat cluster div 8 \<ge> length vis then Some (Inl Bad_Access)
         else if sees vis (nat cluster) then Some (Inr True) else Some (Inr False))
      else if \<not> in_array (MAX_BSP_NODES + 6) num then Some (Inl Bad_Access)
      else Option.bind (Cm_HeadnodeVisible bsp vis (child0 (nodes bsp num)))
             (\<lambda>r. if r = Inr False then Cm_HeadnodeVisible bsp vis (child1 (nodes bsp num)) else Some r))"

section \<open>The box hull\<close>

text \<open>
  \<open>cm_box\<close>: six nodes behind those of the map, on planes of which \<open>Cm_HeadnodeForBox\<close>
  sets the distances. The index \<open>num_leafs\<close> of the leaf is not checked by the code.
\<close>

record box_hull =
  box_head_node :: int
  box_planes :: int
  box_brush :: int
  box_leaf :: int

definition unit_vec :: "nat \<Rightarrow> vec_t \<Rightarrow> vec3_t" where
  "unit_vec i a = Vec3 (if i = 0 then a else 0) (if i = 1 then a else 0) (if i = 2 then a else 0)"

definition hull_node :: "nat \<Rightarrow> c_bsp \<Rightarrow> c_bsp" where
  "hull_node i bsp =
     (let side = i mod 2; k = int i; axis = i div 2; head = num_nodes bsp;
          p1 = num_planes bsp + 2 * k; p2 = num_planes bsp + (2 * k + 1);
          out = -1 - empty_leaf bsp;
          further = (if i \<noteq> 5 then head + (k + 1) else -1 - num_leafs bsp)
      in bsp\<lparr>brush_sides := (brush_sides bsp)(num_brush_sides bsp + k :=
             \<lparr>side_plane = num_planes bsp + (2 * k + int side), side_surface = None\<rparr>),
           nodes := (nodes bsp)(head + k := \<lparr>node_plane = p1,
             child0 = (if side = 0 then out else further), child1 = (if side = 1 then out else further)\<rparr>),
           planes := (planes bsp)(
             p1 := (planes bsp p1)\<lparr>plane_type := axis, sign_bits := 0, normal := unit_vec axis 1\<rparr>,
             p2 := (planes bsp p2)\<lparr>plane_type := PLANE_ANYX + axis, sign_bits := 0, normal := unit_vec axis (-1)\<rparr>)\<rparr>)"

definition Cm_InitBoxHull :: "c_bsp \<Rightarrow> (box_hull \<times> c_bsp) result" where
  "Cm_InitBoxHull bsp =
     (if num_nodes bsp + 6 > MAX_BSP_NODES \<or> num_brushes bsp + 1 > MAX_BSP_BRUSHES \<or>
         total_leaf_brushes bsp + 1 > MAX_BSP_LEAF_BRUSHES \<or>
         num_brush_sides bsp + 6 > MAX_BSP_BRUSH_SIDES \<or> num_planes bsp + 12 > MAX_BSP_PLANES
      then Inl (Err_Drop ''Not enough room for box tree'')
      else if \<not> in_array (int MAX_BSP_LEAFS) (num_leafs bsp) then Inl Bad_Access
      else
        let cm_box = \<lparr>box_head_node = num_nodes bsp, box_planes = num_planes bsp,
                    box_brush = num_brushes bsp, box_leaf = num_leafs bsp\<rparr>;
            bsp = bsp\<lparr>brushes := (brushes bsp)(num_brushes bsp :=
                \<lparr>brush_contents = CONTENTS_MONSTER, num_sides = 6, first_brush_side = num_brush_sides bsp\<rparr>),
              leafs := (leafs bsp)(num_leafs bsp := (leafs bsp (num_leafs bsp))
                \<lparr>leaf_contents := CONTENTS_MONSTER, first_leaf_brush := total_leaf_brushes bsp,
                 num_leaf_brushes := 1\<rparr>),
              leaf_brushes := (leaf_brushes bsp)(total_leaf_brushes bsp := num_brushes bsp)\<rparr>
        in Inr (cm_box, fold hull_node [0, 1, 2, 3, 4, 5] bsp))"

definition set_dist :: "box_hull \<Rightarrow> int \<times> vec_t \<Rightarrow> c_bsp \<Rightarrow> c_bsp" where
  "set_dist cm_box = (\<lambda>(k, d) bsp. bsp\<lparr>planes := (planes bsp)(box_planes cm_box + k :=
     (planes bsp (box_planes cm_box + k))\<lparr>plane_dist := d\<rparr>)\<rparr>)"

definition Cm_HeadnodeForBox :: "box_hull \<Rightarrow> vec3_t \<Rightarrow> vec3_t \<Rightarrow> c_bsp \<Rightarrow> int \<times> c_bsp" where
  "Cm_HeadnodeForBox cm_box mins maxs bsp =
     (box_head_node cm_box, fold (set_dist cm_box)
        [(0, vx maxs), (1, - vx maxs), (2, vx mins), (3, - vx mins), (4, vy maxs), (5, - vy maxs),
         (6, vy mins), (7, - vy mins), (8, vz maxs), (9, - vz maxs), (10, vz mins), (11, - vz mins)] bsp)"

section \<open>Trees as the map compiler writes them\<close>

text \<open>
  The compiler writes a node before its children, so their numbers are larger. What a child
  refers to exists.
\<close>

definition tree_ref :: "c_bsp \<Rightarrow> int \<Rightarrow> bool" where
  "tree_ref bsp n \<longleftrightarrow> (if n < 0 then -1 - n < num_leafs bsp else n < num_nodes bsp)"

definition wf_tree :: "c_bsp \<Rightarrow> bool" where
  "wf_tree bsp \<longleftrightarrow> num_nodes bsp \<le> MAX_BSP_NODES + 6 \<and> num_leafs bsp \<le> int MAX_BSP_LEAFS \<and>
     (\<forall>n. 0 \<le> n \<and> n < num_nodes bsp \<longrightarrow>
        (\<forall>c \<in> {child0 (nodes bsp n), child1 (nodes bsp n)}. tree_ref bsp c \<and> (0 \<le> c \<longrightarrow> n < c)) \<and>
        (let pl = planes bsp (node_plane (nodes bsp n)) in sign_bits pl = SignBitsForPlane pl))"

lemma tree_induct [consumes 2, case_names leaf node]:
  assumes wf: "wf_tree bsp" and ref: "tree_ref bsp n"
    and leaf: "\<And>n. n < 0 \<Longrightarrow> -1 - n < num_leafs bsp \<Longrightarrow> P n"
    and node: "\<And>n. 0 \<le> n \<Longrightarrow> n < num_nodes bsp \<Longrightarrow> P (child0 (nodes bsp n)) \<Longrightarrow>
      P (child1 (nodes bsp n)) \<Longrightarrow> P n"
  shows "P n"
  using ref
proof (induction "nat (num_nodes bsp - n)" arbitrary: n rule: less_induct)
  case less
  show ?case
  proof (cases "n < 0")
    case True
    then show ?thesis using leaf less.prems by (simp add: tree_ref_def)
  next
    case False
    then have n: "0 \<le> n" "n < num_nodes bsp" using less.prems by (simp_all add: tree_ref_def)
    have "P c" if "c \<in> {child0 (nodes bsp n), child1 (nodes bsp n)}" for c
    proof (cases "c < 0")
      case True
      then show ?thesis using wf n that leaf by (auto simp: wf_tree_def tree_ref_def)
    next
      case False
      then have "n < c" "tree_ref bsp c" using wf n that by (auto simp: wf_tree_def)
      then show ?thesis using less.hyps [of c] n by simp
    qed
    then show ?thesis using node n by blast
  qed
qed

lemma node_in_array: "wf_tree bsp \<Longrightarrow> 0 \<le> n \<Longrightarrow> n < num_nodes bsp \<Longrightarrow> in_array (MAX_BSP_NODES + 6) n"
  by (simp add: wf_tree_def in_array_def)

lemma point_leaf:
  assumes "wf_tree bsp" and "tree_ref bsp n"
  shows "\<exists>l. Cm_PointLeafnum_r bsp p n = Some (Inr l) \<and> 0 \<le> l \<and> l < num_leafs bsp"
  using assms
proof (induction rule: tree_induct)
  case (leaf n)
  then show ?case by (subst Cm_PointLeafnum_r.simps) simp
next
  case (node n)
  then show ?case
    using node_in_array [OF assms(1) node(1,2)]
    by (subst Cm_PointLeafnum_r.simps) (simp add: point_side_def Let_def)
qed

section \<open>The leafs a box touches\<close>

inductive touches :: "c_bsp \<Rightarrow> vec3_t \<Rightarrow> vec3_t \<Rightarrow> int \<Rightarrow> int \<Rightarrow> bool" for bsp mins maxs where
  touches_leaf: "n < 0 \<Longrightarrow> touches bsp mins maxs n (-1 - n)"
| touches_front: "0 \<le> n \<Longrightarrow> BoxOnPlaneSide mins maxs (planes bsp (node_plane (nodes bsp n))) \<noteq> 2 \<Longrightarrow>
    touches bsp mins maxs (child0 (nodes bsp n)) l \<Longrightarrow> touches bsp mins maxs n l"
| touches_back: "0 \<le> n \<Longrightarrow> BoxOnPlaneSide mins maxs (planes bsp (node_plane (nodes bsp n))) \<noteq> 1 \<Longrightarrow>
    touches bsp mins maxs (child1 (nodes bsp n)) l \<Longrightarrow> touches bsp mins maxs n l"

inductive_simps touches_leaf_iff: "touches bsp mins maxs n l"

lemma touches_neg: "n < 0 \<Longrightarrow> touches bsp mins maxs n l \<longleftrightarrow> l = -1 - n"
  by (subst touches_leaf_iff) auto

lemma touches_node: "0 \<le> n \<Longrightarrow> touches bsp mins maxs n l \<longleftrightarrow>
    BoxOnPlaneSide mins maxs (planes bsp (node_plane (nodes bsp n))) \<noteq> 2 \<and> touches bsp mins maxs (child0 (nodes bsp n)) l \<or>
    BoxOnPlaneSide mins maxs (planes bsp (node_plane (nodes bsp n))) \<noteq> 1 \<and> touches bsp mins maxs (child1 (nodes bsp n)) l"
  by (subst touches_leaf_iff) auto

text \<open>\<open>collects\<close>: leafs in \<open>T\<close> are appended, all of them unless the list is full.\<close>

definition collects :: "leaf_data \<Rightarrow> leaf_data \<Rightarrow> (int \<Rightarrow> bool) \<Rightarrow> bool" where
  "collects ld ld' T \<longleftrightarrow> max_len ld' = max_len ld \<and>
     (\<exists>xs. found ld' = found ld @ xs \<and> (\<forall>l \<in> set xs. T l)) \<and>
     (length (found ld) \<le> max_len ld \<longrightarrow> length (found ld') \<le> max_len ld) \<and>
     (length (found ld') < max_len ld \<longrightarrow> (\<forall>l. T l \<longrightarrow> l \<in> set (found ld')))"

lemma collects_then:
  assumes "collects a b T" and "collects b c U"
  shows "collects a c (\<lambda>l. T l \<or> U l)"
proof -
  obtain xs where 1: "max_len b = max_len a" "found b = found a @ xs" "\<forall>l \<in> set xs. T l"
      "length (found a) \<le> max_len a \<longrightarrow> length (found b) \<le> max_len a"
      "length (found b) < max_len a \<longrightarrow> (\<forall>l. T l \<longrightarrow> l \<in> set (found b))"
    using assms(1) unfolding collects_def by blast
  obtain ys where 2: "max_len c = max_len b" "found c = found b @ ys" "\<forall>l \<in> set ys. U l"
      "length (found b) \<le> max_len b \<longrightarrow> length (found c) \<le> max_len b"
      "length (found c) < max_len b \<longrightarrow> (\<forall>l. U l \<longrightarrow> l \<in> set (found c))"
    using assms(2) unfolding collects_def by blast
  have "found c = found a @ xs @ ys" "\<forall>l \<in> set (xs @ ys). T l \<or> U l" using 1 2 by auto
  then show ?thesis using 1 2 unfolding collects_def by auto
qed

lemma box_leafs:
  assumes wf: "wf_tree bsp" and "tree_ref bsp n"
  shows "\<exists>ld'. Cm_BoxLeafnums_r bsp mins maxs n ld = Some (Inr ld') \<and> collects ld ld' (touches bsp mins maxs n)"
  using assms
proof (induction arbitrary: ld rule: tree_induct)
  case (leaf n)
  then show ?case
    by (subst Cm_BoxLeafnums_r.simps) (auto simp: collects_def touches_neg)
next
  case (node n)
  let ?s = "BoxOnPlaneSide mins maxs (planes bsp (node_plane (nodes bsp n)))"
  let ?c0 = "child0 (nodes bsp n)" and ?c1 = "child1 (nodes bsp n)"
  note arr = node_in_array [OF wf node.hyps]
  consider "?s = 1" | "?s = 2" | "?s \<noteq> 1" "?s \<noteq> 2" by blast
  then show ?case
  proof cases
    case 1
    then have "touches bsp mins maxs n = touches bsp mins maxs ?c0"
      using touches_node [OF node.hyps(1)] by (auto simp: fun_eq_iff)
    then show ?thesis
      using node.IH(1) [of ld] 1 arr node.hyps by (subst Cm_BoxLeafnums_r.simps) (simp add: Let_def)
  next
    case 2
    then have "touches bsp mins maxs n = touches bsp mins maxs ?c1"
      using touches_node [OF node.hyps(1)] by (auto simp: fun_eq_iff)
    then show ?thesis
      using node.IH(2) [of ld] 2 arr node.hyps by (subst Cm_BoxLeafnums_r.simps) (simp add: Let_def)
  next
    case 3
    then have t: "touches bsp mins maxs n = (\<lambda>l. touches bsp mins maxs ?c0 l \<or> touches bsp mins maxs ?c1 l)"
      using touches_node [OF node.hyps(1)] by (auto simp: fun_eq_iff)
    let ?ld = "if top_node ld = -1 then ld\<lparr>top_node := n\<rparr> else ld"
    obtain ld1 where 1: "Cm_BoxLeafnums_r bsp mins maxs ?c0 ?ld = Some (Inr ld1)"
        "collects ?ld ld1 (touches bsp mins maxs ?c0)"
      using node.IH(1) by blast
    obtain ld2 where 2: "Cm_BoxLeafnums_r bsp mins maxs ?c1 ld1 = Some (Inr ld2)"
        "collects ld1 ld2 (touches bsp mins maxs ?c1)"
      using node.IH(2) by blast
    have "collects ld ld1 (touches bsp mins maxs ?c0)" using 1(2) by (simp add: collects_def split: if_splits)
    then have "collects ld ld2 (touches bsp mins maxs n)" unfolding t using 2(2) by (rule collects_then)
    then show ?thesis
      using 1(1) 2(1) 3 arr node.hyps by (subst Cm_BoxLeafnums_r.simps) (simp add: Let_def)
  qed
qed

section \<open>A box touches the leafs of its points\<close>

definition in_box :: "vec3_t \<Rightarrow> vec3_t \<Rightarrow> vec3_t \<Rightarrow> bool" where
  "in_box mins maxs p \<longleftrightarrow> vx mins \<le> vx p \<and> vx p \<le> vx maxs \<and> vy mins \<le> vy p \<and> vy p \<le> vy maxs \<and>
     vz mins \<le> vz p \<and> vz p \<le> vz maxs"

text \<open>
  The axial test leaves \<open>SIDE_EPSILON\<close> on either side, so it is only conclusive for points
  away from the faces of the box; one unit is plenty, provided that doubles can tell.
\<close>

definition clear_of :: "vec_t \<Rightarrow> vec_t \<Rightarrow> vec_t \<Rightarrow> bool" where
  "clear_of lo hi c \<longleftrightarrow> lo < c - 1 \<and> c + 1 < hi \<and> dbl (c - 1) = c - 1 \<and> dbl (c + 1) = c + 1"

definition well_inside :: "vec3_t \<Rightarrow> vec3_t \<Rightarrow> vec3_t \<Rightarrow> bool" where
  "well_inside mins maxs p \<longleftrightarrow> clear_of (vx mins) (vx maxs) (vx p) \<and>
     clear_of (vy mins) (vy maxs) (vy p) \<and> clear_of (vz mins) (vz maxs) (vz p)"

lemma well_inside_in_box: "well_inside mins maxs p \<Longrightarrow> in_box mins maxs p"
  by (simp add: well_inside_def in_box_def clear_of_def)

lemma epsilon_small: "SIDE_EPSILON \<le> 1"
  by (simp add: SIDE_EPSILON_def) code_simp

lemma clear_of_sides:
  assumes "clear_of lo hi c"
  shows "dbl (d - SIDE_EPSILON) \<le> lo \<Longrightarrow> d \<le> c" and "dbl (d + SIDE_EPSILON) \<ge> hi \<Longrightarrow> c < d"
proof -
  show "d \<le> c" if "dbl (d - SIDE_EPSILON) \<le> lo"
  proof (rule ccontr)
    assume "\<not> d \<le> c"
    then have "dbl (c - 1) \<le> dbl (d - SIDE_EPSILON)" using epsilon_small by (intro dbl_mono) linarith
    then show False using that assms by (simp add: clear_of_def)
  qed
  show "c < d" if "dbl (d + SIDE_EPSILON) \<ge> hi"
  proof (rule ccontr)
    assume "\<not> c < d"
    then have "dbl (d + SIDE_EPSILON) \<le> dbl (c + 1)" using epsilon_small by (intro dbl_mono) linarith
    then show False using that assms by (simp add: clear_of_def)
  qed
qed

lemma dot3_mono:
  "vx n * x \<le> vx n * x' \<Longrightarrow> vy n * y \<le> vy n * y' \<Longrightarrow> vz n * z \<le> vz n * z' \<Longrightarrow> dot3 n x y z \<le> dot3 n x' y' z'"
  unfolding dot3_def by (intro flt_mono add_mono)

lemma SignBits_cases:
  "SignBitsForPlane pl = (if vx (normal pl) < 0 then 1 else 0) + (if vy (normal pl) < 0 then 2 else 0) +
     (if vz (normal pl) < 0 then 4 else 0)"
  by (simp add: SignBitsForPlane_def component_def push_bit_eq_mult)

lemma scale_mono: "(if n < 0 then hi else lo) = a \<Longrightarrow> lo \<le> x \<Longrightarrow> x \<le> hi \<Longrightarrow> n * a \<le> n * (x :: rat)"
  by (cases "n < 0") (auto intro: mult_left_mono mult_left_mono_neg)

lemma scale_mono': "(if n < 0 then lo else hi) = a \<Longrightarrow> lo \<le> x \<Longrightarrow> x \<le> hi \<Longrightarrow> n * (x :: rat) \<le> n * a"
  by (cases "n < 0") (auto intro: mult_left_mono mult_left_mono_neg)

lemma BoxOnPlaneSide_corners:
  assumes "\<not> AXIAL pl" and "sign_bits pl = SignBitsForPlane pl"
  defines "far \<equiv> \<lambda>n lo hi. if n < 0 then lo else (hi :: vec_t)"
  shows "BoxOnPlaneSide emins emaxs pl =
    (let n = normal pl;
         dist1 = dot3 n (far (vx n) (vx emins) (vx emaxs)) (far (vy n) (vy emins) (vy emaxs)) (far (vz n) (vz emins) (vz emaxs));
         dist2 = dot3 n (far (vx n) (vx emaxs) (vx emins)) (far (vy n) (vy emaxs) (vy emins)) (far (vz n) (vz emaxs) (vz emins));
         sides = (if dist1 \<ge> plane_dist pl then SIDE_FRONT else 0)
     in if dist2 < plane_dist pl then sides OR SIDE_BACK else sides)"
  using assms(1,2) unfolding SignBits_cases
  by (cases "vx (normal pl) < 0"; cases "vy (normal pl) < 0"; cases "vz (normal pl) < 0")
    (simp_all add: BoxOnPlaneSide_def far_def DotProduct_def Let_def)

lemma box_side_of_point:
  assumes s: "sign_bits pl = SignBitsForPlane pl" and p: "well_inside mins maxs p"
    and d: "d = (if AXIAL pl then flt (component p (plane_type pl) - plane_dist pl)
            else flt (DotProduct (normal pl) p - plane_dist pl))"
  shows "BoxOnPlaneSide mins maxs pl = 1 \<Longrightarrow> \<not> d < 0" and "BoxOnPlaneSide mins maxs pl = 2 \<Longrightarrow> d < 0"
proof -
  have c: "clear_of (component mins i) (component maxs i) (component p i)" for i
    using p by (simp add: well_inside_def component_def)
  have b: "in_box mins maxs p" using p by (rule well_inside_in_box)
  let ?n = "normal pl"
  let ?far = "\<lambda>n lo hi. if n < 0 then lo else (hi :: vec_t)"
  let ?hi = "dot3 ?n (?far (vx ?n) (vx mins) (vx maxs)) (?far (vy ?n) (vy mins) (vy maxs)) (?far (vz ?n) (vz mins) (vz maxs))"
  let ?lo = "dot3 ?n (?far (vx ?n) (vx maxs) (vx mins)) (?far (vy ?n) (vy maxs) (vy mins)) (?far (vz ?n) (vz maxs) (vz mins))"
  have m: "DotProduct ?n p \<le> ?hi" "?lo \<le> DotProduct ?n p"
    unfolding DotProduct_def using b
    by (auto intro!: dot3_mono scale_mono scale_mono' simp: in_box_def)
  have box: "BoxOnPlaneSide mins maxs pl = (if ?lo < plane_dist pl then (if plane_dist pl \<le> ?hi then 3 else 2)
      else if plane_dist pl \<le> ?hi then 1 else 0)" if "\<not> AXIAL pl"
    by (subst BoxOnPlaneSide_corners [OF that s]) (simp only: Let_def SIDE_FRONT_def SIDE_BACK_def, simp)
  show "\<not> d < 0" if "BoxOnPlaneSide mins maxs pl = 1"
  proof (cases "AXIAL pl")
    case True
    then have "dbl (plane_dist pl - SIDE_EPSILON) \<le> component mins (plane_type pl)"
      using that by (simp add: BoxOnPlaneSide_def SIDE_BACK_def SIDE_BOTH_def split: if_splits)
    then show ?thesis using clear_of_sides(1) [OF c] d True by (simp add: not_less)
  next
    case False
    then have "plane_dist pl \<le> ?lo" using that unfolding box [OF False] by (simp only: split: if_splits) simp_all
    then show ?thesis using m d False by simp
  qed
  show "d < 0" if "BoxOnPlaneSide mins maxs pl = 2"
  proof (cases "AXIAL pl")
    case True
    then have "dbl (plane_dist pl + SIDE_EPSILON) \<ge> component maxs (plane_type pl)"
      using that by (simp add: BoxOnPlaneSide_def SIDE_FRONT_def SIDE_BOTH_def split: if_splits)
    then show ?thesis using clear_of_sides(2) [OF c] d True by simp
  next
    case False
    then have "?hi < plane_dist pl" using that unfolding box [OF False] by (simp only: split: if_splits) simp_all
    then show ?thesis using m d False by simp
  qed
qed

lemma point_leaf_touched:
  assumes wf: "wf_tree bsp" and "tree_ref bsp n" and p: "well_inside mins maxs p"
    and "Cm_PointLeafnum_r bsp p n = Some (Inr l)"
  shows "touches bsp mins maxs n l"
  using assms(1,2,4)
proof (induction rule: tree_induct)
  case (leaf n)
  then show ?case by (subst (asm) Cm_PointLeafnum_r.simps) (simp add: touches_neg)
next
  case (node n)
  let ?pl = "planes bsp (node_plane (nodes bsp n))"
  have s: "sign_bits ?pl = SignBitsForPlane ?pl" using wf node.hyps by (simp add: wf_tree_def Let_def)
  have "Cm_PointLeafnum_r bsp p (point_side bsp p (nodes bsp n)) = Some (Inr l)"
    using node.prems node.hyps node_in_array [OF wf node.hyps] by (subst (asm) Cm_PointLeafnum_r.simps) simp
  then show ?case
    using node.IH box_side_of_point [OF s p refl] touches_node [OF node.hyps(1)]
    by (auto simp: point_side_def Let_def split: if_splits)
qed

section \<open>Visible leafs under a node\<close>

inductive leaf_under :: "c_bsp \<Rightarrow> int \<Rightarrow> int \<Rightarrow> bool" for bsp where
  under_leaf: "n < 0 \<Longrightarrow> leaf_under bsp n (-1 - n)"
| under_child: "0 \<le> n \<Longrightarrow> c \<in> {child0 (nodes bsp n), child1 (nodes bsp n)} \<Longrightarrow>
    leaf_under bsp c l \<Longrightarrow> leaf_under bsp n l"

inductive_simps leaf_under_iff: "leaf_under bsp n l"

definition visible_leaf :: "c_bsp \<Rightarrow> byte list \<Rightarrow> int \<Rightarrow> bool" where
  "visible_leaf bsp vis l \<longleftrightarrow> leaf_cluster (leafs bsp l) \<noteq> -1 \<and> sees vis (nat (leaf_cluster (leafs bsp l)))"

definition clusters_fit :: "c_bsp \<Rightarrow> byte list \<Rightarrow> bool" where
  "clusters_fit bsp vis \<longleftrightarrow> (\<forall>l. 0 \<le> l \<and> l < num_leafs bsp \<longrightarrow>
     -1 \<le> leaf_cluster (leafs bsp l) \<and> nat (leaf_cluster (leafs bsp l)) div 8 < length vis)"

lemma headnode_visible:
  assumes wf: "wf_tree bsp" and "tree_ref bsp n" and fit: "clusters_fit bsp vis"
  shows "Cm_HeadnodeVisible bsp vis n = Some (Inr (\<exists>l. leaf_under bsp n l \<and> visible_leaf bsp vis l))"
  using assms(1,2)
proof (induction rule: tree_induct)
  case (leaf n)
  then have "(\<exists>l. leaf_under bsp n l \<and> visible_leaf bsp vis l) \<longleftrightarrow> visible_leaf bsp vis (-1 - n)"
    by (subst leaf_under_iff) auto
  moreover have "in_array (int MAX_BSP_LEAFS) (-1 - n)" using leaf wf by (simp add: wf_tree_def in_array_def)
  moreover have "-1 \<le> leaf_cluster (leafs bsp (-1 - n))" "nat (leaf_cluster (leafs bsp (-1 - n))) div 8 < length vis"
    using fit leaf by (simp_all add: clusters_fit_def)
  ultimately show ?case
    using leaf by (subst Cm_HeadnodeVisible.simps) (auto simp: visible_leaf_def Let_def)
next
  case (node n)
  have "(\<exists>l. leaf_under bsp n l \<and> visible_leaf bsp vis l) \<longleftrightarrow>
      (\<exists>l. leaf_under bsp (child0 (nodes bsp n)) l \<and> visible_leaf bsp vis l) \<or>
      (\<exists>l. leaf_under bsp (child1 (nodes bsp n)) l \<and> visible_leaf bsp vis l)"
    using node.hyps by (subst leaf_under_iff) auto
  then show ?case
    using node.hyps node.IH node_in_array [OF wf node.hyps] by (subst Cm_HeadnodeVisible.simps) auto
qed

section \<open>Points in the box hull\<close>

definition in_half_open :: "vec3_t \<Rightarrow> vec3_t \<Rightarrow> vec3_t \<Rightarrow> bool" where
  "in_half_open mins maxs p \<longleftrightarrow> vx mins \<le> vx p \<and> vx p < vx maxs \<and> vy mins \<le> vy p \<and> vy p < vy maxs \<and>
     vz mins \<le> vz p \<and> vz p < vz maxs"

definition hull_dist :: "vec3_t \<Rightarrow> vec3_t \<Rightarrow> nat \<Rightarrow> vec_t" where
  "hull_dist mins maxs i = component (if even i then maxs else mins) (i div 2)"

definition hull_entry :: "c_bsp \<Rightarrow> nat \<Rightarrow> bsp_node" where
  "hull_entry bsp i =
     (let out = -1 - empty_leaf bsp;
          further = (if i \<noteq> 5 then num_nodes bsp + (int i + 1) else -1 - num_leafs bsp)
      in \<lparr>node_plane = num_planes bsp + 2 * int i, child0 = (if even i then out else further),
          child1 = (if odd i then out else further)\<rparr>)"

definition hull_built :: "c_bsp \<Rightarrow> nat \<Rightarrow> c_bsp \<Rightarrow> bool" where
  "hull_built bsp n bsp' \<longleftrightarrow> num_nodes bsp' = num_nodes bsp \<and> num_planes bsp' = num_planes bsp \<and>
     num_leafs bsp' = num_leafs bsp \<and> empty_leaf bsp' = empty_leaf bsp \<and> leafs bsp' = leafs bsp \<and>
     (\<forall>k < n. nodes bsp' (num_nodes bsp + int k) = hull_entry bsp k \<and>
        plane_type (planes bsp' (num_planes bsp + 2 * int k)) = k div 2)"

lemma hull_built_step: "hull_built bsp n bsp' \<Longrightarrow> hull_built bsp (Suc n) (hull_node n bsp')"
  by (auto simp: hull_built_def hull_node_def Let_def hull_entry_def less_Suc_eq parity_cases)

lemma hull_built_6: "hull_built bsp 6 (fold hull_node [0, 1, 2, 3, 4, 5] bsp)"
proof -
  have "hull_built bsp n (fold hull_node [0 ..< n] bsp)" for n
    by (induction n) (simp_all add: hull_built_step, simp add: hull_built_def)
  moreover have "[0 ..< 6] = [0, 1, 2, 3, 4, 5 :: nat]" by code_simp
  ultimately show ?thesis by metis
qed

lemma set_dists:
  "planes (fold (set_dist cm_box) ds bsp) x =
     (case map_of (rev ds) (x - box_planes cm_box) of None \<Rightarrow> planes bsp x
      | Some d \<Rightarrow> (planes bsp x)\<lparr>plane_dist := d\<rparr>) \<and>
   nodes (fold (set_dist cm_box) ds bsp) = nodes bsp \<and> leafs (fold (set_dist cm_box) ds bsp) = leafs bsp \<and>
   num_nodes (fold (set_dist cm_box) ds bsp) = num_nodes bsp"
proof (induction ds rule: rev_induct)
  case (snoc d ds)
  obtain k v where "d = (k, v)" by force
  then show ?case using snoc by (auto simp: set_dist_def split: option.splits)
qed simp

lemma hull_ready:
  assumes 1: "Cm_InitBoxHull bsp = Inr (cm_box, bsp1)"
    and 2: "Cm_HeadnodeForBox cm_box mins maxs bsp1 = (head, bsp')"
  shows "head = num_nodes bsp" and "num_nodes bsp' = num_nodes bsp"
    and "leaf_contents (leafs bsp' (num_leafs bsp)) = CONTENTS_MONSTER"
    and "empty_leaf bsp \<noteq> num_leafs bsp \<Longrightarrow> leafs bsp' (empty_leaf bsp) = leafs bsp (empty_leaf bsp)"
    and "i < 6 \<Longrightarrow> nodes bsp' (num_nodes bsp + int i) = hull_entry bsp i"
    and "i < 6 \<Longrightarrow> plane_type (planes bsp' (num_planes bsp + 2 * int i)) = i div 2 \<and>
      plane_dist (planes bsp' (num_planes bsp + 2 * int i)) = hull_dist mins maxs i"
proof -
  obtain bsp0 where b: "bsp1 = fold hull_node [0, 1, 2, 3, 4, 5] bsp0" "num_nodes bsp0 = num_nodes bsp"
      "num_planes bsp0 = num_planes bsp" "num_leafs bsp0 = num_leafs bsp" "empty_leaf bsp0 = empty_leaf bsp"
      "leaf_contents (leafs bsp0 (num_leafs bsp)) = CONTENTS_MONSTER"
      "empty_leaf bsp \<noteq> num_leafs bsp \<Longrightarrow> leafs bsp0 (empty_leaf bsp) = leafs bsp (empty_leaf bsp)"
      "box_head_node cm_box = num_nodes bsp" "box_planes cm_box = num_planes bsp"
    using 1 unfolding Cm_InitBoxHull_def Let_def by (simp only: split: if_splits) auto
  have h: "hull_built bsp0 6 bsp1" unfolding b(1) by (rule hull_built_6)
  define ds where "ds = [(0, vx maxs), (1, - vx maxs), (2, vx mins), (3, - vx mins), (4, vy maxs), (5, - vy maxs),
    (6, vy mins), (7, - vy mins), (8, vz maxs), (9, - vz maxs), (10, vz mins), (11 :: int, - vz mins)]"
  have s: "bsp' = fold (set_dist cm_box) ds bsp1" using 2 unfolding Cm_HeadnodeForBox_def ds_def by blast
  show "head = num_nodes bsp" using 2 b(8) by (simp add: Cm_HeadnodeForBox_def)
  show "num_nodes bsp' = num_nodes bsp" using h b(2) set_dists by (simp add: s hull_built_def)
  show "leaf_contents (leafs bsp' (num_leafs bsp)) = CONTENTS_MONSTER"
    using h b(6) set_dists by (simp add: s hull_built_def)
  show "empty_leaf bsp \<noteq> num_leafs bsp \<Longrightarrow> leafs bsp' (empty_leaf bsp) = leafs bsp (empty_leaf bsp)"
    using h b(7) set_dists by (simp add: s hull_built_def)
  show "nodes bsp' (num_nodes bsp + int i) = hull_entry bsp i" if "i < 6"
    using h b(2-5) set_dists that by (simp add: s hull_built_def hull_entry_def)
  show "plane_type (planes bsp' (num_planes bsp + 2 * int i)) = i div 2 \<and>
      plane_dist (planes bsp' (num_planes bsp + 2 * int i)) = hull_dist mins maxs i" if "i < 6"
  proof -
    have "i = 0 \<or> i = 1 \<or> i = 2 \<or> i = 3 \<or> i = 4 \<or> i = 5" using that by auto
    then have "map_of (rev ds) (2 * int i) = Some (hull_dist mins maxs i)"
      by (elim disjE) (simp_all add: ds_def hull_dist_def component_def)
    moreover have "plane_type (planes bsp1 (num_planes bsp + 2 * int i)) = i div 2"
      using h b(3) that by (simp add: hull_built_def)
    ultimately show ?thesis using set_dists [of cm_box ds bsp1 "num_planes bsp + 2 * int i"] by (simp add: s b(9))
  qed
qed

definition passes :: "vec3_t \<Rightarrow> vec3_t \<Rightarrow> vec3_t \<Rightarrow> nat \<Rightarrow> bool" where
  "passes mins maxs p i \<longleftrightarrow> (if even i then component p (i div 2) < component maxs (i div 2)
     else component mins (i div 2) \<le> component p (i div 2))"

lemma hull_step:
  assumes 1: "Cm_InitBoxHull bsp = Inr (cm_box, bsp1)"
    and 2: "Cm_HeadnodeForBox cm_box mins maxs bsp1 = (head, bsp')"
    and i: "i < 6" and n: "0 \<le> num_nodes bsp" "0 \<le> empty_leaf bsp"
  shows "Cm_PointLeafnum_r bsp' p (num_nodes bsp + int i) =
    (if passes mins maxs p i then
       (if i \<noteq> 5 then Cm_PointLeafnum_r bsp' p (num_nodes bsp + (int i + 1)) else Some (Inr (num_leafs bsp)))
     else Some (Inr (empty_leaf bsp)))"
proof -
  have r: "num_nodes bsp + 6 \<le> MAX_BSP_NODES" "0 \<le> num_leafs bsp"
    using 1 unfolding Cm_InitBoxHull_def in_array_def by (simp_all split: if_splits)
  note h = hull_ready(5,6) [OF 1 2 i]
  have a: "AXIAL (planes bsp' (num_planes bsp + 2 * int i))"
    using h(2) i by (simp add: AXIAL_def PLANE_ANYX_def)
  have ps: "point_side bsp' p (nodes bsp' (num_nodes bsp + int i)) =
      (if passes mins maxs p i then (if i \<noteq> 5 then num_nodes bsp + (int i + 1) else -1 - num_leafs bsp)
       else -1 - empty_leaf bsp)"
    using h a by (simp add: point_side_def hull_entry_def hull_dist_def passes_def Let_def)
  have leaf: "0 \<le> l \<Longrightarrow> Cm_PointLeafnum_r bsp' p (-1 - l) = Some (Inr l)" for l
    by (subst Cm_PointLeafnum_r.simps) simp
  have "Cm_PointLeafnum_r bsp' p (num_nodes bsp + int i) =
      Cm_PointLeafnum_r bsp' p (point_side bsp' p (nodes bsp' (num_nodes bsp + int i)))"
    using n r i by (subst Cm_PointLeafnum_r.simps) (simp add: in_array_def)
  then show ?thesis unfolding ps using leaf n r(2) by simp
qed

lemma hull_contents:
  assumes 1: "Cm_InitBoxHull bsp = Inr (cm_box, bsp1)"
    and 2: "Cm_HeadnodeForBox cm_box mins maxs bsp1 = (head, bsp')"
    and n: "0 < num_nodes bsp" "0 \<le> empty_leaf bsp" "empty_leaf bsp < num_leafs bsp"
  shows "Cm_PointContents bsp' p head = Some (Inr
    (if in_half_open mins maxs p then CONTENTS_MONSTER else leaf_contents (leafs bsp (empty_leaf bsp))))"
proof -
  have n': "0 \<le> num_nodes bsp" "0 \<le> empty_leaf bsp" using n by simp_all
  have r: "num_leafs bsp < int MAX_BSP_LEAFS"
    using 1 unfolding Cm_InitBoxHull_def in_array_def by (simp_all split: if_splits)
  note st = hull_step [OF 1 2 _ n', of _ p]
  have w: "in_half_open mins maxs p \<longleftrightarrow> passes mins maxs p 0 \<and> passes mins maxs p 1 \<and> passes mins maxs p 2 \<and>
      passes mins maxs p 3 \<and> passes mins maxs p 4 \<and> passes mins maxs p 5"
    by (auto simp: in_half_open_def passes_def component_def)
  have "Cm_PointLeafnum_r bsp' p (num_nodes bsp) =
      Some (Inr (if in_half_open mins maxs p then num_leafs bsp else empty_leaf bsp))"
    using st [of 0] st [of 1] st [of 2] st [of 3] st [of 4] st [of 5] unfolding w by simp
  then show ?thesis
    using hull_ready [OF 1 2] n r by (simp add: Cm_PointContents_def in_array_def)
qed

section \<open>Properties\<close>

text \<open>
  C20: In a tree as the map compiler writes it (\<open>wf_tree\<close>: every child comes after its node, nodes and leafs
  that are referred to exist, the sign bits of the planes are right; the first model has the node 0
  at its head), the search for the leaf of a point ends, and so does the search for the leafs
  that a box touches; if the box has the point well inside and its list does not fill up, the leaf
  of the point is in the list. \<open>Cm_LoadNodes\<close> does not check the order and the range of the
  children, so this is an assumption on the map, not a consequence of its loading.
\<close>

theorem box_leafs_contain_point:
  assumes "wf_tree bsp" and "0 < num_nodes bsp" and "model_head_node bsp = 0" and "num_planes bsp \<noteq> 0"
    and "well_inside mins maxs p"
  shows "\<exists>l ld. Cm_PointLeafnum bsp p = Some (Inr l) \<and> 0 \<le> l \<and> l < num_leafs bsp \<and>
    Cm_BoxLeafnums bsp mins maxs len = Some (Inr ld) \<and> length (found ld) \<le> len \<and>
    (length (found ld) < len \<longrightarrow> l \<in> set (found ld))"
proof -
  have ref: "tree_ref bsp 0" using assms(2) by (simp add: tree_ref_def)
  obtain l where l: "Cm_PointLeafnum_r bsp p 0 = Some (Inr l)" "0 \<le> l" "l < num_leafs bsp"
    using point_leaf [OF assms(1) ref] by blast
  obtain ld where ld: "Cm_BoxLeafnums bsp mins maxs len = Some (Inr ld)"
      "collects \<lparr>found = [], max_len = len, top_node = -1\<rparr> ld (touches bsp mins maxs 0)"
    using box_leafs [OF assms(1) ref] assms(3) by (fastforce simp: Cm_BoxLeafnums_def)
  then show ?thesis
    using l point_leaf_touched [OF assms(1) ref assms(5) l(1)] assms(4)
    by (auto simp: collects_def Cm_PointLeafnum_def)
qed

text \<open>A tree with one node, which separates a solid leaf from an empty one at \<open>x = 10\<close>.\<close>

definition sample_bsp :: c_bsp where
  "sample_bsp = \<lparr>num_planes = 1,
     planes = (\<lambda>_. \<lparr>normal = Vec3 1 0 0, plane_dist = 10, plane_type = 0, sign_bits = 0\<rparr>),
     num_nodes = 1, nodes = (\<lambda>_. \<lparr>node_plane = 0, child0 = -2, child1 = -1\<rparr>),
     num_leafs = 2,
     leafs = (\<lambda>i. \<lparr>leaf_contents = (if i = 0 then 1 else 0), leaf_cluster = (if i = 0 then -1 else 4),
       leaf_area = 1, first_leaf_brush = 0, num_leaf_brushes = 0\<rparr>),
     empty_leaf = 1, model_head_node = 0,
     num_brushes = 0, brushes = (\<lambda>_. \<lparr>brush_contents = 0, num_sides = 0, first_brush_side = 0\<rparr>),
     num_brush_sides = 0, brush_sides = (\<lambda>_. \<lparr>side_plane = 0, side_surface = None\<rparr>),
     total_leaf_brushes = 0, leaf_brushes = (\<lambda>_. 0)\<rparr>"

lemma sample_tree: "wf_tree sample_bsp"
  by (auto simp: wf_tree_def sample_bsp_def tree_ref_def MAX_BSP_NODES_def limits SignBits_cases)

theorem box_leafs_contain_point_witness:
  "\<exists>l ld. Cm_PointLeafnum sample_bsp (Vec3 20 0 0) = Some (Inr l) \<and>
     Cm_BoxLeafnums sample_bsp (Vec3 4 (-16) (-16)) (Vec3 36 16 16) 64 = Some (Inr ld) \<and>
     length (found ld) \<le> 64 \<and> (length (found ld) < 64 \<longrightarrow> l \<in> set (found ld))"
proof -
  have "well_inside (Vec3 4 (-16) (-16)) (Vec3 36 16 16) (Vec3 20 0 0)"
    unfolding well_inside_def clear_of_def by code_simp
  then show ?thesis
    using box_leafs_contain_point [OF sample_tree, of "Vec3 4 (-16) (-16)" "Vec3 36 16 16" "Vec3 20 0 0" 64]
    by (auto simp: sample_bsp_def)
qed

text \<open>
  C21: \<open>Cm_HeadnodeVisible\<close> ends and is true exactly if some leaf under the node is in a
  cluster the vector marks.
\<close>

theorem headnode_visible_leaf:
  assumes "wf_tree bsp" and "tree_ref bsp n" and "clusters_fit bsp vis"
  shows "Cm_HeadnodeVisible bsp vis n = Some (Inr (\<exists>l. leaf_under bsp n l \<and> visible_leaf bsp vis l))"
  using assms by (rule headnode_visible)

theorem headnode_visible_leaf_witness: "Cm_HeadnodeVisible sample_bsp [16] 0 = Some (Inr True)"
proof -
  have "leaf_under sample_bsp 0 1"
    using under_child [of 0 "-2" sample_bsp 1] under_leaf [of "-2" sample_bsp] by (simp add: sample_bsp_def)
  moreover have "visible_leaf sample_bsp [16] 1"
    by (simp add: visible_leaf_def sample_bsp_def sees_def)
  moreover have "tree_ref sample_bsp 0" "clusters_fit sample_bsp [16]"
    by (auto simp: tree_ref_def clusters_fit_def sample_bsp_def)
  ultimately show ?thesis using headnode_visible_leaf [OF sample_tree, of 0 "[16]"] by auto
qed

text \<open>
  The tree built for a bounding box has contents exactly at the points of the box
  (half open at its upper faces), and otherwise those of the empty leaf.
\<close>

theorem box_hull_contents:
  assumes "Cm_InitBoxHull bsp = Inr (cm_box, bsp1)"
    and "Cm_HeadnodeForBox cm_box mins maxs bsp1 = (head, bsp')"
    and "0 < num_nodes bsp" and "0 \<le> empty_leaf bsp" and "empty_leaf bsp < num_leafs bsp"
  shows "Cm_PointContents bsp' p head = Some (Inr
    (if in_half_open mins maxs p then CONTENTS_MONSTER else leaf_contents (leafs bsp (empty_leaf bsp))))"
  using assms by (rule hull_contents)

theorem box_hull_contents_witness:
  "\<exists>cm_box bsp1 head bsp'. Cm_InitBoxHull sample_bsp = Inr (cm_box, bsp1) \<and>
     Cm_HeadnodeForBox cm_box (Vec3 (-16) (-16) (-24)) (Vec3 16 16 32) bsp1 = (head, bsp') \<and>
     Cm_PointContents bsp' (Vec3 0 0 0) head = Some (Inr CONTENTS_MONSTER) \<and>
     Cm_PointContents bsp' (Vec3 0 0 40) head = Some (Inr 0)"
proof -
  obtain cm_box bsp1 where 1: "Cm_InitBoxHull sample_bsp = Inr (cm_box, bsp1)"
    by (simp add: Cm_InitBoxHull_def sample_bsp_def in_array_def MAX_BSP_NODES_def MAX_BSP_BRUSHES_def
      MAX_BSP_LEAF_BRUSHES_def MAX_BSP_BRUSH_SIDES_def MAX_BSP_PLANES_def limits Let_def)
  obtain head bsp' where 2: "Cm_HeadnodeForBox cm_box (Vec3 (-16) (-16) (-24)) (Vec3 16 16 32) bsp1 = (head, bsp')"
    by force
  have "0 < num_nodes sample_bsp" "0 \<le> empty_leaf sample_bsp" "empty_leaf sample_bsp < num_leafs sample_bsp"
      "leaf_contents (leafs sample_bsp (empty_leaf sample_bsp)) = 0"
    by (simp_all add: sample_bsp_def)
  then show ?thesis
    using 1 2 box_hull_contents [OF 1 2, of "Vec3 0 0 0"] box_hull_contents [OF 1 2, of "Vec3 0 0 40"]
    by (auto simp: in_half_open_def)
qed

end
