(* ===== verification/Sv_World.thy ===== *)
theory Sv_World
  imports Sv_Links Cm_Bsp Sv_Entity
begin

text \<open>
  \<open>src/server/sv_world.c\<close>: the server divides the world uniformly and links every edict to
  the smallest division its absolute bounding box lies in, so that the edicts in an area
  are found without looking at all of them. Linking also finds the areas and the clusters
  of the map that the edict is in, and packs its size for the prediction of the client
  (\<open>PackBounds\<close> in \<open>src/shared.c\<close>). \<open>sv_world\<close> holds the divisions, the links and the
  edicts, which are named by their numbers.
\<close>

section \<open>Types\<close>

datatype solid_t = SOLID_NOT | SOLID_TRIGGER | SOLID_BOX | SOLID_MISSILE | SOLID_BSP

definition solid_value :: "solid_t \<Rightarrow> uint16" where
  "solid_value s = (case s of SOLID_NOT \<Rightarrow> 0 | SOLID_TRIGGER \<Rightarrow> 1 | SOLID_BOX \<Rightarrow> 2 | SOLID_MISSILE \<Rightarrow> 3
     | SOLID_BSP \<Rightarrow> 31)"

text \<open>\<open>ed_player\<close> is \<open>client->ps\<close> of an edict that has a client.\<close>

record edict =
  ed_s :: entity_state
  in_use :: bool
  ed_ai :: bool
  sv_flags :: uint32
  link_count :: uint32
  ed_num_clusters :: int
  ed_clusters :: "int list"
  ed_head_node :: int
  area_num :: int
  area_num2 :: int
  ed_mins :: vec3_t
  ed_maxs :: vec3_t
  abs_mins :: vec3_t
  abs_maxs :: vec3_t
  ed_size :: vec3_t
  ed_solid :: solid_t
  ed_owner :: "nat option"
  ed_player :: "player_state option"

record area_node =
  node_axis :: int
  node_dist :: vec_t
  node_child0 :: nat
  node_child1 :: nat

record sv_world =
  area_nodes :: "nat \<Rightarrow> area_node"
  num_area_nodes :: nat
  world_links :: link_heap
  edicts :: "nat \<Rightarrow> edict"

definition AREA_DEPTH :: nat where "AREA_DEPTH = 4"
definition AREA_NODES :: nat where "AREA_NODES = 32"
definition MAX_TOTAL_ENT_LEAFS :: nat where "MAX_TOTAL_ENT_LEAFS = 128"
definition MAX_ENT_CLUSTERS :: nat where "MAX_ENT_CLUSTERS = 16"

section \<open>The divisions\<close>

definition set_component :: "'a vec3 \<Rightarrow> nat \<Rightarrow> 'a \<Rightarrow> 'a vec3" where
  "set_component v i a = (if i = 0 then Vec3 a (vy v) (vz v) else if i = 1 then Vec3 (vx v) a (vz v)
     else Vec3 (vx v) (vy v) a)"

text \<open>\<open>left\<close> is \<open>AREA_DEPTH - depth\<close>.\<close>

primrec Sv_CreateAreaNode :: "nat \<Rightarrow> vec3_t \<Rightarrow> vec3_t \<Rightarrow> sv_world \<Rightarrow> (nat \<times> sv_world) result" where
  "Sv_CreateAreaNode 0 mins maxs w =
     (let n = num_area_nodes w in
      if n \<ge> AREA_NODES then Inl Bad_Access
      else Inr (n, w\<lparr>num_area_nodes := n + 1,
             world_links := Sv_ClearLink (Solid_Edicts n) (Sv_ClearLink (Trigger_Edicts n) (world_links w)),
             area_nodes := (area_nodes w)(n := (area_nodes w n)\<lparr>node_axis := -1\<rparr>)\<rparr>))"
| "Sv_CreateAreaNode (Suc left) mins maxs w =
     (let n = num_area_nodes w in
      if n \<ge> AREA_NODES then Inl Bad_Access
      else
        let axis = (if flt (vx maxs - vx mins) > flt (vy maxs - vy mins) then 0 else 1 :: nat);
            d = flt (flt (component maxs axis + component mins axis) / 2);
            node = \<lparr>node_axis = int axis, node_dist = d, node_child0 = 0, node_child1 = 0\<rparr>;
            w = w\<lparr>num_area_nodes := n + 1,
              world_links := Sv_ClearLink (Solid_Edicts n) (Sv_ClearLink (Trigger_Edicts n) (world_links w))\<rparr>
        in bindE (Sv_CreateAreaNode left (set_component mins axis d) maxs w) (\<lambda>(c0, w).
           bindE (Sv_CreateAreaNode left mins (set_component maxs axis d) w) (\<lambda>(c1, w).
             Inr (n, w\<lparr>area_nodes := (area_nodes w)(n := node\<lparr>node_child0 := c0, node_child1 := c1\<rparr>)\<rparr>))))"

text \<open>
  \<open>memset\<close> clears the structure, with the heads of the lists; the links within the edicts,
  which it does not hold in the code, stay.
\<close>

definition clear_heads :: "link_heap \<Rightarrow> link_heap" where
  "clear_heads h =
     (let keep = (\<lambda>links l. case l of Edict_Area e \<Rightarrow> links (Edict_Area e) | _ \<Rightarrow> None)
      in \<lparr>link_prev = keep (link_prev h), link_next = keep (link_next h)\<rparr>)"

definition Sv_InitWorld :: "vec3_t \<Rightarrow> vec3_t \<Rightarrow> (nat \<Rightarrow> edict) \<Rightarrow> link_heap \<Rightarrow> sv_world result" where
  "Sv_InitWorld mins maxs ents h =
     bindE (Sv_CreateAreaNode AREA_DEPTH mins maxs
        \<lparr>area_nodes = (\<lambda>_. \<lparr>node_axis = 0, node_dist = 0, node_child0 = 0, node_child1 = 0\<rparr>),
         num_area_nodes = 0, world_links = clear_heads h, edicts = ents\<rparr>) (\<lambda>(_, w). Inr w)"

section \<open>Linking\<close>

definition clamp :: "rat \<Rightarrow> rat \<Rightarrow> rat \<Rightarrow> rat" where
  "clamp x y z = (if x < y then y else if x > z then z else x)"

definition PackBounds :: "vec3_t \<Rightarrow> vec3_t \<Rightarrow> uint16" where
  "PackBounds mins maxs =
     (let xy = trunc (clamp (vx maxs * (1 / 8)) 1 31);
          zd = trunc (clamp (- vz mins * (1 / 8)) 1 31);
          zu = trunc (clamp (dbl (vz maxs + 32) * (1 / 8)) 1 63)
      in word_of_int (push_bit 10 zu OR push_bit 5 zd OR xy))"

definition UnpackBounds :: "uint16 \<Rightarrow> vec3_t \<times> vec3_t" where
  "UnpackBounds b =
     (let n = uint b; xy = of_int (n AND 31) * 8; zd = of_int (drop_bit 5 n AND 31) * 8;
          zu = of_int ((drop_bit 10 n AND 63) - 32) * 8
      in (Vec3 (- xy) (- xy) (- zd), Vec3 xy xy zu))"

definition sub3 :: "vec3_t \<Rightarrow> vec3_t \<Rightarrow> vec3_t" where
  "sub3 a b = Vec3 (flt (vx a - vx b)) (flt (vy a - vy b)) (flt (vz a - vz b))"

definition add3 :: "vec3_t \<Rightarrow> vec3_t \<Rightarrow> vec3_t" where
  "add3 a b = Vec3 (flt (vx a + vx b)) (flt (vy a + vy b)) (flt (vz a + vz b))"

text \<open>The largest absolute value of a component, and the vector with this value throughout.\<close>

definition extent :: "vec3_t \<Rightarrow> vec3_t \<Rightarrow> vec_t" where
  "extent mins maxs = fold (\<lambda>v m. if \<bar>v\<bar> > m then \<bar>v\<bar> else m)
     [vx mins, vx maxs, vy mins, vy maxs, vz mins, vz maxs] 0"

definition all3 :: "vec_t \<Rightarrow> vec3_t" where "all3 a = Vec3 a a a"

text \<open>\<open>v[i] -= 1.0\<close>: a subtraction of doubles, stored to a float\<close>

definition widen :: "vec_t \<Rightarrow> vec3_t \<Rightarrow> vec3_t" where
  "widen d v = Vec3 (flt (dbl (vx v + d))) (flt (dbl (vy v + d))) (flt (dbl (vz v + d)))"

definition link_box :: "edict \<Rightarrow> edict" where
  "link_box ed =
     (let s = ed_s ed;
          packed = (if ed_solid ed = SOLID_BOX then PackBounds (ed_mins ed) (ed_maxs ed)
                    else if ed_solid ed = SOLID_BSP then solid_value SOLID_BSP else solid_value SOLID_NOT);
          (lo, hi) =
            (if ed_solid ed = SOLID_BSP \<and> (vx (angles s) \<noteq> 0 \<or> vy (angles s) \<noteq> 0 \<or> vz (angles s) \<noteq> 0)
             then let m = extent (ed_mins ed) (ed_maxs ed) in (sub3 (origin s) (all3 m), add3 (origin s) (all3 m))
             else (add3 (origin s) (ed_mins ed), add3 (origin s) (ed_maxs ed)))
      in ed\<lparr>ed_size := sub3 (ed_maxs ed) (ed_mins ed), ed_s := s\<lparr>solid := packed\<rparr>,
            abs_mins := widen (-1) lo, abs_maxs := widen 1 hi\<rparr>)"

text \<open>The loop that looks up the areas and clusters of the leafs.\<close>

definition note_area :: "int \<Rightarrow> edict \<Rightarrow> edict" where
  "note_area area ed =
     (if area \<noteq> 0 then
        (if area_num ed \<noteq> 0 \<and> area_num ed \<noteq> area then ed\<lparr>area_num2 := area\<rparr> else ed\<lparr>area_num := area\<rparr>)
      else ed)"

fun leaf_areas :: "c_bsp \<Rightarrow> int list \<Rightarrow> edict \<Rightarrow> (int list \<times> edict) result" where
  "leaf_areas bsp [] ed = Inr ([], ed)"
| "leaf_areas bsp (l # ls) ed =
     bindE (Cm_LeafCluster bsp l) (\<lambda>cluster. bindE (Cm_LeafArea bsp l) (\<lambda>area.
       bindE (leaf_areas bsp ls (note_area area ed)) (\<lambda>(cs, ed). Inr (cluster # cs, ed))))"

text \<open>The loop over the clusters; \<open>seen\<close> are those before the current one.\<close>

fun list_clusters :: "int list \<Rightarrow> int list \<Rightarrow> int \<Rightarrow> edict \<Rightarrow> edict" where
  "list_clusters seen [] split ed = ed"
| "list_clusters seen (c # cs) split ed =
     (if c = -1 then list_clusters (seen @ [c]) cs split ed
      else if c \<in> set seen then list_clusters (seen @ [c]) cs split ed
      else if ed_num_clusters ed = int MAX_ENT_CLUSTERS
      then ed\<lparr>ed_num_clusters := -1, ed_head_node := split\<rparr>
      else list_clusters (seen @ [c]) cs split
             (ed\<lparr>ed_clusters := (ed_clusters ed)[nat (ed_num_clusters ed) := c],
                 ed_num_clusters := ed_num_clusters ed + 1\<rparr>))"

definition link_leafs :: "c_bsp \<Rightarrow> edict \<Rightarrow> edict run" where
  "link_leafs bsp ed =
     (let ed = ed\<lparr>ed_num_clusters := 0, area_num := 0, area_num2 := 0\<rparr>
      in bindO (Cm_BoxLeafnums bsp (abs_mins ed) (abs_maxs ed) MAX_TOTAL_ENT_LEAFS) (\<lambda>ld.
         bindO (Some (leaf_areas bsp (found ld) ed)) (\<lambda>(clusters, ed).
           Some (Inr (if length (found ld) \<ge> MAX_TOTAL_ENT_LEAFS
                      then ed\<lparr>ed_num_clusters := -1, ed_head_node := top_node ld\<rparr>
                      else list_clusters [] clusters (top_node ld) (ed\<lparr>ed_num_clusters := 0\<rparr>))))))"

definition count_link :: "edict \<Rightarrow> edict" where
  "count_link ed =
     (let ed = (if link_count ed = 0 then ed\<lparr>ed_s := (ed_s ed)\<lparr>old_origin := origin (ed_s ed)\<rparr>\<rparr> else ed)
      in ed\<lparr>link_count := link_count ed + 1\<rparr>)"

text \<open>The first division the box crosses.\<close>

partial_function (option) find_area_node :: "(nat \<Rightarrow> area_node) \<Rightarrow> vec3_t \<Rightarrow> vec3_t \<Rightarrow> nat \<Rightarrow> nat run" where
  "find_area_node ns mins maxs n =
     (let node = ns n; axis = nat (node_axis node) in
      if node_axis node = -1 then Some (Inr n)
      else if component mins axis > node_dist node then find_area_node ns mins maxs (node_child0 node)
      else if component maxs axis < node_dist node then find_area_node ns mins maxs (node_child1 node)
      else Some (Inr n))"

definition set_edict :: "nat \<Rightarrow> edict \<Rightarrow> sv_world \<Rightarrow> sv_world" where
  "set_edict e ed w = w\<lparr>edicts := (edicts w)(e := ed)\<rparr>"

definition Sv_LinkEdict :: "c_bsp \<Rightarrow> nat \<Rightarrow> sv_world \<Rightarrow> sv_world run" where
  "Sv_LinkEdict bsp e w =
     (if e = 0 then Some (Inr w)
      else bindO (Some (if link_prev (world_links w) (Edict_Area e) \<noteq> None
                        then Sv_UnlinkEdict (Edict_Area e) (world_links w) else Inr (world_links w))) (\<lambda>h.
        let w = w\<lparr>world_links := h\<rparr>; ed = edicts w e in
        if \<not> in_use ed then Some (Inr w)
        else bindO (link_leafs bsp (link_box ed)) (\<lambda>ed.
          let ed = count_link ed; w = set_edict e ed w in
          if ed_solid ed = SOLID_NOT then Some (Inr w)
          else bindO (find_area_node (area_nodes w) (abs_mins ed) (abs_maxs ed) 0) (\<lambda>n.
            bindO (Some (Sv_InsertLink (Edict_Area e)
                (if ed_solid ed = SOLID_TRIGGER then Trigger_Edicts n else Solid_Edicts n) (world_links w))) (\<lambda>h.
              Some (Inr (w\<lparr>world_links := h\<rparr>)))))))"

section \<open>Finding the edicts in an area\<close>

datatype area_type = AREA_SOLID | AREA_TRIGGERS

record area_query =
  area_mins :: vec3_t
  area_maxs :: vec3_t
  max_area_edicts :: nat
  q_type :: area_type

definition list_head :: "area_type \<Rightarrow> nat \<Rightarrow> link_ref" where
  "list_head t n = (if t = AREA_SOLID then Solid_Edicts n else Trigger_Edicts n)"

definition not_touching :: "area_query \<Rightarrow> edict \<Rightarrow> bool" where
  "not_touching q ed \<longleftrightarrow>
     vx (abs_mins ed) > vx (area_maxs q) \<or> vy (abs_mins ed) > vy (area_maxs q) \<or>
     vz (abs_mins ed) > vz (area_maxs q) \<or> vx (abs_maxs ed) < vx (area_mins q) \<or>
     vy (abs_maxs ed) < vy (area_mins q) \<or> vz (abs_maxs ed) < vz (area_mins q)"

text \<open>The loop over a list; the result tells whether it went through to the end.\<close>

partial_function (option) area_loop ::
  "(nat \<Rightarrow> edict) \<Rightarrow> link_heap \<Rightarrow> area_query \<Rightarrow> link_ref \<Rightarrow> link_ref \<Rightarrow> nat list \<Rightarrow> (bool \<times> nat list) run" where
  "area_loop ents h q start l out =
     (if l = start then Some (Inr (True, out))
      else case link_next h l of
        None \<Rightarrow> Some (Inl Bad_Access)
      | Some next \<Rightarrow>
          (case l of
             Edict_Area e \<Rightarrow>
               if ed_solid (ents e) = SOLID_NOT then area_loop ents h q start next out
               else if not_touching q (ents e) then area_loop ents h q start next out
               else if length out = max_area_edicts q then Some (Inr (False, out))
               else area_loop ents h q start next (out @ [e])
           | _ \<Rightarrow> Some (Inl Bad_Access)))"

partial_function (option) Sv_AreaEdicts_r :: "sv_world \<Rightarrow> area_query \<Rightarrow> nat \<Rightarrow> nat list \<Rightarrow> nat list run" where
  "Sv_AreaEdicts_r w q n out =
     (let node = area_nodes w n; axis = nat (node_axis node); start = list_head (q_type q) n in
      case link_next (world_links w) start of
        None \<Rightarrow> Some (Inl Bad_Access)
      | Some l \<Rightarrow>
          bindO (area_loop (edicts w) (world_links w) q start l out) (\<lambda>(complete, out).
            if \<not> complete then Some (Inr out)
            else if node_axis node = -1 then Some (Inr out)
            else bindO (if component (area_maxs q) axis > node_dist node
                        then Sv_AreaEdicts_r w q (node_child0 node) out else Some (Inr out)) (\<lambda>out.
              if component (area_mins q) axis < node_dist node
              then Sv_AreaEdicts_r w q (node_child1 node) out else Some (Inr out))))"

definition Sv_AreaEdicts :: "sv_world \<Rightarrow> vec3_t \<Rightarrow> vec3_t \<Rightarrow> nat \<Rightarrow> area_type \<Rightarrow> nat list run" where
  "Sv_AreaEdicts w mins maxs len type =
     Sv_AreaEdicts_r w \<lparr>area_mins = mins, area_maxs = maxs, max_area_edicts = len, q_type = type\<rparr> 0 []"

end
