(* ===== verification/Sv_World_Laws.thy ===== *)
theory Sv_World_Laws
  imports Sv_World
begin

text \<open>
  What linking keeps and what the search for edicts finds. \<open>world_ok w L\<close>: the divisions
  form a tree, the lists of the heads are \<open>L\<close>, and every edict is in a list of the division
  its bounding box belongs to.
\<close>

section \<open>The tree of divisions\<close>

text \<open>\<open>divided ns n m\<close>: the divisions from \<open>n\<close> to below \<open>m\<close> are the tree under \<open>n\<close>.\<close>

inductive divided :: "(nat \<Rightarrow> area_node) \<Rightarrow> nat \<Rightarrow> nat \<Rightarrow> bool" for ns where
  span_leaf: "node_axis (ns n) = -1 \<Longrightarrow> divided ns n (Suc n)"
| span_node: "node_axis (ns n) \<in> {0, 1} \<Longrightarrow> node_child0 (ns n) = n + 1 \<Longrightarrow> node_child1 (ns n) = c \<Longrightarrow>
    divided ns (n + 1) c \<Longrightarrow> divided ns c m \<Longrightarrow> divided ns n m"

lemma span_less: "divided ns n m \<Longrightarrow> n < m"
  by (induction rule: divided.induct) auto

lemma span_cong: "divided ns n m \<Longrightarrow> (\<And>k. n \<le> k \<Longrightarrow> k < m \<Longrightarrow> ns' k = ns k) \<Longrightarrow> divided ns' n m"
proof (induction rule: divided.induct)
  case (span_node n c m)
  then have "n < c" "c < m" using span_less by fastforce+
  then show ?case using span_node by (intro divided.span_node [of ns' n c]) auto
qed (simp add: divided.span_leaf)

text \<open>The subtree of a depth has \<open>nodes_below\<close> many divisions.\<close>

primrec nodes_below :: "nat \<Rightarrow> nat" where
  "nodes_below 0 = 1"
| "nodes_below (Suc k) = 1 + nodes_below k + nodes_below k"

definition empty_lists :: "link_heap \<Rightarrow> nat \<Rightarrow> nat \<Rightarrow> bool" where
  "empty_lists h n m \<longleftrightarrow> (\<forall>k. n \<le> k \<and> k < m \<longrightarrow>
     ring h (Trigger_Edicts k) [] \<and> ring h (Solid_Edicts k) [])"

definition same_links :: "link_heap \<Rightarrow> link_heap \<Rightarrow> nat \<Rightarrow> nat \<Rightarrow> bool" where
  "same_links h h' n m \<longleftrightarrow> (\<forall>l. (\<forall>k. n \<le> k \<and> k < m \<longrightarrow> l \<noteq> Trigger_Edicts k \<and> l \<noteq> Solid_Edicts k) \<longrightarrow>
     link_prev h' l = link_prev h l \<and> link_next h' l = link_next h l)"

lemma clear_division:
  "same_links h (Sv_ClearLink (Solid_Edicts n) (Sv_ClearLink (Trigger_Edicts n) h)) n (n + 1)"
  "empty_lists (Sv_ClearLink (Solid_Edicts n) (Sv_ClearLink (Trigger_Edicts n) h)) n (n + 1)"
  by (auto simp: same_links_def empty_lists_def Sv_ClearLink_def ring_def less_Suc_eq)

lemma same_links_trans:
  "same_links a b n k \<Longrightarrow> same_links b c k m \<Longrightarrow> n \<le> k \<Longrightarrow> k \<le> m \<Longrightarrow> same_links a c n m"
  unfolding same_links_def by (metis le_trans less_le_trans)

lemma empty_lists_later:
  assumes "empty_lists h n m" and s: "same_links h h' m k" and "empty_lists h' m k"
  shows "empty_lists h' n k"
  unfolding empty_lists_def
proof (intro allI impI)
  fix i assume i: "n \<le> i \<and> i < k"
  show "ring h' (Trigger_Edicts i) [] \<and> ring h' (Solid_Edicts i) []"
  proof (cases "i < m")
    case True
    then have "link_prev h' l = link_prev h l \<and> link_next h' l = link_next h l"
      if "l \<in> {Trigger_Edicts i, Solid_Edicts i}" for l
      using s that by (auto simp: same_links_def)
    then show ?thesis using assms(1) i True by (simp add: empty_lists_def ring_def)
  next
    case False
    then show ?thesis using assms(3) i by (simp add: empty_lists_def)
  qed
qed

lemma create_node:
  "num_area_nodes w + nodes_below left \<le> AREA_NODES \<Longrightarrow>
   \<exists>w'. Sv_CreateAreaNode left mins maxs w = Inr (num_area_nodes w, w') \<and>
     num_area_nodes w' = num_area_nodes w + nodes_below left \<and> edicts w' = edicts w \<and>
     divided (area_nodes w') (num_area_nodes w) (num_area_nodes w') \<and>
     (\<forall>k < num_area_nodes w. area_nodes w' k = area_nodes w k) \<and>
     same_links (world_links w) (world_links w') (num_area_nodes w) (num_area_nodes w') \<and>
     empty_lists (world_links w') (num_area_nodes w) (num_area_nodes w')"
proof (induction left arbitrary: w mins maxs)
  case 0
  then show ?case
    using clear_division [where h = "world_links w" and n = "num_area_nodes w"]
    by (auto simp: Let_def intro!: span_leaf)
next
  case (Suc left)
  let ?n = "num_area_nodes w"
  define axis where "axis = (if flt (vx maxs - vx mins) > flt (vy maxs - vy mins) then 0 else 1 :: nat)"
  define d where "d = flt (flt (component maxs axis + component mins axis) / 2)"
  let ?h = "Sv_ClearLink (Solid_Edicts ?n) (Sv_ClearLink (Trigger_Edicts ?n) (world_links w))"
  let ?w = "w\<lparr>num_area_nodes := ?n + 1, world_links := ?h\<rparr>"
  obtain w1 where 1: "Sv_CreateAreaNode left (set_component mins axis d) maxs ?w = Inr (?n + 1, w1)"
      "num_area_nodes w1 = ?n + 1 + nodes_below left" "edicts w1 = edicts w"
      "divided (area_nodes w1) (?n + 1) (num_area_nodes w1)"
      "same_links ?h (world_links w1) (?n + 1) (num_area_nodes w1)"
      "empty_lists (world_links w1) (?n + 1) (num_area_nodes w1)"
      "\<forall>k < ?n + 1. area_nodes w1 k = area_nodes w k"
    using Suc.IH [of ?w "set_component mins axis d" maxs] Suc.prems by auto
  obtain w2 where 2: "Sv_CreateAreaNode left mins (set_component maxs axis d) w1 = Inr (num_area_nodes w1, w2)"
      "num_area_nodes w2 = ?n + 1 + nodes_below left + nodes_below left" "edicts w2 = edicts w"
      "divided (area_nodes w2) (num_area_nodes w1) (num_area_nodes w2)"
      "same_links (world_links w1) (world_links w2) (num_area_nodes w1) (num_area_nodes w2)"
      "empty_lists (world_links w2) (num_area_nodes w1) (num_area_nodes w2)"
      "\<forall>k < num_area_nodes w1. area_nodes w2 k = area_nodes w1 k"
    using Suc.IH [of w1 mins "set_component maxs axis d"] Suc.prems 1(2,3) by auto
  let ?node = "\<lparr>node_axis = int axis, node_dist = d, node_child0 = ?n + 1, node_child1 = num_area_nodes w1\<rparr>"
  let ?w' = "w2\<lparr>area_nodes := (area_nodes w2)(?n := ?node)\<rparr>"
  have r: "Sv_CreateAreaNode (Suc left) mins maxs w = Inr (?n, ?w')"
    using Suc.prems 1(1) 2(1) by (simp add: Let_def axis_def [symmetric] d_def [symmetric])
  have s1: "divided (area_nodes ?w') (?n + 1) (num_area_nodes w1)"
    using 2(7) by (intro span_cong [OF 1(4)]) simp
  have s2: "divided (area_nodes ?w') (num_area_nodes w1) (num_area_nodes w2)"
    using 1(2) by (intro span_cong [OF 2(4)]) simp
  have s: "divided (area_nodes ?w') ?n (num_area_nodes w2)"
    by (rule span_node [OF _ _ _ s1 s2]) (simp_all add: axis_def)
  have k: "\<forall>k < ?n. area_nodes ?w' k = area_nodes w k" using 1(2,7) 2(7) by simp
  note c = clear_division [where h = "world_links w" and n = ?n]
  have l: "same_links (world_links w) (world_links ?w') ?n (num_area_nodes ?w')"
    using same_links_trans [OF same_links_trans [OF c(1) 1(5)] 2(5)] 1(2) 2(2) by simp
  have e: "empty_lists (world_links ?w') ?n (num_area_nodes ?w')"
    using empty_lists_later [OF empty_lists_later [OF c(2) 1(5,6)] 2(5,6)] by simp
  show ?case using r s k l e 2(2,3) by auto
qed

section \<open>The search\<close>

text \<open>What the loop over a list of edicts finds, and whether it went through.\<close>

definition hits :: "area_query \<Rightarrow> edict \<Rightarrow> bool" where
  "hits q ed \<longleftrightarrow> ed_solid ed \<noteq> SOLID_NOT \<and> \<not> not_touching q ed"

definition scan :: "(nat \<Rightarrow> edict) \<Rightarrow> area_query \<Rightarrow> nat list \<Rightarrow> nat list \<Rightarrow> bool \<times> nat list" where
  "scan ents q es out =
     (let hs = filter (\<lambda>e. hits q (ents e)) es; room = max_area_edicts q - length out
      in if length hs \<le> room then (True, out @ hs) else (False, out @ take room hs))"

lemma area_loop_ring:
  "linked h a (map Edict_Area es) start \<Longrightarrow> start \<notin> set (map Edict_Area es) \<Longrightarrow> length out \<le> max_area_edicts q \<Longrightarrow>
   \<exists>l. link_next h a = Some l \<and> area_loop ents h q start l out = Some (Inr (scan ents q es out))"
proof (induction es arbitrary: a out)
  case Nil
  then show ?case by (subst area_loop.simps) (simp add: scan_def)
next
  case (Cons e es)
  have n: "link_next h a = Some (Edict_Area e)" "start \<noteq> Edict_Area e"
    using Cons.prems by auto
  have l: "linked h (Edict_Area e) (map Edict_Area es) start" "start \<notin> set (map Edict_Area es)"
    using Cons.prems by auto
  obtain l where nx: "link_next h (Edict_Area e) = Some l"
    using Cons.IH [OF l Cons.prems(3)] by blast
  have IH: "length out' \<le> max_area_edicts q \<Longrightarrow>
      area_loop ents h q start l out' = Some (Inr (scan ents q es out'))" for out'
    using Cons.IH [OF l] nx by auto
  have "area_loop ents h q start (Edict_Area e) out = Some (Inr (scan ents q (e # es) out))"
  proof (cases "hits q (ents e)")
    case False
    then have "ed_solid (ents e) = SOLID_NOT \<or> not_touching q (ents e)" by (auto simp: hits_def)
    moreover have "scan ents q (e # es) out = scan ents q es out" using False by (simp add: scan_def)
    ultimately show ?thesis
      using IH [OF Cons.prems(3)] n(2) nx by (subst area_loop.simps) auto
  next
    case True
    then have h: "ed_solid (ents e) \<noteq> SOLID_NOT" "\<not> not_touching q (ents e)" by (simp_all add: hits_def)
    show ?thesis
    proof (cases "length out = max_area_edicts q")
      case full: True
      then have "scan ents q (e # es) out = (False, out)" using True by (simp add: scan_def)
      then show ?thesis using h n(2) nx full by (subst area_loop.simps) simp
    next
      case False
      then have r: "length (out @ [e]) \<le> max_area_edicts q" using Cons.prems(3) by simp
      have "scan ents q (e # es) out = scan ents q es (out @ [e])"
      proof -
        obtain k where "max_area_edicts q - length out = Suc k" using False Cons.prems(3) by (metis Suc_diff_Suc le_neq_implies_less)
        moreover from this have "max_area_edicts q - Suc (length out) = k" by simp
        ultimately show ?thesis using True by (simp add: scan_def Let_def)
      qed
      then show ?thesis using IH [OF r] h n(2) nx False by (subst area_loop.simps) simp
    qed
  qed
  then show ?case using n(1) by blast
qed

text \<open>The abstract lists of a world: which edicts the list of a division holds.\<close>

definition world_heads :: "sv_world \<Rightarrow> link_ref set" where
  "world_heads w = (\<Union>n \<in> {..< num_area_nodes w}. {Trigger_Edicts n, Solid_Edicts n})"

definition keeps_lists :: "sv_world \<Rightarrow> (area_type \<Rightarrow> nat \<Rightarrow> nat list) \<Rightarrow> bool" where
  "keeps_lists w E \<longleftrightarrow> (\<exists>L. rings (world_heads w) (world_links w) L \<and>
     (\<forall>t n. n < num_area_nodes w \<longrightarrow> L (list_head t n) = map Edict_Area (E t n)))"

definition placed :: "sv_world \<Rightarrow> (area_type \<Rightarrow> nat \<Rightarrow> nat list) \<Rightarrow> bool" where
  "placed w E \<longleftrightarrow> (\<forall>t n e. n < num_area_nodes w \<and> e \<in> set (E t n) \<longrightarrow>
     find_area_node (area_nodes w) (abs_mins (edicts w e)) (abs_maxs (edicts w e)) 0 = Some (Inr n))"

lemma placedD: "placed w E \<Longrightarrow> n < num_area_nodes w \<Longrightarrow> e \<in> set (E t n) \<Longrightarrow>
    find_area_node (area_nodes w) (abs_mins (edicts w e)) (abs_maxs (edicts w e)) 0 = Some (Inr n)"
  by (auto simp: placed_def)

definition world_ok :: "sv_world \<Rightarrow> (area_type \<Rightarrow> nat \<Rightarrow> nat list) \<Rightarrow> bool" where
  "world_ok w E \<longleftrightarrow> divided (area_nodes w) 0 (num_area_nodes w) \<and> keeps_lists w E \<and> placed w E"

lemma list_head_in: "n < num_area_nodes w \<Longrightarrow> list_head t n \<in> world_heads w"
  by (auto simp: list_head_def world_heads_def)

lemma list_head_inject: "list_head t n = list_head t' n' \<longleftrightarrow> t = t' \<and> n = n'"
  by (cases t; cases t') (simp_all add: list_head_def)

lemma world_heads_cases: "l \<in> world_heads w \<Longrightarrow> \<exists>t n. n < num_area_nodes w \<and> l = list_head t n"
  by (auto simp: world_heads_def list_head_def intro: area_type.distinct(1))

text \<open>The edicts in the lists of the divisions from \<open>n\<close> to below \<open>m\<close>.\<close>

definition in_lists :: "(area_type \<Rightarrow> nat \<Rightarrow> nat list) \<Rightarrow> area_type \<Rightarrow> nat \<Rightarrow> nat \<Rightarrow> nat set" where
  "in_lists E t n m = (\<Union>k \<in> {n ..< m}. set (E t k))"

lemma in_lists_split: "n < c \<Longrightarrow> c < m \<Longrightarrow> in_lists E t n m = set (E t n) \<union> in_lists E t (n + 1) c \<union> in_lists E t c m"
proof -
  assume "n < c" "c < m"
  then have "{n ..< m} = {n} \<union> {n + 1 ..< c} \<union> {c ..< m}" by auto
  then show ?thesis by (simp add: in_lists_def Un_assoc)
qed

lemma find_in_span:
  "divided ns n m \<Longrightarrow> \<exists>k. find_area_node ns lo hi n = Some (Inr k) \<and> n \<le> k \<and> k < m"
proof (induction rule: divided.induct)
  case (span_leaf n)
  then show ?case by (subst find_area_node.simps) (simp add: Let_def)
next
  case (span_node n c m)
  have "n < c" "c < m" using span_less [OF span_node.hyps(4)] span_less [OF span_node.hyps(5)] by auto
  then show ?case
    using span_node by (subst find_area_node.simps) (auto simp: Let_def)
qed

text \<open>
  \<open>gathers\<close>: the search has appended hits from the lists of some divisions, each once, and
  all of those at a division that the edict belongs to, unless the table is full.
\<close>

definition gathers :: "sv_world \<Rightarrow> (area_type \<Rightarrow> nat \<Rightarrow> nat list) \<Rightarrow> area_query \<Rightarrow> nat \<Rightarrow> nat \<Rightarrow> nat list \<Rightarrow> nat list \<Rightarrow> bool" where
  "gathers w E q n m out out' \<longleftrightarrow> length out' \<le> max_area_edicts q \<and>
     (\<exists>es. out' = out @ es \<and> distinct es \<and>
        (\<forall>e \<in> set es. e \<in> in_lists E (q_type q) n m \<and> hits q (edicts w e))) \<and>
     (length out' < max_area_edicts q \<longrightarrow>
        (\<forall>k e. n \<le> k \<and> k < m \<and> e \<in> set (E (q_type q) k) \<and> hits q (edicts w e) \<and>
           find_area_node (area_nodes w) (abs_mins (edicts w e)) (abs_maxs (edicts w e)) n = Some (Inr k) \<longrightarrow>
           e \<in> set out'))"

lemma hits_bounds:
  assumes "hits q ed"
  shows "component (abs_mins ed) i \<le> component (area_maxs q) i" and "component (area_mins q) i \<le> component (abs_maxs ed) i"
  using assms by (auto simp: hits_def not_touching_def component_def)

lemma lists_distinct:
  assumes l: "keeps_lists w E" and "k < num_area_nodes w"
  shows "distinct (E t k)" and "k' < num_area_nodes w \<Longrightarrow> k' \<noteq> k \<Longrightarrow> set (E t k) \<inter> set (E t k') = {}"
proof -
  obtain L where L: "rings (world_heads w) (world_links w) L"
      "\<And>t n. n < num_area_nodes w \<Longrightarrow> L (list_head t n) = map Edict_Area (E t n)"
    using l by (auto simp: keeps_lists_def)
  note b = links.buckets [OF L(1) list_head_in [OF assms(2), of t]]
  then have d: "distinct (map Edict_Area (E t k))" using L(2) [OF assms(2)] by metis
  then show "distinct (E t k)" by (simp add: distinct_map)
  show "set (E t k) \<inter> set (E t k') = {}" if k': "k' < num_area_nodes w" "k' \<noteq> k"
  proof -
    have "set (L (list_head t k)) \<inter> set (L (list_head t k')) = {}"
      using b list_head_in [OF k'(1), of t] k'(2) by (simp add: list_head_inject)
    then show ?thesis using L(2) [OF assms(2)] L(2) [OF k'(1)] by auto
  qed
qed

lemma in_lists_disjoint:
  assumes "keeps_lists w E" and "b \<le> c" and "d \<le> num_area_nodes w"
  shows "in_lists E t a b \<inter> in_lists E t c d = {}"
proof (rule ccontr)
  assume "\<not> ?thesis"
  then obtain e k k' where k: "a \<le> k" "k < b" "c \<le> k'" "k' < d" "e \<in> set (E t k)" "e \<in> set (E t k')"
    unfolding in_lists_def by fastforce
  then have "set (E t k) \<inter> set (E t k') = {}" using assms by (intro lists_distinct(2) [OF assms(1)]) auto
  then show False using k by blast
qed

lemma scan_own:
  assumes "keeps_lists w E" and n: "n < num_area_nodes w" and "length out \<le> max_area_edicts q"
  shows "\<exists>l b out1. link_next (world_links w) (list_head (q_type q) n) = Some l \<and>
    area_loop (edicts w) (world_links w) q (list_head (q_type q) n) l out = Some (Inr (b, out1)) \<and>
    length out1 \<le> max_area_edicts q \<and>
    (\<exists>es. out1 = out @ es \<and> distinct es \<and> set es \<subseteq> {e \<in> set (E (q_type q) n). hits q (edicts w e)}) \<and>
    (b \<longrightarrow> {e \<in> set (E (q_type q) n). hits q (edicts w e)} \<subseteq> set out1) \<and>
    (\<not> b \<longrightarrow> length out1 = max_area_edicts q)"
proof -
  let ?es = "E (q_type q) n" and ?start = "list_head (q_type q) n"
  obtain L where L: "rings (world_heads w) (world_links w) L" "L ?start = map Edict_Area ?es"
    using assms by (auto simp: keeps_lists_def)
  have r: "ring (world_links w) ?start (map Edict_Area ?es)"
    using L list_head_in [OF n, of "q_type q"] by (metis rings_def)
  obtain l where l: "link_next (world_links w) ?start = Some l"
      "area_loop (edicts w) (world_links w) q ?start l out = Some (Inr (scan (edicts w) q ?es out))"
    using area_loop_ring [of "world_links w" ?start ?es ?start out q "edicts w"] r assms(3) by (auto simp: ring_def)
  have d: "distinct ?es" using lists_distinct(1) [OF assms(1) n] .
  let ?hs = "filter (\<lambda>e. hits q (edicts w e)) ?es" and ?r = "max_area_edicts q - length out"
  have hs: "set ?hs = {e \<in> set ?es. hits q (edicts w e)}" by simp
  obtain b es where s: "scan (edicts w) q ?es out = (b, out @ es)" "distinct es" "set es \<subseteq> set ?hs"
      "length (out @ es) \<le> max_area_edicts q" "b \<longrightarrow> es = ?hs" "\<not> b \<longrightarrow> length (out @ es) = max_area_edicts q"
  proof (cases "length ?hs \<le> ?r")
    case True
    show ?thesis
      by (rule that [of True ?hs]) (use True d assms(3) in \<open>simp_all add: scan_def\<close>)
  next
    case False
    show ?thesis
      by (rule that [of False "take ?r ?hs"])
        (use False d assms(3) in \<open>simp_all add: scan_def Let_def set_take_subset del: set_filter\<close>)
  qed
  have "(\<exists>es'. out @ es = out @ es' \<and> distinct es' \<and> set es' \<subseteq> {e \<in> set ?es. hits q (edicts w e)})"
    using s(2,3) unfolding hs by (intro exI [of _ es]) simp
  moreover have "b \<longrightarrow> {e \<in> set ?es. hits q (edicts w e)} \<subseteq> set (out @ es)" using s(5) by auto
  ultimately show ?thesis using l s(1,4,6) by (metis (no_types, lifting))
qed

lemma area_edicts_r:
  assumes ls: "keeps_lists w E"
  shows "divided (area_nodes w) n m \<Longrightarrow> m \<le> num_area_nodes w \<Longrightarrow> length out \<le> max_area_edicts q \<Longrightarrow>
    \<exists>out'. Sv_AreaEdicts_r w q n out = Some (Inr out') \<and> gathers w E q n m out out'"
proof (induction arbitrary: out rule: divided.induct)
  case (span_leaf n)
  then obtain l b out1 where s: "link_next (world_links w) (list_head (q_type q) n) = Some l"
      "area_loop (edicts w) (world_links w) q (list_head (q_type q) n) l out = Some (Inr (b, out1))"
      "length out1 \<le> max_area_edicts q"
      "\<exists>es. out1 = out @ es \<and> distinct es \<and> set es \<subseteq> {e \<in> set (E (q_type q) n). hits q (edicts w e)}"
      "b \<longrightarrow> {e \<in> set (E (q_type q) n). hits q (edicts w e)} \<subseteq> set out1" "\<not> b \<longrightarrow> length out1 = max_area_edicts q"
    using scan_own [OF ls, of n out q] by auto
  then have "Sv_AreaEdicts_r w q n out = Some (Inr out1)"
    using span_leaf.hyps by (subst Sv_AreaEdicts_r.simps) (simp add: Let_def)
  moreover have "gathers w E q n (Suc n) out out1"
    using s(3-6) unfolding gathers_def in_lists_def by (auto simp: le_Suc_eq less_Suc_eq)
  ultimately show ?case by blast
next
  case (span_node n c m)
  have lt: "n < c" "c < m" using span_less [OF span_node.hyps(4)] span_less [OF span_node.hyps(5)] by auto
  let ?t = "q_type q" and ?node = "area_nodes w n" and ?axis = "nat (node_axis (area_nodes w n))"
  obtain l b out1 where s: "link_next (world_links w) (list_head ?t n) = Some l"
      "area_loop (edicts w) (world_links w) q (list_head ?t n) l out = Some (Inr (b, out1))"
      "length out1 \<le> max_area_edicts q"
      "\<exists>es. out1 = out @ es \<and> distinct es \<and> set es \<subseteq> {e \<in> set (E ?t n). hits q (edicts w e)}"
      "b \<longrightarrow> {e \<in> set (E ?t n). hits q (edicts w e)} \<subseteq> set out1" "\<not> b \<longrightarrow> length out1 = max_area_edicts q"
    using scan_own [OF ls, of n out q] lt span_node.prems by auto
  have own: "in_lists E ?t n m = set (E ?t n) \<union> in_lists E ?t (n + 1) c \<union> in_lists E ?t c m"
    using in_lists_split [OF lt] .
  show ?case
  proof (cases b)
    case False
    then have "Sv_AreaEdicts_r w q n out = Some (Inr out1)"
      using s(1,2) by (subst Sv_AreaEdicts_r.simps) (simp add: Let_def)
    moreover have "gathers w E q n m out out1"
      using s(4,6) False own unfolding gathers_def by auto
    ultimately show ?thesis by blast
  next
    case True
    have ax: "node_axis ?node \<noteq> -1" using span_node.hyps(1) by auto
    let ?r0 = "if component (area_maxs q) ?axis > node_dist ?node then Sv_AreaEdicts_r w q (n + 1) out1 else Some (Inr out1)"
    obtain o2 where "Sv_AreaEdicts_r w q (n + 1) out1 = Some (Inr o2)" "gathers w E q (n + 1) c out1 o2"
      using span_node.IH(1) [of out1] s(3) lt span_node.prems by auto
    then obtain out2 where 2: "?r0 = Some (Inr out2)"
        "component (area_maxs q) ?axis > node_dist ?node \<longrightarrow> gathers w E q (n + 1) c out1 out2"
        "\<not> component (area_maxs q) ?axis > node_dist ?node \<longrightarrow> out2 = out1"
      by (cases "component (area_maxs q) ?axis > node_dist ?node") simp_all
    have l2: "length out2 \<le> max_area_edicts q" using 2 s(3) by (auto simp: gathers_def)
    let ?r1 = "if component (area_mins q) ?axis < node_dist ?node then Sv_AreaEdicts_r w q c out2 else Some (Inr out2)"
    obtain o3 where "Sv_AreaEdicts_r w q c out2 = Some (Inr o3)" "gathers w E q c m out2 o3"
      using span_node.IH(2) [of out2] l2 span_node.prems by auto
    then obtain out3 where 3: "?r1 = Some (Inr out3)"
        "component (area_mins q) ?axis < node_dist ?node \<longrightarrow> gathers w E q c m out2 out3"
        "\<not> component (area_mins q) ?axis < node_dist ?node \<longrightarrow> out3 = out2"
      by (cases "component (area_mins q) ?axis < node_dist ?node") simp_all
    have r: "Sv_AreaEdicts_r w q n out = Some (Inr out3)"
    proof -
      have c: "node_child0 ?node = n + 1" "node_child1 ?node = c" using span_node.hyps by simp_all
      show ?thesis
        using s(1,2) True ax
        by (subst Sv_AreaEdicts_r.simps)
          (simp only: Let_def c option.case bindO_simps prod.case not_True_eq_False if_False 2(1) 3(1))
    qed
    obtain es1 where e1: "out1 = out @ es1" "distinct es1" "set es1 \<subseteq> {e \<in> set (E ?t n). hits q (edicts w e)}"
      using s(4) by blast
    obtain es2 where e2: "out2 = out1 @ es2" "distinct es2" "\<forall>e \<in> set es2. e \<in> in_lists E ?t (n + 1) c \<and> hits q (edicts w e)"
      using 2(2,3) unfolding gathers_def by (cases "component (area_maxs q) ?axis > node_dist ?node") auto
    obtain es3 where e3: "out3 = out2 @ es3" "distinct es3" "\<forall>e \<in> set es3. e \<in> in_lists E ?t c m \<and> hits q (edicts w e)"
      using 3(2,3) unfolding gathers_def by (cases "component (area_mins q) ?axis < node_dist ?node") auto
    have own1: "in_lists E ?t n (n + 1) = set (E ?t n)" by (simp add: in_lists_def)
    have "in_lists E ?t n (n + 1) \<inter> in_lists E ?t (n + 1) c = {}" "in_lists E ?t n (n + 1) \<inter> in_lists E ?t c m = {}"
        "in_lists E ?t (n + 1) c \<inter> in_lists E ?t c m = {}"
      using lt span_node.prems by (intro in_lists_disjoint [OF ls]; simp)+
    then have d: "distinct (es1 @ es2 @ es3)" using e1 e2 e3 unfolding own1 by auto
    have h: "\<forall>e \<in> set (es1 @ es2 @ es3). e \<in> in_lists E ?t n m \<and> hits q (edicts w e)"
      using e1 e2 e3 unfolding own by auto
    have all: "e \<in> set out3"
      if len: "length out3 < max_area_edicts q" and k: "n \<le> k" "k < m" "e \<in> set (E ?t k)" and e: "hits q (edicts w e)"
        and f: "find_area_node (area_nodes w) (abs_mins (edicts w e)) (abs_maxs (edicts w e)) n = Some (Inr k)" for k e
    proof -
      let ?lo = "abs_mins (edicts w e)" and ?hi = "abs_maxs (edicts w e)"
      note hb = hits_bounds [OF e, of ?axis]
      have f': "(if component ?lo ?axis > node_dist ?node then find_area_node (area_nodes w) ?lo ?hi (n + 1)
          else if component ?hi ?axis < node_dist ?node then find_area_node (area_nodes w) ?lo ?hi c
          else Some (Inr n)) = Some (Inr k)"
        using f ax span_node.hyps(2,3) by (subst (asm) find_area_node.simps) (auto simp: Let_def split: if_splits)
      consider "component ?lo ?axis > node_dist ?node" | "\<not> component ?lo ?axis > node_dist ?node" "component ?hi ?axis < node_dist ?node"
        | "k = n" using f' by (auto split: if_splits)
      then show ?thesis
      proof cases
        case 1
        then have "gathers w E q (n + 1) c out1 out2" using 2(2) hb by linarith
        moreover have "find_area_node (area_nodes w) ?lo ?hi (n + 1) = Some (Inr k)" using f' 1 by simp
        moreover from this have "n + 1 \<le> k" "k < c" using find_in_span [OF span_node.hyps(4), of ?lo ?hi] by auto
        moreover have "length out2 < max_area_edicts q" using len e3(1) by simp
        ultimately have "e \<in> set out2" using k(3) e unfolding gathers_def by blast
        then show ?thesis using e3(1) by simp
      next
        case 2
        then have "gathers w E q c m out2 out3" using 3(2) hb by linarith
        moreover have "find_area_node (area_nodes w) ?lo ?hi c = Some (Inr k)" using f' 2 by simp
        moreover from this have "c \<le> k" using find_in_span [OF span_node.hyps(5), of ?lo ?hi] by auto
        ultimately show ?thesis using k e len unfolding gathers_def by blast
      next
        case 3
        then have "e \<in> set out1" using s(5) True k(3) e by blast
        then show ?thesis using e3(1) e2(1) by simp
      qed
    qed
    have l3: "length out3 \<le> max_area_edicts q" using 3(2,3) l2 by (auto simp: gathers_def)
    have "gathers w E q n m out out3"
      unfolding gathers_def using l3 d h all e1(1) e2(1) e3(1) by (intro conjI) (simp, rule exI [of _ "es1 @ es2 @ es3"], simp, blast)
    then show ?thesis using r by blast
  qed
qed

section \<open>The world as a set of edicts\<close>

text \<open>
  The abstract view: which edicts are linked, and in which of the two kinds of lists.
  \<open>world_abs w M\<close>: the divisions of \<open>w\<close> represent the partial map \<open>M\<close>.
\<close>

definition world_abs :: "sv_world \<Rightarrow> (nat \<rightharpoonup> area_type) \<Rightarrow> bool" where
  "world_abs w M \<longleftrightarrow> (\<exists>E. world_ok w E \<and>
     (\<forall>t e. M e = Some t \<longleftrightarrow> e \<in> in_lists E t 0 (num_area_nodes w)))"

lemma area_search:
  assumes "world_abs w M"
  shows "\<exists>es. Sv_AreaEdicts w mins maxs len t = Some (Inr es) \<and> distinct es \<and> length es \<le> len \<and>
    set es \<subseteq> {e. M e = Some t \<and> hits \<lparr>area_mins = mins, area_maxs = maxs, max_area_edicts = len, q_type = t\<rparr> (edicts w e)} \<and>
    (length es < len \<longrightarrow>
      {e. M e = Some t \<and> hits \<lparr>area_mins = mins, area_maxs = maxs, max_area_edicts = len, q_type = t\<rparr> (edicts w e)} \<subseteq> set es)"
proof -
  let ?q = "\<lparr>area_mins = mins, area_maxs = maxs, max_area_edicts = len, q_type = t\<rparr>"
  obtain E where E: "divided (area_nodes w) 0 (num_area_nodes w)" "keeps_lists w E" "placed w E"
      "\<And>t e. M e = Some t \<longleftrightarrow> e \<in> in_lists E t 0 (num_area_nodes w)"
    using assms unfolding world_abs_def world_ok_def by blast
  obtain es where es: "Sv_AreaEdicts w mins maxs len t = Some (Inr es)" "gathers w E ?q 0 (num_area_nodes w) [] es"
    using area_edicts_r [OF E(2,1), of "[]" ?q] unfolding Sv_AreaEdicts_def by auto
  have all: "e \<in> set es" if h: "length es < len" "M e = Some t" "hits ?q (edicts w e)" for e
  proof -
    obtain k where k: "k < num_area_nodes w" "e \<in> set (E t k)"
      using h(2) E(4) by (auto simp: in_lists_def)
    have "find_area_node (area_nodes w) (abs_mins (edicts w e)) (abs_maxs (edicts w e)) 0 = Some (Inr k)"
      using E(3) k unfolding placed_def by blast
    moreover have "length es < max_area_edicts ?q" "q_type ?q = t" using h(1) by simp_all
    ultimately show ?thesis using es(2) k h(3) unfolding gathers_def by (metis le0)
  qed
  have part: "M e = Some t \<and> hits ?q (edicts w e)" if "e \<in> set es" for e
    using es(2) E(4) that unfolding gathers_def by auto
  have "distinct es" "length es \<le> len" using es(2) unfolding gathers_def by auto
  then show ?thesis using es(1) all part by blast
qed

text \<open>
  \<open>Sv_InitWorld\<close> empties the lists of the divisions, but leaves the links within the edicts as they
  are. Those go when the game clears its edicts, as the default game does when it spawns the entities
  of a level (\<open>G_SpawnEntities\<close>).
\<close>

definition edicts_cleared :: "link_heap \<Rightarrow> link_heap" where
  "edicts_cleared h =
     (let keep = (\<lambda>links l. case l of Edict_Area e \<Rightarrow> None | _ \<Rightarrow> links l)
      in \<lparr>link_prev = keep (link_prev h), link_next = keep (link_next h)\<rparr>)"

lemma empty_search:
  assumes "divided (area_nodes w) n m" and "empty_lists (world_links w) n m"
  shows "Sv_AreaEdicts_r w q n out = Some (Inr out)"
  using assms
proof (induction arbitrary: out rule: divided.induct)
  case (span_leaf n)
  then have "link_next (world_links w) (list_head (q_type q) n) = Some (list_head (q_type q) n)"
    by (simp add: empty_lists_def ring_def list_head_def)
  moreover have "area_loop (edicts w) (world_links w) q l l out = Some (Inr (True, out))" for l
    by (subst area_loop.simps) simp
  ultimately show ?case using span_leaf.hyps by (subst Sv_AreaEdicts_r.simps) (simp add: Let_def)
next
  case (span_node n c m)
  have less: "n < c" "c < m" using span_less [OF span_node.hyps(4)] span_less [OF span_node.hyps(5)] by simp_all
  have e: "empty_lists (world_links w) (n + 1) c" "empty_lists (world_links w) c m"
    using span_node.prems less by (auto simp: empty_lists_def)
  have "link_next (world_links w) (list_head (q_type q) n) = Some (list_head (q_type q) n)"
    using span_node.prems less by (simp add: empty_lists_def ring_def list_head_def)
  moreover have "area_loop (edicts w) (world_links w) q l l out = Some (Inr (True, out))" for l out
    by (subst area_loop.simps) simp
  ultimately show ?case
    using span_node.hyps(1-3) span_node.IH(1) [OF e(1)] span_node.IH(2) [OF e(2)]
    by (subst Sv_AreaEdicts_r.simps) (simp add: Let_def)
qed

lemma init_world_any:
  "\<exists>w. Sv_InitWorld mins maxs ents h = Inr w \<and> edicts w = ents \<and>
    (\<forall>lo hi len t. Sv_AreaEdicts w lo hi len t = Some (Inr [])) \<and>
    (\<forall>e. link_prev (world_links w) (Edict_Area e) = link_prev h (Edict_Area e) \<and>
       link_next (world_links w) (Edict_Area e) = link_next h (Edict_Area e)) \<and>
    world_abs (w\<lparr>world_links := edicts_cleared (world_links w)\<rparr>) Map.empty"
proof -
  define w0 where "w0 = \<lparr>area_nodes = (\<lambda>_. \<lparr>node_axis = 0, node_dist = 0, node_child0 = 0, node_child1 = 0\<rparr>),
         num_area_nodes = 0, world_links = clear_heads h, edicts = ents\<rparr>"
  have "num_area_nodes w0 + nodes_below AREA_DEPTH \<le> AREA_NODES"
    unfolding w0_def AREA_DEPTH_def AREA_NODES_def by code_simp
  then obtain w where w: "Sv_CreateAreaNode AREA_DEPTH mins maxs w0 = Inr (0, w)" "edicts w = ents"
      "divided (area_nodes w) 0 (num_area_nodes w)" "same_links (clear_heads h) (world_links w) 0 (num_area_nodes w)"
      "empty_lists (world_links w) 0 (num_area_nodes w)"
    using create_node [of w0 AREA_DEPTH mins maxs] by (auto simp: w0_def)
  have i: "Sv_InitWorld mins maxs ents h = Inr w"
    using w(1) unfolding w0_def Sv_InitWorld_def by (simp only: bindE_simps prod.case)
  have search: "Sv_AreaEdicts w lo hi len t = Some (Inr [])" for lo hi len t
    unfolding Sv_AreaEdicts_def by (rule empty_search [OF w(3,5)])
  have stay: "link_prev (world_links w) (Edict_Area e) = link_prev h (Edict_Area e)"
      "link_next (world_links w) (Edict_Area e) = link_next h (Edict_Area e)" for e
    using w(4) by (simp_all add: same_links_def clear_heads_def Let_def)
  let ?w = "w\<lparr>world_links := edicts_cleared (world_links w)\<rparr>"
  have heads: "world_heads ?w = world_heads w" by (simp add: world_heads_def)
  have "rings (world_heads ?w) (world_links ?w) (\<lambda>_. [])"
    unfolding rings_def heads
  proof (intro conjI ballI allI impI)
    show "ring (world_links ?w) b []" if "b \<in> world_heads w" for b
      using that w(5) by (auto simp: world_heads_def empty_lists_def ring_def edicts_cleared_def Let_def)
    show "link_prev (world_links ?w) l = None \<longleftrightarrow> elsewhere (world_heads w) (\<lambda>_. []) l" if "l \<notin> world_heads w" for l
    proof -
      have "link_prev (world_links w) l = link_prev (clear_heads h) l"
        using w(4) that by (auto simp: same_links_def world_heads_def)
      then have "link_prev (world_links ?w) l = None"
        by (cases l) (simp_all add: edicts_cleared_def clear_heads_def Let_def)
      then show ?thesis using that by (simp add: elsewhere_def)
    qed
  qed simp_all
  then have "world_ok ?w (\<lambda>_ _. [])" using w(3) by (auto simp: world_ok_def keeps_lists_def placed_def)
  then have "world_abs ?w Map.empty" unfolding world_abs_def by (intro exI [of _ "\<lambda>_ _. []"]) (auto simp: in_lists_def)
  then show ?thesis using i w(2) search stay by blast
qed

lemma init_world:
  assumes "\<And>e. link_prev h (Edict_Area e) = None" "\<And>e. link_next h (Edict_Area e) = None"
  shows "\<exists>w. Sv_InitWorld mins maxs ents h = Inr w \<and> world_abs w Map.empty \<and> edicts w = ents"
proof -
  obtain w where w: "Sv_InitWorld mins maxs ents h = Inr w" "edicts w = ents"
      "\<forall>e. link_prev (world_links w) (Edict_Area e) = link_prev h (Edict_Area e) \<and>
        link_next (world_links w) (Edict_Area e) = link_next h (Edict_Area e)"
      "world_abs (w\<lparr>world_links := edicts_cleared (world_links w)\<rparr>) Map.empty"
    using init_world_any [of mins maxs ents h] by blast
  have "edicts_cleared (world_links w) = world_links w"
    using w(3) assms by (intro link_heap.equality ext) (auto simp: edicts_cleared_def Let_def split: link_ref.split)
  then show ?thesis using w(1,2,4) by simp
qed

section \<open>The leafs of an edict\<close>

text \<open>The first node that the search splits is above all leafs that the box touches.\<close>

lemma touches_under: "touches bsp mins maxs n l \<Longrightarrow> leaf_under bsp n l"
  by (induction rule: touches.induct) (auto intro: leaf_under.intros)

lemma leaf_under_range:
  assumes "wf_tree bsp" and "tree_ref bsp n"
  shows "leaf_under bsp n l \<Longrightarrow> 0 \<le> l \<and> l < num_leafs bsp"
  using assms
proof (induction rule: tree_induct)
  case (leaf n)
  then show ?case by (subst (asm) leaf_under_iff) auto
next
  case (node n)
  then show ?case by (subst (asm) leaf_under_iff) auto
qed

definition top_above :: "c_bsp \<Rightarrow> leaf_data \<Rightarrow> leaf_data \<Rightarrow> (int \<Rightarrow> bool) \<Rightarrow> bool" where
  "top_above bsp ld ld' T \<longleftrightarrow>
     (if top_node ld \<noteq> -1 then top_node ld' = top_node ld
      else if top_node ld' = -1 then length (found ld') \<le> length (found ld) + 1
      else tree_ref bsp (top_node ld') \<and> (\<forall>l. T l \<longrightarrow> leaf_under bsp (top_node ld') l))"

lemma box_top:
  assumes wf: "wf_tree bsp" and "tree_ref bsp n" and "Cm_BoxLeafnums_r bsp mins maxs n ld = Some (Inr ld')"
  shows "top_above bsp ld ld' (touches bsp mins maxs n)"
  using assms
proof (induction arbitrary: ld ld' rule: tree_induct)
  case (leaf n)
  then show ?case
    by (subst (asm) Cm_BoxLeafnums_r.simps) (auto simp: top_above_def split: if_splits)
next
  case (node n)
  let ?s = "BoxOnPlaneSide mins maxs (planes bsp (node_plane (nodes bsp n)))"
  let ?c0 = "child0 (nodes bsp n)" and ?c1 = "child1 (nodes bsp n)"
  note arr = node_in_array [OF wf node.hyps]
  consider "?s = 1" | "?s = 2" | "?s \<noteq> 1" "?s \<noteq> 2" by blast
  then show ?case
  proof cases
    case 1
    then have "touches bsp mins maxs n = touches bsp mins maxs ?c0"
      using touches_node [OF node.hyps(1)] by (auto simp: fun_eq_iff)
    moreover have "Cm_BoxLeafnums_r bsp mins maxs ?c0 ld = Some (Inr ld')"
      using node.prems 1 arr node.hyps by (subst (asm) Cm_BoxLeafnums_r.simps) (simp add: Let_def)
    ultimately show ?thesis using node.IH(1) by simp
  next
    case 2
    then have "touches bsp mins maxs n = touches bsp mins maxs ?c1"
      using touches_node [OF node.hyps(1)] by (auto simp: fun_eq_iff)
    moreover have "Cm_BoxLeafnums_r bsp mins maxs ?c1 ld = Some (Inr ld')"
      using node.prems 2 arr node.hyps by (subst (asm) Cm_BoxLeafnums_r.simps) (simp add: Let_def)
    ultimately show ?thesis using node.IH(2) by simp
  next
    case 3
    define ld0 where "ld0 = (if top_node ld = -1 then ld\<lparr>top_node := n\<rparr> else ld)"
    have t0: "top_node ld0 \<noteq> -1" using node.hyps(1) by (simp add: ld0_def)
    have "Option.bind (Cm_BoxLeafnums_r bsp mins maxs ?c0 ld0)
        (\<lambda>r. if isl r then Some r else Cm_BoxLeafnums_r bsp mins maxs ?c1 (projr r)) = Some (Inr ld')"
      using node.prems 3 arr node.hyps unfolding ld0_def by (subst (asm) Cm_BoxLeafnums_r.simps) (simp add: Let_def)
    then obtain ld1 where 1: "Cm_BoxLeafnums_r bsp mins maxs ?c0 ld0 = Some (Inr ld1)"
        "Cm_BoxLeafnums_r bsp mins maxs ?c1 ld1 = Some (Inr ld')"
      by (auto simp: bind_eq_Some_conv isl_def split: if_splits sum.splits) (metis sum.collapse(2) isl_def)
    have "top_node ld1 = top_node ld0" using node.IH(1) [OF 1(1)] t0 by (simp add: top_above_def)
    moreover from this have "top_node ld' = top_node ld1" using node.IH(2) [OF 1(2)] t0 by (simp add: top_above_def)
    ultimately show ?thesis
      using node.hyps touches_under by (auto simp: top_above_def ld0_def tree_ref_def)
  qed
qed

lemma leaf_areas_run:
  "(\<forall>l \<in> set ls. 0 \<le> l \<and> l < num_leafs bsp) \<Longrightarrow>
   \<exists>a b. leaf_areas bsp ls ed = Inr (map (\<lambda>l. leaf_cluster (leafs bsp l)) ls, ed\<lparr>area_num := a, area_num2 := b\<rparr>) \<and>
     {a, b} \<subseteq> {area_num ed, area_num2 ed} \<union> (\<lambda>l. leaf_area (leafs bsp l)) ` set ls"
proof (induction ls arbitrary: ed)
  case Nil
  show ?case by (intro exI [of _ "area_num ed"] exI [of _ "area_num2 ed"]) simp
next
  case (Cons l ls)
  let ?area = "leaf_area (leafs bsp l)"
  obtain a b where "leaf_areas bsp ls (note_area ?area ed) =
      Inr (map (\<lambda>l. leaf_cluster (leafs bsp l)) ls, note_area ?area ed\<lparr>area_num := a, area_num2 := b\<rparr>)"
      "{a, b} \<subseteq> {area_num (note_area ?area ed), area_num2 (note_area ?area ed)} \<union> (\<lambda>l. leaf_area (leafs bsp l)) ` set ls"
    using Cons.IH [of "note_area ?area ed"] Cons.prems by auto
  moreover have "note_area ?area ed\<lparr>area_num := a, area_num2 := b\<rparr> = ed\<lparr>area_num := a, area_num2 := b\<rparr>"
    by (simp add: note_area_def)
  moreover have "{area_num (note_area ?area ed), area_num2 (note_area ?area ed)} \<subseteq> {area_num ed, area_num2 ed, ?area}"
    by (simp add: note_area_def)
  moreover have "{a, b} \<subseteq> {area_num ed, area_num2 ed} \<union> (\<lambda>l. leaf_area (leafs bsp l)) ` set (l # ls)"
    using calculation(2,4) by auto
  ultimately show ?case
    using Cons.prems by (intro exI [of _ a] exI [of _ b] conjI) (simp_all only: leaf_areas.simps, simp add: Cm_LeafCluster_def Cm_LeafArea_def)
qed

definition listed :: "edict \<Rightarrow> int \<Rightarrow> int list \<Rightarrow> edict \<Rightarrow> bool" where
  "listed ed split cs ed' \<longleftrightarrow> (\<exists>n cs' h. ed' = ed\<lparr>ed_num_clusters := n, ed_clusters := cs', ed_head_node := h\<rparr> \<and>
    length cs' = MAX_ENT_CLUSTERS \<and>
    (if n = -1 then h = split \<and> 1 < length cs
     else 0 \<le> n \<and> n \<le> int MAX_ENT_CLUSTERS \<and> set (take (nat n) cs') = set cs - {-1}))"

lemma list_clusters_run:
  assumes "length (ed_clusters ed) = MAX_ENT_CLUSTERS" and "0 \<le> ed_num_clusters ed" and "ed_num_clusters ed \<le> int MAX_ENT_CLUSTERS"
    and "ed_num_clusters ed \<le> int (length seen)"
    and "set (take (nat (ed_num_clusters ed)) (ed_clusters ed)) = set seen - {-1}"
  shows "listed ed split (seen @ cs) (list_clusters seen cs split ed)"
  using assms
proof (induction cs arbitrary: seen ed)
  case Nil
  then show ?case
    unfolding listed_def
    by (intro exI [of _ "ed_num_clusters ed"] exI [of _ "ed_clusters ed"] exI [of _ "ed_head_node ed"]) simp
next
  case (Cons c cs)
  let ?n = "nat (ed_num_clusters ed)"
  show ?case
  proof (cases "c = -1 \<or> c \<in> set seen")
    case True
    then have e: "list_clusters seen (c # cs) split ed = list_clusters (seen @ [c]) cs split ed" by auto
    have "set (take ?n (ed_clusters ed)) = set (seen @ [c]) - {-1}" using Cons.prems(5) True by auto
    then show ?thesis
      unfolding e using Cons.IH [of ed "seen @ [c]"] Cons.prems(1-4) by simp
  next
    case new: False
    show ?thesis
    proof (cases "ed_num_clusters ed = int MAX_ENT_CLUSTERS")
      case True
      then have "list_clusters seen (c # cs) split ed = ed\<lparr>ed_num_clusters := -1, ed_head_node := split\<rparr>" using new by simp
      moreover have "1 < length (seen @ c # cs)" using True Cons.prems(4) by (cases seen) (simp_all add: MAX_ENT_CLUSTERS_def)
      ultimately show ?thesis
        using Cons.prems(1) unfolding listed_def
        by (intro exI [of _ "-1"] exI [of _ "ed_clusters ed"] exI [of _ split]) simp
    next
      case False
      define ed' where "ed' = ed\<lparr>ed_clusters := (ed_clusters ed)[?n := c], ed_num_clusters := ed_num_clusters ed + 1\<rparr>"
      have lt: "?n < length (ed_clusters ed)" using False Cons.prems(1-3) by simp
      have "list_clusters seen (c # cs) split ed = list_clusters (seen @ [c]) cs split ed'"
        using new False by (simp add: ed'_def)
      moreover have "set (take (nat (ed_num_clusters ed')) (ed_clusters ed')) = set (seen @ [c]) - {-1}"
      proof -
        have "nat (ed_num_clusters ed') = Suc ?n" using Cons.prems(2) by (simp add: ed'_def)
        then have "take (nat (ed_num_clusters ed')) (ed_clusters ed') = take ?n (ed_clusters ed) @ [c]"
          using lt by (simp add: ed'_def take_Suc_conv_app_nth)
        then show ?thesis using Cons.prems(5) new by auto
      qed
      moreover have "length (ed_clusters ed') = MAX_ENT_CLUSTERS" "0 \<le> ed_num_clusters ed'"
          "ed_num_clusters ed' \<le> int MAX_ENT_CLUSTERS" "ed_num_clusters ed' \<le> int (length (seen @ [c]))"
        using Cons.prems(1-4) False by (simp_all add: ed'_def)
      ultimately have "listed ed' split (seen @ c # cs) (list_clusters seen (c # cs) split ed)"
        using Cons.IH [of ed' "seen @ [c]"] by simp
      then show ?thesis unfolding listed_def ed'_def by simp
    qed
  qed
qed

text \<open>What is noted of a leaf: its cluster, or a node above it.\<close>

definition noted :: "c_bsp \<Rightarrow> edict \<Rightarrow> int \<Rightarrow> bool" where
  "noted bsp ed l \<longleftrightarrow>
     (if ed_num_clusters ed = -1 then tree_ref bsp (ed_head_node ed) \<and> leaf_under bsp (ed_head_node ed) l
      else leaf_cluster (leafs bsp l) \<in> set (take (nat (ed_num_clusters ed)) (ed_clusters ed)))"

text \<open>What is noted exists in the map.\<close>

definition in_map :: "c_bsp \<Rightarrow> edict \<Rightarrow> bool" where
  "in_map bsp ed \<longleftrightarrow>
     {area_num ed, area_num2 ed} \<subseteq> insert 0 ((\<lambda>l. leaf_area (leafs bsp l)) ` {0 ..< num_leafs bsp}) \<and>
     length (ed_clusters ed) = MAX_ENT_CLUSTERS \<and> ed_num_clusters ed \<in> {-1 .. int MAX_ENT_CLUSTERS} \<and>
     (if ed_num_clusters ed = -1 then tree_ref bsp (ed_head_node ed)
      else set (take (nat (ed_num_clusters ed)) (ed_clusters ed)) \<subseteq>
        (\<lambda>l. leaf_cluster (leafs bsp l)) ` {0 ..< num_leafs bsp} - {-1})"

lemma link_leafs_run:
  assumes wf: "wf_tree bsp" and ref: "tree_ref bsp (model_head_node bsp)" and len: "length (ed_clusters ed) = MAX_ENT_CLUSTERS"
  shows "\<exists>ed' a b n cs h. link_leafs bsp ed = Some (Inr ed') \<and>
    ed' = ed\<lparr>ed_num_clusters := n, area_num := a, area_num2 := b, ed_clusters := cs, ed_head_node := h\<rparr> \<and>
    in_map bsp ed' \<and>
    (\<forall>l. touches bsp (abs_mins ed) (abs_maxs ed) (model_head_node bsp) l \<and> leaf_cluster (leafs bsp l) \<noteq> -1 \<longrightarrow> noted bsp ed' l)"
proof -
  let ?ed = "ed\<lparr>ed_num_clusters := 0, area_num := 0, area_num2 := 0\<rparr>"
  let ?T = "touches bsp (abs_mins ed) (abs_maxs ed) (model_head_node bsp)"
  let ?ld = "\<lparr>found = [], max_len = MAX_TOTAL_ENT_LEAFS, top_node = -1\<rparr>"
  obtain ld where ld: "Cm_BoxLeafnums bsp (abs_mins ed) (abs_maxs ed) MAX_TOTAL_ENT_LEAFS = Some (Inr ld)" "collects ?ld ld ?T"
    using box_leafs [OF wf ref, of "abs_mins ed" "abs_maxs ed" ?ld] unfolding Cm_BoxLeafnums_def by auto
  have top: "top_above bsp ?ld ld ?T"
    using box_top [OF wf ref] ld(1) unfolding Cm_BoxLeafnums_def by blast
  have rng: "0 \<le> l \<and> l < num_leafs bsp" if "l \<in> set (found ld)" for l
    using ld(2) that leaf_under_range [OF wf ref] touches_under unfolding collects_def by auto
  have "\<exists>a b. leaf_areas bsp (found ld) ?ed = Inr (map (\<lambda>l. leaf_cluster (leafs bsp l)) (found ld), ?ed\<lparr>area_num := a, area_num2 := b\<rparr>) \<and>
      {a, b} \<subseteq> {area_num ?ed, area_num2 ?ed} \<union> (\<lambda>l. leaf_area (leafs bsp l)) ` set (found ld)"
    by (rule leaf_areas_run) (use rng in simp)
  then obtain a b where ab: "leaf_areas bsp (found ld) ?ed = Inr (map (\<lambda>l. leaf_cluster (leafs bsp l)) (found ld),
      ?ed\<lparr>area_num := a, area_num2 := b\<rparr>)"
      "{a, b} \<subseteq> {area_num ?ed, area_num2 ?ed} \<union> (\<lambda>l. leaf_area (leafs bsp l)) ` set (found ld)"
    by (elim exE conjE)
  have areas: "{a, b} \<subseteq> insert 0 ((\<lambda>l. leaf_area (leafs bsp l)) ` {0 ..< num_leafs bsp})"
    using ab(2) rng by auto
  define ed1 where "ed1 = ?ed\<lparr>area_num := a, area_num2 := b\<rparr>"
  let ?cs = "map (\<lambda>l. leaf_cluster (leafs bsp l)) (found ld)"
  have above: "tree_ref bsp (top_node ld) \<and> (\<forall>l. ?T l \<longrightarrow> leaf_under bsp (top_node ld) l)" if "1 < length (found ld)"
    using top that by (simp add: top_above_def split: if_splits)
  show ?thesis
  proof (cases "length (found ld) \<ge> MAX_TOTAL_ENT_LEAFS")
    case True
    let ?ed' = "ed1\<lparr>ed_num_clusters := -1, ed_head_node := top_node ld\<rparr>"
    have r: "link_leafs bsp ed = Some (Inr ?ed')" using ld(1) ab(1) True unfolding link_leafs_def ed1_def by simp
    have "noted bsp ?ed' l" if "?T l" for l
      using above that True by (auto simp: noted_def MAX_TOTAL_ENT_LEAFS_def)
    moreover have "in_map bsp ?ed'"
      using areas len above True by (simp add: in_map_def ed1_def MAX_TOTAL_ENT_LEAFS_def)
    ultimately show ?thesis using r
      by (intro exI [of _ ?ed'] exI [of _ a] exI [of _ b] exI [of _ "-1"] exI [of _ "ed_clusters ed"] exI [of _ "top_node ld"])
        (simp add: ed1_def)
  next
    case False
    have "ed1\<lparr>ed_num_clusters := 0\<rparr> = ed1" by (simp add: ed1_def)
    then have r: "link_leafs bsp ed = Some (Inr (list_clusters [] ?cs (top_node ld) ed1))"
      using ld(1) ab(1) False unfolding link_leafs_def ed1_def [symmetric] by simp
    have "length (ed_clusters ed1) = MAX_ENT_CLUSTERS" "ed_num_clusters ed1 = 0" using len by (simp_all add: ed1_def)
    then have "listed ed1 (top_node ld) ?cs (list_clusters [] ?cs (top_node ld) ed1)"
      using list_clusters_run [of ed1 "[]" "top_node ld" ?cs] by simp
    then obtain n cs h where c: "list_clusters [] ?cs (top_node ld) ed1 = ed1\<lparr>ed_num_clusters := n, ed_clusters := cs, ed_head_node := h\<rparr>"
        "length cs = MAX_ENT_CLUSTERS"
        "if n = -1 then h = top_node ld \<and> 1 < length ?cs
         else 0 \<le> n \<and> n \<le> int MAX_ENT_CLUSTERS \<and> set (take (nat n) cs) = set ?cs - {-1}"
      unfolding listed_def by blast
    let ?ed' = "ed1\<lparr>ed_num_clusters := n, ed_clusters := cs, ed_head_node := h\<rparr>"
    have "noted bsp ?ed' l" if "?T l" "leaf_cluster (leafs bsp l) \<noteq> -1" for l
    proof (cases "n = -1")
      case True
      then show ?thesis using above c(3) that by (simp add: noted_def)
    next
      case n: False
      have "l \<in> set (found ld)" using ld(2) that(1) False by (simp add: collects_def)
      then show ?thesis using n c(3) that(2) by (simp add: noted_def)
    qed
    moreover have "-1 \<le> n" "n \<le> int MAX_ENT_CLUSTERS" using c(3) by (auto simp: MAX_ENT_CLUSTERS_def split: if_splits)
    moreover have "set ?cs \<subseteq> (\<lambda>l. leaf_cluster (leafs bsp l)) ` {0 ..< num_leafs bsp}" using rng by auto
    then have "in_map bsp ?ed'"
      using areas c(2,3) above calculation(2,3) by (auto simp: in_map_def ed1_def split: if_splits)
    ultimately show ?thesis using r c(1)
      by (intro exI [of _ ?ed'] exI [of _ a] exI [of _ b] exI [of _ n] exI [of _ cs] exI [of _ h]) (simp add: ed1_def)
  qed
qed

section \<open>Linking an edict\<close>

lemma lists_unlink:
  assumes "keeps_lists w E"
  shows "\<exists>h. Sv_UnlinkEdict (Edict_Area e) (world_links w) = Inr h \<and>
    keeps_lists (w\<lparr>world_links := h\<rparr>) (\<lambda>t n. remove1 e (E t n))"
proof -
  let ?H = "world_heads w"
  obtain L where L: "rings ?H (world_links w) L"
      "\<And>t n. n < num_area_nodes w \<Longrightarrow> L (list_head t n) = map Edict_Area (E t n)"
    using assms by (auto simp: keeps_lists_def)
  have "Edict_Area e \<notin> ?H" by (auto simp: world_heads_def)
  then obtain h where h: "Sv_UnlinkEdict (Edict_Area e) (world_links w) = Inr h"
      "rings ?H h (\<lambda>b. if b \<in> ?H then remove1 (Edict_Area e) (L b) else L b)"
    using links.unlinked [OF L(1)] by blast
  have "remove1 (Edict_Area e) (map Edict_Area xs) = map Edict_Area (remove1 e xs)" for xs
    by (induction xs) auto
  then have "keeps_lists (w\<lparr>world_links := h\<rparr>) (\<lambda>t n. remove1 e (E t n))"
    using h(2) L(2) list_head_in [of _ w] unfolding keeps_lists_def
    by (intro exI [of _ "\<lambda>b. if b \<in> ?H then remove1 (Edict_Area e) (L b) else L b"]) (simp add: world_heads_def)
  then show ?thesis using h(1) by blast
qed

lemma lists_insert:
  assumes "keeps_lists w E" and n: "n < num_area_nodes w" and e: "\<And>t k. k < num_area_nodes w \<Longrightarrow> e \<notin> set (E t k)"
  shows "\<exists>h. Sv_InsertLink (Edict_Area e) (list_head t n) (world_links w) = Inr h \<and>
    keeps_lists (w\<lparr>world_links := h\<rparr>) (\<lambda>t' k. if t' = t \<and> k = n then E t n @ [e] else E t' k)"
proof -
  let ?H = "world_heads w" and ?b = "list_head t n"
  obtain L where L: "rings ?H (world_links w) L"
      "\<And>t n. n < num_area_nodes w \<Longrightarrow> L (list_head t n) = map Edict_Area (E t n)"
    using assms by (auto simp: keeps_lists_def)
  have "elsewhere ?H L (Edict_Area e)"
    unfolding elsewhere_def
  proof
    show "Edict_Area e \<notin> ?H" by (auto simp: world_heads_def)
    show "\<forall>b \<in> ?H. Edict_Area e \<notin> set (L b)"
    proof
      fix b assume "b \<in> ?H"
      then obtain t' k where "k < num_area_nodes w" "b = list_head t' k" using world_heads_cases by blast
      then show "Edict_Area e \<notin> set (L b)" using L(2) e by auto
    qed
  qed
  then obtain h where h: "Sv_InsertLink (Edict_Area e) ?b (world_links w) = Inr h" "rings ?H h (L(?b := L ?b @ [Edict_Area e]))"
    using links.inserted [OF L(1) list_head_in [OF n]] by blast
  have "keeps_lists (w\<lparr>world_links := h\<rparr>) (\<lambda>t' k. if t' = t \<and> k = n then E t n @ [e] else E t' k)"
    using h(2) L(2) n unfolding keeps_lists_def
    by (intro exI [of _ "L(?b := L ?b @ [Edict_Area e])"]) (auto simp: world_heads_def list_head_inject)
  then show ?thesis using h(1) by blast
qed

definition link_kind :: "edict \<Rightarrow> area_type option" where
  "link_kind ed = (if in_use ed \<and> ed_solid ed \<noteq> SOLID_NOT
     then Some (if ed_solid ed = SOLID_TRIGGER then AREA_TRIGGERS else AREA_SOLID) else None)"

lemma lists_irrelevant: "keeps_lists (w\<lparr>edicts := es\<rparr>) E = keeps_lists w E"
  by (simp add: keeps_lists_def world_heads_def)

lemma unlinked_abs:
  assumes "world_abs w M" and "Sv_UnlinkEdict (Edict_Area e) (world_links w) = Inr h"
  shows "\<exists>E. world_ok (w\<lparr>world_links := h, edicts := (edicts w)(e := ed)\<rparr>) E \<and>
    (\<forall>t x. (M(e := None)) x = Some t \<longleftrightarrow> x \<in> in_lists E t 0 (num_area_nodes w))"
proof -
  obtain E where E: "divided (area_nodes w) 0 (num_area_nodes w)" "keeps_lists w E" "placed w E"
      "\<And>t e. M e = Some t \<longleftrightarrow> e \<in> in_lists E t 0 (num_area_nodes w)"
    using assms(1) unfolding world_abs_def world_ok_def by blast
  let ?E = "\<lambda>t n. remove1 e (E t n)" and ?w = "w\<lparr>world_links := h, edicts := (edicts w)(e := ed)\<rparr>"
  have l: "keeps_lists ?w ?E" using lists_unlink [OF E(2), of e] assms(2) by (simp add: keeps_lists_def world_heads_def)
  have s: "set (?E t n) = set (E t n) - {e}" if "n < num_area_nodes w" for t n
    using lists_distinct(1) [OF E(2) that] by simp
  then have "placed ?w ?E" using E(3) unfolding placed_def by auto
  then have "world_ok ?w ?E" using E(1) l by (simp add: world_ok_def)
  moreover have "(M(e := None)) x = Some t \<longleftrightarrow> x \<in> in_lists ?E t 0 (num_area_nodes w)" for t x
    using E(4) [of x t] s by (auto simp: in_lists_def)
  ultimately show ?thesis by blast
qed

lemma link_box_frame [simp]:
  "in_use (link_box ed) = in_use ed" "ed_solid (link_box ed) = ed_solid ed" "ed_clusters (link_box ed) = ed_clusters ed"
  "link_count (link_box ed) = link_count ed"
  by (simp_all add: link_box_def Let_def split: prod.split)

lemma count_link_frame [simp]:
  "ed_solid (count_link ed) = ed_solid ed" "abs_mins (count_link ed) = abs_mins ed" "abs_maxs (count_link ed) = abs_maxs ed"
  "ed_num_clusters (count_link ed) = ed_num_clusters ed" "ed_clusters (count_link ed) = ed_clusters ed"
  "ed_head_node (count_link ed) = ed_head_node ed" "area_num (count_link ed) = area_num ed"
  "area_num2 (count_link ed) = area_num2 ed" "in_use (count_link ed) = in_use ed"
  by (simp_all add: count_link_def Let_def)

lemma in_map_count_link [simp]: "in_map bsp (count_link ed) = in_map bsp ed"
  by (simp add: in_map_def)

lemma noted_count_link [simp]: "noted bsp (count_link ed) = noted bsp ed"
  by (simp add: noted_def fun_eq_iff)

definition links_to :: "c_bsp \<Rightarrow> edict \<Rightarrow> edict \<Rightarrow> bool" where
  "links_to bsp ed ed' \<longleftrightarrow> in_use ed' = in_use ed \<and> ed_solid ed' = ed_solid ed \<and>
     abs_mins ed' = abs_mins (link_box ed) \<and> abs_maxs ed' = abs_maxs (link_box ed) \<and>
     in_map bsp ed' \<and>
     (\<forall>l. touches bsp (abs_mins ed') (abs_maxs ed') (model_head_node bsp) l \<and> leaf_cluster (leafs bsp l) \<noteq> -1 \<longrightarrow>
        noted bsp ed' l)"

lemma link_edict:
  assumes w: "world_abs w M" and wf: "wf_tree bsp" and ref: "tree_ref bsp (model_head_node bsp)"
    and len: "length (ed_clusters (edicts w e)) = MAX_ENT_CLUSTERS" and e: "e \<noteq> 0"
  shows "\<exists>w'. Sv_LinkEdict bsp e w = Some (Inr w') \<and> world_abs w' (M(e := link_kind (edicts w e))) \<and>
    (\<forall>x. x \<noteq> e \<longrightarrow> edicts w' x = edicts w x) \<and>
    (in_use (edicts w e) \<longrightarrow> links_to bsp (edicts w e) (edicts w' e))"
proof -
  let ?ed = "edicts w e"
  obtain h where h: "Sv_UnlinkEdict (Edict_Area e) (world_links w) = Inr h"
    using w lists_unlink unfolding world_abs_def world_ok_def by blast
  then have u: "(if link_prev (world_links w) (Edict_Area e) \<noteq> None
      then Sv_UnlinkEdict (Edict_Area e) (world_links w) else Inr (world_links w)) = Inr h"
    by (auto simp: Sv_UnlinkEdict_def)
  show ?thesis
  proof (cases "in_use ?ed")
    case False
    let ?w = "w\<lparr>world_links := h\<rparr>"
    have "Sv_LinkEdict bsp e w = Some (Inr ?w)" using e u False by (simp add: Sv_LinkEdict_def)
    moreover have "w\<lparr>world_links := h, edicts := (edicts w)(e := ?ed)\<rparr> = ?w" by simp
    then have "world_abs ?w (M(e := None))" using unlinked_abs [OF w h, of ?ed] by (auto simp: world_abs_def)
    ultimately show ?thesis using False by (auto simp: link_kind_def)
  next
    case True
    obtain ed1 a b n cs hn where ed1: "link_leafs bsp (link_box ?ed) = Some (Inr ed1)"
        "ed1 = link_box ?ed\<lparr>ed_num_clusters := n, area_num := a, area_num2 := b, ed_clusters := cs, ed_head_node := hn\<rparr>"
        "in_map bsp ed1"
        "\<forall>l. touches bsp (abs_mins (link_box ?ed)) (abs_maxs (link_box ?ed)) (model_head_node bsp) l \<and>
           leaf_cluster (leafs bsp l) \<noteq> -1 \<longrightarrow> noted bsp ed1 l"
      using link_leafs_run [OF wf ref, of "link_box ?ed"] len by auto
    define ed' where "ed' = count_link ed1"
    have to: "links_to bsp ?ed ed'"
      using ed1(3-) unfolding links_to_def ed'_def noted_count_link in_map_count_link count_link_frame by (simp add: ed1(2))
    let ?w = "w\<lparr>world_links := h, edicts := (edicts w)(e := ed')\<rparr>"
    obtain E where E: "world_ok ?w E" "\<And>t x. (M(e := None)) x = Some t \<longleftrightarrow> x \<in> in_lists E t 0 (num_area_nodes w)"
      using unlinked_abs [OF w h, of ed'] by blast
    have run: "Sv_LinkEdict bsp e w =
        (if ed_solid ?ed = SOLID_NOT then Some (Inr ?w)
         else bindO (find_area_node (area_nodes ?w) (abs_mins ed') (abs_maxs ed') 0) (\<lambda>n.
            bindO (Some (Sv_InsertLink (Edict_Area e)
                (if ed_solid ?ed = SOLID_TRIGGER then Trigger_Edicts n else Solid_Edicts n) (world_links ?w))) (\<lambda>h.
              Some (Inr (?w\<lparr>world_links := h\<rparr>)))))"
    proof -
      have "ed_solid ed1 = ed_solid ?ed" using ed1(2) by simp
      then show ?thesis
        using e True ed1(1) unfolding Sv_LinkEdict_def u by (simp add: Let_def set_edict_def ed'_def)
    qed
    show ?thesis
    proof (cases "ed_solid ?ed = SOLID_NOT")
      case True
      have "world_abs ?w (M(e := None))" using E by (auto simp: world_abs_def)
      then show ?thesis using run True to by (intro exI [of _ ?w]) (simp add: link_kind_def)
    next
      case False
      let ?t = "if ed_solid ?ed = SOLID_TRIGGER then AREA_TRIGGERS else AREA_SOLID"
      obtain k where k: "find_area_node (area_nodes ?w) (abs_mins ed') (abs_maxs ed') 0 = Some (Inr k)" "k < num_area_nodes w"
        using find_in_span [of "area_nodes ?w" 0 "num_area_nodes ?w" "abs_mins ed'" "abs_maxs ed'"] E(1)
        by (auto simp: world_ok_def)
      have new: "e \<notin> set (E t i)" if "i < num_area_nodes ?w" for t i
        using E(2) [of e t] that by (auto simp: in_lists_def)
      obtain h2 where h2: "Sv_InsertLink (Edict_Area e) (list_head ?t k) (world_links ?w) = Inr h2"
          "keeps_lists (?w\<lparr>world_links := h2\<rparr>) (\<lambda>t' i. if t' = ?t \<and> i = k then E ?t k @ [e] else E t' i)"
        using lists_insert [of ?w E k e ?t] E(1) k(2) new by (auto simp: world_ok_def)
      let ?w2 = "?w\<lparr>world_links := h2\<rparr>" and ?E = "\<lambda>t' i. if t' = ?t \<and> i = k then E ?t k @ [e] else E t' i"
      have hd: "(if ed_solid ?ed = SOLID_TRIGGER then Trigger_Edicts k else Solid_Edicts k) = list_head ?t k"
        by (simp add: list_head_def)
      have r: "Sv_LinkEdict bsp e w = Some (Inr ?w2)"
        unfolding run k(1) using False h2(1) by (simp only: if_False bindO_simps hd)
      have "placed ?w2 ?E"
        unfolding placed_def
      proof (intro allI impI)
        fix t i x assume x: "i < num_area_nodes ?w2 \<and> x \<in> set (?E t i)"
        show "find_area_node (area_nodes ?w2) (abs_mins (edicts ?w2 x)) (abs_maxs (edicts ?w2 x)) 0 = Some (Inr i)"
        proof (cases "x = e")
          case True
          then have "i = k" using x new by (auto split: if_splits)
          then show ?thesis using True k(1) by simp
        next
          case False
          then have "x \<in> set (E t i)" using x by (auto split: if_splits)
          moreover have "placed ?w E" "i < num_area_nodes ?w" using E(1) x by (simp_all add: world_ok_def)
          ultimately show ?thesis using placedD [of ?w E i x t] False by simp
        qed
      qed
      then have "world_ok ?w2 ?E" using E(1) h2(2) by (simp add: world_ok_def)
      moreover have "(M(e := Some ?t)) x = Some t \<longleftrightarrow> x \<in> in_lists ?E t 0 (num_area_nodes ?w2)" for t x
      proof (cases "x = e")
        case True
        then show ?thesis using new k(2) by (auto simp: in_lists_def)
      next
        case False
        then have "x \<in> in_lists ?E t 0 (num_area_nodes ?w2) \<longleftrightarrow> x \<in> in_lists E t 0 (num_area_nodes w)"
          by (auto simp: in_lists_def split: if_splits)
        then show ?thesis using E(2) [of x t] False by simp
      qed
      ultimately have "world_abs ?w2 (M(e := Some ?t))" unfolding world_abs_def by blast
      then show ?thesis using r True False to by (intro exI [of _ ?w2]) (simp add: link_kind_def)
    qed
  qed
qed

section \<open>Bounds in an entity state\<close>

lemma pack_fields:
  assumes "0 \<le> xy" "xy < 32" "0 \<le> zd" "zd < 32" "0 \<le> zu" "zu < (64 :: int)"
  defines "w \<equiv> push_bit 10 zu OR push_bit 5 zd OR xy"
  shows "take_bit 16 w = w" "w AND 31 = xy" "drop_bit 5 w AND 31 = zd" "drop_bit 10 w AND 63 = zu"
proof -
  have m: "take_bit 5 xy = xy" "take_bit 5 zd = zd" "take_bit 6 zu = zu"
    using assms by (simp_all add: take_bit_int_eq_self)
  have mask: "31 = (mask 5 :: int)" "63 = (mask 6 :: int)" by (simp_all add: mask_eq_exp_minus_1)
  have "take_bit 5 w = xy" using m by (simp add: w_def take_bit_or take_bit_push_bit)
  then show "w AND 31 = xy" by (simp add: mask take_bit_eq_mask)
  have "take_bit 16 xy = xy" "take_bit 11 zd = zd" using assms by (simp_all add: take_bit_int_eq_self)
  then show "take_bit 16 w = w" using m by (simp add: w_def take_bit_or take_bit_push_bit)
  have x: "drop_bit 5 xy = 0" "drop_bit 10 xy = 0" "drop_bit 5 zd = 0" using assms by (simp_all add: drop_bit_eq_div)
  have y: "drop_bit 5 (push_bit 10 zu) = push_bit 5 zu" "drop_bit 5 (push_bit 5 k) = k" for k :: int
    by (simp_all add: push_bit_eq_mult drop_bit_eq_div)
  have "drop_bit 5 w = push_bit 5 zu OR zd"
    using x y by (simp add: w_def)
  moreover have "take_bit 5 (push_bit 5 zu OR zd) = zd" using m by (simp add: take_bit_or take_bit_push_bit)
  ultimately show "drop_bit 5 w AND 31 = zd" by (simp add: mask take_bit_eq_mask)
  have "drop_bit 10 w = drop_bit 5 (drop_bit 5 w)" by simp
  also have "\<dots> = zu" using x y \<open>drop_bit 5 w = _\<close> by (simp del: drop_bit_drop_bit)
  finally show "drop_bit 10 w AND 63 = zu" using m by (simp add: mask take_bit_eq_mask)
qed

lemma clamp_in: "y \<le> x \<Longrightarrow> x \<le> z \<Longrightarrow> clamp x y z = x" by (simp add: clamp_def)

lemma pack_bounds:
  assumes "1 \<le> a" "a \<le> 31" "1 \<le> d" "d \<le> 31" "1 \<le> u" "u \<le> (63 :: int)"
  shows "uint (PackBounds (Vec3 x y (of_int (- 8 * d))) (Vec3 (of_int (8 * a)) y' (of_int (8 * u - 32)))) =
    push_bit 10 u OR push_bit 5 d OR a"
proof -
  have c: "clamp (of_int k) (of_int lo) (of_int hi) = of_int k" if "lo \<le> k" "k \<le> hi" for k lo hi
    using that by (intro clamp_in) (simp_all only: of_int_le_iff)
  have "dbl (of_int (8 * u - 32) + 32) = of_int (8 * u)"
    using dbl_of_int [of "8 * u"] assms by simp
  then have u: "clamp (dbl (of_int (8 * u - 32) + 32) * (1 / 8)) 1 63 = of_int u"
    using c [of 1 u 63] assms by simp
  have a: "clamp (of_int (8 * a) * (1 / 8)) 1 31 = of_int a" and d: "clamp (- of_int (- 8 * d) * (1 / 8)) 1 31 = of_int d"
    using c [of 1 a 31] c [of 1 d 31] assms by simp_all
  show ?thesis
    unfolding PackBounds_def Let_def vec3.sel u a d trunc_of_int
    using pack_fields(1) [of a d u] assms by (simp only: uint_word_of_int_eq) simp
qed

section \<open>Properties\<close>

text \<open>
  C16: \<open>Sv_InitWorld\<close> succeeds whatever the size of the map and whatever has been linked before: the
  divisions it creates fit into the table, and no search in the new world finds an edict. The links
  within the edicts it leaves as they are; it is only when the game has cleared its edicts, as it does
  before it spawns the entities of the level, that the world represents that of no linked edict.
\<close>

theorem init_world_empty:
  "\<exists>w. Sv_InitWorld mins maxs ents h = Inr w \<and> edicts w = ents \<and>
    (\<forall>lo hi len t. Sv_AreaEdicts w lo hi len t = Some (Inr [])) \<and>
    (\<forall>e. link_prev (world_links w) (Edict_Area e) = link_prev h (Edict_Area e) \<and>
       link_next (world_links w) (Edict_Area e) = link_next h (Edict_Area e)) \<and>
    world_abs (w\<lparr>world_links := edicts_cleared (world_links w)\<rparr>) Map.empty"
  by (rule init_world_any)

text \<open>An item of 32 units at the origin, before it is linked.\<close>

definition sample_edict :: edict where
  "sample_edict = \<lparr>ed_s = \<lparr>number = 7, origin = Vec3 0 0 0, old_origin = Vec3 0 0 0,
       angles = Vec3 0 0 0, animation1 = 0, animation2 = 0, event = 0, effects = 0, model1 = 1, model2 = 0,
       model3 = 0, model4 = 0, client = 0, sound = 0, solid = 0\<rparr>, in_use = True, ed_ai = False, sv_flags = 0, link_count = 0,
     ed_num_clusters = 0, ed_clusters = replicate 16 0, ed_head_node = 0, area_num = 0, area_num2 = 0,
     ed_mins = Vec3 (-16) (-16) (-16), ed_maxs = Vec3 16 16 16, abs_mins = Vec3 0 0 0, abs_maxs = Vec3 0 0 0,
     ed_size = Vec3 0 0 0, ed_solid = SOLID_BOX, ed_owner = None, ed_player = None\<rparr>"

definition no_links :: link_heap where
  "no_links = \<lparr>link_prev = \<lambda>_. None, link_next = \<lambda>_. None\<rparr>"

text \<open>
  C14: \<open>Sv_LinkEdict\<close> implements the abstract operation: afterwards the edict is linked as its
  solid type says, or not at all if it is not in use or not solid, and no other edict is
  affected. Its box is the one around its origin, and every leaf with a cluster that the box
  touches is noted, by the cluster or by a node above the leaf, however many there are.
\<close>

theorem link_edict_refines:
  assumes "world_abs w M" and "wf_tree bsp" and "tree_ref bsp (model_head_node bsp)"
    and "length (ed_clusters (edicts w e)) = MAX_ENT_CLUSTERS" and "e \<noteq> 0"
  shows "\<exists>w'. Sv_LinkEdict bsp e w = Some (Inr w') \<and> world_abs w' (M(e := link_kind (edicts w e))) \<and>
    (\<forall>x. x \<noteq> e \<longrightarrow> edicts w' x = edicts w x) \<and>
    (in_use (edicts w e) \<longrightarrow> links_to bsp (edicts w e) (edicts w' e))"
  using assms by (rule link_edict)

text \<open>
  C15: The search in the tree of divisions finds each edict at most once and only edicts that are
  linked in the lists asked for and touch the area; if the table does not fill up, it finds
  all of them: it is a linear search through the edicts.
\<close>

theorem area_edicts_linear:
  assumes "world_abs w M"
  shows "\<exists>es. Sv_AreaEdicts w mins maxs len t = Some (Inr es) \<and> distinct es \<and> length es \<le> len \<and>
    set es \<subseteq> {e. M e = Some t \<and> hits \<lparr>area_mins = mins, area_maxs = maxs, max_area_edicts = len, q_type = t\<rparr> (edicts w e)} \<and>
    (length es < len \<longrightarrow>
      {e. M e = Some t \<and> hits \<lparr>area_mins = mins, area_maxs = maxs, max_area_edicts = len, q_type = t\<rparr> (edicts w e)} \<subseteq> set es)"
  using assms by (rule area_search)

theorem link_edict_refines_witness:
  "\<exists>w w'. Sv_InitWorld (Vec3 (-4096) (-4096) 0) (Vec3 4096 4096 512) (\<lambda>_. sample_edict) no_links = Inr w \<and>
     Sv_LinkEdict sample_bsp 7 w = Some (Inr w') \<and> world_abs w' [7 \<mapsto> AREA_SOLID] \<and>
     links_to sample_bsp sample_edict (edicts w' 7)"
proof -
  obtain w where w: "Sv_InitWorld (Vec3 (-4096) (-4096) 0) (Vec3 4096 4096 512) (\<lambda>_. sample_edict) no_links = Inr w"
      "world_abs w Map.empty" "edicts w = (\<lambda>_. sample_edict)"
    using init_world [of no_links "Vec3 (-4096) (-4096) 0" "Vec3 4096 4096 512" "\<lambda>_. sample_edict"]
    by (auto simp: no_links_def)
  have "link_kind sample_edict = Some AREA_SOLID" "in_use sample_edict"
    by (simp_all add: link_kind_def sample_edict_def)
  then show ?thesis
    using link_edict_refines [OF w(2) sample_tree, of 7] w(1,3)
    by (auto simp: tree_ref_def sample_bsp_def sample_edict_def MAX_ENT_CLUSTERS_def)
qed

theorem area_edicts_linear_witness:
  "\<exists>w es. Sv_InitWorld (Vec3 (-4096) (-4096) 0) (Vec3 4096 4096 512) (\<lambda>_. sample_edict) no_links = Inr w \<and>
     Sv_AreaEdicts w (Vec3 0 0 0) (Vec3 64 64 64) 128 AREA_SOLID = Some (Inr es) \<and> es = []"
proof -
  obtain w where w: "Sv_InitWorld (Vec3 (-4096) (-4096) 0) (Vec3 4096 4096 512) (\<lambda>_. sample_edict) no_links = Inr w"
      "world_abs w Map.empty"
    using init_world [of no_links "Vec3 (-4096) (-4096) 0" "Vec3 4096 4096 512" "\<lambda>_. sample_edict"]
    by (auto simp: no_links_def)
  then show ?thesis
    using area_edicts_linear [OF w(2), of "Vec3 0 0 0" "Vec3 64 64 64" 128 AREA_SOLID] by auto
qed

text \<open>
  What the client unpacks from the bounds that the server packed: in steps of eight units,
  the sides and the bottom come out as they were, but the top comes out 224 units too low,
  because the server adds 32 units before it divides by eight and the client subtracts 32
  before it multiplies.
\<close>

theorem bounds_unpacked:
  assumes "1 \<le> a" "a \<le> 31" "1 \<le> d" "d \<le> 31" "1 \<le> u" "u \<le> (63 :: int)"
  shows "UnpackBounds (PackBounds (Vec3 (of_int (- 8 * a)) (of_int (- 8 * a)) (of_int (- 8 * d)))
      (Vec3 (of_int (8 * a)) (of_int (8 * a)) (of_int (8 * u - 32)))) =
    (Vec3 (of_int (- 8 * a)) (of_int (- 8 * a)) (of_int (- 8 * d)),
     Vec3 (of_int (8 * a)) (of_int (8 * a)) (of_int (8 * u - 32 - 224)))"
  unfolding UnpackBounds_def Let_def pack_bounds [OF assms]
  using pack_fields(2-4) [of a d u] assms by simp

theorem bounds_unpacked_witness:
  "UnpackBounds (PackBounds (Vec3 (-16) (-16) (-24)) (Vec3 16 16 40)) = (Vec3 (-16) (-16) (-24), Vec3 16 16 (-184))"
  using bounds_unpacked [of 2 3 9] by simp

end
