(* ===== verification/Sv_BuildFrame.thy ===== *)
theory Sv_BuildFrame
  imports Sv_World Cm_Areas Cm_Vis
begin

text \<open>
  \<open>Sv_BuildClientFrame\<close> and \<open>Sv_ClientPVS\<close> of \<open>src/server/sv_entity.c\<close>: which entities
  a client is sent. \<open>sv_static\<close> is what of \<open>svs\<close>, \<open>sv\<close> and \<open>svs.game\<close> the frame is built
  from; the static arrays of the visibility functions are in \<open>vis_rows\<close>. The client's edict
  is named by its number \<open>cent\<close>.
\<close>

definition SVF_NO_CLIENT :: uint32 where "SVF_NO_CLIENT = 1"

record sv_static =
  svs_server :: server
  svs_real_time :: uint32
  svs_next_state :: uint32
  svs_edicts :: "nat \<Rightarrow> edict"
  svs_num_edicts :: nat

record vis_rows =
  pvs_row :: "byte list"
  phs_row :: "byte list"
  client_pvs :: "byte list"

section \<open>The visibility of the client\<close>

fun leaf_clusters :: "c_bsp \<Rightarrow> int list \<Rightarrow> int list result" where
  "leaf_clusters bsp [] = Inr []"
| "leaf_clusters bsp (l # ls) =
     bindE (Cm_LeafCluster bsp l) (\<lambda>c. bindE (leaf_clusters bsp ls) (\<lambda>cs. Inr (c # cs)))"

text \<open>The loop over the words of the rows, in bytes.\<close>

definition or_rows :: "nat \<Rightarrow> byte list \<Rightarrow> byte list \<Rightarrow> byte list" where
  "or_rows n src dst = map2 (OR) (take n dst) (take n src) @ drop n dst"

fun or_clusters :: "bsp_vis \<Rightarrow> nat \<Rightarrow> int list \<Rightarrow> int list \<Rightarrow> vis_rows \<Rightarrow> vis_rows result" where
  "or_clusters v n seen [] rows = Inr rows"
| "or_clusters v n seen (c # cs) rows =
     (if c \<in> set seen then or_clusters v n (seen @ [c]) cs rows
      else bindE (Cm_ClusterPVS v c (pvs_row rows)) (\<lambda>row.
             or_clusters v n (seen @ [c]) cs
               (rows\<lparr>pvs_row := row, client_pvs := or_rows n row (client_pvs rows)\<rparr>)))"

definition Sv_ClientPVS :: "c_bsp \<Rightarrow> bsp_vis \<Rightarrow> vec3_t \<Rightarrow> vis_rows \<Rightarrow> vis_rows run" where
  "Sv_ClientPVS bsp v org rows =
     bindO (Cm_BoxLeafnums bsp (widen (-16) org) (widen 16 org) 64) (\<lambda>ld.
       if length (found ld) < 1 then Some (Inl (Err_Drop ''Bad leaf count''))
       else
         let n = 4 * nat ((num_clusters v + 31) div 32)
         in bindO (Some (leaf_clusters bsp (found ld))) (\<lambda>cs.
            bindO (Some (Cm_ClusterPVS v (cs ! 0) (pvs_row rows))) (\<lambda>row.
              if n > length row \<or> n > length (client_pvs rows) then Some (Inl Bad_Access)
              else Some (or_clusters v n [cs ! 0] (tl cs)
                     (rows\<lparr>pvs_row := row, client_pvs := store_bytes 0 (take n row) (client_pvs rows)\<rparr>)))))"

section \<open>Which entities are relevant\<close>

fun any_cluster :: "byte list \<Rightarrow> int list \<Rightarrow> nat \<Rightarrow> bool result" where
  "any_cluster vis cs 0 = Inr False"
| "any_cluster vis [] (Suc n) = Inl Bad_Access"
| "any_cluster vis (c # cs) (Suc n) =
     bindE (at_index vis (c div 8)) (\<lambda>b. if bit b (nat (c mod 8)) then Inr True else any_cluster vis cs n)"

definition sees_entity :: "c_bsp \<Rightarrow> bsp_areas \<Rightarrow> int \<Rightarrow> byte list \<Rightarrow> byte list \<Rightarrow> edict \<Rightarrow> bool run" where
  "sees_entity bsp ar area pvs phs ed =
     bindO (Some (Cm_AreasConnected ar area (area_num ed))) (\<lambda>c1.
     bindO (if c1 then Some (Inr True)
            else if area_num2 ed = 0 then Some (Inr False)
            else Some (Cm_AreasConnected ar area (area_num2 ed))) (\<lambda>connected.
       if \<not> connected then Some (Inr False)
       else
         let vis = (if sound (ed_s ed) \<noteq> 0 \<or> event (ed_s ed) \<noteq> 0 then phs else pvs)
         in if ed_num_clusters ed = -1 then Cm_HeadnodeVisible bsp vis (ed_head_node ed)
            else Some (any_cluster vis (ed_clusters ed) (nat (ed_num_clusters ed)))))"

section \<open>The frame\<close>

definition add_state :: "nat \<Rightarrow> nat \<Rightarrow> sv_static \<Rightarrow> sv_static result" where
  "add_state cent e st =
     (let sv = svs_server st; ring = sv_entity_states sv; ed = svs_edicts st e;
          s = (if unat (number (ed_s ed)) \<noteq> e then (ed_s ed)\<lparr>number := word_of_nat e\<rparr> else ed_s ed);
          state = (if ed_owner ed = Some cent then s\<lparr>solid := 0\<rparr> else s)
      in if ring = [] then Inl Bad_Access
         else Inr (st\<lparr>svs_edicts := (svs_edicts st)(e := ed\<lparr>ed_s := s\<rparr>),
                svs_server := sv\<lparr>sv_entity_states := ring[unat (svs_next_state st) mod length ring := state]\<rparr>,
                svs_next_state := svs_next_state st + 1\<rparr>))"

fun add_entities :: "(edict \<Rightarrow> bool run) \<Rightarrow> nat \<Rightarrow> nat list \<Rightarrow> sv_static \<Rightarrow> nat \<Rightarrow> (sv_static \<times> nat) run" where
  "add_entities vis cent [] st n = Some (Inr (st, n))"
| "add_entities vis cent (e # es) st n =
     (let ed = svs_edicts st e; s = ed_s ed in
      if sv_flags ed AND SVF_NO_CLIENT \<noteq> 0 then add_entities vis cent es st n
      else if model1 s = 0 \<and> effects s = 0 \<and> sound s = 0 \<and> event s = 0 then add_entities vis cent es st n
      else bindO (if e \<noteq> cent then vis ed else Some (Inr True)) (\<lambda>visible.
        if \<not> visible then add_entities vis cent es st n
        else bindO (Some (add_state cent e st)) (\<lambda>st. add_entities vis cent es st (n + 1))))"

text \<open>\<open>VectorScale\<close> and the loop after it; an eighth of a short is exact.\<close>

definition client_eye :: "pm_state \<Rightarrow> vec3_t" where
  "client_eye pm =
     (let eighth = (\<lambda>a :: int16. of_int (sint a) * (1 / 8));
          eye = (\<lambda>o' v. flt (dbl (flt (eighth o') + eighth v)))
      in Vec3 (eye (vx (pm_origin pm)) (vx (pm_view_offset pm))) (eye (vy (pm_origin pm)) (vy (pm_view_offset pm)))
           (eye (vz (pm_origin pm)) (vz (pm_view_offset pm))))"

definition Sv_BuildClientFrame ::
  "c_bsp \<Rightarrow> bsp_vis \<Rightarrow> bsp_areas \<Rightarrow> nat \<Rightarrow> vis_rows \<Rightarrow> sv_static \<Rightarrow> sv_client \<Rightarrow> (vis_rows \<times> sv_static \<times> sv_client) run" where
  "Sv_BuildClientFrame bsp v ar cent rows st cl =
     (case ed_player (svs_edicts st cent) of
        None \<Rightarrow> Some (Inr (rows, st, cl))
      | Some ps \<Rightarrow>
          let slot = frame_slot (sv_frame_num (svs_server st));
              frame = client_frames cl ! slot;
              org = client_eye (player_pm ps)
          in bindO (Cm_PointLeafnum bsp org) (\<lambda>leaf.
             bindO (Some (Cm_LeafArea bsp leaf)) (\<lambda>area.
             bindO (Some (Cm_LeafCluster bsp leaf)) (\<lambda>cluster.
             bindO (Some (Cm_WriteAreaBits ar (area_bits frame) area)) (\<lambda>(bytes, bits).
             bindO (Sv_ClientPVS bsp v org rows) (\<lambda>rows.
             bindO (Some (Cm_ClusterPHS v cluster (phs_row rows))) (\<lambda>phs.
             bindO (add_entities (sees_entity bsp ar area (client_pvs rows) phs) cent
                      [1 ..< svs_num_edicts st] st 0) (\<lambda>(st', n).
               Some (Inr (rows\<lparr>phs_row := phs\<rparr>, st',
                 cl\<lparr>client_frames := (client_frames cl)[slot :=
                   \<lparr>area_bytes = bytes, area_bits = bits, frame_ps = ps, num_entities = n,
                    first_entity = svs_next_state st, sent_time = svs_real_time st\<rparr>]\<rparr>))))))))))"

end
