(* ===== verification/Sv_BuildFrame_Laws.thy ===== *)
theory Sv_BuildFrame_Laws
  imports Sv_BuildFrame Frame_Transfer Sv_World_Laws
begin

text \<open>
  What \<open>Sv_BuildClientFrame\<close> puts into a frame: the states of exactly the relevant edicts,
  in the order of their numbers, as \<open>Sv_EmitEntities\<close> needs them; and what is relevant
  includes every linked edict that has a leaf in a cluster the client may see.
\<close>

section \<open>The visibility of the client\<close>

text \<open>\<open>compiled v P H\<close>: the visibility data is what the compiler wrote for the rows \<open>P\<close> and \<open>H\<close>.\<close>

definition compiled_row :: "bsp_vis \<Rightarrow> byte list \<Rightarrow> int \<Rightarrow> bool" where
  "compiled_row v row offs \<longleftrightarrow> length row = vis_row v \<and>
     (\<exists>pre rest. visibility v = pre @ CompressVis row @ rest \<and> offs = int (length pre))"

definition compiled :: "bsp_vis \<Rightarrow> (nat \<Rightarrow> byte list) \<Rightarrow> (nat \<Rightarrow> byte list) \<Rightarrow> bool" where
  "compiled v P H \<longleftrightarrow> num_visibility v \<noteq> 0 \<and> 0 \<le> num_clusters v \<and> num_clusters v \<le> int MAX_BSP_LEAFS \<and>
     nat (num_clusters v) \<le> length (bit_offsets v) \<and>
     (\<forall>c < nat (num_clusters v). compiled_row v (P c) (fst (bit_offsets v ! c)) \<and>
        compiled_row v (H c) (snd (bit_offsets v ! c)))"

text \<open>A row marks the clusters that another one does, as far as there are clusters.\<close>

definition marks :: "bsp_vis \<Rightarrow> byte list \<Rightarrow> (nat \<Rightarrow> bool) \<Rightarrow> bool" where
  "marks v row f \<longleftrightarrow> vis_row v \<le> length row \<and> (\<forall>k < nat (num_clusters v). sees row k = f k)"

lemma cluster_in_row: "k < nat (num_clusters v) \<Longrightarrow> k div 8 < vis_row v"
  by (simp add: vis_row_def)

lemma sees_take: "k div 8 < n \<Longrightarrow> take n a = take n b \<Longrightarrow> sees a k = sees b k"
  unfolding sees_def by (metis nth_take)

lemma cluster_row_marks:
  assumes "num_visibility v \<noteq> 0" and "-1 \<le> c" and "c < num_clusters v" and "vis_row v \<le> length buf"
    and "nat (num_clusters v) \<le> length (bit_offsets v)"
    and "c \<noteq> -1 \<Longrightarrow> compiled_row v row (which (bit_offsets v ! nat c))"
  shows "\<exists>buf'. cluster_row which v c buf = Inr buf' \<and> length buf' = length buf \<and>
    marks v buf' (\<lambda>k. c \<noteq> -1 \<and> sees row k)"
proof (cases "c = -1")
  case True
  let ?buf = "store_bytes 0 (replicate (vis_row v) 0) buf :: byte list"
  have t: "take (vis_row v) ?buf = replicate (vis_row v) 0"
    using take_store_bytes [of 0 "replicate (vis_row v) 0" buf] assms(4) by simp
  have "\<not> sees ?buf k" if "k < nat (num_clusters v)" for k
    using sees_take [OF cluster_in_row [OF that], of ?buf "replicate (vis_row v) 0"] t cluster_in_row [OF that]
    by (simp add: sees_def)
  then show ?thesis using True assms(4) by (simp add: cluster_row_def marks_def)
next
  case False
  obtain pre rest where r: "length row = vis_row v" "visibility v = pre @ CompressVis row @ rest"
      "which (bit_offsets v ! nat c) = int (length pre)"
    using assms(6) [OF False] by (auto simp: compiled_row_def)
  have c: "0 \<le> c" "nat c < length (bit_offsets v)" using assms(2,3,5) False by linarith+
  have "0 < vis_row v" using c(1) assms(3) by (simp add: vis_row_def)
  then have "cluster_row which v c buf = Inr (store_bytes 0 row buf)"
    by (intro cluster_row_compressed [of c v pre row rest which buf]) (use c assms(1,4) r in auto)
  moreover have "take (vis_row v) (store_bytes 0 row buf) = take (vis_row v) row"
    using take_store_bytes [of 0 row buf] assms(4) r(1) by simp
  then have "sees (store_bytes 0 row buf) k = sees row k" if "k < nat (num_clusters v)" for k
    using sees_take cluster_in_row [OF that] by blast
  ultimately show ?thesis using False assms(4) by (simp add: marks_def)
qed

lemma cluster_pvs:
  assumes "compiled v P H" and "-1 \<le> c" and "c < num_clusters v" and "vis_row v \<le> length buf"
  shows "\<exists>buf'. Cm_ClusterPVS v c buf = Inr buf' \<and> length buf' = length buf \<and>
      marks v buf' (\<lambda>k. c \<noteq> -1 \<and> sees (P (nat c)) k)"
    and "\<exists>buf'. Cm_ClusterPHS v c buf = Inr buf' \<and> length buf' = length buf \<and>
      marks v buf' (\<lambda>k. c \<noteq> -1 \<and> sees (H (nat c)) k)"
proof -
  have c: "nat c < nat (num_clusters v)" if "c \<noteq> -1" using that assms(2,3) by linarith
  show "\<exists>buf'. Cm_ClusterPVS v c buf = Inr buf' \<and> length buf' = length buf \<and>
      marks v buf' (\<lambda>k. c \<noteq> -1 \<and> sees (P (nat c)) k)"
    unfolding Cm_ClusterPVS_def
    by (rule cluster_row_marks) (use assms c in \<open>auto simp: compiled_def\<close>)
  show "\<exists>buf'. Cm_ClusterPHS v c buf = Inr buf' \<and> length buf' = length buf \<and>
      marks v buf' (\<lambda>k. c \<noteq> -1 \<and> sees (H (nat c)) k)"
    unfolding Cm_ClusterPHS_def
    by (rule cluster_row_marks) (use assms c in \<open>auto simp: compiled_def\<close>)
qed

lemma length_or_rows [simp]: "length (or_rows n src dst) = length dst" if "n \<le> length src" "n \<le> length dst"
  using that by (simp add: or_rows_def)

lemma sees_or_rows:
  assumes "n \<le> length src" "n \<le> length dst" "k div 8 < n"
  shows "sees (or_rows n src dst) k \<longleftrightarrow> sees dst k \<or> sees src k"
proof -
  have "or_rows n src dst ! (k div 8) = dst ! (k div 8) OR src ! (k div 8)"
    using assms by (simp add: or_rows_def nth_append)
  then show ?thesis by (simp add: sees_def bit_or_iff)
qed

definition rows_ok :: "bsp_vis \<Rightarrow> nat \<Rightarrow> vis_rows \<Rightarrow> bool" where
  "rows_ok v n rows \<longleftrightarrow> vis_row v \<le> n \<and> n \<le> length (pvs_row rows) \<and> n \<le> length (client_pvs rows) \<and>
     vis_row v \<le> length (phs_row rows)"

text \<open>What one of the clusters sees.\<close>

definition union_of :: "(nat \<Rightarrow> byte list) \<Rightarrow> int list \<Rightarrow> nat \<Rightarrow> bool" where
  "union_of P cs k \<longleftrightarrow> (\<exists>c \<in> set cs. c \<noteq> -1 \<and> sees (P (nat c)) k)"

lemma or_clusters_marks:
  assumes v: "compiled v P H"
  shows "rows_ok v n rows \<Longrightarrow> marks v (client_pvs rows) (union_of P seen) \<Longrightarrow>
    (\<forall>c \<in> set cs. -1 \<le> c \<and> c < num_clusters v) \<Longrightarrow>
    \<exists>rows'. or_clusters v n seen cs rows = Inr rows' \<and> rows_ok v n rows' \<and>
      marks v (client_pvs rows') (union_of P (seen @ cs))"
proof (induction cs arbitrary: seen rows)
  case Nil
  then show ?case by simp
next
  case (Cons c cs)
  show ?case
  proof (cases "c \<in> set seen")
    case True
    then have "union_of P (seen @ [c]) = union_of P seen" by (auto simp: union_of_def fun_eq_iff)
    then show ?thesis using Cons.IH [of rows "seen @ [c]"] Cons.prems True by simp
  next
    case False
    have "vis_row v \<le> length (pvs_row rows)" using Cons.prems(1) by (simp add: rows_ok_def)
    then obtain row where row: "Cm_ClusterPVS v c (pvs_row rows) = Inr row" "length row = length (pvs_row rows)"
        "marks v row (\<lambda>k. c \<noteq> -1 \<and> sees (P (nat c)) k)"
      using cluster_pvs(1) [OF v, of c] Cons.prems(3) by auto
    let ?rows = "rows\<lparr>pvs_row := row, client_pvs := or_rows n row (client_pvs rows)\<rparr>"
    have n: "n \<le> length row" "n \<le> length (client_pvs rows)" "vis_row v \<le> n"
      using Cons.prems(1) row(2) by (simp_all add: rows_ok_def)
    have "sees (or_rows n row (client_pvs rows)) k = union_of P (seen @ [c]) k" if k: "k < nat (num_clusters v)" for k
    proof -
      have "k div 8 < n" using cluster_in_row [OF k] n(3) by simp
      then show ?thesis
        using sees_or_rows [OF n(1,2)] row(3) Cons.prems(2) k by (auto simp: marks_def union_of_def)
    qed
    then have "marks v (client_pvs ?rows) (union_of P (seen @ [c]))"
      using n by (simp add: marks_def)
    moreover have "rows_ok v n ?rows" using Cons.prems(1) n row(2) by (simp add: rows_ok_def)
    ultimately show ?thesis
      using Cons.IH [of ?rows "seen @ [c]"] Cons.prems(3) False row(1) by simp
  qed
qed

text \<open>The clusters of the map's leafs exist, and its areas do.\<close>

definition leafs_fit :: "c_bsp \<Rightarrow> bsp_vis \<Rightarrow> bsp_areas \<Rightarrow> bool" where
  "leafs_fit bsp v ar \<longleftrightarrow> 0 < num_clusters v \<and> 0 < num_areas ar \<and> (\<forall>l. 0 \<le> l \<and> l < num_leafs bsp \<longrightarrow>
     -1 \<le> leaf_cluster (leafs bsp l) \<and> leaf_cluster (leafs bsp l) < num_clusters v \<and>
     0 \<le> leaf_area (leafs bsp l) \<and> leaf_area (leafs bsp l) < num_areas ar)"

lemma leaf_clusters_run:
  "(\<forall>l \<in> set ls. 0 \<le> l \<and> l < num_leafs bsp) \<Longrightarrow> leaf_clusters bsp ls = Inr (map (\<lambda>l. leaf_cluster (leafs bsp l)) ls)"
  by (induction ls) (simp_all add: Cm_LeafCluster_def)

lemma words_fit:
  "0 \<le> num_clusters v \<Longrightarrow> vis_row v \<le> 4 * nat ((num_clusters v + 31) div 32)"
  by (simp add: vis_row_def)

lemma touches_some:
  assumes "wf_tree bsp" and "tree_ref bsp n"
  shows "\<exists>l. touches bsp mins maxs n l"
  using assms
proof (induction rule: tree_induct)
  case (leaf n)
  then show ?case using touches_neg by blast
next
  case (node n)
  then show ?case using touches_node [OF node.hyps(1)] by (cases "BoxOnPlaneSide mins maxs (planes bsp (node_plane (nodes bsp n))) = 2") auto
qed

abbreviation eye_touches :: "c_bsp \<Rightarrow> vec3_t \<Rightarrow> int \<Rightarrow> bool" where
  "eye_touches bsp org \<equiv> touches bsp (widen (-16) org) (widen 16 org) (model_head_node bsp)"

text \<open>
  \<open>eye_leafs\<close>: leafs around the eye, all of them unless there are 64. The clusters the client
  sees are those that the clusters of these leafs see.
\<close>

definition eye_leafs :: "c_bsp \<Rightarrow> vec3_t \<Rightarrow> int list \<Rightarrow> bool" where
  "eye_leafs bsp org ls \<longleftrightarrow> ls \<noteq> [] \<and> length ls \<le> 64 \<and> (\<forall>l \<in> set ls. eye_touches bsp org l) \<and>
     (length ls < 64 \<longrightarrow> (\<forall>l. eye_touches bsp org l \<longrightarrow> l \<in> set ls))"

definition clusters_of :: "c_bsp \<Rightarrow> int list \<Rightarrow> int list" where
  "clusters_of bsp ls = map (\<lambda>l. leaf_cluster (leafs bsp l)) ls"

definition words_of :: "bsp_vis \<Rightarrow> nat" where
  "words_of v = 4 * nat ((num_clusters v + 31) div 32)"

lemma client_pvs_run:
  assumes wf: "wf_tree bsp" and ref: "tree_ref bsp (model_head_node bsp)" and v: "compiled v P H"
    and fit: "leafs_fit bsp v ar" and ok: "rows_ok v (words_of v) rows"
  shows "\<exists>rows' ls. Sv_ClientPVS bsp v org rows = Some (Inr rows') \<and> eye_leafs bsp org ls \<and>
    rows_ok v (words_of v) rows' \<and> marks v (client_pvs rows') (union_of P (clusters_of bsp ls))"
proof -
  let ?ld = "\<lparr>found = [], max_len = 64, top_node = -1\<rparr>"
  let ?n = "words_of v"
  obtain ld where ld: "Cm_BoxLeafnums bsp (widen (-16) org) (widen 16 org) 64 = Some (Inr ld)"
      "collects ?ld ld (eye_touches bsp org)"
    using box_leafs [OF wf ref, of "widen (-16) org" "widen 16 org" ?ld] unfolding Cm_BoxLeafnums_def by auto
  have "found ld \<noteq> []" using ld(2) touches_some [OF wf ref] by (fastforce simp: collects_def)
  then have ls: "eye_leafs bsp org (found ld)" using ld(2) by (simp add: eye_leafs_def collects_def)
  let ?cs = "clusters_of bsp (found ld)"
  have rng: "0 \<le> l \<and> l < num_leafs bsp" if "l \<in> set (found ld)" for l
    using ls that leaf_under_range [OF wf ref] touches_under unfolding eye_leafs_def by blast
  then have cs: "\<forall>c \<in> set ?cs. -1 \<le> c \<and> c < num_clusters v"
    using fit by (auto simp: clusters_of_def leafs_fit_def)
  have run: "leaf_clusters bsp (found ld) = Inr ?cs" unfolding clusters_of_def using rng by (intro leaf_clusters_run) auto
  obtain c cs' where c: "?cs = c # cs'" using ls by (cases "found ld") (auto simp: clusters_of_def eye_leafs_def)
  obtain row where row: "Cm_ClusterPVS v c (pvs_row rows) = Inr row" "length row = length (pvs_row rows)"
      "marks v row (\<lambda>k. c \<noteq> -1 \<and> sees (P (nat c)) k)"
    using cluster_pvs(1) [OF v, of c "pvs_row rows"] cs c ok by (auto simp: rows_ok_def)
  let ?rows = "rows\<lparr>pvs_row := row, client_pvs := store_bytes 0 (take ?n row) (client_pvs rows)\<rparr>"
  have n: "?n \<le> length row" "?n \<le> length (client_pvs rows)" "vis_row v \<le> ?n" using ok row(2) by (simp_all add: rows_ok_def)
  have t: "take ?n (client_pvs ?rows) = take ?n row"
    using take_store_bytes [of 0 "take ?n row" "client_pvs rows"] n by (simp add: min_absorb2)
  have "sees (client_pvs ?rows) k = union_of P [c] k" if "k < nat (num_clusters v)" for k
    using sees_take [OF _ t, of k] cluster_in_row [OF that] n(3) row(3) that by (simp add: marks_def union_of_def)
  then have "marks v (client_pvs ?rows) (union_of P [c])" using n by (simp add: marks_def)
  moreover have "rows_ok v ?n ?rows" using ok n by (simp add: rows_ok_def)
  ultimately obtain rows' where r: "or_clusters v ?n [c] cs' ?rows = Inr rows'" "rows_ok v ?n rows'"
      "marks v (client_pvs rows') (union_of P ([c] @ cs'))"
    using or_clusters_marks [OF v, of ?n ?rows "[c]" cs'] cs c by auto
  have "Sv_ClientPVS bsp v org rows = Some (Inr rows')"
    using ld(1) run row(1) n r(1) ls unfolding Sv_ClientPVS_def c words_of_def [symmetric]
    by (simp add: eye_leafs_def not_less Suc_le_eq)
  then show ?thesis using ls r c by auto
qed

section \<open>Relevant edicts\<close>

text \<open>A cluster that the edict has, or a leaf under its node, is marked.\<close>

definition in_view :: "c_bsp \<Rightarrow> byte list \<Rightarrow> edict \<Rightarrow> bool" where
  "in_view bsp vis ed \<longleftrightarrow>
     (if ed_num_clusters ed = -1 then \<exists>l. leaf_under bsp (ed_head_node ed) l \<and> visible_leaf bsp vis l
      else \<exists>c \<in> set (take (nat (ed_num_clusters ed)) (ed_clusters ed)). sees vis (nat c))"

lemma any_cluster_run:
  "n \<le> length cs \<Longrightarrow> (\<forall>c \<in> set (take n cs). 0 \<le> c \<and> nat c div 8 < length vis) \<Longrightarrow>
   any_cluster vis cs n = Inr (\<exists>c \<in> set (take n cs). sees vis (nat c))"
proof (induction vis cs n rule: any_cluster.induct)
  case (3 vis c cs n)
  then have "0 \<le> c" by simp
  then have "0 \<le> c div 8" by simp
  with 3 have "at_index vis (c div 8) = Inr (vis ! (nat c div 8))" "nat (c mod 8) = nat c mod 8"
    by (simp_all add: at_index_def nat_div_distrib nat_mod_distrib)
  then show ?case using 3 unfolding any_cluster.simps by (auto simp: sees_def)
qed simp_all

lemma in_map_clusters:
  assumes "in_map bsp ed" and "leafs_fit bsp v ar" and "vis_row v \<le> length vis" and "ed_num_clusters ed \<noteq> -1"
    and "c \<in> set (take (nat (ed_num_clusters ed)) (ed_clusters ed))"
  shows "0 \<le> c \<and> c < num_clusters v \<and> nat c div 8 < length vis"
proof -
  have "set (take (nat (ed_num_clusters ed)) (ed_clusters ed)) \<subseteq>
      (\<lambda>l. leaf_cluster (leafs bsp l)) ` {0 ..< num_leafs bsp} - {-1}"
    using assms(1,4) by (simp add: in_map_def)
  from subsetD [OF this assms(5)]
  obtain l where "0 \<le> l" "l < num_leafs bsp" "c = leaf_cluster (leafs bsp l)" "c \<noteq> -1" by auto
  then have "0 \<le> c" "c < num_clusters v" using assms(2) by (force simp: leafs_fit_def)+
  then show ?thesis using cluster_in_row [of "nat c" v] assms(3) by simp
qed

lemma areas_total:
  assumes "wf_areas ar" and "0 \<le> a" "a < num_areas ar" "0 \<le> b" "b < num_areas ar"
  shows "\<exists>c. Cm_AreasConnected ar a b = Inr c"
proof -
  have "nat a < length (areas ar)" "nat b < length (areas ar)" using assms by (auto simp: wf_areas_def)
  then show ?thesis
    using assms(2-5) by (cases "no_areas ar"; cases "flood_num (areas ar ! nat a) = flood_num (areas ar ! nat b)")
      (simp_all add: Cm_AreasConnected_def at_index_def, blast+)
qed

definition areas_joined :: "bsp_areas \<Rightarrow> int \<Rightarrow> edict \<Rightarrow> bool" where
  "areas_joined ar area ed \<longleftrightarrow> Cm_AreasConnected ar area (area_num ed) = Inr True \<or>
     area_num2 ed \<noteq> 0 \<and> Cm_AreasConnected ar area (area_num2 ed) = Inr True"

definition heard :: "edict \<Rightarrow> bool" where
  "heard ed \<longleftrightarrow> sound (ed_s ed) \<noteq> 0 \<or> event (ed_s ed) \<noteq> 0"

lemma sees_entity_run:
  assumes wf: "wf_tree bsp" and fit: "leafs_fit bsp v ar" and ar: "wf_areas ar" "0 \<le> area" "area < num_areas ar"
    and m: "in_map bsp ed" and vis: "vis_row v \<le> length pvs" "vis_row v \<le> length phs"
  shows "sees_entity bsp ar area pvs phs ed =
    Some (Inr (areas_joined ar area ed \<and> in_view bsp (if heard ed then phs else pvs) ed))"
proof -
  let ?vis = "if heard ed then phs else pvs"
  have v: "vis_row v \<le> length ?vis" using vis by simp
  have a: "0 \<le> a \<and> a < num_areas ar" if "a \<in> {area_num ed, area_num2 ed}" for a
    using m that fit ar(2,3) by (auto simp: in_map_def leafs_fit_def)
  obtain c1 where c1: "Cm_AreasConnected ar area (area_num ed) = Inr c1" using areas_total [OF ar] a by blast
  obtain c2 where c2: "Cm_AreasConnected ar area (area_num2 ed) = Inr c2" using areas_total [OF ar] a by blast
  have "(if ed_num_clusters ed = -1 then Cm_HeadnodeVisible bsp ?vis (ed_head_node ed)
      else Some (any_cluster ?vis (ed_clusters ed) (nat (ed_num_clusters ed)))) = Some (Inr (in_view bsp ?vis ed))"
  proof (cases "ed_num_clusters ed = -1")
    case True
    have "clusters_fit bsp ?vis"
      unfolding clusters_fit_def
    proof (intro allI impI)
      fix l assume l: "0 \<le> l \<and> l < num_leafs bsp"
      have "-1 \<le> leaf_cluster (leafs bsp l)" "leaf_cluster (leafs bsp l) < num_clusters v"
        using fit l by (auto simp: leafs_fit_def)
      moreover have "0 < vis_row v" using cluster_in_row [of 0 v] fit by (simp add: leafs_fit_def)
      then have "0 < length ?vis" using v by linarith
      ultimately show "-1 \<le> leaf_cluster (leafs bsp l) \<and> nat (leaf_cluster (leafs bsp l)) div 8 < length ?vis"
        using cluster_in_row [of "nat (leaf_cluster (leafs bsp l))" v] v by (cases "leaf_cluster (leafs bsp l) = -1") auto
    qed
    moreover have "tree_ref bsp (ed_head_node ed)" using m True by (simp add: in_map_def)
    ultimately show ?thesis using headnode_visible [OF wf] True by (simp add: in_view_def)
  next
    case False
    have "nat (ed_num_clusters ed) \<le> length (ed_clusters ed)" using m by (auto simp: in_map_def)
    then show ?thesis
      using any_cluster_run in_map_clusters [OF m fit v False] False by (simp add: in_view_def)
  qed
  then show ?thesis
    unfolding sees_entity_def heard_def [symmetric]
    using c1 c2 by (cases c1; cases c2) (auto simp: areas_joined_def Let_def)
qed

section \<open>The entities of the frame\<close>

definition has_presence :: "entity_state \<Rightarrow> bool" where
  "has_presence s \<longleftrightarrow> model1 s \<noteq> 0 \<or> effects s \<noteq> 0 \<or> sound s \<noteq> 0 \<or> event s \<noteq> 0"

definition relevant :: "(edict \<Rightarrow> bool) \<Rightarrow> nat \<Rightarrow> (nat \<Rightarrow> edict) \<Rightarrow> nat \<Rightarrow> bool" where
  "relevant V cent ents e \<longleftrightarrow> sv_flags (ents e) AND SVF_NO_CLIENT = 0 \<and> has_presence (ed_s (ents e)) \<and>
     (e = cent \<or> V (ents e))"

definition with_number :: "nat \<Rightarrow> entity_state \<Rightarrow> entity_state" where
  "with_number e s = (if unat (number s) \<noteq> e then s\<lparr>number := word_of_nat e\<rparr> else s)"

definition sent_state :: "nat \<Rightarrow> (nat \<Rightarrow> edict) \<Rightarrow> nat \<Rightarrow> entity_state" where
  "sent_state cent ents e =
     (let s = with_number e (ed_s (ents e)) in if ed_owner (ents e) = Some cent then s\<lparr>solid := 0\<rparr> else s)"

text \<open>The states that are written to the ring.\<close>

fun ring_put :: "'a list \<Rightarrow> uint32 \<Rightarrow> 'a list \<Rightarrow> 'a list" where
  "ring_put arr i [] = arr"
| "ring_put arr i (s # ss) = ring_put (arr[unat i mod length arr := s]) (i + 1) ss"

lemma length_ring_put [simp]: "length (ring_put arr i ss) = length arr"
  by (induction arr i ss rule: ring_put.induct) simp_all

lemma ring_put_other:
  "unat i + length ss \<le> 2 ^ 32 \<Longrightarrow> (\<And>k. k < length ss \<Longrightarrow> j \<noteq> (unat i + k) mod length arr) \<Longrightarrow>
   ring_put arr i ss ! j = arr ! j"
proof (induction arr i ss rule: ring_put.induct)
  case (2 arr i s ss)
  have j: "j \<noteq> unat i mod length arr" using 2(3) [of 0] by simp
  show ?case
  proof (cases ss)
    case Nil
    then show ?thesis using j by simp
  next
    case (Cons t ts)
    then have u: "unat (i + 1) = unat i + 1" using 2(2) by (simp add: unat_word_ariths)
    have "ring_put (arr[unat i mod length arr := s]) (i + 1) ss ! j = arr[unat i mod length arr := s] ! j"
      using 2(2) 2(3) [of "Suc k" for k] u by (intro 2(1)) (simp_all)
    then show ?thesis using j by simp
  qed
qed simp

lemma ring_put_at:
  "unat i + length ss \<le> 2 ^ 32 \<Longrightarrow> length ss \<le> length arr \<Longrightarrow> k < length ss \<Longrightarrow>
   ring_put arr i ss ! ((unat i + k) mod length arr) = ss ! k"
proof (induction arr i ss arbitrary: k rule: ring_put.induct)
  case (2 arr i s ss)
  let ?n = "length arr" and ?ring = "arr[unat i mod length arr := s]"
  have n: "0 < ?n" using 2(3) by (cases arr) simp_all
  show ?case
  proof (cases ss)
    case Nil
    then show ?thesis using 2(4) n by simp
  next
    case (Cons t ts)
    then have u: "unat (i + 1) = unat i + 1" using 2(2) by (simp add: unat_word_ariths)
    show ?thesis
    proof (cases k)
      case 0
      have "unat i mod ?n \<noteq> (unat (i + 1) + k') mod length ?ring" if "k' < length ss" for k'
      proof
        assume "unat i mod ?n = (unat (i + 1) + k') mod length ?ring"
        then have "?n dvd (unat i + 1 + k') - unat i" using u by (metis length_list_update mod_eq_dvd_iff_nat le_add1 add.assoc)
        then have "?n \<le> 1 + k'" using dvd_imp_le by simp
        then show False using that 2(3) by simp
      qed
      then have "ring_put ?ring (i + 1) ss ! (unat i mod ?n) = ?ring ! (unat i mod ?n)"
        using 2(2) u by (intro ring_put_other) simp_all
      then show ?thesis using 0 n by simp
    next
      case (Suc k')
      then have "ring_put ?ring (i + 1) ss ! ((unat (i + 1) + k') mod length ?ring) = ss ! k'"
        using 2(2-4) u by (intro 2(1)) simp_all
      then show ?thesis using Suc u by simp
    qed
  qed
qed simp

lemma frame_of_ring:
  assumes "unat i + length ss \<le> 2 ^ 32" and "length ss \<le> length arr"
  shows "map (\<lambda>k. ring_at (ring_put arr i ss) (i + word_of_nat k)) [0 ..< length ss] = ss"
proof (rule nth_equalityI)
  fix k assume "k < length (map (\<lambda>k. ring_at (ring_put arr i ss) (i + word_of_nat k)) [0 ..< length ss])"
  then have k: "k < length ss" by simp
  then have "unat (i + word_of_nat k) = unat i + k"
    using assms(1) by (simp add: unat_word_ariths unat_of_nat take_bit_eq_mod)
  then show "map (\<lambda>k. ring_at (ring_put arr i ss) (i + word_of_nat k)) [0 ..< length ss] ! k = ss ! k"
    using k ring_put_at [OF assms k] by (simp add: ring_at_def)
qed simp

lemma add_entities_run:
  fixes cent :: nat
  assumes "distinct es" and "sv_entity_states (svs_server st) \<noteq> []"
    and "\<And>e. e \<in> set es \<Longrightarrow> vis (svs_edicts st e) = Some (Inr (V (svs_edicts st e)))"
  defines "R \<equiv> filter (relevant V cent (svs_edicts st)) es"
  shows "\<exists>ents. add_entities vis cent es st n = Some (Inr
      (st\<lparr>svs_edicts := ents, svs_next_state := svs_next_state st + word_of_nat (length R),
          svs_server := (svs_server st)\<lparr>sv_entity_states :=
            ring_put (sv_entity_states (svs_server st)) (svs_next_state st) (map (sent_state cent (svs_edicts st)) R)\<rparr>\<rparr>,
       n + length R)) \<and> (\<forall>e. e \<notin> set es \<longrightarrow> ents e = svs_edicts st e)"
  using assms(1-3) unfolding R_def
proof (induction es arbitrary: st n)
  case Nil
  show ?case by (intro exI [of _ "svs_edicts st"]) simp
next
  case (Cons e es)
  let ?ed = "svs_edicts st e" and ?ring = "sv_entity_states (svs_server st)"
  have vis: "vis ?ed = Some (Inr (V ?ed))" using Cons.prems(3) by simp
  show ?case
  proof (cases "relevant V cent (svs_edicts st) e")
    case False
    then have "add_entities vis cent (e # es) st n = add_entities vis cent es st n"
      using vis by (auto simp: relevant_def has_presence_def Let_def)
    then show ?thesis using Cons.IH [of st n] Cons.prems False by auto
  next
    case True
    define st1 where "st1 = st\<lparr>svs_edicts := (svs_edicts st)(e := ?ed\<lparr>ed_s := with_number e (ed_s ?ed)\<rparr>),
        svs_server := (svs_server st)\<lparr>sv_entity_states :=
          ?ring[unat (svs_next_state st) mod length ?ring := sent_state cent (svs_edicts st) e]\<rparr>,
        svs_next_state := svs_next_state st + 1\<rparr>"
    have "add_state cent e st = Inr st1"
      using Cons.prems(2) unfolding add_state_def st1_def sent_state_def with_number_def by (simp add: Let_def)
    then have r: "add_entities vis cent (e # es) st n = add_entities vis cent es st1 (n + 1)"
      using vis True by (auto simp: relevant_def has_presence_def Let_def)
    have same: "svs_edicts st1 x = svs_edicts st x" if "x \<in> set es" for x
      using that Cons.prems(1) by (auto simp: st1_def)
    have f: "filter (relevant V cent (svs_edicts st1)) es = filter (relevant V cent (svs_edicts st)) es"
      using same by (intro filter_cong) (simp_all add: relevant_def)
    have m: "map (sent_state cent (svs_edicts st1)) (filter P es) = map (sent_state cent (svs_edicts st)) (filter P es)" for P
      using same by (intro map_cong) (simp_all add: sent_state_def)
    have "sv_entity_states (svs_server st1) \<noteq> []" using Cons.prems(2) by (simp add: st1_def)
    then obtain ents where "add_entities vis cent es st1 (n + 1) = Some (Inr
        (st1\<lparr>svs_edicts := ents,
            svs_next_state := svs_next_state st1 + word_of_nat (length (filter (relevant V cent (svs_edicts st)) es)),
            svs_server := (svs_server st1)\<lparr>sv_entity_states :=
              ring_put (sv_entity_states (svs_server st1)) (svs_next_state st1)
                (map (sent_state cent (svs_edicts st)) (filter (relevant V cent (svs_edicts st)) es))\<rparr>\<rparr>,
         n + 1 + length (filter (relevant V cent (svs_edicts st)) es)))"
        "\<forall>x. x \<notin> set es \<longrightarrow> ents x = svs_edicts st1 x"
      using Cons.IH [of st1 "n + 1"] Cons.prems same unfolding f m by auto
    then show ?thesis
      using True unfolding r by (intro exI [of _ ents]) (simp add: st1_def ac_simps)
  qed
qed

section \<open>The frame\<close>

text \<open>What is in sight, given the clusters that are.\<close>

definition in_sight :: "c_bsp \<Rightarrow> (nat \<Rightarrow> bool) \<Rightarrow> edict \<Rightarrow> bool" where
  "in_sight bsp S ed \<longleftrightarrow>
     (if ed_num_clusters ed = -1
      then \<exists>l. leaf_under bsp (ed_head_node ed) l \<and> leaf_cluster (leafs bsp l) \<noteq> -1 \<and> S (nat (leaf_cluster (leafs bsp l)))
      else \<exists>c \<in> set (take (nat (ed_num_clusters ed)) (ed_clusters ed)). S (nat c))"

lemma in_view_sight:
  assumes m: "in_map bsp ed" and fit: "leafs_fit bsp v ar" and wf: "wf_tree bsp" and vis: "marks v vis S"
  shows "in_view bsp vis ed = in_sight bsp S ed"
proof -
  have len: "vis_row v \<le> length vis" and s: "\<And>k. k < nat (num_clusters v) \<Longrightarrow> sees vis k = S k"
    using vis by (simp_all add: marks_def)
  show ?thesis
  proof (cases "ed_num_clusters ed = -1")
    case True
    have "visible_leaf bsp vis l = (leaf_cluster (leafs bsp l) \<noteq> -1 \<and> S (nat (leaf_cluster (leafs bsp l))))"
      if "leaf_under bsp (ed_head_node ed) l" for l
    proof -
      have "0 \<le> l" "l < num_leafs bsp" using leaf_under_range [OF wf _ that] m True by (auto simp: in_map_def)
      then have "-1 \<le> leaf_cluster (leafs bsp l)" "leaf_cluster (leafs bsp l) < num_clusters v"
        using fit by (auto simp: leafs_fit_def)
      then show ?thesis using s [of "nat (leaf_cluster (leafs bsp l))"]
        by (cases "leaf_cluster (leafs bsp l) = -1") (auto simp: visible_leaf_def)
    qed
    then show ?thesis using True by (auto simp: in_view_def in_sight_def)
  next
    case False
    have "sees vis (nat c) = S (nat c)" if "c \<in> set (take (nat (ed_num_clusters ed)) (ed_clusters ed))" for c
      using in_map_clusters [OF m fit len False that] by (intro s) linarith
    then show ?thesis using False by (simp add: in_view_def in_sight_def)
  qed
qed

text \<open>
  \<open>sent_from\<close>: what a client with the eye in the leaf \<open>l\<close>, around which the leafs \<open>ls\<close>
  are, is sent: edicts in areas joined with its own that it can hear, if they make a sound
  or an event, or can see.
\<close>

definition sent_from :: "c_bsp \<Rightarrow> bsp_areas \<Rightarrow> (nat \<Rightarrow> byte list) \<Rightarrow> (nat \<Rightarrow> byte list) \<Rightarrow> int \<Rightarrow> int list \<Rightarrow> edict \<Rightarrow> bool" where
  "sent_from bsp ar P H l ls ed \<longleftrightarrow> areas_joined ar (leaf_area (leafs bsp l)) ed \<and>
     in_sight bsp (if heard ed then union_of H (clusters_of bsp [l]) else union_of P (clusters_of bsp ls)) ed"

definition scene_ok :: "c_bsp \<Rightarrow> bsp_vis \<Rightarrow> bsp_areas \<Rightarrow> (nat \<Rightarrow> byte list) \<Rightarrow> (nat \<Rightarrow> byte list) \<Rightarrow> bool" where
  "scene_ok bsp v ar P H \<longleftrightarrow> wf_tree bsp \<and> 0 < num_nodes bsp \<and> num_planes bsp \<noteq> 0 \<and> model_head_node bsp = 0 \<and>
     wf_areas ar \<and> num_areas ar \<le> int MAX_BSP_AREAS \<and> compiled v P H \<and> leafs_fit bsp v ar"

lemma write_area_bits_run:
  assumes "wf_areas ar" and "0 \<le> area" "area < num_areas ar" and "num_areas ar \<le> int MAX_BSP_AREAS"
    and "length buffer = AREA_BYTES"
  shows "\<exists>bits. Cm_WriteAreaBits ar buffer area = Inr (nat (num_areas ar + 7) div 8, bits) \<and> length bits = AREA_BYTES"
proof -
  have "nat (num_areas ar + 7) div 8 \<le> length buffer" using assms(4,5) by (simp add: limits)
  moreover have "nat area < length (areas ar)" "nat (num_areas ar) \<le> length (areas ar)" using assms(1-3) by (auto simp: wf_areas_def)
  ultimately show ?thesis
    using assms(2,5) by (cases "no_areas ar") (simp_all add: Cm_WriteAreaBits_def Let_def at_index_def not_less)
qed

lemma sent_number: "e < 65536 \<Longrightarrow> unat (number (sent_state cent ents e)) = e"
  by (simp add: sent_state_def with_number_def Let_def unat_of_nat take_bit_nat_eq_self)

lemma ordered_sent:
  assumes "num \<le> MAX_EDICTS"
  shows "ordered (map (sent_state cent ents) (filter Q [1 ..< num]))"
proof -
  have num: "unat (number (sent_state cent ents e)) = e" if "e \<in> {1 ..< num}" for e
    using that assms by (intro sent_number) (simp add: limits)
  have "sorted_wrt (<) (filter Q [1 ..< num])" by (intro sorted_wrt_filter) (rule sorted_wrt_upt)
  then have "sorted_wrt (\<lambda>a b. number (sent_state cent ents a) < number (sent_state cent ents b)) (filter Q [1 ..< num])"
    by (rule sorted_wrt_mono_rel [rotated]) (use num in \<open>auto simp: word_less_nat_alt\<close>)
  moreover have "valid_number (sent_state cent ents e)" if "e \<in> {1 ..< num}" for e
    using num [OF that] that assms by (auto simp: valid_number_def)
  ultimately show ?thesis by (auto simp: ordered_def sorted_wrt_map)
qed

lemma build_frame:
  fixes cent :: nat
  assumes scene: "scene_ok bsp v ar P H" and rows: "rows_ok v (words_of v) rows"
    and player: "ed_player (svs_edicts st cent) = Some ps"
    and linked: "\<And>e. 1 \<le> e \<Longrightarrow> e < svs_num_edicts st \<Longrightarrow> in_map bsp (svs_edicts st e)"
    and num: "svs_num_edicts st \<le> MAX_EDICTS" "svs_num_edicts st \<le> length (sv_entity_states (svs_server st))"
      "sv_entity_states (svs_server st) \<noteq> []" "unat (svs_next_state st) + svs_num_edicts st \<le> 2 ^ 32"
    and slots: "length (client_frames cl) = PACKET_BACKUP"
      "length (area_bits (client_frames cl ! frame_slot (sv_frame_num (svs_server st)))) = AREA_BYTES"
  defines "org \<equiv> client_eye (player_pm ps)"
  shows "\<exists>rows' st' cl' l ls. Sv_BuildClientFrame bsp v ar cent rows st cl = Some (Inr (rows', st', cl')) \<and>
    rows_ok v (words_of v) rows' \<and> Cm_PointLeafnum bsp org = Some (Inr l) \<and> eye_leafs bsp org ls \<and>
    (let frame = client_frames cl' ! frame_slot (sv_frame_num (svs_server st))
     in frame_ps frame = ps \<and> length (area_bits frame) = AREA_BYTES \<and> area_bytes frame \<le> AREA_BYTES \<and>
       ordered (frame_states (svs_server st') frame) \<and>
       frame_states (svs_server st') frame = map (sent_state cent (svs_edicts st))
         (filter (relevant (sent_from bsp ar P H l ls) cent (svs_edicts st)) [1 ..< svs_num_edicts st])) \<and>
    (\<exists>f. cl' = cl\<lparr>client_frames := (client_frames cl)[frame_slot (sv_frame_num (svs_server st)) := f]\<rparr>) \<and>
    (\<exists>es. svs_server st' = (svs_server st)\<lparr>sv_entity_states := es\<rparr>)"
proof -
  have s: "wf_tree bsp" "0 < num_nodes bsp" "num_planes bsp \<noteq> 0" "model_head_node bsp = 0" "wf_areas ar"
      "num_areas ar \<le> int MAX_BSP_AREAS" "compiled v P H" "leafs_fit bsp v ar"
    using scene by (simp_all add: scene_ok_def)
  have ref: "tree_ref bsp 0" "tree_ref bsp (model_head_node bsp)" using s(2,4) by (simp_all add: tree_ref_def)
  obtain l where l: "Cm_PointLeafnum bsp org = Some (Inr l)" "0 \<le> l" "l < num_leafs bsp"
    using point_leaf [OF s(1) ref(1), of org] s(3) by (auto simp: Cm_PointLeafnum_def)
  let ?area = "leaf_area (leafs bsp l)" and ?c = "leaf_cluster (leafs bsp l)"
  have la: "Cm_LeafArea bsp l = Inr ?area" "Cm_LeafCluster bsp l = Inr ?c"
    using l by (simp_all add: Cm_LeafArea_def Cm_LeafCluster_def)
  have rng: "0 \<le> ?area" "?area < num_areas ar" "-1 \<le> ?c" "?c < num_clusters v"
    using s(8) l(2,3) by (auto simp: leafs_fit_def)
  let ?slot = "frame_slot (sv_frame_num (svs_server st))"
  let ?frame = "client_frames cl ! ?slot"
  obtain bits where bits: "Cm_WriteAreaBits ar (area_bits ?frame) ?area = Inr (nat (num_areas ar + 7) div 8, bits)"
      "length bits = AREA_BYTES"
    using write_area_bits_run [OF s(5) rng(1,2) s(6) slots(2)] by blast
  obtain rows1 ls where r1: "Sv_ClientPVS bsp v org rows = Some (Inr rows1)" "eye_leafs bsp org ls"
      "rows_ok v (words_of v) rows1" "marks v (client_pvs rows1) (union_of P (clusters_of bsp ls))"
    using client_pvs_run [OF s(1) ref(2) s(7,8) rows] by blast
  have "vis_row v \<le> length (phs_row rows1)" using r1(3) by (simp add: rows_ok_def)
  then obtain phs where phs: "Cm_ClusterPHS v ?c (phs_row rows1) = Inr phs" "length phs = length (phs_row rows1)"
      "marks v phs (\<lambda>k. ?c \<noteq> -1 \<and> sees (H (nat ?c)) k)"
    using cluster_pvs(2) [OF s(7) rng(3,4)] by blast
  have phs': "marks v phs (union_of H (clusters_of bsp [l]))"
    using phs(3) by (simp add: marks_def union_of_def clusters_of_def)
  let ?V = "sent_from bsp ar P H l ls"
  have vis: "sees_entity bsp ar ?area (client_pvs rows1) phs (svs_edicts st e) = Some (Inr (?V (svs_edicts st e)))"
    if "e \<in> set [1 ..< svs_num_edicts st]" for e
  proof -
    have m: "in_map bsp (svs_edicts st e)" using that by (intro linked) simp_all
    have len: "vis_row v \<le> length (client_pvs rows1)" "vis_row v \<le> length phs"
      using r1(4) phs(3) by (simp_all add: marks_def)
    show ?thesis
      unfolding sees_entity_run [OF s(1,8,5) rng(1,2) m len] sent_from_def
      using in_view_sight [OF m s(8,1) r1(4)] in_view_sight [OF m s(8,1) phs'] by simp
  qed
  let ?R = "filter (relevant ?V cent (svs_edicts st)) [1 ..< svs_num_edicts st]"
  let ?new = "map (sent_state cent (svs_edicts st)) ?R"
  let ?buf = "ring_put (sv_entity_states (svs_server st)) (svs_next_state st) ?new"
  obtain ents where a: "add_entities (sees_entity bsp ar ?area (client_pvs rows1) phs) cent [1 ..< svs_num_edicts st] st 0 =
      Some (Inr (st\<lparr>svs_edicts := ents, svs_next_state := svs_next_state st + word_of_nat (length ?R),
          svs_server := (svs_server st)\<lparr>sv_entity_states := ?buf\<rparr>\<rparr>, 0 + length ?R))"
    using add_entities_run [where es = "[1 ..< svs_num_edicts st]" and st = st and cent = cent and n = 0 and V = ?V
      and vis = "sees_entity bsp ar ?area (client_pvs rows1) phs"] num(3) vis by auto
  define frame where "frame = \<lparr>area_bytes = nat (num_areas ar + 7) div 8, area_bits = bits, frame_ps = ps,
    num_entities = length ?R, first_entity = svs_next_state st, sent_time = svs_real_time st\<rparr>"
  define st' where "st' = st\<lparr>svs_edicts := ents, svs_next_state := svs_next_state st + word_of_nat (length ?R),
          svs_server := (svs_server st)\<lparr>sv_entity_states := ?buf\<rparr>\<rparr>"
  let ?cl' = "cl\<lparr>client_frames := (client_frames cl)[?slot := frame]\<rparr>"
  have run: "Sv_BuildClientFrame bsp v ar cent rows st cl = Some (Inr (rows1\<lparr>phs_row := phs\<rparr>, st', ?cl'))"
    unfolding Sv_BuildClientFrame_def using player l(1) la bits(1) r1(1) phs(1) a
    by (simp add: Let_def org_def [symmetric] frame_def st'_def)
  have slot: "client_frames ?cl' ! ?slot = frame" using slots(1) frame_slot_less [of "sv_frame_num (svs_server st)"] by simp
  have len: "length ?R \<le> svs_num_edicts st" using length_filter_le [of _ "[1 ..< svs_num_edicts st]"] by (rule order_trans) simp
  have fs: "frame_states (svs_server st') frame = ?new"
    using frame_of_ring [of "svs_next_state st" ?new "sv_entity_states (svs_server st)"] num(2,4) len
    by (simp add: frame_states_def st'_def frame_def)
  have "area_bytes frame \<le> AREA_BYTES" using s(6) by (simp add: frame_def limits)
  moreover have "rows_ok v (words_of v) (rows1\<lparr>phs_row := phs\<rparr>)" using r1(3) phs(2) by (simp add: rows_ok_def)
  moreover have "frame_ps frame = ps" "length (area_bits frame) = AREA_BYTES" using bits(2) by (simp_all add: frame_def)
  moreover have "ordered ?new" by (rule ordered_sent [OF num(1)])
  moreover have "\<exists>f. ?cl' = cl\<lparr>client_frames := (client_frames cl)[?slot := f]\<rparr>" by blast
  moreover have "\<exists>es. svs_server st' = (svs_server st)\<lparr>sv_entity_states := es\<rparr>"
    by (rule exI [of _ ?buf]) (simp add: st'_def)
  ultimately show ?thesis
    using run l(1) r1(2)
    by (intro exI [of _ "rows1\<lparr>phs_row := phs\<rparr>"] exI [of _ st'] exI [of _ ?cl'] exI [of _ l] exI [of _ ls] conjI)
      (simp_all only: Let_def slot fs)
qed

section \<open>Properties\<close>

text \<open>
  C24: \<open>Sv_BuildClientFrame\<close> ends without an error, and the frame it builds has the states of
  exactly the edicts that the client is to be sent: those that are not local to the server,
  have a model, an effect, a sound or an event, and are the client itself or can be heard
  from the leaf of its eye or seen from a leaf around it, through open portals. They are in
  the order of their numbers, as \<open>Sv_EmitEntities\<close> needs them.
\<close>

theorem build_frame_relevant:
  assumes "scene_ok bsp v ar P H" and "rows_ok v (words_of v) rows"
    and "ed_player (svs_edicts st cent) = Some ps"
    and "\<And>e. 1 \<le> e \<Longrightarrow> e < svs_num_edicts st \<Longrightarrow> in_map bsp (svs_edicts st e)"
    and "svs_num_edicts st \<le> MAX_EDICTS" "svs_num_edicts st \<le> length (sv_entity_states (svs_server st))"
      "sv_entity_states (svs_server st) \<noteq> []" "unat (svs_next_state st) + svs_num_edicts st \<le> 2 ^ 32"
    and "length (client_frames cl) = PACKET_BACKUP"
      "length (area_bits (client_frames cl ! frame_slot (sv_frame_num (svs_server st)))) = AREA_BYTES"
  shows "\<exists>rows' st' cl' l ls. Sv_BuildClientFrame bsp v ar cent rows st cl = Some (Inr (rows', st', cl')) \<and>
    rows_ok v (words_of v) rows' \<and> Cm_PointLeafnum bsp (client_eye (player_pm ps)) = Some (Inr l) \<and>
    eye_leafs bsp (client_eye (player_pm ps)) ls \<and>
    (let frame = client_frames cl' ! frame_slot (sv_frame_num (svs_server st))
     in frame_ps frame = ps \<and> length (area_bits frame) = AREA_BYTES \<and> area_bytes frame \<le> AREA_BYTES \<and>
       ordered (frame_states (svs_server st') frame) \<and>
       frame_states (svs_server st') frame = map (sent_state cent (svs_edicts st))
         (filter (relevant (sent_from bsp ar P H l ls) cent (svs_edicts st)) [1 ..< svs_num_edicts st]))"
  using build_frame [OF assms] by blast

text \<open>A map with the tree of \<open>sample_bsp\<close>; its clusters all see the cluster 4.\<close>

definition scene_vis :: bsp_vis where
  "scene_vis = \<lparr>visibility = [16], num_visibility = 1, num_clusters = 5, bit_offsets = replicate 5 (0, 0)\<rparr>"

lemma sample_scene: "scene_ok sample_bsp scene_vis sample_areas (\<lambda>_. [16]) (\<lambda>_. [16])"
proof -
  have "CompressVis [16] = [16]" by code_simp
  then have "compiled_row scene_vis [16] 0"
    unfolding compiled_row_def by (auto simp: scene_vis_def vis_row_def)
  then have "compiled scene_vis (\<lambda>_. [16]) (\<lambda>_. [16])"
    by (simp add: compiled_def) (simp add: scene_vis_def limits)
  moreover have "leafs_fit sample_bsp scene_vis sample_areas"
    by (simp add: leafs_fit_def sample_bsp_def scene_vis_def sample_areas_def)
  ultimately show ?thesis
    using sample_tree sample_wf by (simp add: scene_ok_def) (simp add: sample_bsp_def sample_areas_def limits)
qed

text \<open>A client and an item, which makes a sound, in the cluster 4.\<close>

definition sample_player :: player_state where
  "sample_player = null_player_state\<lparr>player_pm := null_pm_state\<lparr>pm_origin := Vec3 160 0 0\<rparr>\<rparr>"

definition sample_static :: sv_static where
  "sample_static = \<lparr>svs_server = sample_server\<lparr>sv_entity_states := replicate 8 sample_entity\<rparr>, svs_real_time = 100,
     svs_next_state = 6,
     svs_edicts = (\<lambda>e. sample_edict\<lparr>ed_s := (ed_s sample_edict)\<lparr>event := 1\<rparr>, area_num := 1, ed_num_clusters := 1,
       ed_clusters := 4 # replicate 15 0, ed_player := (if e = 1 then Some sample_player else None)\<rparr>),
     svs_num_edicts = 3\<rparr>"

definition sample_rows :: vis_rows where
  "sample_rows = \<lparr>pvs_row = replicate 16 0, phs_row = replicate 16 0, client_pvs = replicate 16 0\<rparr>"

lemma sample_eye: "client_eye (player_pm sample_player) = Vec3 20 0 0"
  by code_simp

lemma sample_eye_leaf: "Cm_PointLeafnum sample_bsp (Vec3 20 0 0) = Some (Inr 1)"
proof -
  have "point_side sample_bsp (Vec3 20 0 0) (nodes sample_bsp 0) = -2" unfolding sample_bsp_def by code_simp
  then have "Cm_PointLeafnum_r sample_bsp (Vec3 20 0 0) 0 = Some (Inr 1)"
    by (subst Cm_PointLeafnum_r.simps, subst Cm_PointLeafnum_r.simps) (simp add: in_array_def MAX_BSP_NODES_def)
  then show ?thesis by (simp add: Cm_PointLeafnum_def sample_bsp_def)
qed

lemma sample_joined: "Cm_AreasConnected sample_areas 1 1 = Inr True"
  by (simp add: Cm_AreasConnected_def sample_areas_def at_index_def)

theorem build_frame_relevant_witness:
  "\<exists>rows' st' cl'. Sv_BuildClientFrame sample_bsp scene_vis sample_areas 1 sample_rows sample_static sample_sv_client =
       Some (Inr (rows', st', cl')) \<and>
     map number (frame_states (svs_server st') (client_frames cl' ! frame_slot 1)) = [1, 2]"
proof -
  let ?st = sample_static
  let ?ents = "svs_edicts ?st"
  have ents: "?ents e = sample_edict\<lparr>ed_s := (ed_s sample_edict)\<lparr>event := 1\<rparr>, area_num := 1, ed_num_clusters := 1,
       ed_clusters := 4 # replicate 15 0, ed_player := (if e = 1 then Some sample_player else None)\<rparr>" for e
    by (simp add: sample_static_def)
  have m: "in_map sample_bsp (?ents e)" for e
  proof -
    have "1 \<in> (\<lambda>l. leaf_area (leafs sample_bsp l)) ` {0 ..< num_leafs sample_bsp}"
        "4 \<in> (\<lambda>l. leaf_cluster (leafs sample_bsp l)) ` {0 ..< num_leafs sample_bsp}"
      by (rule image_eqI [of _ _ 1]; simp add: sample_bsp_def)+
    then show ?thesis unfolding ents by (simp add: in_map_def sample_edict_def MAX_ENT_CLUSTERS_def)
  qed
  have r: "rows_ok scene_vis (words_of scene_vis) sample_rows"
    by (simp add: rows_ok_def words_of_def scene_vis_def vis_row_def sample_rows_def)
  have n: "svs_num_edicts ?st = 3" "sv_frame_num (svs_server ?st) = 1" "length (sv_entity_states (svs_server ?st)) = 8"
      "svs_next_state ?st = 6" "sv_entity_states (svs_server ?st) \<noteq> []"
    by (simp_all add: sample_static_def sample_server_def)
  have c: "length (client_frames sample_sv_client) = PACKET_BACKUP"
      "length (area_bits (client_frames sample_sv_client ! frame_slot 1)) = AREA_BYTES"
    using frame_slot_less [of 1] by (simp_all add: sample_sv_client_def sample_frame_def)
  obtain rows' st' cl' l ls where b:
      "Sv_BuildClientFrame sample_bsp scene_vis sample_areas 1 sample_rows ?st sample_sv_client = Some (Inr (rows', st', cl'))"
      "Cm_PointLeafnum sample_bsp (client_eye (player_pm sample_player)) = Some (Inr l)"
      "frame_states (svs_server st') (client_frames cl' ! frame_slot 1) = map (sent_state 1 ?ents)
         (filter (relevant (sent_from sample_bsp sample_areas (\<lambda>_. [16]) (\<lambda>_. [16]) l ls) 1 ?ents) [1 ..< 3])"
    using build_frame_relevant [OF sample_scene r _ m, of 1 sample_player sample_sv_client] c n ents [of 1]
    by (auto simp: limits Let_def)
  have l: "l = 1" using b(2) by (simp add: sample_eye sample_eye_leaf)
  have "relevant (sent_from sample_bsp sample_areas (\<lambda>_. [16]) (\<lambda>_. [16]) l ls) 1 ?ents e" for e
    unfolding relevant_def sent_from_def l ents
    by (simp add: sample_edict_def has_presence_def areas_joined_def in_sight_def heard_def union_of_def clusters_of_def
        sample_bsp_def sees_def) (simp add: sample_joined [unfolded sample_bsp_def])
  moreover have "[1 ..< 3] = [1, 2 :: nat]" by code_simp
  ultimately have "map number (frame_states (svs_server st') (client_frames cl' ! frame_slot 1)) = [1, 2]"
    unfolding b(3) by (simp add: sent_state_def with_number_def ents sample_edict_def)
  with b(1) show ?thesis by (intro exI [of _ rows'] exI [of _ st'] exI [of _ cl'] conjI)
qed

text \<open>
  C25: What an edict is linked for is enough for it to be sent: if the box of an edict touches a
  leaf whose cluster is among those that the client can see (or hear), then after
  \<open>Sv_LinkEdict\<close> the edict is in sight, however many leafs and clusters it is in.
\<close>

theorem linked_in_sight:
  assumes "world_abs w M" and "wf_tree bsp" and "tree_ref bsp (model_head_node bsp)"
    and "length (ed_clusters (edicts w e)) = MAX_ENT_CLUSTERS" and "e \<noteq> 0" and "in_use (edicts w e)"
    and "touches bsp (abs_mins (link_box (edicts w e))) (abs_maxs (link_box (edicts w e))) (model_head_node bsp) l"
    and "leaf_cluster (leafs bsp l) \<noteq> -1" and "S (nat (leaf_cluster (leafs bsp l)))"
  shows "\<exists>w'. Sv_LinkEdict bsp e w = Some (Inr w') \<and> in_map bsp (edicts w' e) \<and> in_sight bsp S (edicts w' e)"
proof -
  obtain w' where w': "Sv_LinkEdict bsp e w = Some (Inr w')" "links_to bsp (edicts w e) (edicts w' e)"
    using link_edict [OF assms(1-5)] assms(6) by blast
  then have "noted bsp (edicts w' e) l" using assms(7,8) by (simp add: links_to_def)
  then have "in_sight bsp S (edicts w' e)" using assms(8,9) by (auto simp: noted_def in_sight_def split: if_splits)
  then show ?thesis using w' by (auto simp: links_to_def)
qed

theorem linked_in_sight_witness:
  "\<exists>w w'. Sv_InitWorld (Vec3 (-4096) (-4096) 0) (Vec3 4096 4096 512) (\<lambda>_. sample_edict) no_links = Inr w \<and>
     Sv_LinkEdict sample_bsp 7 w = Some (Inr w') \<and> in_sight sample_bsp (\<lambda>k. k = 4) (edicts w' 7)"
proof -
  obtain w where w: "Sv_InitWorld (Vec3 (-4096) (-4096) 0) (Vec3 4096 4096 512) (\<lambda>_. sample_edict) no_links = Inr w"
      "world_abs w Map.empty" "edicts w = (\<lambda>_. sample_edict)"
    using init_world [of no_links "Vec3 (-4096) (-4096) 0" "Vec3 4096 4096 512" "\<lambda>_. sample_edict"]
    by (auto simp: no_links_def)
  have "BoxOnPlaneSide (abs_mins (link_box sample_edict)) (abs_maxs (link_box sample_edict)) (planes sample_bsp 0) \<noteq> 2"
    by code_simp
  then have "touches sample_bsp (abs_mins (link_box sample_edict)) (abs_maxs (link_box sample_edict)) 0 1"
  proof -
    assume side: "BoxOnPlaneSide (abs_mins (link_box sample_edict)) (abs_maxs (link_box sample_edict)) (planes sample_bsp 0) \<noteq> 2"
    have "child0 (nodes sample_bsp 0) = -2" "node_plane (nodes sample_bsp 0) = 0" by (simp_all add: sample_bsp_def)
    then show ?thesis using side by (simp add: touches_node touches_neg)
  qed
  then show ?thesis
    using linked_in_sight [OF w(2) sample_tree, of 7 1 "\<lambda>k. k = 4"] w(1,3)
    by (auto simp: tree_ref_def sample_bsp_def sample_edict_def MAX_ENT_CLUSTERS_def)
qed

end
