(* ===== verification/Msg_Writers.thy ===== *)
theory Msg_Writers
  imports Sv_Entity Wire_Codec
begin

text \<open>
  The writers of messages keep a buffer well-formed, whatever they are given, when they
  return: what is in a buffer stays within it, its size and its mode stay.
\<close>

lemma WriteBuffer_keeps:
  assumes "wf_buf b" and "Mem_WriteBuffer bs b = Inr b'"
  shows "wf_buf b'" "max_size b' = max_size b" "allow_overflow b' = allow_overflow b"
    "length bs \<le> buf_size b'" "length bs \<le> max_size b"
proof -
  have "wf_buf b' \<and> max_size b' = max_size b \<and> allow_overflow b' = allow_overflow b \<and>
      length bs \<le> buf_size b' \<and> length bs \<le> max_size b"
  proof (cases "buf_size b + length bs \<le> max_size b")
    case True
    then show ?thesis using assms wf_appended [of b bs] by (simp add: Mem_WriteBuffer_fits) auto
  next
    case False
    then show ?thesis
      using assms Mem_WriteBuffer_abort [of b bs] Mem_WriteBuffer_overflow [of b bs]
      by (cases "allow_overflow b \<and> length bs \<le> max_size b") (auto simp: wf_buf_def Mem_ClearBuffer_def)
  qed
  then show "wf_buf b'" "max_size b' = max_size b" "allow_overflow b' = allow_overflow b"
    "length bs \<le> buf_size b'" "length bs \<le> max_size b" by simp_all
qed

section \<open>Writers keep buffers well-formed\<close>

named_theorems keeps_intros \<open>writers that keep a buffer well-formed\<close>

definition keeps :: "(mem_buf \<Rightarrow> mem_buf result) \<Rightarrow> bool" where
  "keeps w \<longleftrightarrow> (\<forall>b b'. wf_buf b \<longrightarrow> w b = Inr b' \<longrightarrow>
     wf_buf b' \<and> max_size b' = max_size b \<and> allow_overflow b' = allow_overflow b)"

lemma keepsD:
  assumes "keeps w" and "wf_buf b" and "w b = Inr b'"
  shows "wf_buf b'" "max_size b' = max_size b" "allow_overflow b' = allow_overflow b"
  using assms unfolding keeps_def by blast+

lemma keeps_WriteBuffer: "keeps (Mem_WriteBuffer bs)"
  using WriteBuffer_keeps by (simp add: keeps_def)

lemma keeps_writers [keeps_intros]:
  "keeps (Net_WriteByte c)" "keeps (Net_WriteShort c)" "keeps (Net_WriteLong c)"
  "keeps (Net_WriteString str)" "keeps (Net_WriteData bs)" "keeps (Mem_WriteBuffer bs)"
  unfolding write_as_buffer by (rule keeps_WriteBuffer)+

lemma keeps_skip [keeps_intros]: "keeps Inr"
  by (simp add: keeps_def)

lemma keeps_bind: "keeps v \<Longrightarrow> keeps w \<Longrightarrow> keeps (\<lambda>b. bindE (v b) w)"
proof -
  assume v: "keeps v" and w: "keeps w"
  show ?thesis
    unfolding keeps_def
  proof (intro allI impI)
    fix b b' assume b: "wf_buf b" and r: "bindE (v b) w = Inr b'"
    then obtain c where c: "v b = Inr c" "w c = Inr b'" by (auto simp: bindE_eq_Inr)
    show "wf_buf b' \<and> max_size b' = max_size b \<and> allow_overflow b' = allow_overflow b"
      using keepsD [OF v b c(1)] keepsD [OF w _ c(2)] by simp
  qed
qed

lemma keeps_run_seq: "(\<And>w. w \<in> set ws \<Longrightarrow> keeps w) \<Longrightarrow> keeps (run_seq ws)"
proof (induction ws)
  case Nil
  then show ?case by (simp add: keeps_def)
next
  case (Cons w ws)
  then have "keeps (\<lambda>b. bindE (w b) (run_seq ws))" by (intro keeps_bind) simp_all
  moreover have "run_seq (w # ws) = (\<lambda>b. bindE (w b) (run_seq ws))" by (simp add: fun_eq_iff)
  ultimately show ?case by simp
qed

lemma keeps_when [keeps_intros]: "keeps w \<Longrightarrow> keeps (when_do c w)"
  by (cases c) (simp_all add: keeps_skip)

lemma keeps_run_seq_Nil [keeps_intros]: "keeps (run_seq [])"
  by (rule keeps_run_seq) simp

lemma keeps_run_seq_Cons [keeps_intros]: "keeps w \<Longrightarrow> keeps (run_seq ws) \<Longrightarrow> keeps (run_seq (w # ws))"
proof -
  assume a: "keeps w" "keeps (run_seq ws)"
  have "run_seq (w # ws) = (\<lambda>b. bindE (w b) (run_seq ws))" by (simp add: fun_eq_iff)
  then show ?thesis using keeps_bind [OF a] by simp
qed

lemma keeps_composed [keeps_intros]:
  "keeps (Net_WritePosition v)" "keeps (Net_WriteAngle a)" "keeps (Net_WriteAngles v)" "keeps (Net_WriteShorts w)"
proof -
  have p: "Net_WritePosition v = run_seq [Net_WriteShort (quantize_coord (vx v)), Net_WriteShort (quantize_coord (vy v)),
      Net_WriteShort (quantize_coord (vz v))]"
    by (simp add: fun_eq_iff Net_WritePosition_def)
  show "keeps (Net_WritePosition v)" unfolding p by (intro keeps_intros)
  have a: "Net_WriteAngle a = Net_WriteByte (quantize_angle a)" for a by (simp add: fun_eq_iff Net_WriteAngle_def)
  show "keeps (Net_WriteAngle a)" unfolding a by (intro keeps_intros)
  have as: "Net_WriteAngles v = run_seq [Net_WriteAngle (vx v), Net_WriteAngle (vy v), Net_WriteAngle (vz v)]"
    by (simp add: fun_eq_iff Net_WriteAngles_def)
  show "keeps (Net_WriteAngles v)" unfolding as a by (intro keeps_intros)
  show "keeps (Net_WriteShorts w)" unfolding Net_WriteShorts_def by (intro keeps_intros)
qed

lemma keeps_DeltaEntity [keeps_intros]: "keeps (Net_WriteDeltaEntity from to force is_new)"
proof -
  have run: "keeps (run_seq
          [Net_WriteShort (uint (number to)), Net_WriteShort (uint (entity_bits from to is_new)),
           when_do c1 (Net_WritePosition (origin to)), when_do c2 (Net_WritePosition (old_origin to)),
           when_do c3 (Net_WriteAngles (angles to)),
           when_do c4 (run_seq [Net_WriteByte (uint (animation1 to)), Net_WriteByte (uint (animation2 to))]),
           when_do c5 (Net_WriteByte (uint (event to))), when_do c6 (Net_WriteShort (uint (effects to))),
           when_do c7 (run_seq [Net_WriteByte (uint (model1 to)), Net_WriteByte (uint (model2 to)),
                       Net_WriteByte (uint (model3 to)), Net_WriteByte (uint (model4 to))]),
           when_do c8 (Net_WriteByte (uint (client to))), when_do c9 (Net_WriteByte (uint (sound to))),
           when_do c10 (Net_WriteShort (uint (solid to)))])" for c1 c2 c3 c4 c5 c6 c7 c8 c9 c10
    by (intro keeps_intros)
  show ?thesis
    unfolding keeps_def Net_WriteDeltaEntity_def Let_def
    using run [unfolded keeps_def] by (simp del: run_seq.simps)
qed

lemma keeps_emit_entities:
  "wf_buf b \<Longrightarrow> emit_entities bases mc tn nw fn old ni oi b = Inr b' \<Longrightarrow>
   wf_buf b' \<and> max_size b' = max_size b \<and> allow_overflow b' = allow_overflow b"
proof (induction bases mc tn nw fn old ni oi b rule: emit_entities.induct)
  case (1 bases mc tn nw fn old ni oi b)
  note step = "1.prems"(2) [unfolded emit_entities.simps [of bases mc tn nw fn old ni oi b] Let_def]
  have removed: "keeps (run_seq [Net_WriteShort x, Net_WriteShort y])" for x y by (intro keeps_intros)
  show ?case
  proof (cases "ni < tn \<or> oi < fn")
    case False
    then show ?thesis using step "1.prems"(1) by simp
  next
    case True
    let ?new = "if ni \<ge> tn then 0xffff else number (nw ni)" and ?old = "if oi \<ge> fn then 0xffff else number (old oi)"
    consider (same) "?new = ?old" | (new) "?new \<noteq> ?old" "?new < ?old" | (old) "?new \<noteq> ?old" "\<not> ?new < ?old" by blast
    then show ?thesis
    proof cases
      case same
      then have "\<not> (ni \<ge> tn \<or> oi \<ge> fn)" using step True by (auto split: if_splits)
      with step True same obtain c where c: "Net_WriteDeltaEntity (old oi) (nw ni) False (unat (number (nw ni)) \<le> mc) b = Inr c"
        "emit_entities bases mc tn nw fn old (ni + 1) (oi + 1) c = Inr b'"
        by (auto simp: bindE_eq_Inr)
      show ?thesis
        using "1.IH"(1) [OF True refl refl same _ c(1) _ c(2)] \<open>\<not> (ni \<ge> tn \<or> oi \<ge> fn)\<close>
          keepsD [OF keeps_DeltaEntity "1.prems"(1) c(1)] by simp
    next
      case new
      then have "\<not> unat ?new \<ge> length bases" using step True by (auto split: if_splits)
      with step True new obtain c where c: "Net_WriteDeltaEntity (bases ! unat ?new) (nw ni) True True b = Inr c"
        "emit_entities bases mc tn nw fn old (ni + 1) oi c = Inr b'"
        by (auto simp: bindE_eq_Inr)
      show ?thesis
        using "1.IH"(2) [OF True refl refl new _ c(1) _ c(2)] \<open>\<not> unat ?new \<ge> length bases\<close>
          keepsD [OF keeps_DeltaEntity "1.prems"(1) c(1)] by simp
    next
      case old
      with step True obtain c where c: "run_seq [Net_WriteShort (uint ?old), Net_WriteShort (uint U_REMOVE)] b = Inr c"
        "emit_entities bases mc tn nw fn old ni (oi + 1) c = Inr b'"
        by (auto simp: bindE_eq_Inr)
      show ?thesis
        using "1.IH"(3) [OF True refl refl old c(1) _ c(2)] keepsD [OF removed "1.prems"(1) c(1)] by simp
    qed
  qed
qed

lemma write_frame_keeps:
  assumes "wf_buf b" and "Sv_WriteFrame sv cl b = Inr (cl', b')"
  shows "wf_buf b'" "max_size b' = max_size b"
proof -
  have e: "keeps (Sv_EmitEntities sv fr tt)" for fr tt
  proof -
    have "keeps (emit_entities (baselines sv) (sv_max_clients sv) n f k g 0 0)" for n f k g
      using keeps_emit_entities by (simp add: keeps_def)
    then have "keeps (\<lambda>msg. bindE (emit_entities (baselines sv) (sv_max_clients sv) n f k g 0 0 msg) (Net_WriteShort 0))" for n f k g
      by (intro keeps_bind keeps_intros)
    then show ?thesis by (simp add: Sv_EmitEntities_def [abs_def] Let_def)
  qed
  have p: "keeps (Sv_WritePlayerstate fr tt)" for fr tt
  proof -
    have "keeps (write_player_state a b)" for a b
    proof -
      have app: "keeps (run_seq (ws @ map f ks))" if "keeps (run_seq ws)" "\<And>i. keeps (f i)" for ws f and ks :: "nat list"
      proof -
        have "keeps (\<lambda>msg. bindE (run_seq ws msg) (run_seq (map f ks)))"
          by (rule keeps_bind [OF that(1) keeps_run_seq]) (use that(2) in auto)
        moreover have "run_seq (ws @ map f ks) = (\<lambda>msg. bindE (run_seq ws msg) (run_seq (map f ks)))"
          by (rule ext) (rule run_seq_append)
        ultimately show ?thesis by simp
      qed
      show ?thesis
        unfolding write_player_state_def [abs_def] Let_def by (rule app; intro keeps_intros)
    qed
    then show ?thesis by (simp add: Sv_WritePlayerstate_def [abs_def])
  qed
  let ?frame = "client_frames cl ! frame_slot (sv_frame_num sv)"
  let ?num = "delta_frame_num sv cl"
  let ?d = "if ?num = -1 then None else Some (client_frames cl ! frame_slot ?num)"
  have "keeps (run_seq [Net_WriteByte SV_CMD_FRAME, Net_WriteLong (sv_frame_num sv), Net_WriteLong ?num,
      Net_WriteByte (uint (surpress_count cl)), Net_WriteByte (int (area_bytes ?frame)),
      Net_WriteData (take (area_bytes ?frame) (area_bits ?frame)),
      Sv_WritePlayerstate ?d ?frame, Sv_EmitEntities sv ?d ?frame])"
    by (intro keeps_intros e p)
  moreover have "run_seq [Net_WriteByte SV_CMD_FRAME, Net_WriteLong (sv_frame_num sv), Net_WriteLong ?num,
      Net_WriteByte (uint (surpress_count cl)), Net_WriteByte (int (area_bytes ?frame)),
      Net_WriteData (take (area_bytes ?frame) (area_bits ?frame)),
      Sv_WritePlayerstate ?d ?frame, Sv_EmitEntities sv ?d ?frame] b = Inr b'"
    using assms(2) unfolding Sv_WriteFrame_def Let_def bindE_eq_Inr by auto
  ultimately show "wf_buf b'" "max_size b' = max_size b" using keepsD [OF _ assms(1)] by blast+
qed

end
