(* ===== verification/Info_String.thy ===== *)
theory Info_String
  imports Q2W_Prelude
begin

text \<open>
  The user-info strings of \<open>src/shared.c\<close> (\<open>\key\value\key\value\<close>), and that they
  implement association lists. A string is the characters before its terminator; reading
  or writing past an array is a \<open>Bad_Access\<close>. \<open>SetUserInfo\<close> writes in place: as for all
  its callers, the array has \<open>MAX_USER_INFO_STRING\<close> characters.
\<close>

section \<open>The code\<close>

definition MAX_USER_INFO_KEY :: nat where "MAX_USER_INFO_KEY = 64"
definition MAX_USER_INFO_VALUE :: nat where "MAX_USER_INFO_VALUE = 64"
definition MAX_USER_INFO_STRING :: nat where "MAX_USER_INFO_STRING = 512"

declare MAX_USER_INFO_KEY_def [limits] MAX_USER_INFO_VALUE_def [limits] MAX_USER_INFO_STRING_def [limits]

abbreviation backslash :: char where "backslash \<equiv> CHR 0x5C"
abbreviation semicolon :: char where "semicolon \<equiv> CHR 0x3B"
abbreviation quote :: char where "quote \<equiv> CHR 0x22"

text \<open>The copying of the characters up to the next backslash, and what is left.\<close>

definition info_part :: "string \<Rightarrow> string" where
  "info_part s = takeWhile (\<lambda>c. c \<noteq> backslash) s"

definition info_rest :: "string \<Rightarrow> string" where
  "info_rest s = dropWhile (\<lambda>c. c \<noteq> backslash) s"

lemma info_part_rest: "info_part s @ info_rest s = s"
  by (simp add: info_part_def info_rest_def)

lemma length_info_rest: "length (info_rest s) \<le> length s"
  by (simp add: info_rest_def length_dropWhile_le)

lemma rest_tl: "s1 \<noteq> [] \<Longrightarrow> length (info_rest (tl s1)) < length s1"
  using length_info_rest [of "tl s1"] by (cases s1) simp_all

text \<open>\<open>char pkey[512]\<close>, \<open>char value[512]\<close>\<close>

definition INFO_CHARS :: nat where "INFO_CHARS = 512"

declare INFO_CHARS_def [limits]

definition skip_slash :: "string \<Rightarrow> string" where
  "skip_slash s = (if s \<noteq> [] \<and> hd s = backslash then tl s else s)"

lemma length_skip_slash: "length (skip_slash s) \<le> length s"
  by (simp add: skip_slash_def)

function get_info :: "string \<Rightarrow> string \<Rightarrow> string result" where
  "get_info key s =
     (let pkey = info_part s; s1 = info_rest s
      in if s1 = [] then (if length pkey > INFO_CHARS then Inl Bad_Access else Inr [])
         else if length pkey \<ge> INFO_CHARS then Inl Bad_Access
         else
           let val = info_part (tl s1); s2 = info_rest (tl s1)
           in if length val \<ge> INFO_CHARS then Inl Bad_Access
              else if key = pkey then Inr val
              else if s2 = [] then Inr []
              else get_info key (tl s2))"
  by pat_completeness auto

termination
proof (relation "measure (length \<circ> snd)", goal_cases)
  case 1
  then show ?case by simp
next
  case (2 key s pkey s1 val s2)
  have "length s2 < length s1"
    using 2(3,6) rest_tl by blast
  moreover have "length s1 \<le> length s" using 2(2) length_info_rest by simp
  ultimately show ?case by simp
qed

declare get_info.simps [simp del]

definition GetUserInfo :: "string \<Rightarrow> string \<Rightarrow> string result" where
  "GetUserInfo s key = get_info key (skip_slash s)"

text \<open>The result is what \<open>s\<close> holds afterwards.\<close>

function delete_info :: "string \<Rightarrow> string \<Rightarrow> string result" where
  "delete_info key s =
     (let pkey = info_part (skip_slash s); s1 = info_rest (skip_slash s)
      in if s1 = [] then (if length pkey > INFO_CHARS then Inl Bad_Access else Inr s)
         else if length pkey \<ge> INFO_CHARS then Inl Bad_Access
         else
           let val = info_part (tl s1); s2 = info_rest (tl s1)
           in if length val \<ge> INFO_CHARS then Inl Bad_Access
              else if key = pkey then Inr s2
              else if s2 = [] then Inr s
              else bindE (delete_info key s2) (\<lambda>r. Inr (take (length s - length s2) s @ r)))"
  by pat_completeness auto

termination
proof (relation "measure (length \<circ> snd)", goal_cases)
  case 1
  then show ?case by simp
next
  case (2 key s pkey s1 val s2)
  have "length s2 < length s1"
    using 2(3,6) rest_tl by blast
  moreover have "length s1 \<le> length s"
    using 2(2) length_info_rest [of "skip_slash s"] length_skip_slash [of s] by simp
  ultimately show ?case by simp
qed

declare delete_info.simps [simp del]

definition DeleteUserInfo :: "string \<Rightarrow> string \<Rightarrow> string result" where
  "DeleteUserInfo s key = (if backslash \<in> set key then Inr s else delete_info key s)"

definition ValidateUserInfo :: "string option \<Rightarrow> bool" where
  "ValidateUserInfo s = (case s of None \<Rightarrow> False
     | Some s \<Rightarrow> if s = [] then False
         else if quote \<in> set s then False
         else if semicolon \<in> set s then False
         else True)"

text \<open>The loop that strips the high bits and copies what can be printed.\<close>

definition ascii :: "string \<Rightarrow> string" where
  "ascii v = filter (\<lambda>c. 32 \<le> (of_char c :: nat) \<and> (of_char c :: nat) < 127)
     (map (\<lambda>c. char_of ((of_char c :: nat) mod 128)) v)"

definition SetUserInfo :: "string \<Rightarrow> string \<Rightarrow> string \<Rightarrow> string result" where
  "SetUserInfo s key value =
     (if backslash \<in> set key \<or> backslash \<in> set value then Inr s
      else if semicolon \<in> set key then Inr s
      else if quote \<in> set key \<or> quote \<in> set value then Inr s
      else if length key > MAX_USER_INFO_KEY - 1 \<or> length value > MAX_USER_INFO_VALUE - 1 then Inr s
      else bindE (DeleteUserInfo s key) (\<lambda>s.
        if value = [] then Inr s
        else
          let newi = take (MAX_USER_INFO_STRING - 1) ([backslash] @ key @ [backslash] @ value)
          in if length newi + length s > MAX_USER_INFO_STRING then Inr s
             else
               let r = s @ ascii newi
               in if length r \<ge> MAX_USER_INFO_STRING then Inl Bad_Access else Inr r))"

section \<open>The association list in a string\<close>

definition pair_string :: "string \<times> string \<Rightarrow> string" where
  "pair_string kv = [backslash] @ fst kv @ [backslash] @ snd kv"

definition info_string :: "(string \<times> string) list \<Rightarrow> string" where
  "info_string kvs = concat (map pair_string kvs)"

definition wf_pair :: "string \<times> string \<Rightarrow> bool" where
  "wf_pair kv \<longleftrightarrow> backslash \<notin> set (fst kv) \<and> backslash \<notin> set (snd kv) \<and>
     length (fst kv) < INFO_CHARS \<and> length (snd kv) < INFO_CHARS"

definition wf_info :: "(string \<times> string) list \<Rightarrow> bool" where
  "wf_info kvs \<longleftrightarrow> (\<forall>kv \<in> set kvs. wf_pair kv)"

definition value_of :: "(string \<times> string) list \<Rightarrow> string \<Rightarrow> string" where
  "value_of kvs key = (case map_of kvs key of None \<Rightarrow> [] | Some v \<Rightarrow> v)"

fun without :: "string \<Rightarrow> (string \<times> string) list \<Rightarrow> (string \<times> string) list" where
  "without key [] = []"
| "without key (kv # kvs) = (if key = fst kv then kvs else kv # without key kvs)"

lemma info_string_simps [simp]:
  "info_string [] = []"
  "info_string (kv # kvs) = [backslash] @ fst kv @ [backslash] @ snd kv @ info_string kvs"
  by (simp_all add: info_string_def pair_string_def)

lemma parts [simp]:
  "backslash \<notin> set k \<Longrightarrow> info_part (k @ backslash # s) = k"
  "backslash \<notin> set k \<Longrightarrow> info_rest (k @ backslash # s) = backslash # s"
  "backslash \<notin> set k \<Longrightarrow> info_part k = k"
  "backslash \<notin> set k \<Longrightarrow> info_rest k = []"
  by (auto simp: info_part_def info_rest_def takeWhile_append dropWhile_append takeWhile_eq_all_conv
      dropWhile_eq_Nil_conv)

lemma parts_info:
  assumes "backslash \<notin> set v"
  shows "info_part (v @ info_string kvs) = v" "info_rest (v @ info_string kvs) = info_string kvs"
  using assms by (cases kvs; simp)+

lemma get_info_string:
  "wf_info kvs \<Longrightarrow> get_info key (skip_slash (info_string kvs)) = Inr (value_of kvs key)"
proof (induction kvs)
  case Nil
  then show ?case by (subst get_info.simps) (simp add: skip_slash_def value_of_def info_part_def info_rest_def)
next
  case (Cons kv kvs)
  then have kv: "backslash \<notin> set (fst kv)" "backslash \<notin> set (snd kv)" "length (fst kv) < INFO_CHARS" "length (snd kv) < INFO_CHARS"
    by (simp_all add: wf_info_def wf_pair_def)
  have step: "get_info key (skip_slash (info_string (kv # kvs))) =
      (if key = fst kv then Inr (snd kv) else if info_string kvs = [] then Inr [] else get_info key (tl (info_string kvs)))"
    using kv by (subst get_info.simps) (simp add: skip_slash_def parts_info)
  show ?case
  proof (cases "key = fst kv")
    case True
    then show ?thesis using step by (simp add: value_of_def)
  next
    case False
    have vo: "value_of (kv # kvs) key = value_of kvs key" using False by (simp add: value_of_def)
    show ?thesis
    proof (cases kvs)
      case Nil
      then show ?thesis using step False vo by (simp add: value_of_def)
    next
      case (Cons p ps)
      then have "skip_slash (info_string kvs) = tl (info_string kvs)" "info_string kvs \<noteq> []"
        by (simp_all add: skip_slash_def)
      moreover have "wf_info kvs" using Cons.prems by (simp add: wf_info_def)
      ultimately show ?thesis using step False vo Cons.IH by simp
    qed
  qed
qed

lemma delete_info_string:
  "wf_info kvs \<Longrightarrow> delete_info key (info_string kvs) = Inr (info_string (without key kvs))"
proof (induction kvs)
  case Nil
  then show ?case by (subst delete_info.simps) (simp add: skip_slash_def info_part_def info_rest_def)
next
  case (Cons kv kvs)
  then have kv: "backslash \<notin> set (fst kv)" "backslash \<notin> set (snd kv)" "length (fst kv) < INFO_CHARS" "length (snd kv) < INFO_CHARS"
    by (simp_all add: wf_info_def wf_pair_def)
  have step: "delete_info key (info_string (kv # kvs)) =
      (if key = fst kv then Inr (info_string kvs) else if info_string kvs = [] then Inr (info_string (kv # kvs))
       else bindE (delete_info key (info_string kvs)) (\<lambda>r. Inr (pair_string kv @ r)))"
    using kv by (subst delete_info.simps) (simp add: skip_slash_def parts_info pair_string_def)
  show ?case
  proof (cases "key = fst kv")
    case True
    then show ?thesis using step by simp
  next
    case False
    have "wf_info kvs" using Cons.prems by (simp add: wf_info_def)
    then show ?thesis
      using step False Cons.IH by (cases kvs) (simp_all add: pair_string_def)
  qed
qed

lemma value_of_without:
  "distinct (map fst kvs) \<Longrightarrow> value_of (without key kvs) k = (if k = key then [] else value_of kvs k)"
proof (induction kvs)
  case Nil
  then show ?case by (simp add: value_of_def)
next
  case (Cons kv kvs)
  have "map_of kvs (fst kv) = None" using Cons.prems by (simp add: map_of_eq_None_iff)
  then show ?case using Cons by (auto simp: value_of_def)
qed

lemma without_props:
  "wf_info kvs \<Longrightarrow> wf_info (without key kvs)"
  "distinct (map fst kvs) \<Longrightarrow> distinct (map fst (without key kvs)) \<and> key \<notin> fst ` set (without key kvs)"
  "set (without key kvs) \<subseteq> set kvs"
  by (induction kvs) (auto simp: wf_info_def)

definition printable :: "string \<Rightarrow> bool" where
  "printable s \<longleftrightarrow> (\<forall>c \<in> set s. 32 \<le> (of_char c :: nat) \<and> (of_char c :: nat) < 127)"

lemma ascii_printable: "printable s \<Longrightarrow> ascii s = s"
proof -
  assume p: "printable s"
  have "map (\<lambda>c. char_of ((of_char c :: nat) mod 128)) s = s"
    using p by (intro map_idI) (auto simp: printable_def)
  then show ?thesis
    using p by (simp add: ascii_def printable_def filter_id_conv)
qed

text \<open>What \<open>SetUserInfo\<close> accepts as a key or a value.\<close>

definition info_word :: "nat \<Rightarrow> string \<Rightarrow> bool" where
  "info_word n s \<longleftrightarrow> printable s \<and> backslash \<notin> set s \<and> quote \<notin> set s \<and> length s < n"

lemma set_info_string:
  assumes kvs: "wf_info kvs" and key: "info_word MAX_USER_INFO_KEY key" "semicolon \<notin> set key"
    and val: "info_word MAX_USER_INFO_VALUE val"
    and room: "length (info_string (without key kvs)) + length (pair_string (key, val)) < MAX_USER_INFO_STRING"
  shows "SetUserInfo (info_string kvs) key val =
    Inr (info_string (if val = [] then without key kvs else without key kvs @ [(key, val)]))"
proof -
  have w: "printable key" "backslash \<notin> set key" "quote \<notin> set key" "length key < 64"
      "printable val" "backslash \<notin> set val" "quote \<notin> set val" "length val < 64"
    using key(1) val by (simp_all add: info_word_def limits)
  have d: "DeleteUserInfo (info_string kvs) key = Inr (info_string (without key kvs))"
    using delete_info_string [OF kvs] w(2) by (simp add: DeleteUserInfo_def)
  have p: "printable (pair_string (key, val))" using w(1,5) by (auto simp: printable_def pair_string_def)
  have "take (MAX_USER_INFO_STRING - 1) ([backslash] @ key @ [backslash] @ val) = pair_string (key, val)"
    using w(4,8) by (simp add: pair_string_def limits)
  then show ?thesis
    using w key(2) d room ascii_printable [OF p]
    by (simp add: SetUserInfo_def Let_def limits info_string_def)
qed

lemma get_user_info: "wf_info kvs \<Longrightarrow> GetUserInfo (info_string kvs) key = Inr (value_of kvs key)"
  by (simp add: GetUserInfo_def get_info_string)

section \<open>Properties\<close>

text \<open>
  C31: A user-info string implements a map: setting a key to a value that fits changes the value
  that is found under this key, and no other, and the string stays such that this can be
  repeated. An empty value removes the key.
\<close>

theorem set_user_info_updates:
  assumes "wf_info kvs" and "distinct (map fst kvs)"
    and "info_word MAX_USER_INFO_KEY key" "semicolon \<notin> set key" "info_word MAX_USER_INFO_VALUE val"
    and "length (info_string kvs) + length key + length val + 2 < MAX_USER_INFO_STRING"
  shows "\<exists>kvs'. SetUserInfo (info_string kvs) key val = Inr (info_string kvs') \<and> wf_info kvs' \<and> distinct (map fst kvs') \<and>
    (\<forall>k. GetUserInfo (info_string kvs') k = (if k = key then Inr val else GetUserInfo (info_string kvs) k))"
proof -
  let ?kvs' = "if val = [] then without key kvs else without key kvs @ [(key, val)]"
  have shorter: "length (info_string (without key kvs)) \<le> length (info_string kvs)" by (induction kvs) auto
  then have set: "SetUserInfo (info_string kvs) key val = Inr (info_string ?kvs')"
    using assms(6) by (intro set_info_string [OF assms(1,3,4,5)]) (simp add: pair_string_def)
  have wf: "wf_info ?kvs'"
    using without_props(1) [OF assms(1)] assms(3,5)
    by (auto simp: wf_info_def wf_pair_def info_word_def limits)
  have di: "distinct (map fst (without key kvs))" "key \<notin> fst ` set (without key kvs)"
    using without_props(2) [OF assms(2)] by blast+
  have "value_of ?kvs' k = (if k = key then val else value_of kvs k)" for k
  proof (cases "val = []")
    case True
    then show ?thesis using value_of_without [OF assms(2)] by simp
  next
    case False
    have "value_of (without key kvs @ [(key, val)]) k = (if k = key then val else value_of (without key kvs) k)"
      using di(2) by (auto simp: value_of_def map_of_append map_add_def map_of_eq_None_iff [symmetric] split: option.splits)
    then show ?thesis using False value_of_without [OF assms(2)] by simp
  qed
  then have "\<forall>k. GetUserInfo (info_string ?kvs') k = (if k = key then Inr val else GetUserInfo (info_string kvs) k)"
    using get_user_info [OF wf] get_user_info [OF assms(1)] by simp
  moreover have "distinct (map fst ?kvs')" using di by simp
  ultimately show ?thesis using set wf by blast
qed

theorem set_user_info_updates_witness:
  "\<exists>s. SetUserInfo (info_string [(''name'', ''a''), (''rate'', ''8000'')]) ''name'' ''b'' = Inr s \<and>
     GetUserInfo s ''name'' = Inr ''b'' \<and> GetUserInfo s ''rate'' = Inr ''8000''"
proof -
  let ?kvs = "[(''name'', ''a''), (''rate'', ''8000'')]"
  have "wf_info ?kvs" "distinct (map fst ?kvs)" "info_word MAX_USER_INFO_KEY ''name''" "semicolon \<notin> set ''name''"
    "info_word MAX_USER_INFO_VALUE ''b''" "length (info_string ?kvs) + length ''name'' + length ''b'' + 2 < MAX_USER_INFO_STRING"
    by code_simp+
  from set_user_info_updates [OF this] obtain kvs' where
    r: "SetUserInfo (info_string ?kvs) ''name'' ''b'' = Inr (info_string kvs')"
    "\<forall>k. GetUserInfo (info_string kvs') k = (if k = ''name'' then Inr ''b'' else GetUserInfo (info_string ?kvs) k)"
    by blast
  have "GetUserInfo (info_string ?kvs) ''rate'' = Inr ''8000''" by code_simp
  then show ?thesis using r(1) r(2) [rule_format, of "''name''"] r(2) [rule_format, of "''rate''"] by (intro exI [of _ "info_string kvs'"]) simp
qed

end
