(* ===== verification/Cmd_Tokens.thy ===== *)
theory Cmd_Tokens
  imports Info_String
begin

text \<open>
  How command lines are taken apart: \<open>ParseToken\<close> of \<open>src/shared.c\<close>, and
  \<open>Cmd_TokenizeString\<close> of \<open>src/cmd.c\<close> with the arguments it leaves in \<open>cmd_state.args\<close>.
  The value of a console variable is a parameter (\<open>Cvar_GetString\<close>). What has been written
  by quoting the words that need it is read back as these words.
\<close>

section \<open>Tokens\<close>

text \<open>
  The pointer that \<open>ParseToken\<close> moves: null, into a string, or past its terminator, as after
  a quoted token that is not closed.
\<close>

datatype cursor = Null | At string | Past

definition blank :: "char \<Rightarrow> bool" where
  "blank c \<longleftrightarrow> schar c \<le> 32"

abbreviation newline :: char where "newline \<equiv> CHR 0x0A"

definition comment :: "string \<Rightarrow> bool" where
  "comment s \<longleftrightarrow> take 2 s = ''//''"

lemma dropWhile_shorter: "s \<noteq> [] \<Longrightarrow> P (hd s) \<Longrightarrow> length (dropWhile P s) < length s"
  by (cases s) (simp_all add: le_imp_less_Suc length_dropWhile_le)

function skip_white :: "string \<Rightarrow> string" where
  "skip_white s =
     (let t = dropWhile blank s
      in if comment t then skip_white (dropWhile (\<lambda>c. c \<noteq> newline) t) else t)"
  by pat_completeness auto

termination
proof (relation "measure length", goal_cases)
  case 1
  then show ?case by simp
next
  case (2 s t)
  have t: "t \<noteq> []" "hd t = CHR ''/''" using 2(2) by (cases t; simp add: comment_def)+
  have "length (dropWhile (\<lambda>c. c \<noteq> newline) t) < length t" by (rule dropWhile_shorter [OF t(1)]) (simp add: t(2))
  also have "\<dots> \<le> length s" using 2(1) length_dropWhile_le by simp
  finally show ?case by simp
qed

declare skip_white.simps [simp del]

definition ParseToken :: "cursor \<Rightarrow> (string \<times> cursor) result" where
  "ParseToken data = (case data of Null \<Rightarrow> Inr ([], Null) | Past \<Rightarrow> Inl Bad_Access
     | At s \<Rightarrow>
         let t = skip_white s in
         if t = [] then Inr ([], Null)
         else if hd t = quote then
           let body = takeWhile (\<lambda>c. c \<noteq> quote) (tl t); rest = dropWhile (\<lambda>c. c \<noteq> quote) (tl t)
           in if length body \<ge> MAX_TOKEN_CHARS then Inl Bad_Access
              else Inr (body, if rest = [] then Past else At (tl rest))
         else
           let w = hd t # takeWhile (\<lambda>c. \<not> blank c) (tl t)
           in Inr (if length w \<ge> MAX_TOKEN_CHARS then [] else w, At (dropWhile (\<lambda>c. \<not> blank c) (tl t))))"

lemma length_skip_white: "length (skip_white s) \<le> length s"
proof (induction s rule: skip_white.induct)
  case (1 s)
  let ?t = "dropWhile blank s"
  show ?case
  proof (cases "comment ?t")
    case True
    have "length (skip_white (dropWhile (\<lambda>c. c \<noteq> newline) ?t)) \<le> length (dropWhile (\<lambda>c. c \<noteq> newline) ?t)"
      by (rule 1 [OF refl True])
    also have "\<dots> \<le> length ?t" by (rule length_dropWhile_le)
    also have "\<dots> \<le> length s" by (rule length_dropWhile_le)
    finally show ?thesis using True by (subst skip_white.simps) (simp add: Let_def)
  next
    case False
    then show ?thesis by (subst skip_white.simps) (simp add: Let_def length_dropWhile_le)
  qed
qed

lemma ParseToken_shorter: "ParseToken (At s) = Inr (c, At u) \<Longrightarrow> length u < length s"
proof -
  assume p: "ParseToken (At s) = Inr (c, At u)"
  let ?t = "skip_white s"
  have t: "?t \<noteq> []" using p by (auto simp: ParseToken_def Let_def)
  have "length u \<le> length (tl ?t)"
  proof (cases "hd ?t = quote")
    case True
    then have "u = tl (dropWhile (\<lambda>c. c \<noteq> quote) (tl ?t))"
      using p t by (auto simp: ParseToken_def Let_def split: if_splits)
    then show ?thesis using length_dropWhile_le [of "\<lambda>c. c \<noteq> quote" "tl ?t"] by simp
  next
    case False
    then have "u = dropWhile (\<lambda>c. \<not> blank c) (tl ?t)"
      using p t by (auto simp: ParseToken_def Let_def split: if_splits)
    then show ?thesis using length_dropWhile_le [of "\<lambda>c. \<not> blank c" "tl ?t"] by simp
  qed
  also have "\<dots> < length ?t" using t by (cases ?t) simp_all
  also have "\<dots> \<le> length s" by (rule length_skip_white)
  finally show ?thesis .
qed

section \<open>Command lines\<close>

text \<open>\<open>argc\<close> is the length of \<open>argv\<close>.\<close>

record cmd_args =
  argv :: "string list"
  args :: string

definition no_args :: cmd_args where
  "no_args = \<lparr>argv = [], args = []\<rparr>"

definition Cmd_Argc :: "cmd_args \<Rightarrow> nat" where
  "Cmd_Argc a = length (argv a)"

definition Cmd_Argv :: "cmd_args \<Rightarrow> nat \<Rightarrow> string" where
  "Cmd_Argv a n = (if n \<ge> Cmd_Argc a then [] else argv a ! n)"

definition Cmd_Args :: "cmd_args \<Rightarrow> string" where
  "Cmd_Args a = args a"

text \<open>\<open>g_strlcpy\<close>\<close>

definition strlcpy :: "string \<Rightarrow> nat \<Rightarrow> string" where
  "strlcpy s n = take (n - 1) s"

definition strip_blanks :: "string \<Rightarrow> string" where
  "strip_blanks s = rev (dropWhile blank (rev s))"

function tokenize :: "(string \<Rightarrow> string) \<Rightarrow> string \<Rightarrow> cmd_args \<Rightarrow> cmd_args result" where
  "tokenize cvar_string s a =
     (if Cmd_Argc a = MAX_STRING_TOKENS then Inr a
      else
        let t = dropWhile (\<lambda>c. blank c \<and> c \<noteq> newline) s
        in if t = [] \<or> hd t = newline then Inr a
           else
             let a = (if Cmd_Argc a = 1 then a\<lparr>args := strip_blanks (strlcpy t MAX_STRING_CHARS)\<rparr> else a)
             in (case ParseToken (At t) of Inl e \<Rightarrow> Inl e
                 | Inr (c, next) \<Rightarrow>
                     if c = [] then Inr a
                     else
                       let c = (if hd c = CHR ''$'' \<and> Cmd_Argv a 0 \<noteq> ''alias'' then cvar_string (tl c) else c);
                           a = a\<lparr>argv := argv a @ [strlcpy c MAX_TOKEN_CHARS]\<rparr>
                       in (case next of
                             At u \<Rightarrow> tokenize cvar_string u a
                           | Null \<Rightarrow> Inl Bad_Access
                           | Past \<Rightarrow> if Cmd_Argc a = MAX_STRING_TOKENS then Inr a else Inl Bad_Access)))"
  by pat_completeness auto

termination
proof (relation "measure (\<lambda>(_, s, _). length s)", goal_cases)
  case 1
  then show ?case by simp
next
  case (2 cvar_string s a t a' r c k c' a'' u)
  have "length u < length t" using 2(4-) ParseToken_shorter [of t c u] by simp
  moreover have "length t \<le> length s" using 2(2) by (simp add: length_dropWhile_le)
  ultimately show ?case by simp
qed

declare tokenize.simps [simp del]

definition Cmd_TokenizeString :: "(string \<Rightarrow> string) \<Rightarrow> string option \<Rightarrow> cmd_args result" where
  "Cmd_TokenizeString cvar_string txt =
     (case txt of None \<Rightarrow> Inr no_args
      | Some s \<Rightarrow> if length s \<ge> MAX_STRING_CHARS then Inr no_args else tokenize cvar_string s no_args)"

section \<open>Writing command lines\<close>

text \<open>A word, quoted unless it is plain, and words with blanks in between.\<close>

definition plain :: "string \<Rightarrow> bool" where
  "plain w \<longleftrightarrow> (\<forall>c \<in> set w. \<not> blank c) \<and> \<not> comment w"

definition quoted :: "string \<Rightarrow> string" where
  "quoted w = (if plain w then w else [quote] @ w @ [quote])"

fun line_of :: "string list \<Rightarrow> string" where
  "line_of [] = []"
| "line_of [w] = quoted w"
| "line_of (w # v # ws) = quoted w @ CHR '' '' # line_of (v # ws)"

definition wf_word :: "string \<Rightarrow> bool" where
  "wf_word w \<longleftrightarrow> w \<noteq> [] \<and> quote \<notin> set w \<and> hd w \<noteq> CHR ''$'' \<and> length w < MAX_TOKEN_CHARS"

lemma quote_not_blank [simp]: "\<not> blank quote" "quote \<noteq> newline" "blank (CHR '' '')" "blank newline"
  by (simp_all add: blank_def schar_def)

lemma quoted_first:
  assumes "wf_word w"
  shows "quoted w \<noteq> []" "\<not> blank (hd (quoted w))" "\<not> blank (last (quoted w))"
  using assms by (auto simp: quoted_def plain_def wf_word_def)

lemma line_of_first:
  assumes "ws \<noteq> []" and "\<forall>w \<in> set ws. wf_word w"
  shows "line_of ws \<noteq> []" "\<not> blank (hd (line_of ws))" "\<not> blank (last (line_of ws))"
proof -
  have "line_of ws \<noteq> [] \<and> \<not> blank (hd (line_of ws)) \<and> \<not> blank (last (line_of ws))"
    using assms
  proof (induction ws rule: line_of.induct)
    case (3 w v ws)
    then show ?case using quoted_first [of w] by simp
  qed (use quoted_first in auto)
  then show "line_of ws \<noteq> []" "\<not> blank (hd (line_of ws))" "\<not> blank (last (line_of ws))" by blast+
qed

lemma not_comment_quoted:
  assumes "wf_word w" and that: "s = [] \<or> blank (hd s)"
  shows "\<not> comment (quoted w @ s)"
proof (cases "plain w")
  case True
  have w: "w \<noteq> []" "\<not> comment w" using assms True by (simp_all add: wf_word_def plain_def)
  show ?thesis
  proof (cases "length w \<ge> 2")
    case True
    then show ?thesis using w \<open>plain w\<close> by (simp add: quoted_def comment_def)
  next
    case False
    then obtain c where c: "w = [c]" using w(1) by (cases w) (auto simp: numeral_2_eq_2 Suc_le_eq)
    show ?thesis using that \<open>plain w\<close> c
      by (cases s) (auto simp: quoted_def comment_def blank_def schar_def)
  qed
next
  case False
  then show ?thesis by (simp add: quoted_def comment_def)
qed

lemma ParseToken_quoted:
  assumes w: "wf_word w" and s: "s = [] \<or> blank (hd s)"
  shows "ParseToken (At (quoted w @ s)) = Inr (w, At s)"
proof -
  have "dropWhile blank (quoted w @ s) = quoted w @ s"
    using quoted_first [OF w] by (cases "quoted w") simp_all
  then have sw: "skip_white (quoted w @ s) = quoted w @ s"
    using not_comment_quoted [OF w s] by (subst skip_white.simps) (simp add: Let_def)
  show ?thesis
  proof (cases "plain w")
    case True
    then obtain c cs where c: "w = c # cs" "quoted w = c # cs" "c \<noteq> quote" "\<forall>c \<in> set cs. \<not> blank c"
      using w by (cases w) (auto simp: wf_word_def quoted_def plain_def)
    have "takeWhile (\<lambda>c. \<not> blank c) (cs @ s) = cs" "dropWhile (\<lambda>c. \<not> blank c) (cs @ s) = s"
      using c(4) s by (cases s; auto simp: takeWhile_append dropWhile_append takeWhile_eq_all_conv dropWhile_eq_Nil_conv)+
    then show ?thesis using sw w c by (simp add: ParseToken_def Let_def wf_word_def)
  next
    case False
    have q: "quote \<notin> set w" using w by (simp add: wf_word_def)
    have "takeWhile (\<lambda>c. c \<noteq> quote) (w @ quote # s) = w" "dropWhile (\<lambda>c. c \<noteq> quote) (w @ quote # s) = quote # s"
      using q by (auto simp: takeWhile_append dropWhile_append takeWhile_eq_all_conv dropWhile_eq_Nil_conv)
    then show ?thesis using sw w False by (simp add: ParseToken_def Let_def wf_word_def quoted_def)
  qed
qed

lemma strip_line:
  assumes "ws \<noteq> []" and "\<forall>w \<in> set ws. wf_word w"
  shows "strip_blanks (line_of ws) = line_of ws"
proof -
  have "rev (line_of ws) \<noteq> []" "\<not> blank (hd (rev (line_of ws)))"
    using line_of_first [OF assms] by (simp_all add: hd_rev)
  then have "dropWhile blank (rev (line_of ws)) = rev (line_of ws)"
    by (cases "rev (line_of ws)") simp_all
  then show ?thesis by (simp add: strip_blanks_def)
qed

text \<open>The arguments after the words \<open>ws\<close> have been read, \<open>n\<close> words having been read before.\<close>

definition args_after :: "nat \<Rightarrow> string list \<Rightarrow> string \<Rightarrow> string" where
  "args_after n ws s = (if n = 0 then (if length ws \<ge> 2 then line_of (tl ws) else s)
     else if n = 1 \<and> ws \<noteq> [] then line_of ws else s)"

lemma tokenize_line:
  assumes "\<forall>w \<in> set ws. wf_word w" and "Cmd_Argc a + length ws \<le> MAX_STRING_TOKENS"
    and "length (line_of ws) < MAX_STRING_CHARS"
  shows "tokenize cvar_string (line_of ws) a = Inr \<lparr>argv = argv a @ ws, args = args_after (Cmd_Argc a) ws (args a)\<rparr>"
  using assms
proof (induction ws arbitrary: a rule: line_of.induct)
  case 1
  then show ?case by (subst tokenize.simps) (simp add: args_after_def)
next
  case (2 w)
  have w: "wf_word w" using "2.prems" by simp
  have len: "length (quoted w) < MAX_STRING_CHARS" using "2.prems" by simp
  have d: "dropWhile (\<lambda>c. blank c \<and> c \<noteq> newline) (quoted w) = quoted w" "hd (quoted w) \<noteq> newline" "quoted w \<noteq> []"
    using quoted_first [OF w] by (cases "quoted w"; auto)+
  have args: "strip_blanks (strlcpy (quoted w) MAX_STRING_CHARS) = quoted w"
    using strip_line [of "[w]"] w len by (simp add: strlcpy_def)
  have p: "ParseToken (At (quoted w)) = Inr (w, At [])" using ParseToken_quoted [OF w, of "[]"] by simp
  have ww: "w \<noteq> []" "hd w \<noteq> CHR ''$''" "strlcpy w MAX_TOKEN_CHARS = w"
    using w by (auto simp: wf_word_def strlcpy_def)
  have fin: "tokenize cvar_string [] b = Inr b" for b by (subst tokenize.simps) simp
  have room: "Cmd_Argc a \<noteq> MAX_STRING_TOKENS" using "2.prems" by simp
  show ?case
    using room d args p ww fin
    by (subst tokenize.simps) (simp add: Let_def args_after_def Cmd_Argc_def)
next
  case (3 w v ws)
  have w: "wf_word w" and vs: "\<forall>w \<in> set (v # ws). wf_word w" using "3.prems" by simp_all
  let ?l = "line_of (w # v # ws)" and ?s = "CHR '' '' # line_of (v # ws)"
  have d: "dropWhile (\<lambda>c. blank c \<and> c \<noteq> newline) ?l = ?l" "hd ?l \<noteq> newline" "?l \<noteq> []"
    using line_of_first [of "w # v # ws"] "3.prems"(1) by (cases ?l; auto)+
  have args: "strip_blanks (strlcpy ?l MAX_STRING_CHARS) = ?l"
    using strip_line [of "w # v # ws"] "3.prems"(1,3) by (simp add: strlcpy_def)
  have p: "ParseToken (At ?l) = Inr (w, At ?s)" using ParseToken_quoted [OF w, of ?s] by simp
  have ww: "w \<noteq> []" "hd w \<noteq> CHR ''$''" "strlcpy w MAX_TOKEN_CHARS = w"
    using w by (auto simp: wf_word_def strlcpy_def)
  have room: "Cmd_Argc a \<noteq> MAX_STRING_TOKENS" using "3.prems"(2) by simp
  let ?a = "(if Cmd_Argc a = 1 then a\<lparr>args := ?l\<rparr> else a)\<lparr>argv := argv a @ [w]\<rparr>"
  have step: "tokenize cvar_string ?l a = tokenize cvar_string ?s ?a"
    using room d args p ww by (subst tokenize.simps) (simp add: Let_def)
  have skip: "tokenize cvar_string ?s b = tokenize cvar_string (line_of (v # ws)) b" for b
  proof -
    have "dropWhile (\<lambda>c. blank c \<and> c \<noteq> newline) ?s = dropWhile (\<lambda>c. blank c \<and> c \<noteq> newline) (line_of (v # ws))" by simp
    then show ?thesis
      by (subst (1 2) tokenize.simps) (simp only: Let_def)
  qed
  have "tokenize cvar_string (line_of (v # ws)) ?a = Inr \<lparr>argv = argv ?a @ (v # ws), args = args_after (Cmd_Argc ?a) (v # ws) (args ?a)\<rparr>"
    using vs "3.prems"(2,3) by (intro "3.IH") (simp_all add: Cmd_Argc_def)
  then show ?case
    unfolding step skip by (simp add: args_after_def Cmd_Argc_def)
qed

section \<open>Properties\<close>

text \<open>
  C30: A command line round-trips: words without quotes that are written one behind the other,
  each in quotes if it has blanks in it or would start a comment, are the arguments that
  \<open>Cmd_TokenizeString\<close> finds, in order, and \<open>Cmd_Args\<close> is the line without the first of
  them, as long as there are at most 128 of them, in fewer than 1024 characters.
\<close>

theorem command_line_roundtrip:
  assumes "\<forall>w \<in> set ws. wf_word w" and "length ws \<le> MAX_STRING_TOKENS" and "length (line_of ws) < MAX_STRING_CHARS"
  shows "\<exists>a. Cmd_TokenizeString cvar_string (Some (line_of ws)) = Inr a \<and> Cmd_Argc a = length ws \<and>
    (\<forall>n < length ws. Cmd_Argv a n = ws ! n) \<and> Cmd_Args a = (if length ws \<ge> 2 then line_of (tl ws) else [])"
proof -
  have "Cmd_TokenizeString cvar_string (Some (line_of ws)) = tokenize cvar_string (line_of ws) no_args"
    using assms(3) by (simp add: Cmd_TokenizeString_def)
  also have "\<dots> = Inr \<lparr>argv = ws, args = args_after 0 ws []\<rparr>"
    using tokenize_line [OF assms(1) _ assms(3), of no_args] assms(2) by (simp add: no_args_def Cmd_Argc_def)
  finally show ?thesis by (simp add: Cmd_Argc_def Cmd_Argv_def Cmd_Args_def args_after_def)
qed

theorem command_line_roundtrip_witness:
  "\<exists>a. Cmd_TokenizeString (\<lambda>_. []) (Some (line_of [''say'', ''hello world'', ''//x''])) = Inr a \<and>
     Cmd_Argc a = 3 \<and> Cmd_Argv a 1 = ''hello world''"
proof -
  have "\<forall>w \<in> set [''say'', ''hello world'', ''//x'']. wf_word w" by code_simp
  moreover have "length (line_of [''say'', ''hello world'', ''//x'']) < MAX_STRING_CHARS" by code_simp
  ultimately obtain a where "Cmd_TokenizeString (\<lambda>_. []) (Some (line_of [''say'', ''hello world'', ''//x''])) = Inr a"
    "Cmd_Argc a = 3" "\<forall>n < 3. Cmd_Argv a n = [''say'', ''hello world'', ''//x''] ! n"
    using command_line_roundtrip [of "[''say'', ''hello world'', ''//x'']" "\<lambda>_. []"]
    by (auto simp: MAX_STRING_TOKENS_def numeral_3_eq_3 simp del: line_of.simps)
  then show ?thesis by (intro exI [of _ a]) simp
qed

end
