(* ===== verification/Sv_Send.thy ===== *)
theory Sv_Send
  imports Sv_BuildFrame Net_Channel Cmd_Tokens
begin

text \<open>
  The clients of the server (\<open>src/server/sv_types.h\<close>), and what is sent to them
  (\<open>src/server/sv_send.c\<close>): prints, multicasts, the frame of every client with its pending
  messages in packets, and demos. \<open>sv_run\<close> is what of \<open>sv\<close> and \<open>svs\<close> this concerns;
  \<open>packets_out\<close> records what has been handed to \<open>Net_SendDatagram\<close>. The game module is
  reached through the functions it exports, which are parameters (\<open>game_export\<close>).
  Formatted strings are passed in; console output is left out.
\<close>

section \<open>Types\<close>

datatype sv_state = SV_UNINITIALIZED | SV_LOADING | SV_ACTIVE_GAME | SV_ACTIVE_DEMO

datatype sv_client_state = SV_CLIENT_FREE | SV_CLIENT_CONNECTED | SV_CLIENT_ACTIVE

record sv_client_message =
  msg_offset :: nat
  msg_len :: nat

record sv_client_datagram =
  dg_buffer :: mem_buf
  dg_messages :: "sv_client_message list"

record sv_download =
  dl_buffer :: "byte list option"
  dl_size :: int
  dl_count :: int

text \<open>\<open>sv_client_t\<close>; the fields that the frame code uses are in \<open>conn_frames\<close>.\<close>

record conn =
  conn_state :: sv_client_state
  user_info :: string
  conn_frames :: sv_client
  last_cmd :: user_cmd
  cmd_msec :: uint32
  cmd_msec_errors :: uint16
  frame_latency :: "uint32 list"
  message_size :: "uint32 list"
  rate :: uint32
  conn_edict :: nat
  conn_name :: string
  message_level :: int
  datagram :: sv_client_datagram
  download :: sv_download
  last_message :: uint32
  chan :: net_chan

record sv_run =
  svs_initialized :: bool
  run_state :: sv_state
  statics :: sv_static
  multicast :: mem_buf
  max_clients :: nat
  conns :: "conn list"
  run_bsp :: c_bsp
  run_vis :: bsp_vis
  run_areas :: bsp_areas
  run_rows :: vis_rows
  config_strings :: "string list"
  demo_file :: "byte list option"
  packets_out :: "(net_addr \<times> byte list) list"
  time_now :: uint32

text \<open>
  What the game exports for a client that leaves, by the number of its edict. The game may
  call back into the server: it prints, multicasts and sets config strings.
\<close>

record game_export =
  ClientDisconnect :: "nat \<Rightarrow> sv_run \<Rightarrow> sv_run result"

definition MAX_FRAME_SIZE :: nat where "MAX_FRAME_SIZE = 8192"
definition CLIENT_RATE_MESSAGES :: nat where "CLIENT_RATE_MESSAGES = 10"
definition CLIENT_LATENCY_COUNTS :: nat where "CLIENT_LATENCY_COUNTS = 16"
definition MAX_CONFIG_STRINGS :: nat where "MAX_CONFIG_STRINGS = 1357"
definition SV_CMD_CBUF_TEXT :: int where "SV_CMD_CBUF_TEXT = 2"
definition SV_CMD_CONFIG_STRING :: int where "SV_CMD_CONFIG_STRING = 3"
definition SV_CMD_DISCONNECT :: int where "SV_CMD_DISCONNECT = 4"
definition SV_CMD_PRINT :: int where "SV_CMD_PRINT = 7"
definition SV_CMD_RECONNECT :: int where "SV_CMD_RECONNECT = 8"
definition SV_CMD_SOUND :: int where "SV_CMD_SOUND = 10"
definition PRINT_HIGH :: int where "PRINT_HIGH = 2"

declare MAX_FRAME_SIZE_def [limits] CLIENT_RATE_MESSAGES_def [limits] CLIENT_LATENCY_COUNTS_def [limits]

text \<open>\<open>vsprintf\<close> into \<open>char string[MAX_STRING_CHARS]\<close>\<close>

definition formatted :: "string \<Rightarrow> string result" where
  "formatted s = (if length s \<ge> MAX_STRING_CHARS then Inl Bad_Access else Inr s)"

section \<open>Access to the clients\<close>

definition set_conn :: "nat \<Rightarrow> conn \<Rightarrow> sv_run \<Rightarrow> sv_run" where
  "set_conn i c s = s\<lparr>conns := (conns s)[i := c]\<rparr>"

definition with_conn :: "nat \<Rightarrow> (conn \<Rightarrow> conn result) \<Rightarrow> sv_run \<Rightarrow> sv_run result" where
  "with_conn i f s =
     bindE (at_index (conns s) (int i)) (\<lambda>c. bindE (f c) (\<lambda>c. Inr (set_conn i c s)))"

text \<open>Writing to \<open>net_chan.message\<close>, the reliable message that is being composed.\<close>

definition write_message :: "(mem_buf \<Rightarrow> mem_buf result) list \<Rightarrow> conn \<Rightarrow> conn result" where
  "write_message ws c =
     bindE (run_seq ws (message (chan c))) (\<lambda>b. Inr (c\<lparr>chan := (chan c)\<lparr>message := b\<rparr>\<rparr>))"

text \<open>\<open>Netchan_Transmit\<close> on the channel of a client.\<close>

definition transmit :: "nat \<Rightarrow> byte list \<Rightarrow> sv_run \<Rightarrow> sv_run result" where
  "transmit i bytes s =
     bindE (at_index (conns s) (int i)) (\<lambda>c.
     bindE (Netchan_Transmit (time_now s) (chan c) bytes) (\<lambda>(ch, sent).
       Inr ((set_conn i (c\<lparr>chan := ch\<rparr>) s)\<lparr>packets_out := packets_out s @
              (case sent of None \<Rightarrow> [] | Some d \<Rightarrow> [(remote_address ch, d)])\<rparr>)))"

section \<open>Prints\<close>

definition print_to :: "int \<Rightarrow> string \<Rightarrow> conn \<Rightarrow> conn result" where
  "print_to level str =
     write_message [Net_WriteByte SV_CMD_PRINT, Net_WriteByte level, Net_WriteString (Some str)]"

definition Sv_ClientPrint :: "nat \<Rightarrow> int \<Rightarrow> string \<Rightarrow> sv_run \<Rightarrow> sv_run result" where
  "Sv_ClientPrint n level str s =
     (if n < 1 \<or> n > max_clients s then Inr s
      else bindE (at_index (conns s) (int n - 1)) (\<lambda>cl.
        if conn_state cl \<noteq> SV_CLIENT_ACTIVE then Inr s
        else if level < message_level cl then Inr s
        else bindE (formatted str) (\<lambda>str. with_conn (n - 1) (print_to level str) s)))"

definition Sv_BroadcastPrint :: "int \<Rightarrow> string \<Rightarrow> sv_run \<Rightarrow> sv_run result" where
  "Sv_BroadcastPrint level str s =
     bindE (formatted str) (\<lambda>str.
       run_seq (map (\<lambda>i. with_conn i (\<lambda>cl.
           if level < message_level cl then Inr cl
           else if conn_state cl \<noteq> SV_CLIENT_ACTIVE then Inr cl
           else print_to level str cl)) [0 ..< max_clients s]) s)"

section \<open>Multicasts\<close>

definition Sv_DatagramMessage :: "byte list \<Rightarrow> sv_client_datagram \<Rightarrow> sv_client_datagram result" where
  "Sv_DatagramMessage bytes d =
     (if length bytes > MAX_MSG_SIZE then Inl (Err_Drop ''Single datagram message exceeded MAX_MSG_LEN'')
      else bindE (Mem_WriteBuffer bytes (dg_buffer d)) (\<lambda>b.
        Inr (d\<lparr>dg_buffer := b,
               dg_messages := dg_messages d @ [\<lparr>msg_offset = buf_size b - length bytes, msg_len = length bytes\<rparr>]\<rparr>)))"

definition send_multicast :: "bool \<Rightarrow> byte list \<Rightarrow> conn \<Rightarrow> conn result" where
  "send_multicast reliable bytes c =
     (if reliable then write_message [Mem_WriteBuffer bytes] c
      else bindE (Sv_DatagramMessage bytes (datagram c)) (\<lambda>d. Inr (c\<lparr>datagram := d\<rparr>)))"

definition clear_multicast :: "sv_run \<Rightarrow> sv_run" where
  "clear_multicast s = s\<lparr>multicast := Mem_ClearBuffer (multicast s)\<rparr>"

text \<open>\<open>None\<close> is a null pointer.\<close>

definition Sv_Unicast :: "nat option \<Rightarrow> bool \<Rightarrow> sv_run \<Rightarrow> sv_run result" where
  "Sv_Unicast ent reliable s =
     (case ent of None \<Rightarrow> Inr s
      | Some n \<Rightarrow>
          if ed_ai (svs_edicts (statics s) n) then Inr s
          else if n < 1 \<or> n > max_clients s then Inr s
          else bindE (with_conn (n - 1) (send_multicast reliable (contents (multicast s))) s)
                 (\<lambda>s. Inr (clear_multicast s)))"

datatype multicast_t = MULTICAST_ALL | MULTICAST_PHS | MULTICAST_PVS
  | MULTICAST_ALL_R | MULTICAST_PHS_R | MULTICAST_PVS_R

definition is_reliable :: "multicast_t \<Rightarrow> bool" where
  "is_reliable to \<longleftrightarrow> to \<in> {MULTICAST_ALL_R, MULTICAST_PHS_R, MULTICAST_PVS_R}"

text \<open>The row that masks the clients, for a multicast that is not to all.\<close>

definition multicast_mask :: "multicast_t \<Rightarrow> vec3_t \<Rightarrow> sv_run \<Rightarrow> ((int \<times> byte list) option \<times> sv_run) run" where
  "multicast_mask to org s =
     (if to \<in> {MULTICAST_ALL, MULTICAST_ALL_R} then Some (Inr (None, s))
      else bindO (Cm_PointLeafnum (run_bsp s) org) (\<lambda>leaf.
           bindO (Some (Cm_LeafArea (run_bsp s) leaf)) (\<lambda>area.
           bindO (Some (Cm_LeafCluster (run_bsp s) leaf)) (\<lambda>cluster.
             if to \<in> {MULTICAST_PHS, MULTICAST_PHS_R}
             then bindO (Some (Cm_ClusterPHS (run_vis s) cluster (phs_row (run_rows s)))) (\<lambda>row.
                    Some (Inr (Some (area, row), s\<lparr>run_rows := (run_rows s)\<lparr>phs_row := row\<rparr>\<rparr>)))
             else bindO (Some (Cm_ClusterPVS (run_vis s) cluster (pvs_row (run_rows s)))) (\<lambda>row.
                    Some (Inr (Some (area, row), s\<lparr>run_rows := (run_rows s)\<lparr>pvs_row := row\<rparr>\<rparr>)))))))"

text \<open>\<open>VectorCopy\<close>, \<open>VectorAdd\<close> and \<open>VectorScale\<close> of the short vectors\<close>

definition listener :: "pm_state \<Rightarrow> vec3_t" where
  "listener pm =
     (let ear = (\<lambda>(a :: int16) (b :: int16). flt (flt (of_int (sint a) + of_int (sint b)) * (1 / 8)))
      in Vec3 (ear (vx (pm_origin pm)) (vx (pm_view_offset pm))) (ear (vy (pm_origin pm)) (vy (pm_view_offset pm)))
           (ear (vz (pm_origin pm)) (vz (pm_view_offset pm))))"

definition in_mask :: "c_bsp \<Rightarrow> bsp_areas \<Rightarrow> int \<Rightarrow> byte list \<Rightarrow> pm_state \<Rightarrow> bool run" where
  "in_mask bsp ar area1 row pm =
     bindO (Cm_PointLeafnum bsp (listener pm)) (\<lambda>leaf.
     bindO (Some (Cm_LeafCluster bsp leaf)) (\<lambda>cluster.
     bindO (Some (Cm_LeafArea bsp leaf)) (\<lambda>area2.
     bindO (Some (Cm_AreasConnected ar area1 area2)) (\<lambda>connected.
       if \<not> connected then Some (Inr False)
       else bindO (Some (at_index row (cluster div 8))) (\<lambda>b. Some (Inr (bit b (nat (cluster mod 8)))))))))"

definition multicast_to :: "multicast_t \<Rightarrow> (int \<times> byte list) option \<Rightarrow> nat \<Rightarrow> sv_run \<Rightarrow> sv_run run" where
  "multicast_to to cover j s =
     bindO (Some (at_index (conns s) (int j))) (\<lambda>c.
       let ed = svs_edicts (statics s) (conn_edict c) in
       if conn_state c = SV_CLIENT_FREE then Some (Inr s)
       else if conn_state c \<noteq> SV_CLIENT_ACTIVE \<and> \<not> is_reliable to then Some (Inr s)
       else if ed_ai ed then Some (Inr s)
       else bindO (case cover of None \<Rightarrow> Some (Inr True)
                   | Some (area, row) \<Rightarrow>
                       (case ed_player ed of None \<Rightarrow> Some (Inl Bad_Access)
                        | Some ps \<Rightarrow> in_mask (run_bsp s) (run_areas s) area row (player_pm ps))) (\<lambda>sends.
         if sends then Some (with_conn j (send_multicast (is_reliable to) (contents (multicast s))) s)
         else Some (Inr s)))"

fun multicast_loop :: "multicast_t \<Rightarrow> (int \<times> byte list) option \<Rightarrow> nat list \<Rightarrow> sv_run \<Rightarrow> sv_run run" where
  "multicast_loop to cover [] s = Some (Inr s)"
| "multicast_loop to cover (j # js) s = bindO (multicast_to to cover j s) (multicast_loop to cover js)"

definition Sv_Multicast :: "vec3_t \<Rightarrow> multicast_t \<Rightarrow> sv_run \<Rightarrow> sv_run run" where
  "Sv_Multicast org to s =
     bindO (multicast_mask to org s) (\<lambda>(cover, s).
     bindO (multicast_loop to cover [0 ..< max_clients s] s) (\<lambda>s. Some (Inr (clear_multicast s))))"

definition Sv_BroadcastCommand :: "string \<Rightarrow> sv_run \<Rightarrow> sv_run run" where
  "Sv_BroadcastCommand str s =
     (if run_state s = SV_UNINITIALIZED then Some (Inr s)
      else bindO (Some (formatted str)) (\<lambda>str.
           bindO (Some (run_seq [Net_WriteByte SV_CMD_CBUF_TEXT, Net_WriteString (Some str)] (multicast s))) (\<lambda>b.
             Sv_Multicast (Vec3 0 0 0) MULTICAST_ALL_R (s\<lparr>multicast := b\<rparr>))))"

section \<open>Sounds\<close>

definition ATTEN_NONE :: uint16 where "ATTEN_NONE = 0"
definition ATTEN_STATIC :: uint16 where "ATTEN_STATIC = 3"
definition ATTEN_DEFAULT :: uint16 where "ATTEN_DEFAULT = 1"
definition S_ATTEN :: uint32 where "S_ATTEN = 1"
definition S_ORIGIN :: uint32 where "S_ORIGIN = 2"
definition S_ENTNUM :: uint32 where "S_ENTNUM = 4"

definition sound_flags :: "vec3_t option \<Rightarrow> nat \<Rightarrow> edict \<Rightarrow> uint16 \<Rightarrow> uint32" where
  "sound_flags org n ed att =
     (if att \<noteq> ATTEN_DEFAULT then S_ATTEN else 0) OR
     (if sv_flags ed AND SVF_NO_CLIENT \<noteq> 0 \<or> ed_solid ed = SOLID_BSP \<or> org \<noteq> None then S_ORIGIN else 0) OR
     (if sv_flags ed AND SVF_NO_CLIENT = 0 \<and> n \<noteq> 0 then S_ENTNUM else 0)"

text \<open>\<open>origin + 0.5 * (mins + maxs)\<close>, of which the sums are of floats and doubles\<close>

definition sound_origin :: "vec3_t option \<Rightarrow> edict \<Rightarrow> vec3_t" where
  "sound_origin org ed =
     (let mid = (\<lambda>o' a b. flt (dbl (o' + flt (a + b) / 2))); s = ed_s ed
      in case org of Some v \<Rightarrow> v
         | None \<Rightarrow> (if ed_solid ed = SOLID_BSP
             then Vec3 (mid (vx (origin s)) (vx (ed_mins ed)) (vx (ed_maxs ed)))
                       (mid (vy (origin s)) (vy (ed_mins ed)) (vy (ed_maxs ed)))
                       (mid (vz (origin s)) (vz (ed_mins ed)) (vz (ed_maxs ed)))
             else origin s))"

definition Sv_PositionedSound :: "vec3_t option \<Rightarrow> nat \<Rightarrow> uint16 \<Rightarrow> uint16 \<Rightarrow> sv_run \<Rightarrow> sv_run run" where
  "Sv_PositionedSound org n index atten s =
     (let ed = svs_edicts (statics s) n;
          att = (if atten > ATTEN_STATIC then ATTEN_DEFAULT else atten);
          flags = sound_flags org n ed att;
          pos = sound_origin org ed
      in bindO (Some (run_seq
           [Net_WriteByte SV_CMD_SOUND, Net_WriteByte (uint flags), Net_WriteByte (uint index),
            when_do (flags AND S_ATTEN \<noteq> 0) (Net_WriteByte (uint att)),
            when_do (flags AND S_ENTNUM \<noteq> 0) (Net_WriteShort (int n)),
            when_do (flags AND S_ORIGIN \<noteq> 0) (Net_WritePosition pos)] (multicast s))) (\<lambda>b.
           Sv_Multicast pos (if atten \<noteq> ATTEN_NONE then MULTICAST_PHS else MULTICAST_ALL) (s\<lparr>multicast := b\<rparr>)))"

text \<open>\<open>None\<close> is a null pointer.\<close>

definition Sv_Sound :: "nat option \<Rightarrow> uint16 \<Rightarrow> uint16 \<Rightarrow> sv_run \<Rightarrow> sv_run run" where
  "Sv_Sound ent index atten s =
     (case ent of None \<Rightarrow> Some (Inr s) | Some n \<Rightarrow> Sv_PositionedSound None n index atten s)"

section \<open>Config strings\<close>

definition Sv_ConfigString :: "nat \<Rightarrow> string option \<Rightarrow> sv_run \<Rightarrow> sv_run run" where
  "Sv_ConfigString index val s =
     (let val = (case val of None \<Rightarrow> [] | Some v \<Rightarrow> v) in
      if index \<ge> MAX_CONFIG_STRINGS then Some (Inr s)
      else bindO (Some (at_index (config_strings s) (int index))) (\<lambda>old.
        if old = val then Some (Inr s)
        else
          let s = s\<lparr>config_strings := (config_strings s)[index := strlcpy val MAX_STRING_CHARS]\<rparr> in
          if run_state s = SV_LOADING then Some (Inr s)
          else bindO (Some (run_seq [Net_WriteByte SV_CMD_CONFIG_STRING, Net_WriteShort (int index), Net_WriteString (Some val)]
                 (Mem_ClearBuffer (multicast s)))) (\<lambda>b.
               Sv_Multicast (Vec3 0 0 0) MULTICAST_ALL_R (s\<lparr>multicast := b\<rparr>))))"

section \<open>Frames\<close>

definition Sv_BuildClientFrame_for :: "nat \<Rightarrow> sv_run \<Rightarrow> sv_run run" where
  "Sv_BuildClientFrame_for i s =
     bindO (Some (at_index (conns s) (int i))) (\<lambda>c.
     bindO (Sv_BuildClientFrame (run_bsp s) (run_vis s) (run_areas s) (conn_edict c) (run_rows s) (statics s) (conn_frames c))
       (\<lambda>(rows, st, cl). Some (Inr ((set_conn i (c\<lparr>conn_frames := cl\<rparr>) s)\<lparr>run_rows := rows, statics := st\<rparr>))))"

text \<open>The messages of the datagram buffer, each after the frame or in a packet of its own.\<close>

definition FRAME_ROOM :: nat where "FRAME_ROOM = MAX_MSG_SIZE - 16"

declare FRAME_ROOM_def [limits]

fun packetize :: "nat \<Rightarrow> byte list \<Rightarrow> sv_client_message list \<Rightarrow> mem_buf \<Rightarrow> sv_run \<Rightarrow> (mem_buf \<times> sv_run) result" where
  "packetize i bytes [] msg s = Inr (msg, s)"
| "packetize i bytes (m # ms) msg s =
     bindE (if buf_size msg + msg_len m > FRAME_ROOM
            then bindE (transmit i (contents msg) s) (\<lambda>s. Inr (Mem_ClearBuffer msg, s))
            else Inr (msg, s)) (\<lambda>(msg, s).
       if msg_offset m + msg_len m > length bytes then Inl Bad_Access
       else bindE (Mem_WriteBuffer (take (msg_len m) (drop (msg_offset m) bytes)) msg) (\<lambda>msg.
              packetize i bytes ms msg s))"

definition rate_slot :: "sv_run \<Rightarrow> nat" where
  "rate_slot s = nat (sv_frame_num (svs_server (statics s)) mod int CLIENT_RATE_MESSAGES)"

definition Sv_SendClientDatagram :: "nat \<Rightarrow> sv_run \<Rightarrow> sv_run run" where
  "Sv_SendClientDatagram i s =
     bindO (Sv_BuildClientFrame_for i s) (\<lambda>s.
     bindO (Some (at_index (conns s) (int i))) (\<lambda>c.
     bindO (Some (Sv_WriteFrame (svs_server (statics s)) (conn_frames c)
        ((Mem_InitBuffer (replicate MAX_FRAME_SIZE 0) MAX_FRAME_SIZE)\<lparr>allow_overflow := True\<rparr>))) (\<lambda>(cl, msg).
       let s = set_conn i (c\<lparr>conn_frames := cl\<rparr>) s; d = datagram c in
       if buf_size msg > FRAME_ROOM then Some (Inl (Err_Drop ''Frame exceeds MAX_MSG_SIZE''))
       else bindO (Some (if overflowed (dg_buffer d) then Inr (msg, s)
                         else packetize i (buf_data (dg_buffer d)) (dg_messages d) msg s)) (\<lambda>(msg, s).
            bindO (Some (transmit i (contents msg) s)) (\<lambda>s.
              Some (with_conn i (\<lambda>c. Inr (c\<lparr>
                message_size := (message_size c)[rate_slot s := word_of_nat (buf_size (dg_buffer d))],
                datagram := \<lparr>dg_buffer = Mem_ClearBuffer (dg_buffer d), dg_messages = []\<rparr>\<rparr>)) s))))))"

definition Sv_RateDrop :: "nat \<Rightarrow> sv_run \<Rightarrow> (bool \<times> sv_run) result" where
  "Sv_RateDrop i s =
     bindE (at_index (conns s) (int i)) (\<lambda>c.
       if addr_type (remote_address (chan c)) = NA_LOOP then Inr (False, s)
       else if sum_list (message_size c) > rate c
       then Inr (True, set_conn i (c\<lparr>
              conn_frames := (conn_frames c)\<lparr>surpress_count := surpress_count (conn_frames c) + 1\<rparr>,
              message_size := (message_size c)[rate_slot s := 0]\<rparr>) s)
       else Inr (False, s))"

section \<open>Dropping clients and shutting down\<close>

definition no_download :: sv_download where
  "no_download = \<lparr>dl_buffer = None, dl_size = 0, dl_count = 0\<rparr>"

definition zero_buf :: mem_buf where
  "zero_buf = \<lparr>allow_overflow = False, overflowed = False, buf_data = [], max_size = 0, buf_size = 0, read_pos = 0\<rparr>"

definition zero_chan :: net_chan where
  "zero_chan = \<lparr>fatal_error = False, source = NS_UDP_CLIENT, dropped = 0, last_received = 0, last_sent = 0,
     remote_address = \<lparr>addr_type = NA_LOOP, addr = 0, port = 0\<rparr>, qport = 0, incoming_sequence = 0,
     incoming_acknowledged = 0, incoming_reliable_acknowledged = 0, incoming_reliable_sequence = 0,
     outgoing_sequence = 0, reliable_sequence = 0, last_reliable_sequence = 0, message = zero_buf,
     reliable_size = 0, reliable_buffer = replicate CHAN_BUFFER 0\<rparr>"

definition zero_frame :: sv_frame where
  "zero_frame = \<lparr>area_bytes = 0, area_bits = replicate AREA_BYTES 0, frame_ps = null_player_state, num_entities = 0,
     first_entity = 0, sent_time = 0\<rparr>"

text \<open>\<open>memset(cl, 0, sizeof( *cl))\<close>, after which the edict and \<open>last_frame\<close> are set.\<close>

definition free_conn :: "nat \<Rightarrow> conn" where
  "free_conn e = \<lparr>conn_state = SV_CLIENT_FREE, user_info = [],
     conn_frames = \<lparr>last_frame = -1, surpress_count = 0, client_frames = replicate PACKET_BACKUP zero_frame\<rparr>,
     last_cmd = \<lparr>msec = 0, buttons = 0, cmd_angles = Vec3 0 0 0, forward = 0, right = 0, up = 0\<rparr>,
     cmd_msec = 0, cmd_msec_errors = 0, frame_latency = replicate CLIENT_LATENCY_COUNTS 0,
     message_size = replicate CLIENT_RATE_MESSAGES 0, rate = 0, conn_edict = e, conn_name = [], message_level = 0,
     datagram = \<lparr>dg_buffer = zero_buf, dg_messages = []\<rparr>, download = no_download, last_message = 0, chan = zero_chan\<rparr>"

text \<open>\<open>svs.game->ClientDisconnect(cl->edict)\<close>, for a client that is in the game.\<close>

definition tell_game :: "game_export \<Rightarrow> conn \<Rightarrow> sv_run \<Rightarrow> sv_run result" where
  "tell_game game c s = (if conn_state c = SV_CLIENT_ACTIVE then ClientDisconnect game (conn_edict c) s else Inr s)"

definition Sv_DropClient :: "game_export \<Rightarrow> nat \<Rightarrow> sv_run \<Rightarrow> sv_run result" where
  "Sv_DropClient game i s =
     bindE (at_index (conns s) (int i)) (\<lambda>c.
     bindE (if conn_state c = SV_CLIENT_FREE then Inr s
            else bindE (tell_game game c s) (\<lambda>s.
                 bindE (with_conn i (write_message [Net_WriteByte SV_CMD_DISCONNECT]) s) (\<lambda>s.
                 bindE (at_index (conns s) (int i)) (\<lambda>c. transmit i (contents (message (chan c))) s))))
       (\<lambda>s. with_conn i (\<lambda>c. Inr (free_conn (conn_edict c))) s))"

definition Sv_ShutdownMessage :: "string option \<Rightarrow> bool \<Rightarrow> sv_run \<Rightarrow> sv_run result" where
  "Sv_ShutdownMessage msg reconnect s =
     (if \<not> svs_initialized s then Inr s
      else bindE (run_seq
          [case msg of None \<Rightarrow> Inr
           | Some m \<Rightarrow> run_seq [Net_WriteByte SV_CMD_PRINT, Net_WriteByte PRINT_HIGH, Net_WriteString (Some m)],
           if reconnect then Net_WriteByte SV_CMD_RECONNECT else Net_WriteByte SV_CMD_DISCONNECT]
          (Mem_InitBuffer (replicate MAX_MSG_SIZE 0) MAX_MSG_SIZE)) (\<lambda>net_message.
        run_seq (map (\<lambda>i s. bindE (at_index (conns s) (int i)) (\<lambda>c.
          if conn_state c \<noteq> SV_CLIENT_FREE then transmit i (contents net_message) s else Inr s)) [0 ..< max_clients s]) s))"

text \<open>
  \<open>Sv_ShutdownGame\<close>, \<open>Sv_ShutdownClients\<close> and \<open>Sv_ClearState\<close>: the clients and the entity
  states are freed, \<open>sv\<close> is cleared.
\<close>

definition Sv_ShutdownServer :: "string \<Rightarrow> sv_run \<Rightarrow> sv_run result" where
  "Sv_ShutdownServer msg s =
     bindE (Sv_ShutdownMessage (Some msg) False s) (\<lambda>s.
       Inr (s\<lparr>svs_initialized := False, run_state := SV_UNINITIALIZED, multicast := zero_buf, demo_file := None,
              config_strings := replicate MAX_CONFIG_STRINGS [],
              conns := (if svs_initialized s then [] else conns s),
              statics := (statics s)\<lparr>svs_num_edicts := 0, svs_real_time := 0,
                svs_server := (svs_server (statics s))\<lparr>sv_frame_num := 0, baselines := [],
                  sv_entity_states := (if svs_initialized s then [] else sv_entity_states (svs_server (statics s)))\<rparr>\<rparr>\<rparr>))"

section \<open>Demos and the loop over the clients\<close>

text \<open>
  \<open>demo_file\<close> is what is left to read. The size is a signed little endian word. \<open>Fs_Read\<close>
  reads no object if the size is not positive: a negative one is a huge unsigned one.
\<close>

definition Sv_GetDemoMessage :: "sv_run \<Rightarrow> (byte list \<times> sv_run) result" where
  "Sv_GetDemoMessage s =
     (let completed = (\<lambda>s. bindE (Sv_ShutdownServer ''Demo complete'' s) (\<lambda>s. Inr ([], s))) in
      case demo_file s of
        None \<Rightarrow> completed s
      | Some file \<Rightarrow>
          if length file < 4 then completed (s\<lparr>demo_file := Some []\<rparr>)
          else
            let size = sint (word_rcat (rev (take 4 file)) :: uint32); rest = drop 4 file;
                s = s\<lparr>demo_file := Some rest\<rparr>
            in if size = -1 then completed s
               else if size > int MAX_MSG_SIZE then completed s
               else if size \<le> 0 \<or> length rest < nat size then completed (s\<lparr>demo_file := Some []\<rparr>)
               else Inr (take (nat size) rest, s\<lparr>demo_file := Some (drop (nat size) rest)\<rparr>))"

definition overflow_drop :: "game_export \<Rightarrow> nat \<Rightarrow> sv_run \<Rightarrow> sv_run result" where
  "overflow_drop game i s =
     bindE (at_index (conns s) (int i)) (\<lambda>c.
       if \<not> overflowed (message (chan c)) then Inr s
       else
         let c = c\<lparr>chan := (chan c)\<lparr>message := Mem_ClearBuffer (message (chan c))\<rparr>,
                   datagram := (datagram c)\<lparr>dg_buffer := Mem_ClearBuffer (dg_buffer (datagram c))\<rparr>\<rparr>
         in bindE (Sv_BroadcastPrint PRINT_HIGH (conn_name c @ '' overflowed'' @ [CHR 0x0A]) (set_conn i c s))
              (Sv_DropClient game i))"

definition send_to_client :: "game_export \<Rightarrow> nat \<Rightarrow> sv_run \<Rightarrow> sv_run run" where
  "send_to_client game i s =
     bindO (Some (at_index (conns s) (int i))) (\<lambda>c.
       if conn_state c = SV_CLIENT_FREE then Some (Inr s)
       else bindO (Some (overflow_drop game i s)) (\<lambda>s.
            bindO (Some (at_index (conns s) (int i))) (\<lambda>c.
              if run_state s = SV_ACTIVE_DEMO then
                bindO (Some (Sv_GetDemoMessage s)) (\<lambda>(buffer, s).
                  if buffer \<noteq> [] then Some (transmit i buffer s) else Some (Inr s))
              else if conn_state c = SV_CLIENT_ACTIVE then
                bindO (Some (Sv_RateDrop i s)) (\<lambda>(drops, s).
                  if drops then Some (Inr s) else Sv_SendClientDatagram i s)
              else if buf_size (message (chan c)) \<noteq> 0 \<or> time_now s - last_sent (chan c) > 1000
              then Some (transmit i [] s) else Some (Inr s))))"

fun send_loop :: "game_export \<Rightarrow> nat list \<Rightarrow> sv_run \<Rightarrow> sv_run run" where
  "send_loop game [] s = Some (Inr s)"
| "send_loop game (i # is) s = bindO (send_to_client game i s) (send_loop game is)"

definition Sv_SendClientMessages :: "game_export \<Rightarrow> sv_run \<Rightarrow> sv_run run" where
  "Sv_SendClientMessages game s =
     (if \<not> svs_initialized s then Some (Inr s) else send_loop game [0 ..< max_clients s] s)"

end
