(* ===== verification/Sv_Send_Laws.thy ===== *)
theory Sv_Send_Laws
  imports Msg_Writers Sv_Send Sv_BuildFrame_Laws Net_Channel_Laws
begin

text \<open>
  What \<open>sv_send.c\<close> promises: the clients stay well-formed under every sequence of its
  operations, a client's pending messages follow its frame in order and whole, a multicast
  reaches exactly the clients that can see or hear it, and a dropped client frees its slot.
\<close>

section \<open>Buffers of a client\<close>

text \<open>The noted messages lie one behind the other and fill the buffer.\<close>

fun tiled :: "nat \<Rightarrow> sv_client_message list \<Rightarrow> nat \<Rightarrow> bool" where
  "tiled a [] e = (a = e)"
| "tiled a (m # ms) e = (msg_offset m = a \<and> tiled (a + msg_len m) ms e)"

definition dg_ok :: "sv_client_datagram \<Rightarrow> bool" where
  "dg_ok d \<longleftrightarrow> wf_buf (dg_buffer d) \<and> max_size (dg_buffer d) = MAX_FRAME_SIZE \<and> allow_overflow (dg_buffer d) \<and>
     (overflowed (dg_buffer d) \<or> tiled 0 (dg_messages d) (buf_size (dg_buffer d))) \<and>
     (\<forall>m \<in> set (dg_messages d). msg_len m \<le> MAX_MSG_SIZE)"

definition pending :: "sv_client_datagram \<Rightarrow> byte list list" where
  "pending d = map (\<lambda>m. take (msg_len m) (drop (msg_offset m) (buf_data (dg_buffer d)))) (dg_messages d)"

lemma tiled_snoc: "tiled a (ms @ [m]) e \<longleftrightarrow> (\<exists>k. tiled a ms k \<and> msg_offset m = k \<and> k + msg_len m = e)"
  by (induction ms arbitrary: a) auto

lemma tiled_le: "tiled a ms e \<Longrightarrow> a \<le> e \<and> (\<forall>m \<in> set ms. msg_offset m + msg_len m \<le> e)"
proof (induction ms arbitrary: a)
  case Nil
  then show ?case by simp
next
  case (Cons m ms)
  have "a + msg_len m \<le> e \<and> (\<forall>k \<in> set ms. msg_offset k + msg_len k \<le> e)"
    using Cons.prems by (intro Cons.IH) simp
  then show ?case using Cons.prems by simp
qed

lemma tiled_concat:
  "tiled a ms e \<Longrightarrow> e \<le> length bs \<Longrightarrow>
   concat (map (\<lambda>m. take (msg_len m) (drop (msg_offset m) bs)) ms) = take (e - a) (drop a bs)"
proof (induction ms arbitrary: a)
  case Nil
  then show ?case by simp
next
  case (Cons m ms)
  have le: "a + msg_len m \<le> e" using Cons.prems(1) tiled_le by fastforce
  have "concat (map (\<lambda>m. take (msg_len m) (drop (msg_offset m) bs)) ms) = take (e - (a + msg_len m)) (drop (a + msg_len m) bs)"
    using Cons by simp
  moreover have "take (e - a) (drop a bs) = take (msg_len m) (drop a bs) @ take (e - (a + msg_len m)) (drop (a + msg_len m) bs)"
    using le take_add [of "msg_len m" "e - (a + msg_len m)" "drop a bs"] by (simp add: add.commute)
  ultimately show ?case using Cons.prems(1) by simp
qed

text \<open>A message that is added: behind the others, or in an overflowed buffer.\<close>

lemma datagram_message:
  assumes d: "dg_ok d" and len: "length bs \<le> MAX_MSG_SIZE"
  obtains d' where "Sv_DatagramMessage bs d = Inr d'" "dg_ok d'"
    "\<not> overflowed (dg_buffer d') \<Longrightarrow> pending d' = pending d @ [bs]"
    "overflowed (dg_buffer d') \<longleftrightarrow> overflowed (dg_buffer d) \<or> MAX_FRAME_SIZE < buf_size (dg_buffer d) + length bs"
proof -
  let ?b = "dg_buffer d"
  have b: "wf_buf ?b" "max_size ?b = MAX_FRAME_SIZE" "allow_overflow ?b" using d by (simp_all add: dg_ok_def)
  define b' where "b' = (if buf_size ?b + length bs \<le> MAX_FRAME_SIZE then appended bs ?b
      else appended bs ((Mem_ClearBuffer ?b)\<lparr>overflowed := True\<rparr>))"
  have w: "Mem_WriteBuffer bs ?b = Inr b'"
    using b len Mem_WriteBuffer_fits [of ?b bs] Mem_WriteBuffer_overflow [of ?b bs]
    by (simp add: b'_def limits)
  define d' where "d' = d\<lparr>dg_buffer := b', dg_messages := dg_messages d @ [\<lparr>msg_offset = buf_size b' - length bs, msg_len = length bs\<rparr>]\<rparr>"
  have r: "Sv_DatagramMessage bs d = Inr d'"
    using len w by (simp add: Sv_DatagramMessage_def d'_def)
  have over: "overflowed b' \<longleftrightarrow> overflowed ?b \<or> MAX_FRAME_SIZE < buf_size ?b + length bs"
    by (simp add: b'_def)
  have ok: "dg_ok d'"
    using d WriteBuffer_keeps [OF b(1) w] len over
    by (auto simp: dg_ok_def d'_def tiled_snoc b'_def split: if_splits)
  have p: "pending d' = pending d @ [bs]" if n: "\<not> overflowed b'"
  proof -
    have fit: "buf_size ?b + length bs \<le> MAX_FRAME_SIZE" and no: "\<not> overflowed ?b" using n over by auto
    then have tl: "tiled 0 (dg_messages d) (buf_size ?b)" using d by (simp add: dg_ok_def)
    have data: "buf_data b' = store_bytes (buf_size ?b) bs (buf_data ?b)"
      using fit by (simp add: b'_def appended_def store_at_def)
    have lb: "length (buf_data ?b) = MAX_FRAME_SIZE" using b by (simp add: wf_buf_def)
    have low: "take n (drop k (buf_data b')) = take n (drop k (buf_data ?b))" if "k + n \<le> buf_size ?b" for k n
    proof -
      have "take (buf_size ?b) (buf_data b') = take (buf_size ?b) (buf_data ?b)"
        unfolding data by (rule take_store_bytes_before) simp
      then have "take (k + n) (buf_data b') = take (k + n) (buf_data ?b)"
        using that by (metis min.absorb_iff1 take_take)
      then have "drop k (take (k + n) (buf_data b')) = drop k (take (k + n) (buf_data ?b))" by simp
      then show ?thesis by (simp add: drop_take)
    qed
    have "take (length bs) (drop (buf_size ?b) (buf_data b')) = bs"
    proof -
      have "take (buf_size ?b + length bs) (buf_data b') = take (buf_size ?b) (buf_data ?b) @ bs"
        unfolding data using fit lb by (intro take_store_bytes) simp
      then have "drop (buf_size ?b) (take (buf_size ?b + length bs) (buf_data b')) = bs"
        using fit lb by simp
      then show ?thesis by (simp add: drop_take)
    qed
    moreover have "buf_size b' - length bs = buf_size ?b" using fit by (simp add: b'_def)
    ultimately show ?thesis
      using tiled_le [OF tl] low by (simp add: pending_def d'_def)
  qed
  show ?thesis by (rule that [of d']) (use r ok p over in \<open>auto simp: d'_def\<close>)
qed

section \<open>Packets\<close>

text \<open>How a frame and the messages behind it are distributed over packets with room for \<open>r\<close> bytes.\<close>

fun packed :: "nat \<Rightarrow> byte list \<Rightarrow> byte list list \<Rightarrow> byte list list" where
  "packed r cur [] = [cur]"
| "packed r cur (m # ms) =
     (if length cur + length m > r then cur # packed r m ms else packed r (cur @ m) ms)"

lemma concat_packed: "concat (packed r cur ms) = cur @ concat ms"
  by (induction ms arbitrary: cur) simp_all

lemma packed_le:
  "length cur \<le> r \<Longrightarrow> \<forall>m \<in> set ms. length m \<le> r \<Longrightarrow> p \<in> set (packed r cur ms) \<Longrightarrow> length p \<le> r"
proof (induction ms arbitrary: cur)
  case Nil
  then show ?case by simp
next
  case (Cons m ms)
  show ?case
  proof (cases "length cur + length m > r")
    case True
    then show ?thesis using Cons.prems Cons.IH [of m] by auto
  next
    case False
    then show ?thesis using Cons.prems Cons.IH [of "cur @ m"] by simp
  qed
qed

text \<open>Each message is in one packet.\<close>

lemma packed_whole:
  assumes "m \<in> set ms"
  shows "\<exists>p a b. p \<in> set (packed r cur ms) \<and> p = a @ m @ b"
proof -
  have start: "\<exists>p b. p \<in> set (packed r cur ms) \<and> p = cur @ b" for cur ms
    by (induction ms arbitrary: cur) fastforce+
  show ?thesis
    using assms
  proof (induction ms arbitrary: cur)
    case Nil
    then show ?case by simp
  next
    case (Cons k ms)
    show ?case
    proof (cases "m \<in> set ms")
      case True
      then show ?thesis
        using Cons.IH [of k] Cons.IH [of "cur @ k"] by (auto split: if_splits)
    next
      case False
      then have [simp]: "k = m" using Cons.prems by simp
      show ?thesis
        using start [of m ms] start [of "cur @ m" ms]
        by (cases "length cur + length m > r") (simp_all, metis append_Nil, metis append.assoc)
    qed
  qed
qed

section \<open>What is sent on a channel\<close>

lemma sent_chan_message: "overflowed (message (sent_chan now c)) = overflowed (message c)"
    "remote_address (sent_chan now c) = remote_address c"
  by (simp_all add: sent_chan_def stage_def Let_def)

lemma sent_chan_unreliable:
  assumes "\<not> Netchan_NeedReliable c"
  shows "\<not> Netchan_NeedReliable (sent_chan now c)" "stage c = c"
proof -
  have need: "Netchan_NeedReliable c \<longleftrightarrow> stages c \<or> (incoming_acknowledged c > last_reliable_sequence c \<and>
      incoming_reliable_acknowledged c \<noteq> reliable_sequence c)" for c
    by (simp add: Netchan_NeedReliable_def stages_def Let_def)
  have n: "\<not> stages c" "\<not> (incoming_acknowledged c > last_reliable_sequence c \<and>
      incoming_reliable_acknowledged c \<noteq> reliable_sequence c)"
    using assms by (simp_all add: need)
  show st: "stage c = c" using n(1) by (rule stage_unchanged)
  have "sent_chan now c = c\<lparr>outgoing_sequence := outgoing_sequence c + 1, last_sent := now\<rparr>"
    using assms st by (simp add: sent_chan_def Let_def)
  then have "stages (sent_chan now c) \<longleftrightarrow> stages c" by (simp add: stages_def)
  then show "\<not> Netchan_NeedReliable (sent_chan now c)"
    unfolding need [of "sent_chan now c"] using n assms st by simp
qed

text \<open>The datagrams of a sequence of payloads, and the channel behind them.\<close>

fun chan_after :: "uint32 \<Rightarrow> net_chan \<Rightarrow> byte list list \<Rightarrow> net_chan" where
  "chan_after now c [] = c"
| "chan_after now c (p # ps) = chan_after now (sent_chan now c) ps"

fun packets_of :: "uint32 \<Rightarrow> net_chan \<Rightarrow> byte list list \<Rightarrow> packet list" where
  "packets_of now c [] = []"
| "packets_of now c (p # ps) = sent_packet c p # packets_of now (sent_chan now c) ps"

lemma chan_after_append: "chan_after now c (ps @ qs) = chan_after now (chan_after now c ps) qs"
  by (induction ps arbitrary: c) simp_all

lemma packets_of_append: "packets_of now c (ps @ qs) = packets_of now c ps @ packets_of now (chan_after now c ps) qs"
  by (induction ps arbitrary: c) simp_all

lemma chan_after_keeps:
  "wf_chan c \<Longrightarrow> wf_chan (chan_after now c ps)"
  "overflowed (message (chan_after now c ps)) = overflowed (message c)"
  "remote_address (chan_after now c ps) = remote_address c"
  "source (chan_after now c ps) = source c" "qport (chan_after now c ps) = qport c"
  by (induction ps arbitrary: c) (simp_all add: wf_sent_chan sent_chan_message)

lemma packets_of_length:
  assumes "wf_chan c" and "k \<in> set (packets_of now c ps)"
  shows "length (packet_bytes (source c) (qport c) k) \<le> MAX_MSG_SIZE"
  using assms
proof (induction ps arbitrary: c)
  case Nil
  then show ?case by simp
next
  case (Cons p ps)
  show ?case
    using Cons.IH [OF wf_sent_chan [OF Cons.prems(1)]] Cons.prems(2) length_sent_packet [OF Cons.prems(1)] by auto
qed

lemma packets_of_payload:
  assumes "\<not> Netchan_NeedReliable c" and "source c = NS_UDP_SERVER"
    and "\<forall>p \<in> set ps. length p \<le> FRAME_ROOM"
  shows "map pk_payload (packets_of now c ps) = ps"
  using assms
proof (induction ps arbitrary: c)
  case Nil
  then show ?case by simp
next
  case (Cons p ps)
  have "map pk_payload (packets_of now (sent_chan now c) ps) = ps"
    using Cons.prems sent_chan_unreliable(1) [OF Cons.prems(1)] by (intro Cons.IH) simp_all
  moreover have "pk_payload (sent_packet c p) = p"
    using Cons.prems by (simp add: sent_packet_def Let_def qport_bytes_def limits)
  ultimately show ?case by simp
qed

text \<open>
  The reliable message that goes out with a packet. The unreliable bytes follow it if they
  fit, and are left out otherwise.
\<close>

definition rel_part :: "net_chan \<Rightarrow> byte list" where
  "rel_part c = (if Netchan_NeedReliable c then reliable_payload (stage c) else [])"

definition carried :: "net_chan \<Rightarrow> byte list \<Rightarrow> byte list" where
  "carried c p = rel_part c @ (if 8 + length (rel_part c) + length p \<le> MAX_MSG_SIZE then p else [])"

lemma sent_payload: "source c = NS_UDP_SERVER \<Longrightarrow> pk_payload (sent_packet c p) = carried c p"
  by (simp add: sent_packet_def carried_def rel_part_def qport_bytes_def Let_def)

lemma sent_once:
  assumes "Netchan_NeedReliable c" and "incoming_acknowledged c \<le> outgoing_sequence c + 1"
  shows "\<not> Netchan_NeedReliable (sent_chan now c)"
proof -
  have s: "sent_chan now c = (stage c)\<lparr>outgoing_sequence := outgoing_sequence c + 1, last_sent := now,
      last_reliable_sequence := outgoing_sequence c + 1\<rparr>"
    using assms(1) by (simp add: sent_chan_def Let_def stage_def)
  have "\<not> stages (sent_chan now c)" unfolding s by (auto simp: stages_def stage_def)
  moreover have "incoming_acknowledged (sent_chan now c) \<le> last_reliable_sequence (sent_chan now c)"
    using assms(2) unfolding s by (simp add: stage_def)
  ultimately show ?thesis by (simp add: Netchan_NeedReliable_def stages_def Let_def linorder_not_less)
qed

text \<open>Only the first packet carries it, if the other end has not acknowledged packets to come.\<close>

lemma first_packet:
  assumes "source c = NS_UDP_SERVER" and "\<forall>q \<in> set (p # ps). length q \<le> FRAME_ROOM"
  obtains k ks where "packets_of now c (p # ps) = k # ks" "pk_payload k = carried c p"
    "\<not> Netchan_NeedReliable c \<or> incoming_acknowledged c \<le> outgoing_sequence c + 1 \<Longrightarrow> map pk_payload ks = ps"
proof -
  have "map pk_payload (packets_of now (sent_chan now c) ps) = ps"
    if "\<not> Netchan_NeedReliable c \<or> incoming_acknowledged c \<le> outgoing_sequence c + 1"
    using that assms sent_once sent_chan_unreliable(1) by (intro packets_of_payload) auto
  then show ?thesis using that sent_payload [OF assms(1)] by simp
qed

definition sends :: "nat \<Rightarrow> byte list list \<Rightarrow> sv_run \<Rightarrow> sv_run" where
  "sends i ps s = (let c = conns s ! i in
     (set_conn i (c\<lparr>chan := chan_after (time_now s) (chan c) ps\<rparr>) s)\<lparr>packets_out := packets_out s @
        map (\<lambda>k. (remote_address (chan c), packet_bytes (source (chan c)) (qport (chan c)) k))
          (packets_of (time_now s) (chan c) ps)\<rparr>)"

lemma sends_Nil: "i < length (conns s) \<Longrightarrow> sends i [] s = s"
  by (simp add: sends_def Let_def set_conn_def)

lemma sends_simps [simp]:
  "length (conns (sends i ps s)) = length (conns s)" "time_now (sends i ps s) = time_now s"
  "i < length (conns s) \<Longrightarrow> conns (sends i ps s) ! i = (conns s ! i)\<lparr>chan := chan_after (time_now s) (chan (conns s ! i)) ps\<rparr>"
  "j \<noteq> i \<Longrightarrow> conns (sends i ps s) ! j = conns s ! j"
  by (simp_all add: sends_def Let_def set_conn_def)

lemma sends_append:
  assumes "i < length (conns s)"
  shows "sends i (ps @ qs) s = sends i qs (sends i ps s)"
  using assms
  by (simp add: sends_def Let_def set_conn_def chan_after_append packets_of_append chan_after_keeps)

lemma transmit_run:
  assumes "i < length (conns s)" and "wf_chan (chan (conns s ! i))" and "\<not> overflowed (message (chan (conns s ! i)))"
  shows "transmit i p s = Inr (sends i [p] s)"
  using assms Transmit_sends [OF assms(2,3), of "time_now s" p]
  by (simp add: transmit_def at_index_def sends_def Let_def set_conn_def sent_chan_message)

lemma transmit_after:
  assumes "i < length (conns s)" and "wf_chan (chan (conns s ! i))" and "\<not> overflowed (message (chan (conns s ! i)))"
  shows "transmit i p (sends i ps s) = Inr (sends i (ps @ [p]) s)"
  using assms transmit_run [of i "sends i ps s" p] by (simp add: chan_after_keeps sends_append)

lemma packetize_run:
  assumes "i < length (conns s)" and "wf_chan (chan (conns s ! i))" and "\<not> overflowed (message (chan (conns s ! i)))"
    and "wf_buf msg" "max_size msg = MAX_FRAME_SIZE" "buf_size msg \<le> FRAME_ROOM"
    and "\<forall>m \<in> set ms. msg_offset m + msg_len m \<le> length bytes \<and> msg_len m \<le> FRAME_ROOM"
  defines "segs \<equiv> map (\<lambda>m. take (msg_len m) (drop (msg_offset m) bytes)) ms"
  shows "\<exists>msg' qs q. packed FRAME_ROOM (contents msg) segs = qs @ [q] \<and> contents msg' = q \<and>
    packetize i bytes ms msg (sends i ps s) = Inr (msg', sends i (ps @ qs) s)"
  using assms(4-7) unfolding segs_def
proof (induction ms arbitrary: msg ps)
  case Nil
  then show ?case by (intro exI [of _ msg] exI [of _ "[]"] exI [of _ "contents msg"]) simp
next
  case (Cons m ms)
  let ?seg = "take (msg_len m) (drop (msg_offset m) bytes)"
  have m: "msg_offset m + msg_len m \<le> length bytes" "msg_len m \<le> FRAME_ROOM" "length ?seg = msg_len m"
    using Cons.prems(4) by auto
  have lc: "length (contents msg) = buf_size msg" by (rule length_contents [OF Cons.prems(1)])
  show ?case
  proof (cases "buf_size msg + msg_len m > FRAME_ROOM")
    case True
    let ?b = "Mem_ClearBuffer msg"
    have b: "wf_buf ?b" "max_size ?b = MAX_FRAME_SIZE" "buf_size ?b = 0" "contents ?b = []"
      using Cons.prems(1,2) by (simp_all add: Mem_ClearBuffer_def wf_buf_def contents_def)
    have fit: "buf_size ?b + length ?seg \<le> max_size ?b" using b m by (simp add: limits)
    have a: "wf_buf (appended ?seg ?b)" "contents (appended ?seg ?b) = ?seg" "max_size (appended ?seg ?b) = MAX_FRAME_SIZE"
        "buf_size (appended ?seg ?b) \<le> FRAME_ROOM"
      using wf_appended [OF b(1) fit] contents_appended [OF b(1) fit] b m by simp_all
    obtain msg' qs q where r: "packed FRAME_ROOM (contents (appended ?seg ?b)) (map (\<lambda>m. take (msg_len m) (drop (msg_offset m) bytes)) ms) = qs @ [q]"
        "contents msg' = q"
        "packetize i bytes ms (appended ?seg ?b) (sends i (ps @ [contents msg]) s) = Inr (msg', sends i ((ps @ [contents msg]) @ qs) s)"
      using Cons.IH [OF a(1,3,4), of "ps @ [contents msg]"] Cons.prems(4) by auto
    have "packetize i bytes (m # ms) msg (sends i ps s) = Inr (msg', sends i (ps @ contents msg # qs) s)"
      using True m transmit_after [OF assms(1-3), of "contents msg" ps] Mem_WriteBuffer_fits [OF fit] r(3) by simp
    then show ?thesis
      using True lc m(3) r(1,2) a(2) by (intro exI [of _ msg'] exI [of _ "contents msg # qs"] exI [of _ q]) simp
  next
    case False
    have fit: "buf_size msg + length ?seg \<le> max_size msg" using False Cons.prems(2) m by (simp add: limits)
    have a: "wf_buf (appended ?seg msg)" "contents (appended ?seg msg) = contents msg @ ?seg"
        "max_size (appended ?seg msg) = MAX_FRAME_SIZE" "buf_size (appended ?seg msg) \<le> FRAME_ROOM"
      using wf_appended [OF Cons.prems(1) fit] contents_appended [OF Cons.prems(1) fit] Cons.prems(2) False m by simp_all
    obtain msg' qs q where r: "packed FRAME_ROOM (contents (appended ?seg msg)) (map (\<lambda>m. take (msg_len m) (drop (msg_offset m) bytes)) ms) = qs @ [q]"
        "contents msg' = q" "packetize i bytes ms (appended ?seg msg) (sends i ps s) = Inr (msg', sends i (ps @ qs) s)"
      using Cons.IH [OF a(1,3,4), of ps] Cons.prems(4) by auto
    have "packetize i bytes (m # ms) msg (sends i ps s) = Inr (msg', sends i (ps @ qs) s)"
      using False m Mem_WriteBuffer_fits [OF fit] r(3) by simp
    then show ?thesis
      using False lc m(3) r(1,2) a(2) by (intro exI [of _ msg'] exI [of _ qs] exI [of _ q]) simp
  qed
qed

section \<open>The datagram of a client\<close>

definition frame_buf :: mem_buf where
  "frame_buf = (Mem_InitBuffer (replicate MAX_FRAME_SIZE 0) MAX_FRAME_SIZE)\<lparr>allow_overflow := True\<rparr>"

lemma build_for:
  assumes "Sv_BuildClientFrame_for i s = Some (Inr s1)"
  obtains cl where "i < length (conns s)" "conns s1 = (conns s)[i := (conns s ! i)\<lparr>conn_frames := cl\<rparr>]"
    "packets_out s1 = packets_out s" "time_now s1 = time_now s" "max_clients s1 = max_clients s"
  using assms by (auto simp: Sv_BuildClientFrame_for_def bindO_eq_Inr at_index_eq_Inr set_conn_def)

lemma send_datagram:
  assumes b: "Sv_BuildClientFrame_for i s = Some (Inr s1)"
    and w: "Sv_WriteFrame (svs_server (statics s1)) (conn_frames (conns s1 ! i)) frame_buf = Inr (cl, msg)"
    and fit: "buf_size msg \<le> FRAME_ROOM"
    and ch: "wf_chan (chan (conns s ! i))" "\<not> overflowed (message (chan (conns s ! i)))"
    and dg: "dg_ok (datagram (conns s ! i))" "\<not> overflowed (dg_buffer (datagram (conns s ! i)))"
    and small: "\<forall>m \<in> set (pending (datagram (conns s ! i))). length m \<le> FRAME_ROOM"
  shows "\<exists>s'. Sv_SendClientDatagram i s = Some (Inr s') \<and>
    packets_out s' = packets_out s @ map (\<lambda>k. (remote_address (chan (conns s ! i)), packet_bytes (source (chan (conns s ! i))) (qport (chan (conns s ! i))) k))
          (packets_of (time_now s) (chan (conns s ! i)) (packed FRAME_ROOM (contents msg) (pending (datagram (conns s ! i))))) \<and>
    length (conns s') = length (conns s) \<and> (\<forall>j. j \<noteq> i \<longrightarrow> conns s' ! j = conns s ! j) \<and>
    datagram (conns s' ! i) = \<lparr>dg_buffer = Mem_ClearBuffer (dg_buffer (datagram (conns s ! i))), dg_messages = []\<rparr>"
proof -
  obtain cl0 where s1: "i < length (conns s)" "conns s1 = (conns s)[i := (conns s ! i)\<lparr>conn_frames := cl0\<rparr>]"
    "packets_out s1 = packets_out s" "time_now s1 = time_now s"
    using build_for [OF b] by metis
  let ?c = "conns s ! i" and ?c1 = "conns s1 ! i" and ?d = "datagram (conns s ! i)"
  have c1: "chan ?c1 = chan ?c" "datagram ?c1 = ?d" "i < length (conns s1)" using s1 by simp_all
  define s2 where "s2 = set_conn i (?c1\<lparr>conn_frames := cl\<rparr>) s1"
  have c2: "chan (conns s2 ! i) = chan ?c" "datagram (conns s2 ! i) = ?d" "i < length (conns s2)"
      "packets_out s2 = packets_out s" "time_now s2 = time_now s" "length (conns s2) = length (conns s)"
      "\<And>j. j \<noteq> i \<Longrightarrow> conns s2 ! j = conns s ! j"
    using s1 c1 by (simp_all add: s2_def set_conn_def)
  have f: "wf_buf frame_buf" "max_size frame_buf = MAX_FRAME_SIZE"
    by (simp_all add: frame_buf_def wf_buf_def Mem_InitBuffer_def)
  have msg: "wf_buf msg" "max_size msg = MAX_FRAME_SIZE"
    using write_frame_keeps [OF f(1) w] f(2) by simp_all
  have wfd: "wf_buf (dg_buffer ?d)" "tiled 0 (dg_messages ?d) (buf_size (dg_buffer ?d))"
    using dg by (simp_all add: dg_ok_def)
  then have inside: "msg_offset m + msg_len m \<le> length (buf_data (dg_buffer ?d))" if "m \<in> set (dg_messages ?d)" for m
    using tiled_le [OF wfd(2)] that by (fastforce simp: wf_buf_def)
  have len: "msg_len m \<le> FRAME_ROOM" if "m \<in> set (dg_messages ?d)" for m
    using small inside [OF that] that by (auto simp: pending_def)
  obtain msg' qs q where r: "packed FRAME_ROOM (contents msg) (pending ?d) = qs @ [q]" "contents msg' = q"
      "packetize i (buf_data (dg_buffer ?d)) (dg_messages ?d) msg (sends i [] s2) = Inr (msg', sends i ([] @ qs) s2)"
    using packetize_run [OF c2(3) _ _ msg fit, of "dg_messages ?d" "buf_data (dg_buffer ?d)" "[]"] ch inside len
    unfolding c2(1) by (auto simp: pending_def)
  have t: "transmit i q (sends i qs s2) = Inr (sends i (qs @ [q]) s2)"
    using transmit_after [OF c2(3)] ch c2(1) by simp
  define s3 where "s3 = sends i (qs @ [q]) s2"
  define s' where "s' = set_conn i ((conns s3 ! i)\<lparr>
      message_size := (message_size (conns s3 ! i))[rate_slot s3 := word_of_nat (buf_size (dg_buffer ?d))],
      datagram := \<lparr>dg_buffer = Mem_ClearBuffer (dg_buffer ?d), dg_messages = []\<rparr>\<rparr>) s3"
  have l3: "i < length (conns s3)" "datagram (conns s3 ! i) = ?d"
    using c2(2,3) unfolding s3_def by simp_all
  have run: "Sv_SendClientDatagram i s = Some (Inr s')"
    unfolding Sv_SendClientDatagram_def frame_buf_def [symmetric]
    using b w fit c1 dg(2) r(2,3) t l3
    by (simp add: at_index_def s2_def [symmetric] Let_def sends_Nil [OF c2(3)] s3_def [symmetric] with_conn_def s'_def)
  have "packets_out s' = packets_out s2 @ map (\<lambda>k. (remote_address (chan ?c), packet_bytes (source (chan ?c)) (qport (chan ?c)) k))
      (packets_of (time_now s) (chan ?c) (qs @ [q]))"
    unfolding s'_def set_conn_def s3_def sends_def Let_def by (simp add: c2(1,5))
  moreover have "length (conns s') = length (conns s)" "\<And>j. j \<noteq> i \<Longrightarrow> conns s' ! j = conns s ! j"
    using c2(6,7) by (simp_all add: s'_def set_conn_def s3_def)
  moreover have "datagram (conns s' ! i) = \<lparr>dg_buffer = Mem_ClearBuffer (dg_buffer ?d), dg_messages = []\<rparr>"
    using l3(1) by (simp add: s'_def set_conn_def)
  ultimately show ?thesis using run r(1) c2(4) by auto
qed

section \<open>Multicasts\<close>

definition conn_ok :: "conn \<Rightarrow> bool" where
  "conn_ok c \<longleftrightarrow> (conn_state c \<noteq> SV_CLIENT_FREE \<longrightarrow>
     wf_chan (chan c) \<and> dg_ok (datagram c) \<and> length (message_size c) = CLIENT_RATE_MESSAGES)"

text \<open>What becomes of a client that is sent the bytes.\<close>

definition got :: "bool \<Rightarrow> byte list \<Rightarrow> conn \<Rightarrow> conn \<Rightarrow> bool" where
  "got reliable bytes c c' \<longleftrightarrow>
     (let b = (if reliable then message (chan c) else dg_buffer (datagram c));
          fits = buf_size b + length bytes \<le> max_size b
      in if reliable
         then c' = c\<lparr>chan := (chan c)\<lparr>message := message (chan c')\<rparr>\<rparr> \<and>
           (if fits then contents (message (chan c')) = contents b @ bytes \<and> overflowed (message (chan c')) = overflowed b
            else overflowed (message (chan c')))
         else c' = c\<lparr>datagram := datagram c'\<rparr> \<and>
           (if fits \<and> \<not> overflowed b then pending (datagram c') = pending (datagram c) @ [bytes] \<and> \<not> overflowed (dg_buffer (datagram c'))
            else overflowed (dg_buffer (datagram c'))))"

lemma send_multicast_run:
  assumes "conn_ok c" and "conn_state c \<noteq> SV_CLIENT_FREE" and "length bytes \<le> CHAN_BUFFER"
  shows "\<exists>c'. send_multicast r bytes c = Inr c' \<and> got r bytes c c' \<and> conn_ok c' \<and> conn_state c' = conn_state c \<and>
    conn_edict c' = conn_edict c"
proof (cases r)
  case True
  let ?b = "message (chan c)"
  have wf: "wf_chan (chan c)" using assms by (simp add: conn_ok_def)
  have b: "wf_buf ?b" "max_size ?b = CHAN_BUFFER" "allow_overflow ?b" using wf by (simp_all add: wf_chan_def)
  define m where "m = (if buf_size ?b + length bytes \<le> CHAN_BUFFER then appended bytes ?b
      else appended bytes ((Mem_ClearBuffer ?b)\<lparr>overflowed := True\<rparr>))"
  have w: "Mem_WriteBuffer bytes ?b = Inr m"
    using b assms(3) Mem_WriteBuffer_fits [of ?b bytes] Mem_WriteBuffer_overflow [of ?b bytes] by (simp add: m_def)
  have k: "wf_buf m" "max_size m = CHAN_BUFFER" "allow_overflow m" using WriteBuffer_keeps [OF b(1) w] b by simp_all
  let ?c' = "c\<lparr>chan := (chan c)\<lparr>message := m\<rparr>\<rparr>"
  have "send_multicast r bytes c = Inr ?c'" using True w by (simp add: send_multicast_def write_message_def)
  moreover have "conn_ok ?c'" using assms(1) k wf by (simp add: conn_ok_def wf_chan_def)
  moreover have "got r bytes c ?c'"
    using True b contents_appended [OF b(1), of bytes] by (simp add: got_def Let_def m_def)
  ultimately show ?thesis by (intro exI [of _ ?c']) simp
next
  case False
  have dg: "dg_ok (datagram c)" and len: "length bytes \<le> MAX_MSG_SIZE"
    using assms by (simp_all add: conn_ok_def CHAN_BUFFER_def limits)
  obtain d' where d: "Sv_DatagramMessage bytes (datagram c) = Inr d'" "dg_ok d'"
    "\<not> overflowed (dg_buffer d') \<Longrightarrow> pending d' = pending (datagram c) @ [bytes]"
    "overflowed (dg_buffer d') \<longleftrightarrow> overflowed (dg_buffer (datagram c)) \<or> MAX_FRAME_SIZE < buf_size (dg_buffer (datagram c)) + length bytes"
    using datagram_message [OF dg len] by metis
  let ?c' = "c\<lparr>datagram := d'\<rparr>"
  have "send_multicast r bytes c = Inr ?c'" using False d(1) by (simp add: send_multicast_def)
  moreover have "conn_ok ?c'" using assms(1) d(2) by (simp add: conn_ok_def)
  moreover have "max_size (dg_buffer (datagram c)) = MAX_FRAME_SIZE" using dg by (simp add: dg_ok_def)
  then have "got r bytes c ?c'"
    using False d(3,4) by (auto simp: got_def Let_def not_le)
  ultimately show ?thesis by (intro exI [of _ ?c']) simp
qed

text \<open>Who is addressed, and can see or hear the origin (\<open>V\<close>).\<close>

definition asked :: "multicast_t \<Rightarrow> (nat \<Rightarrow> edict) \<Rightarrow> conn \<Rightarrow> bool" where
  "asked to ents c \<longleftrightarrow> conn_state c \<noteq> SV_CLIENT_FREE \<and> (conn_state c = SV_CLIENT_ACTIVE \<or> is_reliable to) \<and>
     \<not> ed_ai (ents (conn_edict c))"

definition covered :: "sv_run \<Rightarrow> (int \<times> byte list) option \<Rightarrow> conn \<Rightarrow> bool run" where
  "covered s cover c = (case cover of None \<Rightarrow> Some (Inr True)
     | Some (area, row) \<Rightarrow> (case ed_player (svs_edicts (statics s) (conn_edict c)) of None \<Rightarrow> Some (Inl Bad_Access)
         | Some ps \<Rightarrow> in_mask (run_bsp s) (run_areas s) area row (player_pm ps)))"

lemma covered_cong:
  "statics s' = statics s \<Longrightarrow> run_bsp s' = run_bsp s \<Longrightarrow> run_areas s' = run_areas s \<Longrightarrow> covered s' cover = covered s cover"
  by (rule ext) (simp only: covered_def)

lemma multicast_to_run:
  assumes j: "j < length (conns s)" and ok: "conn_ok (conns s ! j)" and len: "length (contents (multicast s)) \<le> CHAN_BUFFER"
    and V: "asked to (svs_edicts (statics s)) (conns s ! j) \<Longrightarrow> covered s cover (conns s ! j) = Some (Inr V)"
  shows "\<exists>c'. multicast_to to cover j s = Some (Inr (set_conn j c' s)) \<and> conn_ok c' \<and> conn_state c' = conn_state (conns s ! j) \<and>
    conn_edict c' = conn_edict (conns s ! j) \<and>
    (if asked to (svs_edicts (statics s)) (conns s ! j) \<and> V
     then got (is_reliable to) (contents (multicast s)) (conns s ! j) c' else c' = conns s ! j)"
proof -
  let ?c = "conns s ! j"
  have at: "at_index (conns s) (int j) = Inr ?c" using j by (simp add: at_index_def)
  have same: "set_conn j ?c s = s" by (simp add: set_conn_def)
  show ?thesis
  proof (cases "asked to (svs_edicts (statics s)) ?c")
    case False
    then have "multicast_to to cover j s = Some (Inr s)"
      by (auto simp: multicast_to_def at asked_def Let_def)
    then show ?thesis using False ok same by (intro exI [of _ ?c]) simp
  next
    case True
    then have a: "conn_state ?c \<noteq> SV_CLIENT_FREE" "\<not> (conn_state ?c \<noteq> SV_CLIENT_ACTIVE \<and> \<not> is_reliable to)"
        "\<not> ed_ai (svs_edicts (statics s) (conn_edict ?c))"
      by (auto simp: asked_def)
    have run: "multicast_to to cover j s = (if V then Some (with_conn j (send_multicast (is_reliable to) (contents (multicast s))) s) else Some (Inr s))"
      using V [OF True] unfolding multicast_to_def at Let_def covered_def bindO_simps if_not_P [OF a(1)] if_not_P [OF a(2)] if_not_P [OF a(3)]
      by (simp only: bindO_simps)
    show ?thesis
    proof (cases V)
      case False
      then show ?thesis using run True ok same by (intro exI [of _ ?c]) simp
    next
      case v: True
      obtain c' where c: "send_multicast (is_reliable to) (contents (multicast s)) ?c = Inr c'"
        "got (is_reliable to) (contents (multicast s)) ?c c'" "conn_ok c'" "conn_state c' = conn_state ?c" "conn_edict c' = conn_edict ?c"
        using send_multicast_run [OF ok a(1) len] by blast
      show ?thesis using run v True c by (intro exI [of _ c']) (simp add: with_conn_def at)
    qed
  qed
qed

lemma multicast_loop_run:
  assumes "\<forall>j \<in> set js. j < length (conns s)" and "\<forall>c \<in> set (conns s). conn_ok c" and "distinct js"
    and "length (contents (multicast s)) \<le> CHAN_BUFFER"
    and "\<forall>j \<in> set js. asked to (svs_edicts (statics s)) (conns s ! j) \<longrightarrow> covered s cover (conns s ! j) = Some (Inr (V j))"
  shows "\<exists>cs. multicast_loop to cover js s = Some (Inr (s\<lparr>conns := cs\<rparr>)) \<and> length cs = length (conns s) \<and> (\<forall>c \<in> set cs. conn_ok c) \<and>
    (\<forall>j < length cs. conn_state (cs ! j) = conn_state (conns s ! j) \<and>
      (if j \<in> set js \<and> asked to (svs_edicts (statics s)) (conns s ! j) \<and> V j
       then got (is_reliable to) (contents (multicast s)) (conns s ! j) (cs ! j) else cs ! j = conns s ! j))"
  using assms
proof (induction js arbitrary: s)
  case Nil
  then show ?case by (intro exI [of _ "conns s"]) simp
next
  case (Cons j js)
  have j: "j < length (conns s)" "conn_ok (conns s ! j)" "j \<notin> set js" using Cons.prems by simp_all
  obtain c' where c: "multicast_to to cover j s = Some (Inr (set_conn j c' s))" "conn_ok c'" "conn_state c' = conn_state (conns s ! j)"
      "if asked to (svs_edicts (statics s)) (conns s ! j) \<and> V j
       then got (is_reliable to) (contents (multicast s)) (conns s ! j) c' else c' = conns s ! j"
    using multicast_to_run [OF j(1,2) Cons.prems(4), of to cover "V j"] Cons.prems(5) by auto
  let ?s = "set_conn j c' s"
  have other: "conns ?s ! k = conns s ! k" if "k \<in> set js" for k using that j(3) by (cases "k = j") (simp_all add: set_conn_def)
  have oks: "\<forall>c \<in> set (conns ?s). conn_ok c"
    using Cons.prems(2) c(2) set_update_subset_insert [of "conns s" j c'] by (auto simp: set_conn_def)
  have cov: "covered ?s cover = covered s cover" by (rule covered_cong) (simp_all add: set_conn_def)
  have IH: "\<exists>cs. multicast_loop to cover js ?s = Some (Inr (?s\<lparr>conns := cs\<rparr>)) \<and> length cs = length (conns ?s) \<and> (\<forall>c \<in> set cs. conn_ok c) \<and>
    (\<forall>k < length cs. conn_state (cs ! k) = conn_state (conns ?s ! k) \<and>
      (if k \<in> set js \<and> asked to (svs_edicts (statics ?s)) (conns ?s ! k) \<and> V k
       then got (is_reliable to) (contents (multicast ?s)) (conns ?s ! k) (cs ! k) else cs ! k = conns ?s ! k))"
  proof (rule Cons.IH)
    show "\<forall>k \<in> set js. k < length (conns ?s)" "distinct js" "length (contents (multicast ?s)) \<le> CHAN_BUFFER"
      using Cons.prems by (simp_all add: set_conn_def)
    show "\<forall>c \<in> set (conns ?s). conn_ok c" by (rule oks)
    show "\<forall>k \<in> set js. asked to (svs_edicts (statics ?s)) (conns ?s ! k) \<longrightarrow> covered ?s cover (conns ?s ! k) = Some (Inr (V k))"
      using Cons.prems(5) other cov by (simp add: set_conn_def)
  qed
  then obtain cs where cs: "multicast_loop to cover js ?s = Some (Inr (?s\<lparr>conns := cs\<rparr>))" "length cs = length (conns ?s)"
      "\<forall>c \<in> set cs. conn_ok c"
      "\<And>k. k < length cs \<Longrightarrow> conn_state (cs ! k) = conn_state (conns ?s ! k) \<and>
      (if k \<in> set js \<and> asked to (svs_edicts (statics ?s)) (conns ?s ! k) \<and> V k
       then got (is_reliable to) (contents (multicast ?s)) (conns ?s ! k) (cs ! k) else cs ! k = conns ?s ! k)"
    by blast
  have "multicast_loop to cover (j # js) s = Some (Inr (s\<lparr>conns := cs\<rparr>))"
    using c(1) cs(1) by (simp add: set_conn_def)
  moreover have "conn_state (cs ! k) = conn_state (conns s ! k) \<and>
      (if k \<in> set (j # js) \<and> asked to (svs_edicts (statics s)) (conns s ! k) \<and> V k
       then got (is_reliable to) (contents (multicast s)) (conns s ! k) (cs ! k) else cs ! k = conns s ! k)" if "k < length cs" for k
  proof (cases "k = j")
    case True
    then have "cs ! k = c'" "conn_state (cs ! k) = conn_state (conns s ! k)"
      using cs(4) [OF that] j c(3) by (auto simp: set_conn_def)
    then show ?thesis using c(4) True by simp
  next
    case False
    then have "conns ?s ! k = conns s ! k" "multicast ?s = multicast s" "statics ?s = statics s" by (simp_all add: set_conn_def)
    then show ?thesis using cs(4) [OF that] False by auto
  qed
  ultimately show ?case using cs(2,3) by (intro exI [of _ cs]) (simp add: set_conn_def)
qed

text \<open>The rows that a multicast goes by: \<open>R l k\<close> tells if the leaf \<open>l\<close> reaches the cluster \<open>k\<close>.\<close>

definition row_of :: "multicast_t \<Rightarrow> (nat \<Rightarrow> byte list) \<Rightarrow> (nat \<Rightarrow> byte list) \<Rightarrow> nat \<Rightarrow> byte list" where
  "row_of to P H = (if to \<in> {MULTICAST_PHS, MULTICAST_PHS_R} then H else P)"

definition reaches :: "c_bsp \<Rightarrow> bsp_areas \<Rightarrow> (nat \<Rightarrow> byte list) \<Rightarrow> int \<Rightarrow> int \<Rightarrow> bool" where
  "reaches bsp ar R l k \<longleftrightarrow> Cm_AreasConnected ar (leaf_area (leafs bsp l)) (leaf_area (leafs bsp k)) = Inr True \<and>
     leaf_cluster (leafs bsp l) \<noteq> -1 \<and> sees (R (nat (leaf_cluster (leafs bsp l)))) (nat (leaf_cluster (leafs bsp k)))"

definition to_all :: "multicast_t \<Rightarrow> bool" where
  "to_all to \<longleftrightarrow> to \<in> {MULTICAST_ALL, MULTICAST_ALL_R}"

lemma leaf_found:
  assumes "scene_ok bsp v ar P H"
  obtains l where "Cm_PointLeafnum bsp p = Some (Inr l)" "0 \<le> l" "l < num_leafs bsp"
    "Cm_LeafArea bsp l = Inr (leaf_area (leafs bsp l))" "Cm_LeafCluster bsp l = Inr (leaf_cluster (leafs bsp l))"
    "0 \<le> leaf_area (leafs bsp l)" "leaf_area (leafs bsp l) < num_areas ar"
    "-1 \<le> leaf_cluster (leafs bsp l)" "leaf_cluster (leafs bsp l) < num_clusters v"
proof -
  have s: "wf_tree bsp" "0 < num_nodes bsp" "num_planes bsp \<noteq> 0" "leafs_fit bsp v ar"
    using assms by (simp_all add: scene_ok_def)
  then have ref: "tree_ref bsp 0" by (simp add: tree_ref_def)
  obtain l where l: "Cm_PointLeafnum bsp p = Some (Inr l)" "0 \<le> l" "l < num_leafs bsp"
    using point_leaf [OF s(1) ref, of p] s(3) by (auto simp: Cm_PointLeafnum_def)
  show ?thesis
    using that [OF l] l s(4) by (auto simp: Cm_LeafArea_def Cm_LeafCluster_def leafs_fit_def)
qed

lemma multicast_mask_run:
  assumes sc: "scene_ok (run_bsp s) (run_vis s) (run_areas s) P H" and rows: "rows_ok (run_vis s) (words_of (run_vis s)) (run_rows s)"
    and to: "\<not> to_all to"
  shows "\<exists>l row rows'. Cm_PointLeafnum (run_bsp s) org = Some (Inr l) \<and> 0 \<le> l \<and> l < num_leafs (run_bsp s) \<and>
    multicast_mask to org s = Some (Inr (Some (leaf_area (leafs (run_bsp s) l), row), s\<lparr>run_rows := rows'\<rparr>)) \<and>
    rows_ok (run_vis s) (words_of (run_vis s)) rows' \<and>
    marks (run_vis s) row (\<lambda>k. leaf_cluster (leafs (run_bsp s) l) \<noteq> -1 \<and>
      sees (row_of to P H (nat (leaf_cluster (leafs (run_bsp s) l)))) k)"
proof -
  let ?v = "run_vis s" and ?b = "run_bsp s"
  obtain l where l: "Cm_PointLeafnum ?b org = Some (Inr l)" "0 \<le> l" "l < num_leafs ?b"
    "Cm_LeafArea ?b l = Inr (leaf_area (leafs ?b l))" "Cm_LeafCluster ?b l = Inr (leaf_cluster (leafs ?b l))"
    "-1 \<le> leaf_cluster (leafs ?b l)" "leaf_cluster (leafs ?b l) < num_clusters ?v"
    using leaf_found [OF sc] by metis
  have c: "compiled ?v P H" using sc by (simp add: scene_ok_def)
  have len: "vis_row ?v \<le> length (pvs_row (run_rows s))" "vis_row ?v \<le> length (phs_row (run_rows s))"
    using rows by (simp_all add: rows_ok_def)
  have nota: "\<not> to \<in> {MULTICAST_ALL, MULTICAST_ALL_R}" using to by (simp add: to_all_def)
  show ?thesis
  proof (cases "to \<in> {MULTICAST_PHS, MULTICAST_PHS_R}")
    case True
    obtain row where r: "Cm_ClusterPHS ?v (leaf_cluster (leafs ?b l)) (phs_row (run_rows s)) = Inr row" "length row = length (phs_row (run_rows s))"
      "marks ?v row (\<lambda>k. leaf_cluster (leafs ?b l) \<noteq> -1 \<and> sees (H (nat (leaf_cluster (leafs ?b l)))) k)"
      using cluster_pvs(2) [OF c l(6,7) len(2)] by blast
    have "multicast_mask to org s = Some (Inr (Some (leaf_area (leafs ?b l), row), s\<lparr>run_rows := (run_rows s)\<lparr>phs_row := row\<rparr>\<rparr>))"
      unfolding multicast_mask_def if_not_P [OF nota] if_P [OF True] l(1,4,5) bindO_simps r(1) by (rule refl)
    moreover have "rows_ok ?v (words_of ?v) ((run_rows s)\<lparr>phs_row := row\<rparr>)" using rows r(2) by (simp add: rows_ok_def)
    ultimately show ?thesis using l(1-3) r(3) True unfolding row_of_def if_P [OF True] by blast
  next
    case False
    obtain row where r: "Cm_ClusterPVS ?v (leaf_cluster (leafs ?b l)) (pvs_row (run_rows s)) = Inr row" "length row = length (pvs_row (run_rows s))"
      "marks ?v row (\<lambda>k. leaf_cluster (leafs ?b l) \<noteq> -1 \<and> sees (P (nat (leaf_cluster (leafs ?b l)))) k)"
      using cluster_pvs(1) [OF c l(6,7) len(1)] by blast
    have "multicast_mask to org s = Some (Inr (Some (leaf_area (leafs ?b l), row), s\<lparr>run_rows := (run_rows s)\<lparr>pvs_row := row\<rparr>\<rparr>))"
      unfolding multicast_mask_def if_not_P [OF nota] if_not_P [OF False] l(1,4,5) bindO_simps r(1) by (rule refl)
    moreover have "rows_ok ?v (words_of ?v) ((run_rows s)\<lparr>pvs_row := row\<rparr>)" using rows r(2) by (simp add: rows_ok_def)
    ultimately show ?thesis using l(1-3) r(3) False unfolding row_of_def if_not_P [OF False] by blast
  qed
qed

lemma in_mask_run:
  assumes sc: "scene_ok bsp v ar P H" and l: "0 \<le> l" "l < num_leafs bsp"
    and m: "marks v row (\<lambda>k. leaf_cluster (leafs bsp l) \<noteq> -1 \<and> sees (R (nat (leaf_cluster (leafs bsp l)))) k)"
    and k: "Cm_PointLeafnum bsp (listener pm) = Some (Inr k)" "leaf_cluster (leafs bsp k) \<noteq> -1"
  shows "in_mask bsp ar (leaf_area (leafs bsp l)) row pm = Some (Inr (reaches bsp ar R l k))"
proof -
  let ?c = "leaf_cluster (leafs bsp k)" and ?a = "leaf_area (leafs bsp k)"
  obtain k' where k': "Cm_PointLeafnum bsp (listener pm) = Some (Inr k')"
    "Cm_LeafArea bsp k' = Inr (leaf_area (leafs bsp k'))" "Cm_LeafCluster bsp k' = Inr (leaf_cluster (leafs bsp k'))"
    "0 \<le> leaf_area (leafs bsp k')" "leaf_area (leafs bsp k') < num_areas ar"
    "-1 \<le> leaf_cluster (leafs bsp k')" "leaf_cluster (leafs bsp k') < num_clusters v"
    using leaf_found [OF sc] by metis
  have [simp]: "k' = k" using k(1) k'(1) by simp
  have la: "0 \<le> leaf_area (leafs bsp l)" "leaf_area (leafs bsp l) < num_areas ar"
    using sc l by (auto simp: scene_ok_def leafs_fit_def)
  have "wf_areas ar" using sc by (simp add: scene_ok_def)
  then obtain b where b: "Cm_AreasConnected ar (leaf_area (leafs bsp l)) ?a = Inr b"
    using areas_total [OF _ la] k'(4,5) by auto
  have c: "0 \<le> ?c" "?c < num_clusters v" using k' k(2) by auto
  then have n: "nat ?c < nat (num_clusters v)" by simp
  have d: "nat ?c div 8 < length row" using cluster_in_row [OF n] m by (simp add: marks_def)
  have "?c div 8 = int (nat ?c div 8)" "nat (?c mod 8) = nat ?c mod 8"
    using c(1) by (simp_all add: zdiv_int nat_mod_distrib)
  then have bit: "at_index row (?c div 8) = Inr (row ! (nat ?c div 8))" using d by (simp add: at_index_def)
  have s: "sees row (nat ?c) \<longleftrightarrow> leaf_cluster (leafs bsp l) \<noteq> -1 \<and> sees (R (nat (leaf_cluster (leafs bsp l)))) (nat ?c)"
    using m n by (simp add: marks_def)
  show ?thesis
    using k(1) k'(2,3) b bit s \<open>nat (?c mod 8) = nat ?c mod 8\<close>
    by (cases b) (auto simp: in_mask_def reaches_def sees_def)
qed

lemma multicast_run:
  assumes sc: "scene_ok (run_bsp s) (run_vis s) (run_areas s) P H" and rows: "rows_ok (run_vis s) (words_of (run_vis s)) (run_rows s)"
    and n: "max_clients s \<le> length (conns s)" and ok: "\<forall>c \<in> set (conns s). conn_ok c"
    and len: "length (contents (multicast s)) \<le> CHAN_BUFFER"
    and ears: "\<And>j. j < max_clients s \<Longrightarrow> asked to (svs_edicts (statics s)) (conns s ! j) \<Longrightarrow> \<not> to_all to \<Longrightarrow>
      \<exists>ps. ed_player (svs_edicts (statics s) (conn_edict (conns s ! j))) = Some ps \<and>
        Cm_PointLeafnum (run_bsp s) (listener (player_pm ps)) = Some (Inr (ear j)) \<and> leaf_cluster (leafs (run_bsp s) (ear j)) \<noteq> -1"
  shows "\<exists>s' l. Sv_Multicast org to s = Some (Inr s') \<and> (\<not> to_all to \<longrightarrow> Cm_PointLeafnum (run_bsp s) org = Some (Inr l)) \<and>
    contents (multicast s') = [] \<and> length (conns s') = length (conns s) \<and> (\<forall>c \<in> set (conns s'). conn_ok c) \<and>
    rows_ok (run_vis s) (words_of (run_vis s)) (run_rows s') \<and>
    (\<exists>cs rs mc. s' = s\<lparr>conns := cs, run_rows := rs, multicast := mc\<rparr>) \<and>
    (\<forall>j < length (conns s). if j < max_clients s \<and> asked to (svs_edicts (statics s)) (conns s ! j) \<and>
        (to_all to \<or> reaches (run_bsp s) (run_areas s) (row_of to P H) l (ear j))
      then got (is_reliable to) (contents (multicast s)) (conns s ! j) (conns s' ! j) else conns s' ! j = conns s ! j)"
proof -
  have mask: "\<exists>l cover rs. multicast_mask to org s = Some (Inr (cover, s\<lparr>run_rows := rs\<rparr>)) \<and> rows_ok (run_vis s) (words_of (run_vis s)) rs \<and>
      (\<not> to_all to \<longrightarrow> Cm_PointLeafnum (run_bsp s) org = Some (Inr l)) \<and>
      (\<forall>j < max_clients s. asked to (svs_edicts (statics s)) (conns s ! j) \<longrightarrow>
         covered s cover (conns s ! j) = Some (Inr (to_all to \<or> reaches (run_bsp s) (run_areas s) (row_of to P H) l (ear j))))"
  proof (cases "to_all to")
    case True
    then have "multicast_mask to org s = Some (Inr (None, s\<lparr>run_rows := run_rows s\<rparr>))"
      by (auto simp: multicast_mask_def to_all_def)
    then show ?thesis using True rows by (intro exI [of _ 0] exI [of _ None] exI [of _ "run_rows s"]) (simp add: covered_def)
  next
    case False
    obtain l row rs where r: "Cm_PointLeafnum (run_bsp s) org = Some (Inr l)" "0 \<le> l" "l < num_leafs (run_bsp s)"
      "multicast_mask to org s = Some (Inr (Some (leaf_area (leafs (run_bsp s) l), row), s\<lparr>run_rows := rs\<rparr>))"
      "rows_ok (run_vis s) (words_of (run_vis s)) rs"
      "marks (run_vis s) row (\<lambda>k. leaf_cluster (leafs (run_bsp s) l) \<noteq> -1 \<and>
        sees (row_of to P H (nat (leaf_cluster (leafs (run_bsp s) l)))) k)"
      using multicast_mask_run [OF sc rows False] by blast
    have "covered s (Some (leaf_area (leafs (run_bsp s) l), row)) (conns s ! j) =
        Some (Inr (reaches (run_bsp s) (run_areas s) (row_of to P H) l (ear j)))"
      if j: "j < max_clients s" "asked to (svs_edicts (statics s)) (conns s ! j)" for j
    proof -
      obtain ps where p: "ed_player (svs_edicts (statics s) (conn_edict (conns s ! j))) = Some ps"
        "Cm_PointLeafnum (run_bsp s) (listener (player_pm ps)) = Some (Inr (ear j))" "leaf_cluster (leafs (run_bsp s) (ear j)) \<noteq> -1"
        using ears [OF j False] by blast
      show ?thesis using in_mask_run [where R = "row_of to P H", OF sc r(2,3,6) p(2,3)] p(1) by (simp add: covered_def)
    qed
    then show ?thesis using r False
      by (intro exI [of _ l] exI [of _ "Some (leaf_area (leafs (run_bsp s) l), row)"] exI [of _ rs]) simp
  qed
  then obtain l cover rs where m: "multicast_mask to org s = Some (Inr (cover, s\<lparr>run_rows := rs\<rparr>))" "rows_ok (run_vis s) (words_of (run_vis s)) rs"
      "\<not> to_all to \<longrightarrow> Cm_PointLeafnum (run_bsp s) org = Some (Inr l)"
      "\<And>j. j < max_clients s \<Longrightarrow> asked to (svs_edicts (statics s)) (conns s ! j) \<Longrightarrow>
         covered s cover (conns s ! j) = Some (Inr (to_all to \<or> reaches (run_bsp s) (run_areas s) (row_of to P H) l (ear j)))"
    by blast
  let ?s = "s\<lparr>run_rows := rs\<rparr>"
  have cov: "covered ?s cover = covered s cover" by (rule covered_cong) simp_all
  have "\<exists>cs. multicast_loop to cover [0 ..< max_clients s] ?s = Some (Inr (?s\<lparr>conns := cs\<rparr>)) \<and> length cs = length (conns ?s) \<and>
    (\<forall>c \<in> set cs. conn_ok c) \<and>
    (\<forall>j < length cs. conn_state (cs ! j) = conn_state (conns ?s ! j) \<and>
      (if j \<in> set [0 ..< max_clients s] \<and> asked to (svs_edicts (statics ?s)) (conns ?s ! j) \<and> (to_all to \<or> reaches (run_bsp s) (run_areas s) (row_of to P H) l (ear j))
       then got (is_reliable to) (contents (multicast ?s)) (conns ?s ! j) (cs ! j) else cs ! j = conns ?s ! j))"
    using n ok len m(4) cov by (intro multicast_loop_run) simp_all
  then obtain cs where raw: "multicast_loop to cover [0 ..< max_clients s] ?s = Some (Inr (?s\<lparr>conns := cs\<rparr>))" "length cs = length (conns ?s)"
      "\<forall>c \<in> set cs. conn_ok c"
      "\<forall>j < length cs. conn_state (cs ! j) = conn_state (conns ?s ! j) \<and>
      (if j \<in> set [0 ..< max_clients s] \<and> asked to (svs_edicts (statics ?s)) (conns ?s ! j) \<and> (to_all to \<or> reaches (run_bsp s) (run_areas s) (row_of to P H) l (ear j))
       then got (is_reliable to) (contents (multicast ?s)) (conns ?s ! j) (cs ! j) else cs ! j = conns ?s ! j)"
    by blast
  have same: "conns ?s = conns s" "statics ?s = statics s" "multicast ?s = multicast s" by simp_all
  have mem: "j \<in> set [0 ..< max_clients s] \<longleftrightarrow> j < max_clients s" for j by simp
  have cs: "multicast_loop to cover [0 ..< max_clients s] ?s = Some (Inr (?s\<lparr>conns := cs\<rparr>))" "length cs = length (conns s)"
    "\<forall>c \<in> set cs. conn_ok c"
    "\<forall>j < length cs. if j < max_clients s \<and> asked to (svs_edicts (statics s)) (conns s ! j) \<and> (to_all to \<or> reaches (run_bsp s) (run_areas s) (row_of to P H) l (ear j))
       then got (is_reliable to) (contents (multicast s)) (conns s ! j) (cs ! j) else cs ! j = conns s ! j"
    using raw unfolding same mem by blast+
  define s' where "s' = s\<lparr>conns := cs, run_rows := rs, multicast := Mem_ClearBuffer (multicast s)\<rparr>"
  have "Sv_Multicast org to s = Some (Inr s')"
    using m(1) cs(1) by (simp add: Sv_Multicast_def clear_multicast_def s'_def)
  moreover have "\<exists>cs rs mc. s' = s\<lparr>conns := cs, run_rows := rs, multicast := mc\<rparr>" unfolding s'_def by blast
  ultimately show ?thesis
    using m(2,3) cs(2-4) by (intro exI [of _ s'] exI [of _ l] conjI) (simp_all add: s'_def)
qed

section \<open>Dropping a client\<close>

lemma drop_client_run:
  assumes i: "i < length (conns s)" and told: "tell_game game (conns s ! i) s = Inr s1" and i1: "i < length (conns s1)"
    and ok: "conn_state (conns s ! i) \<noteq> SV_CLIENT_FREE \<Longrightarrow> wf_chan (chan (conns s1 ! i))"
  shows "\<exists>s'. Sv_DropClient game i s = Inr s' \<and> conns s' = (conns s1)[i := free_conn (conn_edict (conns s1 ! i))] \<and>
    (let ch = chan (conns s1 ! i); room = max_size (message ch) - buf_size (message ch)
     in if conn_state (conns s ! i) = SV_CLIENT_FREE \<or> room = 0 \<or> overflowed (message ch) then packets_out s' = packets_out s1
        else \<exists>k. packets_out s' = packets_out s1 @ [(remote_address ch, packet_bytes (source ch) (qport ch) k)] \<and>
          (reliable_size ch = 0 \<longrightarrow> pk_payload k \<noteq> [] \<and> last (pk_payload k) = word_of_int SV_CMD_DISCONNECT))"
proof (cases "conn_state (conns s ! i) = SV_CLIENT_FREE")
  case True
  then show ?thesis using i told by (simp add: Sv_DropClient_def tell_game_def with_conn_def at_index_def set_conn_def)
next
  case False
  let ?c = "conns s1 ! i"
  let ?ch = "chan ?c"
  let ?b = "message ?ch"
  have wf: "wf_chan ?ch" using ok False by simp
  have b: "wf_buf ?b" "max_size ?b = CHAN_BUFFER" "allow_overflow ?b" using wf by (simp_all add: wf_chan_def)
  define m where "m = (if buf_size ?b + 1 \<le> CHAN_BUFFER then appended [word_of_int SV_CMD_DISCONNECT] ?b
      else appended [word_of_int SV_CMD_DISCONNECT] ((Mem_ClearBuffer ?b)\<lparr>overflowed := True\<rparr>))"
  have w: "Net_WriteByte SV_CMD_DISCONNECT ?b = Inr m"
    unfolding write_as_buffer using b Mem_WriteBuffer_fits [of ?b "[word_of_int SV_CMD_DISCONNECT]"]
      Mem_WriteBuffer_overflow [of ?b "[word_of_int SV_CMD_DISCONNECT]"] by (simp add: m_def CHAN_BUFFER_eq)
  have keeps: "wf_buf m" "max_size m = CHAN_BUFFER" "allow_overflow m"
    using keepsD [OF keeps_writers(1) b(1) w] b(2,3) by simp_all
  let ?ch' = "?ch\<lparr>message := m\<rparr>"
  have wf': "wf_chan ?ch'" using wf keeps by (simp add: wf_chan_def)
  define s2 where "s2 = set_conn i (?c\<lparr>chan := ?ch'\<rparr>) s1"
  have s2: "i < length (conns s2)" "conns s2 ! i = ?c\<lparr>chan := ?ch'\<rparr>" "packets_out s2 = packets_out s1"
      "conns s2 = (conns s1)[i := ?c\<lparr>chan := ?ch'\<rparr>]" "time_now s2 = time_now s1"
    using i1 by (simp_all add: s2_def set_conn_def)
  have free: "set_conn i x (s2\<lparr>conns := (conns s1)[i := y]\<rparr>) = s2\<lparr>conns := (conns s1)[i := x]\<rparr>" for x y by (simp add: set_conn_def)
  obtain c3 p where t: "transmit i (contents m) s2 = Inr (s2\<lparr>conns := (conns s1)[i := c3], packets_out := packets_out s1 @ p\<rparr>)"
    "if overflowed m then p = [] else p = [(remote_address ?ch, packet_bytes (source ?ch) (qport ?ch) (sent_packet ?ch' (contents m)))]"
    "conn_edict c3 = conn_edict ?c"
  proof (cases "overflowed m")
    case True
    then have "transmit i (contents m) s2 = Inr (s2\<lparr>conns := (conns s1)[i := ?c\<lparr>chan := ?ch'\<lparr>fatal_error := True\<rparr>\<rparr>], packets_out := packets_out s1 @ []\<rparr>)"
      using s2 by (simp add: transmit_def at_index_def Netchan_Transmit_def set_conn_def)
    then show ?thesis using that True by simp
  next
    case nov: False
    have "Netchan_Transmit (time_now s2) ?ch' (contents m) =
        Inr (sent_chan (time_now s2) ?ch', Some (packet_bytes (source ?ch) (qport ?ch) (sent_packet ?ch' (contents m))))"
      using Transmit_sends [OF wf', of "time_now s2" "contents m"] nov by simp
    then have "transmit i (contents m) s2 = Inr (s2\<lparr>conns := (conns s1)[i := ?c\<lparr>chan := sent_chan (time_now s2) ?ch'\<rparr>],
        packets_out := packets_out s1 @ [(remote_address ?ch, packet_bytes (source ?ch) (qport ?ch) (sent_packet ?ch' (contents m)))]\<rparr>)"
      using s2 by (simp add: transmit_def at_index_def set_conn_def sent_chan_message)
    then show ?thesis using that nov by simp
  qed
  define s' where "s' = set_conn i (free_conn (conn_edict ?c)) (s2\<lparr>conns := (conns s1)[i := c3], packets_out := packets_out s1 @ p\<rparr>)"
  have wm: "with_conn i (write_message [Net_WriteByte SV_CMD_DISCONNECT]) s1 = Inr s2"
    using i1 w by (simp add: with_conn_def at_index_def write_message_def s2_def)
  have "Sv_DropClient game i s = Inr s'"
    using i i1 told False wm s2(1,2) t(1,3)
    by (simp add: Sv_DropClient_def with_conn_def [of i "\<lambda>c. Inr (free_conn (conn_edict c))"] at_index_def s'_def)
  moreover have over: "overflowed m \<longleftrightarrow> overflowed ?b \<or> CHAN_BUFFER - buf_size ?b = 0"
    using b(1,2) by (auto simp: m_def wf_buf_def)
  moreover have "reliable_size ?ch = 0 \<longrightarrow> pk_payload (sent_packet ?ch' (contents m)) \<noteq> [] \<and>
      last (pk_payload (sent_packet ?ch' (contents m))) = word_of_int SV_CMD_DISCONNECT" if nov: "\<not> overflowed m"
  proof
    assume r: "reliable_size ?ch = 0"
    have fit: "buf_size ?b + length [word_of_int SV_CMD_DISCONNECT :: byte] \<le> max_size ?b" using nov b(2) by (simp add: m_def split: if_splits)
    have cm: "contents m = contents ?b @ [word_of_int SV_CMD_DISCONNECT]" "buf_size m = buf_size ?b + 1"
      using contents_appended [OF b(1) fit] fit b(2) by (simp_all add: m_def)
    have st: "stages ?ch'" using r cm(2) by (simp add: stages_def)
    then have "Netchan_NeedReliable ?ch'" by (simp add: Netchan_NeedReliable_def stages_def Let_def)
    moreover have "reliable_payload (stage ?ch') = contents m" using reliable_payload_stage [OF wf'] st by simp
    ultimately show "pk_payload (sent_packet ?ch' (contents m)) \<noteq> [] \<and>
      last (pk_payload (sent_packet ?ch' (contents m))) = word_of_int SV_CMD_DISCONNECT"
      using cm(1) by (simp add: sent_packet_def Let_def)
  qed
  ultimately show ?thesis
    using t(2) False b(2) by (intro exI [of _ s']) (auto simp: s'_def set_conn_def Let_def split: if_splits)
qed

section \<open>The frame of a client\<close>

lemma packed_first: "\<exists>b qs. packed r cur ms = (cur @ b) # qs"
proof (induction ms arbitrary: cur)
  case Nil
  then show ?case by simp
next
  case (Cons m ms)
  show ?case
  proof (cases "length cur + length m > r")
    case True
    then show ?thesis by simp
  next
    case False
    obtain b qs where "packed r (cur @ m) ms = ((cur @ m) @ b) # qs" using Cons.IH by blast
    then show ?thesis using False by simp
  qed
qed

text \<open>A client of a map.\<close>

definition served :: "(nat \<Rightarrow> byte list) \<Rightarrow> (nat \<Rightarrow> byte list) \<Rightarrow> nat \<Rightarrow> player_state \<Rightarrow> sv_run \<Rightarrow> bool" where
  "served P H i ps s \<longleftrightarrow> (let c = conns s ! i; st = statics s; sv = svs_server st in
     i < length (conns s) \<and> scene_ok (run_bsp s) (run_vis s) (run_areas s) P H \<and>
     rows_ok (run_vis s) (words_of (run_vis s)) (run_rows s) \<and>
     ed_player (svs_edicts st (conn_edict c)) = Some ps \<and> valid_player ps \<and>
     (\<forall>e. 1 \<le> e \<and> e < svs_num_edicts st \<longrightarrow> in_map (run_bsp s) (svs_edicts st e)) \<and>
     svs_num_edicts st \<le> MAX_EDICTS \<and> svs_num_edicts st \<le> length (sv_entity_states sv) \<and> sv_entity_states sv \<noteq> [] \<and>
     unat (svs_next_state st) + svs_num_edicts st \<le> 2 ^ 32 \<and> length (baselines sv) = MAX_EDICTS \<and>
     0 \<le> sv_frame_num sv \<and> sv_frame_num sv < 2 ^ 31 \<and> last_frame (conn_frames c) < 2 ^ 31 \<and>
     length (client_frames (conn_frames c)) = PACKET_BACKUP \<and>
     length (area_bits (client_frames (conn_frames c) ! frame_slot (sv_frame_num sv))) = AREA_BYTES)"

text \<open>
  The frame that has been built is based on one that both sides hold, or on none, and fits a datagram.
\<close>

definition based :: "server \<Rightarrow> sv_client \<Rightarrow> cl_client \<Rightarrow> bool" where
  "based sv scl cl \<longleftrightarrow> in_step sv scl cl \<and> ordered (opt_states sv (delta_frame sv scl)) \<and>
     valid_player (frame_ps0 (delta_frame sv scl)) \<and> length (frame_bytes sv scl) \<le> FRAME_ROOM"

lemma frame_built:
  assumes "served P H i ps s"
  shows "\<exists>s1 l ls. Sv_BuildClientFrame_for i s = Some (Inr s1) \<and>
    (let sv = svs_server (statics s1); scl = conn_frames (conns s1 ! i)
     in ordered (frame_states sv (this_frame sv scl)) \<and> length (baselines sv) = MAX_EDICTS \<and>
       length (area_bits (this_frame sv scl)) = AREA_BYTES \<and> area_bytes (this_frame sv scl) \<le> AREA_BYTES \<and>
       0 \<le> sv_frame_num sv \<and> sv_frame_num sv < 2 ^ 31 \<and> last_frame scl < 2 ^ 31 \<and> last_frame scl = last_frame (conn_frames (conns s ! i)) \<and>
       baselines sv = baselines (svs_server (statics s)) \<and> valid_player ps \<and> frame_ps (this_frame sv scl) = ps \<and>
       Cm_PointLeafnum (run_bsp s) (client_eye (player_pm ps)) = Some (Inr l) \<and> eye_leafs (run_bsp s) (client_eye (player_pm ps)) ls \<and>
       frame_states sv (this_frame sv scl) = map (sent_state (conn_edict (conns s ! i)) (svs_edicts (statics s)))
         (filter (relevant (sent_from (run_bsp s) (run_areas s) P H l ls) (conn_edict (conns s ! i)) (svs_edicts (statics s)))
           [1 ..< svs_num_edicts (statics s)]))"
proof -
  let ?c = "conns s ! i" and ?st = "statics s"
  let ?n = "sv_frame_num (svs_server ?st)"
  have a: "i < length (conns s)" "scene_ok (run_bsp s) (run_vis s) (run_areas s) P H"
     "rows_ok (run_vis s) (words_of (run_vis s)) (run_rows s)" "ed_player (svs_edicts ?st (conn_edict ?c)) = Some ps" "valid_player ps"
     "\<And>e. 1 \<le> e \<Longrightarrow> e < svs_num_edicts ?st \<Longrightarrow> in_map (run_bsp s) (svs_edicts ?st e)"
     "svs_num_edicts ?st \<le> MAX_EDICTS" "svs_num_edicts ?st \<le> length (sv_entity_states (svs_server ?st))" "sv_entity_states (svs_server ?st) \<noteq> []"
     "unat (svs_next_state ?st) + svs_num_edicts ?st \<le> 2 ^ 32" "length (baselines (svs_server ?st)) = MAX_EDICTS"
     "0 \<le> ?n" "?n < 2 ^ 31" "last_frame (conn_frames ?c) < 2 ^ 31"
     "length (client_frames (conn_frames ?c)) = PACKET_BACKUP"
     "length (area_bits (client_frames (conn_frames ?c) ! frame_slot ?n)) = AREA_BYTES"
    using assms by (simp_all add: served_def Let_def)
  from build_frame [OF a(2,3,4,6,7) a(8-10) a(15,16)]
  obtain rows' st' cl' l ls f es where b: "Sv_BuildClientFrame (run_bsp s) (run_vis s) (run_areas s) (conn_edict ?c) (run_rows s) ?st (conn_frames ?c) = Some (Inr (rows', st', cl'))"
    "Cm_PointLeafnum (run_bsp s) (client_eye (player_pm ps)) = Some (Inr l)" "eye_leafs (run_bsp s) (client_eye (player_pm ps)) ls"
    "frame_ps (client_frames cl' ! frame_slot ?n) = ps" "length (area_bits (client_frames cl' ! frame_slot ?n)) = AREA_BYTES"
    "area_bytes (client_frames cl' ! frame_slot ?n) \<le> AREA_BYTES" "ordered (frame_states (svs_server st') (client_frames cl' ! frame_slot ?n))"
    "frame_states (svs_server st') (client_frames cl' ! frame_slot ?n) = map (sent_state (conn_edict ?c) (svs_edicts ?st))
         (filter (relevant (sent_from (run_bsp s) (run_areas s) P H l ls) (conn_edict ?c) (svs_edicts ?st)) [1 ..< svs_num_edicts ?st])"
    "cl' = (conn_frames ?c)\<lparr>client_frames := f\<rparr>" "svs_server st' = (svs_server ?st)\<lparr>sv_entity_states := es\<rparr>"
    unfolding Let_def by blast
  define s1 where "s1 = (set_conn i (?c\<lparr>conn_frames := cl'\<rparr>) s)\<lparr>run_rows := rows', statics := st'\<rparr>"
  have s1: "Sv_BuildClientFrame_for i s = Some (Inr s1)"
    using a(1) b(1) by (simp add: Sv_BuildClientFrame_for_def at_index_def s1_def)
  have e: "svs_server (statics s1) = svs_server st'" "conn_frames (conns s1 ! i) = cl'" using a(1) by (simp_all add: s1_def set_conn_def)
  have n: "sv_frame_num (svs_server st') = ?n" "baselines (svs_server st') = baselines (svs_server ?st)" using b(10) by simp_all
  have tf: "this_frame (svs_server st') cl' = client_frames cl' ! frame_slot ?n" by (simp add: this_frame_def n)
  have lf: "last_frame cl' = last_frame (conn_frames ?c)" using b(9) by simp
  show ?thesis
    using s1 n lf a(5,11-14) b(2-8) unfolding Let_def
    by (intro exI [of _ s1] exI [of _ l] exI [of _ ls] conjI) (simp_all only: e tf)
qed

lemma frame_of_client:
  assumes srv: "served P H i ps s" and fits: "\<And>s1. Sv_BuildClientFrame_for i s = Some (Inr s1) \<Longrightarrow>
      based (svs_server (statics s1)) (conn_frames (conns s1 ! i)) cl"
  shows "\<exists>s1 l ls buf. Sv_BuildClientFrame_for i s = Some (Inr s1) \<and>
    (let sv = svs_server (statics s1); scl = conn_frames (conns s1 ! i)
     in Sv_WriteFrame sv scl frame_buf = Inr (scl\<lparr>surpress_count := 0\<rparr>, buf) \<and> contents buf = frame_bytes sv scl \<and>
       buf_size buf \<le> FRAME_ROOM \<and> sv_sound sv scl \<and> in_step sv scl cl \<and> frame_ps (this_frame sv scl) = ps \<and>
       Cm_PointLeafnum (run_bsp s) (client_eye (player_pm ps)) = Some (Inr l) \<and> eye_leafs (run_bsp s) (client_eye (player_pm ps)) ls \<and>
       frame_states sv (this_frame sv scl) = map (sent_state (conn_edict (conns s ! i)) (svs_edicts (statics s)))
         (filter (relevant (sent_from (run_bsp s) (run_areas s) P H l ls) (conn_edict (conns s ! i)) (svs_edicts (statics s)))
           [1 ..< svs_num_edicts (statics s)]))"
proof -
  obtain s1 l ls where s1: "Sv_BuildClientFrame_for i s = Some (Inr s1)"
    and f: "ordered (frame_states (svs_server (statics s1)) (this_frame (svs_server (statics s1)) (conn_frames (conns s1 ! i))))"
      "length (baselines (svs_server (statics s1))) = MAX_EDICTS"
      "length (area_bits (this_frame (svs_server (statics s1)) (conn_frames (conns s1 ! i)))) = AREA_BYTES"
      "area_bytes (this_frame (svs_server (statics s1)) (conn_frames (conns s1 ! i))) \<le> AREA_BYTES"
      "0 \<le> sv_frame_num (svs_server (statics s1))" "sv_frame_num (svs_server (statics s1)) < 2 ^ 31" "last_frame (conn_frames (conns s1 ! i)) < 2 ^ 31"
      "valid_player ps" "frame_ps (this_frame (svs_server (statics s1)) (conn_frames (conns s1 ! i))) = ps"
      "Cm_PointLeafnum (run_bsp s) (client_eye (player_pm ps)) = Some (Inr l)" "eye_leafs (run_bsp s) (client_eye (player_pm ps)) ls"
      "frame_states (svs_server (statics s1)) (this_frame (svs_server (statics s1)) (conn_frames (conns s1 ! i))) =
        map (sent_state (conn_edict (conns s ! i)) (svs_edicts (statics s)))
         (filter (relevant (sent_from (run_bsp s) (run_areas s) P H l ls) (conn_edict (conns s ! i)) (svs_edicts (statics s)))
           [1 ..< svs_num_edicts (statics s)])"
    using frame_built [OF srv] unfolding Let_def by blast
  let ?sv = "svs_server (statics s1)" and ?scl = "conn_frames (conns s1 ! i)"
  have b: "in_step ?sv ?scl cl" "ordered (opt_states ?sv (delta_frame ?sv ?scl))" "valid_player (frame_ps0 (delta_frame ?sv ?scl))"
      "length (frame_bytes ?sv ?scl) \<le> FRAME_ROOM"
    using fits [OF s1] by (simp_all add: based_def)
  have fok: "sv_frames_ok ?sv (delta_frame ?sv ?scl) (this_frame ?sv ?scl)"
    using f(1,2) b(2) by (simp add: sv_frames_ok_def)
  have sound: "sv_sound ?sv ?scl" using fok f(3-9) b(3) by (simp add: sv_sound_def)
  have wfb: "wf_buf frame_buf" "room frame_buf = MAX_FRAME_SIZE" "contents frame_buf = []"
    by (simp_all add: frame_buf_def wf_buf_def Mem_InitBuffer_def room_def contents_def)
  have "length (frame_bytes ?sv ?scl) \<le> room frame_buf" using b(4) wfb(2) by (simp add: limits)
  from Sv_WriteFrame_writes [OF fok wfb(1) this] obtain buf where w: "Sv_WriteFrame ?sv ?scl frame_buf = Inr (?scl\<lparr>surpress_count := 0\<rparr>, buf)"
    "contents buf = contents frame_buf @ frame_bytes ?sv ?scl" "wf_buf buf" .
  have "buf_size buf \<le> FRAME_ROOM" using length_contents [OF w(3)] w(2) wfb(3) b(4) by simp
  then show ?thesis
    using s1 w wfb(3) sound b(1) f(9-12)
    by (intro exI [of _ s1] exI [of _ l] exI [of _ ls] exI [of _ buf]) (simp add: Let_def)
qed

text \<open>A full frame of few edicts is one, for every client with the baselines of the server.\<close>

lemma full_frame_based:
  assumes srv: "served P H i ps s" and num: "svs_num_edicts (statics s) \<le> 39" and lf: "last_frame (conn_frames (conns s ! i)) = -1"
    and cl: "steady cl" "\<forall>n < MAX_EDICTS. baseline (entities cl ! n) = wire_entity (baselines (svs_server (statics s)) ! n)"
    and r: "Sv_BuildClientFrame_for i s = Some (Inr s1)"
  shows "based (svs_server (statics s1)) (conn_frames (conns s1 ! i)) cl"
proof -
  let ?sv = "svs_server (statics s1)" and ?scl = "conn_frames (conns s1 ! i)"
  have b: "ordered (frame_states ?sv (this_frame ?sv ?scl))" "area_bytes (this_frame ?sv ?scl) \<le> AREA_BYTES" "last_frame ?scl = -1"
      "baselines ?sv = baselines (svs_server (statics s))"
      "\<exists>l ls. frame_states ?sv (this_frame ?sv ?scl) = map (sent_state (conn_edict (conns s ! i)) (svs_edicts (statics s)))
         (filter (relevant (sent_from (run_bsp s) (run_areas s) P H l ls) (conn_edict (conns s ! i)) (svs_edicts (statics s)))
           [1 ..< svs_num_edicts (statics s)])"
    using frame_built [OF srv] r lf by (auto simp: Let_def)
  have d: "delta_frame_num ?sv ?scl = -1" using b(3) by (simp add: delta_frame_num_def)
  then have none: "delta_frame ?sv ?scl = None" by (simp add: delta_frame_def)
  obtain l ls where "frame_states ?sv (this_frame ?sv ?scl) = map (sent_state (conn_edict (conns s ! i)) (svs_edicts (statics s)))
         (filter (relevant (sent_from (run_bsp s) (run_areas s) P H l ls) (conn_edict (conns s ! i)) (svs_edicts (statics s)))
           [1 ..< svs_num_edicts (statics s)])"
    using b(5) by blast
  then have "length (frame_states ?sv (this_frame ?sv ?scl)) \<le> svs_num_edicts (statics s) - 1"
    using length_filter_le [of _ "[1 ..< svs_num_edicts (statics s)]"] by (simp only: length_map) (rule order_trans, assumption, simp)
  then have "num_entities (this_frame ?sv ?scl) \<le> 38" using num by simp
  then have len: "length (frame_bytes ?sv ?scl) \<le> FRAME_ROOM"
    using length_frame [of ?sv ?scl] b(2) by (simp add: none opt_states_def limits)
  have "unat (number e) < MAX_EDICTS" if "e \<in> set (frame_states ?sv (this_frame ?sv ?scl))" for e
    using b(1) that by (auto simp: ordered_def valid_number_def)
  then have "same_baselines cl (baselines ?sv) (frame_states ?sv (this_frame ?sv ?scl))"
    using cl(2) by (simp add: same_baselines_def b(4))
  then have "in_step ?sv ?scl cl" using cl(1) by (simp add: in_step_def d)
  then show ?thesis
    using len valid_null_player by (simp add: based_def none opt_states_def frame_ps0_def ordered_def)
qed

text \<open>Messages that are short enough and intact, on a channel in order.\<close>

definition sendable :: "conn \<Rightarrow> bool" where
  "sendable c \<longleftrightarrow> wf_chan (chan c) \<and> source (chan c) = NS_UDP_SERVER \<and> \<not> overflowed (message (chan c)) \<and>
     dg_ok (datagram c) \<and> \<not> overflowed (dg_buffer (datagram c)) \<and> (\<forall>m \<in> set (pending (datagram c)). length m \<le> FRAME_ROOM)"

lemma frame_arrives:
  assumes srv: "served P H i ps s" and ch: "sendable (conns s ! i)"
    and fits: "\<And>s1. Sv_BuildClientFrame_for i s = Some (Inr s1) \<Longrightarrow> based (svs_server (statics s1)) (conn_frames (conns s1 ! i)) cl"
  shows "\<exists>s' p k ks l ls. Sv_SendClientDatagram i s = Some (Inr s') \<and>
    packets_out s' = packets_out s @ map (\<lambda>k. (remote_address (chan (conns s ! i)), packet_bytes NS_UDP_SERVER (qport (chan (conns s ! i))) k)) (k # ks) \<and>
    pk_payload k = carried (chan (conns s ! i)) p \<and> length p \<le> FRAME_ROOM \<and>
    Cm_PointLeafnum (run_bsp s) (client_eye (player_pm ps)) = Some (Inr l) \<and> eye_leafs (run_bsp s) (client_eye (player_pm ps)) ls \<and>
    (\<forall>msg. unread msg = p \<longrightarrow> (\<exists>cl' n. fst (Net_ReadByte msg) = SV_CMD_FRAME \<and>
       Cl_ParseFrame cl (snd (Net_ReadByte msg)) = Inr (cl', skip_read n msg) \<and> cf_ps (frame cl') = ps \<and>
       client_states cl' (frame cl') = map (wire_entity \<circ> sent_state (conn_edict (conns s ! i)) (svs_edicts (statics s)))
         (filter (relevant (sent_from (run_bsp s) (run_areas s) P H l ls) (conn_edict (conns s ! i)) (svs_edicts (statics s)))
           [1 ..< svs_num_edicts (statics s)])))"
proof -
  let ?c = "conns s ! i"
  obtain s1 l ls buf where f: "Sv_BuildClientFrame_for i s = Some (Inr s1)"
    "Sv_WriteFrame (svs_server (statics s1)) (conn_frames (conns s1 ! i)) frame_buf = Inr ((conn_frames (conns s1 ! i))\<lparr>surpress_count := 0\<rparr>, buf)"
    "contents buf = frame_bytes (svs_server (statics s1)) (conn_frames (conns s1 ! i))"
    "buf_size buf \<le> FRAME_ROOM" "sv_sound (svs_server (statics s1)) (conn_frames (conns s1 ! i))"
    "in_step (svs_server (statics s1)) (conn_frames (conns s1 ! i)) cl"
    "frame_ps (this_frame (svs_server (statics s1)) (conn_frames (conns s1 ! i))) = ps"
    "Cm_PointLeafnum (run_bsp s) (client_eye (player_pm ps)) = Some (Inr l)" "eye_leafs (run_bsp s) (client_eye (player_pm ps)) ls"
    "frame_states (svs_server (statics s1)) (this_frame (svs_server (statics s1)) (conn_frames (conns s1 ! i))) =
      map (sent_state (conn_edict ?c) (svs_edicts (statics s)))
         (filter (relevant (sent_from (run_bsp s) (run_areas s) P H l ls) (conn_edict ?c) (svs_edicts (statics s)))
           [1 ..< svs_num_edicts (statics s)])"
    using frame_of_client [OF srv fits] unfolding Let_def by blast
  let ?sv = "svs_server (statics s1)" and ?scl = "conn_frames (conns s1 ! i)"
  have c: "wf_chan (chan ?c)" "source (chan ?c) = NS_UDP_SERVER" "\<not> overflowed (message (chan ?c))" "dg_ok (datagram ?c)"
    "\<not> overflowed (dg_buffer (datagram ?c))" "\<forall>m \<in> set (pending (datagram ?c)). length m \<le> FRAME_ROOM"
    using ch(1) by (simp_all add: sendable_def)
  let ?ps = "packed FRAME_ROOM (contents buf) (pending (datagram ?c))"
  obtain s' where s': "Sv_SendClientDatagram i s = Some (Inr s')"
    "packets_out s' = packets_out s @ map (\<lambda>k. (remote_address (chan ?c), packet_bytes NS_UDP_SERVER (qport (chan ?c)) k))
      (packets_of (time_now s) (chan ?c) ?ps)"
    using send_datagram [OF f(1,2,4) c(1,3-6)] c(2) by auto
  have wfb: "wf_buf frame_buf" by (simp add: frame_buf_def wf_buf_def Mem_InitBuffer_def)
  have lenb: "length (contents buf) \<le> FRAME_ROOM"
    using length_contents [OF write_frame_keeps(1) [OF wfb f(2)]] f(4) by simp
  obtain b qs where first: "?ps = (contents buf @ b) # qs" using packed_first by blast
  have le: "\<forall>q \<in> set ((contents buf @ b) # qs). length q \<le> FRAME_ROOM"
    using packed_le [OF lenb c(6)] unfolding first by blast
  obtain k ks where k: "packets_of (time_now s) (chan ?c) ?ps = k # ks" "pk_payload k = carried (chan ?c) (contents buf @ b)"
    using first_packet [OF c(2) le] unfolding first by metis
  have read: "\<exists>cl' n. fst (Net_ReadByte msg) = SV_CMD_FRAME \<and> Cl_ParseFrame cl (snd (Net_ReadByte msg)) = Inr (cl', skip_read n msg) \<and>
      cf_ps (frame cl') = ps \<and> client_states cl' (frame cl') = map wire_entity (frame_states ?sv (this_frame ?sv ?scl))"
    if u: "unread msg = contents buf @ b" for msg
  proof -
    have hdb: "frame_bytes ?sv ?scl = [word_of_int SV_CMD_FRAME] @ tl (frame_bytes ?sv ?scl)" by (simp add: frame_bytes_def Let_def)
    have u1: "unread msg = [word_of_int SV_CMD_FRAME] @ (tl (frame_bytes ?sv ?scl) @ b)"
      using u f(3) hdb by simp
    have r: "Net_ReadByte msg = (SV_CMD_FRAME, skip_read 1 msg)"
      using byte_codec.rd_enc [OF u1] by (simp add: SV_CMD_FRAME_def)
    have "unread (skip_read 1 msg) = tl (frame_bytes ?sv ?scl) @ b" using u1 by simp
    from Cl_ParseFrame_reads [OF f(6,5) this] obtain cl' where p:
      "Cl_ParseFrame cl (skip_read 1 msg) = Inr (cl', skip_read (length (frame_bytes ?sv ?scl) - 1) (skip_read 1 msg))"
      "shows_frame ?sv (this_frame ?sv ?scl) cl'" by blast
    have "skip_read (length (frame_bytes ?sv ?scl) - 1) (skip_read 1 msg) = skip_read (length (frame_bytes ?sv ?scl)) msg"
      by (simp add: skip_read_def frame_bytes_def Let_def)
    then show ?thesis
      using r p f(7) by (intro exI [of _ cl'] exI [of _ "length (frame_bytes ?sv ?scl)"]) (simp add: shows_frame_def)
  qed
  have st: "map wire_entity (frame_states ?sv (this_frame ?sv ?scl)) = map (wire_entity \<circ> sent_state (conn_edict ?c) (svs_edicts (statics s)))
         (filter (relevant (sent_from (run_bsp s) (run_areas s) P H l ls) (conn_edict ?c) (svs_edicts (statics s)))
           [1 ..< svs_num_edicts (statics s)])"
    unfolding f(10) by simp
  have lp: "length (contents buf @ b) \<le> FRAME_ROOM" using le by simp
  show ?thesis
    using s'(1) s'(2) [unfolded k(1)] k(2) lp f(8,9) read [unfolded st] by blast
qed

section \<open>A server with a client\<close>

definition sample_conn :: conn where
  "sample_conn = (free_conn 1)\<lparr>conn_state := SV_CLIENT_ACTIVE, conn_frames := sample_sv_client,
     chan := Netchan_Setup 0 NS_UDP_SERVER \<lparr>addr_type = NA_DATAGRAM, addr = 1, port = 2\<rparr> 7,
     datagram := \<lparr>dg_buffer = appended [10, 11] frame_buf, dg_messages = [\<lparr>msg_offset = 0, msg_len = 2\<rparr>]\<rparr>\<rparr>"

definition sample_run :: sv_run where
  "sample_run = \<lparr>svs_initialized = True, run_state = SV_ACTIVE_GAME, statics = sample_static,
     multicast = appended [9] (Mem_InitBuffer (replicate MAX_MSG_SIZE 0) MAX_MSG_SIZE), max_clients = 1, conns = [sample_conn],
     run_bsp = sample_bsp, run_vis = scene_vis, run_areas = sample_areas, run_rows = sample_rows,
     config_strings = replicate MAX_CONFIG_STRINGS [], demo_file = None, packets_out = [], time_now = 5\<rparr>"

lemma frame_buf_simps [simp]: "wf_buf frame_buf" "max_size frame_buf = MAX_FRAME_SIZE" "buf_size frame_buf = 0"
  "allow_overflow frame_buf" "\<not> overflowed frame_buf" "contents frame_buf = []"
  by (simp_all add: frame_buf_def wf_buf_def Mem_InitBuffer_def contents_def)

lemma sample_pending: "pending (datagram sample_conn) = [[10, 11]]"
proof -
  have "contents (appended [10, 11] frame_buf) = [10, 11]"
    using contents_appended [of frame_buf "[10, 11]"] by (simp add: limits)
  then have "take 2 (buf_data (appended [10, 11] frame_buf)) = [10, 11]" by (simp add: contents_def numeral_2_eq_2)
  then show ?thesis by (simp add: pending_def sample_conn_def)
qed

lemma sample_sendable: "sendable sample_conn" "\<not> Netchan_NeedReliable (chan sample_conn)"
proof -
  have "wf_chan (chan sample_conn)" using wf_Setup by (simp add: sample_conn_def)
  moreover have "dg_ok (datagram sample_conn)"
    using wf_appended [of frame_buf "[10, 11]"] by (simp add: dg_ok_def sample_conn_def limits)
  ultimately show "sendable sample_conn"
    unfolding sendable_def sample_pending by (simp add: sample_conn_def Netchan_Setup_def Mem_InitBuffer_def FRAME_ROOM_def limits)
  show "\<not> Netchan_NeedReliable (chan sample_conn)"
    by (simp add: Netchan_NeedReliable_def sample_conn_def Netchan_Setup_def Mem_InitBuffer_def)
qed

lemma sample_conn_ok: "conn_ok sample_conn"
  using sample_sendable(1) by (simp add: conn_ok_def sendable_def) (simp add: sample_conn_def free_conn_def)

lemma sample_edict_in_map: "in_map sample_bsp (svs_edicts sample_static e)"
proof -
  have ents: "svs_edicts sample_static e = sample_edict\<lparr>ed_s := (ed_s sample_edict)\<lparr>event := 1\<rparr>, area_num := 1, ed_num_clusters := 1,
       ed_clusters := 4 # replicate 15 0, ed_player := (if e = 1 then Some sample_player else None)\<rparr>"
    by (simp add: sample_static_def)
  have "1 \<in> (\<lambda>l. leaf_area (leafs sample_bsp l)) ` {0 ..< num_leafs sample_bsp}"
      "4 \<in> (\<lambda>l. leaf_cluster (leafs sample_bsp l)) ` {0 ..< num_leafs sample_bsp}"
    by (rule image_eqI [of _ _ 1]; simp add: sample_bsp_def)+
  then show ?thesis unfolding ents by (simp add: in_map_def sample_edict_def MAX_ENT_CLUSTERS_def)
qed

lemma sample_rows_ok: "rows_ok scene_vis (words_of scene_vis) sample_rows"
  by (simp add: rows_ok_def words_of_def scene_vis_def vis_row_def sample_rows_def)

lemma sample_served: "served (\<lambda>_. [16]) (\<lambda>_. [16]) 0 sample_player sample_run"
proof -
  have "length (area_bits (client_frames sample_sv_client ! frame_slot 1)) = AREA_BYTES"
    using frame_slot_less [of 1] by (simp add: sample_sv_client_def sample_frame_def)
  moreover have "valid_player sample_player"
    by (simp add: valid_player_def sample_player_def null_player_state_def null_pm_state_def)
  moreover have "conns sample_run ! 0 = sample_conn" "statics sample_run = sample_static" "run_bsp sample_run = sample_bsp"
    "run_vis sample_run = scene_vis" "run_areas sample_run = sample_areas" "run_rows sample_run = sample_rows" "length (conns sample_run) = 1"
    by (simp_all add: sample_run_def)
  moreover have "conn_edict sample_conn = 1" "conn_frames sample_conn = sample_sv_client" by (simp_all add: sample_conn_def free_conn_def)
  moreover have "svs_edicts sample_static 1 = sample_edict\<lparr>ed_s := (ed_s sample_edict)\<lparr>event := 1\<rparr>, area_num := 1, ed_num_clusters := 1,
       ed_clusters := 4 # replicate 15 0, ed_player := Some sample_player\<rparr>" "svs_num_edicts sample_static = 3"
     "svs_server sample_static = sample_server\<lparr>sv_entity_states := replicate 8 sample_entity\<rparr>" "svs_next_state sample_static = 6"
    by (simp_all add: sample_static_def)
  ultimately show ?thesis
    unfolding served_def Let_def
    using sample_scene sample_rows_ok sample_edict_in_map
    by (simp add: sample_server_def) (simp add: sample_sv_client_def limits)
qed

section \<open>Properties\<close>


lemma sample_based:
  assumes "Sv_BuildClientFrame_for 0 sample_run = Some (Inr s1)"
  shows "based (svs_server (statics s1)) (conn_frames (conns s1 ! 0)) sample_client"
proof -
  have b: "\<forall>n < MAX_EDICTS. baseline (entities sample_client ! n) = wire_entity (baselines (svs_server (statics sample_run)) ! n)"
    by (simp add: sample_client_def sample_run_def sample_static_def sample_server_def)
  have "steady sample_client" using sample_in_step by (simp add: in_step_def)
  moreover have "svs_num_edicts (statics sample_run) \<le> 39" "last_frame (conn_frames (conns sample_run ! 0)) = -1"
    by (simp_all add: sample_run_def sample_static_def sample_conn_def sample_sv_client_def)
  ultimately show ?thesis using full_frame_based [OF sample_served _ _ _ b assms] by blast
qed

lemma sample_carried: "carried (chan sample_conn) p = p" if "length p \<le> FRAME_ROOM"
  using that sample_sendable(2) by (simp add: carried_def rel_part_def limits)


text \<open>
  C26: The pending messages of a client follow its frame: what is handed to the channel, packet by
  packet, is the frame and then the messages in order, each message whole in one packet with room
  for it, and then nothing is pending. The first datagram carries the reliable message of the
  channel, if there is one to send, and what has been handed over behind it, unless the two do not
  fit \<open>MAX_MSG_SIZE\<close> together: then \<open>Netchan_Transmit\<close> leaves out the frame and the messages that
  were packed with it. The datagrams after the first carry exactly the rest, unless the client
  has acknowledged datagrams that have not been sent. No datagram is longer than
  \<open>MAX_MSG_SIZE\<close>. Other clients are not concerned.
\<close>

theorem datagram_in_order:
  assumes "Sv_BuildClientFrame_for i s = Some (Inr s1)"
    and "Sv_WriteFrame (svs_server (statics s1)) (conn_frames (conns s1 ! i)) frame_buf = Inr (cl, msg)"
    and "buf_size msg \<le> FRAME_ROOM" and "sendable (conns s ! i)"
  defines "ch \<equiv> chan (conns s ! i)"
  shows "\<exists>s' p ps k ks. Sv_SendClientDatagram i s = Some (Inr s') \<and>
    packets_out s' = packets_out s @ map (\<lambda>k. (remote_address ch, packet_bytes NS_UDP_SERVER (qport ch) k)) (k # ks) \<and>
    concat (p # ps) = contents msg @ concat (pending (datagram (conns s ! i))) \<and>
    (\<forall>m \<in> set (pending (datagram (conns s ! i))). \<exists>q \<in> set (p # ps). \<exists>a b. q = a @ m @ b) \<and>
    (\<forall>q \<in> set (p # ps). length q \<le> FRAME_ROOM) \<and>
    (\<forall>k \<in> set (k # ks). length (packet_bytes NS_UDP_SERVER (qport ch) k) \<le> MAX_MSG_SIZE) \<and>
    pk_payload k = rel_part ch @ (if 8 + length (rel_part ch) + length p \<le> MAX_MSG_SIZE then p else []) \<and>
    (\<not> Netchan_NeedReliable ch \<or> incoming_acknowledged ch \<le> outgoing_sequence ch + 1 \<longrightarrow> map pk_payload ks = ps) \<and>
    pending (datagram (conns s' ! i)) = [] \<and> (\<forall>j. j \<noteq> i \<longrightarrow> conns s' ! j = conns s ! j)"
proof -
  let ?c = "conns s ! i"
  have c: "wf_chan (chan ?c)" "source (chan ?c) = NS_UDP_SERVER" "\<not> overflowed (message (chan ?c))" "dg_ok (datagram ?c)"
    "\<not> overflowed (dg_buffer (datagram ?c))" "\<forall>m \<in> set (pending (datagram ?c)). length m \<le> FRAME_ROOM"
    using assms(4) by (simp_all add: sendable_def)
  let ?ps = "packed FRAME_ROOM (contents msg) (pending (datagram ?c))"
  obtain s' where s': "Sv_SendClientDatagram i s = Some (Inr s')"
    "packets_out s' = packets_out s @ map (\<lambda>k. (remote_address (chan ?c), packet_bytes NS_UDP_SERVER (qport (chan ?c)) k))
      (packets_of (time_now s) (chan ?c) ?ps)"
    "\<forall>j. j \<noteq> i \<longrightarrow> conns s' ! j = conns s ! j"
    "datagram (conns s' ! i) = \<lparr>dg_buffer = Mem_ClearBuffer (dg_buffer (datagram ?c)), dg_messages = []\<rparr>"
    using send_datagram [OF assms(1-3) c(1,3-6)] c(2) by auto
  have lenb: "length (contents msg) \<le> FRAME_ROOM"
    using length_contents [OF write_frame_keeps(1) [OF frame_buf_simps(1) assms(2)]] assms(3) by simp
  obtain p ps where first: "?ps = p # ps" using packed_first by blast
  have le: "\<forall>q \<in> set (p # ps). length q \<le> FRAME_ROOM" using packed_le [OF lenb c(6)] unfolding first by blast
  obtain k ks where k: "packets_of (time_now s) (chan ?c) (p # ps) = k # ks" "pk_payload k = carried (chan ?c) p"
      "\<not> Netchan_NeedReliable (chan ?c) \<or> incoming_acknowledged (chan ?c) \<le> outgoing_sequence (chan ?c) + 1 \<Longrightarrow> map pk_payload ks = ps"
    using first_packet [OF c(2) le] by metis
  have whole: "\<forall>m \<in> set (pending (datagram ?c)). \<exists>q \<in> set (p # ps). \<exists>a b. q = a @ m @ b"
  proof
    fix m assume "m \<in> set (pending (datagram ?c))"
    from packed_whole [OF this, of FRAME_ROOM "contents msg"]
    show "\<exists>q \<in> set (p # ps). \<exists>a b. q = a @ m @ b" unfolding first by blast
  qed
  have len: "\<forall>k \<in> set (k # ks). length (packet_bytes NS_UDP_SERVER (qport (chan ?c)) k) \<le> MAX_MSG_SIZE"
    using packets_of_length [OF c(1)] c(2) k(1) by metis
  have "concat (p # ps) = contents msg @ concat (pending (datagram ?c))"
    using concat_packed [of FRAME_ROOM "contents msg" "pending (datagram ?c)"] unfolding first .
  moreover have "pending (datagram (conns s' ! i)) = []" using s'(4) by (simp add: pending_def)
  ultimately show ?thesis
    using s'(1,3) s'(2) [unfolded first k(1)] k(2) [unfolded carried_def] k(3) whole le len unfolding ch_def
    by (intro exI [of _ s'] exI [of _ p] exI [of _ ps] exI [of _ k] exI [of _ ks] conjI) (assumption | rule impI)+
qed

theorem datagram_in_order_witness:
  "\<exists>s' ks bs. Sv_SendClientDatagram 0 sample_run = Some (Inr s') \<and> concat (map pk_payload ks) = bs @ [10, 11] \<and>
     packets_out s' = map (\<lambda>k. (remote_address (chan sample_conn), packet_bytes NS_UDP_SERVER (qport (chan sample_conn)) k)) ks"
proof -
  obtain s1 buf cl where f: "Sv_BuildClientFrame_for 0 sample_run = Some (Inr s1)"
    "Sv_WriteFrame (svs_server (statics s1)) (conn_frames (conns s1 ! 0)) frame_buf = Inr (cl, buf)" "buf_size buf \<le> FRAME_ROOM"
    using frame_of_client [OF sample_served sample_based] unfolding Let_def by blast
  have c: "conns sample_run ! 0 = sample_conn" "packets_out sample_run = []" by (simp_all add: sample_run_def)
  obtain s' p ps k ks where r: "Sv_SendClientDatagram 0 sample_run = Some (Inr s')"
    "packets_out s' = map (\<lambda>k. (remote_address (chan sample_conn), packet_bytes NS_UDP_SERVER (qport (chan sample_conn)) k)) (k # ks)"
    "concat (p # ps) = contents buf @ concat (pending (datagram sample_conn))" "pk_payload k = carried (chan sample_conn) p"
    "\<forall>q \<in> set (p # ps). length q \<le> FRAME_ROOM" "map pk_payload ks = ps"
    using datagram_in_order [OF f, unfolded c, OF sample_sendable(1)] sample_sendable(2) by (auto simp: carried_def)
  have "map pk_payload (k # ks) = p # ps" using r(4-6) sample_carried by simp
  then have "concat (map pk_payload (k # ks)) = contents buf @ [10, 11]" using r(3) sample_pending by simp
  then show ?thesis using r(1,2) by blast
qed

text \<open>
  C27: A multicast reaches exactly the clients it is for: those in use that are no AI (and active, if
  it is not reliable), and, unless it is for all, whose ear is in a leaf that is connected to the
  leaf of its origin by open portals and seen (or heard) from it. Their message grows by it, or
  is marked as overflowed. All others stay as they are, and the multicast is cleared.
\<close>

theorem multicast_reaches:
  assumes "scene_ok (run_bsp s) (run_vis s) (run_areas s) P H" and "rows_ok (run_vis s) (words_of (run_vis s)) (run_rows s)"
    and "max_clients s \<le> length (conns s)" and "\<forall>c \<in> set (conns s). conn_ok c"
    and "length (contents (multicast s)) \<le> CHAN_BUFFER"
    and "\<And>j. j < max_clients s \<Longrightarrow> asked to (svs_edicts (statics s)) (conns s ! j) \<Longrightarrow> \<not> to_all to \<Longrightarrow>
      \<exists>ps. ed_player (svs_edicts (statics s) (conn_edict (conns s ! j))) = Some ps \<and>
        Cm_PointLeafnum (run_bsp s) (listener (player_pm ps)) = Some (Inr (ear j)) \<and> leaf_cluster (leafs (run_bsp s) (ear j)) \<noteq> -1"
  shows "\<exists>s' l. Sv_Multicast org to s = Some (Inr s') \<and> (\<not> to_all to \<longrightarrow> Cm_PointLeafnum (run_bsp s) org = Some (Inr l)) \<and>
    contents (multicast s') = [] \<and>
    (\<forall>j < length (conns s). if j < max_clients s \<and> asked to (svs_edicts (statics s)) (conns s ! j) \<and>
        (to_all to \<or> reaches (run_bsp s) (run_areas s) (row_of to P H) l (ear j))
      then got (is_reliable to) (contents (multicast s)) (conns s ! j) (conns s' ! j) else conns s' ! j = conns s ! j)"
  using multicast_run [where P = P and H = H and ear = ear and org = org, OF assms] by blast

theorem multicast_reaches_witness:
  "\<exists>s'. Sv_Multicast (Vec3 20 0 0) MULTICAST_PHS sample_run = Some (Inr s') \<and>
     pending (datagram (conns s' ! 0)) = [[10, 11], [9]]"
proof -
  let ?s = sample_run
  have s: "run_bsp ?s = sample_bsp" "run_vis ?s = scene_vis" "run_areas ?s = sample_areas" "run_rows ?s = sample_rows"
    "max_clients ?s = 1" "conns ?s = [sample_conn]" "statics ?s = sample_static"
    by (simp_all add: sample_run_def)
  have m: "contents (multicast ?s) = [9]"
    using contents_appended [of "Mem_InitBuffer (replicate MAX_MSG_SIZE 0) MAX_MSG_SIZE" "[9]"] wf_InitBuffer [of "replicate MAX_MSG_SIZE 0"]
    by (simp add: sample_run_def Mem_InitBuffer_def limits contents_def)
  have ed: "conn_edict sample_conn = 1" "ed_player (svs_edicts sample_static 1) = Some sample_player" "\<not> ed_ai (svs_edicts sample_static 1)"
    by (simp_all add: sample_conn_def free_conn_def sample_static_def sample_edict_def)
  have ask: "asked MULTICAST_PHS (svs_edicts sample_static) sample_conn"
    using ed by (simp add: asked_def) (simp add: sample_conn_def)
  have ear: "listener (player_pm sample_player) = Vec3 20 0 0" by code_simp
  have leaf: "leaf_cluster (leafs sample_bsp 1) = 4" "leaf_area (leafs sample_bsp 1) = 1" by (simp_all add: sample_bsp_def)
  have "\<exists>s' l. Sv_Multicast (Vec3 20 0 0) MULTICAST_PHS ?s = Some (Inr s') \<and>
    (\<not> to_all MULTICAST_PHS \<longrightarrow> Cm_PointLeafnum (run_bsp ?s) (Vec3 20 0 0) = Some (Inr l)) \<and> contents (multicast s') = [] \<and>
    (\<forall>j < length (conns ?s). if j < max_clients ?s \<and> asked MULTICAST_PHS (svs_edicts (statics ?s)) (conns ?s ! j) \<and>
        (to_all MULTICAST_PHS \<or> reaches (run_bsp ?s) (run_areas ?s) (row_of MULTICAST_PHS (\<lambda>_. [16]) (\<lambda>_. [16])) l 1)
      then got (is_reliable MULTICAST_PHS) (contents (multicast ?s)) (conns ?s ! j) (conns s' ! j) else conns s' ! j = conns ?s ! j)"
    by (rule multicast_reaches [where ear = "\<lambda>_. 1"])
      (use ed(2) ear in \<open>simp_all add: s m sample_scene sample_rows_ok sample_conn_ok CHAN_BUFFER_eq ed(1) sample_eye_leaf leaf\<close>)
  moreover have re: "reaches sample_bsp sample_areas (\<lambda>_. [16]) 1 1"
    using sample_joined by (simp add: reaches_def leaf sees_def)
  ultimately obtain s' where r: "Sv_Multicast (Vec3 20 0 0) MULTICAST_PHS ?s = Some (Inr s')"
    "got (is_reliable MULTICAST_PHS) (contents (multicast ?s)) (conns ?s ! 0) (conns s' ! 0)"
    using ask by (auto simp: s to_all_def row_of_def sample_eye_leaf)
  then have "got False [9] sample_conn (conns s' ! 0)" by (simp add: s m is_reliable_def)
  moreover have "max_size (dg_buffer (datagram sample_conn)) = 8192" "buf_size (dg_buffer (datagram sample_conn)) = 2"
      "\<not> overflowed (dg_buffer (datagram sample_conn))"
    by (simp_all add: sample_conn_def limits)
  ultimately have "pending (datagram (conns s' ! 0)) = [[10, 11], [9]]"
    using sample_pending by (simp add: got_def Let_def)
  then show ?thesis using r(1) by blast
qed

text \<open>
  C28: \<open>Sv_DropClient\<close> always frees the slot. If the client is in the game, the game is told first, and
  may print, multicast and change what it likes of the server (\<open>s1\<close>), as long as the client keeps a
  well-formed channel. Apart from what the game has done, no other client changes. The client is told
  in one datagram that ends with the command to disconnect, unless its reliable messages have
  overflowed, fill the buffer, or an earlier one is still outstanding.
\<close>

theorem client_dropped:
  assumes "i < length (conns s)" and "tell_game game (conns s ! i) s = Inr s1" and "i < length (conns s1)"
    and "conn_state (conns s ! i) \<noteq> SV_CLIENT_FREE \<Longrightarrow> wf_chan (chan (conns s1 ! i))"
  shows "\<exists>s'. Sv_DropClient game i s = Inr s' \<and> conns s' = (conns s1)[i := free_conn (conn_edict (conns s1 ! i))] \<and>
    (let ch = chan (conns s1 ! i); room = max_size (message ch) - buf_size (message ch)
     in if conn_state (conns s ! i) = SV_CLIENT_FREE \<or> room = 0 \<or> overflowed (message ch) then packets_out s' = packets_out s1
        else \<exists>k. packets_out s' = packets_out s1 @ [(remote_address ch, packet_bytes (source ch) (qport ch) k)] \<and>
          (reliable_size ch = 0 \<longrightarrow> pk_payload k \<noteq> [] \<and> last (pk_payload k) = word_of_int SV_CMD_DISCONNECT))"
  using assms by (rule drop_client_run)

text \<open>A game that tells all clients of one that leaves.\<close>

definition sample_export :: game_export where
  "sample_export = \<lparr>ClientDisconnect = (\<lambda>n s. Sv_BroadcastPrint PRINT_HIGH (''player left'' @ [newline]) s)\<rparr>"

lemma sample_told:
  obtains s1 c where "tell_game sample_export sample_conn sample_run = Inr s1" "conns s1 = [c]" "conn_edict c = 1"
    "packets_out s1 = []" "wf_chan (chan c)" "source (chan c) = NS_UDP_SERVER" "qport (chan c) = 7" "reliable_size (chan c) = 0"
    "\<not> overflowed (message (chan c))" "buf_size (message (chan c)) < CHAN_BUFFER" "remote_address (chan c) = remote_address (chan sample_conn)"
proof -
  let ?ch = "chan sample_conn" and ?t = "''player left'' @ [newline]"
  have c: "conn_state sample_conn = SV_CLIENT_ACTIVE" "\<not> PRINT_HIGH < message_level sample_conn" "conn_edict sample_conn = 1"
      "conns sample_run = [sample_conn]" "max_clients sample_run = 1" "packets_out sample_run = []"
    by (simp_all add: sample_conn_def free_conn_def PRINT_HIGH_def sample_run_def)
  have wf: "wf_chan ?ch" using sample_sendable(1) by (simp add: sendable_def)
  have ch: "source ?ch = NS_UDP_SERVER" "qport ?ch = 7" "reliable_size ?ch = 0"
    "\<not> overflowed (message ?ch)" "buf_size (message ?ch) = 0" "max_size (message ?ch) = CHAN_BUFFER"
    by (simp_all add: sample_conn_def Netchan_Setup_def Mem_InitBuffer_def)
  define m where "m = message ?ch"
  have m: "wf_buf m" "\<not> overflowed m" "buf_size m = 0" "max_size m = 1384" "allow_overflow m"
    using wf ch by (simp_all add: m_def wf_chan_def CHAN_BUFFER_eq)
  define b where "b = appended (string_bytes (Some ?t)) (appended [word_of_int PRINT_HIGH] (appended [word_of_int SV_CMD_PRINT] m))"
  have w: "run_seq [Net_WriteByte SV_CMD_PRINT, Net_WriteByte PRINT_HIGH, Net_WriteString (Some ?t)] m = Inr b"
    unfolding write_as_buffer b_def using m by (simp add: Mem_WriteBuffer_fits string_bytes_def del: append.simps)
  have ws: "keeps (run_seq [Net_WriteByte SV_CMD_PRINT, Net_WriteByte PRINT_HIGH, Net_WriteString (Some ?t)])" by (intro keeps_intros)
  have b: "wf_buf b" "max_size b = CHAN_BUFFER" "allow_overflow b" "\<not> overflowed b" "buf_size b < CHAN_BUFFER"
    using keepsD [OF ws m(1) w] m by (simp_all add: CHAN_BUFFER_eq) (simp_all add: b_def string_bytes_def)
  let ?c = "sample_conn\<lparr>chan := ?ch\<lparr>message := b\<rparr>\<rparr>"
  have "print_to PRINT_HIGH ?t sample_conn = Inr ?c"
    using w unfolding m_def print_to_def write_message_def by (simp only: bindE_simps)
  then have "with_conn 0 (\<lambda>cl. if PRINT_HIGH < message_level cl then Inr cl
      else if conn_state cl \<noteq> SV_CLIENT_ACTIVE then Inr cl else print_to PRINT_HIGH ?t cl) sample_run = Inr (set_conn 0 ?c sample_run)"
    using c(1,2) by (simp add: with_conn_def c(4) at_index_def del: append.simps)
  moreover have "formatted ?t = Inr ?t" by (simp add: formatted_def limits)
  moreover have "[0 ..< 1] = [0 :: nat]" by simp
  ultimately have "Sv_BroadcastPrint PRINT_HIGH ?t sample_run = Inr (set_conn 0 ?c sample_run)"
    unfolding Sv_BroadcastPrint_def c(5) by (simp only: bindE_simps list.map run_seq.simps)
  then have "tell_game sample_export sample_conn sample_run = Inr (set_conn 0 ?c sample_run)"
    by (simp add: tell_game_def c(1) sample_export_def)
  moreover have "wf_chan (?ch\<lparr>message := b\<rparr>)" using wf b by (simp add: wf_chan_def)
  ultimately show ?thesis
    using that [of "set_conn 0 ?c sample_run" ?c] b ch c by (simp add: set_conn_def)
qed

theorem client_dropped_witness:
  "\<exists>s1 s' k. tell_game sample_export sample_conn sample_run = Inr s1 \<and> Sv_DropClient sample_export 0 sample_run = Inr s' \<and>
     conns s' = [free_conn 1] \<and>
     packets_out s' = [(remote_address (chan sample_conn), packet_bytes NS_UDP_SERVER 7 k)] \<and> last (pk_payload k) = 4"
proof -
  obtain s1 c where r: "tell_game sample_export sample_conn sample_run = Inr s1" "conns s1 = [c]" "conn_edict c = 1"
    "packets_out s1 = []" "wf_chan (chan c)" "source (chan c) = NS_UDP_SERVER" "qport (chan c) = 7" "reliable_size (chan c) = 0"
    "\<not> overflowed (message (chan c))" "buf_size (message (chan c)) < CHAN_BUFFER" "remote_address (chan c) = remote_address (chan sample_conn)"
    using sample_told by metis
  have c: "conns sample_run = [sample_conn]" "conn_state sample_conn \<noteq> SV_CLIENT_FREE" "max_size (message (chan c)) = CHAN_BUFFER"
    using r(5) by (simp_all add: sample_run_def wf_chan_def) (simp add: sample_conn_def)
  then have room: "max_size (message (chan c)) - buf_size (message (chan c)) \<noteq> 0" using r(10) by simp
  show ?thesis
    using client_dropped [of 0 sample_run sample_export s1] r(1,5) c(1,2) room r(9)
    by (auto simp: r(2-4,6-8,11) Let_def SV_CMD_DISCONNECT_def)
qed

end
