(* ===== verification/Sv_Game.thy ===== *)
theory Sv_Game
  imports Sv_Send_Laws
begin

text \<open>
  What the game does to the server: its callbacks reach the clients only through the functions
  of the import table that \<open>Sv_InitGame\<close> (\<open>src/server/sv_game.c\<close>) hands out. The game prints,
  multicasts, plays sounds, sets config strings, writes into the multicast buffer, and changes
  its edicts and the portals of the areas. No such call sends a packet; the clients
  only get messages to be sent later.
\<close>

section \<open>What a client hears\<close>

definition conn_step :: "conn \<Rightarrow> conn \<Rightarrow> bool" where
  "conn_step c c' \<longleftrightarrow> (\<exists>level str. print_to level str c = Inr c') \<or> (\<exists>r bytes. send_multicast r bytes c = Inr c')"

abbreviation hears :: "conn \<Rightarrow> conn \<Rightarrow> bool" where
  "hears \<equiv> conn_step\<^sup>*\<^sup>*"

lemma conn_step_keeps:
  assumes "conn_step c c'"
  shows "conn_state c' = conn_state c" "user_info c' = user_info c" "conn_edict c' = conn_edict c"
    "remote_address (chan c') = remote_address (chan c)" "conn_frames c' = conn_frames c" "conn_name c' = conn_name c"
  using assms by (auto simp: conn_step_def print_to_def write_message_def send_multicast_def bindE_eq_Inr simp del: run_seq.simps split: if_splits)

lemma hears_keeps:
  assumes "hears c c'"
  shows "conn_state c' = conn_state c" "user_info c' = user_info c" "conn_edict c' = conn_edict c"
    "remote_address (chan c') = remote_address (chan c)" "conn_frames c' = conn_frames c" "conn_name c' = conn_name c"
  using assms by (induction rule: rtranclp_induct) (simp_all add: conn_step_keeps)

definition clients_ok :: "sv_run \<Rightarrow> bool" where
  "clients_ok s \<longleftrightarrow> (\<forall>c \<in> set (conns s). conn_ok c)"

lemma clients_ok_all: "clients_ok s \<longleftrightarrow> (\<forall>j < length (conns s). conn_ok (conns s ! j))"
  by (simp add: clients_ok_def all_set_conv_all_nth)

lemma conn_ok_message:
  assumes "conn_ok c" and "\<And>w. w \<in> set ws \<Longrightarrow> keeps w" and "write_message ws c = Inr c'"
  shows "conn_ok c'"
proof -
  obtain b where b: "run_seq ws (message (chan c)) = Inr b" "c' = c\<lparr>chan := (chan c)\<lparr>message := b\<rparr>\<rparr>"
    using assms(3) by (auto simp: write_message_def bindE_eq_Inr)
  show ?thesis
  proof (cases "conn_state c = SV_CLIENT_FREE")
    case True
    then show ?thesis using b by (simp add: conn_ok_def)
  next
    case False
    then have wf: "wf_chan (chan c)" using assms(1) by (simp add: conn_ok_def)
    then have "wf_buf (message (chan c))" by (simp add: wf_chan_def)
    note k = keepsD [OF keeps_run_seq this b(1), OF assms(2)]
    have "wf_chan ((chan c)\<lparr>message := b\<rparr>)" using wf k by (simp add: wf_chan_def)
    then show ?thesis using assms(1) False b(2) by (simp add: conn_ok_def)
  qed
qed

lemma conn_ok_print: "conn_ok c \<Longrightarrow> print_to level str c = Inr c' \<Longrightarrow> conn_ok c'"
  unfolding print_to_def by (erule conn_ok_message) (auto intro: keeps_writers)

lemma conn_ok_multicast:
  assumes "conn_ok c" and "send_multicast r bytes c = Inr c'"
  shows "conn_ok c'"
proof (cases r)
  case True
  then show ?thesis using assms conn_ok_message [of c "[Mem_WriteBuffer bytes]" c'] by (simp add: send_multicast_def keeps_WriteBuffer)
next
  case False
  then obtain d where d: "Sv_DatagramMessage bytes (datagram c) = Inr d" "c' = c\<lparr>datagram := d\<rparr>"
    using assms(2) by (auto simp: send_multicast_def bindE_eq_Inr)
  have len: "length bytes \<le> MAX_MSG_SIZE" using d(1) by (auto simp: Sv_DatagramMessage_def split: if_splits)
  show ?thesis
  proof (cases "conn_state c = SV_CLIENT_FREE")
    case True
    then show ?thesis using d by (simp add: conn_ok_def)
  next
    case False
    then have "dg_ok (datagram c)" using assms(1) by (simp add: conn_ok_def)
    then have "dg_ok d" using datagram_message [OF _ len, of "datagram c"] d(1) by (metis sum.inject(2))
    then show ?thesis using assms(1) d(2) by (simp add: conn_ok_def)
  qed
qed

lemma conn_step_ok: "conn_step c c' \<Longrightarrow> conn_ok c \<Longrightarrow> conn_ok c'"
  unfolding conn_step_def by (elim disjE exE) (erule conn_ok_print conn_ok_multicast, assumption)+

lemma hears_ok: "hears c c' \<Longrightarrow> conn_ok c \<Longrightarrow> conn_ok c'"
  by (induction rule: rtranclp_induct) (auto intro: conn_step_ok)

lemma print_to_wf:
  assumes "conn_state c \<noteq> SV_CLIENT_FREE \<longrightarrow> wf_chan (chan c)" and "print_to level str c = Inr c'"
  shows "conn_state c' \<noteq> SV_CLIENT_FREE \<longrightarrow> wf_chan (chan c')"
proof -
  obtain b where b: "run_seq [Net_WriteByte SV_CMD_PRINT, Net_WriteByte level, Net_WriteString (Some str)] (message (chan c)) = Inr b"
      "c' = c\<lparr>chan := (chan c)\<lparr>message := b\<rparr>\<rparr>"
    using assms(2) by (auto simp: print_to_def write_message_def bindE_eq_Inr simp del: run_seq.simps)
  have w: "keeps (run_seq [Net_WriteByte SV_CMD_PRINT, Net_WriteByte level, Net_WriteString (Some str)])"
    by (intro keeps_intros)
  show ?thesis
    using assms(1) b(2) keepsD [OF w _ b(1)] by (auto simp: wf_chan_def)
qed

lemma hears_wf:
  assumes "hears c c'" and "conn_state c \<noteq> SV_CLIENT_FREE \<longrightarrow> wf_chan (chan c)"
  shows "conn_state c' \<noteq> SV_CLIENT_FREE \<longrightarrow> wf_chan (chan c')"
  using assms
proof (induction rule: rtranclp_induct)
  case base
  then show ?case by simp
next
  case (step d e)
  have "conn_state e \<noteq> SV_CLIENT_FREE \<longrightarrow> wf_chan (chan e)" if m: "send_multicast r bytes d = Inr e" for r bytes
  proof (cases r)
    case True
    then obtain b where b: "Mem_WriteBuffer bytes (message (chan d)) = Inr b" "e = d\<lparr>chan := (chan d)\<lparr>message := b\<rparr>\<rparr>"
      using m by (auto simp: send_multicast_def write_message_def bindE_eq_Inr)
    then show ?thesis using step.IH [OF step.prems] keepsD [OF keeps_WriteBuffer _ b(1)] by (auto simp: wf_chan_def)
  next
    case False
    then show ?thesis using m step.IH [OF step.prems] by (auto simp: send_multicast_def bindE_eq_Inr)
  qed
  then show ?case using step.hyps(2) print_to_wf step.IH [OF step.prems] unfolding conn_step_def by blast
qed

section \<open>The effect of the calls\<close>

definition effect :: "sv_run \<Rightarrow> sv_run \<Rightarrow> bool" where
  "effect s s' \<longleftrightarrow> list_all2 hears (conns s) (conns s') \<and> packets_out s' = packets_out s \<and> time_now s' = time_now s \<and>
     max_clients s' = max_clients s \<and> run_state s' = run_state s \<and> svs_initialized s' = svs_initialized s \<and>
     run_bsp s' = run_bsp s \<and> run_vis s' = run_vis s \<and> demo_file s' = demo_file s \<and>
     svs_real_time (statics s') = svs_real_time (statics s) \<and> svs_server (statics s') = svs_server (statics s) \<and>
     length (config_strings s') = length (config_strings s) \<and>
     (wf_buf (multicast s) \<longrightarrow> wf_buf (multicast s') \<and> max_size (multicast s') = max_size (multicast s))"

lemma effect_refl: "effect s s"
  by (simp add: effect_def list_all2_same)

lemma effect_trans: "effect s t \<Longrightarrow> effect t u \<Longrightarrow> effect s u"
  unfolding effect_def by (auto intro: list_all2_trans [where ?P1.0 = hears and ?P2.0 = hears])

lemma effect_conn:
  assumes "\<And>c'. f (conns s ! i) = Inr c' \<Longrightarrow> hears (conns s ! i) c'" and "with_conn i f s = Inr s'"
  shows "effect s s'"
proof -
  obtain c' where c: "i < length (conns s)" "f (conns s ! i) = Inr c'" "s' = set_conn i c' s"
    using assms(2) by (auto simp: with_conn_def bindE_eq_Inr at_index_eq_Inr)
  have "list_all2 hears (conns s) ((conns s)[i := c'])"
    using assms(1) [OF c(2)] c(1) by (auto simp: list_all2_conv_all_nth nth_list_update)
  then show ?thesis by (simp add: c(3) effect_def set_conn_def)
qed

lemma hears_print: "print_to level str c = Inr c' \<Longrightarrow> hears c c'"
  by (rule r_into_rtranclp) (auto simp: conn_step_def)

lemma hears_multicast: "send_multicast r bytes c = Inr c' \<Longrightarrow> hears c c'"
  by (rule r_into_rtranclp) (auto simp: conn_step_def)

lemma effect_ClientPrint: "Sv_ClientPrint n level str s = Inr s' \<Longrightarrow> effect s s'"
  by (auto simp: Sv_ClientPrint_def bindE_eq_Inr effect_refl split: if_splits intro: effect_conn [OF hears_print])

lemma effect_BroadcastPrint:
  assumes "Sv_BroadcastPrint level str s = Inr s'"
  shows "effect s s'"
proof -
  have loop: "run_seq (map (\<lambda>i. with_conn i (\<lambda>cl.
           if level < message_level cl then Inr cl
           else if conn_state cl \<noteq> SV_CLIENT_ACTIVE then Inr cl
           else print_to level str cl)) js) s = Inr s' \<Longrightarrow> effect s s'" for str js s
  proof (induction js arbitrary: s)
    case Nil
    then show ?case by (simp add: effect_refl)
  next
    case (Cons i js)
    then obtain t where t: "with_conn i (\<lambda>cl. if level < message_level cl then Inr cl
           else if conn_state cl \<noteq> SV_CLIENT_ACTIVE then Inr cl else print_to level str cl) s = Inr t"
      "run_seq (map (\<lambda>i. with_conn i (\<lambda>cl. if level < message_level cl then Inr cl
           else if conn_state cl \<noteq> SV_CLIENT_ACTIVE then Inr cl else print_to level str cl)) js) t = Inr s'"
      by (auto simp: bindE_eq_Inr)
    have "effect s t" by (rule effect_conn [OF _ t(1)]) (auto split: if_splits intro: hears_print)
    then show ?case using Cons.IH [OF t(2)] by (rule effect_trans)
  qed
  obtain str' where "run_seq (map (\<lambda>i. with_conn i (\<lambda>cl.
           if level < message_level cl then Inr cl
           else if conn_state cl \<noteq> SV_CLIENT_ACTIVE then Inr cl
           else print_to level str' cl)) [0 ..< max_clients s]) s = Inr s'"
    using assms by (auto simp: Sv_BroadcastPrint_def bindE_eq_Inr)
  then show ?thesis by (rule loop)
qed

lemma effect_clear: "effect s (clear_multicast s)"
  by (simp add: effect_def clear_multicast_def list_all2_same wf_ClearBuffer) (simp add: Mem_ClearBuffer_def)

lemma effect_writes: "keeps w \<Longrightarrow> w (multicast s) = Inr b \<Longrightarrow> effect s (s\<lparr>multicast := b\<rparr>)"
  using keepsD [of w "multicast s" b] by (simp add: effect_def list_all2_same)

lemma effect_Unicast: "Sv_Unicast ent reliable s = Inr s' \<Longrightarrow> effect s s'"
  by (auto simp: Sv_Unicast_def bindE_eq_Inr effect_refl split: option.splits if_splits
      intro: effect_trans [OF effect_conn [OF hears_multicast] effect_clear])

lemma effect_multicast_to: "multicast_to to cover j s = Some (Inr s') \<Longrightarrow> effect s s'"
  by (auto simp: multicast_to_def bindO_eq_Inr Let_def effect_refl split: if_splits intro: effect_conn [OF hears_multicast])

lemma effect_multicast_loop: "multicast_loop to cover js s = Some (Inr s') \<Longrightarrow> effect s s'"
proof (induction js arbitrary: s)
  case Nil
  then show ?case by (simp add: effect_refl)
next
  case (Cons j js)
  then obtain t where t: "multicast_to to cover j s = Some (Inr t)" "multicast_loop to cover js t = Some (Inr s')"
    by (auto simp: bindO_eq_Inr)
  show ?case by (rule effect_trans [OF effect_multicast_to [OF t(1)] Cons.IH [OF t(2)]])
qed

lemma effect_Multicast:
  assumes "Sv_Multicast org to s = Some (Inr s')"
  shows "effect s s'"
proof -
  obtain cover t u where t: "multicast_mask to org s = Some (Inr (cover, t))"
    "multicast_loop to cover [0 ..< max_clients t] t = Some (Inr u)" "s' = clear_multicast u"
    using assms by (auto simp: Sv_Multicast_def bindO_eq_Inr)
  have "effect s t"
    using t(1) by (auto simp: multicast_mask_def bindO_eq_Inr effect_refl split: if_splits)
      (simp_all add: effect_def list_all2_same)
  then show ?thesis
    using effect_trans [OF effect_trans [OF _ effect_multicast_loop [OF t(2)]] effect_clear] unfolding t(3) by blast
qed

lemma effect_PositionedSound:
  assumes "Sv_PositionedSound org n index atten s = Some (Inr s')"
  shows "effect s s'"
proof -
  obtain w b org' to where b: "keeps w" "w (multicast s) = Inr b" "Sv_Multicast org' to (s\<lparr>multicast := b\<rparr>) = Some (Inr s')"
  proof -
    let ?att = "if atten > ATTEN_STATIC then ATTEN_DEFAULT else atten"
    let ?flags = "sound_flags org n (svs_edicts (statics s) n) ?att"
    let ?pos = "sound_origin org (svs_edicts (statics s) n)"
    let ?ws = "[Net_WriteByte SV_CMD_SOUND, Net_WriteByte (uint ?flags), Net_WriteByte (uint index),
            when_do (?flags AND S_ATTEN \<noteq> 0) (Net_WriteByte (uint ?att)),
            when_do (?flags AND S_ENTNUM \<noteq> 0) (Net_WriteShort (int n)),
            when_do (?flags AND S_ORIGIN \<noteq> 0) (Net_WritePosition ?pos)]"
    have k: "keeps (run_seq ?ws)" by (intro keeps_intros)
    obtain b where "run_seq ?ws (multicast s) = Inr b"
        "Sv_Multicast ?pos (if atten \<noteq> ATTEN_NONE then MULTICAST_PHS else MULTICAST_ALL) (s\<lparr>multicast := b\<rparr>) = Some (Inr s')"
      using assms by (auto simp only: Sv_PositionedSound_def Let_def bindO_eq_Inr)
    then show ?thesis by (rule that [OF k])
  qed
  show ?thesis by (rule effect_trans [OF effect_writes [OF b(1,2)] effect_Multicast [OF b(3)]])
qed

lemma effect_ConfigString:
  assumes "Sv_ConfigString index val s = Some (Inr s')"
  shows "effect s s'"
proof -
  define v where "v = (case val of None \<Rightarrow> [] | Some v \<Rightarrow> v)"
  define t where "t = s\<lparr>config_strings := (config_strings s)[index := strlcpy v MAX_STRING_CHARS]\<rparr>"
  let ?ws = "[Net_WriteByte SV_CMD_CONFIG_STRING, Net_WriteShort (int index), Net_WriteString (Some v)]"
  have st: "effect s t" by (simp add: t_def effect_def list_all2_same)
  consider "s' = s" | "s' = t" | b where "run_seq ?ws (Mem_ClearBuffer (multicast t)) = Inr b"
      "Sv_Multicast (Vec3 0 0 0) MULTICAST_ALL_R (t\<lparr>multicast := b\<rparr>) = Some (Inr s')"
    using assms unfolding Sv_ConfigString_def v_def [symmetric] Let_def t_def [symmetric]
    by (auto simp: bindO_eq_Inr t_def simp del: run_seq.simps split: if_splits)
  then show ?thesis
  proof cases
    case 3
    have k: "keeps (run_seq ?ws)" by (intro keeps_intros)
    have "keeps (\<lambda>b. run_seq ?ws (Mem_ClearBuffer b))"
      unfolding keeps_def
    proof (intro allI impI)
      fix b b' assume b: "wf_buf b" and r: "run_seq ?ws (Mem_ClearBuffer b) = Inr b'"
      show "wf_buf b' \<and> max_size b' = max_size b \<and> allow_overflow b' = allow_overflow b"
        using keepsD [OF k wf_ClearBuffer [OF b] r] by (simp add: Mem_ClearBuffer_def)
    qed
    from effect_trans [OF effect_writes [OF this 3(1)] effect_Multicast [OF 3(2)]]
    show ?thesis by (rule effect_trans [OF st])
  qed (simp_all add: effect_refl st)
qed

section \<open>The calls\<close>

text \<open>
  The entries of the import table that change the server. A new index of a model, a sound or
  an image (\<open>Sv_FindIndex\<close> of \<open>sv_init.c\<close>) is the setting of an empty config string;
  \<open>writes\<close> stands for the message wrappers, and \<open>edicts\<close> for what the game does to its own entities, for the linking of
  edicts and for the portals.
\<close>

inductive game_step :: "sv_run \<Rightarrow> sv_run \<Rightarrow> bool" where
  print: "Sv_ClientPrint n level str s = Inr s' \<Longrightarrow> game_step s s'"
| broadcast: "Sv_BroadcastPrint level str s = Inr s' \<Longrightarrow> game_step s s'"
| unicast: "Sv_Unicast ent reliable s = Inr s' \<Longrightarrow> game_step s s'"
| multicast: "Sv_Multicast org to s = Some (Inr s') \<Longrightarrow> game_step s s'"
| positioned_sound: "Sv_PositionedSound src n index atten s = Some (Inr s') \<Longrightarrow> game_step s s'"
| config_string: "Sv_ConfigString index val s = Some (Inr s') \<Longrightarrow> game_step s s'"
| writes: "keeps w \<Longrightarrow> w (multicast s) = Inr b \<Longrightarrow> game_step s (s\<lparr>multicast := b\<rparr>)"
| edicts: "game_step s (s\<lparr>statics := (statics s)\<lparr>svs_edicts := eds, svs_num_edicts := n\<rparr>, run_areas := ar\<rparr>)"

abbreviation game_steps :: "sv_run \<Rightarrow> sv_run \<Rightarrow> bool" where
  "game_steps \<equiv> game_step\<^sup>*\<^sup>*"

lemma game_step_effect: "game_step s s' \<Longrightarrow> effect s s'"
proof (induction rule: game_step.induct)
  case (edicts s eds n ar)
  then show ?case by (simp add: effect_def list_all2_same)
qed (blast intro: effect_ClientPrint effect_BroadcastPrint effect_Unicast effect_Multicast effect_PositionedSound
      effect_ConfigString effect_writes)+

lemma game_steps_effect: "game_steps s s' \<Longrightarrow> effect s s'"
  by (induction rule: rtranclp_induct) (auto intro: effect_refl effect_trans game_step_effect)

lemma effect_clients:
  assumes "effect s s'"
  shows "length (conns s') = length (conns s)" "i < length (conns s) \<Longrightarrow> hears (conns s ! i) (conns s' ! i)"
    "clients_ok s \<Longrightarrow> clients_ok s'"
proof -
  have a: "list_all2 hears (conns s) (conns s')" using assms by (simp add: effect_def)
  show len: "length (conns s') = length (conns s)" using list_all2_lengthD [OF a] by simp
  show h: "i < length (conns s) \<Longrightarrow> hears (conns s ! i) (conns s' ! i)" for i using list_all2_nthD [OF a] .
  show "clients_ok s \<Longrightarrow> clients_ok s'" using h hears_ok len by (auto simp: clients_ok_all)
qed

text \<open>A server that can serve these calls.\<close>

definition ready :: "sv_run \<Rightarrow> bool" where
  "ready s \<longleftrightarrow> clients_ok s \<and> max_clients s \<le> length (conns s) \<and> wf_buf (multicast s) \<and>
     max_size (multicast s) = MAX_MSG_SIZE \<and> length (config_strings s) = MAX_CONFIG_STRINGS"

lemma ready_packets [simp]: "ready (s\<lparr>packets_out := p\<rparr>) = ready s"
  by (simp add: ready_def clients_ok_def)

lemma effect_ready: "effect s s' \<Longrightarrow> ready s \<Longrightarrow> ready s'"
  using effect_clients [of s s'] by (simp add: ready_def) (simp add: effect_def)

lemma ready_conn: "ready s \<Longrightarrow> conn_ok c \<Longrightarrow> ready (set_conn i c s)"
  using set_update_subset_insert [of "conns s" i c] by (auto simp: ready_def clients_ok_def set_conn_def)

lemma ready_print:
  assumes "ready s" and "length str < MAX_STRING_CHARS"
  shows "\<exists>s'. Sv_BroadcastPrint level str s = Inr s'"
proof -
  let ?f = "\<lambda>i. with_conn i (\<lambda>cl. if level < message_level cl then Inr cl
           else if conn_state cl \<noteq> SV_CLIENT_ACTIVE then Inr cl else print_to level str cl)"
  have one: "\<exists>t. ?f i s = Inr t \<and> length (conns t) = length (conns s) \<and> clients_ok t" if "i < length (conns s)" "clients_ok s" for i s
  proof -
    let ?c = "conns s ! i"
    have ok: "conn_ok ?c" using that by (simp add: clients_ok_def)
    have "\<exists>c'. print_to level str ?c = Inr c'" if "conn_state ?c = SV_CLIENT_ACTIVE"
    proof -
      have wf: "wf_chan (chan ?c)" using ok that by (simp add: conn_ok_def)
      have wr: "\<exists>b'. Mem_WriteBuffer bs b = Inr b' \<and> wf_buf b' \<and> max_size b' = CHAN_BUFFER \<and> allow_overflow b'"
        if w: "wf_buf b" "max_size b = CHAN_BUFFER" "allow_overflow b" "length bs \<le> CHAN_BUFFER" for b bs
      proof -
        obtain b' where b': "Mem_WriteBuffer bs b = Inr b'"
          using w(2-4) Mem_WriteBuffer_fits [of b bs] Mem_WriteBuffer_overflow [of b bs] by (metis linorder_not_less)
        show ?thesis using b' WriteBuffer_keeps [OF w(1) b'] w(2,3) by simp
      qed
      have len: "length (string_bytes (Some str)) \<le> CHAN_BUFFER" using assms(2) by (simp add: string_bytes_def CHAN_BUFFER_eq limits)
      have m: "wf_buf (message (chan ?c))" "max_size (message (chan ?c)) = CHAN_BUFFER" "allow_overflow (message (chan ?c))"
        using wf by (simp_all add: wf_chan_def)
      obtain b1 where b1: "Mem_WriteBuffer [word_of_int SV_CMD_PRINT] (message (chan ?c)) = Inr b1" "wf_buf b1" "max_size b1 = CHAN_BUFFER" "allow_overflow b1"
        using wr [OF m, of "[word_of_int SV_CMD_PRINT]"] by (auto simp: CHAN_BUFFER_eq)
      obtain b2 where b2: "Mem_WriteBuffer [word_of_int level] b1 = Inr b2" "wf_buf b2" "max_size b2 = CHAN_BUFFER" "allow_overflow b2"
        using wr [OF b1(2-4), of "[word_of_int level]"] by (auto simp: CHAN_BUFFER_eq)
      obtain b3 where "Mem_WriteBuffer (string_bytes (Some str)) b2 = Inr b3"
        using wr [OF b2(2-4) len] by blast
      then show ?thesis using b1(1) b2(1) by (simp add: print_to_def write_message_def write_as_buffer)
    qed
    then obtain c' where c: "(if level < message_level ?c then Inr ?c
        else if conn_state ?c \<noteq> SV_CLIENT_ACTIVE then Inr ?c else print_to level str ?c) = Inr c'" by fastforce
    then have "conn_ok c'" using ok conn_ok_print by (auto split: if_splits)
    then have "clients_ok (set_conn i c' s)" using that(2) set_update_subset_insert [of "conns s" i c'] by (auto simp: clients_ok_def set_conn_def)
    then show ?thesis using c that(1) by (auto simp: with_conn_def at_index_def set_conn_def)
  qed
  have "\<exists>s'. run_seq (map ?f js) s = Inr s'" if "\<forall>j \<in> set js. j < length (conns s)" "clients_ok s" for js s
    using that
  proof (induction js arbitrary: s)
    case Nil
    then show ?case by simp
  next
    case (Cons j js)
    then obtain t where "?f j s = Inr t" "length (conns t) = length (conns s)" "clients_ok t" using one [of j s] by auto
    then show ?case using Cons.IH [of t] Cons.prems(1) by simp
  qed
  then obtain s' where "run_seq (map ?f [0 ..< max_clients s]) s = Inr s'" using assms(1) by (force simp: ready_def)
  then show ?thesis using assms(2) by (simp add: Sv_BroadcastPrint_def formatted_def)
qed

text \<open>A game that acts on the server in this way when a client leaves.\<close>

definition through_server :: "game_export \<Rightarrow> bool" where
  "through_server game \<longleftrightarrow> (\<forall>e s s'. ClientDisconnect game e s = Inr s' \<longrightarrow> game_steps s s')"

lemma told_effect: "through_server game \<Longrightarrow> tell_game game c s = Inr s' \<Longrightarrow> effect s s'"
  by (auto simp: tell_game_def through_server_def effect_refl split: if_splits intro: game_steps_effect)

lemma sample_through: "through_server sample_export"
  by (auto simp: through_server_def sample_export_def intro: game_step.broadcast)

text \<open>
  \<open>G_ClientDisconnect\<close> of the default game (\<open>src/game/default/g_client.c\<close>), as far as the server
  sees it: a print, the effect at the place of the client, the edict taken out of the
  game, and its config string cleared.
\<close>

lemma default_disconnect:
  assumes "Sv_BroadcastPrint PRINT_HIGH str s = Inr s1" and "keeps w" and "w (multicast s1) = Inr b"
    and "Sv_Multicast org MULTICAST_ALL (s1\<lparr>multicast := b\<rparr>) = Some (Inr s2)"
    and "Sv_ConfigString index None (s2\<lparr>statics := (statics s2)\<lparr>svs_edicts := eds, svs_num_edicts := n\<rparr>, run_areas := ar\<rparr>) = Some (Inr s3)"
  shows "game_steps s s3"
  using game_step.broadcast [OF assms(1)] game_step.writes [OF assms(2,3)] game_step.multicast [OF assms(4)]
    game_step.edicts [where s = s2 and eds = eds and n = n and ar = ar] game_step.config_string [OF assms(5)]
  by (meson converse_rtranclp_into_rtranclp rtranclp.rtrancl_refl)

end
