(* ===== verification/Sv_Send_Stays.thy ===== *)
theory Sv_Send_Stays
  imports Sv_Game
begin

text \<open>
  The clients stay well-formed: every operation of \<open>sv_send.c\<close>, and the dropping of clients
  and the shutdown, keep the channels and the datagrams of the clients in use as the
  other theories rely on them.
\<close>

section \<open>Every operation keeps the clients well-formed\<close>

named_theorems stays_intros \<open>operations that keep the clients well-formed\<close>

definition stays :: "(sv_run \<Rightarrow> sv_run result) \<Rightarrow> bool" where
  "stays f \<longleftrightarrow> (\<forall>s s'. clients_ok s \<longrightarrow> f s = Inr s' \<longrightarrow> clients_ok s')"

lemma stays_skip [stays_intros]: "stays Inr"
  by (simp add: stays_def)

lemma staysD: "stays f \<Longrightarrow> clients_ok s \<Longrightarrow> f s = Inr s' \<Longrightarrow> clients_ok s'"
  unfolding stays_def by blast

lemma stays_run_seq: "(\<And>f. f \<in> set fs \<Longrightarrow> stays f) \<Longrightarrow> stays (run_seq fs)"
proof (induction fs)
  case Nil
  then show ?case by (simp add: stays_def)
next
  case (Cons f fs)
  have f: "stays f" and fs: "stays (run_seq fs)" using Cons by simp_all
  show ?case
    unfolding stays_def
  proof (intro allI impI)
    fix s s' assume s: "clients_ok s" and r: "run_seq (f # fs) s = Inr s'"
    then obtain t where t: "f s = Inr t" "run_seq fs t = Inr s'" by (auto simp: bindE_eq_Inr)
    show "clients_ok s'" by (rule staysD [OF fs staysD [OF f s t(1)] t(2)])
  qed
qed

lemma clients_ok_set: "clients_ok s \<Longrightarrow> conn_ok c \<Longrightarrow> clients_ok (set_conn i c s)"
  using set_update_subset_insert [of "conns s" i c] by (auto simp: clients_ok_def set_conn_def)

lemma clients_ok_nth: "clients_ok s \<Longrightarrow> i < length (conns s) \<Longrightarrow> conn_ok (conns s ! i)"
  by (simp add: clients_ok_def)

lemma clients_ok_other [simp]:
  "clients_ok (s\<lparr>multicast := m\<rparr>) = clients_ok s" "clients_ok (s\<lparr>run_rows := rs\<rparr>) = clients_ok s"
  "clients_ok (s\<lparr>statics := st\<rparr>) = clients_ok s" "clients_ok (s\<lparr>packets_out := ps\<rparr>) = clients_ok s"
  "clients_ok (s\<lparr>demo_file := f\<rparr>) = clients_ok s"
  by (simp_all add: clients_ok_def)

lemma stays_with_conn [stays_intros]:
  assumes "\<And>c c'. conn_ok c \<Longrightarrow> f c = Inr c' \<Longrightarrow> conn_ok c'"
  shows "stays (with_conn i f)"
  unfolding stays_def
proof (intro allI impI)
  fix s s' assume s: "clients_ok s" and r: "with_conn i f s = Inr s'"
  obtain c' where c: "i < length (conns s)" "f (conns s ! i) = Inr c'" "s' = set_conn i c' s"
    using r by (auto simp: with_conn_def bindE_eq_Inr at_index_eq_Inr)
  show "clients_ok s'"
    unfolding c(3) by (rule clients_ok_set [OF s assms [OF clients_ok_nth [OF s c(1)] c(2)]])
qed

lemma stays_transmit [stays_intros]: "stays (transmit i p)"
  unfolding stays_def
proof (intro allI impI)
  fix s s' assume s: "clients_ok s" and t: "transmit i p s = Inr s'"
  obtain ch sent where r: "i < length (conns s)" "Netchan_Transmit (time_now s) (chan (conns s ! i)) p = Inr (ch, sent)"
    "\<exists>ps. s' = (set_conn i ((conns s ! i)\<lparr>chan := ch\<rparr>) s)\<lparr>packets_out := ps\<rparr>"
    using t by (auto simp: transmit_def bindE_eq_Inr at_index_eq_Inr)
  have ok: "conn_ok (conns s ! i)" by (rule clients_ok_nth [OF s r(1)])
  have "wf_chan ch" if wf: "wf_chan (chan (conns s ! i))"
  proof (cases "overflowed (message (chan (conns s ! i)))")
    case True
    then show ?thesis using r(2) wf by (auto simp: Netchan_Transmit_def wf_chan_def)
  next
    case False
    then have "ch = sent_chan (time_now s) (chan (conns s ! i))" using r(2) by (simp add: Transmit_sends [OF wf])
    then show ?thesis using wf_sent_chan [OF wf] by simp
  qed
  then have "conn_ok ((conns s ! i)\<lparr>chan := ch\<rparr>)" using ok by (simp add: conn_ok_def)
  then show "clients_ok s'" using clients_ok_set [OF s] r(3) by auto
qed

text \<open>The operations that the game is given, too\<close>

lemma stays_effect: "(\<And>s s'. f s = Inr s' \<Longrightarrow> effect s s') \<Longrightarrow> stays f"
  unfolding stays_def using effect_clients(3) by blast

lemma stays_ClientPrint: "stays (Sv_ClientPrint n level str)"
  by (rule stays_effect) (rule effect_ClientPrint)

lemma stays_BroadcastPrint: "stays (Sv_BroadcastPrint level str)"
  by (rule stays_effect) (rule effect_BroadcastPrint)

lemma stays_Unicast: "stays (Sv_Unicast ent reliable)"
  by (rule stays_effect) (rule effect_Unicast)

lemma stays_told: "through_server game \<Longrightarrow> stays (tell_game game c)"
  by (rule stays_effect) (rule told_effect)

lemma free_conn_ok [simp]: "conn_ok (free_conn e)"
  by (simp add: conn_ok_def free_conn_def)

lemma stays_DropClient: "through_server game \<Longrightarrow> stays (Sv_DropClient game i)"
  unfolding stays_def
proof (intro allI impI)
  fix s s' assume game: "through_server game" and s: "clients_ok s" and d: "Sv_DropClient game i s = Inr s'"
  then have i: "i < length (conns s)" by (auto simp: Sv_DropClient_def bindE_eq_Inr at_index_eq_Inr)
  obtain s1 where s1: "tell_game game (conns s ! i) s = Inr s1"
  proof (cases "conn_state (conns s ! i) = SV_CLIENT_FREE")
    case True
    then show ?thesis using that by (simp add: tell_game_def)
  next
    case False
    then show ?thesis using that d i by (auto simp: Sv_DropClient_def bindE_eq_Inr at_index_def)
  qed
  note e = effect_clients [OF told_effect [OF game s1]]
  have "conn_state (conns s ! i) \<noteq> SV_CLIENT_FREE \<Longrightarrow> wf_chan (chan (conns s1 ! i))"
    using hears_wf [OF e(2) [OF i]] hears_keeps(1) [OF e(2) [OF i]] clients_ok_nth [OF s i] by (simp add: conn_ok_def)
  from drop_client_run [OF i s1 _ this] d i e(1)
  have "conns s' = (conns s1)[i := free_conn (conn_edict (conns s1 ! i))]" by auto
  then show "clients_ok s'" using clients_ok_set [OF e(3) [OF s] free_conn_ok] by (simp add: clients_ok_def set_conn_def)
qed

text \<open>The same for operations with loops.\<close>

definition stays_run :: "(sv_run \<Rightarrow> sv_run run) \<Rightarrow> bool" where
  "stays_run f \<longleftrightarrow> (\<forall>s s'. clients_ok s \<longrightarrow> f s = Some (Inr s') \<longrightarrow> clients_ok s')"

lemma stays_runD: "stays_run f \<Longrightarrow> clients_ok s \<Longrightarrow> f s = Some (Inr s') \<Longrightarrow> clients_ok s'"
  unfolding stays_run_def by blast

lemma stays_runI: "(\<And>s s'. clients_ok s \<Longrightarrow> f s = Some (Inr s') \<Longrightarrow> clients_ok s') \<Longrightarrow> stays_run f"
  unfolding stays_run_def by blast

lemma stays_run_effect: "(\<And>s s'. f s = Some (Inr s') \<Longrightarrow> effect s s') \<Longrightarrow> stays_run f"
  unfolding stays_run_def using effect_clients(3) by blast

lemma stays_Multicast: "stays_run (Sv_Multicast org to)"
  by (rule stays_run_effect) (rule effect_Multicast)

lemma stays_PositionedSound: "stays_run (Sv_PositionedSound org n index atten)"
  by (rule stays_run_effect) (rule effect_PositionedSound)

lemma stays_ConfigString: "stays_run (Sv_ConfigString index val)"
  by (rule stays_run_effect) (rule effect_ConfigString)

lemma stays_BroadcastCommand: "stays_run (Sv_BroadcastCommand str)"
proof (rule stays_runI)
  fix s s' assume s: "clients_ok s" and r: "Sv_BroadcastCommand str s = Some (Inr s')"
  show "clients_ok s'"
  proof (cases "run_state s = SV_UNINITIALIZED")
    case True
    then show ?thesis using r s by (simp add: Sv_BroadcastCommand_def)
  next
    case False
    then obtain b where "Sv_Multicast (Vec3 0 0 0) MULTICAST_ALL_R (s\<lparr>multicast := b\<rparr>) = Some (Inr s')"
      using r by (auto simp: Sv_BroadcastCommand_def bindO_eq_Inr simp del: run_seq.simps)
    then show ?thesis by (rule stays_runD [OF stays_Multicast, rotated]) (simp add: s)
  qed
qed

lemma stays_packetize:
  "clients_ok s \<Longrightarrow> packetize i bytes ms msg s = Inr (msg', s') \<Longrightarrow> clients_ok s'"
proof (induction ms arbitrary: msg s)
  case Nil
  then show ?case by simp
next
  case (Cons m ms)
  obtain b t b' where t: "(if buf_size msg + msg_len m > FRAME_ROOM
            then bindE (transmit i (contents msg) s) (\<lambda>s. Inr (Mem_ClearBuffer msg, s)) else Inr (msg, s)) = Inr (b, t)"
    "packetize i bytes ms b' t = Inr (msg', s')"
    using Cons.prems(2) unfolding packetize.simps bindE_eq_Inr by (auto simp: bindE_eq_Inr split: if_splits)
  have "clients_ok t"
    using t(1) Cons.prems(1) staysD [OF stays_transmit Cons.prems(1)] by (auto simp: bindE_eq_Inr split: if_splits)
  then show ?case by (rule Cons.IH [OF _ t(2)])
qed

lemma stays_SendClientDatagram:
  assumes s: "clients_ok s" and r: "Sv_SendClientDatagram i s = Some (Inr s')" and used: "conn_state (conns s ! i) \<noteq> SV_CLIENT_FREE"
  shows "clients_ok s'"
proof -
  obtain s1 where b: "Sv_BuildClientFrame_for i s = Some (Inr s1)" using r by (auto simp: Sv_SendClientDatagram_def bindO_eq_Inr)
  obtain cl0 where s1: "i < length (conns s)" "conns s1 = (conns s)[i := (conns s ! i)\<lparr>conn_frames := cl0\<rparr>]"
    using build_for [OF b] by metis
  let ?c = "conns s1 ! i"
  have c: "conn_ok ?c" using clients_ok_nth [OF s s1(1)] s1 by (simp add: conn_ok_def)
  have ok1: "clients_ok s1" using clients_ok_set [OF s c, of i] s1 by (simp add: clients_ok_def set_conn_def)
  have at: "at_index (conns s1) (int i) = Inr ?c" using s1 by (simp add: at_index_def)
  obtain cl msg where w: "Sv_WriteFrame (svs_server (statics s1)) (conn_frames ?c) frame_buf = Inr (cl, msg)"
    using r b at by (auto simp: Sv_SendClientDatagram_def frame_buf_def [symmetric] bindO_eq_Inr)
  let ?s2 = "set_conn i (?c\<lparr>conn_frames := cl\<rparr>) s1"
  have ok2: "clients_ok ?s2" using c by (intro clients_ok_set [OF ok1]) (simp add: conn_ok_def)
  have body: "bindO (Some (if overflowed (dg_buffer (datagram ?c)) then Inr (msg, ?s2)
                         else packetize i (buf_data (dg_buffer (datagram ?c))) (dg_messages (datagram ?c)) msg ?s2)) (\<lambda>(msg, s).
            bindO (Some (transmit i (contents msg) s)) (\<lambda>s.
              Some (with_conn i (\<lambda>c. Inr (c\<lparr>
                message_size := (message_size c)[rate_slot s := word_of_nat (buf_size (dg_buffer (datagram ?c)))],
                datagram := \<lparr>dg_buffer = Mem_ClearBuffer (dg_buffer (datagram ?c)), dg_messages = []\<rparr>\<rparr>)) s))) = Some (Inr s')"
    using r b at w by (auto simp: Sv_SendClientDatagram_def frame_buf_def [symmetric] Let_def split: if_splits)
  obtain b3 s3 where p: "(if overflowed (dg_buffer (datagram ?c)) then Inr (msg, ?s2)
         else packetize i (buf_data (dg_buffer (datagram ?c))) (dg_messages (datagram ?c)) msg ?s2) = Inr (b3, s3)"
    using body by (auto simp: bindO_eq_Inr)
  have ok3: "clients_ok s3" using p ok2 stays_packetize by (auto split: if_splits)
  obtain s4 where t: "transmit i (contents b3) s3 = Inr s4"
    and f: "with_conn i (\<lambda>c. Inr (c\<lparr>message_size := (message_size c)[rate_slot s4 := word_of_nat (buf_size (dg_buffer (datagram ?c)))],
                datagram := \<lparr>dg_buffer = Mem_ClearBuffer (dg_buffer (datagram ?c)), dg_messages = []\<rparr>\<rparr>)) s4 = Inr s'"
    using body unfolding p by (auto simp: bindO_eq_Inr)
  have ok4: "clients_ok s4" by (rule staysD [OF stays_transmit ok3 t])


  have "dg_ok (datagram ?c)" using c used s1 by (simp add: conn_ok_def)
  then have "dg_ok \<lparr>dg_buffer = Mem_ClearBuffer (dg_buffer (datagram ?c)), dg_messages = []\<rparr>"
    by (simp add: dg_ok_def wf_ClearBuffer) (simp add: Mem_ClearBuffer_def)
  then show "clients_ok s'"
    by (intro staysD [OF stays_with_conn ok4 f]) (auto simp: conn_ok_def)
qed

lemma shutdown_empty: "clients_ok (s\<lparr>conns := []\<rparr>)"
  by (simp add: clients_ok_def)

lemma stays_ShutdownServer: "stays (Sv_ShutdownServer msg)"
  unfolding stays_def
proof (intro allI impI)
  fix s s' assume s: "clients_ok s" and r: "Sv_ShutdownServer msg s = Inr s'"
  obtain t where t: "Sv_ShutdownMessage (Some msg) False s = Inr t"
    "conns s' = (if svs_initialized t then [] else conns t)"
    using r by (auto simp: Sv_ShutdownServer_def bindE_eq_Inr)
  have "clients_ok t"
  proof (cases "svs_initialized s")
    case False
    then show ?thesis using t(1) s by (simp add: Sv_ShutdownMessage_def)
  next
    case True
    then obtain m where m: "run_seq (map (\<lambda>i s. bindE (at_index (conns s) (int i)) (\<lambda>c.
          if conn_state c \<noteq> SV_CLIENT_FREE then transmit i (contents m) s else Inr s)) [0 ..< max_clients s]) s = Inr t"
      using t(1) by (auto simp: Sv_ShutdownMessage_def bindE_eq_Inr simp del: run_seq.simps)
    have "stays (\<lambda>s. bindE (at_index (conns s) (int i)) (\<lambda>c. if conn_state c \<noteq> SV_CLIENT_FREE then transmit i (contents m) s else Inr s))" for i
      unfolding stays_def by (auto simp: bindE_eq_Inr split: if_splits dest: staysD [OF stays_transmit])
    then show ?thesis by (intro staysD [OF stays_run_seq s m]) auto
  qed
  then show "clients_ok s'" using t(2) by (simp add: clients_ok_def split: if_splits)
qed

lemma stays_demo:
  assumes s: "clients_ok s" and "Sv_GetDemoMessage s = Inr (bs, s')"
  shows "clients_ok s'"
proof (cases "demo_file s")
  case None
  then have "Sv_ShutdownServer ''Demo complete'' s = Inr s'" using assms(2) by (simp add: Sv_GetDemoMessage_def bindE_eq_Inr Let_def)
  then show ?thesis by (rule staysD [OF stays_ShutdownServer s])
next
  case (Some f)
  then have "\<exists>f. s' = s\<lparr>demo_file := f\<rparr> \<or> Sv_ShutdownServer ''Demo complete'' (s\<lparr>demo_file := f\<rparr>) = Inr s'"
    using assms(2) by (auto simp: Sv_GetDemoMessage_def bindE_eq_Inr Let_def split: if_splits)
  then obtain f' where f: "s' = s\<lparr>demo_file := f'\<rparr> \<or> Sv_ShutdownServer ''Demo complete'' (s\<lparr>demo_file := f'\<rparr>) = Inr s'" by blast
  have ok: "clients_ok (s\<lparr>demo_file := f'\<rparr>)" using s by simp
  then show ?thesis using f staysD [OF stays_ShutdownServer ok] by blast
qed

lemma stays_overflow_drop: "through_server game \<Longrightarrow> stays (overflow_drop game i)"
  unfolding stays_def
proof (intro allI impI)
  fix s s' assume game: "through_server game" and s: "clients_ok s" and r: "overflow_drop game i s = Inr s'"
  then have i: "i < length (conns s)" by (auto simp: overflow_drop_def bindE_eq_Inr at_index_eq_Inr)
  let ?c = "conns s ! i"
  let ?c' = "?c\<lparr>chan := (chan ?c)\<lparr>message := Mem_ClearBuffer (message (chan ?c))\<rparr>,
      datagram := (datagram ?c)\<lparr>dg_buffer := Mem_ClearBuffer (dg_buffer (datagram ?c))\<rparr>\<rparr>"
  show "clients_ok s'"
  proof (cases "overflowed (message (chan ?c))")
    case False
    then show ?thesis using r s i by (simp add: overflow_drop_def at_index_def)
  next
    case True
    then obtain t where t: "Sv_BroadcastPrint PRINT_HIGH (conn_name ?c' @ '' overflowed'' @ [CHR 0x0A]) (set_conn i ?c' s) = Inr t"
      "Sv_DropClient game i t = Inr s'"
      using r i by (auto simp: overflow_drop_def at_index_def bindE_eq_Inr Let_def)
    note e1 = effect_clients [OF effect_BroadcastPrint [OF t(1)]]
    have it: "i < length (conns t)" using i e1(1) by (simp add: set_conn_def)
    obtain u where u: "tell_game game (conns t ! i) t = Inr u"
    proof (cases "conn_state (conns t ! i) = SV_CLIENT_FREE")
      case True
      then show ?thesis using that by (simp add: tell_game_def)
    next
      case False
      then show ?thesis using that t(2) it by (auto simp: Sv_DropClient_def bindE_eq_Inr at_index_def)
    qed
    note e2 = effect_clients [OF told_effect [OF game u]]
    have len: "length (conns u) = length (conns s)" using e1(1) e2(1) by (simp add: set_conn_def)
    have h: "hears (conns (set_conn i ?c' s) ! j) (conns u ! j)" if "j < length (conns s)" for j
      using rtranclp_trans [OF e1(2) e2(2)] that e1(1) by (simp add: set_conn_def)
    have "conn_state ?c \<noteq> SV_CLIENT_FREE \<longrightarrow> wf_chan ((chan ?c)\<lparr>message := Mem_ClearBuffer (message (chan ?c))\<rparr>)"
      using clients_ok_nth [OF s i] by (simp add: conn_ok_def wf_chan_def) (simp add: Mem_ClearBuffer_def)
    then have "conn_state (conns u ! i) \<noteq> SV_CLIENT_FREE \<longrightarrow> wf_chan (chan (conns u ! i))"
      using hears_wf [OF h [OF i]] i by (simp add: set_conn_def)
    moreover have "conn_state (conns t ! i) = conn_state (conns u ! i)"
      using hears_keeps(1) [OF e2(2) [OF it]] by simp
    ultimately have "conns s' = (conns u)[i := free_conn (conn_edict (conns u ! i))]"
      using drop_client_run [OF it u] t(2) len i by auto
    moreover have "conn_ok (conns u ! j)" if "j \<noteq> i" "j < length (conns s)" for j
      using hears_ok [OF h [OF that(2)]] that clients_ok_nth [OF s that(2)] by (simp add: set_conn_def)
    ultimately show ?thesis using len i by (auto simp: clients_ok_all nth_list_update)
  qed
qed

lemma stays_RateDrop:
  assumes s: "clients_ok s" and "Sv_RateDrop i s = Inr (drops, s')"
  shows "clients_ok s'" "\<not> drops \<Longrightarrow> s' = s"
proof -
  have i: "i < length (conns s)" using assms(2) by (auto simp: Sv_RateDrop_def bindE_eq_Inr at_index_eq_Inr)
  let ?c = "conns s ! i"
  let ?c' = "?c\<lparr>conn_frames := (conn_frames ?c)\<lparr>surpress_count := surpress_count (conn_frames ?c) + 1\<rparr>,
      message_size := (message_size ?c)[rate_slot s := 0]\<rparr>"
  have "drops \<and> s' = set_conn i ?c' s \<or> \<not> drops \<and> s' = s"
    using assms(2) i by (auto simp: Sv_RateDrop_def at_index_def split: if_splits)
  moreover have "conn_ok ?c'" using clients_ok_nth [OF s i] by (simp add: conn_ok_def)
  ultimately show "clients_ok s'" "\<not> drops \<Longrightarrow> s' = s" using clients_ok_set [OF s] s by blast+
qed

lemma stays_send_to_client:
  assumes game: "through_server game"
  shows "stays_run (send_to_client game i)"
proof (rule stays_runI)
  fix s s' assume s: "clients_ok s" and r: "send_to_client game i s = Some (Inr s')"
  have i: "i < length (conns s)" using r by (auto simp: send_to_client_def bindO_eq_Inr at_index_eq_Inr)
  show "clients_ok s'"
  proof (cases "conn_state (conns s ! i) = SV_CLIENT_FREE")
    case True
    then show ?thesis using r s i by (simp add: send_to_client_def at_index_def)
  next
    case False
    then obtain t where t: "overflow_drop game i s = Inr t" "i < length (conns t)"
      and body: "(if run_state t = SV_ACTIVE_DEMO then
                bindO (Some (Sv_GetDemoMessage t)) (\<lambda>(buffer, s). if buffer \<noteq> [] then Some (transmit i buffer s) else Some (Inr s))
              else if conn_state (conns t ! i) = SV_CLIENT_ACTIVE then
                bindO (Some (Sv_RateDrop i t)) (\<lambda>(drops, s). if drops then Some (Inr s) else Sv_SendClientDatagram i s)
              else if buf_size (message (chan (conns t ! i))) \<noteq> 0 \<or> time_now t - last_sent (chan (conns t ! i)) > 1000
              then Some (transmit i [] t) else Some (Inr t)) = Some (Inr s')"
      using r i by (auto simp: send_to_client_def bindO_eq_Inr at_index_eq_Inr at_index_def [of "conns s"] split: if_splits)
    have ok: "clients_ok t" by (rule staysD [OF stays_overflow_drop [OF game] s t(1)])
    consider (demo) "run_state t = SV_ACTIVE_DEMO" | (active) "run_state t \<noteq> SV_ACTIVE_DEMO" "conn_state (conns t ! i) = SV_CLIENT_ACTIVE"
      | (idle) "run_state t \<noteq> SV_ACTIVE_DEMO" "conn_state (conns t ! i) \<noteq> SV_CLIENT_ACTIVE" by blast
    then show ?thesis
    proof cases
      case demo
      then obtain bs u where u: "Sv_GetDemoMessage t = Inr (bs, u)" "s' = u \<or> transmit i bs u = Inr s'"
        using body by (auto simp: bindO_eq_Inr split: if_splits)
      have "clients_ok u" by (rule stays_demo [OF ok u(1)])
      then show ?thesis using u(2) staysD [OF stays_transmit] by blast
    next
      case active
      then obtain drops u where u: "Sv_RateDrop i t = Inr (drops, u)" "if drops then s' = u else Sv_SendClientDatagram i u = Some (Inr s')"
        using body by (auto simp: bindO_eq_Inr split: if_splits)
      note v = stays_RateDrop [OF ok u(1)]
      show ?thesis
      proof (cases drops)
        case True
        then show ?thesis using u(2) v(1) by simp
      next
        case False
        then have "Sv_SendClientDatagram i t = Some (Inr s')" using u(2) v(2) by simp
        then show ?thesis by (rule stays_SendClientDatagram [OF ok]) (simp add: active)
      qed
    next
      case idle
      then have "s' = t \<or> transmit i [] t = Inr s'" using body by (auto split: if_splits)
      then show ?thesis using ok staysD [OF stays_transmit ok] by blast
    qed
  qed
qed

lemma stays_SendClientMessages:
  assumes game: "through_server game"
  shows "stays_run (Sv_SendClientMessages game)"
proof -
  have loop: "stays_run (send_loop game js)" for js
  proof (induction js)
    case Nil
    then show ?case by (simp add: stays_run_def)
  next
    case (Cons j js)
    show ?case
    proof (rule stays_runI)
      fix s s' assume s: "clients_ok s" and r: "send_loop game (j # js) s = Some (Inr s')"
      then obtain t where t: "send_to_client game j s = Some (Inr t)" "send_loop game js t = Some (Inr s')"
        by (auto simp: bindO_eq_Inr)
      show "clients_ok s'" by (rule stays_runD [OF Cons.IH stays_runD [OF stays_send_to_client [OF game] s t(1)] t(2)])
    qed
  qed
  show ?thesis
  proof (rule stays_runI)
    fix s s' assume s: "clients_ok s" and r: "Sv_SendClientMessages game s = Some (Inr s')"
    then have "s' = s \<or> send_loop game [0 ..< max_clients s] s = Some (Inr s')"
      by (auto simp: Sv_SendClientMessages_def split: if_splits)
    then show "clients_ok s'" using s stays_runD [OF loop s] by blast
  qed
qed

text \<open>
  The operations of the module, in any order, with the game and the network changing the
  multicast buffer, the edicts and the time in between.
\<close>

inductive send_step :: "game_export \<Rightarrow> sv_run \<Rightarrow> sv_run \<Rightarrow> bool" for game where
  print: "Sv_ClientPrint n level str s = Inr s' \<Longrightarrow> send_step game s s'"
| broadcast: "Sv_BroadcastPrint level str s = Inr s' \<Longrightarrow> send_step game s s'"
| command: "Sv_BroadcastCommand str s = Some (Inr s') \<Longrightarrow> send_step game s s'"
| unicast: "Sv_Unicast ent reliable s = Inr s' \<Longrightarrow> send_step game s s'"
| multicast: "Sv_Multicast org to s = Some (Inr s') \<Longrightarrow> send_step game s s'"
| positioned_sound: "Sv_PositionedSound src n index atten s = Some (Inr s') \<Longrightarrow> send_step game s s'"
| config_string: "Sv_ConfigString index val s = Some (Inr s') \<Longrightarrow> send_step game s s'"
| drop: "Sv_DropClient game i s = Inr s' \<Longrightarrow> send_step game s s'"
| messages: "Sv_SendClientMessages game s = Some (Inr s') \<Longrightarrow> send_step game s s'"
| shutdown: "Sv_ShutdownServer msg s = Inr s' \<Longrightarrow> send_step game s s'"
| outside: "send_step game s (s\<lparr>multicast := b, statics := st, time_now := now\<rparr>)"

inductive sends_to :: "game_export \<Rightarrow> sv_run \<Rightarrow> sv_run \<Rightarrow> bool" for game where
  start: "sends_to game s s"
| step: "sends_to game s t \<Longrightarrow> send_step game t u \<Longrightarrow> sends_to game s u"

lemma send_step_stays:
  assumes game: "through_server game"
  shows "send_step game s s' \<Longrightarrow> clients_ok s \<Longrightarrow> clients_ok s'"
proof (induction rule: send_step.induct)
  case (outside s b st now)
  then show ?case by (simp add: clients_ok_def)
qed (blast intro: staysD [OF stays_ClientPrint] staysD [OF stays_BroadcastPrint] staysD [OF stays_Unicast]
      staysD [OF stays_DropClient [OF game]] staysD [OF stays_ShutdownServer] stays_runD [OF stays_BroadcastCommand]
      stays_runD [OF stays_Multicast] stays_runD [OF stays_PositionedSound] stays_runD [OF stays_ConfigString]
      stays_runD [OF stays_SendClientMessages [OF game]])+

section \<open>Properties\<close>

text \<open>
  C29: Whatever is printed, multicast, played and sent, in any order, with clients dropped and the
  server shut down in between: the clients in use keep a well-formed channel and a datagram
  whose noted messages tile its buffer (or that is marked as overflowed), so that the next
  \<open>Sv_SendClientDatagram\<close> finds the messages it is to send. A client that is dropped is announced
  to the game, which may do whatever it can do by the functions that it is given (\<open>through_server\<close>).
\<close>

theorem clients_stay_ok:
  assumes "sends_to game s s'" and "\<forall>c \<in> set (conns s). conn_ok c" and "through_server game"
  shows "\<forall>c \<in> set (conns s'). conn_ok c"
  using assms
proof (induction rule: sends_to.induct)
  case (start s)
  then show ?case by simp
next
  case (step s t u)
  then show ?case using send_step_stays [of game t u] by (simp add: clients_ok_def)
qed

theorem clients_stay_ok_witness:
  "\<exists>s'. sends_to sample_export sample_run s' \<and> conns s' \<noteq> [] \<and> (\<forall>c \<in> set (conns s'). conn_ok c)"
proof -
  obtain s1 c where t: "tell_game sample_export sample_conn sample_run = Inr s1" "conns s1 = [c]" "wf_chan (chan c)"
    using sample_told by metis
  have run: "conns sample_run = [sample_conn]" by (simp add: sample_run_def)
  obtain s2 where d: "Sv_DropClient sample_export 0 sample_run = Inr s2" "conns s2 = [free_conn (conn_edict c)]"
    using drop_client_run [of 0 sample_run sample_export s1] t by (auto simp: run)
  have "sends_to sample_export sample_run s2"
    by (rule sends_to.step [OF sends_to.start send_step.drop [OF d(1)]])
  moreover have "\<forall>c \<in> set (conns s2). conn_ok c"
    using clients_stay_ok [OF calculation _ sample_through] sample_conn_ok by (simp add: run)
  ultimately show ?thesis using d(2) by (intro exI [of _ s2]) simp
qed

end
