(* ===== verification/Glob_Match.thy ===== *)
theory Glob_Match
  imports Info_String
begin

text \<open>
  \<open>GlobMatch\<close> and \<open>GlobMatchStar\<close> of \<open>src/shared.c\<close>, and that they decide the matching of
  patterns as one writes it down. A pattern pointer is the characters up to the terminator,
  or \<open>None\<close> behind it, where a read is a \<open>Bad_Access\<close>; reading the terminator gives zero.
\<close>

section \<open>Sets\<close>

abbreviation nul :: char where "nul \<equiv> CHR 0x00"

text \<open>\<open>c = *p++\<close>\<close>

definition getc :: "string option \<Rightarrow> (char \<times> string option) result" where
  "getc p = (case p of None \<Rightarrow> Inl Bad_Access | Some [] \<Rightarrow> Inr (nul, None) | Some (c # s) \<Rightarrow> Inr (c, Some s))"

definition left_in :: "string option \<Rightarrow> nat" where
  "left_in p = (case p of None \<Rightarrow> 0 | Some s \<Rightarrow> Suc (length s))"

lemma getc_left: "getc p = Inr (c, q) \<Longrightarrow> left_in q < left_in p"
  by (auto simp: getc_def left_in_def split: option.splits list.splits)

text \<open>One item of a set, \<open>c\<close> being its first character: the range, the next character, and
  whether the whole match fails for the end of the pattern.\<close>

definition set_item :: "char \<Rightarrow> string option \<Rightarrow> ((char \<times> char \<times> char \<times> string option) option) result" where
  "set_item c p =
     bindE (if c = CHR 0x5C then getc p else Inr (c, p)) (\<lambda>(start, p).
       if c = nul then Inr None
       else bindE (getc p) (\<lambda>(c, p).
         bindE (if c = CHR ''-'' then getc p else Inr (nul, p)) (\<lambda>(d, _).
           if c = CHR ''-'' \<and> d \<noteq> CHR '']'' then
             bindE (getc p) (\<lambda>(stop, p).
             bindE (if stop = CHR 0x5C then getc p else Inr (stop, p)) (\<lambda>(stop, p).
               if stop = nul then Inr None
               else bindE (getc p) (\<lambda>(c, p). Inr (Some (start, stop, c, p)))))
           else Inr (Some (start, start, c, p)))))"

lemma set_item_left:
  assumes "set_item c p = Inr (Some (a, b, d, q))"
  shows "left_in q < left_in p"
proof -
  obtain s p1 where 1: "(if c = CHR 0x5C then getc p else Inr (c, p)) = Inr (s, p1)" "c \<noteq> nul"
    using assms by (auto simp: set_item_def bindE_eq_Inr split: if_splits)
  have le: "left_in p1 \<le> left_in p" using 1(1) getc_left [of p] by (auto split: if_splits dest: getc_left)
  obtain e p2 where 2: "getc p1 = Inr (e, p2)"
    using assms 1 by (auto simp: set_item_def bindE_eq_Inr split: if_splits)
  have p2: "left_in p2 < left_in p" using getc_left [OF 2] le by simp
  have "q = p2 \<or> (\<exists>x y z p3 p4. getc p2 = Inr (x, p3) \<and> (p4 = p3 \<or> getc p3 = Inr (y, p4)) \<and> getc p4 = Inr (z, q))"
    using assms 1 2 by (auto simp: set_item_def bindE_eq_Inr split: if_splits)
  then show ?thesis
    using p2 getc_left by (elim disjE exE conjE) (fastforce dest: getc_left)+
qed

text \<open>
  The loop over the items: \<open>None\<close> is a \<open>return 0\<close>, otherwise whether \<open>x\<close> is in the set, and
  the character and the pattern at that point.
\<close>

function set_scan :: "char \<Rightarrow> char \<Rightarrow> string option \<Rightarrow> ((bool \<times> char \<times> string option) option) result" where
  "set_scan x c p =
     (case set_item c p of Inl e \<Rightarrow> Inl e
      | Inr None \<Rightarrow> Inr None
      | Inr (Some (start, stop, c, p)) \<Rightarrow>
          if schar x \<ge> schar start \<and> schar x \<le> schar stop then Inr (Some (True, c, p))
          else if c = CHR '']'' then Inr (Some (False, c, p))
          else set_scan x c p)"
  by pat_completeness auto

termination
  by (relation "measure (\<lambda>(_, _, p). left_in p)") (auto dest: set_item_left)

declare set_scan.simps [simp del]

text \<open>Skipping the rest of a set that has matched.\<close>

function set_skip :: "char \<Rightarrow> string option \<Rightarrow> (string option option) result" where
  "set_skip c p =
     (if c = CHR '']'' then Inr (Some p)
      else if c = nul then Inr None
      else case getc p of Inl e \<Rightarrow> Inl e
        | Inr (c, p) \<Rightarrow>
            if c = nul then Inr None
            else if c = CHR 0x5C then (case getc p of Inl e \<Rightarrow> Inl e | Inr (_, p) \<Rightarrow> set_skip c p)
            else set_skip c p)"
  by pat_completeness auto

termination
  by (relation "measure (\<lambda>(_, p). left_in p)") (auto dest!: getc_left)

declare set_skip.simps [simp del]

lemma set_scan_left: "set_scan x c p = Inr (Some (m, d, q)) \<Longrightarrow> left_in q < left_in p"
proof (induction x c p rule: set_scan.induct)
  case (1 x c p)
  obtain a b e r where i: "set_item c p = Inr (Some (a, b, e, r))"
    using 1(2) by (subst (asm) set_scan.simps) (auto split: sum.splits option.splits)
  have r: "left_in r < left_in p" by (rule set_item_left [OF i])
  show ?case
  proof (cases "schar x \<ge> schar a \<and> schar x \<le> schar b \<or> e = CHR '']''")
    case True
    then have "q = r" using 1(2) i by (subst (asm) set_scan.simps) (auto split: if_splits)
    then show ?thesis using r by simp
  next
    case False
    then have s: "set_scan x e r = Inr (Some (m, d, q))" using 1(2) i by (subst (asm) set_scan.simps) (auto split: if_splits)
    have "left_in q < left_in r"
      by (rule 1(1) [OF i refl refl refl refl _ _ s]) (use False in auto)
    then show ?thesis using r by simp
  qed
qed

lemma set_skip_left: "set_skip c p = Inr (Some q) \<Longrightarrow> left_in q \<le> left_in p"
proof (induction c p rule: set_skip.induct)
  case (1 c p)
  show ?case
  proof (cases "c = CHR '']''")
    case True
    then show ?thesis using 1(3) by (subst (asm) set_skip.simps) simp
  next
    case c: False
    then have n: "c \<noteq> nul" using 1(3) by (subst (asm) set_skip.simps) auto
    obtain d r where g: "getc p = Inr (d, r)" "d \<noteq> nul"
      using 1(3) c n by (subst (asm) set_skip.simps) (auto split: sum.splits if_splits)
    note r = getc_left [OF g(1)]
    show ?thesis
    proof (cases "d = CHR 0x5C")
      case True
      then obtain e s where h: "getc r = Inr (e, s)" "set_skip d s = Inr (Some q)"
        using 1(3) c n g by (subst (asm) set_skip.simps) (auto split: sum.splits)
      have "left_in q \<le> left_in s" by (rule 1(1) [OF c n g(1) refl g(2) True h(1) refl h(2)])
      then show ?thesis using r getc_left [OF h(1)] by simp
    next
      case False
      then have h: "set_skip d r = Inr (Some q)" using 1(3) c n g by (subst (asm) set_skip.simps) auto
      have "left_in q \<le> left_in r" by (rule 1(2) [OF c n g(1) refl g(2) False h])
      then show ?thesis using r by simp
    qed
  qed
qed

text \<open>The case \<open>'['\<close>, for the character \<open>x\<close> of the text: \<open>None\<close> is a \<open>return 0\<close>.\<close>

definition glob_set :: "char \<Rightarrow> string \<Rightarrow> (string option option) result" where
  "glob_set x p =
     (let neg = (p \<noteq> [] \<and> (hd p = CHR ''!'' \<or> hd p = CHR ''^'')); p = (if neg then tl p else p)
      in bindE (getc (Some p)) (\<lambda>(c, q).
         bindE (set_scan x c q) (\<lambda>r. case r of
             None \<Rightarrow> Inr None
           | Some (True, c, q) \<Rightarrow>
               bindE (set_skip c q) (\<lambda>r. Inr (case r of None \<Rightarrow> None | Some q \<Rightarrow> if neg then None else Some q))
           | Some (False, c, q) \<Rightarrow> if \<not> neg then Inr None else Inr (Some q))))"

lemma glob_set_left: "glob_set x p = Inr (Some q) \<Longrightarrow> left_in q < Suc (length p)"
proof -
  assume g: "glob_set x p = Inr (Some q)"
  define p' where "p' = (if p \<noteq> [] \<and> (hd p = CHR ''!'' \<or> hd p = CHR ''^'') then tl p else p)"
  have le: "left_in (Some p') \<le> Suc (length p)" by (auto simp: p'_def left_in_def)
  obtain c r where 1: "getc (Some p') = Inr (c, r)"
    using g unfolding glob_set_def Let_def p'_def [symmetric] by (cases "getc (Some p')") auto
  obtain m d s where 2: "set_scan x c r = Inr (Some (m, d, s))"
    using g unfolding glob_set_def Let_def p'_def [symmetric] 1 by (cases "set_scan x c r") (auto split: option.splits)
  have 3: "s = q \<or> set_skip d s = Inr (Some q)"
    using g unfolding glob_set_def Let_def p'_def [symmetric] 1
    by (cases m; cases "set_skip d s") (auto simp: 2 split: option.splits if_splits)
  have "left_in q \<le> left_in s" using 3 set_skip_left by auto
  then show ?thesis using getc_left [OF 1] set_scan_left [OF 2] le by simp
qed

section \<open>Patterns\<close>

text \<open>The loop at the start of \<open>GlobMatchStar\<close>: \<open>None\<close> is a \<open>return false\<close>.\<close>

fun star_skip :: "string \<Rightarrow> string \<Rightarrow> (string \<times> string) option" where
  "star_skip [] t = Some ([], t)"
| "star_skip (c # p) t =
     (if c = CHR ''*'' then star_skip p t
      else if c = CHR ''?'' then (case t of [] \<Rightarrow> None | _ # u \<Rightarrow> star_skip p u)
      else Some (c # p, t))"

lemma star_skip_left: "star_skip p t = Some (q, u) \<Longrightarrow> length q \<le> length p"
  by (induction p t rule: star_skip.induct) (auto split: if_splits list.splits)

text \<open>\<open>star_try\<close> is the loop at its end; \<open>p\<close> points to the character after the stars.\<close>

function glob :: "string option \<Rightarrow> string \<Rightarrow> bool result"
  and star_try :: "string \<Rightarrow> string \<Rightarrow> bool result" where
  "glob None t = Inl Bad_Access"
| "glob (Some []) t = Inr (t = [])"
| "glob (Some (c # p)) t =
     (if c = CHR ''?'' then (case t of [] \<Rightarrow> Inr False | _ # u \<Rightarrow> glob (Some p) u)
      else if c = CHR 0x5C then
        (case getc (Some p) of Inl e \<Rightarrow> Inl e
         | Inr (d, q) \<Rightarrow>
             (case t of [] \<Rightarrow> if d = nul then Inl Bad_Access else Inr False
              | e # u \<Rightarrow> if d \<noteq> e then Inr False else glob q u))
      else if c = CHR ''*'' then
        (case star_skip p t of None \<Rightarrow> Inr False
         | Some (q, u) \<Rightarrow> if q = [] then Inr True else star_try q u)
      else if c = CHR ''['' then
        (case t of [] \<Rightarrow> Inr False
         | x # u \<Rightarrow> (case glob_set x p of Inl e \<Rightarrow> Inl e
             | Inr None \<Rightarrow> Inr False | Inr (Some q) \<Rightarrow> glob q u))
      else (case t of [] \<Rightarrow> Inr False | e # u \<Rightarrow> if c \<noteq> e then Inr False else glob (Some p) u))"
| "star_try p t =
     (let c = hd p; c1 = (if c = CHR 0x5C then (if tl p = [] then nul else hd (tl p)) else c);
          now = (if t = [] then nul else hd t)
      in if c = CHR ''['' \<or> now = c1
         then (case glob (Some p) t of Inl e \<Rightarrow> Inl e
               | Inr True \<Rightarrow> Inr True
               | Inr False \<Rightarrow> (case t of [] \<Rightarrow> Inr False | _ # u \<Rightarrow> star_try p u))
         else (case t of [] \<Rightarrow> Inr False | _ # u \<Rightarrow> star_try p u))"
  by pat_completeness auto

termination
proof (relation "measures [\<lambda>x. case x of Inl (p, t) \<Rightarrow> 2 * left_in p | Inr (p, t) \<Rightarrow> 2 * length p + 3,
      \<lambda>x. case x of Inl (p, t) \<Rightarrow> length t | Inr (p, t) \<Rightarrow> length t]", goal_cases)
  case 1
  then show ?case by simp
next
  case (3 c p t b d q e u)
  then show ?case using getc_left [of "Some p" d q] by (simp add: left_in_def)
next
  case (4 c p t qu q u)
  then show ?case using star_skip_left [of p t q u] by (auto simp: left_in_def)
next
  case (5 c p t x u r q)
  then show ?case using glob_set_left [of x p] by (auto simp: left_in_def)
qed (simp_all add: left_in_def)

declare glob.simps [simp del] star_try.simps [simp del]

definition GlobMatch :: "string option \<Rightarrow> string option \<Rightarrow> bool result" where
  "GlobMatch pattern txt =
     (case (pattern, txt) of (Some p, Some t) \<Rightarrow> glob (Some p) t | _ \<Rightarrow> Inr False)"

section \<open>What a pattern means\<close>

datatype glob_item = Lit char | Any | Star | OneOf bool "(char \<times> char) list"

definition in_ranges :: "char \<Rightarrow> (char \<times> char) list \<Rightarrow> bool" where
  "in_ranges x rs \<longleftrightarrow> (\<exists>r \<in> set rs. schar (fst r) \<le> schar x \<and> schar x \<le> schar (snd r))"

fun item_takes :: "glob_item \<Rightarrow> char \<Rightarrow> bool" where
  "item_takes (Lit c) x = (x = c)"
| "item_takes Any x = True"
| "item_takes Star x = False"
| "item_takes (OneOf neg rs) x = (in_ranges x rs \<noteq> neg)"

fun matches :: "glob_item list \<Rightarrow> string \<Rightarrow> bool" where
  "matches [] t = (t = [])"
| "matches (i # is) t =
     (if i = Star then \<exists>k \<in> set [0 ..< Suc (length t)]. matches is (drop k t)
      else t \<noteq> [] \<and> item_takes i (hd t) \<and> matches is (tl t))"

text \<open>How it is written; characters with a meaning of their own are escaped.\<close>

fun item_text :: "glob_item \<Rightarrow> string" where
  "item_text (Lit c) = (if c \<in> set ''?*['' \<or> c = CHR 0x5C then [CHR 0x5C, c] else [c])"
| "item_text Any = ''?''"
| "item_text Star = ''*''"
| "item_text (OneOf neg rs) = ''['' @ (if neg then ''!'' else []) @ concat (map (\<lambda>(a, b). [a, CHR ''-'', b]) rs) @ '']''"

definition pattern_text :: "glob_item list \<Rightarrow> string" where
  "pattern_text is = concat (map item_text is)"

definition set_char :: "char \<Rightarrow> bool" where
  "set_char c \<longleftrightarrow> c \<noteq> nul \<and> c \<noteq> CHR '']'' \<and> c \<noteq> CHR 0x5C"

fun wf_item :: "glob_item \<Rightarrow> bool" where
  "wf_item (Lit c) = (c \<noteq> nul)"
| "wf_item Any = True"
| "wf_item Star = True"
| "wf_item (OneOf neg rs) = (rs \<noteq> [] \<and> fst (rs ! 0) \<noteq> CHR ''!'' \<and> fst (rs ! 0) \<noteq> CHR ''^'' \<and>
     (\<forall>r \<in> set rs. set_char (fst r) \<and> set_char (snd r)))"

abbreviation ranges_text :: "(char \<times> char) list \<Rightarrow> string" where
  "ranges_text rs \<equiv> concat (map (\<lambda>(a, b). [a, CHR ''-'', b]) rs)"

lemma scan_ranges:
  assumes "rs \<noteq> []" and "\<forall>r \<in> set rs. set_char (fst r) \<and> set_char (snd r)"
  shows "\<exists>d q. set_scan x (fst (rs ! 0)) (Some (tl (ranges_text rs) @ CHR '']'' # s)) = Inr (Some (in_ranges x rs, d, q)) \<and>
    (if in_ranges x rs then set_skip d q = Inr (Some (Some s)) else q = Some s)"
  using assms
proof (induction rs)
  case Nil
  then show ?case by simp
next
  case (Cons r rs)
  obtain a b where r: "r = (a, b)" by (cases r)
  have ab: "a \<noteq> nul" "a \<noteq> CHR 0x5C" "b \<noteq> nul" "b \<noteq> CHR '']''" "b \<noteq> CHR 0x5C" using Cons.prems(2) r by (simp_all add: set_char_def)
  let ?rest = "ranges_text rs @ CHR '']'' # s"
  obtain c q where c: "?rest = c # q" by (cases ?rest) simp_all
  have item: "set_item a (Some (CHR ''-'' # b # ?rest)) = Inr (Some (a, b, c, Some q))"
    using ab c by (simp add: set_item_def getc_def)
  have skip_chars: "set_skip e (Some (cs @ CHR '']'' # s)) = Inr (Some (Some s))" if "\<forall>y \<in> set (e # cs). set_char y" for e cs
    using that
  proof (induction cs arbitrary: e)
    case Nil
    then show ?case by (subst set_skip.simps, subst set_skip.simps) (simp add: getc_def set_char_def)
  next
    case (Cons y ys)
    then show ?case by (subst set_skip.simps) (simp add: getc_def set_char_def)
  qed
  have chars: "\<forall>y \<in> set (ranges_text rs). set_char y"
    using Cons.prems(2) by (auto simp: set_char_def)
  have skip: "set_skip c (Some q) = Inr (Some (Some s))"
  proof (cases rs)
    case Nil
    then show ?thesis using c by (subst set_skip.simps) simp
  next
    case (Cons r' rs')
    then have "c = hd (ranges_text rs)" "q = tl (ranges_text rs) @ CHR '']'' # s" "ranges_text rs = c # tl (ranges_text rs)"
      using c by (cases r'; simp)+
    then show ?thesis using skip_chars [of c "tl (ranges_text rs)"] chars by (metis)
  qed
  have step: "set_scan x a (Some (CHR ''-'' # b # ?rest)) =
      (if schar x \<ge> schar a \<and> schar x \<le> schar b then Inr (Some (True, c, Some q))
          else if c = CHR '']'' then Inr (Some (False, c, Some q)) else set_scan x c (Some q))"
    by (subst set_scan.simps) (simp add: item)
  have start: "set_scan x (fst ((r # rs) ! 0)) (Some (tl (ranges_text (r # rs)) @ CHR '']'' # s)) = set_scan x a (Some (CHR ''-'' # b # ?rest))"
    using r by simp
  show ?case
  proof (cases "schar x \<ge> schar a \<and> schar x \<le> schar b")
    case True
    then have "in_ranges x (r # rs)" using r by (simp add: in_ranges_def)
    then show ?thesis unfolding start step using True skip by simp
  next
    case False
    then have ir: "in_ranges x (r # rs) = in_ranges x rs" using r by (auto simp: in_ranges_def)
    show ?thesis
    proof (cases rs)
      case Nil
      then have "c = CHR '']''" "q = s" "\<not> in_ranges x rs" using c by (simp_all add: in_ranges_def)
      then show ?thesis unfolding start step ir using False by simp
    next
      case rs: (Cons r' rs')
      have first: "c = fst (rs ! 0)" "q = tl (ranges_text rs) @ CHR '']'' # s" using c rs by (cases r'; simp)+
      have "c \<noteq> CHR '']''" using first(1) Cons.prems(2) rs by (simp add: set_char_def)
      then have "set_scan x (fst ((r # rs) ! 0)) (Some (tl (ranges_text (r # rs)) @ CHR '']'' # s)) = set_scan x (fst (rs ! 0)) (Some (tl (ranges_text rs) @ CHR '']'' # s))"
        unfolding start step first by (simp add: False del: not_le)
      then show ?thesis unfolding ir using Cons.IH Cons.prems(2) rs by simp
    qed
  qed
qed

lemma set_matches:
  assumes "wf_item (OneOf neg rs)"
  shows "glob_set x (tl (item_text (OneOf neg rs)) @ s) = Inr (if in_ranges x rs \<noteq> neg then Some (Some s) else None)"
proof -
  have rs: "rs \<noteq> []" "fst (rs ! 0) \<noteq> CHR ''!''" "fst (rs ! 0) \<noteq> CHR ''^''" "\<forall>r \<in> set rs. set_char (fst r) \<and> set_char (snd r)"
    using assms by simp_all
  let ?p = "ranges_text rs @ CHR '']'' # s"
  have p: "?p = fst (rs ! 0) # tl (ranges_text rs) @ CHR '']'' # s" using rs(1) by (cases rs) (auto split: prod.splits)
  obtain d q where sc: "set_scan x (fst (rs ! 0)) (Some (tl (ranges_text rs) @ CHR '']'' # s)) = Inr (Some (in_ranges x rs, d, q))"
    "(if in_ranges x rs then set_skip d q = Inr (Some (Some s)) else q = Some s)"
    using scan_ranges [OF rs(1,4)] by blast
  define c t where "c = fst (rs ! 0)" and "t = tl (ranges_text rs) @ CHR '']'' # s"
  have written: "tl (item_text (OneOf neg rs)) @ s = (if neg then CHR ''!'' # c # t else c # t)"
    using p by (simp add: c_def t_def)
  have plain: "c \<noteq> CHR ''!''" "c \<noteq> CHR ''^''" using rs(2,3) by (simp_all add: c_def)
  show ?thesis
    unfolding written glob_set_def using plain sc [folded c_def t_def]
    by (cases neg; cases "in_ranges x rs") (simp_all add: getc_def)
qed

section \<open>Matching a pattern as it is written\<close>

lemma pattern_text_simps [simp]:
  "pattern_text [] = []" "pattern_text (i # is) = item_text i @ pattern_text is"
  by (simp_all add: pattern_text_def)

text \<open>What follows the stars and question marks of a pattern, and how many characters these take.\<close>

fun after_stars :: "glob_item list \<Rightarrow> glob_item list" where
  "after_stars (Star # is) = after_stars is"
| "after_stars (Any # is) = after_stars is"
| "after_stars is = is"

fun stars_take :: "glob_item list \<Rightarrow> nat" where
  "stars_take (Star # is) = stars_take is"
| "stars_take (Any # is) = Suc (stars_take is)"
| "stars_take is = 0"

lemma length_after_stars: "length (after_stars is) \<le> length is"
  by (induction "is" rule: after_stars.induct) simp_all

lemma after_stars_wf: "\<forall>i \<in> set is. wf_item i \<Longrightarrow> \<forall>i \<in> set (after_stars is). wf_item i"
  by (induction "is" rule: after_stars.induct) simp_all

lemma star_skip_text:
  "star_skip (pattern_text is) t =
    (if stars_take is \<le> length t then Some (pattern_text (after_stars is), drop (stars_take is) t) else None)"
proof (induction "is" arbitrary: t rule: after_stars.induct)
  case (2 "is")
  then show ?case by (cases t) simp_all
qed auto

lemma matches_star: "matches (Star # is) t \<longleftrightarrow> (\<exists>k \<le> length t. matches is (drop k t))"
proof -
  have "set [0 ..< Suc (length t)] = {k. k \<le> length t}" by auto
  then show ?thesis by (simp only: matches.simps) auto
qed

text \<open>A star before more stars and question marks needs only one of the stars, at the end.\<close>

lemma star_then_any: "matches (Star # Any # is) t \<longleftrightarrow> t \<noteq> [] \<and> matches (Star # is) (tl t)"
proof
  assume "matches (Star # Any # is) t"
  then obtain k where k: "k \<le> length t" "drop k t \<noteq> []" "matches is (tl (drop k t))"
    unfolding matches_star by auto
  then have "matches (Star # is) (tl t)"
    unfolding matches_star by (intro exI [of _ k]) (simp add: drop_Suc tl_drop)
  then show "t \<noteq> [] \<and> matches (Star # is) (tl t)" using k(2) by auto
next
  assume a: "t \<noteq> [] \<and> matches (Star # is) (tl t)"
  then obtain k where "k \<le> length (tl t)" "matches is (drop k (tl t))" unfolding matches_star by auto
  then show "matches (Star # Any # is) t"
    unfolding matches_star using a by (intro exI [of _ k]) (cases t; simp add: tl_drop)
qed

lemma star_star: "matches (Star # Star # is) t = matches (Star # is) t"
proof
  assume "matches (Star # Star # is) t"
  then obtain k l where "k \<le> length t" "l \<le> length (drop k t)" "matches is (drop l (drop k t))"
    unfolding matches_star by auto
  then show "matches (Star # is) t" unfolding matches_star by (intro exI [of _ "l + k"]) simp
next
  assume "matches (Star # is) t"
  then show "matches (Star # Star # is) t" unfolding matches_star [of "Star # is"] by (intro exI [of _ 0]) simp
qed

lemma matches_after_stars:
  "matches (Star # is) t \<longleftrightarrow> stars_take is \<le> length t \<and> matches (Star # after_stars is) (drop (stars_take is) t)"
proof (induction "is" arbitrary: t rule: after_stars.induct)
  case (1 "is")
  then show ?case unfolding star_star by simp
next
  case (2 "is")
  show ?case unfolding star_then_any 2 by (cases t) simp_all
qed (simp_all del: matches.simps)

lemma matches_star_step:
  "matches (Star # is) t \<longleftrightarrow> matches is t \<or> t \<noteq> [] \<and> matches (Star # is) (tl t)"
proof -
  have "(\<exists>k \<le> length t. matches is (drop k t)) \<longleftrightarrow>
      matches is t \<or> (\<exists>k. Suc k \<le> length t \<and> matches is (drop (Suc k) t))"
    by (metis drop0 le0 not0_implies_Suc)
  then show ?thesis unfolding matches_star by (cases t) simp_all
qed

lemma star_try_text:
  assumes step: "\<And>t. nul \<notin> set t \<Longrightarrow> glob (Some (pattern_text is)) t = Inr (matches is t)"
    and head: "is = i # is'" "i \<noteq> Star" "i \<noteq> Any" "wf_item i"
  shows "nul \<notin> set t \<Longrightarrow> star_try (pattern_text is) t = Inr (matches (Star # is) t)"
proof (induction t)
  case Nil
  have no: "\<not> matches is []" using head by simp
  have star: "\<not> matches (Star # is) []" using no matches_star_step [of "is" "[]"] by simp
  show ?case by (subst star_try.simps) (simp add: Let_def step no star del: matches.simps)
next
  case (Cons x u)
  define p where "p = pattern_text is"
  define c1 where "c1 = (if hd p = CHR 0x5C then (if tl p = [] then nul else hd (tl p)) else hd p)"
  have miss: "\<not> matches is (x # u)" if "hd p \<noteq> CHR ''[''" "x \<noteq> c1"
  proof (cases i)
    case (Lit c)
    then have "c1 = c" using head by (auto simp: c1_def p_def)
    then show ?thesis using that(2) Lit head by simp
  qed (use head that in \<open>auto simp: p_def\<close>)
  have rest: "star_try p u = Inr (matches (Star # is) u)" using Cons by (simp add: p_def)
  have "star_try p (x # u) = (if hd p = CHR ''['' \<or> x = c1 then (if matches is (x # u) then Inr True else star_try p u)
      else star_try p u)"
    using step [of "x # u"] Cons.prems
    by (subst star_try.simps) (simp add: Let_def c1_def [symmetric] p_def [symmetric] del: matches.simps)
  then show ?case
    using miss rest matches_star_step [of "is" "x # u"] by (auto simp: p_def [symmetric] simp del: matches.simps)
qed

lemma after_stars_head:
  "after_stars is = i # is' \<Longrightarrow> i \<noteq> Star \<and> i \<noteq> Any"
  by (induction "is" rule: after_stars.induct) auto

lemma pattern_text_empty: "pattern_text is = [] \<longleftrightarrow> is = []"
proof (cases "is")
  case (Cons i js)
  then show ?thesis by (cases i) simp_all
qed simp

lemma glob_text:
  assumes "\<forall>i \<in> set is. wf_item i" and "nul \<notin> set t"
  shows "glob (Some (pattern_text is)) t = Inr (matches is t)"
  using assms
proof (induction "length is" arbitrary: "is" t rule: less_induct)
  case less
  show ?case
  proof (cases "is")
    case Nil
    then show ?thesis by (simp add: glob.simps)
  next
    case is_i: (Cons i js)
    have wf: "wf_item i" "\<forall>i \<in> set js. wf_item i" using less.prems is_i by simp_all
    have rest: "glob (Some (pattern_text js)) u = Inr (matches js u)" if "nul \<notin> set u" for u
      using less.hyps [of js u] wf that is_i by simp
    show ?thesis
    proof (cases i)
      case (Lit c)
      then show ?thesis using wf less.prems rest is_i
        by (cases t) (auto simp: glob.simps getc_def split: option.splits)
    next
      case Any
      then show ?thesis using less.prems rest is_i by (cases t) (simp_all add: glob.simps)
    next
      case (OneOf neg rs)
      show ?thesis
      proof (cases t)
        case Nil
        then show ?thesis using is_i OneOf by (simp add: glob.simps)
      next
        case (Cons x u)
        have written: "pattern_text is = CHR ''['' # tl (item_text i) @ pattern_text js" using is_i OneOf by simp
        have m: "glob_set x (tl (item_text i) @ pattern_text js) =
            Inr (if in_ranges x rs \<noteq> neg then Some (Some (pattern_text js)) else None)"
          unfolding OneOf by (rule set_matches) (use wf OneOf in simp)
        show ?thesis
          unfolding written Cons using m rest [of u] less.prems is_i Cons OneOf
          by (auto simp: glob.simps simp del: item_text.simps)
      qed
    next
      case Star
      have skipped: "glob (Some (pattern_text is)) t =
          (if stars_take js \<le> length t then (if after_stars js = [] then Inr True
             else star_try (pattern_text (after_stars js)) (drop (stars_take js) t)) else Inr False)"
        using is_i Star by (simp add: glob.simps star_skip_text pattern_text_empty)
      have sub: "nul \<notin> set (drop (stars_take js) t)" using less.prems(2) in_set_dropD by fastforce
      show ?thesis
      proof (cases "after_stars js")
        case Nil
        have "matches [Star] u" for u by (auto simp: matches_star)
        then show ?thesis using skipped Nil matches_after_stars [of js t] is_i Star by (simp del: matches.simps)
      next
        case (Cons k ks)
        have glob_k: "glob (Some (pattern_text (after_stars js))) u = Inr (matches (after_stars js) u)" if "nul \<notin> set u" for u
          using less.hyps [of "after_stars js" u] length_after_stars [of js] after_stars_wf [OF wf(2)] that is_i by simp
        have k: "k \<noteq> Star" "k \<noteq> Any" "wf_item k"
          using after_stars_head [OF Cons] after_stars_wf [OF wf(2)] Cons by simp_all
        show ?thesis
          using skipped Cons matches_after_stars [of js t] is_i Star star_try_text [OF glob_k Cons k sub]
          by (simp del: matches.simps)
      qed
    qed
  qed
qed

section \<open>Properties\<close>

text \<open>
  C32: \<open>GlobMatch\<close> ends and reads nothing behind a pattern that is written as it should be: on the
  text of a list of items (characters, question marks, stars, sets of ranges, sets of what
  is in no range) it tells whether the items match the whole text.
\<close>

theorem glob_matches_pattern:
  assumes "\<forall>i \<in> set is. wf_item i" and "nul \<notin> set t"
  shows "GlobMatch (Some (pattern_text is)) (Some t) = Inr (matches is t)"
  using glob_text [OF assms] by (simp add: GlobMatch_def)

theorem glob_matches_pattern_witness:
  "GlobMatch (Some ''maps/*.[a-c0-9]?p'') (Some ''maps/edge.bsp'') = Inr True"
proof -
  let ?is = "map Lit ''maps/'' @ [Star, Lit (CHR ''.''), OneOf False [(CHR ''a'', CHR ''c''), (CHR ''0'', CHR ''9'')], Any, Lit (CHR ''p'')]"
  have "\<forall>i \<in> set ?is. wf_item i" by (simp add: set_char_def)
  moreover have "nul \<notin> set ''maps/edge.bsp''" by simp
  ultimately have "GlobMatch (Some (pattern_text ?is)) (Some ''maps/edge.bsp'') = Inr (matches ?is ''maps/edge.bsp'')"
    by (rule glob_matches_pattern)
  moreover have "pattern_text ?is = ''maps/*.[a-c0-9]?p''" by (simp add: pattern_text_def)
  moreover have "matches ?is ''maps/edge.bsp''" by code_simp
  ultimately show ?thesis by simp
qed

end
