(* ===== verification/Cmd_Buffer.thy ===== *)
theory Cmd_Buffer
  imports Mem_Buffer Cmd_Tokens Glob_Match
begin

text \<open>
  The command buffer and the commands of \<open>src/cmd.c\<close>. The state is \<open>cmd_state_t\<close>, with
  \<open>world\<close> for what the commands of other parts of the program and the console variables
  change. These, and the loading of files, are reached through \<open>cmd_env\<close>. Loops over
  the buffer need not end, as an alias may expand to itself. Console output is left out.
\<close>

section \<open>Types\<close>

definition CBUF_CHARS :: nat where "CBUF_CHARS = 8192"
definition MAX_ALIAS_LOOP_COUNT :: uint16 where "MAX_ALIAS_LOOP_COUNT = 8"
definition MAX_QPATH :: nat where "MAX_QPATH = 64"

text \<open>The functions that commands are bound to: those of \<open>cmd.c\<close> and the others.\<close>

datatype cmd_fun = List_f | Exec_f | Echo_f | Alias_f | Wait_f | Other string

record cmd =
  cmd_name :: string
  cmd_description :: "string option"
  Execute :: "cmd_fun option"
  cmd_commands :: "string option"
  cmd_flags :: uint32

text \<open>\<open>buf\<close>, whose data is \<open>buffers[0]\<close>, and \<open>buffers[1]\<close>\<close>

record cmd_buffers =
  cbuf :: mem_buf
  deferred :: "byte list"

record 'w cmd_state =
  commands :: "string \<Rightarrow> cmd option"
  keys :: "string list"
  buffers :: cmd_buffers
  cargs :: cmd_args
  wait :: bool
  alias_loop_count :: uint16
  world :: 'w

text \<open>
  \<open>Cvar_GetString\<close>, \<open>Cvar_Get\<close> without a value, \<open>Cvar_Command\<close>, whether \<open>dedicated\<close> is set,
  \<open>Cmd_ForwardToServer\<close>, \<open>Fs_Load\<close>, and the functions \<open>Other\<close>.
\<close>

record 'w cmd_env =
  cvar_string :: "'w \<Rightarrow> string \<Rightarrow> string"
  is_cvar :: "'w \<Rightarrow> string \<Rightarrow> bool"
  cvar_command :: "cmd_args \<Rightarrow> 'w \<Rightarrow> (bool \<times> 'w) result"
  dedicated :: "'w \<Rightarrow> bool"
  forward_cmd :: "(cmd_args \<Rightarrow> 'w \<Rightarrow> 'w) option"
  load_file :: "'w \<Rightarrow> string \<Rightarrow> string option"
  call_other :: "string \<Rightarrow> 'w cmd_state \<Rightarrow> 'w cmd_state result"

section \<open>The buffer\<close>

definition Cbuf_AddText :: "string \<Rightarrow> cmd_buffers \<Rightarrow> cmd_buffers result" where
  "Cbuf_AddText t b =
     (if buf_size (cbuf b) + length t \<ge> max_size (cbuf b) then Inr b
      else bindE (Mem_WriteBuffer (map byte_of_char t) (cbuf b)) (\<lambda>c. Inr (b\<lparr>cbuf := c\<rparr>)))"

definition Cbuf_InsertText :: "string \<Rightarrow> cmd_buffers \<Rightarrow> cmd_buffers result" where
  "Cbuf_InsertText t b =
     (let temp = contents (cbuf b); temp_len = buf_size (cbuf b);
          b = (if temp_len \<noteq> 0 then b\<lparr>cbuf := Mem_ClearBuffer (cbuf b)\<rparr> else b)
      in bindE (Cbuf_AddText t b) (\<lambda>b.
           if temp_len \<noteq> 0 then bindE (Mem_WriteBuffer temp (cbuf b)) (\<lambda>c. Inr (b\<lparr>cbuf := c\<rparr>)) else Inr b))"

definition Cbuf_CopyToDefer :: "cmd_buffers \<Rightarrow> cmd_buffers" where
  "Cbuf_CopyToDefer b =
     b\<lparr>deferred := store_bytes 0 (contents (cbuf b)) (deferred b),
       cbuf := (cbuf b)\<lparr>buf_data := replicate CBUF_CHARS 0, buf_size := 0\<rparr>\<rparr>"

text \<open>An array of characters read as a string.\<close>

definition c_string :: "byte list \<Rightarrow> string result" where
  "c_string bs = (if 0 \<in> set bs then Inr (map char_of_byte (takeWhile (\<lambda>b. b \<noteq> 0) bs)) else Inl Bad_Access)"

definition Cbuf_InsertFromDefer :: "cmd_buffers \<Rightarrow> cmd_buffers result" where
  "Cbuf_InsertFromDefer b =
     bindE (c_string (deferred b)) (\<lambda>t.
     bindE (Cbuf_InsertText t b) (\<lambda>b. Inr (b\<lparr>deferred := replicate CBUF_CHARS 0\<rparr>)))"

text \<open>The index of the end of the first command; \<open>quotes\<close> counts the quotes before.\<close>

fun line_end :: "nat \<Rightarrow> string \<Rightarrow> nat" where
  "line_end quotes [] = 0"
| "line_end quotes (c # s) =
     (let quotes = (if c = quote then quotes + 1 else quotes)
      in if (even quotes \<and> c = semicolon) \<or> c = newline then 0 else Suc (line_end quotes s))"

text \<open>Taking the first command from the buffer, or \<open>None\<close> if it is too long.\<close>

definition take_line :: "cmd_buffers \<Rightarrow> (string \<times> cmd_buffers) option result" where
  "take_line b =
     (let text = contents (cbuf b); i = line_end 0 (map char_of_byte text)
      in if i > MAX_STRING_CHARS then Inr None
         else if i = MAX_STRING_CHARS then Inl Bad_Access
         else
           let line = takeWhile (\<lambda>c. c \<noteq> CHR 0x00) (map char_of_byte (take i text));
               c = (if i = buf_size (cbuf b) then (cbuf b)\<lparr>buf_size := 0\<rparr>
                    else (cbuf b)\<lparr>buf_data := store_bytes 0 (drop (i + 1) text) (buf_data (cbuf b)),
                                  buf_size := buf_size (cbuf b) - (i + 1)\<rparr>)
           in Inr (Some (line, b\<lparr>cbuf := c\<rparr>)))"

section \<open>Commands\<close>

definition Cmd_Get :: "string \<Rightarrow> 'w cmd_state \<Rightarrow> cmd option" where
  "Cmd_Get n s = commands s n"

text \<open>The commands that the function is called with.\<close>

fun enum_keys :: "(string \<Rightarrow> cmd option) \<Rightarrow> string list \<Rightarrow> cmd list result" where
  "enum_keys m [] = Inr []"
| "enum_keys m (k # ks) = (case m k of None \<Rightarrow> Inl (Err_Fatal ''Missing command'')
     | Some c \<Rightarrow> bindE (enum_keys m ks) (\<lambda>cs. Inr (c # cs)))"

definition Cmd_Enumerate :: "'w cmd_state \<Rightarrow> cmd list result" where
  "Cmd_Enumerate s = enum_keys (commands s) (keys s)"

text \<open>\<open>strcmp\<close>, of unsigned characters, and \<open>g_list_insert_sorted\<close>\<close>

fun str_le :: "string \<Rightarrow> string \<Rightarrow> bool" where
  "str_le [] t = True"
| "str_le (c # s) [] = False"
| "str_le (c # s) (d # t) = (if c = d then str_le s t else (of_char c :: nat) < of_char d)"

fun insert_key :: "string \<Rightarrow> string list \<Rightarrow> string list" where
  "insert_key k [] = [k]"
| "insert_key k (l # ls) = (if str_le k l then k # l # ls else l # insert_key k ls)"

definition add_cmd :: "cmd \<Rightarrow> 'w cmd_state \<Rightarrow> 'w cmd_state" where
  "add_cmd c s = s\<lparr>commands := (commands s)(cmd_name c \<mapsto> c), keys := insert_key (cmd_name c) (keys s)\<rparr>"

definition Cmd_Add :: "'w cmd_env \<Rightarrow> string \<Rightarrow> cmd_fun \<Rightarrow> uint32 \<Rightarrow> string option \<Rightarrow> 'w cmd_state \<Rightarrow> cmd option \<times> 'w cmd_state" where
  "Cmd_Add env n f fl desc s =
     (if is_cvar env (world s) n then (None, s)
      else case Cmd_Get n s of Some c \<Rightarrow> (Some c, s)
        | None \<Rightarrow>
            let c = \<lparr>cmd_name = n, cmd_description = desc, Execute = Some f, cmd_commands = None, cmd_flags = fl\<rparr>
            in (Some c, add_cmd c s))"

definition Cmd_Alias :: "'w cmd_env \<Rightarrow> string \<Rightarrow> string \<Rightarrow> 'w cmd_state \<Rightarrow> cmd option \<times> 'w cmd_state" where
  "Cmd_Alias env n t s =
     (if is_cvar env (world s) n then (None, s)
      else case Cmd_Get n s of Some c \<Rightarrow> (Some c, s)
        | None \<Rightarrow>
            let c = \<lparr>cmd_name = n, cmd_description = None, Execute = None, cmd_commands = Some t, cmd_flags = 0\<rparr>
            in (Some c, add_cmd c s))"

definition Cmd_Remove :: "string \<Rightarrow> 'w cmd_state \<Rightarrow> 'w cmd_state" where
  "Cmd_Remove n s = s\<lparr>commands := (commands s)(n := None)\<rparr>"

definition Cmd_RemoveAll :: "uint32 \<Rightarrow> 'w cmd_state \<Rightarrow> 'w cmd_state" where
  "Cmd_RemoveAll flags s =
     (let gone = (\<lambda>n. case commands s n of None \<Rightarrow> False | Some c \<Rightarrow> cmd_flags c AND flags \<noteq> 0)
      in s\<lparr>commands := (\<lambda>n. if gone n then None else commands s n), keys := filter (\<lambda>k. \<not> gone k) (keys s)\<rparr>)"

fun complete :: "string \<Rightarrow> cmd list \<Rightarrow> string list \<Rightarrow> string list result" where
  "complete pattern [] ms = Inr ms"
| "complete pattern (c # cs) ms =
     bindE (GlobMatch (Some pattern) (Some (cmd_name c))) (\<lambda>m.
       complete pattern cs (if m then cmd_name c # ms else ms))"

definition Cmd_CompleteCommand :: "string \<Rightarrow> 'w cmd_state \<Rightarrow> string list \<Rightarrow> string list result" where
  "Cmd_CompleteCommand pattern s ms = bindE (Cmd_Enumerate s) (\<lambda>cs. complete pattern cs ms)"

text \<open>\<open>g_strlcat\<close> into an array of \<open>n\<close> characters\<close>

definition strlcat :: "string \<Rightarrow> string \<Rightarrow> nat \<Rightarrow> string" where
  "strlcat s t n = take (n - 1) (s @ t)"

definition with_buffers :: "(cmd_buffers \<Rightarrow> cmd_buffers result) \<Rightarrow> 'w cmd_state \<Rightarrow> 'w cmd_state result" where
  "with_buffers f s = bindE (f (buffers s)) (\<lambda>b. Inr (s\<lparr>buffers := b\<rparr>))"

definition Cmd_Alias_f :: "'w cmd_env \<Rightarrow> 'w cmd_state \<Rightarrow> 'w cmd_state result" where
  "Cmd_Alias_f env s =
     (let a = cargs s; n = Cmd_Argv a 1 in
      if Cmd_Argc a = 1 then bindE (Cmd_Enumerate s) (\<lambda>_. Inr s)
      else if Cmd_Argc a < 3 then Inr s
      else if is_cvar env (world s) n then Inr s
      else if Cmd_Get n s \<noteq> None then Inr s
      else
        let cmd = fold (\<lambda>i cmd.
              let cmd = strlcat cmd (Cmd_Argv a i) MAX_STRING_CHARS
              in if i \<noteq> Cmd_Argc a - 1 then strlcat cmd '' '' MAX_STRING_CHARS else cmd) [2 ..< Cmd_Argc a] [];
            cmd = strlcat cmd [newline] MAX_STRING_CHARS
        in Inr (snd (Cmd_Alias env n cmd s)))"

definition Cmd_List_f :: "'w cmd_state \<Rightarrow> 'w cmd_state result" where
  "Cmd_List_f s = bindE (Cmd_Enumerate s) (\<lambda>_. Inr s)"

definition has_suffix :: "string \<Rightarrow> string \<Rightarrow> bool" where
  "has_suffix s t \<longleftrightarrow> take (length t) (rev s) = rev t"

definition Cmd_Exec_f :: "'w cmd_env \<Rightarrow> 'w cmd_state \<Rightarrow> 'w cmd_state result" where
  "Cmd_Exec_f env s =
     (if Cmd_Argc (cargs s) \<noteq> 2 then Inr s
      else
        let path = strlcpy (Cmd_Argv (cargs s) 1) MAX_QPATH;
            path = (if has_suffix path ''.cfg'' then path else strlcat path ''.cfg'' MAX_QPATH)
        in case load_file env (world s) path of None \<Rightarrow> Inr s
           | Some t \<Rightarrow> with_buffers (Cbuf_InsertText t) s)"

definition Cmd_Wait_f :: "'w cmd_state \<Rightarrow> 'w cmd_state" where
  "Cmd_Wait_f s = s\<lparr>wait := True\<rparr>"

definition call_cmd :: "'w cmd_env \<Rightarrow> cmd_fun \<Rightarrow> 'w cmd_state \<Rightarrow> 'w cmd_state result" where
  "call_cmd env f s = (case f of List_f \<Rightarrow> Cmd_List_f s | Exec_f \<Rightarrow> Cmd_Exec_f env s | Echo_f \<Rightarrow> Inr s
     | Alias_f \<Rightarrow> Cmd_Alias_f env s | Wait_f \<Rightarrow> Inr (Cmd_Wait_f s) | Other n \<Rightarrow> call_other env n s)"

definition forward_to_server :: "'w cmd_env \<Rightarrow> 'w cmd_state \<Rightarrow> 'w cmd_state" where
  "forward_to_server env s =
     (case forward_cmd env of None \<Rightarrow> s
      | Some f \<Rightarrow> if dedicated env (world s) then s else s\<lparr>world := f (cargs s) (world s)\<rparr>)"

definition Cmd_ExecuteString :: "'w cmd_env \<Rightarrow> string \<Rightarrow> 'w cmd_state \<Rightarrow> 'w cmd_state result" where
  "Cmd_ExecuteString env t s =
     bindE (Cmd_TokenizeString (cvar_string env (world s)) (Some t)) (\<lambda>a.
       let s = s\<lparr>cargs := a\<rparr> in
       if Cmd_Argc a = 0 then Inr s
       else case Cmd_Get (Cmd_Argv a 0) s of
         Some c \<Rightarrow> (case Execute c of Some f \<Rightarrow> call_cmd env f s
           | None \<Rightarrow> (case cmd_commands c of
               Some t \<Rightarrow>
                 let s = s\<lparr>alias_loop_count := alias_loop_count s + 1\<rparr>
                 in if alias_loop_count s = MAX_ALIAS_LOOP_COUNT then Inr s
                    else with_buffers (Cbuf_InsertText t) s
             | None \<Rightarrow> Inr (forward_to_server env s)))
       | None \<Rightarrow>
           bindE (cvar_command env a (world s)) (\<lambda>(handled, w). let s = s\<lparr>world := w\<rparr>
           in if handled then Inr s else Inr (forward_to_server env s)))"

partial_function (option) cbuf_loop :: "'w cmd_env \<Rightarrow> 'w cmd_state \<Rightarrow> 'w cmd_state run" where
  "cbuf_loop env s =
     (if buf_size (cbuf (buffers s)) = 0 then Some (Inr s)
      else bindO (Some (take_line (buffers s))) (\<lambda>r.
        case r of None \<Rightarrow> Some (Inr s)
        | Some (line, b) \<Rightarrow>
            bindO (Some (Cmd_ExecuteString env line (s\<lparr>buffers := b\<rparr>))) (\<lambda>s.
              if wait s then Some (Inr (s\<lparr>wait := False\<rparr>)) else cbuf_loop env s)))"

definition Cbuf_Execute :: "'w cmd_env \<Rightarrow> 'w cmd_state \<Rightarrow> 'w cmd_state run" where
  "Cbuf_Execute env s = cbuf_loop env (s\<lparr>alias_loop_count := 0\<rparr>)"

section \<open>Starting\<close>

text \<open>The commands after a plus sign on the command line of the program.\<close>

definition plus :: "string \<Rightarrow> bool" where
  "plus c \<longleftrightarrow> take 1 c = ''+''"

function late_commands :: "string list \<Rightarrow> cmd_buffers \<Rightarrow> cmd_buffers result" where
  "late_commands [] b = Inr b"
| "late_commands (c # cs) b =
     (if plus c \<and> take 4 c \<noteq> ''+set'' then
        let words = takeWhile (\<lambda>c. \<not> plus c) cs; rest = dropWhile (\<lambda>c. \<not> plus c) cs
        in bindE (run_seq (Cbuf_AddText (tl c) # map (\<lambda>w. Cbuf_AddText (CHR '' '' # w)) words @
               (if rest = [] then [] else [Cbuf_AddText [newline]])) b) (late_commands rest)
      else late_commands cs b)"
  by pat_completeness auto

termination
  by (relation "measure (\<lambda>(cs, _). length cs)") (simp_all add: less_Suc_eq_le length_dropWhile_le)

definition CMD_SYSTEM :: uint32 where "CMD_SYSTEM = 1"

definition Cmd_Init :: "'w cmd_env \<Rightarrow> string list \<Rightarrow> 'w \<Rightarrow> 'w cmd_state result" where
  "Cmd_Init env com_argv w =
     (let zeros = replicate CBUF_CHARS 0;
          s = \<lparr>commands = Map.empty, keys = [], buffers = \<lparr>cbuf = Mem_InitBuffer zeros CBUF_CHARS, deferred = zeros\<rparr>,
               cargs = no_args, wait = False, alias_loop_count = 0, world = w\<rparr>;
          s = snd (Cmd_Add env ''cmd_list'' List_f CMD_SYSTEM None s);
          s = snd (Cmd_Add env ''exec'' Exec_f CMD_SYSTEM None s);
          s = snd (Cmd_Add env ''echo'' Echo_f 0 None s);
          s = snd (Cmd_Add env ''alias'' Alias_f CMD_SYSTEM None s);
          s = snd (Cmd_Add env ''wait'' Wait_f 0 None s)
      in with_buffers (\<lambda>b. bindE (late_commands (tl com_argv) b) (\<lambda>b.
           bindE (Cbuf_AddText [newline] b) (\<lambda>b. Inr (Cbuf_CopyToDefer b)))) s)"


section \<open>The buffer as a queue of commands\<close>

text \<open>
  A command that stands whole between two separators, and a text of commands, each with
  its separator.
\<close>

definition good_line :: "string \<Rightarrow> bool" where
  "good_line l \<longleftrightarrow> line_end 0 l = length l \<and> even (length (filter (\<lambda>c. c = quote) l)) \<and> newline \<notin> set l \<and>
     nul \<notin> set l \<and> length l < MAX_STRING_CHARS"

definition text_of :: "(string \<times> bool) list \<Rightarrow> string" where
  "text_of ls = concat (map (\<lambda>(l, semi). l @ [if semi then semicolon else newline]) ls)"

lemma text_of_simps [simp]:
  "text_of [] = []" "text_of ((l, semi) # ls) = l @ (if semi then semicolon else newline) # text_of ls"
  "text_of (ls @ ms) = text_of ls @ text_of ms"
  by (simp_all add: text_of_def)

lemma line_end_whole:
  assumes "line_end q l = length l" "even (q + length (filter (\<lambda>c. c = quote) l))" "c = semicolon \<or> c = newline"
  shows "line_end q (l @ c # s) = length l"
  using assms by (induction q l rule: line_end.induct) (auto simp: Let_def split: if_splits)

lemma take_line_whole:
  assumes b: "wf_buf (cbuf b)" and l: "good_line l"
    and holds: "contents (cbuf b) = map byte_of_char (text_of ((l, semi) # ls))"
  shows "\<exists>c. take_line b = Inr (Some (l, b\<lparr>cbuf := c\<rparr>)) \<and> wf_buf c \<and> contents c = map byte_of_char (text_of ls) \<and>
    max_size c = max_size (cbuf b) \<and> allow_overflow c = allow_overflow (cbuf b)"
proof -
  have chars: "map char_of_byte (contents (cbuf b)) = text_of ((l, semi) # ls)"
    by (simp add: holds comp_def)
  have i: "line_end 0 (map char_of_byte (contents (cbuf b))) = length l"
    using l line_end_whole [of 0 l] unfolding chars by (simp add: good_line_def)
  have size: "buf_size (cbuf b) = length l + 1 + length (text_of ls)"
    using length_contents [OF b] holds by simp
  let ?rest = "drop (length l + 1) (contents (cbuf b))"
  have rest: "?rest = map byte_of_char (text_of ls)" by (simp add: holds)
  let ?c = "(cbuf b)\<lparr>buf_data := store_bytes 0 ?rest (buf_data (cbuf b)), buf_size := buf_size (cbuf b) - (length l + 1)\<rparr>"
  have "takeWhile (\<lambda>c. c \<noteq> CHR 0x00) (map char_of_byte (take (length l) (contents (cbuf b)))) = l"
    using l by (auto simp: holds comp_def good_line_def takeWhile_eq_all_conv)
  moreover have "length l < MAX_STRING_CHARS" using l by (simp add: good_line_def)
  ultimately have "take_line b = Inr (Some (l, b\<lparr>cbuf := ?c\<rparr>))"
    unfolding take_line_def Let_def i by (simp add: size)
  moreover have "contents ?c = map byte_of_char (text_of ls)"
  proof -
    have "take (length ?rest) (store_bytes 0 ?rest (buf_data (cbuf b))) = ?rest"
    proof -
      have "0 + length ?rest \<le> length (buf_data (cbuf b))"
        using b length_contents [OF b] by (auto simp: wf_buf_def)
      from take_store_bytes [OF this] show ?thesis by simp
    qed
    then show ?thesis unfolding rest by (simp add: contents_def size)
  qed
  moreover have "wf_buf ?c" using b by (simp add: wf_buf_def size)
  ultimately show ?thesis by (intro exI [of _ ?c]) simp
qed

lemma add_text:
  assumes "wf_buf (cbuf b)" "buf_size (cbuf b) + length t < max_size (cbuf b)"
  shows "Cbuf_AddText t b = Inr (b\<lparr>cbuf := appended (map byte_of_char t) (cbuf b)\<rparr>)"
  using assms by (simp add: Cbuf_AddText_def Mem_WriteBuffer_fits)

lemma insert_text:
  assumes "wf_buf (cbuf b)" "buf_size (cbuf b) + length t < max_size (cbuf b)"
  shows "\<exists>c. Cbuf_InsertText t b = Inr (b\<lparr>cbuf := c\<rparr>) \<and> wf_buf c \<and>
    contents c = map byte_of_char t @ contents (cbuf b) \<and> max_size c = max_size (cbuf b)"
proof (cases "buf_size (cbuf b) = 0")
  case True
  then show ?thesis
    using assms add_text [OF assms]
    by (intro exI [of _ "appended (map byte_of_char t) (cbuf b)"])
      (simp add: Cbuf_InsertText_def wf_appended contents_appended contents_def [of "cbuf b"])
next
  case False
  let ?e = "Mem_ClearBuffer (cbuf b)"
  have e: "wf_buf ?e" "buf_size ?e = 0" "max_size ?e = max_size (cbuf b)"
    using assms(1) by (simp_all add: Mem_ClearBuffer_def wf_buf_def)
  have a: "Cbuf_AddText t (b\<lparr>cbuf := ?e\<rparr>) = Inr (b\<lparr>cbuf := appended (map byte_of_char t) ?e\<rparr>)"
    using add_text [of "b\<lparr>cbuf := ?e\<rparr>" t] e assms(2) by simp
  have len: "length (contents (cbuf b)) = buf_size (cbuf b)" by (rule length_contents [OF assms(1)])
  let ?c = "appended (contents (cbuf b)) (appended (map byte_of_char t) ?e)"
  have "Cbuf_InsertText t b = Inr (b\<lparr>cbuf := ?c\<rparr>)"
    using False a e assms(2) len by (simp add: Cbuf_InsertText_def Let_def Mem_WriteBuffer_fits)
  moreover have "wf_buf ?c"
    by (intro wf_appended) (use e assms(2) len in simp_all)
  moreover have "contents ?c = map byte_of_char t @ contents (cbuf b)"
    using e assms(2) len by (simp add: contents_appended wf_appended)
  ultimately show ?thesis using e by (intro exI [of _ ?c]) simp
qed


section \<open>Scripts\<close>

text \<open>
  What is to happen: the commands of a queue are run one after the other on the world, and
  an alias puts its commands at the front of the queue. \<open>k\<close> bounds the number of
  aliases, \<open>n\<close> that of commands.
\<close>

datatype meaning = Plain string | Script "(string \<times> bool) list"

definition forwarded :: "'w cmd_env \<Rightarrow> cmd_args \<Rightarrow> 'w \<Rightarrow> 'w" where
  "forwarded env a w = (case forward_cmd env of None \<Rightarrow> w | Some f \<Rightarrow> if dedicated env w then w else f a w)"

fun script :: "'w cmd_env \<Rightarrow> (string \<Rightarrow> meaning option) \<Rightarrow> (string \<Rightarrow> cmd_args \<Rightarrow> 'w \<Rightarrow> 'w result) \<Rightarrow>
    nat \<Rightarrow> nat \<Rightarrow> (string \<times> bool) list \<Rightarrow> 'w \<Rightarrow> 'w option" where
  "script env tab act n k [] w = Some w"
| "script env tab act 0 k (l # ls) w = None"
| "script env tab act (Suc n) k (l # ls) w =
     (case Cmd_TokenizeString (cvar_string env w) (Some (fst l)) of Inl _ \<Rightarrow> None
      | Inr a \<Rightarrow>
          if Cmd_Argc a = 0 then script env tab act n k ls w
          else case tab (Cmd_Argv a 0) of
            Some (Plain f) \<Rightarrow> (case act f a w of Inl _ \<Rightarrow> None | Inr w \<Rightarrow> script env tab act n k ls w)
          | Some (Script ms) \<Rightarrow>
              if k = 0 \<or> length (text_of (ms @ ls)) \<ge> CBUF_CHARS then None
              else script env tab act n (k - 1) (ms @ ls) w
          | None \<Rightarrow> (case cvar_command env a w of Inl _ \<Rightarrow> None
              | Inr (handled, w) \<Rightarrow> script env tab act n k ls (if handled then w else forwarded env a w)))"

definition good_lines :: "(string \<times> bool) list \<Rightarrow> bool" where
  "good_lines ls \<longleftrightarrow> (\<forall>l \<in> set ls. good_line (fst l))"

definition means :: "(string \<Rightarrow> meaning option) \<Rightarrow> (string \<Rightarrow> cmd option) \<Rightarrow> bool" where
  "means tab cmds \<longleftrightarrow> (\<forall>n. case tab n of
     None \<Rightarrow> cmds n = None
   | Some (Plain f) \<Rightarrow> (\<exists>c. cmds n = Some c \<and> Execute c = Some (Other f))
   | Some (Script ls) \<Rightarrow> good_lines ls \<and> (\<exists>c. cmds n = Some c \<and> Execute c = None \<and> cmd_commands c = Some (text_of ls)))"

lemmas meansD = means_def [THEN iffD1, THEN spec]

definition queued :: "(string \<times> bool) list \<Rightarrow> 'w cmd_state \<Rightarrow> bool" where
  "queued ls s \<longleftrightarrow> wf_buf (cbuf (buffers s)) \<and> max_size (cbuf (buffers s)) = CBUF_CHARS \<and>
     contents (cbuf (buffers s)) = map byte_of_char (text_of ls) \<and> good_lines ls"

definition acts_on_world :: "'w cmd_env \<Rightarrow> (string \<Rightarrow> meaning option) \<Rightarrow> (string \<Rightarrow> cmd_args \<Rightarrow> 'w \<Rightarrow> 'w result) \<Rightarrow> bool" where
  "acts_on_world env tab act \<longleftrightarrow> (\<forall>n f s. tab n = Some (Plain f) \<longrightarrow>
     call_other env f s = bindE (act f (cargs s) (world s)) (\<lambda>w. Inr (s\<lparr>world := w\<rparr>)))"

lemma cbuf_loop_script:
  assumes tab: "means tab (commands s)" and act: "acts_on_world env tab act"
    and q: "queued ls s" and w: "\<not> wait s" and k: "unat (alias_loop_count s) + k = 7"
    and run: "script env tab act n k ls (world s) = Some v"
  shows "\<exists>t. cbuf_loop env s = Some (Inr t) \<and> world t = v \<and> queued [] t \<and> commands t = commands s"
  using assms
proof (induction n arbitrary: k ls s)
  case 0
  then have "ls = []" "v = world s" by (cases ls; simp)+
  moreover from this have "buf_size (cbuf (buffers s)) = 0"
    using 0(3) length_contents [of "cbuf (buffers s)"] by (simp add: queued_def)
  ultimately show ?case using 0 by (subst cbuf_loop.simps) simp
next
  case (Suc n)
  show ?case
  proof (cases ls)
    case Nil
    then have "buf_size (cbuf (buffers s)) = 0"
      using Suc.prems(3) length_contents [of "cbuf (buffers s)"] by (simp add: queued_def)
    then show ?thesis using Suc.prems Nil by (subst cbuf_loop.simps) simp
  next
    case (Cons l rest)
    obtain ln semi where l: "l = (ln, semi)" by (cases l)
    have good: "good_line ln" "good_lines rest" using Suc.prems(3) l Cons by (simp_all add: queued_def good_lines_def)
    obtain c where c: "take_line (buffers s) = Inr (Some (ln, (buffers s)\<lparr>cbuf := c\<rparr>))" "wf_buf c"
        "contents c = map byte_of_char (text_of rest)" "max_size c = CBUF_CHARS"
      using take_line_whole [of "buffers s" ln semi rest] Suc.prems(3) good(1) l Cons by (auto simp: queued_def)
    have busy: "buf_size (cbuf (buffers s)) \<noteq> 0"
      using Suc.prems(3) length_contents [of "cbuf (buffers s)"] l Cons by (simp add: queued_def)
    obtain a where a: "Cmd_TokenizeString (cvar_string env (world s)) (Some ln) = Inr a"
      using Suc.prems(6) l Cons by (auto split: sum.splits)
    define s1 where "s1 = s\<lparr>buffers := (buffers s)\<lparr>cbuf := c\<rparr>, cargs := a\<rparr>"
    have s1: "commands s1 = commands s" "\<not> wait s1" "alias_loop_count s1 = alias_loop_count s" "world s1 = world s"
        "cargs s1 = a" "queued rest s1"
      using Suc.prems(4) c good(2) by (simp_all add: s1_def queued_def)
    have loop: "cbuf_loop env s = bindO (Some (Cmd_ExecuteString env ln (s\<lparr>buffers := (buffers s)\<lparr>cbuf := c\<rparr>\<rparr>))) (\<lambda>s.
        if wait s then Some (Inr (s\<lparr>wait := False\<rparr>)) else cbuf_loop env s)"
      using busy c(1) by (subst cbuf_loop.simps) simp
    have next_state: ?thesis
      if e: "Cmd_ExecuteString env ln (s\<lparr>buffers := (buffers s)\<lparr>cbuf := c\<rparr>\<rparr>) = Inr t"
        and t: "commands t = commands s" "\<not> wait t" "queued ms t" "unat (alias_loop_count t) + j = 7"
        and r: "script env tab act n j ms (world t) = Some v" for t ms j
      using Suc.IH [of t ms j] Suc.prems(1,2) t r unfolding loop e by simp
    have exec: "Cmd_ExecuteString env ln (s\<lparr>buffers := (buffers s)\<lparr>cbuf := c\<rparr>\<rparr>) =
       (if Cmd_Argc a = 0 then Inr s1
       else case Cmd_Get (Cmd_Argv a 0) s1 of
         Some c \<Rightarrow> (case Execute c of Some f \<Rightarrow> call_cmd env f s1
           | None \<Rightarrow> (case cmd_commands c of
               Some t \<Rightarrow>
                 let s = s1\<lparr>alias_loop_count := alias_loop_count s1 + 1\<rparr>
                 in if alias_loop_count s = MAX_ALIAS_LOOP_COUNT then Inr s
                    else with_buffers (Cbuf_InsertText t) s
             | None \<Rightarrow> Inr (forward_to_server env s1)))
       | None \<Rightarrow>
           bindE (cvar_command env a (world s1)) (\<lambda>(handled, w). let s = s1\<lparr>world := w\<rparr>
           in if handled then Inr s else Inr (forward_to_server env s)))"
    proof -
      define s0 where "s0 = s\<lparr>buffers := (buffers s)\<lparr>cbuf := c\<rparr>\<rparr>"
      have s10: "s1 = s0\<lparr>cargs := a\<rparr>" by (simp add: s1_def s0_def)
      have a0: "Cmd_TokenizeString (cvar_string env (world s0)) (Some ln) = Inr a" using a by (simp add: s0_def)
      show ?thesis
        unfolding s0_def [symmetric] s10 Cmd_ExecuteString_def a0 bindE_simps by (simp only: Let_def)
    qed
    note run = Suc.prems(6) [unfolded Cons l script.simps fst_conv a sum.case]
    show ?thesis
    proof (cases "Cmd_Argc a = 0")
      case True
      then show ?thesis using next_state [of s1 rest k] exec s1 run Suc.prems(5) by simp
    next
      case some: False
      show ?thesis
      proof (cases "tab (Cmd_Argv a 0)")
        case None
        then have no: "commands s (Cmd_Argv a 0) = None" using meansD [OF Suc.prems(1), of "Cmd_Argv a 0"] None by simp
        obtain handled w' where h: "cvar_command env a (world s) = Inr (handled, w')"
          using run some None by (auto split: sum.splits)
        define t where "t = s1\<lparr>world := (if handled then w' else forwarded env a w')\<rparr>"
        have "Cmd_ExecuteString env ln (s\<lparr>buffers := (buffers s)\<lparr>cbuf := c\<rparr>\<rparr>) = Inr t"
          using exec some no h s1(1,4,5) by (auto simp: Cmd_Get_def t_def forward_to_server_def forwarded_def split: option.splits)
        then show ?thesis
          by (rule next_state [of t rest k]) (use s1 run some None h Suc.prems(5) in \<open>auto simp: t_def queued_def\<close>)
      next
        case m: (Some m)
        show ?thesis
        proof (cases m)
          case (Plain f)
          then obtain cm where cm: "commands s (Cmd_Argv a 0) = Some cm" "Execute cm = Some (Other f)"
            using meansD [OF Suc.prems(1), of "Cmd_Argv a 0"] m Plain by auto
          obtain w' where w': "act f a (world s) = Inr w'" using run some m Plain by (auto split: sum.splits)
          define t where "t = s1\<lparr>world := w'\<rparr>"
          have "call_other env f s1 = Inr t"
            using Suc.prems(2) m Plain s1(4,5) w' by (auto simp: acts_on_world_def t_def)
          then have "Cmd_ExecuteString env ln (s\<lparr>buffers := (buffers s)\<lparr>cbuf := c\<rparr>\<rparr>) = Inr t"
            using exec some cm s1(1) by (simp add: Cmd_Get_def call_cmd_def)
          then show ?thesis
            by (rule next_state [of t rest k]) (use s1 run some m Plain w' Suc.prems(5) in \<open>auto simp: t_def queued_def\<close>)
        next
          case (Script ms)
          then obtain cm where cm: "commands s (Cmd_Argv a 0) = Some cm" "Execute cm = None"
              "cmd_commands cm = Some (text_of ms)" "good_lines ms"
            using meansD [OF Suc.prems(1), of "Cmd_Argv a 0"] m Script by auto
          have fits: "k \<noteq> 0" "length (text_of (ms @ rest)) < CBUF_CHARS"
              "script env tab act n (k - 1) (ms @ rest) (world s) = Some v"
            using run some m Script by (auto split: if_splits)
          have count: "unat (alias_loop_count s1 + 1) + (k - 1) = 7"
            using Suc.prems(5) fits(1) s1(3) by (simp add: unat_word_ariths)
          have "buf_size (cbuf (buffers s1)) + length (text_of ms) < max_size (cbuf (buffers s1))"
            using s1(6) fits(2) length_contents [of "cbuf (buffers s1)"] by (simp add: queued_def)
          then obtain c' where c': "Cbuf_InsertText (text_of ms) (buffers s1) = Inr ((buffers s1)\<lparr>cbuf := c'\<rparr>)" "wf_buf c'"
              "contents c' = map byte_of_char (text_of ms) @ contents (cbuf (buffers s1))" "max_size c' = CBUF_CHARS"
            using insert_text [of "buffers s1" "text_of ms"] s1(6) by (auto simp: queued_def)
          define t where "t = s1\<lparr>alias_loop_count := alias_loop_count s1 + 1, buffers := (buffers s1)\<lparr>cbuf := c'\<rparr>\<rparr>"
          have "alias_loop_count s1 + 1 \<noteq> 8" using count by (auto dest: arg_cong [of _ _ unat])
          then have "Cmd_ExecuteString env ln (s\<lparr>buffers := (buffers s)\<lparr>cbuf := c\<rparr>\<rparr>) = Inr t"
            using exec some cm c'(1) s1(1) by (simp add: Cmd_Get_def Let_def with_buffers_def t_def MAX_ALIAS_LOOP_COUNT_def)
          then show ?thesis
            by (rule next_state [of t "ms @ rest" "k - 1"])
              (use s1 c' fits count cm(4) in \<open>auto simp: t_def queued_def good_lines_def\<close>)
        qed
      qed
    qed
  qed
qed

section \<open>Properties\<close>


definition log_env :: "(string \<times> string) list cmd_env" where
  "log_env = \<lparr>cvar_string = (\<lambda>_ _. []), is_cvar = (\<lambda>_ _. False), cvar_command = (\<lambda>_ w. Inr (False, w)), dedicated = (\<lambda>_. True),
     forward_cmd = None, load_file = (\<lambda>_ _. None),
     call_other = (\<lambda>f s. Inr (s\<lparr>world := world s @ [(f, Cmd_Args (cargs s))]\<rparr>))\<rparr>"

definition log_cmds :: "string \<Rightarrow> cmd option" where
  "log_cmds = [''say'' \<mapsto> \<lparr>cmd_name = ''say'', cmd_description = None, Execute = Some (Other ''say''), cmd_commands = None, cmd_flags = 0\<rparr>,
     ''hail'' \<mapsto> \<lparr>cmd_name = ''hail'', cmd_description = None, Execute = None,
       cmd_commands = Some (''say a;say b'' @ [newline]), cmd_flags = 0\<rparr>]"

definition log_state :: "string \<Rightarrow> (string \<times> string) list cmd_state" where
  "log_state t = \<lparr>commands = log_cmds, keys = [''hail'', ''say''],
     buffers = \<lparr>cbuf = \<lparr>allow_overflow = False, overflowed = False, buf_data = map byte_of_char t @ replicate (CBUF_CHARS - length t) 0,
       max_size = CBUF_CHARS, buf_size = length t, read_pos = 0\<rparr>, deferred = replicate CBUF_CHARS 0\<rparr>,
     cargs = no_args, wait = False, alias_loop_count = 0, world = []\<rparr>"


end
