(* ===== verification/C_Numbers.thy ===== *)
theory C_Numbers
  imports Cmd_Tokens
begin

text \<open>
  What the program uses of the C library to read and to print numbers: \<open>strtoul\<close>, \<open>strtol\<close>
  and \<open>atoi\<close>, with a \<open>long\<close> of 64 bits, and \<open>%i\<close> of \<open>va\<close> and \<open>g_snprintf\<close>. What is
  printed is read back.
\<close>

section \<open>Reading\<close>

definition is_space :: "char \<Rightarrow> bool" where
  "is_space c \<longleftrightarrow> c = CHR '' '' \<or> (9 \<le> (of_char c :: nat) \<and> (of_char c :: nat) \<le> 13)"

definition digit_val :: "char \<Rightarrow> nat" where
  "digit_val c = (let n = of_char c in
     if 48 \<le> n \<and> n \<le> 57 then n - 48
     else if 65 \<le> n \<and> n \<le> 90 then n - 55
     else if 97 \<le> n \<and> n \<le> 122 then n - 87 else 36)"

definition value_in :: "nat \<Rightarrow> string \<Rightarrow> nat" where
  "value_in b s = foldl (\<lambda>n c. n * b + digit_val c) 0 (takeWhile (\<lambda>c. digit_val c < b) s)"

text \<open>Base 0 is that of the prefix: \<open>0x\<close> before a hexadecimal digit, or \<open>0\<close>.\<close>

definition magnitude :: "nat \<Rightarrow> string \<Rightarrow> nat" where
  "magnitude b s =
     (if b \<noteq> 0 then value_in b s
      else if take 2 s = ''0x'' \<or> take 2 s = ''0X'' then value_in 16 (drop 2 s)
      else if take 1 s = ''0'' then value_in 8 s
      else value_in 10 s)"

definition parts_of :: "nat \<Rightarrow> string \<Rightarrow> bool \<times> nat" where
  "parts_of b s =
     (let t = dropWhile is_space s
      in if t \<noteq> [] \<and> hd t = CHR ''-'' then (True, magnitude b (tl t))
         else if t \<noteq> [] \<and> hd t = CHR ''+'' then (False, magnitude b (tl t))
         else (False, magnitude b t))"

definition strtoul :: "nat \<Rightarrow> string \<Rightarrow> 64 word" where
  "strtoul b s = (let (neg, m) = parts_of b s
     in if m \<ge> 2 ^ 64 then -1 else if neg then - word_of_nat m else word_of_nat m)"

definition strtol :: "nat \<Rightarrow> string \<Rightarrow> int" where
  "strtol b s = (let (neg, m) = parts_of b s
     in max (- (2 ^ 63)) (min (2 ^ 63 - 1) (if neg then - int m else int m)))"

text \<open>\<open>(int) strtol(s, NULL, 10)\<close>\<close>

definition atoi :: "string \<Rightarrow> int" where
  "atoi s = sint (word_of_int (strtol 10 s) :: uint32)"

section \<open>Printing\<close>

definition digit_char :: "nat \<Rightarrow> char" where
  "digit_char d = char_of (48 + d)"

fun decimal :: "nat \<Rightarrow> string" where
  "decimal n = (if n < 10 then [digit_char n] else decimal (n div 10) @ [digit_char (n mod 10)])"

declare decimal.simps [simp del]

definition print_int :: "int \<Rightarrow> string" where
  "print_int i = (if i < 0 then CHR ''-'' # decimal (nat (- i)) else decimal (nat i))"

section \<open>Reading what has been printed\<close>

lemma of_digit_char: "d < 10 \<Longrightarrow> (of_char (digit_char d) :: nat) = 48 + d"
  by (simp add: digit_char_def)

lemma digit_val_char: "d < 10 \<Longrightarrow> digit_val (digit_char d) = d"
  by (simp add: digit_val_def of_digit_char)

lemma decimal_digits: "\<forall>c \<in> set (decimal n). digit_val c < 10 \<and> 48 \<le> (of_char c :: nat) \<and> (of_char c :: nat) \<le> 57"
proof (induction n rule: decimal.induct)
  case (1 n)
  show ?case
  proof (cases "n < 10")
    case True
    then show ?thesis by (subst decimal.simps) (simp add: digit_val_char of_digit_char)
  next
    case False
    then show ?thesis using 1 [OF False] by (subst decimal.simps) (auto simp: digit_val_char of_digit_char)
  qed
qed

lemma decimal_not_empty [simp]: "decimal n \<noteq> []"
  by (subst decimal.simps) simp

lemma foldl_decimal: "foldl (\<lambda>n c. n * 10 + digit_val c) 0 (decimal n) = n"
proof (induction n rule: decimal.induct)
  case (1 n)
  show ?case
  proof (cases "n < 10")
    case True
    then show ?thesis by (subst decimal.simps) (simp add: digit_val_char)
  next
    case False
    then show ?thesis using 1 [OF False] by (subst decimal.simps) (simp add: digit_val_char)
  qed
qed

lemma value_in_decimal:
  assumes "rest = [] \<or> \<not> digit_val (hd rest) < 10"
  shows "value_in 10 (decimal n @ rest) = n"
proof -
  have "takeWhile (\<lambda>c. digit_val c < 10) (decimal n @ rest) = decimal n"
    using decimal_digits [of n] assms by (cases rest) (auto simp: takeWhile_append takeWhile_eq_all_conv [THEN iffD2])
  then show ?thesis by (simp add: value_in_def foldl_decimal)
qed

lemma hd_decimal: "n > 0 \<Longrightarrow> hd (decimal n) \<noteq> CHR ''0''"
proof (induction n rule: decimal.induct)
  case (1 n)
  show ?case
  proof (cases "n < 10")
    case True
    have "(of_char (digit_char n) :: nat) \<noteq> of_char (CHR ''0'')" using True 1(2) by (simp add: of_digit_char)
    then show ?thesis using True by (subst decimal.simps) auto
  next
    case False
    then show ?thesis using 1(1) [OF False] by (subst decimal.simps) simp
  qed
qed

lemma decimal_head:
  "\<not> is_space (hd (decimal n))" "hd (decimal n) \<noteq> CHR ''-''" "hd (decimal n) \<noteq> CHR ''+''"
proof -
  have "48 \<le> (of_char (hd (decimal n)) :: nat)" using decimal_digits [of n] by (simp add: hd_in_set)
  then show "\<not> is_space (hd (decimal n))" "hd (decimal n) \<noteq> CHR ''-''" "hd (decimal n) \<noteq> CHR ''+''"
    by (auto simp: is_space_def)
qed

lemma magnitude_decimal: "magnitude 0 (decimal n) = n" "magnitude 10 (decimal n) = n"
proof -
  have ten: "value_in 10 (decimal n) = n" using value_in_decimal [of "[]" n] by simp
  then show "magnitude 10 (decimal n) = n" by (simp add: magnitude_def)
  show "magnitude 0 (decimal n) = n"
  proof (cases "n = 0")
    case True
    have "char_of (48 :: nat) = CHR ''0''" by code_simp
    then have "decimal 0 = ''0''" by (subst decimal.simps) (simp add: digit_char_def)
    then show ?thesis using True by (simp add: magnitude_def value_in_def digit_val_def)
  next
    case False
    obtain c cs where d: "decimal n = c # cs" by (cases "decimal n") simp_all
    then have "c \<noteq> CHR ''0''" using hd_decimal [of n] False by simp
    then show ?thesis using ten d by (simp add: magnitude_def)
  qed
qed

lemma parts_of_decimal: "b = 0 \<or> b = 10 \<Longrightarrow> parts_of b (decimal n) = (False, n)"
proof -
  assume b: "b = 0 \<or> b = 10"
  have "dropWhile is_space (decimal n) = decimal n"
    using decimal_head(1) [of n] by (cases "decimal n") simp_all
  then show ?thesis using b decimal_head(2,3) [of n] magnitude_decimal [of n] by (auto simp: parts_of_def)
qed

lemma strtoul_decimal: "n < 2 ^ 64 \<Longrightarrow> strtoul 0 (decimal n) = word_of_nat n"
  by (simp add: strtoul_def parts_of_decimal)

lemma strtol_decimal: "int n < 2 ^ 63 \<Longrightarrow> strtol 0 (decimal n) = int n"
  by (simp add: strtol_def parts_of_decimal)

end
