(* ===== verification/Sv_Connect.thy ===== *)
theory Sv_Connect
  imports Sv_Send C_Numbers Cmd_Buffer
begin

text \<open>
  How clients come to be connected and are let go of: the connectionless requests,
  \<open>Sv_UserInfoChanged\<close>, \<open>Sv_KickClient\<close>, the timeouts and the checks of movement times of
  \<open>src/server/sv_main.c\<close>. The record \<open>host\<close> is what \<open>sv\<close>, \<open>svs\<close> and the other globals
  hold beside \<open>sv_run\<close>. The game module is reached through the functions it exports
  (\<open>game_calls\<close>), each of which may call back into the server and so changes \<open>sv_run\<close>.
  Console variables, the printing of addresses and what else is outside these files are
  in \<open>sv_env\<close>. Console output is left out.
\<close>

section \<open>Types\<close>

definition MAX_CHALLENGES :: nat where "MAX_CHALLENGES = 1024"
definition MAX_MASTERS :: nat where "MAX_MASTERS = 8"
definition PROTOCOL :: int where "PROTOCOL = 1005"
definition CLIENT_RATE_MIN :: uint32 where "CLIENT_RATE_MIN = 8192"
definition CLIENT_RATE_MAX :: uint32 where "CLIENT_RATE_MAX = 32768"

record sv_challenge =
  ch_addr :: net_addr
  ch_challenge :: uint32
  ch_time :: uint32

record host =
  srv :: sv_run
  host_bufs :: cmd_buffers
  spawn_count :: uint32
  frame_rate :: uint16
  level_time :: uint32
  level_name :: string
  challenges :: "sv_challenge list"
  masters :: "net_addr list"
  next_heartbeat :: uint32
  pings :: "nat \<Rightarrow> uint32"
  last_check_time :: uint32
  rand_state :: uint32
  net_from :: net_addr
  net_message :: mem_buf

text \<open>The functions of \<open>g_export_t\<close>, by the number of the edict.\<close>

record game_calls =
  on_drop :: game_export
  ClientConnect :: "nat \<Rightarrow> string \<Rightarrow> sv_run \<Rightarrow> (bool \<times> string \<times> sv_run) result"
  ClientUserInfoChanged :: "nat \<Rightarrow> string \<Rightarrow> sv_run \<Rightarrow> (string \<times> sv_run) result"
  ClientBegin :: "nat \<Rightarrow> sv_run \<Rightarrow> sv_run result"
  ClientCommand :: "nat \<Rightarrow> cmd_args \<Rightarrow> sv_run \<Rightarrow> sv_run result"
  ClientThink :: "nat \<Rightarrow> user_cmd \<Rightarrow> sv_run \<Rightarrow> sv_run result"
  game_Frame :: "sv_run \<Rightarrow> sv_run run"
  GameName :: string

text \<open>
  \<open>run_rcon\<close> executes a console command with its output redirected. \<open>server_vars\<close> are
  the variables with \<open>CVAR_SERVER_INFO\<close>, by name and value; \<open>server_info\<close> is
  \<open>Cvar_ServerInfo\<close>.
\<close>

record sv_env =
  game :: game_calls
  addr_string :: "net_addr \<Rightarrow> string"
  cv_string :: "string \<Rightarrow> string"
  cv_timeout :: vec_t
  cv_enforce_time :: vec_t
  cv_udp_download :: bool
  cv_download_url :: string
  cv_hostname :: string
  cv_rcon_password :: string
  cv_game :: string
  cv_dedicated :: bool
  cv_public :: bool
  cv_time_demo :: bool
  server_info :: string
  server_vars :: "(string \<times> string) list"
  file_data :: "string \<Rightarrow> byte list option"
  run_rcon :: "string \<Rightarrow> host \<Rightarrow> (string \<times> host) result"

abbreviation clients_of :: "host \<Rightarrow> conn list" where
  "clients_of h \<equiv> conns (srv h)"

abbreviation real_time :: "host \<Rightarrow> uint32" where
  "real_time h \<equiv> svs_real_time (statics (srv h))"

definition on_run :: "(sv_run \<Rightarrow> sv_run result) \<Rightarrow> host \<Rightarrow> host result" where
  "on_run f h = bindE (f (srv h)) (\<lambda>s. Inr (h\<lparr>srv := s\<rparr>))"

text \<open>\<open>Netchan_OutOfBandPrint(NS_UDP_SERVER, addr, ...)\<close>\<close>

definition oob_print :: "net_addr \<Rightarrow> string \<Rightarrow> host \<Rightarrow> host result" where
  "oob_print adr str h =
     bindE (Netchan_OutOfBandPrint str) (\<lambda>bytes.
       Inr (h\<lparr>srv := (srv h)\<lparr>packets_out := packets_out (srv h) @ [(adr, bytes)]\<rparr>\<rparr>))"

section \<open>Kicking, and user info\<close>

definition Sv_KickClient :: "game_calls \<Rightarrow> nat \<Rightarrow> string option \<Rightarrow> sv_run \<Rightarrow> sv_run result" where
  "Sv_KickClient g i msg s =
     bindE (at_index (conns s) (int i)) (\<lambda>cl.
       if conn_state cl = SV_CLIENT_FREE then Inr s
       else
         let name = (if conn_name cl = [] then ''player'' else strlcpy (conn_name cl) 32);
             buf = (case msg of None \<Rightarrow> [] | Some m \<Rightarrow> if m = [] then [] else take (MAX_STRING_CHARS - 1) ('': '' @ m))
         in bindE (Sv_ClientPrint (conn_edict cl) PRINT_HIGH (''You were kicked'' @ buf @ [newline]) s) (\<lambda>s.
            bindE (Sv_DropClient (on_drop g) i s) (\<lambda>s.
              Sv_BroadcastPrint PRINT_HIGH (name @ '' was kicked'' @ buf @ [newline]) s)))"

text \<open>\<open>strstr\<close>\<close>

definition has_part :: "string \<Rightarrow> string \<Rightarrow> bool" where
  "has_part s p \<longleftrightarrow> list_ex (\<lambda>i. take (length p) (drop i s) = p) [0 ..< Suc (length s)]"

text \<open>The copy of the name and the masking of its characters.\<close>

definition masked_name :: "string \<Rightarrow> string" where
  "masked_name v = takeWhile (\<lambda>c. c \<noteq> nul) (map (\<lambda>c. char_of ((of_char c :: nat) mod 128)) (strlcpy v 32))"

definition set_rate :: "string \<Rightarrow> conn \<Rightarrow> conn" where
  "set_rate v c =
     (if v = [] then c
      else let r = word_of_int (atoi v) in
        c\<lparr>rate := (if r > CLIENT_RATE_MAX then CLIENT_RATE_MAX else if r < CLIENT_RATE_MIN then CLIENT_RATE_MIN else r)\<rparr>)"

definition Sv_UserInfoChanged :: "game_calls \<Rightarrow> nat \<Rightarrow> sv_run \<Rightarrow> sv_run result" where
  "Sv_UserInfoChanged g i s =
     bindE (at_index (conns s) (int i)) (\<lambda>cl.
       if user_info cl = [] then Sv_KickClient g i (Some ''Bad user info'') s
       else if CHR 0xFF \<in> set (user_info cl) then Sv_KickClient g i (Some ''Bad user info'') s
       else if \<not> ValidateUserInfo (Some (user_info cl)) then Sv_KickClient g i (Some ''Bad user info'') s
       else
         bindE (GetUserInfo (user_info cl) ''skin'') (\<lambda>val.
         bindE (if has_part val ''..'' then SetUserInfo (user_info cl) ''skin'' ''enforcer/qforcer'' else Inr (user_info cl)) (\<lambda>info.
         bindE (ClientUserInfoChanged g (conn_edict cl) info (set_conn i (cl\<lparr>user_info := info\<rparr>) s)) (\<lambda>(info, s).
         bindE (GetUserInfo info ''name'') (\<lambda>name.
         bindE (GetUserInfo info ''rate'') (\<lambda>rt.
         bindE (GetUserInfo info ''message_level'') (\<lambda>level.
           with_conn i (\<lambda>cl.
             let cl = set_rate rt (cl\<lparr>user_info := info, conn_name := masked_name name\<rparr>)
             in Inr (if level = [] then cl else cl\<lparr>message_level := atoi level\<rparr>)) s)))))))"

section \<open>Challenges\<close>

text \<open>\<open>Random\<close> of \<open>shared.c\<close>, once its state has been set from the time.\<close>

definition Random :: "uint32 \<Rightarrow> uint32 \<times> uint32" where
  "Random st = (let st = 1103515245 * st + 12345 in (st AND 0x7fffffff, st))"

text \<open>The search for an entry of the address, with the oldest entry before it.\<close>

fun scan_challenges :: "net_addr \<Rightarrow> nat \<Rightarrow> sv_challenge list \<Rightarrow> nat \<times> uint32 \<Rightarrow> nat option \<times> nat" where
  "scan_challenges adr i [] (oldest, t) = (None, oldest)"
| "scan_challenges adr i (c # cs) (oldest, t) =
     (if Net_CompareClientNetaddr adr (ch_addr c) then (Some i, oldest)
      else if ch_time c < t then scan_challenges adr (i + 1) cs (i, ch_time c)
      else scan_challenges adr (i + 1) cs (oldest, t))"

definition Svc_GetChallenge :: "host \<Rightarrow> host result" where
  "Svc_GetChallenge h =
     (let (i, oldest) = scan_challenges (net_from h) 0 (take MAX_CHALLENGES (challenges h)) (0, 0x7fffffff);
          (i, h) = (case i of Some i \<Rightarrow> (i, h)
            | None \<Rightarrow>
                let (r, st) = Random (rand_state h)
                in (oldest, h\<lparr>rand_state := st, challenges := (challenges h)[oldest :=
                     \<lparr>ch_addr = net_from h, ch_challenge = r AND 0x7fff, ch_time = time_now (srv h)\<rparr>]\<rparr>))
      in bindE (at_index (challenges h) (int i)) (\<lambda>c.
           oob_print (net_from h) (''challenge '' @ print_int (sint (ch_challenge c))) h))"

section \<open>Connecting\<close>

datatype verdict = Good nat | Bad_Challenge | No_Challenge

fun check_challenge :: "net_addr \<Rightarrow> uint32 \<Rightarrow> nat \<Rightarrow> sv_challenge list \<Rightarrow> verdict" where
  "check_challenge adr challenge i [] = No_Challenge"
| "check_challenge adr challenge i (c # cs) =
     (if Net_CompareClientNetaddr adr (ch_addr c)
      then (if challenge = ch_challenge c then Good i else Bad_Challenge)
      else check_challenge adr challenge (i + 1) cs)"

text \<open>The slot of a client that reconnects, and a free slot.\<close>

fun find_index :: "('a \<Rightarrow> bool) \<Rightarrow> 'a list \<Rightarrow> nat option" where
  "find_index P [] = None"
| "find_index P (x # xs) = (if P x then Some 0 else map_option Suc (find_index P xs))"

definition reconnects :: "net_addr \<Rightarrow> uint8 \<Rightarrow> conn \<Rightarrow> bool" where
  "reconnects adr qp cl \<longleftrightarrow> conn_state cl \<noteq> SV_CLIENT_FREE \<and>
     Net_CompareClientNetaddr adr (remote_address (chan cl)) \<and>
     (port adr = port (remote_address (chan cl)) \<or> qp = qport (chan cl))"

definition free_slot :: "(nat \<Rightarrow> edict) \<Rightarrow> conn \<Rightarrow> bool" where
  "free_slot eds cl \<longleftrightarrow> conn_state cl = SV_CLIENT_FREE \<and> \<not> ed_ai (eds (conn_edict cl))"

definition client_slot :: "net_addr \<Rightarrow> uint8 \<Rightarrow> sv_run \<Rightarrow> nat option" where
  "client_slot adr qp s =
     (let cls = take (max_clients s) (conns s) in
      case find_index (reconnects adr qp) cls of
        Some i \<Rightarrow> Some i
      | None \<Rightarrow> find_index (free_slot (svs_edicts (statics s))) cls)"

text \<open>What \<open>Svc_Connect\<close> sets of the client it has accepted.\<close>

definition connected :: "uint32 \<Rightarrow> uint32 \<Rightarrow> net_addr \<Rightarrow> uint8 \<Rightarrow> conn \<Rightarrow> conn" where
  "connected now rtime adr qp cl =
     cl\<lparr>chan := Netchan_Setup now NS_UDP_SERVER adr qp,
        datagram := (datagram cl)\<lparr>dg_buffer := (Mem_InitBuffer (if buf_data (dg_buffer (datagram cl)) = []
          then replicate MAX_FRAME_SIZE 0 else buf_data (dg_buffer (datagram cl))) MAX_FRAME_SIZE)\<lparr>allow_overflow := True\<rparr>\<rparr>,
        last_message := rtime, conn_state := SV_CLIENT_CONNECTED\<rparr>"

text \<open>Refusing the user info of the request: the text that is sent.\<close>

definition refused :: "string \<Rightarrow> bool result" where
  "refused info =
     (if info = [] then Inr True
      else if CHR 0xFF \<in> set info then Inr True
      else bindE (GetUserInfo info ''ip'') (\<lambda>ip.
             if ip \<noteq> [] then Inr True
             else Inr (\<not> ValidateUserInfo (Some info))))"

definition CONN_REFUSED :: string where
  "CONN_REFUSED = ''print'' @ [newline] @ ''Connection refused'' @ [newline]"

definition accept_client :: "sv_env \<Rightarrow> net_addr \<Rightarrow> uint8 \<Rightarrow> string \<Rightarrow> nat \<Rightarrow> host \<Rightarrow> host result" where
  "accept_client env adr qp info i h =
     bindE (at_index (clients_of h) (int i)) (\<lambda>cl.
     bindE (ClientConnect (game env) (conn_edict cl) info (srv h)) (\<lambda>(ok, info, s).
       let h = h\<lparr>srv := s\<rparr> in
       if \<not> ok then
         bindE (GetUserInfo info ''rejmsg'') (\<lambda>rejmsg.
           if rejmsg \<noteq> [] then
             oob_print adr (''print'' @ [newline] @ rejmsg @ [newline] @ ''Connection refused'' @ [newline]) h
           else oob_print adr CONN_REFUSED h)
       else
         bindE (on_run (with_conn i (\<lambda>cl. Inr (cl\<lparr>user_info := strlcpy info MAX_USER_INFO_STRING\<rparr>))) h) (\<lambda>h.
         bindE (on_run (Sv_UserInfoChanged (game env) i) h) (\<lambda>h.
         bindE (oob_print adr (''client_connect '' @ cv_download_url env) h) (\<lambda>h.
           on_run (with_conn i (\<lambda>cl. Inr (connected (time_now (srv h)) (real_time h) adr qp cl))) h)))))"

definition Svc_Connect :: "sv_env \<Rightarrow> cmd_args \<Rightarrow> host \<Rightarrow> host result" where
  "Svc_Connect env a h =
     (let adr = net_from h;
          version = sint (word_of_int (strtol 0 (Cmd_Argv a 1)) :: uint32);
          qp = ucast (strtoul 0 (Cmd_Argv a 2)) :: uint8;
          challenge = ucast (strtoul 0 (Cmd_Argv a 3)) :: uint32;
          info = strlcpy (Cmd_Argv a 4) (MAX_USER_INFO_STRING - 25)
      in if version \<noteq> PROTOCOL
         then oob_print adr (''print'' @ [newline] @ ''Server is version '' @ print_int PROTOCOL @ ''.'' @ [newline]) h
         else bindE (refused info) (\<lambda>no.
           if no then oob_print adr CONN_REFUSED h
           else bindE (SetUserInfo info ''ip'' (addr_string env adr)) (\<lambda>info.
             case check_challenge adr challenge 0 (take MAX_CHALLENGES (challenges h)) of
               Bad_Challenge \<Rightarrow> oob_print adr (''print'' @ [newline] @ ''Bad challenge'' @ [newline]) h
             | No_Challenge \<Rightarrow> oob_print adr (''print'' @ [newline] @ ''No challenge for address'' @ [newline]) h
             | Good j \<Rightarrow>
                 let h = h\<lparr>challenges := (challenges h)[j := (challenges h ! j)\<lparr>ch_challenge := 0\<rparr>]\<rparr>
                 in (case client_slot adr qp (srv h) of
                       None \<Rightarrow> oob_print adr (''print'' @ [newline] @ ''Server is full'' @ [newline]) h
                     | Some i \<Rightarrow> accept_client env adr qp info i h))))"

end
