(* ===== verification/Sv_Commands.thy ===== *)
theory Sv_Commands
  imports Sv_Connect Cl_Entity
begin

text \<open>
  The commands of a connected client: \<open>src/server/sv_client.c\<close>. \<open>i\<close> is the index of the
  client, \<open>sv_client\<close>; \<open>a\<close> are the arguments of the string command.
\<close>

section \<open>Spawning\<close>

definition SV_CMD_BASELINE :: int where "SV_CMD_BASELINE = 1"
definition SV_CMD_DOWNLOAD :: int where "SV_CMD_DOWNLOAD = 5"
definition SV_CMD_SERVER_DATA :: int where "SV_CMD_SERVER_DATA = 9"
definition CS_NAME :: nat where "CS_NAME = 0"
definition PRINT_MEDIUM :: int where "PRINT_MEDIUM = 1"

definition client_at :: "nat \<Rightarrow> host \<Rightarrow> conn result" where
  "client_at i h = at_index (clients_of h) (int i)"

text \<open>Writing to \<open>sv_client->net_chan.message\<close>\<close>

definition to_client :: "nat \<Rightarrow> (mem_buf \<Rightarrow> mem_buf result) list \<Rightarrow> host \<Rightarrow> host result" where
  "to_client i ws h = on_run (with_conn i (write_message ws)) h"

definition kick :: "sv_env \<Rightarrow> nat \<Rightarrow> string option \<Rightarrow> host \<Rightarrow> host result" where
  "kick env i msg h = on_run (Sv_KickClient (game env) i msg) h"

text \<open>\<open>%i\<close> of an unsigned word\<close>

definition int_arg :: "uint32 \<Rightarrow> string" where
  "int_arg w = print_int (sint w)"

definition cbuf_text :: "string \<Rightarrow> (mem_buf \<Rightarrow> mem_buf result) list" where
  "cbuf_text s = [Net_WriteByte SV_CMD_CBUF_TEXT, Net_WriteString (Some s)]"

definition Sv_New_f :: "sv_env \<Rightarrow> nat \<Rightarrow> host \<Rightarrow> host result" where
  "Sv_New_f env i h =
     bindE (client_at i h) (\<lambda>cl.
       if conn_state cl \<noteq> SV_CLIENT_CONNECTED then Inr h
       else if run_state (srv h) = SV_ACTIVE_DEMO then Inr h
       else bindE (at_index (config_strings (srv h)) (int CS_NAME)) (\<lambda>name.
         to_client i ([Net_WriteByte SV_CMD_SERVER_DATA, Net_WriteLong PROTOCOL, Net_WriteLong (sint (spawn_count h)),
           Net_WriteLong (uint (frame_rate h)), Net_WriteByte 0, Net_WriteString (Some (cv_game env)),
           Net_WriteShort (int i), Net_WriteString (Some name)] @
           cbuf_text (''config_strings '' @ int_arg (spawn_count h) @ '' 0'' @ [newline])) h))"

text \<open>The loop over the strings, and the index it ends at.\<close>

function config_loop :: "string list \<Rightarrow> nat \<Rightarrow> mem_buf \<Rightarrow> (nat \<times> mem_buf) result" where
  "config_loop cs start b =
     (if buf_size b < MAX_MSG_SIZE div 2 \<and> start < MAX_CONFIG_STRINGS then
        bindE (at_index cs (int start)) (\<lambda>s.
        bindE (if s \<noteq> [] then run_seq [Net_WriteByte SV_CMD_CONFIG_STRING, Net_WriteShort (int start), Net_WriteString (Some s)] b
               else Inr b) (config_loop cs (start + 1)))
      else Inr (start, b))"
  by pat_completeness auto

termination
  by (relation "measure (\<lambda>(_, start, _). MAX_CONFIG_STRINGS - start)") auto

declare config_loop.simps [simp del]

text \<open>What the two commands that send lists have in common.\<close>

definition resume_list ::
  "(nat \<Rightarrow> mem_buf \<Rightarrow> (nat \<times> mem_buf) result) \<Rightarrow> nat \<Rightarrow> (nat \<Rightarrow> string) \<Rightarrow> conn \<Rightarrow> conn result" where
  "resume_list loop start reply cl =
     bindE (loop start (message (chan cl))) (\<lambda>(start, b).
       write_message (cbuf_text (reply start)) (cl\<lparr>chan := (chan cl)\<lparr>message := b\<rparr>\<rparr>))"

definition is_stale :: "cmd_args \<Rightarrow> host \<Rightarrow> bool" where
  "is_stale a h \<longleftrightarrow> strtoul 0 (Cmd_Argv a 1) \<noteq> ucast (spawn_count h)"

definition start_arg :: "cmd_args \<Rightarrow> nat" where
  "start_arg a = unat (ucast (strtoul 0 (Cmd_Argv a 2)) :: uint32)"

definition Sv_ConfigStrings_f :: "sv_env \<Rightarrow> cmd_args \<Rightarrow> nat \<Rightarrow> host \<Rightarrow> host result" where
  "Sv_ConfigStrings_f env a i h =
     bindE (client_at i h) (\<lambda>cl.
       if conn_state cl \<noteq> SV_CLIENT_CONNECTED then Inr h
       else if is_stale a h then Sv_New_f env i h
       else if start_arg a \<ge> MAX_CONFIG_STRINGS then kick env i None h
       else on_run (with_conn i (resume_list (config_loop (config_strings (srv h))) (start_arg a) (\<lambda>start.
              if start = MAX_CONFIG_STRINGS then ''baselines '' @ int_arg (spawn_count h) @ '' 0'' @ [newline]
              else ''config_strings '' @ int_arg (spawn_count h) @ '' '' @ int_arg (word_of_nat start) @ [newline]))) h)"

function baseline_loop :: "entity_state list \<Rightarrow> nat \<Rightarrow> mem_buf \<Rightarrow> (nat \<times> mem_buf) result" where
  "baseline_loop bs start b =
     (if buf_size b < MAX_MSG_SIZE div 2 \<and> start < MAX_EDICTS then
        bindE (at_index bs (int start)) (\<lambda>base.
        bindE (if model1 base \<noteq> 0 \<or> sound base \<noteq> 0 \<or> effects base \<noteq> 0
               then run_seq [Net_WriteByte SV_CMD_BASELINE, Net_WriteDeltaEntity null_state base True True] b
               else Inr b) (baseline_loop bs (start + 1)))
      else Inr (start, b))"
  by pat_completeness auto

termination
  by (relation "measure (\<lambda>(_, start, _). MAX_EDICTS - start)") auto

declare baseline_loop.simps [simp del]

definition Sv_Baselines_f :: "sv_env \<Rightarrow> cmd_args \<Rightarrow> nat \<Rightarrow> host \<Rightarrow> host result" where
  "Sv_Baselines_f env a i h =
     bindE (client_at i h) (\<lambda>cl.
       if conn_state cl \<noteq> SV_CLIENT_CONNECTED then Inr h
       else if is_stale a h then Sv_New_f env i h
       else on_run (with_conn i (resume_list (baseline_loop (baselines (svs_server (statics (srv h))))) (start_arg a) (\<lambda>start.
              if start = MAX_EDICTS then ''precache '' @ int_arg (spawn_count h) @ [newline]
              else ''baselines '' @ int_arg (spawn_count h) @ '' '' @ int_arg (word_of_nat start) @ [newline]))) h)"

definition Sv_Begin_f :: "sv_env \<Rightarrow> cmd_args \<Rightarrow> nat \<Rightarrow> host \<Rightarrow> host result" where
  "Sv_Begin_f env a i h =
     bindE (client_at i h) (\<lambda>cl.
       if conn_state cl \<noteq> SV_CLIENT_CONNECTED then kick env i None h
       else if run_state (srv h) = SV_ACTIVE_DEMO then Inr h
       else if is_stale a h then Sv_New_f env i h
       else
         bindE (on_run (with_conn i (\<lambda>cl. Inr (cl\<lparr>conn_state := SV_CLIENT_ACTIVE\<rparr>))) h) (\<lambda>h.
         bindE (on_run (ClientBegin (game env) (conn_edict cl)) h) (\<lambda>h.
         bindE (Cbuf_InsertFromDefer (host_bufs h)) (\<lambda>b. Inr (h\<lparr>host_bufs := b\<rparr>)))))"

section \<open>Downloads\<close>

definition c_clamp :: "int \<Rightarrow> int \<Rightarrow> int \<Rightarrow> int" where
  "c_clamp x y z = (if x < y then y else if x > z then z else x)"


text \<open>\<open>count * 100 / Clamp(size, 1, size)\<close>, of 32 bits\<close>

definition percent :: "sv_download \<Rightarrow> int" where
  "percent d = c_div (sint (word_of_int (dl_count d * 100) :: uint32)) (c_clamp (dl_size d) 1 (dl_size d))"

definition next_chunk :: "conn \<Rightarrow> conn result" where
  "next_chunk cl =
     (let d = download cl in
      case dl_buffer d of None \<Rightarrow> Inr cl
      | Some bytes \<Rightarrow>
          let len = c_clamp (dl_size d - dl_count d) 0 1024 in
          if dl_count d < 0 \<or> nat (dl_count d + len) > length bytes then Inl Bad_Access
          else bindE (run_seq [Net_WriteByte SV_CMD_DOWNLOAD, Net_WriteShort len, Net_WriteByte (percent d),
                   Mem_WriteBuffer (take (nat len) (drop (nat (dl_count d)) bytes))]
                 (Mem_InitBuffer (replicate MAX_MSG_SIZE 0) MAX_MSG_SIZE)) (\<lambda>msg.
               bindE (write_message [Mem_WriteBuffer (contents msg)] cl) (\<lambda>cl.
                 let d = d\<lparr>dl_count := dl_count d + len\<rparr>
                 in Inr (cl\<lparr>download := (if dl_count d = dl_size d then d\<lparr>dl_buffer := None\<rparr> else d)\<rparr>))))"

definition Sv_NextDownload_f :: "nat \<Rightarrow> host \<Rightarrow> host result" where
  "Sv_NextDownload_f i h = on_run (with_conn i next_chunk) h"

definition IS_INVALID_DOWNLOAD :: "string \<Rightarrow> bool" where
  "IS_INVALID_DOWNLOAD f \<longleftrightarrow> f = [] \<or> hd f = CHR ''/'' \<or> has_part f ''..'' \<or> CHR '' '' \<in> set f"

definition allowed_patterns :: "string list" where
  "allowed_patterns = [''*.zip'', ''maps/*'', ''models/*'', ''sounds/*'', ''env/*'', ''textures/*'']"

text \<open>The loop does not end at the null pointer, which matches nothing, but reads on behind the array.\<close>

fun find_pattern :: "string \<Rightarrow> string list \<Rightarrow> unit result" where
  "find_pattern f [] = Inl Bad_Access"
| "find_pattern f (p # ps) = bindE (GlobMatch (Some p) (Some f)) (\<lambda>m. if m then Inr () else find_pattern f ps)"

text \<open>The answer to a download that there is not.\<close>

definition no_file :: "(mem_buf \<Rightarrow> mem_buf result) list" where
  "no_file = [Net_WriteByte SV_CMD_DOWNLOAD, Net_WriteShort (-1), Net_WriteByte 0]"

definition Sv_Download_f :: "sv_env \<Rightarrow> cmd_args \<Rightarrow> nat \<Rightarrow> host \<Rightarrow> host result" where
  "Sv_Download_f env a i h =
     (let filename = Cmd_Argv a 1; set = (\<lambda>d. with_conn i (\<lambda>cl. Inr (cl\<lparr>download := d\<rparr>))) in
      if IS_INVALID_DOWNLOAD filename then kick env i None h
      else bindE (find_pattern filename allowed_patterns) (\<lambda>_.
        if \<not> cv_udp_download env then to_client i no_file h
        else case file_data env filename of
          None \<Rightarrow> bindE (on_run (set (no_download\<lparr>dl_size := -1\<rparr>)) h) (to_client i no_file)
        | Some bytes \<Rightarrow>
            let size = sint (word_of_nat (length bytes) :: uint32);
                count = (if Cmd_Argc a > 2 then
                           let n = sint (word_of_int (strtol 0 (Cmd_Argv a 2)) :: uint32)
                           in if n < 0 \<or> n > size then size else n
                         else 0);
                d = \<lparr>dl_buffer = (if bytes = [] then None else Some bytes), dl_size = size, dl_count = count\<rparr>
            in bindE (on_run (set d) h) (Sv_NextDownload_f i)))"

section \<open>The other commands\<close>

definition Sv_Disconnect_f :: "sv_env \<Rightarrow> nat \<Rightarrow> host \<Rightarrow> host result" where
  "Sv_Disconnect_f env i h = on_run (Sv_DropClient (on_drop (game env)) i) h"

definition Sv_Info_f :: "sv_env \<Rightarrow> nat \<Rightarrow> host \<Rightarrow> host result" where
  "Sv_Info_f env i h =
     bindE (client_at i h) (\<lambda>cl.
       on_run (run_seq (map (\<lambda>(n, v). Sv_ClientPrint (conn_edict cl) PRINT_MEDIUM (n @ '' '' @ v @ [newline])) (server_vars env))) h)"

definition Sv_UserStringCommand :: "sv_env \<Rightarrow> string \<Rightarrow> nat \<Rightarrow> host \<Rightarrow> host result" where
  "Sv_UserStringCommand env s i h =
     bindE (Cmd_TokenizeString (cv_string env) (Some s)) (\<lambda>a.
       if CHR 0xFF \<in> set s then kick env i None h
       else
         let c = Cmd_Argv a 0 in
         if c = ''new'' then Sv_New_f env i h
         else if c = ''config_strings'' then Sv_ConfigStrings_f env a i h
         else if c = ''baselines'' then Sv_Baselines_f env a i h
         else if c = ''begin'' then Sv_Begin_f env a i h
         else if c = ''disconnect'' then Sv_Disconnect_f env i h
         else if c = ''info'' then Sv_Info_f env i h
         else if c = ''download'' then Sv_Download_f env a i h
         else if c = ''nextdl'' then Sv_NextDownload_f i h
         else if run_state (srv h) = SV_ACTIVE_GAME
         then bindE (client_at i h) (\<lambda>cl. on_run (ClientCommand (game env) (conn_edict cl) a) h)
         else Inr h)"

section \<open>Movement\<close>

definition Sv_ClientThink :: "game_calls \<Rightarrow> nat \<Rightarrow> user_cmd \<Rightarrow> sv_run \<Rightarrow> sv_run result" where
  "Sv_ClientThink g i cmd s =
     bindE (at_index (conns s) (int i)) (\<lambda>cl.
       ClientThink g (conn_edict cl) cmd (set_conn i (cl\<lparr>cmd_msec := cmd_msec cl + ucast (msec cmd)\<rparr>) s))"

text \<open>The commands that make up for dropped packets, and the new one.\<close>

definition recovered :: "uint32 \<Rightarrow> user_cmd \<Rightarrow> user_cmd \<Rightarrow> user_cmd \<Rightarrow> user_cmd \<Rightarrow> user_cmd list" where
  "recovered missed cmd oldest old new =
     (let net_drop = sint missed in
      (if net_drop < 20 then replicate (nat (net_drop - 2)) cmd @
         (if net_drop > 1 then [oldest] else []) @ (if net_drop > 0 then [old] else []) else []) @ [new])"

definition acknowledge :: "int \<Rightarrow> uint32 \<Rightarrow> conn \<Rightarrow> conn result" where
  "acknowledge lf now cl =
     (if lf = last_frame (conn_frames cl) then Inr cl
      else
        let cl = cl\<lparr>conn_frames := (conn_frames cl)\<lparr>last_frame := lf\<rparr>\<rparr> in
        if lf > -1 then
          bindE (at_index (client_frames (conn_frames cl)) (lf mod int PACKET_BACKUP)) (\<lambda>f.
            Inr (cl\<lparr>frame_latency := (frame_latency cl)[nat (lf mod int CLIENT_LATENCY_COUNTS) := now - sent_time f]\<rparr>))
        else Inr cl)"

definition null_cmd :: user_cmd where
  "null_cmd = \<lparr>msec = 0, buttons = 0, cmd_angles = Vec3 0 0 0, forward = 0, right = 0, up = 0\<rparr>"

text \<open>\<open>CL_CMD_MOVE\<close>, after its first byte has been read.\<close>

definition read_move :: "mem_buf \<Rightarrow> (int \<times> user_cmd \<times> user_cmd \<times> user_cmd) \<times> mem_buf" where
  "read_move sb =
     (let (lf, sb) = Net_ReadLong sb;
          (oldest, sb) = Net_ReadDeltaUserCmd null_cmd sb;
          (old, sb) = Net_ReadDeltaUserCmd oldest sb;
          (new, sb) = Net_ReadDeltaUserCmd old sb
      in ((lf, oldest, old, new), sb))"

definition client_move :: "sv_env \<Rightarrow> nat \<Rightarrow> int \<times> user_cmd \<times> user_cmd \<times> user_cmd \<Rightarrow> host \<Rightarrow> host result" where
  "client_move env i = (\<lambda>(lf, oldest, old, new) h.
     bindE (on_run (with_conn i (acknowledge lf (real_time h))) h) (\<lambda>h.
     bindE (client_at i h) (\<lambda>cl.
       if conn_state cl \<noteq> SV_CLIENT_ACTIVE
       then on_run (with_conn i (\<lambda>cl. Inr (cl\<lparr>conn_frames := (conn_frames cl)\<lparr>last_frame := -1\<rparr>\<rparr>))) h
       else bindE (on_run (run_seq (map (Sv_ClientThink (game env) i)
                  (recovered (dropped (chan cl)) (last_cmd cl) oldest old new))) h)
              (on_run (with_conn i (\<lambda>cl. Inr (cl\<lparr>last_cmd := new\<rparr>)))))))"

section \<open>Messages\<close>

definition CL_CMD_MOVE :: int where "CL_CMD_MOVE = 1"
definition CL_CMD_STRING :: int where "CL_CMD_STRING = 2"
definition CL_CMD_USER_INFO :: int where "CL_CMD_USER_INFO = 3"
definition CMD_MAX_MOVES :: nat where "CMD_MAX_MOVES = 1"
definition CMD_MAX_STRINGS :: nat where "CMD_MAX_STRINGS = 8"

lemma advancesD: "advances f \<Longrightarrow> \<exists>n. snd (f (s, sb)) = skip_read n sb"
  unfolding advances_def by blast

lemma fwd_user_cmd: "fwd (Net_ReadDeltaUserCmd from)"
proof -
  have "\<exists>n. snd (Net_ReadDeltaUserCmd from sb) = skip_read n sb" for sb
  proof -
    obtain b sb1 where 1: "Net_ReadByte sb = (b, sb1)" by (cases "Net_ReadByte sb")
    then obtain m where m: "sb1 = skip_read m sb" using fwd_basic(2) by (fastforce simp: fwd_def dest: spec [of _ sb])
    have "\<exists>k. snd (Net_ReadDeltaUserCmd from sb) = skip_read k sb1"
      unfolding Net_ReadDeltaUserCmd_def 1 Let_def prod.case by (rule advancesD) (intro advance_intros)
    then show ?thesis using m by auto
  qed
  then show ?thesis by (simp add: fwd_def)
qed

lemma fwd_string: "fwd Net_ReadString"
proof -
  have "\<exists>k. snd (read_string_loop stop n sb) = skip_read k sb" for stop n sb
  proof (induction n arbitrary: sb)
    case 0
    show ?case by (intro exI [of _ 0]) simp
  next
    case (Suc n)
    obtain c sb1 where 1: "Net_ReadChar sb = (c, sb1)" by (cases "Net_ReadChar sb")
    then obtain m where m: "sb1 = skip_read m sb" using fwd_basic(1) by (fastforce simp: fwd_def dest: spec [of _ sb])
    obtain k where "snd (read_string_loop stop n sb1) = skip_read k sb1" using Suc by blast
    then show ?case using 1 m by (auto simp: Let_def case_prod_beta)
  qed
  then show ?thesis by (simp add: fwd_def Net_ReadString_def)
qed

lemma fwd_move: "fwd read_move"
proof -
  have "\<exists>n. snd (read_move sb) = skip_read n sb" for sb
  proof -
    obtain lf s1 where 1: "Net_ReadLong sb = (lf, s1)" by (cases "Net_ReadLong sb")
    obtain c1 s2 where 2: "Net_ReadDeltaUserCmd null_cmd s1 = (c1, s2)" by (cases "Net_ReadDeltaUserCmd null_cmd s1")
    obtain c2 s3 where 3: "Net_ReadDeltaUserCmd c1 s2 = (c2, s3)" by (cases "Net_ReadDeltaUserCmd c1 s2")
    obtain c3 s4 where 4: "Net_ReadDeltaUserCmd c2 s3 = (c3, s4)" by (cases "Net_ReadDeltaUserCmd c2 s3")
    obtain k1 k2 k3 k4 where "s1 = skip_read k1 sb" "s2 = skip_read k2 s1" "s3 = skip_read k3 s2" "s4 = skip_read k4 s3"
      using fwd_basic(4) fwd_user_cmd 1 2 3 4 unfolding fwd_def by (metis snd_conv)
    then show ?thesis using 1 2 3 4 by (simp add: read_move_def Let_def) (metis skip_read_simps(2))
  qed
  then show ?thesis by (simp add: fwd_def)
qed

lemma fwd_pos: "fwd rd \<Longrightarrow> (x, y) = rd sb \<Longrightarrow> buf_size y = buf_size sb \<and> read_pos sb \<le> read_pos y"
  using fwd_def [THEN iffD1, THEN spec, of rd sb] by (auto simp: skip_read_def dest: arg_cong [of _ _ snd])

text \<open>
  The loop over the commands of a message: \<open>moves\<close> and \<open>strings\<close> count those that have been
  issued, \<open>sb\<close> is \<open>net_message\<close>.
\<close>

function parse_commands :: "sv_env \<Rightarrow> nat \<Rightarrow> nat \<Rightarrow> nat \<Rightarrow> mem_buf \<Rightarrow> host \<Rightarrow> (host \<times> mem_buf) result" where
  "parse_commands env i moves strings sb h =
     (if read_pos sb > buf_size sb then bindE (on_run (Sv_DropClient (on_drop (game env)) i) h) (\<lambda>h. Inr (h, sb))
      else case Net_ReadByte sb of (c, sb) \<Rightarrow>
        if c = -1 then Inr (h, sb)
        else if c = CL_CMD_USER_INFO then
          (case Net_ReadString sb of (s, sb) \<Rightarrow>
            bindE (on_run (with_conn i (\<lambda>cl. Inr (cl\<lparr>user_info := strlcpy s MAX_USER_INFO_STRING\<rparr>))) h) (\<lambda>h.
            bindE (on_run (Sv_UserInfoChanged (game env) i) h) (\<lambda>h.
              parse_commands env i moves strings sb h)))
        else if c = CL_CMD_MOVE then
          (if moves + 1 > CMD_MAX_MOVES then Inr (h, sb)
           else case read_move sb of (m, sb) \<Rightarrow>
             bindE (client_move env i m h) (\<lambda>h. parse_commands env i (moves + 1) strings sb h))
        else if c = CL_CMD_STRING then
          (case Net_ReadString sb of (s, sb) \<Rightarrow>
            if strings + 1 < CMD_MAX_STRINGS then
              bindE (Sv_UserStringCommand env s i h) (\<lambda>h.
              bindE (client_at i h) (\<lambda>cl.
                if conn_state cl = SV_CLIENT_FREE then Inr (h, sb)
                else parse_commands env i moves (strings + 1) sb h))
            else bindE (kick env i (Some ''Too many commands.'') h) (\<lambda>h. Inr (h, sb)))
        else bindE (on_run (Sv_DropClient (on_drop (game env)) i) h) (\<lambda>h. Inr (h, sb)))"
  by pat_completeness auto

termination
proof (relation "measure (\<lambda>(_, _, _, _, sb, _). Suc (buf_size sb) - read_pos sb)", goal_cases)
  case 1
  then show ?case by simp
qed (auto simp: Net_ReadByte_def dest!: fwd_pos [OF fwd_string] fwd_pos [OF fwd_move])

declare parse_commands.simps [simp del]

definition Sv_ParseClientMessage :: "sv_env \<Rightarrow> nat \<Rightarrow> host \<Rightarrow> host result" where
  "Sv_ParseClientMessage env i h =
     bindE (parse_commands env i 0 0 (net_message h) h) (\<lambda>(h, sb). Inr (h\<lparr>net_message := sb\<rparr>))"

end
