(* ===== verification/Sv_Main.thy ===== *)
theory Sv_Main
  imports Sv_Commands
begin

text \<open>
  The frame of the server: \<open>src/server/sv_main.c\<close>, but for what \<open>Sv_Connect\<close> has. The
  datagrams that \<open>Net_ReceiveDatagram\<close> finds in a frame are a parameter.
\<close>

section \<open>Connectionless requests\<close>

definition status_line :: "host \<Rightarrow> nat \<Rightarrow> conn \<Rightarrow> string" where
  "status_line h i cl = take (MAX_TOKEN_CHARS - 1)
     (decimal i @ '' '' @ decimal (unat (pings h (conn_edict cl))) @ '' '' @ [quote] @ conn_name cl @ [quote, newline])"

fun add_players :: "host \<Rightarrow> nat \<Rightarrow> conn list \<Rightarrow> string \<Rightarrow> string" where
  "add_players h i [] status = status"
| "add_players h i (cl # cls) status =
     (if conn_state cl = SV_CLIENT_CONNECTED \<or> conn_state cl = SV_CLIENT_ACTIVE then
        let player = status_line h i cl
        in if length status + length player + 1 \<ge> MAX_MSG_SIZE - 16 then status
           else add_players h (i + 1) cls (status @ player)
      else add_players h (i + 1) cls status)"

definition Sv_StatusString :: "sv_env \<Rightarrow> host \<Rightarrow> string" where
  "Sv_StatusString env h =
     add_players h 0 (take (max_clients (srv h)) (clients_of h)) (take (MAX_MSG_SIZE - 16 - 1) (server_info env @ [newline]))"

definition Svc_Status :: "sv_env \<Rightarrow> host \<Rightarrow> host result" where
  "Svc_Status env h = oob_print (net_from h) (''print'' @ [newline] @ Sv_StatusString env h) h"

definition padded :: "nat \<Rightarrow> string \<Rightarrow> string" where
  "padded n s = s @ replicate (n - length s) (CHR '' '')"

definition Svc_Info :: "sv_env \<Rightarrow> cmd_args \<Rightarrow> host \<Rightarrow> host result" where
  "Svc_Info env a h =
     (if max_clients (srv h) = 1 then Inr h
      else
        let p = atoi (Cmd_Argv a 1);
            count = length (filter (\<lambda>cl. conn_state cl \<noteq> SV_CLIENT_FREE) (take (max_clients (srv h)) (clients_of h)));
            s = (if p \<noteq> PROTOCOL
                 then cv_hostname env @ '': Wrong protocol: '' @ print_int p @ '' != '' @ print_int PROTOCOL
                 else padded 63 (cv_hostname env) @ [backslash] @ padded 31 (level_name h) @ [backslash] @
                   padded 31 (GameName (game env)) @ [backslash] @ decimal count @ [backslash] @ decimal (max_clients (srv h)))
        in oob_print (net_from h) (''info'' @ [newline] @ take (MAX_MSG_SIZE - 1) s) h)"

definition Svc_Ping :: "host \<Rightarrow> host result" where
  "Svc_Ping h = oob_print (net_from h) ''ack'' h"

definition Sv_RconAuthenticate :: "sv_env \<Rightarrow> cmd_args \<Rightarrow> bool" where
  "Sv_RconAuthenticate env a =
     (if cv_rcon_password env = [] then False
      else if Cmd_Argv a 1 \<noteq> cv_rcon_password env then False
      else True)"

text \<open>\<open>strcat\<close> into \<open>char remaining[MAX_STRING_CHARS]\<close>; the output goes to the sender.\<close>

definition Svc_RemoteCommand :: "sv_env \<Rightarrow> cmd_args \<Rightarrow> host \<Rightarrow> host result" where
  "Svc_RemoteCommand env a h =
     (let remaining = concat (map (\<lambda>i. Cmd_Argv a i @ '' '') [2 ..< Cmd_Argc a]) in
      bindE (if Sv_RconAuthenticate env a
             then (if length remaining \<ge> MAX_STRING_CHARS then Inl Bad_Access else run_rcon env remaining h)
             else Inr (''Bad rcon_password'' @ [newline], h)) (\<lambda>(output, h).
        oob_print (net_from h) (''print'' @ [newline] @ output) h))"

definition Sv_ConnectionlessPacket :: "sv_env \<Rightarrow> host \<Rightarrow> host result" where
  "Sv_ConnectionlessPacket env h =
     (let sb = snd (Net_ReadLong (Net_BeginReading (net_message h)));
          (s, sb) = Net_ReadStringLine sb;
          h = h\<lparr>net_message := sb\<rparr>
      in bindE (Cmd_TokenizeString (cv_string env) (Some s)) (\<lambda>a.
           let c = Cmd_Argv a 0 in
           if c = ''ping'' then Svc_Ping h
           else if c = ''ack'' then Inr h
           else if c = ''status'' then Svc_Status env h
           else if c = ''info'' then Svc_Info env a h
           else if c = ''get_challenge'' then Svc_GetChallenge h
           else if c = ''connect'' then Svc_Connect env a h
           else if c = ''rcon'' then Svc_RemoteCommand env a h
           else Inr h))"

section \<open>Packets\<close>

text \<open>\<open>*(uint32_t * ) net_message.data\<close>, which looks at the array whatever the size\<close>

definition first_word :: "mem_buf \<Rightarrow> uint32" where
  "first_word msg = word_rcat (rev (take 4 (buf_data msg)))"

definition is_from :: "net_addr \<Rightarrow> uint8 \<Rightarrow> conn \<Rightarrow> bool" where
  "is_from adr qp cl \<longleftrightarrow> conn_state cl \<noteq> SV_CLIENT_FREE \<and>
     Net_CompareClientNetaddr adr (remote_address (chan cl)) \<and> qport (chan cl) = qp"

definition client_packet :: "sv_env \<Rightarrow> nat \<Rightarrow> host \<Rightarrow> host result" where
  "client_packet env i h =
     bindE (client_at i h) (\<lambda>cl.
       let ch = (chan cl)\<lparr>remote_address := (remote_address (chan cl))\<lparr>port := port (net_from h)\<rparr>\<rparr>;
           (accepted, ch, msg) = Netchan_Process (time_now (srv h)) ch (net_message h);
           cl = cl\<lparr>chan := ch\<rparr>;
           cl = (if accepted then cl\<lparr>last_message := real_time h\<rparr> else cl);
           h = h\<lparr>srv := set_conn i cl (srv h), net_message := msg\<rparr>
       in if accepted then Sv_ParseClientMessage env i h else Inr h)"

definition read_packet :: "sv_env \<Rightarrow> net_addr \<times> mem_buf \<Rightarrow> host \<Rightarrow> host result" where
  "read_packet env = (\<lambda>(adr, msg) h.
     let h = h\<lparr>net_from := adr, net_message := msg\<rparr> in
     if first_word msg = 0xffffffff then Sv_ConnectionlessPacket env h
     else
       let sb = snd (Net_ReadLong (snd (Net_ReadLong (Net_BeginReading msg))));
           (q, sb) = Net_ReadByte sb;
           h = h\<lparr>net_message := sb\<rparr>
       in (case find_index (is_from adr (word_of_int q)) (take (max_clients (srv h)) (clients_of h)) of
             None \<Rightarrow> Inr h
           | Some i \<Rightarrow> client_packet env i h))"

definition Sv_ReadPackets :: "sv_env \<Rightarrow> (net_addr \<times> mem_buf) list \<Rightarrow> host \<Rightarrow> host result" where
  "Sv_ReadPackets env inbox h = run_seq (map (read_packet env) inbox) h"

section \<open>Checks on the clients\<close>

definition timeout_limit :: "sv_env \<Rightarrow> uint32 \<Rightarrow> uint32" where
  "timeout_limit env now = word_of_int (trunc (flt (flt (of_int (uint now)) - flt (1000 * cv_timeout env))))"

definition check_timeout :: "game_calls \<Rightarrow> uint32 \<Rightarrow> nat \<Rightarrow> sv_run \<Rightarrow> sv_run result" where
  "check_timeout g limit i s =
     bindE (at_index (conns s) (int i)) (\<lambda>cl.
       if conn_state cl = SV_CLIENT_FREE then Inr s
       else if last_message cl < limit then
         bindE (Sv_BroadcastPrint PRINT_HIGH (conn_name cl @ '' timed out'' @ [newline]) s) (Sv_DropClient (on_drop g) i)
       else Inr s)"

definition Sv_CheckTimeouts :: "sv_env \<Rightarrow> host \<Rightarrow> host result" where
  "Sv_CheckTimeouts env h =
     (let limit = timeout_limit env (real_time h) in
      if limit > real_time h then Inr h
      else on_run (run_seq (map (check_timeout (game env) limit) [0 ..< max_clients (srv h)])) h)"

text \<open>The sum is of 32 bits, as is the quotient.\<close>

definition ping_of :: "conn \<Rightarrow> uint32" where
  "ping_of cl =
     (let ls = filter (\<lambda>l. l > 0) (frame_latency cl)
      in if ls = [] then 0 else word_of_int (c_div (sint (sum_list ls)) (int (length ls))))"

definition Sv_UpdatePings :: "host \<Rightarrow> host" where
  "Sv_UpdatePings h = h\<lparr>pings := fold (\<lambda>cl p. if conn_state cl \<noteq> SV_CLIENT_ACTIVE then p
     else p(conn_edict cl := ping_of cl)) (take (max_clients (srv h)) (clients_of h)) (pings h)\<rparr>"

definition CMD_MSEC_CHECK_INTERVAL :: uint32 where "CMD_MSEC_CHECK_INTERVAL = 1000"
definition CMD_MSEC_ALLOWABLE_DRIFT :: uint32 where "CMD_MSEC_ALLOWABLE_DRIFT = CMD_MSEC_CHECK_INTERVAL + 150"

definition check_command_time :: "sv_env \<Rightarrow> nat \<Rightarrow> sv_run \<Rightarrow> sv_run result" where
  "check_command_time env i s =
     bindE (at_index (conns s) (int i)) (\<lambda>cl.
       let reset = (\<lambda>cl. Inr (set_conn i (cl\<lparr>cmd_msec := 0\<rparr>) s)) in
       if conn_state cl \<noteq> SV_CLIENT_ACTIVE then Inr s
       else if cv_enforce_time env \<noteq> 0 then
         (if cmd_msec cl > CMD_MSEC_ALLOWABLE_DRIFT then
            let cl = cl\<lparr>cmd_msec_errors := cmd_msec_errors cl + 1\<rparr>
            in if of_int (uint (cmd_msec_errors cl)) \<ge> cv_enforce_time env
               then Sv_KickClient (game env) i (Some ''Irregular movement'') (set_conn i cl s)
               else reset cl
          else reset (if cmd_msec_errors cl \<noteq> 0 then cl\<lparr>cmd_msec_errors := cmd_msec_errors cl - 1\<rparr> else cl))
       else reset cl)"

definition Sv_CheckCommandTimes :: "sv_env \<Rightarrow> host \<Rightarrow> host result" where
  "Sv_CheckCommandTimes env h =
     (let h = (if real_time h < last_check_time h then h\<lparr>last_check_time := -9999\<rparr> else h) in
      if real_time h - last_check_time h < CMD_MSEC_CHECK_INTERVAL then Inr h
      else on_run (run_seq (map (check_command_time env) [0 ..< max_clients (srv h)])) (h\<lparr>last_check_time := real_time h\<rparr>))"

section \<open>The game\<close>

definition set_real_time :: "uint32 \<Rightarrow> host \<Rightarrow> host" where
  "set_real_time t h = h\<lparr>srv := (srv h)\<lparr>statics := (statics (srv h))\<lparr>svs_real_time := t\<rparr>\<rparr>\<rparr>"

definition Sv_ResetEntities :: "host \<Rightarrow> host" where
  "Sv_ResetEntities h =
     (let s = srv h; st = statics s in
      if run_state s \<noteq> SV_ACTIVE_GAME then h
      else h\<lparr>srv := s\<lparr>statics := st\<lparr>svs_edicts := (\<lambda>n. let ed = svs_edicts st n in
             if n < svs_num_edicts st then ed\<lparr>ed_s := (ed_s ed)\<lparr>event := 0\<rparr>\<rparr> else ed)\<rparr>\<rparr>\<rparr>)"

text \<open>The time of the level: a product and a quotient of 32 bits.\<close>

definition frame_time :: "int \<Rightarrow> uint16 \<Rightarrow> uint32 result" where
  "frame_time n hz = (if hz = 0 then Inl Sig_Abort
     else Inr (word_of_int (c_div (sint (word_of_int (n * 1000) :: uint32)) (uint hz))))"

definition Sv_RunGameFrame :: "sv_env \<Rightarrow> host \<Rightarrow> host run" where
  "Sv_RunGameFrame env h =
     (let s = srv h; st = statics s; n = sv_frame_num (svs_server st) + 1;
          h = h\<lparr>srv := s\<lparr>statics := st\<lparr>svs_server := (svs_server st)\<lparr>sv_frame_num := n\<rparr>\<rparr>\<rparr>\<rparr>
      in bindO (Some (frame_time n (frame_rate h))) (\<lambda>t.
           let h = h\<lparr>level_time := t\<rparr>;
               h = (if t < real_time h then set_real_time t h else h)
           in if run_state (srv h) = SV_ACTIVE_GAME
              then bindO (game_Frame (game env) (srv h)) (\<lambda>s. Some (Inr (h\<lparr>srv := s\<rparr>)))
              else Some (Inr h)))"

section \<open>Masters\<close>

definition HEARTBEAT_SECONDS :: uint32 where "HEARTBEAT_SECONDS = 300"

definition tell_masters :: "string \<Rightarrow> host \<Rightarrow> host result" where
  "tell_masters str h =
     run_seq (map (\<lambda>m. if port m \<noteq> 0 then oob_print m str else Inr) (take MAX_MASTERS (masters h))) h"

definition Sv_HeartbeatMasters :: "sv_env \<Rightarrow> host \<Rightarrow> host result" where
  "Sv_HeartbeatMasters env h =
     (if \<not> cv_dedicated env then Inr h
      else if \<not> cv_public env then Inr h
      else if \<not> svs_initialized (srv h) then Inr h
      else if next_heartbeat h > real_time h then Inr h
      else
        let h = h\<lparr>next_heartbeat := real_time h + HEARTBEAT_SECONDS * 1000\<rparr>
        in tell_masters (''heartbeat'' @ [newline] @ Sv_StatusString env h) h)"

definition Sv_ShutdownMasters :: "sv_env \<Rightarrow> host \<Rightarrow> host result" where
  "Sv_ShutdownMasters env h =
     (if \<not> cv_dedicated env then Inr h
      else if \<not> cv_public env then Inr h
      else tell_masters ''shutdown'' h)"

section \<open>A frame\<close>

definition run_frame :: "sv_env \<Rightarrow> host \<Rightarrow> host run" where
  "run_frame env h =
     bindO (Some (Sv_CheckCommandTimes env (Sv_UpdatePings h))) (\<lambda>h.
     bindO (Sv_RunGameFrame env h) (\<lambda>h.
     bindO (Sv_SendClientMessages (on_drop (game env)) (srv h)) (\<lambda>s.
     bindO (Some (Sv_HeartbeatMasters env (h\<lparr>srv := s\<rparr>))) (\<lambda>h.
       Some (Inr (Sv_ResetEntities h))))))"

definition Sv_Frame :: "sv_env \<Rightarrow> (net_addr \<times> mem_buf) list \<Rightarrow> uint32 \<Rightarrow> host \<Rightarrow> host run" where
  "Sv_Frame env inbox elapsed h =
     (if \<not> svs_initialized (srv h) then Some (Inr h)
      else
        bindO (Some (Sv_CheckTimeouts env (set_real_time (real_time h + elapsed) h))) (\<lambda>h.
        bindO (Some (Sv_ReadPackets env inbox h)) (\<lambda>h.
          if frame_rate h = 0 then Some (Inl Sig_Abort)
          else
            let frame_millis = word_of_int (1000 div uint (frame_rate h)) in
            if \<not> cv_time_demo env \<and> real_time h < level_time h then
              (if level_time h - real_time h > frame_millis
               then run_frame env (set_real_time (level_time h - frame_millis) h)
               else Some (Inr h))
            else run_frame env h)))"

end
