(* ===== verification/Cl_State.thy ===== *)
theory Cl_State
  imports Sv_Main
begin

text \<open>
  The state of the client (\<open>src/client/cl_types.h\<close>): \<open>cl_static\<close> holds what \<open>cls\<close>, \<open>cl\<close> and
  the other globals of the client keep, the part that the frames change in a \<open>cl_client\<close>.
  \<open>calls\<close> records the calls that leave the modelled part, in their order: to
  the file system, the renderer, the sound, the user interface and the client game.
  An open file is what has been written to it since it was opened. \<open>cls_out\<close>
  records what has been handed to \<open>Net_SendDatagram\<close>.
\<close>

section \<open>Types\<close>

datatype cl_state = CL_UNINITIALIZED | CL_DISCONNECTED | CL_CONNECTING | CL_CONNECTED | CL_ACTIVE

fun state_value :: "cl_state \<Rightarrow> nat" where
  "state_value CL_UNINITIALIZED = 0"
| "state_value CL_DISCONNECTED = 1"
| "state_value CL_CONNECTING = 2"
| "state_value CL_CONNECTED = 3"
| "state_value CL_ACTIVE = 4"

datatype cl_key_dest = KEY_GAME | KEY_UI | KEY_CONSOLE | KEY_CHAT

datatype cl_server_source = SERVER_SOURCE_INTERNET | SERVER_SOURCE_USER | SERVER_SOURCE_BCAST

record cl_cmd =
  cc_cmd :: user_cmd
  cc_time :: uint32
  cc_real_time :: uint32

record cl_download =
  dl_http :: bool
  dl_file :: "byte list option"
  dl_tempname :: string
  dl_name :: string

record cl_server_info =
  si_addr :: net_addr
  si_source :: cl_server_source
  si_hostname :: string
  si_name :: string
  si_gameplay :: string
  si_clients :: uint16
  si_max_clients :: uint16
  si_ping_time :: uint32
  si_ping :: uint16

record cl_http_state =
  http_url :: string
  http_status :: int
  http_ready :: bool
  http_success :: bool
  http_error :: string

datatype call =
    Fs_OpenWrite string
  | Fs_OpenAppend string
  | Fs_Seek int
  | Fs_Close "byte list"
  | Fs_Rename string string
  | Fs_AddToSearchPath string
  | Fs_Unlink string
  | Media string string
  | UpdateConfigString nat
  | PlaySample "vec3_t option" nat nat int
  | Call string

record cl_static =
  cls_state :: cl_state
  key_dest :: cl_key_dest
  cls_real_time :: uint32
  packet_delta :: uint32
  render_delta :: uint32
  server_name :: string
  connect_time :: uint32
  cls_chan :: net_chan
  cls_challenge :: uint32
  cls_spawn_count :: uint32
  loading :: uint16
  download_url :: string
  cls_download :: cl_download
  demo_filename :: string
  demo_file :: "byte list option"
  servers :: "cl_server_info list"
  broadcast_time :: uint32
  time_demo_frames :: uint32
  time_demo_start :: uint32
  packet_counter :: uint32
  byte_counter :: uint32
  cl_cmds :: "cl_cmd list"
  cl_world :: cl_client
  pred_error :: vec3_t
  pred_origins :: "int16 vec3 list"
  entity_num :: uint16
  cl_time :: uint32
  server_count :: uint32
  third_person :: bool
  cl_config_strings :: "string list"
  precache_check :: uint16
  last_move :: uint32
  http :: cl_http_state
  user_info_modified :: bool
  max_fps :: "vec_t \<times> bool"
  max_pps :: "vec_t \<times> bool"
  ignore_string :: string
  cls_from :: net_addr
  cls_message :: mem_buf
  cl_bufs :: cmd_buffers
  cls_out :: "(net_addr \<times> byte list) list"
  calls :: "call list"

definition CMD_BACKUP :: nat where "CMD_BACKUP = 64"
definition MAX_OSPATH :: nat where "MAX_OSPATH = 256"

text \<open>
  What the client asks of the rest of the program and of the system. \<open>resolve\<close> is
  \<open>Net_StringToNetaddr\<close>, \<open>cl_addr_string\<close> is \<open>Net_NetaddrToString\<close>; \<open>port_server\<close> and \<open>port_master\<close>
  are in network order. \<open>succeeds\<close> tells of a call, given the calls before it, whether its result
  is not a failure; \<open>file_length\<close> is the length that \<open>Fs_Load\<close> returns, if the file exists.
  \<open>has_sample\<close> tells whether there is a sample for an index. \<open>parse_game\<close> is the client game's \<open>ParseMessage\<close>: it reads the message with
  the functions of \<open>cl_cgame.c\<close>, by which it moves ahead; \<open>None\<close> is false. \<open>input\<close> is \<open>Cl_Move\<close>, which fills in what the
  input devices say; \<open>curl_poll\<close> is what curl has to tell.
\<close>

record cl_env =
  resolve :: "string \<Rightarrow> net_addr option"
  cl_addr_string :: "net_addr \<Rightarrow> string"
  port_server :: uint16
  port_master :: uint16
  cl_qport :: uint8
  cl_user_info :: string
  cl_var :: "string \<Rightarrow> string"
  local_server :: bool
  time_demo :: bool
  predict :: bool
  cl_now :: uint32
  succeeds :: "call list \<Rightarrow> call \<Rightarrow> bool"
  file_length :: "call list \<Rightarrow> string \<Rightarrow> int option"
  has_sample :: "call list \<Rightarrow> nat \<Rightarrow> bool"
  cl_dedicated :: bool
  cl_async :: bool
  cl_timeout :: vec_t
  time_scale :: vec_t
  input :: "cl_static \<Rightarrow> user_cmd \<Rightarrow> user_cmd"
  curl_poll :: "cl_static \<Rightarrow> byte list list \<times> string \<times> int \<times> bool option"
  parse_game :: "int \<Rightarrow> mem_buf \<Rightarrow> cl_static \<Rightarrow> (nat \<times> cl_static) result option"

section \<open>Output\<close>

definition log_call :: "call \<Rightarrow> cl_static \<Rightarrow> cl_static" where
  "log_call c cl = cl\<lparr>calls := calls cl @ [c]\<rparr>"

text \<open>\<open>Netchan_OutOfBandPrint(NS_UDP_CLIENT, addr, ...)\<close>\<close>

definition cl_oob_print :: "net_addr \<Rightarrow> string \<Rightarrow> cl_static \<Rightarrow> cl_static result" where
  "cl_oob_print adr str cl =
     bindE (Netchan_OutOfBandPrint str) (\<lambda>bytes. Inr (cl\<lparr>cls_out := cls_out cl @ [(adr, bytes)]\<rparr>))"

text \<open>\<open>Netchan_Transmit\<close> on the channel of the client, and writing to its message\<close>

definition cl_transmit :: "cl_env \<Rightarrow> byte list \<Rightarrow> cl_static \<Rightarrow> cl_static result" where
  "cl_transmit env bytes cl =
     bindE (Netchan_Transmit (cl_now env) (cls_chan cl) bytes) (\<lambda>(ch, sent).
       Inr (cl\<lparr>cls_chan := ch, cls_out := cls_out cl @ (case sent of None \<Rightarrow> [] | Some d \<Rightarrow> [(remote_address ch, d)])\<rparr>))"

definition cl_write :: "(mem_buf \<Rightarrow> mem_buf result) list \<Rightarrow> cl_static \<Rightarrow> cl_static result" where
  "cl_write ws cl =
     bindE (run_seq ws (message (cls_chan cl))) (\<lambda>b. Inr (cl\<lparr>cls_chan := (cls_chan cl)\<lparr>message := b\<rparr>\<rparr>))"

text \<open>A string command to the server\<close>

definition string_cmd :: "string \<Rightarrow> cl_static \<Rightarrow> cl_static result" where
  "string_cmd s = cl_write [Net_WriteByte CL_CMD_STRING, Net_WriteString (Some s)]"

section \<open>Clearing\<close>

definition zero_cl_frame :: cl_frame where
  "zero_cl_frame = \<lparr>cf_time = 0, cf_frame_num = 0, cf_delta_frame_num = 0, cf_area_bits = replicate AREA_BYTES 0,
     cf_ps = null_player_state, cf_num_entities = 0, cf_entity_state = 0, cf_valid = False\<rparr>"

definition zero_entity :: cl_entity where
  "zero_entity = \<lparr>baseline = null_state, current = null_state, prev = null_state, ent_frame_num = 0,
     animation1_time = 0, animation2_time = 0\<rparr>"

definition zero_cl_client :: cl_client where
  "zero_cl_client = \<lparr>frame = zero_cl_frame, frames = replicate PACKET_BACKUP zero_cl_frame, entities = replicate MAX_EDICTS zero_entity,
     entity_states = replicate ENTITY_STATE_BACKUP null_state, entity_state_index = 0, cl_surpress_count = 0, server_hz = 0,
     demo_server = False, cl_active = False, predicted_origin = Vec3 0 0 0, predicted_view_offset = Vec3 0 0 0,
     predicted_view_angles = Vec3 0 0 0\<rparr>"

definition Cl_ClearState :: "cl_static \<Rightarrow> cl_static" where
  "Cl_ClearState cl =
     (let cl = log_call (Call ''Cl_ClearInput'') (log_call (Call ''ClearState'') cl);
          cl = cl\<lparr>time_demo_frames := 0, time_demo_start := 0, packet_counter := 0, byte_counter := 0,
            cl_cmds := replicate CMD_BACKUP \<lparr>cc_cmd = null_cmd, cc_time = 0, cc_real_time = 0\<rparr>,
            cl_world := zero_cl_client, pred_error := Vec3 0 0 0, pred_origins := replicate CMD_BACKUP (Vec3 0 0 0),
            entity_num := 0, cl_time := 0, server_count := 0, third_person := False,
            cl_config_strings := replicate MAX_CONFIG_STRINGS [], precache_check := 0\<rparr>;
          cl = log_call (Call ''Com_QuitSubsystem'') cl
      in cl\<lparr>cls_chan := (cls_chan cl)\<lparr>message := Mem_ClearBuffer (message (cls_chan cl))\<rparr>\<rparr>)"

end
