(* ===== verification/Cl_Connect.thy ===== *)
theory Cl_Connect
  imports Cl_State
begin

text \<open>
  How the client connects to a server and lets go of it: \<open>src/client/cl_main.c\<close>, with the end
  of a recording (\<open>cl_demo.c\<close>) and of a download (\<open>cl_http.c\<close>) that this brings about.
\<close>

section \<open>Letting go\<close>

definition Cl_Stop_f :: "cl_static \<Rightarrow> cl_static" where
  "Cl_Stop_f cl =
     (case demo_file cl of None \<Rightarrow> cl
      | Some bytes \<Rightarrow> (log_call (Fs_Close (bytes @ long_bytes (-1))) cl)\<lparr>demo_file := None\<rparr>)"

text \<open>\<open>final\<close>: the command byte and the string, up to its terminator\<close>

definition disconnect_bytes :: "byte list" where
  "disconnect_bytes = word_of_int CL_CMD_STRING # map byte_of_char ''disconnect''"

definition Cl_SendDisconnect :: "cl_env \<Rightarrow> cl_static \<Rightarrow> cl_static result" where
  "Cl_SendDisconnect env cl =
     (if state_value (cls_state cl) \<le> state_value CL_DISCONNECTED then Inr cl
      else bindE (run_seq [cl_transmit env disconnect_bytes, cl_transmit env disconnect_bytes, cl_transmit env disconnect_bytes] cl)
        (\<lambda>cl. Inr ((Cl_ClearState cl)\<lparr>broadcast_time := 0, connect_time := 0, loading := 0, packet_delta := 9999, cls_state := CL_DISCONNECTED\<rparr>)))"

text \<open>
  \<open>Cl_Disconnect\<close>, \<open>Cl_HttpDownload_Complete\<close> and \<open>Cl_Reconnect_f\<close> call each other.
  \<open>finish\<close> stands for the second one: it has closed the file before it calls the others, so they
  do not call it again.
\<close>

definition set_download :: "(cl_download \<Rightarrow> cl_download) \<Rightarrow> cl_static \<Rightarrow> cl_static" where
  "set_download f cl = cl\<lparr>cls_download := f (cls_download cl)\<rparr>"

definition close_download :: "cl_static \<Rightarrow> cl_static" where
  "close_download cl =
     (case dl_file (cls_download cl) of None \<Rightarrow> cl
      | Some bytes \<Rightarrow> set_download (\<lambda>d. d\<lparr>dl_file := None\<rparr>) (log_call (Fs_Close bytes) cl))"

definition stop_download :: "(cl_static \<Rightarrow> cl_static result) \<Rightarrow> cl_static \<Rightarrow> cl_static result" where
  "stop_download finish cl =
     (if dl_file (cls_download cl) = None then Inr cl
      else if dl_http (cls_download cl)
      then bindE (finish cl) (\<lambda>cl. Inr (set_download (\<lambda>d. d\<lparr>dl_file := None\<rparr>) cl))
      else Inr (close_download cl))"

definition disconnect_with :: "(cl_static \<Rightarrow> cl_static result) \<Rightarrow> cl_env \<Rightarrow> cl_static \<Rightarrow> cl_static result" where
  "disconnect_with finish env cl =
     (if state_value (cls_state cl) \<le> state_value CL_DISCONNECTED then Inr cl
      else
        let cl = (if time_demo env then cl\<lparr>time_demo_frames := 0, time_demo_start := 0\<rparr> else cl)
        in bindE (Cl_SendDisconnect env cl) (\<lambda>cl.
           bindE (stop_download finish (if demo_file cl \<noteq> None then Cl_Stop_f cl else cl)) (\<lambda>cl.
             Inr (cl\<lparr>server_name := [], key_dest := KEY_UI\<rparr>))))"

definition reconnect_with :: "(cl_static \<Rightarrow> cl_static result) \<Rightarrow> cl_static \<Rightarrow> cl_static result" where
  "reconnect_with disconnect cl =
     (if dl_file (cls_download cl) \<noteq> None then Inr cl
      else if server_name cl = [] then Inr cl
      else
        bindE (if state_value (cls_state cl) \<ge> state_value CL_CONNECTING
               then bindE (disconnect cl) (\<lambda>c. Inr (c\<lparr>server_name := server_name cl\<rparr>)) else Inr cl) (\<lambda>cl.
          Inr (cl\<lparr>connect_time := 0, cls_state := CL_CONNECTING\<rparr>)))"

definition Cl_HttpDownload_Complete :: "cl_env \<Rightarrow> cl_static \<Rightarrow> cl_static result" where
  "Cl_HttpDownload_Complete env cl =
     (if dl_file (cls_download cl) = None \<or> \<not> dl_http (cls_download cl) then Inr cl
      else
        let cl = set_download (\<lambda>d. d\<lparr>dl_http := False\<rparr>) (close_download (log_call (Call ''curl_multi_remove_handle'') cl))
        in bindE
          (if http_success (http cl) then
             let cl = set_download (\<lambda>d. d\<lparr>dl_name := []\<rparr>) cl; d = cls_download cl;
                 rename = Fs_Rename (dl_tempname d) (dl_name d); done = succeeds env (calls cl) rename;
                 cl = log_call rename cl
             in if done then
                  reconnect_with (disconnect_with Inr env)
                    (if has_part (dl_name d) ''.zip'' then log_call (Fs_AddToSearchPath (dl_name d)) cl else cl)
                else Inl (Err_Drop ''Failed to rename'')
           else
             bindE (string_cmd (take (MAX_STRING_CHARS - 1) (''download '' @ dl_name (cls_download cl))) cl) (\<lambda>cl.
               Inr (log_call (Fs_Unlink (dl_name (cls_download cl))) cl)))
          (\<lambda>cl. Inr (cl\<lparr>http := (http cl)\<lparr>http_ready := True\<rparr>\<rparr>)))"

definition Cl_Disconnect :: "cl_env \<Rightarrow> cl_static \<Rightarrow> cl_static result" where
  "Cl_Disconnect env = disconnect_with (Cl_HttpDownload_Complete env) env"

definition Cl_Reconnect_f :: "cl_env \<Rightarrow> cl_static \<Rightarrow> cl_static result" where
  "Cl_Reconnect_f env = reconnect_with (Cl_Disconnect env)"

text \<open>\<open>Sv_ShutdownServer\<close> concerns the server of the same program, if there is one.\<close>

definition shutdown_local :: "cl_env \<Rightarrow> cl_static \<Rightarrow> cl_static" where
  "shutdown_local env cl = (if local_server env then log_call (Call ''Sv_ShutdownServer'') cl else cl)"

definition Cl_Disconnect_f :: "cl_env \<Rightarrow> cl_static \<Rightarrow> cl_static result" where
  "Cl_Disconnect_f env cl = Cl_Disconnect env (shutdown_local env cl)"

section \<open>Connecting\<close>

definition Cl_Connect_f :: "cl_env \<Rightarrow> cmd_args \<Rightarrow> cl_static \<Rightarrow> cl_static result" where
  "Cl_Connect_f env a cl =
     (if Cmd_Argc a \<noteq> 2 then Inr cl
      else bindE (Cl_Disconnect env (shutdown_local env cl)) (\<lambda>cl.
        Inr (cl\<lparr>server_name := take (MAX_OSPATH - 1) (Cmd_Argv a 1), cls_state := CL_CONNECTING, connect_time := 0\<rparr>)))"

definition server_addr :: "cl_env \<Rightarrow> string \<Rightarrow> net_addr option" where
  "server_addr env n = map_option (\<lambda>adr. if port adr = 0 then adr\<lparr>port := port_server env\<rparr> else adr) (resolve env n)"

definition Cl_SendConnect :: "cl_env \<Rightarrow> cl_static \<Rightarrow> cl_static result" where
  "Cl_SendConnect env cl =
     (case server_addr env (server_name cl) of
        None \<Rightarrow> Inr (cl\<lparr>connect_time := 0\<rparr>)
      | Some adr \<Rightarrow>
          bindE (cl_oob_print adr (''connect '' @ print_int PROTOCOL @ '' '' @ print_int (uint (cl_qport env)) @ '' '' @
              print_int (sint (cls_challenge cl)) @ '' '' @ [quote] @ cl_user_info env @ [quote, newline]) cl) (\<lambda>cl.
            Inr (cl\<lparr>user_info_modified := False\<rparr>)))"

definition Cl_CheckForResend :: "cl_env \<Rightarrow> cl_static \<Rightarrow> cl_static result" where
  "Cl_CheckForResend env cl =
     bindE (if local_server env \<and> server_name cl \<noteq> ''localhost''
            then bindE (if state_value (cls_state cl) > state_value CL_DISCONNECTED then Cl_Disconnect env cl else Inr cl)
                   (\<lambda>cl. Inr (cl\<lparr>server_name := ''localhost'', cls_state := CL_CONNECTING, connect_time := 0\<rparr>))
            else Inr cl) (\<lambda>cl.
       if cls_state cl \<noteq> CL_CONNECTING then Inr cl
       else if connect_time cl \<noteq> 0 \<and> cls_real_time cl - connect_time cl < 3000 then Inr cl
       else case server_addr env (server_name cl) of
         None \<Rightarrow> Inr (cl\<lparr>cls_state := CL_DISCONNECTED\<rparr>)
       | Some adr \<Rightarrow> cl_oob_print adr (''get_challenge'' @ [newline]) (cl\<lparr>connect_time := cls_real_time cl\<rparr>))"

section \<open>Commands for the server\<close>

definition Cl_ForwardCmdToServer :: "cmd_args \<Rightarrow> cl_static \<Rightarrow> cl_static result" where
  "Cl_ForwardCmdToServer a cl =
     (if state_value (cls_state cl) \<le> state_value CL_DISCONNECTED then Inr cl
      else string_cmd (take (MAX_STRING_CHARS - 1) (Cmd_Argv a 0 @ '' '' @ Cmd_Args a)) cl)"

text \<open>
  \<open>strcat\<close> into \<open>char message[1024]\<close>; \<open>rcon_password\<close> and \<open>rcon_address\<close> are variables. The
  datagram has its terminator.
\<close>

definition Cl_Rcon_f :: "cl_env \<Rightarrow> cmd_args \<Rightarrow> cl_static \<Rightarrow> cl_static result" where
  "Cl_Rcon_f env a cl =
     (let text = ''rcon '' @ cl_var env ''rcon_password'' @ '' '' @ concat (map (\<lambda>i. Cmd_Argv a i @ '' '') [1 ..< Cmd_Argc a]);
          bytes = replicate 4 0xFF @ map byte_of_char text @ [0];
          send = (\<lambda>adr. Inr (cl\<lparr>cls_out := cls_out cl @ [(adr, bytes)]\<rparr>))
      in if length bytes > 1024 then Inl Bad_Access
         else if state_value (cls_state cl) \<ge> state_value CL_CONNECTED then send (remote_address (cls_chan cl))
         else if cl_var env ''rcon_address'' = [] then Inr cl
         else case server_addr env (cl_var env ''rcon_address'') of None \<Rightarrow> Inr cl | Some adr \<Rightarrow> send adr)"

end
