(* ===== verification/Cl_Download.thy ===== *)
theory Cl_Download
  imports Cl_Connect
begin

text \<open>
  Getting the files of a level (\<open>Cl_CheckOrDownloadFile\<close>, \<open>Cl_ParseDownload\<close> and others of
  \<open>src/client/cl_parse.c\<close>, \<open>Cl_RequestNextDownload\<close> of \<open>cl_media.c\<close>, \<open>cl_http.c\<close>) and the recording
  of demos (\<open>cl_demo.c\<close>). The transfer by HTTP itself is curl's.
\<close>

section \<open>Asking for a file\<close>

definition CS_ZIP :: nat where "CS_ZIP = 3"
definition CS_MODELS :: nat where "CS_MODELS = 5"

definition StripExtension :: "string \<Rightarrow> string" where
  "StripExtension s = takeWhile (\<lambda>c. c \<noteq> CHR ''.'') s"

text \<open>Opening the file of the download: \<open>open\<close> is one of the calls to open it.\<close>

definition open_download :: "cl_env \<Rightarrow> call \<Rightarrow> cl_static \<Rightarrow> bool \<times> cl_static" where
  "open_download env c cl =
     (if succeeds env (calls cl) c then (True, set_download (\<lambda>d. d\<lparr>dl_file := Some []\<rparr>) (log_call c cl))
      else (False, set_download (\<lambda>d. d\<lparr>dl_file := None\<rparr>) (log_call c cl)))"

definition temp_name :: "string \<Rightarrow> string" where
  "temp_name s = strlcat (StripExtension s) ''.tmp'' MAX_OSPATH"

definition Cl_HttpDownload :: "cl_env \<Rightarrow> cl_static \<Rightarrow> bool \<times> cl_static" where
  "Cl_HttpDownload env cl =
     (if \<not> http_ready (http cl) then (False, cl)
      else
        let cl = set_download (\<lambda>d. d\<lparr>dl_tempname := temp_name (dl_name d)\<rparr>) cl;
            (opened, cl) = open_download env (Fs_OpenWrite (dl_tempname (cls_download cl))) cl
        in if \<not> opened then (False, cl)
           else
             let cl = set_download (\<lambda>d. d\<lparr>dl_http := True\<rparr>) cl
             in (True, log_call (Call ''curl_multi_add_handle'') (cl\<lparr>http := (http cl)\<lparr>http_ready := False, http_status := 0,
                  http_url := take (MAX_OSPATH - 1) (download_url cl @ ''/'' @ cl_var env ''game'' @ ''/'' @ dl_name (cls_download cl)),
                  http_error := []\<rparr>\<rparr>)))"

text \<open>The rest of a file of which there is a part, if it can be opened.\<close>

definition resume_download :: "cl_env \<Rightarrow> cl_static \<Rightarrow> (int option \<times> cl_static)" where
  "resume_download env cl =
     (let d = cls_download cl in
      case file_length env (calls cl) (dl_tempname d) of None \<Rightarrow> (None, cl)
      | Some len \<Rightarrow>
          let (opened, cl) = open_download env (Fs_OpenAppend (dl_tempname d)) cl
          in if \<not> opened then (None, cl)
             else
               let seek = Fs_Seek (len - 1)
               in (if succeeds env (calls cl) seek then Some len else None, log_call seek cl))"

text \<open>\<open>strncpy\<close> leaves no terminator if the name fills the array.\<close>

definition Cl_CheckOrDownloadFile :: "cl_env \<Rightarrow> string \<Rightarrow> cl_static \<Rightarrow> (bool \<times> cl_static) result" where
  "Cl_CheckOrDownloadFile env filename cl =
     (if cls_state cl = CL_DISCONNECTED then Inr (True, cl)
      else if IS_INVALID_DOWNLOAD filename then Inr (True, cl)
      else if file_length env (calls cl) filename \<noteq> None then Inr (True, cl)
      else if length filename \<ge> MAX_OSPATH then Inl Bad_Access
      else
        let cl = set_download (\<lambda>d. d\<lparr>dl_name := filename, dl_tempname := temp_name filename\<rparr>) cl;
            (started, cl) = (if download_url cl \<noteq> [] then Cl_HttpDownload env cl else (False, cl))
        in if started then Inr (False, cl)
           else
             let (resumed, cl) = resume_download env cl;
                 cmd = (case resumed of Some len \<Rightarrow> ''download '' @ filename @ '' '' @ decimal (nat (len mod 2 ^ 32))
                        | None \<Rightarrow> ''download '' @ filename)
             in bindE (string_cmd (take (MAX_STRING_CHARS - 1) cmd) cl) (\<lambda>cl. Inr (False, cl)))"

definition Cl_Download_f :: "cl_env \<Rightarrow> cmd_args \<Rightarrow> cl_static \<Rightarrow> cl_static result" where
  "Cl_Download_f env a cl =
     (if Cmd_Argc a \<noteq> 2 then Inr cl
      else bindE (Cl_CheckOrDownloadFile env (Cmd_Argv a 1) cl) (\<lambda>(_, cl). Inr cl))"

section \<open>Precaching\<close>

definition Cl_LoadMedia :: "cl_static \<Rightarrow> cl_static" where
  "Cl_LoadMedia cl =
     (let cl = fold (\<lambda>f. log_call (Call f)) [''Cl_UpdatePrediction'', ''R_LoadMedia'', ''S_LoadMedia'', ''Cl_UpdateEntities'',
            ''UpdateMedia'', ''Cl_ClearNotify''] (cl\<lparr>loading := 1\<rparr>)
      in cl\<lparr>key_dest := KEY_GAME, loading := 0\<rparr>)"

text \<open>One check of \<open>Cl_RequestNextDownload\<close>: whether a download has been started.\<close>

definition check_file :: "cl_env \<Rightarrow> nat \<Rightarrow> nat \<Rightarrow> cl_static \<Rightarrow> (bool \<times> cl_static) result" where
  "check_file env i next_check cl =
     (if precache_check cl \<noteq> word_of_nat i then Inr (False, cl)
      else
        let cl = cl\<lparr>precache_check := word_of_nat next_check\<rparr>
        in bindE (at_index (cl_config_strings cl) (int i)) (\<lambda>s.
             if s = [] then Inr (False, cl)
             else bindE (Cl_CheckOrDownloadFile env s cl) (\<lambda>(there, cl). Inr (\<not> there, cl))))"

definition Cl_RequestNextDownload :: "cl_env \<Rightarrow> cl_static \<Rightarrow> cl_static result" where
  "Cl_RequestNextDownload env cl =
     (if state_value (cls_state cl) < state_value CL_CONNECTED then Inr cl
      else
        bindE (check_file env CS_ZIP CS_MODELS cl) (\<lambda>(started, cl).
        if started then Inr cl
        else bindE (check_file env CS_MODELS (CS_MODELS + 1) cl) (\<lambda>(started, cl).
        if started then Inr cl
        else
          let cl = Cl_LoadMedia (log_call (Call ''Cvar_ResetLocal'') (log_call (Call ''Com_InitSubsystem'') cl))
          in string_cmd (''begin '' @ print_int (sint (cls_spawn_count cl)) @ [newline]) cl)))"

definition Cl_Precache_f :: "cl_env \<Rightarrow> cmd_args \<Rightarrow> cl_static \<Rightarrow> cl_static result" where
  "Cl_Precache_f env a cl =
     (if Cmd_Argc a \<noteq> 2 then Inr cl
      else Cl_RequestNextDownload env
        (cl\<lparr>cls_spawn_count := ucast (strtoul 0 (Cmd_Argv a 1)), precache_check := word_of_nat CS_ZIP\<rparr>))"

section \<open>The parts of a file\<close>

text \<open>
  \<open>sb\<close> is \<open>net_message\<close>. The bytes are taken from the array of the message, whether or not they
  belong to it.
\<close>

definition write_download :: "byte list \<Rightarrow> cl_static \<Rightarrow> cl_static" where
  "write_download bytes = set_download (\<lambda>d. d\<lparr>dl_file := map_option (\<lambda>bs. bs @ bytes) (dl_file d)\<rparr>)"

text \<open>The end of the file: it gets its name, and the next one is asked for.\<close>

definition finish_download :: "cl_env \<Rightarrow> cl_static \<Rightarrow> cl_static result" where
  "finish_download env cl =
     (let cl = close_download cl; d = cls_download cl;
          rename = Fs_Rename (dl_tempname d) (dl_name d); done = succeeds env (calls cl) rename;
          cl = log_call rename cl
      in if done then
           Cl_RequestNextDownload env (if has_part (dl_name d) ''.zip'' then log_call (Fs_AddToSearchPath (dl_name d)) cl else cl)
         else Inl (Err_Drop ''Failed to rename''))"

definition Cl_ParseDownload :: "cl_env \<Rightarrow> mem_buf \<Rightarrow> cl_static \<Rightarrow> (cl_static \<times> mem_buf) result" where
  "Cl_ParseDownload env sb cl =
     (let (size, sb) = Net_ReadShort sb; (percent, sb) = Net_ReadByte sb
      in if size < 0 then
           bindE (Cl_RequestNextDownload env (close_download cl)) (\<lambda>cl. Inr (cl, sb))
         else
           let d = cls_download cl;
               (opened, cl) = (if dl_file d = None then open_download env (Fs_OpenWrite (dl_tempname d)) cl else (True, cl));
               bytes = take (nat size) (drop (read_pos sb) (buf_data sb)); sb = skip_read (nat size) sb
           in if \<not> opened then bindE (Cl_RequestNextDownload env cl) (\<lambda>cl. Inr (cl, sb))
              else if length bytes < nat size then Inl Bad_Access
              else
                let cl = write_download bytes cl
                in bindE (if percent \<noteq> 100 then string_cmd ''nextdl'' cl else finish_download env cl) (\<lambda>cl. Inr (cl, sb)))"

section \<open>Downloads by HTTP\<close>

definition Cl_HttpDownload_Receive :: "byte list \<Rightarrow> cl_static \<Rightarrow> cl_static" where
  "Cl_HttpDownload_Receive = write_download"

text \<open>
  What curl does of itself while it is polled: \<open>received\<close> are the calls of
  the handler, \<open>err\<close> what it leaves in the error buffer, \<open>code\<close> the response code so far, and
  \<open>done_ok\<close> tells of a finished transfer whether it has succeeded.
\<close>

definition Cl_HttpThink :: "cl_env \<Rightarrow> byte list list \<Rightarrow> string \<Rightarrow> int \<Rightarrow> bool option \<Rightarrow> cl_static \<Rightarrow> cl_static result" where
  "Cl_HttpThink env received err code done_ok cl =
     (if \<not> dl_http (cls_download cl) then Inr cl
      else
        let cl = fold Cl_HttpDownload_Receive received cl;
            cl = cl\<lparr>http := (http cl)\<lparr>http_error := (if err = [] then http_error (http cl) else err)\<rparr>\<rparr>
        in if http_error (http cl) \<noteq> [] then Cl_HttpDownload_Complete env cl
           else
             let fresh = (http_status (http cl) = 0);
                 cl = (if fresh then cl\<lparr>http := (http cl)\<lparr>http_status := code\<rparr>\<rparr> else cl)
             in bindE (if fresh \<and> http_status (http cl) = 200 then Cl_SendDisconnect env cl else Inr cl) (\<lambda>cl.
                if fresh \<and> http_status (http cl) > 0 \<and> http_status (http cl) \<noteq> 200 then Cl_HttpDownload_Complete env cl
                else case done_ok of None \<Rightarrow> Inr cl
                  | Some ok \<Rightarrow>
                      bindE (if ok then Cl_RequestNextDownload env (cl\<lparr>http := (http cl)\<lparr>http_success := True\<rparr>\<rparr>) else Inr cl)
                        (Cl_HttpDownload_Complete env)))"

definition Cl_ShutdownHttp :: "cl_env \<Rightarrow> cl_static \<Rightarrow> cl_static result" where
  "Cl_ShutdownHttp env = Cl_HttpDownload_Complete env"

end
