(* ===== verification/Cl_Demo.thy ===== *)
theory Cl_Demo
  imports Cl_Connect
begin

text \<open>
  The recording of demos: \<open>src/client/cl_demo.c\<close>, but for \<open>Cl_Stop_f\<close>, which \<open>Cl_Connect\<close>
  has. A demo is a sequence of messages, each after its length.
\<close>

definition demo_message :: "byte list \<Rightarrow> byte list" where
  "demo_message bytes = long_bytes (int (length bytes)) @ bytes"

text \<open>Writing \<open>msg\<close> out if there is no room, and the writers then.\<close>

definition flush_if :: "bool \<Rightarrow> (mem_buf \<times> byte list) \<Rightarrow> (mem_buf \<times> byte list)" where
  "flush_if full = (\<lambda>(msg, out). if full then (msg\<lparr>buf_size := 0\<rparr>, out @ demo_message (contents msg)) else (msg, out))"

definition write_to :: "(mem_buf \<Rightarrow> mem_buf result) list \<Rightarrow> (mem_buf \<times> byte list) \<Rightarrow> (mem_buf \<times> byte list) result" where
  "write_to ws = (\<lambda>(msg, out). bindE (run_seq ws msg) (\<lambda>msg. Inr (msg, out)))"

definition demo_string :: "nat \<Rightarrow> string \<Rightarrow> (mem_buf \<times> byte list) \<Rightarrow> (mem_buf \<times> byte list) result" where
  "demo_string i s = (\<lambda>(msg, out).
     if s = [] then Inr (msg, out)
     else write_to [Net_WriteByte SV_CMD_CONFIG_STRING, Net_WriteShort (int i), Net_WriteString (Some s)]
            (flush_if (buf_size msg + length s + 32 > max_size msg) (msg, out)))"

definition demo_baseline :: "entity_state \<Rightarrow> (mem_buf \<times> byte list) \<Rightarrow> (mem_buf \<times> byte list) result" where
  "demo_baseline base = (\<lambda>(msg, out).
     if number base = 0 then Inr (msg, out)
     else write_to [Net_WriteByte SV_CMD_BASELINE, Net_WriteDeltaEntity null_state base True True]
            (flush_if (buf_size msg + 64 > max_size msg) (msg, out)))"

definition Cl_WriteDemoHeader :: "cl_env \<Rightarrow> cl_static \<Rightarrow> byte list result" where
  "Cl_WriteDemoHeader env cl =
     bindE (at_index (cl_config_strings cl) (int CS_NAME)) (\<lambda>name.
     bindE (run_seq
       (write_to [Net_WriteByte SV_CMD_SERVER_DATA, Net_WriteLong PROTOCOL, Net_WriteLong (sint (server_count cl)),
          Net_WriteLong (uint (server_hz (cl_world cl))), Net_WriteByte 1, Net_WriteString (Some (cl_var env ''game'')),
          Net_WriteShort (uint (entity_num cl)), Net_WriteString (Some name)] #
        map (\<lambda>(i, s). demo_string i s) (enumerate 0 (take MAX_CONFIG_STRINGS (cl_config_strings cl))) @
        map (\<lambda>e. demo_baseline (baseline e)) (take MAX_EDICTS (entities (cl_world cl))) @
        [write_to [Net_WriteByte SV_CMD_CBUF_TEXT, Net_WriteString (Some (''precache 0'' @ [newline]))]])
       (Mem_InitBuffer (replicate MAX_MSG_SIZE 0) MAX_MSG_SIZE, [])) (\<lambda>(msg, out).
     Inr (out @ demo_message (contents msg))))"

text \<open>A message of fewer than eight bytes would give a negative length.\<close>

definition Cl_WriteDemoMessage :: "cl_env \<Rightarrow> mem_buf \<Rightarrow> cl_static \<Rightarrow> cl_static result" where
  "Cl_WriteDemoMessage env sb cl =
     (case demo_file cl of None \<Rightarrow> Inr cl
      | Some bytes \<Rightarrow>
          if bytes = [] \<and> cf_delta_frame_num (frame (cl_world cl)) \<ge> 0 then Inr cl
          else bindE (if bytes = [] then Cl_WriteDemoHeader env cl else Inr bytes) (\<lambda>bytes.
            if buf_size sb < 8 then Inl Bad_Access
            else Inr (cl\<lparr>demo_file := Some (bytes @ demo_message (drop 8 (contents sb)))\<rparr>)))"

definition Cl_Record_f :: "cl_env \<Rightarrow> cmd_args \<Rightarrow> cl_static \<Rightarrow> cl_static" where
  "Cl_Record_f env a cl =
     (if Cmd_Argc a \<noteq> 2 then cl
      else if demo_file cl \<noteq> None then cl
      else if cls_state cl \<noteq> CL_ACTIVE then cl
      else
        let cl = cl\<lparr>demo_filename := take (MAX_OSPATH - 1) (''demos/'' @ Cmd_Argv a 1 @ ''.dem'')\<rparr>;
            c = Fs_OpenWrite (demo_filename cl); done = succeeds env (calls cl) c; cl = log_call c cl
        in if done then cl\<lparr>demo_file := Some []\<rparr> else cl)"

definition DEMO_PLAYBACK_STEP :: vec_t where "DEMO_PLAYBACK_STEP = 1"

text \<open>The new value of \<open>time_scale\<close>\<close>

definition Cl_AdjustDemoPlayback :: "cl_static \<Rightarrow> vec_t \<Rightarrow> vec_t \<Rightarrow> vec_t" where
  "Cl_AdjustDemoPlayback cl delta scale =
     (if \<not> demo_server (cl_world cl) then scale
      else
        let v = flt (scale + delta)
        in if v < DEMO_PLAYBACK_STEP then DEMO_PLAYBACK_STEP else if v > 4 then 4 else v)"

definition Cl_FastForward_f :: "cl_static \<Rightarrow> vec_t \<Rightarrow> vec_t" where
  "Cl_FastForward_f cl = Cl_AdjustDemoPlayback cl DEMO_PLAYBACK_STEP"

definition Cl_SlowMotion_f :: "cl_static \<Rightarrow> vec_t \<Rightarrow> vec_t" where
  "Cl_SlowMotion_f cl = Cl_AdjustDemoPlayback cl (- DEMO_PLAYBACK_STEP)"

end
