(* ===== verification/Cl_Servers.thy ===== *)
theory Cl_Servers
  imports Cl_Connect
begin

text \<open>
  The list of servers: \<open>src/client/cl_server.c\<close>. A server is referred to by its place in the
  list; new ones are put in front.
\<close>

section \<open>The list\<close>

definition Cl_AddServer :: "cl_env \<Rightarrow> net_addr \<Rightarrow> cl_static \<Rightarrow> cl_static" where
  "Cl_AddServer env adr cl =
     cl\<lparr>servers := \<lparr>si_addr = adr, si_source = SERVER_SOURCE_INTERNET, si_hostname = strlcpy (cl_addr_string env adr) 64,
       si_name = [], si_gameplay = [], si_clients = 0, si_max_clients = 0, si_ping_time = 0, si_ping = 0\<rparr> # servers cl\<rparr>"

definition Cl_ServerForNetaddr :: "net_addr \<Rightarrow> cl_static \<Rightarrow> nat option" where
  "Cl_ServerForNetaddr adr cl = find_index (\<lambda>s. Net_CompareNetaddr adr (si_addr s)) (servers cl)"

definition Cl_FreeServers :: "cl_static \<Rightarrow> cl_static" where
  "Cl_FreeServers cl = cl\<lparr>servers := []\<rparr>"

definition set_server :: "nat \<Rightarrow> (cl_server_info \<Rightarrow> cl_server_info) \<Rightarrow> cl_static \<Rightarrow> cl_static" where
  "set_server i f cl = cl\<lparr>servers := (servers cl)[i := f (servers cl ! i)]\<rparr>"

text \<open>The place of the server of an address, which is added unless it is there.\<close>

definition known_server :: "cl_env \<Rightarrow> net_addr \<Rightarrow> (cl_server_info \<Rightarrow> cl_server_info) \<Rightarrow> cl_static \<Rightarrow> nat \<times> cl_static" where
  "known_server env adr fresh cl =
     (case Cl_ServerForNetaddr adr cl of Some i \<Rightarrow> (i, cl)
      | None \<Rightarrow> (0, set_server 0 fresh (Cl_AddServer env adr cl)))"

section \<open>Answers\<close>

text \<open>
  \<open>sscanf\<close>: a number of characters as they are, the backslash, and \<open>%hu\<close>. What a failed scan
  has already written is cleared.
\<close>

definition scan_chars :: "nat \<Rightarrow> string \<Rightarrow> (string \<times> string) option" where
  "scan_chars n s = (if length s < n then None else Some (take n s, drop n s))"

definition scan_slash :: "string \<Rightarrow> string option" where
  "scan_slash s = (if s \<noteq> [] \<and> hd s = backslash then Some (tl s) else None)"

definition scan_hu :: "string \<Rightarrow> (uint16 \<times> string) option" where
  "scan_hu s =
     (let t = dropWhile is_space s;
          u = (if t \<noteq> [] \<and> (hd t = CHR ''+'' \<or> hd t = CHR ''-'') then tl t else t)
      in if u = [] \<or> digit_val (hd u) \<ge> 10 then None
         else Some (ucast (strtoul 10 t), dropWhile (\<lambda>c. digit_val c < 10) u))"

definition scan_info :: "string \<Rightarrow> (string \<times> string \<times> string \<times> uint16 \<times> uint16) option" where
  "scan_info s =
     Option.bind (scan_chars 63 s) (\<lambda>(hostname, s). Option.bind (scan_slash s) (\<lambda>s.
     Option.bind (scan_chars 31 s) (\<lambda>(n, s). Option.bind (scan_slash s) (\<lambda>s.
     Option.bind (scan_chars 31 s) (\<lambda>(gameplay, s). Option.bind (scan_slash s) (\<lambda>s.
     Option.bind (scan_hu s) (\<lambda>(clients, s). Option.bind (scan_slash s) (\<lambda>s.
     Option.bind (scan_hu s) (\<lambda>(slots, _). Some (hostname, n, gameplay, clients, slots))))))))))"

definition clamp_ping :: "uint32 \<Rightarrow> uint16" where
  "clamp_ping d = (if d < 1 then 1 else if d > 999 then 999 else ucast d)"

definition Cl_ParseServerInfo :: "cl_env \<Rightarrow> cl_static \<Rightarrow> cl_static" where
  "Cl_ParseServerInfo env cl =
     (let (i, cl) = known_server env (cls_from cl)
            (\<lambda>s. s\<lparr>si_source := SERVER_SOURCE_BCAST, si_ping_time := broadcast_time cl\<rparr>) cl;
          (info, sb) = Net_ReadString (cls_message cl);
          cl = cl\<lparr>cls_message := sb\<rparr>
      in case scan_info (strlcpy info MAX_MSG_SIZE) of
           None \<Rightarrow> set_server i (\<lambda>s. s\<lparr>si_hostname := [], si_name := [], si_gameplay := [], si_clients := 0, si_max_clients := 0\<rparr>) cl
         | Some (hostname, n, gameplay, clients, slots) \<Rightarrow>
             log_call (Call ''Ui_NewServer'') (set_server i (\<lambda>s. s\<lparr>si_hostname := hostname, si_name := n, si_gameplay := gameplay,
               si_clients := clients, si_max_clients := slots, si_ping := clamp_ping (cls_real_time cl - si_ping_time s)\<rparr>) cl))"

text \<open>The request for information\<close>

definition info_request :: string where
  "info_request = ''info '' @ print_int PROTOCOL"

definition Cl_Ping_f :: "cl_env \<Rightarrow> cmd_args \<Rightarrow> cl_static \<Rightarrow> cl_static result" where
  "Cl_Ping_f env a cl =
     (if Cmd_Argc a \<noteq> 2 then Inr cl
      else case server_addr env (Cmd_Argv a 1) of None \<Rightarrow> Inr cl
        | Some adr \<Rightarrow>
            let (i, cl) = known_server env adr (\<lambda>s. s\<lparr>si_source := SERVER_SOURCE_USER\<rparr>) cl;
                cl = set_server i (\<lambda>s. s\<lparr>si_ping_time := cls_real_time cl, si_ping := 0\<rparr>) cl
            in cl_oob_print (si_addr (servers cl ! i)) info_request cl)"

definition Cl_SendBroadcast :: "cl_env \<Rightarrow> cl_static \<Rightarrow> cl_static result" where
  "Cl_SendBroadcast env cl =
     (let cl = cl\<lparr>servers := map (\<lambda>s. if si_source s = SERVER_SOURCE_BCAST
            then s\<lparr>si_ping_time := broadcast_time cl, si_ping := 0\<rparr> else s) (servers cl)\<rparr>
      in bindE (cl_oob_print \<lparr>addr_type = NA_BROADCAST, addr = 0, port = port_server env\<rparr> info_request cl) (\<lambda>cl.
           Inr (cl\<lparr>broadcast_time := cls_real_time cl\<rparr>)))"

definition IP_MASTER :: string where "IP_MASTER = ''67.228.69.114''"

definition Cl_Servers_f :: "cl_env \<Rightarrow> cl_static \<Rightarrow> cl_static result" where
  "Cl_Servers_f env cl =
     (case resolve env IP_MASTER of None \<Rightarrow> Inr cl
      | Some adr \<Rightarrow>
          bindE (cl_oob_print (adr\<lparr>addr_type := NA_DATAGRAM, port := port_master env\<rparr>) ''getservers'' cl) (Cl_SendBroadcast env))"

section \<open>The list of a master server\<close>

text \<open>
  Each entry is an address of four bytes and a port of two. \<open>i\<close> is where the next one starts
  in the message; the last one may reach beyond its end, but not beyond the array.
\<close>

definition dotted :: "byte list \<Rightarrow> string" where
  "dotted bs = decimal (unat (bs ! 0)) @ ''.'' @ decimal (unat (bs ! 1)) @ ''.'' @ decimal (unat (bs ! 2)) @ ''.'' @
     decimal (unat (bs ! 3)) @ '':'' @ decimal (unat (bs ! 4) * 256 + unat (bs ! 5))"

function parse_servers :: "cl_env \<Rightarrow> nat \<Rightarrow> cl_static \<Rightarrow> cl_static result" where
  "parse_servers env i cl =
     (if i + 1 < buf_size (cls_message cl) then
        let bs = take 6 (drop i (buf_data (cls_message cl)))
        in if length bs < 6 then Inl Bad_Access
           else case resolve env (dotted bs) of
             None \<Rightarrow> Inr cl
           | Some adr \<Rightarrow>
               if port adr = 0 then Inr cl
               else
                 let (j, c) = known_server env adr id cl;
                     c = set_server j (\<lambda>s. s\<lparr>si_source := SERVER_SOURCE_INTERNET\<rparr>) c
                 in parse_servers env (i + 6) (cl\<lparr>servers := servers c\<rparr>)
      else Inr cl)"
  by pat_completeness auto

termination
  by (relation "measure (\<lambda>(_, i, cl). buf_size (cls_message cl) - i)") auto

declare parse_servers.simps [simp del]

fun ping_servers :: "cl_server_info list \<Rightarrow> cl_static \<Rightarrow> cl_static result" where
  "ping_servers [] cl = Inr cl"
| "ping_servers (s # ss) cl =
     (let internet = (si_source s = SERVER_SOURCE_INTERNET);
          s = (if internet then s\<lparr>si_ping_time := cls_real_time cl, si_ping := 0\<rparr> else s)
      in bindE (if internet then cl_oob_print (si_addr s) info_request cl else Inr cl) (\<lambda>cl.
         ping_servers ss (cl\<lparr>servers := servers cl @ [s]\<rparr>)))"

definition Cl_ParseServers :: "cl_env \<Rightarrow> cl_static \<Rightarrow> cl_static result" where
  "Cl_ParseServers env cl =
     bindE (parse_servers env 12 cl) (\<lambda>cl.
       ping_servers (servers cl) (cl\<lparr>cls_message := (cls_message cl)\<lparr>read_pos := buf_size (cls_message cl)\<rparr>, servers := []\<rparr>))"

end
