(* ===== verification/Cl_Parse.thy ===== *)
theory Cl_Parse
  imports Cl_Download Cl_Demo Cl_Servers
begin

text \<open>
  The messages of the server (\<open>src/client/cl_parse.c\<close>), client-side prediction as far as it is
  not the client game's (\<open>cl_predict.c\<close>), the datagrams and the frame of the client (the rest
  of \<open>cl_main.c\<close>) and its movement (\<open>cl_cmd.c\<close>). \<open>sb\<close> is \<open>net_message\<close>.
\<close>

section \<open>Prediction\<close>

definition PMF_NO_PREDICTION :: uint16 where "PMF_NO_PREDICTION = 1"

definition Cl_UsePrediction :: "cl_env \<Rightarrow> cl_static \<Rightarrow> bool" where
  "Cl_UsePrediction env cl =
     (let pm = player_pm (cf_ps (frame (cl_world cl))) in
      if \<not> predict env then False
      else if cls_state cl \<noteq> CL_ACTIVE then False
      else if demo_server (cl_world cl) \<or> third_person cl then False
      else if pm_flags pm AND PMF_NO_PREDICTION \<noteq> 0 then False
      else if pm_type pm = PM_FREEZE then False
      else True)"

text \<open>
  The places of the commands that are not acknowledged, for the client game's \<open>PredictMovement\<close>;
  \<open>None\<close> if it is not called. At the last sequence number the loop ends only when memory does.
\<close>

definition Cl_PredictMovement :: "cl_env \<Rightarrow> cl_static \<Rightarrow> nat list option result" where
  "Cl_PredictMovement env cl =
     (if Cl_UsePrediction env cl then
        let now = outgoing_sequence (cls_chan cl); ack = incoming_acknowledged (cls_chan cl)
        in if now - ack \<ge> word_of_nat CMD_BACKUP then Inr None
           else if now = -1 then Inl Sig_Abort
           else Inr (Some (map (\<lambda>n. n mod CMD_BACKUP) [unat (ack + 1) ..< Suc (unat now)]))
      else Inr None)"

text \<open>\<open>VectorLength\<close> compared: the lengths are compared by their squares, which is as exact here.\<close>

definition Cl_CheckPredictionError :: "cl_env \<Rightarrow> cl_static \<Rightarrow> cl_static" where
  "Cl_CheckPredictionError env cl =
     (if \<not> Cl_UsePrediction env cl then cl
      else
        let i = unat (incoming_acknowledged (cls_chan cl)) mod CMD_BACKUP;
            o1 = pm_origin (player_pm (cf_ps (frame (cl_world cl)))); o2 = pred_origins cl ! i;
            d = UnpackVector (Vec3 (vx o1 - vx o2) (vy o1 - vy o2) (vz o1 - vz o2));
            square = vx d * vx d + vy d * vy d + vz d * vz d
        in cl\<lparr>pred_error := (if square > 256 * 256 then Vec3 0 0 0 else d)\<rparr>)"

section \<open>Messages of the server\<close>

subsection \<open>Readers that move ahead\<close>

definition moves :: "(mem_buf \<Rightarrow> ('v \<times> mem_buf) result) \<Rightarrow> bool" where
  "moves f \<longleftrightarrow> (\<forall>sb x sb'. f sb = Inr (x, sb') \<longrightarrow> (\<exists>n. sb' = skip_read n sb))"

named_theorems moves_intros \<open>handlers that move ahead in the message\<close>

lemma movesI: "(\<And>sb x sb'. f sb = Inr (x, sb') \<Longrightarrow> \<exists>n. sb' = skip_read n sb) \<Longrightarrow> moves f"
  by (auto simp: moves_def)

lemma moves_basic [moves_intros]: "moves (\<lambda>sb. Inr (x, sb))" "moves (\<lambda>sb. Inl e)" "moves (\<lambda>sb. Inr (x, skip_read n sb))"
  by (auto simp: moves_def intro: exI [of _ 0])

lemma moves_read [moves_intros]:
  assumes "fwd rd" "\<And>x. moves (f x)"
  shows "moves (\<lambda>sb. case rd sb of (x, sb) \<Rightarrow> f x sb)"
proof (rule movesI)
  fix sb y sb' assume *: "(case rd sb of (x, sb) \<Rightarrow> f x sb) = Inr (y, sb')"
  obtain x sb1 where 1: "rd sb = (x, sb1)" by (cases "rd sb")
  then obtain m where "sb1 = skip_read m sb" using assms(1) by (fastforce simp: fwd_def dest: spec [of _ sb])
  moreover obtain n where "sb' = skip_read n sb1" using assms(2) * 1 unfolding moves_def by fastforce
  ultimately show "\<exists>n. sb' = skip_read n sb" by auto
qed

lemma moves_bind [moves_intros]:
  assumes "moves f" "\<And>x. moves (g x)"
  shows "moves (\<lambda>sb. bindE (f sb) (\<lambda>(x, sb). g x sb))"
  using assms unfolding moves_def by (fastforce simp: bindE_eq_Inr)

lemma moves_then [moves_intros]: "(\<And>x. moves (g x)) \<Longrightarrow> moves (\<lambda>sb. bindE r (\<lambda>x. g x sb))"
  by (auto simp: moves_def bindE_eq_Inr)

lemma moves_if_sb [moves_intros]: "moves f \<Longrightarrow> moves g \<Longrightarrow> moves (\<lambda>sb. if P sb then f sb else g sb)"
  by (auto simp: moves_def)

lemma fwd_ReadData [advance_intros]: "fwd (Net_ReadData n)"
proof -
  have "\<exists>k. snd (Net_ReadData n sb) = skip_read k sb" for sb
    by (induction n arbitrary: sb)
      (auto simp: Net_ReadByte_def case_prod_beta Let_def intro: exI [of _ 0], metis skip_read_simps(2))
  then show ?thesis by (simp add: fwd_def)
qed

lemmas reader_intros = fwd_basic fwd_string fwd_vectors fwd_ReadData fwd_user_cmd

subsection \<open>The handlers\<close>

definition CS_SOUNDS :: nat where "CS_SOUNDS = 261"
definition CS_IMAGES :: nat where "CS_IMAGES = 525"
definition MAX_MODELS :: nat where "MAX_MODELS = 256"
definition MAX_SOUNDS :: nat where "MAX_SOUNDS = 256"
definition MAX_IMAGES :: nat where "MAX_IMAGES = 256"
definition PRINT_CHAT :: int where "PRINT_CHAT = 3"
definition PRINT_TEAMCHAT :: int where "PRINT_TEAMCHAT = 4"

text \<open>What is loaded for a string that has changed\<close>

definition load_string :: "nat \<Rightarrow> string \<Rightarrow> cl_static \<Rightarrow> cl_static" where
  "load_string i s cl =
     (if i > CS_MODELS \<and> i < CS_MODELS + MAX_MODELS then
        (if cls_state cl = CL_ACTIVE then
           let cl = log_call (Media ''R_LoadModel'' s) cl
           in if s \<noteq> [] \<and> hd s = CHR ''*'' then log_call (Media ''Cm_Model'' s) cl else cl
         else cl)
      else if i \<ge> CS_SOUNDS \<and> i < CS_SOUNDS + MAX_SOUNDS then
        (if cls_state cl = CL_ACTIVE then log_call (Media ''S_LoadSample'' s) cl else cl)
      else if i \<ge> CS_IMAGES \<and> i < CS_IMAGES + MAX_IMAGES then
        (if cls_state cl = CL_ACTIVE then log_call (Media ''R_LoadImage'' s) cl else cl)
      else cl)"

definition Cl_ParseConfigString :: "cl_static \<Rightarrow> mem_buf \<Rightarrow> (cl_static \<times> mem_buf) result" where
  "Cl_ParseConfigString cl sb =
     (case Net_ReadShort sb of (n, sb) \<Rightarrow>
        let i = unat (word_of_int n :: uint16)
        in if i \<ge> MAX_CONFIG_STRINGS then Inl (Err_Drop ''Invalid index'')
           else case Net_ReadString sb of (s, sb) \<Rightarrow>
             Inr (log_call (UpdateConfigString i) (load_string i s (cl\<lparr>cl_config_strings := (cl_config_strings cl)[i := s]\<rparr>)), sb))"

definition Cl_ParseServerData :: "cl_env \<Rightarrow> cl_static \<Rightarrow> mem_buf \<Rightarrow> (cl_static \<times> mem_buf) result" where
  "Cl_ParseServerData env cl sb =
     (let cl = (Cl_ClearState cl)\<lparr>cls_state := CL_CONNECTED, key_dest := KEY_CONSOLE\<rparr> in
      case Net_ReadLong sb of (i, sb) \<Rightarrow>
        if i \<noteq> PROTOCOL then Inl (Err_Drop ''Server is using unknown protocol'')
        else case Net_ReadLong sb of (count, sb) \<Rightarrow>
        case Net_ReadLong sb of (hz, sb) \<Rightarrow>
        case Net_ReadByte sb of (demo, sb) \<Rightarrow>
        case Net_ReadString sb of (dir, sb) \<Rightarrow>
        case Net_ReadShort sb of (n, sb) \<Rightarrow>
        case Net_ReadString sb of (level, sb) \<Rightarrow>
          let cl = cl\<lparr>server_count := word_of_int count,
                      cl_world := (cl_world cl)\<lparr>server_hz := word_of_int hz, demo_server := (demo \<noteq> 0)\<rparr>\<rparr>;
              cl = (if cl_var env ''game'' \<noteq> dir then log_call (Call ''Cl_InitCgame'') (log_call (Media ''Fs_SetGame'' dir) cl) else cl)
          in Inr (cl\<lparr>entity_num := word_of_int n\<rparr>, sb))"

definition Cl_ParseSound :: "cl_env \<Rightarrow> cl_static \<Rightarrow> mem_buf \<Rightarrow> (cl_static \<times> mem_buf) result" where
  "Cl_ParseSound env cl sb =
     (case Net_ReadByte sb of (f, sb) \<Rightarrow>
      case Net_ReadByte sb of (n, sb) \<Rightarrow>
        let flags = word_of_int f :: uint32; index = unat (word_of_int n :: uint16)
        in if index > MAX_SOUNDS then Inl (Err_Drop ''Bad index'')
           else case (if has_flag flags S_ATTEN then Net_ReadByte sb else (uint ATTEN_DEFAULT, sb)) of (atten, sb) \<Rightarrow>
             case (if has_flag flags S_ENTNUM then Net_ReadShort sb else (0, sb)) of (e, sb) \<Rightarrow>
             let ent = unat (word_of_int e :: uint16)
             in if ent > MAX_EDICTS then Inl (Err_Drop ''Bad entity number'')
                else case (if has_flag flags S_ORIGIN then case Net_ReadPosition sb of (v, sb) \<Rightarrow> (Some v, sb) else (None, sb)) of (org, sb) \<Rightarrow>
                  Inr (if has_sample env (calls cl) index then log_call (PlaySample org ent index atten) cl else cl, sb))"

text \<open>\<open>strtok\<close> ends the string behind the first word that it finds.\<close>

definition space :: char where "space = CHR '' ''"

fun split_words :: "string \<Rightarrow> string \<Rightarrow> string list" where
  "split_words w [] = (if w = [] then [] else [w])"
| "split_words w (c # s) =
     (if c = space then (if w = [] then split_words [] s else w # split_words [] s)
      else split_words (w @ [c]) s)"

definition first_word_only :: "string \<Rightarrow> string" where
  "first_word_only s =
     (let t = dropWhile (\<lambda>c. c = space) s
      in if t = [] then s else takeWhile (\<lambda>c. c = space) s @ takeWhile (\<lambda>c. c \<noteq> space) t)"

definition Cl_IgnoreChatMessage :: "string \<Rightarrow> cl_static \<Rightarrow> bool \<times> cl_static" where
  "Cl_IgnoreChatMessage msg cl =
     (let ws = split_words [] (ignore_string cl); ignore = first_word_only (ignore_string cl)
      in (ignore \<noteq> [] \<and> list_ex (has_part msg) ws, cl\<lparr>ignore_string := ignore\<rparr>))"

text \<open>A message of \<open>SV_CMD_PRINT\<close>; what is printed is recorded too.\<close>

definition chat_sound :: "string \<Rightarrow> cl_static \<Rightarrow> cl_static" where
  "chat_sound s cl = (if s \<noteq> [] then log_call (Media ''S_StartLocalSample'' s) cl else cl)"

definition print_message :: "cl_env \<Rightarrow> int \<Rightarrow> string \<Rightarrow> cl_static \<Rightarrow> cl_static" where
  "print_message env i s cl =
     (let var = (if i = PRINT_CHAT then ''cl_chat_sound'' else ''cl_team_chat_sound'') in
      if i = PRINT_CHAT \<or> i = PRINT_TEAMCHAT then
        (case Cl_IgnoreChatMessage s cl of (ignored, cl) \<Rightarrow>
           if ignored then cl else log_call (Media ''Com_Print'' s) (chat_sound (cl_var env var) cl))
      else log_call (Media ''Com_Print'' s) cl)"

definition server_reconnect :: "cl_env \<Rightarrow> cl_static \<Rightarrow> cl_static result" where
  "server_reconnect env cl =
     bindE (if dl_file (cls_download cl) \<noteq> None
            then bindE (stop_download (Cl_HttpDownload_Complete env) cl) (\<lambda>cl.
                   Inr (set_download (\<lambda>d. d\<lparr>dl_name := []\<rparr>) cl))
            else Inr cl) (\<lambda>cl. Inr (cl\<lparr>cls_state := CL_CONNECTING, connect_time := 0\<rparr>))"

text \<open>\<open>Cl_ParseFrame\<close> with the state of the client as a whole.\<close>

definition parse_frame :: "cl_env \<Rightarrow> cl_static \<Rightarrow> mem_buf \<Rightarrow> (cl_static \<times> mem_buf) result" where
  "parse_frame env cl sb =
     bindE (Cl_ParseFrame ((cl_world cl)\<lparr>cl_active := (cls_state cl = CL_ACTIVE)\<rparr>) sb) (\<lambda>(w, sb).
       Inr (Cl_CheckPredictionError env (cl\<lparr>cl_world := w, cls_state := CL_ACTIVE\<rparr>), sb))"

text \<open>The error text of an unknown command names the one before, from an array of eleven.\<close>

definition server_cmd :: "cl_env \<Rightarrow> int \<Rightarrow> int \<Rightarrow> cl_static \<Rightarrow> mem_buf \<Rightarrow> (cl_static \<times> mem_buf) result" where
  "server_cmd env cmd old_cmd cl sb =
     (if cmd = SV_CMD_BASELINE then
        bindE (Cl_ParseBaseline (cl_world cl) sb) (\<lambda>(w, sb). Inr (cl\<lparr>cl_world := w\<rparr>, sb))
      else if cmd = SV_CMD_CBUF_TEXT then
        (case Net_ReadString sb of (s, sb) \<Rightarrow>
           bindE (Cbuf_AddText s (cl_bufs cl)) (\<lambda>b. Inr (cl\<lparr>cl_bufs := b\<rparr>, sb)))
      else if cmd = SV_CMD_CONFIG_STRING then Cl_ParseConfigString cl sb
      else if cmd = SV_CMD_DISCONNECT then Inl (Err_Drop ''Server disconnected'')
      else if cmd = SV_CMD_DOWNLOAD then Cl_ParseDownload env sb cl
      else if cmd = SV_CMD_FRAME then parse_frame env cl sb
      else if cmd = SV_CMD_PRINT then
        (case Net_ReadByte sb of (i, sb) \<Rightarrow> case Net_ReadString sb of (s, sb) \<Rightarrow> Inr (print_message env i s cl, sb))
      else if cmd = SV_CMD_RECONNECT then bindE (server_reconnect env cl) (\<lambda>cl. Inr (cl, sb))
      else if cmd = SV_CMD_SERVER_DATA then Cl_ParseServerData env cl sb
      else if cmd = SV_CMD_SOUND then Cl_ParseSound env cl sb
      else case parse_game env cmd sb cl of
          None \<Rightarrow> if old_cmd \<ge> 11 then Inl Bad_Access else Inl (Err_Drop ''Illegible server message'')
        | Some r \<Rightarrow> bindE r (\<lambda>(n, cl). Inr (cl, skip_read n sb)))"

end
