(* ===== verification/Cl_Main.thy ===== *)
theory Cl_Main
  imports Cl_Parse
begin

text \<open>
  The messages, the datagrams and the frame of the client: \<open>Cl_ParseServerMessage\<close> of
  \<open>src/client/cl_parse.c\<close> and the rest of \<open>cl_main.c\<close>, and the movement of \<open>cl_cmd.c\<close>.
\<close>

section \<open>Messages\<close>

lemma fwd_cond: "fwd rd \<Longrightarrow> fwd (\<lambda>sb. if c then rd sb else (x, sb))"
  by (auto simp: fwd_def intro: exI [of _ 0])

lemma fwd_map: "fwd rd \<Longrightarrow> fwd (\<lambda>sb. case rd sb of (v, sb) \<Rightarrow> (f v, sb))"
  by (auto simp: fwd_def case_prod_beta)

lemma fwd_run_reads: "advances (run_reads fs) \<Longrightarrow> fwd (\<lambda>sb. run_reads fs (s, sb))"
  by (auto simp: fwd_def advances_def)

lemma fwd_ReadDeltaEntity: "fwd (Net_ReadDeltaEntity from num bits)"
  using Net_ReadDeltaEntity_forward by (simp add: fwd_def)

lemma moves_Baseline: "moves (Cl_ParseBaseline cl)"
  unfolding Cl_ParseBaseline_def Let_def
  by (intro moves_intros reader_intros fwd_ReadDeltaEntity)

lemma moves_ConfigString: "moves (Cl_ParseConfigString cl)"
  unfolding Cl_ParseConfigString_def Let_def by (intro moves_intros reader_intros)

lemma moves_ServerData: "moves (Cl_ParseServerData env cl)"
  unfolding Cl_ParseServerData_def Let_def by (intro moves_intros reader_intros)

lemma moves_Sound: "moves (Cl_ParseSound env cl)"
  unfolding Cl_ParseSound_def Let_def by (intro moves_intros reader_intros fwd_cond fwd_map)

lemma moves_Download: "moves (\<lambda>sb. Cl_ParseDownload env sb cl)"
  unfolding Cl_ParseDownload_def Let_def
  by (intro moves_intros reader_intros, rule movesI)
    (auto simp only: case_prod_beta bindE_eq_Inr prod.inject sum.inject sum.distinct split: if_splits)


lemma fwd_ret: "fwd (\<lambda>sb. (x, sb))"
  by (auto simp: fwd_def intro: exI [of _ 0])

lemma fwd_then:
  assumes "fwd rd" "\<And>x. fwd (f x)"
  shows "fwd (\<lambda>sb. case rd sb of (x, sb) \<Rightarrow> f x sb)"
proof -
  have "\<exists>n. snd (case rd sb of (x, sb) \<Rightarrow> f x sb) = skip_read n sb" for sb
  proof -
    obtain x sb1 where 1: "rd sb = (x, sb1)" by (cases "rd sb")
    then obtain m where "sb1 = skip_read m sb" using assms(1) by (fastforce simp: fwd_def dest: spec [of _ sb])
    moreover obtain n where "snd (f x sb1) = skip_read n sb1" using assms(2) unfolding fwd_def by blast
    ultimately show ?thesis using 1 by auto
  qed
  then show ?thesis by (simp add: fwd_def)
qed

lemma advances_list: "(\<And>f. f \<in> set fs \<Longrightarrow> advances f) \<Longrightarrow> advances (run_reads fs)"
  by (induction fs) (auto intro: advance_intros)

lemma fwd_Playerstate: "fwd (Cl_ParsePlayerstate d ps)"
proof -
  have "advances (run_reads (pm_readers d b))" for b
    unfolding pm_readers_def by (auto intro!: advances_list advance_intros)
  moreover have "advances (run_reads (map (\<lambda>i. rd_field (c i) Net_ReadShort (upd i)) is))" for c upd "is"
    by (auto intro!: advances_list advance_intros)
  ultimately show ?thesis
    unfolding Cl_ParsePlayerstate_def Let_def
    by (intro fwd_then reader_intros fwd_run_reads fwd_ret)
qed

lemma parse_entities_unfold:
  fixes msg :: mem_buf
  defines "m1 \<equiv> skip_read 2 msg"
  defines "num \<equiv> word_of_int (fst (Net_ReadShort msg)) :: uint16"
    and "bits \<equiv> word_of_int (fst (Net_ReadShort m1)) :: uint16"
  shows "parse_entities d cl i k msg =
    (if unat num \<ge> MAX_EDICTS then Inl (Err_Drop ''Bad number'')
     else if read_pos m1 > buf_size m1 then Inl (Err_Drop ''End of message'')
     else if num = 0 then Inr (cl, i, k, m1)
     else bindE (copy_unchanged d num cl i k (skip_read 2 m1)) (\<lambda>(cl, i, k, msg).
       if has_flag bits U_REMOVE then bindE (next_old cl d (i + 1)) (\<lambda>k. parse_entities d cl (i + 1) k msg)
       else if k = num then (case d of None \<Rightarrow> Inl Bad_Access | Some f \<Rightarrow>
         bindE (Cl_ParseDeltaEntity cl (old_ref f i) num bits msg) (\<lambda>(cl, msg). parse_entities d cl (i + 1) (old_number_at cl f (i + 1)) msg))
       else if k > num then bindE (Cl_ParseDeltaEntity cl (Baseline_Of num) num bits msg) (\<lambda>(cl, msg). parse_entities d cl i k msg)
       else parse_entities d cl i k msg))"
  unfolding m1_def num_def bits_def by (subst parse_entities.simps) (simp only: Let_def after_short)

lemma parse_entities_forward:
  "parse_entities d cl i k msg = Inr (cl', i', k', msg') \<Longrightarrow> \<exists>n. msg' = skip_read n msg"
proof (induction "buf_size msg - read_pos msg" arbitrary: cl i k msg rule: less_induct)
  case less
  define m1 where "m1 = skip_read 2 msg"
  define num where "num = (word_of_int (fst (Net_ReadShort msg)) :: uint16)"
  define bits where "bits = (word_of_int (fst (Net_ReadShort m1)) :: uint16)"
  note un = parse_entities_unfold [of d _ _ _ msg, folded m1_def num_def, folded bits_def]
  have room: "read_pos m1 \<le> buf_size m1" using less.prems unfolding un by (simp split: if_splits)
  show ?case
  proof (cases "num = 0")
    case True
    then have "msg' = m1" using less.prems room unfolding un by (simp split: if_splits)
    then show ?thesis unfolding m1_def by blast
  next
    case False
    then obtain c j h m where c: "copy_unchanged d num cl i k (skip_read 2 m1) = Inr (c, j, h, m)"
      and r: "(if has_flag bits U_REMOVE then bindE (next_old c d (j + 1)) (\<lambda>k. parse_entities d c (j + 1) k m)
       else if h = num then (case d of None \<Rightarrow> Inl Bad_Access | Some f \<Rightarrow>
         bindE (Cl_ParseDeltaEntity c (old_ref f j) num bits m) (\<lambda>(cl, msg). parse_entities d cl (j + 1) (old_number_at cl f (j + 1)) msg))
       else if h > num then bindE (Cl_ParseDeltaEntity c (Baseline_Of num) num bits m) (\<lambda>(cl, msg). parse_entities d cl j h msg)
       else parse_entities d c j h m) = Inr (cl', i', k', msg')"
      using less.prems room unfolding un by (auto simp: bindE_eq_Inr split: if_splits)
    obtain n where m: "m = skip_read n (skip_read 2 m1)" using copy_unchanged_forward [OF c] by blast
    have go: "\<exists>p. msg' = skip_read p msg"
      if q: "parse_entities d c2 j2 h2 (skip_read p m) = Inr (cl', i', k', msg')" for c2 j2 h2 p
    proof -
      have "buf_size (skip_read p m) - read_pos (skip_read p m) < buf_size msg - read_pos msg"
        using room unfolding m m1_def by simp
      from less.hyps [OF this q] obtain z where "msg' = skip_read z (skip_read p m)" by blast
      then show ?thesis unfolding m m1_def by auto
    qed
    have go0: "\<exists>p. msg' = skip_read p msg"
      if "parse_entities d c2 j2 h2 m = Inr (cl', i', k', msg')" for c2 j2 h2
      using go [of c2 j2 h2 0] that by simp
    show ?thesis
    proof (cases d)
      case None
      show ?thesis
        using r [unfolded None] go0 [unfolded None]
        by (auto simp: bindE_eq_Inr split: if_splits dest!: Cl_ParseDeltaEntity_forward go [unfolded None])
    next
      case (Some f)
      show ?thesis
        using r [unfolded Some] go0 [unfolded Some]
        by (auto simp: bindE_eq_Inr split: if_splits dest!: Cl_ParseDeltaEntity_forward go [unfolded Some])
    qed
  qed
qed

lemma moves_Entities: "moves (Cl_ParseEntities d cl)"
proof (rule movesI)
  fix sb x sb' assume "Cl_ParseEntities d cl sb = Inr (x, sb')"
  then obtain c c2 i i2 k k2 m where "parse_entities d c 0 (case d of None \<Rightarrow> 0xffff | Some f \<Rightarrow> old_number_at c f 0) sb = Inr (c2, i, k, m)"
    "copy_unchanged d 0xffff c2 i k m = Inr (x, i2, k2, sb')"
    by (auto simp: Cl_ParseEntities_def Let_def bindE_eq_Inr)
  then show "\<exists>n. sb' = skip_read n sb"
    by (auto dest!: parse_entities_forward copy_unchanged_forward)
qed

lemma moves_area_bits: "moves (read_area_bits area)"
  unfolding read_area_bits_def Let_def by (intro moves_intros reader_intros)

lemma moves_Frame: "moves (Cl_ParseFrame cl)"
  unfolding Cl_ParseFrame_def Let_def
  by (intro moves_intros reader_intros moves_area_bits moves_Entities fwd_Playerstate)

lemma moves_parse_frame: "moves (parse_frame env cl)"
  unfolding parse_frame_def by (intro moves_intros moves_Frame)

lemma moves_game: "moves (\<lambda>sb. case parse_game env c sb cl of
    None \<Rightarrow> if old \<ge> 11 then Inl Bad_Access else Inl e
  | Some r \<Rightarrow> bindE r (\<lambda>(n, cl). Inr (cl, skip_read n sb)))"
  by (rule movesI) (auto simp: bindE_eq_Inr split: option.splits if_splits)

lemma moves_server_cmd: "moves (server_cmd env c old cl)"
  unfolding server_cmd_def
  by (intro moves_intros moves_Baseline reader_intros moves_ConfigString moves_Download moves_parse_frame moves_ServerData moves_Sound
      moves_game)

lemma server_cmd_forward:
  "server_cmd env c old cl sb = Inr (cl', sb') \<Longrightarrow> read_pos sb \<le> read_pos sb' \<and> buf_size sb' = buf_size sb"
  using moves_server_cmd [of env c old cl, unfolded moves_def, THEN spec, THEN spec, THEN spec, of sb cl' sb'] by auto

function parse_messages :: "cl_env \<Rightarrow> int \<Rightarrow> cl_static \<Rightarrow> mem_buf \<Rightarrow> (cl_static \<times> mem_buf) result" where
  "parse_messages env old_cmd cl sb =
     (if read_pos sb > buf_size sb then Inl (Err_Drop ''Bad server message'')
      else case Net_ReadByte sb of (cmd, sb) \<Rightarrow>
        if cmd = -1 then Inr (cl, sb)
        else bindE (server_cmd env cmd old_cmd cl sb) (\<lambda>(cl, sb). parse_messages env cmd cl sb))"
  by pat_completeness auto

termination
  by (relation "measure (\<lambda>(_, _, _, sb). Suc (buf_size sb) - read_pos sb)")
    (auto simp: Net_ReadByte_def dest!: server_cmd_forward)

declare parse_messages.simps [simp del]

text \<open>The graph of the connection is output; the demo is written from \<open>net_message\<close>.\<close>

definition Cl_ParseServerMessage :: "cl_env \<Rightarrow> cl_static \<Rightarrow> cl_static result" where
  "Cl_ParseServerMessage env cl =
     (let cl = cl\<lparr>byte_counter := byte_counter cl + word_of_nat (buf_size (cls_message cl))\<rparr>
      in bindE (parse_messages env 0 cl (cls_message cl)) (\<lambda>(cl, sb).
           Cl_WriteDemoMessage env sb (cl\<lparr>cls_message := sb\<rparr>)))"

section \<open>Datagrams\<close>

definition Cl_ConnectionlessPacket :: "cl_env \<Rightarrow> cl_static \<Rightarrow> cl_static result" where
  "Cl_ConnectionlessPacket env cl =
     (let sb = snd (Net_ReadLong (Net_BeginReading (cls_message cl)));
          (s, sb) = Net_ReadStringLine sb;
          cl = cl\<lparr>cls_message := sb\<rparr>
      in bindE (Cmd_TokenizeString (cl_var env) (Some s)) (\<lambda>a.
           let c = Cmd_Argv a 0 in
           if c = ''client_connect'' then
             (if cls_state cl = CL_CONNECTED then Inr cl
              else bindE (string_cmd ''new''
                     (cl\<lparr>cls_chan := Netchan_Setup (cl_now env) NS_UDP_CLIENT (cls_from cl) (cl_qport env)\<rparr>)) (\<lambda>cl.
                   Inr (cl\<lparr>cls_state := CL_CONNECTED,
                     download_url := (if Cmd_Argc a = 2 then strlcpy (Cmd_Argv a 1) MAX_OSPATH else [])\<rparr>)))
           else if c = ''info'' then Inr (Cl_ParseServerInfo env cl)
           else if c = ''print'' then
             (case Net_ReadString (cls_message cl) of (s, sb) \<Rightarrow> Inr (log_call (Media ''Com_Print'' s) (cl\<lparr>cls_message := sb\<rparr>)))
           else if c = ''ping'' then cl_oob_print (cls_from cl) ''ack'' cl
           else if c = ''servers'' then Cl_ParseServers env cl
           else if c = ''challenge'' then
             (if cls_state cl \<noteq> CL_CONNECTING then Inr cl
              else Cl_SendConnect env (cl\<lparr>cls_challenge := word_of_int (atoi (Cmd_Argv a 1))\<rparr>))
           else Inr cl))"

definition cl_read_packet :: "cl_env \<Rightarrow> net_addr \<times> mem_buf \<Rightarrow> cl_static \<Rightarrow> cl_static result" where
  "cl_read_packet env = (\<lambda>(adr, msg) cl.
     let cl = cl\<lparr>cls_from := adr, cls_message := msg\<rparr> in
     if first_word msg = -1 then Cl_ConnectionlessPacket env cl
     else if state_value (cls_state cl) \<le> state_value CL_CONNECTING then Inr cl
     else if buf_size msg < 8 then Inr cl
     else if \<not> Net_CompareNetaddr adr (remote_address (cls_chan cl)) then Inr cl
     else
       let (accepted, ch, msg) = Netchan_Process (cl_now env) (cls_chan cl) msg;
           cl = cl\<lparr>cls_chan := ch, cls_message := msg\<rparr>
       in if accepted then Cl_ParseServerMessage env cl else Inr cl)"

definition check_server_timeout :: "cl_env \<Rightarrow> cl_static \<Rightarrow> cl_static result" where
  "check_server_timeout env cl =
     (if state_value (cls_state cl) \<ge> state_value CL_CONNECTED then
        let ttl = cls_real_time cl - last_received (cls_chan cl)
        in if flt (of_int (uint ttl)) > flt (cl_timeout env * 1000) then Cl_Disconnect env cl else Inr cl
      else Inr cl)"

definition Cl_ReadPackets :: "cl_env \<Rightarrow> (net_addr \<times> mem_buf) list \<Rightarrow> cl_static \<Rightarrow> cl_static result" where
  "Cl_ReadPackets env inbox cl =
     bindE (run_seq (map (cl_read_packet env) inbox) cl) (check_server_timeout env)"

section \<open>Movement\<close>

text \<open>\<open>cl.cmds[n & CMD_MASK]\<close>\<close>

definition cmd_slot :: "uint32 \<Rightarrow> nat" where
  "cmd_slot n = unat n mod CMD_BACKUP"

definition cmd_at :: "uint32 \<Rightarrow> cl_static \<Rightarrow> cl_cmd" where
  "cmd_at n cl = cl_cmds cl ! cmd_slot n"

definition set_cmd :: "uint32 \<Rightarrow> cl_cmd \<Rightarrow> cl_static \<Rightarrow> cl_static" where
  "set_cmd n c cl = cl\<lparr>cl_cmds := (cl_cmds cl)[cmd_slot n := c]\<rparr>"

text \<open>\<open>Clamp(delta, 1, 255)\<close> of an unsigned word\<close>

definition clamp_msec :: "uint32 \<Rightarrow> uint8" where
  "clamp_msec d = (if d < 1 then 1 else if d > 255 then 255 else ucast d)"

definition Cl_UpdateCmd :: "cl_env \<Rightarrow> cl_static \<Rightarrow> cl_static" where
  "Cl_UpdateCmd env cl =
     (if cls_state cl \<noteq> CL_ACTIVE then cl
      else
        let c = input env cl (null_cmd\<lparr>msec := clamp_msec (cls_real_time cl - last_move cl)\<rparr>);
            n = outgoing_sequence (cls_chan cl); cc = cmd_at n cl; cmd = cc_cmd cc;
            cmd = \<lparr>msec = msec cmd + msec c, buttons = buttons cmd OR buttons c, cmd_angles = cmd_angles c,
                   forward = forward cmd + forward c, right = right cmd + right c, up = up cmd + up c\<rparr>
        in set_cmd n \<lparr>cc_cmd = cmd, cc_time = cl_time cl, cc_real_time = cls_real_time cl\<rparr>
             (cl\<lparr>last_move := cls_real_time cl\<rparr>))"

definition Cl_InitCmd :: "cl_static \<Rightarrow> cl_static" where
  "Cl_InitCmd cl =
     (let n = outgoing_sequence (cls_chan cl) in set_cmd n ((cmd_at n cl)\<lparr>cc_cmd := null_cmd\<rparr>) cl)"

definition Cl_FinalizeCmd :: "cl_static \<Rightarrow> cl_static" where
  "Cl_FinalizeCmd cl =
     (let n = outgoing_sequence (cls_chan cl); cc = cmd_at n cl
      in set_cmd n (cc\<lparr>cc_cmd := (cc_cmd cc)\<lparr>msec := clamp_msec (packet_delta cl)\<rparr>\<rparr>) cl)"

text \<open>The movement message: the number of the last frame, and the last three commands.\<close>

definition move_writers :: "int \<Rightarrow> user_cmd \<Rightarrow> user_cmd \<Rightarrow> user_cmd \<Rightarrow> (mem_buf \<Rightarrow> mem_buf result) list" where
  "move_writers lf oldest old new =
     [Net_WriteByte CL_CMD_MOVE, Net_WriteLong lf, Net_WriteDeltaUserCmd null_cmd oldest,
      Net_WriteDeltaUserCmd oldest old, Net_WriteDeltaUserCmd old new]"

definition move_message :: "cl_static \<Rightarrow> mem_buf result" where
  "move_message cl =
     (let n = outgoing_sequence (cls_chan cl); f = frame (cl_world cl)
      in run_seq (move_writers (if \<not> cf_valid f \<or> demo_file cl = Some [] then -1 else cf_frame_num f)
             (cc_cmd (cmd_at (n - 2) cl)) (cc_cmd (cmd_at (n - 1) cl)) (cc_cmd (cmd_at n cl)))
           (Mem_InitBuffer (replicate 128 0) 128))"

definition Cl_SendCmd :: "cl_env \<Rightarrow> cl_static \<Rightarrow> cl_static result" where
  "Cl_SendCmd env cl =
     (if state_value (cls_state cl) \<le> state_value CL_CONNECTING then Inr cl
      else if cls_state cl = CL_CONNECTED then
        (if buf_size (message (cls_chan cl)) \<noteq> 0 \<or> cls_real_time cl - last_sent (cls_chan cl) > 1000
         then cl_transmit env [] cl else Inr cl)
      else
        bindE (if user_info_modified cl
               then bindE (cl_write [Net_WriteByte CL_CMD_USER_INFO, Net_WriteString (Some (cl_user_info env))] cl)
                      (\<lambda>cl. Inr (cl\<lparr>user_info_modified := False\<rparr>))
               else Inr cl) (\<lambda>cl.
          let cl = Cl_FinalizeCmd cl in
          bindE (move_message cl) (\<lambda>buf.
          bindE (cl_transmit env (contents buf) cl) (\<lambda>cl.
            Inr (Cl_InitCmd (cl\<lparr>packet_counter := packet_counter cl + 1\<rparr>))))))"

section \<open>A frame\<close>

definition sane_rate :: "vec_t \<Rightarrow> vec_t \<times> bool \<Rightarrow> vec_t \<times> bool" where
  "sane_rate least = (\<lambda>(v, modified).
     (if modified \<and> v > 0 \<and> v < least then least else v, False))"

definition frame_due :: "cl_env \<Rightarrow> vec_t \<Rightarrow> uint32 \<Rightarrow> bool" where
  "frame_due env rt delta =
     (rt \<le> 0 \<or> delta \<ge> word_of_int (trunc (dbl (dbl (1000 * time_scale env) / rt))))"

definition render_part :: "cl_env \<Rightarrow> (net_addr \<times> mem_buf) list \<Rightarrow> cl_static \<Rightarrow> cl_static result" where
  "render_part env inbox cl =
     bindE (Cl_ReadPackets env inbox (log_call (Call ''Cl_UpdateMedia'') cl)) (\<lambda>cl.
       let cl = Cl_UpdateCmd env (log_call (Call ''Cl_HandleEvents'') cl) in
       bindE (Cl_PredictMovement env cl) (\<lambda>p.
         let cl = (if p = None then cl else log_call (Call ''PredictMovement'') cl);
             cl = log_call (Call ''S_Frame'') (log_call (Call ''Cl_UpdateScreen'') cl)
         in Inr (cl\<lparr>render_delta := 0\<rparr>)))"

definition packet_part :: "cl_env \<Rightarrow> cl_static \<Rightarrow> cl_static result" where
  "packet_part env cl =
     bindE (Cl_SendCmd env cl) (\<lambda>cl.
     bindE (Cl_CheckForResend env cl) (\<lambda>cl.
       case curl_poll env cl of (received, err, code, done_ok) \<Rightarrow>
       bindE (Cl_HttpThink env received err code done_ok cl) (\<lambda>cl. Inr (cl\<lparr>packet_delta := 0\<rparr>))))"

definition Cl_Frame :: "cl_env \<Rightarrow> (net_addr \<times> mem_buf) list \<Rightarrow> uint32 \<Rightarrow> cl_static \<Rightarrow> cl_static result" where
  "Cl_Frame env inbox elapsed cl =
     (if cl_dedicated env then Inr cl
      else
        let cl = cl\<lparr>cls_real_time := cl_now env, cl_time := cl_time cl + elapsed, packet_delta := packet_delta cl + elapsed,
              render_delta := render_delta cl + elapsed, max_fps := sane_rate 30 (max_fps cl), max_pps := sane_rate 20 (max_pps cl)\<rparr>;
            cl = (if time_demo env then cl\<lparr>time_demo_start := (if time_demo_start cl = 0 then cls_real_time cl else time_demo_start cl),
                    time_demo_frames := time_demo_frames cl + 1\<rparr> else cl);
            rendering = (time_demo env \<or> frame_due env (fst (max_fps cl)) (render_delta cl));
            packets = (time_demo env \<or> frame_due env (fst (max_pps cl)) (packet_delta cl));
            packets = (if \<not> cl_async env then rendering else packets);
            packets = (packets \<and> rendering \<and> packet_delta cl \<ge> 8 \<and> \<not> (cls_state cl = CL_CONNECTED \<and> packet_delta cl < 16))
        in bindE (if rendering then render_part env inbox cl else Inr cl) (\<lambda>cl.
             if packets \<or> user_info_modified cl then packet_part env cl else Inr cl))"

end
