(* ===== verification/Net_Addr.thy ===== *)
theory Net_Addr
  imports Net_Udp C_Numbers
begin

unbundle bit_operations_syntax

text \<open>
  The addresses of \<open>src/net.c\<close> as text. \<open>sys_names\<close> has the calls of the system:
  \<open>inet_addr\<close> reads an address of numbers and dots, \<open>gethostbyname\<close> looks a name up. Addresses and
  ports are words in network order, as a machine with the low byte first has them in memory.
\<close>

record sockaddr_in =
  sin_addr :: uint32
  sin_port :: uint16

record sys_names =
  inet_addr :: "string \<Rightarrow> uint32"
  gethostbyname :: "string \<Rightarrow> uint32 option"

section \<open>Memory\<close>

definition addr_bytes :: "uint32 \<Rightarrow> byte list" where
  "addr_bytes a = [ucast a, ucast (drop_bit 8 a), ucast (drop_bit 16 a), ucast (drop_bit 24 a)]"

definition port_bytes :: "uint16 \<Rightarrow> byte list" where
  "port_bytes p = [ucast p, ucast (drop_bit 8 p)]"

definition htons :: "uint16 \<Rightarrow> uint16" where
  "htons p = push_bit 8 p OR drop_bit 8 p"

section \<open>Conversions\<close>

definition Net_NetAddrToSockaddr :: "net_addr \<Rightarrow> sockaddr_in" where
  "Net_NetAddrToSockaddr a =
     \<lparr>sin_addr = (if addr_type a = NA_BROADCAST then - 1 else if addr_type a = NA_DATAGRAM then addr a else 0),
      sin_port = port a\<rparr>"

definition inet_ntoa :: "uint32 \<Rightarrow> string" where
  "inet_ntoa a = (let b = (\<lambda>i. decimal (unat (addr_bytes a ! i))) in b 0 @ ''.'' @ b 1 @ ''.'' @ b 2 @ ''.'' @ b 3)"

definition Net_NetaddrToString :: "net_addr \<Rightarrow> string" where
  "Net_NetaddrToString a = inet_ntoa (addr a) @ '':'' @ decimal (unat (htons (port a)))"

text \<open>Every colon cuts the name, the number after the last one is the port.\<close>

fun port_part :: "string \<Rightarrow> uint16 \<Rightarrow> uint16" where
  "port_part [] p = p"
| "port_part (c # s) p = port_part s (if c = CHR '':'' then htons (word_of_int (atoi s)) else p)"

definition Net_StringToSockaddr :: "sys_names \<Rightarrow> string \<Rightarrow> sockaddr_in option" where
  "Net_StringToSockaddr sys s =
     (let copy = take 127 s;
          p = port_part copy 0;
          host = takeWhile (\<lambda>c. c \<noteq> CHR '':'') copy
      in if host \<noteq> [] \<and> 48 \<le> schar (host ! 0) \<and> schar (host ! 0) \<le> 57
         then Some \<lparr>sin_addr = inet_addr sys host, sin_port = p\<rparr>
         else map_option (\<lambda>a. \<lparr>sin_addr = a, sin_port = p\<rparr>) (gethostbyname sys host))"

definition Net_StringToNetaddr :: "sys_names \<Rightarrow> string \<Rightarrow> net_addr option" where
  "Net_StringToNetaddr sys s =
     map_option (\<lambda>a. if sin_addr a = net_lo then \<lparr>addr_type = NA_LOOP, addr = sin_addr a, port = 0\<rparr>
         else \<lparr>addr_type = NA_DATAGRAM, addr = sin_addr a, port = sin_port a\<rparr>) (Net_StringToSockaddr sys s)"

section \<open>An address is read back\<close>

text \<open>What \<open>inet_addr\<close> is documented to do, as far as it concerns addresses as \<open>inet_ntoa\<close> prints them.\<close>

definition reads_addresses :: "sys_names \<Rightarrow> bool" where
  "reads_addresses sys \<longleftrightarrow> (\<forall>a. inet_addr sys (inet_ntoa a) = a)"

lemma htons_htons [simp]: "htons (htons p) = p"
  unfolding htons_def by (rule bit_word_eqI) (auto simp: bit_simps)

lemma atoi_decimal:
  assumes "n < 2 ^ 31"
  shows "atoi (decimal n) = int n"
proof -
  have "strtol 10 (decimal n) = int n" using assms by (simp add: strtol_def parts_of_decimal)
  moreover have "sint (word_of_int (int n) :: uint32) = int n"
    using assms by (subst sint_sbintrunc') (simp add: signed_take_bit_int_eq_self)
  ultimately show ?thesis by (simp only: atoi_def)
qed

lemma digits_no_colon: "CHR '':'' \<notin> set (decimal n)"
  using decimal_digits [of n] by auto

lemma port_part_skip: "CHR '':'' \<notin> set s \<Longrightarrow> port_part (s @ t) p = port_part t p"
  by (induction s arbitrary: p) auto

lemma ntoa_chars: "CHR '':'' \<notin> set (inet_ntoa a)"
  using digits_no_colon by (simp add: inet_ntoa_def Let_def)

lemma ntoa_first: "inet_ntoa a \<noteq> []" "48 \<le> schar (inet_ntoa a ! 0)" "schar (inet_ntoa a ! 0) \<le> 57"
proof -
  have d: "48 \<le> (of_char c :: nat) \<and> (of_char c :: nat) \<le> 57" if "c \<in> set (decimal n)" for c n
    using decimal_digits [of n] that by blast
  obtain c cs where c: "decimal (unat (addr_bytes a ! 0)) = c # cs"
    by (cases "decimal (unat (addr_bytes a ! 0))") simp_all
  then have "48 \<le> (of_char c :: nat) \<and> (of_char c :: nat) \<le> 57" using d [of c] by (metis list.set_intros(1))
  moreover have "inet_ntoa a ! 0 = c" using c by (simp add: inet_ntoa_def Let_def)
  moreover have "(of_char c :: int) = int (of_char c)" by (simp add: of_nat_of_char)
  ultimately show "inet_ntoa a \<noteq> []" "48 \<le> schar (inet_ntoa a ! 0)" "schar (inet_ntoa a ! 0) \<le> 57"
    by (simp_all add: inet_ntoa_def Let_def schar_def)
qed

lemma length_decimal: "n < 10 ^ k \<Longrightarrow> length (decimal n) \<le> Suc k"
proof (induction n arbitrary: k rule: decimal.induct)
  case (1 n)
  show ?case
  proof (cases "n < 10")
    case True
    then show ?thesis by (subst decimal.simps) simp
  next
    case False
    then obtain j where k: "k = Suc j" using 1(2) by (cases k) auto
    then have "n div 10 < 10 ^ j" using 1(2) by (simp add: less_mult_imp_div_less mult.commute)
    from 1(1) [OF False this] show ?thesis using False k by (subst decimal.simps) simp
  qed
qed

lemma address_text_short: "length (Net_NetaddrToString a) < 64"
proof -
  have b: "length (decimal (unat b)) \<le> 4" for b :: byte
    using unsigned_less [of b, where 'a = nat] by (intro length_decimal [of _ 3, simplified]) simp
  have p: "length (decimal (unat p)) \<le> 6" for p :: uint16
    using unsigned_less [of p, where 'a = nat] by (intro length_decimal [of _ 5, simplified]) simp
  show ?thesis
    using b [of "addr_bytes (addr a) ! 0"] b [of "addr_bytes (addr a) ! 1"] b [of "addr_bytes (addr a) ! 2"]
      b [of "addr_bytes (addr a) ! 3"] p [of "htons (port a)"]
    unfolding Net_NetaddrToString_def inet_ntoa_def Let_def length_append by simp
qed

lemma address_read_back:
  assumes "reads_addresses sys" and "addr_type a = NA_DATAGRAM" and "addr a \<noteq> net_lo"
  shows "Net_StringToNetaddr sys (Net_NetaddrToString a) = Some a"
proof -
  let ?n = "unat (htons (port a))"
  have t: "take 127 (Net_NetaddrToString a) = Net_NetaddrToString a" using address_text_short [of a] by simp
  have h: "takeWhile (\<lambda>c. c \<noteq> CHR '':'') (Net_NetaddrToString a) = inet_ntoa (addr a)"
    using ntoa_chars [of "addr a"] by (auto simp: Net_NetaddrToString_def takeWhile_append takeWhile_eq_all_conv [THEN iffD2])
  have "port_part (Net_NetaddrToString a) 0 = port_part (decimal ?n @ []) (htons (word_of_int (atoi (decimal ?n))))"
    by (simp add: Net_NetaddrToString_def port_part_skip [OF ntoa_chars])
  also have "\<dots> = htons (word_of_int (atoi (decimal ?n)))" by (subst port_part_skip [OF digits_no_colon]) simp
  also have "\<dots> = port a" using unsigned_less [of "htons (port a)", where 'a = nat] by (simp add: atoi_decimal)
  finally have "port_part (Net_NetaddrToString a) 0 = port a" .
  then show ?thesis
    using t h ntoa_first [of "addr a"] assms
    by (simp add: Net_StringToNetaddr_def Net_StringToSockaddr_def Let_def reads_addresses_def)
qed

section \<open>A system that reads addresses\<close>

fun quad :: "string \<Rightarrow> uint32 \<Rightarrow> uint32 \<Rightarrow> uint32" where
  "quad [] a n = push_bit 24 n OR a"
| "quad (c # s) a n =
     (if c = CHR ''.'' then quad s (drop_bit 8 (push_bit 24 n OR a)) 0 else quad s a (n * 10 + of_nat (digit_val c)))"

lemma quad_digits:
  "CHR ''.'' \<notin> set s \<Longrightarrow> quad (s @ t) a (of_nat n) = quad t a (of_nat (foldl (\<lambda>n c. n * 10 + digit_val c) n s))"
proof (induction s arbitrary: n)
  case (Cons c s)
  then have "quad (s @ t) a (of_nat (n * 10 + digit_val c)) =
      quad t a (of_nat (foldl (\<lambda>n c. n * 10 + digit_val c) (n * 10 + digit_val c) s))"
    by (intro Cons.IH) simp
  moreover have "quad ((c # s) @ t) a (of_nat n) = quad (s @ t) a (of_nat (n * 10 + digit_val c))"
    using Cons.prems by auto
  ultimately show ?case by simp
qed simp

lemma quad_decimal: "quad (decimal n @ t) a 0 = quad t a (of_nat n)"
proof -
  have "CHR ''.'' \<notin> set (decimal n)" using decimal_digits [of n] by auto
  from quad_digits [OF this, of t a 0] show ?thesis by (simp add: foldl_decimal)
qed

lemma quad_ntoa: "quad (inet_ntoa a) 0 0 = a"
proof -
  have "quad (inet_ntoa a) 0 0 = push_bit 24 (ucast (addr_bytes a ! 3)) OR drop_bit 8 (push_bit 24 (ucast (addr_bytes a ! 2)) OR
      drop_bit 8 (push_bit 24 (ucast (addr_bytes a ! 1)) OR drop_bit 8 (push_bit 24 (ucast (addr_bytes a ! 0)))))"
    using quad_decimal [of "unat (addr_bytes a ! 3)" "[]"] by (simp add: inet_ntoa_def Let_def quad_decimal)
  also have "\<dots> = a"
  proof (rule bit_word_eqI)
    fix n assume "n < LENGTH(32)"
    then have "n < 8 \<or> n - 8 < 8 \<and> 8 \<le> n \<and> n < 16 \<or> n - 16 < 8 \<and> 16 \<le> n \<and> n < 24 \<or> n - 24 < 8 \<and> 24 \<le> n \<and> n < 32" by auto
    then show "bit (push_bit 24 (ucast (addr_bytes a ! 3)) OR drop_bit 8 (push_bit 24 (ucast (addr_bytes a ! 2)) OR
        drop_bit 8 (push_bit 24 (ucast (addr_bytes a ! 1)) OR drop_bit 8 (push_bit 24 (ucast (addr_bytes a ! 0)))))  :: uint32) n =
      bit a n" by (elim disjE) (auto simp: addr_bytes_def bit_simps)
  qed
  finally show ?thesis .
qed

definition sample_names :: sys_names where
  "sample_names = \<lparr>inet_addr = (\<lambda>s. quad s 0 0), gethostbyname = (\<lambda>s. None)\<rparr>"

lemma sample_reads: "reads_addresses sample_names"
  by (simp add: reads_addresses_def sample_names_def quad_ntoa)

end
