(* ===== verification/Requests.thy ===== *)
theory Requests
  imports Message_Laws C_Numbers Net_Channel_Laws
begin

text \<open>
  The way of a text request between programs: written as a connectionless datagram, read as
  a line, and taken apart into its words.
\<close>

section \<open>Datagrams\<close>

definition oob_bytes :: "string \<Rightarrow> byte list" where
  "oob_bytes s = replicate 4 255 @ map byte_of_char s"

text \<open>A received datagram\<close>

definition received :: "byte list \<Rightarrow> mem_buf \<Rightarrow> bool" where
  "received bs msg \<longleftrightarrow> wf_buf msg \<and> contents msg = bs"

lemma write_eqs:
  "Net_WriteByte c b = Mem_WriteBuffer [word_of_int c] b"
  "Net_WriteShort n b = Mem_WriteBuffer (short_bytes n) b"
  "Net_WriteLong n b = Mem_WriteBuffer (long_bytes n) b"
  "Net_WriteString s b = Mem_WriteBuffer (string_bytes s) b"
  by (simp_all add: Net_WriteByte_def Net_WriteShort_def Net_WriteLong_def Net_WriteString_def Mem_WriteBuffer_def
      short_bytes_def long_bytes_def string_bytes_def numeral_2_eq_2 numeral_eq_Suc split: option.split)

lemma oob_print_bytes:
  assumes "length s < MAX_MSG_SIZE - 4"
  shows "Netchan_OutOfBandPrint s = Inr (oob_bytes s)"
proof -
  let ?b = "Mem_InitBuffer (replicate MAX_MSG_SIZE 0) MAX_MSG_SIZE"
  have b: "wf_buf ?b" "buf_size ?b = 0" "max_size ?b = MAX_MSG_SIZE" "contents ?b = []"
    by (simp_all add: wf_buf_def) (simp_all add: Mem_InitBuffer_def)
  have four: "long_bytes (-1) = replicate 4 255"
    by (simp add: long_bytes_def numeral_eq_Suc) (code_simp)
  have w: "Net_WriteLong (-1) ?b = Inr (appended (replicate 4 255) ?b)"
    using b by (simp add: write_eqs four Mem_WriteBuffer_fits limits)
  let ?c = "appended (replicate 4 255) ?b"
  have c: "wf_buf ?c" "buf_size ?c = 4" "max_size ?c = MAX_MSG_SIZE" "contents ?c = replicate 4 255"
    using b by (simp_all add: wf_appended contents_appended limits)
  have "Mem_WriteBuffer (map byte_of_char s) ?c = Inr (appended (map byte_of_char s) ?c)"
    using c assms by (simp add: Mem_WriteBuffer_fits limits)
  moreover have "contents (appended (map byte_of_char s) ?c) = oob_bytes s"
    using c assms by (simp add: contents_appended oob_bytes_def limits)
  ultimately show ?thesis
    using w assms by (simp add: Netchan_OutOfBandPrint_def Netchan_OutOfBand_def)
qed

section \<open>Lines\<close>

lemma read_line:
  assumes "plain_string l" "newline \<notin> set l" "length l < n" "wf_buf sb"
    and "unread sb = map byte_of_char l @ tail" "tail = [] \<or> hd tail = byte_of_char newline"
  shows "fst (read_string_loop {10} n sb) = l"
  using assms
proof (induction l arbitrary: n sb)
  case Nil
  then obtain m where n: "n = Suc m" by (cases n) auto
  show ?case
  proof (cases tail)
    case Nil
    then have "buf_size sb \<le> read_pos sb"
      using Nil.prems(4,5) length_contents [of sb] by (simp add: unread_def)
    then show ?thesis using n by (simp add: Net_ReadChar_def)
  next
    case (Cons b bs)
    have ten: "byte_of_char newline = word_of_int 10" by code_simp
    have "unread sb = [word_of_int 10] @ bs" using Nil.prems(5,6) Cons ten by simp
    from char_codec.rd_enc [OF this] show ?thesis using n by simp
  qed
next
  case (Cons c s)
  then obtain m where n: "n = Suc m" by (cases n) auto
  let ?b = "byte_of_char c"
  have u: "unread sb = [word_of_int (uint ?b)] @ map byte_of_char s @ tail" using Cons.prems by simp
  have r: "Net_ReadChar sb = (sint ?b, skip_read 1 sb)" using char_codec.rd_enc [OF u] by simp
  have neq: "sint ?b \<noteq> 0 \<and> sint ?b \<noteq> -1"
    using Cons.prems(1) by (intro sint_byte_neq) (simp_all add: plain_string_def)
  have ten: "sint ?b \<noteq> 10"
  proof
    assume "sint ?b = 10"
    then have "?b = word_of_int 10" by (metis word_of_sint_byte)
    also have "\<dots> = byte_of_char newline" by code_simp
    finally show False using Cons.prems(2) by simp
  qed
  have "fst (read_string_loop {10} m (skip_read 1 sb)) = s"
  proof (rule Cons.IH)
    show "wf_buf (skip_read 1 sb)" using Cons.prems(4) by (simp add: wf_buf_def skip_read_def)
    show "unread (skip_read 1 sb) = map byte_of_char s @ tail" using Cons.prems(5) by simp
  qed (use Cons.prems n in \<open>simp_all add: plain_string_def\<close>)
  moreover have "char_of_byte (word_of_int (sint ?b)) = c" by simp
  ultimately show ?case using n r neq ten by (auto simp: Let_def case_prod_beta)
qed

lemma request_line:
  assumes m: "received (oob_bytes (l @ t)) msg" and t: "t = [] \<or> hd t = newline"
    and l: "plain_string l" "newline \<notin> set l" "length l < MAX_STRING_CHARS - 1"
  shows "fst (Net_ReadStringLine (snd (Net_ReadLong (Net_BeginReading msg)))) = l"
proof -
  have "unread (snd (Net_ReadLong (Net_BeginReading msg))) = map byte_of_char l @ map byte_of_char t"
    using m by (simp add: Net_ReadLong_def received_def oob_bytes_def)
  moreover have "wf_buf (snd (Net_ReadLong (Net_BeginReading msg)))"
    using m by (simp add: Net_ReadLong_def received_def wf_buf_def skip_read_def Net_BeginReading_def)
  moreover have "map byte_of_char t = [] \<or> hd (map byte_of_char t) = byte_of_char newline"
    using t by (cases t) simp_all
  ultimately show ?thesis unfolding Net_ReadStringLine_def
    by (intro read_line [OF l, of "snd (Net_ReadLong (Net_BeginReading msg))" "map byte_of_char t"])
qed

section \<open>Words\<close>

text \<open>The words of a request, of which some are quoted.\<close>

definition piece_text :: "string \<times> bool \<Rightarrow> string" where
  "piece_text p = (if snd p then [quote] @ fst p @ [quote] else fst p)"

fun pieces_text :: "(string \<times> bool) list \<Rightarrow> string" where
  "pieces_text [] = []"
| "pieces_text [p] = piece_text p"
| "pieces_text (p # q # ps) = piece_text p @ CHR '' '' # pieces_text (q # ps)"

definition ok_piece :: "string \<times> bool \<Rightarrow> bool" where
  "ok_piece p \<longleftrightarrow> wf_word (fst p) \<and> (snd p \<or> plain (fst p))"

lemma piece_first:
  assumes "ok_piece p"
  shows "piece_text p \<noteq> []" "\<not> blank (hd (piece_text p))"
  using assms by (auto simp: ok_piece_def piece_text_def wf_word_def plain_def)

lemma ParseToken_piece:
  assumes p: "ok_piece p" and s: "s = [] \<or> blank (hd s)"
  shows "ParseToken (At (piece_text p @ s)) = Inr (fst p, At s)"
proof (cases "snd p")
  case False
  then show ?thesis using ParseToken_quoted [of "fst p" s] p s by (simp add: ok_piece_def piece_text_def quoted_def)
next
  case True
  have w: "quote \<notin> set (fst p)" "length (fst p) < MAX_TOKEN_CHARS" using p by (simp_all add: ok_piece_def wf_word_def)
  have "takeWhile (\<lambda>c. c \<noteq> quote) (fst p @ quote # s) = fst p" "dropWhile (\<lambda>c. c \<noteq> quote) (fst p @ quote # s) = quote # s"
    using w(1) by (auto simp: takeWhile_append dropWhile_append takeWhile_eq_all_conv dropWhile_eq_Nil_conv)
  moreover have "skip_white (piece_text p @ s) = piece_text p @ s"
    using True by (subst skip_white.simps) (simp add: piece_text_def comment_def Let_def)
  ultimately show ?thesis using True w(2) by (simp add: ParseToken_def piece_text_def Let_def)
qed

lemma tokenize_step:
  assumes p: "ok_piece p" and s: "s = [] \<or> blank (hd s)" and room: "Cmd_Argc a < MAX_STRING_TOKENS"
  shows "\<exists>ar. tokenize cv (piece_text p @ s) a = tokenize cv s \<lparr>argv = argv a @ [fst p], args = ar\<rparr>"
proof -
  let ?t = "piece_text p @ s"
  have t: "dropWhile (\<lambda>c. blank c \<and> c \<noteq> newline) ?t = ?t" "?t \<noteq> []" "hd ?t \<noteq> newline"
    using piece_first [OF p] by (cases "piece_text p"; auto)+
  have w: "fst p \<noteq> []" "hd (fst p) \<noteq> CHR ''$''" "strlcpy (fst p) MAX_TOKEN_CHARS = fst p"
    using p by (auto simp: ok_piece_def wf_word_def strlcpy_def)
  show ?thesis
    using room t w ParseToken_piece [OF p s]
    by (subst tokenize.simps) (cases "Cmd_Argc a = 1"; simp add: Let_def; cases a; auto)
qed

lemma tokenize_blank: "tokenize cv (CHR '' '' # s) a = tokenize cv s a"
proof -
  have "dropWhile (\<lambda>c. blank c \<and> c \<noteq> newline) (CHR '' '' # s) = dropWhile (\<lambda>c. blank c \<and> c \<noteq> newline) s" by simp
  then show ?thesis by (subst (1 2) tokenize.simps) (simp only: Let_def)
qed

lemma tokenize_pieces:
  assumes "\<forall>p \<in> set ps. ok_piece p" and "Cmd_Argc a + length ps \<le> MAX_STRING_TOKENS"
  shows "\<exists>ar. tokenize cv (pieces_text ps) a = Inr \<lparr>argv = argv a @ map fst ps, args = ar\<rparr>"
  using assms
proof (induction ps arbitrary: a rule: pieces_text.induct)
  case 1
  show ?case by (subst tokenize.simps) (cases a; auto)
next
  case (2 p)
  then obtain ar where ar: "tokenize cv (piece_text p @ []) a = tokenize cv [] \<lparr>argv = argv a @ [fst p], args = ar\<rparr>"
    using tokenize_step [of p "[]" a cv] by auto
  have "tokenize cv [] b = Inr b" for b by (subst tokenize.simps) simp
  then show ?case using ar by auto
next
  case (3 p q ps)
  obtain ar where ar: "tokenize cv (piece_text p @ CHR '' '' # pieces_text (q # ps)) a =
      tokenize cv (CHR '' '' # pieces_text (q # ps)) \<lparr>argv = argv a @ [fst p], args = ar\<rparr>"
    using tokenize_step [of p "CHR '' '' # pieces_text (q # ps)" a cv] "3.prems" by auto
  obtain ar' where "tokenize cv (pieces_text (q # ps)) \<lparr>argv = argv a @ [fst p], args = ar\<rparr> =
      Inr \<lparr>argv = (argv a @ [fst p]) @ map fst (q # ps), args = ar'\<rparr>"
    using "3.IH" [of "\<lparr>argv = argv a @ [fst p], args = ar\<rparr>"] "3.prems" by (auto simp: Cmd_Argc_def)
  then show ?case using ar by (simp add: tokenize_blank)
qed

lemma tokenize_request:
  assumes "\<forall>p \<in> set ps. ok_piece p" and "length ps \<le> MAX_STRING_TOKENS" and "length (pieces_text ps) < MAX_STRING_CHARS"
  shows "\<exists>ar. Cmd_TokenizeString cv (Some (pieces_text ps)) = Inr \<lparr>argv = map fst ps, args = ar\<rparr>"
  using tokenize_pieces [OF assms(1), of no_args cv] assms(2,3) by (simp add: Cmd_TokenizeString_def no_args_def Cmd_Argc_def)

lemma decimal_word: "n < 10 ^ 20 \<Longrightarrow> ok_piece (decimal n, b)"
proof -
  assume n: "n < 10 ^ 20"
  have len: "n < 10 ^ k \<Longrightarrow> length (decimal n) \<le> Suc k" for k
  proof (induction n arbitrary: k rule: decimal.induct)
    case (1 n)
    show ?case
    proof (cases "n < 10")
      case True
      then show ?thesis by (subst decimal.simps) simp
    next
      case False
      then obtain j where k: "k = Suc j" using 1(2) by (cases k) auto
      then have "n div 10 < 10 ^ j" using 1(2) by (simp add: less_mult_imp_div_less mult.commute)
      from 1(1) [OF False this] show ?thesis using False k by (subst decimal.simps) simp
    qed
  qed
  have c: "48 \<le> (of_char c :: nat) \<and> (of_char c :: nat) \<le> 57" if "c \<in> set (decimal n)" for c
    using decimal_digits [of n] that by blast
  have ne: "decimal n \<noteq> []" using decimal_head [of n] by (subst decimal.simps) simp
  then have h: "hd (decimal n) \<in> set (decimal n)" by (rule hd_in_set)
  have not_in: "d \<notin> set (decimal n)" if "(of_char d :: nat) < 48 \<or> 57 < (of_char d :: nat)" for d
    using c [of d] that by auto
  have "wf_word (decimal n)"
  proof -
    have "CHR ''$'' \<notin> set (decimal n)" using not_in [of "CHR ''$''"] by simp
    then have "hd (decimal n) \<noteq> CHR ''$''" using h by metis
    moreover have "quote \<notin> set (decimal n)" using not_in [of quote] by simp
    ultimately show ?thesis using len [OF n] ne by (simp add: wf_word_def limits)
  qed
  moreover have "plain (decimal n)"
  proof -
    have "CHR ''/'' \<notin> set (decimal n)" using not_in [of "CHR ''/''"] by simp
    then have "hd (decimal n) \<noteq> CHR ''/''" using h by metis
    then have "\<not> comment (decimal n)" by (cases "decimal n") (simp_all add: comment_def)
    moreover have "\<not> blank d" if "d \<in> set (decimal n)" for d
    proof -
      have "(of_char d :: int) = int (of_char d)" by (simp add: of_nat_of_char)
      then show ?thesis using c [OF that] by (simp add: blank_def schar_def Let_def)
    qed
    ultimately show ?thesis by (auto simp: plain_def)
  qed
  ultimately show ?thesis by (simp add: ok_piece_def)
qed

end
