(* ===== verification/Ms_Master.thy ===== *)
theory Ms_Master
  imports Net_Addr Requests Glob_Match Sv_Connect
begin

text \<open>
  The master server: \<open>src/master/main.c\<close>. A server is referred to by its place in the list.
  \<open>ms_env\<close> has what the system says: the time and the file of the blacklist, if it can be loaded.
\<close>

record ms_server =
  ms_addr :: sockaddr_in
  queued_pings :: uint16
  last_heartbeat :: int
  last_ping :: int
  validated :: bool

record ms_state =
  ms_servers :: "ms_server list"
  ms_out :: "(sockaddr_in \<times> byte list) list"

record ms_env =
  ms_time :: int
  blacklist_file :: "string option"

section \<open>The list\<close>

definition same_server :: "sockaddr_in \<Rightarrow> ms_server \<Rightarrow> bool" where
  "same_server from s \<longleftrightarrow> sin_addr (ms_addr s) = sin_addr from \<and> sin_port (ms_addr s) = sin_port from"

definition Ms_GetServer :: "sockaddr_in \<Rightarrow> ms_state \<Rightarrow> nat option" where
  "Ms_GetServer from st = find_index (same_server from) (ms_servers st)"

definition Ms_DropServer :: "nat \<Rightarrow> ms_state \<Rightarrow> ms_state" where
  "Ms_DropServer i st = st\<lparr>ms_servers := take i (ms_servers st) @ drop (Suc i) (ms_servers st)\<rparr>"

definition ms_send :: "sockaddr_in \<Rightarrow> byte list \<Rightarrow> ms_state \<Rightarrow> ms_state" where
  "ms_send adr bytes st = st\<lparr>ms_out := ms_out st @ [(adr, bytes)]\<rparr>"

text \<open>
  The words of the blacklist, each a pattern. \<open>sscanf\<close> skips white space that the next position does
  not account for, and leaves \<open>line\<close> as it was at the end of the text; at first it has no value.
\<close>

function black_lines :: "nat \<Rightarrow> string \<Rightarrow> string option \<Rightarrow> string \<Rightarrow> bool result" where
  "black_lines n text line ip =
     (if n = 0 then Inr False
      else
        let word = takeWhile (\<lambda>c. \<not> is_space c) (dropWhile is_space text);
            line = (if word = [] then line else Some word)
        in case line of None \<Rightarrow> Inl Bad_Access
           | Some l \<Rightarrow>
               if length l \<ge> 256 then Inl Bad_Access
               else if l = [] \<or> take 2 l = ''//'' \<or> take 1 l = ''#''
               then black_lines (n - (length l + 1)) (drop (length l + 1) text) line ip
               else bindE (GlobMatch (Some l) (Some ip)) (\<lambda>m.
                 if m then Inr True else black_lines (n - (length l + 1)) (drop (length l + 1) text) line ip))"
  by pat_completeness auto

termination
  by (relation "measure fst") auto

declare black_lines.simps [simp del]

definition Ms_BlacklistServer :: "ms_env \<Rightarrow> sockaddr_in \<Rightarrow> bool result" where
  "Ms_BlacklistServer env from =
     (case blacklist_file env of None \<Rightarrow> Inr False
      | Some text \<Rightarrow> black_lines (length text) text None (inet_ntoa (sin_addr from)))"

definition Ms_AddServer :: "ms_env \<Rightarrow> sockaddr_in \<Rightarrow> ms_state \<Rightarrow> ms_state result" where
  "Ms_AddServer env from st =
     (if Ms_GetServer from st \<noteq> None then Inr st
      else bindE (Ms_BlacklistServer env from) (\<lambda>black.
        if black then Inr st
        else Inr (ms_send from (oob_bytes ''ack'')
          (st\<lparr>ms_servers := \<lparr>ms_addr = from, queued_pings = 0, last_heartbeat = ms_time env, last_ping = 0,
             validated = False\<rparr> # ms_servers st\<rparr>))))"

definition Ms_RemoveServer :: "sockaddr_in \<Rightarrow> ms_state \<Rightarrow> ms_state" where
  "Ms_RemoveServer from st =
     (case Ms_GetServer from st of None \<Rightarrow> st | Some i \<Rightarrow> Ms_DropServer i st)"

section \<open>The handlers\<close>

text \<open>
  The loop of \<open>Ms_Frame\<close> from the place \<open>i\<close> on. When it has dropped a server it goes on to read the
  element of the list that \<open>g_list_remove\<close> has freed.
\<close>

function frame_loop :: "int \<Rightarrow> nat \<Rightarrow> ms_state \<Rightarrow> ms_state result" where
  "frame_loop now i st =
     (if i \<ge> length (ms_servers st) then Inr st
      else
        let s = ms_servers st ! i
        in if now - last_heartbeat s > 30 then
             if queued_pings s > 6 then (let st = Ms_DropServer i st in Inl Bad_Access)
             else if now - last_ping s \<ge> 10
             then frame_loop now (i + 1) (ms_send (ms_addr s) (oob_bytes ''ping'')
                    (st\<lparr>ms_servers := (ms_servers st)[i := s\<lparr>queued_pings := queued_pings s + 1, last_ping := now\<rparr>]\<rparr>))
             else frame_loop now (i + 1) st
           else frame_loop now (i + 1) st)"
  by pat_completeness auto

termination
  by (relation "measure (\<lambda>(now, i, st). length (ms_servers st) - i)") (auto simp: ms_send_def)

declare frame_loop.simps [simp del]

definition Ms_Frame :: "ms_env \<Rightarrow> ms_state \<Rightarrow> ms_state result" where
  "Ms_Frame env st = frame_loop (ms_time env) 0 st"

fun write_servers :: "ms_server list \<Rightarrow> mem_buf \<Rightarrow> mem_buf result" where
  "write_servers [] buf = Inr buf"
| "write_servers (s # ss) buf =
     bindE (if validated s
            then bindE (Mem_WriteBuffer (addr_bytes (sin_addr (ms_addr s))) buf) (Mem_WriteBuffer (port_bytes (sin_port (ms_addr s))))
            else Inr buf) (write_servers ss)"

definition MS_BUFFER :: nat where "MS_BUFFER = 0xffff"

definition Ms_GetServers :: "sockaddr_in \<Rightarrow> ms_state \<Rightarrow> ms_state result" where
  "Ms_GetServers from st =
     bindE (Mem_WriteBuffer (oob_bytes ''servers '') (Mem_InitBuffer (replicate MS_BUFFER 0) MS_BUFFER)) (\<lambda>buf.
     bindE (write_servers (ms_servers st) buf) (\<lambda>buf. Inr (ms_send from (contents buf) st)))"

definition Ms_Ack :: "sockaddr_in \<Rightarrow> ms_state \<Rightarrow> ms_state" where
  "Ms_Ack from st =
     (case Ms_GetServer from st of None \<Rightarrow> st
      | Some i \<Rightarrow> st\<lparr>ms_servers := (ms_servers st)[i := (ms_servers st ! i)\<lparr>validated := True, queued_pings := 0\<rparr>]\<rparr>)"

definition Ms_Heartbeat :: "ms_env \<Rightarrow> sockaddr_in \<Rightarrow> ms_state \<Rightarrow> ms_state result" where
  "Ms_Heartbeat env from st =
     (case Ms_GetServer from st of None \<Rightarrow> Ms_AddServer env from st
      | Some i \<Rightarrow> Inr (ms_send (ms_addr (ms_servers st ! i)) (oob_bytes ''ack'')
          (st\<lparr>ms_servers := (ms_servers st)[i := (ms_servers st ! i)\<lparr>last_heartbeat := ms_time env\<rparr>]\<rparr>)))"

text \<open>\<open>g_ascii_strncasecmp\<close> with the length of its second string is zero.\<close>

definition lower :: "char \<Rightarrow> char" where
  "lower c = (if 65 \<le> (of_char c :: nat) \<and> (of_char c :: nat) \<le> 90 then char_of (of_char c + 32 :: nat) else c)"

definition starts :: "string \<Rightarrow> string \<Rightarrow> bool" where
  "starts cmd word \<longleftrightarrow> map lower (take (length word) cmd) = map lower word"

text \<open>
  The command is cut at the end of its line, four bytes are skipped. \<open>bytes\<close> is the datagram in its
  array, which is filled up with zeros.
\<close>

definition ms_command :: "byte list \<Rightarrow> string result" where
  "ms_command bytes =
     (let array = bytes @ replicate (MS_BUFFER - length bytes) 0;
          n = length (takeWhile (\<lambda>b. b \<noteq> 0 \<and> b \<noteq> byte_of_char newline) array)
      in if n \<ge> length array then Inl Bad_Access
         else Inr (map char_of_byte (takeWhile (\<lambda>b. b \<noteq> 0) (drop 4 (array[n := 0])))))"

definition Ms_ParseMessage :: "ms_env \<Rightarrow> sockaddr_in \<Rightarrow> byte list \<Rightarrow> ms_state \<Rightarrow> ms_state result" where
  "Ms_ParseMessage env from bytes st =
     bindE (ms_command bytes) (\<lambda>cmd.
       if starts cmd ''ping'' then Ms_AddServer env from st
       else if starts cmd ''heartbeat'' \<or> starts cmd ''print'' then Ms_Heartbeat env from st
       else if starts cmd ''ack'' then Inr (Ms_Ack from st)
       else if starts cmd ''shutdown'' then Inr (Ms_RemoveServer from st)
       else if starts cmd ''getservers'' \<or> starts cmd ''y'' then Ms_GetServers from st
       else Inr st)"

text \<open>A turn of the loop of \<open>main\<close>, with the datagram that came within a second, if one did.\<close>

definition ms_turn :: "ms_env \<times> (sockaddr_in \<times> byte list) option \<Rightarrow> ms_state \<Rightarrow> ms_state result" where
  "ms_turn turn st =
     (case turn of (env, packet) \<Rightarrow>
       bindE (case packet of None \<Rightarrow> Inr st
              | Some (from, bytes) \<Rightarrow> if length bytes > 4 then Ms_ParseMessage env from (take MS_BUFFER bytes) st else Inr st)
         (Ms_Frame env))"

fun ms_turns :: "(ms_env \<times> (sockaddr_in \<times> byte list) option) list \<Rightarrow> ms_state \<Rightarrow> ms_state result" where
  "ms_turns [] st = Inr st"
| "ms_turns (t # ts) st = bindE (ms_turn t st) (ms_turns ts)"

end
