(* ===== verification/Cl_Samples.thy ===== *)
theory Cl_Samples
  imports Net_Addr Requests Cl_State
begin

text \<open>
  A client to evaluate the definitions on: its environment resolves addresses of numbers, every
  call on files succeeds and no file exists.
\<close>

definition sample_cl_env :: cl_env where
  "sample_cl_env = \<lparr>resolve = Net_StringToNetaddr sample_names, cl_addr_string = Net_NetaddrToString,
     port_server = htons 1998, port_master = htons 1996, cl_qport = 7, cl_user_info = [], cl_var = (\<lambda>v. []), local_server = False,
     time_demo = False, predict = False, cl_now = 5, succeeds = (\<lambda>log c. True), file_length = (\<lambda>log f. None),
     has_sample = (\<lambda>log i. False), cl_dedicated = False, cl_async = False, cl_timeout = 20, time_scale = 1,
     input = (\<lambda>cl cmd. cmd), curl_poll = (\<lambda>cl. ([], [], 0, None)), parse_game = (\<lambda>c msg cl. None)\<rparr>"

definition sample_server_addr :: net_addr where
  "sample_server_addr = \<lparr>addr_type = NA_DATAGRAM, addr = 0x0200000A, port = htons 1998\<rparr>"

definition sample_cl :: cl_static where
  "sample_cl = \<lparr>cls_state = CL_DISCONNECTED, key_dest = KEY_CONSOLE, cls_real_time = 1000, packet_delta = 0, render_delta = 0,
     server_name = [], connect_time = 0, cls_chan = Netchan_Setup 0 NS_UDP_CLIENT sample_server_addr 7, cls_challenge = 0,
     cls_spawn_count = 0, loading = 0, download_url = [],
     cls_download = \<lparr>dl_http = False, dl_file = None, dl_tempname = [], dl_name = []\<rparr>,
     demo_filename = [], demo_file = None, servers = [], broadcast_time = 0, time_demo_frames = 0, time_demo_start = 0,
     packet_counter = 0, byte_counter = 0,
     cl_cmds = replicate CMD_BACKUP \<lparr>cc_cmd = null_cmd, cc_time = 0, cc_real_time = 0\<rparr>, cl_world = zero_cl_client,
     pred_error = Vec3 0 0 0, pred_origins = replicate CMD_BACKUP (Vec3 0 0 0), entity_num = 0, cl_time = 0, server_count = 0,
     third_person = False, cl_config_strings = replicate MAX_CONFIG_STRINGS [], precache_check = 0, last_move = 0,
     http = \<lparr>http_url = [], http_status = 0, http_ready = False, http_success = False, http_error = []\<rparr>,
     user_info_modified = False, max_fps = (0, False), max_pps = (0, False), ignore_string = [], cls_from = sample_server_addr,
     cls_message = Mem_InitBuffer (replicate MAX_MSG_SIZE 0) MAX_MSG_SIZE,
     cl_bufs = \<lparr>cbuf = Mem_InitBuffer (replicate CBUF_CHARS 0) CBUF_CHARS, deferred = replicate CBUF_CHARS 0\<rparr>,
     cls_out = [], calls = []\<rparr>"

text \<open>A datagram of \<open>bs\<close> that has just arrived\<close>

definition arrived :: "byte list \<Rightarrow> mem_buf" where
  "arrived bs = (Mem_InitBuffer (bs @ replicate (MAX_MSG_SIZE - length bs) 0) MAX_MSG_SIZE)\<lparr>buf_size := length bs\<rparr>"

lemma received_arrived: "length bs \<le> MAX_MSG_SIZE \<Longrightarrow> received bs (arrived bs)"
  by (simp add: received_def arrived_def wf_buf_def contents_def Mem_InitBuffer_def)

lemma sample_resolves: "resolve sample_cl_env = Net_StringToNetaddr sample_names"
  by (simp add: sample_cl_env_def)

end
