(* ===== verification/Ms_Laws.thy ===== *)
theory Ms_Laws
  imports Ms_Master Cl_Samples Cl_Servers
begin

text \<open>
  The way of the list of servers: servers register at the master and acknowledge its ping, the
  client asks for the list and has them.
\<close>

section \<open>What the master promises\<close>

text \<open>The addresses that are registered, and those that are listed, after a turn.\<close>

definition asks :: "string \<Rightarrow> byte list \<Rightarrow> bool" where
  "asks word bytes \<longleftrightarrow> length bytes > 4 \<and> (\<exists>cmd. ms_command (take MS_BUFFER bytes) = Inr cmd \<and> starts cmd word)"

text \<open>What the datagrams of the protocol ask for; \<open>print\<close> counts as a heartbeat.\<close>

datatype ms_request = Register | Acknowledge | Leave | Other

definition request_of :: "byte list \<Rightarrow> ms_request" where
  "request_of bytes =
     (if asks ''ping'' bytes \<or> asks ''heartbeat'' bytes \<or> asks ''print'' bytes then Register
      else if asks ''ack'' bytes then Acknowledge
      else if asks ''shutdown'' bytes then Leave else Other)"

definition request_effect :: "ms_env \<Rightarrow> sockaddr_in \<Rightarrow> ms_request \<Rightarrow> (sockaddr_in \<Rightarrow> bool option) \<Rightarrow> sockaddr_in \<Rightarrow> bool option" where
  "request_effect env from rq m =
     (case rq of
        Register \<Rightarrow> if m from = None \<and> Ms_BlacklistServer env from = Inr False then m(from \<mapsto> False) else m
      | Acknowledge \<Rightarrow> if m from = None then m else m(from \<mapsto> True)
      | Leave \<Rightarrow> m(from := None)
      | Other \<Rightarrow> m)"

fun listed_after :: "(ms_env \<times> (sockaddr_in \<times> byte list) option) list \<Rightarrow> (sockaddr_in \<Rightarrow> bool option) \<Rightarrow> sockaddr_in \<Rightarrow> bool option" where
  "listed_after [] m = m"
| "listed_after ((env, None) # ts) m = listed_after ts m"
| "listed_after ((env, Some (from, bytes)) # ts) m = listed_after ts (request_effect env from (request_of bytes) m)"

section \<open>The master keeps the promise\<close>

definition entries :: "ms_state \<Rightarrow> (sockaddr_in \<times> bool) list" where
  "entries st = map (\<lambda>s. (ms_addr s, validated s)) (ms_servers st)"

definition holds_map :: "ms_state \<Rightarrow> (sockaddr_in \<Rightarrow> bool option) \<Rightarrow> bool" where
  "holds_map st m \<longleftrightarrow> distinct (map fst (entries st)) \<and> map_of (entries st) = m"

lemma same_server_iff: "same_server a s \<longleftrightarrow> ms_addr s = a"
  by (cases a; cases "ms_addr s") (auto simp: same_server_def)

lemma find_index_None: "find_index P xs = None \<longleftrightarrow> (\<forall>x \<in> set xs. \<not> P x)"
  by (induction xs) auto

lemma find_index_Some:
  "find_index P xs = Some i \<longleftrightarrow> i < length xs \<and> P (xs ! i) \<and> (\<forall>j < i. \<not> P (xs ! j))"
proof (induction xs arbitrary: i)
  case (Cons x xs)
  show ?case
  proof (cases i)
    case (Suc k)
    have "(\<forall>j < Suc k. \<not> P ((x # xs) ! j)) \<longleftrightarrow> \<not> P x \<and> (\<forall>j < k. \<not> P (xs ! j))"
      by (auto simp: less_Suc_eq_0_disj)
    then show ?thesis using Cons.IH Suc by auto
  qed simp
qed simp

lemma map_of_nth_update:
  assumes "distinct (map fst xs)" and "i < length xs" and "fst (xs ! i) = a"
  shows "map_of (xs[i := (a, v)]) = (map_of xs)(a \<mapsto> v)" "map fst (xs[i := (a, v)]) = map fst xs"
proof -
  show k: "map fst (xs[i := (a, v)]) = map fst xs"
    using assms by (metis fst_conv list_update_id map_update nth_map)
  show "map_of (xs[i := (a, v)]) = (map_of xs)(a \<mapsto> v)"
    using assms
  proof (induction xs arbitrary: i)
    case (Cons x xs)
    show ?case
    proof (cases i)
      case 0
      then show ?thesis using Cons.prems by (auto simp: fun_eq_iff)
    next
      case (Suc j)
      then have "a \<in> fst ` set xs" using Cons.prems by (metis Suc_less_eq imageI length_Cons nth_Cons_Suc nth_mem)
      then have "fst x \<noteq> a" using Cons.prems(1) by (metis distinct.simps(2) list.map(2) list.set_map)
      then show ?thesis using Suc Cons.IH [of j] Cons.prems by (auto simp: fun_eq_iff)
    qed
  qed simp
qed

lemma map_of_nth_remove:
  assumes "distinct (map fst xs)" and "i < length xs" and "fst (xs ! i) = a"
  shows "map_of (take i xs @ drop (Suc i) xs) = (map_of xs)(a := None)"
  using assms
proof (induction xs arbitrary: i)
  case (Cons x xs)
  show ?case
  proof (cases i)
    case 0
    then show ?thesis using Cons.prems by (auto simp: fun_eq_iff map_of_eq_None_iff)
  next
    case (Suc j)
    then have "a \<in> fst ` set xs" using Cons.prems by (metis Suc_less_eq imageI length_Cons nth_Cons_Suc nth_mem)
    then have "fst x \<noteq> a" using Cons.prems(1) by (metis distinct.simps(2) list.map(2) list.set_map)
    then show ?thesis using Suc Cons.IH [of j] Cons.prems by (auto simp: fun_eq_iff)
  qed
qed simp

lemma distinct_nth_remove: "distinct xs \<Longrightarrow> distinct (take i xs @ drop (Suc i) xs)"
  using distinct_take set_take_disj_set_drop_if_distinct [of xs i "Suc i"] by auto

lemma get_server_cases:
  assumes "holds_map st m"
  obtains "Ms_GetServer a st = None" "m a = None"
  | i where "Ms_GetServer a st = Some i" "m a \<noteq> None" "i < length (entries st)" "fst (entries st ! i) = a"
      "ms_addr (ms_servers st ! i) = a" "i < length (ms_servers st)"
proof (cases "Ms_GetServer a st")
  case None
  then have "\<forall>s \<in> set (ms_servers st). ms_addr s \<noteq> a"
    by (simp add: Ms_GetServer_def find_index_None same_server_iff)
  then have "a \<notin> fst ` set (entries st)" by (auto simp: entries_def)
  then have "m a = None" using assms by (metis holds_map_def map_of_eq_None_iff)
  then show ?thesis using None that(1) by simp
next
  case (Some i)
  then have i: "i < length (ms_servers st)" "ms_addr (ms_servers st ! i) = a"
    by (simp_all add: Ms_GetServer_def find_index_Some same_server_iff)
  then have "a \<in> fst ` set (entries st)" by (force simp: entries_def)
  then have "m a \<noteq> None" using assms by (metis holds_map_def map_of_eq_None_iff)
  then show ?thesis using Some i that(2) [of i] by (simp add: entries_def)
qed

lemma entries_simps [simp]:
  "entries (ms_send a b st) = entries st"
  "entries (st\<lparr>ms_out := x\<rparr>) = entries st"
  "entries (st\<lparr>ms_servers := (ms_servers st)[i := s], ms_out := x\<rparr>) = entries (st\<lparr>ms_servers := (ms_servers st)[i := s]\<rparr>)"
  "entries (st\<lparr>ms_servers := (ms_servers st)[i := s]\<rparr>) = (entries st)[i := (ms_addr s, validated s)]"
  "entries (st\<lparr>ms_servers := s # ms_servers st\<rparr>) = (ms_addr s, validated s) # entries st"
  "length (entries st) = length (ms_servers st)"
  by (simp_all add: entries_def ms_send_def map_update)

lemma entry_kept: "i < length (ms_servers st) \<Longrightarrow>
    (entries st)[i := (ms_addr (ms_servers st ! i), validated (ms_servers st ! i))] = entries st"
  by (intro nth_equalityI) (auto simp: entries_def nth_list_update)

lemma add_server_map:
  assumes m: "holds_map st m" and r: "Ms_AddServer env a st = Inr st'"
  shows "holds_map st' (if m a = None \<and> Ms_BlacklistServer env a = Inr False then m(a \<mapsto> False) else m)"
  using m
proof (cases rule: get_server_cases [where a = a])
  case 1
  then obtain black where b: "Ms_BlacklistServer env a = Inr black"
    using r by (auto simp: Ms_AddServer_def bindE_eq_Inr)
  have "a \<notin> fst ` set (entries st)" using 1(2) m by (auto simp: holds_map_def map_of_eq_None_iff)
  then show ?thesis using r 1 b m
    by (cases black) (auto simp: Ms_AddServer_def holds_map_def)
next
  case (2 i)
  then show ?thesis using r m by (auto simp: Ms_AddServer_def)
qed

lemma heartbeat_map:
  assumes m: "holds_map st m" and r: "Ms_Heartbeat env a st = Inr st'"
  shows "holds_map st' (if m a = None \<and> Ms_BlacklistServer env a = Inr False then m(a \<mapsto> False) else m)"
  using m
proof (cases rule: get_server_cases [where a = a])
  case 1
  then show ?thesis using r add_server_map [OF m, of env a st'] by (simp add: Ms_Heartbeat_def)
next
  case (2 i)
  then have "entries st' = entries st" using r entry_kept [of i st] by (auto simp: Ms_Heartbeat_def)
  then show ?thesis using m 2 by (auto simp: holds_map_def)
qed

lemma ack_map:
  assumes m: "holds_map st m"
  shows "holds_map (Ms_Ack a st) (if m a = None then m else m(a \<mapsto> True))"
  using m
proof (cases rule: get_server_cases [where a = a])
  case 1
  then show ?thesis using m by (simp add: Ms_Ack_def)
next
  case (2 i)
  then show ?thesis using m map_of_nth_update [of "entries st" i a True] by (auto simp: Ms_Ack_def holds_map_def)
qed

lemma remove_map:
  assumes m: "holds_map st m"
  shows "holds_map (Ms_RemoveServer a st) (m(a := None))"
  using m
proof (cases rule: get_server_cases [where a = a])
  case 1
  then show ?thesis using m by (simp add: Ms_RemoveServer_def fun_upd_idem)
next
  case (2 i)
  have e: "entries (Ms_DropServer i st) = take i (entries st) @ drop (Suc i) (entries st)"
    by (simp add: entries_def Ms_DropServer_def take_map drop_map)
  have "map fst (take i (entries st) @ drop (Suc i) (entries st)) =
      take i (map fst (entries st)) @ drop (Suc i) (map fst (entries st))" by (simp add: take_map drop_map)
  then show ?thesis using m 2 map_of_nth_remove [of "entries st" i a] distinct_nth_remove [of "map fst (entries st)" i]
    by (simp add: Ms_RemoveServer_def holds_map_def e)
qed

lemma frame_entries: "frame_loop now i st = Inr st' \<Longrightarrow> entries st' = entries st"
proof (induction now i st rule: frame_loop.induct)
  case (1 now i st)
  show ?case
  proof (cases "i < length (ms_servers st)")
    case True
    then show ?thesis using 1 entry_kept [OF True]
      by (subst (asm) (3) frame_loop.simps) (auto simp: Let_def split: if_splits)
  next
    case False
    then show ?thesis using 1(4) by (subst (asm) frame_loop.simps) simp
  qed
qed

text \<open>
  When the code drops a server that does not answer, it reads a list element that is freed: the turns
  that end without an error are those in which no server is overdue.
\<close>

definition overdue :: "int \<Rightarrow> ms_server \<Rightarrow> bool" where
  "overdue now s \<longleftrightarrow> now - last_heartbeat s > 30 \<and> queued_pings s > 6"

lemma frame_loop_fails: "(\<exists>e. frame_loop now i st = Inl e) \<longleftrightarrow> (\<exists>s \<in> set (drop i (ms_servers st)). overdue now s)"
proof (induction now i st rule: frame_loop.induct)
  case (1 now i st)
  show ?case
  proof (cases "i < length (ms_servers st)")
    case True
    then have "drop i (ms_servers st) = ms_servers st ! i # drop (Suc i) (ms_servers st)" by (simp add: Cons_nth_drop_Suc)
    then show ?thesis using 1 True
      by (subst frame_loop.simps) (auto simp: Let_def overdue_def ms_send_def not_less)
  next
    case False
    then show ?thesis by (subst frame_loop.simps) simp
  qed
qed

lemma frame_fails: "(\<exists>e. Ms_Frame env st = Inl e) \<longleftrightarrow> (\<exists>s \<in> set (ms_servers st). overdue (ms_time env) s)"
  using frame_loop_fails [of "ms_time env" 0 st] by (simp add: Ms_Frame_def)

lemma get_servers_entries: "Ms_GetServers a st = Inr st' \<Longrightarrow> entries st' = entries st"
  by (auto simp: Ms_GetServers_def bindE_eq_Inr)

lemma holds_map_cong: "entries st' = entries st \<Longrightarrow> holds_map st m \<Longrightarrow> holds_map st' m"
  by (simp add: holds_map_def)

lemma parse_map:
  assumes m: "holds_map st m" and cmd: "ms_command (take MS_BUFFER bytes) = Inr cmd" "length bytes > 4"
    and r: "Ms_ParseMessage env a (take MS_BUFFER bytes) st = Inr st1"
  shows "holds_map st1 (request_effect env a (request_of bytes) m)"
proof -
  have as: "asks w bytes \<longleftrightarrow> starts cmd w" for w using cmd by (simp add: asks_def)
  have p: "Ms_ParseMessage env a (take MS_BUFFER bytes) st =
      (if starts cmd ''ping'' then Ms_AddServer env a st
       else if starts cmd ''heartbeat'' \<or> starts cmd ''print'' then Ms_Heartbeat env a st
       else if starts cmd ''ack'' then Inr (Ms_Ack a st)
       else if starts cmd ''shutdown'' then Inr (Ms_RemoveServer a st)
       else if starts cmd ''getservers'' \<or> starts cmd ''y'' then Ms_GetServers a st else Inr st)"
    using cmd(1) by (simp only: Ms_ParseMessage_def bindE_simps)
  have rq: "request_of bytes = (if starts cmd ''ping'' \<or> starts cmd ''heartbeat'' \<or> starts cmd ''print'' then Register
      else if starts cmd ''ack'' then Acknowledge else if starts cmd ''shutdown'' then Leave else Other)"
    by (simp only: request_of_def as)
  show ?thesis
  proof (cases "starts cmd ''ping'' \<or> starts cmd ''heartbeat'' \<or> starts cmd ''print''")
    case True
    then have "Ms_AddServer env a st = Inr st1 \<or> Ms_Heartbeat env a st = Inr st1" using r p by argo
    then have "holds_map st1 (if m a = None \<and> Ms_BlacklistServer env a = Inr False then m(a \<mapsto> False) else m)"
      using add_server_map [OF m] heartbeat_map [OF m] by blast
    then show ?thesis using rq True by (simp add: request_effect_def)
  next
    case False
    then have q: "(if starts cmd ''ack'' then Inr (Ms_Ack a st) else if starts cmd ''shutdown'' then Inr (Ms_RemoveServer a st)
       else if starts cmd ''getservers'' \<or> starts cmd ''y'' then Ms_GetServers a st else Inr st) = Inr st1"
      "request_of bytes = (if starts cmd ''ack'' then Acknowledge else if starts cmd ''shutdown'' then Leave else Other)"
      using r p rq by simp_all
    show ?thesis
    proof (cases "starts cmd ''ack'' \<or> starts cmd ''shutdown''")
      case True
      then show ?thesis using q ack_map [OF m, of a] remove_map [OF m, of a]
        by (cases "starts cmd ''ack''") (auto simp: request_effect_def)
    next
      case False
      then have "Ms_GetServers a st = Inr st1 \<or> st1 = st" "request_of bytes = Other" using q by (auto split: if_splits)
      then have "entries st1 = entries st" "request_of bytes = Other" using get_servers_entries by blast+
      then show ?thesis using m by (simp add: request_effect_def holds_map_def)
    qed
  qed
qed

lemma turn_map:
  assumes m: "holds_map st m" and r: "ms_turn t st = Inr st'"
  shows "holds_map st' (listed_after [t] m)"
proof -
  obtain env packet where t: "t = (env, packet)" by (cases t)
  have idle: "holds_map st' m" if "Ms_Frame env st = Inr st'"
    using that m frame_entries by (simp add: Ms_Frame_def holds_map_def)
  show ?thesis
  proof (cases packet)
    case None
    then show ?thesis using r t idle by (simp add: ms_turn_def)
  next
    case (Some p)
    then obtain a bytes where p: "packet = Some (a, bytes)" by (cases p) auto
    show ?thesis
    proof (cases "length bytes > 4")
      case False
      then have "request_of bytes = Other" by (simp add: request_of_def asks_def)
      then show ?thesis using False r t p idle by (simp add: ms_turn_def request_effect_def)
    next
      case True
      then obtain st1 where s1: "Ms_ParseMessage env a (take MS_BUFFER bytes) st = Inr st1" "Ms_Frame env st1 = Inr st'"
        using r t p by (auto simp: ms_turn_def bindE_eq_Inr)
      then obtain cmd where "ms_command (take MS_BUFFER bytes) = Inr cmd"
        by (auto simp: Ms_ParseMessage_def bindE_eq_Inr)
      then have "holds_map st1 (listed_after [t] m)" using parse_map [OF m _ True s1(1)] t p by simp
      moreover have "entries st' = entries st1" using s1(2) frame_entries by (simp add: Ms_Frame_def)
      ultimately show ?thesis by (simp add: holds_map_def)
    qed
  qed
qed

lemma listed_after_Cons: "listed_after (t # ts) m = listed_after ts (listed_after [t] m)"
  by (cases t; cases "snd t") (auto split: prod.split)

lemma turns_map:
  assumes "holds_map st m" and "ms_turns ts st = Inr st'"
  shows "holds_map st' (listed_after ts m)"
  using assms
proof (induction ts arbitrary: st m)
  case (Cons t ts)
  then show ?case using turn_map [of st m t] by (subst listed_after_Cons) (auto simp: bindE_eq_Inr)
qed simp

section \<open>The reply\<close>

definition sock_bytes :: "sockaddr_in \<Rightarrow> byte list" where
  "sock_bytes a = addr_bytes (sin_addr a) @ port_bytes (sin_port a)"

definition listed :: "ms_state \<Rightarrow> sockaddr_in list" where
  "listed st = map ms_addr (filter validated (ms_servers st))"

definition servers_reply :: "ms_state \<Rightarrow> byte list" where
  "servers_reply st = oob_bytes ''servers '' @ concat (map sock_bytes (listed st))"

lemma length_sock_bytes [simp]: "length (sock_bytes a) = 6"
  by (simp add: sock_bytes_def addr_bytes_def port_bytes_def)

lemma length_concat_sock [simp]: "length (concat (map sock_bytes xs)) = 6 * length xs"
  by (induction xs) auto

lemma write_servers_eq:
  assumes "buf_size buf + 6 * length (filter validated ss) \<le> max_size buf"
  shows "write_servers ss buf = Inr (appended (concat (map (sock_bytes \<circ> ms_addr) (filter validated ss))) buf)"
  using assms
proof (induction ss arbitrary: buf)
  case (Cons s ss)
  have l: "length (addr_bytes (sin_addr (ms_addr s))) = 4" "length (port_bytes (sin_port (ms_addr s))) = 2"
    by (simp_all add: addr_bytes_def port_bytes_def)
  show ?case using Cons.prems Cons.IH [of buf] Cons.IH [of "appended (sock_bytes (ms_addr s)) buf"] l
    by (cases "validated s") (auto simp: Mem_WriteBuffer_fits appended_appended sock_bytes_def)
qed simp

lemma get_servers_reply:
  assumes "12 + 6 * length (listed st) \<le> MS_BUFFER"
  shows "Ms_GetServers a st = Inr (ms_send a (servers_reply st) st)"
proof -
  let ?b = "Mem_InitBuffer (replicate MS_BUFFER 0) MS_BUFFER"
  let ?h = "oob_bytes ''servers ''"
  let ?s = "concat (map (sock_bytes \<circ> ms_addr) (filter validated (ms_servers st)))"
  have b: "wf_buf ?b" "buf_size ?b = 0" "max_size ?b = MS_BUFFER" "contents ?b = []"
    by (simp_all add: wf_buf_def) (simp_all add: Mem_InitBuffer_def)
  have h: "length ?h = 12" by (simp add: oob_bytes_def)
  have s: "length ?s = 6 * length (listed st)" "?s = concat (map sock_bytes (listed st))"
    by (simp_all add: listed_def flip: map_map)
  have "Mem_WriteBuffer ?h ?b = Inr (appended ?h ?b)" using b h assms by (simp add: Mem_WriteBuffer_fits)
  moreover have "write_servers (ms_servers st) (appended ?h ?b) = Inr (appended ?s (appended ?h ?b))"
    using b h assms by (intro write_servers_eq) (simp add: listed_def)
  moreover have "contents (appended ?s (appended ?h ?b)) = servers_reply st"
    using b h s assms by (simp add: appended_appended contents_appended servers_reply_def)
  ultimately show ?thesis by (simp add: Ms_GetServers_def)
qed

lemma ms_command_oob:
  assumes "\<forall>c \<in> set s. byte_of_char c \<noteq> 0 \<and> c \<noteq> newline" and "length s + 4 < MS_BUFFER"
  shows "ms_command (oob_bytes s) = Inr s"
proof -
  define zeros where "zeros = replicate (MS_BUFFER - length (oob_bytes s) - 1) (0 :: byte)"
  have a: "oob_bytes s @ replicate (MS_BUFFER - length (oob_bytes s)) 0 = oob_bytes s @ 0 # zeros"
    using assms(2) by (cases "MS_BUFFER - length (oob_bytes s)") (simp_all add: oob_bytes_def zeros_def)
  have ten: "byte_of_char newline = word_of_int 10" by code_simp
  have inj: "byte_of_char c \<noteq> byte_of_char newline" if "c \<noteq> newline" for c
    using that char_of_byte_of_char by metis
  have ok: "\<forall>b \<in> set (oob_bytes s). b \<noteq> 0 \<and> b \<noteq> byte_of_char newline"
  proof
    fix b assume "b \<in> set (oob_bytes s)"
    then consider "b = 255" | c where "c \<in> set s" "b = byte_of_char c" by (auto simp: oob_bytes_def)
    then show "b \<noteq> 0 \<and> b \<noteq> byte_of_char newline" using assms(1) inj by cases (auto simp: ten)
  qed
  have tw: "takeWhile (\<lambda>b. b \<noteq> 0 \<and> b \<noteq> byte_of_char newline) (oob_bytes s @ 0 # zeros) = oob_bytes s"
    using ok by (subst takeWhile_append2) simp_all
  have up: "drop 4 ((oob_bytes s @ 0 # zeros)[length (oob_bytes s) := 0]) = map byte_of_char s @ 0 # zeros"
    by (simp add: list_update_append) (simp add: oob_bytes_def)
  have "takeWhile (\<lambda>b. b \<noteq> 0) (map byte_of_char s @ 0 # zeros) = map byte_of_char s"
    using assms(1) by (subst takeWhile_append2) auto
  then show ?thesis unfolding ms_command_def Let_def a tw up by (simp add: comp_def)
qed

lemma request_served:
  "Ms_ParseMessage env a (oob_bytes ''getservers'') st = Ms_GetServers a st"
proof -
  have "list_all (\<lambda>c. byte_of_char c \<noteq> 0 \<and> c \<noteq> newline) ''getservers''" by code_simp
  then have "ms_command (oob_bytes ''getservers'') = Inr ''getservers''"
    by (intro ms_command_oob) (auto simp: MS_BUFFER_def list_all_iff)
  moreover have "\<not> starts ''getservers'' ''ping''" "\<not> starts ''getservers'' ''heartbeat''" "\<not> starts ''getservers'' ''print''"
    "\<not> starts ''getservers'' ''ack''" "\<not> starts ''getservers'' ''shutdown''" "starts ''getservers'' ''getservers''"
    by code_simp+
  ultimately show ?thesis by (simp add: Ms_ParseMessage_def)
qed

section \<open>The client reads the list\<close>

definition net_of :: "sockaddr_in \<Rightarrow> net_addr" where
  "net_of a = \<lparr>addr_type = NA_DATAGRAM, addr = sin_addr a, port = sin_port a\<rparr>"

definition reachable_addr :: "sockaddr_in \<Rightarrow> bool" where
  "reachable_addr a \<longleftrightarrow> sin_addr a \<noteq> net_lo \<and> sin_port a \<noteq> 0"

lemma dotted_sock: "dotted (sock_bytes a) = Net_NetaddrToString (net_of a)"
proof -
  have "unat (ucast p :: byte) * 256 + unat (ucast (drop_bit 8 p) :: byte) = unat (htons p)" for p :: uint16
  proof -
    have "htons p = push_bit 8 (ucast (ucast p :: byte)) OR ucast (ucast (drop_bit 8 p) :: byte)"
    proof (rule bit_word_eqI)
      fix n assume "n < LENGTH(16)"
      then have "n < 8 \<or> 8 \<le> n \<and> n - 8 < 8 \<and> n < 16" by auto
      then show "bit (htons p) n = bit (push_bit 8 (ucast (ucast p :: byte)) OR ucast (ucast (drop_bit 8 p) :: byte) :: uint16) n"
        by (elim disjE) (auto simp: htons_def bit_simps dest: bit_imp_le_length)
    qed
    also have "\<dots> = push_bit 8 (ucast (ucast p :: byte)) + ucast (ucast (drop_bit 8 p) :: byte)"
      by (rule disjunctive_add [symmetric]) (auto simp: bit_simps)
    finally have "htons p = push_bit 8 (ucast (ucast p :: byte)) + ucast (ucast (drop_bit 8 p) :: byte)" .
    moreover have "unat (push_bit 8 (ucast b) + ucast c :: uint16) = unat b * 256 + unat c" for b c :: byte
    proof -
      have "(push_bit 8 (ucast b) + ucast c :: uint16) = word_of_nat (unat b * 256 + unat c)"
        by (simp add: push_bit_eq_mult)
      moreover have "unat b * 256 + unat c < 65536"
        using unsigned_less [of b, where 'a = nat] unsigned_less [of c, where 'a = nat] by simp
      ultimately show ?thesis by (simp only: unat_of_nat) simp
    qed
    ultimately show ?thesis by simp
  qed
  then show ?thesis
    by (simp add: dotted_def sock_bytes_def Net_NetaddrToString_def inet_ntoa_def Let_def net_of_def addr_bytes_def port_bytes_def
        nth_append)
qed

definition learn :: "cl_env \<Rightarrow> sockaddr_in \<Rightarrow> cl_static \<Rightarrow> cl_static" where
  "learn env a cl = (let (j, c) = known_server env (net_of a) id cl
     in cl\<lparr>servers := servers (set_server j (\<lambda>s. s\<lparr>si_source := SERVER_SOURCE_INTERNET\<rparr>) c)\<rparr>)"

lemma learn_simps [simp]: "cls_message (learn env a cl) = cls_message cl" "cls_out (learn env a cl) = cls_out cl"
  by (simp_all add: learn_def case_prod_beta)

lemma parse_servers_eq:
  assumes "resolve env = Net_StringToNetaddr sys" and "reads_addresses sys" and "\<forall>a \<in> set as. reachable_addr a"
    and "wf_buf (cls_message cl)" and "contents (cls_message cl) = pre @ concat (map sock_bytes as)" and "i = length pre"
  shows "parse_servers env i cl = Inr (fold (learn env) as cl)"
  using assms
proof (induction as arbitrary: pre i cl)
  case Nil
  then have "buf_size (cls_message cl) = i" by (metis append.right_neutral concat.simps(1) length_contents list.map(1))
  then show ?case by (subst parse_servers.simps) simp
next
  case (Cons a as)
  have "length (contents (cls_message cl)) = i + 6 + 6 * length as" using Cons.prems(5,6) by simp
  then have size: "buf_size (cls_message cl) = i + 6 + 6 * length as" using Cons.prems(4) by (metis length_contents)
  have "take 6 (drop i (buf_data (cls_message cl))) = take 6 (drop i (contents (cls_message cl)))"
    using size by (simp add: contents_def drop_take min_def)
  also have "\<dots> = sock_bytes a" using Cons.prems(5,6) by simp
  finally have six: "take 6 (drop i (buf_data (cls_message cl))) = sock_bytes a" .
  have "Net_StringToNetaddr sys (Net_NetaddrToString (net_of a)) = Some (net_of a)"
    using Cons.prems(2,3) by (intro address_read_back) (simp_all add: net_of_def reachable_addr_def)
  then have res: "resolve env (dotted (sock_bytes a)) = Some (net_of a)" using Cons.prems(1) by (simp only: dotted_sock)
  have p: "port (net_of a) \<noteq> 0" using Cons.prems(3) by (simp add: net_of_def reachable_addr_def)
  have "parse_servers env i cl = parse_servers env (i + 6) (learn env a cl)"
    using size six res p by (subst parse_servers.simps) (simp add: Let_def learn_def case_prod_beta)
  also have "\<dots> = Inr (fold (learn env) as (learn env a cl))"
    using Cons.prems by (intro Cons.IH [where pre = "pre @ sock_bytes a"]) simp_all
  finally show ?case by simp
qed

text \<open>The servers that the client has from the internet\<close>

definition internet :: "cl_static \<Rightarrow> sockaddr_in set" where
  "internet cl = (\<lambda>s. \<lparr>sin_addr = addr (si_addr s), sin_port = port (si_addr s)\<rparr>) `
     {s \<in> set (servers cl). si_source s = SERVER_SOURCE_INTERNET}"

lemma image_update:
  assumes "i < length xs" and "k (f (xs ! i)) = k (xs ! i)" and "P (f (xs ! i))"
  shows "k ` {s \<in> set (xs[i := f (xs ! i)]). P s} = insert (k (xs ! i)) (k ` {s \<in> set xs. P s})"
proof -
  obtain ys x zs where xs: "xs = ys @ x # zs" "length ys = i" using assms(1) by (metis id_take_nth_drop length_take min.absorb4)
  then have "xs[i := f (xs ! i)] = ys @ f x # zs" "xs ! i = x" by auto
  moreover have "{s \<in> set (ys @ f x # zs). P s} = insert (f x) {s \<in> set (ys @ zs). P s}" using assms(3) calculation(2) by auto
  moreover have "{s \<in> set (ys @ x # zs). P s} = (if P x then insert x {s \<in> set (ys @ zs). P s} else {s \<in> set (ys @ zs). P s})"
    by auto
  ultimately show ?thesis using xs(1) assms(2) by simp
qed

lemma learn_internet: "internet (learn env a cl) = insert a (internet cl)"
proof -
  let ?k = "\<lambda>s. \<lparr>sin_addr = addr (si_addr s), sin_port = port (si_addr s)\<rparr>"
  let ?f = "\<lambda>s. s\<lparr>si_source := SERVER_SOURCE_INTERNET\<rparr>"
  show ?thesis
  proof (cases "Cl_ServerForNetaddr (net_of a) cl")
    case None
    then obtain s where s: "servers (learn env a cl) = s # servers cl" "si_source s = SERVER_SOURCE_INTERNET" "?k s = a"
      by (cases a) (auto simp: learn_def known_server_def set_server_def Cl_AddServer_def net_of_def)
    have "{x \<in> set (s # servers cl). si_source x = SERVER_SOURCE_INTERNET} =
        insert s {x \<in> set (servers cl). si_source x = SERVER_SOURCE_INTERNET}" using s(2) by auto
    then show ?thesis using s(1,3) by (simp only: internet_def image_insert)
  next
    case (Some i)
    then have i: "i < length (servers cl)" "?k (servers cl ! i) = a"
      by (cases a; auto simp: Cl_ServerForNetaddr_def find_index_Some Net_CompareNetaddr_def net_of_def)+
    then show ?thesis using Some image_update [where k = ?k and f = ?f and P = "\<lambda>s. si_source s = SERVER_SOURCE_INTERNET", OF i(1)]
      by (simp add: learn_def known_server_def set_server_def internet_def)
  qed
qed

lemma fold_learn_internet: "internet (fold (learn env) as cl) = set as \<union> internet cl"
  by (induction as arbitrary: cl) (auto simp: learn_internet)

lemma fold_learn_simps [simp]:
  "cls_message (fold (learn env) as cl) = cls_message cl" "cls_out (fold (learn env) as cl) = cls_out cl"
  by (induction as arbitrary: cl) auto

lemma info_oob: "Netchan_OutOfBandPrint info_request = Inr (oob_bytes info_request)"
proof -
  have "length info_request < 100" by code_simp
  then show ?thesis by (intro oob_print_bytes) (simp add: limits)
qed

lemma ping_servers_eq:
  "\<exists>ss'. ping_servers ss cl = Inr (cl\<lparr>servers := servers cl @ ss', cls_out := cls_out cl @
      map (\<lambda>s. (si_addr s, oob_bytes info_request)) (filter (\<lambda>s. si_source s = SERVER_SOURCE_INTERNET) ss)\<rparr>) \<and>
    map (\<lambda>s. (si_addr s, si_source s)) ss' = map (\<lambda>s. (si_addr s, si_source s)) ss"
proof (induction ss arbitrary: cl)
  case Nil
  then show ?case by (intro exI [of _ "[]"]) simp
next
  case (Cons s ss)
  let ?s = "if si_source s = SERVER_SOURCE_INTERNET then s\<lparr>si_ping_time := cls_real_time cl, si_ping := 0\<rparr> else s"
  show ?case
  proof (cases "si_source s = SERVER_SOURCE_INTERNET")
    case True
    then show ?thesis
      using Cons.IH [of "cl\<lparr>cls_out := cls_out cl @ [(si_addr s, oob_bytes info_request)], servers := servers cl @ [?s]\<rparr>"]
      by (force simp: cl_oob_print_def info_oob)
  next
    case False
    then show ?thesis using Cons.IH [of "cl\<lparr>servers := servers cl @ [?s]\<rparr>"] by force
  qed
qed

lemma ping_order:
  assumes "map (\<lambda>s. (si_addr s, si_source s)) xs = map (\<lambda>s. (si_addr s, si_source s)) ys"
  shows "map (\<lambda>s. (si_addr s, b)) (filter (\<lambda>s. si_source s = SERVER_SOURCE_INTERNET) xs) =
      map (\<lambda>s. (si_addr s, b)) (filter (\<lambda>s. si_source s = SERVER_SOURCE_INTERNET) ys)"
    "(\<lambda>s. \<lparr>sin_addr = addr (si_addr s), sin_port = port (si_addr s)\<rparr>) ` {s \<in> set xs. si_source s = SERVER_SOURCE_INTERNET} =
      (\<lambda>s. \<lparr>sin_addr = addr (si_addr s), sin_port = port (si_addr s)\<rparr>) ` {s \<in> set ys. si_source s = SERVER_SOURCE_INTERNET}"
proof -
  have len: "length xs = length ys" using assms by (metis length_map)
  show "map (\<lambda>s. (si_addr s, b)) (filter (\<lambda>s. si_source s = SERVER_SOURCE_INTERNET) xs) =
      map (\<lambda>s. (si_addr s, b)) (filter (\<lambda>s. si_source s = SERVER_SOURCE_INTERNET) ys)"
    using len assms by (induction xs ys rule: list_induct2) auto
  have pairs: "(\<lambda>s. \<lparr>sin_addr = addr (si_addr s), sin_port = port (si_addr s)\<rparr>) ` {s \<in> set zs. si_source s = SERVER_SOURCE_INTERNET} =
      (\<lambda>(a, _). \<lparr>sin_addr = addr a, sin_port = port a\<rparr>) `
        {p \<in> set (map (\<lambda>s. (si_addr s, si_source s)) zs). snd p = SERVER_SOURCE_INTERNET}" for zs
    by (force simp: image_iff)
  show "(\<lambda>s. \<lparr>sin_addr = addr (si_addr s), sin_port = port (si_addr s)\<rparr>) ` {s \<in> set xs. si_source s = SERVER_SOURCE_INTERNET} =
      (\<lambda>s. \<lparr>sin_addr = addr (si_addr s), sin_port = port (si_addr s)\<rparr>) ` {s \<in> set ys. si_source s = SERVER_SOURCE_INTERNET}"
    by (simp only: pairs assms)
qed

lemma reply_read:
  assumes "resolve env = Net_StringToNetaddr sys" and "reads_addresses sys" and "\<forall>a \<in> set (listed st). reachable_addr a"
    and "received (servers_reply st) (cls_message cl)"
  shows "\<exists>cl'. Cl_ParseServers env cl = Inr cl' \<and> internet cl' = set (listed st) \<union> internet cl \<and>
    cls_out cl' = cls_out cl @ map (\<lambda>s. (si_addr s, oob_bytes info_request))
      (filter (\<lambda>s. si_source s = SERVER_SOURCE_INTERNET) (servers cl'))"
proof -
  let ?l = "fold (learn env) (listed st) cl"
  have p: "parse_servers env 12 cl = Inr ?l"
    using assms(4) by (intro parse_servers_eq [OF assms(1-3), where pre = "oob_bytes ''servers ''"])
      (simp_all add: received_def servers_reply_def oob_bytes_def)
  let ?m = "?l\<lparr>cls_message := (cls_message ?l)\<lparr>read_pos := buf_size (cls_message ?l)\<rparr>, servers := []\<rparr>"
  obtain ss where ss: "ping_servers (servers ?l) ?m = Inr (?m\<lparr>servers := servers ?m @ ss, cls_out := cls_out ?m @
        map (\<lambda>s. (si_addr s, oob_bytes info_request)) (filter (\<lambda>s. si_source s = SERVER_SOURCE_INTERNET) (servers ?l))\<rparr>)"
      "map (\<lambda>s. (si_addr s, si_source s)) ss = map (\<lambda>s. (si_addr s, si_source s)) (servers ?l)"
    using ping_servers_eq [of "servers ?l" ?m] by auto
  have "internet ?l = set (listed st) \<union> internet cl" by (rule fold_learn_internet)
  then have "(\<lambda>s. \<lparr>sin_addr = addr (si_addr s), sin_port = port (si_addr s)\<rparr>) ` {s \<in> set ss. si_source s = SERVER_SOURCE_INTERNET} =
      set (listed st) \<union> internet cl" using ping_order(2) [OF ss(2)] by (simp only: internet_def)
  then show ?thesis using p ss(1) ping_order(1) [OF ss(2), of "oob_bytes info_request"]
    unfolding Cl_ParseServers_def by (simp add: internet_def)
qed

section \<open>The whole way\<close>

definition no_servers :: ms_state where
  "no_servers = \<lparr>ms_servers = [], ms_out = []\<rparr>"

lemma listed_set:
  assumes "holds_map st m"
  shows "set (listed st) = {a. m a = Some True}" "length (listed st) = card {a. m a = Some True}"
proof -
  have d: "distinct (map fst (entries st))" "map_of (entries st) = m" using assms by (simp_all add: holds_map_def)
  have "m a = Some True \<longleftrightarrow> (a, True) \<in> set (entries st)" for a using d by (metis map_of_eq_Some_iff)
  then show s: "set (listed st) = {a. m a = Some True}" by (auto simp: listed_def entries_def)
  have "distinct (map ms_addr (ms_servers st))" using d(1) by (simp add: entries_def comp_def)
  then have "distinct (listed st)" by (simp add: listed_def distinct_map_filter)
  then show "length (listed st) = card {a. m a = Some True}" using s distinct_card by metis
qed

section \<open>A server that registers\<close>

definition sample_ms_env :: ms_env where
  "sample_ms_env = \<lparr>ms_time = 0, blacklist_file = None\<rparr>"

definition sample_listed :: sockaddr_in where
  "sample_listed = \<lparr>sin_addr = 0x0200000A, sin_port = htons 1998\<rparr>"

definition sample_turns :: "(ms_env \<times> (sockaddr_in \<times> byte list) option) list" where
  "sample_turns = [(sample_ms_env, Some (sample_listed, oob_bytes ''heartbeat'')),
     (sample_ms_env, Some (sample_listed, oob_bytes ''ack''))]"

lemma sample_commands:
  "ms_command (oob_bytes ''heartbeat'') = Inr ''heartbeat''" "ms_command (oob_bytes ''ack'') = Inr ''ack''"
proof -
  have "list_all (\<lambda>c. byte_of_char c \<noteq> 0 \<and> c \<noteq> newline) ''heartbeat''"
    "list_all (\<lambda>c. byte_of_char c \<noteq> 0 \<and> c \<noteq> newline) ''ack''" by code_simp+
  then show "ms_command (oob_bytes ''heartbeat'') = Inr ''heartbeat''" "ms_command (oob_bytes ''ack'') = Inr ''ack''"
    by (auto intro!: ms_command_oob simp: MS_BUFFER_def list_all_iff)
qed

lemma sample_starts:
  "starts ''heartbeat'' ''heartbeat''" "\<not> starts ''heartbeat'' ''ping''" "\<not> starts ''ack'' ''ping''"
  "\<not> starts ''ack'' ''heartbeat''" "\<not> starts ''ack'' ''print''" "starts ''ack'' ''ack''"
  by code_simp+

lemma sample_take [simp]: "take MS_BUFFER (oob_bytes ''heartbeat'') = oob_bytes ''heartbeat''"
  "take MS_BUFFER (oob_bytes ''ack'') = oob_bytes ''ack''"
  "4 < length (oob_bytes ''heartbeat'')" "4 < length (oob_bytes ''ack'')"
  by (simp_all add: MS_BUFFER_def oob_bytes_def)

lemma sample_listed_after: "listed_after sample_turns Map.empty = [sample_listed \<mapsto> True]"
proof -
  have "request_of (oob_bytes ''heartbeat'') = Register" "request_of (oob_bytes ''ack'') = Acknowledge"
    using sample_commands sample_starts by (simp_all add: request_of_def asks_def)
  then show ?thesis
    by (simp add: sample_turns_def request_effect_def Ms_BlacklistServer_def sample_ms_env_def)
qed

lemma sample_runs: "\<exists>st. ms_turns sample_turns no_servers = Inr st"
  using sample_commands sample_starts
  by (simp add: sample_turns_def no_servers_def ms_turn_def Ms_ParseMessage_def Ms_Heartbeat_def Ms_GetServer_def Ms_AddServer_def
      Ms_BlacklistServer_def sample_ms_env_def Ms_Frame_def frame_loop.simps ms_send_def Ms_Ack_def same_server_iff)

lemma sample_reply_short:
  assumes "ms_turns sample_turns no_servers = Inr st"
    and "Ms_ParseMessage env a (oob_bytes ''getservers'') st = Inr (ms_send a bytes st)"
  shows "length bytes \<le> MAX_MSG_SIZE"
proof -
  have "holds_map no_servers Map.empty" by (simp add: holds_map_def entries_def no_servers_def)
  from listed_set(2) [OF turns_map [OF this assms(1)]] have l: "length (listed st) = 1"
    by (simp add: sample_listed_after)
  then have "Ms_GetServers a st = Inr (ms_send a (servers_reply st) st)"
    by (intro get_servers_reply) (simp add: MS_BUFFER_def)
  then have "ms_out (ms_send a bytes st) = ms_out (ms_send a (servers_reply st) st)" using assms(2) by (simp add: request_served)
  then have "bytes = servers_reply st" by (simp add: ms_send_def)
  then show ?thesis using l by (simp add: servers_reply_def oob_bytes_def limits)
qed

text \<open>
  C35: The list of servers, from the master to the client. After a run of the master in which each
  turn ends without an error, so that no server is ever overdue (30 seconds without a heartbeat and more
  than six pings unanswered, \<open>frame_fails\<close>: there the code drops the server and reads memory it has freed,
  so a time-out is not part of what is promised), it answers a client's request with one datagram, and a
  client that reads it has on its list, as servers of the internet, those it had and
  exactly the addresses that have registered, have acknowledged a ping and have not left since, and it asks
  each of them for its info; as long as the addresses fit the master's buffer, none of them is a
  loopback address or has the port 0, at which the client stops reading, the client has received the whole
  datagram, and the system reads a dotted address as the number it stands for.
\<close>

theorem servers_listed:
  assumes "ms_turns ts no_servers = Inr st"
    and "12 + 6 * card {a. listed_after ts Map.empty a = Some True} \<le> MS_BUFFER"
    and "\<forall>a. listed_after ts Map.empty a = Some True \<longrightarrow> reachable_addr a"
    and "resolve env = Net_StringToNetaddr sys" and "reads_addresses sys"
  shows "\<exists>bytes. Ms_ParseMessage menv c (oob_bytes ''getservers'') st = Inr (ms_send c bytes st) \<and>
    (\<forall>cl. received bytes (cls_message cl) \<longrightarrow> (\<exists>cl'. Cl_ParseServers env cl = Inr cl' \<and>
      internet cl' = {a. listed_after ts Map.empty a = Some True} \<union> internet cl \<and>
      cls_out cl' = cls_out cl @ map (\<lambda>s. (si_addr s, oob_bytes info_request))
        (filter (\<lambda>s. si_source s = SERVER_SOURCE_INTERNET) (servers cl'))))"
proof -
  have "holds_map no_servers Map.empty" by (simp add: holds_map_def entries_def no_servers_def)
  note l = listed_set [OF turns_map [OF this assms(1)]]
  have "Ms_ParseMessage menv c (oob_bytes ''getservers'') st = Inr (ms_send c (servers_reply st) st)"
    using get_servers_reply [of st c] assms(2) l(2) by (simp add: request_served)
  then show ?thesis using reply_read [OF assms(4,5), of st] assms(3) l(1) by auto
qed

theorem servers_listed_witness:
  "\<exists>st bytes cl'. ms_turns sample_turns no_servers = Inr st \<and>
    Ms_ParseMessage sample_ms_env sample_listed (oob_bytes ''getservers'') st = Inr (ms_send sample_listed bytes st) \<and>
    Cl_ParseServers sample_cl_env (sample_cl\<lparr>cls_message := arrived bytes\<rparr>) = Inr cl' \<and> internet cl' = {sample_listed}"
proof -
  obtain st where st: "ms_turns sample_turns no_servers = Inr st" using sample_runs by blast
  have l: "{a. listed_after sample_turns Map.empty a = Some True} = {sample_listed}"
    by (auto simp: sample_listed_after split: if_splits)
  have "reachable_addr sample_listed"
    unfolding reachable_addr_def sample_listed_def net_lo_def by code_simp
  then have r: "\<forall>a. listed_after sample_turns Map.empty a = Some True \<longrightarrow> reachable_addr a"
    by (simp add: sample_listed_after)
  have "12 + 6 * card {a. listed_after sample_turns Map.empty a = Some True} \<le> MS_BUFFER" by (simp add: l MS_BUFFER_def)
  from servers_listed [OF st this r sample_resolves sample_reads, of sample_ms_env sample_listed]
  obtain bytes where b: "Ms_ParseMessage sample_ms_env sample_listed (oob_bytes ''getservers'') st = Inr (ms_send sample_listed bytes st)"
    "\<And>cl. received bytes (cls_message cl) \<Longrightarrow> \<exists>cl'. Cl_ParseServers sample_cl_env cl = Inr cl' \<and>
      internet cl' = {sample_listed} \<union> internet cl"
    unfolding l by blast
  have "length bytes \<le> MAX_MSG_SIZE" using sample_reply_short [OF st b(1)] .
  then have "received bytes (cls_message (sample_cl\<lparr>cls_message := arrived bytes\<rparr>))" by (simp add: received_arrived)
  moreover have "internet (sample_cl\<lparr>cls_message := arrived bytes\<rparr>) = {}" by (simp add: internet_def sample_cl_def)
  ultimately show ?thesis using st b(1) b(2) [of "sample_cl\<lparr>cls_message := arrived bytes\<rparr>"] by auto
qed

end
