(* ===== verification/Sv_Connect_Laws.thy ===== *)
theory Sv_Connect_Laws
  imports Sv_Main Sv_Send_Stays Requests
begin

text \<open>
  What the challenges are for: a client gets in only with the number that was sent to its
  address, and only once.
\<close>

lemma on_run_host: "on_run f h = Inr h' \<Longrightarrow> \<exists>s. h' = h\<lparr>srv := s\<rparr>"
  by (auto simp: on_run_def bindE_eq_Inr)

lemma oob_print_host:
  "oob_print adr str h = Inr h' \<Longrightarrow>
    \<exists>bytes. h' = h\<lparr>srv := (srv h)\<lparr>packets_out := packets_out (srv h) @ [(adr, bytes)]\<rparr>\<rparr>"
  by (auto simp: oob_print_def bindE_eq_Inr)

lemma accept_host: "accept_client env adr qp info i h = Inr h' \<Longrightarrow> \<exists>s. h' = h\<lparr>srv := s\<rparr>"
  unfolding accept_client_def
  by (auto simp: bindE_eq_Inr Let_def split: if_splits dest!: on_run_host oob_print_host)

text \<open>The place of the first challenge of an address\<close>

lemma check_challenge_good:
  "check_challenge adr c i cs = Good j \<longleftrightarrow>
    (\<exists>k < length cs. j = i + k \<and> Net_CompareClientNetaddr adr (ch_addr (cs ! k)) \<and> ch_challenge (cs ! k) = c \<and>
      (\<forall>l < k. \<not> Net_CompareClientNetaddr adr (ch_addr (cs ! l))))"
proof (induction adr c i cs rule: check_challenge.induct)
  case (1 adr c i)
  then show ?case by simp
next
  case (2 adr ch i c cs)
  show ?case
  proof (cases "Net_CompareClientNetaddr adr (ch_addr c)")
    case True
    have "(\<exists>k < length (c # cs). j = i + k \<and> Net_CompareClientNetaddr adr (ch_addr ((c # cs) ! k)) \<and>
        ch_challenge ((c # cs) ! k) = ch \<and> (\<forall>l < k. \<not> Net_CompareClientNetaddr adr (ch_addr ((c # cs) ! l)))) \<longleftrightarrow>
      j = i \<and> ch_challenge c = ch"
    proof
      assume "\<exists>k < length (c # cs). j = i + k \<and> Net_CompareClientNetaddr adr (ch_addr ((c # cs) ! k)) \<and>
        ch_challenge ((c # cs) ! k) = ch \<and> (\<forall>l < k. \<not> Net_CompareClientNetaddr adr (ch_addr ((c # cs) ! l)))"
      then obtain k where k: "j = i + k" "ch_challenge ((c # cs) ! k) = ch"
          "\<forall>l < k. \<not> Net_CompareClientNetaddr adr (ch_addr ((c # cs) ! l))"
        by blast
      then have "k = 0" using True by (metis gr0I nth_Cons_0)
      then show "j = i \<and> ch_challenge c = ch" using k by simp
    next
      assume "j = i \<and> ch_challenge c = ch"
      then show "\<exists>k < length (c # cs). j = i + k \<and> Net_CompareClientNetaddr adr (ch_addr ((c # cs) ! k)) \<and>
        ch_challenge ((c # cs) ! k) = ch \<and> (\<forall>l < k. \<not> Net_CompareClientNetaddr adr (ch_addr ((c # cs) ! l)))"
        using True by (intro exI [of _ 0]) simp
    qed
    then show ?thesis using True by auto
  next
    case False
    then show ?thesis
      using 2 by (simp add: Ex_less_Suc2 All_less_Suc2)
  qed
qed

definition answered :: "host \<Rightarrow> host \<Rightarrow> bool" where
  "answered h h' \<longleftrightarrow> (\<exists>bytes. h' = h\<lparr>srv := (srv h)\<lparr>packets_out := packets_out (srv h) @ [(net_from h, bytes)]\<rparr>\<rparr>)"

definition challenge_of :: "cmd_args \<Rightarrow> uint32" where
  "challenge_of a = ucast (strtoul 0 (Cmd_Argv a 3))"

definition holds_challenge :: "host \<Rightarrow> uint32 \<Rightarrow> nat \<Rightarrow> bool" where
  "holds_challenge h c j \<longleftrightarrow> j < MAX_CHALLENGES \<and> j < length (challenges h) \<and>
     Net_CompareClientNetaddr (net_from h) (ch_addr (challenges h ! j)) \<and> ch_challenge (challenges h ! j) = c \<and>
     (\<forall>k < j. \<not> Net_CompareClientNetaddr (net_from h) (ch_addr (challenges h ! k)))"

lemma good_challenge:
  "check_challenge (net_from h) c 0 (take MAX_CHALLENGES (challenges h)) = Good j \<longleftrightarrow> holds_challenge h c j"
  by (auto simp: check_challenge_good holds_challenge_def)

lemma connect_cases:
  assumes "Svc_Connect env a h = Inr h'"
  shows "answered h h' \<or>
    (\<exists>j s. holds_challenge h (challenge_of a) j \<and>
      h' = h\<lparr>challenges := (challenges h)[j := (challenges h ! j)\<lparr>ch_challenge := 0\<rparr>], srv := s\<rparr>)"
proof -
  define v where "v = check_challenge (net_from h) (challenge_of a) 0 (take MAX_CHALLENGES (challenges h))"
  show ?thesis
  proof (cases v)
    case (Good j)
    then have j: "holds_challenge h (challenge_of a) j" using good_challenge unfolding v_def by blast
    show ?thesis
    proof (cases "\<exists>s. h' = h\<lparr>challenges := (challenges h)[j := (challenges h ! j)\<lparr>ch_challenge := 0\<rparr>], srv := s\<rparr>")
      case True
      then obtain s where "h' = h\<lparr>challenges := (challenges h)[j := (challenges h ! j)\<lparr>ch_challenge := 0\<rparr>], srv := s\<rparr>"
        by auto
      then show ?thesis using j by blast
    next
      case False
      then have "answered h h'"
        using assms Good unfolding Svc_Connect_def Let_def challenge_of_def [symmetric] v_def [symmetric]
        by (auto simp: bindE_eq_Inr answered_def split: if_splits option.splits dest!: oob_print_host accept_host)
      then show ?thesis ..
    qed
  next
    case Bad_Challenge
    then show ?thesis
      using assms unfolding Svc_Connect_def Let_def challenge_of_def [symmetric] v_def [symmetric]
      by (auto simp: bindE_eq_Inr answered_def split: if_splits dest!: oob_print_host)
  next
    case No_Challenge
    then show ?thesis
      using assms unfolding Svc_Connect_def Let_def challenge_of_def [symmetric] v_def [symmetric]
      by (auto simp: bindE_eq_Inr answered_def split: if_splits dest!: oob_print_host)
  qed
qed

lemma challenge_used:
  assumes "holds_challenge h c j" "c \<noteq> 0" "net_from h2 = net_from h"
    "challenges h2 = (challenges h)[j := (challenges h ! j)\<lparr>ch_challenge := 0\<rparr>]"
  shows "\<not> holds_challenge h2 c k"
proof
  assume k: "holds_challenge h2 c k"
  have "\<not> k < j" using k assms by (auto simp: holds_challenge_def)
  moreover have "\<not> j < k"
    using k assms unfolding holds_challenge_def by (metis length_list_update nth_list_update_eq sv_challenge.select_convs(1) sv_challenge.surjective sv_challenge.update_convs(2))
  ultimately show False using k assms by (auto simp: holds_challenge_def)
qed

section \<open>Being accepted\<close>

text \<open>
  What becomes of the clients while one is taken in: the others hear what the game has to say.
\<close>

definition only_hear :: "nat \<Rightarrow> conn list \<Rightarrow> conn list \<Rightarrow> bool" where
  "only_hear i cs cs' \<longleftrightarrow> length cs' = length cs \<and> (\<forall>j < length cs. j \<noteq> i \<longrightarrow> hears (cs ! j) (cs' ! j))"

lemma only_hear_refl: "only_hear i cs cs"
  by (simp add: only_hear_def)

lemma only_hear_trans: "only_hear i as bs \<Longrightarrow> only_hear i bs cs \<Longrightarrow> only_hear i as cs"
  unfolding only_hear_def by (metis rtranclp_trans)

lemma only_hear_effect: "effect s s' \<Longrightarrow> only_hear i (conns s) (conns s')"
  by (simp add: only_hear_def effect_clients)

lemma only_hear_update: "only_hear i cs (cs[i := c])"
  by (simp add: only_hear_def)

lemma effect_simps:
  assumes "effect s s'"
  shows "packets_out s' = packets_out s" "time_now s' = time_now s" "max_clients s' = max_clients s"
    "svs_real_time (statics s') = svs_real_time (statics s)" "run_state s' = run_state s"
  using assms by (simp_all add: effect_def)

lemma user_info_kept:
  assumes i: "i < length (conns s)" and info: "user_info (conns s ! i) = info_string kvs"
    and ok: "wf_info kvs" "kvs \<noteq> []" "CHR 0xFF \<notin> set (info_string kvs)" "ValidateUserInfo (Some (info_string kvs))"
      "\<not> has_part (value_of kvs ''skin'') ''..''"
    and ready: "ready s"
    and game: "\<And>s. ready s \<Longrightarrow> \<exists>s'. ClientUserInfoChanged g e (info_string kvs) s = Inr (info_string kvs, s') \<and> game_steps s s'"
    and e: "conn_edict (conns s ! i) = e"
  shows "\<exists>s'. Sv_UserInfoChanged g i s = Inr s' \<and> only_hear i (conns s) (conns s') \<and> user_info (conns s' ! i) = info_string kvs \<and>
    conn_edict (conns s' ! i) = e \<and> packets_out s' = packets_out s \<and> time_now s' = time_now s \<and> max_clients s' = max_clients s \<and>
    svs_real_time (statics s') = svs_real_time (statics s)"
proof -
  define cl where "cl = conns s ! i"
  have ne: "info_string kvs \<noteq> []" using ok(2) by (cases kvs) simp_all
  define s1 where "s1 = set_conn i (cl\<lparr>user_info := info_string kvs\<rparr>) s"
  have e: "conn_edict cl = e" using e by (simp add: cl_def)
  have "conn_ok cl" using ready i by (simp add: cl_def ready_def clients_ok_def)
  then have r1: "ready s1" unfolding s1_def by (intro ready_conn ready) (simp add: conn_ok_def)
  obtain s2 where s2: "ClientUserInfoChanged g (conn_edict cl) (info_string kvs) s1 = Inr (info_string kvs, s2)" "effect s1 s2"
    using game [OF r1] e game_steps_effect by auto
  define cl2 where "cl2 = conns s2 ! i"
  have i2: "at_index (conns s2) (int i) = Inr cl2" "i < length (conns s2)"
    using i effect_clients(1) [OF s2(2)] by (simp_all add: at_index_def s1_def set_conn_def cl2_def)
  have "hears (conns s1 ! i) cl2"
    using effect_clients(2) [OF s2(2), of i] i by (simp add: cl2_def s1_def set_conn_def)
  then have cl2: "user_info cl2 = info_string kvs" "conn_edict cl2 = e"
    using hears_keeps i e by (simp_all add: s1_def set_conn_def)
  define c0 where "c0 = set_rate (value_of kvs ''rate'') (cl2\<lparr>user_info := info_string kvs, conn_name := masked_name (value_of kvs ''name'')\<rparr>)"
  define c where "c = (if value_of kvs ''message_level'' = [] then c0 else c0\<lparr>message_level := atoi (value_of kvs ''message_level'')\<rparr>)"
  have run: "Sv_UserInfoChanged g i s = Inr (set_conn i c s2)"
    unfolding Sv_UserInfoChanged_def
    using i ne ok info s2(1) i2
    by (simp add: at_index_def cl_def [symmetric] get_user_info s1_def [symmetric] with_conn_def c_def c0_def Let_def)
  have "only_hear i (conns s) (conns s1)" using only_hear_update by (simp add: s1_def set_conn_def)
  then have "only_hear i (conns s) (conns (set_conn i c s2))"
    using only_hear_effect [OF s2(2)] only_hear_update [of i "conns s2" c] by (simp add: set_conn_def) (blast intro: only_hear_trans)
  moreover have "user_info c = info_string kvs \<and> conn_edict c = e"
    using cl2 by (simp add: c_def c0_def set_rate_def Let_def)
  ultimately show ?thesis
    using run i2(2) effect_simps [OF s2(2)] by (intro exI [of _ "set_conn i c s2"]) (simp add: set_conn_def s1_def)
qed

lemma refused_no:
  assumes "wf_info kvs" "kvs \<noteq> []" "CHR 0xFF \<notin> set (info_string kvs)" "ValidateUserInfo (Some (info_string kvs))"
    "value_of kvs ''ip'' = []"
  shows "refused (info_string kvs) = Inr False"
proof -
  have "info_string kvs \<noteq> []" using assms(2) by (cases kvs) simp_all
  then show ?thesis using assms by (simp add: refused_def get_user_info)
qed

lemma accept_client_accepts:
  assumes i: "i < length (clients_of h)" and e: "e = conn_edict (clients_of h ! i)" and ready: "ready (srv h)"
    and ok: "wf_info kvs" "kvs \<noteq> []" "CHR 0xFF \<notin> set (info_string kvs)" "ValidateUserInfo (Some (info_string kvs))"
      "\<not> has_part (value_of kvs ''skin'') ''..''" "length (info_string kvs) < MAX_USER_INFO_STRING"
    and game: "\<And>s. ready s \<Longrightarrow> \<exists>s'. ClientConnect (game env) e (info_string kvs) s = Inr (True, info_string kvs, s') \<and> game_steps s s'"
      "\<And>s. ready s \<Longrightarrow> \<exists>s'. ClientUserInfoChanged (game env) e (info_string kvs) s = Inr (info_string kvs, s') \<and> game_steps s s'"
    and url: "Netchan_OutOfBandPrint (''client_connect '' @ cv_download_url env) = Inr bytes"
  shows "\<exists>s c. accept_client env adr qp (info_string kvs) i h = Inr (h\<lparr>srv := s\<rparr>) \<and>
    only_hear i (clients_of h) (conns s) \<and> conns s ! i = c \<and> conn_state c = SV_CLIENT_CONNECTED \<and> user_info c = info_string kvs \<and> conn_edict c = e \<and>
    chan c = Netchan_Setup (time_now (srv h)) NS_UDP_SERVER adr qp \<and> last_message c = real_time h \<and>
    contents (dg_buffer (datagram c)) = [] \<and> packets_out s = packets_out (srv h) @ [(adr, bytes)]"
proof -
  obtain s1 where s1: "ClientConnect (game env) e (info_string kvs) (srv h) = Inr (True, info_string kvs, s1)" "effect (srv h) s1"
    using game(1) [OF ready] game_steps_effect by blast
  let ?c1 = "conns s1 ! i"
  have c1: "i < length (conns s1)" "conn_edict ?c1 = e"
    using i e effect_clients(1,2) [OF s1(2)] hears_keeps(3) by auto
  have r1: "ready s1" by (rule effect_ready [OF s1(2) ready])
  define s2 where "s2 = set_conn i (?c1\<lparr>user_info := info_string kvs\<rparr>) s1"
  have i2: "i < length (conns s2)" "conns s2 ! i = ?c1\<lparr>user_info := info_string kvs\<rparr>" "only_hear i (conns s1) (conns s2)"
    using c1(1) only_hear_update by (simp_all add: s2_def set_conn_def)
  have "conn_ok ?c1" using r1 c1(1) by (simp add: ready_def clients_ok_def)
  then have r2: "ready s2" unfolding s2_def by (intro ready_conn r1) (simp add: conn_ok_def)
  have len: "strlcpy (info_string kvs) MAX_USER_INFO_STRING = info_string kvs" using ok(6) by (simp add: strlcpy_def limits)
  obtain s3 where s3: "Sv_UserInfoChanged (game env) i s2 = Inr s3" "only_hear i (conns s2) (conns s3)"
      "user_info (conns s3 ! i) = info_string kvs" "conn_edict (conns s3 ! i) = e" "packets_out s3 = packets_out s2" "time_now s3 = time_now s2"
      "svs_real_time (statics s3) = svs_real_time (statics s2)"
    using user_info_kept [of i s2 kvs "game env" e] i2 ok game(2) r2 c1(2) by auto
  define s4 where "s4 = s3\<lparr>packets_out := packets_out s3 @ [(adr, bytes)]\<rparr>"
  define d where "d = connected (time_now s4) (svs_real_time (statics s4)) adr qp (conns s3 ! i)"
  have i3: "i < length (conns s3)" using s3(2) i2(1) by (simp add: only_hear_def)
  have at: "at_index (conns s4) (int i) = Inr (conns s3 ! i)" using i3 by (simp add: at_index_def s4_def)
  have at1: "at_index (conns s1) (int i) = Inr ?c1" using c1(1) by (simp add: at_index_def)
  have 1: "on_run (with_conn i (\<lambda>cl. Inr (cl\<lparr>user_info := strlcpy (info_string kvs) MAX_USER_INFO_STRING\<rparr>))) (h\<lparr>srv := s1\<rparr>) =
      Inr (h\<lparr>srv := s2\<rparr>)"
    using at1 by (simp add: on_run_def with_conn_def len s2_def)
  have 2: "on_run (Sv_UserInfoChanged (game env) i) (h\<lparr>srv := s2\<rparr>) = Inr (h\<lparr>srv := s3\<rparr>)"
    using s3(1) by (simp add: on_run_def)
  have 3: "oob_print adr (''client_connect '' @ cv_download_url env) (h\<lparr>srv := s3\<rparr>) = Inr (h\<lparr>srv := s4\<rparr>)"
    using url by (simp add: oob_print_def s4_def)
  have 4: "on_run (with_conn i (\<lambda>cl. Inr (connected (time_now s4) (svs_real_time (statics s4)) adr qp cl))) (h\<lparr>srv := s4\<rparr>) =
      Inr (h\<lparr>srv := set_conn i d s4\<rparr>)"
    using at by (simp add: on_run_def with_conn_def d_def)
  have at0: "at_index (clients_of h) (int i) = Inr (clients_of h ! i)" using i by (simp add: at_index_def)
  have "accept_client env adr qp (info_string kvs) i h = Inr (h\<lparr>srv := set_conn i d s4\<rparr>)"
    unfolding accept_client_def at0 bindE_simps e [symmetric] s1(1) prod.case Let_def
    using 1 2 3 4 by simp
  moreover have "only_hear i (clients_of h) (conns (set_conn i d s4))"
    using only_hear_effect [OF s1(2), of i] i2(3) s3(2) only_hear_update [of i "conns s3" d]
    by (simp add: set_conn_def s4_def) (blast intro: only_hear_trans)
  moreover have "conns (set_conn i d s4) ! i = d" using i3 by (simp add: set_conn_def s4_def)
  moreover have "conn_state d = SV_CLIENT_CONNECTED \<and> user_info d = info_string kvs \<and> conn_edict d = e \<and>
      chan d = Netchan_Setup (time_now (srv h)) NS_UDP_SERVER adr qp \<and> last_message d = real_time h \<and>
      contents (dg_buffer (datagram d)) = []"
    using s3(3-7) effect_simps [OF s1(2)]
    by (simp add: d_def connected_def s4_def s2_def set_conn_def contents_def Mem_InitBuffer_def)
  moreover have "packets_out (set_conn i d s4) = packets_out (srv h) @ [(adr, bytes)]"
    using s3(5) effect_simps [OF s1(2)] by (simp add: set_conn_def s4_def s2_def)
  ultimately show ?thesis by blast
qed

section \<open>A request that is accepted\<close>

text \<open>The user info of a request, and the address as the server notes it.\<close>

definition good_info :: "(string \<times> string) list \<Rightarrow> bool" where
  "good_info kvs \<longleftrightarrow> wf_info kvs \<and> kvs \<noteq> [] \<and> ''ip'' \<notin> fst ` set kvs \<and> \<not> has_part (value_of kvs ''skin'') ''..'' \<and>
     length (info_string kvs) < MAX_TOKEN_CHARS \<and>
     list_all (\<lambda>c. c \<noteq> CHR 0xFF \<and> c \<noteq> quote \<and> c \<noteq> semicolon \<and> c \<noteq> newline \<and> c \<noteq> nul) (info_string kvs)"

definition good_address :: "string \<Rightarrow> bool" where
  "good_address s \<longleftrightarrow> s \<noteq> [] \<and> info_word MAX_USER_INFO_VALUE s \<and> semicolon \<notin> set s"

definition with_ip :: "string \<Rightarrow> (string \<times> string) list \<Rightarrow> (string \<times> string) list" where
  "with_ip s kvs = kvs @ [(''ip'', s)]"

lemma without_absent: "key \<notin> fst ` set kvs \<Longrightarrow> without key kvs = kvs"
  by (induction kvs) auto

lemma value_absent: "key \<notin> fst ` set kvs \<Longrightarrow> value_of kvs key = []"
  by (simp add: value_of_def map_of_eq_None_iff [THEN iffD2])

lemma set_ip:
  assumes "good_info kvs" "good_address s"
  shows "SetUserInfo (info_string kvs) ''ip'' s = Inr (info_string (with_ip s kvs))"
proof -
  have key: "info_word MAX_USER_INFO_KEY ''ip''" "semicolon \<notin> set ''ip''"
    by (auto simp: info_word_def printable_def limits)
  have "length (info_string kvs) + length (pair_string (''ip'', s)) < MAX_USER_INFO_STRING"
    using assms by (simp add: good_info_def good_address_def info_word_def pair_string_def limits)
  then show ?thesis
    using set_info_string [OF _ key, of kvs s] assms
    by (simp add: good_info_def good_address_def without_absent with_ip_def)
qed

lemma info_string_append: "info_string (a @ b) = info_string a @ info_string b"
  by (simp add: info_string_def)

lemma with_ip_ok:
  assumes "good_info kvs" "good_address s"
  shows "wf_info (with_ip s kvs)" "with_ip s kvs \<noteq> []" "CHR 0xFF \<notin> set (info_string (with_ip s kvs))"
    "ValidateUserInfo (Some (info_string (with_ip s kvs)))" "\<not> has_part (value_of (with_ip s kvs) ''skin'') ''..''"
    "length (info_string (with_ip s kvs)) < MAX_USER_INFO_STRING"
proof -
  have s: "backslash \<notin> set s" "quote \<notin> set s" "semicolon \<notin> set s" "length s < 64" "CHR 0xFF \<notin> set s"
    using assms(2) by (auto simp: good_address_def info_word_def printable_def limits)
  have k: "wf_info kvs" "kvs \<noteq> []" "\<forall>c \<in> set (info_string kvs). c \<noteq> CHR 0xFF \<and> c \<noteq> quote \<and> c \<noteq> semicolon"
      "length (info_string kvs) < 256" "\<not> has_part (value_of kvs ''skin'') ''..''"
    using assms(1) by (simp_all add: good_info_def limits list_all_iff)
  show "wf_info (with_ip s kvs)" using k(1) s by (auto simp: wf_info_def wf_pair_def with_ip_def limits)
  show "with_ip s kvs \<noteq> []" by (simp add: with_ip_def)
  have c: "\<forall>c \<in> set (info_string (with_ip s kvs)). c \<noteq> CHR 0xFF \<and> c \<noteq> quote \<and> c \<noteq> semicolon"
    using k(3) s by (auto simp: with_ip_def info_string_append)
  then show "CHR 0xFF \<notin> set (info_string (with_ip s kvs))" by blast
  have "info_string (with_ip s kvs) \<noteq> []" by (simp add: with_ip_def info_string_append)
  then show "ValidateUserInfo (Some (info_string (with_ip s kvs)))" using c by (auto simp: ValidateUserInfo_def)
  have "value_of (with_ip s kvs) ''skin'' = value_of kvs ''skin''"
    by (simp add: value_of_def with_ip_def map_add_def split: option.split)
  then show "\<not> has_part (value_of (with_ip s kvs) ''skin'') ''..''" using k(5) by simp
  show "length (info_string (with_ip s kvs)) < MAX_USER_INFO_STRING"
    using k(4) s(4) by (simp add: with_ip_def info_string_append limits)
qed

text \<open>
  The game accepts the client and leaves its user info as it is, and does no more to the server than it
  can by the functions it is given: \<open>G_ClientConnect\<close> of the default game sets a config string and
  prints to all clients.
\<close>

definition game_accepts :: "game_calls \<Rightarrow> nat \<Rightarrow> string \<Rightarrow> bool" where
  "game_accepts g e info \<longleftrightarrow> (\<forall>s. ready s \<longrightarrow>
     (\<exists>s'. ClientConnect g e info s = Inr (True, info, s') \<and> game_steps s s') \<and>
     (\<exists>s'. ClientUserInfoChanged g e info s = Inr (info, s') \<and> game_steps s s'))"

definition accepted :: "host \<Rightarrow> uint8 \<Rightarrow> string \<Rightarrow> conn \<Rightarrow> bool" where
  "accepted h qp info c \<longleftrightarrow> conn_state c = SV_CLIENT_CONNECTED \<and> user_info c = info \<and>
     chan c = Netchan_Setup (time_now (srv h)) NS_UDP_SERVER (net_from h) qp \<and> last_message c = real_time h \<and>
     contents (dg_buffer (datagram c)) = []"

lemma connect_accepts:
  assumes a: "strtol 0 (Cmd_Argv a 1) = PROTOCOL" "Cmd_Argv a 4 = info_string kvs"
      "qp = ucast (strtoul 0 (Cmd_Argv a 2))"
    and j: "holds_challenge h (challenge_of a) j"
    and info: "good_info kvs" "good_address (addr_string env (net_from h))"
    and slot: "client_slot (net_from h) qp (srv h) = Some i" "i < length (clients_of h)" "conn_edict (clients_of h ! i) = e"
    and ready: "ready (srv h)" and game: "game_accepts (game env) e (info_string (with_ip (addr_string env (net_from h)) kvs))"
    and url: "Netchan_OutOfBandPrint (''client_connect '' @ cv_download_url env) = Inr bytes"
  shows "\<exists>s c. Svc_Connect env a h =
      Inr (h\<lparr>challenges := (challenges h)[j := (challenges h ! j)\<lparr>ch_challenge := 0\<rparr>], srv := s\<rparr>) \<and>
    only_hear i (clients_of h) (conns s) \<and> conns s ! i = c \<and> conn_edict c = e \<and> accepted h qp (info_string (with_ip (addr_string env (net_from h)) kvs)) c \<and>
    packets_out s = packets_out (srv h) @ [(net_from h, bytes)]"
proof -
  define adr where "adr = net_from h"
  define info2 where "info2 = with_ip (addr_string env adr) kvs"
  define h2 where "h2 = h\<lparr>challenges := (challenges h)[j := (challenges h ! j)\<lparr>ch_challenge := 0\<rparr>]\<rparr>"
  have v: "sint (word_of_int (strtol 0 (Cmd_Argv a 1)) :: uint32) = PROTOCOL"
    unfolding a(1) PROTOCOL_def by simp
  have kvs: "wf_info kvs" "kvs \<noteq> []" "CHR 0xFF \<notin> set (info_string kvs)" "ValidateUserInfo (Some (info_string kvs))"
      "value_of kvs ''ip'' = []" "length (info_string kvs) < 256"
  proof -
    show "wf_info kvs" "kvs \<noteq> []" "length (info_string kvs) < 256" using info(1) by (simp_all add: good_info_def limits)
    have "info_string kvs \<noteq> []" using \<open>kvs \<noteq> []\<close> by (cases kvs) simp_all
    then show "CHR 0xFF \<notin> set (info_string kvs)" "ValidateUserInfo (Some (info_string kvs))"
      using info(1) by (auto simp: good_info_def list_all_iff ValidateUserInfo_def)
    show "value_of kvs ''ip'' = []" using info(1) by (intro value_absent) (simp add: good_info_def)
  qed
  have copy: "strlcpy (Cmd_Argv a 4) (MAX_USER_INFO_STRING - 25) = info_string kvs"
    using kvs(6) by (simp add: a(2) strlcpy_def limits)
  have g: "check_challenge adr (ucast (strtoul 0 (Cmd_Argv a 3))) 0 (take MAX_CHALLENGES (challenges h)) = Good j"
    using good_challenge [of h "challenge_of a" j] j by (simp add: adr_def challenge_of_def)
  obtain s c where acc: "accept_client env adr qp (info_string info2) i h2 = Inr (h2\<lparr>srv := s\<rparr>)"
      "only_hear i (clients_of h2) (conns s)" "conns s ! i = c" "conn_state c = SV_CLIENT_CONNECTED" "user_info c = info_string info2" "conn_edict c = e"
      "chan c = Netchan_Setup (time_now (srv h2)) NS_UDP_SERVER adr qp" "last_message c = real_time h2"
      "contents (dg_buffer (datagram c)) = []" "packets_out s = packets_out (srv h2) @ [(adr, bytes)]"
    using accept_client_accepts [of i h2 e info2 env bytes adr qp] slot(2,3) with_ip_ok [OF info(1) info(2)] game ready url
    unfolding info2_def adr_def game_accepts_def by (auto simp: h2_def)
  have "Svc_Connect env a h = accept_client env adr qp (info_string info2) i h2"
    unfolding Svc_Connect_def Let_def adr_def [symmetric] v copy g
    using refused_no [OF kvs(1-5)] set_ip [OF info] slot(1)
    by (simp add: adr_def [symmetric] info2_def a(3) h2_def)
  then show ?thesis
    using acc by (intro exI [of _ s] exI [of _ c]) (simp add: h2_def accepted_def info2_def adr_def)
qed

section \<open>The challenges that have been sent\<close>

text \<open>
  A server that has started with no challenges and has answered requests: \<open>L\<close> notes to which addresses it
  has sent which datagrams in answer to \<open>get_challenge\<close>. Between the requests anything may happen
  to the rest of the server.
\<close>

definition no_challenge :: sv_challenge where
  "no_challenge = \<lparr>ch_addr = \<lparr>addr_type = NA_LOOP, addr = 0, port = 0\<rparr>, ch_challenge = 0, ch_time = 0\<rparr>"

inductive challenged :: "sv_env \<Rightarrow> host \<Rightarrow> (net_addr \<times> byte list) list \<Rightarrow> bool" for env where
  start: "challenges h = replicate MAX_CHALLENGES no_challenge \<Longrightarrow> challenged env h []"
| get_challenge: "challenged env h L \<Longrightarrow> Svc_GetChallenge h = Inr h' \<Longrightarrow> packets_out (srv h') = packets_out (srv h) @ [d] \<Longrightarrow>
    challenged env h' (L @ [d])"
| connect: "challenged env h L \<Longrightarrow> Svc_Connect env a h = Inr h' \<Longrightarrow> challenged env h' L"
| other: "challenged env h L \<Longrightarrow> challenges h' = challenges h \<Longrightarrow> challenged env h' L"

text \<open>An entry is as at the start, or its number, unless used, has been sent to its address.\<close>

definition entry_sent :: "(net_addr \<times> byte list) list \<Rightarrow> sv_challenge \<Rightarrow> bool" where
  "entry_sent L c \<longleftrightarrow> c = no_challenge \<or> (\<exists>bytes. (ch_addr c, bytes) \<in> set L \<and>
     (ch_challenge c \<noteq> 0 \<longrightarrow> Netchan_OutOfBandPrint (''challenge '' @ print_int (sint (ch_challenge c))) = Inr bytes))"

lemma entry_sent_more: "entry_sent L c \<Longrightarrow> entry_sent (L @ M) c"
  by (auto simp: entry_sent_def)

lemma entry_sent_used: "entry_sent L c \<Longrightarrow> entry_sent L (c\<lparr>ch_challenge := 0\<rparr>)"
  by (auto simp: entry_sent_def no_challenge_def)

lemma get_challenge_entries:
  assumes "Svc_GetChallenge h = Inr h'" and "packets_out (srv h') = packets_out (srv h) @ [d]"
  shows "challenges h' = challenges h \<or> (\<exists>k c. challenges h' = (challenges h)[k := c] \<and> entry_sent (L @ [d]) c)"
proof -
  obtain r oldest where s: "scan_challenges (net_from h) 0 (take MAX_CHALLENGES (challenges h)) (0, 0x7fffffff) = (r, oldest)" by fastforce
  show ?thesis
  proof (cases r)
    case (Some k)
    then show ?thesis using assms(1) s by (auto simp: Svc_GetChallenge_def bindE_eq_Inr dest!: oob_print_host)
  next
    case None
    obtain x st where x: "Random (rand_state h) = (x, st)" by fastforce
    let ?c = "\<lparr>ch_addr = net_from h, ch_challenge = x AND 0x7fff, ch_time = time_now (srv h)\<rparr>"
    let ?h = "h\<lparr>rand_state := st, challenges := (challenges h)[oldest := ?c]\<rparr>"
    have "bindE (at_index (challenges ?h) (int oldest)) (\<lambda>c.
        oob_print (net_from ?h) (''challenge '' @ print_int (sint (ch_challenge c))) ?h) = Inr h'"
      using assms(1) s None x by (simp add: Svc_GetChallenge_def Let_def)
    then have "oob_print (net_from h) (''challenge '' @ print_int (sint (ch_challenge ?c))) ?h = Inr h'"
      by (auto simp: bindE_eq_Inr at_index_eq_Inr)
    then obtain bytes where b: "Netchan_OutOfBandPrint (''challenge '' @ print_int (sint (ch_challenge ?c))) = Inr bytes"
        "h' = ?h\<lparr>srv := (srv ?h)\<lparr>packets_out := packets_out (srv ?h) @ [(net_from h, bytes)]\<rparr>\<rparr>"
      by (auto simp: oob_print_def bindE_eq_Inr)
    then have "d = (net_from h, bytes)" using assms(2) by simp
    then have "entry_sent (L @ [d]) ?c" using b(1) by (auto simp: entry_sent_def)
    moreover have "challenges h' = (challenges h)[oldest := ?c]" using b(2) by simp
    ultimately show ?thesis by blast
  qed
qed

lemma connect_entries:
  assumes "Svc_Connect env a h = Inr h'"
  shows "challenges h' = challenges h \<or> (\<exists>j. j < length (challenges h) \<and> challenges h' = (challenges h)[j := (challenges h ! j)\<lparr>ch_challenge := 0\<rparr>])"
proof -
  define v where "v = check_challenge (net_from h) (challenge_of a) 0 (take MAX_CHALLENGES (challenges h))"
  show ?thesis
  proof (cases v)
    case (Good j)
    then have "j < length (challenges h)" using good_challenge unfolding v_def holds_challenge_def by blast
    moreover have "challenges h' = challenges h \<or> challenges h' = (challenges h)[j := (challenges h ! j)\<lparr>ch_challenge := 0\<rparr>]"
      using assms Good unfolding Svc_Connect_def Let_def challenge_of_def [symmetric] v_def [symmetric]
      by (auto simp: bindE_eq_Inr split: if_splits option.splits dest!: oob_print_host accept_host)
    ultimately show ?thesis by blast
  next
    case Bad_Challenge
    then show ?thesis
      using assms unfolding Svc_Connect_def Let_def challenge_of_def [symmetric] v_def [symmetric]
      by (auto simp: bindE_eq_Inr split: if_splits dest!: oob_print_host)
  next
    case No_Challenge
    then show ?thesis
      using assms unfolding Svc_Connect_def Let_def challenge_of_def [symmetric] v_def [symmetric]
      by (auto simp: bindE_eq_Inr split: if_splits dest!: oob_print_host)
  qed
qed

lemma challenged_sent: "challenged env h L \<Longrightarrow> \<forall>c \<in> set (challenges h). entry_sent L c"
proof (induction rule: challenged.induct)
  case (start h)
  then show ?case by (simp add: entry_sent_def)
next
  case (get_challenge h L h' d)
  have old: "\<forall>c \<in> set (challenges h). entry_sent (L @ [d]) c" using get_challenge.IH entry_sent_more by blast
  have new: "entry_sent (L @ [d]) c" if "c \<in> set ((challenges h)[k := x])" "entry_sent (L @ [d]) x" for c k x
    using set_update_subset_insert [of "challenges h" k x] that old by blast
  show ?case
    using get_challenge_entries [OF get_challenge.hyps(2,3), of L] old new by metis
next
  case (connect h L a h')
  have new: "entry_sent L c" if "c \<in> set ((challenges h)[j := (challenges h ! j)\<lparr>ch_challenge := 0\<rparr>])" "j < length (challenges h)" for c j
    using set_update_subset_insert [of "challenges h" j "(challenges h ! j)\<lparr>ch_challenge := 0\<rparr>"] that connect.IH entry_sent_used nth_mem by blast
  show ?case using connect_entries [OF connect.hyps(2)] connect.IH new by metis
next
  case (other h L h')
  then show ?case by simp
qed

section \<open>Properties\<close>

text \<open>
  C34: A connection request changes the clients only if it comes from an address that the server has
  answered with a challenge (\<open>L\<close>), and, if its number is not zero, only if this is the number
  that was sent. A number other than zero is then used up: whatever else happens, no
  request with it changes the clients again, until the address gets a new challenge. Zero is different: it marks a used
  number, and the code then accepts it like a number that was sent, again and again;
  it also fits the entries that are not in use, whose address is 0 of the loopback, from which no datagram comes (the
  loopback's own address is \<open>net_lo\<close>).
\<close>

theorem connect_needs_challenge:
  assumes "challenged env h L" and "Svc_Connect env a h = Inr h'" and "clients_of h' \<noteq> clients_of h"
  shows "\<exists>j. holds_challenge h (challenge_of a) j \<and> challenges h' = (challenges h)[j := (challenges h ! j)\<lparr>ch_challenge := 0\<rparr>] \<and>
    (addr_type (net_from h) = NA_LOOP \<and> addr (net_from h) = 0 \<and> challenge_of a = 0 \<or>
     (\<exists>adr bytes. (adr, bytes) \<in> set L \<and> Net_CompareClientNetaddr (net_from h) adr \<and>
       (challenge_of a \<noteq> 0 \<longrightarrow> Netchan_OutOfBandPrint (''challenge '' @ print_int (sint (challenge_of a))) = Inr bytes))) \<and>
    (challenge_of a \<noteq> 0 \<longrightarrow> (\<forall>b h2 h3. net_from h2 = net_from h \<and> challenges h2 = challenges h' \<and> challenge_of b = challenge_of a \<and>
      Svc_Connect env b h2 = Inr h3 \<longrightarrow> answered h2 h3))"
proof -
  have "\<not> answered h h'" using assms(3) by (auto simp: answered_def)
  then obtain j s where j: "holds_challenge h (challenge_of a) j"
      "h' = h\<lparr>challenges := (challenges h)[j := (challenges h ! j)\<lparr>ch_challenge := 0\<rparr>], srv := s\<rparr>"
    using connect_cases [OF assms(2)] by blast
  let ?c = "challenges h ! j"
  have c: "?c \<in> set (challenges h)" "Net_CompareClientNetaddr (net_from h) (ch_addr ?c)" "ch_challenge ?c = challenge_of a"
    using j(1) by (simp_all add: holds_challenge_def)
  have sent: "addr_type (net_from h) = NA_LOOP \<and> addr (net_from h) = 0 \<and> challenge_of a = 0 \<or>
     (\<exists>adr bytes. (adr, bytes) \<in> set L \<and> Net_CompareClientNetaddr (net_from h) adr \<and>
       (challenge_of a \<noteq> 0 \<longrightarrow> Netchan_OutOfBandPrint (''challenge '' @ print_int (sint (challenge_of a))) = Inr bytes))"
  proof (cases "?c = no_challenge")
    case True
    then show ?thesis using c(2,3) by (simp add: Net_CompareClientNetaddr_def no_challenge_def)
  next
    case False
    have "entry_sent L ?c" using challenged_sent [OF assms(1)] c(1) by blast
    then obtain bytes where "(ch_addr ?c, bytes) \<in> set L"
        "ch_challenge ?c \<noteq> 0 \<longrightarrow> Netchan_OutOfBandPrint (''challenge '' @ print_int (sint (ch_challenge ?c))) = Inr bytes"
      using False unfolding entry_sent_def by blast
    then show ?thesis using c(2,3) by metis
  qed
  have "answered h2 h3" if "challenge_of a \<noteq> 0" "net_from h2 = net_from h" "challenges h2 = challenges h'" "challenge_of b = challenge_of a"
      "Svc_Connect env b h2 = Inr h3" for b h2 h3
    using connect_cases [OF that(5)] challenge_used [OF j(1) that(1,2)] that(3,4) j(2) by auto
  then show ?thesis using j sent by (intro exI [of _ j]) auto
qed

section \<open>A server that waits for clients\<close>

definition sample_game :: game_calls where
  "sample_game = \<lparr>on_drop = sample_export, ClientConnect = (\<lambda>n info s.
       bindE (Sv_BroadcastPrint PRINT_HIGH (''player connected'' @ [newline]) s) (\<lambda>s. Inr (True, info, s))),
     ClientUserInfoChanged = (\<lambda>n info s. Inr (info, s)), ClientBegin = (\<lambda>n s. Inr s), ClientCommand = (\<lambda>n a s. Inr s),
     ClientThink = (\<lambda>n cmd s. Inr s), game_Frame = (\<lambda>s. Some (Inr s)), GameName = ''Free For All''\<rparr>"

definition sample_env :: sv_env where
  "sample_env = \<lparr>game = sample_game, addr_string = (\<lambda>adr. ''10.0.0.1''), cv_string = (\<lambda>v. []), cv_timeout = 60, cv_enforce_time = 10,
     cv_udp_download = True, cv_download_url = [], cv_hostname = ''Host'', cv_rcon_password = [], cv_game = ''default'',
     cv_dedicated = True, cv_public = False, cv_time_demo = False, server_info = [], server_vars = [],
     file_data = (\<lambda>f. None), run_rcon = (\<lambda>c h. Inr ([], h))\<rparr>"

definition sample_addr :: net_addr where
  "sample_addr = \<lparr>addr_type = NA_DATAGRAM, addr = 1, port = 2\<rparr>"

definition sample_host :: host where
  "sample_host = \<lparr>srv = sample_run\<lparr>conns := [free_conn 1]\<rparr>,
     host_bufs = \<lparr>cbuf = Mem_InitBuffer (replicate CBUF_CHARS 0) CBUF_CHARS, deferred = replicate CBUF_CHARS 0\<rparr>,
     spawn_count = 5, frame_rate = 30, level_time = 0, level_name = ''edge'',
     challenges = \<lparr>ch_addr = sample_addr, ch_challenge = 42, ch_time = 5\<rparr> #
       replicate (MAX_CHALLENGES - 1) no_challenge,
     masters = [], next_heartbeat = 0, pings = (\<lambda>n. 0), last_check_time = 0, rand_state = 1, net_from = sample_addr,
     net_message = Mem_InitBuffer (replicate MAX_MSG_SIZE 0) MAX_MSG_SIZE\<rparr>"

definition sample_request :: cmd_args where
  "sample_request = \<lparr>argv = [''connect'', ''1005'', ''7'', ''42'', info_string [(''name'', ''a'')]], args = []\<rparr>"

lemma sample_challenge: "challenges sample_host ! 0 = \<lparr>ch_addr = sample_addr, ch_challenge = 42, ch_time = 5\<rparr>"
  "0 < length (challenges sample_host)" "net_from sample_host = sample_addr" "clients_of sample_host = [free_conn 1]"
  by (simp_all add: sample_host_def)

lemma free_conn_simps: "conn_state (free_conn e) = SV_CLIENT_FREE" "conn_edict (free_conn e) = e"
  by (simp_all add: free_conn_def)

lemma sample_slot: "client_slot sample_addr 7 (srv sample_host) = Some 0"
proof -
  have "\<not> ed_ai (svs_edicts (statics (srv sample_host)) 1)" "max_clients (srv sample_host) = 1"
    by (simp_all add: sample_host_def sample_run_def sample_static_def sample_edict_def)
  then show ?thesis
    by (simp add: client_slot_def sample_challenge reconnects_def free_slot_def free_conn_simps)
qed

lemma sample_good: "good_info [(''name'', ''a'')]" "good_address ''10.0.0.1''"
  by code_simp+

lemma sample_accepts: "game_accepts sample_game e info"
proof -
  have "\<exists>s'. ClientConnect sample_game e info s = Inr (True, info, s') \<and> game_steps s s'" if r: "ready s" for s
  proof -
    obtain s' where s': "Sv_BroadcastPrint PRINT_HIGH (''player connected'' @ [newline]) s = Inr s'"
      using ready_print [OF r] by (force simp: limits)
    then have "ClientConnect sample_game e info s = Inr (True, info, s')" by (simp add: sample_game_def del: append.simps)
    then show ?thesis using game_step.broadcast [OF s'] by blast
  qed
  moreover have "\<exists>s'. ClientUserInfoChanged sample_game e info s = Inr (info, s') \<and> game_steps s s'" for s
    by (intro exI [of _ s]) (simp add: sample_game_def)
  ultimately show ?thesis by (simp add: game_accepts_def)
qed

lemma sample_ready: "ready (srv sample_host)"
  using wf_appended [of "Mem_InitBuffer (replicate MAX_MSG_SIZE 0) MAX_MSG_SIZE" "[9]"] wf_InitBuffer [of "replicate MAX_MSG_SIZE 0"]
  by (simp add: ready_def sample_host_def sample_run_def clients_ok_def conn_ok_def free_conn_simps)
    (simp add: Mem_InitBuffer_def limits)

lemma request_numbers: "(ucast (strtoul 0 ''42'') :: uint32) = 42" "(ucast (strtoul 0 ''7'') :: uint8) = 7" "strtol 0 ''1005'' = 1005"
proof -
  have "decimal 42 = ''42''" "decimal 7 = ''7''" "decimal 1005 = ''1005''" by code_simp+
  then show "(ucast (strtoul 0 ''42'') :: uint32) = 42" "(ucast (strtoul 0 ''7'') :: uint8) = 7" "strtol 0 ''1005'' = 1005"
    using strtoul_decimal [of 42] strtoul_decimal [of 7] strtol_decimal [of 1005] by simp_all
qed

lemma sample_args: "Cmd_Argv sample_request 1 = ''1005''" "Cmd_Argv sample_request 2 = ''7''" "Cmd_Argv sample_request 3 = ''42''"
  "Cmd_Argv sample_request 4 = info_string [(''name'', ''a'')]"
  by (simp_all add: sample_request_def Cmd_Argv_def Cmd_Argc_def)

lemma sample_challenge_of: "challenge_of sample_request = 42"
  by (simp add: challenge_of_def sample_args request_numbers)

lemma scan_empty:
  "\<not> Net_CompareClientNetaddr adr (ch_addr c) \<Longrightarrow> ch_time c = 0 \<Longrightarrow>
    scan_challenges adr i (replicate n c) (oldest, 0) = (None, oldest)"
  by (induction n arbitrary: i) simp_all

lemma sample_challenged: "\<exists>d. challenged sample_env sample_host [d]"
proof -
  define h where "h = sample_host\<lparr>challenges := replicate MAX_CHALLENGES no_challenge, rand_state := 17685\<rparr>"
  let ?c = "\<lparr>ch_addr = sample_addr, ch_challenge = 42, ch_time = 5\<rparr>"
  have n: "\<not> Net_CompareClientNetaddr sample_addr (ch_addr no_challenge)" "ch_time no_challenge = 0"
    by (simp_all add: Net_CompareClientNetaddr_def sample_addr_def no_challenge_def)
  have m: "MAX_CHALLENGES = Suc 1023" by (simp add: MAX_CHALLENGES_def)
  have rep: "replicate MAX_CHALLENGES no_challenge = no_challenge # replicate 1023 no_challenge" unfolding m by (rule replicate_Suc)
  have f: "net_from h = sample_addr" "take MAX_CHALLENGES (challenges h) = no_challenge # replicate 1023 no_challenge"
      "challenges h = no_challenge # replicate 1023 no_challenge" "rand_state h = 17685" "time_now (srv h) = 5"
    by (simp_all add: h_def rep) (simp_all add: m sample_host_def sample_run_def)
  have scan: "scan_challenges (net_from h) 0 (take MAX_CHALLENGES (challenges h)) (0, 0x7fffffff) = (None, 0)"
    unfolding f(1) f(2) using n scan_empty [OF n] by simp
  have rnd: "\<exists>st. Random (rand_state h) = (3630694442 AND 0x7fffffff, st)" "(3630694442 AND 0x7fffffff AND 0x7fff :: uint32) = 42"
    unfolding f by (simp_all add: Random_def)
  then obtain st where st: "Random (rand_state h) = (3630694442 AND 0x7fffffff, st)" by blast
  obtain bytes where b: "Netchan_OutOfBandPrint (''challenge '' @ print_int (sint (42 :: uint32))) = Inr bytes"
    using oob_print_bytes by (force simp: print_int_def decimal.simps limits)
  have "Svc_GetChallenge h = Inr (h\<lparr>rand_state := st, challenges := challenges sample_host,
      srv := (srv h)\<lparr>packets_out := packets_out (srv h) @ [(sample_addr, bytes)]\<rparr>\<rparr>)"
    unfolding Svc_GetChallenge_def scan using st rnd(2) b f
    by (simp add: oob_print_def at_index_def and.assoc) (simp add: sample_host_def m)
  from challenged.get_challenge [OF challenged.start this] have
    "challenged sample_env (h\<lparr>rand_state := st, challenges := challenges sample_host,
      srv := (srv h)\<lparr>packets_out := packets_out (srv h) @ [(sample_addr, bytes)]\<rparr>\<rparr>) ([] @ [(sample_addr, bytes)])"
    by (simp add: h_def)
  from challenged.other [OF this] show ?thesis by auto
qed

theorem connect_needs_challenge_witness:
  "\<exists>h' d. challenged sample_env sample_host [d] \<and> Svc_Connect sample_env sample_request sample_host = Inr h' \<and>
    map conn_state (clients_of h') = [SV_CLIENT_CONNECTED] \<and>
    (\<exists>bytes. Netchan_OutOfBandPrint (''challenge '' @ print_int 42) = Inr bytes \<and> snd d = bytes) \<and>
    (\<forall>h2 h3. net_from h2 = sample_addr \<and> challenges h2 = challenges h' \<and> Svc_Connect sample_env sample_request h2 = Inr h3 \<longrightarrow>
      answered h2 h3)"
proof -
  obtain d where d: "challenged sample_env sample_host [d]" using sample_challenged by blast
  have j: "holds_challenge sample_host (challenge_of sample_request) 0"
    using sample_challenge by (simp add: holds_challenge_def Net_CompareClientNetaddr_def MAX_CHALLENGES_def sample_challenge_of)
  have a: "strtol 0 (Cmd_Argv sample_request 1) = PROTOCOL" "Cmd_Argv sample_request 4 = info_string [(''name'', ''a'')]"
      "7 = (ucast (strtoul 0 (Cmd_Argv sample_request 2)) :: uint8)"
    by (simp_all only: sample_args request_numbers PROTOCOL_def)
  note n = sample_challenge(3)
  obtain bytes where url: "Netchan_OutOfBandPrint (''client_connect '' @ cv_download_url sample_env) = Inr bytes"
    using oob_print_bytes [of "''client_connect ''"] by (auto simp: sample_env_def limits)
  obtain s c where s: "Svc_Connect sample_env sample_request sample_host =
        Inr (sample_host\<lparr>challenges := (challenges sample_host)[0 := (challenges sample_host ! 0)\<lparr>ch_challenge := 0\<rparr>], srv := s\<rparr>)"
      "only_hear 0 (clients_of sample_host) (conns s)" "conns s ! 0 = c" "conn_state c = SV_CLIENT_CONNECTED"
    using connect_accepts [OF a j sample_good(1), of sample_env 0 1 bytes] sample_good(2) sample_slot sample_accepts sample_ready url
    by (auto simp: n sample_env_def sample_challenge(4) free_conn_simps accepted_def)
  let ?h = "sample_host\<lparr>challenges := (challenges sample_host)[0 := (challenges sample_host ! 0)\<lparr>ch_challenge := 0\<rparr>], srv := s\<rparr>"
  have "length (conns s) = 1" using s(2) by (simp add: only_hear_def sample_challenge(4))
  then have c: "clients_of ?h = [c]" "clients_of sample_host = [free_conn 1]"
    using s(3) by (auto simp: sample_challenge(4) length_Suc_conv)
  then have "clients_of ?h \<noteq> clients_of sample_host" using s(4) by (auto simp: free_conn_simps)
  note r = connect_needs_challenge [OF d s(1) this]
  have ch: "challenge_of sample_request = 42" by (rule sample_challenge_of)
  then have nz: "challenge_of sample_request \<noteq> 0" by simp
  have "(sint (42 :: uint32)) = 42" by simp
  then have "\<exists>bytes. Netchan_OutOfBandPrint (''challenge '' @ print_int 42) = Inr bytes \<and> snd d = bytes"
    using r nz unfolding ch by auto
  moreover have "answered h2 h3"
    if "net_from h2 = sample_addr" "challenges h2 = challenges ?h" "Svc_Connect sample_env sample_request h2 = Inr h3" for h2 h3
    using r nz that n by metis
  ultimately show ?thesis using s(1,4) c(1) d by (intro exI [of _ ?h] exI [of _ d]) auto
qed

end
