(* ===== verification/Cl_Moves.thy ===== *)
theory Cl_Moves
  imports Cl_Main Cl_Samples Sv_Connect_Laws
begin

text \<open>
  The movement commands on their way from the client to the game: each packet of the client
  repeats the two commands before the newest, so that the server makes up for two lost packets.
\<close>

section \<open>The message\<close>

definition move_bytes :: "int \<Rightarrow> user_cmd \<Rightarrow> user_cmd \<Rightarrow> user_cmd \<Rightarrow> byte list" where
  "move_bytes lf oldest old new = [word_of_int CL_CMD_MOVE] @ long_bytes lf @ user_cmd_bytes null_cmd oldest @
     user_cmd_bytes oldest old @ user_cmd_bytes old new"

lemma emits_move: "msg.emits (run_seq (move_writers lf oldest old new)) (move_bytes lf oldest old new)"
proof -
  have "msg.emits (run_seq (move_writers lf oldest old new))
     (concat [[word_of_int CL_CMD_MOVE], long_bytes lf, user_cmd_bytes null_cmd oldest,
       user_cmd_bytes oldest old, user_cmd_bytes old new])"
    unfolding move_writers_def by (intro msg.emits_run_seq) (simp add: emits_Byte emits_Long emits_DeltaUserCmd)
  then show ?thesis by (simp add: move_bytes_def)
qed

lemma length_move: "length (move_bytes lf oldest old new) \<le> 50"
  using length_user_cmd [of null_cmd oldest] length_user_cmd [of oldest old] length_user_cmd [of old new]
  by (simp add: move_bytes_def)

abbreviation next_number :: "cl_static \<Rightarrow> uint32" where
  "next_number cl \<equiv> outgoing_sequence (cls_chan cl)"

definition frame_acked :: "cl_static \<Rightarrow> int" where
  "frame_acked cl = (let f = frame (cl_world cl) in if \<not> cf_valid f \<or> demo_file cl = Some [] then -1 else cf_frame_num f)"

definition sent_moves :: "cl_static \<Rightarrow> byte list" where
  "sent_moves cl = (let n = next_number cl in move_bytes (frame_acked cl)
     (cc_cmd (cmd_at (n - 2) cl)) (cc_cmd (cmd_at (n - 1) cl)) (cc_cmd (cmd_at n cl)))"

lemma move_message_bytes: "\<exists>buf. move_message cl = Inr buf \<and> contents buf = sent_moves cl"
proof -
  let ?b = "Mem_InitBuffer (replicate 128 0) 128"
  let ?n = "next_number cl"
  have b: "wf_buf ?b" "contents ?b = []" "room ?b = 128" by (simp_all add: wf_buf_def) (simp_all add: Mem_InitBuffer_def)
  have len: "length (sent_moves cl) \<le> room ?b"
    using length_move [of "frame_acked cl" "cc_cmd (cmd_at (?n - 2) cl)" "cc_cmd (cmd_at (?n - 1) cl)" "cc_cmd (cmd_at ?n cl)"]
    by (simp add: b(3) sent_moves_def Let_def)
  from msg.emitsD [OF emits_move b(1) len [unfolded sent_moves_def Let_def]] b(2)
  show ?thesis by (auto simp: move_message_def sent_moves_def frame_acked_def Let_def)
qed

section \<open>The server reads it\<close>

lemma read_move_bytes:
  assumes "unread sb = long_bytes lf @ user_cmd_bytes null_cmd oldest @ user_cmd_bytes oldest old @ user_cmd_bytes old new @ rest"
  shows "read_move sb = ((sint (word_of_int lf :: uint32), oldest, old, new), skip_read (4 + length (user_cmd_bytes null_cmd oldest) +
      length (user_cmd_bytes oldest old) + length (user_cmd_bytes old new)) sb)"
proof -
  let ?s1 = "skip_read 4 sb"
  have 1: "Net_ReadLong sb = (sint (word_of_int lf :: uint32), ?s1)" using long_codec.rd_enc [OF assms] by simp
  have u1: "unread ?s1 = user_cmd_bytes null_cmd oldest @ user_cmd_bytes oldest old @ user_cmd_bytes old new @ rest"
    using assms by simp
  let ?s2 = "skip_read (length (user_cmd_bytes null_cmd oldest)) ?s1"
  have 2: "Net_ReadDeltaUserCmd null_cmd ?s1 = (oldest, ?s2)" using user_cmd_codec.rd_bytes [OF TrueI TrueI u1] by simp
  have u2: "unread ?s2 = user_cmd_bytes oldest old @ user_cmd_bytes old new @ rest" using assms by simp
  let ?s3 = "skip_read (length (user_cmd_bytes oldest old)) ?s2"
  have 3: "Net_ReadDeltaUserCmd oldest ?s2 = (old, ?s3)" using user_cmd_codec.rd_bytes [OF TrueI TrueI u2] by simp
  have u3: "unread ?s3 = user_cmd_bytes old new @ rest" using assms by simp
  let ?s4 = "skip_read (length (user_cmd_bytes old new)) ?s3"
  have 4: "Net_ReadDeltaUserCmd old ?s3 = (new, ?s4)" using user_cmd_codec.rd_bytes [OF TrueI TrueI u3] by simp
  have e: "?s4 = skip_read (4 + length (user_cmd_bytes null_cmd oldest) + length (user_cmd_bytes oldest old) +
      length (user_cmd_bytes old new)) sb" by (simp add: ac_simps)
  show ?thesis by (simp only: read_move_def Let_def 1 2 3 4 prod.case e)
qed

lemma read_end:
  assumes "unread sb = []" and "wf_buf sb"
  shows "Net_ReadByte sb = (-1, skip_read 1 sb)"
proof -
  have "buf_size sb \<le> read_pos sb" using assms length_contents [of sb] by (simp add: unread_def)
  then show ?thesis by (simp add: Net_ReadByte_def)
qed

lemma parse_move:
  assumes "unread sb = move_bytes lf oldest old new" and "wf_buf sb"
  shows "\<exists>sb'. parse_commands env i 0 0 sb h =
    bindE (client_move env i (sint (word_of_int lf :: uint32), oldest, old, new) h) (\<lambda>h. Inr (h, sb'))"
proof -
  have u: "unread sb = [word_of_int CL_CMD_MOVE] @ long_bytes lf @ user_cmd_bytes null_cmd oldest @
     user_cmd_bytes oldest old @ user_cmd_bytes old new @ []" using assms(1) by (simp add: move_bytes_def)
  have c: "Net_ReadByte sb = (CL_CMD_MOVE, skip_read 1 sb)"
    using byte_codec.rd_enc [OF u] by (simp add: CL_CMD_MOVE_def)
  have "read_pos sb + length [word_of_int CL_CMD_MOVE :: byte] \<le> buf_size sb" by (rule reads [OF u]) simp
  then have pos: "\<not> read_pos sb > buf_size sb" by simp
  have "unread (skip_read 1 sb) = long_bytes lf @ user_cmd_bytes null_cmd oldest @
     user_cmd_bytes oldest old @ user_cmd_bytes old new @ []" using u by simp
  note m = read_move_bytes [OF this]
  let ?e = "skip_read (length (move_bytes lf oldest old new)) sb"
  have e: "unread ?e = []" "wf_buf ?e" "\<not> read_pos ?e > buf_size ?e"
    using assms(1) assms(2) reads [of sb "move_bytes lf oldest old new" "[]"]
    by (simp, simp add: wf_buf_def skip_read_def, simp add: move_bytes_def skip_read_def)
  have r: "read_move (skip_read 1 sb) = ((sint (word_of_int lf :: uint32), oldest, old, new), ?e)"
    using m by (simp add: move_bytes_def ac_simps)
  have fin: "parse_commands env i 1 0 ?e h' = Inr (h', skip_read 1 ?e)" for h'
    using read_end [OF e(1,2)] e(3) by (subst parse_commands.simps) simp
  then have fin: "parse_commands env i (Suc 0) 0 ?e = (\<lambda>h. Inr (h, skip_read 1 ?e))" by auto
  show ?thesis
    using c pos r fin by (subst parse_commands.simps) (auto simp: CL_CMD_MOVE_def CL_CMD_USER_INFO_def CMD_MAX_MOVES_def)
qed

section \<open>The ring of commands\<close>

text \<open>The command that \<open>Cl_SendCmd\<close> sends as the newest\<close>

definition sent_cmd :: "cl_static \<Rightarrow> user_cmd" where
  "sent_cmd cl = cc_cmd (cmd_at (next_number cl) (Cl_FinalizeCmd cl))"

text \<open>
  A client that plays: it adds to the newest command, sends it, and does anything else that leaves the
  commands and the number of the next packet alone. The list has the commands that it has sent.
\<close>

inductive plays :: "user_cmd list \<Rightarrow> cl_static \<Rightarrow> bool" where
  Start: "length (cl_cmds cl) = CMD_BACKUP \<Longrightarrow> plays [] cl"
| Adds: "plays cs cl \<Longrightarrow> plays cs (Cl_UpdateCmd env cl)"
| Other: "plays cs cl \<Longrightarrow> cl_cmds cl' = cl_cmds cl \<Longrightarrow> next_number cl' = next_number cl \<Longrightarrow> plays cs cl'"
| Sends: "plays cs cl \<Longrightarrow> cls_state cl = CL_ACTIVE \<Longrightarrow> Cl_SendCmd env cl = Inr cl' \<Longrightarrow>
    next_number cl' = next_number cl + 1 \<Longrightarrow> plays (cs @ [sent_cmd cl]) cl'"

lemma slots_differ: "0 < k \<Longrightarrow> k < CMD_BACKUP \<Longrightarrow> cmd_slot (n - of_nat k) \<noteq> cmd_slot n"
proof
  assume k: "0 < k" "k < CMD_BACKUP" and eq: "cmd_slot (n - of_nat k) = cmd_slot n"
  have s: "int (cmd_slot m) = uint m mod 64" for m by (simp add: cmd_slot_def CMD_BACKUP_def zmod_int)
  have "uint (of_nat k :: uint32) = int k" using k by (simp add: CMD_BACKUP_def unsigned_of_nat take_bit_nat_eq_self)
  moreover have "uint (x - y) = (uint x - uint y) mod 2 ^ 32" for x y :: uint32
    by (simp only: uint_word_ariths) simp
  ultimately have d: "uint (n - of_nat k) = (uint n - int k) mod 2 ^ 32" by simp
  have "uint (n - of_nat k) mod 64 = (uint n - int k) mod 64" unfolding d by (rule mod_mod_cancel) simp
  moreover have "uint (n - of_nat k) mod 64 = uint n mod 64" using arg_cong [OF eq, of int] by (simp only: s)
  ultimately have "(uint n - int k) mod 64 = uint n mod 64" by (rule trans [OF sym])
  then have "64 dvd int k" by (simp add: mod_eq_dvd_iff)
  then show False using k zdvd_imp_le [of 64 "int k"] by (simp add: CMD_BACKUP_def)
qed

lemma cmd_at_set: "length (cl_cmds cl) = CMD_BACKUP \<Longrightarrow>
    cmd_at m (set_cmd n c cl) = (if cmd_slot m = cmd_slot n then c else cmd_at m cl)"
  by (simp add: cmd_at_def set_cmd_def cmd_slot_def CMD_BACKUP_def)

lemma set_cmd_simps [simp]: "length (cl_cmds (set_cmd n c cl)) = length (cl_cmds cl)" "next_number (set_cmd n c cl) = next_number cl"
  by (simp_all add: set_cmd_def)

lemma update_keeps:
  "length (cl_cmds cl) = CMD_BACKUP \<Longrightarrow> cmd_slot m \<noteq> cmd_slot (next_number cl) \<Longrightarrow> cmd_at m (Cl_UpdateCmd env cl) = cmd_at m cl"
  "length (cl_cmds (Cl_UpdateCmd env cl)) = length (cl_cmds cl)" "next_number (Cl_UpdateCmd env cl) = next_number cl"
  by (simp_all add: Cl_UpdateCmd_def Let_def cmd_at_set) (simp add: cmd_at_def)

lemma finalize_keeps:
  "length (cl_cmds cl) = CMD_BACKUP \<Longrightarrow> cmd_slot m \<noteq> cmd_slot (next_number cl) \<Longrightarrow> cmd_at m (Cl_FinalizeCmd cl) = cmd_at m cl"
  "length (cl_cmds (Cl_FinalizeCmd cl)) = length (cl_cmds cl)" "next_number (Cl_FinalizeCmd cl) = next_number cl"
  by (simp_all add: Cl_FinalizeCmd_def Let_def cmd_at_set)

lemma init_keeps:
  "length (cl_cmds cl) = CMD_BACKUP \<Longrightarrow> cmd_slot m \<noteq> cmd_slot (next_number cl) \<Longrightarrow> cmd_at m (Cl_InitCmd cl) = cmd_at m cl"
  "length (cl_cmds (Cl_InitCmd cl)) = length (cl_cmds cl)" "next_number (Cl_InitCmd cl) = next_number cl"
  by (simp_all add: Cl_InitCmd_def Let_def cmd_at_set)

lemma finalize_cmds:
  "cl_cmds cl1 = cl_cmds cl \<Longrightarrow> next_number cl1 = next_number cl \<Longrightarrow> packet_delta cl1 = packet_delta cl \<Longrightarrow>
    cl_cmds (Cl_FinalizeCmd cl1) = cl_cmds (Cl_FinalizeCmd cl)"
  by (simp add: Cl_FinalizeCmd_def Let_def set_cmd_def cmd_at_def)

lemma write_keeps:
  "cl_write ws cl = Inr cl' \<Longrightarrow> cl_cmds cl' = cl_cmds cl \<and> next_number cl' = next_number cl \<and> packet_delta cl' = packet_delta cl"
  by (auto simp: cl_write_def bindE_eq_Inr)

lemma transmit_keeps: "cl_transmit env bs cl = Inr cl' \<Longrightarrow> cl_cmds cl' = cl_cmds cl"
  by (auto simp: cl_transmit_def bindE_eq_Inr)

lemma send_cmds:
  assumes "cls_state cl = CL_ACTIVE" and "Cl_SendCmd env cl = Inr cl'"
  shows "\<exists>cl3. cl' = Cl_InitCmd cl3 \<and> cl_cmds cl3 = cl_cmds (Cl_FinalizeCmd cl)"
proof -
  define cl1 where "cl1 = (if user_info_modified cl then
      (case cl_write [Net_WriteByte CL_CMD_USER_INFO, Net_WriteString (Some (cl_user_info env))] cl of
         Inr c \<Rightarrow> c\<lparr>user_info_modified := False\<rparr> | Inl e \<Rightarrow> cl) else cl)"
  have cl1: "cl_cmds cl1 = cl_cmds cl" "next_number cl1 = next_number cl" "packet_delta cl1 = packet_delta cl"
    by (auto simp: cl1_def dest: write_keeps split: sum.split)
  have "\<exists>buf cl2. cl_transmit env (contents buf) (Cl_FinalizeCmd cl1) = Inr cl2 \<and>
      cl' = Cl_InitCmd (cl2\<lparr>packet_counter := packet_counter cl2 + 1\<rparr>)"
    using assms by (auto simp: Cl_SendCmd_def Let_def bindE_eq_Inr cl1_def split: if_splits; blast)
  then obtain cl2 where "cl_cmds cl2 = cl_cmds (Cl_FinalizeCmd cl1)"
      "cl' = Cl_InitCmd (cl2\<lparr>packet_counter := packet_counter cl2 + 1\<rparr>)"
    using transmit_keeps by blast
  then show ?thesis using finalize_cmds [OF cl1] by (intro exI [of _ "cl2\<lparr>packet_counter := packet_counter cl2 + 1\<rparr>"]) simp
qed

lemma ring_commands:
  assumes "plays cs cl"
  shows "length (cl_cmds cl) = CMD_BACKUP \<and> (\<forall>j. Suc j < CMD_BACKUP \<and> j < length cs \<longrightarrow>
    cc_cmd (cmd_at (next_number cl - of_nat (Suc j)) cl) = cs ! (length cs - Suc j))"
  using assms
proof induction
  case (Start cl)
  then show ?case by simp
next
  case (Adds cs cl env)
  have "cmd_at (next_number cl - of_nat (Suc j)) (Cl_UpdateCmd env cl) = cmd_at (next_number cl - of_nat (Suc j)) cl"
    if "Suc j < CMD_BACKUP" for j
    using update_keeps(1) [of cl "next_number cl - of_nat (Suc j)" env] slots_differ [of "Suc j" "next_number cl"] that Adds.IH by simp
  then show ?case using Adds.IH update_keeps(2,3) [of env cl] by simp
next
  case (Other cs cl cl')
  then show ?case by (simp add: cmd_at_def)
next
  case (Sends cs cl env cl')
  obtain cl3 where cl3: "cl' = Cl_InitCmd cl3" "cl_cmds cl3 = cl_cmds (Cl_FinalizeCmd cl)"
    using send_cmds [OF Sends.hyps(2,3)] by blast
  have len: "length (cl_cmds cl3) = CMD_BACKUP" "length (cl_cmds cl) = CMD_BACKUP" using Sends.IH cl3(2) finalize_keeps(2) by simp_all
  have n: "next_number cl3 = next_number cl + 1" using Sends.hyps(4) cl3(1) init_keeps(3) by metis
  have at: "cmd_at m cl' = cmd_at m (Cl_FinalizeCmd cl)" if "cmd_slot m \<noteq> cmd_slot (next_number cl + 1)" for m
    using init_keeps(1) [OF len(1), of m] that n cl3 by (simp add: cmd_at_def)
  have "cc_cmd (cmd_at (next_number cl' - of_nat (Suc j)) cl') = (cs @ [sent_cmd cl]) ! (length (cs @ [sent_cmd cl]) - Suc j)"
    if j: "Suc j < CMD_BACKUP" "j < length (cs @ [sent_cmd cl])" for j
  proof -
    have "cmd_slot (next_number cl' - of_nat (Suc j)) \<noteq> cmd_slot (next_number cl + 1)"
      using slots_differ [of "Suc j" "next_number cl'"] j Sends.hyps(4) by simp
    then have a: "cmd_at (next_number cl' - of_nat (Suc j)) cl' = cmd_at (next_number cl - of_nat j) (Cl_FinalizeCmd cl)"
      using at Sends.hyps(4) by simp
    show ?thesis
    proof (cases j)
      case 0
      then show ?thesis using a by (simp add: sent_cmd_def nth_append)
    next
      case (Suc k)
      then have "cmd_slot (next_number cl - of_nat j) \<noteq> cmd_slot (next_number cl)" using slots_differ [of j "next_number cl"] j by simp
      then have "cmd_at (next_number cl - of_nat j) (Cl_FinalizeCmd cl) = cmd_at (next_number cl - of_nat (Suc k)) cl"
        using finalize_keeps(1) [OF len(2)] Suc by simp
      moreover have "cc_cmd (cmd_at (next_number cl - of_nat (Suc k)) cl) = cs ! (length cs - Suc k)"
        using Sends.IH j Suc by simp
      ultimately show ?thesis using a j Suc by (simp add: nth_append)
    qed
  qed
  then show ?case using cl3(1) len(1) init_keeps(2) by simp
qed

section \<open>What the game runs\<close>

lemma recovered_few:
  assumes "d \<le> 2"
  shows "recovered (of_nat d) last_one oldest old new = drop (2 - d) [oldest, old, new]"
proof -
  consider "d = 0" | "d = 1" | "d = 2" using assms by linarith
  then show ?thesis by cases (simp_all add: recovered_def Let_def)
qed

lemma finalized_moves:
  assumes "plays cs cl"
  shows "\<exists>oldest old. sent_moves (Cl_FinalizeCmd cl) = move_bytes (frame_acked cl) oldest old (sent_cmd cl) \<and>
    (\<forall>d \<le> 2. d \<le> length cs \<longrightarrow> drop (2 - d) [oldest, old, sent_cmd cl] = drop (length cs - d) (cs @ [sent_cmd cl]))"
proof -
  let ?n = "next_number cl"
  let ?f = "Cl_FinalizeCmd cl"
  have len: "length (cl_cmds cl) = CMD_BACKUP" using ring_commands [OF assms] by simp
  have k: "cc_cmd (cmd_at (?n - of_nat (Suc j)) ?f) = cs ! (length cs - Suc j)" if "Suc j < CMD_BACKUP" "j < length cs" for j
    using ring_commands [OF assms] finalize_keeps(1) [OF len, of "?n - of_nat (Suc j)"] slots_differ [of "Suc j" ?n] that by simp
  have old: "cc_cmd (cmd_at (?n - 1) ?f) = cs ! (length cs - 1)" if "0 < length cs"
    using k [of 0] that by (simp add: CMD_BACKUP_def)
  have oldest: "cc_cmd (cmd_at (?n - 2) ?f) = cs ! (length cs - 2)" if "1 < length cs"
    using k [of 1] that by (simp add: CMD_BACKUP_def numeral_2_eq_2)
  let ?o = "cc_cmd (cmd_at (?n - 1) ?f)" and ?oo = "cc_cmd (cmd_at (?n - 2) ?f)"
  have "frame_acked ?f = frame_acked cl"
    by (simp add: frame_acked_def Cl_FinalizeCmd_def set_cmd_def Let_def)
  then have 1: "sent_moves ?f = move_bytes (frame_acked cl) ?oo ?o (sent_cmd cl)"
    by (simp add: sent_moves_def Let_def finalize_keeps(3) sent_cmd_def)
  have "drop (2 - d) [?oo, ?o, sent_cmd cl] = drop (length cs - d) (cs @ [sent_cmd cl])" if d: "d \<le> 2" "d \<le> length cs" for d
  proof -
    consider "d = 0" | "d = 1" | "d = 2" using d by linarith
    then show ?thesis
    proof cases
      case 2
      then have "drop (length cs - 1) cs = [cs ! (length cs - 1)]"
        using d by (simp add: Cons_nth_drop_Suc [symmetric])
      moreover have "0 < length cs" using 2 d by linarith
      ultimately show ?thesis using 2 old d(2) unfolding drop_append by simp
    next
      case 3
      then have "drop (length cs - 2) cs = [cs ! (length cs - 2), cs ! (length cs - 1)]"
        using d by (simp add: Cons_nth_drop_Suc [symmetric] numeral_2_eq_2 Suc_diff_Suc)
      moreover have "0 < length cs" using 3 d by linarith
      ultimately show ?thesis using 3 old oldest d by simp
    qed simp
  qed
  then show ?thesis using 1 by blast
qed

text \<open>What a client sends that has nothing reliable to send\<close>

definition quiet :: "net_chan \<Rightarrow> bool" where
  "quiet ch \<longleftrightarrow> wf_chan ch \<and> \<not> overflowed (message ch) \<and> \<not> Netchan_NeedReliable ch \<and> source ch = NS_UDP_CLIENT"

lemma sends_moves:
  assumes "cls_state cl = CL_ACTIVE" and "\<not> user_info_modified cl" and quiet: "quiet (cls_chan cl)"
  shows "\<exists>cl'. Cl_SendCmd env cl = Inr cl' \<and> next_number cl' = next_number cl + 1 \<and>
    cls_chan cl' = sent_chan (cl_now env) (cls_chan cl) \<and> cls_state cl' = cls_state cl \<and> user_info_modified cl' = user_info_modified cl \<and>
    cls_out cl' = cls_out cl @ [(remote_address (cls_chan cl), packet_bytes NS_UDP_CLIENT (qport (cls_chan cl))
      \<lparr>pk_seq = unat (next_number cl), pk_rel = False, pk_ack = unat (incoming_sequence (cls_chan cl)),
       pk_rack = (incoming_reliable_sequence (cls_chan cl) = 1), pk_payload = sent_moves (Cl_FinalizeCmd cl)\<rparr>)]"
proof -
  let ?f = "Cl_FinalizeCmd cl" and ?ch = "cls_chan cl"
  have f: "cls_chan ?f = ?ch" "cls_out ?f = cls_out cl" "cls_state ?f = cls_state cl" "user_info_modified ?f = user_info_modified cl" by (simp_all add: Cl_FinalizeCmd_def set_cmd_def Let_def)
  obtain buf where buf: "move_message ?f = Inr buf" "contents buf = sent_moves ?f" using move_message_bytes by blast
  have len: "length (sent_moves ?f) \<le> 50" unfolding sent_moves_def Let_def by (rule length_move)
  have q: "wf_chan ?ch" "\<not> overflowed (message ?ch)" "\<not> Netchan_NeedReliable ?ch" "source ?ch = NS_UDP_CLIENT"
    using quiet by (simp_all add: quiet_def)
  have st: "\<not> stages ?ch" using q(3) by (auto simp: Netchan_NeedReliable_def stages_def Let_def split: if_splits)
  have p: "sent_packet ?ch (sent_moves ?f) = \<lparr>pk_seq = unat (next_number cl), pk_rel = False, pk_ack = unat (incoming_sequence ?ch),
       pk_rack = (incoming_reliable_sequence ?ch = 1), pk_payload = sent_moves ?f\<rparr>"
    using q(3,4) len by (simp add: sent_packet_def Let_def qport_bytes_def limits)
  have r: "remote_address (sent_chan now ?ch) = remote_address ?ch" for now
    using q(3) st by (simp add: sent_chan_def stage_unchanged Let_def)
  have n: "outgoing_sequence (sent_chan now ?ch) = outgoing_sequence ?ch + 1" for now by (simp add: sent_chan_def Let_def)
  show ?thesis
    using assms(1,2) buf Transmit_sends [OF q(1,2), of "cl_now env" "sent_moves ?f"] p r n f q(4)
    by (simp add: Cl_SendCmd_def Let_def cl_transmit_def init_keeps(3))
      (simp add: Cl_InitCmd_def Let_def set_cmd_def)
qed

lemma acknowledge_keeps:
  "acknowledge lf now c = Inr c' \<Longrightarrow> conn_state c' = conn_state c \<and> chan c' = chan c \<and> last_cmd c' = last_cmd c"
  by (auto simp: acknowledge_def Let_def bindE_eq_Inr split: if_splits)

lemma active_move:
  assumes "client_at i h = Inr c" and "conn_state c = SV_CLIENT_ACTIVE"
  shows "client_move env i (lf, oldest, old, new) h =
    bindE (on_run (with_conn i (acknowledge lf (real_time h))) h) (\<lambda>h.
    bindE (on_run (run_seq (map (Sv_ClientThink (game env) i) (recovered (dropped (chan c)) (last_cmd c) oldest old new))) h)
      (on_run (with_conn i (\<lambda>cl. Inr (cl\<lparr>last_cmd := new\<rparr>)))))"
proof (cases "acknowledge lf (real_time h) c")
  case (Inl e)
  then show ?thesis using assms(1) by (simp add: client_move_def on_run_def with_conn_def client_at_def)
next
  case (Inr c')
  have i: "i < length (clients_of h)" using assms(1) by (auto simp: client_at_def at_index_eq_Inr)
  then have "client_at i (h\<lparr>srv := set_conn i c' (srv h)\<rparr>) = Inr c'"
    by (simp add: client_at_def at_index_def set_conn_def)
  then show ?thesis using assms Inr acknowledge_keeps [OF Inr]
    by (simp add: client_move_def on_run_def with_conn_def client_at_def)
qed

text \<open>
  What the server does for a packet with movement: it notes the frame that the client has, runs the
  commands and remembers the newest.
\<close>

definition runs_moves :: "sv_env \<Rightarrow> nat \<Rightarrow> int \<Rightarrow> user_cmd list \<Rightarrow> host \<Rightarrow> host result" where
  "runs_moves env i lf cmds h =
     bindE (on_run (with_conn i (acknowledge lf (real_time h))) h) (\<lambda>h.
     bindE (on_run (run_seq (map (Sv_ClientThink (game env) i) cmds)) h)
       (on_run (with_conn i (\<lambda>cl. Inr (cl\<lparr>last_cmd := last cmds\<rparr>)))))"

lemma packet_moves:
  assumes c: "client_at i h = Inr c" "conn_state c = SV_CLIENT_ACTIVE" "source (chan c) = NS_UDP_SERVER"
    and p: "contents (net_message h) = packet_bytes NS_UDP_CLIENT q p" "wf_buf (net_message h)"
      "pk_payload p = move_bytes lf oldest old new" "seq_ok (pk_seq p)" "seq_ok (pk_ack p)"
    and d: "pk_seq p = unat (incoming_sequence (chan c)) + 1 + d" "d \<le> 2"
  shows "\<exists>ch msg sb. unat (incoming_sequence ch) = pk_seq p \<and>
    client_packet env i h = bindE (runs_moves env i (sint (word_of_int lf :: uint32)) (drop (2 - d) [oldest, old, new])
      (h\<lparr>srv := set_conn i (c\<lparr>chan := ch, last_message := real_time h\<rparr>) (srv h), net_message := msg\<rparr>)) (\<lambda>h. Inr (h\<lparr>net_message := sb\<rparr>))"
proof -
  let ?ch = "(chan c)\<lparr>remote_address := (remote_address (chan c))\<lparr>port := port (net_from h)\<rparr>\<rparr>"
  define ch where "ch = recv_chan (time_now (srv h)) ?ch p"
  define msg where "msg = after_header NS_UDP_CLIENT (net_message h)"
  have "source ?ch \<noteq> NS_UDP_CLIENT" using c(3) by simp
  note pr = Process_packet [OF p(1) this p(4,5)]
  have acc: "Netchan_Process (time_now (srv h)) ?ch (net_message h) = (True, ch, msg)"
    using pr(1) [of "time_now (srv h)"] d(1) by (simp add: ch_def msg_def)
  define h1 where "h1 = h\<lparr>srv := set_conn i (c\<lparr>chan := ch, last_message := real_time h\<rparr>) (srv h), net_message := msg\<rparr>"
  have i: "i < length (clients_of h)" using c(1) by (auto simp: client_at_def at_index_eq_Inr)
  have c1: "client_at i h1 = Inr (c\<lparr>chan := ch, last_message := real_time h\<rparr>)"
    using i by (simp add: h1_def client_at_def at_index_def set_conn_def)
  have 1: "client_packet env i h = Sv_ParseClientMessage env i h1"
    using c(1) by (simp add: client_packet_def Let_def acc h1_def)
  have u: "unread msg = move_bytes lf oldest old new" using pr(2) p(3) by (simp add: msg_def)
  have w: "wf_buf msg" using p(2) by (simp add: msg_def after_header_def wf_buf_def skip_read_def Net_BeginReading_def)
  obtain sb where sb: "parse_commands env i 0 0 msg h1 =
      bindE (client_move env i (sint (word_of_int lf :: uint32), oldest, old, new) h1) (\<lambda>h. Inr (h, sb))"
    using parse_move [OF u w] by blast
  have "word_of_nat (pk_seq p) - (incoming_sequence (chan c) + 1) = (of_nat d :: uint32)"
    using d(1) by simp
  then have dr: "dropped ch = of_nat d" by (simp add: ch_def recv_chan_def)
  have mv: "client_move env i (sint (word_of_int lf :: uint32), oldest, old, new) h1 =
      runs_moves env i (sint (word_of_int lf :: uint32)) (drop (2 - d) [oldest, old, new]) h1"
    using active_move [OF c1, of env "sint (word_of_int lf :: uint32)" oldest old new] c(2) dr d(2)
    by (simp add: runs_moves_def recovered_few last_drop)
  have "client_packet env i h = bindE (runs_moves env i (sint (word_of_int lf :: uint32)) (drop (2 - d) [oldest, old, new]) h1)
      (\<lambda>h. Inr (h\<lparr>net_message := sb\<rparr>))"
    using 1 sb mv by (simp add: Sv_ParseClientMessage_def h1_def bindE_assoc)
  moreover have "unat (incoming_sequence ch) = pk_seq p" using p(4) by (simp add: ch_def unat_seq)
  ultimately show ?thesis unfolding h1_def by blast
qed

section \<open>A client that has lost two packets\<close>

lemma quiet_sent: "quiet ch \<Longrightarrow> quiet (sent_chan now ch)"
proof -
  assume q: "quiet ch"
  then have st: "\<not> stages ch" by (auto simp: quiet_def Netchan_NeedReliable_def stages_def Let_def split: if_splits)
  then have "sent_chan now ch = ch\<lparr>outgoing_sequence := outgoing_sequence ch + 1, last_sent := now\<rparr>"
    using q by (simp add: quiet_def sent_chan_def stage_unchanged Let_def)
  then show ?thesis using q by (simp add: quiet_def wf_chan_def Netchan_NeedReliable_def)
qed

lemma two_lost:
  "\<exists>cs cl. plays cs cl \<and> length cs = 2 \<and> cls_state cl = CL_ACTIVE \<and> \<not> user_info_modified cl \<and> quiet (cls_chan cl) \<and>
    next_number cl = 3 \<and> incoming_sequence (cls_chan cl) = 0"
proof -
  let ?s = "sample_cl\<lparr>cls_state := CL_ACTIVE\<rparr>"
  have q: "quiet (cls_chan ?s)" "next_number ?s = 1" "incoming_sequence (cls_chan ?s) = 0"
    using wf_Setup [of 0 NS_UDP_CLIENT sample_server_addr 7]
    by (simp_all add: quiet_def sample_cl_def Netchan_NeedReliable_def) (simp_all add: Netchan_Setup_def Mem_InitBuffer_def)
  have p: "plays [] ?s" by (rule plays.Start) (simp add: sample_cl_def)
  have u: "cls_state ?s = CL_ACTIVE" "\<not> user_info_modified ?s" by (simp_all add: sample_cl_def)
  obtain s1 where s1: "Cl_SendCmd sample_cl_env ?s = Inr s1" "next_number s1 = next_number ?s + 1"
      "cls_chan s1 = sent_chan (cl_now sample_cl_env) (cls_chan ?s)" "cls_state s1 = CL_ACTIVE" "\<not> user_info_modified s1"
    using sends_moves [OF u q(1), of sample_cl_env] u by auto
  have q1: "quiet (cls_chan s1)" "incoming_sequence (cls_chan s1) = 0" using s1(3) q quiet_sent by simp_all
  obtain s2 where s2: "Cl_SendCmd sample_cl_env s1 = Inr s2" "next_number s2 = next_number s1 + 1"
      "cls_chan s2 = sent_chan (cl_now sample_cl_env) (cls_chan s1)" "cls_state s2 = CL_ACTIVE" "\<not> user_info_modified s2"
    using sends_moves [OF s1(4,5) q1(1), of sample_cl_env] s1(4,5) by auto
  have "plays (([] @ [sent_cmd ?s]) @ [sent_cmd s1]) s2"
    using plays.Sends [OF plays.Sends [OF p u(1) s1(1,2)] s1(4) s2(1,2)] .
  moreover have "quiet (cls_chan s2)" "incoming_sequence (cls_chan s2) = 0" using s2(3) q1 quiet_sent by simp_all
  moreover have "next_number s2 = 3" using s1(2) s2(2) q(2) by simp
  ultimately show ?thesis using s2(4,5) by (intro exI [of _ "[sent_cmd ?s, sent_cmd s1]"] exI [of _ s2]) simp
qed

lemma moves_fit:
  assumes "cls_state cl = CL_ACTIVE" and "\<not> user_info_modified cl" and "quiet (cls_chan cl)"
  shows "\<exists>cl' a bytes. Cl_SendCmd env cl = Inr cl' \<and> cls_out cl' = cls_out cl @ [(a, bytes)] \<and> length bytes \<le> MAX_MSG_SIZE"
proof -
  have "length (sent_moves (Cl_FinalizeCmd cl)) \<le> 50" unfolding sent_moves_def Let_def by (rule length_move)
  then have "length (packet_bytes NS_UDP_CLIENT q \<lparr>pk_seq = s, pk_rel = False, pk_ack = k, pk_rack = r,
      pk_payload = sent_moves (Cl_FinalizeCmd cl)\<rparr>) \<le> MAX_MSG_SIZE" for q s k r
    by (simp add: packet_bytes_def qport_bytes_def limits)
  then show ?thesis using sends_moves [OF assms, of env] by auto
qed

definition playing_conn :: conn where
  "playing_conn = (free_conn 1)\<lparr>conn_state := SV_CLIENT_ACTIVE, chan := Netchan_Setup 0 NS_UDP_SERVER sample_addr 7\<rparr>"

definition playing_host :: "byte list \<Rightarrow> host" where
  "playing_host bytes = sample_host\<lparr>srv := (srv sample_host)\<lparr>conns := [playing_conn]\<rparr>, net_message := arrived bytes\<rparr>"

text \<open>
  C36: The movement commands end to end. A client that plays and has nothing reliable to send sends one
  datagram. When the server receives it after at most two datagrams have been lost, and whatever
  the client has done between its packets, the server has the game run exactly the commands
  of the client that it has not seen yet, in the order they were given, once each, as the client made them,
  and remembers the newest one.
\<close>

theorem moves_recovered:
  assumes client: "plays cs cl" "cls_state cl = CL_ACTIVE" "\<not> user_info_modified cl"
    and chan: "quiet (cls_chan cl)" "seq_ok (unat (next_number cl))" "seq_ok (unat (incoming_sequence (cls_chan cl)))"
    and server: "client_at i h = Inr c" "conn_state c = SV_CLIENT_ACTIVE" "source (chan c) = NS_UDP_SERVER"
    and lost: "unat (next_number cl) = unat (incoming_sequence (chan c)) + 1 + d" "d \<le> 2" "d \<le> length cs"
  shows "\<exists>cl' a bytes. Cl_SendCmd env cl = Inr cl' \<and> plays (cs @ [sent_cmd cl]) cl' \<and> cls_out cl' = cls_out cl @ [(a, bytes)] \<and>
    (received bytes (net_message h) \<longrightarrow> (\<exists>ch msg sb lf. unat (incoming_sequence ch) = unat (next_number cl) \<and>
      client_packet senv i h = bindE (runs_moves senv i lf (drop (length cs - d) (cs @ [sent_cmd cl]))
        (h\<lparr>srv := set_conn i (c\<lparr>chan := ch, last_message := real_time h\<rparr>) (srv h), net_message := msg\<rparr>)) (\<lambda>h. Inr (h\<lparr>net_message := sb\<rparr>))))"
proof -
  obtain cl' where cl': "Cl_SendCmd env cl = Inr cl'" "next_number cl' = next_number cl + 1"
    "cls_out cl' = cls_out cl @ [(remote_address (cls_chan cl), packet_bytes NS_UDP_CLIENT (qport (cls_chan cl))
      \<lparr>pk_seq = unat (next_number cl), pk_rel = False, pk_ack = unat (incoming_sequence (cls_chan cl)),
       pk_rack = (incoming_reliable_sequence (cls_chan cl) = 1), pk_payload = sent_moves (Cl_FinalizeCmd cl)\<rparr>)]"
    using sends_moves [OF client(2,3) chan(1)] by blast
  obtain oldest old where m: "sent_moves (Cl_FinalizeCmd cl) = move_bytes (frame_acked cl) oldest old (sent_cmd cl)"
      "drop (2 - d) [oldest, old, sent_cmd cl] = drop (length cs - d) (cs @ [sent_cmd cl])"
    using finalized_moves [OF client(1)] lost(2,3) by blast
  have "plays (cs @ [sent_cmd cl]) cl'" using plays.Sends [OF client(1,2) cl'(1,2)] .
  let ?p = "\<lparr>pk_seq = unat (next_number cl), pk_rel = False, pk_ack = unat (incoming_sequence (cls_chan cl)),
       pk_rack = (incoming_reliable_sequence (cls_chan cl) = 1), pk_payload = sent_moves (Cl_FinalizeCmd cl)\<rparr>"
  let ?b = "packet_bytes NS_UDP_CLIENT (qport (cls_chan cl)) ?p"
  have "\<exists>ch msg sb lf. unat (incoming_sequence ch) = unat (next_number cl) \<and>
      client_packet senv i h = bindE (runs_moves senv i lf (drop (length cs - d) (cs @ [sent_cmd cl]))
        (h\<lparr>srv := set_conn i (c\<lparr>chan := ch, last_message := real_time h\<rparr>) (srv h), net_message := msg\<rparr>)) (\<lambda>h. Inr (h\<lparr>net_message := sb\<rparr>))"
    if "received ?b (net_message h)"
  proof -
    have r: "contents (net_message h) = ?b" "wf_buf (net_message h)" using that by (simp_all add: received_def)
    have s: "pk_payload ?p = move_bytes (frame_acked cl) oldest old (sent_cmd cl)" "seq_ok (pk_seq ?p)" "seq_ok (pk_ack ?p)"
        "pk_seq ?p = unat (incoming_sequence (chan c)) + 1 + d"
      using m(1) chan(2,3) lost(1) by simp_all
    show ?thesis using packet_moves [OF server r s lost(2), of senv] m(2) by (simp only: packet.select_convs) blast
  qed
  moreover have "plays (cs @ [sent_cmd cl]) cl'" using plays.Sends [OF client(1,2) cl'(1,2)] .
  ultimately show ?thesis using cl'(1,3) by blast
qed

theorem moves_recovered_witness:
  "\<exists>cs cl bytes ch msg sb lf. plays cs cl \<and> length cs = 2 \<and>
    client_packet sample_env 0 (playing_host bytes) = bindE (runs_moves sample_env 0 lf (cs @ [sent_cmd cl])
        ((playing_host bytes)\<lparr>srv := set_conn 0 (playing_conn\<lparr>chan := ch, last_message := real_time (playing_host bytes)\<rparr>)
          (srv (playing_host bytes)), net_message := msg\<rparr>)) (\<lambda>h. Inr (h\<lparr>net_message := sb\<rparr>))"
proof -
  obtain cs cl where cl: "plays cs cl" "length cs = 2" "cls_state cl = CL_ACTIVE" "\<not> user_info_modified cl" "quiet (cls_chan cl)"
      "next_number cl = 3" "incoming_sequence (cls_chan cl) = 0"
    using two_lost by blast
  obtain cl' a' b where b: "Cl_SendCmd sample_cl_env cl = Inr cl'" "cls_out cl' = cls_out cl @ [(a', b)]" "length b \<le> MAX_MSG_SIZE"
    using moves_fit [OF cl(3-5)] by blast
  let ?h = "playing_host b"
  have at: "client_at 0 ?h = Inr playing_conn" by (simp add: client_at_def at_index_def playing_host_def)
  have conn: "conn_state playing_conn = SV_CLIENT_ACTIVE" "source (chan playing_conn) = NS_UDP_SERVER"
      "unat (next_number cl) = unat (incoming_sequence (chan playing_conn)) + 1 + 2"
    using cl(6) by (simp_all add: playing_conn_def Netchan_Setup_def)
  have ok: "seq_ok (unat (next_number cl))" "seq_ok (unat (incoming_sequence (cls_chan cl)))" "2 \<le> length cs"
    using cl(2,6,7) by (simp_all add: seq_ok_def)
  have all: "drop (length cs - 2) (cs @ [sent_cmd cl]) = cs @ [sent_cmd cl]" using cl(2) by simp
  obtain cl2 a bytes where m: "Cl_SendCmd sample_cl_env cl = Inr cl2" "cls_out cl2 = cls_out cl @ [(a, bytes)]"
      "received bytes (net_message ?h) \<longrightarrow> (\<exists>ch msg sb lf. unat (incoming_sequence ch) = unat (next_number cl) \<and>
        client_packet sample_env 0 ?h = bindE (runs_moves sample_env 0 lf (cs @ [sent_cmd cl])
        (?h\<lparr>srv := set_conn 0 (playing_conn\<lparr>chan := ch, last_message := real_time ?h\<rparr>) (srv ?h), net_message := msg\<rparr>)) (\<lambda>h. Inr (h\<lparr>net_message := sb\<rparr>)))"
    using moves_recovered [OF cl(1,3,4,5) ok(1,2) at conn order.refl ok(3), of sample_cl_env sample_env] unfolding all by blast
  have "b = bytes" using b m(1,2) by simp
  then have "received bytes (net_message ?h)" using b(3) by (simp add: playing_host_def received_arrived)
  then show ?thesis using m(3) cl(1,2) by blast
qed

end
