(* ===== verification/Handshake.thy ===== *)
theory Handshake
  imports Sv_Connect_Laws Cl_Samples Cl_Main
begin

text \<open>
  The handshake: the client asks for a challenge, the server sends one, the client sends it back with
  its user info, the server takes it in and says so, and both have set up their ends of the channel.
\<close>

section \<open>Requests between client and server\<close>

text \<open>What may stand in a line\<close>

definition line_char :: "char \<Rightarrow> bool" where
  "line_char c \<longleftrightarrow> c \<noteq> nul \<and> c \<noteq> CHR 0xFF \<and> c \<noteq> newline"

definition line_text :: "string \<Rightarrow> bool" where
  "line_text s \<longleftrightarrow> list_all line_char s"

lemma line_text_append [simp]: "line_text (s @ t) \<longleftrightarrow> line_text s \<and> line_text t" "line_text []"
  "line_text (c # s) \<longleftrightarrow> line_char c \<and> line_text s"
  by (simp_all add: line_text_def)

lemma line_text_plain: "line_text s \<Longrightarrow> plain_string s \<and> newline \<notin> set s"
proof -
  have z: "byte_of_char nul = 0" "byte_of_char (CHR 0xFF) = 255" by code_simp+
  have "byte_of_char c \<noteq> byte_of_char d" if "c \<noteq> d" for c d using that char_of_byte_of_char by metis
  then have "byte_of_char c \<noteq> 0 \<and> byte_of_char c \<noteq> 255" if "line_char c" for c using that z by (metis line_char_def)
  then show "line_text s \<Longrightarrow> plain_string s \<and> newline \<notin> set s"
    by (auto simp: line_text_def plain_string_def list_all_iff line_char_def)
qed

lemma line_text_decimal: "line_text (decimal n)"
proof -
  have "line_char c" if "48 \<le> (of_char c :: nat) \<and> (of_char c :: nat) \<le> 57" for c
    using that by (auto simp: line_char_def)
  then show ?thesis using decimal_digits [of n] by (auto simp: line_text_def list_all_iff)
qed

lemma length_oob_bytes [simp]: "length (oob_bytes s) = 4 + length s"
  by (simp add: oob_bytes_def)

lemma first_word_oob:
  assumes "received (oob_bytes s) msg"
  shows "first_word msg = 0xffffffff"
proof -
  have "take 4 (contents msg) = replicate 4 255" using assms by (simp add: received_def oob_bytes_def)
  moreover have "4 \<le> buf_size msg" using assms length_contents [of msg] by (simp add: received_def oob_bytes_def)
  ultimately have "take 4 (buf_data msg) = replicate 4 255" by (simp add: contents_def min_def)
  moreover have "word_rcat (rev (replicate 4 (255 :: byte))) = (0xffffffff :: uint32)" by code_simp
  ultimately show ?thesis by (simp only: first_word_def)
qed

lemma tokenize_request_line:
  assumes "\<forall>p \<in> set ps. ok_piece p" and "length ps \<le> MAX_STRING_TOKENS" and "line_text (pieces_text ps)"
    and "length (pieces_text ps) < MAX_STRING_CHARS - 1" and "received (oob_bytes (pieces_text ps @ t)) msg" and "t = [] \<or> hd t = newline"
  shows "\<exists>ar. Cmd_TokenizeString cv (Some (fst (Net_ReadStringLine (snd (Net_ReadLong (Net_BeginReading msg)))))) =
    Inr \<lparr>argv = map fst ps, args = ar\<rparr>"
proof -
  have "plain_string (pieces_text ps)" "newline \<notin> set (pieces_text ps)" using line_text_plain [OF assms(3)] by simp_all
  note l = request_line [OF assms(5,6) this assms(4)]
  show ?thesis unfolding l using tokenize_request [OF assms(1,2)] assms(4) by (simp add: limits)
qed

lemma server_request:
  assumes "\<forall>p \<in> set ps. ok_piece p" "length ps \<le> MAX_STRING_TOKENS" "line_text (pieces_text ps)"
    "length (pieces_text ps) < MAX_STRING_CHARS - 1" "received (oob_bytes (pieces_text ps @ t)) msg" "t = [] \<or> hd t = newline"
  shows "\<exists>ar sb. read_packet env (adr, msg) h = (let a = \<lparr>argv = map fst ps, args = ar\<rparr>;
           h = h\<lparr>net_from := adr, net_message := sb\<rparr>; c = Cmd_Argv a 0 in
           if c = ''ping'' then Svc_Ping h
           else if c = ''ack'' then Inr h
           else if c = ''status'' then Svc_Status env h
           else if c = ''info'' then Svc_Info env a h
           else if c = ''get_challenge'' then Svc_GetChallenge h
           else if c = ''connect'' then Svc_Connect env a h
           else if c = ''rcon'' then Svc_RemoteCommand env a h
           else Inr h)"
proof -
  obtain ar where ar: "Cmd_TokenizeString (cv_string env) (Some (fst (Net_ReadStringLine (snd (Net_ReadLong (Net_BeginReading msg)))))) =
      Inr \<lparr>argv = map fst ps, args = ar\<rparr>"
    using tokenize_request_line [OF assms] by blast
  obtain l sb where r: "Net_ReadStringLine (snd (Net_ReadLong (Net_BeginReading msg))) = (l, sb)" by fastforce
  show ?thesis
    using ar first_word_oob [OF assms(5)] r
    by (intro exI [of _ ar] exI [of _ sb]) (simp add: read_packet_def Sv_ConnectionlessPacket_def Let_def)
qed

lemma client_handles:
  assumes "received (oob_bytes s) msg"
    and "Cmd_TokenizeString (cl_var env) (Some (fst (Net_ReadStringLine (snd (Net_ReadLong (Net_BeginReading msg)))))) = Inr a"
  shows "\<exists>sb. cl_read_packet env (adr, msg) cl =
      (let cl = cl\<lparr>cls_from := adr, cls_message := sb\<rparr>; c = Cmd_Argv a 0 in
           if c = ''client_connect'' then
             (if cls_state cl = CL_CONNECTED then Inr cl
              else bindE (string_cmd ''new''
                     (cl\<lparr>cls_chan := Netchan_Setup (cl_now env) NS_UDP_CLIENT (cls_from cl) (cl_qport env)\<rparr>)) (\<lambda>cl.
                   Inr (cl\<lparr>cls_state := CL_CONNECTED,
                     download_url := (if Cmd_Argc a = 2 then strlcpy (Cmd_Argv a 1) MAX_OSPATH else [])\<rparr>)))
           else if c = ''info'' then Inr (Cl_ParseServerInfo env cl)
           else if c = ''print'' then
             (case Net_ReadString (cls_message cl) of (s, sb) \<Rightarrow> Inr (log_call (Media ''Com_Print'' s) (cl\<lparr>cls_message := sb\<rparr>)))
           else if c = ''ping'' then cl_oob_print (cls_from cl) ''ack'' cl
           else if c = ''servers'' then Cl_ParseServers env cl
           else if c = ''challenge'' then
             (if cls_state cl \<noteq> CL_CONNECTING then Inr cl
              else Cl_SendConnect env (cl\<lparr>cls_challenge := word_of_int (atoi (Cmd_Argv a 1))\<rparr>))
           else Inr cl)"
proof -
  obtain l sb where r: "Net_ReadStringLine (snd (Net_ReadLong (Net_BeginReading msg))) = (l, sb)" by fastforce
  have "(-1 :: uint32) = 0xffffffff" by simp
  then have "first_word msg = -1" using first_word_oob [OF assms(1)] by simp
  then show ?thesis
    using assms(2) r by (intro exI [of _ sb]) (simp add: cl_read_packet_def Cl_ConnectionlessPacket_def Let_def)
qed

lemma client_answer:
  assumes "\<forall>p \<in> set ps. ok_piece p" "length ps \<le> MAX_STRING_TOKENS" "line_text (pieces_text ps)"
    "length (pieces_text ps) < MAX_STRING_CHARS - 1" "received (oob_bytes (pieces_text ps @ t)) msg" "t = [] \<or> hd t = newline"
  shows "\<exists>ar sb. cl_read_packet env (adr, msg) cl =
      (let a = \<lparr>argv = map fst ps, args = ar\<rparr>; cl = cl\<lparr>cls_from := adr, cls_message := sb\<rparr>; c = Cmd_Argv a 0 in
           if c = ''client_connect'' then
             (if cls_state cl = CL_CONNECTED then Inr cl
              else bindE (string_cmd ''new''
                     (cl\<lparr>cls_chan := Netchan_Setup (cl_now env) NS_UDP_CLIENT (cls_from cl) (cl_qport env)\<rparr>)) (\<lambda>cl.
                   Inr (cl\<lparr>cls_state := CL_CONNECTED,
                     download_url := (if Cmd_Argc a = 2 then strlcpy (Cmd_Argv a 1) MAX_OSPATH else [])\<rparr>)))
           else if c = ''info'' then Inr (Cl_ParseServerInfo env cl)
           else if c = ''print'' then
             (case Net_ReadString (cls_message cl) of (s, sb) \<Rightarrow> Inr (log_call (Media ''Com_Print'' s) (cl\<lparr>cls_message := sb\<rparr>)))
           else if c = ''ping'' then cl_oob_print (cls_from cl) ''ack'' cl
           else if c = ''servers'' then Cl_ParseServers env cl
           else if c = ''challenge'' then
             (if cls_state cl \<noteq> CL_CONNECTING then Inr cl
              else Cl_SendConnect env (cl\<lparr>cls_challenge := word_of_int (atoi (Cmd_Argv a 1))\<rparr>))
           else Inr cl)"
proof -
  obtain ar where "Cmd_TokenizeString (cl_var env) (Some (fst (Net_ReadStringLine (snd (Net_ReadLong (Net_BeginReading msg)))))) =
      Inr \<lparr>argv = map fst ps, args = ar\<rparr>"
    using tokenize_request_line [OF assms] by blast
  from client_handles [OF assms(5) this, of adr cl] obtain sb where "cl_read_packet env (adr, msg) cl = (let a = \<lparr>argv = map fst ps, args = ar\<rparr>; cl = cl\<lparr>cls_from := adr, cls_message := sb\<rparr>; c = Cmd_Argv a 0 in
           if c = ''client_connect'' then
             (if cls_state cl = CL_CONNECTED then Inr cl
              else bindE (string_cmd ''new''
                     (cl\<lparr>cls_chan := Netchan_Setup (cl_now env) NS_UDP_CLIENT (cls_from cl) (cl_qport env)\<rparr>)) (\<lambda>cl.
                   Inr (cl\<lparr>cls_state := CL_CONNECTED,
                     download_url := (if Cmd_Argc a = 2 then strlcpy (Cmd_Argv a 1) MAX_OSPATH else [])\<rparr>)))
           else if c = ''info'' then Inr (Cl_ParseServerInfo env cl)
           else if c = ''print'' then
             (case Net_ReadString (cls_message cl) of (s, sb) \<Rightarrow> Inr (log_call (Media ''Com_Print'' s) (cl\<lparr>cls_message := sb\<rparr>)))
           else if c = ''ping'' then cl_oob_print (cls_from cl) ''ack'' cl
           else if c = ''servers'' then Cl_ParseServers env cl
           else if c = ''challenge'' then
             (if cls_state cl \<noteq> CL_CONNECTING then Inr cl
              else Cl_SendConnect env (cl\<lparr>cls_challenge := word_of_int (atoi (Cmd_Argv a 1))\<rparr>))
           else Inr cl)"
    by (simp only: Let_def) blast
  then show ?thesis by blast
qed

section \<open>The challenge\<close>

lemma scan_found:
  "scan_challenges adr i cs (o0, t) = (Some k, o1) \<Longrightarrow> i \<le> k \<and> k < i + length cs \<and>
    Net_CompareClientNetaddr adr (ch_addr (cs ! (k - i))) \<and> (\<forall>l < k - i. \<not> Net_CompareClientNetaddr adr (ch_addr (cs ! l)))"
proof (induction adr i cs "(o0, t)" arbitrary: o0 t rule: scan_challenges.induct)
  case (2 adr i c cs oldest t)
  show ?case
  proof (cases "Net_CompareClientNetaddr adr (ch_addr c)")
    case True
    then show ?thesis using "2.prems" by auto
  next
    case False
    then have r: "Suc i \<le> k \<and> k < Suc i + length cs \<and> Net_CompareClientNetaddr adr (ch_addr (cs ! (k - Suc i))) \<and>
        (\<forall>l < k - Suc i. \<not> Net_CompareClientNetaddr adr (ch_addr (cs ! l)))"
      using 2 by (auto split: if_splits)
    then obtain m where m: "k = Suc i + m" using le_Suc_ex by blast
    have "\<not> Net_CompareClientNetaddr adr (ch_addr ((c # cs) ! l))" if "l < Suc m" for l
      using that False r m by (cases l) auto
    then show ?thesis using r m by simp
  qed
qed simp

lemma scan_missing:
  "scan_challenges adr i cs (o0, t) = (None, o1) \<Longrightarrow> (o1 = o0 \<or> i \<le> o1 \<and> o1 < i + length cs) \<and>
    (\<forall>c \<in> set cs. \<not> Net_CompareClientNetaddr adr (ch_addr c))"
  by (induction adr i cs "(o0, t)" arbitrary: o0 t rule: scan_challenges.induct) (fastforce split: if_splits)+

definition numbers_ok :: "host \<Rightarrow> bool" where
  "numbers_ok h \<longleftrightarrow> length (challenges h) = MAX_CHALLENGES \<and> (\<forall>c \<in> set (challenges h). unat (ch_challenge c) < 2 ^ 31)"

lemma print_number: "unat (n :: uint32) < 2 ^ 31 \<Longrightarrow> print_int (sint n) = decimal (unat n)"
proof -
  assume n: "unat n < 2 ^ 31"
  have "unat n < 2147483648" using n by simp
  then have "int (unat n) < 2147483648" by (simp only: of_nat_less_numeral_iff)
  moreover have "- 2147483648 \<le> int (unat n)" by linarith
  ultimately have "sint (word_of_int (int (unat n)) :: uint32) = int (unat n)"
    by (subst sint_sbintrunc') (simp add: signed_take_bit_int_eq_self)
  then have "sint n = int (unat n)" by simp
  then show ?thesis by (simp add: print_int_def)
qed

lemma oob_print_sends:
  "length s < MAX_MSG_SIZE - 4 \<Longrightarrow>
    oob_print adr s h = Inr (h\<lparr>srv := (srv h)\<lparr>packets_out := packets_out (srv h) @ [(adr, oob_bytes s)]\<rparr>\<rparr>)"
  by (simp add: oob_print_def oob_print_bytes)

lemma challenge_sent:
  assumes ok: "numbers_ok h"
  shows "\<exists>j n cs st. Svc_GetChallenge h = Inr (h\<lparr>srv := (srv h)\<lparr>packets_out := packets_out (srv h) @
        [(net_from h, oob_bytes (''challenge '' @ decimal (unat n)))]\<rparr>, challenges := cs, rand_state := st\<rparr>) \<and>
    holds_challenge (h\<lparr>challenges := cs\<rparr>) n j \<and> unat n < 2 ^ 31"
proof -
  let ?cs = "challenges h"
  have len: "length ?cs = MAX_CHALLENGES" "take MAX_CHALLENGES ?cs = ?cs" "0 < MAX_CHALLENGES"
    using ok by (simp_all add: numbers_ok_def MAX_CHALLENGES_def)
  have short: "length (''challenge '' @ decimal (unat n)) < MAX_MSG_SIZE - 4" for n :: uint32
    using length_decimal [of "unat n" 10] unsigned_less [of n, where 'a = nat] by (simp add: limits)
  obtain r o1 where s: "scan_challenges (net_from h) 0 ?cs (0, 0x7fffffff) = (r, o1)" by fastforce
  show ?thesis
  proof (cases r)
    case (Some k)
    then have k: "k < length ?cs" "Net_CompareClientNetaddr (net_from h) (ch_addr (?cs ! k))"
        "\<forall>l < k. \<not> Net_CompareClientNetaddr (net_from h) (ch_addr (?cs ! l))"
      using scan_found [of "net_from h" 0 ?cs 0 "0x7fffffff" k o1] s by auto
    let ?n = "ch_challenge (?cs ! k)"
    have n: "unat ?n < 2 ^ 31" using ok k(1) by (auto simp: numbers_ok_def)
    have "holds_challenge (h\<lparr>challenges := ?cs\<rparr>) ?n k" using k len(1) by (simp add: holds_challenge_def)
    moreover have "Svc_GetChallenge h = Inr (h\<lparr>srv := (srv h)\<lparr>packets_out := packets_out (srv h) @
        [(net_from h, oob_bytes (''challenge '' @ decimal (unat ?n)))]\<rparr>, challenges := ?cs, rand_state := rand_state h\<rparr>)"
      using s Some k(1) len(2) print_number [OF n] oob_print_sends [OF short [of ?n]]
      by (simp add: Svc_GetChallenge_def at_index_def)
    ultimately show ?thesis using n by blast
  next
    case None
    then have o1: "o1 < length ?cs" "\<forall>c \<in> set ?cs. \<not> Net_CompareClientNetaddr (net_from h) (ch_addr c)"
      using scan_missing [of "net_from h" 0 ?cs 0 "0x7fffffff" o1] s len by auto
    obtain x st where x: "Random (rand_state h) = (x, st)" by fastforce
    let ?n = "x AND 0x7fff"
    let ?c = "\<lparr>ch_addr = net_from h, ch_challenge = ?n, ch_time = time_now (srv h)\<rparr>"
    have n: "unat ?n < 2 ^ 31" using word_and_le1 [of x "0x7fff"] by (simp add: word_le_nat_alt)
    have "holds_challenge (h\<lparr>challenges := ?cs[o1 := ?c]\<rparr>) ?n o1"
      using o1 len(1) by (auto simp: holds_challenge_def Net_CompareClientNetaddr_def)
    moreover have "Svc_GetChallenge h = Inr (h\<lparr>srv := (srv h)\<lparr>packets_out := packets_out (srv h) @
        [(net_from h, oob_bytes (''challenge '' @ decimal (unat ?n)))]\<rparr>, challenges := ?cs[o1 := ?c], rand_state := st\<rparr>)"
      using s None o1(1) len(2) x print_number [OF n] oob_print_sends [OF short [of ?n]]
      by (simp add: Svc_GetChallenge_def at_index_def)
    ultimately show ?thesis using n by blast
  qed
qed

section \<open>The steps\<close>

definition get_challenge_pieces :: "(string \<times> bool) list" where
  "get_challenge_pieces = [(''get_challenge'', False)]"

definition challenge_pieces :: "uint32 \<Rightarrow> (string \<times> bool) list" where
  "challenge_pieces n = [(''challenge'', False), (decimal (unat n), False)]"

definition connect_pieces :: "uint8 \<Rightarrow> uint32 \<Rightarrow> string \<Rightarrow> (string \<times> bool) list" where
  "connect_pieces q n info = [(''connect'', False), (''1005'', False), (decimal (unat q), False), (decimal (unat n), False), (info, True)]"

lemma protocol_text: "print_int PROTOCOL = ''1005''"
  by code_simp

lemma connect_text:
  assumes "unat n < 2 ^ 31"
  shows "''connect '' @ print_int PROTOCOL @ '' '' @ print_int (uint q) @ '' '' @ print_int (sint n) @ '' '' @ [quote] @ info @ [quote, newline] =
    pieces_text (connect_pieces q n info) @ [newline]"
proof -
  have "print_int (uint q) = decimal (unat q)" for q :: uint8 by (simp add: print_int_def)
  then show ?thesis using print_number [OF assms] by (simp add: connect_pieces_def piece_text_def protocol_text)
qed

lemma fixed_words:
  "ok_piece (''get_challenge'', False)" "ok_piece (''challenge'', False)" "ok_piece (''connect'', False)" "ok_piece (''1005'', False)"
  "ok_piece (''client_connect'', False)"
proof -
  have "list_all (\<lambda>w. quote \<notin> set w \<and> hd w \<noteq> CHR ''$'' \<and> length w < 256 \<and> w \<noteq> [] \<and> list_all (\<lambda>c. \<not> blank c) w \<and> \<not> comment w)
      [''get_challenge'', ''challenge'', ''connect'', ''1005'', ''client_connect'']" by code_simp
  then show "ok_piece (''get_challenge'', False)" "ok_piece (''challenge'', False)" "ok_piece (''connect'', False)" "ok_piece (''1005'', False)"
    "ok_piece (''client_connect'', False)"
    by (simp_all add: ok_piece_def wf_word_def plain_def limits list_all_iff)
qed

lemma decimal_piece: "ok_piece (decimal (unat (n :: uint32)), False)" "ok_piece (decimal (unat (q :: uint8)), False)"
proof -
  have "unat n < 10 ^ 20" "unat q < 10 ^ 20"
    using unsigned_less [of n, where 'a = nat] unsigned_less [of q, where 'a = nat] by simp_all
  then show "ok_piece (decimal (unat n), False)" "ok_piece (decimal (unat q), False)" by (simp_all add: decimal_word)
qed

lemma decimal_short: "length (decimal (unat (n :: uint32))) \<le> 11" "length (decimal (unat (q :: uint8))) \<le> 4"
proof -
  show "length (decimal (unat n)) \<le> 11"
    using length_decimal [of "unat n" 10] unsigned_less [of n, where 'a = nat] by simp
  show "length (decimal (unat q)) \<le> 4"
    using length_decimal [of "unat q" 3] unsigned_less [of q, where 'a = nat] by simp
qed

lemma info_piece:
  assumes "good_info kvs"
  shows "ok_piece (info_string kvs, True)" "line_text (info_string kvs)" "length (info_string kvs) < 256"
proof -
  have c: "list_all (\<lambda>c. c \<noteq> CHR 0xFF \<and> c \<noteq> quote \<and> c \<noteq> semicolon \<and> c \<noteq> newline \<and> c \<noteq> nul) (info_string kvs)"
    and k: "kvs \<noteq> []" "length (info_string kvs) < MAX_TOKEN_CHARS" using assms by (simp_all add: good_info_def)
  obtain kv rest where kv: "kvs = kv # rest" using k(1) by (cases kvs) auto
  then have "info_string kvs \<noteq> []" "hd (info_string kvs) = backslash" by (simp_all add: info_string_def pair_string_def)
  then show "ok_piece (info_string kvs, True)" using c k(2) by (auto simp: ok_piece_def wf_word_def list_all_iff)
  show "line_text (info_string kvs)" using c by (auto simp: line_text_def line_char_def list_all_iff)
  show "length (info_string kvs) < 256" using k(2) by (simp add: limits)
qed

lemma fixed_lines: "line_text ''get_challenge''" "line_text ''challenge''" "line_text ''connect''" "line_text ''1005''"
  "line_text ''client_connect''" "line_char CHR '' ''" "line_char quote"
  by code_simp+

text \<open>1: The client asks for a challenge.\<close>

lemma asks_challenge:
  assumes "\<not> local_server env" "cls_state cl = CL_CONNECTING" "connect_time cl = 0" "server_addr env (server_name cl) = Some sadr"
  shows "Cl_CheckForResend env cl = Inr (cl\<lparr>connect_time := cls_real_time cl, cls_out := cls_out cl @
    [(sadr, oob_bytes (pieces_text get_challenge_pieces @ [newline]))]\<rparr>)"
  using assms
  by (simp add: Cl_CheckForResend_def cl_oob_print_def oob_print_bytes limits get_challenge_pieces_def piece_text_def)

text \<open>2: The server sends it.\<close>

lemma serves_challenge:
  assumes "received (oob_bytes (pieces_text get_challenge_pieces @ [newline])) msg" and "numbers_ok h"
  shows "\<exists>sb j n cs st. read_packet env (adr, msg) h = Inr (h\<lparr>net_from := adr, net_message := sb, srv := (srv h)\<lparr>packets_out := packets_out (srv h) @
        [(adr, oob_bytes (pieces_text (challenge_pieces n)))]\<rparr>, challenges := cs, rand_state := st\<rparr>) \<and>
    holds_challenge (h\<lparr>challenges := cs, net_from := adr\<rparr>) n j \<and> unat n < 2 ^ 31"
proof -
  obtain sb where r: "read_packet env (adr, msg) h = Svc_GetChallenge (h\<lparr>net_from := adr, net_message := sb\<rparr>)"
    using server_request [of get_challenge_pieces "[newline]" msg env adr h] assms(1) fixed_words fixed_lines
    by (auto simp: get_challenge_pieces_def piece_text_def Cmd_Argv_def Cmd_Argc_def limits)
  have "numbers_ok (h\<lparr>net_from := adr, net_message := sb\<rparr>)" using assms(2) by (simp add: numbers_ok_def)
  from challenge_sent [OF this] show ?thesis
    unfolding r by (auto simp: challenge_pieces_def piece_text_def holds_challenge_def)
qed

text \<open>3: The client sends it back.\<close>

lemma connect_request:
  assumes "unat (cls_challenge cl) < 2 ^ 31" and "server_addr env (server_name cl) = Some sadr"
    and "cl_user_info env = info_string kvs" and "good_info kvs"
  shows "Cl_SendConnect env cl = Inr (cl\<lparr>user_info_modified := False, cls_out := cls_out cl @
      [(sadr, oob_bytes (pieces_text (connect_pieces (cl_qport env) (cls_challenge cl) (info_string kvs)) @ [newline]))]\<rparr>)"
proof -
  let ?n = "cls_challenge cl"
  have short: "length (pieces_text (connect_pieces (cl_qport env) ?n (info_string kvs)) @ [newline]) < MAX_MSG_SIZE - 4"
    using info_piece(3) [OF assms(4)] decimal_short(1) [of ?n] decimal_short(2) [of "cl_qport env"]
    by (simp add: connect_pieces_def piece_text_def limits)
  show ?thesis
    unfolding Cl_SendConnect_def connect_text [OF assms(1), of "cl_qport env" "info_string kvs"] cl_oob_print_def assms(2,3) option.case
      oob_print_bytes [OF short] bindE_simps by simp
qed

lemma sends_connect:
  assumes "received (oob_bytes (pieces_text (challenge_pieces n))) msg" and "unat n < 2 ^ 31" and "cls_state cl = CL_CONNECTING"
    and "server_addr env (server_name cl) = Some sadr" and "cl_user_info env = info_string kvs" and "good_info kvs"
  shows "\<exists>sb. cl_read_packet env (adr, msg) cl = Inr (cl\<lparr>cls_from := adr, cls_message := sb, cls_challenge := n,
     user_info_modified := False, cls_out := cls_out cl @
      [(sadr, oob_bytes (pieces_text (connect_pieces (cl_qport env) n (info_string kvs)) @ [newline]))]\<rparr>)"
proof -
  let ?ps = "challenge_pieces n"
  have ps: "\<forall>p \<in> set ?ps. ok_piece p" "length ?ps \<le> MAX_STRING_TOKENS" "line_text (pieces_text ?ps)"
      "length (pieces_text ?ps) < MAX_STRING_CHARS - 1"
    using fixed_words decimal_piece(1) [of n] fixed_lines line_text_decimal decimal_short(1) [of n]
    by (simp_all add: challenge_pieces_def piece_text_def limits)
  have at: "Cmd_Argv \<lparr>argv = map fst ?ps, args = ar\<rparr> 0 = ''challenge''" "Cmd_Argv \<lparr>argv = map fst ?ps, args = ar\<rparr> 1 = decimal (unat n)" for ar
    by (simp_all add: challenge_pieces_def Cmd_Argv_def Cmd_Argc_def)
  have n: "word_of_int (atoi (decimal (unat n))) = n" using atoi_decimal [OF assms(2)] by simp
  obtain sb where "cl_read_packet env (adr, msg) cl =
      Cl_SendConnect env (cl\<lparr>cls_from := adr, cls_message := sb, cls_challenge := n\<rparr>)"
    using client_answer [OF ps, of "[]" msg env adr cl] assms(1,3) at n by auto
  then show ?thesis
    using connect_request [of "cl\<lparr>cls_from := adr, cls_message := sb, cls_challenge := n\<rparr>" env sadr kvs] assms(2,4-6)
    by (intro exI [of _ sb]) simp
qed

text \<open>4: The server takes the client in.\<close>

lemma takes_client:
  assumes "received (oob_bytes (pieces_text (connect_pieces q n (info_string kvs)) @ [newline])) msg" and "unat n < 2 ^ 31"
    and j: "holds_challenge (h\<lparr>net_from := adr\<rparr>) n j"
    and info: "good_info kvs" "good_address (addr_string env adr)"
    and slot: "client_slot adr q (srv h) = Some i" "i < length (clients_of h)" "conn_edict (clients_of h ! i) = e"
    and ready: "ready (srv h)" and game: "game_accepts (game env) e (info_string (with_ip (addr_string env adr) kvs))"
    and url: "length (cv_download_url env) < 256"
  shows "\<exists>h' c. read_packet env (adr, msg) h = Inr h' \<and> only_hear i (clients_of h) (clients_of h') \<and> clients_of h' ! i = c \<and> conn_edict c = e \<and>
    conn_state c = SV_CLIENT_CONNECTED \<and> user_info c = info_string (with_ip (addr_string env adr) kvs) \<and>
    chan c = Netchan_Setup (time_now (srv h)) NS_UDP_SERVER adr q \<and> contents (dg_buffer (datagram c)) = [] \<and>
    packets_out (srv h') = packets_out (srv h) @ [(adr, oob_bytes (''client_connect '' @ cv_download_url env))]"
proof -
  let ?ps = "connect_pieces q n (info_string kvs)"
  have ps: "\<forall>p \<in> set ?ps. ok_piece p" "length ?ps \<le> MAX_STRING_TOKENS" "line_text (pieces_text ?ps)"
      "length (pieces_text ?ps) < MAX_STRING_CHARS - 1"
    using fixed_words decimal_piece(1) [of n] decimal_piece(2) [of q] fixed_lines line_text_decimal decimal_short(1) [of n]
      decimal_short(2) [of q] info_piece [OF info(1)]
    by (simp_all add: connect_pieces_def piece_text_def limits)
  obtain sb ar where r: "read_packet env (adr, msg) h =
      Svc_Connect env \<lparr>argv = map fst ?ps, args = ar\<rparr> (h\<lparr>net_from := adr, net_message := sb\<rparr>)"
    using server_request [OF ps assms(1), of env adr h] by (auto simp: connect_pieces_def Cmd_Argv_def Cmd_Argc_def)
  let ?a = "\<lparr>argv = map fst ?ps, args = ar\<rparr>" and ?h = "h\<lparr>net_from := adr, net_message := sb\<rparr>"
  have a: "Cmd_Argv ?a 1 = ''1005''" "Cmd_Argv ?a 2 = decimal (unat q)" "Cmd_Argv ?a 3 = decimal (unat n)" "Cmd_Argv ?a 4 = info_string kvs"
    by (simp_all add: connect_pieces_def Cmd_Argv_def Cmd_Argc_def)
  have v: "strtol 0 (Cmd_Argv ?a 1) = PROTOCOL" using request_numbers(3) a(1) by (simp add: PROTOCOL_def)
  have s: "strtoul 0 (decimal (unat q)) = ucast q" "strtoul 0 (decimal (unat n)) = ucast n"
    using strtoul_decimal [of "unat q"] strtoul_decimal [of "unat n"] unsigned_less [of q, where 'a = nat]
      unsigned_less [of n, where 'a = nat] by simp_all
  have q: "q = ucast (strtoul 0 (Cmd_Argv ?a 2))" unfolding a s by (rule bit_word_eqI) (simp add: bit_simps)
  have n: "challenge_of ?a = n" unfolding challenge_of_def a s by (rule bit_word_eqI) (simp add: bit_simps)
  have j': "holds_challenge ?h (challenge_of ?a) j" using j n by (simp add: holds_challenge_def)
  have out: "Netchan_OutOfBandPrint (''client_connect '' @ cv_download_url env) = Inr (oob_bytes (''client_connect '' @ cv_download_url env))"
    using url by (intro oob_print_bytes) (simp add: limits)
  have e: "addr_string env (net_from ?h) = addr_string env adr" by simp
  show ?thesis
    using connect_accepts [OF v a(4) q j' info(1) _ _ _ _ _ _ out, of i e] info(2) slot ready game
    unfolding r by (auto simp: accepted_def)
qed

text \<open>5: The client sets up its end and asks to begin.\<close>

definition url_ok :: "string \<Rightarrow> bool" where
  "url_ok url \<longleftrightarrow> url = [] \<or> ok_piece (url, False) \<and> line_text url"

lemma bare_connect:
  assumes "received (oob_bytes ''client_connect '') msg"
  shows "\<exists>ar. Cmd_TokenizeString cv (Some (fst (Net_ReadStringLine (snd (Net_ReadLong (Net_BeginReading msg)))))) =
    Inr \<lparr>argv = [''client_connect''], args = ar\<rparr>"
proof -
  have p: "plain_string ''client_connect ''" "newline \<notin> set ''client_connect ''"
    using line_text_plain [of "''client_connect ''"] fixed_lines by simp_all
  have l: "fst (Net_ReadStringLine (snd (Net_ReadLong (Net_BeginReading msg)))) = ''client_connect ''"
    using request_line [of "''client_connect ''" "[]" msg] assms p by (simp add: limits)
  obtain ar where ar: "tokenize cv (piece_text (''client_connect'', False) @ '' '') no_args =
      tokenize cv '' '' \<lparr>argv = argv no_args @ [''client_connect''], args = ar\<rparr>"
    using tokenize_step [OF fixed_words(5), of "'' ''" no_args cv] by (auto simp: no_args_def Cmd_Argc_def limits)
  have "tokenize cv [] b = Inr b" for b by (subst tokenize.simps) simp
  then have "tokenize cv '' '' b = Inr b" for b using tokenize_blank [of cv "[]" b] by simp
  then show ?thesis using ar unfolding l by (simp add: piece_text_def no_args_def Cmd_TokenizeString_def limits)
qed

lemma new_command:
  "\<exists>b. string_cmd ''new'' (cl\<lparr>cls_chan := Netchan_Setup now src adr q\<rparr>) =
      Inr (cl\<lparr>cls_chan := (Netchan_Setup now src adr q)\<lparr>message := b\<rparr>\<rparr>) \<and>
    contents b = [word_of_int CL_CMD_STRING] @ string_bytes (Some ''new'')"
proof -
  let ?m = "message (Netchan_Setup now src adr q)"
  have m: "wf_buf ?m" "contents ?m = []" "room ?m = CHAN_BUFFER"
    by (simp_all add: Netchan_Setup_def wf_buf_def) (simp_all add: contents_def room_def Mem_InitBuffer_def)
  have "msg.emits (run_seq [Net_WriteByte CL_CMD_STRING, Net_WriteString (Some ''new'')])
      (concat [[word_of_int CL_CMD_STRING], string_bytes (Some ''new'')])"
    by (intro msg.emits_run_seq) (simp add: emits_Byte emits_String)
  moreover have "length (concat [[word_of_int CL_CMD_STRING], string_bytes (Some ''new'')]) \<le> room ?m"
    using m(3) by (simp add: string_bytes_def CHAN_BUFFER_eq)
  ultimately obtain b where "run_seq [Net_WriteByte CL_CMD_STRING, Net_WriteString (Some ''new'')] ?m = Inr b"
      "contents b = contents ?m @ concat [[word_of_int CL_CMD_STRING], string_bytes (Some ''new'')]"
    using msg.emitsD m(1) by blast
  then show ?thesis using m(2) by (intro exI [of _ b]) (simp add: string_cmd_def cl_write_def)
qed

lemma channel_set_up:
  assumes "received (oob_bytes (''client_connect '' @ url)) msg" and "url_ok url" and "cls_state cl = CL_CONNECTING"
  shows "\<exists>cl' b. cl_read_packet env (adr, msg) cl = Inr cl' \<and> cls_state cl' = CL_CONNECTED \<and> download_url cl' = url \<and>
    cls_chan cl' = (Netchan_Setup (cl_now env) NS_UDP_CLIENT adr (cl_qport env))\<lparr>message := b\<rparr> \<and>
    contents b = [word_of_int CL_CMD_STRING] @ string_bytes (Some ''new'')"
proof -
  have "\<exists>a. Cmd_TokenizeString (cl_var env) (Some (fst (Net_ReadStringLine (snd (Net_ReadLong (Net_BeginReading msg)))))) = Inr a \<and>
      Cmd_Argv a 0 = ''client_connect'' \<and> (if Cmd_Argc a = 2 then strlcpy (Cmd_Argv a 1) MAX_OSPATH else []) = url"
  proof (cases "url = []")
    case True
    then obtain ar where "Cmd_TokenizeString (cl_var env) (Some (fst (Net_ReadStringLine (snd (Net_ReadLong (Net_BeginReading msg)))))) =
        Inr \<lparr>argv = [''client_connect''], args = ar\<rparr>"
      using bare_connect [of msg "cl_var env"] assms(1) by auto
    then show ?thesis using True
      by (intro exI [of _ "\<lparr>argv = [''client_connect''], args = ar\<rparr>"]) (simp add: Cmd_Argv_def Cmd_Argc_def)
  next
    case False
    then have u: "ok_piece (url, False)" "line_text url" using assms(2) by (auto simp: url_ok_def)
    have len: "length url < 256" using u(1) by (simp add: ok_piece_def wf_word_def limits)
    let ?ps = "[(''client_connect'', False), (url, False)]"
    have "\<forall>p \<in> set ?ps. ok_piece p" "length ?ps \<le> MAX_STRING_TOKENS" "line_text (pieces_text ?ps)"
        "length (pieces_text ?ps) < MAX_STRING_CHARS - 1"
      using u fixed_words fixed_lines len by (simp_all add: piece_text_def limits)
    moreover have "received (oob_bytes (pieces_text ?ps @ [])) msg" using assms(1) by (simp add: piece_text_def)
    ultimately obtain ar where "Cmd_TokenizeString (cl_var env) (Some (fst (Net_ReadStringLine (snd (Net_ReadLong (Net_BeginReading msg)))))) =
        Inr \<lparr>argv = map fst ?ps, args = ar\<rparr>"
      using tokenize_request_line [of ?ps "[]" msg "cl_var env"] by blast
    then show ?thesis using len by (auto simp: Cmd_Argv_def Cmd_Argc_def strlcpy_def MAX_OSPATH_def)
  qed
  then obtain a where a: "Cmd_TokenizeString (cl_var env) (Some (fst (Net_ReadStringLine (snd (Net_ReadLong (Net_BeginReading msg)))))) = Inr a"
      "Cmd_Argv a 0 = ''client_connect''" "(if Cmd_Argc a = 2 then strlcpy (Cmd_Argv a 1) MAX_OSPATH else []) = url" by blast
  obtain sb where sb: "cl_read_packet env (adr, msg) cl = bindE (string_cmd ''new''
       (cl\<lparr>cls_from := adr, cls_message := sb, cls_chan := Netchan_Setup (cl_now env) NS_UDP_CLIENT adr (cl_qport env)\<rparr>)) (\<lambda>cl.
         Inr (cl\<lparr>cls_state := CL_CONNECTED, download_url := url\<rparr>))"
    using client_handles [OF assms(1) a(1), of adr cl] a(2,3) assms(3) by auto
  obtain b where "string_cmd ''new'' (cl\<lparr>cls_from := adr, cls_message := sb,
        cls_chan := Netchan_Setup (cl_now env) NS_UDP_CLIENT adr (cl_qport env)\<rparr>) =
      Inr (cl\<lparr>cls_from := adr, cls_message := sb, cls_chan := (Netchan_Setup (cl_now env) NS_UDP_CLIENT adr (cl_qport env))\<lparr>message := b\<rparr>\<rparr>)"
      "contents b = [word_of_int CL_CMD_STRING] @ string_bytes (Some ''new'')"
    using new_command [where cl = "cl\<lparr>cls_from := adr, cls_message := sb\<rparr>" and now = "cl_now env" and src = NS_UDP_CLIENT and adr = adr
        and q = "cl_qport env"] by auto
  then show ?thesis unfolding sb by auto
qed

section \<open>The whole handshake\<close>

text \<open>
  Each side handles what the other has sent last. \<open>sadr\<close> is where the server is for the
  client, \<open>cadr\<close> where the client is for the server, \<open>arrive\<close> how a datagram is put into the array
  it is received in.
\<close>

definition last_sent_by_client :: "cl_static \<Rightarrow> byte list" where
  "last_sent_by_client cl = snd (last (cls_out cl))"

definition last_sent_by_server :: "host \<Rightarrow> byte list" where
  "last_sent_by_server h = snd (last (packets_out (srv h)))"

definition handshake :: "cl_env \<Rightarrow> sv_env \<Rightarrow> net_addr \<Rightarrow> net_addr \<Rightarrow> (byte list \<Rightarrow> mem_buf) \<Rightarrow> cl_static \<Rightarrow> host \<Rightarrow> (cl_static \<times> host) result" where
  "handshake env senv sadr cadr arrive cl h =
     bindE (Cl_CheckForResend env cl) (\<lambda>cl.
     bindE (read_packet senv (cadr, arrive (last_sent_by_client cl)) h) (\<lambda>h.
     bindE (cl_read_packet env (sadr, arrive (last_sent_by_server h)) cl) (\<lambda>cl.
     bindE (read_packet senv (cadr, arrive (last_sent_by_client cl)) h) (\<lambda>h.
     bindE (cl_read_packet env (sadr, arrive (last_sent_by_server h)) cl) (\<lambda>cl. Inr (cl, h))))))"

lemma challenges_room: "Suc (MAX_CHALLENGES - Suc 0) = MAX_CHALLENGES"
  by (simp add: MAX_CHALLENGES_def)

lemma same_slot: "client_slot adr q (s\<lparr>packets_out := p\<rparr>) = client_slot adr q s"
proof -
  have "svs_edicts (statics (s\<lparr>packets_out := p\<rparr>)) = svs_edicts (statics s)"
      "conns (s\<lparr>packets_out := p\<rparr>) = conns s" "max_clients (s\<lparr>packets_out := p\<rparr>) = max_clients s" by simp_all
  then show ?thesis by (simp only: client_slot_def)
qed

text \<open>The second half, from where the client has sent the challenge back\<close>

lemma second_half:
  assumes arrive: "\<And>bytes. length bytes \<le> MAX_MSG_SIZE \<Longrightarrow> received bytes (arrive bytes)" and "unat n < 2 ^ 31"
    and "holds_challenge (h\<lparr>net_from := cadr\<rparr>) n j" and "good_info kvs" and "good_address (addr_string senv cadr)"
    and "client_slot cadr (cl_qport env) (srv h) = Some i" and "i < length (clients_of h)" and "url_ok (cv_download_url senv)"
    and "ready (srv h)" and "game_accepts (game senv) (conn_edict (clients_of h ! i)) (info_string (with_ip (addr_string senv cadr) kvs))"
    and sent: "last_sent_by_client cl = oob_bytes (pieces_text (connect_pieces (cl_qport env) n (info_string kvs)) @ [newline])"
    and "cls_state cl = CL_CONNECTING"
  shows "\<exists>cl' h' c b. read_packet senv (cadr, arrive (last_sent_by_client cl)) h = Inr h' \<and>
    cl_read_packet env (sadr, arrive (last_sent_by_server h')) cl = Inr cl' \<and>
    only_hear i (clients_of h) (clients_of h') \<and> clients_of h' ! i = c \<and> conn_edict c = conn_edict (clients_of h ! i) \<and> conn_state c = SV_CLIENT_CONNECTED \<and>
    user_info c = info_string (with_ip (addr_string senv cadr) kvs) \<and>
    chan c = Netchan_Setup (time_now (srv h)) NS_UDP_SERVER cadr (cl_qport env) \<and>
    cls_state cl' = CL_CONNECTED \<and> download_url cl' = cv_download_url senv \<and>
    cls_chan cl' = (Netchan_Setup (cl_now env) NS_UDP_CLIENT sadr (cl_qport env))\<lparr>message := b\<rparr> \<and>
    contents b = [word_of_int CL_CMD_STRING] @ string_bytes (Some ''new'')"
proof -
  have url: "length (cv_download_url senv) < 256"
    using assms(8) by (auto simp: url_ok_def ok_piece_def wf_word_def limits)
  have "received (last_sent_by_client cl) (arrive (last_sent_by_client cl))"
    using info_piece(3) [OF assms(4)] decimal_short(1) [of n] decimal_short(2) [of "cl_qport env"] unfolding sent
    by (intro arrive) (simp add: connect_pieces_def piece_text_def limits)
  from takes_client [OF this [unfolded sent] assms(2-7) refl assms(9,10) url] obtain h' c where
    h': "read_packet senv (cadr, arrive (last_sent_by_client cl)) h = Inr h'" "only_hear i (clients_of h) (clients_of h')" "clients_of h' ! i = c"
      "conn_edict c = conn_edict (clients_of h ! i)" "conn_state c = SV_CLIENT_CONNECTED"
      "user_info c = info_string (with_ip (addr_string senv cadr) kvs)"
      "chan c = Netchan_Setup (time_now (srv h)) NS_UDP_SERVER cadr (cl_qport env)"
      "last_sent_by_server h' = oob_bytes (''client_connect '' @ cv_download_url senv)"
    unfolding sent by (auto simp: last_sent_by_server_def)
  have "received (last_sent_by_server h') (arrive (last_sent_by_server h'))"
    using url unfolding h'(8) by (intro arrive) (simp add: limits)
  from channel_set_up [OF this [unfolded h'(8)] assms(8,12), of env sadr] obtain cl' b where
    "cl_read_packet env (sadr, arrive (last_sent_by_server h')) cl = Inr cl'" "cls_state cl' = CL_CONNECTED"
      "download_url cl' = cv_download_url senv" "contents b = [word_of_int CL_CMD_STRING] @ string_bytes (Some ''new'')"
      "cls_chan cl' = (Netchan_Setup (cl_now env) NS_UDP_CLIENT sadr (cl_qport env))\<lparr>message := b\<rparr>"
    unfolding h'(8) by blast
  then show ?thesis using h'(1-7) by (intro exI [of _ cl'] exI [of _ h'] exI [of _ c] exI [of _ b]) simp
qed

text \<open>
  C37: The handshake of client and server. A client that is connecting and a server that has a place
  for it and whose game takes it in exchange four datagrams, each handled once, and end connected:
  the server has the client in the slot with its user info, the client has the
  download address, and the two ends of the channel are freshly set up for each other, with the
  command \<open>new\<close> staged as the first reliable message. What is assumed of the game (\<open>game_accepts\<close>) is that it takes the
  client in with its user info as it is, whenever the server is \<open>ready\<close>, and acts on the server only by the functions it
  is given: it may print, multicast and set config strings, as the default game does, so that
  the other clients may get messages. Nothing else of them changes.
\<close>

theorem handshake_connects:
  assumes arrive: "\<And>bytes. length bytes \<le> MAX_MSG_SIZE \<Longrightarrow> received bytes (arrive bytes)"
    and client: "\<not> local_server env" "cls_state cl = CL_CONNECTING" "connect_time cl = 0" "server_addr env (server_name cl) = Some sadr"
      "cl_user_info env = info_string kvs" "good_info kvs"
    and server: "ready (srv h)" "numbers_ok h" "good_address (addr_string senv cadr)" "client_slot cadr (cl_qport env) (srv h) = Some i"
      "i < length (clients_of h)" "url_ok (cv_download_url senv)"
    and game: "game_accepts (game senv) (conn_edict (clients_of h ! i)) (info_string (with_ip (addr_string senv cadr) kvs))"
  shows "\<exists>cl' h' c b. handshake env senv sadr cadr arrive cl h = Inr (cl', h') \<and>
    only_hear i (clients_of h) (clients_of h') \<and> clients_of h' ! i = c \<and> conn_state c = SV_CLIENT_CONNECTED \<and> conn_edict c = conn_edict (clients_of h ! i) \<and>
    user_info c = info_string (with_ip (addr_string senv cadr) kvs) \<and>
    chan c = Netchan_Setup (time_now (srv h)) NS_UDP_SERVER cadr (cl_qport env) \<and>
    cls_state cl' = CL_CONNECTED \<and> download_url cl' = cv_download_url senv \<and>
    cls_chan cl' = (Netchan_Setup (cl_now env) NS_UDP_CLIENT sadr (cl_qport env))\<lparr>message := b\<rparr> \<and>
    contents b = [word_of_int CL_CMD_STRING] @ string_bytes (Some ''new'')"
proof -
  let ?q = "cl_qport env" and ?info = "info_string kvs"
  let ?b1 = "oob_bytes (pieces_text get_challenge_pieces @ [newline])"
  let ?cl1 = "cl\<lparr>connect_time := cls_real_time cl, cls_out := cls_out cl @ [(sadr, ?b1)]\<rparr>"
  have "received ?b1 (arrive ?b1)"
    by (rule arrive) (simp add: get_challenge_pieces_def piece_text_def limits)
  from serves_challenge [OF this server(2), of senv cadr] obtain sb j n cs st where
    r2: "read_packet senv (cadr, arrive ?b1) h = Inr (h\<lparr>net_from := cadr, net_message := sb, srv := (srv h)\<lparr>packets_out := packets_out (srv h) @
        [(cadr, oob_bytes (pieces_text (challenge_pieces n)))]\<rparr>, challenges := cs, rand_state := st\<rparr>)"
    and j: "holds_challenge (h\<lparr>challenges := cs, net_from := cadr\<rparr>) n j" and n: "unat n < 2 ^ 31"
    by blast
  let ?b2 = "oob_bytes (pieces_text (challenge_pieces n))"
  define h1 where "h1 = h\<lparr>net_from := cadr, net_message := sb, srv := (srv h)\<lparr>packets_out := packets_out (srv h) @
        [(cadr, ?b2)]\<rparr>, challenges := cs, rand_state := st\<rparr>"
  have h1: "last_sent_by_server h1 = ?b2" "clients_of h1 = clients_of h" "time_now (srv h1) = time_now (srv h)"
      "client_slot cadr ?q (srv h1) = Some i" "holds_challenge (h1\<lparr>net_from := cadr\<rparr>) n j"
    using j server(4) same_slot by (simp_all add: h1_def last_sent_by_server_def holds_challenge_def)
  have "received ?b2 (arrive ?b2)"
    using decimal_short(1) [of n] by (intro arrive) (simp add: challenge_pieces_def piece_text_def limits)
  from sends_connect [OF this n, of ?cl1 env sadr kvs sadr] client(2,4-6) obtain sb' where
    r3: "cl_read_packet env (sadr, arrive ?b2) ?cl1 = Inr (?cl1\<lparr>cls_from := sadr, cls_message := sb', cls_challenge := n,
      user_info_modified := False, cls_out := cls_out ?cl1 @ [(sadr, oob_bytes (pieces_text (connect_pieces ?q n ?info) @ [newline]))]\<rparr>)"
    by auto
  let ?b3 = "oob_bytes (pieces_text (connect_pieces ?q n ?info) @ [newline])"
  define cl2 where "cl2 = ?cl1\<lparr>cls_from := sadr, cls_message := sb', cls_challenge := n,
      user_info_modified := False, cls_out := cls_out ?cl1 @ [(sadr, ?b3)]\<rparr>"
  have cl2: "last_sent_by_client cl2 = ?b3" "cls_state cl2 = CL_CONNECTING"
    using client(2) by (simp_all add: cl2_def last_sent_by_client_def)
  have r1: "ready (srv h1)" using server(1) by (simp add: h1_def)
  from second_half [OF arrive n h1(5) client(6) server(3) h1(4) _ server(6) r1 _ cl2, of sadr] server(5) game h1(2,3) obtain cl' h' c b where
    r4: "read_packet senv (cadr, arrive ?b3) h1 = Inr h'" "cl_read_packet env (sadr, arrive (last_sent_by_server h')) cl2 = Inr cl'"
    and c: "only_hear i (clients_of h) (clients_of h')" "clients_of h' ! i = c" "conn_edict c = conn_edict (clients_of h ! i)" "conn_state c = SV_CLIENT_CONNECTED"
      "user_info c = info_string (with_ip (addr_string senv cadr) kvs)" "chan c = Netchan_Setup (time_now (srv h)) NS_UDP_SERVER cadr ?q"
    and cl': "cls_state cl' = CL_CONNECTED" "download_url cl' = cv_download_url senv"
      "cls_chan cl' = (Netchan_Setup (cl_now env) NS_UDP_CLIENT sadr ?q)\<lparr>message := b\<rparr>"
      "contents b = [word_of_int CL_CMD_STRING] @ string_bytes (Some ''new'')"
    by (auto simp: cl2(1))
  have "last_sent_by_client ?cl1 = ?b1" by (simp add: last_sent_by_client_def)
  then have "handshake env senv sadr cadr arrive cl h = Inr (cl', h')"
    unfolding handshake_def asks_challenge [OF client(1-4)] bindE_simps
    using r2 [folded h1_def] r3 [folded cl2_def] r4 h1(1) cl2(1) by simp
  then show ?thesis using c(1-6) cl' by blast
qed

theorem handshake_connects_witness:
  "\<exists>cl' h' c. handshake (sample_cl_env\<lparr>cl_user_info := info_string [(''name'', ''a'')]\<rparr>) sample_env sample_server_addr sample_addr arrived
      (sample_cl\<lparr>cls_state := CL_CONNECTING, server_name := Net_NetaddrToString sample_server_addr\<rparr>) sample_host = Inr (cl', h') \<and>
    clients_of h' = [c] \<and> conn_state c = SV_CLIENT_CONNECTED \<and> cls_state cl' = CL_CONNECTED"
proof -
  let ?env = "sample_cl_env\<lparr>cl_user_info := info_string [(''name'', ''a'')]\<rparr>"
  let ?cl = "sample_cl\<lparr>cls_state := CL_CONNECTING, server_name := Net_NetaddrToString sample_server_addr\<rparr>"
  have env: "\<not> local_server ?env" "cl_user_info ?env = info_string [(''name'', ''a'')]" "cl_qport ?env = 7"
      "resolve ?env = resolve sample_cl_env" "port_server ?env = htons 1998"
    by (simp_all add: sample_cl_env_def)
  have cl: "cls_state ?cl = CL_CONNECTING" "connect_time ?cl = 0" by (simp_all add: sample_cl_def)
  have a: "addr_type sample_server_addr = NA_DATAGRAM" "addr sample_server_addr \<noteq> net_lo" "port sample_server_addr \<noteq> 0"
    by code_simp+
  have "server_addr ?env (Net_NetaddrToString sample_server_addr) = Some sample_server_addr"
    using address_read_back [OF sample_reads a(1,2)] a(3) env(4) by (simp add: server_addr_def sample_resolves)
  then have adr: "server_addr ?env (server_name ?cl) = Some sample_server_addr" by simp
  have senv: "addr_string sample_env a = ''10.0.0.1''" "cv_download_url sample_env = []" "game sample_env = sample_game" for a
    by (simp_all add: sample_env_def)
  have "\<forall>c \<in> set (challenges sample_host). unat (ch_challenge c) < 2 ^ 31" "length (challenges sample_host) = MAX_CHALLENGES"
    using challenges_room by (auto simp: sample_host_def no_challenge_def)
  then have host: "numbers_ok sample_host" by (simp add: numbers_ok_def)
  have slot: "client_slot sample_addr (cl_qport ?env) (srv sample_host) = Some 0" "0 < length (clients_of sample_host)"
      "url_ok (cv_download_url sample_env)" "good_address (addr_string sample_env sample_addr)"
    using sample_slot sample_challenge(4) sample_good(2) env(3) senv by (simp_all add: url_ok_def)
  have game: "game_accepts (game sample_env) (conn_edict (clients_of sample_host ! 0)) (info_string (with_ip (addr_string sample_env sample_addr) [(''name'', ''a'')]))"
    unfolding senv by (rule sample_accepts)
  show ?thesis
    using handshake_connects [of arrived ?env ?cl, OF received_arrived env(1) cl adr env(2) sample_good(1) sample_ready host slot(4,1,2,3) game] sample_challenge(4)
    by (auto simp: only_hear_def length_Suc_conv)
qed

end
