(* ===== verification/Cvar.thy ===== *)
theory Cvar
  imports Cmd_Buffer C_Numbers Float_Model
begin

text \<open>
  The console variables, \<open>src/cvar.c\<close>: one definition per function, on the table of the variables
  and the sorted list of their names. A latched string that has been freed and is still pointed
  to is \<open>Dangling\<close>, and using it a \<open>Bad_Access\<close>. Console output is left out.
\<close>

section \<open>Numbers\<close>

text \<open>
  What \<open>atof\<close> yields, rounded to a double and then to a \<open>vec_t\<close>: the precision is \<open>p\<close> bits and the
  greatest exponent \<open>emax\<close>. The sign of a zero is left out.
\<close>

datatype float_val = Finite rat | Infinite bool | Not_A_Number bool

definition to_ieee :: "nat \<Rightarrow> int \<Rightarrow> rat \<Rightarrow> float_val" where
  "to_ieee p emax x =
     (if x = 0 then Finite 0
      else let u = pow2 (max (exponent \<bar>x\<bar> - (int p - 1)) (2 - emax - int p));
               y = of_int (round_half_even (x / u)) * u
           in if \<bar>y\<bar> \<ge> pow2 (emax + 1) then Infinite (x < 0) else Finite y)"

definition to_vec :: "float_val \<Rightarrow> float_val" where
  "to_vec d = (case d of Finite x \<Rightarrow> to_ieee 24 127 x | _ \<Rightarrow> d)"

text \<open>Digits with a fraction, then an exponent after one of the characters \<open>es\<close>.\<close>

definition digits_of :: "nat \<Rightarrow> string \<Rightarrow> string" where
  "digits_of b s = takeWhile (\<lambda>c. digit_val c < b) s"

definition exponent_part :: "string \<Rightarrow> string \<Rightarrow> int" where
  "exponent_part es s =
     (if s = [] \<or> hd s \<notin> set es then 0
      else let t = tl s; neg = (take 1 t = ''-''); u = (if neg \<or> take 1 t = ''+'' then tl t else t)
           in (if neg then -1 else 1) * int (value_in 10 u))"

definition scaled :: "rat \<Rightarrow> rat \<Rightarrow> int \<Rightarrow> rat" where
  "scaled m b e = (if e \<ge> 0 then m * b ^ nat e else m / b ^ nat (- e))"

definition float_text :: "nat \<Rightarrow> string \<Rightarrow> rat \<Rightarrow> string \<Rightarrow> rat" where
  "float_text b es eb s =
     (let i = digits_of b s; r = drop (length i) s;
          f = (if take 1 r = ''.'' then digits_of b (tl r) else []);
          r = (if take 1 r = ''.'' then drop (length f) (tl r) else r)
      in if i @ f = [] then 0
         else scaled (of_nat (value_in b (i @ f)) / of_nat b ^ length f) eb (exponent_part es r))"

definition low_char :: "char \<Rightarrow> char" where
  "low_char c = (let n = (of_char c :: nat) in if 65 \<le> n \<and> n \<le> 90 then char_of (n + 32) else c)"

definition atof :: "string \<Rightarrow> float_val" where
  "atof s =
     (let t = dropWhile is_space s; neg = (take 1 t = ''-'');
          u = (if neg \<or> take 1 t = ''+'' then tl t else t); w = map low_char (take 3 u)
      in if w = ''inf'' then Infinite neg
         else if w = ''nan'' then Not_A_Number neg
         else
           let x = (if take 2 w = ''0x'' then float_text 16 ''pP'' 2 (drop 2 u) else float_text 10 ''eE'' 10 u)
           in to_ieee 53 1023 (if neg then - x else x))"

text \<open>\<open>%f\<close>, into an array of 32 characters\<close>

definition print_f :: "float_val \<Rightarrow> string" where
  "print_f v = (case v of
       Finite r \<Rightarrow>
         let n = nat (round_half_even (\<bar>r\<bar> * 1000000)); f = decimal (n mod 1000000)
         in (if r < 0 then ''-'' else []) @ decimal (n div 1000000) @ ''.'' @ replicate (6 - length f) (CHR ''0'') @ f
     | Infinite neg \<Rightarrow> (if neg then ''-inf'' else ''inf'')
     | Not_A_Number neg \<Rightarrow> (if neg then ''-nan'' else ''nan''))"

text \<open>\<open>(int32_t) v\<close>, which is the least number where the value is out of range\<close>

definition to_int32 :: "float_val \<Rightarrow> int" where
  "to_int32 v = (case v of Finite r \<Rightarrow> if - (2 ^ 31) \<le> trunc r \<and> trunc r < 2 ^ 31 then trunc r else - (2 ^ 31)
     | _ \<Rightarrow> - (2 ^ 31))"

section \<open>Variables\<close>

definition CVAR_CLI :: uint32 where "CVAR_CLI = 0x1"
definition CVAR_ARCHIVE :: uint32 where "CVAR_ARCHIVE = 0x2"
definition CVAR_USER_INFO :: uint32 where "CVAR_USER_INFO = 0x4"
definition CVAR_SERVER_INFO :: uint32 where "CVAR_SERVER_INFO = 0x8"
definition CVAR_LO_ONLY :: uint32 where "CVAR_LO_ONLY = 0x10"
definition CVAR_NO_SET :: uint32 where "CVAR_NO_SET = 0x20"
definition CVAR_LATCH :: uint32 where "CVAR_LATCH = 0x40"

definition Q2W_SERVER :: uint32 where "Q2W_SERVER = 0x1"
definition Q2W_CLIENT :: uint32 where "Q2W_CLIENT = 0x4"

datatype latched = Unlatched | Latched string | Dangling

record cvar =
  var_name :: string
  var_description :: "string option"
  default_value :: "string option"
  var_string :: string
  latched_string :: latched
  var_flags :: uint32
  var_modified :: bool
  var_value :: float_val
  var_integer :: int

text \<open>
  \<open>cvar_state_t\<close>, the flag and the static arrays of \<open>cvar.c\<close>, the initialised subsystems, and
  \<open>others\<close> for what the other parts of the program keep
\<close>

record 'w cvars =
  vars :: "string \<Rightarrow> cvar option"
  var_keys :: "string list"
  cvar_user_info_modified :: bool
  user_info_text :: string
  server_info_text :: string
  subsystems :: uint32
  others :: 'w

definition Com_WasInit :: "uint32 \<Rightarrow> 'w cvars \<Rightarrow> bool" where
  "Com_WasInit f s \<longleftrightarrow> subsystems s AND f \<noteq> 0"

definition has_any :: "cvar \<Rightarrow> uint32 \<Rightarrow> bool" where
  "has_any v f \<longleftrightarrow> var_flags v AND f \<noteq> 0"

definition Cvar_InfoValidate :: "string option \<Rightarrow> bool" where
  "Cvar_InfoValidate s = (case s of None \<Rightarrow> False
     | Some s \<Rightarrow> if backslash \<in> set s then False
         else if quote \<in> set s then False
         else if semicolon \<in> set s then False
         else True)"

definition Cvar_Lookup :: "string \<Rightarrow> 'w cvars \<Rightarrow> cvar option" where
  "Cvar_Lookup n s = vars s n"

definition Cvar_GetValue :: "string \<Rightarrow> 'w cvars \<Rightarrow> float_val" where
  "Cvar_GetValue n s = (case Cvar_Lookup n s of None \<Rightarrow> Finite 0 | Some v \<Rightarrow> to_vec (atof (var_string v)))"

definition Cvar_GetString :: "string \<Rightarrow> 'w cvars \<Rightarrow> string" where
  "Cvar_GetString n s = (case Cvar_Lookup n s of None \<Rightarrow> [] | Some v \<Rightarrow> var_string v)"

section \<open>Enumeration\<close>

text \<open>
  The function is called with each variable and the state, and with \<open>data\<close>. Those of \<open>cvar.c\<close>
  add no variables, save that of \<open>Cvar_UpdateLatched\<close>, which has its own loop below.
\<close>

fun enum_vars :: "(cvar \<Rightarrow> 'w cvars \<times> 'd \<Rightarrow> ('w cvars \<times> 'd) result) \<Rightarrow> string list \<Rightarrow> 'w cvars \<times> 'd \<Rightarrow> ('w cvars \<times> 'd) result" where
  "enum_vars f [] sd = Inr sd"
| "enum_vars f (k # ks) sd = (case vars (fst sd) k of
       None \<Rightarrow> Inl (Err_Fatal ''Missing variable'')
     | Some v \<Rightarrow> bindE (f v sd) (enum_vars f ks))"

definition Cvar_Enumerate :: "(cvar \<Rightarrow> 'w cvars \<times> 'd \<Rightarrow> ('w cvars \<times> 'd) result) \<Rightarrow> 'w cvars \<Rightarrow> 'd \<Rightarrow> ('w cvars \<times> 'd) result" where
  "Cvar_Enumerate f s data = enum_vars f (var_keys s) (s, data)"

definition Cvar_CompleteVar :: "string \<Rightarrow> 'w cvars \<Rightarrow> string list \<Rightarrow> string list result" where
  "Cvar_CompleteVar pattern s ms =
     bindE (Cvar_Enumerate (\<lambda>v (s, ms).
       bindE (GlobMatch (Some pattern) (Some (var_name v))) (\<lambda>m.
         Inr (s, if m then var_name v # ms else ms))) s ms) (\<lambda>sd. Inr (snd sd))"

section \<open>Setting\<close>

definition put_var :: "cvar \<Rightarrow> 'w cvars \<Rightarrow> 'w cvars" where
  "put_var v s = s\<lparr>vars := (vars s)(var_name v \<mapsto> v)\<rparr>"

definition set_string :: "string \<Rightarrow> cvar \<Rightarrow> cvar" where
  "set_string t v = v\<lparr>var_string := t, var_value := to_vec (atof t), var_integer := atoi t\<rparr>"

definition new_var :: "string \<Rightarrow> string \<Rightarrow> uint32 \<Rightarrow> string option \<Rightarrow> cvar" where
  "new_var n t fl desc = \<lparr>var_name = n, var_description = desc, default_value = Some t, var_string = t,
     latched_string = Unlatched, var_flags = fl, var_modified = True, var_value = to_vec (atof t), var_integer = atoi t\<rparr>"

text \<open>The value may be null.\<close>

definition Cvar_Get :: "string \<Rightarrow> string option \<Rightarrow> uint32 \<Rightarrow> string option \<Rightarrow> 'w cvars \<Rightarrow> cvar option \<times> 'w cvars" where
  "Cvar_Get n t fl desc s =
     (if fl AND (CVAR_USER_INFO OR CVAR_SERVER_INFO) \<noteq> 0 \<and> \<not> Cvar_InfoValidate (Some n) then (None, s)
      else if fl AND (CVAR_USER_INFO OR CVAR_SERVER_INFO) \<noteq> 0 \<and> \<not> Cvar_InfoValidate t then (None, s)
      else case Cvar_Lookup n s of
        Some v \<Rightarrow>
          let v = (case t of None \<Rightarrow> v | Some _ \<Rightarrow> v\<lparr>default_value := t\<rparr>);
              v = v\<lparr>var_flags := var_flags v OR fl\<rparr>;
              v = (case desc of None \<Rightarrow> v | Some _ \<Rightarrow> v\<lparr>var_description := desc\<rparr>)
          in (Some v, put_var v s)
      | None \<Rightarrow> (case t of
          None \<Rightarrow> (None, s)
        | Some t \<Rightarrow>
            let v = new_var n t fl desc
            in (Some v, (put_var v s)\<lparr>var_keys := insert_key n (var_keys s)\<rparr>)))"

text \<open>Whether only local variables may not be changed now\<close>

definition online :: "'w cvars \<Rightarrow> bool" where
  "online s \<longleftrightarrow> to_int32 (Cvar_GetValue ''sv_max_clients'' s) > 1 \<or> (Com_WasInit Q2W_CLIENT s \<and> \<not> Com_WasInit Q2W_SERVER s)"

text \<open>The end of \<open>Cvar_Set_\<close>, for a variable that may be changed\<close>

definition change_var :: "string \<Rightarrow> cvar \<Rightarrow> 'w cvars \<Rightarrow> 'w cvars" where
  "change_var t v s =
     (if t = var_string v then put_var v s
      else
        let s = (if has_any v CVAR_USER_INFO then s\<lparr>cvar_user_info_modified := True\<rparr> else s)
        in put_var ((set_string t v)\<lparr>var_modified := True\<rparr>) s)"

text \<open>The branch of \<open>Cvar_Set_\<close> for latched variables: the old latched string is freed, but not cleared.\<close>

definition set_latched :: "string \<Rightarrow> cvar \<Rightarrow> 'w cvars \<Rightarrow> 'w cvars result" where
  "set_latched t v s =
     (let change = (\<lambda>left. if Com_WasInit Q2W_SERVER s then Inr (put_var (v\<lparr>latched_string := Latched t\<rparr>) s)
                           else Inr (put_var ((set_string t v)\<lparr>latched_string := left\<rparr>) s))
      in case latched_string v of
           Dangling \<Rightarrow> Inl Bad_Access
         | Latched l \<Rightarrow> if t = l then Inr s else change Dangling
         | Unlatched \<Rightarrow> if t = var_string v then Inr s else change Unlatched)"

text \<open>The pointer to the variable that the function returns is of no use to its callers.\<close>

definition Cvar_Set_var :: "string \<Rightarrow> string \<Rightarrow> bool \<Rightarrow> 'w cvars \<Rightarrow> 'w cvars result" where
  "Cvar_Set_var n t force s =
     (case Cvar_Lookup n s of
        None \<Rightarrow> Inr (snd (Cvar_Get n (Some t) 0 None s))
      | Some v \<Rightarrow>
          if has_any v (CVAR_USER_INFO OR CVAR_SERVER_INFO) \<and> \<not> Cvar_InfoValidate (Some t) then Inr s
          else if force then
            (case latched_string v of
               Unlatched \<Rightarrow> Inr (change_var t v s)
             | Latched _ \<Rightarrow> Inr (change_var t (v\<lparr>latched_string := Unlatched\<rparr>) s)
             | Dangling \<Rightarrow> Inl Bad_Access)
          else if has_any v CVAR_CLI \<and> \<not> Com_WasInit Q2W_CLIENT s \<and> \<not> Com_WasInit Q2W_SERVER s then Inr s
          else if has_any v CVAR_LO_ONLY \<and> online s then Inr s
          else if has_any v CVAR_NO_SET then Inr s
          else if has_any v CVAR_LATCH then set_latched t v s
          else Inr (change_var t v s))"

definition Cvar_ForceSet :: "string \<Rightarrow> string \<Rightarrow> 'w cvars \<Rightarrow> 'w cvars result" where
  "Cvar_ForceSet n t s = Cvar_Set_var n t True s"

definition Cvar_Set :: "string \<Rightarrow> string \<Rightarrow> 'w cvars \<Rightarrow> 'w cvars result" where
  "Cvar_Set n t s = Cvar_Set_var n t False s"

definition Cvar_FullSet :: "string \<Rightarrow> string \<Rightarrow> uint32 \<Rightarrow> 'w cvars \<Rightarrow> 'w cvars" where
  "Cvar_FullSet n t fl s =
     (case Cvar_Lookup n s of
        None \<Rightarrow> snd (Cvar_Get n (Some t) fl None s)
      | Some v \<Rightarrow>
          let s = (if has_any v CVAR_USER_INFO then s\<lparr>cvar_user_info_modified := True\<rparr> else s)
          in put_var ((set_string t v)\<lparr>var_flags := fl, var_modified := True\<rparr>) s)"

definition Cvar_SetValue :: "string \<Rightarrow> float_val \<Rightarrow> 'w cvars \<Rightarrow> 'w cvars result" where
  "Cvar_SetValue n x s =
     (let val = (if x = Finite (of_int (to_int32 x)) then print_int (to_int32 x) else take 31 (print_f x))
      in Cvar_Set n val s)"

definition Cvar_Toggle :: "string \<Rightarrow> 'w cvars \<Rightarrow> 'w cvars result" where
  "Cvar_Toggle n s =
     (case Cvar_Lookup n s of None \<Rightarrow> Inr s
      | Some v \<Rightarrow> if var_value v \<noteq> Finite 0 then Cvar_SetValue n (Finite 0) s else Cvar_SetValue n (Finite 1) s)"

definition Cvar_ResetLocal :: "'w cvars \<Rightarrow> 'w cvars result" where
  "Cvar_ResetLocal s =
     (if online s then
        bindE (Cvar_Enumerate (\<lambda>v (s, d).
          Inr (if has_any v CVAR_LO_ONLY
               then (case default_value v of None \<Rightarrow> s | Some t \<Rightarrow> Cvar_FullSet (var_name v) t (var_flags v) s) else s, d)) s ())
          (\<lambda>sd. Inr (fst sd))
      else Inr s)"

section \<open>Latched and pending changes\<close>

definition Cvar_PendingLatched :: "'w cvars \<Rightarrow> bool result" where
  "Cvar_PendingLatched s =
     bindE (Cvar_Enumerate (\<lambda>v (s, pending). Inr (s, if latched_string v \<noteq> Unlatched then True else pending)) s False)
       (\<lambda>sd. Inr (snd sd))"

text \<open>
  \<open>new_game\<close> is \<open>Fs_SetGame\<close> with the execution of \<open>autoexec.cfg\<close>, which may set and add variables.
  The loop goes on behind the variable it has come to.
\<close>

definition update_latched :: "(string \<Rightarrow> 'w cvars \<Rightarrow> 'w cvars run) \<Rightarrow> cvar \<Rightarrow> 'w cvars \<Rightarrow> 'w cvars run" where
  "update_latched new_game v s =
     (case latched_string v of
        Unlatched \<Rightarrow> Some (Inr s)
      | Dangling \<Rightarrow> Some (Inl Bad_Access)
      | Latched t \<Rightarrow>
          let s = put_var ((set_string t v)\<lparr>latched_string := Unlatched\<rparr>) s
          in if var_name v = ''game'' then new_game t s else Some (Inr s))"

definition behind :: "string \<Rightarrow> string list \<Rightarrow> string list" where
  "behind k ks = tl (dropWhile (\<lambda>l. l \<noteq> k) ks)"

partial_function (option) update_from :: "(string \<Rightarrow> 'w cvars \<Rightarrow> 'w cvars run) \<Rightarrow> string list \<Rightarrow> 'w cvars \<Rightarrow> 'w cvars run" where
  "update_from new_game ks s =
     (case ks of [] \<Rightarrow> Some (Inr s)
      | k # _ \<Rightarrow> (case vars s k of
          None \<Rightarrow> Some (Inl (Err_Fatal ''Missing variable''))
        | Some v \<Rightarrow> bindO (update_latched new_game v s) (\<lambda>s. update_from new_game (behind k (var_keys s)) s)))"

definition Cvar_UpdateLatched :: "(string \<Rightarrow> 'w cvars \<Rightarrow> 'w cvars run) \<Rightarrow> 'w cvars \<Rightarrow> 'w cvars run" where
  "Cvar_UpdateLatched new_game s = update_from new_game (var_keys s) s"

definition Cvar_Pending :: "uint32 \<Rightarrow> 'w cvars \<Rightarrow> bool result" where
  "Cvar_Pending fl s =
     bindE (Cvar_Enumerate (\<lambda>v (s, pending). Inr (s, if has_any v fl \<and> var_modified v then True else pending)) s False)
       (\<lambda>sd. Inr (snd sd))"

definition Cvar_ClearAll :: "uint32 \<Rightarrow> 'w cvars \<Rightarrow> 'w cvars result" where
  "Cvar_ClearAll fl s =
     bindE (Cvar_Enumerate (\<lambda>v (s, d).
       Inr (if has_any v fl \<and> var_modified v then put_var (v\<lparr>var_modified := False\<rparr>) s else s, d)) s ())
       (\<lambda>sd. Inr (fst sd))"

section \<open>The console\<close>

text \<open>Whether the command was a variable\<close>

definition Cvar_Command :: "cmd_args \<Rightarrow> 'w cvars \<Rightarrow> (bool \<times> 'w cvars) result" where
  "Cvar_Command a s =
     (case Cvar_Lookup (Cmd_Argv a 0) s of
        None \<Rightarrow> Inr (False, s)
      | Some v \<Rightarrow>
          if Cmd_Argc a = 1 then Inr (True, s)
          else bindE (Cvar_Set (var_name v) (Cmd_Argv a 1) s) (\<lambda>s. Inr (True, s)))"

definition Cvar_Set_f :: "cmd_args \<Rightarrow> 'w cvars \<Rightarrow> 'w cvars result" where
  "Cvar_Set_f a s =
     (if Cmd_Argc a \<noteq> 3 then Inr s
      else if Cmd_Argv a 0 = ''seta'' then Inr (Cvar_FullSet (Cmd_Argv a 1) (Cmd_Argv a 2) CVAR_ARCHIVE s)
      else if Cmd_Argv a 0 = ''sets'' then Inr (Cvar_FullSet (Cmd_Argv a 1) (Cmd_Argv a 2) CVAR_SERVER_INFO s)
      else if Cmd_Argv a 0 = ''setu'' then Inr (Cvar_FullSet (Cmd_Argv a 1) (Cmd_Argv a 2) CVAR_USER_INFO s)
      else Cvar_Set (Cmd_Argv a 1) (Cmd_Argv a 2) s)"

definition Cvar_Toggle_f :: "cmd_args \<Rightarrow> 'w cvars \<Rightarrow> 'w cvars result" where
  "Cvar_Toggle_f a s = (if Cmd_Argc a \<noteq> 2 then Inr s else Cvar_Toggle (Cmd_Argv a 1) s)"

definition Cvar_List_f :: "'w cvars \<Rightarrow> 'w cvars result" where
  "Cvar_List_f s = bindE (Cvar_Enumerate (\<lambda>v sd. Inr sd) s ()) (\<lambda>sd. Inr (fst sd))"

section \<open>Strings of many variables\<close>

text \<open>The static arrays keep what the call before has left in them.\<close>

definition Cvar_UserInfo :: "'w cvars \<Rightarrow> (string \<times> 'w cvars) result" where
  "Cvar_UserInfo s =
     bindE (Cvar_Enumerate (\<lambda>v (s, info).
       bindE (if has_any v CVAR_USER_INFO then SetUserInfo info (var_name v) (var_string v) else Inr info) (\<lambda>info. Inr (s, info)))
       s (user_info_text s)) (\<lambda>(s, info). Inr (info, s\<lparr>user_info_text := info\<rparr>))"

definition Cvar_ServerInfo :: "'w cvars \<Rightarrow> (string \<times> 'w cvars) result" where
  "Cvar_ServerInfo s =
     bindE (Cvar_Enumerate (\<lambda>v (s, info).
       bindE (if has_any v CVAR_SERVER_INFO then SetUserInfo info (var_name v) (var_string v) else Inr info) (\<lambda>info. Inr (s, info)))
       s (server_info_text s)) (\<lambda>(s, info). Inr (info, s\<lparr>server_info_text := info\<rparr>))"

text \<open>\<open>Fs_Print\<close> prints into an array of \<open>MAX_PRINT_MSG\<close> characters.\<close>

definition MAX_PRINT_MSG :: nat where "MAX_PRINT_MSG = 2048"

definition set_line :: "cvar \<Rightarrow> string" where
  "set_line v = ''set '' @ var_name v @ '' '' @ [quote] @ var_string v @ [quote, newline]"

definition Cvar_WriteAll :: "'w cvars \<Rightarrow> string \<Rightarrow> string result" where
  "Cvar_WriteAll s f =
     bindE (Cvar_Enumerate (\<lambda>v (s, f).
       Inr (s, if has_any v CVAR_ARCHIVE then f @ take (MAX_PRINT_MSG - 1) (set_line v) else f)) s f) (\<lambda>sd. Inr (snd sd))"

section \<open>Starting\<close>

text \<open>The commands of \<open>cvar.c\<close> among those of \<open>env\<close>, and the hooks of \<open>cmd.c\<close>\<close>

definition cvar_cmds :: "'w cvars cmd_env \<Rightarrow> 'w cvars cmd_env" where
  "cvar_cmds env = env\<lparr>cvar_string := (\<lambda>s n. Cvar_GetString n s),
     is_cvar := (\<lambda>s n. fst (Cvar_Get n None 0 None s) \<noteq> None), cvar_command := Cvar_Command,
     call_other := (\<lambda>f s.
       let on_vars = (\<lambda>g. bindE (g (world s)) (\<lambda>w. Inr (s\<lparr>world := w\<rparr>))) in
       if f = ''Cvar_Set_f'' then on_vars (Cvar_Set_f (cargs s))
       else if f = ''Cvar_Toggle_f'' then on_vars (Cvar_Toggle_f (cargs s))
       else if f = ''Cvar_List_f'' then on_vars Cvar_List_f
       else call_other env f s)\<rparr>"

definition Com_Argv :: "string list \<Rightarrow> nat \<Rightarrow> string" where
  "Com_Argv as i = (if i \<ge> length as then [] else as ! i)"

text \<open>\<open>as\<close> are the arguments of the program from \<open>i\<close> on; \<open>va\<close> cuts the command.\<close>

function set_from_args :: "'w cvars cmd_env \<Rightarrow> string list \<Rightarrow> 'w cvars cmd_state \<Rightarrow> 'w cvars cmd_state result" where
  "set_from_args env [] s = Inr s"
| "set_from_args env (a # as) s =
     (if take 4 a = ''+set'' then
        let n = Com_Argv as 0;
            line = take (MAX_STRING_CHARS - 1) (tl a @ '' '' @ n @ '' '' @ Com_Argv as 1 @ [newline])
        in bindE (Cmd_ExecuteString env line s) (\<lambda>s.
             let s = (case Cvar_Lookup n (world s) of None \<Rightarrow> s
                   | Some v \<Rightarrow> s\<lparr>world := put_var (v\<lparr>var_flags := var_flags v OR CVAR_CLI\<rparr>) (world s)\<rparr>)
             in set_from_args env (drop 2 as) s)
      else set_from_args env as s)"
  by pat_completeness auto

termination
  by (relation "measure (\<lambda>(_, as, _). length as)") simp_all

definition no_vars :: "uint32 \<Rightarrow> 'w \<Rightarrow> 'w cvars" where
  "no_vars subs w = \<lparr>vars = Map.empty, var_keys = [], cvar_user_info_modified = False, user_info_text = [],
     server_info_text = [], subsystems = subs, others = w\<rparr>"

definition Cvar_Init :: "'w cvars cmd_env \<Rightarrow> string list \<Rightarrow> 'w cvars cmd_state \<Rightarrow> 'w cvars cmd_state result" where
  "Cvar_Init env com_argv s =
     (let env = cvar_cmds env;
          s = s\<lparr>world := (world s)\<lparr>vars := Map.empty, var_keys := []\<rparr>\<rparr>;
          s = snd (Cmd_Add env ''set'' (Other ''Cvar_Set_f'') 0 (Some ''Create or modify a console variable'') s);
          s = snd (Cmd_Add env ''seta'' (Other ''Cvar_Set_f'') 0 (Some ''Create an archived console variable'') s);
          s = snd (Cmd_Add env ''sets'' (Other ''Cvar_Set_f'') 0 (Some ''Create a server-info console variable'') s);
          s = snd (Cmd_Add env ''setu'' (Other ''Cvar_Set_f'') 0 (Some ''Create a user-info console variable'') s);
          s = snd (Cmd_Add env ''toggle'' (Other ''Cvar_Toggle_f'') 0 None s);
          s = snd (Cmd_Add env ''cvar_list'' (Other ''Cvar_List_f'') 0 None s)
      in set_from_args env (tl com_argv) s)"

text \<open>The table is gone afterwards.\<close>

definition Cvar_Shutdown :: "'w cvars cmd_state \<Rightarrow> 'w cvars cmd_state" where
  "Cvar_Shutdown s = fold Cmd_Remove [''set'', ''seta'', ''sets'', ''setu'', ''toggle'', ''cvar_list'']
     (s\<lparr>world := (world s)\<lparr>vars := Map.empty, var_keys := []\<rparr>\<rparr>)"

end
