(* ===== verification/Cvar_Laws.thy ===== *)
theory Cvar_Laws
  imports Cvar Requests
begin

text \<open>
  What the console variables promise: every operation keeps the table in step with the sorted
  list of names and the numbers of a variable in step with its string, and the configuration
  that is written out sets the variables again when it is executed.
\<close>

section \<open>The order of names\<close>

lemma str_le_refl: "str_le s s"
  by (induction s) simp_all

lemma str_le_trans: "str_le s t \<Longrightarrow> str_le t u \<Longrightarrow> str_le s u"
proof (induction s t arbitrary: u rule: str_le.induct)
  case (3 c s d t)
  then show ?case by (cases u) (auto split: if_splits)
next
  case (2 c s)
  then show ?case by simp
qed simp

lemma str_le_total: "str_le s t \<or> str_le t s"
proof (induction s t rule: str_le.induct)
  case (3 c s d t)
  have "(of_char c :: nat) < of_char d \<or> (of_char d :: nat) < of_char c" if "c \<noteq> d"
    using that by (metis linorder_neqE_nat of_char_eq_iff)
  then show ?case using 3 by auto
qed simp_all

lemma str_le_antisym: "str_le s t \<Longrightarrow> str_le t s \<Longrightarrow> s = t"
proof (induction s t rule: str_le.induct)
  case (1 t)
  then show ?case by (cases t) simp_all
qed (auto split: if_splits)

definition before :: "string \<Rightarrow> string \<Rightarrow> bool" where
  "before s t \<longleftrightarrow> str_le s t \<and> s \<noteq> t"

lemma before_trans: "before s t \<Longrightarrow> before t u \<Longrightarrow> before s u"
  unfolding before_def using str_le_trans str_le_antisym by blast

lemma set_insert_key [simp]: "set (insert_key k ks) = insert k (set ks)"
  by (induction ks) auto

lemma sorted_insert_key:
  assumes "sorted_wrt before ks" "k \<notin> set ks"
  shows "sorted_wrt before (insert_key k ks)"
  using assms
proof (induction ks)
  case (Cons l ls)
  show ?case
  proof (cases "str_le k l")
    case True
    then have "before k l" using Cons.prems(2) by (simp add: before_def)
    then show ?thesis using True Cons.prems before_trans by auto
  next
    case False
    then have "before l k" using Cons.prems(2) str_le_total [of k l] by (auto simp: before_def)
    then show ?thesis using False Cons by auto
  qed
qed simp

lemma sorted_distinct: "sorted_wrt before ks \<Longrightarrow> distinct ks"
  by (induction ks) (auto simp: before_def)

section \<open>What every operation keeps\<close>

text \<open>
  A property of single variables that new ones have and that changing a string and the other
  fields keeps is kept by every operation on the table.
\<close>

definition table_ok :: "'w cvars \<Rightarrow> bool" where
  "table_ok s \<longleftrightarrow> sorted_wrt before (var_keys s) \<and> set (var_keys s) = dom (vars s) \<and>
     (\<forall>n v. vars s n = Some v \<longrightarrow> var_name v = n)"

definition all_vars :: "(cvar \<Rightarrow> bool) \<Rightarrow> 'w cvars \<Rightarrow> bool" where
  "all_vars P s \<longleftrightarrow> table_ok s \<and> (\<forall>n v. vars s n = Some v \<longrightarrow> P v)"

lemma all_varsD: "all_vars P s \<Longrightarrow> vars s n = Some v \<Longrightarrow> P v \<and> var_name v = n"
  by (simp add: all_vars_def table_ok_def)

lemma enum_invariant:
  assumes f: "\<And>v s d s' d'. I s \<Longrightarrow> vars s (var_name v) = Some v \<Longrightarrow> f v (s, d) = Inr (s', d') \<Longrightarrow> I s'"
    and name: "\<And>s n v. I s \<Longrightarrow> vars s n = Some v \<Longrightarrow> var_name v = n"
    and "I s" "enum_vars f ks (s, d) = Inr (s', d')"
  shows "I s'"
  using assms(3,4)
proof (induction ks arbitrary: s d)
  case (Cons k ks)
  then obtain v s1 d1 where v: "vars s k = Some v" "f v (s, d) = Inr (s1, d1)" "enum_vars f ks (s1, d1) = Inr (s', d')"
    by (auto simp: bindE_eq_Inr split: option.splits)
  then have "I s1" using f [OF Cons.prems(1), of v] name [OF Cons.prems(1) v(1)] by simp
  then show ?case using Cons.IH v(3) by blast
qed simp

locale var_invariant =
  fixes P :: "cvar \<Rightarrow> bool"
  assumes new: "P (new_var n t fl desc)"
    and string: "P v \<Longrightarrow> P (set_string t v)"
    and flags: "P v \<Longrightarrow> P (v\<lparr>var_flags := fl\<rparr>)"
    and default: "P v \<Longrightarrow> P (v\<lparr>default_value := Some t\<rparr>)"
    and description: "P v \<Longrightarrow> P (v\<lparr>var_description := desc\<rparr>)"
    and modified: "P v \<Longrightarrow> P (v\<lparr>var_modified := b\<rparr>)"
    and latch: "P v \<Longrightarrow> P (v\<lparr>latched_string := l\<rparr>)"
begin

lemma keep_put:
  assumes "all_vars P s" "vars s n = Some v" "P w" "var_name w = n"
  shows "all_vars P (put_var w s)"
proof -
  have "insert n (dom (vars s)) = dom (vars s)" using assms(2) by auto
  then show ?thesis using assms by (auto simp: all_vars_def table_ok_def put_var_def)
qed

lemma keep_fields:
  "all_vars P (s\<lparr>cvar_user_info_modified := b\<rparr>) = all_vars P s" "all_vars P (s\<lparr>user_info_text := t\<rparr>) = all_vars P s"
  "all_vars P (s\<lparr>server_info_text := t\<rparr>) = all_vars P s" "all_vars P (s\<lparr>subsystems := f\<rparr>) = all_vars P s"
  "all_vars P (s\<lparr>others := w\<rparr>) = all_vars P s"
  by (simp_all add: all_vars_def table_ok_def)

lemma keep_Get: "all_vars P s \<Longrightarrow> all_vars P (snd (Cvar_Get n t fl desc s))"
proof -
  assume ok: "all_vars P s"
  show ?thesis
  proof (cases "vars s n")
    case None
    have "all_vars P ((put_var (new_var n u fl desc) s)\<lparr>var_keys := insert_key n (var_keys s)\<rparr>)" for u
    proof -
      have "n \<notin> set (var_keys s)" using ok None by (auto simp: all_vars_def table_ok_def)
      then show ?thesis
        using ok new sorted_insert_key by (auto simp: all_vars_def table_ok_def put_var_def new_var_def)
    qed
    then show ?thesis using ok None by (cases t) (simp_all add: Cvar_Get_def Cvar_Lookup_def Let_def)
  next
    case (Some v)
    have v: "P v" "var_name v = n" using all_varsD [OF ok Some] by simp_all
    define w where "w = (case t of None \<Rightarrow> v | Some _ \<Rightarrow> v\<lparr>default_value := t\<rparr>)"
    have w: "P w" "var_name w = n" using v default by (simp_all add: w_def split: option.splits)
    let ?u = "w\<lparr>var_flags := var_flags w OR fl\<rparr>"
    have "P ?u" "P (?u\<lparr>var_description := desc\<rparr>)" using flags description w(1) by blast+
    then have "all_vars P (put_var ?u s)" "all_vars P (put_var (?u\<lparr>var_description := desc\<rparr>) s)"
      using keep_put [OF ok Some] w(2) by simp_all
    then show ?thesis
      unfolding Cvar_Get_def Cvar_Lookup_def Some option.case w_def [symmetric]
      using ok by (cases desc) (simp_all add: Let_def)
  qed
qed

lemma keep_change:
  assumes "all_vars P s" "vars s n = Some u" "P v" "var_name v = n"
  shows "all_vars P (change_var t v s)"
proof -
  have w: "P ((set_string t v)\<lparr>var_modified := True\<rparr>)" "var_name ((set_string t v)\<lparr>var_modified := True\<rparr>) = n"
    using assms(3,4) string modified by (simp_all add: set_string_def)
  have "all_vars P (s\<lparr>cvar_user_info_modified := True\<rparr>)" "vars (s\<lparr>cvar_user_info_modified := True\<rparr>) n = Some u"
    using assms(1,2) by (simp_all add: keep_fields)
  from keep_put [OF this w] keep_put [OF assms(1,2) w] keep_put [OF assms] show ?thesis
    by (simp add: change_var_def Let_def)
qed

lemma keep_latched:
  assumes "all_vars P s" "vars s n = Some v" "set_latched t v s = Inr s'"
  shows "all_vars P s'"
proof -
  have v: "P v" "var_name v = n" using all_varsD [OF assms(1,2)] by simp_all
  have "P (v\<lparr>latched_string := l\<rparr>)" "P ((set_string t v)\<lparr>latched_string := l\<rparr>)" for l using v string latch by simp_all
  then have "all_vars P (put_var (v\<lparr>latched_string := l\<rparr>) s)" "all_vars P (put_var ((set_string t v)\<lparr>latched_string := l\<rparr>) s)" for l
    using v by (auto intro!: keep_put [OF assms(1,2)] simp: set_string_def)
  then show ?thesis using assms(1,3) by (auto simp: set_latched_def Let_def split: latched.splits if_splits)
qed

lemma keep_Set: "all_vars P s \<Longrightarrow> Cvar_Set_var n t force s = Inr s' \<Longrightarrow> all_vars P s'"
proof (cases "vars s n")
  case None
  then show "all_vars P s \<Longrightarrow> Cvar_Set_var n t force s = Inr s' \<Longrightarrow> all_vars P s'"
    using keep_Get by (auto simp: Cvar_Set_var_def Cvar_Lookup_def)
next
  case (Some v)
  assume ok: "all_vars P s" and set: "Cvar_Set_var n t force s = Inr s'"
  have v: "P v" "var_name v = n" using all_varsD [OF ok Some] by simp_all
  have "all_vars P (change_var t v s)" "all_vars P (change_var t (v\<lparr>latched_string := Unlatched\<rparr>) s)"
    using keep_change [OF ok Some] v latch by simp_all
  then show "all_vars P s'"
    using set ok keep_latched [OF ok Some] Some
    by (auto simp: Cvar_Set_var_def Cvar_Lookup_def split: if_splits latched.splits)
qed

lemma keep_FullSet: "all_vars P s \<Longrightarrow> all_vars P (Cvar_FullSet n t fl s)"
proof -
  assume ok: "all_vars P s"
  show ?thesis
  proof (cases "vars s n")
    case None
    then show ?thesis using keep_Get [OF ok] by (simp add: Cvar_FullSet_def Cvar_Lookup_def)
  next
    case (Some v)
    have v: "P v" "var_name v = n" using all_varsD [OF ok Some] by simp_all
    let ?s = "if has_any v CVAR_USER_INFO then s\<lparr>cvar_user_info_modified := True\<rparr> else s"
    have "all_vars P ?s" "vars ?s n = Some v" using ok Some by (simp_all add: keep_fields)
    moreover have "P ((set_string t v)\<lparr>var_flags := fl, var_modified := True\<rparr>)" using v string flags modified by simp
    ultimately have "all_vars P (put_var ((set_string t v)\<lparr>var_flags := fl, var_modified := True\<rparr>) ?s)"
      using v by (intro keep_put) (simp_all add: set_string_def)
    then show ?thesis by (simp add: Cvar_FullSet_def Cvar_Lookup_def Some Let_def)
  qed
qed

lemmas keep_SetValue = keep_Set [of _ _ _ False, folded Cvar_Set_def]

lemma keep_Toggle: "all_vars P s \<Longrightarrow> Cvar_Toggle n s = Inr s' \<Longrightarrow> all_vars P s'"
  using keep_SetValue by (auto simp: Cvar_Toggle_def Cvar_SetValue_def Let_def split: option.splits if_splits)

lemma keep_enum:
  assumes "all_vars P s" "Cvar_Enumerate f s d = Inr (s', d')"
    and "\<And>v s d s' d'. all_vars P s \<Longrightarrow> vars s (var_name v) = Some v \<Longrightarrow> f v (s, d) = Inr (s', d') \<Longrightarrow> all_vars P s'"
  shows "all_vars P s'"
proof (rule enum_invariant [where I = "all_vars P" and f = f])
  show "enum_vars f (var_keys s) (s, d) = Inr (s', d')" using assms(2) by (simp add: Cvar_Enumerate_def)
  show "\<And>s n v. all_vars P s \<Longrightarrow> vars s n = Some v \<Longrightarrow> var_name v = n" using all_varsD by blast
qed (use assms(1,3) in blast)+

lemma keep_ResetLocal: "all_vars P s \<Longrightarrow> Cvar_ResetLocal s = Inr s' \<Longrightarrow> all_vars P s'"
proof -
  assume ok: "all_vars P s" and r: "Cvar_ResetLocal s = Inr s'"
  show ?thesis
  proof (cases "online s")
    case True
    let ?f = "\<lambda>v (s, d :: unit). Inr (if has_any v CVAR_LO_ONLY
      then (case default_value v of None \<Rightarrow> s | Some t \<Rightarrow> Cvar_FullSet (var_name v) t (var_flags v) s) else s, d)"
    obtain d where e: "Cvar_Enumerate ?f s () = Inr (s', d)"
      using r True by (auto simp: Cvar_ResetLocal_def bindE_eq_Inr)
    show ?thesis
      by (rule keep_enum [OF ok e]) (auto simp: keep_FullSet split: if_splits option.splits)
  qed (use ok r in \<open>simp add: Cvar_ResetLocal_def\<close>)
qed

lemma keep_ClearAll: "all_vars P s \<Longrightarrow> Cvar_ClearAll fl s = Inr s' \<Longrightarrow> all_vars P s'"
proof -
  assume ok: "all_vars P s" and r: "Cvar_ClearAll fl s = Inr s'"
  let ?f = "\<lambda>v (s, d :: unit). Inr (if has_any v fl \<and> var_modified v then put_var (v\<lparr>var_modified := False\<rparr>) s else s, d)"
  obtain d where e: "Cvar_Enumerate ?f s () = Inr (s', d)" using r by (auto simp: Cvar_ClearAll_def bindE_eq_Inr)
  have "all_vars P (put_var (v\<lparr>var_modified := False\<rparr>) s)" if "all_vars P s" "vars s (var_name v) = Some v" for v and s :: "'a cvars"
    using keep_put [OF that] all_varsD [OF that] modified by simp
  then show ?thesis using ok e by (elim keep_enum [rotated]) (auto split: if_splits)
qed

lemma keep_info:
  assumes "all_vars P s" "Cvar_UserInfo s = Inr (i, s') \<or> Cvar_ServerInfo s = Inr (i, s')"
  shows "all_vars P s'"
proof -
  let ?f = "\<lambda>fl v (s, info). bindE (if has_any v fl then SetUserInfo info (var_name v) (var_string v) else Inr info) (\<lambda>info. Inr (s, info))"
  have "all_vars P s1" if "Cvar_Enumerate (?f fl) s t = Inr (s1, i)" for fl t s1
    using assms(1) that by (rule keep_enum) (auto simp: bindE_eq_Inr)
  then show ?thesis using assms(2) by (auto simp: Cvar_UserInfo_def Cvar_ServerInfo_def bindE_eq_Inr keep_fields)
qed

lemma keep_Command: "all_vars P s \<Longrightarrow> Cvar_Command a s = Inr (b, s') \<Longrightarrow> all_vars P s'"
  using keep_Set by (auto simp: Cvar_Command_def Cvar_Set_def bindE_eq_Inr split: option.splits if_splits)

lemma keep_Set_f: "all_vars P s \<Longrightarrow> Cvar_Set_f a s = Inr s' \<Longrightarrow> all_vars P s'"
  using keep_Set keep_FullSet by (auto simp: Cvar_Set_f_def Cvar_Set_def split: if_splits)

lemma keep_Toggle_f: "all_vars P s \<Longrightarrow> Cvar_Toggle_f a s = Inr s' \<Longrightarrow> all_vars P s'"
  using keep_Toggle by (auto simp: Cvar_Toggle_f_def split: if_splits)

lemma keep_update_latched:
  assumes "all_vars P s" "vars s n = Some v" "update_latched new_game v s = Some (Inr s')"
    and "\<And>t s s'. all_vars P s \<Longrightarrow> new_game t s = Some (Inr s') \<Longrightarrow> all_vars P s'"
  shows "all_vars P s'"
proof -
  have v: "P v" "var_name v = n" using all_varsD [OF assms(1,2)] by simp_all
  have "all_vars P (put_var ((set_string t v)\<lparr>latched_string := Unlatched\<rparr>) s)" for t
    using v string latch by (intro keep_put [OF assms(1,2)]) (simp_all add: set_string_def)
  then show ?thesis using assms(1,3,4) by (auto simp: update_latched_def Let_def split: latched.splits if_splits)
qed

lemma keep_UpdateLatched:
  assumes "all_vars P s" "Cvar_UpdateLatched new_game s = Some (Inr s')"
    and "\<And>t s s'. all_vars P s \<Longrightarrow> new_game t s = Some (Inr s') \<Longrightarrow> all_vars P s'"
  shows "all_vars P s'"
proof -
  have "update_from ng ks s = Some r \<Longrightarrow> (\<forall>t s s'. all_vars P s \<longrightarrow> ng t s = Some (Inr s') \<longrightarrow> all_vars P s') \<Longrightarrow>
      all_vars P s \<Longrightarrow> r = Inr s' \<Longrightarrow> all_vars P s'" for ng ks s r
  proof (induction ng ks s r rule: update_from.raw_induct [rotated, consumes 1, case_names 1])
    case (1 rec ng ks s r)
    show ?case
    proof (cases ks)
      case (Cons k l)
      then obtain v s1 where v: "vars s k = Some v" "update_latched ng v s = Some (Inr s1)" "rec ng (behind k (var_keys s1)) s1 = Some r"
        using 1(2,5) by (auto simp: bindO_eq_Inr split: option.splits)
      have "all_vars P s1" using keep_update_latched [OF 1(4) v(1,2)] 1(3) by blast
      then show ?thesis using 1(1) [of ng "behind k (var_keys s1)" s1 r] v(3) 1(3,5) by blast
    next
      case Nil
      then show ?thesis using 1(2,4,5) by simp
    qed
  qed
  from this [of new_game "var_keys s" s "Inr s'"] show ?thesis using assms unfolding Cvar_UpdateLatched_def by blast
qed

end

text \<open>The numbers are those of the string, and there is a default.\<close>

definition typed :: "cvar \<Rightarrow> bool" where
  "typed v \<longleftrightarrow> var_value v = to_vec (atof (var_string v)) \<and> var_integer v = atoi (var_string v) \<and> default_value v \<noteq> None"

interpretation typed: var_invariant typed
  by unfold_locales (simp_all add: typed_def new_var_def set_string_def)

section \<open>Operations in any order\<close>

inductive cvar_step :: "(string \<Rightarrow> 'w cvars \<Rightarrow> 'w cvars run) \<Rightarrow> 'w cvars \<Rightarrow> 'w cvars \<Rightarrow> bool" for new_game where
  step_get: "cvar_step new_game s (snd (Cvar_Get n t fl desc s))"
| step_set: "Cvar_Set n t s = Inr s' \<Longrightarrow> cvar_step new_game s s'"
| step_force: "Cvar_ForceSet n t s = Inr s' \<Longrightarrow> cvar_step new_game s s'"
| step_full: "cvar_step new_game s (Cvar_FullSet n t fl s)"
| step_value: "Cvar_SetValue n x s = Inr s' \<Longrightarrow> cvar_step new_game s s'"
| step_toggle: "Cvar_Toggle n s = Inr s' \<Longrightarrow> cvar_step new_game s s'"
| step_reset: "Cvar_ResetLocal s = Inr s' \<Longrightarrow> cvar_step new_game s s'"
| step_latched: "Cvar_UpdateLatched new_game s = Some (Inr s') \<Longrightarrow> cvar_step new_game s s'"
| step_clear: "Cvar_ClearAll fl s = Inr s' \<Longrightarrow> cvar_step new_game s s'"
| step_user_info: "Cvar_UserInfo s = Inr (i, s') \<Longrightarrow> cvar_step new_game s s'"
| step_server_info: "Cvar_ServerInfo s = Inr (i, s') \<Longrightarrow> cvar_step new_game s s'"
| step_command: "Cvar_Command a s = Inr (b, s') \<Longrightarrow> cvar_step new_game s s'"
| step_set_f: "Cvar_Set_f a s = Inr s' \<Longrightarrow> cvar_step new_game s s'"
| step_toggle_f: "Cvar_Toggle_f a s = Inr s' \<Longrightarrow> cvar_step new_game s s'"
| step_flag: "Cvar_Lookup n s = Some v \<Longrightarrow> cvar_step new_game s (put_var (v\<lparr>var_flags := var_flags v OR CVAR_CLI\<rparr>) s)"
| step_subsystems: "cvar_step new_game s (s\<lparr>subsystems := f\<rparr>)"

lemma step_typed:
  assumes "cvar_step new_game s s'" and "all_vars typed s"
    and "\<And>t s s'. all_vars typed s \<Longrightarrow> new_game t s = Some (Inr s') \<Longrightarrow> all_vars typed s'"
  shows "all_vars typed s'"
  using assms(1,2)
proof cases
  case (step_flag n v)
  then show ?thesis
    using typed.keep_put [OF assms(2), of n v] all_varsD [OF assms(2), of n v] typed.flags by (simp add: Cvar_Lookup_def)
next
  case step_latched
  then show ?thesis by (rule typed.keep_UpdateLatched [OF assms(2)]) (blast intro: assms(3))
qed (use assms(2) in \<open>auto simp: Cvar_Set_def Cvar_ForceSet_def typed.keep_fields Cvar_SetValue_def Let_def split: if_splits
  intro: typed.keep_Get typed.keep_FullSet typed.keep_Set typed.keep_Toggle typed.keep_ResetLocal typed.keep_ClearAll typed.keep_info
    typed.keep_Command typed.keep_Set_f typed.keep_Toggle_f\<close>)

lemma enum_collect:
  assumes "set ks \<subseteq> dom (vars s)"
  shows "enum_vars (\<lambda>v (s, d). Inr (s, g v d)) ks (s, d) = Inr (s, fold (\<lambda>k. g (the (vars s k))) ks d)"
  using assms by (induction ks arbitrary: d) auto

lemma enumerate_all: "table_ok s \<Longrightarrow> Cvar_Enumerate (\<lambda>v (s, d). Inr (s, g v d)) s d = Inr (s, fold (\<lambda>k. g (the (vars s k))) (var_keys s) d)"
  unfolding Cvar_Enumerate_def by (rule enum_collect) (simp add: table_ok_def)

text \<open>A new variable that is for no info string\<close>

definition added :: "string \<Rightarrow> string \<Rightarrow> uint32 \<Rightarrow> 'w cvars \<Rightarrow> 'w cvars" where
  "added n t fl s = (put_var (new_var n t fl None) s)\<lparr>var_keys := insert_key n (var_keys s)\<rparr>"

lemma added_simps [simp]:
  "vars (added n t fl s) = (vars s)(n \<mapsto> new_var n t fl None)" "var_keys (added n t fl s) = insert_key n (var_keys s)"
  "subsystems (added n t fl s) = subsystems s"
  by (simp_all add: added_def put_var_def new_var_def)

lemma new_added:
  assumes "vars s n = None"
  shows "Cvar_Set_var n t force s = Inr (added n t 0 s)"
    and "fl AND (CVAR_USER_INFO OR CVAR_SERVER_INFO) = 0 \<Longrightarrow> Cvar_FullSet n t fl s = added n t fl s"
  using assms by (simp_all add: Cvar_Set_var_def Cvar_FullSet_def Cvar_Get_def Cvar_Lookup_def Let_def added_def)

section \<open>Properties\<close>

text \<open>
  C39: The table of console variables stays in order. After any operations of \<open>cvar.c\<close> from the empty
  table on, the names are sorted without repetition and are those of the variables in the table; the numbers
  of each variable are those of its string and it has a default; and an enumeration meets
  every variable once, in the order of the names, and never misses one.
\<close>

theorem cvars_stay_typed:
  assumes "(cvar_step new_game)\<^sup>*\<^sup>* (no_vars subs w) s"
    and "\<forall>t s s'. all_vars typed s \<and> new_game t s = Some (Inr s') \<longrightarrow> all_vars typed s'"
  shows "sorted_wrt before (var_keys s) \<and> set (var_keys s) = dom (vars s) \<and>
    (\<forall>n v. vars s n = Some v \<longrightarrow> var_name v = n \<and> var_value v = to_vec (atof (var_string v)) \<and>
      var_integer v = atoi (var_string v) \<and> default_value v \<noteq> None) \<and>
    (\<exists>vs. Cvar_Enumerate (\<lambda>v (s, seen). Inr (s, seen @ [v])) s [] = Inr (s, vs) \<and> map var_name vs = var_keys s)"
proof -
  have ok: "all_vars typed s"
    using assms(1)
  proof (induction rule: rtranclp_induct)
    case base
    show ?case by (simp add: all_vars_def table_ok_def no_vars_def)
  next
    case (step s s')
    show ?case by (rule step_typed [OF step(2) step.IH]) (use assms(2) in blast)
  qed
  have "fold (\<lambda>k d. d @ [the (vars s k)]) ks d = d @ map (\<lambda>k. the (vars s k)) ks" for ks d
    by (induction ks arbitrary: d) simp_all
  moreover have "map (\<lambda>k. var_name (the (vars s k))) (var_keys s) = var_keys s"
    using ok by (intro map_idI) (auto simp: all_vars_def table_ok_def)
  ultimately have "\<exists>vs. Cvar_Enumerate (\<lambda>v (s, seen). Inr (s, seen @ [v])) s [] = Inr (s, vs) \<and> map var_name vs = var_keys s"
    using enumerate_all [of s "\<lambda>v d. d @ [v]" "[]"] ok by (simp add: all_vars_def comp_def)
  then show ?thesis using ok by (auto simp: all_vars_def table_ok_def typed_def)
qed

theorem cvars_stay_typed_witness:
  "\<exists>s. (cvar_step (\<lambda>t s. Some (Inr s)))\<^sup>*\<^sup>* (no_vars 0 ()) s \<and> var_keys s = [''a'', ''b''] \<and> Cvar_GetString ''b'' s = ''2'' \<and>
    (\<exists>vs. Cvar_Enumerate (\<lambda>v (s, seen). Inr (s, seen @ [v])) s [] = Inr (s, vs) \<and> map var_name vs = [''a'', ''b''])"
proof -
  let ?s0 = "no_vars 0 ()"
  let ?s1 = "Cvar_FullSet ''b'' ''2'' CVAR_ARCHIVE ?s0"
  let ?s2 = "Cvar_FullSet ''a'' ''1'' 0 ?s1"
  have "cvar_step (\<lambda>t s. Some (Inr s)) ?s0 ?s1" "cvar_step (\<lambda>t s. Some (Inr s)) ?s1 ?s2" by (rule step_full)+
  then have run: "(cvar_step (\<lambda>t s. Some (Inr s)))\<^sup>*\<^sup>* ?s0 ?s2" by (meson converse_rtranclp_into_rtranclp rtranclp.rtrancl_refl)
  have plain: "CVAR_ARCHIVE AND (CVAR_USER_INFO OR CVAR_SERVER_INFO) = 0"
    by (simp add: CVAR_ARCHIVE_def CVAR_USER_INFO_def CVAR_SERVER_INFO_def)
  have s1: "?s1 = added ''b'' ''2'' CVAR_ARCHIVE ?s0" by (rule new_added(2) [OF _ plain]) (simp add: no_vars_def)
  have "vars (added ''b'' ''2'' CVAR_ARCHIVE ?s0) ''a'' = None" by (simp add: no_vars_def)
  then have s2: "?s2 = added ''a'' ''1'' 0 (added ''b'' ''2'' CVAR_ARCHIVE ?s0)" unfolding s1 by (rule new_added(2)) simp
  have "var_keys ?s2 = [''a'', ''b'']" "Cvar_GetString ''b'' ?s2 = ''2''"
    unfolding s2 by (simp_all add: Cvar_GetString_def Cvar_Lookup_def new_var_def no_vars_def)
  moreover define s where "s = ?s2"
  ultimately have s: "var_keys s = [''a'', ''b'']" "Cvar_GetString ''b'' s = ''2''" "(cvar_step (\<lambda>t s. Some (Inr s)))\<^sup>*\<^sup>* ?s0 s"
    using run by simp_all
  have "\<forall>t u u'. all_vars typed u \<and> (\<lambda>t s. Some (Inr s)) (t :: string) u = Some (Inr u') \<longrightarrow> all_vars typed u'" by simp
  note all_seen = cvars_stay_typed [OF s(3) this, THEN conjunct2, THEN conjunct2, THEN conjunct2, unfolded s(1)]
  show ?thesis by (rule exI [of _ s]) (intro conjI s all_seen)
qed

end
