(* ===== verification/Cvar_Config.thy ===== *)
theory Cvar_Config
  imports Cvar_Laws
begin

text \<open>
  The configuration: what \<open>Cvar_WriteAll\<close> has written is a script that sets the archived
  variables again when the program is started the next time.
\<close>

section \<open>Lines of the configuration\<close>

definition set_pieces :: "cvar \<Rightarrow> (string \<times> bool) list" where
  "set_pieces v = [(''set'', False), (var_name v, False), (var_string v, True)]"

definition restorable :: "cvar \<Rightarrow> bool" where
  "restorable v \<longleftrightarrow> ok_piece (var_name v, False) \<and> semicolon \<notin> set (var_name v) \<and>
     ok_piece (var_string v, True) \<and> newline \<notin> set (var_string v) \<and> nul \<notin> set (var_string v)"

text \<open>The variables whose line does not disturb the lines of the others; an empty string may be written.\<close>

definition writable :: "cvar \<Rightarrow> bool" where
  "writable v \<longleftrightarrow> ok_piece (var_name v, False) \<and> semicolon \<notin> set (var_name v) \<and> (var_string v = [] \<or> restorable v)"

lemma writable_restorable: "writable v \<Longrightarrow> var_string v \<noteq> [] \<Longrightarrow> restorable v" "restorable v \<Longrightarrow> writable v"
  by (auto simp: writable_def restorable_def)

lemma set_line_pieces: "set_line v = pieces_text (set_pieces v) @ [newline]"
  by (simp add: set_line_def set_pieces_def piece_text_def)

lemma line_end_skip:
  "\<forall>c \<in> set x. c \<noteq> quote \<and> c \<noteq> newline \<and> (odd q \<or> c \<noteq> semicolon) \<Longrightarrow> line_end q (x @ y) = length x + line_end q y"
  by (induction x) (auto simp: Let_def)

lemma set_pieces_line:
  assumes "writable v"
  shows "good_line (pieces_text (set_pieces v))" "length (pieces_text (set_pieces v)) < MAX_STRING_CHARS"
    "restorable v \<Longrightarrow> \<forall>p \<in> set (set_pieces v). ok_piece p"
proof -
  let ?n = "var_name v" and ?t = "var_string v"
  have n: "quote \<notin> set ?n" "semicolon \<notin> set ?n" "length ?n < 256" "\<forall>c \<in> set ?n. \<not> blank c"
    using assms by (auto simp: writable_def ok_piece_def wf_word_def plain_def limits)
  have nb: "c \<noteq> newline" "c \<noteq> nul" if "c \<in> set ?n" for c
  proof -
    have "blank newline" "blank nul" by code_simp+
    then show "c \<noteq> newline" "c \<noteq> nul" using n(4) that by auto
  qed
  have t: "quote \<notin> set ?t" "newline \<notin> set ?t" "nul \<notin> set ?t" "length ?t < 256"
    using assms by (auto simp: writable_def restorable_def ok_piece_def wf_word_def limits)
  have shape: "pieces_text (set_pieces v) = (''set '' @ ?n @ '' '') @ quote # ?t @ [quote]"
    by (simp add: set_pieces_def piece_text_def)
  have "line_end 0 ((''set '' @ ?n @ '' '') @ quote # ?t @ [quote]) = length (''set '' @ ?n @ '' '') + line_end 0 (quote # ?t @ [quote])"
    using n nb by (intro line_end_skip) auto
  also have "line_end 0 (quote # ?t @ [quote]) = Suc (line_end 1 (?t @ [quote]))" by simp
  also have "line_end 1 (?t @ [quote]) = length ?t + line_end 1 [quote]" using t by (intro line_end_skip) auto
  finally have "line_end 0 (pieces_text (set_pieces v)) = length (pieces_text (set_pieces v))" unfolding shape by simp
  moreover have "filter (\<lambda>c. c = quote) ?n = []" "filter (\<lambda>c. c = quote) ?t = []" using n(1) t(1) by (auto simp: filter_empty_conv)
  then have "even (length (filter (\<lambda>c. c = quote) (pieces_text (set_pieces v))))" unfolding shape by simp
  moreover have "newline \<notin> set (pieces_text (set_pieces v))" "nul \<notin> set (pieces_text (set_pieces v))" unfolding shape using nb t by auto
  moreover show short: "length (pieces_text (set_pieces v)) < MAX_STRING_CHARS" unfolding shape using n(3) t(4) by (simp add: limits)
  ultimately show "good_line (pieces_text (set_pieces v))" by (simp add: good_line_def)
  have "ok_piece (''set'', False)" by code_simp
  then show "restorable v \<Longrightarrow> \<forall>p \<in> set (set_pieces v). ok_piece p" by (simp add: set_pieces_def restorable_def)
qed

text \<open>Of the line of an empty string two arguments are read, and \<open>Cvar_Set_f\<close> does nothing.\<close>

lemma tokenize_empty:
  assumes "ok_piece (n, False)" and "length (''set '' @ n @ '' '' @ [quote, quote]) < MAX_STRING_CHARS"
  shows "\<exists>ar. Cmd_TokenizeString cv (Some (''set '' @ n @ '' '' @ [quote, quote])) = Inr \<lparr>argv = [''set'', n], args = ar\<rparr>"
proof -
  let ?s = "CHR '' '' # [quote, quote]"
  have w: "ok_piece (''set'', False)" by code_simp
  obtain a where a: "tokenize cv (piece_text (''set'', False) @ CHR '' '' # n @ ?s) no_args =
      tokenize cv (CHR '' '' # n @ ?s) \<lparr>argv = [''set''], args = a\<rparr>"
    using tokenize_step [OF w, of "CHR '' '' # n @ ?s" no_args cv] by (auto simp: no_args_def Cmd_Argc_def limits)
  obtain b where b: "tokenize cv (n @ ?s) \<lparr>argv = [''set''], args = a\<rparr> = tokenize cv ?s \<lparr>argv = [''set'', n], args = b\<rparr>"
    using tokenize_step [OF assms(1), of ?s "\<lparr>argv = [''set''], args = a\<rparr>" cv] by (auto simp: piece_text_def Cmd_Argc_def limits)
  have "ParseToken (At [quote, quote]) = Inr ([], At [])" by code_simp
  then have "tokenize cv [quote, quote] \<lparr>argv = [''set'', n], args = b\<rparr> = Inr \<lparr>argv = [''set'', n], args = b\<rparr>"
    by (subst tokenize.simps) (simp add: Cmd_Argc_def limits)
  then show ?thesis
    using a b assms(2) by (simp add: Cmd_TokenizeString_def tokenize_blank piece_text_def del: length_append)
qed

text \<open>What a line does to the variables.\<close>

definition set_again :: "cvar \<Rightarrow> 'w cvars \<Rightarrow> 'w cvars result" where
  "set_again v w = (if var_string v = [] then Inr w else Cvar_Set (var_name v) (var_string v) w)"

lemma set_executed:
  assumes "writable v" and "commands s ''set'' = Some c" "Execute c = Some (Other ''Cvar_Set_f'')"
    and "set_again v (world s) = Inr w"
  shows "\<exists>a. Cmd_ExecuteString (cvar_cmds env) (pieces_text (set_pieces v)) s = Inr (s\<lparr>cargs := a, world := w\<rparr>)"
proof (cases "var_string v = []")
  case True
  have t: "pieces_text (set_pieces v) = ''set '' @ var_name v @ '' '' @ [quote, quote]"
    using True by (simp add: set_pieces_def piece_text_def)
  have "ok_piece (var_name v, False)" using assms(1) by (simp add: writable_def)
  from tokenize_empty [OF this] set_pieces_line(2) [OF assms(1)] t
  obtain ar where "Cmd_TokenizeString (cvar_string (cvar_cmds env) (world s)) (Some (pieces_text (set_pieces v))) =
      Inr \<lparr>argv = [''set'', var_name v], args = ar\<rparr>" by metis
  then show ?thesis
    using assms(2-4) True
    by (intro exI [of _ "\<lparr>argv = [''set'', var_name v], args = ar\<rparr>"])
      (cases s; simp add: Cmd_ExecuteString_def Let_def Cmd_Argc_def Cmd_Argv_def Cmd_Get_def call_cmd_def cvar_cmds_def Cvar_Set_f_def set_again_def)
next
  case False
  have "length (set_pieces v) \<le> MAX_STRING_TOKENS" by (simp add: set_pieces_def limits)
  from tokenize_request [OF set_pieces_line(3) [OF assms(1) writable_restorable(1) [OF assms(1) False]] this set_pieces_line(2) [OF assms(1)]]
  obtain ar where "Cmd_TokenizeString (cvar_string (cvar_cmds env) (world s)) (Some (pieces_text (set_pieces v))) =
      Inr \<lparr>argv = map fst (set_pieces v), args = ar\<rparr>" by blast
  then show ?thesis
    using assms(2-4) False
    by (intro exI [of _ "\<lparr>argv = map fst (set_pieces v), args = ar\<rparr>"])
      (simp add: Cmd_ExecuteString_def Let_def set_pieces_def Cmd_Argc_def Cmd_Argv_def Cmd_Get_def call_cmd_def cvar_cmds_def Cvar_Set_f_def set_again_def)
qed

fun set_all :: "cvar list \<Rightarrow> 'w cvars \<Rightarrow> 'w cvars result" where
  "set_all [] w = Inr w"
| "set_all (v # vs) w = bindE (set_again v w) (set_all vs)"

definition set_lines :: "cvar list \<Rightarrow> (string \<times> bool) list" where
  "set_lines vs = map (\<lambda>v. (pieces_text (set_pieces v), False)) vs"

lemma text_of_set_lines: "text_of (set_lines vs) = concat (map set_line vs)"
  by (induction vs) (simp_all add: set_lines_def set_line_pieces)

lemma config_loop:
  assumes "\<forall>v \<in> set vs. writable v" and "commands s ''set'' = Some c" "Execute c = Some (Other ''Cvar_Set_f'')"
    and "queued (set_lines vs) s" and "\<not> wait s" and "set_all vs (world s) = Inr w"
  shows "\<exists>t. cbuf_loop (cvar_cmds env) s = Some (Inr t) \<and> world t = w \<and> commands t = commands s \<and> contents (cbuf (buffers t)) = []"
  using assms
proof (induction vs arbitrary: s)
  case Nil
  then have "buf_size (cbuf (buffers s)) = 0" "contents (cbuf (buffers s)) = []"
    using length_contents [of "cbuf (buffers s)"] by (simp_all add: queued_def set_lines_def)
  then show ?case using Nil by (subst cbuf_loop.simps) simp
next
  case (Cons v vs)
  let ?l = "pieces_text (set_pieces v)"
  have v: "writable v" using Cons.prems(1) by simp
  have busy: "buf_size (cbuf (buffers s)) \<noteq> 0"
    using Cons.prems(4) length_contents [of "cbuf (buffers s)"] by (simp add: queued_def set_lines_def)
  obtain b where b: "take_line (buffers s) = Inr (Some (?l, (buffers s)\<lparr>cbuf := b\<rparr>))" "wf_buf b"
      "contents b = map byte_of_char (text_of (set_lines vs))" "max_size b = CBUF_CHARS"
    using take_line_whole [of "buffers s" ?l False "set_lines vs"] set_pieces_line(1) [OF v] Cons.prems(4)
    by (auto simp: queued_def set_lines_def)
  obtain w1 where w1: "set_again v (world s) = Inr w1" "set_all vs w1 = Inr w"
    using Cons.prems(6) by (auto simp: bindE_eq_Inr)
  define s1 where "s1 = s\<lparr>buffers := (buffers s)\<lparr>cbuf := b\<rparr>\<rparr>"
  have "commands s1 ''set'' = Some c" "set_again v (world s1) = Inr w1"
    using Cons.prems(2) w1(1) by (simp_all add: s1_def)
  then obtain a where a: "Cmd_ExecuteString (cvar_cmds env) ?l s1 = Inr (s1\<lparr>cargs := a, world := w1\<rparr>)"
    using set_executed [OF v] Cons.prems(3) by blast
  define s2 where "s2 = s1\<lparr>cargs := a, world := w1\<rparr>"
  have s2: "queued (set_lines vs) s2" "\<not> wait s2" "commands s2 = commands s" "world s2 = w1"
    using b Cons.prems(4,5) by (simp_all add: s2_def s1_def queued_def good_lines_def set_lines_def)
  have "cbuf_loop (cvar_cmds env) s = cbuf_loop (cvar_cmds env) s2"
    using busy b(1) a s2(2) by (subst cbuf_loop.simps) (simp add: s1_def [symmetric] s2_def [symmetric])
  then show ?case using Cons.IH [of s2] Cons.prems(1-3) s2 w1(2) by simp
qed

section \<open>Setting the variables again\<close>

definition settable :: "string \<Rightarrow> 'w cvars \<Rightarrow> cvar option \<Rightarrow> bool" where
  "settable t s v = (case v of None \<Rightarrow> True
     | Some v \<Rightarrow> (has_any v (CVAR_USER_INFO OR CVAR_SERVER_INFO) \<longrightarrow> Cvar_InfoValidate (Some t)) \<and>
         \<not> has_any v CVAR_CLI \<and> \<not> has_any v CVAR_LO_ONLY \<and> \<not> has_any v CVAR_NO_SET \<and>
         (has_any v CVAR_LATCH \<longrightarrow> latched_string v = Unlatched \<and> \<not> Com_WasInit Q2W_SERVER s))"

lemma changed:
  "\<exists>u. vars (change_var t v s) = (vars s)(var_name v \<mapsto> u) \<and> var_string u = t \<and> subsystems (change_var t v s) = subsystems s"
  by (cases "t = var_string v") (auto simp: change_var_def put_var_def set_string_def Let_def)

lemma latch_changed:
  assumes "vars s (var_name v) = Some v" "latched_string v = Unlatched" "\<not> Com_WasInit Q2W_SERVER s"
  shows "\<exists>s' u. set_latched t v s = Inr s' \<and> vars s' = (vars s)(var_name v \<mapsto> u) \<and> var_string u = t \<and> subsystems s' = subsystems s"
proof (cases "t = var_string v")
  case True
  have "vars s = (vars s)(var_name v \<mapsto> v)" using assms(1) by (simp add: fun_upd_idem)
  then show ?thesis using True assms by (intro exI [of _ s] exI [of _ v]) (simp add: set_latched_def)
qed (use assms in \<open>auto simp: set_latched_def put_var_def set_string_def Let_def\<close>)

lemma set_succeeds:
  assumes "settable t s (vars s n)" and "all_vars typed s"
  shows "\<exists>s' v. Cvar_Set n t s = Inr s' \<and> vars s' = (vars s)(n \<mapsto> v) \<and> var_string v = t \<and> subsystems s' = subsystems s"
proof (cases "vars s n")
  case None
  then show ?thesis using new_added(1) [OF None, of t False]
    by (intro exI [of _ "added n t 0 s"] exI [of _ "new_var n t 0 None"]) (simp add: Cvar_Set_def new_var_def)
next
  case (Some v)
  have n: "var_name v = n" using all_varsD [OF assms(2) Some] by simp
  have "Cvar_Set n t s = (if has_any v CVAR_LATCH then set_latched t v s else Inr (change_var t v s))"
    using assms(1) Some by (auto simp: Cvar_Set_def Cvar_Set_var_def Cvar_Lookup_def settable_def)
  moreover have "has_any v CVAR_LATCH \<longrightarrow> latched_string v = Unlatched \<and> \<not> Com_WasInit Q2W_SERVER s"
    using assms(1) Some by (simp add: settable_def)
  ultimately show ?thesis using changed [of t v s] latch_changed [of s v t] Some n by auto
qed

lemma settable_cong: "subsystems s1 = subsystems s \<Longrightarrow> settable t s1 v = settable t s v"
proof -
  assume "subsystems s1 = subsystems s"
  then have "Com_WasInit f s1 = Com_WasInit f s" for f by (simp add: Com_WasInit_def)
  then show ?thesis by (simp only: settable_def)
qed

lemma set_all_succeeds:
  assumes "distinct (map var_name vs)" and "\<forall>v \<in> set vs. var_string v \<noteq> [] \<longrightarrow> settable (var_string v) s (vars s (var_name v))"
    and "all_vars typed s"
  shows "\<exists>s'. set_all vs s = Inr s' \<and> (\<forall>v \<in> set vs. var_string v \<noteq> [] \<longrightarrow> Cvar_GetString (var_name v) s' = var_string v) \<and>
    (\<forall>n. n \<notin> var_name ` {v \<in> set vs. var_string v \<noteq> []} \<longrightarrow> vars s' n = vars s n) \<and> all_vars typed s'"
  using assms
proof (induction vs arbitrary: s)
  case (Cons v vs)
  show ?case
  proof (cases "var_string v = []")
    case True
    then obtain s2 where "set_all vs s = Inr s2" "\<forall>v \<in> set vs. var_string v \<noteq> [] \<longrightarrow> Cvar_GetString (var_name v) s2 = var_string v"
      "\<forall>n. n \<notin> var_name ` {v \<in> set vs. var_string v \<noteq> []} \<longrightarrow> vars s2 n = vars s n" "all_vars typed s2"
      using Cons.IH [of s] Cons.prems by auto
    then show ?thesis using True by (intro exI [of _ s2]) (auto simp: set_again_def)
  next
    case False
  obtain s1 u where s1: "Cvar_Set (var_name v) (var_string v) s = Inr s1" "vars s1 = (vars s)(var_name v \<mapsto> u)"
      "var_string u = var_string v" "subsystems s1 = subsystems s"
    using set_succeeds [of "var_string v" s "var_name v"] Cons.prems(2,3) False by auto
  have ok: "all_vars typed s1" using typed.keep_Set [OF Cons.prems(3)] s1(1) by (simp add: Cvar_Set_def)
  have other: "var_name x \<noteq> var_name v" if "x \<in> set vs" for x using Cons.prems(1) that by (metis distinct.simps(2) image_eqI list.set_map list.simps(9))
  have "settable (var_string x) s1 (vars s1 (var_name x))" if "x \<in> set vs" "var_string x \<noteq> []" for x
    using Cons.prems(2) that other [OF that(1)] s1(2) by (simp add: settable_cong [OF s1(4)])
  then obtain s2 where s2: "set_all vs s1 = Inr s2" "\<forall>v \<in> set vs. var_string v \<noteq> [] \<longrightarrow> Cvar_GetString (var_name v) s2 = var_string v"
      "\<forall>n. n \<notin> var_name ` {v \<in> set vs. var_string v \<noteq> []} \<longrightarrow> vars s2 n = vars s1 n" "all_vars typed s2"
    using Cons.IH [OF _ _ ok] Cons.prems(1) by auto
  have "var_name v \<notin> var_name ` {v \<in> set vs. var_string v \<noteq> []}" using Cons.prems(1) by auto
  then have "Cvar_GetString (var_name v) s2 = var_string v" using s2(3) s1(2,3) by (simp add: Cvar_GetString_def Cvar_Lookup_def)
  moreover have "set_again v s = Inr s1" using False s1(1) by (simp add: set_again_def)
  moreover have "vars s2 n = vars s n" if "n \<notin> var_name ` {x \<in> set (v # vs). var_string x \<noteq> []}" for n
  proof -
    have "n \<noteq> var_name v" "n \<notin> var_name ` {x \<in> set vs. var_string x \<noteq> []}" using that False by auto
    then show ?thesis using s2(3) s1(2) by simp
  qed
  ultimately show ?thesis using s2 by (intro exI [of _ s2]) simp
  qed
qed simp

text \<open>The variables that are written\<close>

definition archived :: "'w cvars \<Rightarrow> cvar list" where
  "archived s = filter (\<lambda>v. has_any v CVAR_ARCHIVE) (map (\<lambda>k. the (vars s k)) (var_keys s))"

lemma archived_set: "table_ok s \<Longrightarrow> set (archived s) = {v. vars s (var_name v) = Some v \<and> has_any v CVAR_ARCHIVE}"
proof -
  assume ok: "table_ok s"
  have "v \<in> (\<lambda>k. the (vars s k)) ` set (var_keys s) \<longleftrightarrow> vars s (var_name v) = Some v" for v
  proof
    assume "v \<in> (\<lambda>k. the (vars s k)) ` set (var_keys s)"
    then obtain k where k: "k \<in> set (var_keys s)" "v = the (vars s k)" by blast
    then have "k \<in> dom (vars s)" using ok by (simp add: table_ok_def)
    then have "vars s k = Some v" using k(2) by auto
    then show "vars s (var_name v) = Some v" using ok by (simp add: table_ok_def)
  next
    assume v: "vars s (var_name v) = Some v"
    then have "var_name v \<in> dom (vars s)" by blast
    then have "var_name v \<in> set (var_keys s)" using ok by (simp add: table_ok_def)
    then show "v \<in> (\<lambda>k. the (vars s k)) ` set (var_keys s)" using v by (intro rev_image_eqI [of "var_name v"]) simp_all
  qed
  moreover have "set (archived s) = {v. v \<in> (\<lambda>k. the (vars s k)) ` set (var_keys s) \<and> has_any v CVAR_ARCHIVE}"
    unfolding archived_def by auto
  ultimately show ?thesis by (simp only:)
qed

lemma archived_distinct: "table_ok s \<Longrightarrow> distinct (map var_name (archived s))"
proof -
  assume ok: "table_ok s"
  have "map var_name (map (\<lambda>k. the (vars s k)) (var_keys s)) = var_keys s"
    using ok by (simp add: comp_def) (auto simp: table_ok_def intro!: map_idI)
  then show ?thesis using ok sorted_distinct distinct_map_filter unfolding archived_def table_ok_def by metis
qed

lemma written:
  assumes "table_ok s" and "\<forall>v \<in> set (archived s). writable v"
  shows "Cvar_WriteAll s [] = Inr (concat (map set_line (archived s)))"
proof -
  let ?g = "\<lambda>v f. if has_any v CVAR_ARCHIVE then f @ take (MAX_PRINT_MSG - 1) (set_line v) else f"
  have short: "length (set_line v) \<le> MAX_PRINT_MSG - Suc 0" if "writable v" for v
    using set_pieces_line(2) [OF that] by (simp add: set_line_pieces MAX_PRINT_MSG_def limits)
  have "fold (\<lambda>k. ?g (the (vars s k))) ks f = f @ concat (map set_line (filter (\<lambda>v. has_any v CVAR_ARCHIVE) (map (\<lambda>k. the (vars s k)) ks)))"
    if "\<forall>v \<in> set (filter (\<lambda>v. has_any v CVAR_ARCHIVE) (map (\<lambda>k. the (vars s k)) ks)). writable v" for ks f
    using that by (induction ks arbitrary: f) (auto simp: short)
  then show ?thesis
    using enumerate_all [OF assms(1), of ?g "[]"] assms(2) by (simp add: Cvar_WriteAll_def archived_def)
qed

lemma get_keeps_string:
  assumes "all_vars typed s" and "vars s n \<noteq> None"
  shows "Cvar_GetString n (snd (Cvar_Get n t fl desc s)) = Cvar_GetString n s"
proof -
  obtain v where v: "vars s n = Some v" "var_name v = n" using assms all_varsD [OF assms(1)] by blast
  define u where "u = (case t of None \<Rightarrow> v | Some _ \<Rightarrow> v\<lparr>default_value := t\<rparr>)"
  have u: "var_name u = n" "var_string u = var_string v" using v(2) by (simp_all add: u_def split: option.splits)
  show ?thesis
    using u unfolding Cvar_Get_def Cvar_Lookup_def v(1) option.case u_def [symmetric]
    by (cases desc) (simp_all add: Let_def put_var_def Cvar_GetString_def Cvar_Lookup_def v(1))
qed

section \<open>Properties\<close>

text \<open>
  C38: The configuration is restored. When what \<open>Cvar_WriteAll\<close> has written is in the command
  buffer of a later run, \<open>Cbuf_Execute\<close> ends without an error, every archived
  variable whose string was not empty has its string again, also once its owner has asked for it
  with a default value, and no other variable has changed: not those that are not archived, and not those
  whose string was empty, which keep the value they have in the later run (\<open>empty_not_restored\<close>). This is so as
  long as the names of the archived variables are plain words, their strings are empty or can be read back (shorter
  than 256 characters, without a quote, a line end or a leading dollar sign), the text fits the buffer of 8192
  characters, and the variables that are there already let themselves be set (not write-protected, no latch of a
  server that runs, valid in an info string where they go into one).
\<close>

theorem config_restored:
  assumes "all_vars typed s" and "\<forall>v \<in> set (archived s). writable v" and "Cvar_WriteAll s [] = Inr config"
    and "commands st ''set'' = Some c" and "Execute c = Some (Other ''Cvar_Set_f'')" and "\<not> wait st"
    and "wf_buf (cbuf (buffers st))" and "max_size (cbuf (buffers st)) = CBUF_CHARS"
    and "contents (cbuf (buffers st)) = map byte_of_char config"
    and "all_vars typed (world st)"
    and "\<forall>v \<in> set (archived s). var_string v \<noteq> [] \<longrightarrow> settable (var_string v) (world st) (vars (world st) (var_name v))"
  shows "\<exists>t. Cbuf_Execute (cvar_cmds env) st = Some (Inr t) \<and> contents (cbuf (buffers t)) = [] \<and>
    (\<forall>n v. vars s n = Some v \<and> has_any v CVAR_ARCHIVE \<and> var_string v \<noteq> [] \<longrightarrow> Cvar_GetString n (world t) = Cvar_GetString n s \<and>
      (\<forall>d fl desc. Cvar_GetString n (snd (Cvar_Get n d fl desc (world t))) = Cvar_GetString n s)) \<and>
    (\<forall>n. (\<forall>v. vars s n = Some v \<and> has_any v CVAR_ARCHIVE \<longrightarrow> var_string v = []) \<longrightarrow> vars (world t) n = vars (world st) n)"
proof -
  have table: "table_ok s" using assms(1) by (simp add: all_vars_def)
  let ?st = "st\<lparr>alias_loop_count := 0\<rparr>"
  have "config = text_of (set_lines (archived s))"
    using written [OF table assms(2)] assms(3) by (simp add: text_of_set_lines)
  moreover have "good_lines (set_lines (archived s))"
    using assms(2) set_pieces_line(1) by (auto simp: good_lines_def set_lines_def)
  ultimately have q: "queued (set_lines (archived s)) ?st" using assms(7-9) by (simp add: queued_def)
  obtain w where w: "set_all (archived s) (world ?st) = Inr w" "\<forall>v \<in> set (archived s). var_string v \<noteq> [] \<longrightarrow> Cvar_GetString (var_name v) w = var_string v"
      "\<forall>n. n \<notin> var_name ` {v \<in> set (archived s). var_string v \<noteq> []} \<longrightarrow> vars w n = vars (world st) n" "all_vars typed w"
    using set_all_succeeds [OF archived_distinct [OF table] assms(11,10)] by auto
  obtain t where t: "cbuf_loop (cvar_cmds env) ?st = Some (Inr t)" "world t = w" "contents (cbuf (buffers t)) = []"
    using config_loop [OF assms(2) _ assms(5) q _ w(1), of env] assms(4,6) by auto
  have restored: "Cvar_GetString n w = Cvar_GetString n s" if "vars s n = Some v" "has_any v CVAR_ARCHIVE" "var_string v \<noteq> []" for n v
  proof -
    have "var_name v = n" using all_varsD [OF assms(1) that(1)] by simp
    then have "v \<in> set (archived s)" using that archived_set [OF table] by simp
    then show ?thesis using w(2) that(1,3) \<open>var_name v = n\<close> by (auto simp: Cvar_GetString_def Cvar_Lookup_def)
  qed
  have there: "vars w n \<noteq> None" if "vars s n = Some v" "has_any v CVAR_ARCHIVE" "var_string v \<noteq> []" for n v
  proof -
    show ?thesis using restored [OF that] that(1,3) by (cases "vars w n") (simp_all add: Cvar_GetString_def Cvar_Lookup_def)
  qed
  have kept: "vars w n = vars (world st) n" if "\<forall>v. vars s n = Some v \<and> has_any v CVAR_ARCHIVE \<longrightarrow> var_string v = []" for n
    using w(3) that archived_set [OF table] by (auto simp: image_iff) metis
  show ?thesis
    using t restored kept get_keeps_string [OF w(4) there] unfolding Cbuf_Execute_def t(2) [symmetric]
    by (intro exI [of _ t]) simp
qed

definition sample_cvar_env :: "unit cvars cmd_env" where
  "sample_cvar_env = \<lparr>cvar_string = (\<lambda>_ _. []), is_cvar = (\<lambda>_ _. False), cvar_command = (\<lambda>_ w. Inr (False, w)), dedicated = (\<lambda>_. True),
     forward_cmd = None, load_file = (\<lambda>_ _. None), call_other = (\<lambda>f s. Inr s)\<rparr>"

definition sample_cmds :: "string \<Rightarrow> unit cvars cmd_state" where
  "sample_cmds t = \<lparr>commands = [''set'' \<mapsto> \<lparr>cmd_name = ''set'', cmd_description = None, Execute = Some (Other ''Cvar_Set_f''),
       cmd_commands = None, cmd_flags = 0\<rparr>], keys = [''set''],
     buffers = \<lparr>cbuf = \<lparr>allow_overflow = False, overflowed = False, buf_data = map byte_of_char t @ replicate (CBUF_CHARS - length t) 0,
       max_size = CBUF_CHARS, buf_size = length t, read_pos = 0\<rparr>, deferred = replicate CBUF_CHARS 0\<rparr>,
     cargs = no_args, wait = False, alias_loop_count = 0, world = no_vars 0 ()\<rparr>"

theorem config_restored_witness:
  "\<exists>t. Cbuf_Execute (cvar_cmds sample_cvar_env) (sample_cmds (''set name '' @ [quote] @ ''a; b'' @ [quote, newline])) = Some (Inr t) \<and>
     Cvar_GetString ''name'' (world t) = ''a; b''"
proof -
  let ?s = "added ''name'' ''a; b'' CVAR_ARCHIVE (no_vars 0 ())" and ?v = "new_var ''name'' ''a; b'' CVAR_ARCHIVE None"
  let ?text = "''set name '' @ [quote] @ ''a; b'' @ [quote, newline]"
  have flag: "has_any ?v CVAR_ARCHIVE" by (simp add: has_any_def new_var_def CVAR_ARCHIVE_def)
  have v: "vars ?s ''name'' = Some ?v" "var_keys ?s = [''name'']" "var_string ?v = ''a; b''" "var_name ?v = ''name''"
    by (simp_all add: no_vars_def new_var_def)
  have archived: "archived ?s = [?v]" unfolding archived_def v(1,2) using v(1) flag by simp
  have good: "all_vars typed (no_vars 0 ())" by (simp add: all_vars_def table_ok_def no_vars_def)
  have "Cvar_FullSet ''name'' ''a; b'' CVAR_ARCHIVE (no_vars 0 ()) = ?s"
    by (rule new_added(2)) (simp_all add: no_vars_def CVAR_ARCHIVE_def CVAR_USER_INFO_def CVAR_SERVER_INFO_def)
  then have s: "all_vars typed ?s" using typed.keep_FullSet [OF good] by metis
  have "ok_piece (''name'', False)" "ok_piece (''a; b'', True)" by code_simp+
  then have r: "writable ?v" by (simp add: writable_def restorable_def v(3,4))
  have config: "Cvar_WriteAll ?s [] = Inr ?text"
    using written [of ?s] s r unfolding archived by (simp add: all_vars_def set_line_def v(3,4))
  define st where "st = sample_cmds ?text"
  have st: "commands st ''set'' = Some \<lparr>cmd_name = ''set'', cmd_description = None, Execute = Some (Other ''Cvar_Set_f''), cmd_commands = None, cmd_flags = 0\<rparr>"
      "\<not> wait st" "wf_buf (cbuf (buffers st))" "max_size (cbuf (buffers st)) = CBUF_CHARS" "contents (cbuf (buffers st)) = map byte_of_char ?text"
      "world st = no_vars 0 ()"
    by (simp_all add: st_def sample_cmds_def wf_buf_def contents_def CBUF_CHARS_def)
  have settable: "settable t (no_vars 0 ()) (vars (no_vars 0 ()) n)" for t n by (simp add: settable_def no_vars_def)
  have "\<exists>t. Cbuf_Execute (cvar_cmds sample_cvar_env) st = Some (Inr t) \<and> (\<forall>n v. vars ?s n = Some v \<and> has_any v CVAR_ARCHIVE \<and> var_string v \<noteq> [] \<longrightarrow>
      Cvar_GetString n (world t) = Cvar_GetString n ?s)"
    using config_restored [OF s _ config st(1) _ st(2-5), of sample_cvar_env] good r settable unfolding archived st(6) by auto
  then obtain t where "Cbuf_Execute (cvar_cmds sample_cvar_env) st = Some (Inr t)" "Cvar_GetString ''name'' (world t) = Cvar_GetString ''name'' ?s"
    using v(1,3) flag by (metis list.distinct(1))
  then show ?thesis using v(1,3) unfolding st_def by (intro exI [of _ t]) (simp add: Cvar_GetString_def Cvar_Lookup_def)
qed

section \<open>What is not kept\<close>

text \<open>An empty string is not restored: of the line that is written for it two arguments are read.\<close>

lemma empty_not_restored:
  "\<exists>a. Cmd_TokenizeString (\<lambda>_. []) (Some (pieces_text (set_pieces (new_var ''name'' [] CVAR_ARCHIVE None)))) = Inr a \<and> Cvar_Set_f a s = Inr s"
proof -
  have "pieces_text (set_pieces (new_var ''name'' [] CVAR_ARCHIVE None)) = ''set name '' @ [quote, quote]"
    by (simp add: set_pieces_def new_var_def piece_text_def)
  moreover have "Cmd_TokenizeString (\<lambda>_. []) (Some (''set name '' @ [quote, quote])) =
      Inr \<lparr>argv = [''set'', ''name''], args = ''name '' @ [quote, quote]\<rparr>" by code_simp
  ultimately show ?thesis
    by (intro exI [of _ "\<lparr>argv = [''set'', ''name''], args = ''name '' @ [quote, quote]\<rparr>"]) (simp add: Cvar_Set_f_def Cmd_Argc_def)
qed

text \<open>\<open>seta\<close> sets a variable that is write-protected, and takes its protection away.\<close>

lemma seta_overrides:
  assumes "vars s n = Some v" "var_name v = n" "has_any v CVAR_NO_SET"
  shows "Cvar_Set_f \<lparr>argv = [''set'', n, t], args = ar\<rparr> s = Inr s"
    and "\<exists>s' u. Cvar_Set_f \<lparr>argv = [''seta'', n, t], args = ar\<rparr> s = Inr s' \<and> vars s' n = Some u \<and> var_string u = t \<and> var_flags u = CVAR_ARCHIVE"
  using assms
  by (auto simp: Cvar_Set_f_def Cmd_Argc_def Cmd_Argv_def Cvar_Set_def Cvar_Set_var_def Cvar_Lookup_def Cvar_FullSet_def put_var_def set_string_def Let_def)

text \<open>
  A latched variable that is set anew when the server is down keeps pointing to the string that
  was latched, which is freed; the next update uses it.
\<close>

lemma latched_string_freed:
  assumes "vars s n = Some v" "var_name v = n" "var_flags v = CVAR_LATCH" "latched_string v = Latched l" "t \<noteq> l"
    and "\<not> Com_WasInit Q2W_SERVER s"
  shows "\<exists>s' u. Cvar_Set n t s = Inr s' \<and> vars s' n = Some u \<and> update_latched new_game u s' = Some (Inl Bad_Access)"
proof -
  have "has_any v CVAR_LATCH" "\<not> has_any v CVAR_CLI" "\<not> has_any v CVAR_LO_ONLY" "\<not> has_any v CVAR_NO_SET"
      "\<not> has_any v (CVAR_USER_INFO OR CVAR_SERVER_INFO)"
    using assms(3) by (simp_all add: has_any_def CVAR_LATCH_def CVAR_CLI_def CVAR_LO_ONLY_def CVAR_NO_SET_def CVAR_USER_INFO_def CVAR_SERVER_INFO_def)
  then have "Cvar_Set n t s = Inr (put_var ((set_string t v)\<lparr>latched_string := Dangling\<rparr>) s)"
    using assms by (simp add: Cvar_Set_def Cvar_Set_var_def Cvar_Lookup_def set_latched_def)
  then show ?thesis using assms(2) by (simp add: put_var_def set_string_def update_latched_def)
qed

end
