(* ===== verification/Mem.thy ===== *)
theory Mem
  imports Q2W_Prelude
begin

text \<open>
  Managed memory, \<open>src/mem.c\<close>. The heap maps the addresses of blocks to the blocks
  that are not freed; a pointer is the address of the block in front of it, or null. Going to a
  block that is not there is a \<open>Bad_Access\<close>. The functions run under the lock of \<open>mem_state\<close>. What the C library does is in
  \<open>mem_env\<close>.
\<close>

datatype mem_tag = MEM_TAG_DEFAULT | MEM_TAG_SERVER | MEM_TAG_AI | MEM_TAG_GAME | MEM_TAG_GAME_LEVEL | MEM_TAG_CLIENT
  | MEM_TAG_RENDERER | MEM_TAG_SOUND | MEM_TAG_UI | MEM_TAG_CGAME | MEM_TAG_CGAME_LEVEL | MEM_TAG_ALL

type_synonym size_t = "64 word"

text \<open>\<open>mem_block_t\<close> and the bytes behind it. The magic number is that of every block in the heap.\<close>

record mem_block =
  mb_tag :: mem_tag
  mb_parent :: "nat option"
  mb_children :: "nat list"
  mb_size :: size_t
  mb_data :: "byte list"

record mem_state =
  heap :: "nat \<Rightarrow> mem_block option"
  blocks :: "nat set"
  pool_size :: size_t

text \<open>
  \<open>calloc\<close>, which takes an address for a number of bytes or fails, and the order in which
  the iterator of GLib goes through a hash table
\<close>

record mem_env =
  calloc :: "size_t \<Rightarrow> mem_state \<Rightarrow> nat option"
  table_order :: "nat set \<Rightarrow> nat list"

definition BLOCK_BYTES :: nat where "BLOCK_BYTES = 32"

definition block_at :: "nat \<Rightarrow> mem_state \<Rightarrow> mem_block result" where
  "block_at a s = (case heap s a of None \<Rightarrow> Inl Bad_Access | Some b \<Rightarrow> Inr b)"

definition put_block :: "nat \<Rightarrow> mem_block \<Rightarrow> mem_state \<Rightarrow> mem_state" where
  "put_block a b s = s\<lparr>heap := (heap s)(a \<mapsto> b)\<rparr>"

definition Mem_CheckMagic :: "nat option \<Rightarrow> mem_state \<Rightarrow> nat option result" where
  "Mem_CheckMagic p s = (case p of None \<Rightarrow> Inr None | Some a \<Rightarrow> bindE (block_at a s) (\<lambda>_. Inr (Some a)))"

text \<open>A pointer that is used without a test for null\<close>

definition not_null :: "nat option \<Rightarrow> nat result" where
  "not_null p = (case p of None \<Rightarrow> Inl Bad_Access | Some a \<Rightarrow> Inr a)"

text \<open>\<open>Mem_Free_\<close> on the blocks of a list: each after its children.\<close>

partial_function (option) free_blocks :: "nat list \<Rightarrow> mem_state \<Rightarrow> mem_state run" where
  "free_blocks as s =
     (case as of [] \<Rightarrow> Some (Inr s)
      | a # as \<Rightarrow>
          bindO (Some (block_at a s)) (\<lambda>b.
          bindO (free_blocks (mb_children b) s) (\<lambda>s.
          bindO (Some (block_at a s)) (\<lambda>b.
            free_blocks as (s\<lparr>pool_size := pool_size s - mb_size b, heap := (heap s)(a := None)\<rparr>)))))"

text \<open>Taking a block from its parent's children, or from the table\<close>

definition take_out :: "nat \<Rightarrow> mem_state \<Rightarrow> mem_state result" where
  "take_out a s =
     bindE (block_at a s) (\<lambda>b.
       case mb_parent b of
         Some q \<Rightarrow> bindE (block_at q s) (\<lambda>p. Inr (put_block q (p\<lparr>mb_children := remove1 a (mb_children p)\<rparr>) s))
       | None \<Rightarrow> Inr (s\<lparr>blocks := blocks s - {a}\<rparr>))"

definition Mem_Free :: "nat option \<Rightarrow> mem_state \<Rightarrow> mem_state run" where
  "Mem_Free p s =
     bindO (Some (Mem_CheckMagic p s)) (\<lambda>b.
     bindO (Some (not_null b)) (\<lambda>a.
     bindO (Some (take_out a s)) (free_blocks [a])))"

fun free_tagged :: "mem_tag \<Rightarrow> nat list \<Rightarrow> mem_state \<Rightarrow> mem_state run" where
  "free_tagged t [] s = Some (Inr s)"
| "free_tagged t (a # as) s =
     bindO (Some (block_at a s)) (\<lambda>b.
       if t = MEM_TAG_ALL \<or> mb_tag b = t
       then bindO (free_blocks [a] (s\<lparr>blocks := blocks s - {a}\<rparr>)) (free_tagged t as)
       else free_tagged t as s)"

definition Mem_FreeTag :: "mem_env \<Rightarrow> mem_tag \<Rightarrow> mem_state \<Rightarrow> mem_state run" where
  "Mem_FreeTag env t s = free_tagged t (table_order env (blocks s)) s"

text \<open>The number of bytes with those of the block may wrap around.\<close>

definition Mem_Alloc :: "mem_env \<Rightarrow> size_t \<Rightarrow> mem_tag \<Rightarrow> nat option \<Rightarrow> mem_state \<Rightarrow> (nat \<times> mem_state) result" where
  "Mem_Alloc env sz t parent s =
     bindE (Mem_CheckMagic parent s) (\<lambda>p.
       let bytes = sz + word_of_nat BLOCK_BYTES in
       case calloc env bytes s of
         None \<Rightarrow> Inl (Err_Fatal ''Failed to allocate'')
       | Some a \<Rightarrow>
           let b = \<lparr>mb_tag = t, mb_parent = p, mb_children = [], mb_size = sz, mb_data = replicate (unat bytes - BLOCK_BYTES) 0\<rparr>;
               s = put_block a b s
           in bindE (case p of
                  Some q \<Rightarrow> bindE (block_at q s) (\<lambda>p. Inr (put_block q (p\<lparr>mb_children := a # mb_children p\<rparr>) s))
                | None \<Rightarrow> Inr (s\<lparr>blocks := insert a (blocks s)\<rparr>)) (\<lambda>s.
              Inr (a, s\<lparr>pool_size := pool_size s + sz\<rparr>)))"

definition Mem_TagMalloc :: "mem_env \<Rightarrow> size_t \<Rightarrow> mem_tag \<Rightarrow> mem_state \<Rightarrow> (nat \<times> mem_state) result" where
  "Mem_TagMalloc env sz t s = Mem_Alloc env sz t None s"

definition Mem_LinkMalloc :: "mem_env \<Rightarrow> size_t \<Rightarrow> nat option \<Rightarrow> mem_state \<Rightarrow> (nat \<times> mem_state) result" where
  "Mem_LinkMalloc env sz parent s = Mem_Alloc env sz MEM_TAG_DEFAULT parent s"

definition Mem_Malloc :: "mem_env \<Rightarrow> size_t \<Rightarrow> mem_state \<Rightarrow> (nat \<times> mem_state) result" where
  "Mem_Malloc env sz s = Mem_Alloc env sz MEM_TAG_DEFAULT None s"

definition Mem_Link :: "nat option \<Rightarrow> nat option \<Rightarrow> mem_state \<Rightarrow> (nat option \<times> mem_state) result" where
  "Mem_Link child parent s =
     bindE (Mem_CheckMagic child s) (\<lambda>c.
     bindE (Mem_CheckMagic parent s) (\<lambda>p.
     bindE (not_null c) (\<lambda>c.
     bindE (take_out c s) (\<lambda>s.
     bindE (block_at c s) (\<lambda>b.
     let s = put_block c (b\<lparr>mb_parent := p\<rparr>) s in
     bindE (not_null p) (\<lambda>p.
     bindE (block_at p s) (\<lambda>b.
       Inr (child, put_block p (b\<lparr>mb_children := c # mb_children b\<rparr>) s))))))))"

definition Mem_Size :: "mem_state \<Rightarrow> size_t" where
  "Mem_Size s = pool_size s"

text \<open>\<open>strcpy\<close> copies the terminator, too.\<close>

definition Mem_CopyString :: "mem_env \<Rightarrow> string \<Rightarrow> mem_state \<Rightarrow> (nat \<times> mem_state) result" where
  "Mem_CopyString env t s =
     bindE (Mem_Malloc env (word_of_nat (length t) + 1) s) (\<lambda>(a, s).
     bindE (block_at a s) (\<lambda>b.
       let bytes = map byte_of_char t @ [0] in
       if length bytes > length (mb_data b) then Inl Bad_Access
       else Inr (a, put_block a (b\<lparr>mb_data := bytes @ drop (length bytes) (mb_data b)\<rparr>) s)))"

definition Mem_Init :: mem_state where
  "Mem_Init = \<lparr>heap = Map.empty, blocks = {}, pool_size = 0\<rparr>"

definition Mem_Shutdown :: "mem_env \<Rightarrow> mem_state \<Rightarrow> mem_state run" where
  "Mem_Shutdown env s = Mem_FreeTag env MEM_TAG_ALL s"

end
