(* ===== verification/Mem_Laws.thy ===== *)
theory Mem_Laws
  imports Mem "HOL-Library.Multiset"
begin

text \<open>
  Managed memory is a forest: the blocks in the table are the roots, linked blocks are below their
  parents. Each operation does to the heap what it says on trees, and none goes to a block that has been freed.
\<close>

section \<open>Trees\<close>

datatype mtree = Node (root: nat) (tag_of: mem_tag) (size_of: size_t) (data_of: "byte list") (kids: "mtree list")

fun addrs :: "mtree \<Rightarrow> nat list" where
  "addrs (Node a t n d us) = a # concat (map addrs us)"

abbreviation all_addrs :: "mtree list \<Rightarrow> nat list" where
  "all_addrs us \<equiv> concat (map addrs us)"

fun total :: "mtree \<Rightarrow> size_t" where
  "total (Node a t n d us) = n + sum_list (map total us)"

fun subtrees :: "mtree \<Rightarrow> mtree list" where
  "subtrees (Node a t n d us) = Node a t n d us # concat (map subtrees us)"

text \<open>Taking out the tree at an address, and putting a tree below another one\<close>

fun prune :: "nat \<Rightarrow> mtree \<Rightarrow> mtree" where
  "prune x (Node a t n d us) = Node a t n d (filter (\<lambda>u. root u \<noteq> x) (map (prune x) us))"

definition prunes :: "nat \<Rightarrow> mtree list \<Rightarrow> mtree list" where
  "prunes x us = filter (\<lambda>u. root u \<noteq> x) (map (prune x) us)"

fun graft :: "nat \<Rightarrow> mtree \<Rightarrow> mtree \<Rightarrow> mtree" where
  "graft x v (Node a t n d us) = Node a t n d (if a = x then v # us else map (graft x v) us)"

definition tree_at :: "nat \<Rightarrow> mtree list \<Rightarrow> mtree" where
  "tree_at x us = the (map_of (map (\<lambda>u. (root u, u)) (concat (map subtrees us))) x)"

text \<open>The tree is in the heap, below the parent \<open>p\<close>.\<close>

fun tree_in :: "(nat \<Rightarrow> mem_block option) \<Rightarrow> nat option \<Rightarrow> mtree \<Rightarrow> bool" where
  "tree_in h p (Node a t n d us) \<longleftrightarrow>
     h a = Some \<lparr>mb_tag = t, mb_parent = p, mb_children = map root us, mb_size = n, mb_data = d\<rparr> \<and> (\<forall>u \<in> set us. tree_in h (Some a) u)"

definition forest :: "mem_state \<Rightarrow> mtree list \<Rightarrow> bool" where
  "forest s us \<longleftrightarrow> (\<forall>u \<in> set us. tree_in (heap s) None u) \<and> distinct (all_addrs us) \<and> set (all_addrs us) = dom (heap s) \<and>
     blocks s = root ` set us \<and> pool_size s = sum_list (map total us)"

lemma root_in [simp]: "root u \<in> set (addrs u)"
  by (cases u) simp

lemma root_prune [simp]: "root (prune x u) = root u"
  by (cases u) simp

lemma root_graft [simp]: "root (graft x v u) = root u"
  by (cases u) simp

lemma prunes_Node [simp]: "prune x (Node a t n d us) = Node a t n d (prunes x us)"
  by (simp add: prunes_def)

lemma prunes_append [simp]: "prunes x (us @ vs) = prunes x us @ prunes x vs" "prunes x [] = []"
  "prunes x (u # us) = (if root u = x then prunes x us else prune x u # prunes x us)"
  by (simp_all add: prunes_def)

declare prune.simps [simp del]

lemma prune_idle: "x \<notin> set (addrs u) \<Longrightarrow> prune x u = u"
proof (induction u)
  case (Node a t n d us)
  have "prunes x us = us" using Node by (auto simp: prunes_def map_idI filter_id_conv)
  then show ?case by simp
qed

lemma prunes_idle: "x \<notin> set (all_addrs us) \<Longrightarrow> prunes x us = us"
  by (induction us) (auto simp: prune_idle)

lemma tree_in_cong: "(\<forall>a \<in> set (addrs u). h a = h' a) \<Longrightarrow> tree_in h p u = tree_in h' p u"
  by (induction u arbitrary: p) auto

lemma trees_in_cong: "(\<forall>a \<in> set (all_addrs us). h a = h' a) \<Longrightarrow> (\<forall>u \<in> set us. tree_in h p u) = (\<forall>u \<in> set us. tree_in h' p u)"
  using tree_in_cong by (auto simp: ball_conj_distrib) (metis)+

lemma tree_in_dom: "tree_in h p u \<Longrightarrow> set (addrs u) \<subseteq> dom h"
  by (induction u arbitrary: p) fastforce

lemma self_subtree: "u \<in> set (subtrees u)"
  by (cases u) simp

lemma subtrees_roots: "map root (subtrees u) = addrs u"
proof (induction u)
  case (Node a t n d us)
  have "map root (concat (map subtrees us)) = concat (map (map root) (map subtrees us))" by (rule map_concat)
  also have "\<dots> = concat (map addrs us)" using Node by (simp add: comp_def cong: map_cong)
  finally show ?case by simp
qed

lemma tree_at_eq:
  assumes "distinct (all_addrs us)" and "u \<in> set (concat (map subtrees us))"
  shows "tree_at (root u) us = u"
proof -
  have "map root (concat (map subtrees us)) = all_addrs us" by (simp add: map_concat comp_def subtrees_roots)
  then have "distinct (map fst (map (\<lambda>u. (root u, u)) (concat (map subtrees us))))" using assms(1) by (simp add: comp_def)
  moreover have "(root u, u) \<in> set (map (\<lambda>u. (root u, u)) (concat (map subtrees us)))" using assms(2) by force
  ultimately have "map_of (map (\<lambda>u. (root u, u)) (concat (map subtrees us))) (root u) = Some u" by (rule map_of_is_SomeI)
  then show ?thesis by (simp only: tree_at_def option.sel)
qed

section \<open>Freeing trees\<close>

definition freed :: "mtree list \<Rightarrow> mem_state \<Rightarrow> mem_state" where
  "freed us s = s\<lparr>heap := heap s |` (- set (all_addrs us)), pool_size := pool_size s - sum_list (map total us)\<rparr>"

lemma freed_Nil [simp]: "freed [] s = s"
  by (simp add: freed_def restrict_map_def)

lemma freed_append: "freed vs (freed us s) = freed (us @ vs) s"
  by (simp add: freed_def restrict_map_def fun_eq_iff)

lemma freed_heap: "heap (freed us s) a = (if a \<in> set (all_addrs us) then None else heap s a)"
  by (simp add: freed_def restrict_map_def)

lemma free_tree:
  "tree_in (heap s) p u \<Longrightarrow> distinct (addrs u) \<Longrightarrow> free_blocks (root u # as) s = free_blocks as (freed [u] s)"
proof (induction u arbitrary: p s as)
  case (Node a t n d us)
  have kids: "free_blocks (map root vs @ as) s = free_blocks as (freed vs s)"
    if "set vs \<subseteq> set us" "\<forall>v \<in> set vs. tree_in (heap s) (Some a) v" "distinct (all_addrs vs)" for vs as s
    using that
  proof (induction vs arbitrary: s)
    case (Cons v vs)
    have "free_blocks (root v # map root vs @ as) s = free_blocks (map root vs @ as) (freed [v] s)"
      using Cons.prems by (intro Node.IH [of v s "Some a"]) auto
    moreover have "\<forall>w \<in> set vs. tree_in (heap (freed [v] s)) (Some a) w"
    proof -
      have "\<forall>x \<in> set (all_addrs vs). heap s x = heap (freed [v] s) x" using Cons.prems(3) by (auto simp: freed_heap)
      from trees_in_cong [OF this] show ?thesis using Cons.prems(2) by auto
    qed
    ultimately show ?case using Cons.IH [of "freed [v] s"] Cons.prems(1,3) freed_append [of vs "[v]" s] by simp
  qed simp
  have stop: "free_blocks [] s = Some (Inr s)" for s by (subst free_blocks.simps) simp
  have b: "block_at a s = Inr \<lparr>mb_tag = t, mb_parent = p, mb_children = map root us, mb_size = n, mb_data = d\<rparr>"
    using Node.prems(1) by (simp add: block_at_def)
  have k: "free_blocks (map root us) s = Some (Inr (freed us s))"
    using kids [of us s "[]"] Node.prems stop by simp
  have "a \<notin> set (all_addrs us)" using Node.prems(2) by simp
  then have b': "block_at a (freed us s) = block_at a s" by (simp add: block_at_def freed_heap)
  have "(freed us s)\<lparr>pool_size := pool_size (freed us s) - n, heap := (heap (freed us s))(a := None)\<rparr> = freed [Node a t n d us] s"
    by (simp add: freed_def fun_eq_iff restrict_map_def)
  then show ?case by (subst free_blocks.simps) (simp add: b k b')
qed

lemma free_trees:
  assumes "\<forall>u \<in> set us. tree_in (heap s) p u" "distinct (all_addrs us)"
  shows "free_blocks (map root us @ as) s = free_blocks as (freed us s)"
  using assms
proof (induction us arbitrary: s)
  case (Cons u us)
  have "\<forall>x \<in> set (all_addrs us). heap s x = heap (freed [u] s) x" using Cons.prems(2) by (auto simp: freed_heap)
  from trees_in_cong [OF this] have "\<forall>w \<in> set us. tree_in (heap (freed [u] s)) p w" using Cons.prems(1) by auto
  then show ?case
    using free_tree [of s p u "map root us @ as"] Cons.IH [of "freed [u] s"] Cons.prems freed_append [of us "[u]" s] by simp
qed simp

section \<open>Taking a tree out\<close>

text \<open>A tree at the root of one of the trees\<close>

lemma take_root:
  assumes "x \<in> root ` set us" and "distinct (all_addrs us)"
  shows "\<exists>ys u zs. us = ys @ u # zs \<and> root u = x \<and> prunes x us = ys @ zs \<and> map root (ys @ zs) = remove1 x (map root us)"
proof -
  obtain u where u: "u \<in> set us" "root u = x" using assms(1) by auto
  then obtain ys zs where us: "us = ys @ u # zs" by (meson split_list)
  have x: "x \<in> set (addrs u)" using u(2) by auto
  have "x \<notin> set (all_addrs ys)" "x \<notin> set (all_addrs zs)" using assms(2) x by (auto simp: us)
  moreover from this have "x \<notin> root ` set ys" by auto
  ultimately show ?thesis
    using u(2) by (intro exI [of _ ys] exI [of _ u] exI [of _ zs]) (auto simp: us prunes_idle remove1_append)
qed

definition detached :: "(nat \<Rightarrow> mem_block option) \<Rightarrow> nat option \<Rightarrow> nat \<Rightarrow> mtree list \<Rightarrow> nat \<Rightarrow> mem_block \<Rightarrow> mtree \<Rightarrow> bool" where
  "detached h p x us q b u \<longleftrightarrow> h q = Some b \<and> tree_in h (Some q) u \<and> root u = x \<and> u \<in> set (concat (map subtrees us)) \<and>
     q \<in> set (all_addrs (prunes x us)) \<and> mset (all_addrs us) = mset (all_addrs (prunes x us)) + mset (addrs u) \<and>
     sum_list (map total us) = sum_list (map total (prunes x us)) + total u \<and> map root (prunes x us) = map root us \<and>
     (\<forall>v \<in> set (prunes x us). tree_in (h(q \<mapsto> b\<lparr>mb_children := remove1 x (mb_children b)\<rparr>)) p v)"

text \<open>The one of the trees that an address is in; a change of its blocks leaves the others.\<close>

lemma tree_of:
  assumes "\<forall>u \<in> set us. tree_in h p u" and "distinct (all_addrs us)" and "x \<in> set (all_addrs us)"
  shows "\<exists>ys t zs. us = ys @ t # zs \<and> x \<in> set (addrs t) \<and> x \<notin> set (all_addrs ys) \<and> x \<notin> set (all_addrs zs) \<and>
    (\<forall>q b. q \<in> set (addrs t) \<longrightarrow> (\<forall>v \<in> set ys \<union> set zs. tree_in (h(q \<mapsto> b)) p v))"
proof -
  obtain t where t: "t \<in> set us" "x \<in> set (addrs t)" using assms(3) by auto
  then obtain ys zs where us: "us = ys @ t # zs" by (meson split_list)
  have apart: "set (addrs t) \<inter> set (all_addrs ys) = {}" "set (addrs t) \<inter> set (all_addrs zs) = {}"
    using assms(2) by (auto simp: us)
  have others: "tree_in (h(q \<mapsto> b)) p v" if "q \<in> set (addrs t)" "v \<in> set ys \<union> set zs" for q b v
  proof -
    have "q \<notin> set (addrs v)" using apart that by auto
    then have "tree_in h p v = tree_in (h(q \<mapsto> b)) p v" by (intro tree_in_cong) auto
    then show ?thesis using assms(1) that(2) by (auto simp: us)
  qed
  have "x \<notin> set (all_addrs ys)" "x \<notin> set (all_addrs zs)" using t(2) apart by auto
  then show ?thesis using us t(2) others by blast
qed

lemma take_out_tree:
  assumes "\<forall>u \<in> set us. tree_in h p u" and "distinct (all_addrs us)" and "x \<in> set (all_addrs us)" and "x \<notin> root ` set us"
  shows "\<exists>q b u. detached h p x us q b u"
  using assms
proof (induction us arbitrary: p rule: measure_induct_rule [where f = "size_list size"])
  case (less us)
  from tree_of [OF less.prems(1-3)] obtain ys t zs where us: "us = ys @ t # zs" and t: "x \<in> set (addrs t)" and
    out: "x \<notin> set (all_addrs ys)" "x \<notin> set (all_addrs zs)" and
    others: "\<And>q b. q \<in> set (addrs t) \<Longrightarrow> \<forall>v \<in> set ys \<union> set zs. tree_in (h(q \<mapsto> b)) p v" by blast
  obtain a tg n d ks where node: "t = Node a tg n d ks" by (cases t)
  have "root t \<noteq> x" using less.prems(4) by (auto simp: us)
  then have a: "a \<noteq> x" by (simp add: node)
  then have k: "x \<in> set (all_addrs ks)" using t node by simp
  have pr: "prunes x us = ys @ Node a tg n d (prunes x ks) # zs" using a out by (simp add: us node prunes_idle)
  have kids: "\<forall>u \<in> set ks. tree_in h (Some a) u" "distinct (all_addrs ks)" "a \<notin> set (all_addrs ks)"
    and ha: "h a = Some \<lparr>mb_tag = tg, mb_parent = p, mb_children = map root ks, mb_size = n, mb_data = d\<rparr>"
    using less.prems(1,2) by (auto simp: us node)
  have sub: "v \<in> set (concat (map subtrees us))" if "v \<in> set (concat (map subtrees ks))" for v using that by (auto simp: us node)
  show ?case
  proof (cases "x \<in> root ` set ks")
    case True
    from take_root [OF True kids(2)] obtain ls u rs where u: "ks = ls @ u # rs" "root u = x" "prunes x ks = ls @ rs"
        "map root (ls @ rs) = remove1 x (map root ks)" by blast
    let ?b = "\<lparr>mb_tag = tg, mb_parent = p, mb_children = map root ks, mb_size = n, mb_data = d\<rparr>"
    let ?h = "h(a \<mapsto> ?b\<lparr>mb_children := remove1 x (mb_children ?b)\<rparr>)"
    have "\<forall>v \<in> set (ls @ rs). tree_in ?h (Some a) v"
    proof
      fix v
      assume v: "v \<in> set (ls @ rs)"
      then have "a \<notin> set (addrs v)" using kids(3) by (auto simp: u(1))
      then have "tree_in h (Some a) v = tree_in ?h (Some a) v" by (intro tree_in_cong) auto
      then show "tree_in ?h (Some a) v" using kids(1) v by (auto simp: u(1))
    qed
    then have "tree_in ?h p (Node a tg n d (prunes x ks))" using u(3,4) by simp
    then have h: "\<forall>v \<in> set (prunes x us). tree_in ?h p v" using others [of a] by (auto simp: pr node)
    have "u \<in> set (concat (map subtrees ks))" by (cases u) (auto simp: u(1))
    then have "u \<in> set (concat (map subtrees us))" by (rule sub)
    moreover have "mset (all_addrs ks) = mset (all_addrs (prunes x ks)) + mset (addrs u)"
        "sum_list (map total ks) = sum_list (map total (prunes x ks)) + total u"
      unfolding u(3) by (simp_all add: u(1))
    then have "mset (all_addrs us) = mset (all_addrs (prunes x us)) + mset (addrs u)"
        "sum_list (map total us) = sum_list (map total (prunes x us)) + total u"
      unfolding pr by (simp_all add: us node)
    moreover have "a \<in> set (all_addrs (prunes x us))" "map root (prunes x us) = map root us"
      unfolding pr by (simp_all add: us node)
    moreover have "tree_in h (Some a) u" using kids(1) by (simp add: u(1))
    ultimately have "detached h p x us a ?b u"
      unfolding detached_def using ha h u(2) by simp
    then show ?thesis by blast
  next
    case False
    have "size_list size ks < size_list size us" by (simp add: us node)
    from less.IH [OF this kids(1,2) k False] obtain q b u where d: "detached h (Some a) x ks q b u" by blast
    let ?h = "h(q \<mapsto> b\<lparr>mb_children := remove1 x (mb_children b)\<rparr>)"
    have "set_mset (mset (all_addrs ks)) = set_mset (mset (all_addrs (prunes x ks)) + mset (addrs u))" using d by (simp add: detached_def)
    then have q: "q \<in> set (all_addrs ks)" using d by (auto simp: detached_def)
    then have "q \<noteq> a" using kids(3) by auto
    then have "tree_in ?h p (Node a tg n d (prunes x ks))" using d ha by (auto simp: detached_def)
    then have "\<forall>v \<in> set (prunes x us). tree_in ?h p v" using others [of q] q by (auto simp: pr node)
    then have "detached h p x us q b u"
      using d sub unfolding detached_def pr by (simp add: us node algebra_simps)
    then show ?thesis by blast
  qed
qed

section \<open>Putting a tree in\<close>

lemma graft_idle: "q \<notin> set (addrs u) \<Longrightarrow> graft q v u = u"
  by (induction u) (auto simp: map_idI)

definition attached :: "(nat \<Rightarrow> mem_block option) \<Rightarrow> nat option \<Rightarrow> nat \<Rightarrow> mem_block \<Rightarrow> mtree \<Rightarrow> mtree list \<Rightarrow> bool" where
  "attached h p q b v us \<longleftrightarrow>
     (\<forall>w \<in> set (map (graft q v) us). tree_in (h(q \<mapsto> b\<lparr>mb_children := root v # mb_children b\<rparr>)) p w) \<and>
     mset (all_addrs (map (graft q v) us)) = mset (all_addrs us) + mset (addrs v) \<and>
     sum_list (map total (map (graft q v) us)) = sum_list (map total us) + total v"

lemma put_in_tree:
  assumes "\<forall>u \<in> set us. tree_in h p u" and "distinct (all_addrs us)" and "q \<in> set (all_addrs us)" and b: "h q = Some b"
    and v: "tree_in h (Some q) v" "set (addrs v) \<inter> set (all_addrs us) = {}"
  shows "attached h p q b v us"
  using assms(1-3,6)
proof (induction us arbitrary: p rule: measure_induct_rule [where f = "size_list size"])
  case (less us)
  from tree_of [OF less.prems(1-3)] obtain ys t zs where us: "us = ys @ t # zs" and t: "q \<in> set (addrs t)" and
    out: "q \<notin> set (all_addrs ys)" "q \<notin> set (all_addrs zs)" and
    others: "\<And>x b. x \<in> set (addrs t) \<Longrightarrow> \<forall>v \<in> set ys \<union> set zs. tree_in (h(x \<mapsto> b)) p v" by blast
  obtain a tg n d ks where node: "t = Node a tg n d ks" by (cases t)
  have kids: "\<forall>u \<in> set ks. tree_in h (Some a) u" "distinct (all_addrs ks)" "a \<notin> set (all_addrs ks)"
    and ha: "h a = Some \<lparr>mb_tag = tg, mb_parent = p, mb_children = map root ks, mb_size = n, mb_data = d\<rparr>"
    using less.prems(1,2) by (auto simp: us node)
  have same: "map (graft q v) ys = ys" "map (graft q v) zs = zs" using out by (auto simp: graft_idle intro!: map_idI)
  let ?h = "h(q \<mapsto> b\<lparr>mb_children := root v # mb_children b\<rparr>)"
  have rest: "\<forall>w \<in> set ys \<union> set zs. tree_in ?h p w" using others t by blast
  show ?case
  proof (cases "a = q")
    case True
    have "tree_in ?h (Some q) w" if "w \<in> set (v # ks)" for w
    proof -
      have "q \<notin> set (addrs w)" using that kids(3) v(2) less.prems(3,4) True by (auto simp: us node)
      then have "tree_in h (Some q) w = tree_in ?h (Some q) w" by (intro tree_in_cong) auto
      then show ?thesis using that kids(1) v(1) True by auto
    qed
    then have "tree_in ?h p (graft q v t)" using True ha b by (simp add: node)
    then have "\<forall>w \<in> set (map (graft q v) us). tree_in ?h p w" using rest by (auto simp: us same simp del: tree_in.simps graft.simps)
    moreover have "mset (all_addrs (map (graft q v) us)) = mset (all_addrs us) + mset (addrs v)"
        "sum_list (map total (map (graft q v) us)) = sum_list (map total us) + total v"
      using True by (simp_all add: us same node)
    ultimately show ?thesis unfolding attached_def by blast
  next
    case False
    then have q: "q \<in> set (all_addrs ks)" using t node by simp
    have "size_list size ks < size_list size us" by (simp add: us node)
    moreover have "set (addrs v) \<inter> set (all_addrs ks) = {}" using less.prems(4) by (auto simp: us node)
    ultimately have g: "attached h (Some a) q b v ks" using less.IH [OF _ kids(1,2) q] by blast
    then have "tree_in ?h p (graft q v t)" using False ha by (simp add: node attached_def comp_def)
    then show ?thesis using rest g False unfolding attached_def us by (simp add: same node algebra_simps)
  qed
qed

section \<open>The operations on a forest\<close>

lemma forest_parts:
  assumes "distinct (all_addrs us)" and "mset (all_addrs us) = mset (all_addrs vs) + mset (addrs u)"
  shows "distinct (all_addrs vs)" "distinct (addrs u)" "set (addrs u) \<inter> set (all_addrs vs) = {}"
    "set (all_addrs us) = set (all_addrs vs) \<union> set (addrs u)"
proof -
  have "mset (all_addrs us) = mset (all_addrs vs @ addrs u)" using assms(2) by simp
  then have "distinct (all_addrs vs @ addrs u)" "set (all_addrs us) = set (all_addrs vs @ addrs u)"
    using assms(1) mset_eq_imp_distinct_iff mset_eq_setD by metis+
  then show "distinct (all_addrs vs)" "distinct (addrs u)" "set (addrs u) \<inter> set (all_addrs vs) = {}"
    "set (all_addrs us) = set (all_addrs vs) \<union> set (addrs u)" by auto
qed

lemma root_block: "tree_in h p u \<Longrightarrow> h (root u) = Some \<lparr>mb_tag = tag_of u, mb_parent = p, mb_children = map root (kids u), mb_size = size_of u, mb_data = data_of u\<rparr>"
  by (cases u) simp

text \<open>What \<open>take_out\<close> leaves: the tree at \<open>x\<close> and the others, side by side in the heap\<close>

definition taken :: "mem_state \<Rightarrow> mtree list \<Rightarrow> nat \<Rightarrow> mtree \<Rightarrow> mem_state \<Rightarrow> bool" where
  "taken s us x u s' \<longleftrightarrow> root u = x \<and> u \<in> set (concat (map subtrees us)) \<and> (\<exists>p. tree_in (heap s') p u) \<and>
     (\<forall>v \<in> set (prunes x us). tree_in (heap s') None v) \<and> mset (all_addrs us) = mset (all_addrs (prunes x us)) + mset (addrs u) \<and>
     dom (heap s') = dom (heap s) \<and> blocks s' = root ` set (prunes x us) \<and> pool_size s' = pool_size s \<and>
     sum_list (map total us) = sum_list (map total (prunes x us)) + total u"

lemma take_out_forest:
  assumes f: "forest s us" and x: "x \<in> set (all_addrs us)"
  shows "\<exists>s' u. take_out x s = Inr s' \<and> taken s us x u s'"
proof -
  have us: "\<forall>u \<in> set us. tree_in (heap s) None u" "distinct (all_addrs us)" "blocks s = root ` set us"
    using f by (simp_all add: forest_def)
  show ?thesis
  proof (cases "x \<in> root ` set us")
    case True
    from take_root [OF True us(2)] obtain ys u zs where u: "us = ys @ u # zs" "root u = x" "prunes x us = ys @ zs" by blast
    have t: "tree_in (heap s) None u" using us(1) by (simp add: u(1))
    have "block_at x s = Inr \<lparr>mb_tag = tag_of u, mb_parent = None, mb_children = map root (kids u), mb_size = size_of u, mb_data = data_of u\<rparr>"
      using root_block [OF t] u(2) by (simp add: block_at_def)
    then have "take_out x s = Inr (s\<lparr>blocks := blocks s - {x}\<rparr>)" by (simp add: take_out_def)
    moreover have "root ` set us - {x} = root ` set (ys @ zs)"
    proof -
      have "x \<in> set (addrs u)" using u(2) by auto
      then have "x \<notin> set (addrs v)" if "v \<in> set (ys @ zs)" for v using us(2) that by (auto simp: u(1))
      then have "root v \<noteq> x" if "v \<in> set (ys @ zs)" for v using that by (metis root_in)
      then show ?thesis using u(2) by (auto simp: u(1))
    qed
    moreover have "u \<in> set (concat (map subtrees us))" by (cases u) (auto simp: u(1))
    moreover have "mset (all_addrs us) = mset (all_addrs (ys @ zs)) + mset (addrs u)"
        "sum_list (map total us) = sum_list (map total (ys @ zs)) + total u" by (simp_all add: u(1))
    moreover have "\<forall>v \<in> set (ys @ zs). tree_in (heap s) None v" using us(1) by (simp add: u(1))
    ultimately have "taken s us x u (s\<lparr>blocks := blocks s - {x}\<rparr>)"
      using t u(2) us(3) unfolding taken_def u(3) by auto
    then show ?thesis using \<open>take_out x s = _\<close> by blast
  next
    case False
    from take_out_tree [OF us(1,2) x False] obtain q b u where d: "detached (heap s) None x us q b u" by blast
    let ?s = "put_block q (b\<lparr>mb_children := remove1 x (mb_children b)\<rparr>) s"
    have "q \<notin> set (addrs u)" using forest_parts(3) [OF us(2), of "prunes x us" u] d by (auto simp: detached_def)
    then have "tree_in (heap s) (Some q) u = tree_in (heap ?s) (Some q) u" by (intro tree_in_cong) (auto simp: put_block_def)
    then have u: "tree_in (heap ?s) (Some q) u" using d by (simp add: detached_def)
    have "block_at x s = Inr \<lparr>mb_tag = tag_of u, mb_parent = Some q, mb_children = map root (kids u), mb_size = size_of u, mb_data = data_of u\<rparr>"
      using root_block [of "heap s" "Some q" u] d by (simp add: block_at_def detached_def)
    then have t: "take_out x s = Inr ?s" using d by (simp add: take_out_def block_at_def detached_def)
    have "root ` set (prunes x us) = root ` set us" using d by (metis detached_def list.set_map)
    moreover have "dom (heap ?s) = dom (heap s)" using d by (auto simp: put_block_def detached_def)
    ultimately have "taken s us x u ?s" using d u us(3) unfolding taken_def detached_def by (auto simp: put_block_def)
    then show ?thesis using t by blast
  qed
qed

lemma free_taken:
  assumes f: "forest s us" and t: "taken s us x u s'"
  shows "\<exists>s2. free_blocks [x] s' = Some (Inr s2) \<and> forest s2 (prunes x us)"
proof -
  have us: "distinct (all_addrs us)" "set (all_addrs us) = dom (heap s)" "pool_size s = sum_list (map total us)"
    using f by (simp_all add: forest_def)
  note parts = forest_parts [OF us(1), of "prunes x us" u]
  have m: "mset (all_addrs us) = mset (all_addrs (prunes x us)) + mset (addrs u)" using t by (simp add: taken_def)
  obtain p where p: "tree_in (heap s') p u" using t by (auto simp: taken_def)
  have "free_blocks [x] s' = Some (Inr (freed [u] s'))"
    using free_tree [OF p parts(2) [OF m], of "[]"] t by (simp add: taken_def free_blocks.simps [of "[]"])
  moreover have "\<forall>v \<in> set (prunes x us). tree_in (heap (freed [u] s')) None v"
  proof -
    have "\<forall>a \<in> set (all_addrs (prunes x us)). heap s' a = heap (freed [u] s') a" using parts(3) [OF m] by (auto simp: freed_heap)
    from trees_in_cong [OF this] show ?thesis using t by (auto simp: taken_def)
  qed
  moreover have "dom (heap (freed [u] s')) = dom (heap s) - set (addrs u)" using t by (auto simp: freed_def taken_def)
  then have "set (all_addrs (prunes x us)) = dom (heap (freed [u] s'))" using us(2) parts(3,4) [OF m] by auto
  moreover have "pool_size (freed [u] s') = sum_list (map total (prunes x us))" "blocks (freed [u] s') = root ` set (prunes x us)"
    using t us(3) by (simp_all add: taken_def freed_def)
  ultimately show ?thesis using parts(1) [OF m] by (intro exI [of _ "freed [u] s'"]) (simp only: forest_def)
qed

lemma Free_forest:
  assumes "forest s us" and "x \<in> set (all_addrs us)"
  shows "\<exists>s'. Mem_Free (Some x) s = Some (Inr s') \<and> forest s' (prunes x us)"
proof -
  obtain s1 u where t: "take_out x s = Inr s1" "taken s us x u s1" using take_out_forest [OF assms] by blast
  obtain b where "block_at x s = Inr b" using t(1) by (auto simp: take_out_def bindE_eq_Inr)
  then show ?thesis using t(1) free_taken [OF assms(1) t(2)] by (simp add: Mem_Free_def Mem_CheckMagic_def not_null_def)
qed

definition gone :: "mem_tag \<Rightarrow> mtree \<Rightarrow> bool" where
  "gone t u \<longleftrightarrow> t = MEM_TAG_ALL \<or> tag_of u = t"

lemma free_root:
  assumes "forest s us" and "u \<in> set us"
  shows "\<exists>s'. free_blocks [root u] (s\<lparr>blocks := blocks s - {root u}\<rparr>) = Some (Inr s') \<and> forest s' (filter (\<lambda>v. root v \<noteq> root u) us)"
proof -
  have us: "\<forall>u \<in> set us. tree_in (heap s) None u" "distinct (all_addrs us)" using assms(1) by (simp_all add: forest_def)
  have x: "root u \<in> set (all_addrs us)" unfolding set_concat set_map using assms(2) root_in by blast
  have "block_at (root u) s = Inr \<lparr>mb_tag = tag_of u, mb_parent = None, mb_children = map root (kids u), mb_size = size_of u, mb_data = data_of u\<rparr>"
    using root_block [of "heap s" None u] us(1) assms(2) by (simp add: block_at_def)
  then have "take_out (root u) s = Inr (s\<lparr>blocks := blocks s - {root u}\<rparr>)" by (simp add: take_out_def)
  then obtain v where t: "taken s us (root u) v (s\<lparr>blocks := blocks s - {root u}\<rparr>)" using take_out_forest [OF assms(1) x] by auto
  have "root u \<in> root ` set us" using assms(2) by simp
  from take_root [OF this us(2)] obtain ys w zs where w: "us = ys @ w # zs" "root w = root u" "prunes (root u) us = ys @ zs" by blast
  have "root u \<in> set (addrs w)" using w(2) by (metis root_in)
  then have "root u \<notin> set (addrs v)" if "v \<in> set ys \<union> set zs" for v using us(2) that by (auto simp: w(1))
  then have "root v \<noteq> root u" if "v \<in> set ys \<union> set zs" for v using that by (metis root_in)
  then have "filter (\<lambda>v. root v \<noteq> root u) us = ys @ zs" using w(2) by (simp add: w(1) filter_id_conv)
  then show ?thesis using free_taken [OF assms(1) t] w(3) by simp
qed

lemma free_tagged_forest:
  assumes "forest s us" and "distinct as" and "set as \<subseteq> root ` set us"
  shows "\<exists>s'. free_tagged t as s = Some (Inr s') \<and> forest s' (filter (\<lambda>u. \<not> (root u \<in> set as \<and> gone t u)) us)"
  using assms
proof (induction "as" arbitrary: s us)
  case (Cons a "as")
  obtain u where u: "u \<in> set us" "root u = a" using Cons.prems(3) by auto
  have tr: "\<forall>u \<in> set us. tree_in (heap s) None u" "distinct (all_addrs us)" using Cons.prems(1) by (simp_all add: forest_def)
  have b: "block_at a s = Inr \<lparr>mb_tag = tag_of u, mb_parent = None, mb_children = map root (kids u), mb_size = size_of u, mb_data = data_of u\<rparr>"
    using root_block [of "heap s" None u] tr(1) u by (simp add: block_at_def)
  have same: "v = u" if v: "v \<in> set us" "root v = a" for v
  proof -
    have "tree_at a us = w" if "w \<in> set us" "root w = a" for w
      using tree_at_eq [OF tr(2), of w] that self_subtree [of w] by auto
    then show ?thesis using v u by metis
  qed
  show ?case
  proof (cases "gone t u")
    case True
    obtain s1 where s1: "free_blocks [a] (s\<lparr>blocks := blocks s - {a}\<rparr>) = Some (Inr s1)" "forest s1 (filter (\<lambda>v. root v \<noteq> a) us)"
      using free_root [OF Cons.prems(1) u(1)] u(2) by auto
    have "set as \<subseteq> root ` set (filter (\<lambda>v. root v \<noteq> a) us)"
    proof
      fix x
      assume "x \<in> set as"
      then have "x \<in> root ` set us" "x \<noteq> a" using Cons.prems(2,3) by auto
      then show "x \<in> root ` set (filter (\<lambda>v. root v \<noteq> a) us)" by auto
    qed
    then obtain s2 where s2: "free_tagged t as s1 = Some (Inr s2)"
        "forest s2 (filter (\<lambda>u. \<not> (root u \<in> set as \<and> gone t u)) (filter (\<lambda>v. root v \<noteq> a) us))"
      using Cons.IH [OF s1(2)] Cons.prems(2) by auto
    have "filter (\<lambda>u. \<not> (root u \<in> set as \<and> gone t u)) (filter (\<lambda>v. root v \<noteq> a) us) =
        filter (\<lambda>u. \<not> (root u \<in> set (a # as) \<and> gone t u)) us"
      using same True by (auto intro!: filter_cong)
    then show ?thesis using s1(1) s2 b True by (auto simp: gone_def)
  next
    case False
    have "filter (\<lambda>u. \<not> (root u \<in> set as \<and> gone t u)) us = filter (\<lambda>u. \<not> (root u \<in> set (a # as) \<and> gone t u)) us"
      using same False by (auto intro!: filter_cong)
    then show ?thesis using Cons.IH [OF Cons.prems(1)] Cons.prems(2,3) b False by (simp add: gone_def)
  qed
qed (simp add: filter_id_conv)

text \<open>An iterator meets every key of the table once.\<close>

definition meets_all :: "mem_env \<Rightarrow> bool" where
  "meets_all env \<longleftrightarrow> (\<forall>B. finite B \<longrightarrow> set (table_order env B) = B \<and> distinct (table_order env B))"

lemma FreeTag_forest:
  assumes "forest s us" and "meets_all env"
  shows "\<exists>s'. Mem_FreeTag env t s = Some (Inr s') \<and> forest s' (filter (\<lambda>u. \<not> gone t u) us)"
proof -
  have r: "blocks s = root ` set us" using assms(1) by (simp add: forest_def)
  then have o: "set (table_order env (blocks s)) = root ` set us" "distinct (table_order env (blocks s))"
    using assms(2) by (simp_all add: meets_all_def)
  have "filter (\<lambda>u. \<not> (root u \<in> root ` set us \<and> gone t u)) us = filter (\<lambda>u. \<not> gone t u) us"
    by (rule filter_cong) auto
  then show ?thesis using free_tagged_forest [OF assms(1) o(2), of t] o(1) by (simp add: Mem_FreeTag_def)
qed

lemma Shutdown_forest:
  assumes "forest s us" and "meets_all env"
  shows "\<exists>s'. Mem_Shutdown env s = Some (Inr s') \<and> heap s' = Map.empty \<and> Mem_Size s' = 0"
  using FreeTag_forest [OF assms, of MEM_TAG_ALL] by (auto simp: Mem_Shutdown_def gone_def forest_def Mem_Size_def)

text \<open>Linking\<close>

lemma reparent:
  assumes "tree_in h p u" "h (root u) = Some b" "distinct (addrs u)"
  shows "tree_in (h(root u \<mapsto> b\<lparr>mb_parent := q\<rparr>)) q u"
proof (cases u)
  case (Node a t n d us)
  have "tree_in h (Some a) v = tree_in (h(a \<mapsto> b\<lparr>mb_parent := q\<rparr>)) (Some a) v" if "v \<in> set us" for v
    using assms(3) that by (intro tree_in_cong) (auto simp: Node)
  then show ?thesis using assms(1,2) by (auto simp: Node)
qed

lemma Link_forest:
  assumes f: "forest s us" and c: "c \<in> set (all_addrs us)" and p: "p \<in> set (all_addrs (prunes c us))"
  shows "\<exists>s'. Mem_Link (Some c) (Some p) s = Inr (Some c, s') \<and> forest s' (map (graft p (tree_at c us)) (prunes c us))"
proof -
  have us: "distinct (all_addrs us)" "set (all_addrs us) = dom (heap s)" "pool_size s = sum_list (map total us)"
    using f by (simp_all add: forest_def)
  obtain s1 u where t: "take_out c s = Inr s1" "taken s us c u s1" using take_out_forest [OF f c] by blast
  note parts = forest_parts [OF us(1), of "prunes c us" u]
  have m: "mset (all_addrs us) = mset (all_addrs (prunes c us)) + mset (addrs u)" and u: "root u = c" using t(2) by (simp_all add: taken_def)
  have ut: "u = tree_at c us" using tree_at_eq [OF us(1), of u] t(2) by (simp add: taken_def)
  have cs: "c \<in> set (addrs u)" using u by auto
  have "p \<in> set (all_addrs us)" using p parts(4) [OF m] by auto
  then obtain bp0 bc0 where "heap s c = Some bc0" "heap s p = Some bp0" using us(2) c by (metis domD)
  then have live: "Mem_CheckMagic (Some c) s = Inr (Some c)" "Mem_CheckMagic (Some p) s = Inr (Some p)"
    by (simp_all add: Mem_CheckMagic_def block_at_def)
  obtain r where r: "tree_in (heap s1) r u" using t(2) by (auto simp: taken_def)
  then obtain b where b: "heap s1 c = Some b" using root_block u by blast
  define s2 where "s2 = put_block c (b\<lparr>mb_parent := Some p\<rparr>) s1"
  have v: "tree_in (heap s2) (Some p) u"
    using reparent [OF r _ parts(2) [OF m], of b "Some p"] b u by (simp add: s2_def put_block_def)
  have rest: "\<forall>w \<in> set (prunes c us). tree_in (heap s2) None w"
  proof -
    have "\<forall>a \<in> set (all_addrs (prunes c us)). heap s1 a = heap s2 a" using parts(3) [OF m] cs by (auto simp: s2_def put_block_def)
    from trees_in_cong [OF this] show ?thesis using t(2) by (simp add: taken_def)
  qed
  have dom2: "dom (heap s2) = dom (heap s)" using t(2) b by (auto simp: s2_def put_block_def taken_def)
  then obtain bp where bp: "heap s2 p = Some bp" using \<open>heap s p = Some bp0\<close> by blast
  define s3 where "s3 = put_block p (bp\<lparr>mb_children := c # mb_children bp\<rparr>) s2"
  have at: "attached (heap s2) None p bp u (prunes c us)"
    by (rule put_in_tree [OF rest parts(1) [OF m] p bp v parts(3) [OF m]])
  let ?vs = "map (graft p u) (prunes c us)"
  have m3: "mset (all_addrs ?vs) = mset (all_addrs us)" using at m by (simp add: attached_def)
  have "forest s3 ?vs" unfolding forest_def
  proof (intro conjI)
    show "\<forall>w \<in> set ?vs. tree_in (heap s3) None w" using at u by (simp add: attached_def s3_def put_block_def)
    show "distinct (all_addrs ?vs)" using mset_eq_imp_distinct_iff [OF m3] us(1) by simp
    show "set (all_addrs ?vs) = dom (heap s3)" using mset_eq_setD [OF m3] us(2) dom2 bp by (auto simp: s3_def put_block_def)
    show "blocks s3 = root ` set ?vs" using t(2) by (simp add: s3_def s2_def put_block_def taken_def image_image)
    show "pool_size s3 = sum_list (map total ?vs)" using at t(2) us(3) by (simp add: s3_def s2_def put_block_def taken_def attached_def)
  qed
  moreover have "Mem_Link (Some c) (Some p) s = Inr (Some c, s3)"
    using live t(1) b bp by (simp add: Mem_Link_def not_null_def block_at_def Let_def s2_def [symmetric] s3_def [symmetric])
  ultimately show ?thesis unfolding ut by blast
qed

text \<open>Allocating\<close>

definition fresh_calloc :: "mem_env \<Rightarrow> bool" where
  "fresh_calloc env \<longleftrightarrow> (\<forall>n s a. calloc env n s = Some a \<longrightarrow> heap s a = None)"

definition zeros_for :: "size_t \<Rightarrow> byte list" where
  "zeros_for sz = replicate (unat (sz + word_of_nat BLOCK_BYTES) - BLOCK_BYTES) 0"

definition grown :: "nat option \<Rightarrow> mtree \<Rightarrow> mtree list \<Rightarrow> mtree list" where
  "grown p v us = (case p of None \<Rightarrow> v # us | Some p \<Rightarrow> map (graft p v) us)"

lemma Alloc_forest:
  assumes f: "forest s us" and "fresh_calloc env" and a: "calloc env (sz + word_of_nat BLOCK_BYTES) s = Some a"
    and p: "\<forall>q. p = Some q \<longrightarrow> q \<in> set (all_addrs us)"
  shows "\<exists>s'. Mem_Alloc env sz t p s = Inr (a, s') \<and> a \<notin> set (all_addrs us) \<and> forest s' (grown p (Node a t sz (zeros_for sz) []) us)"
proof -
  have us: "\<forall>u \<in> set us. tree_in (heap s) None u" "distinct (all_addrs us)" "set (all_addrs us) = dom (heap s)" "blocks s = root ` set us"
      "pool_size s = sum_list (map total us)" using f by (simp_all add: forest_def)
  have new: "heap s a = None" using assms(2) a by (simp add: fresh_calloc_def)
  then have out: "a \<notin> set (all_addrs us)" using us(3) by auto
  let ?b = "\<lparr>mb_tag = t, mb_parent = p, mb_children = [], mb_size = sz, mb_data = zeros_for sz\<rparr>" and ?v = "Node a t sz (zeros_for sz) []"
  define s1 where "s1 = put_block a ?b s"
  have "\<forall>x \<in> set (all_addrs us). heap s x = heap s1 x" using out by (auto simp: s1_def put_block_def)
  from trees_in_cong [OF this] have trees: "\<forall>u \<in> set us. tree_in (heap s1) None u" using us(1) by auto
  show ?thesis
  proof (cases p)
    case None
    have "forest (s1\<lparr>blocks := insert a (blocks s1), pool_size := pool_size s1 + sz\<rparr>) (?v # us)"
      using trees us(2-5) out None by (auto simp: forest_def s1_def put_block_def)
    then show ?thesis using a None out
      by (simp add: Mem_Alloc_def Mem_CheckMagic_def Let_def grown_def zeros_for_def [symmetric] s1_def)
  next
    case (Some q)
    have q: "q \<in> set (all_addrs us)" "q \<noteq> a" using p Some out by auto
    then obtain bq where bq: "heap s q = Some bq" using us(3) by blast
    then have bq1: "heap s1 q = Some bq" using q(2) by (simp add: s1_def put_block_def)
    have v: "tree_in (heap s1) (Some q) ?v" using Some by (simp add: s1_def put_block_def)
    have at: "attached (heap s1) None q bq ?v us"
      by (rule put_in_tree [where b = bq, OF trees us(2) q(1) bq1 v]) (use out in simp)
    let ?vs = "map (graft q ?v) us"
    define s2 where "s2 = put_block q (bq\<lparr>mb_children := a # mb_children bq\<rparr>) s1"
    have m: "mset (all_addrs ?vs) = mset (a # all_addrs us)" using at by (simp add: attached_def)
    have "forest (s2\<lparr>pool_size := pool_size s2 + sz\<rparr>) ?vs" unfolding forest_def
    proof (intro conjI)
      show "\<forall>w \<in> set ?vs. tree_in (heap (s2\<lparr>pool_size := pool_size s2 + sz\<rparr>)) None w" using at by (simp add: attached_def s2_def put_block_def)
      show "distinct (all_addrs ?vs)" using mset_eq_imp_distinct_iff [OF m] us(2) out by simp
      show "set (all_addrs ?vs) = dom (heap (s2\<lparr>pool_size := pool_size s2 + sz\<rparr>))"
        using mset_eq_setD [OF m] us(3) bq by (auto simp: s2_def s1_def put_block_def)
      show "blocks (s2\<lparr>pool_size := pool_size s2 + sz\<rparr>) = root ` set ?vs" using us(4) by (simp add: s2_def s1_def put_block_def image_image)
      show "pool_size (s2\<lparr>pool_size := pool_size s2 + sz\<rparr>) = sum_list (map total ?vs)"
        using at us(5) by (simp add: s2_def s1_def put_block_def attached_def)
    qed
    moreover have "put_block a (?b\<lparr>mb_parent := Some q\<rparr>) s = s1" using Some by (simp add: s1_def)
    then have "Mem_Alloc env sz t p s = Inr (a, s2\<lparr>pool_size := pool_size s2 + sz\<rparr>)"
      using a Some bq bq1
      by (simp add: Mem_Alloc_def Mem_CheckMagic_def block_at_def Let_def zeros_for_def [symmetric] s2_def)
    ultimately show ?thesis using Some out by (simp add: grown_def)
  qed
qed

text \<open>The bytes of a string\<close>

definition text_bytes :: "string \<Rightarrow> byte list" where
  "text_bytes t = map byte_of_char t @ [0]"

lemma CopyString_forest:
  assumes f: "forest s us" and "fresh_calloc env" and a: "calloc env (word_of_nat (length t) + 1 + word_of_nat BLOCK_BYTES) s = Some a"
    and t: "length t + 1 + BLOCK_BYTES < 2 ^ 64"
  shows "\<exists>s'. Mem_CopyString env t s = Inr (a, s') \<and> a \<notin> set (all_addrs us) \<and>
    forest s' (Node a MEM_TAG_DEFAULT (word_of_nat (length t) + 1) (text_bytes t) [] # us)"
proof -
  let ?n = "word_of_nat (length t) + 1 :: size_t"
  have "?n + word_of_nat BLOCK_BYTES = word_of_nat (length t + 1 + BLOCK_BYTES)" by simp
  moreover have "unat (word_of_nat m :: size_t) = m" if "m < 2 ^ 64" for m
    using that by (simp add: unsigned_of_nat take_bit_nat_eq_self)
  ultimately have "unat (?n + word_of_nat BLOCK_BYTES) = length t + 1 + BLOCK_BYTES" using t by (simp only:)
  then have len: "length (zeros_for ?n) = length t + 1" by (simp add: zeros_for_def)
  obtain s1 where s1: "Mem_Malloc env ?n s = Inr (a, s1)" "a \<notin> set (all_addrs us)" "forest s1 (Node a MEM_TAG_DEFAULT ?n (zeros_for ?n) [] # us)"
    using Alloc_forest [OF f assms(2) a, of None] by (auto simp: Mem_Malloc_def grown_def)
  let ?b = "\<lparr>mb_tag = MEM_TAG_DEFAULT, mb_parent = None, mb_children = [], mb_size = ?n, mb_data = zeros_for ?n\<rparr>"
  define s2 where "s2 = put_block a (?b\<lparr>mb_data := text_bytes t\<rparr>) s1"
  have b: "heap s1 a = Some ?b" using s1(3) by (simp add: forest_def)
  have "\<forall>x \<in> set (all_addrs us). heap s1 x = heap s2 x" using s1(2) by (auto simp: s2_def put_block_def)
  from trees_in_cong [OF this] have "\<forall>u \<in> set us. tree_in (heap s2) None u" using s1(3) by (auto simp: forest_def)
  then have "forest s2 (Node a MEM_TAG_DEFAULT ?n (text_bytes t) [] # us)"
    using s1(3) b by (auto simp: forest_def s2_def put_block_def)
  moreover have "Mem_CopyString env t s = Inr (a, s2)"
    using s1(1) b len by (simp add: Mem_CopyString_def block_at_def Let_def text_bytes_def s2_def)
  ultimately show ?thesis using s1(2) by blast
qed

text \<open>The empty heap\<close>

lemma Init_forest: "forest Mem_Init []"
  by (simp add: forest_def Mem_Init_def)

section \<open>Properties\<close>

datatype mem_op = Alloc size_t mem_tag "nat option" | Copy string | Link nat nat | Free nat | Free_Tag mem_tag

definition run_op :: "mem_env \<Rightarrow> mem_op \<Rightarrow> mem_state \<Rightarrow> mem_state run" where
  "run_op env x s = (case x of
       Alloc sz t p \<Rightarrow> Some (bindE (Mem_Alloc env sz t p s) (\<lambda>(_, s). Inr s))
     | Copy t \<Rightarrow> Some (bindE (Mem_CopyString env t s) (\<lambda>(_, s). Inr s))
     | Link c p \<Rightarrow> Some (bindE (Mem_Link (Some c) (Some p) s) (\<lambda>(_, s). Inr s))
     | Free a \<Rightarrow> Mem_Free (Some a) s
     | Free_Tag t \<Rightarrow> Mem_FreeTag env t s)"

text \<open>The specification: what an operation does to a forest\<close>

inductive forest_step :: "mem_op \<Rightarrow> mtree list \<Rightarrow> mtree list \<Rightarrow> bool" where
  alloc: "a \<notin> set (all_addrs us) \<Longrightarrow> forest_step (Alloc sz t p) us (grown p (Node a t sz (zeros_for sz) []) us)"
| copy: "a \<notin> set (all_addrs us) \<Longrightarrow> forest_step (Copy t) us (Node a MEM_TAG_DEFAULT (word_of_nat (length t) + 1) (text_bytes t) [] # us)"
| link: "forest_step (Link c p) us (map (graft p (tree_at c us)) (prunes c us))"
| free: "forest_step (Free a) us (prunes a us)"
| free_tag: "forest_step (Free_Tag t) us (filter (\<lambda>u. \<not> gone t u) us)"

text \<open>What the callers owe: blocks that are there, no block linked below itself, and memory left\<close>

definition allowed :: "mem_env \<Rightarrow> mem_state \<Rightarrow> mtree list \<Rightarrow> mem_op \<Rightarrow> bool" where
  "allowed env s us x = (case x of
       Alloc sz t p \<Rightarrow> calloc env (sz + word_of_nat BLOCK_BYTES) s \<noteq> None \<and> (\<forall>q. p = Some q \<longrightarrow> q \<in> set (all_addrs us))
     | Copy t \<Rightarrow> calloc env (word_of_nat (length t) + 1 + word_of_nat BLOCK_BYTES) s \<noteq> None \<and> length t + 1 + BLOCK_BYTES < 2 ^ 64
     | Link c p \<Rightarrow> c \<in> set (all_addrs us) \<and> p \<in> set (all_addrs (prunes c us))
     | Free a \<Rightarrow> a \<in> set (all_addrs us)
     | Free_Tag t \<Rightarrow> True)"

text \<open>
  C40: Managed memory refines a forest. An operation on a heap that holds a forest ends, goes to no block
  that has been freed, and leaves a heap that holds the forest after the step: a new
  block is a new root or a new child, linking moves a block with all that is below it,
  freeing removes exactly the block and all that is below it, and freeing a tag
  removes exactly the trees whose root has it. The pool size is the sum of the sizes, and shutting down
  from any such heap leaves nothing.
\<close>

theorem memory_is_forest:
  assumes "forest s us" and "fresh_calloc env" and "meets_all env" and "allowed env s us x"
  shows "\<exists>s' vs. run_op env x s = Some (Inr s') \<and> forest_step x us vs \<and> forest s' vs \<and>
    dom (heap s') = set (all_addrs vs) \<and> Mem_Size s' = sum_list (map total vs) \<and>
    (\<exists>t. Mem_Shutdown env s' = Some (Inr t) \<and> heap t = Map.empty \<and> Mem_Size t = 0)"
proof -
  have "\<exists>s' vs. run_op env x s = Some (Inr s') \<and> forest_step x us vs \<and> forest s' vs"
  proof (cases x)
    case (Alloc sz t p)
    then obtain a where "calloc env (sz + word_of_nat BLOCK_BYTES) s = Some a" "\<forall>q. p = Some q \<longrightarrow> q \<in> set (all_addrs us)"
      using assms(4) by (auto simp: allowed_def)
    from Alloc_forest [OF assms(1,2) this, of t] obtain s' where "Mem_Alloc env sz t p s = Inr (a, s')" "a \<notin> set (all_addrs us)"
      "forest s' (grown p (Node a t sz (zeros_for sz) []) us)" by blast
    then show ?thesis using alloc [of a us sz t p] by (auto simp: run_op_def Alloc)
  next
    case (Copy t)
    then obtain a where "calloc env (word_of_nat (length t) + 1 + word_of_nat BLOCK_BYTES) s = Some a" "length t + 1 + BLOCK_BYTES < 2 ^ 64"
      using assms(4) by (auto simp: allowed_def)
    from CopyString_forest [OF assms(1,2) this] show ?thesis using copy [of a us t] by (auto simp: run_op_def Copy)
  next
    case (Link c p)
    then obtain s' where "Mem_Link (Some c) (Some p) s = Inr (Some c, s')" "forest s' (map (graft p (tree_at c us)) (prunes c us))"
      using Link_forest [OF assms(1), of c p] assms(4) by (auto simp: allowed_def)
    then show ?thesis using link [of c p us] by (auto simp: run_op_def Link)
  next
    case (Free a)
    then show ?thesis using Free_forest [OF assms(1), of a] assms(4) free [of a us] by (auto simp: allowed_def run_op_def)
  next
    case (Free_Tag t)
    then show ?thesis using FreeTag_forest [OF assms(1,3), of t] free_tag [of t us] by (auto simp: run_op_def)
  qed
  then obtain s' vs where r: "run_op env x s = Some (Inr s')" "forest_step x us vs" "forest s' vs" by blast
  moreover have "dom (heap s') = set (all_addrs vs)" "Mem_Size s' = sum_list (map total vs)"
    using r(3) by (simp_all add: forest_def Mem_Size_def)
  ultimately show ?thesis using Shutdown_forest [OF r(3) assms(3)] by blast
qed

text \<open>A block with a child\<close>

definition sample_heap :: mem_state where
  "sample_heap = \<lparr>heap = [1 \<mapsto> \<lparr>mb_tag = MEM_TAG_GAME, mb_parent = None, mb_children = [2], mb_size = 1, mb_data = [7]\<rparr>,
       2 \<mapsto> \<lparr>mb_tag = MEM_TAG_DEFAULT, mb_parent = Some 1, mb_children = [], mb_size = 2, mb_data = [8, 9]\<rparr>],
     blocks = {1}, pool_size = 3\<rparr>"

definition sample_mem_env :: mem_env where
  "sample_mem_env = \<lparr>calloc = (\<lambda>n s. if heap s 3 = None then Some 3 else None), table_order = sorted_list_of_set\<rparr>"

theorem memory_is_forest_witness:
  "\<exists>s'. Mem_Free (Some 1) sample_heap = Some (Inr s') \<and> dom (heap s') = {} \<and> Mem_Size s' = 0"
proof -
  let ?us = "[Node 1 MEM_TAG_GAME 1 [7] [Node 2 MEM_TAG_DEFAULT 2 [8, 9] []]]"
  have f: "forest sample_heap ?us" by (auto simp: forest_def sample_heap_def)
  have env: "fresh_calloc sample_mem_env" "meets_all sample_mem_env"
    by (simp_all add: fresh_calloc_def meets_all_def sample_mem_env_def split: if_splits)
  have "allowed sample_mem_env sample_heap ?us (Free 1)" by (simp add: allowed_def)
  from memory_is_forest [OF f env this] obtain s' vs where r: "run_op sample_mem_env (Free 1) sample_heap = Some (Inr s')"
    "forest_step (Free 1) ?us vs" "dom (heap s') = set (all_addrs vs)" "Mem_Size s' = sum_list (map total vs)" by blast
  have "vs = []" using r(2) by (cases rule: forest_step.cases) simp
  then show ?thesis using r by (simp add: run_op_def)
qed

end
