(* ===== verification/Cm_Trace.thy ===== *)
theory Cm_Trace
  imports Cm_Bsp
begin

text \<open>
  Box traces, \<open>src/cmodel.c\<close>: a box is moved from one point to another, down the tree, and clipped against
  the brushes in the leafs it comes to. Floats are rounded as in \<open>Cm_Bsp\<close>; \<open>DIST_EPSILON\<close> is a
  double. A leaf brush, brush or side outside its array is a \<open>Bad_Access\<close>.
\<close>

section \<open>Types\<close>

definition DIST_EPSILON :: rat where "DIST_EPSILON = 1 / 32"

text \<open>\<open>trace_surface\<close> is \<open>None\<close> for \<open>c_bsp.null_surface\<close>.\<close>

record c_trace =
  all_solid :: bool
  start_solid :: bool
  fraction :: vec_t
  trace_end :: vec3_t
  trace_plane :: bsp_plane
  trace_surface :: "int option"
  trace_leaf :: int
  trace_contents :: int

record c_trace_data =
  td_start :: vec3_t
  td_end :: vec3_t
  td_mins :: vec3_t
  td_maxs :: vec3_t
  td_extents :: vec3_t
  trace :: c_trace
  td_contents :: int
  is_point :: bool
  mailbox :: "int list"

section \<open>Brushes\<close>

definition Cm_BrushAlreadyTested :: "int \<Rightarrow> c_trace_data \<Rightarrow> bool \<times> c_trace_data" where
  "Cm_BrushAlreadyTested n data =
     (let hash = nat (n AND 15); skip = (mailbox data ! hash = n)
      in (skip, data\<lparr>mailbox := (mailbox data)[hash := n]\<rparr>))"

text \<open>The corner of the box that is farthest behind the plane\<close>

definition box_offset :: "vec3_t \<Rightarrow> vec3_t \<Rightarrow> vec3_t \<Rightarrow> vec3_t" where
  "box_offset n mins maxs = Vec3 (if vx n < 0 then vx maxs else vx mins) (if vy n < 0 then vy maxs else vy mins)
     (if vz n < 0 then vz maxs else vz mins)"

definition pushed_dist :: "vec3_t \<Rightarrow> vec3_t \<Rightarrow> bsp_plane \<Rightarrow> vec_t" where
  "pushed_dist mins maxs p = flt (plane_dist p - DotProduct (box_offset (normal p) mins maxs) (normal p))"

record clip_state =
  enter_fraction :: vec_t
  leave_fraction :: vec_t
  lead_side :: "bsp_brush_side option"
  end_outside :: bool
  start_outside :: bool

text \<open>
  One side of a brush, with \<open>clip_plane\<close> as the plane of \<open>lead_side\<close>. \<open>None\<close> is the return in front of the face.
\<close>

definition clip_side :: "c_bsp \<Rightarrow> c_trace_data \<Rightarrow> bsp_brush_side \<Rightarrow> clip_state \<Rightarrow> clip_state option" where
  "clip_side bsp data side c =
     (let plane = planes bsp (side_plane side);
          d = (if \<not> is_point data then pushed_dist (td_mins data) (td_maxs data) plane else plane_dist plane);
          d1 = flt (DotProduct (td_start data) (normal plane) - d);
          d2 = flt (DotProduct (td_end data) (normal plane) - d);
          c = (if d2 > 0 then c\<lparr>end_outside := True\<rparr> else c);
          c = (if d1 > 0 then c\<lparr>start_outside := True\<rparr> else c)
      in if d1 > 0 \<and> d2 \<ge> d1 then None
         else if d1 \<le> 0 \<and> d2 \<le> 0 then Some c
         else if d1 > d2 then
           let f = flt (dbl (dbl (d1 - DIST_EPSILON) / flt (d1 - d2)))
           in Some (if f > enter_fraction c then c\<lparr>enter_fraction := f, lead_side := Some side\<rparr> else c)
         else
           let f = flt (dbl (dbl (d1 + DIST_EPSILON) / flt (d1 - d2)))
           in Some (if f < leave_fraction c then c\<lparr>leave_fraction := f\<rparr> else c))"

fun clip_sides :: "c_bsp \<Rightarrow> c_trace_data \<Rightarrow> int list \<Rightarrow> clip_state \<Rightarrow> clip_state option result" where
  "clip_sides bsp data [] c = Inr (Some c)"
| "clip_sides bsp data (i # is) c =
     (if \<not> in_array MAX_BSP_BRUSH_SIDES i then Inl Bad_Access
      else case clip_side bsp data (brush_sides bsp i) c of None \<Rightarrow> Inr None | Some c \<Rightarrow> clip_sides bsp data is c)"

definition sides_of :: "bsp_brush \<Rightarrow> int list" where
  "sides_of b = [first_brush_side b .. first_brush_side b + num_sides b - 1]"

definition unclipped :: clip_state where
  "unclipped = \<lparr>enter_fraction = -1, leave_fraction = 1, lead_side = None, end_outside = False, start_outside = False\<rparr>"

definition mark_solid :: "int \<Rightarrow> clip_state \<Rightarrow> c_trace \<Rightarrow> c_trace" where
  "mark_solid leaf c tr =
     (if \<not> start_outside c then
        let tr = tr\<lparr>start_solid := True\<rparr>;
            tr = (if \<not> end_outside c then tr\<lparr>all_solid := True\<rparr> else tr)
        in tr\<lparr>trace_leaf := leaf\<rparr>
      else tr)"

definition clipped :: "c_bsp \<Rightarrow> int \<Rightarrow> bsp_brush \<Rightarrow> clip_state \<Rightarrow> c_trace \<Rightarrow> c_trace result" where
  "clipped bsp leaf b c tr =
     (let tr = mark_solid leaf c tr
      in if enter_fraction c < leave_fraction c \<and> enter_fraction c > -1 \<and> enter_fraction c < fraction tr then
           (case lead_side c of
              None \<Rightarrow> Inl Bad_Access
            | Some side \<Rightarrow> Inr (tr\<lparr>fraction := (if enter_fraction c < 0 then 0 else enter_fraction c),
                trace_plane := planes bsp (side_plane side), trace_surface := side_surface side,
                trace_contents := brush_contents b, trace_leaf := leaf\<rparr>))
         else Inr tr)"

definition Cm_ClipBoxToBrush :: "c_bsp \<Rightarrow> int \<Rightarrow> c_trace_data \<Rightarrow> bsp_brush \<Rightarrow> c_trace result" where
  "Cm_ClipBoxToBrush bsp leaf data b =
     (if num_sides b = 0 then Inr (trace data)
      else bindE (clip_sides bsp data (sides_of b) unclipped) (\<lambda>c.
        case c of None \<Rightarrow> Inr (trace data) | Some c \<Rightarrow> clipped bsp leaf b c (trace data)))"

text \<open>Whether the box at the start is behind all sides\<close>

fun inside_sides :: "c_bsp \<Rightarrow> c_trace_data \<Rightarrow> int list \<Rightarrow> bool result" where
  "inside_sides bsp data [] = Inr True"
| "inside_sides bsp data (i # is) =
     (if \<not> in_array MAX_BSP_BRUSH_SIDES i then Inl Bad_Access
      else
        let plane = planes bsp (side_plane (brush_sides bsp i));
            d1 = flt (DotProduct (td_start data) (normal plane) - pushed_dist (td_mins data) (td_maxs data) plane)
        in if d1 > 0 then Inr False else inside_sides bsp data is)"

definition Cm_TestBoxInBrush :: "c_bsp \<Rightarrow> c_trace_data \<Rightarrow> bsp_brush \<Rightarrow> c_trace result" where
  "Cm_TestBoxInBrush bsp data b =
     (if num_sides b = 0 then Inr (trace data)
      else bindE (inside_sides bsp data (sides_of b)) (\<lambda>inside.
        Inr (if inside then (trace data)\<lparr>start_solid := True, all_solid := True, fraction := 0, trace_contents := brush_contents b\<rparr>
             else trace data)))"

section \<open>Leafs\<close>

text \<open>The loop over the brushes of a leaf, each of which \<open>test\<close> is called for\<close>

fun leaf_loop :: "(c_trace_data \<Rightarrow> bsp_brush \<Rightarrow> c_trace result) \<Rightarrow> c_bsp \<Rightarrow> int list \<Rightarrow> c_trace_data \<Rightarrow> c_trace_data result" where
  "leaf_loop test bsp [] data = Inr data"
| "leaf_loop test bsp (k # ks) data =
     (if \<not> in_array MAX_BSP_LEAF_BRUSHES k \<or> \<not> in_array MAX_BSP_BRUSHES (leaf_brushes bsp k) then Inl Bad_Access
      else
        let n = leaf_brushes bsp k; b = brushes bsp n; (tested, data) = Cm_BrushAlreadyTested n data
        in if tested then leaf_loop test bsp ks data
           else if brush_contents b AND td_contents data = 0 then leaf_loop test bsp ks data
           else bindE (test data b) (\<lambda>tr.
             let data = data\<lparr>trace := tr\<rparr>
             in if all_solid tr then Inr data else leaf_loop test bsp ks data))"

definition brushes_of :: "bsp_leaf \<Rightarrow> int list" where
  "brushes_of l = [first_leaf_brush l .. first_leaf_brush l + num_leaf_brushes l - 1]"

definition in_leaf :: "(c_trace_data \<Rightarrow> bsp_brush \<Rightarrow> c_trace result) \<Rightarrow> c_bsp \<Rightarrow> int \<Rightarrow> c_trace_data \<Rightarrow> c_trace_data result" where
  "in_leaf test bsp n data =
     (if \<not> in_array (int MAX_BSP_LEAFS) n then Inl Bad_Access
      else if leaf_contents (leafs bsp n) AND td_contents data = 0 then Inr data
      else leaf_loop test bsp (brushes_of (leafs bsp n)) data)"

definition Cm_TraceToLeaf :: "c_bsp \<Rightarrow> int \<Rightarrow> c_trace_data \<Rightarrow> c_trace_data result" where
  "Cm_TraceToLeaf bsp n data = in_leaf (Cm_ClipBoxToBrush bsp n) bsp n data"

definition Cm_TestInLeaf :: "c_bsp \<Rightarrow> int \<Rightarrow> c_trace_data \<Rightarrow> c_trace_data result" where
  "Cm_TestInLeaf bsp n data = in_leaf (Cm_TestBoxInBrush bsp) bsp n data"

section \<open>The descent\<close>

text \<open>\<open>t1\<close>, \<open>t2\<close> and \<open>offset\<close>\<close>

definition node_dists :: "c_trace_data \<Rightarrow> bsp_plane \<Rightarrow> vec3_t \<Rightarrow> vec3_t \<Rightarrow> vec_t \<times> vec_t \<times> vec_t" where
  "node_dists data p p1 p2 =
     (if AXIAL p then
        (flt (component p1 (plane_type p) - plane_dist p), flt (component p2 (plane_type p) - plane_dist p),
         component (td_extents data) (plane_type p))
      else
        (flt (DotProduct (normal p) p1 - plane_dist p), flt (DotProduct (normal p) p2 - plane_dist p),
         if is_point data then 0
         else flt (flt (\<bar>flt (vx (td_extents data) * vx (normal p))\<bar> + \<bar>flt (vy (td_extents data) * vy (normal p))\<bar>) +
                \<bar>flt (vz (td_extents data) * vz (normal p))\<bar>)))"

text \<open>The nearer side of the node and the fractions up to it and past it\<close>

definition crossing :: "vec_t \<Rightarrow> vec_t \<Rightarrow> vec_t \<Rightarrow> bool \<times> vec_t \<times> vec_t" where
  "crossing t1 t2 offset =
     (if t1 < t2 then
        let idist = flt (dbl (1 / flt (t1 - t2)))
        in (True, flt (dbl (dbl (flt (t1 - offset) + DIST_EPSILON) * idist)), flt (dbl (dbl (flt (t1 + offset) + DIST_EPSILON) * idist)))
      else if t1 > t2 then
        let idist = flt (dbl (1 / flt (t1 - t2)))
        in (False, flt (dbl (dbl (flt (t1 + offset) + DIST_EPSILON) * idist)), flt (dbl (dbl (flt (t1 - offset) - DIST_EPSILON) * idist)))
      else (False, 1, 0))"

definition clamp01 :: "vec_t \<Rightarrow> vec_t" where
  "clamp01 f = (let f = (if f < 0 then 0 else f) in if f > 1 then 1 else f)"

definition between :: "vec_t \<Rightarrow> vec_t \<Rightarrow> vec_t \<Rightarrow> vec_t" where
  "between a b f = flt (a + flt (f * flt (b - a)))"

definition point_between :: "vec3_t \<Rightarrow> vec3_t \<Rightarrow> vec_t \<Rightarrow> vec3_t" where
  "point_between p q f = Vec3 (between (vx p) (vx q) f) (between (vy p) (vy q) f) (between (vz p) (vz q) f)"

definition child_on :: "bool \<Rightarrow> bsp_node \<Rightarrow> int" where
  "child_on back node = (if back then child1 node else child0 node)"

partial_function (option) Cm_RecursiveHullCheck ::
  "c_bsp \<Rightarrow> int \<Rightarrow> vec_t \<Rightarrow> vec_t \<Rightarrow> vec3_t \<Rightarrow> vec3_t \<Rightarrow> c_trace_data \<Rightarrow> c_trace_data run" where
  "Cm_RecursiveHullCheck bsp num p1f p2f p1 p2 data =
     (if fraction (trace data) \<le> p1f then Some (Inr data)
      else if num < 0 then Some (Cm_TraceToLeaf bsp (-1 - num) data)
      else if \<not> in_array (MAX_BSP_NODES + 6) num then Some (Inl Bad_Access)
      else
        let node = nodes bsp num; (t1, t2, offset) = node_dists data (planes bsp (node_plane node)) p1 p2
        in if t1 \<ge> offset \<and> t2 \<ge> offset then Cm_RecursiveHullCheck bsp (child0 node) p1f p2f p1 p2 data
           else if t1 \<le> - offset \<and> t2 \<le> - offset then Cm_RecursiveHullCheck bsp (child1 node) p1f p2f p1 p2 data
           else
             let (side, frac, frac2) = crossing t1 t2 offset; frac = clamp01 frac; frac2 = clamp01 frac2
             in bindO (Cm_RecursiveHullCheck bsp (child_on side node) p1f (between p1f p2f frac) p1 (point_between p1 p2 frac) data) (\<lambda>data.
                Cm_RecursiveHullCheck bsp (child_on (\<not> side) node) (between p1f p2f frac2) p2f (point_between p1 p2 frac2) p2 data))"

declare Cm_RecursiveHullCheck.simps [code] Cm_BoxLeafnums_r.simps [code]

definition zero_plane :: bsp_plane where
  "zero_plane = \<lparr>normal = Vec3 0 0 0, plane_dist = 0, plane_type = 0, sign_bits = 0\<rparr>"

definition default_trace :: c_trace where
  "default_trace = \<lparr>all_solid = False, start_solid = False, fraction = 1, trace_end = Vec3 0 0 0, trace_plane = zero_plane,
     trace_surface = None, trace_leaf = 0, trace_contents = 0\<rparr>"

definition trace_data :: "vec3_t \<Rightarrow> vec3_t \<Rightarrow> vec3_t \<Rightarrow> vec3_t \<Rightarrow> int \<Rightarrow> c_trace_data" where
  "trace_data start end mins maxs wanted =
     \<lparr>td_start = start, td_end = end, td_mins = mins, td_maxs = maxs, td_extents = Vec3 0 0 0, trace = default_trace,
      td_contents = wanted, is_point = False, mailbox = replicate 16 (-1)\<rparr>"

fun test_leafs :: "c_bsp \<Rightarrow> int list \<Rightarrow> c_trace_data \<Rightarrow> c_trace_data result" where
  "test_leafs bsp [] data = Inr data"
| "test_leafs bsp (l # ls) data = bindE (Cm_TestInLeaf bsp l data) (\<lambda>data. if all_solid (trace data) then Inr data else test_leafs bsp ls data)"

definition MAX_POINT_LEAFS :: nat where "MAX_POINT_LEAFS = 1024"

definition grow :: "vec3_t \<Rightarrow> vec3_t \<Rightarrow> vec_t \<Rightarrow> vec3_t" where
  "grow v w d = Vec3 (flt (dbl (flt (vx v + vx w) + d))) (flt (dbl (flt (vy v + vy w) + d))) (flt (dbl (flt (vz v + vz w) + d)))"

definition box_extent :: "vec_t \<Rightarrow> vec_t \<Rightarrow> vec_t" where
  "box_extent lo hi = (if - lo > hi then - lo else hi)"

definition sweep_data :: "vec3_t \<Rightarrow> vec3_t \<Rightarrow> vec3_t \<Rightarrow> vec3_t \<Rightarrow> int \<Rightarrow> c_trace_data" where
  "sweep_data start end mins maxs wanted =
     (let data = trace_data start end mins maxs wanted
      in if mins = Vec3 0 0 0 \<and> maxs = Vec3 0 0 0 then data\<lparr>is_point := True\<rparr>
         else data\<lparr>td_extents := Vec3 (box_extent (vx mins) (vx maxs)) (box_extent (vy mins) (vy maxs)) (box_extent (vz mins) (vz maxs))\<rparr>)"

definition Cm_BoxTrace :: "c_bsp \<Rightarrow> vec3_t \<Rightarrow> vec3_t \<Rightarrow> vec3_t \<Rightarrow> vec3_t \<Rightarrow> int \<Rightarrow> int \<Rightarrow> c_trace run" where
  "Cm_BoxTrace bsp start end mins maxs head_node wanted =
     (if num_nodes bsp = 0 then Some (Inr default_trace)
      else if start = end then
        bindO (Cm_BoxLeafnums_r bsp (grow start mins (-1)) (grow start maxs 1) head_node \<lparr>found = [], max_len = MAX_POINT_LEAFS, top_node = -1\<rparr>) (\<lambda>ld.
        bindO (Some (test_leafs bsp (found ld) (trace_data start end mins maxs wanted))) (\<lambda>data.
          Some (Inr ((trace data)\<lparr>trace_end := start\<rparr>))))
      else
        bindO (Cm_RecursiveHullCheck bsp head_node 0 1 start end (sweep_data start end mins maxs wanted)) (\<lambda>data.
          let tr = trace data
          in Some (Inr (tr\<lparr>trace_end := (if fraction tr = 1 then end else point_between start end (fraction tr))\<rparr>))))"

section \<open>Entities that have moved and turned\<close>

text \<open>
  \<open>AngleVectors\<close> of \<open>src/shared.c\<close>. \<open>sn\<close> and \<open>cs\<close> are \<open>sin\<close> and \<open>cos\<close> of the C library, on doubles.
  The angles are pitch, yaw and roll.
\<close>

definition M_PI :: rat where "M_PI = dbl (314159265358979323846 / 100000000000000000000)"

definition radians :: "vec_t \<Rightarrow> vec_t" where
  "radians a = flt (dbl (a * dbl (dbl (M_PI * 2) / 360)))"

record axes =
  forward :: vec3_t
  right :: vec3_t
  up :: vec3_t

definition AngleVectors :: "(rat \<Rightarrow> rat) \<Rightarrow> (rat \<Rightarrow> rat) \<Rightarrow> vec3_t \<Rightarrow> axes" where
  "AngleVectors sn cs a =
     (let sy = flt (sn (radians (vy a))); cy = flt (cs (radians (vy a)));
          sp = flt (sn (radians (vx a))); cp = flt (cs (radians (vx a)));
          sr = flt (sn (radians (vz a))); cr = flt (cs (radians (vz a)))
      in \<lparr>forward = Vec3 (flt (cp * cy)) (flt (cp * sy)) (- sp),
          right = Vec3 (flt (flt (flt (- sr * sp) * cy) + flt (- cr * - sy))) (flt (flt (flt (- sr * sp) * sy) + flt (- cr * cy))) (flt (- sr * cp)),
          up = Vec3 (flt (flt (flt (cr * sp) * cy) + flt (- sr * - sy))) (flt (flt (flt (cr * sp) * sy) + flt (- sr * cy))) (flt (cr * cp))\<rparr>)"

definition into_frame :: "axes \<Rightarrow> vec3_t \<Rightarrow> vec3_t" where
  "into_frame ax v = Vec3 (DotProduct v (forward ax)) (- DotProduct v (right ax)) (DotProduct v (up ax))"

definition minus3 :: "vec3_t \<Rightarrow> vec3_t \<Rightarrow> vec3_t" where
  "minus3 a b = Vec3 (flt (vx a - vx b)) (flt (vy a - vy b)) (flt (vz a - vz b))"

definition turned :: "box_hull \<Rightarrow> int \<Rightarrow> vec3_t \<Rightarrow> bool" where
  "turned cm_box head_node a \<longleftrightarrow> head_node \<noteq> box_head_node cm_box \<and> (vx a \<noteq> 0 \<or> vy a \<noteq> 0 \<or> vz a \<noteq> 0)"

definition Cm_TransformedPointContents ::
  "(rat \<Rightarrow> rat) \<Rightarrow> (rat \<Rightarrow> rat) \<Rightarrow> c_bsp \<Rightarrow> box_hull \<Rightarrow> vec3_t \<Rightarrow> int \<Rightarrow> vec3_t \<Rightarrow> vec3_t \<Rightarrow> int run" where
  "Cm_TransformedPointContents sn cs bsp cm_box p head_node org a =
     (let p_l = minus3 p org;
          p_l = (if turned cm_box head_node a then into_frame (AngleVectors sn cs a) p_l else p_l)
      in bindO (Cm_PointLeafnum_r bsp p_l head_node) (\<lambda>l.
           if in_array (int MAX_BSP_LEAFS) l then Some (Inr (leaf_contents (leafs bsp l))) else Some (Inl Bad_Access)))"

definition Cm_TransformedBoxTrace ::
  "(rat \<Rightarrow> rat) \<Rightarrow> (rat \<Rightarrow> rat) \<Rightarrow> c_bsp \<Rightarrow> box_hull \<Rightarrow> vec3_t \<Rightarrow> vec3_t \<Rightarrow> vec3_t \<Rightarrow> vec3_t \<Rightarrow> int \<Rightarrow> int \<Rightarrow> vec3_t \<Rightarrow> vec3_t \<Rightarrow> c_trace run" where
  "Cm_TransformedBoxTrace sn cs bsp cm_box start end mins maxs head_node wanted org a =
     (let start_l = minus3 start org; end_l = minus3 end org; rotated = turned cm_box head_node a;
          ax = AngleVectors sn cs a;
          start_l = (if rotated then into_frame ax start_l else start_l);
          end_l = (if rotated then into_frame ax end_l else end_l)
      in bindO (Cm_BoxTrace bsp start_l end_l mins maxs head_node wanted) (\<lambda>tr.
        let tr = (if rotated \<and> fraction tr \<noteq> 1 then
                    let back = AngleVectors sn cs (Vec3 (- vx a) (- vy a) (- vz a)); p = trace_plane tr
                    in tr\<lparr>trace_plane := p\<lparr>normal := into_frame back (normal p)\<rparr>\<rparr>
                  else tr)
        in Some (Inr (tr\<lparr>trace_end := point_between start end (fraction tr)\<rparr>))))"

end
