(* ===== verification/Sv_Trace.thy ===== *)
theory Sv_Trace
  imports Sv_World Cm_Trace
begin

text \<open>
  Contents and traces in the world of the server, the rest of \<open>src/server/sv_world.c\<close>: the map first, then the entities
  in the way. \<open>models\<close> gives the head node of \<open>sv.models[i]\<close>, if there is one; \<open>cm_box\<close> is the hull that takes
  the size of a bounding box, so the planes of the map change with every entity looked at.
\<close>

definition Sv_HullForEntity :: "(nat \<Rightarrow> int option) \<Rightarrow> box_hull \<Rightarrow> edict \<Rightarrow> c_bsp \<Rightarrow> (int \<times> c_bsp) result" where
  "Sv_HullForEntity models cm_box ed bsp =
     (if ed_solid ed = SOLID_BSP then
        (case models (unat (model1 (ed_s ed))) of
           None \<Rightarrow> Inl (Err_Drop ''SOLID_BSP with no model'')
         | Some head_node \<Rightarrow> Inr (head_node, bsp))
      else Inr (Cm_HeadnodeForBox cm_box (ed_mins ed) (ed_maxs ed) bsp))"

definition hull_angles :: "edict \<Rightarrow> vec3_t" where
  "hull_angles ed = (if ed_solid ed = SOLID_BSP then angles (ed_s ed) else Vec3 0 0 0)"

section \<open>Contents of a point\<close>

fun touched_contents ::
  "(rat \<Rightarrow> rat) \<Rightarrow> (rat \<Rightarrow> rat) \<Rightarrow> (nat \<Rightarrow> int option) \<Rightarrow> box_hull \<Rightarrow> (nat \<Rightarrow> edict) \<Rightarrow> vec3_t \<Rightarrow> nat list \<Rightarrow> int \<Rightarrow> c_bsp \<Rightarrow> (int \<times> c_bsp) run" where
  "touched_contents sn cs models cm_box ents p [] c bsp = Some (Inr (c, bsp))"
| "touched_contents sn cs models cm_box ents p (e # es) c bsp =
     bindO (Some (Sv_HullForEntity models cm_box (ents e) bsp)) (\<lambda>(head_node, bsp).
     bindO (Cm_TransformedPointContents sn cs bsp cm_box p head_node (origin (ed_s (ents e))) (hull_angles (ents e))) (\<lambda>d.
       touched_contents sn cs models cm_box ents p es (c OR d) bsp))"

definition Sv_PointContents ::
  "(rat \<Rightarrow> rat) \<Rightarrow> (rat \<Rightarrow> rat) \<Rightarrow> (nat \<Rightarrow> int option) \<Rightarrow> box_hull \<Rightarrow> sv_world \<Rightarrow> vec3_t \<Rightarrow> c_bsp \<Rightarrow> (int \<times> c_bsp) run" where
  "Sv_PointContents sn cs models cm_box w p bsp =
     (case models 0 of
        None \<Rightarrow> Some (Inl Bad_Access)
      | Some head_node \<Rightarrow>
          bindO (Cm_PointContents bsp p head_node) (\<lambda>c.
          bindO (Sv_AreaEdicts w p p MAX_EDICTS AREA_SOLID) (\<lambda>touched.
            touched_contents sn cs models cm_box (edicts w) p touched c bsp)))"

section \<open>Traces\<close>

record sv_trace =
  tr_start :: vec3_t
  tr_end :: vec3_t
  tr_mins :: vec3_t
  tr_maxs :: vec3_t
  tr_skip :: "nat option"
  tr_contents :: int

text \<open>The entities that a trace on behalf of \<open>skip\<close> does not see\<close>

definition exempt :: "(nat \<Rightarrow> edict) \<Rightarrow> nat option \<Rightarrow> nat \<Rightarrow> bool" where
  "exempt ents skip e \<longleftrightarrow>
     (case skip of
        None \<Rightarrow> False
      | Some s \<Rightarrow> e = s \<or> ed_owner (ents e) = Some s \<or>
          (case ed_owner (ents s) of None \<Rightarrow> False | Some owner \<Rightarrow> e = owner \<or> ed_owner (ents e) = Some owner))"

definition clip_to_entity ::
  "(rat \<Rightarrow> rat) \<Rightarrow> (rat \<Rightarrow> rat) \<Rightarrow> (nat \<Rightarrow> int option) \<Rightarrow> box_hull \<Rightarrow> edict \<Rightarrow> sv_trace \<Rightarrow> c_bsp \<Rightarrow> (c_trace \<times> c_bsp) run" where
  "clip_to_entity sn cs models cm_box ed q bsp =
     bindO (Some (Sv_HullForEntity models cm_box ed bsp)) (\<lambda>(head_node, bsp).
     bindO (Cm_TransformedBoxTrace sn cs bsp cm_box (tr_start q) (tr_end q) (tr_mins q) (tr_maxs q) head_node (tr_contents q)
       (origin (ed_s ed)) (hull_angles ed)) (\<lambda>tr. Some (Inr (tr, bsp))))"

text \<open>The loop of \<open>Sv_ClipTraceToEntities\<close>, with the trace so far and \<open>trace.ent\<close>\<close>

fun clip_to_entities ::
  "(rat \<Rightarrow> rat) \<Rightarrow> (rat \<Rightarrow> rat) \<Rightarrow> (nat \<Rightarrow> int option) \<Rightarrow> box_hull \<Rightarrow> (nat \<Rightarrow> edict) \<Rightarrow> sv_trace \<Rightarrow> nat list \<Rightarrow>
     c_trace \<times> nat option \<Rightarrow> c_bsp \<Rightarrow> ((c_trace \<times> nat option) \<times> c_bsp) run" where
  "clip_to_entities sn cs models cm_box ents q [] best bsp = Some (Inr (best, bsp))"
| "clip_to_entities sn cs models cm_box ents q (e # es) best bsp =
     (if ed_solid (ents e) = SOLID_NOT then clip_to_entities sn cs models cm_box ents q es best bsp
      else if exempt ents (tr_skip q) e then clip_to_entities sn cs models cm_box ents q es best bsp
      else bindO (clip_to_entity sn cs models cm_box (ents e) q bsp) (\<lambda>(tr, bsp).
        if all_solid tr \<or> start_solid tr \<or> fraction tr < fraction (fst best) then
          (if all_solid tr then Some (Inr ((tr, Some e), bsp))
           else clip_to_entities sn cs models cm_box ents q es (tr, Some e) bsp)
        else clip_to_entities sn cs models cm_box ents q es best bsp))"

definition trace_bound :: "vec_t \<Rightarrow> vec_t \<Rightarrow> vec_t \<Rightarrow> vec_t" where
  "trace_bound p m d = flt (dbl (flt (p + m) + d))"

definition bounds1 :: "vec_t \<Rightarrow> vec_t \<Rightarrow> vec_t \<Rightarrow> vec_t \<Rightarrow> vec_t \<times> vec_t" where
  "bounds1 start end lo hi =
     (if end > start then (trace_bound start lo (-1), trace_bound end hi 1) else (trace_bound end lo (-1), trace_bound start hi 1))"

definition Sv_TraceBounds :: "sv_trace \<Rightarrow> vec3_t \<times> vec3_t" where
  "Sv_TraceBounds q =
     (let x = bounds1 (vx (tr_start q)) (vx (tr_end q)) (vx (tr_mins q)) (vx (tr_maxs q));
          y = bounds1 (vy (tr_start q)) (vy (tr_end q)) (vy (tr_mins q)) (vy (tr_maxs q));
          z = bounds1 (vz (tr_start q)) (vz (tr_end q)) (vz (tr_mins q)) (vz (tr_maxs q))
      in (Vec3 (fst x) (fst y) (fst z), Vec3 (snd x) (snd y) (snd z)))"

definition Sv_ClipTraceToEntities ::
  "(rat \<Rightarrow> rat) \<Rightarrow> (rat \<Rightarrow> rat) \<Rightarrow> (nat \<Rightarrow> int option) \<Rightarrow> box_hull \<Rightarrow> sv_world \<Rightarrow> sv_trace \<Rightarrow> c_trace \<times> nat option \<Rightarrow> c_bsp \<Rightarrow>
     ((c_trace \<times> nat option) \<times> c_bsp) run" where
  "Sv_ClipTraceToEntities sn cs models cm_box w q best bsp =
     (let (box_mins, box_maxs) = Sv_TraceBounds q
      in bindO (Sv_AreaEdicts w box_mins box_maxs MAX_EDICTS AREA_SOLID) (\<lambda>es.
           clip_to_entities sn cs models cm_box (edicts w) q es best bsp))"

text \<open>\<open>mins\<close> and \<open>maxs\<close> may be null.\<close>

definition or_origin :: "vec3_t option \<Rightarrow> vec3_t" where
  "or_origin v = (case v of None \<Rightarrow> Vec3 0 0 0 | Some v \<Rightarrow> v)"

definition move_of :: "vec3_t \<Rightarrow> vec3_t \<Rightarrow> vec3_t option \<Rightarrow> vec3_t option \<Rightarrow> nat option \<Rightarrow> int \<Rightarrow> sv_trace" where
  "move_of start end mins maxs skip wanted = \<lparr>tr_start = start, tr_end = end, tr_mins = or_origin mins, tr_maxs = or_origin maxs,
     tr_skip = skip, tr_contents = wanted\<rparr>"

text \<open>The world is edict 0.\<close>

definition Sv_Trace ::
  "(rat \<Rightarrow> rat) \<Rightarrow> (rat \<Rightarrow> rat) \<Rightarrow> (nat \<Rightarrow> int option) \<Rightarrow> box_hull \<Rightarrow> sv_world \<Rightarrow> vec3_t \<Rightarrow> vec3_t \<Rightarrow> vec3_t option \<Rightarrow> vec3_t option \<Rightarrow>
     nat option \<Rightarrow> int \<Rightarrow> c_bsp \<Rightarrow> ((c_trace \<times> nat option) \<times> c_bsp) run" where
  "Sv_Trace sn cs models cm_box w start end mins maxs skip wanted bsp =
     (let q = move_of start end mins maxs skip wanted
      in bindO (Cm_BoxTrace bsp start end (tr_mins q) (tr_maxs q) 0 wanted) (\<lambda>tr.
        let ent = (if fraction tr < 1 then Some 0 else None)
        in if fraction tr < 1 \<and> start_solid tr then Some (Inr ((tr, ent), bsp))
           else Sv_ClipTraceToEntities sn cs models cm_box w q (tr, ent) bsp))"

end
