(* ===== verification/Cm_Trace_Laws.thy ===== *)
theory Cm_Trace_Laws
  imports Cm_Trace
begin

text \<open>
  What a trace finds. A brush has one effect on a trace, whenever it is tested, and effects combine in
  any order; so the mailbox, which skips brushes, and the early returns change nothing that a
  reference without them would not say.
\<close>

section \<open>Effects\<close>

text \<open>All solid, start solid and the fraction\<close>

type_synonym core = "bool \<times> bool \<times> vec_t"

definition core_of :: "c_trace \<Rightarrow> core" where
  "core_of tr = (all_solid tr, start_solid tr, fraction tr)"

definition meet :: "core \<Rightarrow> core \<Rightarrow> core" where
  "meet e x = (case e of (a, s, f) \<Rightarrow> case x of (b, t, g) \<Rightarrow> (b \<or> a, t \<or> s, min g f))"

definition no_effect :: core where
  "no_effect = (False, False, 1)"

definition sane :: "core \<Rightarrow> bool" where
  "sane x = (case x of (a, s, f) \<Rightarrow> (a \<longrightarrow> s) \<and> 0 \<le> f \<and> f \<le> 1)"

lemma meet_simps [simp]: "meet (a, s, f) (b, t, g) = (b \<or> a, t \<or> s, min g f)" "sane (a, s, f) \<longleftrightarrow> (a \<longrightarrow> s) \<and> 0 \<le> f \<and> f \<le> 1"
  by (simp_all add: meet_def sane_def)

lemma meet_absorbs: "meet e x = x \<Longrightarrow> meet e (meet d x) = meet d x"
  by (cases e; cases d; cases x) (auto simp: min_def split: if_splits)

lemma meet_idem: "meet e (meet e x) = meet e x"
  by (cases e; cases x) (auto simp: min_def)

lemma sane_meet: "sane e \<Longrightarrow> sane x \<Longrightarrow> sane (meet e x)"
  by (cases e; cases x) auto

lemma meet_no_effect: "sane x \<Longrightarrow> meet no_effect x = x"
  by (cases x) (simp add: no_effect_def min_absorb1)

lemma sane_no_effect [simp]: "sane no_effect"
  by (simp add: no_effect_def)

text \<open>Two cores that say the same: what is all solid has no fraction.\<close>

definition agrees :: "core \<Rightarrow> core \<Rightarrow> bool" where
  "agrees x y \<longleftrightarrow> fst x = fst y \<and> (\<not> fst x \<longrightarrow> x = y)"

lemma fst_meet [simp]: "fst (meet e x) \<longleftrightarrow> fst x \<or> fst e"
  by (cases e; cases x) simp

lemma agrees_meet: "agrees x y \<Longrightarrow> agrees (meet e x) (meet e y)"
  by (cases e; cases x; cases y) (auto simp: agrees_def)

section \<open>The effect of a brush\<close>

definition clip_effect :: "clip_state option \<Rightarrow> core" where
  "clip_effect c = (case c of None \<Rightarrow> no_effect
     | Some c \<Rightarrow> (\<not> start_outside c \<and> \<not> end_outside c, \<not> start_outside c,
         if enter_fraction c < leave_fraction c \<and> enter_fraction c > -1 then max 0 (enter_fraction c) else 1))"

definition brush_effect :: "c_bsp \<Rightarrow> c_trace_data \<Rightarrow> bsp_brush \<Rightarrow> core" where
  "brush_effect bsp data b =
     (if num_sides b = 0 then no_effect
      else case clip_sides bsp data (sides_of b) unclipped of Inl _ \<Rightarrow> no_effect | Inr c \<Rightarrow> clip_effect c)"

definition still_effect :: "c_bsp \<Rightarrow> c_trace_data \<Rightarrow> bsp_brush \<Rightarrow> core" where
  "still_effect bsp data b =
     (if num_sides b \<noteq> 0 \<and> inside_sides bsp data (sides_of b) = Inr True then (True, True, 0) else no_effect)"

definition wf_brush :: "bsp_brush \<Rightarrow> bool" where
  "wf_brush b \<longleftrightarrow> 0 \<le> first_brush_side b \<and> first_brush_side b + num_sides b \<le> MAX_BSP_BRUSH_SIDES"

definition wf_leaf :: "c_bsp \<Rightarrow> bsp_leaf \<Rightarrow> bool" where
  "wf_leaf bsp l \<longleftrightarrow> (\<forall>k \<in> set (brushes_of l). in_array MAX_BSP_LEAF_BRUSHES k \<and> in_array MAX_BSP_BRUSHES (leaf_brushes bsp k) \<and>
     wf_brush (brushes bsp (leaf_brushes bsp k)))"

text \<open>What is asked does not change: only the trace and the mailbox do.\<close>

definition question :: "c_trace_data \<Rightarrow> vec3_t \<times> vec3_t \<times> vec3_t \<times> vec3_t \<times> vec3_t \<times> int \<times> bool" where
  "question d = (td_start d, td_end d, td_mins d, td_maxs d, td_extents d, td_contents d, is_point d)"

lemma question_stays [simp]: "question (d\<lparr>trace := tr\<rparr>) = question d" "question (d\<lparr>mailbox := m\<rparr>) = question d"
  by (simp_all add: question_def)

lemma question_fields: "question d = question q \<Longrightarrow> td_start d = td_start q \<and> td_end d = td_end q \<and> td_mins d = td_mins q \<and>
    td_maxs d = td_maxs q \<and> td_extents d = td_extents q \<and> td_contents d = td_contents q \<and> is_point d = is_point q"
  by (simp add: question_def)

lemma clip_sides_question: "question d = question q \<Longrightarrow> clip_sides bsp d is c = clip_sides bsp q is c"
proof (induction "is" arbitrary: c)
  case (Cons i "is")
  have "clip_side bsp d s e = clip_side bsp q s e" for s e
    unfolding clip_side_def by (simp only: question_fields [OF Cons.prems])
  then show ?case using Cons by (auto split: option.splits)
qed simp

lemma inside_sides_question: "question d = question q \<Longrightarrow> inside_sides bsp d is = inside_sides bsp q is"
proof (induction "is")
  case (Cons i "is")
  then show ?case by (simp add: Let_def question_fields [OF Cons.prems])
qed simp

text \<open>An entering fraction has a side.\<close>

lemma lead_known:
  assumes "clip_sides bsp data is c = Inr (Some c')" and "enter_fraction c > -1 \<longrightarrow> lead_side c \<noteq> None"
  shows "enter_fraction c' > -1 \<longrightarrow> lead_side c' \<noteq> None"
  using assms
proof (induction "is" arbitrary: c)
  case (Cons i "is")
  then obtain d where d: "clip_side bsp data (brush_sides bsp i) c = Some d" "clip_sides bsp data is d = Inr (Some c')"
    by (auto split: if_splits option.splits)
  have "enter_fraction d > -1 \<longrightarrow> lead_side d \<noteq> None"
    using d(1) Cons.prems(2) by (auto simp: clip_side_def Let_def split: if_splits)
  then show ?case using Cons.IH [OF d(2)] by simp
qed simp

lemma clip_sides_ends: "\<forall>i \<in> set is. in_array MAX_BSP_BRUSH_SIDES i \<Longrightarrow> \<exists>c'. clip_sides bsp data is c = Inr c'"
  by (induction "is" arbitrary: c) (auto split: option.splits)

lemma inside_sides_ends: "\<forall>i \<in> set is. in_array MAX_BSP_BRUSH_SIDES i \<Longrightarrow> \<exists>b. inside_sides bsp data is = Inr b"
  by (induction "is") (auto simp: Let_def)

lemma brush_sides_in: "wf_brush b \<Longrightarrow> \<forall>i \<in> set (sides_of b). in_array MAX_BSP_BRUSH_SIDES i"
  by (auto simp: wf_brush_def sides_of_def in_array_def)

definition hit_wanted :: "int \<Rightarrow> c_trace \<Rightarrow> bool" where
  "hit_wanted w tr \<longleftrightarrow> (fraction tr < 1 \<longrightarrow> trace_contents tr AND w \<noteq> 0)"

lemma clipped_core:
  assumes "enter_fraction c > -1 \<longrightarrow> lead_side c \<noteq> None" and "sane (core_of tr)"
  shows "\<exists>tr'. clipped bsp leaf b c tr = Inr tr' \<and> core_of tr' = meet (clip_effect (Some c)) (core_of tr) \<and>
    (hit_wanted w tr \<and> brush_contents b AND w \<noteq> 0 \<longrightarrow> hit_wanted w tr')"
proof -
  define t where "t = mark_solid leaf c tr"
  have t: "core_of t = (all_solid tr \<or> (\<not> start_outside c \<and> \<not> end_outside c), start_solid tr \<or> \<not> start_outside c, fraction tr)"
      "fraction t = fraction tr" "trace_contents t = trace_contents tr"
    by (auto simp: t_def mark_solid_def core_of_def Let_def)
  have fr: "0 \<le> fraction tr" "fraction tr \<le> 1" using assms(2) by (simp_all add: core_of_def)
  show ?thesis
  proof (cases "enter_fraction c < leave_fraction c \<and> enter_fraction c > -1 \<and> enter_fraction c < fraction tr")
    case True
    then obtain side where side: "lead_side c = Some side" using assms(1) by auto
    have "max 0 (enter_fraction c) = (if enter_fraction c < 0 then 0 else enter_fraction c)" by auto
    moreover have "max 0 (enter_fraction c) \<le> fraction tr" using True fr by auto
    ultimately show ?thesis
      using True side t unfolding clipped_def t_def [symmetric]
      by (auto simp: core_of_def clip_effect_def hit_wanted_def min_def)
  next
    case False
    then have f: "\<not> (enter_fraction c < leave_fraction c \<and> enter_fraction c > -1 \<and> enter_fraction c < fraction t)"
      by (simp add: t(2))
    have "clipped bsp leaf b c tr = Inr t" unfolding clipped_def t_def [symmetric] Let_def by (rule if_not_P [OF f])
    moreover have "core_of t = meet (clip_effect (Some c)) (core_of tr)"
      using False t(1) fr by (auto simp: core_of_def clip_effect_def min_def max_def)
    ultimately show ?thesis using t(2,3) by (auto simp: hit_wanted_def)
  qed
qed

lemma clip_test:
  assumes "question data = question q" and "wf_brush b" and "sane (core_of (trace data))"
  shows "\<exists>tr. Cm_ClipBoxToBrush bsp leaf data b = Inr tr \<and> core_of tr = meet (brush_effect bsp q b) (core_of (trace data)) \<and>
    (hit_wanted w (trace data) \<and> brush_contents b AND w \<noteq> 0 \<longrightarrow> hit_wanted w tr)"
proof -
  have a: "clip_sides bsp data is c = clip_sides bsp q is c" for "is" c
    using assms(1) by (rule clip_sides_question)
  obtain c where c: "clip_sides bsp q (sides_of b) unclipped = Inr c"
    using clip_sides_ends [OF brush_sides_in [OF assms(2)]] by blast
  show ?thesis
  proof (cases "num_sides b = 0 \<or> c = None")
    case True
    then show ?thesis
      using meet_no_effect [OF assms(3)] c by (auto simp: Cm_ClipBoxToBrush_def brush_effect_def a clip_effect_def)
  next
    case False
    then obtain c1 where c1: "c = Some c1" by auto
    have "enter_fraction c1 > -1 \<longrightarrow> lead_side c1 \<noteq> None"
      using lead_known [OF c [unfolded c1]] by (simp add: unclipped_def)
    from clipped_core [OF this assms(3)] show ?thesis
      using False c c1 by (simp add: Cm_ClipBoxToBrush_def brush_effect_def a)
  qed
qed

lemma still_test:
  assumes "question data = question q" and "wf_brush b" and "sane (core_of (trace data))"
  shows "\<exists>tr. Cm_TestBoxInBrush bsp data b = Inr tr \<and> core_of tr = meet (still_effect bsp q b) (core_of (trace data)) \<and>
    (hit_wanted w (trace data) \<and> brush_contents b AND w \<noteq> 0 \<longrightarrow> hit_wanted w tr)"
proof -
  have a: "inside_sides bsp data is = inside_sides bsp q is" for "is"
    using assms(1) by (rule inside_sides_question)
  obtain i where "inside_sides bsp q (sides_of b) = Inr i" using inside_sides_ends [OF brush_sides_in [OF assms(2)]] by blast
  then show ?thesis
    using meet_no_effect [OF assms(3)] assms(3)
    by (auto simp: Cm_TestBoxInBrush_def still_effect_def a core_of_def hit_wanted_def min_def)
qed

lemma clip_sides_leave:
  "clip_sides bsp q is c = Inr (Some d) \<Longrightarrow> leave_fraction c \<le> 1 \<Longrightarrow> leave_fraction d \<le> 1"
proof (induction "is" arbitrary: c)
  case (Cons i "is")
  then obtain e where e: "clip_side bsp q (brush_sides bsp i) c = Some e" "clip_sides bsp q is e = Inr (Some d)"
    by (auto split: if_splits option.splits)
  have "leave_fraction e \<le> 1" using e(1) Cons.prems(2) by (auto simp: clip_side_def Let_def split: if_splits)
  then show ?case using Cons.IH [OF e(2)] by simp
qed simp

lemma sane_clip_effect: "sane (brush_effect bsp q b)"
proof (cases "num_sides b = 0")
  case False
  show ?thesis
  proof (cases "clip_sides bsp q (sides_of b) unclipped")
    case (Inr c)
    show ?thesis
    proof (cases c)
      case (Some d)
      then have "leave_fraction d \<le> 1" using clip_sides_leave Inr by (fastforce simp: unclipped_def)
      then show ?thesis using False Inr Some by (simp add: brush_effect_def clip_effect_def)
    qed (use False Inr in \<open>simp add: brush_effect_def clip_effect_def\<close>)
  qed (use False in \<open>simp add: brush_effect_def\<close>)
qed (simp add: brush_effect_def)

lemma sane_still_effect: "sane (still_effect bsp q b)"
  by (simp add: still_effect_def)

section \<open>Leafs\<close>

text \<open>The reference for a leaf: all its wanted brushes, each time.\<close>

definition leaf_brush_effect :: "c_bsp \<Rightarrow> (bsp_brush \<Rightarrow> core) \<Rightarrow> int \<Rightarrow> int \<Rightarrow> core \<Rightarrow> core" where
  "leaf_brush_effect bsp eff wanted k x =
     (let b = brushes bsp (leaf_brushes bsp k) in if brush_contents b AND wanted = 0 then x else meet (eff b) x)"

definition leaf_effect :: "c_bsp \<Rightarrow> (bsp_brush \<Rightarrow> core) \<Rightarrow> int \<Rightarrow> int \<Rightarrow> core \<Rightarrow> core" where
  "leaf_effect bsp eff wanted l x =
     (if leaf_contents (leafs bsp l) AND wanted = 0 then x
      else fold (leaf_brush_effect bsp eff wanted) (brushes_of (leafs bsp l)) x)"

text \<open>A brush number in the mailbox: retesting the brush would change nothing.\<close>

definition settled :: "c_bsp \<Rightarrow> (bsp_brush \<Rightarrow> core) \<Rightarrow> int \<Rightarrow> core \<Rightarrow> int \<Rightarrow> bool" where
  "settled bsp eff wanted x n \<longleftrightarrow>
     n = -1 \<or> brush_contents (brushes bsp n) AND wanted = 0 \<or> meet (eff (brushes bsp n)) x = x"

definition tracing :: "c_bsp \<Rightarrow> (bsp_brush \<Rightarrow> core) \<Rightarrow> c_trace_data \<Rightarrow> c_trace_data \<Rightarrow> core \<Rightarrow> bool" where
  "tracing bsp eff q data x \<longleftrightarrow> question data = question q \<and> sane (core_of (trace data)) \<and> sane x \<and>
     length (mailbox data) = 16 \<and> hit_wanted (td_contents q) (trace data) \<and> agrees (core_of (trace data)) x \<and>
     (\<not> all_solid (trace data) \<longrightarrow> (\<forall>n \<in> set (mailbox data). settled bsp eff (td_contents q) x n))"

lemma already_tested:
  assumes "length (mailbox data) = 16" and "Cm_BrushAlreadyTested n data = (tested, data')"
  shows "tested \<longrightarrow> n \<in> set (mailbox data)" "trace data' = trace data" "question data' = question data"
    "length (mailbox data') = 16" "set (mailbox data') \<subseteq> insert n (set (mailbox data))"
proof -
  have "n AND 15 \<le> 15" by (rule AND_upper2) simp
  then have "nat (n AND 15) < 16" by linarith
  then have "mailbox data ! nat (n AND 15) \<in> set (mailbox data)" using assms(1) by simp
  then show "tested \<longrightarrow> n \<in> set (mailbox data)" "trace data' = trace data" "question data' = question data"
      "length (mailbox data') = 16" "set (mailbox data') \<subseteq> insert n (set (mailbox data))"
    using assms set_update_subset_insert [of "mailbox data" "nat (n AND 15)" n]
    by (auto simp: Cm_BrushAlreadyTested_def Let_def)
qed

lemma settled_meet: "settled bsp eff w x n \<Longrightarrow> settled bsp eff w (meet e x) n"
  by (auto simp: settled_def intro: meet_absorbs)

lemma tracing_solid: "tracing bsp eff q data x \<Longrightarrow> all_solid (trace data) \<Longrightarrow> fst y \<Longrightarrow> sane y \<Longrightarrow> tracing bsp eff q data y"
  by (simp add: tracing_def agrees_def core_of_def)

lemma tracing_mailed:
  assumes "tracing bsp eff q data x" and "trace data' = trace data" "question data' = question data"
    and "length (mailbox data') = 16" "set (mailbox data') \<subseteq> insert n (set (mailbox data))"
    and "\<not> all_solid (trace data) \<longrightarrow> settled bsp eff (td_contents q) x n"
  shows "tracing bsp eff q data' x"
  using assms by (auto simp: tracing_def)

locale brush_test =
  fixes test :: "c_trace_data \<Rightarrow> bsp_brush \<Rightarrow> c_trace result" and bsp :: c_bsp and eff :: "bsp_brush \<Rightarrow> core" and q :: c_trace_data
  assumes test_effect: "question data = question q \<Longrightarrow> wf_brush b \<Longrightarrow> sane (core_of (trace data)) \<Longrightarrow>
      \<exists>tr. test data b = Inr tr \<and> core_of tr = meet (eff b) (core_of (trace data)) \<and>
        (hit_wanted w (trace data) \<and> brush_contents b AND w \<noteq> 0 \<longrightarrow> hit_wanted w tr)"
    and sane_eff: "sane (eff b)"
begin

lemma brush_effect_sane: "sane x \<Longrightarrow> sane (leaf_brush_effect bsp eff w k x)"
  by (simp add: leaf_brush_effect_def Let_def sane_meet sane_eff)

lemma brush_effect_solid: "fst x \<Longrightarrow> fst (leaf_brush_effect bsp eff w k x)"
  by (simp add: leaf_brush_effect_def Let_def)

lemma brushes_effect: "sane x \<Longrightarrow> sane (fold (leaf_brush_effect bsp eff w) ks x)"
    "fst x \<Longrightarrow> fst (fold (leaf_brush_effect bsp eff w) ks x)"
  by (induction ks arbitrary: x) (simp_all add: brush_effect_sane brush_effect_solid)

lemma leaf_effect_sane: "sane x \<Longrightarrow> sane (leaf_effect bsp eff w l x)"
  and leaf_effect_solid: "fst x \<Longrightarrow> fst (leaf_effect bsp eff w l x)"
  by (simp_all add: leaf_effect_def brushes_effect)

lemma loop_traces:
  assumes "\<forall>k \<in> set ks. in_array MAX_BSP_LEAF_BRUSHES k \<and> in_array MAX_BSP_BRUSHES (leaf_brushes bsp k) \<and>
      wf_brush (brushes bsp (leaf_brushes bsp k))"
    and "tracing bsp eff q data x"
  shows "\<exists>data'. leaf_loop test bsp ks data = Inr data' \<and>
    tracing bsp eff q data' (fold (leaf_brush_effect bsp eff (td_contents q)) ks x)"
  using assms
proof (induction ks arbitrary: data x)
  case (Cons k ks)
  define n where "n = leaf_brushes bsp k"
  define b where "b = brushes bsp n"
  let ?w = "td_contents q" and ?x = "leaf_brush_effect bsp eff (td_contents q) k x"
  have k: "in_array MAX_BSP_LEAF_BRUSHES k" "in_array MAX_BSP_BRUSHES n" "wf_brush b"
    using Cons.prems(1) by (simp_all add: n_def b_def)
  then have n: "n \<noteq> -1" by (auto simp: in_array_def)
  have len: "length (mailbox data) = 16" and w: "td_contents data = ?w"
    using Cons.prems(2) by (auto simp: tracing_def question_def)
  obtain tested d1 where d1: "Cm_BrushAlreadyTested n data = (tested, d1)" by fastforce
  note al = already_tested [OF len d1]
  have x: "?x = (if brush_contents b AND ?w = 0 then x else meet (eff b) x)"
    by (simp add: leaf_brush_effect_def Let_def n_def b_def)
  have w1: "td_contents d1 = ?w" using al(3) w by (auto simp: question_def)
  have loop: "leaf_loop test bsp (k # ks) data =
      (if tested \<or> brush_contents b AND ?w = 0 then leaf_loop test bsp ks d1
       else bindE (test d1 b) (\<lambda>tr. if all_solid tr then Inr (d1\<lparr>trace := tr\<rparr>) else leaf_loop test bsp ks (d1\<lparr>trace := tr\<rparr>)))"
    using k(1,2) d1 w1 by (simp add: n_def b_def Let_def)
  show ?case
  proof (cases "tested \<or> brush_contents b AND ?w = 0")
    case True
    have "tracing bsp eff q d1 ?x"
    proof (cases "all_solid (trace data)")
      case True
      then have "tracing bsp eff q d1 x" using tracing_mailed [OF Cons.prems(2) al(2-5)] by simp
      moreover have "fst x" "sane x" using Cons.prems(2) True by (simp_all add: tracing_def agrees_def core_of_def)
      ultimately show ?thesis
        using tracing_solid True al(2) brush_effect_solid brush_effect_sane by simp
    next
      case False
      then have "settled bsp eff ?w x n" 
        using True al(1) Cons.prems(2) by (auto simp: tracing_def settled_def b_def)
      moreover from this have "?x = x" unfolding x using n by (auto simp: settled_def b_def)
      ultimately show ?thesis using tracing_mailed [OF Cons.prems(2) al(2-5)] by simp
    qed
    then show ?thesis using Cons.IH Cons.prems(1) loop True by simp
  next
    case False
    have d1_core: "sane (core_of (trace d1))" "hit_wanted ?w (trace d1)" "agrees (core_of (trace d1)) x" "sane x"
        "question d1 = question q"
      using Cons.prems(2) al(2,3) by (simp_all add: tracing_def)
    obtain tr where tr: "test d1 b = Inr tr" "core_of tr = meet (eff b) (core_of (trace d1))" "hit_wanted ?w tr"
      using test_effect [OF d1_core(5) k(3) d1_core(1), of ?w] d1_core(2) False by blast
    have x': "?x = meet (eff b) x" using x False by simp
    have sane: "sane (core_of tr)" "sane ?x" using tr(2) x' d1_core sane_meet sane_eff by simp_all
    have ag: "agrees (core_of tr) ?x" unfolding tr(2) x' using d1_core(3) by (rule agrees_meet)
    have settles: "settled bsp eff ?w ?x m" if "\<not> all_solid tr" "m \<in> set (mailbox d1)" for m
    proof (cases "m = n")
      case True
      then show ?thesis by (simp add: settled_def x' b_def meet_idem)
    next
      case False
      have "\<not> all_solid (trace data)" using that(1) tr(2) al(2) by (auto simp: core_of_def meet_def split: prod.splits)
      then have "settled bsp eff ?w x m" using Cons.prems(2) that(2) al(5) False by (auto simp: tracing_def)
      then show ?thesis unfolding x' by (rule settled_meet)
    qed
    have d2: "tracing bsp eff q (d1\<lparr>trace := tr\<rparr>) ?x"
      using sane ag tr(3) al(4) d1_core(5) settles by (simp add: tracing_def)
    show ?thesis
    proof (cases "all_solid tr")
      case True
      then have "fst ?x" using ag by (simp add: agrees_def core_of_def)
      then have "tracing bsp eff q (d1\<lparr>trace := tr\<rparr>) (fold (leaf_brush_effect bsp eff ?w) ks ?x)"
        using tracing_solid [OF d2] True brushes_effect sane(2) by simp
      then show ?thesis using loop False tr(1) True by simp
    next
      case solid: False
      then show ?thesis using loop False tr(1) Cons.IH [OF _ d2] Cons.prems(1) by simp
    qed
  qed
qed simp

lemma leaf_traces:
  assumes "in_array (int MAX_BSP_LEAFS) l" and "wf_leaf bsp (leafs bsp l)" and "tracing bsp eff q data x"
  shows "\<exists>data'. in_leaf test bsp l data = Inr data' \<and> tracing bsp eff q data' (leaf_effect bsp eff (td_contents q) l x)"
proof -
  have "td_contents data = td_contents q" using assms(3) by (simp add: tracing_def question_def)
  then show ?thesis
    using assms(1,3) loop_traces [OF _ assms(3), of "brushes_of (leafs bsp l)"] assms(2)
    by (simp add: in_leaf_def leaf_effect_def wf_leaf_def)
qed

end

interpretation clip: brush_test "Cm_ClipBoxToBrush bsp leaf" bsp "brush_effect bsp q" q for bsp leaf q
  by unfold_locales (rule clip_test, assumption+, rule sane_clip_effect)

interpretation still: brush_test "Cm_TestBoxInBrush bsp" bsp "still_effect bsp q" q for bsp q
  by unfold_locales (rule still_test, assumption+, rule sane_still_effect)

definition wf_leafs :: "c_bsp \<Rightarrow> bool" where
  "wf_leafs bsp \<longleftrightarrow> (\<forall>l. 0 \<le> l \<and> l < num_leafs bsp \<longrightarrow> wf_leaf bsp (leafs bsp l))"

lemma leaf_wf:
  assumes "wf_tree bsp" and "wf_leafs bsp" and "0 \<le> l" "l < num_leafs bsp"
  shows "in_array (int MAX_BSP_LEAFS) l" "wf_leaf bsp (leafs bsp l)"
  using assms by (auto simp: wf_tree_def wf_leafs_def in_array_def)

section \<open>The descent\<close>

text \<open>Where a line goes at a node: down one side, or down both with the points in between\<close>

datatype passage = One_Side int | Both_Sides int vec_t vec3_t int vec_t vec3_t

definition passage_of :: "c_bsp \<Rightarrow> c_trace_data \<Rightarrow> int \<Rightarrow> vec_t \<Rightarrow> vec_t \<Rightarrow> vec3_t \<Rightarrow> vec3_t \<Rightarrow> passage" where
  "passage_of bsp q num p1f p2f p1 p2 =
     (let node = nodes bsp num; (t1, t2, offset) = node_dists q (planes bsp (node_plane node)) p1 p2
      in if t1 \<ge> offset \<and> t2 \<ge> offset then One_Side (child0 node)
         else if t1 \<le> - offset \<and> t2 \<le> - offset then One_Side (child1 node)
         else
           let (side, frac, frac2) = crossing t1 t2 offset; frac = clamp01 frac; frac2 = clamp01 frac2
           in Both_Sides (child_on side node) (between p1f p2f frac) (point_between p1 p2 frac)
                (child_on (\<not> side) node) (between p1f p2f frac2) (point_between p1 p2 frac2))"

lemma passage_question:
  assumes "question d = question q"
  shows "passage_of bsp d num p1f p2f p1 p2 = passage_of bsp q num p1f p2f p1 p2"
  unfolding passage_of_def node_dists_def by (simp only: question_fields [OF assms])

definition children :: "c_bsp \<Rightarrow> int \<Rightarrow> int set" where
  "children bsp num = {child0 (nodes bsp num), child1 (nodes bsp num)}"

lemma passage_cases:
  fixes p1f f :: vec_t
  obtains (near) "f \<le> p1f"
  | (one) c where "\<not> f \<le> p1f" "passage_of bsp q num p1f p2f p1 p2 = One_Side c" "c \<in> children bsp num"
  | (both) c m p c' m' p' where "\<not> f \<le> p1f" "passage_of bsp q num p1f p2f p1 p2 = Both_Sides c m p c' m' p'"
      "c \<in> children bsp num" "c' \<in> children bsp num"
proof -
  have "case passage_of bsp q num p1f p2f p1 p2 of One_Side c \<Rightarrow> c \<in> children bsp num
      | Both_Sides c _ _ c' _ _ \<Rightarrow> c \<in> children bsp num \<and> c' \<in> children bsp num"
    by (auto simp: passage_of_def Let_def child_on_def children_def split: prod.splits)
  then show ?thesis using that by (cases "passage_of bsp q num p1f p2f p1 p2") (auto split: passage.splits)
qed

lemma hull_check_step:
  assumes "0 \<le> num" and "in_array (MAX_BSP_NODES + 6) num"
  shows "Cm_RecursiveHullCheck bsp num p1f p2f p1 p2 data =
    (if fraction (trace data) \<le> p1f then Some (Inr data)
     else case passage_of bsp data num p1f p2f p1 p2 of
       One_Side c \<Rightarrow> Cm_RecursiveHullCheck bsp c p1f p2f p1 p2 data
     | Both_Sides c m p c' m' p' \<Rightarrow> bindO (Cm_RecursiveHullCheck bsp c p1f m p1 p data) (\<lambda>data.
         Cm_RecursiveHullCheck bsp c' m' p2f p' p2 data))"
  using assms by (subst Cm_RecursiveHullCheck.simps) (simp add: passage_of_def Let_def split: prod.splits)

text \<open>The reference: the same way through the tree, with all brushes of a leaf\<close>

partial_function (option) hull_effect :: "c_bsp \<Rightarrow> c_trace_data \<Rightarrow> int \<Rightarrow> vec_t \<Rightarrow> vec_t \<Rightarrow> vec3_t \<Rightarrow> vec3_t \<Rightarrow> core \<Rightarrow> core option" where
  "hull_effect bsp q num p1f p2f p1 p2 x =
     (if snd (snd x) \<le> p1f then Some x
      else if num < 0 then Some (leaf_effect bsp (brush_effect bsp q) (td_contents q) (-1 - num) x)
      else case passage_of bsp q num p1f p2f p1 p2 of
        One_Side c \<Rightarrow> hull_effect bsp q c p1f p2f p1 p2 x
      | Both_Sides c m p c' m' p' \<Rightarrow> Option.bind (hull_effect bsp q c p1f m p1 p x) (\<lambda>x. hull_effect bsp q c' m' p2f p' p2 x))"

declare hull_effect.simps [code]

lemma hull_effect_ends:
  assumes "wf_tree bsp" and "tree_ref bsp num"
  shows "\<forall>p1f p2f p1 p2 x. sane x \<longrightarrow> (\<exists>y. hull_effect bsp q num p1f p2f p1 p2 x = Some y \<and> sane y \<and> (fst x \<longrightarrow> fst y))"
    (is "?P num")
  using assms
proof (induction rule: tree_induct)
  case (leaf n)
  then show ?case
    by (subst hull_effect.simps) (simp add: clip.leaf_effect_sane clip.leaf_effect_solid del: split_paired_Ex)
next
  case (node n)
  have IH: "?P c" if "c \<in> children bsp n" for c
    using node.IH that [unfolded children_def] by (elim insertE emptyE) (simp_all only:)
  show ?case
  proof (intro allI impI)
    fix p1f p2f p1 p2 and x :: core
    assume x: "sane x"
    show "\<exists>y. hull_effect bsp q n p1f p2f p1 p2 x = Some y \<and> sane y \<and> (fst x \<longrightarrow> fst y)"
    proof (cases rule: passage_cases [of "snd (snd x)" p1f _ bsp q n p2f p1 p2])
      case near
      then show ?thesis using x by (subst hull_effect.simps) simp
    next
      case (one c)
      then show ?thesis using IH x node.hyps by (subst hull_effect.simps) (simp del: split_paired_All split_paired_Ex)
    next
      case (both c m p c' m' p')
      then obtain y where y: "hull_effect bsp q c p1f m p1 p x = Some y" "sane y" "fst x \<longrightarrow> fst y" using IH x by blast
      then obtain z where "hull_effect bsp q c' m' p2f p' p2 y = Some z" "sane z" "fst y \<longrightarrow> fst z" using IH both(4) by blast
      then show ?thesis using y both node.hyps by (subst hull_effect.simps) simp
    qed
  qed
qed


text \<open>Both descents: once all is solid, it stays so; before, both go the same way.\<close>

lemma leaf_step:
  assumes "wf_tree bsp" and "wf_leafs bsp" and "n < 0" "-1 - n < num_leafs bsp" and "tracing bsp (brush_effect bsp q) q data x"
  shows "\<exists>data'. Cm_TraceToLeaf bsp (-1 - n) data = Inr data' \<and>
    tracing bsp (brush_effect bsp q) q data' (leaf_effect bsp (brush_effect bsp q) (td_contents q) (-1 - n) x)"
  unfolding Cm_TraceToLeaf_def
  using clip.leaf_traces [OF leaf_wf [OF assms(1,2), of "-1 - n"] assms(5)] assms(3,4) by simp

lemma tracing_all_solid: "tracing bsp eff q data x \<Longrightarrow> all_solid (trace data) \<longleftrightarrow> fst x"
  by (simp add: tracing_def agrees_def core_of_def)

lemma solid_stays:
  assumes "wf_tree bsp" and "tree_ref bsp num" and "wf_leafs bsp" and "fst x" "sane x"
  shows "\<forall>p1f p2f p1 p2 data. tracing bsp (brush_effect bsp q) q data x \<longrightarrow>
    (\<exists>data'. Cm_RecursiveHullCheck bsp num p1f p2f p1 p2 data = Some (Inr data') \<and> tracing bsp (brush_effect bsp q) q data' x)"
    (is "?P num")
  using assms(1,2)
proof (induction rule: tree_induct)
  case (leaf n)
  show ?case
  proof (intro allI impI)
    fix p1f p2f :: vec_t and p1 p2 :: vec3_t and data
    assume t: "tracing bsp (brush_effect bsp q) q data x"
    obtain d where d: "Cm_TraceToLeaf bsp (-1 - n) data = Inr d"
        "tracing bsp (brush_effect bsp q) q d (leaf_effect bsp (brush_effect bsp q) (td_contents q) (-1 - n) x)"
      using leaf_step [OF assms(1,3) leaf t] by blast
    have "all_solid (trace d)" using d(2) tracing_all_solid clip.leaf_effect_solid assms(4) by blast
    then have "tracing bsp (brush_effect bsp q) q d x" using tracing_solid d(2) assms(4,5) by blast
    then show "\<exists>d. Cm_RecursiveHullCheck bsp n p1f p2f p1 p2 data = Some (Inr d) \<and> tracing bsp (brush_effect bsp q) q d x"
      using t d(1) leaf by (subst Cm_RecursiveHullCheck.simps) simp
  qed
next
  case (node n)
  have IH: "?P c" if "c \<in> children bsp n" for c
    using node.IH that [unfolded children_def] by (elim insertE emptyE) (simp_all only:)
  note step = hull_check_step [OF node.hyps(1) node_in_array [OF assms(1) node.hyps]]
  show ?case
  proof (intro allI impI)
    fix p1f p2f :: vec_t and p1 p2 :: vec3_t and data
    assume t: "tracing bsp (brush_effect bsp q) q data x"
    show "\<exists>d. Cm_RecursiveHullCheck bsp n p1f p2f p1 p2 data = Some (Inr d) \<and> tracing bsp (brush_effect bsp q) q d x"
    proof (cases rule: passage_cases [of "fraction (trace data)" p1f _ bsp data n p2f p1 p2])
      case near
      then show ?thesis using t by (simp add: step)
    next
      case (one c)
      then show ?thesis using IH t by (simp add: step)
    next
      case (both c m p c' m' p')
      then obtain d where d: "Cm_RecursiveHullCheck bsp c p1f m p1 p data = Some (Inr d)" "tracing bsp (brush_effect bsp q) q d x"
        using IH t by blast
      then show ?thesis using IH [OF both(4)] both(1,2) by (simp add: step)
    qed
  qed
qed

lemma tracing_same: "tracing bsp eff q data x \<Longrightarrow> \<not> fst x \<Longrightarrow> fraction (trace data) = snd (snd x)"
  by (auto simp: tracing_def agrees_def core_of_def)

lemma hull_traces:
  assumes "wf_tree bsp" and "tree_ref bsp num" and "wf_leafs bsp"
  shows "\<forall>p1f p2f p1 p2 data x. tracing bsp (brush_effect bsp q) q data x \<longrightarrow>
    (\<exists>data' y. Cm_RecursiveHullCheck bsp num p1f p2f p1 p2 data = Some (Inr data') \<and>
       hull_effect bsp q num p1f p2f p1 p2 x = Some y \<and> tracing bsp (brush_effect bsp q) q data' y)"
    (is "?P num")
proof -
  have solid: "\<exists>data' y. Cm_RecursiveHullCheck bsp n p1f p2f p1 p2 data = Some (Inr data') \<and>
       hull_effect bsp q n p1f p2f p1 p2 x = Some y \<and> tracing bsp (brush_effect bsp q) q data' y"
    if n: "tree_ref bsp n" and t: "tracing bsp (brush_effect bsp q) q data x" and "fst x" for n p1f p2f p1 p2 data x
  proof -
    have x: "sane x" using t by (simp add: tracing_def)
    obtain d where d: "Cm_RecursiveHullCheck bsp n p1f p2f p1 p2 data = Some (Inr d)" "tracing bsp (brush_effect bsp q) q d x"
      using solid_stays [OF assms(1) n assms(3) \<open>fst x\<close> x] t by blast
    moreover obtain y where "hull_effect bsp q n p1f p2f p1 p2 x = Some y" "sane y" "fst y"
      using hull_effect_ends [OF assms(1) n] x \<open>fst x\<close> by blast
    ultimately show ?thesis using tracing_solid tracing_all_solid \<open>fst x\<close> by blast
  qed
  from assms(1,2) show ?thesis
  proof (induction rule: tree_induct)
    case (leaf n)
    show ?case
    proof (intro allI impI)
      fix p1f p2f :: vec_t and p1 p2 :: vec3_t and data and x :: core
      assume t: "tracing bsp (brush_effect bsp q) q data x"
      obtain d where d: "Cm_TraceToLeaf bsp (-1 - n) data = Inr d"
          "tracing bsp (brush_effect bsp q) q d (leaf_effect bsp (brush_effect bsp q) (td_contents q) (-1 - n) x)"
        using leaf_step [OF assms(1,3) leaf t] by blast
      show "\<exists>data' y. Cm_RecursiveHullCheck bsp n p1f p2f p1 p2 data = Some (Inr data') \<and>
         hull_effect bsp q n p1f p2f p1 p2 x = Some y \<and> tracing bsp (brush_effect bsp q) q data' y"
      proof (cases "fst x")
        case True
        then show ?thesis using solid [of n data x] t leaf by (simp add: tree_ref_def)
      next
        case False
        then show ?thesis
          using tracing_same [OF t] t d leaf
          by (subst Cm_RecursiveHullCheck.simps, subst hull_effect.simps) (simp del: split_paired_Ex)
      qed
    qed
  next
    case (node n)
    have IH: "?P c" if "c \<in> children bsp n" for c
      using node.IH that [unfolded children_def] by (elim insertE emptyE) (simp_all only:)
    note step = hull_check_step [OF node.hyps(1) node_in_array [OF assms(1) node.hyps]]
    show ?case
    proof (intro allI impI)
      fix p1f p2f :: vec_t and p1 p2 :: vec3_t and data and x :: core
      assume t: "tracing bsp (brush_effect bsp q) q data x"
      have q: "question data = question q" using t by (simp add: tracing_def)
      note same = passage_question [OF q]
      show "\<exists>data' y. Cm_RecursiveHullCheck bsp n p1f p2f p1 p2 data = Some (Inr data') \<and>
         hull_effect bsp q n p1f p2f p1 p2 x = Some y \<and> tracing bsp (brush_effect bsp q) q data' y"
      proof (cases "fst x")
        case True
        then show ?thesis using solid [of n data x] t node.hyps by (simp add: tree_ref_def)
      next
        case False
        note f = tracing_same [OF t False]
        show ?thesis
        proof (cases rule: passage_cases [of "snd (snd x)" p1f _ bsp q n p2f p1 p2])
          case near
          then show ?thesis using t f by (subst hull_effect.simps) (simp add: step del: split_paired_Ex)
        next
          case (one c)
          then show ?thesis using IH t f node.hyps
            by (subst hull_effect.simps) (simp add: step same del: split_paired_Ex split_paired_All)
        next
          case (both c m p c' m' p')
          then obtain d y where d: "Cm_RecursiveHullCheck bsp c p1f m p1 p data = Some (Inr d)"
              "hull_effect bsp q c p1f m p1 p x = Some y" "tracing bsp (brush_effect bsp q) q d y"
            using IH t by blast
          obtain e z where "Cm_RecursiveHullCheck bsp c' m' p2f p' p2 d = Some (Inr e)"
              "hull_effect bsp q c' m' p2f p' p2 y = Some z" "tracing bsp (brush_effect bsp q) q e z"
            using IH [OF both(4)] d(3) by blast
          then show ?thesis
            using d both f node.hyps by (subst hull_effect.simps) (simp add: step same del: split_paired_Ex)
        qed
      qed
    qed
  qed
qed

section \<open>Boxes that do not move\<close>

definition box_in_brush :: "c_bsp \<Rightarrow> c_trace_data \<Rightarrow> bsp_brush \<Rightarrow> bool" where
  "box_in_brush bsp q b \<longleftrightarrow> num_sides b \<noteq> 0 \<and> (\<forall>i \<in> set (sides_of b). let p = planes bsp (side_plane (brush_sides bsp i)) in
     flt (DotProduct (td_start q) (normal p) - pushed_dist (td_mins q) (td_maxs q) p) \<le> 0)"

definition stuck_in :: "c_bsp \<Rightarrow> c_trace_data \<Rightarrow> int \<Rightarrow> bool" where
  "stuck_in bsp q l \<longleftrightarrow> leaf_contents (leafs bsp l) AND td_contents q \<noteq> 0 \<and>
     (\<exists>k \<in> set (brushes_of (leafs bsp l)). let b = brushes bsp (leaf_brushes bsp k) in
        brush_contents b AND td_contents q \<noteq> 0 \<and> box_in_brush bsp q b)"

definition stuck :: core where "stuck = (True, True, 0)"

definition still_core :: "bool \<Rightarrow> core" where "still_core s = (if s then stuck else no_effect)"

lemma inside_sides_all:
  "\<forall>i \<in> set is. in_array MAX_BSP_BRUSH_SIDES i \<Longrightarrow> inside_sides bsp q is =
     Inr (\<forall>i \<in> set is. let p = planes bsp (side_plane (brush_sides bsp i)) in
       flt (DotProduct (td_start q) (normal p) - pushed_dist (td_mins q) (td_maxs q) p) \<le> 0)"
  by (induction "is") (auto simp: Let_def)

lemma still_effect_inside: "wf_brush b \<Longrightarrow> still_effect bsp q b = still_core (box_in_brush bsp q b)"
  by (simp add: still_effect_def box_in_brush_def inside_sides_all [OF brush_sides_in] still_core_def stuck_def)

lemma meet_still: "meet (still_core s) (still_core t) = still_core (t \<or> s)"
  by (simp add: still_core_def stuck_def no_effect_def)

lemma leaf_effect_still:
  assumes "wf_leaf bsp (leafs bsp l)"
  shows "leaf_effect bsp (still_effect bsp q) (td_contents q) l (still_core s) = still_core (s \<or> stuck_in bsp q l)"
proof -
  have "fold (leaf_brush_effect bsp (still_effect bsp q) (td_contents q)) ks (still_core s) =
      still_core (s \<or> (\<exists>k \<in> set ks. let b = brushes bsp (leaf_brushes bsp k) in
        brush_contents b AND td_contents q \<noteq> 0 \<and> box_in_brush bsp q b))"
    if "\<forall>k \<in> set ks. wf_brush (brushes bsp (leaf_brushes bsp k))" for ks s
    using that
  proof (induction ks arbitrary: s)
    case (Cons k ks)
    let ?b = "brushes bsp (leaf_brushes bsp k)"
    have "leaf_brush_effect bsp (still_effect bsp q) (td_contents q) k (still_core s) =
        still_core (s \<or> brush_contents ?b AND td_contents q \<noteq> 0 \<and> box_in_brush bsp q ?b)"
      using Cons.prems by (simp add: leaf_brush_effect_def Let_def still_effect_inside meet_still)
    then show ?case using Cons by (simp add: Let_def disj_assoc)
  qed simp
  then show ?thesis using assms by (simp add: leaf_effect_def stuck_in_def wf_leaf_def)
qed

lemma test_leafs_stuck:
  assumes "\<forall>l \<in> set ls. in_array (int MAX_BSP_LEAFS) l \<and> wf_leaf bsp (leafs bsp l)"
    and "tracing bsp (still_effect bsp q) q data (still_core s)"
  shows "\<exists>data'. test_leafs bsp ls data = Inr data' \<and>
    tracing bsp (still_effect bsp q) q data' (still_core (s \<or> (\<exists>l \<in> set ls. stuck_in bsp q l)))"
  using assms
proof (induction ls arbitrary: data s)
  case (Cons l ls)
  obtain d where d: "Cm_TestInLeaf bsp l data = Inr d"
      "tracing bsp (still_effect bsp q) q d (still_core (s \<or> stuck_in bsp q l))"
    using still.leaf_traces [OF _ _ Cons.prems(2), of l] Cons.prems(1)
    by (auto simp: Cm_TestInLeaf_def leaf_effect_still)
  show ?case
  proof (cases "all_solid (trace d)")
    case True
    then have "s \<or> stuck_in bsp q l" using tracing_all_solid [OF d(2)] by (simp add: still_core_def no_effect_def split: if_splits)
    then show ?thesis using d True by (auto simp: disj_commute)
  next
    case False
    then show ?thesis using Cons.IH [OF _ d(2)] Cons.prems(1) d(1) by (simp add: disj_assoc)
  qed
qed simp

text \<open>The fraction of a box that is stuck is 0.\<close>

definition still_form :: "c_trace \<Rightarrow> bool" where
  "still_form tr \<longleftrightarrow> core_of tr = still_core (all_solid tr)"

lemma test_keeps_form: "Cm_TestBoxInBrush bsp data b = Inr tr \<Longrightarrow> still_form (trace data) \<Longrightarrow> still_form tr"
  by (auto simp: Cm_TestBoxInBrush_def bindE_eq_Inr still_form_def core_of_def still_core_def stuck_def split: if_splits)

lemma loop_keeps_form:
  "leaf_loop (Cm_TestBoxInBrush bsp) bsp ks data = Inr data' \<Longrightarrow> still_form (trace data) \<Longrightarrow> still_form (trace data')"
proof (induction ks arbitrary: data)
  case (Cons k ks)
  obtain tested d where d: "Cm_BrushAlreadyTested (leaf_brushes bsp k) data = (tested, d)" by fastforce
  then have "still_form (trace d)" using Cons.prems(2) by (auto simp: Cm_BrushAlreadyTested_def Let_def)
  then show ?case
    using Cons d test_keeps_form by (auto simp: Let_def bindE_eq_Inr split: if_splits)
qed simp

lemma test_leafs_keeps_form: "test_leafs bsp ls data = Inr data' \<Longrightarrow> still_form (trace data) \<Longrightarrow> still_form (trace data')"
  by (induction ls arbitrary: data)
    (auto simp: bindE_eq_Inr Cm_TestInLeaf_def in_leaf_def split: if_splits dest!: loop_keeps_form)

lemma default_traces: "question data = question q \<Longrightarrow> trace data = default_trace \<Longrightarrow> mailbox data = replicate 16 (-1) \<Longrightarrow>
    tracing bsp eff q data no_effect"
  by (simp add: tracing_def default_trace_def core_of_def no_effect_def hit_wanted_def agrees_def settled_def)

lemma touched_leaf:
  assumes "wf_tree bsp" and "tree_ref bsp n"
  shows "touches bsp mins maxs n l \<Longrightarrow> 0 \<le> l \<and> l < num_leafs bsp"
  using assms by (induction rule: tree_induct) (auto simp: touches_neg touches_node)

section \<open>Properties\<close>

definition moving_trace :: "c_bsp \<Rightarrow> c_trace_data \<Rightarrow> vec3_t \<Rightarrow> vec3_t \<Rightarrow> int \<Rightarrow> c_trace \<Rightarrow> bool" where
  "moving_trace bsp q start end head_node tr \<longleftrightarrow>
     (\<exists>x. hull_effect bsp q head_node 0 1 start end no_effect = Some x \<and> agrees (core_of tr) x) \<and>
     trace_end tr = (if fraction tr = 1 then end else point_between start end (fraction tr))"

text \<open>\<open>ls\<close> are the leafs the box touches, all of them if the list does not fill up.\<close>

definition still_trace :: "c_bsp \<Rightarrow> c_trace_data \<Rightarrow> vec3_t \<Rightarrow> vec3_t \<Rightarrow> int \<Rightarrow> c_trace \<Rightarrow> bool" where
  "still_trace bsp q c1 c2 head_node tr \<longleftrightarrow> trace_end tr = td_start q \<and>
     (\<exists>ls. (\<forall>l \<in> set ls. touches bsp c1 c2 head_node l) \<and>
        (length ls < MAX_POINT_LEAFS \<longrightarrow> (\<forall>l. touches bsp c1 c2 head_node l \<longrightarrow> l \<in> set ls)) \<and>
        core_of tr = (if \<exists>l \<in> set ls. stuck_in bsp q l then stuck else no_effect))"

lemma moving_ok:
  assumes "wf_tree bsp" and "wf_leafs bsp" and "tree_ref bsp head_node" and "num_nodes bsp \<noteq> 0" and "start \<noteq> end"
  shows "\<exists>tr. Cm_BoxTrace bsp start end mins maxs head_node wanted = Some (Inr tr) \<and> sane (core_of tr) \<and> hit_wanted wanted tr \<and>
    moving_trace bsp (sweep_data start end mins maxs wanted) start end head_node tr"
proof -
  define q where "q = sweep_data start end mins maxs wanted"
  have "trace q = default_trace" "mailbox q = replicate 16 (-1)" "td_contents q = wanted"
    by (simp_all add: q_def sweep_data_def trace_data_def Let_def)
  then have t: "tracing bsp (brush_effect bsp q) q q no_effect" and w: "td_contents q = wanted"
    using default_traces by simp_all
  obtain d x where d: "Cm_RecursiveHullCheck bsp head_node 0 1 start end q = Some (Inr d)"
      "hull_effect bsp q head_node 0 1 start end no_effect = Some x" "tracing bsp (brush_effect bsp q) q d x"
    using hull_traces [OF assms(1,3,2)] t by blast
  let ?tr = "(trace d)\<lparr>trace_end := (if fraction (trace d) = 1 then end else point_between start end (fraction (trace d)))\<rparr>"
  have core: "core_of ?tr = core_of (trace d)" by (simp add: core_of_def)
  have "Cm_BoxTrace bsp start end mins maxs head_node wanted = Some (Inr ?tr)"
    using assms(4,5) d(1) by (simp add: Cm_BoxTrace_def q_def [symmetric] Let_def)
  moreover have "sane (core_of ?tr)" "hit_wanted wanted ?tr" using d(3) w core by (simp_all add: tracing_def hit_wanted_def)
  moreover have "moving_trace bsp q start end head_node ?tr"
    unfolding moving_trace_def core using d(2,3) by (auto simp: tracing_def)
  ultimately show ?thesis unfolding q_def by blast
qed

lemma still_ok:
  assumes "wf_tree bsp" and "wf_leafs bsp" and "tree_ref bsp head_node" and "num_nodes bsp \<noteq> 0"
  shows "\<exists>tr. Cm_BoxTrace bsp start start mins maxs head_node wanted = Some (Inr tr) \<and> sane (core_of tr) \<and> hit_wanted wanted tr \<and>
    still_trace bsp (trace_data start start mins maxs wanted) (grow start mins (-1)) (grow start maxs 1) head_node tr"
proof -
  define q where "q = trace_data start start mins maxs wanted"
  have q: "trace q = default_trace" "mailbox q = replicate 16 (-1)" and w: "td_contents q = wanted" "td_start q = start"
    by (simp_all add: q_def trace_data_def)
  then have t: "tracing bsp (still_effect bsp q) q q (still_core False)"
    using default_traces by (simp add: still_core_def)
  obtain ld where ld: "Cm_BoxLeafnums_r bsp (grow start mins (-1)) (grow start maxs 1) head_node
        \<lparr>found = [], max_len = MAX_POINT_LEAFS, top_node = -1\<rparr> = Some (Inr ld)"
      "collects \<lparr>found = [], max_len = MAX_POINT_LEAFS, top_node = -1\<rparr> ld (touches bsp (grow start mins (-1)) (grow start maxs 1) head_node)"
    using box_leafs [OF assms(1,3)] by blast
  have ls: "\<forall>l \<in> set (found ld). in_array (int MAX_BSP_LEAFS) l \<and> wf_leaf bsp (leafs bsp l)"
    using ld(2) touched_leaf [OF assms(1,3)] leaf_wf [OF assms(1,2)] by (auto simp: collects_def)
  obtain d where d: "test_leafs bsp (found ld) q = Inr d"
      "tracing bsp (still_effect bsp q) q d (still_core (\<exists>l \<in> set (found ld). stuck_in bsp q l))"
    using test_leafs_stuck [OF ls t] by auto
  let ?tr = "(trace d)\<lparr>trace_end := start\<rparr>"
  have core: "core_of ?tr = core_of (trace d)" by (simp add: core_of_def)
  have "Cm_BoxTrace bsp start start mins maxs head_node wanted = Some (Inr ?tr)"
    using assms(4) d(1) ld(1) by (simp add: Cm_BoxTrace_def q_def [symmetric])
  moreover have "sane (core_of ?tr)" "hit_wanted wanted ?tr" using d(2) w core by (simp_all add: tracing_def hit_wanted_def)
  moreover have "core_of (trace d) = still_core (\<exists>l \<in> set (found ld). stuck_in bsp q l)"
  proof -
    have "still_form (trace q)" using q by (simp add: still_form_def default_trace_def core_of_def still_core_def no_effect_def)
    then have "still_form (trace d)" using test_leafs_keeps_form d(1) by blast
    then show ?thesis
      using tracing_all_solid [OF d(2)] by (simp add: still_form_def still_core_def stuck_def no_effect_def)
  qed
  then have "still_trace bsp q (grow start mins (-1)) (grow start maxs 1) head_node ?tr"
    unfolding still_trace_def core using ld(2) w(2) by (intro conjI exI [of _ "found ld"]) (simp_all add: still_core_def collects_def)
  ultimately show ?thesis unfolding q_def [symmetric] by blast
qed

text \<open>
  C22: A box trace through a well-formed tree ends, its fraction is between 0 and 1, all solid implies start solid and what
  stopped it has wanted contents. It finds what the same descent would that tests every wanted brush of every leaf, without
  the mailbox and without stopping early (the fraction as long as not all is solid); a box that does not
  move is stuck exactly if one of the leafs it touches has a wanted brush that it is behind all sides of.
\<close>

theorem box_traces_find:
  assumes "wf_tree bsp" and "wf_leafs bsp" and "tree_ref bsp head_node" and "num_nodes bsp \<noteq> 0"
  shows "\<exists>tr. Cm_BoxTrace bsp start end mins maxs head_node wanted = Some (Inr tr) \<and> sane (core_of tr) \<and> hit_wanted wanted tr \<and>
    (if start = end then still_trace bsp (trace_data start end mins maxs wanted) (grow start mins (-1)) (grow start maxs 1) head_node tr
     else moving_trace bsp (sweep_data start end mins maxs wanted) start end head_node tr)"
  using moving_ok [OF assms, of start "end" mins maxs wanted] still_ok [OF assms, of start mins maxs wanted] by auto

text \<open>The sample tree with the half space \<open>x \<le> 10\<close> as a brush of its solid leaf\<close>

definition wall_bsp :: c_bsp where
  "wall_bsp = sample_bsp\<lparr>leafs := (\<lambda>i. \<lparr>leaf_contents = (if i = 0 then 1 else 0), leaf_cluster = -1,
       leaf_area = 1, first_leaf_brush = 0, num_leaf_brushes = (if i = 0 then 1 else 0)\<rparr>),
     num_brushes := 1, brushes := (\<lambda>_. \<lparr>brush_contents = 1, num_sides = 1, first_brush_side = 0\<rparr>),
     num_brush_sides := 1, total_leaf_brushes := 1\<rparr>"

lemma wall_wf: "wf_tree wall_bsp" "wf_leafs wall_bsp" "tree_ref wall_bsp 0" "num_nodes wall_bsp \<noteq> 0"
proof -
  show "wf_tree wall_bsp" using sample_tree by (simp add: wf_tree_def wall_bsp_def tree_ref_def)
  show "wf_leafs wall_bsp"
    by (auto simp: wf_leafs_def wf_leaf_def brushes_of_def wall_bsp_def sample_bsp_def in_array_def wf_brush_def limits
      MAX_BSP_LEAF_BRUSHES_def MAX_BSP_BRUSHES_def MAX_BSP_BRUSH_SIDES_def)
  show "tree_ref wall_bsp 0" "num_nodes wall_bsp \<noteq> 0" by (simp_all add: tree_ref_def wall_bsp_def sample_bsp_def)
qed

theorem box_traces_find_witness:
  "\<exists>tr. Cm_BoxTrace wall_bsp (Vec3 30 0 0) (Vec3 0 0 0) (Vec3 (-4) (-4) (-4)) (Vec3 4 4 4) 0 1 = Some (Inr tr) \<and>
     core_of tr = (False, False, 2232593 / 4194304) \<and> trace_contents tr AND 1 \<noteq> 0"
proof -
  have e: "hull_effect wall_bsp (sweep_data (Vec3 30 0 0) (Vec3 0 0 0) (Vec3 (-4) (-4) (-4)) (Vec3 4 4 4) 1) 0 0 1
      (Vec3 30 0 0) (Vec3 0 0 0) no_effect = Some (False, False, 2232593 / 4194304)" by code_simp
  show ?thesis
    using box_traces_find [OF wall_wf, of "Vec3 30 0 0" "Vec3 0 0 0" "Vec3 (-4) (-4) (-4)" "Vec3 4 4 4" 1] e
    by (auto simp: moving_trace_def agrees_def hit_wanted_def core_of_def)
qed

end
