(* ===== verification/Sv_Trace_Laws.thy ===== *)
theory Sv_Trace_Laws
  imports Sv_Trace Cm_Trace_Laws Sv_World_Laws
begin

text \<open>
  The trace of the server: it ends, and it stops at the nearest of what is in the way. The nodes of the box hull lie behind
  those of the map, so the tree is looked at with six more nodes and one more leaf.
\<close>

section \<open>Traces do not ask for the number of nodes and leafs\<close>

definition sized :: "c_bsp \<Rightarrow> int \<Rightarrow> int \<Rightarrow> c_bsp" where
  "sized bsp n m = bsp\<lparr>num_nodes := n, num_leafs := m\<rparr>"

lemma sized_simps [simp]:
  "planes (sized bsp n m) = planes bsp" "nodes (sized bsp n m) = nodes bsp" "leafs (sized bsp n m) = leafs bsp"
  "brushes (sized bsp n m) = brushes bsp" "brush_sides (sized bsp n m) = brush_sides bsp"
  "leaf_brushes (sized bsp n m) = leaf_brushes bsp" "num_nodes (sized bsp n m) = n" "num_leafs (sized bsp n m) = m"
  by (simp_all add: sized_def)

lemma clip_sides_sized: "clip_sides (sized bsp n m) data is c = clip_sides bsp data is c"
proof (induction "is" arbitrary: c)
  case (Cons i "is")
  have "clip_side (sized bsp n m) = clip_side bsp" by (simp add: clip_side_def fun_eq_iff)
  then show ?case using Cons by (auto split: option.splits)
qed simp

lemma inside_sides_sized: "inside_sides (sized bsp n m) data is = inside_sides bsp data is"
  by (induction "is") (simp_all add: Let_def)

lemma clipped_sized: "clipped (sized bsp n m) = clipped bsp"
  by (simp add: clipped_def fun_eq_iff cong: if_cong option.case_cong)

lemma brush_tests_sized:
  "Cm_ClipBoxToBrush (sized bsp n m) = Cm_ClipBoxToBrush bsp" "Cm_TestBoxInBrush (sized bsp n m) = Cm_TestBoxInBrush bsp"
  by (simp_all add: Cm_ClipBoxToBrush_def Cm_TestBoxInBrush_def clip_sides_sized inside_sides_sized clipped_sized fun_eq_iff)

lemma leaf_loop_sized: "leaf_loop test (sized bsp n m) ks data = leaf_loop test bsp ks data"
  by (induction ks arbitrary: data) (simp_all add: Let_def cong: if_cong split: prod.splits)

lemma leafs_sized:
  "Cm_TraceToLeaf (sized bsp n m) = Cm_TraceToLeaf bsp" "Cm_TestInLeaf (sized bsp n m) = Cm_TestInLeaf bsp"
  by (simp_all add: Cm_TraceToLeaf_def Cm_TestInLeaf_def in_leaf_def brush_tests_sized leaf_loop_sized fun_eq_iff)

lemma test_leafs_sized: "test_leafs (sized bsp n m) ls data = test_leafs bsp ls data"
  by (induction ls arbitrary: data) (simp_all add: leafs_sized cong: if_cong)

lemma passage_sized: "passage_of (sized bsp n m) = passage_of bsp"
  by (simp add: passage_of_def fun_eq_iff)

lemma hull_check_sized:
  assumes "wf_tree (sized bsp n m)" and "tree_ref (sized bsp n m) num"
  shows "Cm_RecursiveHullCheck (sized bsp n m) num = Cm_RecursiveHullCheck bsp num"
  using assms
proof (induction rule: tree_induct)
  case (leaf k)
  then show ?case
    by (intro ext) (subst (1 2) Cm_RecursiveHullCheck.simps, simp add: leafs_sized)
next
  case (node k)
  note arr = node_in_array [OF assms(1) node.hyps]
  have c: "Cm_RecursiveHullCheck (sized bsp n m) c = Cm_RecursiveHullCheck bsp c" if "c \<in> children bsp k" for c
    using node.IH that by (auto simp: children_def)
  show ?case
  proof (intro ext)
    fix p1f p2f p1 p2 data
    show "Cm_RecursiveHullCheck (sized bsp n m) k p1f p2f p1 p2 data = Cm_RecursiveHullCheck bsp k p1f p2f p1 p2 data"
    proof (cases rule: passage_cases [of "fraction (trace data)" p1f _ bsp data k p2f p1 p2])
      case near
      then show ?thesis by (simp add: hull_check_step [OF node.hyps(1) arr])
    next
      case (one c1)
      then show ?thesis by (simp add: hull_check_step [OF node.hyps(1) arr] passage_sized c)
    next
      case (both c1 q p c' m' p')
      then show ?thesis by (simp add: hull_check_step [OF node.hyps(1) arr] passage_sized c)
    qed
  qed
qed

lemma box_leafs_sized:
  assumes "wf_tree (sized bsp n m)" and "tree_ref (sized bsp n m) num"
  shows "Cm_BoxLeafnums_r (sized bsp n m) mins maxs num = Cm_BoxLeafnums_r bsp mins maxs num"
  using assms
proof (induction rule: tree_induct)
  case (leaf k)
  then show ?case by (intro ext) (subst (1 2) Cm_BoxLeafnums_r.simps, simp)
next
  case (node k)
  note arr = node_in_array [OF assms(1) node.hyps]
  show ?case using node by (intro ext) (subst (1 2) Cm_BoxLeafnums_r.simps, simp add: Let_def cong: if_cong)
qed

definition traceable :: "c_bsp \<Rightarrow> int \<Rightarrow> int \<Rightarrow> int \<Rightarrow> bool" where
  "traceable bsp n m head_node \<longleftrightarrow> wf_tree (sized bsp n m) \<and> wf_leafs (sized bsp n m) \<and> tree_ref (sized bsp n m) head_node \<and>
     n \<noteq> 0 \<and> num_nodes bsp \<noteq> 0"

lemma trace_ends:
  assumes "traceable bsp n m head_node"
  shows "\<exists>tr. Cm_BoxTrace bsp start end mins maxs head_node wanted = Some (Inr tr) \<and> sane (core_of tr) \<and> hit_wanted wanted tr"
proof -
  have w: "wf_tree (sized bsp n m)" "wf_leafs (sized bsp n m)" "tree_ref (sized bsp n m) head_node"
      "num_nodes (sized bsp n m) \<noteq> 0" "num_nodes bsp \<noteq> 0"
    using assms by (simp_all add: traceable_def)
  have "Cm_BoxTrace (sized bsp n m) start end mins maxs head_node wanted = Cm_BoxTrace bsp start end mins maxs head_node wanted"
    using w(4,5) by (simp add: Cm_BoxTrace_def hull_check_sized [OF w(1,3)] box_leafs_sized [OF w(1,3)] test_leafs_sized)
  then show ?thesis using moving_ok [OF w(1-4), of start "end" mins maxs wanted] still_ok [OF w(1-4), of start mins maxs wanted]
    by (cases "start = end") auto
qed

section \<open>Hulls of entities\<close>

lemma set_dist_keeps:
  "num_nodes (set_dist cm_box d bsp) = num_nodes bsp" "nodes (set_dist cm_box d bsp) = nodes bsp"
  "wf_tree (sized (set_dist cm_box d bsp) n m) = wf_tree (sized bsp n m)"
  "wf_leafs (sized (set_dist cm_box d bsp) n m) = wf_leafs (sized bsp n m)"
proof -
  obtain k v where d: "d = (k, v)" by fastforce
  have 1: "nodes (set_dist cm_box d bsp) = nodes bsp" "leafs (set_dist cm_box d bsp) = leafs bsp"
      "brushes (set_dist cm_box d bsp) = brushes bsp" "leaf_brushes (set_dist cm_box d bsp) = leaf_brushes bsp"
      "num_nodes (set_dist cm_box d bsp) = num_nodes bsp"
    by (simp_all add: set_dist_def d)
  have 2: "sign_bits (planes (set_dist cm_box d bsp) x) = sign_bits (planes bsp x)"
      "SignBitsForPlane (planes (set_dist cm_box d bsp) x) = SignBitsForPlane (planes bsp x)" for x
    by (simp_all add: set_dist_def d SignBitsForPlane_def)
  show "num_nodes (set_dist cm_box d bsp) = num_nodes bsp" "nodes (set_dist cm_box d bsp) = nodes bsp" by (fact 1)+
  show "wf_tree (sized (set_dist cm_box d bsp) n m) = wf_tree (sized bsp n m)"
    by (simp add: wf_tree_def 1 2 tree_ref_def Let_def)
  show "wf_leafs (sized (set_dist cm_box d bsp) n m) = wf_leafs (sized bsp n m)"
    by (simp add: wf_leafs_def wf_leaf_def 1)
qed

text \<open>
  The trees of the world, of the models and of the box hull are well-formed in a tree of \<open>n\<close> nodes and \<open>m\<close> leafs.
\<close>

definition world_traceable :: "(nat \<Rightarrow> int option) \<Rightarrow> box_hull \<Rightarrow> int \<Rightarrow> int \<Rightarrow> c_bsp \<Rightarrow> bool" where
  "world_traceable models cm_box n m bsp \<longleftrightarrow> wf_tree (sized bsp n m) \<and> wf_leafs (sized bsp n m) \<and> 0 < n \<and> num_nodes bsp \<noteq> 0 \<and>
     tree_ref (sized bsp n m) (box_head_node cm_box) \<and> (\<forall>i h. models i = Some h \<longrightarrow> tree_ref (sized bsp n m) h)"

lemma world_traceable_head:
  "world_traceable models cm_box n m bsp \<Longrightarrow> tree_ref (sized bsp n m) h \<Longrightarrow> traceable bsp n m h"
  "world_traceable models cm_box n m bsp \<Longrightarrow> traceable bsp n m 0"
  by (auto simp: world_traceable_def traceable_def tree_ref_def)

lemma world_traceable_dist: "world_traceable models cm_box n m (set_dist box d bsp) = world_traceable models cm_box n m bsp"
  unfolding world_traceable_def set_dist_keeps tree_ref_def sized_simps ..

lemma box_hull_traceable:
  assumes "world_traceable models cm_box n m bsp" and "Cm_HeadnodeForBox cm_box mins maxs bsp = (h, bsp')"
  shows "world_traceable models cm_box n m bsp'" "h = box_head_node cm_box"
proof -
  have "world_traceable models cm_box n m (fold (set_dist cm_box) ds bsp)" for ds
    using assms(1) by (induction ds arbitrary: bsp) (simp_all add: world_traceable_dist)
  then show "world_traceable models cm_box n m bsp'" "h = box_head_node cm_box"
    using assms(2) unfolding Cm_HeadnodeForBox_def by blast+
qed

definition has_model :: "(nat \<Rightarrow> int option) \<Rightarrow> edict \<Rightarrow> bool" where
  "has_model models ed \<longleftrightarrow> (ed_solid ed = SOLID_BSP \<longrightarrow> models (unat (model1 (ed_s ed))) \<noteq> None)"

lemma hull_for_entity:
  assumes "world_traceable models cm_box n m bsp" and "has_model models ed"
  shows "\<exists>h bsp'. Sv_HullForEntity models cm_box ed bsp = Inr (h, bsp') \<and> traceable bsp' n m h \<and> world_traceable models cm_box n m bsp'"
proof (cases "ed_solid ed = SOLID_BSP")
  case True
  then obtain h where "models (unat (model1 (ed_s ed))) = Some h" using assms(2) by (auto simp: has_model_def)
  then show ?thesis
    using True assms(1) world_traceable_head(1) by (auto simp: Sv_HullForEntity_def world_traceable_def)
next
  case False
  obtain h bsp' where h: "Cm_HeadnodeForBox cm_box (ed_mins ed) (ed_maxs ed) bsp = (h, bsp')" by fastforce
  note t = box_hull_traceable [OF assms(1) h]
  then have "traceable bsp' n m h" using world_traceable_head(1) by (auto simp: world_traceable_def)
  then show ?thesis using False h t by (simp add: Sv_HullForEntity_def)
qed

lemma transformed_core: "core_of (tr\<lparr>trace_end := e\<rparr>) = core_of tr" "core_of (tr\<lparr>trace_plane := p\<rparr>) = core_of tr"
    "hit_wanted w (tr\<lparr>trace_end := e\<rparr>) = hit_wanted w tr" "hit_wanted w (tr\<lparr>trace_plane := p\<rparr>) = hit_wanted w tr"
  by (simp_all add: core_of_def hit_wanted_def)

lemma transformed_ends:
  assumes "traceable bsp n m h"
  shows "\<exists>tr. Cm_TransformedBoxTrace sn cs bsp cm_box start end mins maxs h wanted org a = Some (Inr tr) \<and>
    sane (core_of tr) \<and> hit_wanted wanted tr"
proof -
  let ?l = "\<lambda>p. if turned cm_box h a then into_frame (AngleVectors sn cs a) (minus3 p org) else minus3 p org"
  obtain tr where tr: "Cm_BoxTrace bsp (?l start) (?l end) mins maxs h wanted = Some (Inr tr)" "sane (core_of tr)" "hit_wanted wanted tr"
    using trace_ends [OF assms] by blast
  then show ?thesis
    unfolding Cm_TransformedBoxTrace_def Let_def by (simp add: transformed_core)
qed

lemma entity_clip_ends:
  assumes "world_traceable models cm_box n m bsp" and "has_model models ed"
  shows "\<exists>tr bsp'. clip_to_entity sn cs models cm_box ed q bsp = Some (Inr (tr, bsp')) \<and> sane (core_of tr) \<and>
    hit_wanted (tr_contents q) tr \<and> world_traceable models cm_box n m bsp'"
proof -
  obtain h bsp' where h: "Sv_HullForEntity models cm_box ed bsp = Inr (h, bsp')" "traceable bsp' n m h" "world_traceable models cm_box n m bsp'"
    using hull_for_entity [OF assms] by blast
  then show ?thesis
    using transformed_ends [OF h(2), of sn cs cm_box "tr_start q" "tr_end q" "tr_mins q" "tr_maxs q" "tr_contents q" "origin (ed_s ed)" "hull_angles ed"]
    by (auto simp: clip_to_entity_def)
qed

section \<open>All entities in the way\<close>

text \<open>The traces against the entities one after the other, whatever they find\<close>

fun entity_traces ::
  "(rat \<Rightarrow> rat) \<Rightarrow> (rat \<Rightarrow> rat) \<Rightarrow> (nat \<Rightarrow> int option) \<Rightarrow> box_hull \<Rightarrow> (nat \<Rightarrow> edict) \<Rightarrow> sv_trace \<Rightarrow> nat list \<Rightarrow> c_bsp \<Rightarrow> c_trace list run" where
  "entity_traces sn cs models cm_box ents q [] bsp = Some (Inr [])"
| "entity_traces sn cs models cm_box ents q (e # es) bsp =
     bindO (clip_to_entity sn cs models cm_box (ents e) q bsp) (\<lambda>(t, bsp).
     bindO (entity_traces sn cs models cm_box ents q es bsp) (\<lambda>ts. Some (Inr (t # ts))))"

fun pick :: "(nat \<times> c_trace) list \<Rightarrow> c_trace \<times> nat option \<Rightarrow> c_trace \<times> nat option" where
  "pick [] best = best"
| "pick ((e, t) # ps) best =
     (if all_solid t then (t, Some e)
      else if start_solid t \<or> fraction t < fraction (fst best) then pick ps (t, Some e) else pick ps best)"

lemma pick_from: "pick ps best = best \<or> (\<exists>(e, t) \<in> set ps. pick ps best = (t, Some e))"
  by (induction ps best rule: pick.induct) auto

lemma pick_solid: "(e, t) \<in> set ps \<Longrightarrow> all_solid t \<Longrightarrow> all_solid (fst (pick ps best))"
  by (induction ps best rule: pick.induct) auto

lemma pick_nearest:
  "\<forall>(e, t) \<in> set ps. \<not> start_solid t \<and> \<not> all_solid t \<Longrightarrow> fraction (fst (pick ps best)) \<le> fraction (fst best) \<and>
     (\<forall>(e, t) \<in> set ps. fraction (fst (pick ps best)) \<le> fraction t)"
  by (induction ps best rule: pick.induct) force+

text \<open>A box that starts in an entity loses a nearer hit on an entity that is looked at earlier.\<close>

lemma started_inside_wins:
  "\<forall>(x, u) \<in> set ps. \<not> all_solid u \<Longrightarrow> start_solid t \<Longrightarrow> pick (ps @ [(e, t)]) best = (t, Some e)"
  by (induction ps best rule: pick.induct) auto

lemma clip_loop:
  fixes q :: sv_trace
  assumes "world_traceable models cm_box n m bsp" and "\<forall>e \<in> set es. ed_solid (ents e) \<noteq> SOLID_NOT \<and> has_model models (ents e)"
  shows "\<exists>ts bsp'. entity_traces sn cs models cm_box ents q (filter (\<lambda>e. \<not> exempt ents (tr_skip q) e) es) bsp = Some (Inr ts) \<and>
    length ts = length (filter (\<lambda>e. \<not> exempt ents (tr_skip q) e) es) \<and>
    (\<forall>t \<in> set ts. sane (core_of t) \<and> hit_wanted (tr_contents q) t) \<and>
    clip_to_entities sn cs models cm_box ents q es best bsp =
      Some (Inr (pick (zip (filter (\<lambda>e. \<not> exempt ents (tr_skip q) e) es) ts) best, bsp')) \<and>
    world_traceable models cm_box n m bsp'"
  using assms
proof (induction es arbitrary: best bsp)
  case (Cons e es)
  show ?case
  proof (cases "exempt ents (tr_skip q) e")
    case True
    then show ?thesis using Cons.IH [OF Cons.prems(1), of best] Cons.prems(2) by simp
  next
    case False
    obtain t bsp1 where t: "clip_to_entity sn cs models cm_box (ents e) q bsp = Some (Inr (t, bsp1))" "sane (core_of t)"
        "hit_wanted (tr_contents q) t" "world_traceable models cm_box n m bsp1"
      using entity_clip_ends [OF Cons.prems(1)] Cons.prems(2) by fastforce
    define best' where "best' = (if start_solid t \<or> fraction t < fraction (fst best) then (t, Some e) else best)"
    obtain ts bsp' where IH: "entity_traces sn cs models cm_box ents q (filter (\<lambda>e. \<not> exempt ents (tr_skip q) e) es) bsp1 = Some (Inr ts)"
        "length ts = length (filter (\<lambda>e. \<not> exempt ents (tr_skip q) e) es)"
        "\<forall>t \<in> set ts. sane (core_of t) \<and> hit_wanted (tr_contents q) t"
        "clip_to_entities sn cs models cm_box ents q es best' bsp1 =
           Some (Inr (pick (zip (filter (\<lambda>e. \<not> exempt ents (tr_skip q) e) es) ts) best', bsp'))"
        "world_traceable models cm_box n m bsp'"
      using Cons.IH [OF t(4), of best'] Cons.prems(2) by auto
    have s: "all_solid t \<longrightarrow> start_solid t" using t(2) by (simp add: core_of_def)
    show ?thesis
      using t IH False Cons.prems(2) s by (cases "all_solid t") (auto simp: best'_def)
  qed
qed simp

section \<open>The hull of a loaded map\<close>

definition hull_behind :: "c_bsp \<Rightarrow> nat \<Rightarrow> c_bsp \<Rightarrow> bool" where
  "hull_behind bsp n bsp' \<longleftrightarrow> hull_built bsp n bsp' \<and> num_brush_sides bsp' = num_brush_sides bsp \<and>
     brushes bsp' = brushes bsp \<and> leaf_brushes bsp' = leaf_brushes bsp \<and>
     (\<forall>x < num_nodes bsp. nodes bsp' x = nodes bsp x) \<and> (\<forall>x < num_planes bsp. planes bsp' x = planes bsp x) \<and>
     (\<forall>k < n. sign_bits (planes bsp' (num_planes bsp + 2 * int k)) = 0 \<and>
        normal (planes bsp' (num_planes bsp + 2 * int k)) = unit_vec (k div 2) 1)"

lemma hull_behind_step: "hull_behind bsp n bsp' \<Longrightarrow> hull_behind bsp (Suc n) (hull_node n bsp')"
  unfolding hull_behind_def using hull_built_step [of bsp n bsp']
  by (auto simp: hull_built_def hull_node_def Let_def less_Suc_eq)

lemma hull_behind_6: "hull_behind bsp 6 (fold hull_node [0, 1, 2, 3, 4, 5] bsp)"
proof -
  have "hull_behind bsp n (fold hull_node [0 ..< n] bsp)" for n
    by (induction n) (simp_all add: hull_behind_step, simp add: hull_behind_def hull_built_def)
  moreover have "[0 ..< 6] = [0, 1, 2, 3, 4, 5 :: nat]" by code_simp
  ultimately show ?thesis by metis
qed

definition wf_map :: "c_bsp \<Rightarrow> bool" where
  "wf_map bsp \<longleftrightarrow> wf_tree bsp \<and> wf_leafs bsp \<and> 0 < num_nodes bsp \<and> 0 \<le> empty_leaf bsp \<and> empty_leaf bsp < num_leafs bsp \<and>
     0 \<le> num_planes bsp \<and> 0 \<le> num_brushes bsp \<and> 0 \<le> num_brush_sides bsp \<and> 0 \<le> total_leaf_brushes bsp \<and>
     (\<forall>x. 0 \<le> x \<and> x < num_nodes bsp \<longrightarrow> node_plane (nodes bsp x) < num_planes bsp)"

lemma unit_sign: "normal p = unit_vec k 1 \<Longrightarrow> SignBitsForPlane p = 0"
  by (auto simp: SignBitsForPlane_def unit_vec_def component_def)

lemma hull_tree:
  assumes bsp: "wf_map bsp" and h: "hull_behind bsp 6 bsp'"
    and room: "num_nodes bsp + 6 \<le> MAX_BSP_NODES" "num_leafs bsp < int MAX_BSP_LEAFS"
  shows "wf_tree (sized bsp' (num_nodes bsp + 6) (num_leafs bsp + 1))"
proof -
  have "(\<forall>c \<in> {child0 (nodes bsp' x), child1 (nodes bsp' x)}.
        tree_ref (sized bsp' (num_nodes bsp + 6) (num_leafs bsp + 1)) c \<and> (0 \<le> c \<longrightarrow> x < c)) \<and>
      sign_bits (planes bsp' (node_plane (nodes bsp' x))) = SignBitsForPlane (planes bsp' (node_plane (nodes bsp' x)))"
    if x: "0 \<le> x" "x < num_nodes bsp + 6" for x
  proof (cases "x < num_nodes bsp")
    case True
    have "node_plane (nodes bsp x) < num_planes bsp" using bsp x(1) True by (simp add: wf_map_def)
    then have "nodes bsp' x = nodes bsp x" "planes bsp' (node_plane (nodes bsp x)) = planes bsp (node_plane (nodes bsp x))"
      using h True by (simp_all add: hull_behind_def)
    moreover have "\<forall>c \<in> {child0 (nodes bsp x), child1 (nodes bsp x)}. tree_ref bsp c \<and> (0 \<le> c \<longrightarrow> x < c)"
        "sign_bits (planes bsp (node_plane (nodes bsp x))) = SignBitsForPlane (planes bsp (node_plane (nodes bsp x)))"
      using bsp x(1) True by (simp_all add: wf_map_def wf_tree_def Let_def)
    ultimately show ?thesis by (auto simp: tree_ref_def split: if_splits)
  next
    case False
    define k where "k = nat (x - num_nodes bsp)"
    then have k: "k < 6" "x = num_nodes bsp + int k" using x False by auto
    have e: "nodes bsp' x = hull_entry bsp k" using h k by (simp add: hull_behind_def hull_built_def)
    have p: "sign_bits (planes bsp' (num_planes bsp + 2 * int k)) = 0"
        "SignBitsForPlane (planes bsp' (num_planes bsp + 2 * int k)) = 0"
      using h k(1) unit_sign by (auto simp: hull_behind_def)
    have "k \<noteq> 5 \<longrightarrow> k < 5" using k(1) by auto
    then show ?thesis using bsp k p e by (auto simp: hull_entry_def tree_ref_def wf_map_def Let_def)
  qed
  then show ?thesis using room by (simp add: wf_tree_def Let_def)
qed

lemma loaded_map_traceable:
  assumes bsp: "wf_map bsp" and init: "Cm_InitBoxHull bsp = Inr (cm_box, bsp')"
    and models: "\<forall>i h. models i = Some h \<longrightarrow> tree_ref bsp h"
  shows "world_traceable models cm_box (num_nodes bsp + 6) (num_leafs bsp + 1) bsp'"
proof -
  define b where "b = bsp\<lparr>brushes := (brushes bsp)(num_brushes bsp :=
      \<lparr>brush_contents = CONTENTS_MONSTER, num_sides = 6, first_brush_side = num_brush_sides bsp\<rparr>),
    leafs := (leafs bsp)(num_leafs bsp := (leafs bsp (num_leafs bsp))
      \<lparr>leaf_contents := CONTENTS_MONSTER, first_leaf_brush := total_leaf_brushes bsp, num_leaf_brushes := 1\<rparr>),
    leaf_brushes := (leaf_brushes bsp)(total_leaf_brushes bsp := num_brushes bsp)\<rparr>"
  have room: "num_nodes bsp + 6 \<le> MAX_BSP_NODES" "num_brushes bsp + 1 \<le> MAX_BSP_BRUSHES"
      "total_leaf_brushes bsp + 1 \<le> MAX_BSP_LEAF_BRUSHES" "num_brush_sides bsp + 6 \<le> MAX_BSP_BRUSH_SIDES"
      "num_leafs bsp < int MAX_BSP_LEAFS"
    using init by (simp_all add: Cm_InitBoxHull_def in_array_def split: if_splits)
  have out: "bsp' = fold hull_node [0, 1, 2, 3, 4, 5] b" "box_head_node cm_box = num_nodes bsp"
    using init unfolding Cm_InitBoxHull_def Let_def b_def [symmetric] by (simp_all only: split: if_splits) auto
  have n: "num_nodes b = num_nodes bsp" "num_leafs b = num_leafs bsp" by (simp_all add: b_def)
  have new: "wf_brush \<lparr>brush_contents = CONTENTS_MONSTER, num_sides = 6, first_brush_side = num_brush_sides bsp\<rparr>"
    using room bsp by (simp add: wf_brush_def wf_map_def)
  have leaf: "wf_leaf b (leafs b l)" if "0 \<le> l" "l \<le> num_leafs bsp" for l
  proof (cases "l = num_leafs bsp")
    case True
    then show ?thesis
      using room bsp new by (simp add: wf_leaf_def b_def brushes_of_def wf_map_def in_array_def)
  next
    case False
    then have "wf_leaf bsp (leafs bsp l)" using bsp that by (simp add: wf_map_def wf_leafs_def)
    then show ?thesis
      using False room bsp new by (auto simp: wf_leaf_def b_def wf_map_def in_array_def)
  qed
  have "wf_leafs b" using leaf n by (simp add: wf_leafs_def)
  moreover have "wf_tree b" using bsp by (simp add: wf_map_def wf_tree_def tree_ref_def b_def)
  ultimately have b: "wf_map b" using bsp by (simp add: wf_map_def) (simp add: b_def)
  have h: "hull_behind b 6 bsp'" unfolding out(1) by (rule hull_behind_6)
  then have same: "leafs bsp' = leafs b" "leaf_brushes bsp' = leaf_brushes b" "brushes bsp' = brushes b" "num_nodes bsp' = num_nodes bsp"
    by (simp_all add: hull_behind_def hull_built_def n)
  have ref: "tree_ref bsp x \<Longrightarrow> tree_ref (sized bsp' (num_nodes bsp + 6) (num_leafs bsp + 1)) x" for x
    by (auto simp: tree_ref_def split: if_splits)
  have "wf_tree (sized bsp' (num_nodes bsp + 6) (num_leafs bsp + 1))"
    using hull_tree [OF b h] room n by simp
  moreover have "wf_leafs (sized bsp' (num_nodes bsp + 6) (num_leafs bsp + 1))"
  proof -
    have "wf_leaf (sized bsp' i j) l = wf_leaf b l" for i j l by (simp add: wf_leaf_def same)
    then show ?thesis using leaf by (simp add: wf_leafs_def same)
  qed
  ultimately show ?thesis
    using bsp ref same(4) out(2) models by (simp add: world_traceable_def wf_map_def) (simp add: tree_ref_def)
qed

section \<open>Properties\<close>

text \<open>The solid entities that are linked where the box passes and that the trace is not told to leave out\<close>

definition in_the_way :: "sv_world \<Rightarrow> (nat \<rightharpoonup> area_type) \<Rightarrow> sv_trace \<Rightarrow> nat \<Rightarrow> bool" where
  "in_the_way w M q e \<longleftrightarrow> M e = Some AREA_SOLID \<and> \<not> exempt (edicts w) (tr_skip q) e \<and>
     hits \<lparr>area_mins = fst (Sv_TraceBounds q), area_maxs = snd (Sv_TraceBounds q), max_area_edicts = MAX_EDICTS, q_type = AREA_SOLID\<rparr> (edicts w e)"

text \<open>\<open>ps\<close> are the entities in the way with their traces, \<open>best\<close> is the trace through the map.\<close>

definition stops_right :: "c_trace \<times> nat option \<Rightarrow> (nat \<times> c_trace) list \<Rightarrow> c_trace \<times> nat option \<Rightarrow> bool" where
  "stops_right best ps r \<longleftrightarrow>
     (r = best \<or> (\<exists>(e, t) \<in> set ps. r = (t, Some e))) \<and>
     ((\<exists>(e, t) \<in> set ps. all_solid t) \<longrightarrow> all_solid (fst r)) \<and>
     ((\<forall>(e, t) \<in> set ps. \<not> start_solid t) \<longrightarrow>
        fraction (fst r) \<le> fraction (fst best) \<and> (\<forall>(e, t) \<in> set ps. fraction (fst r) \<le> fraction t))"

lemma pick_stops_right:
  assumes "\<forall>(e, t) \<in> set ps. sane (core_of t)"
  shows "stops_right best ps (pick ps best)"
proof -
  have "\<forall>(e, t) \<in> set ps. \<not> start_solid t \<Longrightarrow> \<forall>(e, t) \<in> set ps. \<not> start_solid t \<and> \<not> all_solid t"
    using assms by (fastforce simp: core_of_def)
  then show ?thesis
    using pick_from [of ps best] pick_solid [of _ _ ps best] pick_nearest [of ps best] unfolding stops_right_def by blast
qed

lemma all_in_the_way:
  assumes "world_abs w M" and "\<forall>e. M e \<noteq> None \<longrightarrow> 0 < e \<and> e < MAX_EDICTS"
  shows "\<exists>es. Sv_AreaEdicts w (fst (Sv_TraceBounds q)) (snd (Sv_TraceBounds q)) MAX_EDICTS AREA_SOLID = Some (Inr es) \<and> distinct es \<and>
    (\<forall>e \<in> set es. M e = Some AREA_SOLID \<and> ed_solid (edicts w e) \<noteq> SOLID_NOT) \<and>
    set (filter (\<lambda>e. \<not> exempt (edicts w) (tr_skip q) e) es) = Collect (in_the_way w M q)"
proof -
  obtain es where es: "Sv_AreaEdicts w (fst (Sv_TraceBounds q)) (snd (Sv_TraceBounds q)) MAX_EDICTS AREA_SOLID = Some (Inr es)" "distinct es"
      "\<forall>e \<in> set es. M e = Some AREA_SOLID \<and> hits \<lparr>area_mins = fst (Sv_TraceBounds q), area_maxs = snd (Sv_TraceBounds q),
         max_area_edicts = MAX_EDICTS, q_type = AREA_SOLID\<rparr> (edicts w e)"
      "length es < MAX_EDICTS \<longrightarrow> (\<forall>e. M e = Some AREA_SOLID \<and> hits \<lparr>area_mins = fst (Sv_TraceBounds q), area_maxs = snd (Sv_TraceBounds q),
         max_area_edicts = MAX_EDICTS, q_type = AREA_SOLID\<rparr> (edicts w e) \<longrightarrow> e \<in> set es)"
    using area_search [OF assms(1), of "fst (Sv_TraceBounds q)" "snd (Sv_TraceBounds q)" MAX_EDICTS AREA_SOLID] by blast
  have "set es \<subseteq> {1 ..< MAX_EDICTS}" using es(3) assms(2) by force
  then have "card (set es) \<le> MAX_EDICTS - 1" using card_mono [of "{1 ..< MAX_EDICTS}" "set es"] by simp
  then have "length es < MAX_EDICTS" using distinct_card [OF es(2)] by (simp add: MAX_EDICTS_def)
  then have "e \<in> set es \<longleftrightarrow> M e = Some AREA_SOLID \<and> hits \<lparr>area_mins = fst (Sv_TraceBounds q), area_maxs = snd (Sv_TraceBounds q),
         max_area_edicts = MAX_EDICTS, q_type = AREA_SOLID\<rparr> (edicts w e)" for e
    using es(3,4) by blast
  then have "set (filter (\<lambda>e. \<not> exempt (edicts w) (tr_skip q) e) es) = Collect (in_the_way w M q)"
    unfolding in_the_way_def set_filter by blast
  moreover have "\<forall>e \<in> set es. M e = Some AREA_SOLID \<and> ed_solid (edicts w e) \<noteq> SOLID_NOT" using es(3) by (simp add: hits_def)
  ultimately show ?thesis using es(1,2) by blast
qed

lemma clipped_world:
  assumes "world_abs w M" and "\<forall>e. M e \<noteq> None \<longrightarrow> 0 < e \<and> e < MAX_EDICTS" and "world_traceable models cm_box n m bsp"
    and "\<forall>e. M e = Some AREA_SOLID \<longrightarrow> has_model models (edicts w e)" and "hit_wanted (tr_contents q) (fst best)"
  shows "\<exists>ps r bsp'. Sv_ClipTraceToEntities sn cs models cm_box w q best bsp = Some (Inr (r, bsp')) \<and>
    hit_wanted (tr_contents q) (fst r) \<and> world_traceable models cm_box n m bsp' \<and>
    distinct (map fst ps) \<and> set (map fst ps) = Collect (in_the_way w M q) \<and>
    entity_traces sn cs models cm_box (edicts w) q (map fst ps) bsp = Some (Inr (map snd ps)) \<and> stops_right best ps r"
proof -
  obtain es where es: "Sv_AreaEdicts w (fst (Sv_TraceBounds q)) (snd (Sv_TraceBounds q)) MAX_EDICTS AREA_SOLID = Some (Inr es)" "distinct es"
      "\<forall>e \<in> set es. M e = Some AREA_SOLID \<and> ed_solid (edicts w e) \<noteq> SOLID_NOT"
      "set (filter (\<lambda>e. \<not> exempt (edicts w) (tr_skip q) e) es) = Collect (in_the_way w M q)"
    using all_in_the_way [OF assms(1,2)] by blast
  define es' where "es' = filter (\<lambda>e. \<not> exempt (edicts w) (tr_skip q) e) es"
  have "\<forall>e \<in> set es. ed_solid (edicts w e) \<noteq> SOLID_NOT \<and> has_model models (edicts w e)" using es(3) assms(4) by blast
  then obtain ts bsp' where ts: "entity_traces sn cs models cm_box (edicts w) q es' bsp = Some (Inr ts)" "length ts = length es'"
      "\<forall>t \<in> set ts. sane (core_of t) \<and> hit_wanted (tr_contents q) t"
      "clip_to_entities sn cs models cm_box (edicts w) q es best bsp = Some (Inr (pick (zip es' ts) best, bsp'))"
      "world_traceable models cm_box n m bsp'"
    using clip_loop [OF assms(3), of es "edicts w" sn cs q best] unfolding es'_def by blast
  have r: "stops_right best (zip es' ts) (pick (zip es' ts) best)"
    using ts(3) by (intro pick_stops_right) (auto dest: set_zip_rightD)
  then have "hit_wanted (tr_contents q) (fst (pick (zip es' ts) best))"
    using assms(5) ts(3) unfolding stops_right_def by (auto dest: set_zip_rightD)
  moreover have "Sv_ClipTraceToEntities sn cs models cm_box w q best bsp = Some (Inr (pick (zip es' ts) best, bsp'))"
    using es(1) ts(4) by (cases "Sv_TraceBounds q") (simp add: Sv_ClipTraceToEntities_def)
  moreover have "map fst (zip es' ts) = es'" "map snd (zip es' ts) = ts" using ts(2) by simp_all
  ultimately show ?thesis using r ts(1,5) es(2,4) unfolding es'_def by (metis distinct_filter)
qed

text \<open>
  C23: A trace in the world of the server ends. If the map blocks it from the start, it is the trace through the map; otherwise
  it is the trace through the map or the one against an entity that is linked as solid, in the way and not exempt (the
  entity that moves, its owner, what it owns and what has the same owner). It reports that the box is stuck in one of them, and if
  the box starts in none of them then nothing in the way is nearer: the box passes through no entity.
\<close>

theorem trace_stops_at_nearest:
  assumes "world_abs w M" and "\<forall>e. M e \<noteq> None \<longrightarrow> 0 < e \<and> e < MAX_EDICTS" and "world_traceable models cm_box n m bsp"
    and "\<forall>e. M e = Some AREA_SOLID \<longrightarrow> has_model models (edicts w e)"
  shows "\<exists>tr ps r bsp'. Cm_BoxTrace bsp start dest (or_origin mins) (or_origin maxs) 0 wanted = Some (Inr tr) \<and>
    Sv_Trace sn cs models cm_box w start dest mins maxs skip wanted bsp = Some (Inr (r, bsp')) \<and>
    hit_wanted wanted (fst r) \<and> world_traceable models cm_box n m bsp' \<and>
    (if fraction tr < 1 \<and> start_solid tr then r = (tr, Some 0)
     else let q = move_of start dest mins maxs skip wanted in
       distinct (map fst ps) \<and> set (map fst ps) = Collect (in_the_way w M q) \<and>
       entity_traces sn cs models cm_box (edicts w) q (map fst ps) bsp = Some (Inr (map snd ps)) \<and>
       stops_right (tr, if fraction tr < 1 then Some 0 else None) ps r)"
proof -
  let ?q = "move_of start dest mins maxs skip wanted"
  have q: "tr_contents ?q = wanted" "tr_mins ?q = or_origin mins" "tr_maxs ?q = or_origin maxs" by (simp_all add: move_of_def)
  obtain tr where tr: "Cm_BoxTrace bsp start dest (or_origin mins) (or_origin maxs) 0 wanted = Some (Inr tr)" "hit_wanted wanted tr"
    using trace_ends [OF world_traceable_head(2) [OF assms(3)]] by blast
  let ?best = "(tr, if fraction tr < 1 then Some 0 else None)"
  obtain ps r bsp' where c: "Sv_ClipTraceToEntities sn cs models cm_box w ?q ?best bsp = Some (Inr (r, bsp'))"
      "hit_wanted wanted (fst r)" "world_traceable models cm_box n m bsp'" "distinct (map fst ps)"
      "set (map fst ps) = Collect (in_the_way w M ?q)"
      "entity_traces sn cs models cm_box (edicts w) ?q (map fst ps) bsp = Some (Inr (map snd ps))" "stops_right ?best ps r"
    using clipped_world [OF assms, of ?q ?best sn cs] tr(2) q(1) by auto
  show ?thesis
  proof (cases "fraction tr < 1 \<and> start_solid tr")
    case True
    then have "Sv_Trace sn cs models cm_box w start dest mins maxs skip wanted bsp = Some (Inr ((tr, Some 0), bsp))"
      using tr(1) by (simp add: Sv_Trace_def q Let_def)
    then show ?thesis
      using tr True assms(3) by (intro exI [of _ tr] exI [of _ ps] exI [of _ "(tr, Some 0)"] exI [of _ bsp]) simp
  next
    case False
    then have "Sv_Trace sn cs models cm_box w start dest mins maxs skip wanted bsp = Some (Inr (r, bsp'))"
      using tr(1) c(1) by (auto simp: Sv_Trace_def q Let_def)
    then show ?thesis
      unfolding Let_def using tr(1) c(2-) False
      by (intro exI [of _ tr] exI [of _ ps] exI [of _ r] exI [of _ bsp']) (simp only: if_False)
  qed
qed

lemma wall_map: "wf_map wall_bsp"
  using wall_wf by (simp add: wf_map_def) (simp add: wall_bsp_def sample_bsp_def)

lemma init_hull_keeps:
  assumes "Cm_InitBoxHull bsp = Inr (cm_box, bsp')"
  shows "num_nodes bsp' = num_nodes bsp" "x < num_nodes bsp \<Longrightarrow> nodes bsp' x = nodes bsp x"
    "x < num_planes bsp \<Longrightarrow> planes bsp' x = planes bsp x" "l \<noteq> num_leafs bsp \<Longrightarrow> leafs bsp' l = leafs bsp l"
proof -
  obtain b where "bsp' = fold hull_node [0, 1, 2, 3, 4, 5] b" "num_nodes b = num_nodes bsp" "num_planes b = num_planes bsp"
      "nodes b = nodes bsp" "planes b = planes bsp" "l \<noteq> num_leafs bsp \<longrightarrow> leafs b l = leafs bsp l"
    using assms unfolding Cm_InitBoxHull_def Let_def by (simp only: split: if_splits) auto
  then show "num_nodes bsp' = num_nodes bsp" "x < num_nodes bsp \<Longrightarrow> nodes bsp' x = nodes bsp x"
    "x < num_planes bsp \<Longrightarrow> planes bsp' x = planes bsp x" "l \<noteq> num_leafs bsp \<Longrightarrow> leafs bsp' l = leafs bsp l"
    using hull_behind_6 [of b] by (simp_all add: hull_behind_def hull_built_def)
qed

lemma wall_air:
  assumes "Cm_InitBoxHull wall_bsp = Inr (cm_box, bsp)"
  shows "\<exists>tr. Cm_BoxTrace bsp (Vec3 30 0 0) (Vec3 20 0 0) (Vec3 (-4) (-4) (-4)) (Vec3 4 4 4) 0 1 = Some (Inr tr) \<and> core_of tr = no_effect"
proof -
  have n: "num_nodes bsp = 1" "nodes bsp 0 = \<lparr>node_plane = 0, child0 = -2, child1 = -1\<rparr>"
      "planes bsp 0 = \<lparr>normal = Vec3 1 0 0, plane_dist = 10, plane_type = 0, sign_bits = 0\<rparr>" "leaf_contents (leafs bsp 1) = 0"
    using init_hull_keeps(1) [OF assms] init_hull_keeps(2,3) [OF assms, of 0] init_hull_keeps(4) [OF assms, of 1] by (simp_all add: wall_bsp_def sample_bsp_def)
  have f: "flt 20 = 20" "flt 10 = 10" by code_simp+
  define q where "q = sweep_data (Vec3 30 0 0) (Vec3 20 0 0) (Vec3 (-4) (-4) (-4)) (Vec3 4 4 4) 1"
  have q: "trace q = default_trace" "td_extents q = Vec3 4 4 4"
    by (simp_all add: q_def sweep_data_def trace_data_def box_extent_def)
  have leaf: "Cm_RecursiveHullCheck bsp (-2) p1f p2f p1 p2 q = Some (Inr q)" for p1f p2f p1 p2
    using n(4) by (subst Cm_RecursiveHullCheck.simps) (simp add: Cm_TraceToLeaf_def in_leaf_def in_array_def limits)
  have "Cm_RecursiveHullCheck bsp 0 0 1 (Vec3 30 0 0) (Vec3 20 0 0) q = Some (Inr q)"
    using n leaf q f by (subst Cm_RecursiveHullCheck.simps)
      (simp add: node_dists_def AXIAL_def PLANE_ANYX_def component_def in_array_def MAX_BSP_NODES_def default_trace_def)
  then show ?thesis using n(1) q by (simp add: Cm_BoxTrace_def q_def [symmetric] core_of_def default_trace_def no_effect_def)
qed

text \<open>An entity that moves up to the wall within its own bounds does not see itself.\<close>

theorem trace_stops_at_nearest_witness:
  "\<exists>w cm_box bsp r bsp'. Sv_InitWorld (Vec3 (-4096) (-4096) 0) (Vec3 4096 4096 512) (\<lambda>_. sample_edict) no_links = Inr w \<and>
     Cm_InitBoxHull wall_bsp = Inr (cm_box, bsp) \<and>
     (\<exists>w'. Sv_LinkEdict sample_bsp 7 w = Some (Inr w') \<and>
       Sv_Trace (\<lambda>_. 0) (\<lambda>_. 1) [0 \<mapsto> 0] cm_box w' (Vec3 30 0 0) (Vec3 20 0 0) (Some (Vec3 (-4) (-4) (-4))) (Some (Vec3 4 4 4)) (Some 7) 1 bsp
         = Some (Inr (r, bsp')) \<and> core_of (fst r) = no_effect \<and> snd r = None)"
proof -
  obtain w where w: "Sv_InitWorld (Vec3 (-4096) (-4096) 0) (Vec3 4096 4096 512) (\<lambda>_. sample_edict) no_links = Inr w"
      "world_abs w Map.empty" "edicts w = (\<lambda>_. sample_edict)"
    using init_world [of no_links "Vec3 (-4096) (-4096) 0" "Vec3 4096 4096 512" "\<lambda>_. sample_edict"]
    by (auto simp: no_links_def)
  have "length (ed_clusters (edicts w 7)) = MAX_ENT_CLUSTERS" "link_kind (edicts w 7) = Some AREA_SOLID"
      "in_use (edicts w 7)" "ed_solid (edicts w 7) = SOLID_BOX" "tree_ref sample_bsp (model_head_node sample_bsp)"
    by (simp_all add: w(3) sample_edict_def MAX_ENT_CLUSTERS_def link_kind_def tree_ref_def sample_bsp_def)
  then obtain w' where w': "Sv_LinkEdict sample_bsp 7 w = Some (Inr w')" "world_abs w' [7 \<mapsto> AREA_SOLID]"
      "ed_solid (edicts w' 7) = SOLID_BOX"
    using link_edict [OF w(2) sample_tree, of 7] by (auto simp: links_to_def)
  obtain cm_box bsp where init: "Cm_InitBoxHull wall_bsp = Inr (cm_box, bsp)"
    by (simp add: Cm_InitBoxHull_def wall_bsp_def sample_bsp_def in_array_def MAX_BSP_NODES_def MAX_BSP_BRUSHES_def
      MAX_BSP_LEAF_BRUSHES_def MAX_BSP_BRUSH_SIDES_def MAX_BSP_PLANES_def limits Let_def)
  have t: "world_traceable [0 \<mapsto> 0] cm_box 7 3 bsp"
    using loaded_map_traceable [OF wall_map init, of "[0 \<mapsto> 0]"] wall_wf(3) by (auto simp: wall_bsp_def sample_bsp_def)
  define q where "q = move_of (Vec3 30 0 0) (Vec3 20 0 0) (Some (Vec3 (-4) (-4) (-4))) (Some (Vec3 4 4 4)) (Some 7) 1"
  have way: "Collect (in_the_way w' [7 \<mapsto> AREA_SOLID] q) = {}"
    by (auto simp: in_the_way_def exempt_def q_def move_of_def split: if_splits)
  have hyp: "\<forall>e. [7 \<mapsto> AREA_SOLID] e \<noteq> None \<longrightarrow> 0 < e \<and> e < MAX_EDICTS"
      "\<forall>e. [7 \<mapsto> AREA_SOLID] e = Some AREA_SOLID \<longrightarrow> has_model [0 \<mapsto> 0] (edicts w' e)"
    using w'(3) by (auto simp: MAX_EDICTS_def has_model_def split: if_splits)
  obtain tr where tr: "Cm_BoxTrace bsp (Vec3 30 0 0) (Vec3 20 0 0) (Vec3 (-4) (-4) (-4)) (Vec3 4 4 4) 0 1 = Some (Inr tr)"
      "core_of tr = no_effect"
    using wall_air [OF init] by blast
  obtain tr' ps r bsp' where r: "Cm_BoxTrace bsp (Vec3 30 0 0) (Vec3 20 0 0) (Vec3 (-4) (-4) (-4)) (Vec3 4 4 4) 0 1 = Some (Inr tr')"
      "Sv_Trace (\<lambda>_. 0) (\<lambda>_. 1) [0 \<mapsto> 0] cm_box w' (Vec3 30 0 0) (Vec3 20 0 0) (Some (Vec3 (-4) (-4) (-4))) (Some (Vec3 4 4 4)) (Some 7) 1 bsp
         = Some (Inr (r, bsp'))"
      "if fraction tr' < 1 \<and> start_solid tr' then r = (tr', Some 0)
       else distinct (map fst ps) \<and> set (map fst ps) = Collect (in_the_way w' [7 \<mapsto> AREA_SOLID] q) \<and>
         entity_traces (\<lambda>_. 0) (\<lambda>_. 1) [0 \<mapsto> 0] cm_box (edicts w') q (map fst ps) bsp = Some (Inr (map snd ps)) \<and>
         stops_right (tr', if fraction tr' < 1 then Some 0 else None) ps r"
    using trace_stops_at_nearest [OF w'(2) hyp(1) t hyp(2), where start = "Vec3 30 0 0" and dest = "Vec3 20 0 0"
        and mins = "Some (Vec3 (-4) (-4) (-4))" and maxs = "Some (Vec3 4 4 4)" and wanted = 1 and skip = "Some 7"
        and sn = "\<lambda>_. 0" and cs = "\<lambda>_. 1"]
    unfolding Let_def q_def [symmetric] or_origin_def option.case by blast
  have "tr' = tr" using r(1) tr(1) by simp
  then have "r = (tr, None)" using r(3) tr(2) way by (auto simp: core_of_def no_effect_def stops_right_def)
  then have "core_of (fst r) = no_effect" "snd r = None" using tr(2) by simp_all
  then show ?thesis using w(1) init w'(1) r(2) by blast
qed

end
