(* ===== verification/Cl_Trace.thy ===== *)
theory Cl_Trace
  imports Sv_Trace_Laws Cl_Parse
begin

text \<open>
  Contents and traces in the world as the client knows it, of \<open>src/client/cl_predict.c\<close>: the map and the entities of the
  last frame. \<open>clip\<close> gives the head node of \<open>cl.model_clip[i]\<close>, if there is one. The entity of a trace is its number, \<open>-1\<close>
  for the world and 0 for none.
\<close>

text \<open>The entities of the frame, out of the ring of states\<close>

definition shown_states :: "cl_client \<Rightarrow> entity_state list" where
  "shown_states cw = map (\<lambda>i. ring_state cw (cf_entity_state (frame cw) + word_of_nat i)) [0 ..< cf_num_entities (frame cw)]"

section \<open>Contents of a point\<close>

fun frame_contents ::
  "(rat \<Rightarrow> rat) \<Rightarrow> (rat \<Rightarrow> rat) \<Rightarrow> (nat \<Rightarrow> int option) \<Rightarrow> box_hull \<Rightarrow> c_bsp \<Rightarrow> vec3_t \<Rightarrow> entity_state list \<Rightarrow> int \<Rightarrow> int run" where
  "frame_contents sn cs clip cm_box bsp p [] c = Some (Inr c)"
| "frame_contents sn cs clip cm_box bsp p (ent # ents) c =
     (if solid ent = solid_value SOLID_BSP then
        (case clip (unat (model1 ent)) of
           None \<Rightarrow> frame_contents sn cs clip cm_box bsp p ents c
         | Some head_node \<Rightarrow>
             bindO (Cm_TransformedPointContents sn cs bsp cm_box p head_node (origin ent) (angles ent)) (\<lambda>d.
               frame_contents sn cs clip cm_box bsp p ents (c OR d)))
      else frame_contents sn cs clip cm_box bsp p ents c)"

definition Cl_PointContents ::
  "(rat \<Rightarrow> rat) \<Rightarrow> (rat \<Rightarrow> rat) \<Rightarrow> (nat \<Rightarrow> int option) \<Rightarrow> box_hull \<Rightarrow> cl_static \<Rightarrow> c_bsp \<Rightarrow> vec3_t \<Rightarrow> int run" where
  "Cl_PointContents sn cs clip cm_box cl bsp p =
     bindO (Cm_PointContents bsp p 0) (\<lambda>c. frame_contents sn cs clip cm_box bsp p (shown_states (cl_world cl)) c)"

section \<open>Traces\<close>

record cl_trace =
  ct_start :: vec3_t
  ct_end :: vec3_t
  ct_mins :: vec3_t
  ct_maxs :: vec3_t
  ct_skip :: uint16
  ct_contents :: int

text \<open>The hull to clip to, its angles and the planes it needs; \<open>None\<close> for a model that is not loaded or has no head node\<close>

definition hull_of_state :: "(nat \<Rightarrow> int option) \<Rightarrow> box_hull \<Rightarrow> entity_state \<Rightarrow> c_bsp \<Rightarrow> (int \<times> vec3_t \<times> c_bsp) option" where
  "hull_of_state clip cm_box ent bsp =
     (if solid ent = solid_value SOLID_BSP then
        (case clip (unat (model1 ent)) of
           None \<Rightarrow> None
         | Some head_node \<Rightarrow> if head_node = 0 then None else Some (head_node, angles ent, bsp))
      else
        let (mins, maxs) = UnpackBounds (solid ent); (head_node, bsp) = Cm_HeadnodeForBox cm_box mins maxs bsp
        in Some (head_node, Vec3 0 0 0, bsp))"

definition not_seen :: "uint16 \<Rightarrow> uint16 \<Rightarrow> entity_state \<Rightarrow> bool" where
  "not_seen skip own ent \<longleftrightarrow> number ent = skip \<or> uint (number ent) = uint own + 1 \<or> solid ent = solid_value SOLID_NOT"

fun clip_to_frame ::
  "(rat \<Rightarrow> rat) \<Rightarrow> (rat \<Rightarrow> rat) \<Rightarrow> (nat \<Rightarrow> int option) \<Rightarrow> box_hull \<Rightarrow> uint16 \<Rightarrow> cl_trace \<Rightarrow> entity_state list \<Rightarrow> c_trace \<times> int \<Rightarrow> c_bsp \<Rightarrow>
     ((c_trace \<times> int) \<times> c_bsp) run" where
  "clip_to_frame sn cs clip cm_box own q [] best bsp = Some (Inr (best, bsp))"
| "clip_to_frame sn cs clip cm_box own q (ent # ents) best bsp =
     (if not_seen (ct_skip q) own ent then clip_to_frame sn cs clip cm_box own q ents best bsp
      else case hull_of_state clip cm_box ent bsp of
        None \<Rightarrow> clip_to_frame sn cs clip cm_box own q ents best bsp
      | Some (head_node, a, bsp) \<Rightarrow>
          bindO (Cm_TransformedBoxTrace sn cs bsp cm_box (ct_start q) (ct_end q) (ct_mins q) (ct_maxs q) head_node (ct_contents q)
            (origin ent) a) (\<lambda>tr.
            clip_to_frame sn cs clip cm_box own q ents
              (if all_solid tr \<or> start_solid tr \<or> fraction tr < fraction (fst best) then (tr, uint (number ent)) else best) bsp))"

definition Cl_ClipTraceToEntities ::
  "(rat \<Rightarrow> rat) \<Rightarrow> (rat \<Rightarrow> rat) \<Rightarrow> (nat \<Rightarrow> int option) \<Rightarrow> box_hull \<Rightarrow> cl_static \<Rightarrow> cl_trace \<Rightarrow> c_trace \<times> int \<Rightarrow> c_bsp \<Rightarrow>
     ((c_trace \<times> int) \<times> c_bsp) run" where
  "Cl_ClipTraceToEntities sn cs clip cm_box cl q best bsp =
     clip_to_frame sn cs clip cm_box (entity_num cl) q (shown_states (cl_world cl)) best bsp"

definition Cl_Trace ::
  "(rat \<Rightarrow> rat) \<Rightarrow> (rat \<Rightarrow> rat) \<Rightarrow> (nat \<Rightarrow> int option) \<Rightarrow> box_hull \<Rightarrow> cl_static \<Rightarrow> vec3_t \<Rightarrow> vec3_t \<Rightarrow> vec3_t option \<Rightarrow> vec3_t option \<Rightarrow>
     uint16 \<Rightarrow> int \<Rightarrow> c_bsp \<Rightarrow> ((c_trace \<times> int) \<times> c_bsp) run" where
  "Cl_Trace sn cs clip cm_box cl start end mins maxs skip wanted bsp =
     (let q = \<lparr>ct_start = start, ct_end = end, ct_mins = or_origin mins, ct_maxs = or_origin maxs, ct_skip = skip, ct_contents = wanted\<rparr>
      in bindO (Cm_BoxTrace bsp start end (ct_mins q) (ct_maxs q) 0 wanted) (\<lambda>tr.
        let ent = (if fraction tr < 1 then -1 else 0)
        in if fraction tr < 1 \<and> start_solid tr then Some (Inr ((tr, ent), bsp))
           else Cl_ClipTraceToEntities sn cs clip cm_box cl q (tr, ent) bsp))"

section \<open>What a trace of the client reports\<close>

lemma hull_of_state_traceable:
  assumes "world_traceable clip cm_box n m bsp" and "hull_of_state clip cm_box ent bsp = Some (h, a, bsp')"
  shows "traceable bsp' n m h" "world_traceable clip cm_box n m bsp'"
proof -
  have "traceable bsp' n m h \<and> world_traceable clip cm_box n m bsp'"
  proof (cases "solid ent = solid_value SOLID_BSP")
    case True
    then show ?thesis
      using assms world_traceable_head(1) [OF assms(1), of h]
      by (auto simp: hull_of_state_def world_traceable_def split: option.splits if_splits)
  next
    case False
    then obtain mins maxs where h: "Cm_HeadnodeForBox cm_box mins maxs bsp = (h, bsp')"
      using assms(2) by (auto simp: hull_of_state_def Let_def split: prod.splits)
    note t = box_hull_traceable [OF assms(1) h]
    then show ?thesis using world_traceable_head(1) by (auto simp: world_traceable_def)
  qed
  then show "traceable bsp' n m h" "world_traceable clip cm_box n m bsp'" by simp_all
qed

text \<open>
  The trace of the client ends, and what it reports is the best so far or an entity of the frame that it may see. Unlike
  the server's it goes on behind an entity that the box is stuck in.
\<close>

lemma clip_to_frame_ends:
  assumes "world_traceable clip cm_box n m bsp" and "hit_wanted (ct_contents q) (fst best)"
  shows "\<exists>r bsp'. clip_to_frame sn cs clip cm_box own q ents best bsp = Some (Inr (r, bsp')) \<and> world_traceable clip cm_box n m bsp' \<and>
    hit_wanted (ct_contents q) (fst r) \<and>
    (r = best \<or> (\<exists>ent \<in> set ents. snd r = uint (number ent) \<and> \<not> not_seen (ct_skip q) own ent))"
  using assms
proof (induction ents arbitrary: best bsp)
  case (Cons ent ents)
  show ?case
  proof (cases "not_seen (ct_skip q) own ent \<or> hull_of_state clip cm_box ent bsp = None")
    case True
    then show ?thesis using Cons.IH [OF Cons.prems] by auto
  next
    case False
    then obtain h a bsp1 where h: "hull_of_state clip cm_box ent bsp = Some (h, a, bsp1)" by auto
    note t = hull_of_state_traceable [OF Cons.prems(1) h]
    obtain tr where tr: "Cm_TransformedBoxTrace sn cs bsp1 cm_box (ct_start q) (ct_end q) (ct_mins q) (ct_maxs q) h (ct_contents q)
        (origin ent) a = Some (Inr tr)" "hit_wanted (ct_contents q) tr"
      using transformed_ends [OF t(1)] by blast
    define best' where "best' = (if all_solid tr \<or> start_solid tr \<or> fraction tr < fraction (fst best) then (tr, uint (number ent)) else best)"
    have "hit_wanted (ct_contents q) (fst best')" using tr(2) Cons.prems(2) by (simp add: best'_def)
    from Cons.IH [OF t(2) this] show ?thesis using False h tr(1) by (auto simp: best'_def split: if_splits)
  qed
qed simp

end
