(* ===== verification/Spec2Isabelle.thy ===== *)
theory Spec2Isabelle
  imports Message_Laws Reliable_Delivery Net_Udp Cm_Areas Cm_Vis Sv_World_Laws Sv_BuildFrame_Laws Sv_Send_Stays
    Cmd_Buffer Sv_Main Cl_Main Ms_Laws Cl_Moves Handshake Cvar_Config Mem_Laws Cl_Trace
begin

text \<open>
  Quake2World: how the server shows its world to the clients, and what this rests on.

  \<^bold>\<open>The program.\<close> The server keeps the entities of a level (\<open>src/server/sv_world.c\<close>), linked into
  the areas and leafs of the collision model (\<open>src/cmodel.c\<close>). Each frame it selects for each client
  what the client may see, notes it in a ring of entity states and writes the difference to the
  last frame the client has acknowledged (\<open>src/server/sv_entity.c\<close>). The frame and the messages that
  are waiting for the client (\<open>src/server/sv_send.c\<close>) go over a channel with one reliable message at
  a time (\<open>src/net_chan.c\<close>) and a datagram socket (\<open>src/net_udp.c\<close>), in the encoding of
  \<open>src/net_message.c\<close> on the buffers of \<open>src/mem_buf.c\<close>. The client rebuilds the frame
  (\<open>src/client/cl_entity.c\<close>). Text commands and user-info strings are taken apart by
  \<open>src/cmd.c\<close> and \<open>src/shared.c\<close>.

  \<^bold>\<open>Conventions.\<close> \<open>Q2W_Prelude\<close> has the result type \<open>error + 'a\<close> with its bind \<open>bindE\<close>. The errors
  are \<open>Com_Error\<close>, which leaves the current frame of the program, and \<open>Bad_Access\<close>, which stands for
  a read or write outside an array, through a null pointer or behind the terminator of a string, so
  that a theorem with \<open>Inr\<close> in its conclusion says that there is none. Machine integers are
  words where the code relies on their width, and \<open>int\<close> where a range was checked before.
  Pointers into arrays are indices; the intrusive lists of \<open>sv_world.c\<close> are a heap
  of links. Loops that end by their structure are \<open>fun\<close> or \<open>function\<close> with a measure. The descents
  in the trees of the collision model and the walks on intrusive lists need not end for
  every value of the data, so they are \<open>partial_function (option)\<close>, without fuel, and that they end on
  the data the program has is proved.
  Code outside the repository (the operating system, GLib) is a parameter of the definitions that call it. So is
  the game module, a library that the server loads and reaches only through the table of functions it exports
  (\<open>game_export\<close>): the one of the repository, \<open>src/game/default\<close>, is not modelled, and the program may load another.
  A function of that table which the server calls for a client takes the server's state and gives the new one; what a
  game can do there through the functions it imports (prints, multicasts, config strings, the
  links of its entities) is the step relation \<open>game_step\<close> of \<open>Sv_Game\<close>, and properties that depend on the game
  ask for no more than that it takes such steps.

  \<^bold>\<open>Buffers and messages.\<close>
  \<open>Mem_Buffer\<close>: \<open>mem_buf.c\<close>. \<open>Mem\<close>, \<open>Mem_Laws\<close>: the managed memory of \<open>mem.c\<close>, as a heap of blocks, and that it
  refines a forest.
  \<open>Float_Model\<close>, \<open>Float_Order\<close>: the conversions between floats and the integers of the
  protocol, and the order of floats, over the reals.
  \<open>Net_Message\<close>: the writers and readers of \<open>net_message.c\<close>.
  \<open>Wire_Codec\<close>, \<open>Delta_Codec\<close>: interfaces of a value and of a delta-encoded record that
  is read back as written, interpreted on the codecs of the model.
  \<open>Message_Laws\<close>: the round trips of entities, user commands, players, positions and strings.

  \<^bold>\<open>Channel and sockets.\<close>
  \<open>Net_Channel\<close>: \<open>net_chan.c\<close>, one definition per function. \<open>Net_Channel_Laws\<close>: the
  well-formed channels and what a transmitted packet has in it. \<open>Reliable_Delivery\<close>:
  two channels and a network that loses, repeats and reorders, as an inductive step relation;
  the invariant of the reachable states gives delivery in order and exactly once.
  \<open>Net_Udp\<close>: \<open>net_udp.c\<close>, whose loopback is a queue of bounded size that loses the oldest datagrams, until
  its 32-bit counters wrap around: from then on it loses all (\<open>lost_at_overflow\<close>).
  \<open>Net_Addr\<close>: addresses and their text, \<open>net.c\<close>.

  \<^bold>\<open>Frames.\<close>
  \<open>Sv_Entity\<close>: the writing of frames in \<open>sv_entity.c\<close>. \<open>Cl_Entity\<close>: their parsing in
  \<open>cl_entity.c\<close> and \<open>cl_parse.c\<close>. \<open>Player_Codec\<close>, \<open>Frame_Delta\<close>, \<open>Frame_Transfer\<close>: the client
  has after a frame what the server had, given that it is in step, and then is in step
  for the next frames.
  \<open>Sv_BuildFrame\<close>, \<open>Sv_BuildFrame_Laws\<close>: the selection of \<open>sv_entity.c\<close>, and that it takes
  exactly the relevant entities.

  \<^bold>\<open>Collision model and world.\<close>
  \<open>Cm_Areas\<close>: the flooding of areas through open portals and the queries on it.
  \<open>Cm_Vis\<close>: the compression of visibility rows by the map compiler and their decompression.
  \<open>Cm_Bsp\<close>: the tree and its queries, and the box hull. \<open>Cm_Trace\<close>: boxes that move through the tree,
  with the floats of the code. \<open>Cm_Trace_Laws\<close>: a brush has one effect on a trace, however often it is tested, so that
  a trace finds what one without the mailbox and the early returns would.
  \<open>Sv_Links\<close>: the intrusive lists, refined to sets. \<open>Sv_World\<close>: the area nodes and
  the linking of entities, \<open>Sv_World_Laws\<close>: that this refines a set of linked entities, and
  that the search finds what a linear search would. \<open>Sv_Trace\<close>, \<open>Sv_Trace_Laws\<close>: contents and traces in this
  world, and that nothing in the way is passed. \<open>Cl_Trace\<close>: the same for the client, of \<open>cl_predict.c\<close>.

  \<^bold>\<open>Server messages.\<close>
  \<open>Sv_Send\<close>: \<open>sv_send.c\<close> with what it calls of \<open>sv_main.c\<close> and \<open>sv_init.c\<close>, and the functions of
  \<open>sv_game.c\<close> that send for the game.
  \<open>Msg_Writers\<close>: what the writers keep of a buffer. \<open>Sv_Send_Laws\<close>: what reaches which client;
  the first of its properties composes frame building, writing, channel and parsing, for full and for delta frames
  and with a reliable message under way. \<open>Sv_Game\<close>: what the game's steps keep, and what a connection hears of them.
  \<open>Sv_Send_Stays\<close>: the invariant of the clients under all these operations.

  \<^bold>\<open>Text.\<close>
  \<open>Info_String\<close>: the user-info strings of \<open>shared.c\<close> as maps.
  \<open>Cmd_Tokens\<close>: \<open>ParseToken\<close> and the arguments of \<open>cmd.c\<close>. \<open>Glob_Match\<close>: the
  patterns of \<open>shared.c\<close> against their meaning. \<open>C_Numbers\<close>: the conversions
  between numbers and strings of the C library that the code uses.
  \<open>Cmd_Buffer\<close>: the command buffer and the commands of \<open>cmd.c\<close>, against the meaning
  of scripts with aliases. \<open>Cvar\<close>: the console variables, \<open>cvar.c\<close>, with numbers as IEEE floats over
  the rationals; \<open>Cvar_Laws\<close>: what every operation keeps of the table; \<open>Cvar_Config\<close>: the
  configuration that is written sets the variables again whose strings are not empty.

  \<^bold>\<open>The host.\<close> The record \<open>host\<close> has what the server keeps beside its clients.
  \<open>Sv_Connect\<close>: kicks, user info, challenges and connections of \<open>sv_main.c\<close>.
  \<open>Sv_Commands\<close>: the messages of clients, \<open>sv_client.c\<close>. \<open>Sv_Main\<close>: the other
  requests, the checks on the clients and the frame of the server, the rest of \<open>sv_main.c\<close>.
  \<open>Requests\<close>: the request a host reads out of a datagram is the one the other side has printed.
  \<open>Sv_Connect_Laws\<close>: what the challenges protect, and that a good request gets in.

  \<^bold>\<open>The client.\<close> The record \<open>cl_static\<close> has what the client keeps (\<open>cl\<close> and \<open>cls\<close> of
  \<open>cl_types.h\<close>), with a log of the calls into the renderer, the sound and the files, and
  \<open>cl_env\<close> has what it asks of them and of the console variables (\<open>Cl_State\<close>).
  \<open>Cl_Connect\<close>: connecting and disconnecting, of \<open>cl_main.c\<close>. \<open>Cl_Download\<close>: downloads
  over the channel and over HTTP, of \<open>cl_parse.c\<close>, \<open>cl_media.c\<close> and \<open>cl_http.c\<close>. \<open>Cl_Demo\<close>:
  \<open>cl_demo.c\<close>. \<open>Cl_Servers\<close>: the list of servers, \<open>cl_server.c\<close>. \<open>Cl_Parse\<close>: the messages
  of the server, \<open>cl_parse.c\<close>, and what of \<open>cl_predict.c\<close> does not move the player.
  \<open>Cl_Main\<close>: the loop over the messages, which ends as each step reads on, the packets, the
  movement commands of \<open>cl_cmd.c\<close> and the frame of the client.

  \<open>Cl_Moves\<close>: the movement commands of the client reach the simulation of the server, also
  those of lost packets. \<open>Handshake\<close>: client and server connect. \<open>Cl_Samples\<close>: a client for
  the witnesses.

  \<^bold>\<open>The master server.\<close> \<open>Ms_Master\<close>: \<open>src/master/main.c\<close>, a turn of its loop at a time.
  \<open>Ms_Laws\<close>: it keeps a map from addresses to whether they have acknowledged, and the client gets
  the list of those that have; where a server times out, the code reads freed memory, which
  \<open>frame_fails\<close> states.

  \<^bold>\<open>Not modelled.\<close> The renderer, the sound and the user interface produce output only; the
  file system wraps a library; the game modules are reached through their tables only; the map compiler is a separate tool, of which only the
  compression of visibility is here. Of the collision model the loading of the
  lumps is missing (it does not check the references between the nodes: the theorems on trees ask for trees
  whose nodes refer to later ones, as the map compiler writes them), of the client the keys, the console and the screen, and of the prediction
  the movement itself, which is the game module's. Console output and
  the console variables that only steer it are left out throughout.
\<close>

end
